(* ===== verification/Sync_Prelude.thy ===== *)
theory Sync_Prelude
  imports Main "HOL-Library.Word" "HOL-Library.Finite_Map"
begin

text \<open>
  Shared vocabulary of the development: the machine integers of the Rust sources and their
  saturating operations, results and panics as values, the parts of the standard library's
  vectors that the sources use, and the lemma collections that the component theories extend.

  Conventions. A \<open>u8\<close>, \<open>u16\<close>, \<open>u32\<close> or \<open>u64\<close> is a word of that width. A \<open>usize\<close> (64 bit
  targets) is a \<open>nat\<close>: it counts elements of collections held in memory, and every place where
  the code saturates it is written with \<open>usize_add\<close> or \<open>usize_mul\<close>, which stop at
  \<open>usize_max\<close>. A \<open>Result\<close> is a sum, \<open>Err\<close> on the left. An operation on \<open>&mut self\<close> returns the
  result together with the new state, also on its error branches. Where the code can panic, the
  operation returns an option and \<open>None\<close> is the panic.
\<close>

section \<open>Machine integers\<close>

type_synonym u8 = "8 word"
type_synonym u16 = "16 word"
type_synonym u32 = "32 word"
type_synonym u64 = "64 word"
type_synonym usize = nat
type_synonym bytes = "8 word list"

named_theorems rust_simps \<open>unfolding of the Rust vocabulary\<close>

definition sat_add :: "'a::len word \<Rightarrow> 'a word \<Rightarrow> 'a word" where
  "sat_add a b = (if unat a + unat b < 2 ^ LENGTH('a) then a + b else - 1)"

definition sat_sub :: "'a::len word \<Rightarrow> 'a word \<Rightarrow> 'a word" where
  "sat_sub a b = (if a \<le> b then 0 else a - b)"

definition sat_mul :: "'a::len word \<Rightarrow> 'a word \<Rightarrow> 'a word" where
  "sat_mul a b = (if unat a * unat b < 2 ^ LENGTH('a) then a * b else - 1)"

definition usize_max :: usize where
  "usize_max = 2 ^ 64 - 1"

definition usize_add :: "usize \<Rightarrow> usize \<Rightarrow> usize" where
  "usize_add a b = min (a + b) usize_max"

definition usize_mul :: "usize \<Rightarrow> usize \<Rightarrow> usize" where
  "usize_mul a b = min (a * b) usize_max"

lemma unat_sat_add: "unat (sat_add a b) = min (unat a + unat b) (2 ^ LENGTH('a) - 1)"
  for a b :: "'a::len word"
proof (cases "unat a + unat b < 2 ^ LENGTH('a)")
  case True
  then show ?thesis by (simp add: sat_add_def unat_word_ariths)
next
  case False
  then show ?thesis by (simp add: sat_add_def unsigned_minus_1_eq_mask mask_eq_exp_minus_1)
qed

lemma unat_sat_sub: "unat (sat_sub a b) = unat a - unat b"
  by (auto simp: sat_sub_def word_le_nat_alt unat_sub_if')

lemma sat_add_mono: "a \<le> sat_add a b" for a :: "'a::len word"
proof -
  have "unat a < 2 ^ LENGTH('a)" by (rule unsigned_less)
  then have "unat a \<le> 2 ^ LENGTH('a) - 1" by arith
  then show ?thesis by (simp add: word_le_nat_alt unat_sat_add)
qed

lemma unat_minus_one: "unat (- 1 :: 'a::len word) = 2 ^ LENGTH('a) - 1"
  by (simp add: unsigned_minus_1_eq_mask mask_eq_exp_minus_1)

lemma sat_add_one_less:
  fixes a :: "'a::len word"
  assumes "a < - 1"
  shows "a < sat_add a 1"
proof -
  have "unat a < 2 ^ LENGTH('a) - 1"
    using assms by (simp add: word_less_nat_alt unsigned_minus_1_eq_mask mask_eq_exp_minus_1)
  then show ?thesis by (simp add: word_less_nat_alt unat_sat_add)
qed

lemma usize_add_le [simp]: "usize_add a b \<le> usize_max"
  by (simp add: usize_add_def)

lemma usize_add_0 [simp]: "usize_add 0 b = min b usize_max" "usize_add a 0 = min a usize_max"
  by (simp_all add: usize_add_def)

lemma usize_add_small: "a + b \<le> usize_max \<Longrightarrow> usize_add a b = a + b"
  by (simp add: usize_add_def)

lemma of_nat_eq_iff_lt:
  "m < 2 ^ LENGTH('a) \<Longrightarrow> n < 2 ^ LENGTH('a) \<Longrightarrow> (of_nat m :: 'a::len word) = of_nat n \<longleftrightarrow> m = n"
  by (metis unat_of_nat mod_less)

section \<open>Results and panics\<close>

abbreviation Ok :: "'a \<Rightarrow> 'e + 'a" where "Ok \<equiv> Inr"
abbreviation Err :: "'e \<Rightarrow> 'e + 'a" where "Err \<equiv> Inl"

text \<open>The \<open>?\<close> operator: the first error ends the computation.\<close>

definition and_then :: "'e + 'a \<Rightarrow> ('a \<Rightarrow> 'e + 'b) \<Rightarrow> 'e + 'b" where
  "and_then r f = (case r of Inl e \<Rightarrow> Inl e | Inr x \<Rightarrow> f x)"

definition map_err :: "('e \<Rightarrow> 'f) \<Rightarrow> 'e + 'a \<Rightarrow> 'f + 'a" where
  "map_err f r = (case r of Inl e \<Rightarrow> Inl (f e) | Inr x \<Rightarrow> Inr x)"

lemma and_then_simps [simp]:
  "and_then (Err e) f = Err e" "and_then (Ok x) f = f x"
  by (simp_all add: and_then_def)

lemma map_err_simps [simp]:
  "map_err g (Err e) = Err (g e)" "map_err g (Ok x) = Ok x"
  by (simp_all add: map_err_def)

lemma and_then_Ok_iff: "and_then r f = Ok y \<longleftrightarrow> (\<exists>x. r = Ok x \<and> f x = Ok y)"
  by (cases r) auto

lemma and_then_Err_iff: "and_then r f = Err e \<longleftrightarrow> r = Err e \<or> (\<exists>x. r = Ok x \<and> f x = Err e)"
  by (cases r) auto

lemma and_then_cong [fundef_cong]:
  "r = r' \<Longrightarrow> (\<And>x. r' = Ok x \<Longrightarrow> f x = f' x) \<Longrightarrow> and_then r f = and_then r' f'"
  by (cases r') auto

definition is_ok :: "'e + 'a \<Rightarrow> bool" where
  "is_ok r = (case r of Inl _ \<Rightarrow> False | Inr _ \<Rightarrow> True)"

lemma is_ok_simps [simp]: "is_ok (Ok x)" "\<not> is_ok (Err e)"
  by (simp_all add: is_ok_def)

section \<open>Vectors\<close>

text \<open>\<open>slice.get(i)\<close>: \<open>None\<close> out of range.\<close>

definition vec_get :: "'a list \<Rightarrow> nat \<Rightarrow> 'a option" where
  "vec_get xs i = (if i < length xs then Some (xs ! i) else None)"

text \<open>\<open>Vec::resize\<close>.\<close>

definition vec_resize :: "'a list \<Rightarrow> nat \<Rightarrow> 'a \<Rightarrow> 'a list" where
  "vec_resize xs n v = take n xs @ replicate (n - length xs) v"

text \<open>\<open>Vec::pop\<close>: the last element and the shorter vector.\<close>

definition vec_pop :: "'a list \<Rightarrow> ('a \<times> 'a list) option" where
  "vec_pop xs = (if xs = [] then None else Some (last xs, butlast xs))"

lemma vec_get_Some_iff: "vec_get xs i = Some x \<longleftrightarrow> i < length xs \<and> xs ! i = x"
  by (auto simp: vec_get_def)

lemma vec_get_None_iff: "vec_get xs i = None \<longleftrightarrow> length xs \<le> i"
  by (auto simp: vec_get_def)

lemma vec_get_update:
  "vec_get (xs[i := v]) j = (if i = j \<and> i < length xs then Some v else vec_get xs j)"
  by (auto simp: vec_get_def)

lemma length_vec_resize [simp]: "length (vec_resize xs n v) = n"
  by (simp add: vec_resize_def)

lemma vec_get_resize:
  "vec_get (vec_resize xs n v) i =
     (if i < n then (case vec_get xs i of Some x \<Rightarrow> Some x | None \<Rightarrow> Some v) else None)"
  by (auto simp: vec_get_def vec_resize_def nth_append)

lemma vec_pop_Some_iff: "vec_pop xs = Some (x, ys) \<longleftrightarrow> xs = ys @ [x]"
  by (cases xs rule: rev_cases) (auto simp: vec_pop_def)

lemma vec_pop_None_iff [simp]: "vec_pop xs = None \<longleftrightarrow> xs = []"
  by (simp add: vec_pop_def)

section \<open>Finite maps\<close>

abbreviation map_len :: "('k, 'v) fmap \<Rightarrow> nat" where
  "map_len m \<equiv> fcard (fmdom m)"

lemma map_len_upd:
  "map_len (fmupd k v m) = (if fmlookup m k = None then Suc (map_len m) else map_len m)"
  by (simp add: fcard_finsert_if fmlookup_dom_iff)

lemma map_len_drop:
  "map_len (fmdrop k m) = (if fmlookup m k = None then map_len m else map_len m - 1)"
  by (simp add: fcard_fminus_fsingleton_if fmlookup_dom_iff)

lemma map_len_insert:
  "fcard (finsert k (fmdom m)) = (if fmlookup m k = None then Suc (map_len m) else map_len m)"
  using map_len_upd [of k undefined m] by simp

lemma map_len_delete:
  "fcard (fmdom m |-| {|k|}) = (if fmlookup m k = None then map_len m else map_len m - 1)"
  using map_len_drop [of k m] by simp

lemma map_len_pos: "fmlookup m k = Some v \<Longrightarrow> 0 < map_len m"
  by (metis fcard_finsert fmdomI map_len_insert mk_disjoint_finsert zero_less_Suc)

lemma map_len_filter_le: "map_len (fmfilter P m) \<le> map_len m"
  by (rule fcard_mono) auto

end
