(* ===== verification/Lane_Bank.thy ===== *)
theory Lane_Bank
  imports Sync_Prelude
begin

text \<open>
  The contract shared by the bounded command queues and the bounded event queues: a bank of FIFO
  lanes in order of preference whose \<open>pop\<close> takes the oldest element of the first lane that is not
  empty. The locale \<open>lane_bank\<close> states it, and its lemmas say what a consumer that keeps popping
  receives.
\<close>

text \<open>\<open>VecDeque::pop_front\<close>.\<close>

definition pop_front :: "'a list \<Rightarrow> 'a option \<times> 'a list" where
  "pop_front q = (case q of [] \<Rightarrow> (None, []) | x # xs \<Rightarrow> (Some x, xs))"

lemma pop_front_simps [simp]: "pop_front [] = (None, [])" "pop_front (x # xs) = (Some x, xs)"
  by (simp_all add: pop_front_def)

text \<open>A consumer that pops at most \<open>n\<close> times and stops at the first empty answer.\<close>

fun pop_upto :: "('s \<Rightarrow> 'e option \<times> 's) \<Rightarrow> nat \<Rightarrow> 's \<Rightarrow> 'e list \<times> 's" where
  "pop_upto pop 0 s = ([], s)"
| "pop_upto pop (Suc n) s =
     (case pop s of
        (None, s') \<Rightarrow> ([], s')
      | (Some e, s') \<Rightarrow> (case pop_upto pop n s' of (es, s'') \<Rightarrow> (e # es, s'')))"

locale lane_bank =
  fixes lanes :: "'s \<Rightarrow> 'e list list" and pop :: "'s \<Rightarrow> 'e option \<times> 's"
  assumes pop_empty: "pop s = (None, s') \<Longrightarrow> s' = s \<and> concat (lanes s) = []"
    and pop_head: "pop s = (Some e, s') \<Longrightarrow> concat (lanes s) = e # concat (lanes s')"
begin

lemma pop_none_iff: "fst (pop s) = None \<longleftrightarrow> concat (lanes s) = []"
proof (cases "pop s")
  case (Pair x s')
  then show ?thesis using pop_empty [of s s'] pop_head [of s _ s'] by (cases x) auto
qed

lemma pop_upto_take: "fst (pop_upto pop n s) = take n (concat (lanes s))"
proof (induction n arbitrary: s)
  case (Suc n)
  obtain x s' where p: "pop s = (x, s')" by (cases "pop s")
  show ?case
  proof (cases x)
    case None
    with p have "concat (lanes s) = []" "s' = s" using pop_empty [of s s'] by blast+
    with p None show ?thesis by (simp del: concat_eq_Nil_conv)
  next
    case (Some e)
    with p pop_head [of s e s'] Suc.IH [of s'] show ?thesis by (auto split: prod.splits)
  qed
qed simp

lemma pop_upto_rest: "concat (lanes (snd (pop_upto pop n s))) = drop n (concat (lanes s))"
proof (induction n arbitrary: s)
  case (Suc n)
  obtain x s' where p: "pop s = (x, s')" by (cases "pop s")
  show ?case
  proof (cases x)
    case None
    with p have "concat (lanes s) = []" "s' = s" using pop_empty [of s s'] by blast+
    with p None show ?thesis by (simp del: concat_eq_Nil_conv)
  next
    case (Some e)
    with p pop_head [of s e s'] Suc.IH [of s'] show ?thesis by (auto split: prod.splits)
  qed
qed simp

lemma pop_all:
  assumes "length (concat (lanes s)) \<le> n"
  shows "fst (pop_upto pop n s) = concat (lanes s)" "concat (lanes (snd (pop_upto pop n s))) = []"
  unfolding pop_upto_take pop_upto_rest using assms by (simp_all del: length_concat)

end

end
