(* ===== verification/Float32.thy ===== *)
theory Float32
  imports Sync_Prelude
begin

text \<open>
  The \<open>f32\<close> of the sources: IEEE 754 binary32, with the operations the spatial code uses. A
  value is its bit pattern, so a copy is the identity and \<open>to_le_bytes\<close> is the byte view of
  the word. Every finite value is an integer multiple of \<open>2^-149\<close>, the \<^emph>\<open>unit\<close>; arithmetic is
  exact integer arithmetic in units followed by one rounding to nearest, ties to even.
  A NaN result is the quiet NaN (the language leaves its payload open). The section on
  monotonicity is what the spatial index rests on: rounding, scaling by a positive factor,
  flooring and casting to \<open>i32\<close> never reverse an order.
\<close>

section \<open>Representation\<close>

type_synonym f32 = "32 word"

definition f32_sign :: "f32 \<Rightarrow> bool" where
  "f32_sign x = (2 ^ 31 \<le> unat x)"

definition f32_mag :: "f32 \<Rightarrow> nat" where
  "f32_mag x = unat x mod 2 ^ 31"

definition f32_mk :: "bool \<Rightarrow> nat \<Rightarrow> f32" where
  "f32_mk s k = word_of_nat (k + (if s then 2 ^ 31 else 0))"

definition inf_mag :: nat where
  "inf_mag = 2139095040"

definition f32_nan :: f32 where
  "f32_nan = 2143289344"

definition f32_is_nan :: "f32 \<Rightarrow> bool" where
  "f32_is_nan x = (inf_mag < f32_mag x)"

definition f32_is_inf :: "f32 \<Rightarrow> bool" where
  "f32_is_inf x = (f32_mag x = inf_mag)"

definition f32_is_finite :: "f32 \<Rightarrow> bool" where
  "f32_is_finite x = (f32_mag x < inf_mag)"

definition f32_is_zero :: "f32 \<Rightarrow> bool" where
  "f32_is_zero x = (f32_mag x = 0)"

text \<open>
  The magnitude of a finite pattern in units: subnormal patterns are their own value, the
  others have the hidden bit.
\<close>

definition mag_units :: "nat \<Rightarrow> nat" where
  "mag_units k = (if k < 2 ^ 23 then k else (2 ^ 23 + k mod 2 ^ 23) * 2 ^ (k div 2 ^ 23 - 1))"

definition f32_units :: "f32 \<Rightarrow> int" where
  "f32_units x = (if f32_sign x then - int (mag_units (f32_mag x)) else int (mag_units (f32_mag x)))"

text \<open>The position of a non-NaN value in the float order; both zeros are at \<open>0\<close>.\<close>

definition f32_key :: "f32 \<Rightarrow> int" where
  "f32_key x = (if f32_sign x then - int (f32_mag x) else int (f32_mag x))"

lemma f32_mag_less: "f32_mag x < 2 ^ 31"
  by (simp add: f32_mag_def)

lemma f32_mk_sel [simp]:
  assumes "k < 2 ^ 31"
  shows "f32_mag (f32_mk s k) = k" "f32_sign (f32_mk s k) = s"
proof -
  have "unat (f32_mk s k) = k + (if s then 2 ^ 31 else 0)"
    using assms unfolding f32_mk_def unat_of_nat by (cases s) simp_all
  then show "f32_mag (f32_mk s k) = k" "f32_sign (f32_mk s k) = s"
    using assms by (auto simp: f32_mag_def f32_sign_def)
qed

lemma f32_nan_is_nan [simp]: "f32_is_nan f32_nan"
  by (simp add: f32_nan_def f32_is_nan_def f32_mag_def inf_mag_def)

lemma f32_class_cases: "f32_is_nan x \<or> f32_is_inf x \<or> f32_is_finite x"
  by (auto simp: f32_is_nan_def f32_is_inf_def f32_is_finite_def)

lemma mag_units_step: "mag_units k < mag_units (Suc k)"
proof -
  define e m where "e = k div 2 ^ 23" and "m = k mod 2 ^ 23"
  have k: "k = e * 2 ^ 23 + m" and m: "m < 2 ^ 23"
    by (simp_all add: e_def m_def)
  consider "Suc k < 2 ^ 23" | "Suc k = 2 ^ 23" | "2 ^ 23 \<le> k" "Suc m < 2 ^ 23"
    | "2 ^ 23 \<le> k" "Suc m = 2 ^ 23" using m by linarith
  then show ?thesis
  proof cases
    case 3
    then have "Suc k div 2 ^ 23 = e" "Suc k mod 2 ^ 23 = Suc m"
      by (simp_all add: k)
    with 3 show ?thesis by (simp add: mag_units_def e_def m_def)
  next
    case 4
    then have "1 \<le> e" by (simp add: e_def div_greater_zero_iff Suc_le_eq)
    then obtain e' where e': "e = Suc e'" by (cases e) auto
    have "Suc k = (Suc e) * 2 ^ 23" using 4(2) by (simp add: k)
    then have "Suc k div 2 ^ 23 = Suc e" "Suc k mod 2 ^ 23 = 0" by (simp_all only:) simp_all
    then have "mag_units (Suc k) = 2 ^ 23 * 2 ^ Suc e'"
      using 4 by (simp add: mag_units_def e')
    moreover have "k div 2 ^ 23 = Suc e'" "k mod 2 ^ 23 = m" using e' by (simp_all add: e_def m_def)
    then have "mag_units k = (2 ^ 23 + m) * 2 ^ e'"
      using 4(1) by (simp add: mag_units_def)
    ultimately show ?thesis using m by simp
  qed (simp_all add: mag_units_def)
qed

lemma mag_units_strict_mono: "strict_mono mag_units"
  by (simp add: strict_mono_Suc_iff mag_units_step)

lemma mag_units_less_iff [simp]: "mag_units a < mag_units b \<longleftrightarrow> a < b"
  by (simp add: strict_mono_less [OF mag_units_strict_mono])

lemma mag_units_le_iff [simp]: "mag_units a \<le> mag_units b \<longleftrightarrow> a \<le> b"
  by (simp add: strict_mono_less_eq [OF mag_units_strict_mono])

lemma mag_units_eq_iff [simp]: "mag_units a = mag_units b \<longleftrightarrow> a = b"
  by (simp add: strict_mono_eq [OF mag_units_strict_mono])

lemma mag_units_0 [simp]: "mag_units 0 = 0"
  by (simp add: mag_units_def)

lemma mag_units_eq_0 [simp]: "mag_units k = 0 \<longleftrightarrow> k = 0" "0 < mag_units k \<longleftrightarrow> 0 < k"
  using mag_units_eq_iff [of k 0] mag_units_less_iff [of 0 k] by simp_all

section \<open>Rounding\<close>

text \<open>
  \<open>mag_search b k n d\<close> is the greatest pattern in \<open>{k ..< k + 2^b}\<close> whose value is at most
  \<open>n / d\<close> units, found by bisection; \<open>round_mag\<close> rounds \<open>n / d\<close> to the nearest pattern, to
  the even one on a tie, and to infinity from half a step beyond the largest finite value.
\<close>

fun mag_search :: "nat \<Rightarrow> nat \<Rightarrow> nat \<Rightarrow> nat \<Rightarrow> nat" where
  "mag_search 0 k n d = k"
| "mag_search (Suc b) k n d =
     (if mag_units (k + 2 ^ b) * d \<le> n then mag_search b (k + 2 ^ b) n d else mag_search b k n d)"

definition mag_floor :: "nat \<Rightarrow> nat \<Rightarrow> nat" where
  "mag_floor n d = mag_search 31 0 n d"

definition round_mag :: "nat \<Rightarrow> nat \<Rightarrow> nat" where
  "round_mag n d =
     (let k = mag_floor n d; t = (mag_units k + mag_units (Suc k)) * d
      in if inf_mag \<le> k then inf_mag
         else if 2 * n < t then k
         else if t < 2 * n then Suc k
         else if even k then k else Suc k)"

text \<open>The value \<open>i / d\<close> units as a float; an exact zero takes the given sign.\<close>

definition f32_of_frac :: "bool \<Rightarrow> int \<Rightarrow> nat \<Rightarrow> f32" where
  "f32_of_frac z i d =
     (if i = 0 then f32_mk z 0 else f32_mk (i < 0) (round_mag (nat \<bar>i\<bar>) d))"

lemma mag_search_numeral [simp]:
  "mag_search (numeral b) k n d =
     (if mag_units (k + 2 ^ pred_numeral b) * d \<le> n
      then mag_search (pred_numeral b) (k + 2 ^ pred_numeral b) n d
      else mag_search (pred_numeral b) k n d)"
  by (simp add: numeral_eq_Suc)

lemma mag_search_spec:
  assumes "mag_units k * d \<le> n" and "n < mag_units (k + 2 ^ b) * d \<or> lim \<le> k + 2 ^ b"
  shows "mag_units (mag_search b k n d) * d \<le> n \<and>
    (n < mag_units (Suc (mag_search b k n d)) * d \<or> lim \<le> Suc (mag_search b k n d))"
  using assms
proof (induction b arbitrary: k)
  case 0
  then show ?case by simp
next
  case (Suc b)
  show ?case
  proof (cases "mag_units (k + 2 ^ b) * d \<le> n")
    case True
    have "k + 2 ^ b + 2 ^ b = k + 2 ^ Suc b" by simp
    with Suc.prems(2) Suc.IH [OF True] True show ?thesis by simp
  next
    case False
    with Suc.IH [OF Suc.prems(1)] show ?thesis by simp
  qed
qed

lemma mag_floor_spec:
  "mag_units (mag_floor n d) * d \<le> n"
  "n < mag_units (Suc (mag_floor n d)) * d \<or> 2 ^ 31 \<le> Suc (mag_floor n d)"
  using mag_search_spec [of 0 d n 31 "2 ^ 31"] by (simp_all add: mag_floor_def del: mag_search_numeral)


lemma round_mag_le_inf: "round_mag n d \<le> inf_mag"
  by (simp add: round_mag_def Let_def)

lemma round_mag_less [simp]: "round_mag n d < 2147483648"
  using round_mag_le_inf [of n d] by (simp add: inf_mag_def)

lemma round_mag_bounds:
  "mag_floor n d < inf_mag \<Longrightarrow> mag_floor n d \<le> round_mag n d"
  "round_mag n d \<le> Suc (mag_floor n d)"
  by (auto simp: round_mag_def Let_def)

lemma mag_floor_mono:
  assumes le: "n * e \<le> m * d" and d: "0 < d" and e: "0 < e" and fin: "mag_floor m e < inf_mag"
  shows "mag_floor n d \<le> mag_floor m e"
proof (rule ccontr)
  assume "\<not> ?thesis"
  then have "mag_units (Suc (mag_floor m e)) \<le> mag_units (mag_floor n d)" by simp
  then have "mag_units (Suc (mag_floor m e)) * e * d \<le> mag_units (mag_floor n d) * d * e"
    by (simp add: mult.commute mult.left_commute mult_le_mono)
  also have "\<dots> \<le> n * e" using mag_floor_spec(1) [of n d] by simp
  also have "\<dots> \<le> m * d" by (rule le)
  also have "m * d < mag_units (Suc (mag_floor m e)) * e * d"
    using mag_floor_spec(2) [of m e] fin d by (auto simp: inf_mag_def)
  finally show False by simp
qed

lemma round_mag_mono:
  assumes le: "n * e \<le> m * d" and d: "0 < d" and e: "0 < e"
  shows "round_mag n d \<le> round_mag m e"
proof (cases "mag_floor m e < inf_mag")
  case False
  then have "round_mag m e = inf_mag" by (simp add: round_mag_def)
  then show ?thesis by (simp add: round_mag_le_inf)
next
  case True
  note floor_le = mag_floor_mono [OF le d e True]
  show ?thesis
  proof (cases "mag_floor n d = mag_floor m e")
    case False
    with floor_le have "Suc (mag_floor n d) \<le> mag_floor m e" by simp
    with round_mag_bounds(2) [of n d] round_mag_bounds(1) [OF True] show ?thesis by linarith
  next
    case eq: True
    define k t where "k = mag_floor m e" and "t = mag_units k + mag_units (Suc k)"
    have mul: "2 * n * e \<le> 2 * m * d" using le by simp
    have up: "2 * m < t * e \<Longrightarrow> 2 * n < t * d"
    proof -
      assume "2 * m < t * e"
      then have "2 * m * d < t * e * d" using d by simp
      with mul have "2 * n * e < t * e * d" by (rule le_less_trans)
      also have "t * e * d = t * d * e" by (simp only: ac_simps)
      finally show "2 * n < t * d" by simp
    qed
    have tie: "2 * m = t * e \<Longrightarrow> 2 * n \<le> t * d"
    proof -
      assume "2 * m = t * e"
      with mul have "2 * n * e \<le> t * e * d" by simp
      also have "t * e * d = t * d * e" by (simp only: ac_simps)
      finally show "2 * n \<le> t * d" using e by simp
    qed
    show ?thesis
      using True eq up tie
      by (auto simp: round_mag_def Let_def k_def [symmetric] t_def [symmetric])
  qed
qed

lemma round_mag_exact:
  assumes "k < inf_mag"
  shows "round_mag (mag_units k) 1 = k"
proof -
  have "mag_floor (mag_units k) 1 \<le> k" using mag_floor_spec(1) [of "mag_units k" 1] by simp
  moreover have "k < Suc (mag_floor (mag_units k) 1)"
    using mag_floor_spec(2) [of "mag_units k" 1] assms by (auto simp: inf_mag_def)
  ultimately have "mag_floor (mag_units k) 1 = k" by simp
  with assms show ?thesis using mag_units_step [of k] by (simp add: round_mag_def)
qed

lemma round_mag_0: "0 < d \<Longrightarrow> round_mag 0 d = 0"
  using round_mag_mono [of 0 1 "mag_units 0" d] round_mag_exact [of 0] by (simp add: inf_mag_def)

section \<open>Operations\<close>

definition f32_le :: "f32 \<Rightarrow> f32 \<Rightarrow> bool" where
  "f32_le x y = (\<not> f32_is_nan x \<and> \<not> f32_is_nan y \<and> f32_key x \<le> f32_key y)"

definition f32_lt :: "f32 \<Rightarrow> f32 \<Rightarrow> bool" where
  "f32_lt x y = (\<not> f32_is_nan x \<and> \<not> f32_is_nan y \<and> f32_key x < f32_key y)"

definition f32_eq :: "f32 \<Rightarrow> f32 \<Rightarrow> bool" where
  "f32_eq x y = (\<not> f32_is_nan x \<and> \<not> f32_is_nan y \<and> f32_key x = f32_key y)"

text \<open>\<open>total_cmp\<close> orders the bit patterns, negative ones reversed and first.\<close>

definition f32_total_key :: "f32 \<Rightarrow> int" where
  "f32_total_key x = (if f32_sign x then - int (f32_mag x) - 1 else int (f32_mag x))"

definition f32_neg :: "f32 \<Rightarrow> f32" where
  "f32_neg x = f32_mk (\<not> f32_sign x) (f32_mag x)"

definition f32_add :: "f32 \<Rightarrow> f32 \<Rightarrow> f32" where
  "f32_add x y =
     (if f32_is_nan x \<or> f32_is_nan y then f32_nan
      else if f32_is_inf x then
        (if f32_is_inf y \<and> f32_sign x \<noteq> f32_sign y then f32_nan else x)
      else if f32_is_inf y then y
      else f32_of_frac (f32_sign x \<and> f32_sign y) (f32_units x + f32_units y) 1)"

definition f32_sub :: "f32 \<Rightarrow> f32 \<Rightarrow> f32" where
  "f32_sub x y = f32_add x (f32_neg y)"

definition f32_mul :: "f32 \<Rightarrow> f32 \<Rightarrow> f32" where
  "f32_mul x y =
     (let s = (f32_sign x \<noteq> f32_sign y) in
      if f32_is_nan x \<or> f32_is_nan y then f32_nan
      else if f32_is_inf x \<or> f32_is_inf y then
        (if f32_is_zero x \<or> f32_is_zero y then f32_nan else f32_mk s inf_mag)
      else f32_of_frac s (f32_units x * f32_units y) (2 ^ 149))"

text \<open>\<open>x.mul_add(y, z)\<close>: the product is not rounded.\<close>

definition f32_mul_add :: "f32 \<Rightarrow> f32 \<Rightarrow> f32 \<Rightarrow> f32" where
  "f32_mul_add x y z =
     (let s = (f32_sign x \<noteq> f32_sign y) in
      if f32_is_nan x \<or> f32_is_nan y \<or> f32_is_nan z then f32_nan
      else if f32_is_inf x \<or> f32_is_inf y then
        (if f32_is_zero x \<or> f32_is_zero y \<or> (f32_is_inf z \<and> f32_sign z \<noteq> s) then f32_nan
         else f32_mk s inf_mag)
      else if f32_is_inf z then z
      else f32_of_frac (s \<and> f32_sign z)
             (f32_units x * f32_units y + f32_units z * 2 ^ 149) (2 ^ 149))"

definition f32_div :: "f32 \<Rightarrow> f32 \<Rightarrow> f32" where
  "f32_div x y =
     (let s = (f32_sign x \<noteq> f32_sign y) in
      if f32_is_nan x \<or> f32_is_nan y then f32_nan
      else if f32_is_inf x then (if f32_is_inf y then f32_nan else f32_mk s inf_mag)
      else if f32_is_inf y then f32_mk s 0
      else if f32_is_zero y then (if f32_is_zero x then f32_nan else f32_mk s inf_mag)
      else f32_of_frac s (sgn (f32_units y) * f32_units x * 2 ^ 149) (nat \<bar>f32_units y\<bar>))"

definition f32_floor :: "f32 \<Rightarrow> f32" where
  "f32_floor x =
     (if f32_is_nan x then f32_nan else if f32_is_inf x then x
      else f32_of_frac (f32_sign x) (f32_units x div 2 ^ 149 * 2 ^ 149) 1)"

text \<open>\<open>round\<close>: to the nearest integer, halves away from zero.\<close>

definition f32_round :: "f32 \<Rightarrow> f32" where
  "f32_round x =
     (if f32_is_nan x then f32_nan else if f32_is_inf x then x
      else f32_of_frac (f32_sign x)
             (sgn (f32_units x) * ((\<bar>f32_units x\<bar> + 2 ^ 148) div 2 ^ 149) * 2 ^ 149) 1)"

definition f32_clamp :: "f32 \<Rightarrow> f32 \<Rightarrow> f32 \<Rightarrow> f32" where
  "f32_clamp x lo hi = (let y = (if f32_lt x lo then lo else x) in if f32_lt hi y then hi else y)"

text \<open>\<open>as\<close> casts to an integer range: truncate, saturate, NaN to zero.\<close>

definition f32_trunc :: "f32 \<Rightarrow> int" where
  "f32_trunc x = sgn (f32_units x) * (\<bar>f32_units x\<bar> div 2 ^ 149)"

definition f32_to_int :: "int \<Rightarrow> int \<Rightarrow> f32 \<Rightarrow> int" where
  "f32_to_int lo hi x =
     (if f32_is_nan x then 0
      else if f32_is_inf x then (if f32_sign x then lo else hi)
      else max lo (min hi (f32_trunc x)))"

definition f32_of_int :: "int \<Rightarrow> f32" where
  "f32_of_int i = f32_of_frac False (i * 2 ^ 149) 1"

definition f32_zero :: f32 where "f32_zero = 0"
definition f32_one :: f32 where "f32_one = 1065353216"

section \<open>Order and monotonicity\<close>

lemma f32_key_of_frac:
  assumes "0 < d"
  shows "f32_key (f32_of_frac z i d) = sgn i * int (round_mag (nat \<bar>i\<bar>) d)"
  by (auto simp: f32_of_frac_def f32_key_def sgn_if)

lemma f32_of_frac_not_nan [simp]: "\<not> f32_is_nan (f32_of_frac z i d)"
  using round_mag_le_inf [of "nat \<bar>i\<bar>" d]
  by (auto simp: f32_of_frac_def f32_is_nan_def inf_mag_def)

lemma f32_of_frac_mono:
  assumes d: "0 < d" and e: "0 < e" and le: "i * int e \<le> j * int d"
  shows "f32_key (f32_of_frac y i d) \<le> f32_key (f32_of_frac z j e)"
proof -
  have nat_le: "nat a * nat b \<le> nat c * nat f" if "0 \<le> a" "0 \<le> c" "a * b \<le> c * f" for a b c f :: int
    using that by (simp flip: nat_mult_distrib add: nat_mono)
  consider "0 \<le> i" "0 \<le> j" | "i < 0" "0 \<le> j" | "i < 0" "j < 0" | "0 \<le> i" "j < 0" by linarith
  then show ?thesis
  proof cases
    case 1
    then have "nat i * e \<le> nat j * d" using nat_le [of i j "int e" "int d"] le by simp
    then have "round_mag (nat i) d \<le> round_mag (nat j) e" by (rule round_mag_mono [OF _ d e])
    then show ?thesis using 1 round_mag_0 [OF d] round_mag_0 [OF e]
      by (auto simp: f32_key_of_frac d e sgn_if)
  next
    case 2
    then show ?thesis by (auto simp: f32_key_of_frac d e sgn_if)
  next
    case 3
    then have "nat (- j) * d \<le> nat (- i) * e" using nat_le [of "- j" "- i" "int d" "int e"] le by simp
    then have "round_mag (nat (- j)) e \<le> round_mag (nat (- i)) d" by (rule round_mag_mono [OF _ e d])
    then show ?thesis using 3 by (simp add: f32_key_of_frac d e)
  next
    case 4
    then have "j * int d < 0" "0 \<le> i * int e" using d by (simp_all add: mult_neg_pos)
    with le have False by linarith
    then show ?thesis ..
  qed
qed

lemma f32_finite_mag: "f32_is_finite x \<Longrightarrow> f32_mag x < inf_mag"
  by (simp add: f32_is_finite_def)

lemma f32_finite_simps:
  "f32_is_finite x \<Longrightarrow> \<not> f32_is_nan x" "f32_is_finite x \<Longrightarrow> \<not> f32_is_inf x"
  by (auto simp: f32_is_finite_def f32_is_nan_def f32_is_inf_def)

lemma f32_key_exact:
  assumes "f32_is_finite x"
  shows "f32_key (f32_of_frac z (f32_units x) 1) = f32_key x"
proof -
  have r: "round_mag (mag_units (f32_mag x)) 1 = f32_mag x"
    using assms by (intro round_mag_exact f32_finite_mag)
  have a: "nat \<bar>f32_units x\<bar> = mag_units (f32_mag x)"
    by (simp add: f32_units_def)
  have g: "sgn (f32_units x) = (if f32_mag x = 0 then 0 else if f32_sign x then - 1 else 1)"
    by (simp add: f32_units_def)
  have "f32_key (f32_of_frac z (f32_units x) 1) = sgn (f32_units x) * int (f32_mag x)"
    by (simp only: f32_key_of_frac [OF zero_less_one] a r)
  then show ?thesis by (simp add: g f32_key_def)
qed

lemma f32_units_le_iff: "f32_units x \<le> f32_units y \<longleftrightarrow> f32_key x \<le> f32_key y"
proof -
  have opp: "int p \<le> - int q \<longleftrightarrow> p = 0 \<and> q = 0" "- int p \<le> int q" for p q by auto
  show ?thesis
    by (cases "f32_sign x"; cases "f32_sign y") (simp_all add: f32_units_def f32_key_def opp)
qed

lemma f32_key_bounds:
  assumes "\<not> f32_is_nan x"
  shows "- int inf_mag \<le> f32_key x" "f32_key x \<le> int inf_mag"
  using assms by (auto simp: f32_is_nan_def f32_key_def)

lemma f32_key_inf: "f32_is_inf x \<Longrightarrow> f32_key x = (if f32_sign x then - int inf_mag else int inf_mag)"
  by (simp add: f32_is_inf_def f32_key_def)

lemma f32_key_extreme:
  assumes "\<not> f32_is_nan x"
  shows "f32_key x = int inf_mag \<Longrightarrow> f32_is_inf x \<and> \<not> f32_sign x"
    and "f32_key x = - int inf_mag \<Longrightarrow> f32_is_inf x \<and> f32_sign x"
  using assms by (auto simp: f32_is_inf_def f32_key_def inf_mag_def split: if_splits)

text \<open>Two ordered values are both finite, or one of them is an infinity on its own side.\<close>

lemma f32_le_cases [consumes 1, case_names finite low high]:
  assumes "f32_le x y"
  obtains "f32_is_finite x" "f32_is_finite y" "f32_units x \<le> f32_units y"
  | "f32_is_inf x" "f32_sign x" | "f32_is_inf y" "\<not> f32_sign y"
proof -
  have nn: "\<not> f32_is_nan x" "\<not> f32_is_nan y" and le: "f32_key x \<le> f32_key y"
    using assms by (simp_all add: f32_le_def)
  show ?thesis
  proof (cases "f32_is_finite x \<and> f32_is_finite y")
    case True
    with le show ?thesis using that(1) by (simp add: f32_units_le_iff)
  next
    case False
    then have "f32_is_inf x \<or> f32_is_inf y" using f32_class_cases nn by blast
    then show ?thesis
    proof
      assume x: "f32_is_inf x"
      show ?thesis
      proof (cases "f32_sign x")
        case True with x show ?thesis by (rule that(2))
      next
        case False
        then have "f32_key y = int inf_mag"
          using le x f32_key_bounds(2) [OF nn(2)] by (simp add: f32_key_inf)
        then show ?thesis using that(3) f32_key_extreme(1) [OF nn(2)] by blast
      qed
    next
      assume y: "f32_is_inf y"
      show ?thesis
      proof (cases "f32_sign y")
        case False with y show ?thesis by (rule that(3))
      next
        case True
        then have "f32_key x = - int inf_mag"
          using le y f32_key_bounds(1) [OF nn(1)] by (simp add: f32_key_inf)
        then show ?thesis using that(2) f32_key_extreme(2) [OF nn(1)] by blast
      qed
    qed
  qed
qed

lemma f32_neg_units [simp]: "f32_units (f32_neg x) = - f32_units x"
  using f32_mag_less [of x] by (simp add: f32_neg_def f32_units_def)

lemma f32_neg_class [simp]:
  "f32_is_finite (f32_neg x) = f32_is_finite x"
  "f32_is_nan (f32_neg x) = f32_is_nan x" "f32_is_inf (f32_neg x) = f32_is_inf x"
  using f32_mag_less [of x]
  by (simp_all add: f32_neg_def f32_is_finite_def f32_is_nan_def f32_is_inf_def)

text \<open>A float between the exact ends of an interval is between its rounded ends.\<close>

lemma f32_le_add:
  assumes fin: "f32_is_finite x" "f32_is_finite c" "f32_is_finite r"
    and le: "f32_units x \<le> f32_units c + f32_units r"
  shows "f32_le x (f32_add c r)"
proof -
  have "f32_add c r = f32_of_frac (f32_sign c \<and> f32_sign r) (f32_units c + f32_units r) 1"
    using fin by (simp add: f32_add_def f32_finite_simps)
  moreover have "f32_key (f32_of_frac False (f32_units x) 1) \<le>
      f32_key (f32_of_frac z (f32_units c + f32_units r) 1)" for z
    using le by (intro f32_of_frac_mono) simp_all
  ultimately show ?thesis using fin by (simp add: f32_le_def f32_key_exact [simplified] f32_finite_simps)
qed

lemma f32_sub_le:
  assumes fin: "f32_is_finite x" "f32_is_finite c" "f32_is_finite r"
    and le: "f32_units c - f32_units r \<le> f32_units x"
  shows "f32_le (f32_sub c r) x"
proof -
  have "f32_sub c r =
      f32_of_frac (f32_sign c \<and> f32_sign (f32_neg r)) (f32_units c - f32_units r) 1"
    using fin by (simp add: f32_sub_def f32_add_def f32_finite_simps)
  moreover have "f32_key (f32_of_frac z (f32_units c - f32_units r) 1) \<le>
      f32_key (f32_of_frac False (f32_units x) 1)" for z
    using le by (intro f32_of_frac_mono) simp_all
  ultimately show ?thesis using fin by (simp add: f32_le_def f32_key_exact [simplified] f32_finite_simps)
qed

lemma f32_floor_mono:
  assumes "f32_le x y"
  shows "f32_le (f32_floor x) (f32_floor y)"
proof -
  have nn: "\<not> f32_is_nan x" "\<not> f32_is_nan y" using assms by (simp_all add: f32_le_def)
  then have nn': "\<not> f32_is_nan (f32_floor x)" "\<not> f32_is_nan (f32_floor y)"
    by (simp_all add: f32_floor_def)
  show ?thesis
    using assms
  proof (cases rule: f32_le_cases)
    case finite
    then show ?thesis
      by (auto simp: f32_le_def f32_floor_def f32_finite_simps intro!: f32_of_frac_mono zdiv_mono1)
  next
    case low
    then have "f32_floor x = x" using nn by (simp add: f32_floor_def)
    with low nn nn' show ?thesis using f32_key_bounds(1) [OF nn'(2)]
      by (simp add: f32_le_def f32_key_inf)
  next
    case high
    then have "f32_floor y = y" using nn by (simp add: f32_floor_def)
    with high nn nn' show ?thesis using f32_key_bounds(2) [OF nn'(1)]
      by (simp add: f32_le_def f32_key_inf)
  qed
qed

lemma trunc_mono: "u \<le> v \<Longrightarrow> 0 < k \<Longrightarrow> sgn u * (\<bar>u\<bar> div k) \<le> sgn v * (\<bar>v\<bar> div k)"
  for u v k :: int
  by (auto simp: sgn_if zdiv_mono1 pos_imp_zdiv_nonneg_iff intro: order_trans [where y = 0])

lemma f32_to_int_range: "lo \<le> 0 \<Longrightarrow> 0 \<le> hi \<Longrightarrow> lo \<le> f32_to_int lo hi x \<and> f32_to_int lo hi x \<le> hi"
  by (auto simp: f32_to_int_def)

lemma f32_to_int_mono:
  assumes "f32_le x y" and lohi: "lo \<le> 0" "0 \<le> hi"
  shows "f32_to_int lo hi x \<le> f32_to_int lo hi y"
proof -
  have nn: "\<not> f32_is_nan x" "\<not> f32_is_nan y" using assms by (simp_all add: f32_le_def)
  show ?thesis
    using assms(1)
  proof (cases rule: f32_le_cases)
    case finite
    then have "f32_trunc x \<le> f32_trunc y" by (simp add: f32_trunc_def trunc_mono)
    with finite show ?thesis by (auto simp: f32_to_int_def f32_finite_simps)
  next
    case low
    with nn lohi f32_to_int_range [OF lohi, of y] show ?thesis by (simp add: f32_to_int_def)
  next
    case high
    with nn lohi f32_to_int_range [OF lohi, of x] show ?thesis by (simp add: f32_to_int_def)
  qed
qed

text \<open>Scaling by a positive factor, which may be infinite, then flooring and casting.\<close>

definition f32_positive :: "f32 \<Rightarrow> bool" where
  "f32_positive x = (\<not> f32_is_nan x \<and> \<not> f32_sign x \<and> \<not> f32_is_zero x)"

lemma f32_units_pos: "f32_positive x \<Longrightarrow> 0 < f32_units x"
  using mag_units_less_iff [of 0 "f32_mag x"]
  by (simp add: f32_positive_def f32_units_def f32_is_zero_def)

lemma f32_mul_pos_inf:
  assumes "f32_is_inf x" "f32_positive k"
  shows "f32_mul x k = f32_mk (f32_sign x) inf_mag"
  using assms
  by (auto simp: f32_mul_def f32_positive_def f32_is_inf_def f32_is_nan_def f32_is_zero_def inf_mag_def)

lemma f32_mk_inf [simp]:
  "f32_is_inf (f32_mk s inf_mag)" "f32_sign (f32_mk s inf_mag) = s" "\<not> f32_is_nan (f32_mk s inf_mag)"
  by (simp_all add: f32_is_inf_def f32_is_nan_def inf_mag_def)

lemma f32_floor_mul_mono:
  assumes le: "f32_le x y" and k: "f32_positive k" and lohi: "lo \<le> 0" "0 \<le> hi"
  shows "f32_to_int lo hi (f32_floor (f32_mul x k)) \<le> f32_to_int lo hi (f32_floor (f32_mul y k))"
  using le
proof (cases rule: f32_le_cases)
  case low
  then have "f32_to_int lo hi (f32_floor (f32_mul x k)) = lo"
    by (simp add: f32_mul_pos_inf k f32_floor_def f32_to_int_def)
  then show ?thesis using f32_to_int_range [OF lohi] by simp
next
  case high
  then have "f32_to_int lo hi (f32_floor (f32_mul y k)) = hi"
    by (simp add: f32_mul_pos_inf k f32_floor_def f32_to_int_def)
  then show ?thesis using f32_to_int_range [OF lohi] by simp
next
  case finite
  show ?thesis
  proof (cases "f32_is_inf k")
    case False
    then have kf: "f32_is_finite k" using k f32_class_cases by (auto simp: f32_positive_def)
    have "f32_units x * f32_units k \<le> f32_units y * f32_units k"
      using finite f32_units_pos [OF k] by (simp add: mult_right_mono)
    then have "f32_le (f32_mul x k) (f32_mul y k)"
      using finite kf
      by (auto simp: f32_le_def f32_mul_def Let_def f32_finite_simps intro!: f32_of_frac_mono)
    then show ?thesis by (intro f32_to_int_mono f32_floor_mono lohi)
  next
    case True
    have prod: "f32_to_int lo hi (f32_floor (f32_mul z k)) =
        (if f32_key z = 0 then 0 else if f32_key z < 0 then lo else hi)" if "f32_is_finite z" for z
      using that True k
      by (auto simp: f32_mul_def Let_def f32_positive_def f32_finite_simps f32_is_zero_def
          f32_key_def f32_to_int_def f32_floor_def f32_nan_is_nan)
    from finite have "f32_key x \<le> f32_key y" by (simp add: f32_units_le_iff)
    with finite lohi show ?thesis by (auto simp: prod)
  qed
qed

end
