(* ===== verification/Spatial.thy ===== *)
theory Spatial
  imports Float32
begin

text \<open>
  \<open>crates/sectorsync-core/src/spatial.rs\<close>: positions, boxes, planes and frusta, entity bounds,
  integer cells and the uniform grid. The lemmas show that mapping a position to a cell never
  reverses the order on an axis, that the cells of a box are enumerated in ascending order
  without repetition, and that two boxes that overlap touch a common cell.
\<close>

section \<open>Positions, boxes, planes\<close>

record position3 =
  px :: f32
  py :: f32
  pz :: f32

record vec3 =
  vx :: f32
  vy :: f32
  vz :: f32

definition distance_squared :: "position3 \<Rightarrow> position3 \<Rightarrow> f32" where
  "distance_squared p q =
     (let dx = f32_sub (px p) (px q); dy = f32_sub (py p) (py q); dz = f32_sub (pz p) (pz q)
      in f32_mul_add dx dx (f32_mul_add dy dy (f32_mul dz dz)))"

definition to_vec3 :: "position3 \<Rightarrow> vec3" where
  "to_vec3 p = \<lparr>vx = px p, vy = py p, vz = pz p\<rparr>"

definition vec3_dot :: "vec3 \<Rightarrow> vec3 \<Rightarrow> f32" where
  "vec3_dot v w = f32_mul_add (vx v) (vx w) (f32_mul_add (vy v) (vy w) (f32_mul (vz v) (vz w)))"

record aabb3 =
  aabb_min :: position3
  aabb_max :: position3

definition from_center_half_extents :: "position3 \<Rightarrow> vec3 \<Rightarrow> aabb3" where
  "from_center_half_extents c h =
     \<lparr>aabb_min = \<lparr>px = f32_sub (px c) (vx h), py = f32_sub (py c) (vy h), pz = f32_sub (pz c) (vz h)\<rparr>,
      aabb_max = \<lparr>px = f32_add (px c) (vx h), py = f32_add (py c) (vy h), pz = f32_add (pz c) (vz h)\<rparr>\<rparr>"

definition aabb_overlaps :: "aabb3 \<Rightarrow> aabb3 \<Rightarrow> bool" where
  "aabb_overlaps a b =
     (f32_le (px (aabb_min a)) (px (aabb_max b)) \<and> f32_le (px (aabb_min b)) (px (aabb_max a)) \<and>
      f32_le (py (aabb_min a)) (py (aabb_max b)) \<and> f32_le (py (aabb_min b)) (py (aabb_max a)) \<and>
      f32_le (pz (aabb_min a)) (pz (aabb_max b)) \<and> f32_le (pz (aabb_min b)) (pz (aabb_max a)))"

record plane3 =
  pl_normal :: vec3
  pl_distance :: f32

definition from_normal_and_point :: "vec3 \<Rightarrow> position3 \<Rightarrow> plane3" where
  "from_normal_and_point n p =
     \<lparr>pl_normal = n, pl_distance = f32_neg (vec3_dot n (to_vec3 p))\<rparr>"

definition signed_distance_to_position :: "plane3 \<Rightarrow> position3 \<Rightarrow> f32" where
  "signed_distance_to_position pl p = f32_add (vec3_dot (pl_normal pl) (to_vec3 p)) (pl_distance pl)"

definition plane_intersects_aabb :: "plane3 \<Rightarrow> aabb3 \<Rightarrow> bool" where
  "plane_intersects_aabb pl a =
     (let positive =
        \<lparr>px = (if f32_le f32_zero (vx (pl_normal pl)) then px (aabb_max a) else px (aabb_min a)),
         py = (if f32_le f32_zero (vy (pl_normal pl)) then py (aabb_max a) else py (aabb_min a)),
         pz = (if f32_le f32_zero (vz (pl_normal pl)) then pz (aabb_max a) else pz (aabb_min a))\<rparr>
      in f32_le f32_zero (signed_distance_to_position pl positive))"

record frustum3 =
  fr_planes :: "plane3 list"

definition frustum_from_aabb :: "aabb3 \<Rightarrow> frustum3" where
  "frustum_from_aabb a =
     (let one = f32_one; m1 = f32_neg f32_one; o0 = f32_zero in
      \<lparr>fr_planes =
        [\<lparr>pl_normal = \<lparr>vx = one, vy = o0, vz = o0\<rparr>, pl_distance = f32_neg (px (aabb_min a))\<rparr>,
         \<lparr>pl_normal = \<lparr>vx = m1, vy = o0, vz = o0\<rparr>, pl_distance = px (aabb_max a)\<rparr>,
         \<lparr>pl_normal = \<lparr>vx = o0, vy = one, vz = o0\<rparr>, pl_distance = f32_neg (py (aabb_min a))\<rparr>,
         \<lparr>pl_normal = \<lparr>vx = o0, vy = m1, vz = o0\<rparr>, pl_distance = py (aabb_max a)\<rparr>,
         \<lparr>pl_normal = \<lparr>vx = o0, vy = o0, vz = one\<rparr>, pl_distance = f32_neg (pz (aabb_min a))\<rparr>,
         \<lparr>pl_normal = \<lparr>vx = o0, vy = o0, vz = m1\<rparr>, pl_distance = pz (aabb_max a)\<rparr>]\<rparr>)"

definition frustum_intersects_aabb :: "frustum3 \<Rightarrow> aabb3 \<Rightarrow> bool" where
  "frustum_intersects_aabb f a = list_all (\<lambda>pl. plane_intersects_aabb pl a) (fr_planes f)"

datatype bounds = BPoint | BSphere (radius: f32) | BAabb (half_extents: vec3)

fun bounds_to_aabb :: "bounds \<Rightarrow> position3 \<Rightarrow> aabb3" where
  "bounds_to_aabb BPoint p = \<lparr>aabb_min = p, aabb_max = p\<rparr>"
| "bounds_to_aabb (BSphere r) p = from_center_half_extents p \<lparr>vx = r, vy = r, vz = r\<rparr>"
| "bounds_to_aabb (BAabb h) p = from_center_half_extents p h"

definition frustum_intersects_bounds :: "frustum3 \<Rightarrow> position3 \<Rightarrow> bounds \<Rightarrow> bool" where
  "frustum_intersects_bounds f p b = frustum_intersects_aabb f (bounds_to_aabb b p)"

section \<open>Cells\<close>

text \<open>The \<open>i32\<close> coordinates are integers; \<open>cell_at\<close> produces values of that range only.\<close>

datatype cell_coord3 = CellCoord3 (cell_x: int) (cell_y: int) (cell_z: int)

instantiation cell_coord3 :: linorder
begin

definition less_eq_cell_coord3 :: "cell_coord3 \<Rightarrow> cell_coord3 \<Rightarrow> bool" where
  "less_eq_cell_coord3 a b =
     (cell_x a < cell_x b \<or> (cell_x a = cell_x b \<and>
       (cell_y a < cell_y b \<or> (cell_y a = cell_y b \<and> cell_z a \<le> cell_z b))))"

definition less_cell_coord3 :: "cell_coord3 \<Rightarrow> cell_coord3 \<Rightarrow> bool" where
  "less_cell_coord3 a b =
     (cell_x a < cell_x b \<or> (cell_x a = cell_x b \<and>
       (cell_y a < cell_y b \<or> (cell_y a = cell_y b \<and> cell_z a < cell_z b))))"

instance
  by standard (auto simp: less_eq_cell_coord3_def less_cell_coord3_def intro: cell_coord3.expand)

end

definition i32_min :: int where "i32_min = - 2147483648"
definition i32_max :: int where "i32_max = 2147483647"

definition floor_to_cell :: "f32 \<Rightarrow> int" where
  "floor_to_cell v = f32_to_int i32_min i32_max (f32_floor v)"

definition axis_cell_count :: "int \<Rightarrow> int \<Rightarrow> usize" where
  "axis_cell_count lo hi = (if hi < lo then 0 else nat (hi - lo + 1))"

text \<open>The three nested inclusive loops over the cells between two corners.\<close>

definition cell_range :: "cell_coord3 \<Rightarrow> cell_coord3 \<Rightarrow> cell_coord3 list" where
  "cell_range lo hi =
     concat (map (\<lambda>x. concat (map (\<lambda>y. map (CellCoord3 x y) [cell_z lo..cell_z hi])
       [cell_y lo..cell_y hi])) [cell_x lo..cell_x hi])"

record grid_spec =
  cell_size :: f32

datatype grid_spec_error = InvalidCellSize

definition grid_spec_new :: "f32 \<Rightarrow> grid_spec_error + grid_spec" where
  "grid_spec_new sz =
     (if f32_is_finite sz \<and> f32_lt f32_zero sz then Ok \<lparr>cell_size = sz\<rparr> else Err InvalidCellSize)"

definition cell_at :: "grid_spec \<Rightarrow> position3 \<Rightarrow> cell_coord3" where
  "cell_at g p =
     (let inv = f32_div f32_one (cell_size g)
      in CellCoord3 (floor_to_cell (f32_mul (px p) inv)) (floor_to_cell (f32_mul (py p) inv))
           (floor_to_cell (f32_mul (pz p) inv)))"

definition cells_for_aabb :: "grid_spec \<Rightarrow> aabb3 \<Rightarrow> cell_coord3 list" where
  "cells_for_aabb g a = cell_range (cell_at g (aabb_min a)) (cell_at g (aabb_max a))"

definition cells_for_bounds :: "grid_spec \<Rightarrow> position3 \<Rightarrow> bounds \<Rightarrow> cell_coord3 list" where
  "cells_for_bounds g p b = cells_for_aabb g (bounds_to_aabb b p)"

section \<open>Cell ranges\<close>

text \<open>A cell lies in a box of cells when it does on every axis (\<open>cell_in_range\<close> of the index).\<close>

definition cell_in_range :: "cell_coord3 \<Rightarrow> cell_coord3 \<Rightarrow> cell_coord3 \<Rightarrow> bool" where
  "cell_in_range c lo hi =
     (cell_x lo \<le> cell_x c \<and> cell_x c \<le> cell_x hi \<and> cell_y lo \<le> cell_y c \<and> cell_y c \<le> cell_y hi \<and>
      cell_z lo \<le> cell_z c \<and> cell_z c \<le> cell_z hi)"

lemma set_cell_range [simp]: "set (cell_range lo hi) = {c. cell_in_range c lo hi}"
proof -
  have "c \<in> set (cell_range lo hi) \<longleftrightarrow> cell_in_range c lo hi" for c
    by (cases c) (fastforce simp: cell_range_def cell_in_range_def image_iff)
  then show ?thesis by blast
qed

lemma sorted_wrt_concat_map:
  assumes "sorted_wrt R xs"
    and "\<And>x. x \<in> set xs \<Longrightarrow> sorted_wrt S (f x)"
    and "\<And>x y a b. x \<in> set xs \<Longrightarrow> y \<in> set xs \<Longrightarrow> R x y \<Longrightarrow> a \<in> set (f x) \<Longrightarrow> b \<in> set (f y) \<Longrightarrow> S a b"
  shows "sorted_wrt S (concat (map f xs))"
  using assms
proof (induction xs)
  case (Cons x xs)
  have "sorted_wrt S (concat (map f xs))"
    using Cons.prems by (intro Cons.IH) (auto intro: Cons.prems(3))
  then show ?case using Cons.prems by (fastforce simp: sorted_wrt_append)
qed simp

lemma sorted_wrt_upto: "sorted_wrt (<) [i..j]"
  by (simp flip: strict_sorted_iff)

lemma cell_range_strict_sorted: "sorted_wrt (<) (cell_range lo hi)"
  unfolding cell_range_def
  by (intro sorted_wrt_concat_map [OF sorted_wrt_upto])
    (auto simp: less_cell_coord3_def sorted_wrt_map sorted_wrt_upto intro!: sorted_wrt_concat_map [OF sorted_wrt_upto])

lemma distinct_cell_range [simp]: "distinct (cell_range lo hi)" and
  sorted_cell_range [simp]: "sorted (cell_range lo hi)"
  using cell_range_strict_sorted by (simp_all add: strict_sorted_iff)

lemma length_concat_map_const:
  "(\<And>x. x \<in> set xs \<Longrightarrow> length (f x) = n) \<Longrightarrow> length (concat (map f xs)) = length xs * n"
  by (induction xs) auto

lemma length_cell_range:
  "length (cell_range lo hi) =
     axis_cell_count (cell_x lo) (cell_x hi) * axis_cell_count (cell_y lo) (cell_y hi) *
     axis_cell_count (cell_z lo) (cell_z hi)"
proof -
  have up: "length [i..j] = axis_cell_count i j" for i j :: int
    by (simp add: axis_cell_count_def)
  have "length (concat (map (\<lambda>y. map (CellCoord3 x y) [cell_z lo..cell_z hi]) [cell_y lo..cell_y hi])) =
      axis_cell_count (cell_y lo) (cell_y hi) * axis_cell_count (cell_z lo) (cell_z hi)" for x
    by (subst length_concat_map_const [where n = "axis_cell_count (cell_z lo) (cell_z hi)"])
      (simp_all only: length_map up)
  then show ?thesis
    unfolding cell_range_def
    by (subst length_concat_map_const
        [where n = "axis_cell_count (cell_y lo) (cell_y hi) * axis_cell_count (cell_z lo) (cell_z hi)"])
      (simp_all only: up mult.assoc)
qed

section \<open>The grid preserves order and overlap\<close>

definition grid_ok :: "grid_spec \<Rightarrow> bool" where
  "grid_ok g = (f32_is_finite (cell_size g) \<and> f32_lt f32_zero (cell_size g))"

lemma grid_spec_new_ok: "grid_spec_new sz = Ok g \<longleftrightarrow> g = \<lparr>cell_size = sz\<rparr> \<and> grid_ok g"
  by (auto simp: grid_spec_new_def grid_ok_def)

lemma f32_zero_simps [simp]:
  "f32_mag f32_zero = 0" "\<not> f32_sign f32_zero" "f32_key f32_zero = 0" "f32_units f32_zero = 0"
  "f32_is_finite f32_zero"
  by (simp_all add: f32_zero_def f32_mag_def f32_sign_def f32_key_def f32_units_def
      f32_is_finite_def inf_mag_def)

lemma f32_one_simps [simp]:
  "f32_mag f32_one = 1065353216" "\<not> f32_sign f32_one" "f32_units f32_one = 2 ^ 149"
  "f32_is_finite f32_one"
  by (simp_all add: f32_one_def f32_mag_def f32_sign_def f32_units_def f32_is_finite_def
      inf_mag_def mag_units_def)

lemma grid_inverse_positive:
  assumes "grid_ok g"
  shows "f32_positive (f32_div f32_one (cell_size g))"
proof -
  define s where "s = cell_size g"
  have fin: "f32_is_finite s" and pos: "f32_key f32_zero < f32_key s" and nn: "\<not> f32_is_nan s"
    using assms by (simp_all add: grid_ok_def f32_lt_def s_def)
  have sgn: "\<not> f32_sign s" and nz: "f32_mag s \<noteq> 0" using pos by (auto simp: f32_key_def split: if_splits)
  have units: "f32_units s = int (mag_units (f32_mag s))" using sgn by (simp add: f32_units_def)
  have d0: "0 < mag_units (f32_mag s)" using nz by simp
  have "mag_units (f32_mag s) \<le> mag_units inf_mag" using fin by (simp add: f32_is_finite_def)
  also have "\<dots> = 2 ^ 277" by (simp add: mag_units_def inf_mag_def)
  finally have "mag_units 1 * mag_units (f32_mag s) \<le> 2 ^ 298 * 1" by (simp add: mag_units_def)
  then have "round_mag (mag_units 1) 1 \<le> round_mag (2 ^ 298) (mag_units (f32_mag s))"
    by (rule round_mag_mono [OF _ _ d0]) simp
  then have one_le: "1 \<le> round_mag (2 ^ 298) (mag_units (f32_mag s))"
    by (subst (asm) round_mag_exact) (simp_all add: inf_mag_def)
  have "f32_div f32_one s = f32_of_frac False (2 ^ 298) (mag_units (f32_mag s))"
    using sgn fin nn nz
    by (simp add: f32_div_def f32_finite_simps f32_is_zero_def units)
  also have "\<dots> = f32_mk False (round_mag (2 ^ 298) (mag_units (f32_mag s)))"
    by (simp add: f32_of_frac_def)
  finally have eq: "f32_div f32_one s = f32_mk False (round_mag (2 ^ 298) (mag_units (f32_mag s)))" .
  show ?thesis
    using one_le round_mag_le_inf [of "2 ^ 298" "mag_units (f32_mag s)"]
    unfolding s_def [symmetric] eq
    by (simp add: f32_positive_def f32_is_nan_def f32_is_zero_def)
qed

lemma cell_at_mono:
  assumes "grid_ok g"
  shows "f32_le (px p) (px q) \<Longrightarrow> cell_x (cell_at g p) \<le> cell_x (cell_at g q)"
    and "f32_le (py p) (py q) \<Longrightarrow> cell_y (cell_at g p) \<le> cell_y (cell_at g q)"
    and "f32_le (pz p) (pz q) \<Longrightarrow> cell_z (cell_at g p) \<le> cell_z (cell_at g q)"
  using f32_floor_mul_mono [OF _ grid_inverse_positive [OF assms], of _ _ i32_min i32_max]
  by (simp_all add: cell_at_def Let_def floor_to_cell_def i32_min_def i32_max_def)

lemma floor_to_cell_range: "i32_min \<le> floor_to_cell v \<and> floor_to_cell v \<le> i32_max"
  unfolding floor_to_cell_def by (rule f32_to_int_range) (simp_all add: i32_min_def i32_max_def)

text \<open>Corners in order on every axis, none of them a NaN.\<close>

definition aabb_proper :: "aabb3 \<Rightarrow> bool" where
  "aabb_proper a =
     (f32_le (px (aabb_min a)) (px (aabb_max a)) \<and> f32_le (py (aabb_min a)) (py (aabb_max a)) \<and>
      f32_le (pz (aabb_min a)) (pz (aabb_max a)))"

definition position_finite :: "position3 \<Rightarrow> bool" where
  "position_finite p = (f32_is_finite (px p) \<and> f32_is_finite (py p) \<and> f32_is_finite (pz p))"

definition bounds_ok :: "bounds \<Rightarrow> bool" where
  "bounds_ok b = (case b of BPoint \<Rightarrow> True
     | BSphere r \<Rightarrow> f32_is_finite r \<and> f32_le f32_zero r
     | BAabb h \<Rightarrow> (f32_is_finite (vx h) \<and> f32_is_finite (vy h) \<and> f32_is_finite (vz h)) \<and>
         f32_le f32_zero (vx h) \<and> f32_le f32_zero (vy h) \<and> f32_le f32_zero (vz h))"

lemma f32_le_refl: "\<not> f32_is_nan x \<Longrightarrow> f32_le x x"
  by (simp add: f32_le_def)

lemma f32_le_trans [trans]: "f32_le x y \<Longrightarrow> f32_le y z \<Longrightarrow> f32_le x z"
  by (auto simp: f32_le_def)

lemma f32_around:
  assumes "f32_is_finite c" "f32_is_finite r" "f32_le f32_zero r"
  shows "f32_le (f32_sub c r) c" "f32_le c (f32_add c r)"
proof -
  have "f32_units f32_zero \<le> f32_units r" using assms(3) by (simp only: f32_units_le_iff f32_le_def)
  then show "f32_le (f32_sub c r) c" "f32_le c (f32_add c r)"
    using assms by (auto intro: f32_sub_le f32_le_add)
qed

lemma bounds_aabb_contains_position:
  assumes "position_finite p" "bounds_ok b"
  shows "aabb_proper (bounds_to_aabb b p)"
    and "aabb_overlaps (bounds_to_aabb b p) (bounds_to_aabb BPoint p)"
proof -
  have *: "f32_le (px (aabb_min (bounds_to_aabb b p))) (px p)" "f32_le (px p) (px (aabb_max (bounds_to_aabb b p)))"
    "f32_le (py (aabb_min (bounds_to_aabb b p))) (py p)" "f32_le (py p) (py (aabb_max (bounds_to_aabb b p)))"
    "f32_le (pz (aabb_min (bounds_to_aabb b p))) (pz p)" "f32_le (pz p) (pz (aabb_max (bounds_to_aabb b p)))"
    using assms
    by (cases b; simp add: position_finite_def bounds_ok_def from_center_half_extents_def f32_around
        f32_le_refl f32_finite_simps)+
  show "aabb_proper (bounds_to_aabb b p)"
    unfolding aabb_proper_def using * by (blast intro: f32_le_trans)
  show "aabb_overlaps (bounds_to_aabb b p) (bounds_to_aabb BPoint p)"
    unfolding aabb_overlaps_def using * by simp
qed

text \<open>On one axis, two cell intervals whose ends cross share the greater of their lower ends.\<close>

lemma axis_common:
  "a \<le> a' \<Longrightarrow> b \<le> b' \<Longrightarrow> a \<le> b' \<Longrightarrow> b \<le> a' \<Longrightarrow> a \<le> max a b \<and> max a b \<le> a' \<and> b \<le> max a b \<and> max a b \<le> b'"
  for a :: int
  by simp

lemma overlap_common_cell:
  assumes "grid_ok g" "aabb_proper a" "aabb_proper b" "aabb_overlaps a b"
  shows "\<exists>c. c \<in> set (cells_for_aabb g a) \<and> c \<in> set (cells_for_aabb g b)"
proof -
  let ?lo = "\<lambda>a. cell_at g (aabb_min a)" and ?hi = "\<lambda>a. cell_at g (aabb_max a)"
  note mono = cell_at_mono [OF assms(1)]
  have x: "cell_x (?lo a) \<le> cell_x (?hi a)" "cell_x (?lo b) \<le> cell_x (?hi b)"
    "cell_x (?lo a) \<le> cell_x (?hi b)" "cell_x (?lo b) \<le> cell_x (?hi a)"
    and y: "cell_y (?lo a) \<le> cell_y (?hi a)" "cell_y (?lo b) \<le> cell_y (?hi b)"
    "cell_y (?lo a) \<le> cell_y (?hi b)" "cell_y (?lo b) \<le> cell_y (?hi a)"
    and z: "cell_z (?lo a) \<le> cell_z (?hi a)" "cell_z (?lo b) \<le> cell_z (?hi b)"
    "cell_z (?lo a) \<le> cell_z (?hi b)" "cell_z (?lo b) \<le> cell_z (?hi a)"
    using assms(2-) by (simp_all add: aabb_proper_def aabb_overlaps_def mono)
  let ?c = "CellCoord3 (max (cell_x (?lo a)) (cell_x (?lo b))) (max (cell_y (?lo a)) (cell_y (?lo b)))
    (max (cell_z (?lo a)) (cell_z (?lo b)))"
  have "?c \<in> set (cells_for_aabb g a) \<and> ?c \<in> set (cells_for_aabb g b)"
    using axis_common [OF x] axis_common [OF y] axis_common [OF z]
    by (simp add: cells_for_aabb_def cell_in_range_def)
  then show ?thesis by blast
qed

end
