(* ===== verification/Entities.thy ===== *)
theory Entities
  imports Spatial
begin

text \<open>
  The data model shared by the whole of \<open>sectorsync-core\<close>: identifiers (\<open>ids.rs\<close>), tags, dirty
  masks, roles and records (\<open>entity.rs\<close>), hand-off transfers (\<open>handoff.rs\<close>), compiled policies
  and their dense table (\<open>policy.rs\<close>), barrier descriptors (\<open>barrier.rs\<close>) and snapshots
  (\<open>snapshot.rs\<close>). The lemmas give the bit-set laws of tags and the lookup laws of the policy
  table.
\<close>

section \<open>Identifiers\<close>

type_synonym entity_id = u64
type_synonym client_id = u64
type_synonym command_id = u64
type_synonym station_id = u32
type_synonym node_id = u32
type_synonym instance_id = u64
type_synonym policy_id = u16
type_synonym component_id = u16
type_synonym event_id = u64
type_synonym barrier_id = u64
type_synonym tick = u64
type_synonym owner_epoch = u64

datatype entity_handle = EntityHandle (h_index: u32) (h_generation: u32)

instantiation entity_handle :: linorder
begin

definition less_eq_entity_handle :: "entity_handle \<Rightarrow> entity_handle \<Rightarrow> bool" where
  "less_eq_entity_handle a b =
     (h_index a < h_index b \<or> (h_index a = h_index b \<and> h_generation a \<le> h_generation b))"

definition less_entity_handle :: "entity_handle \<Rightarrow> entity_handle \<Rightarrow> bool" where
  "less_entity_handle a b =
     (h_index a < h_index b \<or> (h_index a = h_index b \<and> h_generation a < h_generation b))"

instance
  by standard (auto simp: less_eq_entity_handle_def less_entity_handle_def intro: entity_handle.expand)

end

section \<open>Tags and dirty masks\<close>

unbundle bit_operations_syntax

type_synonym entity_tags = u64
type_synonym dirty_mask = u64

definition tags_contains :: "entity_tags \<Rightarrow> entity_tags \<Rightarrow> bool" where
  "tags_contains t msk = (t AND msk = msk)"

definition tags_intersects :: "entity_tags \<Rightarrow> entity_tags \<Rightarrow> bool" where
  "tags_intersects t msk = (t AND msk \<noteq> 0)"

definition tags_insert :: "entity_tags \<Rightarrow> entity_tags \<Rightarrow> entity_tags" where
  "tags_insert t msk = t OR msk"

definition tags_remove :: "entity_tags \<Rightarrow> entity_tags \<Rightarrow> entity_tags" where
  "tags_remove t msk = t AND NOT msk"

definition DIRTY_TRANSFORM :: dirty_mask where "DIRTY_TRANSFORM = 1"
definition DIRTY_POLICY :: dirty_mask where "DIRTY_POLICY = 2"
definition DIRTY_TAGS :: dirty_mask where "DIRTY_TAGS = 4"
definition DIRTY_CUSTOM :: dirty_mask where "DIRTY_CUSTOM = push_bit 63 1"

definition dirty_contains :: "dirty_mask \<Rightarrow> dirty_mask \<Rightarrow> bool" where
  "dirty_contains d msk = (d AND msk = msk)"

definition dirty_insert :: "dirty_mask \<Rightarrow> dirty_mask \<Rightarrow> dirty_mask" where
  "dirty_insert d msk = d OR msk"

definition dirty_remove :: "dirty_mask \<Rightarrow> dirty_mask \<Rightarrow> dirty_mask" where
  "dirty_remove d msk = d AND NOT msk"

lemma bit_u64_lt: "bit (m :: u64) i \<Longrightarrow> i < 64"
  using bit_imp_le_length [of m i] by simp

lemma dirty_contains_bit: "dirty_contains d m \<longleftrightarrow> (\<forall>i. bit m i \<longrightarrow> bit d i)"
  by (auto simp: dirty_contains_def bit_eq_iff bit_and_iff dest: bit_u64_lt)

lemma dirty_insert_contains [simp]: "dirty_contains (dirty_insert d m) m"
  by (simp add: dirty_contains_bit dirty_insert_def bit_or_iff)

lemma dirty_insert_keeps: "dirty_contains d k \<Longrightarrow> dirty_contains (dirty_insert d m) k"
  by (simp add: dirty_contains_bit dirty_insert_def bit_or_iff)

lemma tags_contains_bit: "tags_contains t m \<longleftrightarrow> (\<forall>i. bit m i \<longrightarrow> bit t i)"
  by (auto simp: tags_contains_def bit_eq_iff bit_and_iff dest: bit_u64_lt)

lemma tags_intersects_bit: "tags_intersects t m \<longleftrightarrow> (\<exists>i. bit t i \<and> bit m i)"
  by (auto simp: tags_intersects_def bit_eq_iff bit_and_iff intro: bit_u64_lt)

lemma tags_insert_bit: "bit (tags_insert t m) i \<longleftrightarrow> bit t i \<or> bit m i"
  by (simp add: tags_insert_def bit_or_iff)

lemma tags_remove_bit: "bit (tags_remove t m) i \<longleftrightarrow> bit t i \<and> \<not> bit m i"
  by (auto simp: tags_remove_def bit_and_iff bit_not_iff dest: bit_imp_le_length)

section \<open>Roles and records\<close>

datatype entity_role =
    Owned (role_epoch: owner_epoch)
  | Ghost (role_station: station_id) (role_epoch: owner_epoch) (role_expires_at: tick)

definition role_is_owned :: "entity_role \<Rightarrow> bool" where
  "role_is_owned r = (case r of Owned _ \<Rightarrow> True | Ghost _ _ _ \<Rightarrow> False)"

lemma role_is_owned_simps [simp]: "role_is_owned (Owned e)" "\<not> role_is_owned (Ghost s e t)"
  by (simp_all add: role_is_owned_def)

record entity_record =
  er_id :: entity_id
  er_handle :: entity_handle
  er_position :: position3
  er_bounds :: bounds
  er_policy_id :: policy_id
  er_tags :: entity_tags
  er_role :: entity_role
  er_dirty :: dirty_mask

definition record_owned ::
  "entity_id \<Rightarrow> entity_handle \<Rightarrow> position3 \<Rightarrow> bounds \<Rightarrow> policy_id \<Rightarrow> owner_epoch \<Rightarrow> entity_record" where
  "record_owned eid h p b pol epoch =
     \<lparr>er_id = eid, er_handle = h, er_position = p, er_bounds = b, er_policy_id = pol, er_tags = 0,
      er_role = Owned epoch, er_dirty = DIRTY_TRANSFORM\<rparr>"

definition record_ghost ::
  "entity_id \<Rightarrow> entity_handle \<Rightarrow> position3 \<Rightarrow> bounds \<Rightarrow> policy_id \<Rightarrow> station_id \<Rightarrow> owner_epoch \<Rightarrow> tick \<Rightarrow>
   entity_record" where
  "record_ghost eid h p b pol st epoch expires =
     \<lparr>er_id = eid, er_handle = h, er_position = p, er_bounds = b, er_policy_id = pol, er_tags = 0,
      er_role = Ghost st epoch expires, er_dirty = DIRTY_TRANSFORM\<rparr>"

definition record_is_owned :: "entity_record \<Rightarrow> bool" where
  "record_is_owned r = role_is_owned (er_role r)"

section \<open>Hand-off transfers\<close>

record handoff_transfer =
  ht_entity_id :: entity_id
  ht_source_station :: station_id
  ht_target_station :: station_id
  ht_source_owner_epoch :: owner_epoch
  ht_target_owner_epoch :: owner_epoch
  ht_prepared_at :: tick
  ht_source_ghost_expires_at :: tick
  ht_entity :: entity_record

record handoff_commit_handles =
  hc_source_ghost :: entity_handle
  hc_target_owner :: entity_handle

section \<open>Policies\<close>

record compiled_sync_policy =
  pol_id :: policy_id
  pol_min_hz :: u16
  pol_max_hz :: u16
  pol_interest_radius :: f32
  pol_priority_weight :: u16
  pol_allow_ghost :: bool
  pol_allow_aggregate :: bool

definition policy_new :: "policy_id \<Rightarrow> u16 \<Rightarrow> u16 \<Rightarrow> f32 \<Rightarrow> compiled_sync_policy" where
  "policy_new i lo hi r =
     \<lparr>pol_id = i, pol_min_hz = lo, pol_max_hz = hi, pol_interest_radius = r,
      pol_priority_weight = 1, pol_allow_ghost = True, pol_allow_aggregate = False\<rparr>"

type_synonym policy_table = "compiled_sync_policy option list"

definition policy_set :: "policy_table \<Rightarrow> compiled_sync_policy \<Rightarrow> policy_table" where
  "policy_set t p =
     (let i = unat (pol_id p); t' = (if length t \<le> i then vec_resize t (i + 1) None else t)
      in t'[i := Some p])"

definition policy_get :: "policy_table \<Rightarrow> policy_id \<Rightarrow> compiled_sync_policy option" where
  "policy_get t i = (case vec_get t (unat i) of None \<Rightarrow> None | Some p \<Rightarrow> p)"

definition policy_slot_count :: "policy_table \<Rightarrow> usize" where
  "policy_slot_count t = length t"

lemma policy_get_set:
  "policy_get (policy_set t p) i = (if i = pol_id p then Some p else policy_get t i)"
proof -
  have "unat i = unat (pol_id p) \<longleftrightarrow> i = pol_id p" by (rule word_unat_eq_iff [symmetric])
  then show ?thesis
    by (auto simp: policy_get_def policy_set_def Let_def vec_get_def vec_resize_def nth_append
        nth_list_update split: option.splits)
qed

section \<open>Barriers\<close>

datatype barrier_scope = ScopeInstance instance_id | ScopeStation station_id

datatype command_queue_mode = ModeBuffer | ModeReject | ModeDrain

datatype barrier_state = BRunning | BRequested | BWaitingTickBoundary | BFrozen | BResuming

record runtime_barrier =
  rb_id :: barrier_id
  rb_scope :: barrier_scope
  rb_requested_at :: tick
  rb_target_tick :: tick
  rb_command_mode :: command_queue_mode
  rb_state :: barrier_state

definition barrier_requested ::
  "barrier_id \<Rightarrow> barrier_scope \<Rightarrow> tick \<Rightarrow> tick \<Rightarrow> command_queue_mode \<Rightarrow> runtime_barrier" where
  "barrier_requested i sc at target mode =
     \<lparr>rb_id = i, rb_scope = sc, rb_requested_at = at, rb_target_tick = target,
      rb_command_mode = mode, rb_state = BRequested\<rparr>"

definition wait_for_tick_boundary :: "runtime_barrier \<Rightarrow> runtime_barrier" where
  "wait_for_tick_boundary b = b\<lparr>rb_state := BWaitingTickBoundary\<rparr>"

definition barrier_freeze :: "runtime_barrier \<Rightarrow> runtime_barrier" where
  "barrier_freeze b = b\<lparr>rb_state := BFrozen\<rparr>"

definition barrier_resume :: "runtime_barrier \<Rightarrow> runtime_barrier" where
  "barrier_resume b = b\<lparr>rb_state := BResuming\<rparr>"

definition barrier_finish :: "runtime_barrier \<Rightarrow> runtime_barrier" where
  "barrier_finish b = b\<lparr>rb_state := BRunning\<rparr>"

section \<open>Snapshots\<close>

record snapshot_version =
  sv_runtime :: u32
  sv_schema :: u32
  sv_ruleset :: u32
  sv_module :: u32

record snapshot_meta =
  sm_instance_id :: instance_id
  sm_station_id :: station_id
  sm_tick :: tick
  sm_entity_count :: usize
  sm_owner_epoch :: owner_epoch
  sm_version :: snapshot_version

record station_snapshot =
  ss_meta :: snapshot_meta
  ss_entities :: "entity_record list"

end
