(* ===== verification/Command_Queues.thy ===== *)
theory Command_Queues
  imports Lane_Bank Entities "HOL-Library.Multiset"
begin

text \<open>
  The barrier-aware command queues (\<open>command.rs\<close>): three bounded ready lanes and a bounded buffer
  that holds commands while a barrier is active. The lemmas bound every queue, show that no
  accepted command is lost, duplicated or moved to another lane, and say exactly which prefix of
  the barrier buffer a release moves.
\<close>

datatype command_priority = PNormal | PHigh | PLow

record command_envelope =
  ce_id :: command_id
  ce_client_id :: client_id
  ce_entity_id :: entity_id
  ce_sequence :: u64
  ce_received_at :: tick
  ce_kind :: u32
  ce_priority :: command_priority
  ce_payload :: bytes

datatype command_reject_reason = InvalidSchema | RateLimited | ReplayOrStale | RejectNotOwner | GameRule

datatype command_decision =
    Accept
  | Reject command_reject_reason
  | FlagSuspicious u32 command_reject_reason

record command_queue_limits =
  cl_high :: usize
  cl_normal :: usize
  cl_low :: usize

definition default_command_limits :: command_queue_limits where
  "default_command_limits = \<lparr>cl_high = 1024, cl_normal = 8192, cl_low = 4096\<rparr>"

record command_ingress =
  ci_barrier_state :: barrier_state
  ci_command_mode :: command_queue_mode

definition ingress_running :: command_ingress where
  "ingress_running = \<lparr>ci_barrier_state = BRunning, ci_command_mode = ModeBuffer\<rparr>"

datatype command_push_outcome = Queued | BufferedByBarrier

datatype command_queue_error =
    CommandQueueFull command_priority
  | RejectedByBarrier command_queue_mode

record command_queues =
  cq_limits :: command_queue_limits
  cq_high :: "command_envelope list"
  cq_normal :: "command_envelope list"
  cq_low :: "command_envelope list"
  cq_barrier_buffer :: "command_envelope list"

definition command_queues_new :: "command_queue_limits \<Rightarrow> command_queues" where
  "command_queues_new l =
     \<lparr>cq_limits = l, cq_high = [], cq_normal = [], cq_low = [], cq_barrier_buffer = []\<rparr>"

definition barrier_buffer_capacity :: "command_queues \<Rightarrow> usize" where
  "barrier_buffer_capacity q =
     usize_add (usize_add (cl_high (cq_limits q)) (cl_normal (cq_limits q))) (cl_low (cq_limits q))"

definition has_ready_capacity :: "command_queues \<Rightarrow> command_priority \<Rightarrow> bool" where
  "has_ready_capacity q p =
     (case p of
        PHigh \<Rightarrow> length (cq_high q) < cl_high (cq_limits q)
      | PNormal \<Rightarrow> length (cq_normal q) < cl_normal (cq_limits q)
      | PLow \<Rightarrow> length (cq_low q) < cl_low (cq_limits q))"

definition push_lane :: "command_queues \<Rightarrow> command_envelope \<Rightarrow> command_queues" where
  "push_lane q c =
     (case ce_priority c of
        PHigh \<Rightarrow> q\<lparr>cq_high := cq_high q @ [c]\<rparr>
      | PNormal \<Rightarrow> q\<lparr>cq_normal := cq_normal q @ [c]\<rparr>
      | PLow \<Rightarrow> q\<lparr>cq_low := cq_low q @ [c]\<rparr>)"

definition push_ready ::
  "command_queues \<Rightarrow> command_envelope \<Rightarrow> (command_queue_error + unit) \<times> command_queues" where
  "push_ready q c =
     (if \<not> has_ready_capacity q (ce_priority c) then (Err (CommandQueueFull (ce_priority c)), q)
      else (Ok (), push_lane q c))"

definition command_push ::
  "command_queues \<Rightarrow> command_envelope \<Rightarrow> command_ingress \<Rightarrow>
   (command_queue_error + command_push_outcome) \<times> command_queues" where
  "command_push q c ing =
     (if ci_barrier_state ing \<in> {BRunning, BResuming} then
        (case push_ready q c of
           (Inl e, q') \<Rightarrow> (Err e, q')
         | (Inr _, q') \<Rightarrow> (Ok Queued, q'))
      else
        (case ci_command_mode ing of
           ModeBuffer \<Rightarrow>
             if length (cq_barrier_buffer q) \<ge> barrier_buffer_capacity q
             then (Err (CommandQueueFull (ce_priority c)), q)
             else (Ok BufferedByBarrier, q\<lparr>cq_barrier_buffer := cq_barrier_buffer q @ [c]\<rparr>)
         | mode \<Rightarrow> (Err (RejectedByBarrier mode), q)))"

text \<open>The release loop: \<open>released\<close> counts the commands moved so far.\<close>

function release_loop ::
  "command_queues \<Rightarrow> nat \<Rightarrow> (command_queue_error + nat) \<times> command_queues" where
  "release_loop q released =
     (case cq_barrier_buffer q of
        [] \<Rightarrow> (Ok released, q)
      | c # rest \<Rightarrow>
          if \<not> has_ready_capacity q (ce_priority c) then (Err (CommandQueueFull (ce_priority c)), q)
          else release_loop (push_lane (q\<lparr>cq_barrier_buffer := rest\<rparr>) c) (released + 1))"
  by pat_completeness auto

lemma push_lane_buffer [simp]:
  "cq_barrier_buffer (push_lane q c) = cq_barrier_buffer q" "cq_limits (push_lane q c) = cq_limits q"
  by (simp_all add: push_lane_def split: command_priority.splits)

termination release_loop
  by (relation "measure (\<lambda>(q, n). length (cq_barrier_buffer q))") auto

declare release_loop.simps [simp del]

definition release_barrier_buffer ::
  "command_queues \<Rightarrow> (command_queue_error + nat) \<times> command_queues" where
  "release_barrier_buffer q = release_loop q 0"

definition clear_barrier_buffer :: "command_queues \<Rightarrow> usize \<times> command_queues" where
  "clear_barrier_buffer q = (length (cq_barrier_buffer q), q\<lparr>cq_barrier_buffer := []\<rparr>)"

definition command_pop_next :: "command_queues \<Rightarrow> command_envelope option \<times> command_queues" where
  "command_pop_next q =
     (case pop_front (cq_high q) of
        (Some c, r) \<Rightarrow> (Some c, q\<lparr>cq_high := r\<rparr>)
      | (None, _) \<Rightarrow>
          (case pop_front (cq_normal q) of
             (Some c, r) \<Rightarrow> (Some c, q\<lparr>cq_normal := r\<rparr>)
           | (None, _) \<Rightarrow>
               (case pop_front (cq_low q) of
                  (Some c, r) \<Rightarrow> (Some c, q\<lparr>cq_low := r\<rparr>)
                | (None, _) \<Rightarrow> (None, q))))"

definition command_ready_len :: "command_queues \<Rightarrow> usize" where
  "command_ready_len q = length (cq_high q) + length (cq_normal q) + length (cq_low q)"

definition command_total_len :: "command_queues \<Rightarrow> usize" where
  "command_total_len q = command_ready_len q + length (cq_barrier_buffer q)"

section \<open>Lanes\<close>

definition command_lanes :: "command_queues \<Rightarrow> command_envelope list list" where
  "command_lanes q = [cq_high q, cq_normal q, cq_low q]"

interpretation commands: lane_bank command_lanes command_pop_next
  by unfold_locales
    (auto simp: command_lanes_def command_pop_next_def pop_front_def split: list.splits)

definition lane_of :: "command_queues \<Rightarrow> command_priority \<Rightarrow> command_envelope list" where
  "lane_of q p = (case p of PHigh \<Rightarrow> cq_high q | PNormal \<Rightarrow> cq_normal q | PLow \<Rightarrow> cq_low q)"

definition limit_of :: "command_queues \<Rightarrow> command_priority \<Rightarrow> usize" where
  "limit_of q p =
     (case p of PHigh \<Rightarrow> cl_high (cq_limits q) | PNormal \<Rightarrow> cl_normal (cq_limits q)
              | PLow \<Rightarrow> cl_low (cq_limits q))"

lemma has_ready_capacity_iff: "has_ready_capacity q p \<longleftrightarrow> length (lane_of q p) < limit_of q p"
  by (simp add: has_ready_capacity_def lane_of_def limit_of_def split: command_priority.splits)

lemma lane_of_push_lane:
  "lane_of (push_lane q c) p = (if p = ce_priority c then lane_of q p @ [c] else lane_of q p)"
  by (simp add: push_lane_def lane_of_def split: command_priority.splits)

lemma limit_of_simps [simp]:
  "limit_of (push_lane q c) = limit_of q" "limit_of (q\<lparr>cq_barrier_buffer := b\<rparr>) = limit_of q"
  by (simp_all add: limit_of_def fun_eq_iff cong: command_priority.case_cong)

lemma lane_of_buffer [simp]: "lane_of (q\<lparr>cq_barrier_buffer := b\<rparr>) = lane_of q"
  by (simp add: lane_of_def fun_eq_iff cong: command_priority.case_cong)

lemma lane_of_pop:
  "command_pop_next q = (x, q') \<Longrightarrow>
   lane_of q p = (case x of Some c \<Rightarrow> if lane_of q p \<noteq> lane_of q' p then [c] else [] | None \<Rightarrow> []) @ lane_of q' p"
  by (auto simp: command_pop_next_def pop_front_def lane_of_def
      split: list.splits command_priority.splits)

definition command_queues_wf :: "command_queues \<Rightarrow> bool" where
  "command_queues_wf q \<longleftrightarrow>
     (\<forall>p \<in> {PHigh, PNormal, PLow}.
        length (lane_of q p) \<le> limit_of q p \<and> list_all (\<lambda>c. ce_priority c = p) (lane_of q p)) \<and>
     length (cq_barrier_buffer q) \<le> barrier_buffer_capacity q"

inductive command_step :: "command_queues \<Rightarrow> command_queues \<Rightarrow> bool" where
  "command_push q c ing = (r, q') \<Longrightarrow> command_step q q'"
| "release_barrier_buffer q = (r, q') \<Longrightarrow> command_step q q'"
| "clear_barrier_buffer q = (n, q') \<Longrightarrow> command_step q q'"
| "command_pop_next q = (x, q') \<Longrightarrow> command_step q q'"

lemma command_queues_new_wf [simp]: "command_queues_wf (command_queues_new l)"
  by (simp add: command_queues_wf_def command_queues_new_def lane_of_def)

lemma push_lane_wf:
  "command_queues_wf q \<Longrightarrow> has_ready_capacity q (ce_priority c) \<Longrightarrow> command_queues_wf (push_lane q c)"
  by (auto simp: command_queues_wf_def has_ready_capacity_iff lane_of_push_lane barrier_buffer_capacity_def)

text \<open>What the release loop does, in one statement: it moves a prefix of the buffer, lane by lane in
  order, and stops at the first command whose lane is full.\<close>

lemma release_loop_spec:
  assumes "release_loop q n = (r, q')"
  shows "\<exists>k. k \<le> length (cq_barrier_buffer q) \<and>
    cq_barrier_buffer q' = drop k (cq_barrier_buffer q) \<and> cq_limits q' = cq_limits q \<and>
    (\<forall>p. lane_of q' p = lane_of q p @ filter (\<lambda>c. ce_priority c = p) (take k (cq_barrier_buffer q))) \<and>
    (case cq_barrier_buffer q' of
       [] \<Rightarrow> r = Ok (n + k)
     | c # _ \<Rightarrow> r = Err (CommandQueueFull (ce_priority c)) \<and> \<not> has_ready_capacity q' (ce_priority c)) \<and>
    (command_queues_wf q \<longrightarrow> command_queues_wf q')"
  using assms
proof (induction q n arbitrary: r q' rule: release_loop.induct)
  case (1 q n)
  show ?case
  proof (cases "cq_barrier_buffer q")
    case Nil
    with 1(2) show ?thesis by (intro exI [of _ 0]) (simp add: release_loop.simps)
  next
    case (Cons c rest)
    show ?thesis
    proof (cases "has_ready_capacity q (ce_priority c)")
      case False
      with 1(2) Cons show ?thesis by (intro exI [of _ 0]) (simp add: release_loop.simps [of q])
    next
      case True
      let ?q1 = "push_lane (q\<lparr>cq_barrier_buffer := rest\<rparr>) c"
      have "release_loop ?q1 (n + 1) = (r, q')"
        using 1(2) Cons True by (simp add: release_loop.simps [of q])
      from 1(1) [OF Cons _ this] True obtain k where k: "k \<le> length rest" "cq_barrier_buffer q' = drop k rest"
        "cq_limits q' = cq_limits q"
        "\<And>p. lane_of q' p = lane_of ?q1 p @ filter (\<lambda>c. ce_priority c = p) (take k rest)"
        "case cq_barrier_buffer q' of [] \<Rightarrow> r = Ok (n + 1 + k)
         | c # _ \<Rightarrow> r = Err (CommandQueueFull (ce_priority c)) \<and> \<not> has_ready_capacity q' (ce_priority c)"
        "command_queues_wf ?q1 \<longrightarrow> command_queues_wf q'"
        by auto
      have "command_queues_wf q \<longrightarrow> command_queues_wf ?q1"
        using True Cons
        by (intro impI push_lane_wf) (auto simp: command_queues_wf_def barrier_buffer_capacity_def has_ready_capacity_iff)
      then show ?thesis using k Cons
        by (intro exI [of _ "Suc k"]) (auto simp: lane_of_push_lane split: list.splits)
    qed
  qed
qed

lemma release_barrier_buffer_wf:
  "release_barrier_buffer q = (r, q') \<Longrightarrow> command_queues_wf q \<Longrightarrow> command_queues_wf q'"
  using release_loop_spec [of q 0 r q'] by (auto simp: release_barrier_buffer_def)

lemma command_push_alt:
  "command_push q c ing =
     (if ci_barrier_state ing \<in> {BRunning, BResuming} then
        if has_ready_capacity q (ce_priority c) then (Ok Queued, push_lane q c)
        else (Err (CommandQueueFull (ce_priority c)), q)
      else if ci_command_mode ing = ModeBuffer then
        if length (cq_barrier_buffer q) < barrier_buffer_capacity q
        then (Ok BufferedByBarrier, q\<lparr>cq_barrier_buffer := cq_barrier_buffer q @ [c]\<rparr>)
        else (Err (CommandQueueFull (ce_priority c)), q)
      else (Err (RejectedByBarrier (ci_command_mode ing)), q))"
  by (cases "ci_command_mode ing") (simp_all add: command_push_def push_ready_def)

lemma command_push_cases:
  assumes "command_push q c ing = (r, q')"
  obtains (refused) e where "r = Inl e" "q' = q"
  | (queued) "r = Inr Queued" "has_ready_capacity q (ce_priority c)" "q' = push_lane q c"
  | (buffered) "r = Inr BufferedByBarrier" "length (cq_barrier_buffer q) < barrier_buffer_capacity q"
      "q' = q\<lparr>cq_barrier_buffer := cq_barrier_buffer q @ [c]\<rparr>"
proof -
  have "(\<exists>e. r = Inl e \<and> q' = q) \<or>
      (r = Inr Queued \<and> has_ready_capacity q (ce_priority c) \<and> q' = push_lane q c) \<or>
      (r = Inr BufferedByBarrier \<and> length (cq_barrier_buffer q) < barrier_buffer_capacity q \<and>
         q' = q\<lparr>cq_barrier_buffer := cq_barrier_buffer q @ [c]\<rparr>)"
    using assms unfolding command_push_alt by (simp split: if_splits) blast+
  then show thesis using refused queued buffered by blast
qed

lemma command_push_wf:
  assumes "command_push q c ing = (r, q')" "command_queues_wf q"
  shows "command_queues_wf q'"
  using assms(1)
proof (cases rule: command_push_cases)
  case buffered
  with assms(2) show ?thesis by (simp add: command_queues_wf_def barrier_buffer_capacity_def)
qed (use assms(2) in \<open>simp_all add: push_lane_wf\<close>)

lemma command_pop_wf:
  assumes pop: "command_pop_next q = (x, q')" and wf: "command_queues_wf q"
  shows "command_queues_wf q'"
proof -
  have "cq_limits q' = cq_limits q" "cq_barrier_buffer q' = cq_barrier_buffer q"
    using pop by (auto simp: command_pop_next_def pop_front_def split: list.splits)
  then have "limit_of q' = limit_of q" "barrier_buffer_capacity q' = barrier_buffer_capacity q"
    by (simp_all add: limit_of_def barrier_buffer_capacity_def fun_eq_iff cong: command_priority.case_cong)
  moreover have "\<exists>pre. lane_of q p = pre @ lane_of q' p" for p
    using lane_of_pop [OF pop, of p] by blast
  then have "length (lane_of q' p) \<le> limit_of q p \<and> list_all (\<lambda>c. ce_priority c = p) (lane_of q' p)"
    if "length (lane_of q p) \<le> limit_of q p" "list_all (\<lambda>c. ce_priority c = p) (lane_of q p)" for p
  proof -
    obtain pre where "lane_of q p = pre @ lane_of q' p" using \<open>\<And>p. \<exists>pre. lane_of q p = pre @ lane_of q' p\<close> by blast
    with that show ?thesis by simp
  qed
  ultimately show ?thesis using wf \<open>cq_barrier_buffer q' = cq_barrier_buffer q\<close>
    unfolding command_queues_wf_def by simp
qed

lemma command_step_wf: "command_step q q' \<Longrightarrow> command_queues_wf q \<Longrightarrow> command_queues_wf q'"
proof (induction rule: command_step.induct)
  case (3 q n q')
  then show ?case by (auto simp: clear_barrier_buffer_def command_queues_wf_def barrier_buffer_capacity_def)
qed (rule command_push_wf release_barrier_buffer_wf command_pop_wf; assumption)+

section \<open>Properties\<close>

text \<open>C39. However commands are pushed, released, dropped and popped, no priority lane ever holds more
  commands than its configured limit, every lane holds only commands of its priority, and the
  barrier buffer stays within the saturating sum of the three limits.\<close>

theorem command_queues_bounded:
  assumes "command_step\<^sup>*\<^sup>* (command_queues_new l) q"
  shows "length (cq_high q) \<le> cl_high (cq_limits q) \<and> length (cq_normal q) \<le> cl_normal (cq_limits q) \<and>
    length (cq_low q) \<le> cl_low (cq_limits q) \<and>
    length (cq_barrier_buffer q) \<le> barrier_buffer_capacity q \<and>
    list_all (\<lambda>c. ce_priority c = PHigh) (cq_high q) \<and>
    list_all (\<lambda>c. ce_priority c = PNormal) (cq_normal q) \<and>
    list_all (\<lambda>c. ce_priority c = PLow) (cq_low q)"
proof -
  have "command_queues_wf q"
    using assms by (induction rule: rtranclp_induct) (auto intro: command_step_wf)
  then show ?thesis by (simp add: command_queues_wf_def lane_of_def limit_of_def)
qed

definition demo_command :: "command_id \<Rightarrow> command_priority \<Rightarrow> command_envelope" where
  "demo_command i p =
     \<lparr>ce_id = i, ce_client_id = 1, ce_entity_id = 9, ce_sequence = i, ce_received_at = 0,
      ce_kind = 2, ce_priority = p, ce_payload = []\<rparr>"

definition demo_limits :: command_queue_limits where
  "demo_limits = \<lparr>cl_high = 1, cl_normal = 1, cl_low = 1\<rparr>"

theorem command_queues_bounded_witness:
  "\<exists>q. command_step\<^sup>*\<^sup>* (command_queues_new demo_limits) q \<and> cq_high q = [demo_command 4 PHigh] \<and>
     length (cq_high q) \<le> 1"
proof -
  define q where "q = snd (command_push (command_queues_new demo_limits) (demo_command 4 PHigh) ingress_running)"
  have q: "command_step\<^sup>*\<^sup>* (command_queues_new demo_limits) q"
    unfolding q_def by (rule r_into_rtranclp, rule command_step.intros(1), rule surjective_pairing)
  moreover have "cq_high q = [demo_command 4 PHigh]" "cl_high (cq_limits q) = 1"
    by (simp_all add: q_def command_push_def ingress_running_def push_ready_def has_ready_capacity_def
        push_lane_def command_queues_new_def demo_limits_def demo_command_def)
  ultimately show ?thesis using command_queues_bounded [OF q] by auto
qed

text \<open>Releasing the barrier buffer moves a prefix of it: each moved command goes to the end of its
  own lane and the order within a priority is kept; it succeeds with the number of moved commands
  when the buffer empties, and otherwise reports the priority of the first command left, whose
  lane is then exactly full. Nothing is lost, duplicated or overtaken within a priority.\<close>

theorem release_barrier_buffer_spec:
  "\<exists>k. k \<le> length (cq_barrier_buffer q) \<and>
     cq_barrier_buffer (snd (release_barrier_buffer q)) = drop k (cq_barrier_buffer q) \<and>
     (\<forall>p. lane_of (snd (release_barrier_buffer q)) p =
            lane_of q p @ filter (\<lambda>c. ce_priority c = p) (take k (cq_barrier_buffer q))) \<and>
     (case drop k (cq_barrier_buffer q) of
        [] \<Rightarrow> fst (release_barrier_buffer q) = Ok k
      | c # _ \<Rightarrow> fst (release_barrier_buffer q) = Err (CommandQueueFull (ce_priority c)) \<and>
          \<not> has_ready_capacity (snd (release_barrier_buffer q)) (ce_priority c))"
proof -
  from release_loop_spec [of q 0 "fst (release_loop q 0)" "snd (release_loop q 0)"]
  obtain k where k: "k \<le> length (cq_barrier_buffer q)"
    "cq_barrier_buffer (snd (release_loop q 0)) = drop k (cq_barrier_buffer q)"
    "\<forall>p. lane_of (snd (release_loop q 0)) p = lane_of q p @ filter (\<lambda>c. ce_priority c = p) (take k (cq_barrier_buffer q))"
    "case cq_barrier_buffer (snd (release_loop q 0)) of
       [] \<Rightarrow> fst (release_loop q 0) = Ok (0 + k)
     | c # _ \<Rightarrow> fst (release_loop q 0) = Err (CommandQueueFull (ce_priority c)) \<and>
         \<not> has_ready_capacity (snd (release_loop q 0)) (ce_priority c)" by auto
  then show ?thesis unfolding release_barrier_buffer_def
    by (intro exI [of _ k]) (auto split: list.splits)
qed

text \<open>The history of a queue: what was accepted, what was delivered, what a clear dropped.\<close>

inductive command_history ::
  "command_queue_limits \<Rightarrow> command_envelope list \<Rightarrow> command_envelope list \<Rightarrow> command_envelope list \<Rightarrow>
   command_queues \<Rightarrow> bool" for l where
  history_new: "command_history l [] [] [] (command_queues_new l)"
| history_accept: "command_history l acc out dropped q \<Longrightarrow> command_push q c ing = (Inr ok, q') \<Longrightarrow>
    command_history l (acc @ [c]) out dropped q'"
| history_refuse: "command_history l acc out dropped q \<Longrightarrow> command_push q c ing = (Inl e, q') \<Longrightarrow>
    command_history l acc out dropped q'"
| history_release: "command_history l acc out dropped q \<Longrightarrow> release_barrier_buffer q = (r, q') \<Longrightarrow>
    command_history l acc out dropped q'"
| history_clear: "command_history l acc out dropped q \<Longrightarrow> clear_barrier_buffer q = (n, q') \<Longrightarrow>
    command_history l acc out (dropped @ cq_barrier_buffer q) q'"
| history_pop: "command_history l acc out dropped q \<Longrightarrow> command_pop_next q = (Some c, q') \<Longrightarrow>
    command_history l acc (out @ [c]) dropped q'"

definition held :: "command_queues \<Rightarrow> command_envelope list" where
  "held q = cq_high q @ cq_normal q @ cq_low q @ cq_barrier_buffer q"

lemma held_push_lane: "mset (held (push_lane q c)) = add_mset c (mset (held q))"
  by (simp add: held_def push_lane_def split: command_priority.splits)

lemma held_release: "mset (held (snd (release_loop q n))) = mset (held q)"
proof (induction q n rule: release_loop.induct)
  case (1 q n)
  show ?case
  proof (cases "cq_barrier_buffer q")
    case (Cons c rest)
    show ?thesis
    proof (cases "has_ready_capacity q (ce_priority c)")
      case True
      with 1 [OF Cons] Cons show ?thesis
        by (simp add: release_loop.simps [of q] held_push_lane) (simp add: held_def Cons)
    qed (simp add: release_loop.simps [of q] Cons)
  qed (simp add: release_loop.simps)
qed

text \<open>C38. Commands are conserved: at every moment, the commands the queues accepted are exactly
  those delivered by \<open>pop_next\<close>, those dropped by clearing the barrier buffer and those still held,
  each with its multiplicity; a refused command leaves no trace.\<close>

theorem commands_conserved:
  assumes "command_history l acc out dropped q"
  shows "mset acc = mset out + mset dropped + mset (held q)"
  using assms
proof (induction rule: command_history.induct)
  case (history_accept acc out dropped q c ing ok q')
  from history_accept(2) have "mset (held q') = add_mset c (mset (held q))"
    by (cases rule: command_push_cases) (simp_all add: held_push_lane, simp add: held_def)
  with history_accept show ?case by simp
next
  case (history_refuse acc out dropped q c ing e q')
  from history_refuse(2) have "q' = q" by (cases rule: command_push_cases) simp_all
  with history_refuse show ?case by simp
next
  case (history_release acc out dropped q r q')
  then show ?case using held_release [of q 0] by (simp add: release_barrier_buffer_def)
next
  case (history_clear acc out dropped q n q')
  then show ?case by (auto simp: clear_barrier_buffer_def held_def)
next
  case (history_pop acc out dropped q c q')
  then have "mset (held q) = add_mset c (mset (held q'))"
    by (auto simp: command_pop_next_def pop_front_def held_def split: list.splits)
  with history_pop show ?case by simp
qed (simp add: held_def command_queues_new_def)

theorem commands_conserved_witness:
  "\<exists>q. command_history demo_limits [demo_command 1 PHigh, demo_command 2 PLow] [demo_command 1 PHigh] [] q \<and>
     mset [demo_command 1 PHigh, demo_command 2 PLow] =
       mset [demo_command 1 PHigh] + mset [] + mset (held q)"
proof -
  define q0 where "q0 = command_queues_new demo_limits"
  define q1 where "q1 = q0\<lparr>cq_high := [demo_command 1 PHigh]\<rparr>"
  define q2 where "q2 = q1\<lparr>cq_low := [demo_command 2 PLow]\<rparr>"
  define q3 where "q3 = q2\<lparr>cq_high := []\<rparr>"
  note defs = q0_def q1_def q2_def q3_def command_queues_new_def demo_limits_def demo_command_def
  have 1: "command_push q0 (demo_command 1 PHigh) ingress_running = (Ok Queued, q1)"
    "command_push q1 (demo_command 2 PLow) ingress_running = (Ok Queued, q2)"
    by (simp_all add: defs command_push_def ingress_running_def push_ready_def has_ready_capacity_def push_lane_def)
  have 2: "command_pop_next q2 = (Some (demo_command 1 PHigh), q3)"
    by (simp add: defs command_pop_next_def)
  have "command_history demo_limits [] [] [] q0" unfolding q0_def by (rule history_new)
  from history_accept [OF history_accept [OF this 1(1)] 1(2)]
  have "command_history demo_limits [demo_command 1 PHigh, demo_command 2 PLow] [] [] q2" by simp
  from history_pop [OF this 2]
  have "command_history demo_limits [demo_command 1 PHigh, demo_command 2 PLow] [demo_command 1 PHigh] [] q3" by simp
  with commands_conserved [OF this] show ?thesis by blast
qed

text \<open>A consumer that pops until nothing is left gets all high commands, then all normal ones, then
  all low ones, each lane oldest first.\<close>

lemma command_pop_order:
  "fst (pop_upto command_pop_next (command_ready_len q) q) = cq_high q @ cq_normal q @ cq_low q"
  using commands.pop_all(1) [of q "command_ready_len q"]
  by (simp add: command_lanes_def command_ready_len_def)

end
