(* ===== verification/Event_Queues.thy ===== *)
theory Event_Queues
  imports Lane_Bank Entities
begin

text \<open>
  The bounded cross-station event queues (\<open>event.rs\<close>): back-pressure on the two reliable lanes,
  drop-oldest on the best-effort lane, and the tick-driven drain. The lemmas bound the lanes and
  show that the in-place drain loop is an order-preserving partition that agrees with repeated
  popping when everything is ready.
\<close>

datatype event_priority = Critical | Important | BestEffort

datatype event_kind =
    EventCustom u32
  | HandoffPrepare entity_id
  | HandoffCommit entity_id owner_epoch

record station_event =
  ev_id :: event_id
  ev_source :: station_id
  ev_target :: station_id
  ev_source_tick :: tick
  ev_target_tick :: tick
  ev_priority :: event_priority
  ev_kind :: event_kind

record event_queue_limits =
  el_critical :: usize
  el_important :: usize
  el_best_effort :: usize

definition default_event_limits :: event_queue_limits where
  "default_event_limits = \<lparr>el_critical = 1024, el_important = 4096, el_best_effort = 8192\<rparr>"

datatype push_outcome = Accepted | DroppedOldestBestEffort

datatype event_queue_error = EventQueueFull event_priority

record event_queues =
  eq_limits :: event_queue_limits
  eq_critical :: "station_event list"
  eq_important :: "station_event list"
  eq_best_effort :: "station_event list"

definition event_queues_new :: "event_queue_limits \<Rightarrow> event_queues" where
  "event_queues_new l = \<lparr>eq_limits = l, eq_critical = [], eq_important = [], eq_best_effort = []\<rparr>"

definition event_push ::
  "event_queues \<Rightarrow> station_event \<Rightarrow> (event_queue_error + push_outcome) \<times> event_queues" where
  "event_push q e =
     (case ev_priority e of
        Critical \<Rightarrow>
          if length (eq_critical q) \<ge> el_critical (eq_limits q) then (Err (EventQueueFull Critical), q)
          else (Ok Accepted, q\<lparr>eq_critical := eq_critical q @ [e]\<rparr>)
      | Important \<Rightarrow>
          if length (eq_important q) \<ge> el_important (eq_limits q) then (Err (EventQueueFull Important), q)
          else (Ok Accepted, q\<lparr>eq_important := eq_important q @ [e]\<rparr>)
      | BestEffort \<Rightarrow>
          if length (eq_best_effort q) \<ge> el_best_effort (eq_limits q)
          then (Ok DroppedOldestBestEffort,
                q\<lparr>eq_best_effort := snd (pop_front (eq_best_effort q)) @ [e]\<rparr>)
          else (Ok Accepted, q\<lparr>eq_best_effort := eq_best_effort q @ [e]\<rparr>))"

definition event_pop_next :: "event_queues \<Rightarrow> station_event option \<times> event_queues" where
  "event_pop_next q =
     (case pop_front (eq_critical q) of
        (Some e, r) \<Rightarrow> (Some e, q\<lparr>eq_critical := r\<rparr>)
      | (None, _) \<Rightarrow>
          (case pop_front (eq_important q) of
             (Some e, r) \<Rightarrow> (Some e, q\<lparr>eq_important := r\<rparr>)
           | (None, _) \<Rightarrow>
               (case pop_front (eq_best_effort q) of
                  (Some e, r) \<Rightarrow> (Some e, q\<lparr>eq_best_effort := r\<rparr>)
                | (None, _) \<Rightarrow> (None, q))))"

text \<open>The drain loop runs for the initial length of the queue; \<open>None\<close> is the \<open>expect\<close> panic.\<close>

fun drain_loop ::
  "nat \<Rightarrow> tick \<Rightarrow> station_event list \<Rightarrow> station_event list \<Rightarrow>
   (station_event list \<times> station_event list) option" where
  "drain_loop 0 now queue out = Some (queue, out)"
| "drain_loop (Suc n) now queue out =
     (case pop_front queue of
        (None, _) \<Rightarrow> None
      | (Some e, queue') \<Rightarrow>
          if ev_target_tick e \<le> now then drain_loop n now queue' (out @ [e])
          else drain_loop n now (queue' @ [e]) out)"

definition drain_priority_ready ::
  "station_event list \<Rightarrow> tick \<Rightarrow> station_event list \<Rightarrow>
   (station_event list \<times> station_event list) option" where
  "drain_priority_ready queue now out = drain_loop (length queue) now queue out"

definition drain_ready_into ::
  "event_queues \<Rightarrow> tick \<Rightarrow> station_event list \<Rightarrow> (usize \<times> event_queues \<times> station_event list) option" where
  "drain_ready_into q now out =
     (case drain_priority_ready (eq_critical q) now out of
        None \<Rightarrow> None
      | Some (c, out1) \<Rightarrow>
          (case drain_priority_ready (eq_important q) now out1 of
             None \<Rightarrow> None
           | Some (i, out2) \<Rightarrow>
               (case drain_priority_ready (eq_best_effort q) now out2 of
                  None \<Rightarrow> None
                | Some (b, out3) \<Rightarrow>
                    Some (length out3 - length out,
                          q\<lparr>eq_critical := c, eq_important := i, eq_best_effort := b\<rparr>, out3))))"

definition event_len :: "event_queues \<Rightarrow> usize" where
  "event_len q = length (eq_critical q) + length (eq_important q) + length (eq_best_effort q)"

section \<open>Lanes\<close>

definition event_lanes :: "event_queues \<Rightarrow> station_event list list" where
  "event_lanes q = [eq_critical q, eq_important q, eq_best_effort q]"

interpretation events: lane_bank event_lanes event_pop_next
  by unfold_locales
    (auto simp: event_lanes_def event_pop_next_def pop_front_def split: list.splits)

definition ready :: "tick \<Rightarrow> station_event \<Rightarrow> bool" where
  "ready now e \<longleftrightarrow> ev_target_tick e \<le> now"

lemma drain_loop_spec:
  "drain_loop (length xs) now (xs @ ys) out =
     Some (ys @ filter (\<lambda>e. \<not> ready now e) xs, out @ filter (ready now) xs)"
proof (induction xs arbitrary: ys out)
  case (Cons x xs)
  show ?case
    using Cons.IH [of ys "out @ [x]"] Cons.IH [of "ys @ [x]" out] by (simp add: ready_def)
qed simp

lemma drain_priority_ready_spec:
  "drain_priority_ready xs now out =
     Some (filter (\<lambda>e. \<not> ready now e) xs, out @ filter (ready now) xs)"
  using drain_loop_spec [of xs now "[]" out] by (simp add: drain_priority_ready_def)

definition event_queues_wf :: "event_queues \<Rightarrow> bool" where
  "event_queues_wf q \<longleftrightarrow>
     length (eq_critical q) \<le> el_critical (eq_limits q) \<and>
     length (eq_important q) \<le> el_important (eq_limits q) \<and>
     length (eq_best_effort q) \<le> max 1 (el_best_effort (eq_limits q)) \<and>
     list_all (\<lambda>e. ev_priority e = Critical) (eq_critical q) \<and>
     list_all (\<lambda>e. ev_priority e = Important) (eq_important q) \<and>
     list_all (\<lambda>e. ev_priority e = BestEffort) (eq_best_effort q)"

inductive event_step :: "event_queues \<Rightarrow> event_queues \<Rightarrow> bool" where
  "event_push q e = (r, q') \<Longrightarrow> event_step q q'"
| "event_pop_next q = (x, q') \<Longrightarrow> event_step q q'"
| "drain_ready_into q now out = Some (n, q', out') \<Longrightarrow> event_step q q'"

lemma list_all_tl: "list_all P xs \<Longrightarrow> list_all P (tl xs)"
  by (cases xs) auto

lemma snd_pop_front: "snd (pop_front xs) = tl xs"
  by (cases xs) auto

lemma event_push_wf:
  "event_push q e = (r, q') \<Longrightarrow> event_queues_wf q \<Longrightarrow> event_queues_wf q'"
  by (cases "ev_priority e")
    (auto simp: event_push_def event_queues_wf_def snd_pop_front list_all_tl max_def split: if_splits)

lemma event_pop_wf:
  "event_pop_next q = (x, q') \<Longrightarrow> event_queues_wf q \<Longrightarrow> event_queues_wf q'"
  by (auto simp: event_pop_next_def event_queues_wf_def pop_front_def split: list.splits)

lemma drain_ready_into_spec:
  "drain_ready_into q now out =
     Some (length (filter (ready now) (concat (event_lanes q))),
           q\<lparr>eq_critical := filter (\<lambda>e. \<not> ready now e) (eq_critical q),
             eq_important := filter (\<lambda>e. \<not> ready now e) (eq_important q),
             eq_best_effort := filter (\<lambda>e. \<not> ready now e) (eq_best_effort q)\<rparr>,
           out @ filter (ready now) (concat (event_lanes q)))"
  by (simp add: drain_ready_into_def drain_priority_ready_spec event_lanes_def)

lemma event_drain_wf:
  assumes "drain_ready_into q now out = Some (n, q', out')" "event_queues_wf q"
  shows "event_queues_wf q'"
proof -
  have len: "length xs \<le> k \<Longrightarrow> length (filter P xs) \<le> k" for P k and xs :: "station_event list"
    by (rule le_trans [OF length_filter_le])
  show ?thesis using assms
    by (auto simp: drain_ready_into_spec event_queues_wf_def list_all_iff intro: len)
qed

lemma event_step_wf: "event_step q q' \<Longrightarrow> event_queues_wf q \<Longrightarrow> event_queues_wf q'"
  by (induction rule: event_step.induct) (rule event_push_wf event_pop_wf event_drain_wf; assumption)+

section \<open>Properties\<close>

text \<open>Draining at a tick never panics and is an order-preserving partition: it appends exactly the
  ready events, critical before important before best-effort and each lane oldest first, reports
  their number, and leaves every delayed event in its lane in the same order.\<close>

theorem drain_ready_partition:
  "drain_ready_into q now out =
     Some (length (filter (ready now) (eq_critical q @ eq_important q @ eq_best_effort q)),
           q\<lparr>eq_critical := filter (\<lambda>e. \<not> ready now e) (eq_critical q),
             eq_important := filter (\<lambda>e. \<not> ready now e) (eq_important q),
             eq_best_effort := filter (\<lambda>e. \<not> ready now e) (eq_best_effort q)\<rparr>,
           out @ filter (ready now) (eq_critical q @ eq_important q @ eq_best_effort q))"
  unfolding drain_ready_into_spec by (simp add: event_lanes_def)

text \<open>When every queued event is ready, the drain delivers the same events in the same order as
  popping until the queues are empty.\<close>

theorem drain_agrees_with_pop:
  assumes "\<forall>e \<in> set (concat (event_lanes q)). ready now e"
  shows "map_option (\<lambda>(n, q', out). out) (drain_ready_into q now []) =
    Some (fst (pop_upto event_pop_next (event_len q) q))"
proof -
  have "fst (pop_upto event_pop_next (event_len q) q) = concat (event_lanes q)"
    by (rule events.pop_all(1)) (simp add: event_lanes_def event_len_def)
  then show ?thesis using assms by (simp add: drain_ready_into_spec)
qed

definition demo_event :: "event_id \<Rightarrow> tick \<Rightarrow> event_priority \<Rightarrow> station_event" where
  "demo_event i t p =
     \<lparr>ev_id = i, ev_source = 1, ev_target = 2, ev_source_tick = 0, ev_target_tick = t,
      ev_priority = p, ev_kind = EventCustom 0\<rparr>"

definition demo_event_queues :: event_queues where
  "demo_event_queues =
     \<lparr>eq_limits = default_event_limits, eq_critical = [demo_event 2 5 Critical],
      eq_important = [], eq_best_effort = [demo_event 1 3 BestEffort]\<rparr>"

theorem drain_agrees_with_pop_witness:
  "map_option (\<lambda>(n, q', out). map ev_id out) (drain_ready_into demo_event_queues 5 []) = Some [2, 1]"
proof -
  have "\<forall>e \<in> set (concat (event_lanes demo_event_queues)). ready 5 e"
    by (simp add: event_lanes_def demo_event_queues_def demo_event_def ready_def)
  from drain_agrees_with_pop [OF this]
  have "map_option (map ev_id) (map_option (\<lambda>(n, q', out). out) (drain_ready_into demo_event_queues 5 [])) =
      Some (map ev_id (fst (pop_upto event_pop_next (event_len demo_event_queues) demo_event_queues)))"
    by (simp only: option.map)
  also have "map ev_id (fst (pop_upto event_pop_next (event_len demo_event_queues) demo_event_queues)) = [2, 1]"
    by (simp add: event_len_def demo_event_queues_def event_pop_next_def demo_event_def numeral_2_eq_2)
  finally show ?thesis by (simp add: option.map_comp comp_def case_prod_unfold)
qed

text \<open>The reliable lanes never exceed their limits and refuse further events instead of dropping
  one; the best-effort lane never exceeds its limit either, except that a limit of zero still
  keeps the newest event.\<close>

theorem event_queues_bounded:
  assumes "event_step\<^sup>*\<^sup>* (event_queues_new l) q"
  shows "length (eq_critical q) \<le> el_critical (eq_limits q) \<and>
    length (eq_important q) \<le> el_important (eq_limits q) \<and>
    length (eq_best_effort q) \<le> max 1 (el_best_effort (eq_limits q))"
proof -
  have "event_queues_wf (event_queues_new l)" by (simp add: event_queues_wf_def event_queues_new_def)
  with assms have "event_queues_wf q" by (induction rule: rtranclp_induct) (auto intro: event_step_wf)
  then show ?thesis by (simp add: event_queues_wf_def)
qed

text \<open>The witness shows that the limit of zero is exceeded by one.\<close>

theorem event_queues_bounded_witness:
  "\<exists>q. event_step\<^sup>*\<^sup>* (event_queues_new \<lparr>el_critical = 0, el_important = 0, el_best_effort = 0\<rparr>) q \<and>
     length (eq_critical q) \<le> 0 \<and> length (eq_best_effort q) = 1"
proof -
  define l :: event_queue_limits where "l = \<lparr>el_critical = 0, el_important = 0, el_best_effort = 0\<rparr>"
  define q where "q = snd (event_push (event_queues_new l) (demo_event 1 3 BestEffort))"
  have q: "event_step\<^sup>*\<^sup>* (event_queues_new l) q"
    unfolding q_def by (rule r_into_rtranclp, rule event_step.intros(1), rule surjective_pairing)
  moreover have "eq_limits q = l" "length (eq_best_effort q) = 1"
    by (simp_all add: q_def event_push_def event_queues_new_def demo_event_def l_def)
  ultimately show ?thesis using event_queues_bounded [OF q] by (auto simp: l_def)
qed

end
