(* ===== verification/Codec.thy ===== *)
theory Codec
  imports Sync_Prelude
begin

text \<open>
  Byte-level reading and writing shared by the wire codec (\<open>sectorsync-wire\<close>): little-endian
  integers, the bounds-checked \<open>Cursor\<close>, and the contracts that relate a reader to an encoder.
  \<open>reads rd x bs\<close> says that \<open>rd\<close> consumes exactly \<open>bs\<close> wherever it stands and yields \<open>x\<close>;
  \<open>parses rd enc\<close> says that whatever \<open>rd\<close> accepts is the encoding of what it yields. The locales
  \<open>codec\<close> and \<open>canonical_codec\<close> package the two and give prefix-freeness and uniqueness.
\<close>

unbundle bit_operations_syntax

section \<open>Little-endian integers\<close>

text \<open>\<open>to_le_bytes\<close> and \<open>from_le_bytes\<close>.\<close>

primrec to_le :: "nat \<Rightarrow> 'a::len word \<Rightarrow> bytes" where
  "to_le 0 w = []"
| "to_le (Suc n) w = ucast w # to_le n (drop_bit 8 w)"

primrec from_le :: "bytes \<Rightarrow> 'a::len word" where
  "from_le [] = 0"
| "from_le (b # bs) = ucast b OR push_bit 8 (from_le bs)"

lemma length_to_le [simp]: "length (to_le n w) = n"
  by (induction n arbitrary: w) simp_all

lemma to_le_nth_bit: "k < n \<Longrightarrow> bit (to_le n w ! k) j \<longleftrightarrow> j < 8 \<and> bit w (8 * k + j)"
proof (induction n arbitrary: k w)
  case (Suc n)
  show ?case
  proof (cases k)
    case 0
    then show ?thesis by (auto simp: bit_ucast_iff)
  next
    case (Suc m)
    then show ?thesis using Suc.IH [of m "drop_bit 8 w"] Suc.prems
      by (simp add: bit_drop_bit_eq ac_simps)
  qed
qed simp

lemma from_le_bit:
  "bit (from_le bs :: 'a::len word) i \<longleftrightarrow>
     i < LENGTH('a) \<and> i div 8 < length bs \<and> bit (bs ! (i div 8)) (i mod 8)"
proof (induction bs arbitrary: i)
  case (Cons b bs)
  have "bit b i \<Longrightarrow> i < 8" using bit_imp_le_length [of b i] by simp
  moreover have "8 \<le> i \<Longrightarrow> i div 8 = Suc ((i - 8) div 8) \<and> i mod 8 = (i - 8) mod 8"
    by (simp add: le_div_geq le_mod_geq)
  ultimately show ?case
    by (cases "i < 8") (auto simp: bit_or_iff bit_ucast_iff bit_push_bit_iff Cons.IH)
qed simp

lemma from_le_to_le:
  assumes "LENGTH('a) = 8 * n"
  shows "from_le (to_le n w) = (w :: 'a::len word)"
proof (rule bit_word_eqI)
  fix i assume "i < LENGTH('a)"
  then have "i div 8 < n" using assms by auto
  then show "bit (from_le (to_le n w) :: 'a word) i \<longleftrightarrow> bit w i"
    using \<open>i < LENGTH('a)\<close> by (simp add: from_le_bit to_le_nth_bit)
qed

lemma to_le_from_le:
  assumes "LENGTH('a) = 8 * length bs"
  shows "to_le (length bs) (from_le bs :: 'a::len word) = bs"
proof (rule nth_equalityI)
  fix k assume "k < length (to_le (length bs) (from_le bs :: 'a word))"
  then have k: "k < length bs" by simp
  show "to_le (length bs) (from_le bs :: 'a word) ! k = bs ! k"
  proof (rule bit_word_eqI)
    fix j assume "j < LENGTH(8)"
    then have j: "j < 8" by simp
    then have "8 * k + j < LENGTH('a)" using assms k by simp
    with j k show "bit (to_le (length bs) (from_le bs :: 'a word) ! k) j \<longleftrightarrow> bit (bs ! k) j"
      by (simp add: to_le_nth_bit from_le_bit)
  qed
qed simp

section \<open>The cursor\<close>

datatype binary_decode_error =
    Empty
  | UnknownFrameKind u8
  | Truncated usize usize
  | InvalidBarrierState u8
  | InvalidCommandPriority u8
  | InvalidEventPriority u8
  | InvalidEventKind u8
  | TrailingBytes usize

record cursor =
  cur_input :: bytes
  cur_offset :: usize

type_synonym 'a reader = "cursor \<Rightarrow> binary_decode_error + ('a \<times> cursor)"

definition cursor_new :: "bytes \<Rightarrow> cursor" where
  "cursor_new input = \<lparr>cur_input = input, cur_offset = 0\<rparr>"

definition cursor_require :: "cursor \<Rightarrow> usize \<Rightarrow> binary_decode_error + unit" where
  "cursor_require c count =
     (let needed = usize_add (cur_offset c) count in
      if needed > length (cur_input c) then Err (Truncated needed (length (cur_input c))) else Ok ())"

text \<open>A failed \<open>expect\<close> and a slice out of range cannot happen after \<open>require\<close>; the slice is
  \<open>take\<close> of \<open>drop\<close>.\<close>

definition read_slice :: "usize \<Rightarrow> bytes reader" where
  "read_slice n c =
     and_then (cursor_require c n) (\<lambda>_.
       Ok (take n (drop (cur_offset c) (cur_input c)), c\<lparr>cur_offset := cur_offset c + n\<rparr>))"

definition rd_map :: "('a \<Rightarrow> 'b) \<Rightarrow> 'a reader \<Rightarrow> 'b reader" where
  "rd_map f rd c = and_then (rd c) (\<lambda>(x, c'). Ok (f x, c'))"

definition rd_bind :: "'a reader \<Rightarrow> ('a \<Rightarrow> 'b reader) \<Rightarrow> 'b reader" where
  "rd_bind rd f c = and_then (rd c) (\<lambda>(x, c'). f x c')"

definition rd_return :: "'a \<Rightarrow> 'a reader" where
  "rd_return x c = Ok (x, c)"

definition rd_fail :: "binary_decode_error \<Rightarrow> 'a reader" where
  "rd_fail e c = Err e"

definition read_u8 :: "u8 reader" where
  "read_u8 c =
     and_then (cursor_require c 1) (\<lambda>_.
       Ok (cur_input c ! cur_offset c, c\<lparr>cur_offset := cur_offset c + 1\<rparr>))"

definition read_u16 :: "u16 reader" where "read_u16 = rd_map from_le (read_slice 2)"
definition read_u32 :: "u32 reader" where "read_u32 = rd_map from_le (read_slice 4)"
definition read_u64 :: "u64 reader" where "read_u64 = rd_map from_le (read_slice 8)"

definition cursor_finish :: "cursor \<Rightarrow> binary_decode_error + unit" where
  "cursor_finish c =
     (if cur_offset c = length (cur_input c) then Ok ()
      else Err (TrailingBytes (length (cur_input c) - cur_offset c)))"

text \<open>The counted loops of the decoders, which push one decoded item per round.\<close>

primrec read_many :: "nat \<Rightarrow> 'a reader \<Rightarrow> 'a list reader" where
  "read_many 0 rd = rd_return []"
| "read_many (Suc n) rd = rd_bind rd (\<lambda>x. rd_bind (read_many n rd) (\<lambda>xs. rd_return (x # xs)))"

section \<open>Readers that consume an encoding\<close>

text \<open>It also covers an input that ends early: cut anywhere inside \<open>bs\<close>, the reader reports
  \<open>Truncated\<close> with the available length and a larger needed one.\<close>

definition consumes :: "'a reader \<Rightarrow> 'a \<Rightarrow> bytes \<Rightarrow> bool" where
  "consumes rd x bs \<longleftrightarrow>
     (\<forall>pre r. length (pre @ bs @ r) < usize_max \<longrightarrow>
        rd \<lparr>cur_input = pre @ bs @ r, cur_offset = length pre\<rparr> =
          Ok (x, \<lparr>cur_input = pre @ bs @ r, cur_offset = length (pre @ bs)\<rparr>))"

definition cut_short :: "'a reader \<Rightarrow> bytes \<Rightarrow> bool" where
  "cut_short rd bs \<longleftrightarrow>
     (\<forall>pre n. length (pre @ bs) < usize_max \<longrightarrow> n < length bs \<longrightarrow>
        (\<exists>needed. length pre + n < needed \<and>
           rd \<lparr>cur_input = pre @ take n bs, cur_offset = length pre\<rparr> =
             Err (Truncated needed (length pre + n))))"

definition reads :: "'a reader \<Rightarrow> 'a \<Rightarrow> bytes \<Rightarrow> bool" where
  "reads rd x bs \<longleftrightarrow> consumes rd x bs \<and> cut_short rd bs"

lemma reads_return [intro]: "reads (rd_return x) x []"
  by (simp add: reads_def consumes_def cut_short_def rd_return_def)

lemma consumes_bind:
  assumes rd: "consumes rd x bs" and f: "consumes (f x) y cs"
  shows "consumes (rd_bind rd f) y (bs @ cs)"
  unfolding consumes_def
proof (intro allI impI)
  fix pre r assume len: "length (pre @ (bs @ cs) @ r) < usize_max"
  have 1: "rd \<lparr>cur_input = pre @ bs @ (cs @ r), cur_offset = length pre\<rparr> =
      Ok (x, \<lparr>cur_input = pre @ bs @ (cs @ r), cur_offset = length (pre @ bs)\<rparr>)"
    using rd len by (simp add: consumes_def)
  have 2: "f x \<lparr>cur_input = (pre @ bs) @ cs @ r, cur_offset = length (pre @ bs)\<rparr> =
      Ok (y, \<lparr>cur_input = (pre @ bs) @ cs @ r, cur_offset = length ((pre @ bs) @ cs)\<rparr>)"
    using f len unfolding consumes_def by (metis append.assoc)
  show "rd_bind rd f \<lparr>cur_input = pre @ (bs @ cs) @ r, cur_offset = length pre\<rparr> =
      Ok (y, \<lparr>cur_input = pre @ (bs @ cs) @ r, cur_offset = length (pre @ bs @ cs)\<rparr>)"
    using 1 2 by (simp add: rd_bind_def)
qed

lemma cut_short_bind:
  assumes rd: "consumes rd x bs" "cut_short rd bs" and f: "cut_short (f x) cs"
  shows "cut_short (rd_bind rd f) (bs @ cs)"
  unfolding cut_short_def
proof (intro allI impI)
  fix pre n assume len: "length (pre @ bs @ cs) < usize_max" and n: "n < length (bs @ cs)"
  show "\<exists>needed. length pre + n < needed \<and>
      rd_bind rd f \<lparr>cur_input = pre @ take n (bs @ cs), cur_offset = length pre\<rparr> =
        Err (Truncated needed (length pre + n))"
  proof (cases "n < length bs")
    case True
    with rd(2) len obtain needed where "length pre + n < needed"
      "rd \<lparr>cur_input = pre @ take n bs, cur_offset = length pre\<rparr> = Err (Truncated needed (length pre + n))"
      unfolding cut_short_def by (metis add_lessD1 append.assoc length_append)
    with True show ?thesis by (auto simp: rd_bind_def)
  next
    case False
    let ?m = "n - length bs"
    have "rd \<lparr>cur_input = pre @ bs @ take ?m cs, cur_offset = length pre\<rparr> =
        Ok (x, \<lparr>cur_input = pre @ bs @ take ?m cs, cur_offset = length (pre @ bs)\<rparr>)"
      using rd(1) len by (simp add: consumes_def)
    moreover obtain needed where "length (pre @ bs) + ?m < needed"
      "f x \<lparr>cur_input = (pre @ bs) @ take ?m cs, cur_offset = length (pre @ bs)\<rparr> =
         Err (Truncated needed (length (pre @ bs) + ?m))"
      using f len n False unfolding cut_short_def
      by (metis add_diff_inverse_nat append.assoc length_append nat_add_left_cancel_less)
    ultimately show ?thesis using False by (auto simp: rd_bind_def)
  qed
qed

lemma reads_bind: "reads rd x bs \<Longrightarrow> reads (f x) y cs \<Longrightarrow> reads (rd_bind rd f) y (bs @ cs)"
  unfolding reads_def by (blast intro: consumes_bind cut_short_bind)

lemma reads_bind_return:
  "reads rd x bs \<Longrightarrow> reads (f x) y [] \<Longrightarrow> reads (rd_bind rd f) y bs"
  using reads_bind [of rd x bs f y "[]"] by simp

lemma reads_slice: "reads (read_slice (length bs)) bs bs"
  by (auto simp: reads_def consumes_def cut_short_def read_slice_def cursor_require_def usize_add_def Let_def)

lemma reads_map: "reads rd x bs \<Longrightarrow> reads (rd_map f rd) (f x) bs"
  unfolding reads_def consumes_def cut_short_def rd_map_def by fastforce

lemma reads_u8: "reads read_u8 b [b]"
  by (auto simp: reads_def consumes_def cut_short_def read_u8_def cursor_require_def usize_add_def Let_def nth_append)

lemma reads_u16: "reads read_u16 w (to_le 2 w)"
  using reads_map [OF reads_slice, of "from_le :: bytes \<Rightarrow> u16" "to_le 2 w"] by (simp add: read_u16_def from_le_to_le)

lemma reads_u32: "reads read_u32 w (to_le 4 w)"
  using reads_map [OF reads_slice, of "from_le :: bytes \<Rightarrow> u32" "to_le 4 w"] by (simp add: read_u32_def from_le_to_le)

lemma reads_u64: "reads read_u64 w (to_le 8 w)"
  using reads_map [OF reads_slice, of "from_le :: bytes \<Rightarrow> u64" "to_le 8 w"] by (simp add: read_u64_def from_le_to_le)

lemma reads_many:
  "(\<And>x. x \<in> set xs \<Longrightarrow> reads rd x (enc x)) \<Longrightarrow>
   reads (read_many (length xs) rd) xs (concat (map enc xs))"
proof (induction xs)
  case (Cons x xs)
  then have tail: "reads (read_many (length xs) rd) xs (concat (map enc xs))" by simp
  have "reads (rd_bind (read_many (length xs) rd) (\<lambda>xs. rd_return (x # xs))) (x # xs) (concat (map enc xs))"
    by (rule reads_bind_return [OF tail reads_return])
  moreover have "reads rd x (enc x)" by (rule Cons.prems) simp
  ultimately show ?case using reads_bind [of rd x "enc x"] by simp
qed (simp add: reads_return)

section \<open>Readers that accept only encodings\<close>

definition parses :: "'a reader \<Rightarrow> ('a \<Rightarrow> bytes) \<Rightarrow> ('a \<Rightarrow> bool) \<Rightarrow> bool" where
  "parses rd enc ok \<longleftrightarrow>
     (\<forall>c x c'. cur_offset c \<le> length (cur_input c) \<longrightarrow> length (cur_input c) < usize_max \<longrightarrow>
        rd c = Ok (x, c') \<longrightarrow>
        ok x \<and> cur_input c' = cur_input c \<and> cur_offset c' = cur_offset c + length (enc x) \<and>
        cur_offset c' \<le> length (cur_input c) \<and>
        take (length (enc x)) (drop (cur_offset c) (cur_input c)) = enc x)"

lemma parsesD:
  assumes "parses rd enc ok" "cur_offset c \<le> length (cur_input c)" "length (cur_input c) < usize_max"
    "rd c = Ok (x, c')"
  shows "ok x" "cur_input c' = cur_input c" "cur_offset c' = cur_offset c + length (enc x)"
    "cur_offset c' \<le> length (cur_input c)"
    "take (length (enc x)) (drop (cur_offset c) (cur_input c)) = enc x"
proof -
  have "ok x \<and> cur_input c' = cur_input c \<and> cur_offset c' = cur_offset c + length (enc x) \<and>
      cur_offset c' \<le> length (cur_input c) \<and>
      take (length (enc x)) (drop (cur_offset c) (cur_input c)) = enc x"
    using assms unfolding parses_def by blast
  then show "ok x" "cur_input c' = cur_input c" "cur_offset c' = cur_offset c + length (enc x)"
    "cur_offset c' \<le> length (cur_input c)"
    "take (length (enc x)) (drop (cur_offset c) (cur_input c)) = enc x"
    by blast+
qed

lemma parses_return: "parses (rd_return x) (\<lambda>_. []) (\<lambda>y. y = x)"
  by (auto simp: parses_def rd_return_def)

lemma parses_bind:
  assumes rd: "parses rd enc1 ok1" and f: "\<And>x. ok1 x \<Longrightarrow> parses (f x) (enc2 x) (ok2 x)"
    and enc: "\<And>x y. ok1 x \<Longrightarrow> ok2 x y \<Longrightarrow> ok y \<and> enc y = enc1 x @ enc2 x y"
  shows "parses (rd_bind rd f) enc ok"
  unfolding parses_def
proof (intro allI impI)
  fix c y c2
  assume c: "cur_offset c \<le> length (cur_input c)" "length (cur_input c) < usize_max"
    and "rd_bind rd f c = Ok (y, c2)"
  then obtain x c1 where 1: "rd c = Ok (x, c1)" and 2: "f x c1 = Ok (y, c2)"
    by (auto simp: rd_bind_def and_then_Ok_iff)
  note p1 = parsesD [OF rd c 1]
  have c1: "cur_offset c1 \<le> length (cur_input c1)" "length (cur_input c1) < usize_max"
    using p1 c by simp_all
  note p2 = parsesD [OF f [OF p1(1)] c1 2]
  have "ok y" "enc y = enc1 x @ enc2 x y" using enc [OF p1(1) p2(1)] by simp_all
  then show "ok y \<and> cur_input c2 = cur_input c \<and> cur_offset c2 = cur_offset c + length (enc y) \<and>
      cur_offset c2 \<le> length (cur_input c) \<and>
      take (length (enc y)) (drop (cur_offset c) (cur_input c)) = enc y"
    using p1 p2 by (simp add: take_add ac_simps)
qed

lemma parses_slice: "parses (read_slice n) (\<lambda>x. x) (\<lambda>x. length x = n)"
  by (auto simp: parses_def read_slice_def cursor_require_def usize_add_def and_then_Ok_iff
      Let_def not_less min_def split: if_splits)

lemma parses_map:
  assumes "parses rd enc ok" "\<And>x. ok x \<Longrightarrow> ok' (f x) \<and> enc' (f x) = enc x"
  shows "parses (rd_map f rd) enc' ok'"
  unfolding parses_def
proof (intro allI impI)
  fix c y c'
  assume c: "cur_offset c \<le> length (cur_input c)" "length (cur_input c) < usize_max"
    and "rd_map f rd c = Ok (y, c')"
  then obtain x where x: "rd c = Ok (x, c')" "y = f x" by (auto simp: rd_map_def and_then_Ok_iff)
  note p = parsesD [OF assms(1) c x(1)]
  show "ok' y \<and> cur_input c' = cur_input c \<and> cur_offset c' = cur_offset c + length (enc' y) \<and>
      cur_offset c' \<le> length (cur_input c) \<and>
      take (length (enc' y)) (drop (cur_offset c) (cur_input c)) = enc' y"
    using p assms(2) [OF p(1)] x(2) by simp
qed

lemma parses_u8: "parses read_u8 (\<lambda>b. [b]) (\<lambda>_. True)"
  by (auto simp: parses_def read_u8_def cursor_require_def usize_add_def and_then_Ok_iff Let_def
      not_less take_Suc_conv_app_nth Cons_nth_drop_Suc [symmetric] split: if_splits)

lemma parses_u16: "parses read_u16 (to_le 2) (\<lambda>_. True)"
  unfolding read_u16_def by (rule parses_map [OF parses_slice]) (use to_le_from_le [where 'a = 16] in force)

lemma parses_u32: "parses read_u32 (to_le 4) (\<lambda>_. True)"
  unfolding read_u32_def by (rule parses_map [OF parses_slice]) (use to_le_from_le [where 'a = 32] in force)

lemma parses_u64: "parses read_u64 (to_le 8) (\<lambda>_. True)"
  unfolding read_u64_def by (rule parses_map [OF parses_slice]) (use to_le_from_le [where 'a = 64] in force)

lemma parses_many:
  assumes rd: "parses rd enc ok"
  shows "parses (read_many n rd) (\<lambda>xs. concat (map enc xs)) (\<lambda>xs. length xs = n \<and> list_all ok xs)"
proof (induction n)
  case 0
  show ?case by (simp add: parses_def rd_return_def)
next
  case (Suc n)
  have tail: "parses (rd_bind (read_many n rd) (\<lambda>xs. rd_return (x # xs)))
      (\<lambda>ys. concat (map enc (tl ys))) (\<lambda>ys. ys \<noteq> [] \<and> hd ys = x \<and> length (tl ys) = n \<and> list_all ok (tl ys))" for x
    by (rule parses_bind [OF Suc parses_return]) auto
  show ?case unfolding read_many.simps
    by (rule parses_bind [OF rd tail]) (auto simp: neq_Nil_conv)
qed

text \<open>The relational form composes without naming the intermediate encodings: \<open>accepts rd P\<close> says
  that an accepted input is some \<open>bs\<close> with \<open>P x bs\<close>.\<close>

definition accepts :: "'a reader \<Rightarrow> ('a \<Rightarrow> bytes \<Rightarrow> bool) \<Rightarrow> bool" where
  "accepts rd P \<longleftrightarrow>
     (\<forall>c x c'. cur_offset c \<le> length (cur_input c) \<longrightarrow> length (cur_input c) < usize_max \<longrightarrow>
        rd c = Ok (x, c') \<longrightarrow>
        (\<exists>bs. P x bs \<and> cur_input c' = cur_input c \<and> cur_offset c' = cur_offset c + length bs \<and>
           cur_offset c' \<le> length (cur_input c) \<and>
           take (length bs) (drop (cur_offset c) (cur_input c)) = bs))"

lemma parses_accepts: "parses rd enc ok \<longleftrightarrow> accepts rd (\<lambda>x bs. ok x \<and> bs = enc x)"
  by (auto simp: parses_def accepts_def)

lemma accepts_weaken: "accepts rd P \<Longrightarrow> (\<And>x bs. P x bs \<Longrightarrow> Q x bs) \<Longrightarrow> accepts rd Q"
  unfolding accepts_def by blast

lemma parsesI: "accepts rd P \<Longrightarrow> (\<And>x bs. P x bs \<Longrightarrow> ok x \<and> bs = enc x) \<Longrightarrow> parses rd enc ok"
  unfolding parses_accepts by (rule accepts_weaken)

lemma accepts_return: "accepts (rd_return x) (\<lambda>y bs. y = x \<and> bs = [])"
  by (auto simp: accepts_def rd_return_def)

lemma accepts_fail: "accepts (rd_fail e) (\<lambda>_ _. False)"
  by (simp add: accepts_def rd_fail_def)

lemma accepts_if:
  "(b \<Longrightarrow> accepts r1 P) \<Longrightarrow> (\<not> b \<Longrightarrow> accepts r2 Q) \<Longrightarrow>
   accepts (if b then r1 else r2) (\<lambda>x bs. if b then P x bs else Q x bs)"
  by simp

lemma accepts_bind:
  assumes rd: "accepts rd P" and f: "\<And>x. accepts (f x) (Q x)"
  shows "accepts (rd_bind rd f) (\<lambda>y bs. \<exists>x b1 b2. P x b1 \<and> Q x y b2 \<and> bs = b1 @ b2)"
  unfolding accepts_def
proof (intro allI impI)
  fix c y c2
  assume c: "cur_offset c \<le> length (cur_input c)" "length (cur_input c) < usize_max"
    and "rd_bind rd f c = Ok (y, c2)"
  then obtain x c1 where 1: "rd c = Ok (x, c1)" and 2: "f x c1 = Ok (y, c2)"
    by (auto simp: rd_bind_def and_then_Ok_iff)
  obtain b1 where b1: "P x b1" "cur_input c1 = cur_input c" "cur_offset c1 = cur_offset c + length b1"
    "cur_offset c1 \<le> length (cur_input c)" "take (length b1) (drop (cur_offset c) (cur_input c)) = b1"
    using rd c 1 unfolding accepts_def by blast
  have c1: "cur_offset c1 \<le> length (cur_input c1)" "length (cur_input c1) < usize_max"
    using b1 c by simp_all
  obtain b2 where b2: "Q x y b2" "cur_input c2 = cur_input c1" "cur_offset c2 = cur_offset c1 + length b2"
    "cur_offset c2 \<le> length (cur_input c1)" "take (length b2) (drop (cur_offset c1) (cur_input c1)) = b2"
    using f [of x] c1 2 unfolding accepts_def by blast
  show "\<exists>bs. (\<exists>x b1 b2. P x b1 \<and> Q x y b2 \<and> bs = b1 @ b2) \<and> cur_input c2 = cur_input c \<and>
      cur_offset c2 = cur_offset c + length bs \<and> cur_offset c2 \<le> length (cur_input c) \<and>
      take (length bs) (drop (cur_offset c) (cur_input c)) = bs"
    using b1 b2 by (intro exI [of _ "b1 @ b2"]) (auto simp: take_add ac_simps)
qed

lemma accepts_map: "accepts rd P \<Longrightarrow> accepts (rd_map f rd) (\<lambda>y bs. \<exists>x. P x bs \<and> y = f x)"
  unfolding accepts_def rd_map_def and_then_Ok_iff by (auto 4 4)

section \<open>Contracts\<close>

locale codec =
  fixes rd :: "'a reader" and enc :: "'a \<Rightarrow> bytes" and ok :: "'a \<Rightarrow> bool"
  assumes decodes: "ok x \<Longrightarrow> reads rd x (enc x)"
begin

lemma decode_here:
  "ok x \<Longrightarrow> length (pre @ enc x @ r) < usize_max \<Longrightarrow>
   rd \<lparr>cur_input = pre @ enc x @ r, cur_offset = length pre\<rparr> =
     Ok (x, \<lparr>cur_input = pre @ enc x @ r, cur_offset = length (pre @ enc x)\<rparr>)"
  using decodes by (simp add: reads_def consumes_def)

lemma decode_cut:
  "ok x \<Longrightarrow> length (enc x) < usize_max \<Longrightarrow> n < length (enc x) \<Longrightarrow>
   \<exists>needed > n. rd (cursor_new (take n (enc x))) = Err (Truncated needed n)"
  using decodes unfolding reads_def cut_short_def cursor_new_def
  by (metis add_0 append_Nil list.size(3))

lemma prefix_free:
  assumes "ok x" "ok y" "enc x @ r = enc y @ s" "length (enc x @ r) < usize_max"
  shows "x = y \<and> r = s"
proof -
  have "rd \<lparr>cur_input = enc x @ r, cur_offset = 0\<rparr> =
      Ok (x, \<lparr>cur_input = enc x @ r, cur_offset = length (enc x)\<rparr>)"
    using decode_here [OF assms(1), of "[]" r] assms(4) by simp
  moreover have "rd \<lparr>cur_input = enc y @ s, cur_offset = 0\<rparr> =
      Ok (y, \<lparr>cur_input = enc y @ s, cur_offset = length (enc y)\<rparr>)"
    using decode_here [OF assms(2), of "[]" s] assms(3,4) by simp
  ultimately have "x = y" using assms(3) by simp
  with assms(3) show ?thesis by simp
qed

lemma many_decodes: "list_all ok xs \<Longrightarrow> reads (read_many (length xs) rd) xs (concat (map enc xs))"
  by (rule reads_many) (auto simp: list_all_iff intro: decodes)

end

locale canonical_codec = codec +
  assumes encodes: "parses rd enc ok"
begin

text \<open>A complete read: the reader accepts the whole input exactly when it is an encoding.\<close>

lemma whole_input:
  assumes "length bs < usize_max"
  shows "rd (cursor_new bs) = Ok (x, \<lparr>cur_input = bs, cur_offset = length bs\<rparr>) \<longleftrightarrow> ok x \<and> bs = enc x"
proof
  assume rd: "rd (cursor_new bs) = Ok (x, \<lparr>cur_input = bs, cur_offset = length bs\<rparr>)"
  from parsesD [OF encodes _ _ rd] assms show "ok x \<and> bs = enc x"
    by (auto simp: cursor_new_def)
next
  assume "ok x \<and> bs = enc x"
  with decode_here [of x "[]" "[]"] assms
  show "rd (cursor_new bs) = Ok (x, \<lparr>cur_input = bs, cur_offset = length bs\<rparr>)"
    by (simp add: cursor_new_def)
qed

lemma many_encodes:
  "parses (read_many n rd) (\<lambda>xs. concat (map enc xs)) (\<lambda>xs. length xs = n \<and> list_all ok xs)"
  by (rule parses_many [OF encodes])

end

lemmas accepts_fields =
  parses_u8 [unfolded parses_accepts] parses_u16 [unfolded parses_accepts]
  parses_u32 [unfolded parses_accepts] parses_u64 [unfolded parses_accepts]
  parses_slice [unfolded parses_accepts]

lemmas reads_fields = reads_u8 reads_u16 reads_u32 reads_u64 reads_slice

interpretation u8_codec: canonical_codec read_u8 "\<lambda>b. [b]" "\<lambda>_. True"
  by unfold_locales (rule reads_u8, rule parses_u8)

interpretation u16_codec: canonical_codec read_u16 "to_le 2" "\<lambda>_. True"
  by unfold_locales (rule reads_u16, rule parses_u16)

interpretation u32_codec: canonical_codec read_u32 "to_le 4" "\<lambda>_. True"
  by unfold_locales (rule reads_u32, rule parses_u32)

interpretation u64_codec: canonical_codec read_u64 "to_le 8" "\<lambda>_. True"
  by unfold_locales (rule reads_u64, rule parses_u64)

end
