(* ===== verification/Wire.thy ===== *)
theory Wire
  imports Codec Command_Queues Event_Queues
begin

text \<open>
  The binary wire format of \<open>sectorsync-wire\<close>: the six runtime frames, the encoder, the owned
  decoder and the borrowed replication decoder with its iterators. The lemmas give, field by
  field, a \<open>canonical_codec\<close> for every part of a frame; the properties compose them into the
  round trip, the characterisation of accepted inputs and the agreement of the two decoders.
\<close>

section \<open>Frames\<close>

datatype frame_kind =
    FkReplication | FkCommandAck | FkBarrier | FkCommand | FkStationEvent | FkCommandDispatch

definition frame_kind_byte :: "frame_kind \<Rightarrow> u8" where
  "frame_kind_byte k =
     (case k of FkReplication \<Rightarrow> 0 | FkCommandAck \<Rightarrow> 1 | FkBarrier \<Rightarrow> 2 | FkCommand \<Rightarrow> 3
              | FkStationEvent \<Rightarrow> 4 | FkCommandDispatch \<Rightarrow> 5)"

definition frame_kind_from_byte :: "u8 \<Rightarrow> frame_kind option" where
  "frame_kind_from_byte b =
     (if b = 0 then Some FkReplication else if b = 1 then Some FkCommandAck
      else if b = 2 then Some FkBarrier else if b = 3 then Some FkCommand
      else if b = 4 then Some FkStationEvent else if b = 5 then Some FkCommandDispatch else None)"

record component_delta =
  cd_component_id :: component_id
  cd_version :: u64
  cd_flags :: u8
  cd_bytes :: bytes

record entity_delta =
  ed_entity_id :: entity_id
  ed_owner_epoch :: owner_epoch
  ed_components :: "component_delta list"

record replication_frame =
  rf_client_id :: client_id
  rf_server_tick :: tick
  rf_entity_count :: u32
  rf_estimated_payload_bytes :: u32
  rf_entities :: "entity_delta list"

record command_ack_frame =
  ack_client_id :: client_id
  ack_command_id :: command_id
  ack_server_tick :: tick
  ack_accepted :: bool
  ack_reason_code :: u16

record command_frame =
  cf_client_id :: client_id
  cf_command_id :: command_id
  cf_entity_id :: entity_id
  cf_sequence :: u64
  cf_kind :: u32
  cf_priority :: command_priority
  cf_payload :: bytes

record command_dispatch_frame =
  df_station_id :: station_id
  df_client_id :: client_id
  df_command_id :: command_id
  df_entity_id :: entity_id
  df_sequence :: u64
  df_received_at :: tick
  df_kind :: u32
  df_priority :: command_priority
  df_payload :: bytes

record station_event_frame =
  sf_event_id :: event_id
  sf_source_station :: station_id
  sf_target_station :: station_id
  sf_source_tick :: tick
  sf_target_tick :: tick
  sf_priority :: event_priority
  sf_kind :: event_kind

record barrier_frame =
  bf_client_id :: client_id
  bf_barrier_id :: barrier_id
  bf_server_tick :: tick
  bf_state :: barrier_state

datatype runtime_frame =
    RfReplication replication_frame
  | RfCommand command_frame
  | RfCommandDispatch command_dispatch_frame
  | RfCommandAck command_ack_frame
  | RfBarrier barrier_frame
  | RfStationEvent station_event_frame

subsection \<open>Conversions to runtime values\<close>

definition command_frame_into_envelope :: "command_frame \<Rightarrow> tick \<Rightarrow> command_envelope" where
  "command_frame_into_envelope f at =
     \<lparr>ce_id = cf_command_id f, ce_client_id = cf_client_id f, ce_entity_id = cf_entity_id f,
      ce_sequence = cf_sequence f, ce_received_at = at, ce_kind = cf_kind f,
      ce_priority = cf_priority f, ce_payload = cf_payload f\<rparr>"

definition command_frame_from_envelope :: "command_envelope \<Rightarrow> command_frame" where
  "command_frame_from_envelope e =
     \<lparr>cf_client_id = ce_client_id e, cf_command_id = ce_id e, cf_entity_id = ce_entity_id e,
      cf_sequence = ce_sequence e, cf_kind = ce_kind e, cf_priority = ce_priority e,
      cf_payload = ce_payload e\<rparr>"

definition dispatch_from_envelope :: "station_id \<Rightarrow> command_envelope \<Rightarrow> command_dispatch_frame" where
  "dispatch_from_envelope st e =
     \<lparr>df_station_id = st, df_client_id = ce_client_id e, df_command_id = ce_id e,
      df_entity_id = ce_entity_id e, df_sequence = ce_sequence e, df_received_at = ce_received_at e,
      df_kind = ce_kind e, df_priority = ce_priority e, df_payload = ce_payload e\<rparr>"

definition dispatch_into_envelope :: "command_dispatch_frame \<Rightarrow> command_envelope" where
  "dispatch_into_envelope f =
     \<lparr>ce_id = df_command_id f, ce_client_id = df_client_id f, ce_entity_id = df_entity_id f,
      ce_sequence = df_sequence f, ce_received_at = df_received_at f, ce_kind = df_kind f,
      ce_priority = df_priority f, ce_payload = df_payload f\<rparr>"

definition event_frame_from_event :: "station_event \<Rightarrow> station_event_frame" where
  "event_frame_from_event e =
     \<lparr>sf_event_id = ev_id e, sf_source_station = ev_source e, sf_target_station = ev_target e,
      sf_source_tick = ev_source_tick e, sf_target_tick = ev_target_tick e,
      sf_priority = ev_priority e, sf_kind = ev_kind e\<rparr>"

definition event_frame_into_event :: "station_event_frame \<Rightarrow> station_event" where
  "event_frame_into_event f =
     \<lparr>ev_id = sf_event_id f, ev_source = sf_source_station f, ev_target = sf_target_station f,
      ev_source_tick = sf_source_tick f, ev_target_tick = sf_target_tick f,
      ev_priority = sf_priority f, ev_kind = sf_kind f\<rparr>"

section \<open>Encoding\<close>

datatype binary_encode_error =
    FrameBudgetTooSmall usize usize
  | TooManyItems string usize
  | PayloadTooLarge string usize

text \<open>A writer appends to the output buffer; on an error the bytes already written stay.\<close>

type_synonym writer = "bytes \<Rightarrow> (binary_encode_error + unit) \<times> bytes"

definition w_put :: "bytes \<Rightarrow> writer" where
  "w_put bs out = (Ok (), out @ bs)"

definition w_seq :: "writer \<Rightarrow> writer \<Rightarrow> writer" where
  "w_seq w1 w2 out =
     (case w1 out of (Inl e, out') \<Rightarrow> (Err e, out') | (Inr _, out') \<Rightarrow> w2 out')"

primrec w_each :: "('a \<Rightarrow> writer) \<Rightarrow> 'a list \<Rightarrow> writer" where
  "w_each f [] = w_put []"
| "w_each f (x # xs) = w_seq (f x) (w_each f xs)"

definition write_len_u16 :: "string \<Rightarrow> usize \<Rightarrow> writer" where
  "write_len_u16 field n out =
     (if n < 2 ^ 16 then (Ok (), out @ to_le 2 (of_nat n :: u16)) else (Err (TooManyItems field n), out))"

definition write_len_u32 :: "string \<Rightarrow> usize \<Rightarrow> writer" where
  "write_len_u32 field n out =
     (if n < 2 ^ 32 then (Ok (), out @ to_le 4 (of_nat n :: u32)) else (Err (TooManyItems field n), out))"

definition write_bytes :: "string \<Rightarrow> bytes \<Rightarrow> writer" where
  "write_bytes field bs out =
     (if length bs < 2 ^ 32 then (Ok (), out @ to_le 4 (of_nat (length bs) :: u32) @ bs)
      else (Err (PayloadTooLarge field (length bs)), out))"

definition encode_barrier_state :: "barrier_state \<Rightarrow> u8" where
  "encode_barrier_state s =
     (case s of BRunning \<Rightarrow> 0 | BRequested \<Rightarrow> 1 | BWaitingTickBoundary \<Rightarrow> 2 | BFrozen \<Rightarrow> 3 | BResuming \<Rightarrow> 4)"

definition decode_barrier_state :: "u8 \<Rightarrow> binary_decode_error + barrier_state" where
  "decode_barrier_state b =
     (if b = 0 then Ok BRunning else if b = 1 then Ok BRequested
      else if b = 2 then Ok BWaitingTickBoundary else if b = 3 then Ok BFrozen
      else if b = 4 then Ok BResuming else Err (InvalidBarrierState b))"

definition encode_command_priority :: "command_priority \<Rightarrow> u8" where
  "encode_command_priority p = (case p of PNormal \<Rightarrow> 0 | PHigh \<Rightarrow> 1 | PLow \<Rightarrow> 2)"

definition decode_command_priority :: "u8 \<Rightarrow> binary_decode_error + command_priority" where
  "decode_command_priority b =
     (if b = 0 then Ok PNormal else if b = 1 then Ok PHigh else if b = 2 then Ok PLow
      else Err (InvalidCommandPriority b))"

definition encode_event_priority :: "event_priority \<Rightarrow> u8" where
  "encode_event_priority p = (case p of Critical \<Rightarrow> 0 | Important \<Rightarrow> 1 | BestEffort \<Rightarrow> 2)"

definition decode_event_priority :: "u8 \<Rightarrow> binary_decode_error + event_priority" where
  "decode_event_priority b =
     (if b = 0 then Ok Critical else if b = 1 then Ok Important else if b = 2 then Ok BestEffort
      else Err (InvalidEventPriority b))"

definition encode_event_kind :: "event_kind \<Rightarrow> bytes" where
  "encode_event_kind k =
     (case k of
        EventCustom n \<Rightarrow> [0] @ to_le 4 n
      | HandoffPrepare i \<Rightarrow> [1] @ to_le 8 i
      | HandoffCommit i e \<Rightarrow> [2] @ to_le 8 i @ to_le 8 e)"

definition encode_component :: "component_delta \<Rightarrow> writer" where
  "encode_component c =
     w_seq (w_put (to_le 2 (cd_component_id c) @ to_le 8 (cd_version c) @ [cd_flags c]))
       (write_bytes ''replication.component.bytes'' (cd_bytes c))"

definition encode_entity :: "entity_delta \<Rightarrow> writer" where
  "encode_entity e =
     w_seq (w_put (to_le 8 (ed_entity_id e) @ to_le 8 (ed_owner_epoch e)))
       (w_seq (write_len_u16 ''replication.entity.components'' (length (ed_components e)))
         (w_each encode_component (ed_components e)))"

definition encode_replication :: "replication_frame \<Rightarrow> writer" where
  "encode_replication f =
     w_seq (w_put ([frame_kind_byte FkReplication] @ to_le 8 (rf_client_id f) @ to_le 8 (rf_server_tick f) @
                   to_le 4 (rf_entity_count f) @ to_le 4 (rf_estimated_payload_bytes f)))
       (w_seq (write_len_u32 ''replication.entities'' (length (rf_entities f)))
         (w_each encode_entity (rf_entities f)))"

definition encode_command_ack :: "command_ack_frame \<Rightarrow> writer" where
  "encode_command_ack f =
     w_put ([frame_kind_byte FkCommandAck] @ to_le 8 (ack_client_id f) @ to_le 8 (ack_command_id f) @
            to_le 8 (ack_server_tick f) @ [if ack_accepted f then 1 else 0] @ to_le 2 (ack_reason_code f))"

definition encode_command :: "command_frame \<Rightarrow> writer" where
  "encode_command f =
     w_seq (w_put ([frame_kind_byte FkCommand] @ to_le 8 (cf_client_id f) @ to_le 8 (cf_command_id f) @
                   to_le 8 (cf_entity_id f) @ to_le 8 (cf_sequence f) @ to_le 4 (cf_kind f) @
                   [encode_command_priority (cf_priority f)]))
       (write_bytes ''command.payload'' (cf_payload f))"

definition encode_command_dispatch :: "command_dispatch_frame \<Rightarrow> writer" where
  "encode_command_dispatch f =
     w_seq (w_put ([frame_kind_byte FkCommandDispatch] @ to_le 4 (df_station_id f) @
                   to_le 8 (df_client_id f) @ to_le 8 (df_command_id f) @ to_le 8 (df_entity_id f) @
                   to_le 8 (df_sequence f) @ to_le 8 (df_received_at f) @ to_le 4 (df_kind f) @
                   [encode_command_priority (df_priority f)]))
       (write_bytes ''command_dispatch.payload'' (df_payload f))"

definition encode_command_dispatch_envelope :: "station_id \<Rightarrow> command_envelope \<Rightarrow> writer" where
  "encode_command_dispatch_envelope st e =
     w_seq (w_put ([frame_kind_byte FkCommandDispatch] @ to_le 4 st @
                   to_le 8 (ce_client_id e) @ to_le 8 (ce_id e) @ to_le 8 (ce_entity_id e) @
                   to_le 8 (ce_sequence e) @ to_le 8 (ce_received_at e) @ to_le 4 (ce_kind e) @
                   [encode_command_priority (ce_priority e)]))
       (write_bytes ''command_dispatch.payload'' (ce_payload e))"

definition encode_station_event :: "station_event_frame \<Rightarrow> writer" where
  "encode_station_event f =
     w_put ([frame_kind_byte FkStationEvent] @ to_le 8 (sf_event_id f) @ to_le 4 (sf_source_station f) @
            to_le 4 (sf_target_station f) @ to_le 8 (sf_source_tick f) @ to_le 8 (sf_target_tick f) @
            [encode_event_priority (sf_priority f)] @ encode_event_kind (sf_kind f))"

definition encode_barrier :: "barrier_frame \<Rightarrow> writer" where
  "encode_barrier f =
     w_put ([frame_kind_byte FkBarrier] @ to_le 8 (bf_client_id f) @ to_le 8 (bf_barrier_id f) @
            to_le 8 (bf_server_tick f) @ [encode_barrier_state (bf_state f)])"

text \<open>The encoder method for each frame.\<close>

definition encode_frame :: "runtime_frame \<Rightarrow> writer" where
  "encode_frame f =
     (case f of
        RfReplication r \<Rightarrow> encode_replication r
      | RfCommand c \<Rightarrow> encode_command c
      | RfCommandDispatch d \<Rightarrow> encode_command_dispatch d
      | RfCommandAck a \<Rightarrow> encode_command_ack a
      | RfBarrier b \<Rightarrow> encode_barrier b
      | RfStationEvent e \<Rightarrow> encode_station_event e)"

section \<open>Decoding\<close>

definition rd_lift :: "binary_decode_error + 'a \<Rightarrow> 'a reader" where
  "rd_lift r c = and_then r (\<lambda>x. Ok (x, c))"

definition read_u32_bytes :: "bytes reader" where
  "read_u32_bytes = rd_bind read_u32 (\<lambda>n. read_slice (unat n))"

definition decode_component_ref :: "component_delta reader" where
  "decode_component_ref =
     rd_bind read_u16 (\<lambda>i. rd_bind read_u64 (\<lambda>v. rd_bind read_u8 (\<lambda>fl.
       rd_bind read_u32_bytes (\<lambda>bs.
         rd_return \<lparr>cd_component_id = i, cd_version = v, cd_flags = fl, cd_bytes = bs\<rparr>))))"

definition decode_entity_owned :: "entity_delta reader" where
  "decode_entity_owned =
     rd_bind read_u64 (\<lambda>i. rd_bind read_u64 (\<lambda>e. rd_bind read_u16 (\<lambda>n.
       rd_bind (read_many (unat n) decode_component_ref) (\<lambda>cs.
         rd_return \<lparr>ed_entity_id = i, ed_owner_epoch = e, ed_components = cs\<rparr>))))"

definition decode_replication_owned :: "replication_frame reader" where
  "decode_replication_owned =
     rd_bind read_u64 (\<lambda>cl. rd_bind read_u64 (\<lambda>t. rd_bind read_u32 (\<lambda>ec. rd_bind read_u32 (\<lambda>ep.
       rd_bind read_u32 (\<lambda>n. rd_bind (read_many (unat n) decode_entity_owned) (\<lambda>es.
         rd_return \<lparr>rf_client_id = cl, rf_server_tick = t, rf_entity_count = ec,
                    rf_estimated_payload_bytes = ep, rf_entities = es\<rparr>))))))"

definition decode_event_kind :: "event_kind reader" where
  "decode_event_kind =
     rd_bind read_u8 (\<lambda>k.
       if k = 0 then rd_map EventCustom read_u32
       else if k = 1 then rd_map HandoffPrepare read_u64
       else if k = 2 then rd_bind read_u64 (\<lambda>i. rd_map (HandoffCommit i) read_u64)
       else rd_fail (InvalidEventKind k))"

definition decode_command_ack :: "command_ack_frame reader" where
  "decode_command_ack =
     rd_bind read_u64 (\<lambda>cl. rd_bind read_u64 (\<lambda>co. rd_bind read_u64 (\<lambda>t.
       rd_bind read_u8 (\<lambda>a. rd_bind read_u16 (\<lambda>r.
         rd_return \<lparr>ack_client_id = cl, ack_command_id = co, ack_server_tick = t,
                    ack_accepted = (a \<noteq> 0), ack_reason_code = r\<rparr>)))))"

definition decode_command :: "command_frame reader" where
  "decode_command =
     rd_bind read_u64 (\<lambda>cl. rd_bind read_u64 (\<lambda>co. rd_bind read_u64 (\<lambda>en. rd_bind read_u64 (\<lambda>sq.
       rd_bind read_u32 (\<lambda>k. rd_bind (rd_bind read_u8 (\<lambda>b. rd_lift (decode_command_priority b))) (\<lambda>p.
         rd_bind read_u32_bytes (\<lambda>pl.
           rd_return \<lparr>cf_client_id = cl, cf_command_id = co, cf_entity_id = en, cf_sequence = sq,
                      cf_kind = k, cf_priority = p, cf_payload = pl\<rparr>)))))))"

definition decode_command_dispatch :: "command_dispatch_frame reader" where
  "decode_command_dispatch =
     rd_bind read_u32 (\<lambda>st. rd_bind read_u64 (\<lambda>cl. rd_bind read_u64 (\<lambda>co. rd_bind read_u64 (\<lambda>en.
       rd_bind read_u64 (\<lambda>sq. rd_bind read_u64 (\<lambda>at. rd_bind read_u32 (\<lambda>k.
         rd_bind (rd_bind read_u8 (\<lambda>b. rd_lift (decode_command_priority b))) (\<lambda>p.
           rd_bind read_u32_bytes (\<lambda>pl.
             rd_return \<lparr>df_station_id = st, df_client_id = cl, df_command_id = co,
                        df_entity_id = en, df_sequence = sq, df_received_at = at, df_kind = k,
                        df_priority = p, df_payload = pl\<rparr>)))))))))"

definition decode_barrier :: "barrier_frame reader" where
  "decode_barrier =
     rd_bind read_u64 (\<lambda>cl. rd_bind read_u64 (\<lambda>i. rd_bind read_u64 (\<lambda>t.
       rd_bind (rd_bind read_u8 (\<lambda>b. rd_lift (decode_barrier_state b))) (\<lambda>s.
         rd_return \<lparr>bf_client_id = cl, bf_barrier_id = i, bf_server_tick = t, bf_state = s\<rparr>))))"

definition decode_station_event :: "station_event_frame reader" where
  "decode_station_event =
     rd_bind read_u64 (\<lambda>i. rd_bind read_u32 (\<lambda>so. rd_bind read_u32 (\<lambda>ta. rd_bind read_u64 (\<lambda>st.
       rd_bind read_u64 (\<lambda>tt. rd_bind (rd_bind read_u8 (\<lambda>b. rd_lift (decode_event_priority b))) (\<lambda>p.
         rd_bind decode_event_kind (\<lambda>k.
           rd_return \<lparr>sf_event_id = i, sf_source_station = so, sf_target_station = ta,
                      sf_source_tick = st, sf_target_tick = tt, sf_priority = p, sf_kind = k\<rparr>)))))))"

definition read_frame_kind :: "frame_kind reader" where
  "read_frame_kind =
     rd_bind read_u8 (\<lambda>b.
       case frame_kind_from_byte b of None \<Rightarrow> rd_fail (UnknownFrameKind b) | Some k \<Rightarrow> rd_return k)"

definition decode_body :: "frame_kind \<Rightarrow> runtime_frame reader" where
  "decode_body k =
     (case k of
        FkReplication \<Rightarrow> rd_map RfReplication decode_replication_owned
      | FkCommandAck \<Rightarrow> rd_map RfCommandAck decode_command_ack
      | FkCommand \<Rightarrow> rd_map RfCommand decode_command
      | FkCommandDispatch \<Rightarrow> rd_map RfCommandDispatch decode_command_dispatch
      | FkBarrier \<Rightarrow> rd_map RfBarrier decode_barrier
      | FkStationEvent \<Rightarrow> rd_map RfStationEvent decode_station_event)"

definition binary_decode :: "bytes \<Rightarrow> binary_decode_error + runtime_frame" where
  "binary_decode input =
     and_then (rd_bind read_frame_kind decode_body (cursor_new input)) (\<lambda>(f, c).
       and_then (cursor_finish c) (\<lambda>_. Ok f))"

section \<open>Every field is a canonical codec\<close>

text \<open>The encodings as pure functions, and when they exist.\<close>

definition bytes_ok :: "bytes \<Rightarrow> bool" where
  "bytes_ok bs \<longleftrightarrow> length bs < 2 ^ 32"

definition enc_bytes :: "bytes \<Rightarrow> bytes" where
  "enc_bytes bs = to_le 4 (of_nat (length bs) :: u32) @ bs"

definition enc_component :: "component_delta \<Rightarrow> bytes" where
  "enc_component c =
     to_le 2 (cd_component_id c) @ to_le 8 (cd_version c) @ [cd_flags c] @ enc_bytes (cd_bytes c)"

definition enc_entity :: "entity_delta \<Rightarrow> bytes" where
  "enc_entity e =
     to_le 8 (ed_entity_id e) @ to_le 8 (ed_owner_epoch e) @
     to_le 2 (of_nat (length (ed_components e)) :: u16) @ concat (map enc_component (ed_components e))"

definition entity_ok :: "entity_delta \<Rightarrow> bool" where
  "entity_ok e \<longleftrightarrow>
     length (ed_components e) < 2 ^ 16 \<and> list_all (\<lambda>c. bytes_ok (cd_bytes c)) (ed_components e)"

definition enc_replication :: "replication_frame \<Rightarrow> bytes" where
  "enc_replication f =
     to_le 8 (rf_client_id f) @ to_le 8 (rf_server_tick f) @ to_le 4 (rf_entity_count f) @
     to_le 4 (rf_estimated_payload_bytes f) @ to_le 4 (of_nat (length (rf_entities f)) :: u32) @
     concat (map enc_entity (rf_entities f))"

definition replication_ok :: "replication_frame \<Rightarrow> bool" where
  "replication_ok f \<longleftrightarrow> length (rf_entities f) < 2 ^ 32 \<and> list_all entity_ok (rf_entities f)"

lemma unat_of_nat_u32: "n < 2 ^ 32 \<Longrightarrow> unat (of_nat n :: u32) = n"
  by (simp add: unat_of_nat)

lemma unat_of_nat_u16: "n < 2 ^ 16 \<Longrightarrow> unat (of_nat n :: u16) = n"
  by (simp add: unat_of_nat)

lemma unat_u32_less: "unat (w :: u32) < 2 ^ 32"
  using unsigned_less [of w] by simp

lemma unat_u16_less: "unat (w :: u16) < 2 ^ 16"
  using unsigned_less [of w] by simp

lemma reads_u32_bytes: "bytes_ok bs \<Longrightarrow> reads read_u32_bytes bs (enc_bytes bs)"
  unfolding read_u32_bytes_def enc_bytes_def
  by (rule reads_bind [OF reads_u32]) (simp add: unat_of_nat_u32 bytes_ok_def reads_slice)

lemma parses_u32_bytes: "parses read_u32_bytes enc_bytes bytes_ok"
  unfolding read_u32_bytes_def
  by (rule parsesI, rule accepts_bind, (rule accepts_fields)+)
    (auto simp: enc_bytes_def bytes_ok_def unat_u32_less [simplified])

interpretation payload: canonical_codec read_u32_bytes enc_bytes bytes_ok
  by unfold_locales (rule reads_u32_bytes, assumption, rule parses_u32_bytes)

interpretation component: canonical_codec decode_component_ref enc_component "\<lambda>c. bytes_ok (cd_bytes c)"
proof unfold_locales
  fix c :: component_delta assume "bytes_ok (cd_bytes c)"
  then show "reads decode_component_ref c (enc_component c)"
    unfolding decode_component_ref_def enc_component_def
    by (cases c, simp only: component_delta.simps)
      (rule reads_fields reads_return payload.decodes reads_bind reads_bind_return | assumption)+
next
  show "parses decode_component_ref enc_component (\<lambda>c. bytes_ok (cd_bytes c))"
    unfolding decode_component_ref_def
    by (rule parsesI, (rule accepts_bind accepts_fields accepts_return payload.encodes [unfolded parses_accepts])+)
      (auto simp: enc_component_def)
qed

interpretation entity: canonical_codec decode_entity_owned enc_entity entity_ok
proof unfold_locales
  fix e :: entity_delta assume e: "entity_ok e"
  then have "reads (read_many (unat (of_nat (length (ed_components e)) :: u16)) decode_component_ref)
      (ed_components e) (concat (map enc_component (ed_components e)))"
    using component.many_decodes [of "ed_components e"] by (simp add: entity_ok_def unat_of_nat_u16)
  then show "reads decode_entity_owned e (enc_entity e)"
    unfolding decode_entity_owned_def enc_entity_def
    by (cases e, simp only: entity_delta.simps)
      (rule reads_fields reads_return reads_bind reads_bind_return | assumption)+
next
  show "parses decode_entity_owned enc_entity entity_ok"
    unfolding decode_entity_owned_def
    by (rule parsesI, (rule accepts_bind accepts_fields accepts_return component.many_encodes [unfolded parses_accepts])+)
      (auto simp: enc_entity_def entity_ok_def unat_u16_less [simplified])
qed

interpretation replication: canonical_codec decode_replication_owned enc_replication replication_ok
proof unfold_locales
  fix f :: replication_frame assume f: "replication_ok f"
  then have "reads (read_many (unat (of_nat (length (rf_entities f)) :: u32)) decode_entity_owned)
      (rf_entities f) (concat (map enc_entity (rf_entities f)))"
    using entity.many_decodes [of "rf_entities f"] by (simp add: replication_ok_def unat_of_nat_u32)
  then show "reads decode_replication_owned f (enc_replication f)"
    unfolding decode_replication_owned_def enc_replication_def
    by (cases f, simp only: replication_frame.simps)
      (rule reads_fields reads_return reads_bind reads_bind_return | assumption)+
next
  show "parses decode_replication_owned enc_replication replication_ok"
    unfolding decode_replication_owned_def
    by (rule parsesI, (rule accepts_bind accepts_fields accepts_return entity.many_encodes [unfolded parses_accepts])+)
      (auto simp: enc_replication_def replication_ok_def unat_u32_less [simplified])
qed

text \<open>One-byte enumerations.\<close>

definition rd_enum :: "(u8 \<Rightarrow> binary_decode_error + 'a) \<Rightarrow> 'a reader" where
  "rd_enum dec = rd_bind read_u8 (\<lambda>b. rd_lift (dec b))"

locale byte_enum =
  fixes dec :: "u8 \<Rightarrow> binary_decode_error + 'a" and enc :: "'a \<Rightarrow> u8"
  assumes dec_enc: "dec (enc x) = Ok x" and enc_dec: "dec b = Ok x \<Longrightarrow> enc x = b"
begin

lemma enum_reads: "reads (rd_enum dec) x [enc x]"
  unfolding rd_enum_def
  by (rule reads_bind_return [OF reads_u8]) (simp add: reads_def consumes_def cut_short_def rd_lift_def dec_enc)

lemma enum_parses: "parses (rd_enum dec) (\<lambda>x. [enc x]) (\<lambda>_. True)"
proof -
  have lift: "accepts (rd_lift (dec b)) (\<lambda>x bs. dec b = Ok x \<and> bs = [])" for b
    by (auto simp: accepts_def rd_lift_def and_then_Ok_iff)
  show ?thesis unfolding rd_enum_def
    by (rule parsesI, rule accepts_bind, rule accepts_fields, rule lift) (auto simp: enc_dec)
qed

end

sublocale byte_enum \<subseteq> enum_codec: canonical_codec "rd_enum dec" "\<lambda>x. [enc x]" "\<lambda>_. True"
  by unfold_locales (rule enum_reads, rule enum_parses)

interpretation command_priority: byte_enum decode_command_priority encode_command_priority
  by unfold_locales
    (auto simp: decode_command_priority_def encode_command_priority_def split: command_priority.splits if_splits)

interpretation event_priority: byte_enum decode_event_priority encode_event_priority
  by unfold_locales
    (auto simp: decode_event_priority_def encode_event_priority_def split: event_priority.splits if_splits)

interpretation barrier_state: byte_enum decode_barrier_state encode_barrier_state
  by unfold_locales
    (auto simp: decode_barrier_state_def encode_barrier_state_def split: barrier_state.splits if_splits)

interpretation event_kind: canonical_codec decode_event_kind encode_event_kind "\<lambda>_. True"
proof unfold_locales
  fix k :: event_kind
  have hc: "reads (rd_bind read_u64 (\<lambda>i. rd_map (HandoffCommit i) read_u64)) (HandoffCommit i e)
      (to_le 8 i @ to_le 8 e)" for i e
    by (rule reads_bind, rule reads_fields, rule reads_map, rule reads_fields)
  show "reads decode_event_kind k (encode_event_kind k)"
    unfolding decode_event_kind_def encode_event_kind_def
    by (cases k; simp only: event_kind.case; rule reads_bind, rule reads_u8)
      (simp_all add: hc reads_map reads_fields)
next
  show "parses decode_event_kind encode_event_kind (\<lambda>_. True)"
    unfolding decode_event_kind_def
    by (rule parsesI, (rule accepts_bind accepts_fields accepts_if accepts_map accepts_fail)+)
      (auto simp: encode_event_kind_def split: if_splits)
qed

section \<open>Whole frames\<close>

definition enc_ack :: "u8 \<Rightarrow> command_ack_frame \<Rightarrow> bytes" where
  "enc_ack b f =
     to_le 8 (ack_client_id f) @ to_le 8 (ack_command_id f) @ to_le 8 (ack_server_tick f) @ [b] @
     to_le 2 (ack_reason_code f)"

definition enc_command :: "command_frame \<Rightarrow> bytes" where
  "enc_command f =
     to_le 8 (cf_client_id f) @ to_le 8 (cf_command_id f) @ to_le 8 (cf_entity_id f) @
     to_le 8 (cf_sequence f) @ to_le 4 (cf_kind f) @ [encode_command_priority (cf_priority f)] @
     enc_bytes (cf_payload f)"

definition enc_dispatch :: "command_dispatch_frame \<Rightarrow> bytes" where
  "enc_dispatch f =
     to_le 4 (df_station_id f) @ to_le 8 (df_client_id f) @ to_le 8 (df_command_id f) @
     to_le 8 (df_entity_id f) @ to_le 8 (df_sequence f) @ to_le 8 (df_received_at f) @
     to_le 4 (df_kind f) @ [encode_command_priority (df_priority f)] @ enc_bytes (df_payload f)"

definition enc_event :: "station_event_frame \<Rightarrow> bytes" where
  "enc_event f =
     to_le 8 (sf_event_id f) @ to_le 4 (sf_source_station f) @ to_le 4 (sf_target_station f) @
     to_le 8 (sf_source_tick f) @ to_le 8 (sf_target_tick f) @ [encode_event_priority (sf_priority f)] @
     encode_event_kind (sf_kind f)"

definition enc_barrier :: "barrier_frame \<Rightarrow> bytes" where
  "enc_barrier f =
     to_le 8 (bf_client_id f) @ to_le 8 (bf_barrier_id f) @ to_le 8 (bf_server_tick f) @
     [encode_barrier_state (bf_state f)]"

definition kind_of :: "runtime_frame \<Rightarrow> frame_kind" where
  "kind_of f =
     (case f of RfReplication _ \<Rightarrow> FkReplication | RfCommand _ \<Rightarrow> FkCommand
        | RfCommandDispatch _ \<Rightarrow> FkCommandDispatch | RfCommandAck _ \<Rightarrow> FkCommandAck
        | RfBarrier _ \<Rightarrow> FkBarrier | RfStationEvent _ \<Rightarrow> FkStationEvent)"

text \<open>\<open>enc_body\<close> is the canonical body; \<open>frame_ok\<close> is what the length fields can express.\<close>

definition enc_body :: "runtime_frame \<Rightarrow> bytes" where
  "enc_body f =
     (case f of RfReplication r \<Rightarrow> enc_replication r | RfCommand c \<Rightarrow> enc_command c
        | RfCommandDispatch d \<Rightarrow> enc_dispatch d
        | RfCommandAck a \<Rightarrow> enc_ack (if ack_accepted a then 1 else 0) a
        | RfBarrier b \<Rightarrow> enc_barrier b | RfStationEvent e \<Rightarrow> enc_event e)"

definition enc_frame :: "runtime_frame \<Rightarrow> bytes" where
  "enc_frame f = frame_kind_byte (kind_of f) # enc_body f"

definition frame_ok :: "runtime_frame \<Rightarrow> bool" where
  "frame_ok f =
     (case f of RfReplication r \<Rightarrow> replication_ok r | RfCommand c \<Rightarrow> bytes_ok (cf_payload c)
        | RfCommandDispatch d \<Rightarrow> bytes_ok (df_payload d) | RfCommandAck _ \<Rightarrow> True
        | RfBarrier _ \<Rightarrow> True | RfStationEvent _ \<Rightarrow> True)"

lemma rd_enum_folds:
  "rd_bind read_u8 (\<lambda>b. rd_lift (decode_command_priority b)) = rd_enum decode_command_priority"
  "rd_bind read_u8 (\<lambda>b. rd_lift (decode_event_priority b)) = rd_enum decode_event_priority"
  "rd_bind read_u8 (\<lambda>b. rd_lift (decode_barrier_state b)) = rd_enum decode_barrier_state"
  by (simp_all add: rd_enum_def)

lemmas reads_enums =
  command_priority.enum_reads event_priority.enum_reads barrier_state.enum_reads
  event_kind.decodes [OF TrueI]

lemmas accepts_enums =
  command_priority.enum_parses [unfolded parses_accepts] event_priority.enum_parses [unfolded parses_accepts]
  barrier_state.enum_parses [unfolded parses_accepts] event_kind.encodes [unfolded parses_accepts]
  payload.encodes [unfolded parses_accepts]

interpretation command: canonical_codec decode_command enc_command "\<lambda>f. bytes_ok (cf_payload f)"
proof unfold_locales
  fix f :: command_frame assume "bytes_ok (cf_payload f)"
  then show "reads decode_command f (enc_command f)"
    unfolding decode_command_def enc_command_def rd_enum_folds
    by (cases f, simp only: command_frame.simps)
      (rule reads_fields reads_enums reads_return payload.decodes reads_bind reads_bind_return | assumption)+
next
  show "parses decode_command enc_command (\<lambda>f. bytes_ok (cf_payload f))"
    unfolding decode_command_def rd_enum_folds
    by (rule parsesI, (rule accepts_bind accepts_fields accepts_enums accepts_return)+)
      (auto simp: enc_command_def)
qed

interpretation dispatch: canonical_codec decode_command_dispatch enc_dispatch "\<lambda>f. bytes_ok (df_payload f)"
proof unfold_locales
  fix f :: command_dispatch_frame assume "bytes_ok (df_payload f)"
  then show "reads decode_command_dispatch f (enc_dispatch f)"
    unfolding decode_command_dispatch_def enc_dispatch_def rd_enum_folds
    by (cases f, simp only: command_dispatch_frame.simps)
      (rule reads_fields reads_enums reads_return payload.decodes reads_bind reads_bind_return | assumption)+
next
  show "parses decode_command_dispatch enc_dispatch (\<lambda>f. bytes_ok (df_payload f))"
    unfolding decode_command_dispatch_def rd_enum_folds
    by (rule parsesI, (rule accepts_bind accepts_fields accepts_enums accepts_return)+)
      (auto simp: enc_dispatch_def)
qed

interpretation event: canonical_codec decode_station_event enc_event "\<lambda>_. True"
proof unfold_locales
  fix f :: station_event_frame
  show "reads decode_station_event f (enc_event f)"
    unfolding decode_station_event_def enc_event_def rd_enum_folds
    by (cases f, simp only: station_event_frame.simps)
      (rule reads_fields reads_enums reads_return reads_bind reads_bind_return)+
next
  show "parses decode_station_event enc_event (\<lambda>_. True)"
    unfolding decode_station_event_def rd_enum_folds
    by (rule parsesI, (rule accepts_bind accepts_fields accepts_enums accepts_return)+)
      (auto simp: enc_event_def)
qed

interpretation barrier: canonical_codec decode_barrier enc_barrier "\<lambda>_. True"
proof unfold_locales
  fix f :: barrier_frame
  show "reads decode_barrier f (enc_barrier f)"
    unfolding decode_barrier_def enc_barrier_def rd_enum_folds
    by (cases f, simp only: barrier_frame.simps)
      (rule reads_fields reads_enums reads_return reads_bind reads_bind_return)+
next
  show "parses decode_barrier enc_barrier (\<lambda>_. True)"
    unfolding decode_barrier_def rd_enum_folds
    by (rule parsesI, (rule accepts_bind accepts_fields accepts_enums accepts_return)+)
      (auto simp: enc_barrier_def)
qed

text \<open>The acknowledgement is a codec, but not a canonical one: any non-zero byte reads as accepted.\<close>

lemma ack_accepts:
  "accepts decode_command_ack (\<lambda>f bs. \<exists>b. ack_accepted f = (b \<noteq> 0) \<and> bs = enc_ack b f)"
  unfolding decode_command_ack_def
  by (rule accepts_weaken, (rule accepts_bind accepts_fields accepts_return)+) (auto simp: enc_ack_def)

lemma ack_reads_byte:
  "ack_accepted f = (b \<noteq> 0) \<Longrightarrow> reads decode_command_ack f (enc_ack b f)"
proof (cases f)
  case (fields cl co t a r)
  assume "ack_accepted f = (b \<noteq> 0)"
  with fields have f: "f = \<lparr>ack_client_id = cl, ack_command_id = co, ack_server_tick = t,
      ack_accepted = (b \<noteq> 0), ack_reason_code = r\<rparr>" by simp
  show ?thesis unfolding f decode_command_ack_def enc_ack_def
    by (simp only: command_ack_frame.simps)
      (rule reads_fields reads_return reads_bind reads_bind_return)+
qed

interpretation ack: codec decode_command_ack "\<lambda>f. enc_ack (if ack_accepted f then 1 else 0) f" "\<lambda>_. True"
  by unfold_locales (rule ack_reads_byte, simp)

lemma body_reads: "frame_ok f \<Longrightarrow> reads (decode_body (kind_of f)) f (enc_body f)"
  by (cases f)
    (auto simp: decode_body_def kind_of_def enc_body_def frame_ok_def
      intro!: reads_map replication.decodes command.decodes dispatch.decodes event.decodes
        barrier.decodes ack_reads_byte)

definition body_bytes :: "runtime_frame \<Rightarrow> bytes \<Rightarrow> bool" where
  "body_bytes f bs \<longleftrightarrow>
     bs = enc_body f \<or> (\<exists>a b. f = RfCommandAck a \<and> ack_accepted a \<and> b \<noteq> 0 \<and> bs = enc_ack b a)"

lemma body_accepts:
  "accepts (decode_body k) (\<lambda>f bs. frame_ok f \<and> kind_of f = k \<and> body_bytes f bs)"
proof -
  note canonical = replication.encodes command.encodes dispatch.encodes event.encodes barrier.encodes
  note rules = canonical [unfolded parses_accepts, THEN accepts_map] accepts_map [OF ack_accepts]
  show ?thesis
    by (cases k; simp only: decode_body_def frame_kind.case; rule accepts_weaken, rule rules)
      (auto simp: frame_ok_def kind_of_def body_bytes_def enc_body_def)
qed

lemma kind_byte_roundtrip [simp]: "frame_kind_from_byte (frame_kind_byte k) = Some k"
  by (cases k) (simp_all add: frame_kind_from_byte_def frame_kind_byte_def)

lemma kind_byte_inverse: "frame_kind_from_byte b = Some k \<Longrightarrow> frame_kind_byte k = b"
  by (auto simp: frame_kind_from_byte_def frame_kind_byte_def split: if_splits)

lemma frame_reads:
  assumes "frame_ok f"
  shows "reads (rd_bind read_frame_kind decode_body) f (enc_frame f)"
proof -
  have "reads read_frame_kind (kind_of f) [frame_kind_byte (kind_of f)]"
    unfolding read_frame_kind_def by (rule reads_bind_return [OF reads_u8]) (simp add: reads_return)
  from reads_bind [OF this, of decode_body, OF body_reads [OF assms]]
  show ?thesis by (simp add: enc_frame_def)
qed

lemma read_frame_kind_accepts: "accepts read_frame_kind (\<lambda>k bs. bs = [frame_kind_byte k])"
proof -
  have opt: "accepts (case frame_kind_from_byte b of None \<Rightarrow> rd_fail (UnknownFrameKind b) | Some k \<Rightarrow> rd_return k)
      (\<lambda>k bs. frame_kind_from_byte b = Some k \<and> bs = [])" for b
    by (cases "frame_kind_from_byte b") (auto simp: accepts_def rd_fail_def rd_return_def)
  show ?thesis unfolding read_frame_kind_def
    by (rule accepts_weaken, rule accepts_bind, rule accepts_fields, rule opt)
      (auto simp: kind_byte_inverse)
qed

lemma frame_accepts:
  "accepts (rd_bind read_frame_kind decode_body)
     (\<lambda>f bs. frame_ok f \<and> (\<exists>body. bs = frame_kind_byte (kind_of f) # body \<and> body_bytes f body))"
  using accepts_bind [OF read_frame_kind_accepts body_accepts] by (rule accepts_weaken) auto

lemma body_reads_bytes:
  "frame_ok f \<Longrightarrow> body_bytes f bs \<Longrightarrow> reads (decode_body (kind_of f)) f bs"
  by (auto simp: body_bytes_def intro: body_reads)
    (auto simp: decode_body_def kind_of_def intro!: reads_map ack_reads_byte)

lemma frame_reads_bytes:
  assumes "frame_ok f" "body_bytes f body"
  shows "reads (rd_bind read_frame_kind decode_body) f (frame_kind_byte (kind_of f) # body)"
proof -
  have "reads read_frame_kind (kind_of f) [frame_kind_byte (kind_of f)]"
    unfolding read_frame_kind_def by (rule reads_bind_return [OF reads_u8]) (simp add: reads_return)
  from reads_bind [OF this, of decode_body, OF body_reads_bytes [OF assms]]
  show ?thesis by simp
qed

lemma binary_decode_reads:
  assumes "reads (rd_bind read_frame_kind decode_body) f bs" "length bs < usize_max"
  shows "binary_decode bs = Ok f"
    "n < length bs \<Longrightarrow> \<exists>needed > n. binary_decode (take n bs) = Err (Truncated needed n)"
proof -
  have "rd_bind read_frame_kind decode_body (cursor_new bs) =
      Ok (f, \<lparr>cur_input = bs, cur_offset = length bs\<rparr>)"
    using assms unfolding reads_def consumes_def cursor_new_def
    by (metis append_Nil append_Nil2 list.size(3))
  then show "binary_decode bs = Ok f" by (simp add: binary_decode_def cursor_finish_def)
next
  assume "n < length bs"
  then have "\<exists>needed > n. rd_bind read_frame_kind decode_body (cursor_new (take n bs)) = Err (Truncated needed n)"
    using assms unfolding reads_def cut_short_def cursor_new_def
    by (metis add_0 append_Nil list.size(3))
  then show "\<exists>needed > n. binary_decode (take n bs) = Err (Truncated needed n)"
    by (auto simp: binary_decode_def)
qed

section \<open>What the encoder writes\<close>

definition writes :: "writer \<Rightarrow> bytes \<Rightarrow> bool" where
  "writes w bs \<longleftrightarrow> (\<forall>out. w out = (Ok (), out @ bs))"

definition fails :: "writer \<Rightarrow> bool" where
  "fails w \<longleftrightarrow> (\<forall>out. \<exists>e out'. w out = (Err e, out'))"

lemma writes_put: "writes (w_put bs) bs"
  by (simp add: writes_def w_put_def)

lemma writes_seq: "writes w1 a \<Longrightarrow> writes w2 b \<Longrightarrow> writes (w_seq w1 w2) (a @ b)"
  by (simp add: writes_def w_seq_def)

lemma writes_each: "(\<And>x. x \<in> set xs \<Longrightarrow> writes (f x) (g x)) \<Longrightarrow> writes (w_each f xs) (concat (map g xs))"
proof (induction xs)
  case (Cons x xs)
  then show ?case using writes_seq [of "f x" "g x" "w_each f xs"] by simp
qed (simp add: writes_put)

lemma fails_seq1: "fails w1 \<Longrightarrow> fails (w_seq w1 w2)"
  unfolding fails_def w_seq_def
proof
  fix out assume "\<forall>out. \<exists>e out'. w1 out = (Inl e, out')"
  then obtain e out' where "w1 out = (Inl e, out')" by blast
  then show "\<exists>e out'. (case w1 out of (Inl e, out') \<Rightarrow> (Err e, out') | (Inr _, out') \<Rightarrow> w2 out') = (Err e, out')"
    by simp
qed

lemma fails_seq2: "writes w1 a \<Longrightarrow> fails w2 \<Longrightarrow> fails (w_seq w1 w2)"
  by (simp add: fails_def writes_def w_seq_def)

lemma fails_each:
  "(\<And>x. x \<in> set xs \<Longrightarrow> writes (f x) (g x) \<or> fails (f x)) \<Longrightarrow> (\<exists>x \<in> set xs. fails (f x)) \<Longrightarrow>
   fails (w_each f xs)"
proof (induction xs)
  case (Cons x xs)
  then have "writes (f x) (g x) \<or> fails (f x)" by simp
  then show ?case
  proof
    assume w: "writes (f x) (g x)"
    show ?thesis
    proof (cases "fails (f x)")
      case False
      then have "fails (w_each f xs)" using Cons by simp
      with w show ?thesis by (simp add: fails_seq2)
    qed (simp add: fails_seq1)
  qed (simp add: fails_seq1)
qed simp

lemma write_bytes_cases:
  "bytes_ok bs \<Longrightarrow> writes (write_bytes field bs) (enc_bytes bs)"
  "\<not> bytes_ok bs \<Longrightarrow> fails (write_bytes field bs)"
  by (simp_all add: writes_def fails_def write_bytes_def bytes_ok_def enc_bytes_def)

lemma write_len_u16_cases:
  "n < 2 ^ 16 \<Longrightarrow> writes (write_len_u16 field n) (to_le 2 (of_nat n :: u16))"
  "\<not> n < 2 ^ 16 \<Longrightarrow> fails (write_len_u16 field n)"
  by (simp_all add: writes_def fails_def write_len_u16_def)

lemma write_len_u32_cases:
  "n < 2 ^ 32 \<Longrightarrow> writes (write_len_u32 field n) (to_le 4 (of_nat n :: u32))"
  "\<not> n < 2 ^ 32 \<Longrightarrow> fails (write_len_u32 field n)"
  by (simp_all add: writes_def fails_def write_len_u32_def)

lemma encode_component_cases:
  "bytes_ok (cd_bytes c) \<Longrightarrow> writes (encode_component c) (enc_component c)"
  "\<not> bytes_ok (cd_bytes c) \<Longrightarrow> fails (encode_component c)"
  using writes_seq [OF writes_put write_bytes_cases(1), of "cd_bytes c"
      "to_le 2 (cd_component_id c) @ to_le 8 (cd_version c) @ [cd_flags c]" "''replication.component.bytes''"]
  by (auto simp: encode_component_def enc_component_def
      intro: fails_seq2 [OF writes_put write_bytes_cases(2)])

lemma encode_entity_cases:
  "entity_ok e \<Longrightarrow> writes (encode_entity e) (enc_entity e)"
  "\<not> entity_ok e \<Longrightarrow> fails (encode_entity e)"
proof -
  note comps = encode_component_cases
  assume "entity_ok e"
  then have "writes (encode_entity e) ((to_le 8 (ed_entity_id e) @ to_le 8 (ed_owner_epoch e)) @
      to_le 2 (of_nat (length (ed_components e)) :: u16) @ concat (map enc_component (ed_components e)))"
    unfolding encode_entity_def
    by (intro writes_seq writes_put write_len_u16_cases(1) writes_each comps(1))
      (auto simp: entity_ok_def list_all_iff)
  then show "writes (encode_entity e) (enc_entity e)" by (simp add: enc_entity_def)
next
  assume bad: "\<not> entity_ok e"
  show "fails (encode_entity e)"
  proof (cases "length (ed_components e) < 2 ^ 16")
    case True
    then have "fails (w_each encode_component (ed_components e))"
      using bad encode_component_cases
      by (intro fails_each [of _ _ enc_component]) (auto simp: entity_ok_def list_all_iff)
    then show ?thesis unfolding encode_entity_def
      by (intro fails_seq2 [OF writes_put] fails_seq2 [OF write_len_u16_cases(1) [OF True]])
  next
    case False
    then show ?thesis unfolding encode_entity_def
      by (intro fails_seq2 [OF writes_put] fails_seq1 write_len_u16_cases(2))
  qed
qed

lemma encode_replication_cases:
  "replication_ok f \<Longrightarrow> writes (encode_replication f) (enc_frame (RfReplication f))"
  "\<not> replication_ok f \<Longrightarrow> fails (encode_replication f)"
proof -
  assume "replication_ok f"
  then have "writes (encode_replication f)
      (([frame_kind_byte FkReplication] @ to_le 8 (rf_client_id f) @ to_le 8 (rf_server_tick f) @
        to_le 4 (rf_entity_count f) @ to_le 4 (rf_estimated_payload_bytes f)) @
       to_le 4 (of_nat (length (rf_entities f)) :: u32) @ concat (map enc_entity (rf_entities f)))"
    unfolding encode_replication_def
    by (intro writes_seq writes_put write_len_u32_cases(1) writes_each encode_entity_cases(1))
      (auto simp: replication_ok_def list_all_iff)
  then show "writes (encode_replication f) (enc_frame (RfReplication f))"
    by (simp add: enc_frame_def enc_body_def enc_replication_def kind_of_def)
next
  assume bad: "\<not> replication_ok f"
  show "fails (encode_replication f)"
  proof (cases "length (rf_entities f) < 2 ^ 32")
    case True
    then have "fails (w_each encode_entity (rf_entities f))"
      using bad encode_entity_cases
      by (intro fails_each [of _ _ enc_entity]) (auto simp: replication_ok_def list_all_iff)
    then show ?thesis unfolding encode_replication_def
      by (intro fails_seq2 [OF writes_put] fails_seq2 [OF write_len_u32_cases(1) [OF True]])
  next
    case False
    then show ?thesis unfolding encode_replication_def
      by (intro fails_seq2 [OF writes_put] fails_seq1 write_len_u32_cases(2))
  qed
qed

lemma encode_frame_cases:
  "frame_ok f \<Longrightarrow> writes (encode_frame f) (enc_frame f)"
  "\<not> frame_ok f \<Longrightarrow> fails (encode_frame f)"
proof -
  have put: "writes (w_put a) b" if "a = b" for a b using that writes_put by simp
  have seq: "writes (w_seq (w_put a) (write_bytes s bs)) b" if "bytes_ok bs" "b = a @ enc_bytes bs" for a s bs b
    using that writes_seq [OF writes_put write_bytes_cases(1)] by simp
  assume "frame_ok f"
  then show "writes (encode_frame f) (enc_frame f)"
    by (cases f)
      (auto simp: frame_ok_def encode_frame_def encode_command_def encode_command_dispatch_def
        encode_command_ack_def encode_station_event_def encode_barrier_def enc_frame_def kind_of_def
        enc_body_def enc_command_def enc_dispatch_def enc_ack_def enc_event_def enc_barrier_def
        intro!: put seq, simp add: encode_replication_cases(1) [unfolded enc_frame_def enc_body_def kind_of_def, simplified])
next
  assume "\<not> frame_ok f"
  then show "fails (encode_frame f)"
    by (cases f)
      (auto simp: frame_ok_def encode_frame_def encode_command_def encode_command_dispatch_def
        intro: encode_replication_cases(2) fails_seq2 [OF writes_put write_bytes_cases(2)])
qed

section \<open>Properties\<close>

text \<open>C19. Encoding and decoding are inverse: whenever the encoder accepts a frame, of any of the six
  kinds, the bytes it appends to the output buffer decode to exactly that frame.\<close>

theorem decode_of_encode:
  assumes enc: "encode_frame f out = (Ok (), out')" and len: "length out' < usize_max"
  shows "\<exists>bs. out' = out @ bs \<and> binary_decode bs = Ok f"
proof (cases "frame_ok f")
  case True
  with encode_frame_cases(1) [OF True] enc have "out' = out @ enc_frame f" by (simp add: writes_def)
  moreover have "binary_decode (enc_frame f) = Ok f"
    using binary_decode_reads(1) [OF frame_reads [OF True]] len calculation by simp
  ultimately show ?thesis by blast
next
  case False
  then have "fails (encode_frame f)" by (rule encode_frame_cases(2))
  then obtain e out2 where "encode_frame f out = (Err e, out2)" unfolding fails_def by blast
  with enc show ?thesis by simp
qed

definition demo_frame :: runtime_frame where
  "demo_frame = RfCommand \<lparr>cf_client_id = 7, cf_command_id = 1, cf_entity_id = 9, cf_sequence = 3,
     cf_kind = 2, cf_priority = PHigh, cf_payload = [1, 2, 3]\<rparr>"

theorem decode_of_encode_witness:
  "\<exists>bs. encode_frame demo_frame [255] = (Ok (), [255] @ bs) \<and> binary_decode bs = Ok demo_frame"
proof -
  have ok: "frame_ok demo_frame" by (simp add: frame_ok_def demo_frame_def bytes_ok_def)
  then have "encode_frame demo_frame [255] = (Ok (), [255] @ enc_frame demo_frame)"
    using encode_frame_cases(1) unfolding writes_def by blast
  moreover have "length ([255] @ enc_frame demo_frame) < usize_max"
    by (simp add: demo_frame_def enc_frame_def enc_body_def enc_command_def enc_bytes_def usize_max_def)
  ultimately show ?thesis using decode_of_encode [of demo_frame "[255]"] by auto
qed

text \<open>The encoder fails exactly on the frames whose lists or payloads do not fit their length
  fields: 32 bits for the entity list and every payload, 16 bits for an entity's components.\<close>

theorem encode_fails_iff_too_long:
  "is_ok (fst (encode_frame f out)) \<longleftrightarrow>
     (case f of
        RfReplication r \<Rightarrow> length (rf_entities r) < 2 ^ 32 \<and>
          (\<forall>e \<in> set (rf_entities r). length (ed_components e) < 2 ^ 16 \<and>
             (\<forall>c \<in> set (ed_components e). length (cd_bytes c) < 2 ^ 32))
      | RfCommand c \<Rightarrow> length (cf_payload c) < 2 ^ 32
      | RfCommandDispatch d \<Rightarrow> length (df_payload d) < 2 ^ 32
      | _ \<Rightarrow> True)"
proof -
  have "is_ok (fst (encode_frame f out)) \<longleftrightarrow> frame_ok f"
  proof (cases "frame_ok f")
    case True
    then show ?thesis using encode_frame_cases(1) [OF True] by (simp add: writes_def)
  next
    case False
    then have "fails (encode_frame f)" by (rule encode_frame_cases(2))
    then obtain e out2 where "encode_frame f out = (Err e, out2)" unfolding fails_def by blast
    with False show ?thesis by simp
  qed
  then show ?thesis
    by (cases f) (simp_all add: frame_ok_def replication_ok_def entity_ok_def bytes_ok_def list_all_iff)
qed

theorem encode_fails_iff_too_long_witness:
  "is_ok (fst (encode_frame demo_frame []))"
  using encode_fails_iff_too_long [of demo_frame "[]"] by (simp add: demo_frame_def)

text \<open>C1. The decoder accepts exactly the encodings: an input decodes to a frame if and only if it is
  that frame's encoding, byte for byte, with one exception, which the statement names: the flag of
  an accepted acknowledgement may be any non-zero byte. So no two frames share an input and no
  frame but an acknowledgement has two.\<close>

theorem decoder_accepts_exactly_encodings:
  assumes len: "length bs < usize_max"
  shows "binary_decode bs = Ok f \<longleftrightarrow>
    frame_ok f \<and>
    (bs = enc_frame f \<or>
     (\<exists>a b. f = RfCommandAck a \<and> ack_accepted a \<and> b \<noteq> 0 \<and> bs = frame_kind_byte FkCommandAck # enc_ack b a))"
proof
  assume "binary_decode bs = Ok f"
  then obtain c where c: "rd_bind read_frame_kind decode_body (cursor_new bs) = Ok (f, c)"
    "cur_offset c = length (cur_input c)"
    by (auto simp: binary_decode_def and_then_Ok_iff cursor_finish_def split: if_splits)
  with frame_accepts len obtain bs' body where
    b: "frame_ok f" "bs' = frame_kind_byte (kind_of f) # body" "body_bytes f body"
      "cur_input c = bs" "cur_offset c = length bs'" "take (length bs') bs = bs'"
    unfolding accepts_def cursor_new_def
    by (metis (no_types, lifting) add_0 cursor.select_convs(1,2) drop0 le0)
  then have "bs = bs'" using c(2) by simp
  with b show "frame_ok f \<and>
    (bs = enc_frame f \<or>
     (\<exists>a b. f = RfCommandAck a \<and> ack_accepted a \<and> b \<noteq> 0 \<and> bs = frame_kind_byte FkCommandAck # enc_ack b a))"
    by (auto simp: body_bytes_def enc_frame_def kind_of_def)
next
  assume f: "frame_ok f \<and>
    (bs = enc_frame f \<or>
     (\<exists>a b. f = RfCommandAck a \<and> ack_accepted a \<and> b \<noteq> 0 \<and> bs = frame_kind_byte FkCommandAck # enc_ack b a))"
  then have "\<exists>body. bs = frame_kind_byte (kind_of f) # body \<and> body_bytes f body"
    by (auto simp: body_bytes_def enc_frame_def kind_of_def)
  then obtain body where body: "bs = frame_kind_byte (kind_of f) # body" "body_bytes f body" by blast
  from binary_decode_reads(1) [OF frame_reads_bytes [OF conjunct1 [OF f] body(2)]] len body(1)
  show "binary_decode bs = Ok f" by simp
qed

theorem decoder_accepts_exactly_encodings_witness:
  "binary_decode (enc_frame demo_frame) = Ok demo_frame"
proof -
  have "length (enc_frame demo_frame) < usize_max"
    by (simp add: demo_frame_def enc_frame_def enc_body_def enc_command_def enc_bytes_def usize_max_def)
  from decoder_accepts_exactly_encodings [OF this, of demo_frame] show ?thesis
    by (simp add: frame_ok_def demo_frame_def bytes_ok_def)
qed

text \<open>A frame cut short anywhere, also to nothing, is reported as truncated with the true number of
  available bytes and a larger needed number; the decoder never mistakes a prefix for a frame. In
  particular the empty input is reported as truncated.\<close>

theorem truncated_frame_rejected:
  assumes ok: "frame_ok f" and len: "length (enc_frame f) < usize_max" and n: "n < length (enc_frame f)"
  shows "\<exists>needed > n. binary_decode (take n (enc_frame f)) = Err (Truncated needed n)"
  by (rule binary_decode_reads(2) [OF frame_reads [OF ok] len n])

theorem truncated_frame_rejected_witness:
  "\<exists>needed > 0. binary_decode [] = Err (Truncated needed 0)"
proof -
  have "length (enc_frame demo_frame) < usize_max" "0 < length (enc_frame demo_frame)"
    by (simp_all add: demo_frame_def enc_frame_def enc_body_def enc_command_def enc_bytes_def usize_max_def)
  from truncated_frame_rejected [OF _ this] show ?thesis
    by (simp add: frame_ok_def demo_frame_def bytes_ok_def)
qed

text \<open>Dispatching an envelope directly or through an owned frame writes the same bytes.\<close>

lemma dispatch_envelope_same:
  "encode_command_dispatch_envelope st e = encode_command_dispatch (dispatch_from_envelope st e)"
  by (simp add: encode_command_dispatch_envelope_def encode_command_dispatch_def dispatch_from_envelope_def)

lemma dispatch_envelope_roundtrip: "dispatch_into_envelope (dispatch_from_envelope st e) = e"
  by (simp add: dispatch_into_envelope_def dispatch_from_envelope_def)

lemma event_frame_roundtrip: "event_frame_into_event (event_frame_from_event e) = e"
  by (simp add: event_frame_into_event_def event_frame_from_event_def)

lemma command_frame_roundtrip:
  "command_frame_into_envelope (command_frame_from_envelope e) at = e\<lparr>ce_received_at := at\<rparr>"
  by (simp add: command_frame_into_envelope_def command_frame_from_envelope_def)

end
