(* ===== verification/Wire_Borrowed.thy ===== *)
theory Wire_Borrowed
  imports Wire
begin

text \<open>
  The borrowed replication decoder (\<open>BinaryFrameDecoder::decode_replication\<close> of
  \<open>sectorsync-wire\<close>): it validates a whole frame without copying and hands out iterators that
  decode again on demand and panic on malformed bytes. The lemmas show that the slices it keeps
  hold exactly the encodings of the items, so the iterators never panic, and that the result
  agrees with the owned decoder on every input, errors included.
\<close>

record entity_delta_ref =
  edr_entity_id :: entity_id
  edr_owner_epoch :: owner_epoch
  edr_encoded_components :: bytes
  edr_encoded_component_count :: usize

record replication_frame_ref =
  rfr_client_id :: client_id
  rfr_server_tick :: tick
  rfr_entity_count :: u32
  rfr_estimated_payload_bytes :: u32
  rfr_encoded_entities :: bytes
  rfr_encoded_entity_count :: usize

datatype ref_decode_error =
    RefBinary binary_decode_error
  | UnexpectedFrameKind frame_kind

text \<open>A validation loop decodes and drops; the slice is cut from the input afterwards.\<close>

primrec skip_many :: "nat \<Rightarrow> 'a reader \<Rightarrow> unit reader" where
  "skip_many 0 rd = rd_return ()"
| "skip_many (Suc n) rd = rd_bind rd (\<lambda>_. skip_many n rd)"

definition input_slice :: "cursor \<Rightarrow> cursor \<Rightarrow> bytes" where
  "input_slice c0 c = drop (cur_offset c0) (take (cur_offset c) (cur_input c))"

definition skip_slice :: "nat \<Rightarrow> 'a reader \<Rightarrow> bytes reader" where
  "skip_slice n rd c = and_then (skip_many n rd c) (\<lambda>(_, c'). Ok (input_slice c c', c'))"

definition decode_entity_ref :: "entity_delta_ref reader" where
  "decode_entity_ref =
     rd_bind read_u64 (\<lambda>i. rd_bind read_u64 (\<lambda>e. rd_bind read_u16 (\<lambda>n.
       rd_bind (skip_slice (unat n) decode_component_ref) (\<lambda>sl.
         rd_return \<lparr>edr_entity_id = i, edr_owner_epoch = e, edr_encoded_components = sl,
                    edr_encoded_component_count = unat n\<rparr>))))"

definition decode_replication_ref :: "replication_frame_ref reader" where
  "decode_replication_ref =
     rd_bind read_u64 (\<lambda>cl. rd_bind read_u64 (\<lambda>t. rd_bind read_u32 (\<lambda>ec. rd_bind read_u32 (\<lambda>ep.
       rd_bind read_u32 (\<lambda>n. rd_bind (skip_slice (unat n) decode_entity_ref) (\<lambda>sl.
         rd_return \<lparr>rfr_client_id = cl, rfr_server_tick = t, rfr_entity_count = ec,
                    rfr_estimated_payload_bytes = ep, rfr_encoded_entities = sl,
                    rfr_encoded_entity_count = unat n\<rparr>))))))"

definition binary_decode_replication :: "bytes \<Rightarrow> ref_decode_error + replication_frame_ref" where
  "binary_decode_replication input =
     and_then (map_err RefBinary (read_frame_kind (cursor_new input))) (\<lambda>(k, c).
       if k \<noteq> FkReplication then Err (UnexpectedFrameKind k)
       else and_then (map_err RefBinary (decode_replication_ref c)) (\<lambda>(f, c').
              and_then (map_err RefBinary (cursor_finish c')) (\<lambda>_. Ok f)))"

text \<open>The iterators, driven to the end; \<open>None\<close> is the panic of their \<open>expect\<close>.\<close>

fun iter_collect :: "nat \<Rightarrow> 'a reader \<Rightarrow> cursor \<Rightarrow> 'a list option" where
  "iter_collect 0 rd c = Some []"
| "iter_collect (Suc n) rd c =
     (case rd c of Inl _ \<Rightarrow> None | Inr (x, c') \<Rightarrow> map_option (Cons x) (iter_collect n rd c'))"

definition entity_ref_components :: "entity_delta_ref \<Rightarrow> component_delta list option" where
  "entity_ref_components e =
     iter_collect (edr_encoded_component_count e) decode_component_ref (cursor_new (edr_encoded_components e))"

definition entity_ref_to_owned :: "entity_delta_ref \<Rightarrow> entity_delta option" where
  "entity_ref_to_owned e =
     map_option (\<lambda>cs. \<lparr>ed_entity_id = edr_entity_id e, ed_owner_epoch = edr_owner_epoch e, ed_components = cs\<rparr>)
       (entity_ref_components e)"

definition frame_ref_entities :: "replication_frame_ref \<Rightarrow> entity_delta_ref list option" where
  "frame_ref_entities f =
     iter_collect (rfr_encoded_entity_count f) decode_entity_ref (cursor_new (rfr_encoded_entities f))"

definition frame_ref_to_owned :: "replication_frame_ref \<Rightarrow> replication_frame option" where
  "frame_ref_to_owned f =
     (case frame_ref_entities f of
        None \<Rightarrow> None
      | Some es \<Rightarrow>
          (case those (map entity_ref_to_owned es) of
             None \<Rightarrow> None
           | Some owned \<Rightarrow>
               Some \<lparr>rf_client_id = rfr_client_id f, rf_server_tick = rfr_server_tick f,
                     rf_entity_count = rfr_entity_count f,
                     rf_estimated_payload_bytes = rfr_estimated_payload_bytes f, rf_entities = owned\<rparr>))"

section \<open>Skipping agrees with reading\<close>

lemma skip_many_read_many:
  "skip_many n rd c = (case read_many n rd c of Inl e \<Rightarrow> Inl e | Inr (xs, c') \<Rightarrow> Inr ((), c'))"
proof (induction n arbitrary: c)
  case (Suc n)
  show ?case
    by (cases "rd c") (auto simp: rd_bind_def rd_return_def Suc.IH and_then_def split: sum.splits prod.splits)
qed (simp add: rd_return_def)

lemma iter_collect_read_many: "read_many n rd c = Ok (xs, c') \<Longrightarrow> iter_collect n rd c = Some xs"
proof (induction n arbitrary: c xs)
  case (Suc n)
  then obtain x c1 ys where "rd c = Ok (x, c1)" "read_many n rd c1 = Ok (ys, c')" "xs = x # ys"
    by (auto simp: rd_bind_def rd_return_def and_then_Ok_iff)
  with Suc.IH [of c1 ys] show ?case by simp
qed (simp add: rd_return_def)

text \<open>What a validated slice holds.\<close>

context canonical_codec begin

lemma skip_slice_spec:
  assumes c: "cur_offset c \<le> length (cur_input c)" "length (cur_input c) < usize_max"
  shows "skip_slice n rd c =
    (case read_many n rd c of
       Inl e \<Rightarrow> Inl e
     | Inr (xs, c') \<Rightarrow> Inr (concat (map enc xs), c'))"
proof (cases "read_many n rd c")
  case (Inl e)
  then show ?thesis by (simp add: skip_slice_def skip_many_read_many)
next
  case (Inr p)
  obtain xs c' where p: "p = (xs, c')" by (cases p)
  note r = parsesD [OF many_encodes c, of n xs c']
  have "input_slice c c' = concat (map enc xs)"
    using r Inr p by (simp add: input_slice_def drop_take)
  then show ?thesis using Inr p by (simp add: skip_slice_def skip_many_read_many)
qed

lemma slice_iterates:
  assumes "list_all ok xs" "length (concat (map enc xs)) < usize_max"
  shows "iter_collect (length xs) rd (cursor_new (concat (map enc xs))) = Some xs"
proof -
  have "read_many (length xs) rd (cursor_new (concat (map enc xs))) =
      Ok (xs, \<lparr>cur_input = concat (map enc xs), cur_offset = length (concat (map enc xs))\<rparr>)"
    using many_decodes [OF assms(1)] assms(2) unfolding reads_def consumes_def cursor_new_def
    by (metis append_Nil append_Nil2 list.size(3))
  then show ?thesis by (rule iter_collect_read_many)
qed

end

section \<open>Agreement with the owned decoder\<close>

definition cursor_ok :: "cursor \<Rightarrow> bool" where
  "cursor_ok c \<longleftrightarrow> cur_offset c \<le> length (cur_input c) \<and> length (cur_input c) < usize_max"

lemma accepts_cursor_ok: "accepts rd P \<Longrightarrow> cursor_ok c \<Longrightarrow> rd c = Ok (x, c') \<Longrightarrow> cursor_ok c'"
  unfolding accepts_def cursor_ok_def by metis

lemma rd_bind_cong_ok:
  assumes "accepts rd P" "cursor_ok c"
    "\<And>x c'. rd c = Ok (x, c') \<Longrightarrow> cursor_ok c' \<Longrightarrow> f x c' = g x c'"
  shows "rd_bind rd f c = rd_bind rd g c"
  using assms accepts_cursor_ok [OF assms(1,2)] by (cases "rd c") (auto simp: rd_bind_def)

lemma rd_map_bind: "rd_map h (rd_bind rd f) = rd_bind rd (\<lambda>x. rd_map h (f x))"
  by (rule ext) (auto simp: rd_map_def rd_bind_def and_then_def split: sum.splits prod.splits)

lemma rd_map_return: "rd_map h (rd_return x) = rd_return (h x)"
  by (rule ext) (simp add: rd_map_def rd_return_def)

definition entity_to_ref :: "entity_delta \<Rightarrow> entity_delta_ref" where
  "entity_to_ref e =
     \<lparr>edr_entity_id = ed_entity_id e, edr_owner_epoch = ed_owner_epoch e,
      edr_encoded_components = concat (map enc_component (ed_components e)),
      edr_encoded_component_count = length (ed_components e)\<rparr>"

lemma read_many_length: "read_many n rd c = Ok (xs, c') \<Longrightarrow> length xs = n"
  by (induction n arbitrary: c xs) (auto simp: rd_bind_def rd_return_def and_then_Ok_iff)

lemma skip_slice_bind:
  assumes "skip_slice n rd c = (case read_many n rd' c of Inl e \<Rightarrow> Inl e | Inr (xs, c') \<Rightarrow> Inr (h xs, c'))"
    "\<And>xs. length xs = n \<Longrightarrow> F (h xs) = G xs"
  shows "rd_bind (skip_slice n rd) (\<lambda>sl. rd_return (F sl)) c =
    rd_bind (read_many n rd') (\<lambda>xs. rd_return (G xs)) c"
proof (cases "read_many n rd' c")
  case (Inr p)
  obtain xs c' where "p = (xs, c')" by (cases p)
  with Inr read_many_length [of n rd' c xs c'] assms show ?thesis
    by (simp add: rd_bind_def rd_return_def)
qed (use assms in \<open>simp add: rd_bind_def\<close>)

lemma decode_entity_ref_owned:
  assumes c: "cursor_ok c"
  shows "decode_entity_ref c = rd_map entity_to_ref decode_entity_owned c"
  unfolding decode_entity_ref_def decode_entity_owned_def rd_map_bind rd_map_return
  by ((rule rd_bind_cong_ok [OF accepts_fields(4)] rd_bind_cong_ok [OF accepts_fields(2)], (assumption | rule c))+,
      rule skip_slice_bind, rule component.skip_slice_spec)
    (auto simp: cursor_ok_def entity_to_ref_def)

lemma read_many_entity_ref:
  assumes "cursor_ok c"
  shows "read_many n decode_entity_ref c = rd_map (map entity_to_ref) (read_many n decode_entity_owned) c"
  using assms
proof (induction n arbitrary: c)
  case (Suc n)
  show ?case
  proof (cases "decode_entity_owned c")
    case (Inl e)
    then show ?thesis
      by (simp add: rd_bind_def decode_entity_ref_owned [OF Suc.prems] rd_map_def)
  next
    case (Inr p)
    obtain x c1 where p: "p = (x, c1)" by (cases p)
    have "cursor_ok c1"
      using accepts_cursor_ok [OF entity.encodes [unfolded parses_accepts] Suc.prems] Inr p by simp
    from Suc.IH [OF this] show ?thesis
      by (cases "read_many n decode_entity_owned c1")
        (auto simp: rd_bind_def decode_entity_ref_owned [OF Suc.prems] rd_map_def rd_return_def Inr p)
  qed
qed (simp add: rd_map_def rd_return_def)

definition frame_to_ref :: "replication_frame \<Rightarrow> replication_frame_ref" where
  "frame_to_ref f =
     \<lparr>rfr_client_id = rf_client_id f, rfr_server_tick = rf_server_tick f,
      rfr_entity_count = rf_entity_count f, rfr_estimated_payload_bytes = rf_estimated_payload_bytes f,
      rfr_encoded_entities = concat (map enc_entity (rf_entities f)),
      rfr_encoded_entity_count = length (rf_entities f)\<rparr>"

lemma skip_slice_entities:
  assumes c: "cursor_ok c"
  shows "skip_slice n decode_entity_ref c =
    (case read_many n decode_entity_owned c of
       Inl e \<Rightarrow> Inl e | Inr (es, c') \<Rightarrow> Inr (concat (map enc_entity es), c'))"
proof -
  have "skip_slice n decode_entity_ref c = skip_slice n decode_entity_owned c"
    unfolding skip_slice_def skip_many_read_many read_many_entity_ref [OF c]
    by (cases "read_many n decode_entity_owned c") (auto simp: rd_map_def)
  then show ?thesis using entity.skip_slice_spec c by (simp add: cursor_ok_def)
qed

lemma decode_replication_ref_owned:
  assumes c: "cursor_ok c"
  shows "decode_replication_ref c = rd_map frame_to_ref decode_replication_owned c"
  unfolding decode_replication_ref_def decode_replication_owned_def rd_map_bind rd_map_return
  by ((rule rd_bind_cong_ok [OF accepts_fields(4)] rd_bind_cong_ok [OF accepts_fields(3)], (assumption | rule c))+,
      rule skip_slice_bind, rule skip_slice_entities)
    (auto simp: frame_to_ref_def)

lemma entity_to_ref_to_owned:
  assumes "entity_ok e" "length (enc_entity e) < usize_max"
  shows "entity_ref_to_owned (entity_to_ref e) = Some e"
proof -
  have "length (concat (map enc_component (ed_components e))) < usize_max"
    using assms(2) by (simp add: enc_entity_def)
  with assms(1) have "entity_ref_components (entity_to_ref e) = Some (ed_components e)"
    using component.slice_iterates [of "ed_components e"]
    by (simp add: entity_ref_components_def entity_to_ref_def entity_ok_def)
  then show ?thesis by (simp add: entity_ref_to_owned_def entity_to_ref_def)
qed

lemma those_map_Some: "(\<And>x. x \<in> set xs \<Longrightarrow> f (g x) = Some x) \<Longrightarrow> those (map f (map g xs)) = Some xs"
  by (induction xs) auto

lemma length_enc_item: "x \<in> set xs \<Longrightarrow> length (enc x) \<le> length (concat (map enc xs))"
  by (induction xs) auto

lemma frame_to_ref_to_owned:
  assumes ok: "replication_ok f" and len: "length (enc_replication f) < usize_max"
  shows "frame_ref_to_owned (frame_to_ref f) = Some f"
proof -
  let ?bs = "concat (map enc_entity (rf_entities f))"
  have lbs: "length ?bs < usize_max" using len by (simp add: enc_replication_def)
  have all: "list_all entity_ok (rf_entities f)" using ok by (simp add: replication_ok_def)
  have "read_many (length (rf_entities f)) decode_entity_owned (cursor_new ?bs) =
      Ok (rf_entities f, \<lparr>cur_input = ?bs, cur_offset = length ?bs\<rparr>)"
    using entity.many_decodes [OF all] lbs unfolding reads_def consumes_def cursor_new_def
    by (metis append_Nil append_Nil2 list.size(3))
  moreover have "cursor_ok (cursor_new ?bs)" using lbs by (simp add: cursor_ok_def cursor_new_def)
  ultimately have "iter_collect (length (rf_entities f)) decode_entity_ref (cursor_new ?bs) =
      Some (map entity_to_ref (rf_entities f))"
    by (intro iter_collect_read_many [of _ _ _ _ "\<lparr>cur_input = ?bs, cur_offset = length ?bs\<rparr>"])
      (simp add: read_many_entity_ref rd_map_def)
  then have "frame_ref_entities (frame_to_ref f) = Some (map entity_to_ref (rf_entities f))"
    by (simp add: frame_ref_entities_def frame_to_ref_def)
  moreover have "entity_ref_to_owned (entity_to_ref e) = Some e" if "e \<in> set (rf_entities f)" for e
    using entity_to_ref_to_owned [of e] all that lbs length_enc_item [OF that, of enc_entity]
    by (simp add: list_all_iff)
  ultimately show ?thesis
    using those_map_Some [of "rf_entities f" entity_ref_to_owned entity_to_ref]
    by (simp add: frame_ref_to_owned_def) (simp add: frame_to_ref_def)
qed

section \<open>Agreement\<close>

text \<open>The borrowed replication decoder agrees with the owned decoder on every input: a replication
  frame is accepted by both, and materialising the borrowed one (running its iterators to the end,
  which never panics) gives the owned one; a frame of another kind is refused by kind; and an
  input the owned decoder rejects is rejected by the borrowed one, with the same error or already
  by its kind.\<close>

theorem ref_decoder_agrees:
  assumes len: "length bs < usize_max"
  shows "case binary_decode bs of
      Inr f \<Rightarrow>
        (case f of
           RfReplication r \<Rightarrow>
             (\<exists>b. binary_decode_replication bs = Ok b \<and> frame_ref_to_owned b = Some r)
         | _ \<Rightarrow> binary_decode_replication bs = Err (UnexpectedFrameKind (kind_of f)))
    | Inl e \<Rightarrow>
        binary_decode_replication bs = Err (RefBinary e) \<or>
        (\<exists>k. k \<noteq> FkReplication \<and> binary_decode_replication bs = Err (UnexpectedFrameKind k))"
proof (cases "read_frame_kind (cursor_new bs)")
  case (Inl e)
  then show ?thesis by (simp add: binary_decode_def rd_bind_def binary_decode_replication_def)
next
  case (Inr p)
  obtain k c where p: "p = (k, c)" by (cases p)
  show ?thesis
  proof (cases "k = FkReplication")
    case False
    then have ref: "binary_decode_replication bs = Err (UnexpectedFrameKind k)"
      using Inr p by (simp add: binary_decode_replication_def)
    have "kind_of f = k \<and> f \<noteq> RfReplication r" if "binary_decode bs = Ok f" for f r
    proof -
      from that Inr p obtain c' where "decode_body k c = Ok (f, c')"
        by (auto simp: binary_decode_def rd_bind_def and_then_Ok_iff)
      then have "kind_of f = k" by (cases k) (auto simp: decode_body_def rd_map_def and_then_Ok_iff kind_of_def)
      with False show ?thesis by (auto simp: kind_of_def)
    qed
    with ref False show ?thesis by (auto split: sum.splits runtime_frame.splits)
  next
    case True
    have "cursor_ok (cursor_new bs)" using len by (simp add: cursor_ok_def cursor_new_def)
    from accepts_cursor_ok [OF read_frame_kind_accepts this, of k c] have c: "cursor_ok c"
      using Inr p by simp
    note ref = decode_replication_ref_owned [OF c]
    show ?thesis
    proof (cases "decode_replication_owned c")
      case (Inl e)
      then show ?thesis using Inr p True ref
        by (simp add: binary_decode_def rd_bind_def decode_body_def rd_map_def binary_decode_replication_def)
    next
      case (Inr q)
      obtain r c' where q: "q = (r, c')" by (cases q)
      have "replication_ok r" "length (enc_replication r) < usize_max"
        using parsesD [OF replication.encodes, of c r c'] c Inr q by (auto simp: cursor_ok_def)
      then have owned: "frame_ref_to_owned (frame_to_ref r) = Some r" by (rule frame_to_ref_to_owned)
      show ?thesis
        using \<open>read_frame_kind (cursor_new bs) = Inr p\<close> p True ref Inr q owned
        by (cases "cursor_finish c'")
          (auto simp: binary_decode_def rd_bind_def decode_body_def rd_map_def binary_decode_replication_def)
    qed
  qed
qed

definition demo_replication :: replication_frame where
  "demo_replication =
     \<lparr>rf_client_id = 7, rf_server_tick = 3, rf_entity_count = 1, rf_estimated_payload_bytes = 20,
      rf_entities = [\<lparr>ed_entity_id = 9, ed_owner_epoch = 1,
        ed_components = [\<lparr>cd_component_id = 2, cd_version = 5, cd_flags = 0, cd_bytes = [4, 5]\<rparr>]\<rparr>]\<rparr>"

lemma ref_decoder_agrees_demo:
  "\<exists>b. binary_decode_replication (enc_frame (RfReplication demo_replication)) = Ok b \<and>
     frame_ref_to_owned b = Some demo_replication"
proof -
  have ok: "frame_ok (RfReplication demo_replication)"
    by (simp add: frame_ok_def replication_ok_def entity_ok_def bytes_ok_def demo_replication_def)
  have len: "length (enc_frame (RfReplication demo_replication)) < usize_max"
    by (simp add: enc_frame_def enc_body_def enc_replication_def enc_entity_def enc_component_def
        enc_bytes_def demo_replication_def usize_max_def)
  have "binary_decode (enc_frame (RfReplication demo_replication)) = Ok (RfReplication demo_replication)"
    by (rule binary_decode_reads(1) [OF frame_reads [OF ok] len])
  with ref_decoder_agrees [OF len] show ?thesis by simp
qed

end
