(* ===== verification/Adaptive_Map.thy ===== *)
theory Adaptive_Map
  imports Sync_Prelude
begin

text \<open>
  The size-adaptive maps that the gateway sessions, the replication tracker and the transport
  endpoints share: an ordered tree that is rebuilt once as a hash table when an insertion reaches
  a threshold. Both representations are finite maps; the constructor records which one is in use.
  The locale \<open>keyed_map\<close> states what the clients rely on, so that no client depends on the
  representation or on when it changes.
\<close>

datatype ('k, 'v) adaptive_map = Ordered "('k, 'v) fmap" | Hashed "('k, 'v) fmap"

definition amap_new :: "('k, 'v) adaptive_map" where
  "amap_new = Ordered fmempty"

definition amap_entries :: "('k, 'v) adaptive_map \<Rightarrow> ('k, 'v) fmap" where
  "amap_entries m = (case m of Ordered e \<Rightarrow> e | Hashed e \<Rightarrow> e)"

definition amap_len :: "('k, 'v) adaptive_map \<Rightarrow> usize" where
  "amap_len m = (case m of Ordered e \<Rightarrow> map_len e | Hashed e \<Rightarrow> map_len e)"

definition amap_get :: "('k, 'v) adaptive_map \<Rightarrow> 'k \<Rightarrow> 'v option" where
  "amap_get m k = (case m of Ordered e \<Rightarrow> fmlookup e k | Hashed e \<Rightarrow> fmlookup e k)"

text \<open>\<open>promote threshold m k\<close>: the rebuild before an insertion of \<open>k\<close>.\<close>

definition amap_promote :: "nat \<Rightarrow> ('k, 'v) adaptive_map \<Rightarrow> 'k \<Rightarrow> ('k, 'v) adaptive_map" where
  "amap_promote threshold m k =
     (case m of
        Ordered e \<Rightarrow> if map_len e \<ge> threshold - 1 \<and> fmlookup e k = None then Hashed e else Ordered e
      | Hashed e \<Rightarrow> Hashed e)"

definition amap_insert :: "nat \<Rightarrow> ('k, 'v) adaptive_map \<Rightarrow> 'k \<Rightarrow> 'v \<Rightarrow> 'v option \<times> ('k, 'v) adaptive_map" where
  "amap_insert threshold m k v =
     (case amap_promote threshold m k of
        Ordered e \<Rightarrow> (fmlookup e k, Ordered (fmupd k v e))
      | Hashed e \<Rightarrow> (fmlookup e k, Hashed (fmupd k v e)))"

text \<open>A write through \<open>get_mut\<close>, which never changes the representation.\<close>

definition amap_write :: "('k, 'v) adaptive_map \<Rightarrow> 'k \<Rightarrow> 'v \<Rightarrow> ('k, 'v) adaptive_map" where
  "amap_write m k v =
     (case m of Ordered e \<Rightarrow> Ordered (fmupd k v e) | Hashed e \<Rightarrow> Hashed (fmupd k v e))"

definition amap_remove :: "('k, 'v) adaptive_map \<Rightarrow> 'k \<Rightarrow> 'v option \<times> ('k, 'v) adaptive_map" where
  "amap_remove m k =
     (case m of
        Ordered e \<Rightarrow> (fmlookup e k, Ordered (fmdrop k e))
      | Hashed e \<Rightarrow> (fmlookup e k, Hashed (fmdrop k e)))"

section \<open>The contract\<close>

locale keyed_map =
  fixes get :: "'m \<Rightarrow> 'k \<Rightarrow> 'v option" and put :: "'m \<Rightarrow> 'k \<Rightarrow> 'v \<Rightarrow> 'v option \<times> 'm"
    and del :: "'m \<Rightarrow> 'k \<Rightarrow> 'v option \<times> 'm" and count :: "'m \<Rightarrow> nat"
  assumes put_old: "fst (put m k v) = get m k"
    and get_put: "get (snd (put m k v)) j = (if j = k then Some v else get m j)"
    and del_old: "fst (del m k) = get m k"
    and get_del: "get (snd (del m k)) j = (if j = k then None else get m j)"
    and count_put: "count (snd (put m k v)) = (if get m k = None then Suc (count m) else count m)"
    and count_del: "count (snd (del m k)) = (if get m k = None then count m else count m - 1)"
    and count_pos: "get m k \<noteq> None \<Longrightarrow> 0 < count m"
begin

lemma put_get_same [simp]: "get (snd (put m k v)) k = Some v"
  by (simp add: get_put)

lemma del_get_same [simp]: "get (snd (del m k)) k = None"
  by (simp add: get_del)

lemma count_put_le: "count m \<le> count (snd (put m k v))" "count (snd (put m k v)) \<le> Suc (count m)"
  by (simp_all add: count_put)

lemma count_del_le: "count (snd (del m k)) \<le> count m"
  by (simp add: count_del)

lemma count_del_present: "get m k \<noteq> None \<Longrightarrow> Suc (count (snd (del m k))) = count m"
  using count_pos [of m k] by (simp add: count_del)

lemma del_put: "get (snd (del (snd (put m k v)) k)) j = get (snd (del m k)) j"
  by (simp add: get_del get_put)

end

lemma amap_get_entries: "amap_get m k = fmlookup (amap_entries m) k"
  by (simp add: amap_get_def amap_entries_def split: adaptive_map.splits)

lemma amap_len_entries: "amap_len m = map_len (amap_entries m)"
  by (simp add: amap_len_def amap_entries_def split: adaptive_map.splits)

lemma amap_promote_entries [simp]: "amap_entries (amap_promote n m k) = amap_entries m"
  by (auto simp: amap_promote_def amap_entries_def split: adaptive_map.splits)

lemma amap_insert_entries:
  "amap_insert n m k v = (amap_get m k, snd (amap_insert n m k v))"
  "amap_entries (snd (amap_insert n m k v)) = fmupd k v (amap_entries m)"
  using amap_promote_entries [of n m k]
  by (auto simp: amap_insert_def amap_get_entries amap_entries_def simp del: amap_promote_entries
      split: adaptive_map.splits)

lemma amap_write_entries [simp]: "amap_entries (amap_write m k v) = fmupd k v (amap_entries m)"
  by (simp add: amap_write_def amap_entries_def split: adaptive_map.splits)

lemma amap_remove_entries:
  "amap_remove m k = (amap_get m k, snd (amap_remove m k))"
  "amap_entries (snd (amap_remove m k)) = fmdrop k (amap_entries m)"
  by (simp_all add: amap_remove_def amap_get_entries amap_entries_def split: adaptive_map.splits)

interpretation amap: keyed_map amap_get "amap_insert n" amap_remove amap_len
proof unfold_locales
  fix m :: "('k, 'v) adaptive_map" and k j v
  show "fst (amap_insert n m k v) = amap_get m k"
    by (subst amap_insert_entries(1)) simp
  show "amap_get (snd (amap_insert n m k v)) j = (if j = k then Some v else amap_get m j)"
    by (auto simp: amap_get_entries amap_insert_entries(2))
  show "fst (amap_remove m k) = amap_get m k" by (subst amap_remove_entries(1)) simp
  show "amap_get (snd (amap_remove m k)) j = (if j = k then None else amap_get m j)"
    by (auto simp: amap_get_entries amap_remove_entries(2))
  show "amap_len (snd (amap_insert n m k v)) = (if amap_get m k = None then Suc (amap_len m) else amap_len m)"
    by (simp add: amap_get_entries amap_len_entries amap_insert_entries(2) map_len_insert)
  show "amap_len (snd (amap_remove m k)) = (if amap_get m k = None then amap_len m else amap_len m - 1)"
    by (simp add: amap_get_entries amap_len_entries amap_remove_entries(2) map_len_delete)
  show "amap_get m k \<noteq> None \<Longrightarrow> 0 < amap_len m"
    by (auto simp: amap_get_entries amap_len_entries intro: map_len_pos)
qed

lemma amap_get_write: "amap_get (amap_write m k v) j = (if j = k then Some v else amap_get m j)"
  by (auto simp: amap_get_entries)

lemma amap_len_write: "amap_get m k \<noteq> None \<Longrightarrow> amap_len (amap_write m k v) = amap_len m"
  by (auto simp: amap_get_entries amap_len_entries map_len_insert)

lemma amap_new_simps [simp]: "amap_get amap_new k = None" "amap_len amap_new = 0"
  by (simp_all add: amap_new_def amap_get_def amap_len_def)

lemma amap_len_zero: "(\<And>k. amap_get m k = None) \<Longrightarrow> amap_len m = 0"
proof -
  assume "\<And>k. amap_get m k = None"
  then have "amap_entries m = fmempty" by (intro fmap_ext) (simp add: amap_get_entries)
  then show ?thesis by (simp add: amap_len_entries)
qed

end
