(* ===== verification/Gateway.thy ===== *)
theory Gateway
  imports Adaptive_Map Command_Queues "HOL-Library.Product_Lexorder"
begin

text \<open>
  The gateway session table (\<open>gateway.rs\<close>): sessions with reconnect generations and route epochs,
  per-client replay and rate checks, and the heap of expiry deadlines that replaces a scan of all
  sessions. The heap is kept as the sorted list of its entries. The lemmas show that the heap
  always covers the disconnected sessions, so that an expiry pass is a full scan, that its length
  stays bounded by compaction, and that accepted command sequences strictly increase.
\<close>

section \<open>Configuration, sessions, reports\<close>

definition session_threshold :: usize where "session_threshold = 1024"

record gateway_config =
  gc_max_sessions :: usize
  gc_reconnect_grace_ticks :: u64
  gc_max_commands_per_tick :: usize

definition default_gateway_config :: gateway_config where
  "default_gateway_config =
     \<lparr>gc_max_sessions = 65536, gc_reconnect_grace_ticks = 1200, gc_max_commands_per_tick = 64\<rparr>"

record gateway_route =
  gr_client_id :: client_id
  gr_station_id :: station_id
  gr_generation :: u64
  gr_route_epoch :: u64

datatype session_state = Connected | Disconnected tick

record gateway_session =
  gs_client_id :: client_id
  gs_station_id :: station_id
  gs_connected_at :: tick
  gs_last_seen :: tick
  gs_generation :: u64
  gs_route_epoch :: u64
  gs_state :: session_state
  gs_last_sequence :: "u64 option"
  gs_command_tick :: tick
  gs_commands_this_tick :: usize

definition session_route :: "gateway_session \<Rightarrow> gateway_route" where
  "session_route s =
     \<lparr>gr_client_id = gs_client_id s, gr_station_id = gs_station_id s,
      gr_generation = gs_generation s, gr_route_epoch = gs_route_epoch s\<rparr>"

datatype connect_outcome =
    Created
  | AlreadyConnected
  | Reconnected u64
  | ReplacedExpired u64

record connect_report =
  cr_outcome :: connect_outcome
  cr_route :: gateway_route

record command_admission =
  ca_route :: gateway_route
  ca_sequence :: u64
  ca_commands_this_tick :: usize

record gateway_stats =
  gst_sessions_created :: usize
  gst_sessions_reconnected :: usize
  gst_sessions_expired :: usize
  gst_routes_changed :: usize
  gst_commands_admitted :: usize
  gst_commands_rejected_replay :: usize
  gst_commands_rejected_rate_limit :: usize
  gst_expiry_deadlines_popped :: usize
  gst_stale_expiry_deadlines :: usize
  gst_expiry_deadline_compactions :: usize

definition gateway_stats_zero :: gateway_stats where
  "gateway_stats_zero =
     \<lparr>gst_sessions_created = 0, gst_sessions_reconnected = 0, gst_sessions_expired = 0,
      gst_routes_changed = 0, gst_commands_admitted = 0, gst_commands_rejected_replay = 0,
      gst_commands_rejected_rate_limit = 0, gst_expiry_deadlines_popped = 0,
      gst_stale_expiry_deadlines = 0, gst_expiry_deadline_compactions = 0\<rparr>"

datatype gateway_error =
    CapacityFull usize
  | MissingSession client_id
  | SessionDisconnected client_id tick
  | BadGeneration u64 u64
  | GwReplayOrStale "u64 option" u64
  | GwRateLimited usize usize

definition error_reject_reason :: "gateway_error \<Rightarrow> command_reject_reason option" where
  "error_reject_reason e =
     (case e of
        GwReplayOrStale _ _ \<Rightarrow> Some ReplayOrStale
      | GwRateLimited _ _ \<Rightarrow> Some RateLimited
      | _ \<Rightarrow> None)"

text \<open>A heap entry: deadline, client, disconnect tick.\<close>

type_synonym deadline = "u64 \<times> client_id \<times> u64"

record session_table =
  tb_config :: gateway_config
  tb_sessions :: "(client_id, gateway_session) adaptive_map"
  tb_deadlines :: "deadline list"
  tb_stats :: gateway_stats

definition table_new :: "gateway_config \<Rightarrow> session_table" where
  "table_new cfg =
     \<lparr>tb_config = cfg, tb_sessions = amap_new, tb_deadlines = [], tb_stats = gateway_stats_zero\<rparr>"

definition expiry_deadline :: "tick \<Rightarrow> u64 \<Rightarrow> u64" where
  "expiry_deadline since grace = sat_add (sat_add since grace) 1"

definition table_session :: "session_table \<Rightarrow> client_id \<Rightarrow> gateway_session option" where
  "table_session t c = amap_get (tb_sessions t) c"

definition table_route :: "session_table \<Rightarrow> client_id \<Rightarrow> gateway_error + gateway_route" where
  "table_route t c =
     (case amap_get (tb_sessions t) c of
        None \<Rightarrow> Err (MissingSession c)
      | Some s \<Rightarrow>
          (case gs_state s of
             Connected \<Rightarrow> Ok (session_route s)
           | Disconnected since \<Rightarrow> Err (SessionDisconnected c since)))"

section \<open>Connecting\<close>

definition connect_existing ::
  "gateway_session \<Rightarrow> station_id \<Rightarrow> tick \<Rightarrow> u64 \<Rightarrow> gateway_stats \<Rightarrow>
   connect_report \<times> gateway_session \<times> gateway_stats" where
  "connect_existing s st now grace stats =
     (case gs_state s of
        Connected \<Rightarrow>
          (let s1 = s\<lparr>gs_last_seen := now\<rparr> in
           if gs_station_id s1 \<noteq> st then
             (let s2 = s1\<lparr>gs_station_id := st, gs_route_epoch := sat_add (gs_route_epoch s1) 1\<rparr> in
              (\<lparr>cr_outcome = AlreadyConnected, cr_route = session_route s2\<rparr>, s2,
               stats\<lparr>gst_routes_changed := usize_add (gst_routes_changed stats) 1\<rparr>))
           else (\<lparr>cr_outcome = AlreadyConnected, cr_route = session_route s1\<rparr>, s1, stats))
      | Disconnected since \<Rightarrow>
          (let gone = sat_sub now since in
           if gone > grace then
             (let s1 = s\<lparr>gs_station_id := st, gs_connected_at := now, gs_last_seen := now,
                         gs_generation := sat_add (gs_generation s) 1,
                         gs_route_epoch := sat_add (gs_route_epoch s) 1, gs_state := Connected,
                         gs_last_sequence := None, gs_command_tick := now, gs_commands_this_tick := 0\<rparr>
              in (\<lparr>cr_outcome = ReplacedExpired gone, cr_route = session_route s1\<rparr>, s1,
                  stats\<lparr>gst_sessions_expired := usize_add (gst_sessions_expired stats) 1\<rparr>))
           else
             (let s1 = s\<lparr>gs_station_id := st, gs_last_seen := now, gs_state := Connected\<rparr>
              in (\<lparr>cr_outcome = Reconnected gone, cr_route = session_route s1\<rparr>, s1,
                  stats\<lparr>gst_sessions_reconnected := usize_add (gst_sessions_reconnected stats) 1\<rparr>))))"

definition new_session :: "client_id \<Rightarrow> station_id \<Rightarrow> tick \<Rightarrow> gateway_session" where
  "new_session c st now =
     \<lparr>gs_client_id = c, gs_station_id = st, gs_connected_at = now, gs_last_seen = now,
      gs_generation = 1, gs_route_epoch = 1, gs_state = Connected, gs_last_sequence = None,
      gs_command_tick = now, gs_commands_this_tick = 0\<rparr>"

definition gateway_connect ::
  "session_table \<Rightarrow> client_id \<Rightarrow> station_id \<Rightarrow> tick \<Rightarrow> (gateway_error + connect_report) \<times> session_table" where
  "gateway_connect t c st now =
     (case amap_get (tb_sessions t) c of
        Some s \<Rightarrow>
          (case connect_existing s st now (gc_reconnect_grace_ticks (tb_config t)) (tb_stats t) of
             (report, s', stats') \<Rightarrow>
               (Ok report, t\<lparr>tb_sessions := amap_write (tb_sessions t) c s', tb_stats := stats'\<rparr>))
      | None \<Rightarrow>
          if amap_len (tb_sessions t) \<ge> gc_max_sessions (tb_config t)
          then (Err (CapacityFull (gc_max_sessions (tb_config t))), t)
          else
            (let s = new_session c st now in
             (Ok \<lparr>cr_outcome = Created, cr_route = session_route s\<rparr>,
              t\<lparr>tb_sessions := snd (amap_insert session_threshold (tb_sessions t) c s),
                tb_stats := (tb_stats t)\<lparr>gst_sessions_created :=
                  usize_add (gst_sessions_created (tb_stats t)) 1\<rparr>\<rparr>)))"

definition gateway_reconnect ::
  "session_table \<Rightarrow> client_id \<Rightarrow> u64 \<Rightarrow> tick \<Rightarrow> (gateway_error + connect_report) \<times> session_table" where
  "gateway_reconnect t c generation now =
     (case amap_get (tb_sessions t) c of
        None \<Rightarrow> (Err (MissingSession c), t)
      | Some s \<Rightarrow>
          if gs_generation s \<noteq> generation then (Err (BadGeneration (gs_generation s) generation), t)
          else
            (case gs_state s of
               Connected \<Rightarrow>
                 (let s1 = s\<lparr>gs_last_seen := now\<rparr> in
                  (Ok \<lparr>cr_outcome = AlreadyConnected, cr_route = session_route s1\<rparr>,
                   t\<lparr>tb_sessions := amap_write (tb_sessions t) c s1\<rparr>))
             | Disconnected since \<Rightarrow>
                 (let gone = sat_sub now since in
                  if gone > gc_reconnect_grace_ticks (tb_config t) then
                    (let s1 = s\<lparr>gs_connected_at := now, gs_last_seen := now,
                                gs_generation := sat_add (gs_generation s) 1,
                                gs_route_epoch := sat_add (gs_route_epoch s) 1, gs_state := Connected,
                                gs_last_sequence := None, gs_command_tick := now,
                                gs_commands_this_tick := 0\<rparr>
                     in (Ok \<lparr>cr_outcome = ReplacedExpired gone, cr_route = session_route s1\<rparr>,
                         t\<lparr>tb_sessions := amap_write (tb_sessions t) c s1,
                           tb_stats := (tb_stats t)\<lparr>gst_sessions_expired :=
                             usize_add (gst_sessions_expired (tb_stats t)) 1\<rparr>\<rparr>))
                  else
                    (let s1 = s\<lparr>gs_last_seen := now, gs_state := Connected\<rparr>
                     in (Ok \<lparr>cr_outcome = Reconnected gone, cr_route = session_route s1\<rparr>,
                         t\<lparr>tb_sessions := amap_write (tb_sessions t) c s1,
                           tb_stats := (tb_stats t)\<lparr>gst_sessions_reconnected :=
                             usize_add (gst_sessions_reconnected (tb_stats t)) 1\<rparr>\<rparr>)))))"

section \<open>Disconnecting and expiry\<close>

text \<open>The entries that a compaction pushes, one per disconnected session.\<close>

definition live_deadlines :: "session_table \<Rightarrow> deadline list" where
  "live_deadlines t =
     sort (List.map_filter
       (\<lambda>c. case amap_get (tb_sessions t) c of
              None \<Rightarrow> None
            | Some s \<Rightarrow>
                (case gs_state s of
                   Connected \<Rightarrow> None
                 | Disconnected since \<Rightarrow>
                     Some (expiry_deadline since (gc_reconnect_grace_ticks (tb_config t)), c, since)))
       (sorted_list_of_fset (fmdom (amap_entries (tb_sessions t)))))"

definition compact_if_needed :: "session_table \<Rightarrow> session_table" where
  "compact_if_needed t =
     (if length (tb_deadlines t) \<le> usize_mul (max (gc_max_sessions (tb_config t)) 1) 2 then t
      else t\<lparr>tb_deadlines := live_deadlines t,
             tb_stats := (tb_stats t)\<lparr>gst_expiry_deadline_compactions :=
               usize_add (gst_expiry_deadline_compactions (tb_stats t)) 1\<rparr>\<rparr>)"

definition gateway_disconnect ::
  "session_table \<Rightarrow> client_id \<Rightarrow> tick \<Rightarrow> (gateway_error + unit) \<times> session_table" where
  "gateway_disconnect t c now =
     (case amap_get (tb_sessions t) c of
        None \<Rightarrow> (Err (MissingSession c), t)
      | Some s \<Rightarrow>
          (Ok (), compact_if_needed
             (t\<lparr>tb_sessions := amap_write (tb_sessions t) c (s\<lparr>gs_last_seen := now, gs_state := Disconnected now\<rparr>),
                tb_deadlines := insort (expiry_deadline now (gc_reconnect_grace_ticks (tb_config t)), c, now)
                  (tb_deadlines t)\<rparr>)))"

definition entry_matches :: "session_table \<Rightarrow> client_id \<Rightarrow> u64 \<Rightarrow> tick \<Rightarrow> bool" where
  "entry_matches t c expected now =
     (case amap_get (tb_sessions t) c of
        None \<Rightarrow> False
      | Some s \<Rightarrow>
          (case gs_state s of
             Connected \<Rightarrow> False
           | Disconnected since \<Rightarrow>
               since = expected \<and> sat_sub now since > gc_reconnect_grace_ticks (tb_config t)))"

function expire_loop :: "session_table \<Rightarrow> tick \<Rightarrow> usize \<Rightarrow> usize \<times> session_table" where
  "expire_loop t now expired =
     (case tb_deadlines t of
        [] \<Rightarrow> (expired, t)
      | (deadline, c, expected) # rest \<Rightarrow>
          if deadline \<le> now then
            (let t1 = t\<lparr>tb_deadlines := rest,
                        tb_stats := (tb_stats t)\<lparr>gst_expiry_deadlines_popped :=
                          usize_add (gst_expiry_deadlines_popped (tb_stats t)) 1\<rparr>\<rparr>
             in if entry_matches t1 c expected now then
                  expire_loop (t1\<lparr>tb_sessions := snd (amap_remove (tb_sessions t1) c)\<rparr>) now
                    (usize_add expired 1)
                else
                  expire_loop (t1\<lparr>tb_stats := (tb_stats t1)\<lparr>gst_stale_expiry_deadlines :=
                    usize_add (gst_stale_expiry_deadlines (tb_stats t1)) 1\<rparr>\<rparr>) now expired)
          else (expired, t))"
  by pat_completeness auto

termination expire_loop
  by (relation "measure (\<lambda>(t, now, n). length (tb_deadlines t))") (auto simp: Let_def)

declare expire_loop.simps [simp del]

definition expire_disconnected :: "session_table \<Rightarrow> tick \<Rightarrow> usize \<times> session_table" where
  "expire_disconnected t now =
     (case expire_loop t now 0 of
        (expired, t') \<Rightarrow>
          (expired, t'\<lparr>tb_stats := (tb_stats t')\<lparr>gst_sessions_expired :=
            usize_add (gst_sessions_expired (tb_stats t')) expired\<rparr>\<rparr>))"

section \<open>Routing and admission\<close>

definition gateway_reroute ::
  "session_table \<Rightarrow> client_id \<Rightarrow> station_id \<Rightarrow> tick \<Rightarrow> (gateway_error + gateway_route) \<times> session_table" where
  "gateway_reroute t c st now =
     (case amap_get (tb_sessions t) c of
        None \<Rightarrow> (Err (MissingSession c), t)
      | Some s \<Rightarrow>
          (case gs_state s of
             Connected \<Rightarrow>
               (let s1 = s\<lparr>gs_last_seen := now\<rparr> in
                if gs_station_id s1 \<noteq> st then
                  (let s2 = s1\<lparr>gs_station_id := st, gs_route_epoch := sat_add (gs_route_epoch s1) 1\<rparr> in
                   (Ok (session_route s2),
                    t\<lparr>tb_sessions := amap_write (tb_sessions t) c s2,
                      tb_stats := (tb_stats t)\<lparr>gst_routes_changed :=
                        usize_add (gst_routes_changed (tb_stats t)) 1\<rparr>\<rparr>))
                else (Ok (session_route s1), t\<lparr>tb_sessions := amap_write (tb_sessions t) c s1\<rparr>))
           | Disconnected since \<Rightarrow> (Err (SessionDisconnected c since), t)))"

text \<open>The per-tick command counter restarts when the tick changes.\<close>

definition tick_window :: "gateway_session \<Rightarrow> tick \<Rightarrow> gateway_session" where
  "tick_window s now =
     (if gs_command_tick s \<noteq> now then s\<lparr>gs_command_tick := now, gs_commands_this_tick := 0\<rparr> else s)"

definition admit_sequence ::
  "session_table \<Rightarrow> client_id \<Rightarrow> u64 \<Rightarrow> tick \<Rightarrow> (gateway_error + command_admission) \<times> session_table" where
  "admit_sequence t c seq now =
     (case amap_get (tb_sessions t) c of
        None \<Rightarrow> (Err (MissingSession c), t)
      | Some s \<Rightarrow>
          (case gs_state s of
             Disconnected since \<Rightarrow> (Err (SessionDisconnected c since), t)
           | Connected \<Rightarrow>
               if (case gs_last_sequence s of None \<Rightarrow> False | Some l \<Rightarrow> seq \<le> l) then
                 (Err (GwReplayOrStale (gs_last_sequence s) seq),
                  t\<lparr>tb_stats := (tb_stats t)\<lparr>gst_commands_rejected_replay :=
                    usize_add (gst_commands_rejected_replay (tb_stats t)) 1\<rparr>\<rparr>)
               else
                 (let s1 = tick_window s now;
                      attempted = usize_add (gs_commands_this_tick s1) 1
                  in if attempted > gc_max_commands_per_tick (tb_config t) then
                       (Err (GwRateLimited (gc_max_commands_per_tick (tb_config t)) attempted),
                        t\<lparr>tb_sessions := amap_write (tb_sessions t) c s1,
                          tb_stats := (tb_stats t)\<lparr>gst_commands_rejected_rate_limit :=
                            usize_add (gst_commands_rejected_rate_limit (tb_stats t)) 1\<rparr>\<rparr>)
                     else
                       (let s2 = s1\<lparr>gs_commands_this_tick := attempted, gs_last_sequence := Some seq,
                                    gs_last_seen := now\<rparr>
                        in (Ok \<lparr>ca_route = session_route s2, ca_sequence = seq, ca_commands_this_tick = attempted\<rparr>,
                            t\<lparr>tb_sessions := amap_write (tb_sessions t) c s2,
                              tb_stats := (tb_stats t)\<lparr>gst_commands_admitted :=
                                usize_add (gst_commands_admitted (tb_stats t)) 1\<rparr>\<rparr>)))))"

definition admit_command ::
  "session_table \<Rightarrow> command_envelope \<Rightarrow> (gateway_error + command_admission) \<times> session_table" where
  "admit_command t e = admit_sequence t (ce_client_id e) (ce_sequence e) (ce_received_at e)"

section \<open>The heap covers the disconnected sessions\<close>

definition due :: "tick \<Rightarrow> deadline \<Rightarrow> bool" where
  "due now d \<longleftrightarrow> fst d \<le> now"

lemma due_takeWhile:
  "sorted ds \<Longrightarrow> d \<in> set ds \<Longrightarrow> due now d \<Longrightarrow> d \<in> set (takeWhile (due now) ds)"
proof (induction ds)
  case (Cons x ds)
  show ?case
  proof (cases "due now x")
    case False
    moreover have "fst x \<le> fst d" using Cons.prems by (auto simp: less_eq_prod_def less_imp_le)
    ultimately have False using Cons.prems(3) by (simp add: due_def)
    then show ?thesis ..
  qed (use Cons in auto)
qed simp

lemma not_due_dropWhile: "d \<in> set ds \<Longrightarrow> \<not> due now d \<Longrightarrow> d \<in> set (dropWhile (due now) ds)"
  by (induction ds) auto

lemma entry_matches_simps [simp]:
  "entry_matches (t\<lparr>tb_deadlines := ds\<rparr>) = entry_matches t"
  "entry_matches (t\<lparr>tb_stats := st\<rparr>) = entry_matches t"
  by (simp_all add: entry_matches_def fun_eq_iff cong: option.case_cong session_state.case_cong)

lemma entry_matches_remove:
  "tb_sessions t = m \<Longrightarrow>
   entry_matches (t\<lparr>tb_sessions := snd (amap_remove m c)\<rparr>) c' e now \<longleftrightarrow>
     c' \<noteq> c \<and> entry_matches t c' e now"
  by (cases "amap_get (tb_sessions t) c'"; cases "c' = c")
    (simp_all add: entry_matches_def amap.get_del cong: session_state.case_cong)

text \<open>One pass of the loop: exactly the due entries are popped, and a session goes exactly when one
  of them matches its disconnect tick.\<close>

lemma expire_loop_spec:
  assumes "expire_loop t now n = (n', t')"
  shows "tb_config t' = tb_config t \<and>
    tb_deadlines t' = dropWhile (due now) (tb_deadlines t) \<and>
    (\<forall>c. amap_get (tb_sessions t') c =
       (if \<exists>d e. (d, c, e) \<in> set (takeWhile (due now) (tb_deadlines t)) \<and> entry_matches t c e now
        then None else amap_get (tb_sessions t) c)) \<and>
    amap_len (tb_sessions t') \<le> amap_len (tb_sessions t) \<and>
    (n + amap_len (tb_sessions t) \<le> usize_max \<longrightarrow>
       n' + amap_len (tb_sessions t') = n + amap_len (tb_sessions t))"
  using assms
proof (induction t now n arbitrary: n' t' rule: expire_loop.induct)
  case (1 t now n)
  show ?case
  proof (cases "tb_deadlines t")
    case Nil
    with 1(3) show ?thesis by (auto simp: expire_loop.simps [of t])
  next
    case (Cons d rest)
    obtain dl c e where d: "d = (dl, c, e)" by (cases d)
    define t1 where "t1 = t\<lparr>tb_deadlines := rest,
      tb_stats := (tb_stats t)\<lparr>gst_expiry_deadlines_popped := usize_add (gst_expiry_deadlines_popped (tb_stats t)) 1\<rparr>\<rparr>"
    have t1: "tb_config t1 = tb_config t" "tb_deadlines t1 = rest" "tb_sessions t1 = tb_sessions t"
      "entry_matches t1 = entry_matches t" by (simp_all add: t1_def)
    show ?thesis
    proof (cases "dl \<le> now")
      case False
      with 1(3) Cons d show ?thesis by (auto simp: expire_loop.simps [of t] due_def)
    next
      case due: True
      have step: "expire_loop t now n =
          (if entry_matches t1 c e now
           then expire_loop (t1\<lparr>tb_sessions := snd (amap_remove (tb_sessions t1) c)\<rparr>) now (usize_add n 1)
           else expire_loop (t1\<lparr>tb_stats := (tb_stats t1)\<lparr>gst_stale_expiry_deadlines :=
                  usize_add (gst_stale_expiry_deadlines (tb_stats t1)) 1\<rparr>\<rparr>) now n)"
        by (subst expire_loop.simps)
          (simp only: Cons d due t1_def Let_def list.case prod.case if_True)
      show ?thesis
      proof (cases "entry_matches t1 c e now")
        case True
        let ?t2 = "t1\<lparr>tb_sessions := snd (amap_remove (tb_sessions t1) c)\<rparr>"
        have "expire_loop ?t2 now (usize_add n 1) = (n', t')"
          using 1(3) True unfolding step by simp
        note IH = 1(1) [OF Cons d [symmetric] refl due t1_def True this]
        have some: "amap_get (tb_sessions t) c \<noteq> None"
          using True by (auto simp: entry_matches_def t1 split: option.splits)
        have len: "Suc (amap_len (snd (amap_remove (tb_sessions t) c))) = amap_len (tb_sessions t)"
          using amap.count_del_present [OF some] .
        have "n + amap_len (tb_sessions t) \<le> usize_max \<longrightarrow> usize_add n 1 = Suc n"
          using len by (auto simp: usize_add_def)
        then show ?thesis
          using IH len True Cons d due
          by (auto simp: t1 entry_matches_remove amap.get_del due_def)
      next
        case False
        let ?t2 = "t1\<lparr>tb_stats := (tb_stats t1)\<lparr>gst_stale_expiry_deadlines :=
          usize_add (gst_stale_expiry_deadlines (tb_stats t1)) 1\<rparr>\<rparr>"
        have "expire_loop ?t2 now n = (n', t')"
          using 1(3) False unfolding step by simp
        note IH = 1(2) [OF Cons d [symmetric] refl due t1_def False this]
        then show ?thesis using False Cons d due by (auto simp: t1 due_def)
      qed
    qed
  qed
qed

text \<open>A deadline is due exactly when the grace window is over, below the last tick.\<close>

lemma unat_expiry_deadline:
  "unat (expiry_deadline since grace) = min (unat since + unat grace + 1) (2 ^ 64 - 1)"
  by (simp add: expiry_deadline_def unat_sat_add)

lemma deadline_due_iff:
  assumes "now < - 1"
  shows "expiry_deadline since grace \<le> now \<longleftrightarrow> sat_sub now since > grace"
proof -
  have "unat now < 2 ^ 64 - 1"
    using assms unat_minus_one [where 'a = 64] by (simp add: word_less_nat_alt)
  then show ?thesis
    unfolding word_le_nat_alt word_less_nat_alt unat_expiry_deadline unat_sat_sub by (auto simp: min_def)
qed

definition session_expired :: "session_table \<Rightarrow> tick \<Rightarrow> gateway_session \<Rightarrow> bool" where
  "session_expired t now s \<longleftrightarrow>
     (case gs_state s of
        Connected \<Rightarrow> False
      | Disconnected since \<Rightarrow> sat_sub now since > gc_reconnect_grace_ticks (tb_config t))"

definition deadline_limit :: "gateway_config \<Rightarrow> usize" where
  "deadline_limit cfg = usize_mul (max (gc_max_sessions cfg) 1) 2"

definition table_wf :: "session_table \<Rightarrow> bool" where
  "table_wf t \<longleftrightarrow>
     gc_max_sessions (tb_config t) \<le> usize_max \<and>
     sorted (tb_deadlines t) \<and>
     length (tb_deadlines t) \<le> deadline_limit (tb_config t) \<and>
     amap_len (tb_sessions t) \<le> gc_max_sessions (tb_config t) \<and>
     (\<forall>c s. amap_get (tb_sessions t) c = Some s \<longrightarrow>
        gs_client_id s = c \<and> gs_commands_this_tick s \<le> gc_max_commands_per_tick (tb_config t) \<and>
        (\<forall>since. gs_state s = Disconnected since \<longrightarrow>
           (expiry_deadline since (gc_reconnect_grace_ticks (tb_config t)), c, since) \<in> set (tb_deadlines t)))"

lemma table_wf_session:
  assumes "table_wf t" "amap_get (tb_sessions t) c = Some s"
  shows "gs_client_id s = c" "gs_commands_this_tick s \<le> gc_max_commands_per_tick (tb_config t)"
    "gs_state s = Disconnected since \<Longrightarrow>
       (expiry_deadline since (gc_reconnect_grace_ticks (tb_config t)), c, since) \<in> set (tb_deadlines t)"
  using assms unfolding table_wf_def by blast+

lemma table_new_wf: "gc_max_sessions cfg \<le> usize_max \<Longrightarrow> table_wf (table_new cfg)"
  by (simp add: table_wf_def table_new_def deadline_limit_def)

text \<open>A write to one session that is connected afterwards.\<close>

lemma table_write_wf:
  assumes wf: "table_wf t" and s: "amap_get (tb_sessions t) c = Some s0"
    and s': "gs_client_id s = gs_client_id s0" "gs_state s = Connected"
      "gs_commands_this_tick s \<le> gc_max_commands_per_tick (tb_config t)"
  shows "table_wf (t\<lparr>tb_sessions := amap_write (tb_sessions t) c s\<rparr>)"
    "table_wf (t\<lparr>tb_sessions := amap_write (tb_sessions t) c s, tb_stats := st\<rparr>)"
proof -
  have "amap_len (amap_write (tb_sessions t) c s) = amap_len (tb_sessions t)"
    using s by (simp add: amap_len_write)
  then show "table_wf (t\<lparr>tb_sessions := amap_write (tb_sessions t) c s\<rparr>)"
    using wf s s' unfolding table_wf_def by (auto simp: amap_get_write)
  then show "table_wf (t\<lparr>tb_sessions := amap_write (tb_sessions t) c s, tb_stats := st\<rparr>)"
    by (simp add: table_wf_def)
qed

lemma table_stats_wf [simp]: "table_wf (t\<lparr>tb_stats := st\<rparr>) = table_wf t"
  by (simp add: table_wf_def)

lemma connect_existing_session:
  assumes "connect_existing s st now grace stats = (report, s', stats')"
  shows "gs_client_id s' = gs_client_id s" "gs_state s' = Connected"
    "gs_commands_this_tick s' \<le> gs_commands_this_tick s"
  using assms by (auto simp: connect_existing_def Let_def split: session_state.splits if_splits)

lemma gateway_connect_wf:
  assumes wf: "table_wf t" and eq: "gateway_connect t c st now = (r, t')"
  shows "table_wf t'"
proof (cases "amap_get (tb_sessions t) c")
  case (Some s)
  obtain report s' stats' where ce:
    "connect_existing s st now (gc_reconnect_grace_ticks (tb_config t)) (tb_stats t) = (report, s', stats')"
    by (cases "connect_existing s st now (gc_reconnect_grace_ticks (tb_config t)) (tb_stats t)") auto
  note cs = connect_existing_session [OF ce]
  have "gs_commands_this_tick s' \<le> gc_max_commands_per_tick (tb_config t)"
    using cs(3) table_wf_session(2) [OF wf Some] by simp
  with eq Some ce show ?thesis
    using table_write_wf(2) [OF wf Some cs(1,2)] by (auto simp: gateway_connect_def)
next
  case None
  show ?thesis
  proof (cases "amap_len (tb_sessions t) \<ge> gc_max_sessions (tb_config t)")
    case True
    with eq None wf show ?thesis by (simp add: gateway_connect_def)
  next
    case False
    have "amap_len (snd (amap_insert session_threshold (tb_sessions t) c (new_session c st now))) \<le>
        gc_max_sessions (tb_config t)"
      using False by (simp add: amap.count_put None)
    with eq None wf False show ?thesis
      by (auto simp: gateway_connect_def Let_def table_wf_def amap.get_put new_session_def split: if_splits)
  qed
qed

lemma gateway_reconnect_wf:
  assumes wf: "table_wf t" and eq: "gateway_reconnect t c g now = (r, t')"
  shows "table_wf t'"
proof (cases "amap_get (tb_sessions t) c")
  case (Some s)
  note cmds = table_wf_session(2) [OF wf Some]
  show ?thesis
    using eq Some wf cmds
    by (auto simp: gateway_reconnect_def Let_def split: if_splits session_state.splits
        intro!: table_write_wf [OF wf Some])
qed (use assms in \<open>simp add: gateway_reconnect_def\<close>)

lemma gateway_reroute_wf:
  assumes wf: "table_wf t" and eq: "gateway_reroute t c st now = (r, t')"
  shows "table_wf t'"
proof (cases "amap_get (tb_sessions t) c")
  case (Some s)
  note cmds = table_wf_session(2) [OF wf Some]
  show ?thesis
    using eq Some wf cmds
    by (auto simp: gateway_reroute_def Let_def split: if_splits session_state.splits
        intro!: table_write_wf [OF wf Some])
qed (use assms in \<open>simp add: gateway_reroute_def\<close>)

lemma admit_sequence_wf:
  assumes wf: "table_wf t" and eq: "admit_sequence t c q now = (r, t')"
  shows "table_wf t'"
proof (cases "amap_get (tb_sessions t) c")
  case (Some s)
  note cmds = table_wf_session(2) [OF wf Some]
  show ?thesis
    using eq Some wf cmds
    by (auto simp: admit_sequence_def tick_window_def Let_def split: if_splits session_state.splits
        intro!: table_write_wf [OF wf Some])
qed (use assms in \<open>simp add: admit_sequence_def\<close>)

lemma length_map_filter_le: "length (List.map_filter f xs) \<le> length xs"
  by (induction xs) (auto simp: List.map_filter_simps split: option.splits)

lemma set_map_filter_iff: "y \<in> set (List.map_filter f xs) \<longleftrightarrow> (\<exists>x \<in> set xs. f x = Some y)"
  by (force simp: List.map_filter_def image_iff)

lemma length_live_deadlines: "length (live_deadlines t) \<le> amap_len (tb_sessions t)"
proof -
  have "length (sorted_list_of_fset (fmdom (amap_entries (tb_sessions t)))) = amap_len (tb_sessions t)"
    by (simp add: amap_len_entries fcard.rep_eq sorted_list_of_fset.rep_eq)
  then show ?thesis unfolding live_deadlines_def length_sort
    by (intro length_map_filter_le [THEN le_trans]) simp
qed

lemma live_deadlines_cover:
  assumes "amap_get (tb_sessions t) c = Some s" "gs_state s = Disconnected since"
  shows "(expiry_deadline since (gc_reconnect_grace_ticks (tb_config t)), c, since) \<in> set (live_deadlines t)"
proof -
  have c: "c \<in> set (sorted_list_of_fset (fmdom (amap_entries (tb_sessions t))))"
    using fmdomI [OF assms(1) [unfolded amap_get_entries]] by (simp add: sorted_list_of_fset.rep_eq)
  show ?thesis unfolding live_deadlines_def set_sort set_map_filter_iff
    by (rule bexI [OF _ c]) (simp add: assms)
qed

lemma usize_mul_mono_left: "a \<le> usize_max \<Longrightarrow> a \<le> usize_mul (max a 1) 2"
  by (simp add: usize_mul_def)

lemma gateway_disconnect_wf:
  assumes wf: "table_wf t" and eq: "gateway_disconnect t c now = (r, t')"
  shows "table_wf t'"
proof (cases "amap_get (tb_sessions t) c")
  case None
  with eq wf show ?thesis by (simp add: gateway_disconnect_def)
next
  case (Some s)
  define s1 where "s1 = s\<lparr>gs_last_seen := now, gs_state := Disconnected now\<rparr>"
  define t1 where "t1 = t\<lparr>tb_sessions := amap_write (tb_sessions t) c s1,
    tb_deadlines := insort (expiry_deadline now (gc_reconnect_grace_ticks (tb_config t)), c, now) (tb_deadlines t)\<rparr>"
  have t': "t' = compact_if_needed t1"
    using eq Some by (simp add: gateway_disconnect_def t1_def s1_def)
  have t1: "tb_config t1 = tb_config t" "amap_len (tb_sessions t1) = amap_len (tb_sessions t)"
    "sorted (tb_deadlines t1)"
    using wf Some by (simp_all add: t1_def amap_len_write table_wf_def sorted_insort)
  have sess: "gs_client_id q = k \<and> gs_commands_this_tick q \<le> gc_max_commands_per_tick (tb_config t)"
    if "amap_get (tb_sessions t1) k = Some q" for k q
    using that table_wf_session(1,2) [OF wf, of k] table_wf_session(1,2) [OF wf Some]
    by (auto simp: t1_def amap_get_write s1_def split: if_splits)
  have cover: "(expiry_deadline since (gc_reconnect_grace_ticks (tb_config t)), k, since) \<in> set (tb_deadlines t1)"
    if "amap_get (tb_sessions t1) k = Some q" "gs_state q = Disconnected since" for k q since
    using that table_wf_session(3) [OF wf, of k q since]
    by (auto simp: t1_def amap_get_write s1_def set_insort_key split: if_splits)
  show ?thesis
  proof (cases "length (tb_deadlines t1) \<le> deadline_limit (tb_config t)")
    case True
    then have "t' = t1" by (simp add: t' compact_if_needed_def t1(1) deadline_limit_def)
    with True wf t1 sess cover show ?thesis unfolding table_wf_def by simp
  next
    case False
    have ms: "amap_len (tb_sessions t) \<le> gc_max_sessions (tb_config t)"
      "gc_max_sessions (tb_config t) \<le> usize_max" using wf by (auto simp: table_wf_def)
    have "length (live_deadlines t1) \<le> deadline_limit (tb_config t)"
      using length_live_deadlines [of t1] ms usize_mul_mono_left [OF ms(2)]
      unfolding t1(2) deadline_limit_def by linarith
    moreover have "sorted (live_deadlines t1)" by (simp add: live_deadlines_def)
    moreover have "\<exists>st. t' = t1\<lparr>tb_deadlines := live_deadlines t1, tb_stats := st\<rparr>"
      using False by (auto simp: t' compact_if_needed_def t1(1) deadline_limit_def)
    ultimately show ?thesis
      using wf sess live_deadlines_cover [of t1] ms unfolding table_wf_def by (auto simp: t1)
  qed
qed

lemma expire_covers:
  assumes wf: "table_wf t" and now: "now < - 1" and s: "amap_get (tb_sessions t) c = Some s"
  shows "(\<exists>d e. (d, c, e) \<in> set (takeWhile (due now) (tb_deadlines t)) \<and> entry_matches t c e now) \<longleftrightarrow>
    session_expired t now s"
proof
  assume "\<exists>d e. (d, c, e) \<in> set (takeWhile (due now) (tb_deadlines t)) \<and> entry_matches t c e now"
  then show "session_expired t now s"
    using s by (auto simp: entry_matches_def session_expired_def split: session_state.splits)
next
  assume ex: "session_expired t now s"
  then obtain since where st: "gs_state s = Disconnected since"
    and gone: "sat_sub now since > gc_reconnect_grace_ticks (tb_config t)"
    by (auto simp: session_expired_def split: session_state.splits)
  let ?d = "(expiry_deadline since (gc_reconnect_grace_ticks (tb_config t)), c, since)"
  have "?d \<in> set (tb_deadlines t)" by (rule table_wf_session(3) [OF wf s st])
  moreover have "due now ?d" using gone deadline_due_iff [OF now] by (simp add: due_def)
  moreover have "sorted (tb_deadlines t)" using wf by (simp add: table_wf_def)
  ultimately have "?d \<in> set (takeWhile (due now) (tb_deadlines t))" by (intro due_takeWhile)
  moreover have "entry_matches t c since now" using s st gone by (simp add: entry_matches_def)
  ultimately show "\<exists>d e. (d, c, e) \<in> set (takeWhile (due now) (tb_deadlines t)) \<and> entry_matches t c e now"
    by blast
qed

text \<open>The expiry pass through the heap, seen as a scan.\<close>

lemma expire_scan:
  assumes wf: "table_wf t" and now: "now < - 1" and eq: "expire_disconnected t now = (n, t')"
  shows "amap_get (tb_sessions t') c =
      (case amap_get (tb_sessions t) c of
         None \<Rightarrow> None
       | Some s \<Rightarrow> if session_expired t now s then None else Some s)"
    "n + amap_len (tb_sessions t') = amap_len (tb_sessions t)"
    "tb_config t' = tb_config t" "tb_deadlines t' = dropWhile (due now) (tb_deadlines t)"
    "amap_len (tb_sessions t') \<le> amap_len (tb_sessions t)"
proof -
  obtain t0 where t0: "expire_loop t now 0 = (n, t0)" "tb_sessions t' = tb_sessions t0"
    "tb_config t' = tb_config t0" "tb_deadlines t' = tb_deadlines t0"
    using eq by (auto simp: expire_disconnected_def split: prod.splits)
  note spec = expire_loop_spec [OF t0(1)]
  show "amap_get (tb_sessions t') c =
      (case amap_get (tb_sessions t) c of
         None \<Rightarrow> None
       | Some s \<Rightarrow> if session_expired t now s then None else Some s)"
  proof (cases "amap_get (tb_sessions t) c")
    case None
    then show ?thesis using spec t0(2) by simp
  next
    case (Some s)
    then show ?thesis using spec t0(2) expire_covers [OF wf now Some] by simp
  qed
  have "amap_len (tb_sessions t) \<le> usize_max" using wf by (auto simp: table_wf_def)
  with spec t0(2) show "n + amap_len (tb_sessions t') = amap_len (tb_sessions t)" by simp
  show "tb_config t' = tb_config t" "tb_deadlines t' = dropWhile (due now) (tb_deadlines t)"
    "amap_len (tb_sessions t') \<le> amap_len (tb_sessions t)"
    using spec t0 by simp_all
qed

lemma expire_disconnected_wf:
  assumes wf: "table_wf t" and now: "now < - 1" and eq: "expire_disconnected t now = (n, t')"
  shows "table_wf t'"
proof -
  note sc = expire_scan [OF wf now eq]
  have old: "amap_get (tb_sessions t) c = Some s \<and> \<not> session_expired t now s"
    if "amap_get (tb_sessions t') c = Some s" for c s
    using that sc(1) [of c] by (auto split: option.splits if_splits)
  have "(expiry_deadline since (gc_reconnect_grace_ticks (tb_config t)), c, since) \<in> set (tb_deadlines t')"
    if s: "amap_get (tb_sessions t') c = Some s" and st: "gs_state s = Disconnected since" for c s since
  proof -
    let ?d = "(expiry_deadline since (gc_reconnect_grace_ticks (tb_config t)), c, since)"
    have "?d \<in> set (tb_deadlines t)" using table_wf_session(3) [OF wf _ st] old [OF s] by blast
    moreover have "\<not> due now ?d"
      using old [OF s] st deadline_due_iff [OF now] by (simp add: due_def session_expired_def)
    ultimately show ?thesis unfolding sc(4) by (rule not_due_dropWhile)
  qed
  moreover have "sorted (tb_deadlines t')" using wf unfolding sc(4) table_wf_def by (simp add: sorted_dropWhile)
  moreover have "length (tb_deadlines t') \<le> length (tb_deadlines t)" unfolding sc(4) by (rule length_dropWhile_le)
  ultimately show ?thesis
    using wf old table_wf_session(1,2) [OF wf] sc(3,5) unfolding table_wf_def by fastforce
qed

inductive gateway_step :: "session_table \<Rightarrow> session_table \<Rightarrow> bool" where
  "gateway_connect t c st now = (r, t') \<Longrightarrow> gateway_step t t'"
| "gateway_reconnect t c g now = (r, t') \<Longrightarrow> gateway_step t t'"
| "gateway_disconnect t c now = (u, t') \<Longrightarrow> gateway_step t t'"
| "expire_disconnected t now = (n, t') \<Longrightarrow> now < - 1 \<Longrightarrow> gateway_step t t'"
| "gateway_reroute t c st now = (rt, t') \<Longrightarrow> gateway_step t t'"
| "admit_sequence t c q now = (a, t') \<Longrightarrow> gateway_step t t'"

lemma gateway_step_wf: "gateway_step t t' \<Longrightarrow> table_wf t \<Longrightarrow> table_wf t'"
  by (induction rule: gateway_step.induct)
    (auto intro: gateway_connect_wf gateway_reconnect_wf gateway_disconnect_wf expire_disconnected_wf
       gateway_reroute_wf admit_sequence_wf)

lemma gateway_steps_wf: "gateway_step\<^sup>*\<^sup>* t t' \<Longrightarrow> table_wf t \<Longrightarrow> table_wf t'"
  by (induction rule: rtranclp_induct) (auto intro: gateway_step_wf)

section \<open>The history of accepted commands\<close>

text \<open>For each client, the sequences and ticks accepted since its session was created or replaced.\<close>

type_synonym command_log = "client_id \<Rightarrow> (u64 \<times> tick) list"

definition fresh_session :: "gateway_error + connect_report \<Rightarrow> bool" where
  "fresh_session r =
     (case r of
        Inl _ \<Rightarrow> False
      | Inr rep \<Rightarrow> (case cr_outcome rep of Created \<Rightarrow> True | ReplacedExpired _ \<Rightarrow> True | _ \<Rightarrow> False))"

inductive gateway_history :: "gateway_config \<Rightarrow> session_table \<Rightarrow> command_log \<Rightarrow> bool" for cfg where
  hist_new: "gateway_history cfg (table_new cfg) (\<lambda>_. [])"
| hist_connect: "gateway_history cfg t log \<Longrightarrow> gateway_connect t c st now = (r, t') \<Longrightarrow>
    gateway_history cfg t' (if fresh_session r then log(c := []) else log)"
| hist_reconnect: "gateway_history cfg t log \<Longrightarrow> gateway_reconnect t c g now = (r, t') \<Longrightarrow>
    gateway_history cfg t' (if fresh_session r then log(c := []) else log)"
| hist_disconnect: "gateway_history cfg t log \<Longrightarrow> gateway_disconnect t c now = (u, t') \<Longrightarrow>
    gateway_history cfg t' log"
| hist_expire: "gateway_history cfg t log \<Longrightarrow> expire_disconnected t now = (n, t') \<Longrightarrow>
    gateway_history cfg t' log"
| hist_reroute: "gateway_history cfg t log \<Longrightarrow> gateway_reroute t c st now = (rt, t') \<Longrightarrow>
    gateway_history cfg t' log"
| hist_admit: "gateway_history cfg t log \<Longrightarrow> admit_sequence t c q now = (Inr a, t') \<Longrightarrow>
    gateway_history cfg t' (log(c := log c @ [(q, now)]))"
| hist_refuse: "gateway_history cfg t log \<Longrightarrow> admit_sequence t c q now = (Inl e, t') \<Longrightarrow>
    gateway_history cfg t' log"

definition tick_run :: "tick \<Rightarrow> (u64 \<times> tick) list \<Rightarrow> nat" where
  "tick_run t es = length (takeWhile (\<lambda>e. snd e = t) (rev es))"

definition session_logged :: "nat \<Rightarrow> gateway_session \<Rightarrow> (u64 \<times> tick) list \<Rightarrow> bool" where
  "session_logged limit s es \<longleftrightarrow>
     sorted_wrt (<) (map fst es) \<and>
     gs_last_sequence s = (if es = [] then None else Some (fst (last es))) \<and>
     (es = [] \<longrightarrow> gs_commands_this_tick s = 0) \<and>
     (es \<noteq> [] \<longrightarrow> 0 < limit \<and> snd (last es) = gs_command_tick s) \<and>
     gs_commands_this_tick s = tick_run (gs_command_tick s) es \<and>
     gs_commands_this_tick s \<le> limit"

lemma session_logged_cong:
  "gs_last_sequence s' = gs_last_sequence s \<Longrightarrow> gs_commands_this_tick s' = gs_commands_this_tick s \<Longrightarrow>
   gs_command_tick s' = gs_command_tick s \<Longrightarrow> session_logged n s' es = session_logged n s es"
  by (simp add: session_logged_def)

lemma session_logged_fresh:
  "gs_last_sequence s = None \<Longrightarrow> gs_commands_this_tick s = 0 \<Longrightarrow> session_logged n s []"
  by (simp add: session_logged_def tick_run_def)

lemma sorted_wrt_le_last: "sorted_wrt (<) xs \<Longrightarrow> x \<in> set xs \<Longrightarrow> x \<le> last xs" for x :: "'a::linorder"
  by (induction xs) (auto dest: last_in_set intro: less_imp_le)

lemma sorted_wrt_less_snoc:
  "sorted_wrt (<) xs \<Longrightarrow> xs = [] \<or> last xs < y \<Longrightarrow> sorted_wrt (<) (xs @ [y])" for y :: "'a::linorder"
  by (auto simp: sorted_wrt_append dest: sorted_wrt_le_last)

text \<open>What an admission does to the client's session.\<close>

definition admitted :: "gateway_session \<Rightarrow> u64 \<Rightarrow> tick \<Rightarrow> gateway_session" where
  "admitted s q now =
     (tick_window s now)\<lparr>gs_commands_this_tick := usize_add (gs_commands_this_tick (tick_window s now)) 1,
       gs_last_sequence := Some q, gs_last_seen := now\<rparr>"

lemma admit_Ok:
  assumes "admit_sequence t c q now = (Inr a, t')"
  shows "\<exists>s. amap_get (tb_sessions t) c = Some s \<and> gs_state s = Connected \<and>
    (\<forall>l. gs_last_sequence s = Some l \<longrightarrow> l < q) \<and>
    usize_add (gs_commands_this_tick (tick_window s now)) 1 \<le> gc_max_commands_per_tick (tb_config t) \<and>
    tb_config t' = tb_config t \<and> tb_sessions t' = amap_write (tb_sessions t) c (admitted s q now)"
  using assms
  by (auto simp: admit_sequence_def Let_def not_le admitted_def split: option.splits session_state.splits if_splits)

lemma admit_Err:
  assumes "admit_sequence t c q now = (Inl e, t')"
  shows "tb_config t' = tb_config t \<and> (tb_sessions t' = tb_sessions t \<or>
    (\<exists>s. amap_get (tb_sessions t) c = Some s \<and> tb_sessions t' = amap_write (tb_sessions t) c (tick_window s now) \<and>
       usize_add (gs_commands_this_tick (tick_window s now)) 1 > gc_max_commands_per_tick (tb_config t)))"
  using assms
  by (auto simp: admit_sequence_def Let_def split: option.splits session_state.splits if_splits)

lemma tick_run_snoc: "tick_run t (es @ [e]) = (if snd e = t then Suc (tick_run t es) else 0)"
  by (simp add: tick_run_def)

lemma session_logged_window:
  assumes "session_logged limit s es"
  shows "gs_commands_this_tick (tick_window s now) = tick_run now es"
proof (cases "gs_command_tick s = now")
  case True
  then show ?thesis using assms by (simp add: tick_window_def session_logged_def)
next
  case False
  have "tick_run now es = 0"
  proof (cases es rule: rev_cases)
    case (snoc ys y)
    with assms False show ?thesis by (auto simp: session_logged_def tick_run_snoc)
  qed (simp add: tick_run_def)
  with False show ?thesis by (simp add: tick_window_def)
qed

lemma session_logged_admit:
  assumes log: "session_logged limit s es" and lim: "limit < usize_max"
    and newer: "\<forall>l. gs_last_sequence s = Some l \<longrightarrow> l < q"
    and room: "usize_add (gs_commands_this_tick (tick_window s now)) 1 \<le> limit"
  shows "session_logged limit (admitted s q now) (es @ [(q, now)])"
proof -
  have count: "usize_add (tick_run now es) 1 = Suc (tick_run now es)"
    using room lim session_logged_window [OF log, of now] by (simp add: usize_add_def min_def split: if_splits)
  have tick: "gs_command_tick (tick_window s now) = now" by (simp add: tick_window_def)
  have sorted: "sorted_wrt (<) (map fst es @ [q])"
    using log newer by (intro sorted_wrt_less_snoc) (auto simp: session_logged_def last_map split: if_splits)
  show ?thesis
    using room count sorted session_logged_window [OF log, of now]
    by (simp add: session_logged_def admitted_def tick tick_run_snoc)
qed

lemma session_logged_refuse:
  assumes log: "session_logged limit s es" and lim: "limit < usize_max"
    and full: "usize_add (gs_commands_this_tick (tick_window s now)) 1 > limit"
  shows "session_logged limit (tick_window s now) es"
proof (cases "gs_command_tick s = now")
  case False
  then have "limit = 0" using full by (simp add: tick_window_def usize_max_def)
  then have "es = []" using log by (auto simp: session_logged_def)
  then show ?thesis using False log by (simp add: session_logged_def tick_window_def tick_run_def)
qed (use log in \<open>simp add: tick_window_def\<close>)

text \<open>What the other operations do to a session: restart its log or leave the logged fields alone.\<close>

definition kept :: "gateway_session \<Rightarrow> gateway_session \<Rightarrow> bool" where
  "kept s s' \<longleftrightarrow> gs_last_sequence s' = gs_last_sequence s \<and>
     gs_commands_this_tick s' = gs_commands_this_tick s \<and> gs_command_tick s' = gs_command_tick s"

definition restarted :: "gateway_session \<Rightarrow> bool" where
  "restarted s \<longleftrightarrow> gs_last_sequence s = None \<and> gs_commands_this_tick s = 0"

lemma session_logged_kept: "session_logged n s es \<Longrightarrow> kept s s' \<Longrightarrow> session_logged n s' es"
  by (simp add: session_logged_def kept_def tick_run_def)

lemma session_logged_restarted: "restarted s \<Longrightarrow> session_logged n s []"
  by (simp add: session_logged_def restarted_def tick_run_def)

lemma connect_existing_log:
  "connect_existing s st now grace stats = (rep, s', stats') \<Longrightarrow>
   if fresh_session (Inr rep :: gateway_error + connect_report) then restarted s' else kept s s'"
  by (cases "gs_state s")
    (auto simp: connect_existing_def Let_def fresh_session_def restarted_def kept_def split: if_splits)

lemma connect_log:
  assumes "gateway_connect t c st now = (r, t')"
  shows "tb_config t' = tb_config t \<and>
    (\<forall>k s'. amap_get (tb_sessions t') k = Some s' \<longrightarrow>
       (if k = c \<and> fresh_session r then restarted s'
        else \<exists>s. amap_get (tb_sessions t) k = Some s \<and> kept s s'))"
proof (cases "amap_get (tb_sessions t) c")
  case (Some s)
  obtain rep s' stats' where ce:
    "connect_existing s st now (gc_reconnect_grace_ticks (tb_config t)) (tb_stats t) = (rep, s', stats')"
    by (cases "connect_existing s st now (gc_reconnect_grace_ticks (tb_config t)) (tb_stats t)") auto
  with assms Some have "r = Inr rep" "tb_sessions t' = amap_write (tb_sessions t) c s'" "tb_config t' = tb_config t"
    by (auto simp: gateway_connect_def)
  with Some connect_existing_log [OF ce] show ?thesis
    by (auto simp: amap_get_write kept_def split: if_splits)
next
  case None
  then show ?thesis using assms
    by (auto simp: gateway_connect_def Let_def amap.get_put new_session_def restarted_def kept_def
        fresh_session_def split: if_splits)
qed

lemma reconnect_log:
  assumes "gateway_reconnect t c g now = (r, t')"
  shows "tb_config t' = tb_config t \<and>
    (\<forall>k s'. amap_get (tb_sessions t') k = Some s' \<longrightarrow>
       (if k = c \<and> fresh_session r then restarted s'
        else \<exists>s. amap_get (tb_sessions t) k = Some s \<and> kept s s'))"
proof (cases "amap_get (tb_sessions t) c")
  case (Some s)
  then show ?thesis using assms
    by (cases "gs_state s")
      (auto simp: gateway_reconnect_def Let_def amap_get_write restarted_def kept_def
        fresh_session_def split: if_splits)
qed (use assms in \<open>auto simp: gateway_reconnect_def kept_def fresh_session_def\<close>)

lemma reroute_log:
  assumes "gateway_reroute t c st now = (r, t')"
  shows "tb_config t' = tb_config t \<and>
    (\<forall>k s'. amap_get (tb_sessions t') k = Some s' \<longrightarrow> (\<exists>s. amap_get (tb_sessions t) k = Some s \<and> kept s s'))"
proof (cases "amap_get (tb_sessions t) c")
  case (Some s)
  then show ?thesis using assms
    by (cases "gs_state s")
      (auto simp: gateway_reroute_def Let_def amap_get_write kept_def split: if_splits)
qed (use assms in \<open>auto simp: gateway_reroute_def kept_def\<close>)

lemma disconnect_log:
  assumes "gateway_disconnect t c now = (r, t')"
  shows "tb_config t' = tb_config t \<and>
    (\<forall>k s'. amap_get (tb_sessions t') k = Some s' \<longrightarrow> (\<exists>s. amap_get (tb_sessions t) k = Some s \<and> kept s s'))"
proof -
  have "tb_config (compact_if_needed x) = tb_config x" "tb_sessions (compact_if_needed x) = tb_sessions x" for x
    by (simp_all add: compact_if_needed_def)
  then show ?thesis using assms
    by (auto simp: gateway_disconnect_def amap_get_write kept_def split: option.splits if_splits)
qed

lemma expire_log:
  assumes "expire_disconnected t now = (n, t')"
  shows "tb_config t' = tb_config t \<and>
    (\<forall>k s'. amap_get (tb_sessions t') k = Some s' \<longrightarrow> amap_get (tb_sessions t) k = Some s')"
proof -
  obtain t0 where t0: "expire_loop t now 0 = (n, t0)" "tb_sessions t' = tb_sessions t0"
    "tb_config t' = tb_config t0"
    using assms by (auto simp: expire_disconnected_def split: prod.splits)
  with expire_loop_spec [OF t0(1)] show ?thesis by (auto split: if_splits)
qed

lemma gateway_history_logged:
  assumes "gateway_history cfg t log" "gc_max_commands_per_tick cfg < usize_max"
  shows "tb_config t = cfg \<and>
    (\<forall>c s. amap_get (tb_sessions t) c = Some s \<longrightarrow> session_logged (gc_max_commands_per_tick cfg) s (log c))"
  using assms
proof (induction rule: gateway_history.induct)
  case hist_new
  show ?case by (simp add: table_new_def)
next
  case (hist_connect t log c st now r t')
  then show ?case using connect_log [OF hist_connect(2)]
    by (fastforce intro: session_logged_kept session_logged_restarted split: if_splits)
next
  case (hist_reconnect t log c g now r t')
  then show ?case using reconnect_log [OF hist_reconnect(2)]
    by (fastforce intro: session_logged_kept session_logged_restarted split: if_splits)
next
  case (hist_disconnect t log c now u t')
  then show ?case using disconnect_log [OF hist_disconnect(2)] by (fastforce intro: session_logged_kept)
next
  case (hist_expire t log now n t')
  then show ?case using expire_log [OF hist_expire(2)] by fastforce
next
  case (hist_reroute t log c st now rt t')
  then show ?case using reroute_log [OF hist_reroute(2)] by (fastforce intro: session_logged_kept)
next
  case (hist_admit t log c q now a t')
  obtain s where s: "amap_get (tb_sessions t) c = Some s" "\<forall>l. gs_last_sequence s = Some l \<longrightarrow> l < q"
    "usize_add (gs_commands_this_tick (tick_window s now)) 1 \<le> gc_max_commands_per_tick (tb_config t)"
    "tb_config t' = tb_config t" "tb_sessions t' = amap_write (tb_sessions t) c (admitted s q now)"
    using admit_Ok [OF hist_admit(2)] by blast
  have IH: "tb_config t = cfg" "session_logged (gc_max_commands_per_tick cfg) s (log c)"
    using hist_admit s(1) by auto
  have "session_logged (gc_max_commands_per_tick cfg) (admitted s q now) (log c @ [(q, now)])"
    by (rule session_logged_admit [OF IH(2) hist_admit(4) s(2)]) (use s(3) IH(1) in simp)
  then show ?case using hist_admit(3,4) s(4,5) by (auto simp: amap_get_write)
next
  case (hist_refuse t log c q now e t')
  have IH: "tb_config t = cfg" "\<And>c s. amap_get (tb_sessions t) c = Some s \<Longrightarrow>
      session_logged (gc_max_commands_per_tick cfg) s (log c)"
    using hist_refuse by auto
  from admit_Err [OF hist_refuse(2)] show ?case
  proof (elim conjE disjE exE)
    fix s assume s: "tb_config t' = tb_config t" "amap_get (tb_sessions t) c = Some s"
      "tb_sessions t' = amap_write (tb_sessions t) c (tick_window s now)"
      "usize_add (gs_commands_this_tick (tick_window s now)) 1 > gc_max_commands_per_tick (tb_config t)"
    have "session_logged (gc_max_commands_per_tick cfg) (tick_window s now) (log c)"
      by (rule session_logged_refuse [OF IH(2) [OF s(2)] hist_refuse(4)]) (use s(4) IH(1) in simp)
    with s IH show ?case by (auto simp: amap_get_write)
  qed (use IH in auto)
qed

section \<open>Properties\<close>

text \<open>Whatever the order of connects, reconnects, disconnects, expiry passes, reroutes and commands,
  the table never holds more sessions than its maximum and the deadline heap never more than twice
  that (at least two), although every disconnect pushes an entry and reconnects leave stale ones
  behind.\<close>

theorem gateway_table_bounded:
  assumes "gateway_step\<^sup>*\<^sup>* (table_new cfg) t" "gc_max_sessions cfg \<le> usize_max"
  shows "amap_len (tb_sessions t) \<le> gc_max_sessions (tb_config t) \<and>
    length (tb_deadlines t) \<le> usize_mul (max (gc_max_sessions (tb_config t)) 1) 2"
  using gateway_steps_wf [OF assms(1) table_new_wf [OF assms(2)]]
  by (simp add: table_wf_def deadline_limit_def)

definition demo_gateway_config :: gateway_config where
  "demo_gateway_config =
     \<lparr>gc_max_sessions = 1, gc_reconnect_grace_ticks = 5, gc_max_commands_per_tick = 2\<rparr>"

definition demo_table :: session_table where
  "demo_table = snd (gateway_connect (table_new demo_gateway_config) 7 1 10)"

definition demo_gone :: session_table where
  "demo_gone = snd (gateway_disconnect demo_table 7 11)"

lemma demo_table_step: "gateway_step (table_new demo_gateway_config) demo_table"
  unfolding demo_table_def by (rule gateway_step.intros(1), rule surjective_pairing)

lemma demo_gone_step: "gateway_step demo_table demo_gone"
  unfolding demo_gone_def by (rule gateway_step.intros(3), rule surjective_pairing)

lemma demo_gone_steps: "gateway_step\<^sup>*\<^sup>* (table_new demo_gateway_config) demo_gone"
  using demo_table_step demo_gone_step by (rule converse_rtranclp_into_rtranclp [OF _ r_into_rtranclp])

lemma demo_gone_wf: "table_wf demo_gone"
  by (rule gateway_steps_wf [OF demo_gone_steps table_new_wf])
    (simp add: demo_gateway_config_def usize_max_def)

lemma demo_gone_session:
  "amap_get (tb_sessions demo_gone) 7 =
     Some ((new_session 7 1 10)\<lparr>gs_last_seen := 11, gs_state := Disconnected 11\<rparr>)"
  "tb_config demo_gone = demo_gateway_config" "amap_len (tb_sessions demo_gone) = 1"
proof -
  have c: "tb_sessions (compact_if_needed x) = tb_sessions x" "tb_config (compact_if_needed x) = tb_config x" for x
    by (simp_all add: compact_if_needed_def)
  have d: "amap_get (tb_sessions demo_table) 7 = Some (new_session 7 1 10)"
    "tb_config demo_table = demo_gateway_config" "amap_len (tb_sessions demo_table) = 1"
    by (simp_all add: demo_table_def gateway_connect_def table_new_def demo_gateway_config_def amap.get_put
        amap.count_put Let_def)
  show "amap_get (tb_sessions demo_gone) 7 =
      Some ((new_session 7 1 10)\<lparr>gs_last_seen := 11, gs_state := Disconnected 11\<rparr>)"
    "tb_config demo_gone = demo_gateway_config" "amap_len (tb_sessions demo_gone) = 1"
    by (simp_all add: demo_gone_def gateway_disconnect_def d c amap_get_write amap_len_write)
qed

theorem gateway_table_bounded_witness:
  "amap_len (tb_sessions demo_gone) = 1 \<and> length (tb_deadlines demo_gone) \<le> 2"
  using gateway_table_bounded [OF demo_gone_steps] demo_gone_session(2,3)
  by (simp add: demo_gateway_config_def usize_mul_def usize_max_def)

text \<open>C9. The expiry pass, which only looks at the heap entries that are due, does what a scan of all
  sessions would do: it removes exactly the sessions that have been disconnected for longer than
  the grace window, keeps every other session unchanged, and returns the number removed. This
  holds in every reachable table at every tick before the last one.\<close>

theorem expiry_is_a_scan:
  assumes steps: "gateway_step\<^sup>*\<^sup>* (table_new cfg) t" and cfg: "gc_max_sessions cfg \<le> usize_max"
    and now: "now < - 1"
  shows "(\<forall>c. amap_get (tb_sessions (snd (expire_disconnected t now))) c =
      (case amap_get (tb_sessions t) c of
         None \<Rightarrow> None
       | Some s \<Rightarrow>
           (case gs_state s of
              Connected \<Rightarrow> Some s
            | Disconnected since \<Rightarrow>
                if sat_sub now since > gc_reconnect_grace_ticks (tb_config t) then None else Some s))) \<and>
    fst (expire_disconnected t now) + amap_len (tb_sessions (snd (expire_disconnected t now))) =
      amap_len (tb_sessions t)"
proof -
  have wf: "table_wf t" by (rule gateway_steps_wf [OF steps table_new_wf [OF cfg]])
  obtain n t' where e: "expire_disconnected t now = (n, t')" by (cases "expire_disconnected t now")
  note sc = expire_scan [OF wf now e]
  show ?thesis
    using sc(1,2) e by (auto simp: session_expired_def split: option.splits session_state.splits)
qed

theorem expiry_is_a_scan_witness:
  "fst (expire_disconnected demo_gone 16) = 0 \<and> fst (expire_disconnected demo_gone 17) = 1"
proof -
  have lt: "(16 :: u64) < - 1" "(17 :: u64) < - 1"
    by (simp_all add: word_less_nat_alt unat_minus_one)
  have cfg: "gc_max_sessions demo_gateway_config \<le> usize_max"
    by (simp add: demo_gateway_config_def usize_max_def)
  note 1 = expiry_is_a_scan [OF demo_gone_steps cfg lt(1)] and 2 = expiry_is_a_scan [OF demo_gone_steps cfg lt(2)]
  have "amap_get (tb_sessions (snd (expire_disconnected demo_gone 16))) 7 \<noteq> None"
    using 1 by (simp add: demo_gone_session demo_gateway_config_def sat_sub_def)
  then have "0 < amap_len (tb_sessions (snd (expire_disconnected demo_gone 16)))"
    by (rule amap.count_pos)
  then have a: "fst (expire_disconnected demo_gone 16) = 0" using 1 by (simp add: demo_gone_session)
  have only: "c = 7" if "amap_get (tb_sessions demo_gone) c \<noteq> None" for c
    using that by (auto simp: demo_gone_def gateway_disconnect_def demo_table_def gateway_connect_def
        compact_if_needed_def table_new_def demo_gateway_config_def amap_get_write amap.get_put Let_def
        split: if_splits option.splits)
  have "amap_get (tb_sessions (snd (expire_disconnected demo_gone 17))) c = None" for c
  proof (cases "amap_get (tb_sessions demo_gone) c")
    case None
    with 2 show ?thesis by simp
  next
    case (Some s)
    with only have "c = 7" by simp
    with 2 show ?thesis by (simp add: demo_gone_session demo_gateway_config_def sat_sub_def)
  qed
  then have "amap_len (tb_sessions (snd (expire_disconnected demo_gone 17))) = 0"
    by (intro amap_len_zero) blast
  then have "fst (expire_disconnected demo_gone 17) = 1" using 2 by (simp add: demo_gone_session)
  with a show ?thesis ..
qed

text \<open>C36. The commands a session accepts have strictly increasing sequence numbers, so none is ever
  accepted twice, and no more than the configured number are accepted in a row within one tick.
  The log restarts only when the session is created or replaced after its grace window.\<close>

theorem accepted_sequences_increase:
  assumes "gateway_history cfg t log" "gc_max_commands_per_tick cfg < usize_max"
    and "amap_get (tb_sessions t) c = Some s"
  shows "sorted_wrt (<) (map fst (log c)) \<and>
    length (takeWhile (\<lambda>e. snd e = snd (last (log c))) (rev (log c))) \<le> gc_max_commands_per_tick cfg"
proof -
  have l: "session_logged (gc_max_commands_per_tick cfg) s (log c)"
    using gateway_history_logged [OF assms(1,2)] assms(3) by blast
  show ?thesis
  proof (cases "log c = []")
    case False
    with l show ?thesis by (simp add: session_logged_def tick_run_def)
  qed (use l in \<open>simp add: session_logged_def\<close>)
qed

lemma demo_admit:
  "\<exists>a t' s. admit_sequence demo_table 7 3 10 = (Inr a, t') \<and> amap_get (tb_sessions t') 7 = Some s"
  by (simp add: admit_sequence_def demo_table_def gateway_connect_def table_new_def demo_gateway_config_def
      amap.get_put Let_def new_session_def tick_window_def usize_add_def usize_max_def amap_get_write)

theorem accepted_sequences_increase_witness:
  "\<exists>t log. gateway_history demo_gateway_config t log \<and> map fst (log 7) = [3] \<and>
     sorted_wrt (<) (map fst (log 7))"
proof -
  obtain a t' s where adm: "admit_sequence demo_table 7 3 10 = (Inr a, t')"
    "amap_get (tb_sessions t') 7 = Some s" using demo_admit by blast
  have "gateway_history demo_gateway_config demo_table
      (if fresh_session (fst (gateway_connect (table_new demo_gateway_config) 7 1 10)) then (\<lambda>_. [])(7 := []) else (\<lambda>_. []))"
    unfolding demo_table_def by (rule hist_connect [OF hist_new]) (rule surjective_pairing)
  then have "gateway_history demo_gateway_config demo_table (\<lambda>_. [])" by (simp split: if_splits add: fun_upd_idem)
  from hist_admit [OF this adm(1)]
  have h: "gateway_history demo_gateway_config t' ((\<lambda>_. [])(7 := [(3, 10)]))" by simp
  have "gc_max_commands_per_tick demo_gateway_config < usize_max"
    by (simp add: demo_gateway_config_def usize_max_def)
  from accepted_sequences_increase [OF h this adm(2)] h show ?thesis
    by (intro exI [of _ t'] exI [of _ "(\<lambda>_. [])(7 := [(3, 10)])"]) simp
qed

end
