(* ===== verification/Replication_Tracker.thy ===== *)
theory Replication_Tracker
  imports Adaptive_Map Entities "HOL-Library.Product_Lexorder"
begin

text \<open>
  The bounded send and acknowledgement tracker (\<open>crates/sectorsync-core/src/replication.rs\<close>, lines
  17 to 97 and 435 to 684): per client and entity, when the entity was last sent and last
  acknowledged. Its records live in the size-adaptive map, reached through the \<open>keyed_map\<close> contract.
  The code keeps the key inside the record as well; the invariant shows that they agree.
\<close>

section \<open>Retaining entries of an adaptive map\<close>

definition amap_retain :: "('k \<Rightarrow> 'v \<Rightarrow> bool) \<Rightarrow> ('k, 'v) adaptive_map \<Rightarrow> ('k, 'v) adaptive_map" where
  "amap_retain keep m =
     (case m of
        Ordered e \<Rightarrow> Ordered (fmfilter (\<lambda>k. keep k (the (fmlookup e k))) e)
      | Hashed e \<Rightarrow> Hashed (fmfilter (\<lambda>k. keep k (the (fmlookup e k))) e))"

lemma amap_get_retain:
  "amap_get (amap_retain keep m) k =
     (case amap_get m k of Some v \<Rightarrow> if keep k v then Some v else None | None \<Rightarrow> None)"
  by (auto simp: amap_retain_def amap_get_def split: adaptive_map.splits option.splits)

lemma amap_len_retain: "amap_len (amap_retain keep m) \<le> amap_len m"
proof -
  have "map_len (fmfilter P e) \<le> map_len e" for P and e :: "('a, 'b) fmap"
    unfolding fmdom_filter by (rule fcard_mono) auto
  then show ?thesis by (simp add: amap_retain_def amap_len_def split: adaptive_map.splits)
qed

lemma amap_len_card: "amap_len m = card {k. amap_get m k \<noteq> None}"
proof -
  have "fset (fmdom (amap_entries m)) = {k. amap_get m k \<noteq> None}"
    by (auto simp: amap_get_entries fmlookup_dom_iff)
  then show ?thesis by (simp add: amap_len_entries fcard.rep_eq)
qed

lemma amap_finite: "finite {k. amap_get m k \<noteq> None}"
proof -
  have "{k. amap_get m k \<noteq> None} = fset (fmdom (amap_entries m))"
    by (auto simp: amap_get_entries fmlookup_dom_iff)
  then show ?thesis by simp
qed

section \<open>The tracker\<close>

definition HASHED_REPLICATION_TRACKER_MIN_ENTRIES :: usize where
  "HASHED_REPLICATION_TRACKER_MIN_ENTRIES = 2048"

record tracker_config =
  tc_max_entries :: usize

definition default_tracker_config :: tracker_config where
  "default_tracker_config = \<lparr>tc_max_entries = 65536\<rparr>"

text \<open>The key, client first; the derived order is the lexicographic one.\<close>

type_synonym track_key = "client_id \<times> entity_handle"

record track_record =
  tr_client_id :: client_id
  tr_entity :: entity_handle
  tr_last_sent :: tick
  tr_last_acked :: "tick option"

record tracker_stats =
  ts_entries :: usize
  ts_sent_records :: usize
  ts_acked_records :: usize
  ts_pruned_records :: usize

datatype tracker_error = TrackerCapacityExceeded usize usize usize

record replication_tracker =
  rt_config :: tracker_config
  rt_records :: "(track_key, track_record) adaptive_map"
  rt_stats :: tracker_stats

definition tracker_new :: "tracker_config \<Rightarrow> replication_tracker" where
  "tracker_new cfg =
     \<lparr>rt_config = cfg, rt_records = amap_new,
      rt_stats = \<lparr>ts_entries = 0, ts_sent_records = 0, ts_acked_records = 0, ts_pruned_records = 0\<rparr>\<rparr>"

definition tracker_len :: "replication_tracker \<Rightarrow> usize" where
  "tracker_len t = amap_len (rt_records t)"

definition tracker_get :: "replication_tracker \<Rightarrow> client_id \<Rightarrow> entity_handle \<Rightarrow> track_record option" where
  "tracker_get t c h = amap_get (rt_records t) (c, h)"

definition tracker_last_sent :: "replication_tracker \<Rightarrow> client_id \<Rightarrow> entity_handle \<Rightarrow> tick option" where
  "tracker_last_sent t c h = map_option tr_last_sent (amap_get (rt_records t) (c, h))"

fun count_needed :: "replication_tracker \<Rightarrow> client_id \<Rightarrow> entity_handle list \<Rightarrow> usize \<Rightarrow> usize" where
  "count_needed t c [] needed = needed"
| "count_needed t c (h # hs) needed =
     count_needed t c hs (if amap_get (rt_records t) (c, h) = None then usize_add needed 1 else needed)"

definition ensure_capacity_for ::
  "replication_tracker \<Rightarrow> client_id \<Rightarrow> entity_handle list \<Rightarrow> tracker_error + unit" where
  "ensure_capacity_for t c hs =
     (if usize_add (amap_len (rt_records t)) (length hs) \<le> tc_max_entries (rt_config t) then Ok ()
      else
        let needed = count_needed t c hs 0 in
        if usize_add (amap_len (rt_records t)) needed > tc_max_entries (rt_config t)
        then Err (TrackerCapacityExceeded (amap_len (rt_records t)) needed (tc_max_entries (rt_config t)))
        else Ok ())"

definition refresh_entry_count :: "replication_tracker \<Rightarrow> replication_tracker" where
  "refresh_entry_count t = t\<lparr>rt_stats := (rt_stats t)\<lparr>ts_entries := amap_len (rt_records t)\<rparr>\<rparr>"

fun record_entities ::
  "client_id \<Rightarrow> tick \<Rightarrow> entity_handle list \<Rightarrow> usize \<Rightarrow> replication_tracker \<Rightarrow> usize \<times> replication_tracker" where
  "record_entities c sent_at [] recorded t = (recorded, t)"
| "record_entities c sent_at (h # hs) recorded t =
     record_entities c sent_at hs (recorded + 1)
       (t\<lparr>rt_records := snd (amap_insert HASHED_REPLICATION_TRACKER_MIN_ENTRIES (rt_records t) (c, h)
            \<lparr>tr_client_id = c, tr_entity = h, tr_last_sent = sent_at, tr_last_acked = None\<rparr>)\<rparr>)"

text \<open>Only the entities of the plan matter.\<close>

definition record_plan_sent ::
  "replication_tracker \<Rightarrow> client_id \<Rightarrow> entity_handle list \<Rightarrow> tick \<Rightarrow>
   (tracker_error + usize) \<times> replication_tracker" where
  "record_plan_sent t c hs sent_at =
     (case ensure_capacity_for t c hs of
        Inl e \<Rightarrow> (Err e, t)
      | Inr _ \<Rightarrow>
          (case record_entities c sent_at hs 0 t of
             (recorded, t) \<Rightarrow>
               let t = refresh_entry_count t
               in (Ok recorded,
                   t\<lparr>rt_stats := (rt_stats t)\<lparr>ts_sent_records := usize_add (ts_sent_records (rt_stats t)) recorded\<rparr>\<rparr>)))"

definition tracker_acknowledge ::
  "replication_tracker \<Rightarrow> client_id \<Rightarrow> entity_handle \<Rightarrow> tick \<Rightarrow> bool \<times> replication_tracker" where
  "tracker_acknowledge t c h acked_at =
     (case amap_get (rt_records t) (c, h) of
        None \<Rightarrow> (False, t)
      | Some r \<Rightarrow>
          (True, t\<lparr>rt_records := amap_write (rt_records t) (c, h) (r\<lparr>tr_last_acked := Some acked_at\<rparr>),
                   rt_stats := (rt_stats t)\<lparr>ts_acked_records := usize_add (ts_acked_records (rt_stats t)) 1\<rparr>\<rparr>))"

fun acknowledge_plan ::
  "replication_tracker \<Rightarrow> client_id \<Rightarrow> entity_handle list \<Rightarrow> tick \<Rightarrow> usize \<times> replication_tracker" where
  "acknowledge_plan t c [] acked_at = (0, t)"
| "acknowledge_plan t c (h # hs) acked_at =
     (case tracker_acknowledge t c h acked_at of (hit, t) \<Rightarrow>
      case acknowledge_plan t c hs acked_at of (n, t) \<Rightarrow> ((if hit then n + 1 else n), t))"

definition prune_records ::
  "replication_tracker \<Rightarrow> (track_key \<Rightarrow> track_record \<Rightarrow> bool) \<Rightarrow> usize \<times> replication_tracker" where
  "prune_records t keep =
     (let before = amap_len (rt_records t);
          t = t\<lparr>rt_records := amap_retain keep (rt_records t)\<rparr>;
          pruned = before - amap_len (rt_records t);
          t = t\<lparr>rt_stats := (rt_stats t)\<lparr>ts_pruned_records := usize_add (ts_pruned_records (rt_stats t)) pruned\<rparr>\<rparr>
      in (pruned, refresh_entry_count t))"

definition tracker_clear_client :: "replication_tracker \<Rightarrow> client_id \<Rightarrow> usize \<times> replication_tracker" where
  "tracker_clear_client t c = prune_records t (\<lambda>key _. fst key \<noteq> c)"

definition prune_sent_before :: "replication_tracker \<Rightarrow> tick \<Rightarrow> usize \<times> replication_tracker" where
  "prune_sent_before t older_than = prune_records t (\<lambda>_ r. tr_last_sent r \<ge> older_than)"

section \<open>Effects on the record map\<close>

lemma count_needed_length:
  "n + length hs \<le> usize_max \<Longrightarrow>
   count_needed t c hs n = n + length (filter (\<lambda>h. amap_get (rt_records t) (c, h) = None) hs)"
  by (induction hs arbitrary: n) (auto simp: usize_add_small)

lemma record_entities_frame:
  "rt_config (snd (record_entities c at hs n t)) = rt_config t"
  "rt_stats (snd (record_entities c at hs n t)) = rt_stats t"
  "fst (record_entities c at hs n t) = n + length hs"
  by (induction c at hs n t rule: record_entities.induct) auto

lemma record_entities_get:
  "amap_get (rt_records (snd (record_entities c at hs n t))) (c', h') =
     (if c' = c \<and> h' \<in> set hs
      then Some \<lparr>tr_client_id = c, tr_entity = h', tr_last_sent = at, tr_last_acked = None\<rparr>
      else amap_get (rt_records t) (c', h'))"
  by (induction c at hs n t rule: record_entities.induct) (auto simp: amap.get_put)

lemma record_entities_len:
  "amap_len (rt_records (snd (record_entities c at hs n t))) =
     amap_len (rt_records t) + card {h \<in> set hs. amap_get (rt_records t) (c, h) = None}"
proof (induction c at hs n t rule: record_entities.induct)
  case (2 c sent_at h hs recorded t)
  let ?t = "t\<lparr>rt_records := snd (amap_insert HASHED_REPLICATION_TRACKER_MIN_ENTRIES (rt_records t) (c, h)
      \<lparr>tr_client_id = c, tr_entity = h, tr_last_sent = sent_at, tr_last_acked = None\<rparr>)\<rparr>"
  let ?fresh = "\<lambda>t hs. {k \<in> set hs. amap_get (rt_records t) (c, k) = None}"
  have new: "?fresh ?t hs = ?fresh t hs - {h}" by (auto simp: amap.get_put)
  have len: "amap_len (rt_records ?t) = (if amap_get (rt_records t) (c, h) = None
      then Suc (amap_len (rt_records t)) else amap_len (rt_records t))"
    by (simp add: amap.count_put)
  show ?case
  proof (cases "amap_get (rt_records t) (c, h) = None")
    case True
    then have eq: "?fresh t (h # hs) = insert h (?fresh t hs - {h})" by auto
    have "card (?fresh t (h # hs)) = Suc (card (?fresh t hs - {h}))"
      unfolding eq by (rule card_insert_disjoint) auto
    then show ?thesis using 2 True unfolding new len by simp
  next
    case False
    then have "?fresh t (h # hs) = ?fresh t hs - {h}" by auto
    then show ?thesis using 2 False unfolding new len by simp
  qed
qed simp

definition tracker_wf :: "replication_tracker \<Rightarrow> bool" where
  "tracker_wf t \<longleftrightarrow>
     amap_len (rt_records t) \<le> tc_max_entries (rt_config t) \<and>
     ts_entries (rt_stats t) = amap_len (rt_records t) \<and>
     (\<forall>c h r. amap_get (rt_records t) (c, h) = Some r \<longrightarrow> tr_client_id r = c \<and> tr_entity r = h)"

lemma tracker_wfD:
  assumes "tracker_wf t"
  shows "amap_len (rt_records t) \<le> tc_max_entries (rt_config t)"
    "ts_entries (rt_stats t) = amap_len (rt_records t)"
    "amap_get (rt_records t) (c, h) = Some r \<Longrightarrow> tr_client_id r = c \<and> tr_entity r = h"
  using assms by (simp_all add: tracker_wf_def)

lemma card_filter_le: "card {h \<in> set hs. P h} \<le> length (filter P hs)"
  by (metis card_length set_filter)

lemma ensure_capacity_Ok:
  assumes "ensure_capacity_for t c hs = Ok ()" "length hs \<le> usize_max" "tc_max_entries (rt_config t) < usize_max"
  shows "amap_len (rt_records t) + card {h \<in> set hs. amap_get (rt_records t) (c, h) = None} \<le> tc_max_entries (rt_config t)"
proof -
  let ?new = "filter (\<lambda>h. amap_get (rt_records t) (c, h) = None) hs"
  have card: "card {h \<in> set hs. amap_get (rt_records t) (c, h) = None} \<le> length ?new"
    by (rule card_filter_le)
  have needed: "count_needed t c hs 0 = length ?new" using assms(2) count_needed_length [of 0 hs t c] by simp
  have exact: "usize_add a b \<le> tc_max_entries (rt_config t) \<Longrightarrow> a + b \<le> tc_max_entries (rt_config t)" for a b
    using assms(3) by (auto simp: usize_add_def min_def split: if_splits)
  show ?thesis
  proof (cases "usize_add (amap_len (rt_records t)) (length hs) \<le> tc_max_entries (rt_config t)")
    case True
    then show ?thesis using exact [OF True] card length_filter_le [of "\<lambda>h. amap_get (rt_records t) (c, h) = None" hs] by linarith
  next
    case False
    then have "usize_add (amap_len (rt_records t)) (length ?new) \<le> tc_max_entries (rt_config t)"
      using assms(1) by (auto simp: ensure_capacity_for_def Let_def needed split: if_splits)
    from exact [OF this] card show ?thesis by linarith
  qed
qed

lemma record_plan_sent_result:
  assumes "ensure_capacity_for t c hs = Ok ()"
  shows "fst (record_plan_sent t c hs at) = Ok (length hs)"
    "rt_records (snd (record_plan_sent t c hs at)) = rt_records (snd (record_entities c at hs 0 t))"
    "rt_config (snd (record_plan_sent t c hs at)) = rt_config t"
    "ts_entries (rt_stats (snd (record_plan_sent t c hs at))) = amap_len (rt_records (snd (record_plan_sent t c hs at)))"
  using assms record_entities_frame [of c at hs 0 t]
  by (auto simp: record_plan_sent_def refresh_entry_count_def Let_def split: prod.splits)

lemma record_plan_sent_wf:
  assumes "tracker_wf t" "length hs \<le> usize_max" "tc_max_entries (rt_config t) < usize_max"
  shows "tracker_wf (snd (record_plan_sent t c hs at)) \<and> rt_config (snd (record_plan_sent t c hs at)) = rt_config t"
proof (cases "ensure_capacity_for t c hs")
  case (Inr u)
  then have ok: "ensure_capacity_for t c hs = Ok ()" by simp
  note res = record_plan_sent_result [OF ok, of at]
  have "amap_len (rt_records (snd (record_plan_sent t c hs at))) \<le> tc_max_entries (rt_config t)"
    unfolding res(2) record_entities_len using ensure_capacity_Ok [OF ok assms(2,3)] .
  moreover have "tr_client_id r = c' \<and> tr_entity r = h'"
    if "amap_get (rt_records (snd (record_plan_sent t c hs at))) (c', h') = Some r" for c' h' r
    using that tracker_wfD(3) [OF assms(1)] unfolding res(2)
    by (auto simp: record_entities_get split: if_splits)
  ultimately show ?thesis using res(3,4) unfolding tracker_wf_def by metis
qed (use assms(1) in \<open>simp add: record_plan_sent_def\<close>)

lemma tracker_acknowledge_wf:
  "tracker_wf t \<Longrightarrow> tracker_wf (snd (tracker_acknowledge t c h at)) \<and>
     rt_config (snd (tracker_acknowledge t c h at)) = rt_config t"
  by (auto simp: tracker_acknowledge_def tracker_wf_def amap_get_write amap_len_write split: option.splits if_splits)

lemma acknowledge_plan_wf:
  "tracker_wf t \<Longrightarrow> tracker_wf (snd (acknowledge_plan t c hs at)) \<and>
     rt_config (snd (acknowledge_plan t c hs at)) = rt_config t"
proof (induction hs arbitrary: t)
  case (Cons h hs)
  then show ?case using tracker_acknowledge_wf [of t c h at] by (fastforce split: prod.splits)
qed simp

lemma prune_records_result:
  "amap_get (rt_records (snd (prune_records t keep))) k =
     (case amap_get (rt_records t) k of Some r \<Rightarrow> if keep k r then Some r else None | None \<Rightarrow> None)"
  "fst (prune_records t keep) = amap_len (rt_records t) - amap_len (rt_records (snd (prune_records t keep)))"
  "rt_config (snd (prune_records t keep)) = rt_config t"
  "ts_entries (rt_stats (snd (prune_records t keep))) = amap_len (rt_records (snd (prune_records t keep)))"
  "amap_len (rt_records (snd (prune_records t keep))) \<le> amap_len (rt_records t)"
  by (simp_all add: prune_records_def refresh_entry_count_def Let_def amap_get_retain amap_len_retain)

lemma prune_records_wf:
  assumes "tracker_wf t"
  shows "tracker_wf (snd (prune_records t keep)) \<and> rt_config (snd (prune_records t keep)) = rt_config t"
proof -
  have "tr_client_id r = c \<and> tr_entity r = h" if "amap_get (rt_records (snd (prune_records t keep))) (c, h) = Some r" for c h r
    using that tracker_wfD(3) [OF assms] by (auto simp: prune_records_result(1) split: option.splits if_splits)
  then show ?thesis
    using tracker_wfD(1,2) [OF assms] prune_records_result(3-5) [of t keep]
    unfolding tracker_wf_def by (metis le_trans)
qed

section \<open>Histories\<close>

inductive tracker_reachable :: "tracker_config \<Rightarrow> replication_tracker \<Rightarrow> bool" for cfg where
  tracker_start: "tracker_reachable cfg (tracker_new cfg)"
| tracker_sent: "tracker_reachable cfg t \<Longrightarrow> length hs \<le> usize_max \<Longrightarrow>
    tracker_reachable cfg (snd (record_plan_sent t c hs at))"
| tracker_acked: "tracker_reachable cfg t \<Longrightarrow> tracker_reachable cfg (snd (tracker_acknowledge t c h at))"
| tracker_acked_plan: "tracker_reachable cfg t \<Longrightarrow> tracker_reachable cfg (snd (acknowledge_plan t c hs at))"
| tracker_cleared: "tracker_reachable cfg t \<Longrightarrow> tracker_reachable cfg (snd (tracker_clear_client t c))"
| tracker_pruned: "tracker_reachable cfg t \<Longrightarrow> tracker_reachable cfg (snd (prune_sent_before t older))"

lemma tracker_reachable_wf:
  assumes "tracker_reachable cfg t" "tc_max_entries cfg < usize_max"
  shows "tracker_wf t \<and> rt_config t = cfg"
  using assms(1)
proof induction
  case tracker_start
  show ?case by (simp add: tracker_wf_def tracker_new_def)
next
  case (tracker_sent t hs c at)
  then show ?case using record_plan_sent_wf [of t hs c at] assms(2) by simp
next
  case (tracker_acked t c h at)
  then show ?case using tracker_acknowledge_wf [of t c h at] by simp
next
  case (tracker_acked_plan t c hs at)
  then show ?case using acknowledge_plan_wf [of t c hs at] by simp
next
  case (tracker_cleared t c)
  then show ?case using prune_records_wf [of t] by (simp add: tracker_clear_client_def)
next
  case (tracker_pruned t older)
  then show ?case using prune_records_wf [of t] by (simp add: prune_sent_before_def)
qed

lemma ensure_capacity_distinct:
  assumes "distinct hs" "length hs \<le> usize_max" "tc_max_entries (rt_config t) < usize_max"
  shows "ensure_capacity_for t c hs = Ok () \<longleftrightarrow>
    amap_len (rt_records t) + card {h \<in> set hs. amap_get (rt_records t) (c, h) = None} \<le> tc_max_entries (rt_config t)"
proof -
  let ?new = "filter (\<lambda>h. amap_get (rt_records t) (c, h) = None) hs"
  have needed: "count_needed t c hs 0 = length ?new" using assms(2) count_needed_length [of 0 hs t c] by simp
  have card: "card {h \<in> set hs. amap_get (rt_records t) (c, h) = None} = length ?new"
    using distinct_card [of ?new] assms(1) by simp
  have le: "usize_add a b \<le> tc_max_entries (rt_config t) \<longleftrightarrow> a + b \<le> tc_max_entries (rt_config t)" for a b
    using assms(3) by (auto simp: usize_add_def min_def)
  have "length ?new \<le> length hs" by (rule length_filter_le)
  then have "amap_len (rt_records t) + length hs \<le> tc_max_entries (rt_config t) \<Longrightarrow>
      amap_len (rt_records t) + length ?new \<le> tc_max_entries (rt_config t)" by linarith
  then show ?thesis
    unfolding card by (auto simp: ensure_capacity_for_def Let_def needed le not_le [symmetric] split: if_splits)
qed

lemma acknowledge_get:
  "amap_get (rt_records (snd (tracker_acknowledge t c h at))) (c', h') =
     (if c' = c \<and> h' = h then map_option (tr_last_acked_update (\<lambda>_. Some at)) (amap_get (rt_records t) (c, h))
      else amap_get (rt_records t) (c', h'))"
  "fst (tracker_acknowledge t c h at) \<longleftrightarrow> amap_get (rt_records t) (c, h) \<noteq> None"
  by (auto simp: tracker_acknowledge_def amap_get_write split: option.splits)

lemma acknowledge_plan_get:
  "amap_get (rt_records (snd (acknowledge_plan t c hs at))) (c', h') =
     (if c' = c \<and> h' \<in> set hs then map_option (tr_last_acked_update (\<lambda>_. Some at)) (amap_get (rt_records t) (c', h'))
      else amap_get (rt_records t) (c', h'))"
proof (induction hs arbitrary: t)
  case (Cons h hs)
  obtain hit u where ack: "tracker_acknowledge t c h at = (hit, u)" by fastforce
  have u: "amap_get (rt_records u) (a, b) =
      (if a = c \<and> b = h then map_option (tr_last_acked_update (\<lambda>_. Some at)) (amap_get (rt_records t) (c, h))
       else amap_get (rt_records t) (a, b))" for a b
    using acknowledge_get(1) [of t c h at a b] by (simp add: ack)
  have "snd (acknowledge_plan t c (h # hs) at) = snd (acknowledge_plan u c hs at)"
    by (simp add: ack split: prod.splits)
  then show ?case
    by (auto simp: Cons.IH u option.map_comp comp_def simp del: acknowledge_plan.simps)
qed simp

text \<open>C31. Whatever the history, the tracker holds at most its configured number of records and its
  entry counter is exact. Recording a plan is all or nothing: when the plan's new entities do not fit,
  nothing changes, otherwise each listed entity has a fresh unacknowledged record and nothing else
  changes. Acknowledging marks exactly the listed existing records; pruning and clearing keep exactly
  the recent records, or the other clients'.\<close>

theorem tracker_bounded_exact:
  assumes "tracker_reachable cfg t" "tc_max_entries cfg < usize_max" "length hs \<le> usize_max"
  shows "tracker_len t \<le> tc_max_entries cfg \<and> ts_entries (rt_stats t) = tracker_len t \<and>
    (\<forall>e. fst (record_plan_sent t c hs at) = Err e \<longrightarrow> snd (record_plan_sent t c hs at) = t) \<and>
    (\<forall>n. fst (record_plan_sent t c hs at) = Ok n \<longrightarrow> n = length hs \<and>
       (\<forall>c' h. tracker_get (snd (record_plan_sent t c hs at)) c' h =
          (if c' = c \<and> h \<in> set hs
           then Some \<lparr>tr_client_id = c, tr_entity = h, tr_last_sent = at, tr_last_acked = None\<rparr>
           else tracker_get t c' h))) \<and>
    (distinct hs \<longrightarrow> (is_ok (fst (record_plan_sent t c hs at)) \<longleftrightarrow>
       tracker_len t + card {h \<in> set hs. tracker_get t c h = None} \<le> tc_max_entries cfg)) \<and>
    (\<forall>c' h. tracker_get (snd (acknowledge_plan t c hs at)) c' h =
       (if c' = c \<and> h \<in> set hs then map_option (tr_last_acked_update (\<lambda>_. Some at)) (tracker_get t c' h)
        else tracker_get t c' h)) \<and>
    (\<forall>c' h. tracker_get (snd (prune_sent_before t older)) c' h =
       (case tracker_get t c' h of Some r \<Rightarrow> if older \<le> tr_last_sent r then Some r else None | None \<Rightarrow> None)) \<and>
    (\<forall>c' h. tracker_get (snd (tracker_clear_client t c)) c' h = (if c' = c then None else tracker_get t c' h))"
proof -
  have wf: "tracker_wf t" and cfg: "rt_config t = cfg" using tracker_reachable_wf [OF assms(1,2)] by simp_all
  show ?thesis
  proof (intro conjI allI impI)
    show "tracker_len t \<le> tc_max_entries cfg" "ts_entries (rt_stats t) = tracker_len t"
      using tracker_wfD(1,2) [OF wf] cfg by (simp_all add: tracker_len_def)
    show "snd (record_plan_sent t c hs at) = t" if "fst (record_plan_sent t c hs at) = Err e" for e
      using that by (auto simp: record_plan_sent_def Let_def split: sum.splits prod.splits)
    show "n = length hs" if "fst (record_plan_sent t c hs at) = Ok n" for n
      using that record_entities_frame(3) [of c at hs 0 t]
      by (auto simp: record_plan_sent_def Let_def split: sum.splits prod.splits)
    show "tracker_get (snd (record_plan_sent t c hs at)) c' h =
        (if c' = c \<and> h \<in> set hs
         then Some \<lparr>tr_client_id = c, tr_entity = h, tr_last_sent = at, tr_last_acked = None\<rparr>
         else tracker_get t c' h)" if ok: "fst (record_plan_sent t c hs at) = Ok n" for n c' h
    proof -
      have "ensure_capacity_for t c hs = Ok ()" using ok by (auto simp: record_plan_sent_def split: sum.splits)
      note res = record_plan_sent_result(2) [OF this, of at]
      show ?thesis unfolding tracker_get_def res record_entities_get by simp
    qed
    show "is_ok (fst (record_plan_sent t c hs at)) \<longleftrightarrow>
        tracker_len t + card {h \<in> set hs. tracker_get t c h = None} \<le> tc_max_entries cfg" if "distinct hs"
    proof -
      have "is_ok (fst (record_plan_sent t c hs at)) \<longleftrightarrow> ensure_capacity_for t c hs = Ok ()"
        by (auto simp: record_plan_sent_def Let_def split: sum.splits prod.splits)
      then show ?thesis using ensure_capacity_distinct [OF that assms(3), of t c] assms(2) cfg
        by (simp add: tracker_len_def tracker_get_def)
    qed
  qed (auto simp: tracker_get_def acknowledge_plan_get prune_sent_before_def tracker_clear_client_def
      prune_records_result(1) split: option.splits)
qed

lemma default_tracker_small: "tc_max_entries default_tracker_config < usize_max"
  by (simp add: default_tracker_config_def usize_max_def)

theorem tracker_bounded_exact_witness:
  "tracker_get (snd (acknowledge_plan (tracker_new default_tracker_config) 3 [EntityHandle 1 0] 5)) 4 (EntityHandle 1 0) = None \<and>
   is_ok (fst (record_plan_sent (tracker_new default_tracker_config) 3 [EntityHandle 1 0] 5))"
  using tracker_bounded_exact [OF tracker_start [of default_tracker_config] default_tracker_small,
      of "[EntityHandle 1 0]" 3 5 0]
  by (auto simp: tracker_len_def tracker_get_def tracker_new_def default_tracker_config_def usize_max_def)

end
