(* ===== verification/Float32_Order.thy ===== *)
theory Float32_Order
  imports Float32
begin

text \<open>
  Order properties of the float operations beyond those the spatial grid needs: addition,
  subtraction, scaling by a non-negative factor, division by a positive one, rounding and clamping
  never reverse the order of their arguments, and small integers are represented exactly. The
  cadence, the priority score and the load scores rest on them.
\<close>

lemma f32_le_units:
  assumes "f32_is_finite x" "f32_is_finite y"
  shows "f32_le x y \<longleftrightarrow> f32_units x \<le> f32_units y"
  using assms by (simp add: f32_le_def f32_units_le_iff f32_finite_simps)

lemma f32_le_not_nan: "f32_le x y \<Longrightarrow> \<not> f32_is_nan x \<and> \<not> f32_is_nan y"
  by (simp add: f32_le_def)

lemma f32_le_key: "f32_le x y \<longleftrightarrow> \<not> f32_is_nan x \<and> \<not> f32_is_nan y \<and> f32_key x \<le> f32_key y"
  by (simp add: f32_le_def)

lemma f32_add_finite:
  assumes "f32_is_finite x" "f32_is_finite y"
  shows "f32_add x y = f32_of_frac (f32_sign x \<and> f32_sign y) (f32_units x + f32_units y) 1"
  using assms by (simp add: f32_add_def f32_finite_simps)

lemma f32_mul_finite:
  assumes "f32_is_finite x" "f32_is_finite y"
  shows "f32_mul x y = f32_of_frac (f32_sign x \<noteq> f32_sign y) (f32_units x * f32_units y) (2 ^ 149)"
  using assms by (simp add: f32_mul_def Let_def f32_finite_simps)

lemma f32_of_frac_le:
  assumes "0 < d" "0 < e" "i * int e \<le> j * int d"
  shows "f32_le (f32_of_frac y i d) (f32_of_frac z j e)"
  using f32_of_frac_mono [OF assms] by (simp add: f32_le_def)

lemma f32_add_mono:
  assumes "f32_is_finite x" "f32_is_finite y" "f32_is_finite c" "f32_le x y"
  shows "f32_le (f32_add c x) (f32_add c y)"
  using assms by (simp add: f32_add_finite f32_le_units f32_of_frac_le)

lemma f32_sub_antimono:
  assumes "f32_is_finite x" "f32_is_finite y" "f32_is_finite c" "f32_le x y"
  shows "f32_le (f32_sub c y) (f32_sub c x)"
  using assms by (simp add: f32_sub_def f32_add_finite f32_le_units f32_of_frac_le)

lemma f32_mul_mono:
  assumes "f32_is_finite x" "f32_is_finite y" "f32_is_finite c" "0 \<le> f32_units c" "f32_le x y"
  shows "f32_le (f32_mul c x) (f32_mul c y)"
  using assms by (simp add: f32_mul_finite f32_le_units f32_of_frac_le mult_left_mono)

lemma f32_div_mono:
  assumes "f32_is_finite x" "f32_is_finite y" "f32_is_finite c" "f32_positive c" "f32_le x y"
  shows "f32_le (f32_div x c) (f32_div y c)"
proof -
  have pos: "0 < f32_units c" using assms(4) by (rule f32_units_pos)
  have nz: "\<not> f32_is_zero c" using assms(4) by (simp add: f32_positive_def)
  show ?thesis
    using assms pos nz
    by (simp add: f32_div_def Let_def f32_finite_simps f32_le_units f32_of_frac_le mult_right_mono)
qed

lemma f32_clamp_key:
  assumes "\<not> f32_is_nan x" "\<not> f32_is_nan lo" "\<not> f32_is_nan hi" "f32_key lo \<le> f32_key hi"
  shows "f32_key (f32_clamp x lo hi) = min (f32_key hi) (max (f32_key lo) (f32_key x))"
    "\<not> f32_is_nan (f32_clamp x lo hi)"
  using assms by (auto simp: f32_clamp_def Let_def f32_lt_def min_def max_def)

lemma f32_clamp_mono:
  assumes "f32_le x y" "f32_le lo hi"
  shows "f32_le (f32_clamp x lo hi) (f32_clamp y lo hi)"
proof -
  have "\<not> f32_is_nan x" "\<not> f32_is_nan y" "\<not> f32_is_nan lo" "\<not> f32_is_nan hi" "f32_key lo \<le> f32_key hi"
    "f32_key x \<le> f32_key y"
    using assms by (simp_all add: f32_le_def)
  then show ?thesis by (simp add: f32_le_key f32_clamp_key)
qed

lemma f32_clamp_bounds:
  assumes "\<not> f32_is_nan x" "f32_le lo hi"
  shows "f32_le lo (f32_clamp x lo hi)" "f32_le (f32_clamp x lo hi) hi"
proof -
  have "\<not> f32_is_nan lo" "\<not> f32_is_nan hi" "f32_key lo \<le> f32_key hi" using assms by (simp_all add: f32_le_def)
  then show "f32_le lo (f32_clamp x lo hi)" "f32_le (f32_clamp x lo hi) hi"
    using assms(1) by (simp_all add: f32_le_key f32_clamp_key)
qed

lemma f32_between_finite:
  assumes "f32_le a x" "f32_le x b" "f32_is_finite a" "f32_is_finite b"
  shows "f32_is_finite x"
proof -
  have nn: "\<not> f32_is_nan x" and ab: "f32_key a \<le> f32_key x" "f32_key x \<le> f32_key b" "\<bar>f32_key a\<bar> < int inf_mag"
    "\<bar>f32_key b\<bar> < int inf_mag"
    using assms by (auto simp: f32_le_def f32_is_finite_def f32_key_def)
  have "\<not> f32_is_inf x" using ab f32_key_inf [of x] by (auto split: if_splits)
  then show ?thesis using nn f32_class_cases by blast
qed

lemma round_half_mono: "u \<le> v \<Longrightarrow> 0 \<le> h \<Longrightarrow> 0 < k \<Longrightarrow> sgn u * ((\<bar>u\<bar> + h) div k) \<le> sgn v * ((\<bar>v\<bar> + h) div k)"
  for u v k h :: int
  by (auto simp: sgn_if zdiv_mono1 pos_imp_zdiv_nonneg_iff intro: order_trans [where y = 0])

lemma f32_round_mono:
  assumes "f32_is_finite x" "f32_is_finite y" "f32_le x y"
  shows "f32_le (f32_round x) (f32_round y)"
proof -
  have "f32_units x \<le> f32_units y" using assms by (simp add: f32_le_units)
  then have "sgn (f32_units x) * ((\<bar>f32_units x\<bar> + 2 ^ 148) div 2 ^ 149) * 2 ^ 149 \<le>
      sgn (f32_units y) * ((\<bar>f32_units y\<bar> + 2 ^ 148) div 2 ^ 149) * 2 ^ 149"
    by (intro mult_right_mono round_half_mono) simp_all
  then show ?thesis using assms by (simp add: f32_round_def f32_finite_simps f32_of_frac_le)
qed

lemma f32_round_not_nan: "f32_is_finite x \<Longrightarrow> \<not> f32_is_nan (f32_round x)"
  by (simp add: f32_round_def f32_finite_simps)

section \<open>Exact integers\<close>

lemma mag_units_of_int:
  assumes "n < 2 ^ 24"
  shows "\<exists>k < inf_mag. mag_units k = n * 2 ^ 149"
proof (cases "n = 0")
  case True
  then show ?thesis by (intro exI [of _ 0]) (simp add: inf_mag_def)
next
  case False
  then obtain e where e: "2 ^ e \<le> n" "n < 2 ^ Suc e"
    using ex_power_ivl1 [of 2 n] by auto
  then have "(2 :: nat) ^ e < 2 ^ 24" using assms by linarith
  then have e24: "e < 24" using power_less_imp_less_exp [of 2 e 24] by simp
  define f where "f = n * 2 ^ (23 - e) - 2 ^ 23"
  have exps: "e + (23 - e) = 23" "23 - e + (126 + e) = 149" using e24 by simp_all
  have split: "(2 :: nat) ^ 23 = 2 ^ e * 2 ^ (23 - e)" by (metis exps(1) power_add)
  have lo: "2 ^ 23 \<le> n * 2 ^ (23 - e)" unfolding split using e(1) by simp
  have "n * 2 ^ (23 - e) < 2 ^ Suc e * 2 ^ (23 - e)" using e(2) by simp
  also have "\<dots> = 2 * 2 ^ 23" unfolding split by simp
  finally have f: "f < 2 ^ 23" "2 ^ 23 + f = n * 2 ^ (23 - e)" using lo by (simp_all add: f_def)
  define k where "k = (127 + e) * 2 ^ 23 + f"
  have div: "k mod 2 ^ 23 = f" "k div 2 ^ 23 = 127 + e"
    unfolding k_def by (simp only: mod_mult_self3 mod_less f(1)) (use f(1) in simp)
  have "k < (127 + e) * 2 ^ 23 + 2 ^ 23" using f(1) by (simp add: k_def)
  also have "\<dots> \<le> 255 * 2 ^ 23" using e24 by simp
  finally have kinf: "k < inf_mag" by (simp add: inf_mag_def)
  have kbig: "\<not> k < 2 ^ 23" using f(1) by (simp add: k_def)
  have "(2 ^ 23 + f) * 2 ^ (126 + e) = n * (2 ^ (23 - e) * 2 ^ (126 + e))" unfolding f(2) by simp
  also have "(2 :: nat) ^ (23 - e) * 2 ^ (126 + e) = 2 ^ 149" by (metis exps(2) power_add)
  finally have "(2 ^ 23 + f) * 2 ^ (126 + e) = n * 2 ^ 149" .
  then have "mag_units k = n * 2 ^ 149" unfolding mag_units_def div using kbig by simp
  with kinf show ?thesis by blast
qed

lemma f32_of_int_exact:
  assumes "0 \<le> n" "n < 2 ^ 24"
  shows "f32_is_finite (f32_of_int n)" "f32_units (f32_of_int n) = n * 2 ^ 149" "\<not> f32_sign (f32_of_int n)"
proof -
  have "nat n < 2 ^ 24" using assms by simp
  then obtain k where k: "k < inf_mag" "mag_units k = nat n * 2 ^ 149"
    using mag_units_of_int by blast
  have k31: "k < 2 ^ 31" using k(1) by (simp add: inf_mag_def)
  have abs: "nat \<bar>n * 2 ^ 149\<bar> = mag_units k" using assms(1) k(2) by (simp add: nat_mult_distrib abs_mult)
  have eq: "f32_of_int n = f32_mk False k"
  proof (cases "n = 0")
    case True
    then have "k = 0" using k(2) by simp
    then show ?thesis using True by (simp add: f32_of_int_def f32_of_frac_def)
  next
    case False
    then have "f32_of_int n = f32_mk (n * 2 ^ 149 < 0) (round_mag (nat \<bar>n * 2 ^ 149\<bar>) 1)"
      by (simp add: f32_of_int_def f32_of_frac_def)
    then show ?thesis using assms(1) k(1) unfolding abs
      by (simp add: round_mag_exact [simplified] not_less)
  qed
  show "f32_is_finite (f32_of_int n)" "\<not> f32_sign (f32_of_int n)"
    using k31 k(1) by (simp_all add: eq f32_is_finite_def)
  show "f32_units (f32_of_int n) = n * 2 ^ 149"
    using k31 k(2) assms(1) by (simp add: eq f32_units_def)
qed

lemma f32_to_int_of_int:
  assumes "0 \<le> n" "n < 2 ^ 24" "lo \<le> 0" "n \<le> hi"
  shows "f32_to_int lo hi (f32_of_int n) = n"
  using f32_of_int_exact [OF assms(1,2)] assms
  by (simp add: f32_to_int_def f32_finite_simps f32_trunc_def sgn_if)

lemma f32_of_int_le:
  assumes "0 \<le> m" "m \<le> n" "n < 2 ^ 24"
  shows "f32_le (f32_of_int m) (f32_of_int n)"
proof -
  have m: "m < 2 ^ 24" and n: "0 \<le> n" using assms by linarith+
  show ?thesis
    using f32_of_int_exact [OF assms(1) m] f32_of_int_exact [OF n assms(3)] assms(2)
    by (simp add: f32_le_units)
qed

end
