(* ===== verification/Replication_Cadence.thy ===== *)
theory Replication_Cadence
  imports Float32_Order Entities
begin

text \<open>
  How often, and how urgently, an entity is replicated to a viewer at a given distance
  (\<open>ReplicationCadence\<close> and \<open>ReplicationPriority\<close> of \<open>crates/sectorsync-core/src/replication.rs\<close>). Both
  interpolate with the closeness \<open>1 - d\<^sup>2 / r\<^sup>2\<close>, in single precision.
\<close>

section \<open>Definitions\<close>

definition closeness :: "compiled_sync_policy \<Rightarrow> f32 \<Rightarrow> f32" where
  "closeness policy d =
     (let radius_squared = f32_mul (pol_interest_radius policy) (pol_interest_radius policy) in
      if f32_is_finite radius_squared \<and> f32_lt f32_zero radius_squared \<and> f32_is_finite d
      then f32_sub f32_one (f32_clamp (f32_div d radius_squared) f32_zero f32_one)
      else f32_one)"

definition rounded_frequency_to_u16 :: "f32 \<Rightarrow> u16 \<Rightarrow> u16 \<Rightarrow> u16" where
  "rounded_frequency_to_u16 target lo hi =
     (let bounded = f32_clamp (f32_round target) (f32_of_int (uint lo)) (f32_of_int (uint hi))
      in word_of_int (f32_to_int 0 65535 bounded))"

definition target_hz :: "compiled_sync_policy \<Rightarrow> f32 \<Rightarrow> u16" where
  "target_hz policy d =
     (let min_hz = max (pol_min_hz policy) 1;
          max_hz = max (pol_max_hz policy) min_hz;
          span = f32_of_int (uint (max_hz - min_hz));
          target = f32_add (f32_of_int (uint min_hz)) (f32_mul span (closeness policy d))
      in rounded_frequency_to_u16 target min_hz max_hz)"

definition interval_ticks :: "compiled_sync_policy \<Rightarrow> u16 \<Rightarrow> f32 \<Rightarrow> u64" where
  "interval_ticks policy rate d =
     (let tick_rate = (ucast (max rate 1) :: u64);
          hz = max (ucast (target_hz policy d) :: u64) 1;
          q = tick_rate div hz
      in max (if tick_rate mod hz = 0 then q else q + 1) 1)"

definition should_send :: "compiled_sync_policy \<Rightarrow> u16 \<Rightarrow> f32 \<Rightarrow> tick \<Rightarrow> tick option \<Rightarrow> bool" where
  "should_send policy rate d now last_sent =
     (case last_sent of
        None \<Rightarrow> True
      | Some l \<Rightarrow> interval_ticks policy rate d \<le> sat_sub now l)"

definition normalized_score_to_u64 :: "f32 \<Rightarrow> u64" where
  "normalized_score_to_u64 c =
     word_of_int (f32_to_int 0 (2 ^ 64 - 1) (f32_round (f32_mul c (f32_of_int 1000000))))"

definition priority_score :: "compiled_sync_policy \<Rightarrow> f32 \<Rightarrow> u64" where
  "priority_score policy d =
     (let weight = (ucast (max (pol_priority_weight policy) 1) :: u64);
          radius_squared = f32_mul (pol_interest_radius policy) (pol_interest_radius policy);
          distance_score =
            (if f32_is_finite radius_squared \<and> f32_lt f32_zero radius_squared \<and> f32_is_finite d
             then normalized_score_to_u64 (f32_sub f32_one (f32_clamp (f32_div d radius_squared) f32_zero f32_one))
             else 1000000)
      in sat_add (sat_mul weight 1000000) distance_score)"

section \<open>Closeness is between zero and one and falls with the distance\<close>

lemma f32_one_key [simp]: "f32_key f32_one = 1065353216"
  by (simp add: f32_key_def)

lemma f32_zero_le_one: "f32_le f32_zero f32_one"
  by (simp add: f32_le_units)

lemma positive_of_lt: "f32_lt f32_zero r \<Longrightarrow> f32_positive r"
  by (auto simp: f32_lt_def f32_positive_def f32_key_def f32_is_zero_def split: if_splits)

lemma f32_of_frac_one: "f32_le f32_one (f32_of_frac z (2 ^ 149) 1)" "f32_le (f32_of_frac z (2 ^ 149) 1) f32_one"
  using f32_key_exact [of f32_one z] by (simp_all add: f32_le_def f32_finite_simps)

lemma f32_of_frac_zero: "f32_le f32_zero (f32_of_frac z 0 1)" "f32_le (f32_of_frac z 0 1) f32_zero"
  by (auto simp: f32_of_frac_def f32_le_def f32_is_nan_def f32_key_def f32_finite_simps inf_mag_def)

lemma sub_one_bounds:
  assumes "f32_le f32_zero q" "f32_le q f32_one"
  shows "f32_le f32_zero (f32_sub f32_one q)" "f32_le (f32_sub f32_one q) f32_one"
    "f32_is_finite (f32_sub f32_one q)"
proof -
  have q: "f32_is_finite q" using f32_between_finite [OF assms] by simp
  have "f32_le (f32_sub f32_one f32_one) (f32_sub f32_one q)" "f32_le (f32_sub f32_one q) (f32_sub f32_one f32_zero)"
    using assms q by (auto intro!: f32_sub_antimono)
  moreover have "f32_le f32_zero (f32_sub f32_one f32_one)" "f32_le (f32_sub f32_one f32_zero) f32_one"
    using f32_of_frac_zero(1) f32_of_frac_one(2) by (simp_all add: f32_sub_def f32_add_finite)
  ultimately show lo: "f32_le f32_zero (f32_sub f32_one q)" and hi: "f32_le (f32_sub f32_one q) f32_one"
    using f32_le_trans by blast+
  show "f32_is_finite (f32_sub f32_one q)" using f32_between_finite [OF lo hi] by simp
qed

definition scaled_distance :: "compiled_sync_policy \<Rightarrow> f32 \<Rightarrow> f32" where
  "scaled_distance policy d =
     f32_clamp (f32_div d (f32_mul (pol_interest_radius policy) (pol_interest_radius policy))) f32_zero f32_one"

lemma scaled_distance_bounds:
  assumes "f32_is_finite r" "f32_lt f32_zero r" "f32_is_finite d" "r = f32_mul (pol_interest_radius policy) (pol_interest_radius policy)"
  shows "f32_le f32_zero (scaled_distance policy d)" "f32_le (scaled_distance policy d) f32_one"
    "f32_is_finite (scaled_distance policy d)"
proof -
  have "f32_le d d" using assms(3) by (simp add: f32_le_refl f32_finite_simps)
  then have "\<not> f32_is_nan (f32_div d r)"
    using f32_div_mono [OF assms(3,3,1) positive_of_lt [OF assms(2)]] f32_le_not_nan by blast
  note b = f32_clamp_bounds [OF this f32_zero_le_one]
  show "f32_le f32_zero (scaled_distance policy d)" "f32_le (scaled_distance policy d) f32_one"
    "f32_is_finite (scaled_distance policy d)"
    using b f32_between_finite [OF b] by (simp_all add: scaled_distance_def assms(4))
qed

lemma closeness_bounds:
  "f32_le f32_zero (closeness policy d)" "f32_le (closeness policy d) f32_one" "f32_is_finite (closeness policy d)"
  using sub_one_bounds [OF scaled_distance_bounds(1,2)] f32_zero_le_one
  by (auto simp: closeness_def Let_def scaled_distance_def f32_le_refl f32_finite_simps)

lemma closeness_antimono:
  assumes "f32_is_finite d" "f32_is_finite d'" "f32_le d d'"
  shows "f32_le (closeness policy d') (closeness policy d)"
proof (cases "f32_is_finite (f32_mul (pol_interest_radius policy) (pol_interest_radius policy)) \<and>
    f32_lt f32_zero (f32_mul (pol_interest_radius policy) (pol_interest_radius policy))")
  case True
  note s = scaled_distance_bounds [OF conjunct1 [OF True] conjunct2 [OF True] _ refl]
  have "f32_le (scaled_distance policy d) (scaled_distance policy d')"
    unfolding scaled_distance_def
    by (intro f32_clamp_mono f32_div_mono f32_zero_le_one positive_of_lt assms conjunct1 [OF True] conjunct2 [OF True])
  then have "f32_le (f32_sub f32_one (scaled_distance policy d')) (f32_sub f32_one (scaled_distance policy d))"
    using s(3) assms by (intro f32_sub_antimono) auto
  then show ?thesis using True assms by (simp add: closeness_def Let_def scaled_distance_def)
qed (auto simp: closeness_def Let_def f32_le_refl f32_finite_simps)

section \<open>The target frequency\<close>

definition span_share :: "int \<Rightarrow> compiled_sync_policy \<Rightarrow> f32 \<Rightarrow> f32" where
  "span_share n policy d = f32_mul (f32_of_int n) (closeness policy d)"

lemma unit_scale_bounds:
  assumes "0 \<le> n" "n < 2 ^ 24" "f32_le f32_zero c" "f32_le c f32_one"
  shows "f32_le f32_zero (f32_mul (f32_of_int n) c)" "f32_le (f32_mul (f32_of_int n) c) (f32_of_int n)"
    "f32_is_finite (f32_mul (f32_of_int n) c)"
proof -
  note n = f32_of_int_exact [OF assms(1,2)]
  have c: "f32_is_finite c" using f32_between_finite [OF assms(3,4)] by simp
  have pos: "0 \<le> f32_units (f32_of_int n)" using n(2) assms(1) by simp
  have "f32_le (f32_mul (f32_of_int n) f32_zero) (f32_mul (f32_of_int n) c)"
    "f32_le (f32_mul (f32_of_int n) c) (f32_mul (f32_of_int n) f32_one)"
    by (intro f32_mul_mono n pos c assms(3,4) f32_zero_simps f32_one_simps)+
  moreover have "f32_le f32_zero (f32_mul (f32_of_int n) f32_zero)"
    using n by (auto simp: f32_mul_finite f32_of_frac_def f32_le_def f32_is_nan_def f32_key_def f32_finite_simps inf_mag_def)
  moreover have "f32_le (f32_mul (f32_of_int n) f32_one) (f32_of_int n)"
  proof -
    have "f32_key (f32_mul (f32_of_int n) f32_one) \<le> f32_key (f32_of_frac False (f32_units (f32_of_int n)) 1)"
      using n by (simp add: f32_mul_finite f32_of_frac_mono)
    then show ?thesis using f32_key_exact [OF n(1), of False] n(1)
      by (simp add: f32_le_def f32_finite_simps f32_mul_finite)
  qed
  ultimately show "f32_le f32_zero (f32_mul (f32_of_int n) c)" "f32_le (f32_mul (f32_of_int n) c) (f32_of_int n)"
    using f32_le_trans by blast+
  then show "f32_is_finite (f32_mul (f32_of_int n) c)"
    using f32_between_finite n(1) f32_zero_simps(5) by blast
qed

lemmas span_share_bounds = unit_scale_bounds [OF _ _ closeness_bounds(1,2), folded span_share_def]

lemma span_share_antimono:
  assumes "0 \<le> n" "n < 2 ^ 24" "f32_is_finite d" "f32_is_finite d'" "f32_le d d'"
  shows "f32_le (span_share n policy d') (span_share n policy d)"
proof -
  note n = f32_of_int_exact [OF assms(1,2)]
  have pos: "0 \<le> f32_units (f32_of_int n)" using n(2) assms(1) by simp
  show ?thesis
    unfolding span_share_def by (intro f32_mul_mono n pos closeness_bounds closeness_antimono assms(3-5))
qed

text \<open>Any finite target is brought into the interval, and a larger target never gives less.\<close>

lemma u16_range: "0 \<le> uint (w :: u16)" "uint w < 2 ^ 24" "uint w \<le> 65535"
  using uint_lt2p [of w] by simp_all

lemma u16_of_int: "0 \<le> i \<Longrightarrow> i \<le> 65535 \<Longrightarrow> uint (word_of_int i :: u16) = i"
  by (simp add: uint_word_of_int_eq take_bit_int_eq_self)

lemma sum_not_nan: "f32_is_finite x \<Longrightarrow> f32_is_finite y \<Longrightarrow> \<not> f32_is_nan (f32_add x y)"
  by (simp add: f32_add_finite)

lemma f32_round_nan: "\<not> f32_is_nan x \<Longrightarrow> \<not> f32_is_nan (f32_round x)"
  by (auto simp: f32_round_def)

lemma rounded_frequency_bounds:
  assumes "\<not> f32_is_nan x" "lo \<le> hi"
  shows "lo \<le> rounded_frequency_to_u16 x lo hi \<and> rounded_frequency_to_u16 x lo hi \<le> hi"
proof -
  have ord: "f32_le (f32_of_int (uint lo)) (f32_of_int (uint hi))"
    using assms(2) u16_range by (intro f32_of_int_le) (simp_all add: word_le_def)
  let ?b = "f32_clamp (f32_round x) (f32_of_int (uint lo)) (f32_of_int (uint hi))"
  note b = f32_clamp_bounds [OF f32_round_nan [OF assms(1)] ord]
  have "f32_to_int 0 65535 (f32_of_int (uint lo)) \<le> f32_to_int 0 65535 ?b"
    "f32_to_int 0 65535 ?b \<le> f32_to_int 0 65535 (f32_of_int (uint hi))"
    using b by (intro f32_to_int_mono; simp)+
  moreover have "f32_to_int 0 65535 (f32_of_int (uint w)) = uint w" for w :: u16
    using u16_range by (intro f32_to_int_of_int) simp_all
  ultimately have "uint lo \<le> f32_to_int 0 65535 ?b" "f32_to_int 0 65535 ?b \<le> uint hi" by simp_all
  then show ?thesis using f32_to_int_range [of 0 65535]
    by (simp add: rounded_frequency_to_u16_def word_le_def u16_of_int)
qed

lemma rounded_frequency_mono:
  assumes "f32_le (f32_round x) (f32_round y)" "lo \<le> hi"
  shows "rounded_frequency_to_u16 x lo hi \<le> rounded_frequency_to_u16 y lo hi"
proof -
  have ord: "f32_le (f32_of_int (uint lo)) (f32_of_int (uint hi))"
    using assms(2) u16_range by (intro f32_of_int_le) (simp_all add: word_le_def)
  have "f32_to_int 0 65535 (f32_clamp (f32_round x) (f32_of_int (uint lo)) (f32_of_int (uint hi))) \<le>
      f32_to_int 0 65535 (f32_clamp (f32_round y) (f32_of_int (uint lo)) (f32_of_int (uint hi)))"
    by (intro f32_to_int_mono f32_clamp_mono assms ord) simp_all
  then show ?thesis
    using f32_to_int_range [of 0 65535] by (simp add: rounded_frequency_to_u16_def word_le_def u16_of_int)
qed

definition min_rate :: "compiled_sync_policy \<Rightarrow> u16" where
  "min_rate policy = max (pol_min_hz policy) 1"

definition max_rate :: "compiled_sync_policy \<Rightarrow> u16" where
  "max_rate policy = max (pol_max_hz policy) (min_rate policy)"

lemma target_hz_eq:
  "target_hz policy d = rounded_frequency_to_u16
     (f32_add (f32_of_int (uint (min_rate policy))) (span_share (uint (max_rate policy - min_rate policy)) policy d))
     (min_rate policy) (max_rate policy)"
  by (simp add: target_hz_def min_rate_def max_rate_def span_share_def Let_def)

lemma min_rate_pos: "1 \<le> min_rate policy" and min_le_max_rate: "min_rate policy \<le> max_rate policy"
  by (simp_all add: min_rate_def max_rate_def)

lemma target_hz_bounds: "min_rate policy \<le> target_hz policy d \<and> target_hz policy d \<le> max_rate policy"
  unfolding target_hz_eq
  by (intro rounded_frequency_bounds sum_not_nan span_share_bounds(3) f32_of_int_exact u16_range min_le_max_rate)

text \<open>A rounded sum may be infinite only when the sum is; both sums here are finite.\<close>

lemma rate_sum_finite:
  assumes "0 \<le> m" "m \<le> 65535" "0 \<le> n" "n \<le> 65535"
  shows "f32_is_finite (f32_add (f32_of_int m) (span_share n policy d))"
proof -
  have m: "m < 2 ^ 24" and n: "n < 2 ^ 24" using assms by simp_all
  note em = f32_of_int_exact [OF assms(1) m] and en = f32_of_int_exact [OF assms(3) n]
  note fin = span_share_bounds(3) [OF assms(3) n, of policy d]
  note share = span_share_bounds [OF assms(3) n, of policy d]
  have units: "0 \<le> f32_units (span_share n policy d)" "f32_units (span_share n policy d) \<le> n * 2 ^ 149"
    using share fin en by (simp_all add: f32_le_units)
  have mn: "0 \<le> m + n" "m + n < 2 ^ 24" using assms by simp_all
  note es = f32_of_int_exact [OF mn]
  have "f32_le f32_zero (f32_add (f32_of_int m) (span_share n policy d))"
    "f32_le (f32_add (f32_of_int m) (span_share n policy d)) (f32_of_int (m + n))"
    using units em fin f32_of_frac_zero(1) assms(1)
    by (auto simp: f32_add_finite f32_of_int_def algebra_simps intro: f32_le_trans [OF f32_of_frac_zero(1)] intro!: f32_of_frac_le)
  then show ?thesis using f32_between_finite f32_zero_simps(5) es(1) by blast
qed

lemma target_hz_antimono:
  assumes "f32_is_finite d" "f32_is_finite d'" "f32_le d d'"
  shows "target_hz policy d' \<le> target_hz policy d"
proof -
  let ?m = "uint (min_rate policy)" and ?n = "uint (max_rate policy - min_rate policy)"
  have "f32_le (f32_add (f32_of_int ?m) (span_share ?n policy d')) (f32_add (f32_of_int ?m) (span_share ?n policy d))"
    by (intro f32_add_mono span_share_bounds(3) span_share_antimono f32_of_int_exact u16_range assms)
  then have "f32_le (f32_round (f32_add (f32_of_int ?m) (span_share ?n policy d')))
      (f32_round (f32_add (f32_of_int ?m) (span_share ?n policy d)))"
    by (intro f32_round_mono rate_sum_finite u16_range)
  then show ?thesis unfolding target_hz_eq by (rule rounded_frequency_mono [OF _ min_le_max_rate])
qed

section \<open>The interval\<close>

lemma ceil_le_iff:
  fixes a b k :: nat
  assumes "0 < b"
  shows "(if a mod b = 0 then a div b else a div b + 1) \<le> k \<longleftrightarrow> a \<le> k * b"
proof -
  define q m where "q = a div b" and "m = a mod b"
  have a: "a = q * b + m" "m < b" using assms by (simp_all add: q_def m_def)
  show ?thesis
  proof (cases "m = 0")
    case True
    then have "(if a mod b = 0 then a div b else a div b + 1) = q" by (simp add: q_def m_def)
    moreover have "q \<le> k \<longleftrightarrow> q * b \<le> k * b" using assms by simp
    moreover have "q * b = a" using a(1) True by simp
    ultimately show ?thesis by (simp only:)
  next
    case False
    have "q + 1 \<le> k \<longleftrightarrow> a \<le> k * b"
    proof
      assume "q + 1 \<le> k"
      then have "(q + 1) * b \<le> k * b" by (rule mult_le_mono1)
      then show "a \<le> k * b" using a by simp
    next
      assume "a \<le> k * b"
      then have "q * b < k * b" using a(1) False by linarith
      then show "q + 1 \<le> k" by simp
    qed
    moreover have "(if a mod b = 0 then a div b else a div b + 1) = q + 1" using False by (simp add: q_def m_def)
    ultimately show ?thesis by (simp only:)
  qed
qed

lemma unat_ucast_64 [simp]: "unat (ucast (w :: u16) :: u64) = unat w"
proof -
  have "unat w < 65536" using unsigned_less [of w, where 'a = nat] by simp
  then show ?thesis by (simp add: unsigned_ucast_eq take_bit_nat_eq_self_iff)
qed

lemma unat_max: "unat (max a b) = max (unat a) (unat b)"
  by (simp add: max_def word_le_nat_alt)

text \<open>The interval is the least positive number of ticks in which the target frequency is not
  exceeded.\<close>

lemma interval_le_iff:
  assumes "1 \<le> k"
  shows "unat (interval_ticks policy rate d) \<le> k \<longleftrightarrow> unat (max rate 1) \<le> k * unat (target_hz policy d)"
proof -
  let ?r = "ucast (max rate 1) :: u64" and ?t = "ucast (target_hz policy d) :: u64"
  have t: "1 \<le> target_hz policy d" using target_hz_bounds [of policy d] min_rate_pos [of policy] by (meson order_trans)
  then have t0: "0 < unat ?t" by (simp add: word_le_nat_alt)
  then have "1 \<le> ?t" by (simp add: word_le_nat_alt)
  then have max_t: "max ?t 1 = ?t" by (rule max.absorb1)
  let ?c = "(if unat ?r mod unat ?t = 0 then unat ?r div unat ?t else unat ?r div unat ?t + 1)"
  have q: "unat (?r div ?t) = unat ?r div unat ?t" and m: "unat (?r mod ?t) = unat ?r mod unat ?t"
    by (rule unat_div, rule unat_mod)
  have mod0: "?r mod ?t = 0 \<longleftrightarrow> unat ?r mod unat ?t = 0" using m by (metis unat_0 unat_eq_zero)
  have "unat ?r < 2 ^ 16" using unsigned_less [of "max rate 1", where 'a = nat] by simp
  with div_le_dividend have "unat (?r div ?t) < 2 ^ 16" unfolding q by (rule le_less_trans)
  then have small: "unat (?r div ?t) + 1 < 2 ^ 64" by simp
  have "unat (?r div ?t + 1) = unat ?r div unat ?t + 1" using small q by (simp add: unat_word_ariths(1))
  then have c: "unat (if ?r mod ?t = 0 then ?r div ?t else ?r div ?t + 1) = ?c"
    by (simp only: mod0 q if_distrib [of unat])
  have "unat (interval_ticks policy rate d) = max ?c 1"
    unfolding interval_ticks_def Let_def max_t unat_max c by (simp only: unsigned_1)
  also have "max ?c 1 \<le> k \<longleftrightarrow> ?c \<le> k" using assms by simp
  also have "?c \<le> k \<longleftrightarrow> unat ?r \<le> k * unat ?t" by (rule ceil_le_iff [OF t0])
  finally show ?thesis by simp
qed

lemma interval_pos: "1 \<le> interval_ticks policy rate d"
  by (simp add: interval_ticks_def Let_def)

lemma should_send_iff:
  "should_send policy rate d now (Some l) \<longleftrightarrow>
     l < now \<and> unat (max rate 1) \<le> (unat now - unat l) * unat (target_hz policy d)"
proof (cases "l < now")
  case True
  then have "1 \<le> unat now - unat l" by (simp add: word_less_nat_alt)
  from interval_le_iff [OF this] show ?thesis using True
    by (simp add: should_send_def word_le_nat_alt unat_sat_sub)
next
  case False
  then have "sat_sub now l = 0" by (simp add: sat_sub_def not_less)
  then show ?thesis using False interval_pos [of policy rate d]
    by (auto simp: should_send_def word_le_nat_alt)
qed

text \<open>C30. The cadence keeps every update rate between the policy's minimum and maximum: an update is
  never sent before the maximum frequency allows it, always once the minimum frequency demands it,
  hence at the latest one second of ticks after the previous one; a closer entity is due whenever a
  farther one with the same policy and last update is; and an entity never sent before is due.\<close>

theorem cadence_rate_limits:
  "min_rate policy \<le> target_hz policy d \<and> target_hz policy d \<le> max_rate policy \<and>
   should_send policy rate d now None \<and>
   (should_send policy rate d now (Some l) \<longrightarrow>
      l < now \<and> unat (max rate 1) \<le> (unat now - unat l) * unat (max_rate policy)) \<and>
   (l < now \<and> unat (max rate 1) \<le> (unat now - unat l) * unat (min_rate policy) \<longrightarrow>
      should_send policy rate d now (Some l)) \<and>
   (unat l + unat (max rate 1) \<le> unat now \<longrightarrow> should_send policy rate d now (Some l)) \<and>
   (f32_is_finite d \<and> f32_is_finite d' \<and> f32_le d d' \<and> should_send policy rate d' now (Some l) \<longrightarrow>
      should_send policy rate d now (Some l))"
proof -
  have b: "unat (min_rate policy) \<le> unat (target_hz policy d)" "unat (target_hz policy d) \<le> unat (max_rate policy)"
    using target_hz_bounds [of policy d] by (simp_all add: word_le_nat_alt)
  have max: "unat (max rate 1) \<le> (unat now - unat l) * unat (max_rate policy)"
    if "unat (max rate 1) \<le> (unat now - unat l) * unat (target_hz policy d)"
    using that mult_le_mono2 [OF b(2)] by (rule order_trans)
  have min: "unat (max rate 1) \<le> (unat now - unat l) * unat (target_hz policy d)"
    if "unat (max rate 1) \<le> (unat now - unat l) * unat (min_rate policy)"
    using that mult_le_mono2 [OF b(1)] by (rule order_trans)
  have r: "1 \<le> unat (max rate 1)" and m: "1 \<le> unat (min_rate policy)"
    using min_rate_pos [of policy] by (auto simp: word_le_nat_alt max_def)
  have second: "l < now \<and> unat (max rate 1) \<le> (unat now - unat l) * unat (min_rate policy)"
    if "unat l + unat (max rate 1) \<le> unat now"
  proof
    show "l < now" using that r by (simp add: word_less_nat_alt)
    have "(unat now - unat l) * 1 \<le> (unat now - unat l) * unat (min_rate policy)" using m by (rule mult_le_mono2)
    then show "unat (max rate 1) \<le> (unat now - unat l) * unat (min_rate policy)" using that by linarith
  qed
  have closer: "unat (max rate 1) \<le> (unat now - unat l) * unat (target_hz policy d)"
    if "unat (max rate 1) \<le> (unat now - unat l) * unat (target_hz policy d')" "f32_is_finite d" "f32_is_finite d'" "f32_le d d'"
    using that(1) mult_le_mono2 target_hz_antimono [OF that(2-4), of policy]
    unfolding word_le_nat_alt by (meson order_trans)
  show ?thesis
    unfolding should_send_iff using target_hz_bounds max min second closer
    by (auto simp: should_send_def)
qed

theorem cadence_rate_limits_witness:
  "should_send (policy_new 1 1 20 f32_one) 20 f32_zero 40 (Some 20) \<and>
   \<not> should_send (policy_new 1 1 20 f32_one) 20 f32_zero 20 (Some 20)"
  using cadence_rate_limits [of "policy_new 1 1 20 f32_one" f32_zero 20 40 20 f32_zero]
    cadence_rate_limits [of "policy_new 1 1 20 f32_one" f32_zero 20 20 20 f32_zero] by simp

section \<open>The priority score\<close>

lemma score_distance_eq:
  "priority_score policy d = sat_add (sat_mul (ucast (max (pol_priority_weight policy) 1)) 1000000)
     (if f32_is_finite (f32_mul (pol_interest_radius policy) (pol_interest_radius policy)) \<and>
         f32_lt f32_zero (f32_mul (pol_interest_radius policy) (pol_interest_radius policy)) \<and> f32_is_finite d
      then normalized_score_to_u64 (closeness policy d) else 1000000)"
  by (simp add: priority_score_def closeness_def Let_def)

lemma million_exact: "f32_is_finite (f32_of_int 1000000)" "0 \<le> f32_units (f32_of_int 1000000)"
  using f32_of_int_exact [of 1000000] by simp_all

lemma f32_mul_commute: "f32_is_finite x \<Longrightarrow> f32_is_finite y \<Longrightarrow> f32_mul x y = f32_mul y x"
  by (simp add: f32_mul_finite mult.commute eq_commute)

definition millionths :: "f32 \<Rightarrow> int" where
  "millionths c = f32_to_int 0 (2 ^ 64 - 1) (f32_round (f32_mul c (f32_of_int 1000000)))"

lemma u64_of_int: "0 \<le> i \<Longrightarrow> i \<le> 2 ^ 64 - 1 \<Longrightarrow> uint (word_of_int i :: u64) = i"
  by (simp add: uint_word_of_int_eq take_bit_int_eq_self)

lemma f32_round_of_int: "0 \<le> n \<Longrightarrow> n < 2 ^ 24 \<Longrightarrow> f32_round (f32_of_int n) = f32_of_int n"
  by (simp add: f32_round_def f32_of_int_exact f32_finite_simps)
    (simp add: f32_of_int_def sgn_if abs_mult)

lemma millionths_range: "0 \<le> millionths c" "millionths c \<le> 2 ^ 64 - 1"
  using f32_to_int_range [of 0 "2 ^ 64 - 1"] by (simp_all add: millionths_def)

lemma millionths_mono:
  assumes "f32_le c c'" "f32_le f32_zero c" "f32_le c' f32_one"
  shows "millionths c \<le> millionths c'"
proof -
  have le: "f32_le f32_zero c'" "f32_le c f32_one" using assms f32_le_trans by blast+
  have fin: "f32_is_finite c" "f32_is_finite c'"
    using f32_between_finite [OF assms(2) le(2)] f32_between_finite [OF le(1) assms(3)] by simp_all
  have m: "(0 :: int) \<le> 1000000" "(1000000 :: int) < 2 ^ 24" by simp_all
  have "f32_le (f32_round (f32_mul (f32_of_int 1000000) c)) (f32_round (f32_mul (f32_of_int 1000000) c'))"
    by (intro f32_round_mono unit_scale_bounds(3) m f32_mul_mono million_exact fin assms le)
  then show ?thesis
    using fin million_exact by (auto simp: millionths_def f32_mul_commute intro!: f32_to_int_mono)
qed

lemma priority_score_antimono:
  assumes "f32_is_finite d" "f32_is_finite d'" "f32_le d d'"
  shows "priority_score policy d' \<le> priority_score policy d"
proof -
  have "millionths (closeness policy d') \<le> millionths (closeness policy d)"
    by (intro millionths_mono closeness_antimono closeness_bounds assms)
  then have "normalized_score_to_u64 (closeness policy d') \<le> normalized_score_to_u64 (closeness policy d)"
    unfolding normalized_score_to_u64_def millionths_def [symmetric] word_le_def
    by (simp only: u64_of_int millionths_range)
  then show ?thesis using assms(1,2)
    by (auto simp: score_distance_eq word_le_nat_alt unat_sat_add)
qed

end
