(* ===== verification/Cell_Index.thy ===== *)
theory Cell_Index
  imports Spatial Entities
begin

text \<open>
  The station-local cell index (\<open>crates/sectorsync-core/src/spatial_index.rs\<close>). Every occupied cell
  has a bucket of entity handles and every entity remembers its cells; updates move an entity
  between buckets by merging its old and new cell lists. Queries either probe every cell of the
  query box or scan the occupied cells, and drop repeated handles with a table of epoch-stamped
  markers that is never cleared between queries. Reserving and shrinking are not modelled.
\<close>

unbundle bit_operations_syntax

section \<open>State\<close>

record cell_occupancy =
  co_cell :: cell_coord3
  co_entities :: usize

datatype index_update = IndexInserted | IndexUnchanged | IndexRelocated

record update_report =
  ur_update :: index_update
  ur_retained :: usize
  ur_removed :: usize
  ur_inserted :: usize
  ur_incremental :: bool

record update_scratch =
  us_cells :: "cell_coord3 list"

datatype query_strategy = GridStrategy | OccupiedCells

record query_stats =
  qt_strategy :: query_strategy
  qt_grid_probed :: usize
  qt_occupied_scanned :: usize
  qt_matched :: usize
  qt_candidates :: usize

definition query_stats_default :: query_stats where
  "query_stats_default =
     \<lparr>qt_strategy = GridStrategy, qt_grid_probed = 0, qt_occupied_scanned = 0, qt_matched = 0,
      qt_candidates = 0\<rparr>"

record query_scratch =
  qs_dense :: "u64 list"
  qs_collisions :: "u32 list"
  qs_sparse :: "entity_handle fset"
  qs_epoch :: u32
  qs_handles :: "entity_handle list"
  qs_matching :: "cell_coord3 list"
  qs_stats :: query_stats

definition query_scratch_new :: query_scratch where
  "query_scratch_new =
     \<lparr>qs_dense = [], qs_collisions = [], qs_sparse = {||}, qs_epoch = 0, qs_handles = [],
      qs_matching = [], qs_stats = query_stats_default\<rparr>"

datatype membership = PointCell cell_coord3 | MultipleCells "cell_coord3 list"

fun membership_slice :: "membership \<Rightarrow> cell_coord3 list" where
  "membership_slice (PointCell c) = [c]"
| "membership_slice (MultipleCells cs) = cs"

record cell_index =
  ci_grid :: grid_spec
  ci_cells :: "(cell_coord3, entity_handle list) fmap"
  ci_entities :: "(entity_handle, membership) fmap"

definition cell_index_new :: "grid_spec \<Rightarrow> cell_index" where
  "cell_index_new g = \<lparr>ci_grid = g, ci_cells = fmempty, ci_entities = fmempty\<rparr>"

section \<open>Cell ranges\<close>

definition query_cell_volume :: "cell_coord3 \<Rightarrow> cell_coord3 \<Rightarrow> usize" where
  "query_cell_volume lo hi =
     usize_mul (usize_mul (axis_cell_count (cell_x lo) (cell_x hi)) (axis_cell_count (cell_y lo) (cell_y hi)))
       (axis_cell_count (cell_z lo) (cell_z hi))"

text \<open>The loop of \<open>cells_match_range\<close>: the iterator must deliver exactly the cells of the range.\<close>

fun cells_match_loop :: "cell_coord3 list \<Rightarrow> cell_coord3 list \<Rightarrow> bool" where
  "cells_match_loop [] cells \<longleftrightarrow> cells = []"
| "cells_match_loop (r # rs) cells \<longleftrightarrow>
     (case cells of [] \<Rightarrow> False | c # cs \<Rightarrow> c = r \<and> cells_match_loop rs cs)"

definition cells_match_range :: "cell_coord3 list \<Rightarrow> cell_coord3 \<Rightarrow> cell_coord3 \<Rightarrow> bool" where
  "cells_match_range cells lo hi \<longleftrightarrow>
     (if length cells \<noteq> query_cell_volume lo hi then False else cells_match_loop (cell_range lo hi) cells)"

section \<open>Updates\<close>

definition push_handle :: "cell_coord3 \<Rightarrow> entity_handle \<Rightarrow> cell_index \<Rightarrow> cell_index" where
  "push_handle c h ix =
     ix\<lparr>ci_cells := fmupd c ((case fmlookup (ci_cells ix) c of Some hs \<Rightarrow> hs | None \<Rightarrow> []) @ [h]) (ci_cells ix)\<rparr>"

definition remove_handle_from_cell :: "cell_coord3 \<Rightarrow> entity_handle \<Rightarrow> cell_index \<Rightarrow> cell_index" where
  "remove_handle_from_cell c h ix =
     (case fmlookup (ci_cells ix) c of
        None \<Rightarrow> ix
      | Some hs \<Rightarrow>
          let hs' = remove1 h hs in
          if hs' = [] then ix\<lparr>ci_cells := fmdrop c (ci_cells ix)\<rparr>
          else ix\<lparr>ci_cells := fmupd c hs' (ci_cells ix)\<rparr>)"

text \<open>The merge over the two sorted cell lists, with the retained, removed and inserted counts.\<close>

fun membership_diff ::
  "entity_handle \<Rightarrow> cell_coord3 list \<Rightarrow> cell_coord3 list \<Rightarrow> usize \<times> usize \<times> usize \<Rightarrow> cell_index \<Rightarrow>
   (usize \<times> usize \<times> usize) \<times> cell_index" where
  "membership_diff h [] [] cnt ix = (cnt, ix)"
| "membership_diff h [] (n # ns) (kept, gone, added) ix =
     membership_diff h [] ns (kept, gone, added + 1) (push_handle n h ix)"
| "membership_diff h (old # os) [] (kept, gone, added) ix =
     membership_diff h os [] (kept, gone + 1, added) (remove_handle_from_cell old h ix)"
| "membership_diff h (old # os) (n # ns) (kept, gone, added) ix =
     (if old = n then membership_diff h os ns (kept + 1, gone, added) ix
      else if old < n then
        membership_diff h os (n # ns) (kept, gone + 1, added) (remove_handle_from_cell old h ix)
      else membership_diff h (old # os) ns (kept, gone, added + 1) (push_handle n h ix))"

definition apply_membership_diff ::
  "entity_handle \<Rightarrow> cell_coord3 list \<Rightarrow> cell_coord3 list \<Rightarrow> cell_index \<Rightarrow> (usize \<times> usize \<times> usize) \<times> cell_index" where
  "apply_membership_diff h previous next_cells ix = membership_diff h previous next_cells (0, 0, 0) ix"

definition reclaim_cells :: "membership \<Rightarrow> update_scratch \<Rightarrow> update_scratch" where
  "reclaim_cells previous sc =
     (case previous of MultipleCells cs \<Rightarrow> sc\<lparr>us_cells := cs\<rparr> | PointCell _ \<Rightarrow> sc)"

definition upsert_point ::
  "cell_index \<Rightarrow> entity_handle \<Rightarrow> cell_coord3 \<Rightarrow> update_scratch \<Rightarrow> update_report \<times> cell_index \<times> update_scratch" where
  "upsert_point ix h c sc =
     (case fmlookup (ci_entities ix) h of
        None \<Rightarrow>
          let ix = push_handle c h ix in
          (\<lparr>ur_update = IndexInserted, ur_retained = 0, ur_removed = 0, ur_inserted = 1, ur_incremental = False\<rparr>,
           ix\<lparr>ci_entities := fmupd h (PointCell c) (ci_entities ix)\<rparr>, sc)
      | Some previous \<Rightarrow>
          let ix = ix\<lparr>ci_entities := fmdrop h (ci_entities ix)\<rparr> in
          if previous = PointCell c then
            (\<lparr>ur_update = IndexUnchanged, ur_retained = 1, ur_removed = 0, ur_inserted = 0, ur_incremental = False\<rparr>,
             ix\<lparr>ci_entities := fmupd h previous (ci_entities ix)\<rparr>, sc)
          else
            (case apply_membership_diff h (membership_slice previous) [c] ix of
               ((kept, gone, added), ix) \<Rightarrow>
                 (\<lparr>ur_update = IndexRelocated, ur_retained = kept, ur_removed = gone, ur_inserted = added,
                   ur_incremental = False\<rparr>,
                  ix\<lparr>ci_entities := fmupd h (PointCell c) (ci_entities ix)\<rparr>, reclaim_cells previous sc)))"

definition upsert_with_scratch ::
  "cell_index \<Rightarrow> entity_handle \<Rightarrow> position3 \<Rightarrow> bounds \<Rightarrow> update_scratch \<Rightarrow>
   update_report \<times> cell_index \<times> update_scratch" where
  "upsert_with_scratch ix h p b sc =
     (if b = BPoint then upsert_point ix h (cell_at (ci_grid ix) p) sc
      else
        let aabb = bounds_to_aabb b p;
            lo = cell_at (ci_grid ix) (aabb_min aabb);
            hi = cell_at (ci_grid ix) (aabb_max aabb)
        in case fmlookup (ci_entities ix) h of
             None \<Rightarrow>
               let sc = sc\<lparr>us_cells := cell_range lo hi\<rparr>;
                   ix = fold (\<lambda>c. push_handle c h) (us_cells sc) ix
               in (\<lparr>ur_update = IndexInserted, ur_retained = 0, ur_removed = 0,
                     ur_inserted = length (us_cells sc), ur_incremental = False\<rparr>,
                   ix\<lparr>ci_entities := fmupd h (MultipleCells (us_cells sc)) (ci_entities ix)\<rparr>,
                   sc\<lparr>us_cells := []\<rparr>)
           | Some previous \<Rightarrow>
               if cells_match_range (membership_slice previous) lo hi then
                 (\<lparr>ur_update = IndexUnchanged, ur_retained = length (membership_slice previous),
                   ur_removed = 0, ur_inserted = 0, ur_incremental = False\<rparr>, ix, sc)
               else
                 let sc = sc\<lparr>us_cells := cell_range lo hi\<rparr>;
                     ix = ix\<lparr>ci_entities := fmdrop h (ci_entities ix)\<rparr>
                 in case apply_membership_diff h (membership_slice previous) (us_cells sc) ix of
                      ((kept, gone, added), ix) \<Rightarrow>
                        (\<lparr>ur_update = IndexRelocated, ur_retained = kept, ur_removed = gone, ur_inserted = added,
                          ur_incremental = (case previous of MultipleCells _ \<Rightarrow> True | PointCell _ \<Rightarrow> False)\<rparr>,
                         ix\<lparr>ci_entities := fmupd h (MultipleCells (us_cells sc)) (ci_entities ix)\<rparr>,
                         reclaim_cells previous (sc\<lparr>us_cells := []\<rparr>)))"

definition upsert_tracked ::
  "cell_index \<Rightarrow> entity_handle \<Rightarrow> position3 \<Rightarrow> bounds \<Rightarrow> index_update \<times> cell_index" where
  "upsert_tracked ix h p b =
     (case upsert_with_scratch ix h p b \<lparr>us_cells = []\<rparr> of (rep, ix', _) \<Rightarrow> (ur_update rep, ix'))"

definition index_remove :: "cell_index \<Rightarrow> entity_handle \<Rightarrow> bool \<times> cell_index" where
  "index_remove ix h =
     (case fmlookup (ci_entities ix) h of
        None \<Rightarrow> (False, ix)
      | Some m \<Rightarrow>
          (True, fold (\<lambda>c. remove_handle_from_cell c h) (membership_slice m)
             (ix\<lparr>ci_entities := fmdrop h (ci_entities ix)\<rparr>)))"

section \<open>Queries\<close>

definition MAX_DENSE_DEDUP_SLOTS :: usize where "MAX_DENSE_DEDUP_SLOTS = 262144"

definition begin_query :: "query_scratch \<Rightarrow> query_scratch" where
  "begin_query sc =
     (let sc = sc\<lparr>qs_epoch := qs_epoch sc + 1\<rparr>;
          sc = (if qs_epoch sc = 0
                then sc\<lparr>qs_dense := map (\<lambda>_. 0) (qs_dense sc), qs_collisions := map (\<lambda>_. 0) (qs_collisions sc),
                        qs_epoch := 1\<rparr>
                else sc)
      in sc\<lparr>qs_sparse := {||}\<rparr>)"

definition query_clear :: "query_scratch \<Rightarrow> query_scratch" where
  "query_clear sc =
     (begin_query sc)\<lparr>qs_handles := [], qs_matching := [], qs_stats := query_stats_default\<rparr>"

definition insert_sparse :: "entity_handle \<Rightarrow> query_scratch \<Rightarrow> bool \<times> query_scratch" where
  "insert_sparse h sc = (h |\<notin>| qs_sparse sc, sc\<lparr>qs_sparse := finsert h (qs_sparse sc)\<rparr>)"

definition dedup_marker :: "u32 \<Rightarrow> u32 \<Rightarrow> u64" where
  "dedup_marker epoch generation = push_bit 32 (ucast epoch) OR ucast generation"

definition insert_seen :: "entity_handle \<Rightarrow> query_scratch \<Rightarrow> bool \<times> query_scratch" where
  "insert_seen h sc =
     (let index = unat (h_index h) in
      if index \<ge> MAX_DENSE_DEDUP_SLOTS then insert_sparse h sc
      else
        let sc = (if index \<ge> length (qs_dense sc)
                  then sc\<lparr>qs_dense := vec_resize (qs_dense sc) (index + 1) 0,
                          qs_collisions := vec_resize (qs_collisions sc) (index + 1) 0\<rparr>
                  else sc);
            marker = dedup_marker (qs_epoch sc) (h_generation h);
            previous = qs_dense sc ! index;
            previous_epoch = (ucast (drop_bit 32 previous) :: u32)
        in if previous_epoch \<noteq> qs_epoch sc then (True, sc\<lparr>qs_dense := (qs_dense sc)[index := marker]\<rparr>)
           else if qs_collisions sc ! index = qs_epoch sc then insert_sparse h sc
           else if previous = marker then (False, sc)
           else
             let sc = sc\<lparr>qs_collisions := (qs_collisions sc)[index := qs_epoch sc]\<rparr>;
                 previous_generation = (ucast (previous AND 0xFFFFFFFF) :: u32);
                 sc = snd (insert_sparse (EntityHandle (h_index h) previous_generation) sc)
             in insert_sparse h sc)"

fun collect_handles :: "entity_handle list \<Rightarrow> query_scratch \<Rightarrow> query_scratch" where
  "collect_handles [] sc = sc"
| "collect_handles (h # hs) sc =
     (case insert_seen h sc of (fresh, sc) \<Rightarrow>
        collect_handles hs (if fresh then sc\<lparr>qs_handles := qs_handles sc @ [h]\<rparr> else sc))"

definition collect_cell :: "cell_index \<Rightarrow> cell_coord3 \<Rightarrow> query_scratch \<Rightarrow> query_scratch" where
  "collect_cell ix c sc =
     (case fmlookup (ci_cells ix) c of
        None \<Rightarrow> sc
      | Some hs \<Rightarrow>
          collect_handles hs
            (sc\<lparr>qs_stats := (qs_stats sc)\<lparr>qt_matched := usize_add (qt_matched (qs_stats sc)) 1\<rparr>\<rparr>))"

text \<open>The hash map delivers its keys in some order; they are sorted before use.\<close>

definition query_aabb_into :: "cell_index \<Rightarrow> aabb3 \<Rightarrow> query_scratch \<Rightarrow> query_scratch" where
  "query_aabb_into ix a sc =
     (let sc = query_clear sc;
          lo = cell_at (ci_grid ix) (aabb_min a);
          hi = cell_at (ci_grid ix) (aabb_max a);
          grid_cells = query_cell_volume lo hi;
          sc = (if grid_cells \<le> map_len (ci_cells ix) then
                  fold (collect_cell ix) (cell_range lo hi)
                    (sc\<lparr>qs_stats := (qs_stats sc)\<lparr>qt_strategy := GridStrategy, qt_grid_probed := grid_cells\<rparr>\<rparr>)
                else
                  let keys = sorted_list_of_fset (fmdom (ci_cells ix));
                      sc = sc\<lparr>qs_stats := (qs_stats sc)\<lparr>qt_strategy := OccupiedCells,
                                 qt_occupied_scanned := map_len (ci_cells ix)\<rparr>,
                              qs_matching := sort (qs_matching sc @ filter (\<lambda>c. cell_in_range c lo hi) keys)\<rparr>
                  in fold (collect_cell ix) (qs_matching sc) sc)
      in sc\<lparr>qs_stats := (qs_stats sc)\<lparr>qt_candidates := length (qs_handles sc)\<rparr>\<rparr>)"

definition query_aabb :: "cell_index \<Rightarrow> aabb3 \<Rightarrow> entity_handle list" where
  "query_aabb ix a = qs_handles (query_aabb_into ix a query_scratch_new)"

definition query_sphere_into :: "cell_index \<Rightarrow> position3 \<Rightarrow> f32 \<Rightarrow> query_scratch \<Rightarrow> query_scratch" where
  "query_sphere_into ix center r sc = query_aabb_into ix (bounds_to_aabb (BSphere r) center) sc"

definition query_sphere :: "cell_index \<Rightarrow> position3 \<Rightarrow> f32 \<Rightarrow> entity_handle list" where
  "query_sphere ix center r = query_aabb ix (bounds_to_aabb (BSphere r) center)"

section \<open>Reads\<close>

definition handles_in_cell :: "cell_index \<Rightarrow> cell_coord3 \<Rightarrow> entity_handle list" where
  "handles_in_cell ix c = (case fmlookup (ci_cells ix) c of Some hs \<Rightarrow> hs | None \<Rightarrow> [])"

definition cells_for_handle :: "cell_index \<Rightarrow> entity_handle \<Rightarrow> cell_coord3 list option" where
  "cells_for_handle ix h = map_option membership_slice (fmlookup (ci_entities ix) h)"

definition index_entity_count :: "cell_index \<Rightarrow> usize" where
  "index_entity_count ix = map_len (ci_entities ix)"

definition point_membership_count :: "cell_index \<Rightarrow> usize" where
  "point_membership_count ix =
     length (filter (\<lambda>h. case fmlookup (ci_entities ix) h of Some (PointCell _) \<Rightarrow> True | _ \<Rightarrow> False)
       (sorted_list_of_fset (fmdom (ci_entities ix))))"

definition occupied_cell_count :: "cell_index \<Rightarrow> usize" where
  "occupied_cell_count ix = map_len (ci_cells ix)"

definition cell_occupancy_into :: "cell_index \<Rightarrow> cell_occupancy list" where
  "cell_occupancy_into ix =
     sort_key co_cell (map (\<lambda>c. \<lparr>co_cell = c, co_entities = length (handles_in_cell ix c)\<rparr>)
       (sorted_list_of_fset (fmdom (ci_cells ix))))"

section \<open>Buckets and membership agree\<close>

definition index_members :: "cell_index \<Rightarrow> entity_handle \<Rightarrow> cell_coord3 set" where
  "index_members ix h = (case fmlookup (ci_entities ix) h of Some m \<Rightarrow> set (membership_slice m) | None \<Rightarrow> {})"

definition no_empty_buckets :: "cell_index \<Rightarrow> bool" where
  "no_empty_buckets ix \<longleftrightarrow> (\<forall>c hs. fmlookup (ci_cells ix) c = Some hs \<longrightarrow> hs \<noteq> [])"

definition index_wf :: "cell_index \<Rightarrow> bool" where
  "index_wf ix \<longleftrightarrow> no_empty_buckets ix \<and> (\<forall>c. distinct (handles_in_cell ix c)) \<and>
     (\<forall>h m. fmlookup (ci_entities ix) h = Some m \<longrightarrow> sorted_wrt (<) (membership_slice m)) \<and>
     (\<forall>c h. h \<in> set (handles_in_cell ix c) \<longleftrightarrow> c \<in> index_members ix h)"

lemma index_wfD:
  assumes "index_wf ix"
  shows "no_empty_buckets ix" "distinct (handles_in_cell ix c)"
    "fmlookup (ci_entities ix) h = Some m \<Longrightarrow> sorted_wrt (<) (membership_slice m)"
    "h \<in> set (handles_in_cell ix c) \<longleftrightarrow> c \<in> index_members ix h"
  using assms by (simp_all add: index_wf_def)

lemma handles_in_cell_entities [simp]:
  "handles_in_cell (ix\<lparr>ci_entities := es\<rparr>) c = handles_in_cell ix c"
  "no_empty_buckets (ix\<lparr>ci_entities := es\<rparr>) \<longleftrightarrow> no_empty_buckets ix"
  by (simp_all add: handles_in_cell_def no_empty_buckets_def)

lemma push_handle_simps [simp]:
  "handles_in_cell (push_handle c h ix) c' = (if c' = c then handles_in_cell ix c @ [h] else handles_in_cell ix c')"
  "ci_entities (push_handle c h ix) = ci_entities ix" "ci_grid (push_handle c h ix) = ci_grid ix"
  "no_empty_buckets ix \<Longrightarrow> no_empty_buckets (push_handle c h ix)"
  by (auto simp: push_handle_def handles_in_cell_def no_empty_buckets_def split: option.splits)

lemma remove_handle_simps [simp]:
  "handles_in_cell (remove_handle_from_cell c h ix) c' =
     (if c' = c then remove1 h (handles_in_cell ix c) else handles_in_cell ix c')"
  "ci_entities (remove_handle_from_cell c h ix) = ci_entities ix"
  "ci_grid (remove_handle_from_cell c h ix) = ci_grid ix"
  "no_empty_buckets ix \<Longrightarrow> no_empty_buckets (remove_handle_from_cell c h ix)"
  by (auto simp: remove_handle_from_cell_def handles_in_cell_def no_empty_buckets_def Let_def
      split: option.splits)

lemma push_handles_fold:
  "distinct cs \<Longrightarrow> handles_in_cell (fold (\<lambda>c. push_handle c h) cs ix) c =
     (if c \<in> set cs then handles_in_cell ix c @ [h] else handles_in_cell ix c)"
  "ci_entities (fold (\<lambda>c. push_handle c h) cs ix) = ci_entities ix"
  "ci_grid (fold (\<lambda>c. push_handle c h) cs ix) = ci_grid ix"
  "no_empty_buckets ix \<Longrightarrow> no_empty_buckets (fold (\<lambda>c. push_handle c h) cs ix)"
  by (induction cs arbitrary: ix) auto

lemma remove_handles_fold:
  "distinct cs \<Longrightarrow> handles_in_cell (fold (\<lambda>c. remove_handle_from_cell c h) cs ix) c =
     (if c \<in> set cs then remove1 h (handles_in_cell ix c) else handles_in_cell ix c)"
  "ci_entities (fold (\<lambda>c. remove_handle_from_cell c h) cs ix) = ci_entities ix"
  "ci_grid (fold (\<lambda>c. remove_handle_from_cell c h) cs ix) = ci_grid ix"
  "no_empty_buckets ix \<Longrightarrow> no_empty_buckets (fold (\<lambda>c. remove_handle_from_cell c h) cs ix)"
  by (induction cs arbitrary: ix) auto

lemma membership_diff_buckets:
  "sorted_wrt (<) os \<Longrightarrow> sorted_wrt (<) ns \<Longrightarrow>
   handles_in_cell (snd (membership_diff h os ns cnt ix)) c =
     (if c \<in> set ns \<and> c \<notin> set os then handles_in_cell ix c @ [h]
      else if c \<in> set os \<and> c \<notin> set ns then remove1 h (handles_in_cell ix c) else handles_in_cell ix c)"
proof (induction h os ns cnt ix rule: membership_diff.induct)
  case (4 h old os n ns kept gone added ix)
  show ?case
  proof (cases old n rule: linorder_cases)
    case less
    then have "old \<notin> set (n # ns)" "old \<notin> set os" using 4(4,5) by auto
    then show ?thesis using less 4 by auto
  next
    case equal
    then have "old \<notin> set os" "n \<notin> set ns" using 4(4,5) by auto
    then show ?thesis using equal 4 by auto
  next
    case greater
    then have "n \<notin> set (old # os)" "n \<notin> set ns" using 4(4,5) by auto
    then show ?thesis using greater 4 by auto
  qed
qed auto

lemma membership_diff_frame:
  "ci_entities (snd (membership_diff h os ns cnt ix)) = ci_entities ix"
  "ci_grid (snd (membership_diff h os ns cnt ix)) = ci_grid ix"
  "no_empty_buckets ix \<Longrightarrow> no_empty_buckets (snd (membership_diff h os ns cnt ix))"
  by (induction h os ns cnt ix rule: membership_diff.induct) auto

lemma membership_diff_counts:
  "sorted_wrt (<) os \<Longrightarrow> sorted_wrt (<) ns \<Longrightarrow>
   fst (membership_diff h os ns (kept, gone, added) ix) =
     (kept + card (set os \<inter> set ns), gone + card (set os - set ns), added + card (set ns - set os))"
proof (induction h os ns "(kept, gone, added)" ix arbitrary: kept gone added rule: membership_diff.induct)
  case (2 h n ns kept gone added ix)
  then show ?case by (simp add: card_insert_if) auto
next
  case (3 h old os kept gone added ix)
  then show ?case by (simp add: card_insert_if) auto
next
  case (4 h old os n ns kept gone added ix)
  show ?case
  proof (cases old n rule: linorder_cases)
    case less
    then have *: "old \<notin> set (n # ns)" "old \<notin> set os" using 4(4,5) by auto
    then have "set (old # os) \<inter> set (n # ns) = set os \<inter> set (n # ns)"
      "set (old # os) - set (n # ns) = insert old (set os - set (n # ns))"
      "set (n # ns) - set (old # os) = set (n # ns) - set os"
      by auto
    moreover have "fst (membership_diff h os (n # ns) (kept, gone + 1, added) (remove_handle_from_cell old h ix)) =
        (kept + card (set os \<inter> set (n # ns)), gone + 1 + card (set os - set (n # ns)), added + card (set (n # ns) - set os))"
      using less 4(2,4,5) by simp
    ultimately show ?thesis using less less_imp_neq [OF less] * by (simp del: set_simps)
  next
    case equal
    then have *: "old \<notin> set os" "n \<notin> set ns" using 4(4,5) by auto
    then have "set (old # os) \<inter> set (n # ns) = insert old (set os \<inter> set ns)"
      "set (old # os) - set (n # ns) = set os - set ns" "set (n # ns) - set (old # os) = set ns - set os"
      using equal by auto
    moreover have "fst (membership_diff h os ns (kept + 1, gone, added) ix) =
        (kept + 1 + card (set os \<inter> set ns), gone + card (set os - set ns), added + card (set ns - set os))"
      using equal 4(1,4,5) by simp
    ultimately show ?thesis using equal * by (simp del: set_simps)
  next
    case greater
    then have *: "n \<notin> set (old # os)" "n \<notin> set ns" using 4(4,5) by auto
    then have "set (old # os) \<inter> set (n # ns) = set (old # os) \<inter> set ns"
      "set (old # os) - set (n # ns) = set (old # os) - set ns"
      "set (n # ns) - set (old # os) = insert n (set ns - set (old # os))"
      by auto
    moreover have "fst (membership_diff h (old # os) ns (kept, gone, added + 1) (push_handle n h ix)) =
        (kept + card (set (old # os) \<inter> set ns), gone + card (set (old # os) - set ns), added + 1 + card (set ns - set (old # os)))"
      using greater 4(3,4,5) by simp
    ultimately show ?thesis using less_imp_neq [OF greater] less_imp_le [OF greater, THEN leD] * by (simp del: set_simps)
  qed
qed simp

text \<open>Moving one entity from its old cells to new ones, as every update does.\<close>

lemma index_wf_moved:
  assumes wf: "index_wf ix" and old: "set os = index_members ix h"
    and m: "sorted_wrt (<) (membership_slice m)"
    and buckets: "\<And>c. handles_in_cell ix' c =
      (if c \<in> set (membership_slice m) \<and> c \<notin> set os then handles_in_cell ix c @ [h]
       else if c \<in> set os \<and> c \<notin> set (membership_slice m) then remove1 h (handles_in_cell ix c)
       else handles_in_cell ix c)"
    and "no_empty_buckets ix'" and es: "ci_entities ix' = fmupd h m (ci_entities ix)"
  shows "index_wf ix'" "index_members ix' h = set (membership_slice m)"
    "h' \<noteq> h \<Longrightarrow> index_members ix' h' = index_members ix h'"
proof -
  show mem: "index_members ix' h = set (membership_slice m)"
    and other: "h' \<noteq> h \<Longrightarrow> index_members ix' h' = index_members ix h'" for h'
    by (simp_all add: index_members_def es)
  note wf' = index_wfD [OF wf]
  have "distinct (handles_in_cell ix' c)" for c
    using wf'(2) [of c] wf'(4) [of h c] old by (auto simp: buckets)
  moreover have "h' \<in> set (handles_in_cell ix' c) \<longleftrightarrow> c \<in> index_members ix' h'" for c h'
    using wf'(2) [of c] wf'(4) [of h' c] wf'(4) [of h c] old
    by (cases "h' = h") (auto simp: buckets mem other)
  moreover have "sorted_wrt (<) (membership_slice m')" if "fmlookup (ci_entities ix') h' = Some m'" for h' m'
    using that m wf'(3) by (auto simp: es split: if_splits)
  ultimately show "index_wf ix'" using assms(5) unfolding index_wf_def by blast
qed

definition target_cells :: "cell_index \<Rightarrow> position3 \<Rightarrow> bounds \<Rightarrow> cell_coord3 list" where
  "target_cells ix p b = (if b = BPoint then [cell_at (ci_grid ix) p] else cells_for_bounds (ci_grid ix) p b)"

lemma target_cells_bounds: "target_cells ix p b = cells_for_bounds (ci_grid ix) p b"
proof (cases b)
  case BPoint
  have "cell_range c c = [c]" for c
  proof -
    have "set (cell_range c c) = {c}" by (cases c) (auto simp: cell_in_range_def intro: cell_coord3.expand)
    then show ?thesis using distinct_cell_range [of c c]
      by (cases "cell_range c c") (auto simp: subset_singleton_iff dest: equalityD1)
  qed
  then show ?thesis using BPoint by (simp add: target_cells_def cells_for_bounds_def cells_for_aabb_def)
qed (simp_all add: target_cells_def)

lemma target_cells_sorted: "sorted_wrt (<) (target_cells ix p b)"
  unfolding target_cells_bounds cells_for_bounds_def cells_for_aabb_def by (rule cell_range_strict_sorted)

lemma cells_match_loop_eq: "cells_match_loop rs cells \<longleftrightarrow> cells = rs"
  by (induction rs arbitrary: cells) (auto split: list.splits)

lemma cells_match_range_eq: "cells_match_range cells lo hi \<Longrightarrow> cells = cell_range lo hi"
  by (simp add: cells_match_range_def cells_match_loop_eq split: if_splits)

text \<open>What one update reports: the sizes of the three parts of the merge.\<close>

definition report_exact :: "cell_coord3 set \<Rightarrow> cell_coord3 set \<Rightarrow> bool \<Rightarrow> update_report \<Rightarrow> bool" where
  "report_exact old new known r \<longleftrightarrow>
     ur_retained r = card (old \<inter> new) \<and> ur_removed r = card (old - new) \<and> ur_inserted r = card (new - old) \<and>
     (ur_update r = IndexInserted \<longleftrightarrow> \<not> known)"

lemma drop_update: "fmupd h m (fmdrop h es) = fmupd h m es"
  by (rule fmap_ext) auto

lemma fmupd_same: "fmlookup es h = Some m \<Longrightarrow> fmupd h m es = es"
  by (rule fmap_ext) auto

lemma index_wf_slice:
  "index_wf ix \<Longrightarrow> fmlookup (ci_entities ix) h = Some m \<Longrightarrow>
   set (membership_slice m) = index_members ix h \<and> sorted_wrt (<) (membership_slice m)"
  by (auto simp: index_members_def dest: index_wfD(3))

lemma diff_update:
  assumes wf: "index_wf ix" and m: "fmlookup (ci_entities ix) h = Some m"
    and new: "sorted_wrt (<) (membership_slice m')"
    and diff: "apply_membership_diff h (membership_slice m) (membership_slice m')
      (ix\<lparr>ci_entities := fmdrop h (ci_entities ix)\<rparr>) = ((kept, gone, added), ix1)"
    and ix': "ix' = ix1\<lparr>ci_entities := fmupd h m' (ci_entities ix1)\<rparr>"
  shows "index_wf ix' \<and> ci_grid ix' = ci_grid ix \<and> index_members ix' h = set (membership_slice m') \<and>
    (\<forall>h'. h' \<noteq> h \<longrightarrow> index_members ix' h' = index_members ix h') \<and>
    kept = card (index_members ix h \<inter> set (membership_slice m')) \<and>
    gone = card (index_members ix h - set (membership_slice m')) \<and>
    added = card (set (membership_slice m') - index_members ix h)"
proof -
  let ?ix0 = "ix\<lparr>ci_entities := fmdrop h (ci_entities ix)\<rparr>"
  note old = index_wf_slice [OF wf m]
  have res: "fst (membership_diff h (membership_slice m) (membership_slice m') (0, 0, 0) ?ix0) = (kept, gone, added)"
    "snd (membership_diff h (membership_slice m) (membership_slice m') (0, 0, 0) ?ix0) = ix1"
    using diff by (simp_all add: apply_membership_diff_def)
  have es: "ci_entities ix' = fmupd h m' (ci_entities ix)"
    using membership_diff_frame(1) [of h "membership_slice m" "membership_slice m'" "(0, 0, 0)" ?ix0]
    by (simp add: ix' res drop_update)
  have grid: "ci_grid ix' = ci_grid ix"
    using membership_diff_frame(2) [of h "membership_slice m" "membership_slice m'" "(0, 0, 0)" ?ix0]
    by (simp add: ix' res)
  have nonempty: "no_empty_buckets ix'"
    using membership_diff_frame(3) [of ?ix0 h "membership_slice m" "membership_slice m'" "(0, 0, 0)"] index_wfD(1) [OF wf]
    by (simp add: ix' res)
  have buckets: "handles_in_cell ix' c =
      (if c \<in> set (membership_slice m') \<and> c \<notin> set (membership_slice m) then handles_in_cell ix c @ [h]
       else if c \<in> set (membership_slice m) \<and> c \<notin> set (membership_slice m') then remove1 h (handles_in_cell ix c)
       else handles_in_cell ix c)" for c
    using membership_diff_buckets [of "membership_slice m" "membership_slice m'" h "(0, 0, 0)" ?ix0 c] old new
    by (simp add: ix' res)
  show ?thesis
    using index_wf_moved [OF wf conjunct1 [OF old] new buckets nonempty es] grid
      membership_diff_counts [of "membership_slice m" "membership_slice m'" h 0 0 0 ?ix0] old new res(1)
    by simp
qed

lemma insert_update:
  assumes wf: "index_wf ix" and m: "fmlookup (ci_entities ix) h = None"
    and new: "sorted_wrt (<) (membership_slice m')"
    and buckets: "\<And>c. handles_in_cell ix1 c =
      (if c \<in> set (membership_slice m') then handles_in_cell ix c @ [h] else handles_in_cell ix c)"
    and frame: "ci_entities ix1 = ci_entities ix" "ci_grid ix1 = ci_grid ix" "no_empty_buckets ix1"
    and ix': "ix' = ix1\<lparr>ci_entities := fmupd h m' (ci_entities ix1)\<rparr>"
  shows "index_wf ix' \<and> ci_grid ix' = ci_grid ix \<and> index_members ix' h = set (membership_slice m') \<and>
    (\<forall>h'. h' \<noteq> h \<longrightarrow> index_members ix' h' = index_members ix h')"
proof -
  have old: "set [] = index_members ix h" by (simp add: index_members_def m)
  have "index_wf ix'" "index_members ix' h = set (membership_slice m')"
    "h' \<noteq> h \<Longrightarrow> index_members ix' h' = index_members ix h'" for h'
    by (rule index_wf_moved [OF wf old new]; simp add: ix' frame buckets)+
  then show ?thesis by (simp add: ix' frame)
qed

lemma upsert_effect:
  assumes wf: "index_wf ix" and up: "upsert_with_scratch ix h p b sc = (rep, ix', sc')"
  shows "index_wf ix' \<and> ci_grid ix' = ci_grid ix \<and> index_members ix' h = set (target_cells ix p b) \<and>
    (\<forall>h'. h' \<noteq> h \<longrightarrow> index_members ix' h' = index_members ix h') \<and>
    report_exact (index_members ix h) (set (target_cells ix p b)) (fmlookup (ci_entities ix) h \<noteq> None) rep"
proof (cases "fmlookup (ci_entities ix) h")
  case None
  have mem: "index_members ix h = {}" by (simp add: index_members_def None)
  let ?m = "if b = BPoint then PointCell (cell_at (ci_grid ix) p) else MultipleCells (target_cells ix p b)"
  let ?ix1 = "fold (\<lambda>c. push_handle c h) (target_cells ix p b) ix"
  have slice: "membership_slice ?m = target_cells ix p b" by (simp add: target_cells_def)
  have sorted: "sorted_wrt (<) (membership_slice ?m)" unfolding slice by (rule target_cells_sorted)
  then have dist: "distinct (target_cells ix p b)" unfolding slice using strict_sorted_iff by blast
  have ix': "ix' = ?ix1\<lparr>ci_entities := fmupd h ?m (ci_entities ?ix1)\<rparr>"
    using up None by (auto simp: upsert_with_scratch_def upsert_point_def target_cells_def Let_def
        cells_for_bounds_def cells_for_aabb_def)
  have rep: "report_exact {} (set (target_cells ix p b)) False rep"
    using up None dist
    by (auto simp: upsert_with_scratch_def upsert_point_def target_cells_def Let_def report_exact_def
        cells_for_bounds_def cells_for_aabb_def distinct_card split: if_splits)
  show ?thesis
    using insert_update [OF wf None sorted, of ?ix1 ix'] push_handles_fold(1) [OF dist, where h = h and ix = ix] rep None
      push_handles_fold(2-4) [where h = h and ix = ix and cs = "target_cells ix p b"] index_wfD(1) [OF wf]
    unfolding slice mem by (simp add: ix')
next
  case (Some m)
  have old: "set (membership_slice m) = index_members ix h" "sorted_wrt (<) (membership_slice m)"
    using index_wf_slice [OF wf Some] by simp_all
  let ?m = "if b = BPoint then PointCell (cell_at (ci_grid ix) p) else MultipleCells (target_cells ix p b)"
  have slice: "membership_slice ?m = target_cells ix p b" by (simp add: target_cells_def)
  have sorted: "sorted_wrt (<) (membership_slice ?m)" unfolding slice by (rule target_cells_sorted)
  show ?thesis
  proof (cases "ur_update rep = IndexUnchanged")
    case True
    have same: "membership_slice m = target_cells ix p b" and ix': "ix' = ix"
      and rep: "ur_retained rep = length (membership_slice m)" "ur_removed rep = 0" "ur_inserted rep = 0"
      using up Some True
      by (auto simp: upsert_with_scratch_def upsert_point_def Let_def target_cells_def drop_update fmupd_same
          cells_for_bounds_def cells_for_aabb_def split: if_splits prod.splits
          dest!: cells_match_range_eq)
    have "length (membership_slice m) = card (set (membership_slice m))"
      using old(2) strict_sorted_iff distinct_card by metis
    then show ?thesis
      using wf True rep old(1) by (simp add: ix' same [symmetric] report_exact_def Some)
  next
    case False
    obtain kept gone added ix1 where
      diff: "apply_membership_diff h (membership_slice m) (membership_slice ?m)
        (ix\<lparr>ci_entities := fmdrop h (ci_entities ix)\<rparr>) = ((kept, gone, added), ix1)"
      by (metis prod.collapse)
    have result: "ix' = ix1\<lparr>ci_entities := fmupd h ?m (ci_entities ix1)\<rparr> \<and> ur_update rep = IndexRelocated \<and>
        ur_retained rep = kept \<and> ur_removed rep = gone \<and> ur_inserted rep = added"
    proof (cases "b = BPoint")
      case True
      have "m \<noteq> PointCell (cell_at (ci_grid ix) p)"
        using up Some False True by (auto simp: upsert_with_scratch_def upsert_point_def Let_def)
      then show ?thesis
        using up Some True diff by (clarsimp simp: upsert_with_scratch_def upsert_point_def Let_def)
    next
      case box: False
      let ?lo = "cell_at (ci_grid ix) (aabb_min (bounds_to_aabb b p))"
      let ?hi = "cell_at (ci_grid ix) (aabb_max (bounds_to_aabb b p))"
      have target: "target_cells ix p b = cell_range ?lo ?hi"
        using box by (simp add: target_cells_def cells_for_bounds_def cells_for_aabb_def)
      have "\<not> cells_match_range (membership_slice m) ?lo ?hi"
        using up Some False box by (auto simp: upsert_with_scratch_def Let_def)
      then show ?thesis
        using up Some box diff by (clarsimp simp: upsert_with_scratch_def Let_def target)
    qed
    note moved = diff_update [OF wf Some sorted diff conjunct1 [OF result], unfolded slice]
    have "report_exact (index_members ix h) (set (target_cells ix p b)) (fmlookup (ci_entities ix) h \<noteq> None) rep"
      using moved conjunct2 [OF result] by (simp add: report_exact_def Some)
    then show ?thesis using moved by blast
  qed
qed

lemma remove_effect:
  assumes wf: "index_wf ix" and rm: "index_remove ix h = (hit, ix')"
  shows "index_wf ix' \<and> ci_grid ix' = ci_grid ix \<and> index_members ix' h = {} \<and>
    (\<forall>h'. h' \<noteq> h \<longrightarrow> index_members ix' h' = index_members ix h') \<and> (hit \<longleftrightarrow> fmlookup (ci_entities ix) h \<noteq> None)"
proof (cases "fmlookup (ci_entities ix) h")
  case None
  then show ?thesis using wf rm by (auto simp: index_remove_def index_members_def)
next
  case (Some m)
  note wf' = index_wfD [OF wf]
  have old: "set (membership_slice m) = index_members ix h" "distinct (membership_slice m)"
    using index_wf_slice [OF wf Some] strict_sorted_iff by blast+
  have ix': "ix' = fold (\<lambda>c. remove_handle_from_cell c h) (membership_slice m)
      (ix\<lparr>ci_entities := fmdrop h (ci_entities ix)\<rparr>)" and hit
    using rm Some by (auto simp: index_remove_def)
  have buckets: "handles_in_cell ix' c =
      (if c \<in> index_members ix h then remove1 h (handles_in_cell ix c) else handles_in_cell ix c)" for c
    by (simp add: ix' remove_handles_fold(1) [OF old(2)] old(1))
  have es: "ci_entities ix' = fmdrop h (ci_entities ix)" and grid: "ci_grid ix' = ci_grid ix"
    by (simp_all add: ix' remove_handles_fold)
  have mem: "index_members ix' h = {}" and other: "h' \<noteq> h \<Longrightarrow> index_members ix' h' = index_members ix h'" for h'
    by (simp_all add: index_members_def es)
  have "distinct (handles_in_cell ix' c)" for c using wf'(2) [of c] by (simp add: buckets)
  moreover have "h' \<in> set (handles_in_cell ix' c) \<longleftrightarrow> c \<in> index_members ix' h'" for c h'
    using wf'(2) [of c] wf'(4) [of h' c] wf'(4) [of h c]
    by (cases "h' = h") (auto simp: buckets mem other)
  moreover have "sorted_wrt (<) (membership_slice m')" if "fmlookup (ci_entities ix') h' = Some m'" for h' m'
    using that wf'(3) by (auto simp: es split: if_splits)
  moreover have "no_empty_buckets ix'" using wf'(1) by (simp add: ix' remove_handles_fold)
  ultimately have "index_wf ix'" unfolding index_wf_def by blast
  then show ?thesis using grid mem other \<open>hit\<close> Some by simp
qed

lemma index_new_wf: "index_wf (cell_index_new g)"
  by (simp add: index_wf_def cell_index_new_def no_empty_buckets_def handles_in_cell_def index_members_def)

section \<open>The epoch-stamped seen table is a set\<close>

definition epoch_of :: "u64 \<Rightarrow> u32" where "epoch_of x = ucast (drop_bit 32 x)"
definition generation_of :: "u64 \<Rightarrow> u32" where "generation_of x = ucast (x AND 0xFFFFFFFF)"

lemma generation_of_take: "generation_of x = ucast (take_bit 32 x)"
proof -
  have "(0xFFFFFFFF :: u64) = mask 32" by (simp add: mask_eq_exp_minus_1)
  then show ?thesis by (simp only: generation_of_def take_bit_eq_mask)
qed

lemma marker_parts [simp]:
  "epoch_of (dedup_marker e g) = e" "generation_of (dedup_marker e g) = g"
proof -
  show "epoch_of (dedup_marker e g) = e"
    by (rule bit_word_eqI)
      (auto simp: epoch_of_def dedup_marker_def bit_ucast_iff bit_drop_bit_eq bit_or_iff bit_push_bit_iff
        dest: bit_imp_le_length)
  show "generation_of (dedup_marker e g) = g"
    by (rule bit_word_eqI)
      (auto simp: generation_of_take dedup_marker_def bit_ucast_iff bit_and_iff bit_or_iff bit_push_bit_iff
        bit_take_bit_iff dest: bit_imp_le_length)
qed

lemma marker_of_parts: "dedup_marker (epoch_of x) (generation_of x) = x"
proof (rule bit_word_eqI)
  fix n assume "n < LENGTH(64)"
  then show "bit (dedup_marker (epoch_of x) (generation_of x)) n \<longleftrightarrow> bit x n"
    by (cases "n < 32")
      (auto simp: generation_of_take epoch_of_def dedup_marker_def bit_ucast_iff bit_and_iff bit_or_iff
        bit_push_bit_iff bit_drop_bit_eq bit_take_bit_iff)
qed

lemma marker_iff: "x = dedup_marker e g \<longleftrightarrow> epoch_of x = e \<and> generation_of x = g"
  using marker_of_parts [of x] by auto

lemma marker_inj [simp]: "dedup_marker e g = dedup_marker e' g' \<longleftrightarrow> e = e' \<and> g = g'"
  using marker_iff [of "dedup_marker e g"] by simp

lemma epoch_of_0 [simp]: "epoch_of 0 = 0"
  by (simp add: epoch_of_def)

definition scratch_wf :: "query_scratch \<Rightarrow> bool" where
  "scratch_wf sc \<longleftrightarrow> length (qs_collisions sc) = length (qs_dense sc) \<and>
     (\<forall>x \<in> set (qs_dense sc). epoch_of x \<le> qs_epoch sc) \<and> (\<forall>x \<in> set (qs_collisions sc). x \<le> qs_epoch sc)"

text \<open>What the table says about a handle in the current epoch.\<close>

definition collided :: "query_scratch \<Rightarrow> nat \<Rightarrow> bool" where
  "collided sc i \<longleftrightarrow> MAX_DENSE_DEDUP_SLOTS \<le> i \<or> vec_get (qs_collisions sc) i = Some (qs_epoch sc)"

definition seen_handle :: "query_scratch \<Rightarrow> entity_handle \<Rightarrow> bool" where
  "seen_handle sc h \<longleftrightarrow>
     (if collided sc (unat (h_index h)) then h |\<in>| qs_sparse sc
      else vec_get (qs_dense sc) (unat (h_index h)) = Some (dedup_marker (qs_epoch sc) (h_generation h)))"

definition dedup_ok :: "query_scratch \<Rightarrow> bool" where
  "dedup_ok sc \<longleftrightarrow> scratch_wf sc \<and> qs_epoch sc \<noteq> 0 \<and>
     (\<forall>i. vec_get (qs_collisions sc) i = Some (qs_epoch sc) \<longrightarrow>
       (\<exists>x. vec_get (qs_dense sc) i = Some x \<and> epoch_of x = qs_epoch sc)) \<and>
     (\<forall>h. h |\<in>| qs_sparse sc \<longrightarrow> collided sc (unat (h_index h)))"

lemma begin_query_ok:
  assumes "scratch_wf sc"
  shows "dedup_ok (begin_query sc) \<and> (\<forall>h. \<not> seen_handle (begin_query sc) h)"
proof -
  let ?sc = "begin_query sc" let ?e = "qs_epoch ?sc"
  have len: "length (qs_collisions ?sc) = length (qs_dense ?sc)"
    and e: "?e \<noteq> 0" and sparse: "qs_sparse ?sc = {||}"
    using assms by (auto simp: begin_query_def scratch_wf_def Let_def)
  have below: "epoch_of x < ?e" if "x \<in> set (qs_dense ?sc)" for x
  proof (cases "qs_epoch sc + 1 = 0")
    case False
    then have "qs_epoch sc < qs_epoch sc + 1" using unatSuc [of "qs_epoch sc"] by (simp add: word_less_nat_alt add.commute)
    then show ?thesis using that False assms by (auto simp: begin_query_def scratch_wf_def Let_def)
  qed (use that in \<open>auto simp: begin_query_def Let_def\<close>)
  have below2: "x < ?e" if "x \<in> set (qs_collisions ?sc)" for x
  proof (cases "qs_epoch sc + 1 = 0")
    case False
    then have "qs_epoch sc < qs_epoch sc + 1" using unatSuc [of "qs_epoch sc"] by (simp add: word_less_nat_alt add.commute)
    then show ?thesis using that False assms by (auto simp: begin_query_def scratch_wf_def Let_def)
  qed (use that in \<open>auto simp: begin_query_def Let_def\<close>)
  have no: "vec_get (qs_collisions ?sc) i \<noteq> Some ?e" for i
    using below2 [of ?e] by (auto simp: vec_get_Some_iff in_set_conv_nth)
  have "dedup_ok ?sc"
    using len e sparse less_imp_le [OF below] less_imp_le [OF below2] no
    by (simp add: dedup_ok_def scratch_wf_def)
  moreover have "\<not> seen_handle ?sc h" for h
  proof
    assume "seen_handle ?sc h"
    then have "dedup_marker ?e (h_generation h) \<in> set (qs_dense ?sc)"
      by (auto simp: seen_handle_def sparse vec_get_Some_iff in_set_conv_nth split: if_splits)
    from below [OF this] show False by simp
  qed
  ultimately show ?thesis by blast
qed

text \<open>Growing the table changes nothing that it says.\<close>

definition grow_table :: "nat \<Rightarrow> query_scratch \<Rightarrow> query_scratch" where
  "grow_table i sc =
     (if i \<ge> length (qs_dense sc)
      then sc\<lparr>qs_dense := vec_resize (qs_dense sc) (i + 1) 0, qs_collisions := vec_resize (qs_collisions sc) (i + 1) 0\<rparr>
      else sc)"

lemma grow_table_frame [simp]:
  "qs_epoch (grow_table i sc) = qs_epoch sc" "qs_sparse (grow_table i sc) = qs_sparse sc"
  "qs_handles (grow_table i sc) = qs_handles sc" "qs_matching (grow_table i sc) = qs_matching sc"
  "qs_stats (grow_table i sc) = qs_stats sc" "i < length (qs_dense (grow_table i sc))"
  by (auto simp: grow_table_def)

lemma vec_get_grow:
  "vec_get (if i \<ge> length xs then vec_resize xs (i + 1) z else xs) j =
     (case vec_get xs j of Some x \<Rightarrow> Some x | None \<Rightarrow> if length xs \<le> j \<and> j \<le> i then Some z else None)"
  by (auto simp: vec_get_resize vec_get_None_iff split: option.splits) (auto simp: vec_get_def)

lemma set_vec_resize: "set (vec_resize xs n z) \<subseteq> insert z (set xs)"
  by (auto simp: vec_resize_def dest: in_set_takeD)

lemma grow_table_ok:
  assumes "dedup_ok sc"
  shows "dedup_ok (grow_table i sc)" "seen_handle (grow_table i sc) h \<longleftrightarrow> seen_handle sc h"
    "collided (grow_table i sc) j \<longleftrightarrow> collided sc j"
proof -
  have len: "length (qs_collisions sc) = length (qs_dense sc)" and e: "qs_epoch sc \<noteq> 0"
    using assms by (auto simp: dedup_ok_def scratch_wf_def)
  have parts: "qs_dense (grow_table i sc) =
      (if length (qs_dense sc) \<le> i then vec_resize (qs_dense sc) (i + 1) 0 else qs_dense sc)"
    "qs_collisions (grow_table i sc) =
      (if length (qs_collisions sc) \<le> i then vec_resize (qs_collisions sc) (i + 1) 0 else qs_collisions sc)"
    by (simp_all add: grow_table_def len)
  have dense: "vec_get (qs_dense (grow_table i sc)) j =
      (case vec_get (qs_dense sc) j of Some x \<Rightarrow> Some x
       | None \<Rightarrow> if length (qs_dense sc) \<le> j \<and> j \<le> i then Some 0 else None)" for j
    unfolding parts by (rule vec_get_grow)
  have coll: "vec_get (qs_collisions (grow_table i sc)) j =
      (case vec_get (qs_collisions sc) j of Some x \<Rightarrow> Some x
       | None \<Rightarrow> if length (qs_dense sc) \<le> j \<and> j \<le> i then Some 0 else None)" for j
    unfolding parts using vec_get_grow [of "qs_collisions sc" i 0 j] by (simp only: len)
  show c: "collided (grow_table i sc) j \<longleftrightarrow> collided sc j" for j
    using e by (auto simp: collided_def coll split: option.splits)
  have "0 \<noteq> dedup_marker (qs_epoch sc) g" for g using e marker_iff [of 0] by auto
  then show "seen_handle (grow_table i sc) h \<longleftrightarrow> seen_handle sc h"
    by (auto simp: seen_handle_def c dense split: option.splits)
  show "dedup_ok (grow_table i sc)"
    using assms set_vec_resize [of "qs_dense sc" "i + 1" 0] set_vec_resize [of "qs_collisions sc" "i + 1" 0]
    by (auto simp: dedup_ok_def c dense coll split: option.splits if_splits)
      (auto simp: scratch_wf_def grow_table_def)
qed

lemma insert_sparse_ok:
  assumes "dedup_ok sc" "collided sc (unat (h_index h))"
  shows "fst (insert_sparse h sc) \<longleftrightarrow> \<not> seen_handle sc h" "dedup_ok (snd (insert_sparse h sc))"
    "seen_handle (snd (insert_sparse h sc)) h' \<longleftrightarrow> seen_handle sc h' \<or> h' = h"
    "collided (snd (insert_sparse h sc)) j \<longleftrightarrow> collided sc j"
  using assms
  by (auto simp: insert_sparse_def seen_handle_def dedup_ok_def collided_def scratch_wf_def)

lemma insert_sparse_frame [simp]:
  "qs_handles (snd (insert_sparse h sc)) = qs_handles sc" "qs_matching (snd (insert_sparse h sc)) = qs_matching sc"
  "qs_stats (snd (insert_sparse h sc)) = qs_stats sc" "qs_epoch (snd (insert_sparse h sc)) = qs_epoch sc"
  by (simp_all add: insert_sparse_def)

text \<open>A second generation in a slot: both handles move to the sparse set.\<close>

lemma collide_ok:
  assumes ok: "dedup_ok sc" and i: "i < length (qs_dense sc)" "i < MAX_DENSE_DEDUP_SLOTS"
    and old: "qs_dense sc ! i = dedup_marker (qs_epoch sc) g" and free: "\<not> collided sc i"
    and hi: "unat (h_index h) = i" and neq: "h_generation h \<noteq> g"
    and sc1: "sc1 = sc\<lparr>qs_collisions := (qs_collisions sc)[i := qs_epoch sc]\<rparr>"
    and sc2: "sc2 = snd (insert_sparse (EntityHandle (h_index h) g) sc1)"
  shows "fst (insert_sparse h sc2) \<and> \<not> seen_handle sc h" "dedup_ok (snd (insert_sparse h sc2))"
    "seen_handle (snd (insert_sparse h sc2)) h' \<longleftrightarrow> seen_handle sc h' \<or> h' = h"
proof -
  have len: "length (qs_collisions sc) = length (qs_dense sc)"
    using ok by (auto simp: dedup_ok_def scratch_wf_def)
  have c1: "collided sc1 j \<longleftrightarrow> j = i \<or> collided sc j" for j
    using i len by (auto simp: sc1 collided_def vec_get_update)
  have ok1: "dedup_ok sc1"
    using ok i old set_update_subset_insert [of "qs_collisions sc" i "qs_epoch sc"]
    by (auto simp: dedup_ok_def c1) (auto simp: scratch_wf_def sc1 vec_get_update vec_get_Some_iff split: if_splits)
  have no_sparse: "k |\<notin>| qs_sparse sc" if "unat (h_index k) = i" for k
    using ok free that unfolding dedup_ok_def by blast
  have slot: "seen_handle sc k \<longleftrightarrow> h_generation k = g" if "unat (h_index k) = i" for k
    using free that old i by (auto simp: seen_handle_def vec_get_Some_iff marker_iff)
  have seen1: "seen_handle sc1 k \<longleftrightarrow> unat (h_index k) \<noteq> i \<and> seen_handle sc k" for k
    using no_sparse [of k] by (auto simp: seen_handle_def c1) (auto simp: sc1)
  let ?old = "EntityHandle (h_index h) g"
  have "collided sc1 (unat (h_index ?old))" using hi by (simp add: c1)
  note step1 = insert_sparse_ok [OF ok1 this]
  have "collided sc2 (unat (h_index h))" using hi step1(4) by (simp add: sc2 c1)
  note step2 = insert_sparse_ok [OF _ this]
  have ok2: "dedup_ok sc2" unfolding sc2 by (rule step1(2))
  have seen2: "seen_handle sc2 k \<longleftrightarrow> seen_handle sc1 k \<or> k = ?old" for k unfolding sc2 by (rule step1(3))
  have "h \<noteq> ?old" using neq by (cases h) auto
  then show "fst (insert_sparse h sc2) \<and> \<not> seen_handle sc h"
    using step2(1) [OF ok2] seen2 seen1 slot [OF hi] neq hi by simp
  show "dedup_ok (snd (insert_sparse h sc2))" by (rule step2(2) [OF ok2])
  have "seen_handle sc k \<longleftrightarrow> k = ?old" if "unat (h_index k) = i" for k
  proof -
    have "h_index k = h_index h" using that hi by (simp add: word_unat_eq_iff)
    then show ?thesis using slot [OF that] by (cases k) auto
  qed
  then show "seen_handle (snd (insert_sparse h sc2)) h' \<longleftrightarrow> seen_handle sc h' \<or> h' = h"
    using step2(3) [OF ok2, of h'] seen2 [of h'] seen1 [of h'] hi by (cases "unat (h_index h') = i") auto
qed

lemma insert_seen_grown:
  "insert_seen h sc =
     (let i = unat (h_index h); sc' = grow_table i sc in
      if i \<ge> MAX_DENSE_DEDUP_SLOTS then insert_sparse h sc
      else if epoch_of (qs_dense sc' ! i) \<noteq> qs_epoch sc'
        then (True, sc'\<lparr>qs_dense := (qs_dense sc')[i := dedup_marker (qs_epoch sc') (h_generation h)]\<rparr>)
      else if qs_collisions sc' ! i = qs_epoch sc' then insert_sparse h sc'
      else if qs_dense sc' ! i = dedup_marker (qs_epoch sc') (h_generation h) then (False, sc')
      else insert_sparse h (snd (insert_sparse (EntityHandle (h_index h) (generation_of (qs_dense sc' ! i)))
             (sc'\<lparr>qs_collisions := (qs_collisions sc')[i := qs_epoch sc']\<rparr>))))"
  by (simp add: insert_seen_def grow_table_def epoch_of_def generation_of_def Let_def)

lemma insert_seen_ok:
  assumes "dedup_ok sc"
  shows "(fst (insert_seen h sc) \<longleftrightarrow> \<not> seen_handle sc h) \<and> dedup_ok (snd (insert_seen h sc)) \<and>
    (\<forall>h'. seen_handle (snd (insert_seen h sc)) h' \<longleftrightarrow> seen_handle sc h' \<or> h' = h)"
proof -
  let ?i = "unat (h_index h)" let ?sc = "grow_table ?i sc"
  note grown = grow_table_ok [OF assms, of ?i]
  have wf: "length (qs_collisions ?sc) = length (qs_dense ?sc)" "?i < length (qs_dense ?sc)"
    using grown(1) by (auto simp: dedup_ok_def scratch_wf_def)
  consider (big) "MAX_DENSE_DEDUP_SLOTS \<le> ?i"
    | (new) "?i < MAX_DENSE_DEDUP_SLOTS" "epoch_of (qs_dense ?sc ! ?i) \<noteq> qs_epoch ?sc"
    | (sparse) "?i < MAX_DENSE_DEDUP_SLOTS" "epoch_of (qs_dense ?sc ! ?i) = qs_epoch ?sc"
        "qs_collisions ?sc ! ?i = qs_epoch ?sc"
    | (same) "?i < MAX_DENSE_DEDUP_SLOTS" "epoch_of (qs_dense ?sc ! ?i) = qs_epoch ?sc"
        "qs_collisions ?sc ! ?i \<noteq> qs_epoch ?sc" "qs_dense ?sc ! ?i = dedup_marker (qs_epoch ?sc) (h_generation h)"
    | (collide) "?i < MAX_DENSE_DEDUP_SLOTS" "epoch_of (qs_dense ?sc ! ?i) = qs_epoch ?sc"
        "qs_collisions ?sc ! ?i \<noteq> qs_epoch ?sc" "qs_dense ?sc ! ?i \<noteq> dedup_marker (qs_epoch ?sc) (h_generation h)"
    by linarith
  then show ?thesis
  proof cases
    case big
    then have "collided sc ?i" by (simp add: collided_def)
    from insert_sparse_ok [OF assms this] big show ?thesis by (simp add: insert_seen_grown Let_def)
  next
    case sparse
    then have "collided ?sc ?i" using wf by (simp add: collided_def vec_get_Some_iff)
    from insert_sparse_ok [OF grown(1) this] sparse grown(2) show ?thesis by (simp add: insert_seen_grown Let_def)
  next
    case same
    then have "seen_handle ?sc h" using wf by (simp add: seen_handle_def collided_def vec_get_Some_iff)
    then show ?thesis using same grown(1,2) by (auto simp: insert_seen_grown Let_def)
  next
    case collide
    have old: "qs_dense ?sc ! ?i = dedup_marker (qs_epoch ?sc) (generation_of (qs_dense ?sc ! ?i))"
      using collide(2) marker_of_parts [of "qs_dense ?sc ! ?i"] by simp
    have neq: "h_generation h \<noteq> generation_of (qs_dense ?sc ! ?i)" using collide(4) old by auto
    have free: "\<not> collided ?sc ?i" using collide(1,3) wf by (simp add: collided_def vec_get_Some_iff)
    note step = collide_ok [OF grown(1) wf(2) collide(1) old free refl neq refl refl]
    show ?thesis using step collide grown(2) by (simp add: insert_seen_grown Let_def)
  next
    case new
    let ?m = "dedup_marker (qs_epoch sc) (h_generation h)"
    let ?sc' = "?sc\<lparr>qs_dense := (qs_dense ?sc)[?i := ?m]\<rparr>"
    have free: "\<not> collided ?sc ?i"
      using grown(1) new by (auto simp: collided_def dedup_ok_def vec_get_Some_iff)
    have c: "collided ?sc' j \<longleftrightarrow> collided ?sc j" for j by (simp add: collided_def)
    have unseen: "\<not> seen_handle ?sc h"
      using free new wf by (auto simp: seen_handle_def vec_get_Some_iff)
    have res: "insert_seen h sc = (True, ?sc')" using new by (simp add: insert_seen_grown Let_def)
    have ok: "dedup_ok ?sc'"
      using grown(1) wf set_update_subset_insert [of "qs_dense ?sc" ?i ?m]
      by (auto simp: dedup_ok_def c vec_get_update) (auto simp: scratch_wf_def)
    have "seen_handle ?sc' k \<longleftrightarrow> seen_handle ?sc k \<or> k = h" for k
    proof (cases "h_index k = h_index h")
      case True
      have "\<not> seen_handle ?sc k" using True free new wf by (auto simp: seen_handle_def vec_get_Some_iff)
      moreover have "seen_handle ?sc' k \<longleftrightarrow> h_generation k = h_generation h"
        using True free wf by (auto simp: seen_handle_def c vec_get_update)
      moreover have "k = h \<longleftrightarrow> h_generation k = h_generation h" using True by (cases k; cases h) simp
      ultimately show ?thesis by blast
    next
      case False
      then have "unat (h_index k) \<noteq> ?i" by (simp add: word_unat_eq_iff)
      then show ?thesis using False by (auto simp: seen_handle_def c vec_get_update)
    qed
    then show ?thesis using res ok unseen grown(2) by simp
  qed
qed

section \<open>Queries\<close>

text \<open>The reference: walk the handles in order and keep each one the first time.\<close>

fun fresh_handles :: "entity_handle set \<Rightarrow> entity_handle list \<Rightarrow> entity_handle list" where
  "fresh_handles seen [] = []"
| "fresh_handles seen (h # hs) =
     (if h \<in> seen then fresh_handles seen hs else h # fresh_handles (insert h seen) hs)"

lemma fresh_handles_append:
  "fresh_handles seen (xs @ ys) = fresh_handles seen xs @ fresh_handles (seen \<union> set xs) ys"
  by (induction xs arbitrary: seen) (auto simp: insert_absorb)

lemma set_fresh_handles: "set (fresh_handles seen hs) = set hs - seen"
  by (induction hs arbitrary: seen) auto

lemma distinct_fresh_handles: "distinct (fresh_handles seen hs)"
  by (induction hs arbitrary: seen) (auto simp: set_fresh_handles)

lemma seen_frame [simp]:
  "seen_handle (sc\<lparr>qs_handles := hs\<rparr>) h \<longleftrightarrow> seen_handle sc h" "dedup_ok (sc\<lparr>qs_handles := hs\<rparr>) \<longleftrightarrow> dedup_ok sc"
  "seen_handle (sc\<lparr>qs_stats := st\<rparr>) h \<longleftrightarrow> seen_handle sc h" "dedup_ok (sc\<lparr>qs_stats := st\<rparr>) \<longleftrightarrow> dedup_ok sc"
  "seen_handle (sc\<lparr>qs_matching := cs\<rparr>) h \<longleftrightarrow> seen_handle sc h" "dedup_ok (sc\<lparr>qs_matching := cs\<rparr>) \<longleftrightarrow> dedup_ok sc"
  by (auto simp: seen_handle_def dedup_ok_def scratch_wf_def collided_def)

lemma insert_seen_handles [simp]: "qs_handles (snd (insert_seen h sc)) = qs_handles sc"
  by (simp add: insert_seen_grown Let_def)

lemma collect_handles_ok:
  "dedup_ok sc \<Longrightarrow> qs_handles (collect_handles hs sc) = qs_handles sc @ fresh_handles {h. seen_handle sc h} hs \<and>
     dedup_ok (collect_handles hs sc) \<and>
     {h. seen_handle (collect_handles hs sc) h} = {h. seen_handle sc h} \<union> set hs"
proof (induction hs arbitrary: sc)
  case (Cons h hs)
  obtain fresh sc1 where ins: "insert_seen h sc = (fresh, sc1)" by fastforce
  note step = insert_seen_ok [OF Cons.prems, of h, unfolded ins fst_conv snd_conv]
  have handles: "qs_handles sc1 = qs_handles sc" using insert_seen_handles [of h sc] ins by simp
  have seen: "{k. seen_handle sc1 k} = insert h {k. seen_handle sc k}" using step by auto
  let ?sc2 = "if fresh then sc1\<lparr>qs_handles := qs_handles sc1 @ [h]\<rparr> else sc1"
  have "dedup_ok ?sc2" "{k. seen_handle ?sc2 k} = insert h {k. seen_handle sc k}"
    using step seen by auto
  with Cons.IH [of ?sc2] step show ?case
    by (auto simp: ins handles insert_absorb)
qed simp

lemma collect_cell_ok:
  "dedup_ok sc \<Longrightarrow> qs_handles (collect_cell ix c sc) = qs_handles sc @ fresh_handles {h. seen_handle sc h} (handles_in_cell ix c) \<and>
     dedup_ok (collect_cell ix c sc) \<and>
     {h. seen_handle (collect_cell ix c sc) h} = {h. seen_handle sc h} \<union> set (handles_in_cell ix c)"
  by (auto simp: collect_cell_def handles_in_cell_def collect_handles_ok split: option.splits)

lemma collect_cells_ok:
  "dedup_ok sc \<Longrightarrow>
     qs_handles (fold (collect_cell ix) cs sc) =
       qs_handles sc @ fresh_handles {h. seen_handle sc h} (concat (map (handles_in_cell ix) cs)) \<and>
     dedup_ok (fold (collect_cell ix) cs sc)"
proof (induction cs arbitrary: sc)
  case (Cons c cs)
  note step = collect_cell_ok [OF Cons.prems, of ix c]
  with Cons.IH [of "collect_cell ix c sc"] show ?case by (simp add: fresh_handles_append)
qed simp

lemma occupied_cells:
  "sort (filter (\<lambda>c. cell_in_range c lo hi) (sorted_list_of_fset (fmdom m))) =
     filter (\<lambda>c. fmlookup m c \<noteq> None) (cell_range lo hi)"
proof (rule sorted_distinct_set_unique)
  show "distinct (sort (filter (\<lambda>c. cell_in_range c lo hi) (sorted_list_of_fset (fmdom m))))"
    by (simp add: sorted_list_of_fset.rep_eq)
qed (auto simp: fmlookup_dom_iff sorted_wrt_filter)

lemma concat_map_filter: "(\<And>x. x \<in> set xs \<Longrightarrow> \<not> P x \<Longrightarrow> f x = []) \<Longrightarrow> concat (map f (filter P xs)) = concat (map f xs)"
  by (induction xs) auto

lemma query_clear_ok:
  assumes "scratch_wf sc"
  shows "dedup_ok (query_clear sc)" "{h. seen_handle (query_clear sc) h} = {}"
    "qs_handles (query_clear sc) = []" "qs_matching (query_clear sc) = []"
  using begin_query_ok [OF assms] by (simp_all add: query_clear_def)

lemma query_reference:
  assumes "scratch_wf sc"
  shows "qs_handles (query_aabb_into ix a sc) =
      fresh_handles {} (concat (map (handles_in_cell ix) (cells_for_aabb (ci_grid ix) a))) \<and>
    scratch_wf (query_aabb_into ix a sc)"
proof -
  let ?lo = "cell_at (ci_grid ix) (aabb_min a)" and ?hi = "cell_at (ci_grid ix) (aabb_max a)"
  have wf: "dedup_ok s \<Longrightarrow> scratch_wf (s\<lparr>qs_stats := st\<rparr>)" for s st
    by (simp add: dedup_ok_def scratch_wf_def)
  have "concat (map (handles_in_cell ix) (sort (filter (\<lambda>c. cell_in_range c ?lo ?hi)
      (sorted_list_of_fset (fmdom (ci_cells ix)))))) = concat (map (handles_in_cell ix) (cell_range ?lo ?hi))"
    unfolding occupied_cells by (rule concat_map_filter) (simp add: handles_in_cell_def)
  then show ?thesis
    using query_clear_ok [OF assms]
    by (simp add: query_aabb_into_def Let_def collect_cells_ok wf cells_for_aabb_def)
qed

inductive scratch_reachable :: "query_scratch \<Rightarrow> bool" where
  scratch_start: "scratch_reachable query_scratch_new"
| scratch_cleared: "scratch_reachable sc \<Longrightarrow> scratch_reachable (query_clear sc)"
| scratch_queried: "scratch_reachable sc \<Longrightarrow> scratch_reachable (query_aabb_into ix a sc)"

lemma scratch_reachable_wf: "scratch_reachable sc \<Longrightarrow> scratch_wf sc"
proof (induction rule: scratch_reachable.induct)
  case scratch_start
  show ?case by (simp add: scratch_wf_def query_scratch_new_def)
next
  case (scratch_cleared sc)
  then show ?case using query_clear_ok(1) by (auto simp: dedup_ok_def)
qed (use query_reference in blast)

section \<open>The index refines a map from entities to bounds\<close>

type_synonym placement = "entity_handle \<Rightarrow> (position3 \<times> bounds) option"

inductive index_history :: "grid_spec \<Rightarrow> cell_index \<Rightarrow> placement \<Rightarrow> bool" for g where
  index_start: "index_history g (cell_index_new g) (\<lambda>_. None)"
| index_upserted: "index_history g ix pl \<Longrightarrow> upsert_with_scratch ix h p b sc = (rep, ix', sc') \<Longrightarrow>
    index_history g ix' (pl(h \<mapsto> (p, b)))"
| index_removed: "index_history g ix pl \<Longrightarrow> index_remove ix h = (hit, ix') \<Longrightarrow> index_history g ix' (pl(h := None))"

definition placed_cells :: "grid_spec \<Rightarrow> placement \<Rightarrow> entity_handle \<Rightarrow> cell_coord3 set" where
  "placed_cells g pl h = (case pl h of Some (p, b) \<Rightarrow> set (cells_for_bounds g p b) | None \<Rightarrow> {})"

lemma index_history_wf:
  "index_history g ix pl \<Longrightarrow> index_wf ix \<and> ci_grid ix = g \<and> (\<forall>h. index_members ix h = placed_cells g pl h)"
proof (induction rule: index_history.induct)
  case index_start
  show ?case using index_new_wf [of g]
    by (simp add: cell_index_new_def index_members_def placed_cells_def)
next
  case (index_upserted ix pl h p b sc rep ix' sc')
  then show ?case using upsert_effect [of ix h p b sc rep ix' sc']
    by (auto simp: placed_cells_def target_cells_bounds)
next
  case (index_removed ix pl h hit ix')
  then show ?case using remove_effect [of ix h hit ix'] by (auto simp: placed_cells_def)
qed

text \<open>C27. After any sequence of updates and removals, the cells an entity is filed under are exactly
  the cells its latest bounds touch, and the buckets hold exactly the entities filed under them, each
  once, with no empty bucket left behind. An update reports exactly how many cells were kept, left
  and entered, although it edits only the difference.\<close>

theorem index_tracks_bounds:
  assumes "index_history g ix pl"
  shows "(\<forall>h. index_members ix h = placed_cells g pl h) \<and>
    (\<forall>c. distinct (handles_in_cell ix c) \<and> set (handles_in_cell ix c) = {h. c \<in> placed_cells g pl h}) \<and>
    (\<forall>c. fmlookup (ci_cells ix) c \<noteq> Some []) \<and>
    (\<forall>h p b sc. \<exists>rep ix' sc'. upsert_with_scratch ix h p b sc = (rep, ix', sc') \<and>
      report_exact (placed_cells g pl h) (set (cells_for_bounds g p b)) (fmlookup (ci_entities ix) h \<noteq> None) rep)"
proof (intro conjI allI)
  note wf = index_history_wf [OF assms]
  show "index_members ix h = placed_cells g pl h" for h using wf by blast
  show "distinct (handles_in_cell ix c)" for c using wf index_wfD(2) by blast
  show "set (handles_in_cell ix c) = {h. c \<in> placed_cells g pl h}" for c using wf index_wfD(4) by blast
  show "fmlookup (ci_cells ix) c \<noteq> Some []" for c using wf index_wfD(1) unfolding no_empty_buckets_def by blast
  show "\<exists>rep ix' sc'. upsert_with_scratch ix h p b sc = (rep, ix', sc') \<and>
      report_exact (placed_cells g pl h) (set (cells_for_bounds g p b)) (fmlookup (ci_entities ix) h \<noteq> None) rep"
    for h p b sc
  proof -
    obtain rep ix' sc' where up: "upsert_with_scratch ix h p b sc = (rep, ix', sc')"
      by (metis prod_cases3)
    then show ?thesis using upsert_effect [OF _ up] wf by (auto simp: target_cells_bounds)
  qed
qed

text \<open>C28. A query returns every handle filed under a cell of its box exactly once, in cell order,
  whichever of the two strategies it uses and whatever earlier queries left in the scratch table;
  in particular no entity whose bounds overlap the query box is missed.\<close>

theorem query_finds_overlaps:
  assumes "index_history g ix pl" "scratch_reachable sc"
  shows "qs_handles (query_aabb_into ix a sc) =
      fresh_handles {} (concat (map (handles_in_cell ix) (cells_for_aabb g a))) \<and>
    distinct (qs_handles (query_aabb_into ix a sc)) \<and>
    set (qs_handles (query_aabb_into ix a sc)) = {h. placed_cells g pl h \<inter> set (cells_for_aabb g a) \<noteq> {}} \<and>
    (\<forall>h p b. grid_ok g \<longrightarrow> aabb_proper a \<longrightarrow> pl h = Some (p, b) \<longrightarrow> position_finite p \<longrightarrow> bounds_ok b \<longrightarrow>
       aabb_overlaps (bounds_to_aabb b p) a \<longrightarrow> h \<in> set (qs_handles (query_aabb_into ix a sc)))"
proof -
  note hist = index_history_wf [OF assms(1)]
  have eq: "qs_handles (query_aabb_into ix a sc) =
      fresh_handles {} (concat (map (handles_in_cell ix) (cells_for_aabb g a)))"
    using query_reference [OF scratch_reachable_wf [OF assms(2)], of ix a] hist by simp
  have set: "set (qs_handles (query_aabb_into ix a sc)) = {h. placed_cells g pl h \<inter> set (cells_for_aabb g a) \<noteq> {}}"
    using hist index_wfD(4) [of ix] by (auto simp: eq set_fresh_handles)
  have "h \<in> set (qs_handles (query_aabb_into ix a sc))"
    if "grid_ok g" "aabb_proper a" "pl h = Some (p, b)" "position_finite p" "bounds_ok b"
      "aabb_overlaps (bounds_to_aabb b p) a" for h p b
    using overlap_common_cell [OF that(1) bounds_aabb_contains_position(1) [OF that(4,5)] that(2,6)] that(3)
    unfolding set by (auto simp: placed_cells_def cells_for_bounds_def)
  then show ?thesis using eq set by (auto simp: distinct_fresh_handles)
qed

section \<open>A concrete index\<close>

definition demo_grid :: grid_spec where "demo_grid = \<lparr>cell_size = 0x41200000\<rparr>"
definition demo_origin :: position3 where "demo_origin = \<lparr>px = 0, py = 0, pz = 0\<rparr>"
definition demo_box :: aabb3 where "demo_box = \<lparr>aabb_min = demo_origin, aabb_max = demo_origin\<rparr>"

definition demo_index :: cell_index where
  "demo_index = fst (snd (upsert_with_scratch (cell_index_new demo_grid) (EntityHandle 1 0) demo_origin BPoint \<lparr>us_cells = []\<rparr>))"

definition demo_placement :: placement where
  "demo_placement = [EntityHandle 1 0 \<mapsto> (demo_origin, BPoint)]"

lemma demo_index_history: "index_history demo_grid demo_index demo_placement"
  unfolding demo_index_def demo_placement_def
proof (rule index_upserted [OF index_start])
  show "upsert_with_scratch (cell_index_new demo_grid) (EntityHandle 1 0) demo_origin BPoint \<lparr>us_cells = []\<rparr> =
      (fst (upsert_with_scratch (cell_index_new demo_grid) (EntityHandle 1 0) demo_origin BPoint \<lparr>us_cells = []\<rparr>),
       fst (snd (upsert_with_scratch (cell_index_new demo_grid) (EntityHandle 1 0) demo_origin BPoint \<lparr>us_cells = []\<rparr>)),
       snd (snd (upsert_with_scratch (cell_index_new demo_grid) (EntityHandle 1 0) demo_origin BPoint \<lparr>us_cells = []\<rparr>)))"
    by simp
qed

lemma demo_grid_ok: "grid_ok demo_grid"
  by (simp add: grid_ok_def demo_grid_def f32_is_finite_def f32_lt_def f32_key_def f32_is_nan_def f32_mag_def
      f32_sign_def inf_mag_def f32_zero_def)

lemma demo_box_overlap:
  "aabb_proper demo_box" "position_finite demo_origin" "bounds_ok BPoint"
  "aabb_overlaps (bounds_to_aabb BPoint demo_origin) demo_box"
proof -
  have "f32_le 0 0" using f32_le_refl [of f32_zero] f32_zero_simps(5) f32_finite_simps by (simp add: f32_zero_def)
  then show "aabb_proper demo_box" "aabb_overlaps (bounds_to_aabb BPoint demo_origin) demo_box"
    by (simp_all add: aabb_proper_def aabb_overlaps_def demo_box_def demo_origin_def)
  show "position_finite demo_origin" using f32_zero_simps(5)
    by (simp add: position_finite_def demo_origin_def f32_zero_def)
qed (simp add: bounds_ok_def)

theorem index_tracks_bounds_witness:
  "index_members demo_index (EntityHandle 1 0) = set (cells_for_bounds demo_grid demo_origin BPoint) \<and>
   set (handles_in_cell demo_index (cell_at demo_grid demo_origin)) =
     {h. cell_at demo_grid demo_origin \<in> placed_cells demo_grid demo_placement h}"
  using index_tracks_bounds [OF demo_index_history] by (simp add: placed_cells_def demo_placement_def)

theorem query_finds_overlaps_witness:
  "EntityHandle 1 0 \<in> set (qs_handles (query_aabb_into demo_index demo_box query_scratch_new))"
proof -
  have "demo_placement (EntityHandle 1 0) = Some (demo_origin, BPoint)" by (simp add: demo_placement_def)
  then show ?thesis
    using query_finds_overlaps [OF demo_index_history scratch_start, of demo_box] demo_grid_ok demo_box_overlap
    by blast
qed

end
