(* ===== verification/Interest.thy ===== *)
theory Interest
  imports Spatial Entities
begin

text \<open>
  Viewer queries and visibility filters (\<open>crates/sectorsync-core/src/interest.rs\<close>). A filter is the
  record of its two methods; the planners call the one that takes the distance they have already
  computed. The locale \<open>distance_filter\<close> states that this shortcut agrees with the plain method; it is
  interpreted on every filter of the crate, and a conjunction of two such filters is one again.
\<close>

record viewer_query =
  vq_client_id :: client_id
  vq_position :: position3
  vq_radius :: f32
  vq_max_entities :: usize

definition viewer_radius_squared :: "viewer_query \<Rightarrow> f32" where
  "viewer_radius_squared v = f32_mul (vq_radius v) (vq_radius v)"

record visibility_filter =
  vf_visible :: "viewer_query \<Rightarrow> entity_record \<Rightarrow> bool"
  vf_visible_with_distance :: "viewer_query \<Rightarrow> entity_record \<Rightarrow> f32 \<Rightarrow> bool"

text \<open>The default of \<open>is_visible_with_distance\<close>.\<close>

definition plain_filter :: "(viewer_query \<Rightarrow> entity_record \<Rightarrow> bool) \<Rightarrow> visibility_filter" where
  "plain_filter f = \<lparr>vf_visible = f, vf_visible_with_distance = (\<lambda>v e _. f v e)\<rparr>"

definition range_only_visibility :: visibility_filter where
  "range_only_visibility =
     \<lparr>vf_visible = (\<lambda>v e. f32_le (distance_squared (er_position e) (vq_position v)) (viewer_radius_squared v)),
      vf_visible_with_distance = (\<lambda>v e d. f32_le d (viewer_radius_squared v))\<rparr>"

definition frustum_visibility :: "frustum3 \<Rightarrow> visibility_filter" where
  "frustum_visibility fr = plain_filter (\<lambda>v e. frustum_intersects_bounds fr (er_position e) (er_bounds e))"

definition tag_visibility :: "entity_tags \<Rightarrow> entity_tags \<Rightarrow> visibility_filter" where
  "tag_visibility required excluded =
     plain_filter (\<lambda>v e. tags_contains (er_tags e) required \<and> \<not> tags_intersects (er_tags e) excluded)"

definition and_visibility :: "visibility_filter \<Rightarrow> visibility_filter \<Rightarrow> visibility_filter" where
  "and_visibility left right =
     \<lparr>vf_visible = (\<lambda>v e. vf_visible left v e \<and> vf_visible right v e),
      vf_visible_with_distance = (\<lambda>v e d.
        vf_visible_with_distance left v e d \<and> vf_visible_with_distance right v e d)\<rparr>"

definition viewer_distance :: "viewer_query \<Rightarrow> entity_record \<Rightarrow> f32" where
  "viewer_distance v e = distance_squared (er_position e) (vq_position v)"

locale distance_filter =
  fixes flt :: visibility_filter
  assumes shortcut: "vf_visible_with_distance flt v e (viewer_distance v e) \<longleftrightarrow> vf_visible flt v e"
begin

lemma shortcut_visible:
  "d = viewer_distance v e \<Longrightarrow> vf_visible_with_distance flt v e d \<Longrightarrow> vf_visible flt v e"
  using shortcut by simp

end

locale filter_pair = left: distance_filter lf + right: distance_filter rf
  for lf :: visibility_filter and rf :: visibility_filter

sublocale filter_pair \<subseteq> distance_filter "and_visibility lf rf"
  by unfold_locales (simp add: and_visibility_def left.shortcut right.shortcut)

interpretation range_filter: distance_filter range_only_visibility
  by unfold_locales (simp add: range_only_visibility_def viewer_distance_def)

interpretation frustum_filter: distance_filter "frustum_visibility fr"
  by unfold_locales (simp add: frustum_visibility_def plain_filter_def)

interpretation tag_filter: distance_filter "tag_visibility required excluded"
  by unfold_locales (simp add: tag_visibility_def plain_filter_def)

interpretation frustum_and_tags: filter_pair "frustum_visibility fr" "tag_visibility required excluded"
  by unfold_locales

end
