(* ===== verification/Station.thy ===== *)
theory Station
  imports Entities
begin

text \<open>
  Station-local entity storage (\<open>station.rs\<close>): a slab of record slots with one generation per
  slot, a free list of recycled slots and an index from stable entity identifiers to handles, and
  the two-phase owner hand-off and the snapshots built on it. \<open>station_wf\<close> is the coherence of
  the slab with its index; every operation keeps it, never panics on it below the \<open>u32\<close> slot
  limit, and acts on the abstract view \<open>station_get_by_id\<close> as one map update.
\<close>

section \<open>State and errors\<close>

record station_config =
  cfg_station_id :: station_id
  cfg_node_id :: node_id
  cfg_instance_id :: instance_id
  cfg_tick_rate_hz :: u16

record station =
  st_config :: station_config
  st_tick :: tick
  st_owner_epoch :: owner_epoch
  st_records :: "entity_record option list"
  st_generations :: "u32 list"
  st_free :: "u32 list"
  st_by_id :: "(entity_id, entity_handle) fmap"

datatype station_error =
    DuplicateEntity entity_id
  | MissingEntity entity_id
  | MissingEntityHandle entity_handle
  | NotOwner entity_id
  | AlreadyOwner entity_id
  | HandoffTargetIsSource station_id
  | WrongHandoffTarget station_id station_id
  | WrongHandoffSource station_id station_id
  | SnapshotStationMismatch station_id station_id

definition station_new :: "station_config \<Rightarrow> station" where
  "station_new cfg =
     \<lparr>st_config = cfg, st_tick = 0, st_owner_epoch = 0, st_records = [], st_generations = [],
      st_free = [], st_by_id = fmempty\<rparr>"

definition next_owner_epoch :: "station \<Rightarrow> owner_epoch \<times> station" where
  "next_owner_epoch s =
     (let s' = s\<lparr>st_owner_epoch := sat_add (st_owner_epoch s) 1\<rparr> in (st_owner_epoch s', s'))"

definition station_len :: "station \<Rightarrow> usize" where
  "station_len s = map_len (st_by_id s)"

definition advance_tick :: "station \<Rightarrow> station" where
  "advance_tick s = s\<lparr>st_tick := sat_add (st_tick s) 1\<rparr>"

section \<open>The slab\<close>

definition allocate_handle :: "station \<Rightarrow> (entity_handle \<times> station) option" where
  "allocate_handle s =
     (case vec_pop (st_free s) of
        Some (i, rest) \<Rightarrow>
          (case vec_get (st_generations s) (unat i) of
             None \<Rightarrow> None
           | Some g \<Rightarrow> Some (EntityHandle i g, s\<lparr>st_free := rest\<rparr>))
      | None \<Rightarrow>
          (if length (st_records s) < 2 ^ 32 then
             Some (EntityHandle (of_nat (length (st_records s))) 0,
                   s\<lparr>st_records := st_records s @ [None], st_generations := st_generations s @ [0]\<rparr>)
           else None))"

definition insert_allocated :: "station \<Rightarrow> entity_handle \<Rightarrow> entity_record \<Rightarrow> station option" where
  "insert_allocated s h r =
     (if unat (h_index h) < length (st_records s) then
        Some (s\<lparr>st_by_id := fmupd (er_id r) h (st_by_id s),
                st_records := (st_records s)[unat (h_index h) := Some r]\<rparr>)
      else None)"

definition station_get :: "station \<Rightarrow> entity_handle \<Rightarrow> entity_record option" where
  "station_get s h =
     (case vec_get (st_generations s) (unat (h_index h)) of
        None \<Rightarrow> None
      | Some g \<Rightarrow>
          if g \<noteq> h_generation h then None
          else (case vec_get (st_records s) (unat (h_index h)) of None \<Rightarrow> None | Some slot \<Rightarrow> slot))"

text \<open>A write through the reference that \<open>get_mut\<close> returned for \<open>h\<close>.\<close>

definition station_put :: "station \<Rightarrow> entity_handle \<Rightarrow> entity_record \<Rightarrow> station" where
  "station_put s h r = s\<lparr>st_records := (st_records s)[unat (h_index h) := Some r]\<rparr>"

definition station_get_mut ::
  "station \<Rightarrow> entity_handle \<Rightarrow> (entity_record \<Rightarrow> entity_record) \<Rightarrow> station option" where
  "station_get_mut s h f =
     (case station_get s h of None \<Rightarrow> None | Some r \<Rightarrow> Some (station_put s h (f r)))"

definition handle_by_id :: "station \<Rightarrow> entity_id \<Rightarrow> entity_handle option" where
  "handle_by_id s i = fmlookup (st_by_id s) i"

definition station_get_by_id :: "station \<Rightarrow> entity_id \<Rightarrow> entity_record option" where
  "station_get_by_id s i =
     (case fmlookup (st_by_id s) i of None \<Rightarrow> None | Some h \<Rightarrow> station_get s h)"

definition station_get_by_id_mut ::
  "station \<Rightarrow> entity_id \<Rightarrow> (entity_record \<Rightarrow> entity_record) \<Rightarrow> station option" where
  "station_get_by_id_mut s i f =
     (case fmlookup (st_by_id s) i of None \<Rightarrow> None | Some h \<Rightarrow> station_get_mut s h f)"

definition station_iter :: "station \<Rightarrow> entity_record list" where
  "station_iter s = List.map_filter (\<lambda>slot. slot) (st_records s)"

section \<open>Entity operations\<close>

definition spawn_owned ::
  "station \<Rightarrow> entity_id \<Rightarrow> position3 \<Rightarrow> bounds \<Rightarrow> policy_id \<Rightarrow>
   ((station_error + entity_handle) \<times> station) option" where
  "spawn_owned s i p b pol =
     (if fmlookup (st_by_id s) i \<noteq> None then Some (Err (DuplicateEntity i), s)
      else (case allocate_handle s of
              None \<Rightarrow> None
            | Some (h, s1) \<Rightarrow>
                (case insert_allocated s1 h (record_owned i h p b pol (st_owner_epoch s1)) of
                   None \<Rightarrow> None
                 | Some s2 \<Rightarrow> Some (Ok h, s2))))"

definition upsert_ghost ::
  "station \<Rightarrow> entity_id \<Rightarrow> position3 \<Rightarrow> bounds \<Rightarrow> policy_id \<Rightarrow> station_id \<Rightarrow> owner_epoch \<Rightarrow> tick \<Rightarrow>
   (entity_handle \<times> station) option" where
  "upsert_ghost s i p b pol owner epoch expires =
     (case fmlookup (st_by_id s) i of
        Some h \<Rightarrow>
          (case station_get s h of
             Some r \<Rightarrow>
               Some (h, station_put s h
                 (r\<lparr>er_position := p, er_bounds := b, er_policy_id := pol,
                    er_role := Ghost owner epoch expires,
                    er_dirty := dirty_insert (er_dirty r) DIRTY_TRANSFORM\<rparr>))
           | None \<Rightarrow> Some (h, s))
      | None \<Rightarrow>
          (case allocate_handle s of
             None \<Rightarrow> None
           | Some (h, s1) \<Rightarrow>
               (case insert_allocated s1 h (record_ghost i h p b pol owner epoch expires) of
                  None \<Rightarrow> None
                | Some s2 \<Rightarrow> Some (h, s2))))"

definition move_owned ::
  "station \<Rightarrow> entity_handle \<Rightarrow> position3 \<Rightarrow> (station_error + unit) \<times> station" where
  "move_owned s h p =
     (case station_get s h of
        None \<Rightarrow> (Err (MissingEntityHandle h), s)
      | Some r \<Rightarrow>
          if \<not> record_is_owned r then (Err (NotOwner (er_id r)), s)
          else (Ok (), station_put s h
            (r\<lparr>er_position := p, er_dirty := dirty_insert (er_dirty r) DIRTY_TRANSFORM\<rparr>)))"

definition set_tags ::
  "station \<Rightarrow> entity_handle \<Rightarrow> entity_tags \<Rightarrow> (station_error + unit) \<times> station" where
  "set_tags s h t =
     (case station_get s h of
        None \<Rightarrow> (Err (MissingEntityHandle h), s)
      | Some r \<Rightarrow>
          if \<not> record_is_owned r then (Err (NotOwner (er_id r)), s)
          else (Ok (), station_put s h
            (r\<lparr>er_tags := t, er_dirty := dirty_insert (er_dirty r) DIRTY_TAGS\<rparr>)))"

definition clear_dirty ::
  "station \<Rightarrow> entity_handle \<Rightarrow> dirty_mask \<Rightarrow> (station_error + unit) \<times> station" where
  "clear_dirty s h m =
     (case station_get s h of
        None \<Rightarrow> (Err (MissingEntityHandle h), s)
      | Some r \<Rightarrow> (Ok (), station_put s h (r\<lparr>er_dirty := dirty_remove (er_dirty r) m\<rparr>)))"

text \<open>\<open>remove\<close>: \<open>None\<close> is the out-of-range panic of \<open>self.records[index]\<close>.\<close>

definition station_remove ::
  "station \<Rightarrow> entity_handle \<Rightarrow> ((station_error + entity_record) \<times> station) option" where
  "station_remove s h =
     (let i = unat (h_index h) in
      case vec_get (st_generations s) i of
        None \<Rightarrow> Some (Err (MissingEntityHandle h), s)
      | Some g \<Rightarrow>
          if g \<noteq> h_generation h then Some (Err (MissingEntityHandle h), s)
          else (case vec_get (st_records s) i of
                  None \<Rightarrow> None
                | Some None \<Rightarrow> Some (Err (MissingEntityHandle h), s)
                | Some (Some r) \<Rightarrow>
                    Some (Ok r, s\<lparr>st_records := (st_records s)[i := None],
                                  st_by_id := fmdrop (er_id r) (st_by_id s),
                                  st_generations := (st_generations s)[i := sat_add g 1],
                                  st_free := st_free s @ [h_index h]\<rparr>)))"

definition remove_by_id ::
  "station \<Rightarrow> entity_id \<Rightarrow> ((station_error + entity_record) \<times> station) option" where
  "remove_by_id s i =
     (case fmlookup (st_by_id s) i of
        None \<Rightarrow> Some (Err (MissingEntity i), s)
      | Some h \<Rightarrow> station_remove s h)"

section \<open>Hand-off\<close>

definition prepare_outgoing_handoff ::
  "station \<Rightarrow> entity_id \<Rightarrow> station_id \<Rightarrow> owner_epoch \<Rightarrow> tick \<Rightarrow> station_error + handoff_transfer" where
  "prepare_outgoing_handoff s i target epoch expires =
     (if target = cfg_station_id (st_config s) then Err (HandoffTargetIsSource target)
      else (case station_get_by_id s i of
              None \<Rightarrow> Err (MissingEntity i)
            | Some r \<Rightarrow>
                if \<not> record_is_owned r then Err (NotOwner i)
                else Ok \<lparr>ht_entity_id = i, ht_source_station = cfg_station_id (st_config s),
                         ht_target_station = target, ht_source_owner_epoch = role_epoch (er_role r),
                         ht_target_owner_epoch = epoch, ht_prepared_at = st_tick s,
                         ht_source_ghost_expires_at = expires, ht_entity = r\<rparr>))"

definition prewarm_handoff_ghost ::
  "station \<Rightarrow> handoff_transfer \<Rightarrow> ((station_error + entity_handle) \<times> station) option" where
  "prewarm_handoff_ghost s t =
     (if ht_target_station t \<noteq> cfg_station_id (st_config s) then
        Some (Err (WrongHandoffTarget (cfg_station_id (st_config s)) (ht_target_station t)), s)
      else (case upsert_ghost s (ht_entity_id t) (er_position (ht_entity t)) (er_bounds (ht_entity t))
                   (er_policy_id (ht_entity t)) (ht_source_station t) (ht_source_owner_epoch t)
                   (ht_source_ghost_expires_at t) of
              None \<Rightarrow> None
            | Some (h, s') \<Rightarrow> Some (Ok h, s')))"

text \<open>The record that a commit installs on the target side.\<close>

definition committed_record :: "handoff_transfer \<Rightarrow> entity_handle \<Rightarrow> entity_record" where
  "committed_record t h =
     (ht_entity t)\<lparr>er_handle := h, er_role := Owned (ht_target_owner_epoch t),
                   er_dirty := dirty_insert (er_dirty (ht_entity t)) DIRTY_TRANSFORM\<rparr>"

definition commit_incoming_handoff ::
  "station \<Rightarrow> handoff_transfer \<Rightarrow> ((station_error + entity_handle) \<times> station) option" where
  "commit_incoming_handoff s t =
     (if ht_target_station t \<noteq> cfg_station_id (st_config s) then
        Some (Err (WrongHandoffTarget (cfg_station_id (st_config s)) (ht_target_station t)), s)
      else (case handle_by_id s (ht_entity_id t) of
              Some h \<Rightarrow>
                (case station_get s h of
                   None \<Rightarrow> Some (Err (MissingEntityHandle h), s)
                 | Some r \<Rightarrow>
                     if record_is_owned r then Some (Err (AlreadyOwner (ht_entity_id t)), s)
                     else Some (Ok h, (station_put s h (committed_record t h))
                                        \<lparr>st_owner_epoch := ht_target_owner_epoch t\<rparr>))
            | None \<Rightarrow>
                (case allocate_handle s of
                   None \<Rightarrow> None
                 | Some (h, s1) \<Rightarrow>
                     (case insert_allocated (s1\<lparr>st_owner_epoch := ht_target_owner_epoch t\<rparr>) h
                             (committed_record t h) of
                        None \<Rightarrow> None
                      | Some s2 \<Rightarrow> Some (Ok h, s2)))))"

definition commit_outgoing_handoff ::
  "station \<Rightarrow> handoff_transfer \<Rightarrow> (station_error + entity_handle) \<times> station" where
  "commit_outgoing_handoff s t =
     (if ht_source_station t \<noteq> cfg_station_id (st_config s) then
        (Err (WrongHandoffSource (cfg_station_id (st_config s)) (ht_source_station t)), s)
      else (case handle_by_id s (ht_entity_id t) of
              None \<Rightarrow> (Err (MissingEntity (ht_entity_id t)), s)
            | Some h \<Rightarrow>
                (case station_get s h of
                   None \<Rightarrow> (Err (MissingEntityHandle h), s)
                 | Some r \<Rightarrow>
                     if \<not> record_is_owned r then (Err (NotOwner (ht_entity_id t)), s)
                     else (Ok h, station_put s h
                       (r\<lparr>er_role := Ghost (ht_target_station t) (ht_target_owner_epoch t)
                                      (ht_source_ghost_expires_at t),
                          er_dirty := dirty_insert (er_dirty r) DIRTY_TRANSFORM\<rparr>)))))"

section \<open>Snapshots\<close>

definition station_snapshot_of :: "station \<Rightarrow> snapshot_version \<Rightarrow> station_snapshot" where
  "station_snapshot_of s v =
     \<lparr>ss_meta = \<lparr>sm_instance_id = cfg_instance_id (st_config s),
                 sm_station_id = cfg_station_id (st_config s), sm_tick = st_tick s,
                 sm_entity_count = length (station_iter s), sm_owner_epoch = st_owner_epoch s,
                 sm_version = v\<rparr>,
      ss_entities = station_iter s\<rparr>"

fun restore_entities :: "station \<Rightarrow> entity_record list \<Rightarrow> (station_error + station) option" where
  "restore_entities s [] = Some (Ok s)"
| "restore_entities s (r # rs) =
     (if fmlookup (st_by_id s) (er_id r) \<noteq> None then Some (Err (DuplicateEntity (er_id r)))
      else (case allocate_handle s of
              None \<Rightarrow> None
            | Some (h, s1) \<Rightarrow>
                (case insert_allocated s1 h (r\<lparr>er_handle := h\<rparr>) of
                   None \<Rightarrow> None
                 | Some s2 \<Rightarrow> restore_entities s2 rs)))"

definition station_restore ::
  "station_config \<Rightarrow> station_snapshot \<Rightarrow> (station_error + station) option" where
  "station_restore cfg snap =
     (if sm_station_id (ss_meta snap) \<noteq> cfg_station_id cfg then
        Some (Err (SnapshotStationMismatch (cfg_station_id cfg) (sm_station_id (ss_meta snap))))
      else restore_entities
             ((station_new cfg)\<lparr>st_tick := sm_tick (ss_meta snap),
                                st_owner_epoch := sm_owner_epoch (ss_meta snap)\<rparr>)
             (ss_entities snap))"

section \<open>Coherence of the slab and its index\<close>

definition station_wf :: "station \<Rightarrow> bool" where
  "station_wf s \<longleftrightarrow>
     length (st_generations s) = length (st_records s) \<and>
     length (st_records s) \<le> 2 ^ 32 \<and>
     distinct (st_free s) \<and>
     set (st_free s) = {i. unat i < length (st_records s) \<and> st_records s ! unat i = None} \<and>
     (\<forall>h r. station_get s h = Some r \<longrightarrow> er_handle r = h \<and> fmlookup (st_by_id s) (er_id r) = Some h) \<and>
     (\<forall>i h. fmlookup (st_by_id s) i = Some h \<longrightarrow> (\<exists>r. station_get s h = Some r \<and> er_id r = i))"

lemma station_wf_shape:
  assumes "station_wf s"
  shows "length (st_generations s) = length (st_records s)" "length (st_records s) \<le> 2 ^ 32"
    "distinct (st_free s)"
    "i \<in> set (st_free s) \<longleftrightarrow> unat i < length (st_records s) \<and> st_records s ! unat i = None"
  using assms by (auto simp: station_wf_def)

lemma station_wf_get:
  "station_wf s \<Longrightarrow> station_get s h = Some r \<Longrightarrow>
   er_handle r = h \<and> fmlookup (st_by_id s) (er_id r) = Some h"
  by (simp add: station_wf_def)

lemma station_wf_lookup:
  assumes "station_wf s" "fmlookup (st_by_id s) i = Some h"
  obtains r where "station_get s h = Some r" "er_id r = i" "er_handle r = h"
  using assms by (metis station_wf_def)

lemma station_get_Some_iff:
  "station_get s h = Some r \<longleftrightarrow>
     unat (h_index h) < length (st_generations s) \<and> st_generations s ! unat (h_index h) = h_generation h \<and>
     unat (h_index h) < length (st_records s) \<and> st_records s ! unat (h_index h) = Some r"
  by (auto simp: station_get_def vec_get_def split: option.splits if_splits)

lemma station_get_in_range:
  "station_get s h = Some r \<Longrightarrow> unat (h_index h) < length (st_records s)"
  by (simp add: station_get_Some_iff)

lemma station_get_by_id_Some_iff:
  assumes "station_wf s"
  shows "station_get_by_id s i = Some r \<longleftrightarrow>
     fmlookup (st_by_id s) i = Some (er_handle r) \<and> station_get s (er_handle r) = Some r"
  using assms
  by (auto simp: station_get_by_id_def dest: station_wf_get split: option.splits)

lemma station_get_by_id_None_iff:
  "station_wf s \<Longrightarrow> station_get_by_id s i = None \<longleftrightarrow> fmlookup (st_by_id s) i = None"
  by (auto simp: station_get_by_id_def split: option.splits elim: station_wf_lookup)

lemma handle_by_id_None_iff:
  "station_wf s \<Longrightarrow> handle_by_id s i = None \<longleftrightarrow> station_get_by_id s i = None"
  by (simp add: handle_by_id_def station_get_by_id_None_iff)

lemma entity_handle_eq_iff: "h = k \<longleftrightarrow> h_index h = h_index k \<and> h_generation h = h_generation k"
  by (auto intro: entity_handle.expand)

subsection \<open>Writes through a handle\<close>

lemma station_put_sel [simp]:
  "st_config (station_put s h r) = st_config s" "st_tick (station_put s h r) = st_tick s"
  "st_owner_epoch (station_put s h r) = st_owner_epoch s" "st_free (station_put s h r) = st_free s"
  "st_generations (station_put s h r) = st_generations s" "st_by_id (station_put s h r) = st_by_id s"
  "length (st_records (station_put s h r)) = length (st_records s)"
  by (simp_all add: station_put_def)

lemma station_get_put:
  assumes "station_get s h = Some r0"
  shows "station_get (station_put s h r) k = (if k = h then Some r else station_get s k)"
  using assms
  by (auto simp: station_get_def station_put_def vec_get_def nth_list_update entity_handle_eq_iff
      word_unat_eq_iff split: option.splits if_splits)

lemma station_put_wf:
  assumes wf: "station_wf s" and g: "station_get s h = Some r0"
    and r: "er_id r = er_id r0" "er_handle r = er_handle r0"
  shows "station_wf (station_put s h r)"
proof -
  have free: "set (st_free s) =
      {i. unat i < length (st_records s) \<and> (st_records s)[unat (h_index h) := Some r] ! unat i = None}"
    using wf g by (auto simp: station_wf_def station_get_Some_iff nth_list_update)
  have get: "er_handle r' = k \<and> fmlookup (st_by_id s) (er_id r') = Some k"
    if "station_get (station_put s h r) k = Some r'" for k r'
    using that station_wf_get [OF wf] g r by (auto simp: station_get_put [OF g] split: if_splits)
  have idx: "\<exists>r'. station_get (station_put s h r) k = Some r' \<and> er_id r' = i"
    if "fmlookup (st_by_id s) i = Some k" for i k
    using station_wf_lookup [OF wf that] g r by (metis option.inject station_get_put [OF g])
  show ?thesis
    unfolding station_wf_def using station_wf_shape [OF wf] free get idx
    by (simp add: station_put_def)
qed

lemma station_get_by_id_put:
  assumes wf: "station_wf s" and g: "station_get s h = Some r0"
  shows "station_get_by_id (station_put s h r) i =
           (if i = er_id r0 then Some r else station_get_by_id s i)"
proof (cases "fmlookup (st_by_id s) i")
  case None
  with station_wf_get [OF wf g] show ?thesis by (auto simp: station_get_by_id_def)
next
  case (Some k)
  then obtain r1 where r1: "station_get s k = Some r1" "er_id r1 = i" "er_handle r1 = k"
    by (rule station_wf_lookup [OF wf])
  have "k = h \<longleftrightarrow> i = er_id r0"
    using station_wf_get [OF wf g] r1 Some g by (metis option.inject)
  then show ?thesis using Some by (simp add: station_get_by_id_def station_get_put [OF g])
qed

lemma station_tick_epoch_get [simp]:
  "station_get (s\<lparr>st_tick := t\<rparr>) = station_get s" "station_get (s\<lparr>st_owner_epoch := e\<rparr>) = station_get s"
  "station_get_by_id (s\<lparr>st_tick := t\<rparr>) = station_get_by_id s"
  "station_get_by_id (s\<lparr>st_owner_epoch := e\<rparr>) = station_get_by_id s"
  by (simp_all add: station_get_def station_get_by_id_def fun_eq_iff cong: option.case_cong if_cong)

lemma station_tick_epoch_wf [simp]:
  "station_wf (s\<lparr>st_tick := t\<rparr>) = station_wf s" "station_wf (s\<lparr>st_owner_epoch := e\<rparr>) = station_wf s"
  by (simp_all add: station_wf_def)

subsection \<open>Allocation\<close>

text \<open>The slot a station hands out next, and whether there is one.\<close>

definition station_has_room :: "station \<Rightarrow> bool" where
  "station_has_room s \<longleftrightarrow> st_free s \<noteq> [] \<or> length (st_records s) < 2 ^ 32"

definition insert_new :: "station \<Rightarrow> (entity_handle \<Rightarrow> entity_record) \<Rightarrow> (entity_handle \<times> station) option" where
  "insert_new s f =
     (case allocate_handle s of
        None \<Rightarrow> None
      | Some (h, s1) \<Rightarrow>
          (case insert_allocated s1 h (f h) of None \<Rightarrow> None | Some s2 \<Rightarrow> Some (h, s2)))"

lemma allocate_handle_cases:
  assumes wf: "station_wf s" and room: "station_has_room s"
  obtains (recycled) rest i where "st_free s = rest @ [i]" "unat i < length (st_records s)"
      "st_records s ! unat i = None"
      "allocate_handle s = Some (EntityHandle i (st_generations s ! unat i), s\<lparr>st_free := rest\<rparr>)"
  | (fresh) "st_free s = []" "length (st_records s) < 2 ^ 32"
      "allocate_handle s = Some (EntityHandle (of_nat (length (st_records s))) 0,
         s\<lparr>st_records := st_records s @ [None], st_generations := st_generations s @ [0]\<rparr>)"
proof (cases "st_free s" rule: rev_cases)
  case Nil
  with room show thesis
    by (intro fresh) (auto simp: station_has_room_def allocate_handle_def vec_pop_def)
next
  case (snoc rest i)
  then have "i \<in> set (st_free s)" by simp
  then have i: "unat i < length (st_records s)" "st_records s ! unat i = None"
    using station_wf_shape(4) [OF wf] by auto
  then show thesis
    using snoc station_wf_shape(1) [OF wf]
    by (intro recycled [of rest i]) (auto simp: allocate_handle_def vec_pop_def vec_get_def)
qed
lemma allocate_handle_None: "station_wf s \<Longrightarrow> \<not> station_has_room s \<Longrightarrow> allocate_handle s = None"
  by (auto simp: station_has_room_def allocate_handle_def vec_pop_def)

text \<open>What an insertion does to a coherent station, stated once for its four callers.\<close>

definition inserted :: "station \<Rightarrow> entity_handle \<Rightarrow> entity_record \<Rightarrow> station \<Rightarrow> bool" where
  "inserted s h r s' \<longleftrightarrow>
     station_wf s' \<and> station_get s h = None \<and>
     (\<forall>k. station_get s' k = (if k = h then Some r else station_get s k)) \<and>
     st_by_id s' = fmupd (er_id r) h (st_by_id s) \<and>
     st_config s' = st_config s \<and> st_tick s' = st_tick s \<and> st_owner_epoch s' = st_owner_epoch s \<and>
     length (st_records s) \<le> length (st_records s') \<and>
     (\<forall>i < length (st_records s). st_generations s' ! i = st_generations s ! i)"

lemma station_wfI_inserted:
  assumes wf: "station_wf s"
    and new: "fmlookup (st_by_id s) (er_id r) = None" and h: "er_handle r = h" "station_get s h = None"
    and get: "\<And>k. station_get s' k = (if k = h then Some r else station_get s k)"
    and idx: "st_by_id s' = fmupd (er_id r) h (st_by_id s)"
    and shape: "length (st_generations s') = length (st_records s')" "length (st_records s') \<le> 2 ^ 32"
      "distinct (st_free s')"
      "set (st_free s') = {i. unat i < length (st_records s') \<and> st_records s' ! unat i = None}"
  shows "station_wf s'"
proof -
  have "er_handle r' = k \<and> fmlookup (st_by_id s') (er_id r') = Some k"
    if "station_get s' k = Some r'" for k r'
    using that station_wf_get [OF wf] new h by (auto simp: get idx split: if_splits)
  moreover have "\<exists>r'. station_get s' k = Some r' \<and> er_id r' = i"
    if ik: "fmlookup (st_by_id s') i = Some k" for i k
  proof (cases "i = er_id r")
    case True
    with ik show ?thesis by (auto simp: get idx)
  next
    case False
    with ik have "fmlookup (st_by_id s) i = Some k" by (simp add: idx)
    then obtain r' where "station_get s k = Some r'" "er_id r' = i" by (rule station_wf_lookup [OF wf])
    with h show ?thesis by (auto simp: get)
  qed
  ultimately show ?thesis unfolding station_wf_def using shape by simp
qed

lemma insert_new_inserted:
  assumes wf: "station_wf s" and room: "station_has_room s"
    and f: "\<And>h. er_id (f h) = i \<and> er_handle (f h) = h" and new: "fmlookup (st_by_id s) i = None"
  obtains h s' where "insert_new s f = Some (h, s')" "inserted s h (f h) s'"
  using wf room
proof (cases rule: allocate_handle_cases)
  case (recycled rest j)
  let ?h = "EntityHandle j (st_generations s ! unat j)"
  define s' where "s' = s\<lparr>st_free := rest, st_by_id := fmupd i ?h (st_by_id s),
    st_records := (st_records s)[unat j := Some (f ?h)]\<rparr>"
  have ins: "insert_new s f = Some (?h, s')"
    using recycled f by (simp add: insert_new_def insert_allocated_def s'_def)
  have none: "station_get s ?h = None"
    using recycled by (simp add: station_get_def vec_get_def)
  have get: "station_get s' k = (if k = ?h then Some (f ?h) else station_get s k)" for k
    using recycled station_wf_shape(1) [OF wf]
    by (auto simp: station_get_def s'_def vec_get_def nth_list_update entity_handle_eq_iff
        word_unat_eq_iff split: option.splits if_splits)
  have jfree: "x \<in> set (st_free s) \<longleftrightarrow> unat x < length (st_records s) \<and> st_records s ! unat x = None" for x
    by (rule station_wf_shape(4) [OF wf])
  have rest: "x \<in> set rest \<longleftrightarrow> unat x \<noteq> unat j \<and> unat x < length (st_records s) \<and> st_records s ! unat x = None" for x
    using jfree [of x] recycled(1) station_wf_shape(3) [OF wf] by (auto simp: word_unat_eq_iff [symmetric])
  have "station_wf s'"
  proof (rule station_wfI_inserted [where r = "f ?h", OF wf _ _ none])
    show "set (st_free s') = {x. unat x < length (st_records s') \<and> st_records s' ! unat x = None}"
      unfolding set_eq_iff mem_Collect_eq using recycled(2) by (simp add: s'_def rest nth_list_update)
  qed (use new get recycled(1) station_wf_shape(1,2,3) [OF wf] in \<open>simp_all add: s'_def f\<close>)
  then have "inserted s ?h (f ?h) s'"
    using none get f by (auto simp: inserted_def s'_def)
  with ins show thesis by (rule that)
next
  case fresh
  let ?n = "length (st_records s)"
  let ?h = "EntityHandle (of_nat ?n) 0"
  define s' where "s' = s\<lparr>st_by_id := fmupd i ?h (st_by_id s),
    st_records := st_records s @ [Some (f ?h)], st_generations := st_generations s @ [0]\<rparr>"
  have un: "unat (of_nat ?n :: u32) = ?n"
    using fresh by (simp add: unat_of_nat)
  have ins: "insert_new s f = Some (?h, s')"
    using fresh f un by (simp add: insert_new_def insert_allocated_def s'_def)
  have none: "station_get s ?h = None"
    using un station_wf_shape(1) [OF wf] by (simp add: station_get_def vec_get_def)
  have get: "station_get s' k = (if k = ?h then Some (f ?h) else station_get s k)" for k
    using un station_wf_shape(1) [OF wf]
    by (auto simp: station_get_def s'_def vec_get_def nth_append entity_handle_eq_iff
        word_unat_eq_iff split: option.splits if_splits)
  have "x \<in> {x. unat x < length (st_records s') \<and> st_records s' ! unat x = None} \<longleftrightarrow> x \<in> set (st_free s)" for x
    using station_wf_shape(4) [OF wf, of x] by (auto simp: s'_def nth_append less_Suc_eq)
  then have "station_wf s'"
    using f new get wf fresh station_wf_shape [OF wf] un
    by (intro station_wfI_inserted [where r = "f ?h", OF wf _ _ none]) (auto simp: s'_def)
  then have "inserted s ?h (f ?h) s'"
    using none get f station_wf_shape(1) [OF wf] by (auto simp: inserted_def s'_def nth_append)
  with ins show thesis by (rule that)
qed

lemma inserted_get_by_id:
  assumes wf: "station_wf s" and "inserted s h r s'"
  shows "station_get_by_id s' i = (if i = er_id r then Some r else station_get_by_id s i)"
proof (cases "i = er_id r")
  case False
  have "station_get s h = None" using assms by (simp add: inserted_def)
  then have "fmlookup (st_by_id s) i \<noteq> Some h" by (auto elim: station_wf_lookup [OF wf])
  then show ?thesis using assms False
    by (auto simp: inserted_def station_get_by_id_def split: option.splits)
qed (use assms in \<open>auto simp: inserted_def station_get_by_id_def\<close>)

lemma insert_new_None: "station_wf s \<Longrightarrow> \<not> station_has_room s \<Longrightarrow> insert_new s f = None"
  by (simp add: insert_new_def allocate_handle_None)

lemma allocate_handle_epoch: "allocate_handle s = Some (h, s1) \<Longrightarrow> st_owner_epoch s1 = st_owner_epoch s"
  by (auto simp: allocate_handle_def split: option.splits if_splits prod.splits)

lemma spawn_owned_insert:
  "spawn_owned s i p b pol =
     (if fmlookup (st_by_id s) i \<noteq> None then Some (Err (DuplicateEntity i), s)
      else map_option (map_prod Ok id) (insert_new s (\<lambda>h. record_owned i h p b pol (st_owner_epoch s))))"
  by (auto simp: spawn_owned_def insert_new_def dest: allocate_handle_epoch split: option.splits)

lemma upsert_ghost_insert:
  "fmlookup (st_by_id s) i = None \<Longrightarrow>
   upsert_ghost s i p b pol owner epoch expires =
     insert_new s (\<lambda>h. record_ghost i h p b pol owner epoch expires)"
  by (auto simp: upsert_ghost_def insert_new_def split: option.splits)

lemma commit_incoming_insert:
  assumes "ht_target_station t = cfg_station_id (st_config s)" "handle_by_id s (ht_entity_id t) = None"
  shows "commit_incoming_handoff s t =
     map_option (map_prod Ok (st_owner_epoch_update (\<lambda>_. ht_target_owner_epoch t)))
       (insert_new s (committed_record t))"
  using assms
  by (auto simp: commit_incoming_handoff_def insert_new_def insert_allocated_def split: option.splits)

subsection \<open>Removal\<close>

lemma station_remove_Some:
  assumes wf: "station_wf s" and g: "station_get s h = Some r"
  defines "i \<equiv> unat (h_index h)"
  shows "station_remove s h =
    Some (Ok r, s\<lparr>st_records := (st_records s)[i := None], st_by_id := fmdrop (er_id r) (st_by_id s),
                  st_generations := (st_generations s)[i := sat_add (h_generation h) 1],
                  st_free := st_free s @ [h_index h]\<rparr>)"
  using g by (simp add: station_remove_def station_get_Some_iff vec_get_def i_def Let_def)

lemma station_remove_None:
  assumes wf: "station_wf s" and g: "station_get s h = None"
  shows "station_remove s h = Some (Err (MissingEntityHandle h), s)"
  using g station_wf_shape(1) [OF wf]
  by (auto simp: station_remove_def station_get_def vec_get_def split: option.splits if_splits)

lemma station_remove_removed:
  assumes wf: "station_wf s" and g: "station_get s h = Some r"
  obtains s' where "station_remove s h = Some (Ok r, s')" "station_wf s'"
    "\<And>k. station_get s' k = (if h_index k = h_index h then None else station_get s k)"
    "st_by_id s' = fmdrop (er_id r) (st_by_id s)" "st_config s' = st_config s"
    "st_tick s' = st_tick s" "st_owner_epoch s' = st_owner_epoch s"
    "length (st_records s') = length (st_records s)"
    "st_generations s' = (st_generations s)[unat (h_index h) := sat_add (h_generation h) 1]"
proof -
  define s' where "s' = s\<lparr>st_records := (st_records s)[unat (h_index h) := None],
    st_by_id := fmdrop (er_id r) (st_by_id s),
    st_generations := (st_generations s)[unat (h_index h) := sat_add (h_generation h) 1],
    st_free := st_free s @ [h_index h]\<rparr>"
  have rem: "station_remove s h = Some (Ok r, s')"
    using station_remove_Some [OF wf g] by (simp add: s'_def)
  have get: "station_get s' k = (if h_index k = h_index h then None else station_get s k)" for k
    using g by (auto simp: station_get_def s'_def vec_get_def nth_list_update word_unat_eq_iff
        split: option.splits if_splits)
  have live: "unat (h_index h) < length (st_records s)" "st_records s ! unat (h_index h) = Some r"
    using g by (auto simp: station_get_Some_iff)
  have free: "x \<in> set (st_free s) \<longleftrightarrow> unat x < length (st_records s) \<and> st_records s ! unat x = None" for x
    by (rule station_wf_shape(4) [OF wf])
  have hr: "fmlookup (st_by_id s) (er_id r) = Some h" "er_handle r = h"
    using station_wf_get [OF wf g] by auto
  have "er_handle r' = k \<and> fmlookup (st_by_id s') (er_id r') = Some k"
    if "station_get s' k = Some r'" for k r'
  proof -
    have k: "h_index k \<noteq> h_index h" "station_get s k = Some r'" using that by (auto simp: get split: if_splits)
    then show ?thesis using station_wf_get [OF wf k(2)] hr by (auto simp: s'_def)
  qed
  moreover have "\<exists>r'. station_get s' k = Some r' \<and> er_id r' = i"
    if ik: "fmlookup (st_by_id s') i = Some k" for i k
  proof -
    have i: "i \<noteq> er_id r" "fmlookup (st_by_id s) i = Some k" using ik by (auto simp: s'_def split: if_splits)
    obtain r' where r': "station_get s k = Some r'" "er_id r' = i" by (rule station_wf_lookup [OF wf i(2)])
    then have "h_index k \<noteq> h_index h"
      using live i(1) by (auto simp: station_get_Some_iff)
    with r' show ?thesis by (simp add: get)
  qed
  moreover have "set (st_free s') = {x. unat x < length (st_records s') \<and> st_records s' ! unat x = None}"
    using free live by (auto simp: s'_def nth_list_update word_unat_eq_iff [symmetric])
  moreover have "distinct (st_free s')" using free live station_wf_shape(3) [OF wf] by (auto simp: s'_def)
  ultimately have "station_wf s'"
    unfolding station_wf_def using station_wf_shape [OF wf] by (simp add: s'_def)
  from rem this get show thesis by (rule that) (simp_all add: s'_def)
qed

lemma removed_get_by_id:
  assumes wf: "station_wf s" and g: "station_get s h = Some r"
    and get: "\<And>k. station_get s' k = (if h_index k = h_index h then None else station_get s k)"
    and idx: "st_by_id s' = fmdrop (er_id r) (st_by_id s)"
  shows "station_get_by_id s' i = (if i = er_id r then None else station_get_by_id s i)"
proof (cases "fmlookup (st_by_id s) i")
  case (Some k)
  obtain r' where r': "station_get s k = Some r'" "er_id r' = i" by (rule station_wf_lookup [OF wf Some])
  have "h_index k = h_index h \<longrightarrow> r' = r" using r' g by (auto simp: station_get_Some_iff)
  then show ?thesis using r' Some by (auto simp: station_get_by_id_def idx get)
qed (simp add: station_get_by_id_def idx)

section \<open>What each operation does to a coherent station\<close>

definition transfer_ok :: "handoff_transfer \<Rightarrow> bool" where
  "transfer_ok t \<longleftrightarrow> er_id (ht_entity t) = ht_entity_id t"

lemma committed_record_sel [simp]:
  "er_id (committed_record t h) = er_id (ht_entity t)" "er_handle (committed_record t h) = h"
  "record_is_owned (committed_record t h)"
  by (simp_all add: committed_record_def record_is_owned_def)

lemma record_owned_sel [simp]:
  "er_id (record_owned i h p b pol e) = i" "er_handle (record_owned i h p b pol e) = h"
  "record_is_owned (record_owned i h p b pol e)"
  by (simp_all add: record_owned_def record_is_owned_def)

lemma record_ghost_sel [simp]:
  "er_id (record_ghost i h p b pol st e x) = i" "er_handle (record_ghost i h p b pol st e x) = h"
  "\<not> record_is_owned (record_ghost i h p b pol st e x)"
  by (simp_all add: record_ghost_def record_is_owned_def)

lemma station_new_wf [simp]: "station_wf (station_new cfg)"
  by (simp add: station_wf_def station_new_def station_get_def vec_get_def)

lemma insert_new_cases:
  assumes wf: "station_wf s" and f: "\<And>h. er_id (f h) = i \<and> er_handle (f h) = h"
    and new: "fmlookup (st_by_id s) i = None" and eq: "insert_new s f = Some (h, s')"
  shows "inserted s h (f h) s'"
proof (cases "station_has_room s")
  case True
  then show ?thesis by (rule insert_new_inserted [OF wf _ f new]) (use eq in auto)
qed (use insert_new_None [OF wf] eq in simp)

text \<open>Every operation of a coherent station either writes one live record in place, inserts one
  record under a fresh identifier, removes one record, or leaves the records alone. The last two
  arguments are the only parts of the state beside the records that may change.\<close>

inductive station_effect :: "station \<Rightarrow> station \<Rightarrow> bool" where
  effect_none: "station_effect s (s\<lparr>st_tick := t, st_owner_epoch := e\<rparr>)"
| effect_put: "station_get s h = Some r0 \<Longrightarrow> er_id r = er_id r0 \<Longrightarrow> er_handle r = er_handle r0 \<Longrightarrow>
    station_effect s ((station_put s h r)\<lparr>st_owner_epoch := e\<rparr>)"
| effect_insert: "inserted s h r s' \<Longrightarrow> station_effect s (s'\<lparr>st_owner_epoch := e\<rparr>)"
| effect_remove: "station_get s h = Some r \<Longrightarrow> station_remove s h = Some (Ok r, s') \<Longrightarrow> station_effect s s'"

lemma station_effect_refl [simp]: "station_effect s s"
  using effect_none [where s = s and t = "st_tick s" and e = "st_owner_epoch s"] by simp

lemma effect_put_same:
  assumes "station_get s h = Some r0" "er_id r = er_id r0" "er_handle r = er_handle r0"
  shows "station_effect s (station_put s h r)"
  using effect_put [OF assms, of "st_owner_epoch s"] by (simp add: station_put_def)

lemma effect_insert_same: "inserted s h r s' \<Longrightarrow> station_effect s s'"
  using effect_insert [of s h r s' "st_owner_epoch s'"] by simp

lemma station_effect_wf: "station_effect s s' \<Longrightarrow> station_wf s \<Longrightarrow> station_wf s'"
proof (induction rule: station_effect.induct)
  case (effect_put s h r0 r e)
  then show ?case by (simp add: station_put_wf)
next
  case (effect_remove s h r s')
  then show ?case by (auto elim: station_remove_removed)
qed (auto simp: inserted_def)

text \<open>A handle is dead when the generation of its slot has moved past it.\<close>

definition handle_dead :: "station \<Rightarrow> entity_handle \<Rightarrow> bool" where
  "handle_dead s h \<longleftrightarrow>
     (\<exists>g. vec_get (st_generations s) (unat (h_index h)) = Some g \<and> h_generation h < g)"

lemma handle_dead_get: "handle_dead s h \<Longrightarrow> station_get s h = None"
  by (auto simp: handle_dead_def station_get_def)

lemma station_effect_dead: "station_effect s s' \<Longrightarrow> station_wf s \<Longrightarrow> handle_dead s h \<Longrightarrow> handle_dead s' h"
proof (induction rule: station_effect.induct)
  case (effect_insert s k r s' e)
  then show ?case
    using station_wf_shape(1) [of s] station_wf_shape(1) [of s']
    by (auto simp: handle_dead_def inserted_def vec_get_Some_iff)
next
  case (effect_remove s k r s')
  from effect_remove(3,1) obtain s2 where s2: "station_remove s k = Some (Ok r, s2)"
    "st_generations s2 = (st_generations s)[unat (h_index k) := sat_add (h_generation k) 1]"
    by (rule station_remove_removed)
  have "h_generation h < g \<Longrightarrow> h_generation h < sat_add g 1" for g
    by (metis less_le_trans sat_add_mono)
  then show ?case using effect_remove s2
    by (auto simp: handle_dead_def vec_get_def nth_list_update station_get_Some_iff split: if_splits)
qed (simp_all add: handle_dead_def)

lemma spawn_owned_effect:
  "station_wf s \<Longrightarrow> spawn_owned s i p b pol = Some (x, s') \<Longrightarrow> station_effect s s'"
  by (auto simp: spawn_owned_insert split: if_splits
      intro: effect_insert_same dest!: insert_new_cases [rotated 3])

lemma upsert_ghost_effect:
  assumes wf: "station_wf s" and eq: "upsert_ghost s i p b pol w e x = Some (h, s')"
  shows "station_effect s s'"
proof (cases "fmlookup (st_by_id s) i")
  case None
  with eq have "insert_new s (\<lambda>h. record_ghost i h p b pol w e x) = Some (h, s')"
    by (simp add: upsert_ghost_insert)
  from insert_new_cases [OF wf _ None this] show ?thesis by (auto intro: effect_insert_same)
next
  case (Some k)
  then obtain r where "station_get s k = Some r" by (rule station_wf_lookup [OF wf])
  with eq Some show ?thesis by (auto simp: upsert_ghost_def intro!: effect_put_same)
qed

lemma station_remove_effect:
  assumes wf: "station_wf s" and eq: "station_remove s h = Some (x, s')"
  shows "station_effect s s'"
proof (cases "station_get s h")
  case None
  with eq show ?thesis by (simp add: station_remove_None [OF wf])
next
  case (Some r)
  with station_remove_Some [OF wf Some] eq have "station_remove s h = Some (Ok r, s')" by simp
  with Some show ?thesis by (rule effect_remove)
qed

lemma commit_incoming_effect:
  assumes wf: "station_wf s" and t: "transfer_ok t"
    and eq: "commit_incoming_handoff s t = Some (x, s')"
  shows "station_effect s s'"
proof (cases "ht_target_station t = cfg_station_id (st_config s)")
  case False
  with eq show ?thesis by (simp add: commit_incoming_handoff_def)
next
  case target: True
  show ?thesis
  proof (cases "handle_by_id s (ht_entity_id t)")
    case None
    with eq target obtain h s1 where 1: "insert_new s (committed_record t) = Some (h, s1)"
      "s' = s1\<lparr>st_owner_epoch := ht_target_owner_epoch t\<rparr>"
      by (auto simp: commit_incoming_insert)
    from insert_new_cases [OF wf _ _ 1(1), of "ht_entity_id t"] None t
    have "inserted s h (committed_record t h) s1" by (auto simp: handle_by_id_def transfer_ok_def)
    then show ?thesis unfolding 1(2) by (rule effect_insert)
  next
    case (Some k)
    then obtain r where r: "station_get s k = Some r" "er_id r = ht_entity_id t" "er_handle r = k"
      unfolding handle_by_id_def by (rule station_wf_lookup [OF wf])
    show ?thesis
      using eq target Some r t
      by (auto simp: commit_incoming_handoff_def transfer_ok_def split: if_splits intro!: effect_put)
  qed
qed

subsection \<open>Operations as a step relation\<close>

text \<open>One call of a mutating operation that returns. \<open>get_mut\<close> hands out the whole record, so a
  caller's edit through it is a step only when it keeps the record's identifier and handle.\<close>

inductive station_step :: "station \<Rightarrow> station \<Rightarrow> bool" where
  step_tick: "station_step s (advance_tick s)"
| step_epoch: "next_owner_epoch s = (e, s') \<Longrightarrow> station_step s s'"
| step_spawn: "spawn_owned s i p b pol = Some (x, s') \<Longrightarrow> station_step s s'"
| step_ghost: "upsert_ghost s i p b pol w e t = Some (h, s') \<Longrightarrow> station_step s s'"
| step_edit: "station_get_mut s h f = Some s' \<Longrightarrow>
    (\<And>r. er_id (f r) = er_id r \<and> er_handle (f r) = er_handle r) \<Longrightarrow> station_step s s'"
| step_move: "move_owned s h p = (y, s') \<Longrightarrow> station_step s s'"
| step_tags: "set_tags s h t' = (y, s') \<Longrightarrow> station_step s s'"
| step_dirty: "clear_dirty s h m = (y, s') \<Longrightarrow> station_step s s'"
| step_remove: "station_remove s h = Some (z, s') \<Longrightarrow> station_step s s'"
| step_remove_id: "remove_by_id s i = Some (z, s') \<Longrightarrow> station_step s s'"
| step_prewarm: "prewarm_handoff_ghost s tr = Some (x, s') \<Longrightarrow> station_step s s'"
| step_incoming: "commit_incoming_handoff s tr = Some (x, s') \<Longrightarrow> transfer_ok tr \<Longrightarrow> station_step s s'"
| step_outgoing: "commit_outgoing_handoff s tr = (x, s') \<Longrightarrow> station_step s s'"

lemma station_step_effect: "station_step s s' \<Longrightarrow> station_wf s \<Longrightarrow> station_effect s s'"
proof (induction rule: station_step.induct)
  case (step_tick s)
  then show ?case using effect_none [where s = s and e = "st_owner_epoch s"] by (simp add: advance_tick_def)
next
  case (step_epoch s e s')
  then show ?case using effect_none [where s = s and t = "st_tick s"]
    by (auto simp: next_owner_epoch_def Let_def)
next
  case (step_edit s h f s')
  then show ?case by (auto simp: station_get_mut_def split: option.splits intro!: effect_put_same)
next
  case (step_move s h p y s')
  then show ?case by (auto simp: move_owned_def split: option.splits if_splits intro!: effect_put_same)
next
  case (step_tags s h t y s')
  then show ?case by (auto simp: set_tags_def split: option.splits if_splits intro!: effect_put_same)
next
  case (step_dirty s h m y s')
  then show ?case by (auto simp: clear_dirty_def split: option.splits if_splits intro!: effect_put_same)
next
  case (step_remove_id s i z s')
  then show ?case by (auto simp: remove_by_id_def split: option.splits intro: station_remove_effect)
next
  case (step_prewarm s tr x s')
  then show ?case
    by (auto simp: prewarm_handoff_ghost_def split: option.splits if_splits intro: upsert_ghost_effect)
next
  case (step_outgoing s tr x s')
  then show ?case
    by (auto simp: commit_outgoing_handoff_def split: option.splits if_splits intro!: effect_put_same)
qed (auto intro: spawn_owned_effect upsert_ghost_effect station_remove_effect commit_incoming_effect)

lemma station_steps_wf: "station_step\<^sup>*\<^sup>* s s' \<Longrightarrow> station_wf s \<Longrightarrow> station_wf s'"
  by (induction rule: rtranclp_induct) (auto dest: station_step_effect station_effect_wf)

lemma station_steps_dead:
  "station_step\<^sup>*\<^sup>* s s' \<Longrightarrow> station_wf s \<Longrightarrow> handle_dead s h \<Longrightarrow> handle_dead s' h"
  by (induction rule: rtranclp_induct)
    (auto dest!: station_step_effect station_effect_dead intro: station_steps_wf)

section \<open>Properties\<close>

text \<open>A station used in the witnesses: one authoritative entity.\<close>

definition demo_config :: "station_id \<Rightarrow> station_config" where
  "demo_config i = \<lparr>cfg_station_id = i, cfg_node_id = 1, cfg_instance_id = 7, cfg_tick_rate_hz = 20\<rparr>"

definition demo_position :: position3 where
  "demo_position = \<lparr>px = f32_zero, py = f32_one, pz = f32_zero\<rparr>"

definition demo_station :: "station_id \<Rightarrow> entity_id \<Rightarrow> station" where
  "demo_station sid i =
     \<lparr>st_config = demo_config sid, st_tick = 0, st_owner_epoch = 0,
      st_records = [Some (record_owned i (EntityHandle 0 0) demo_position BPoint 3 0)],
      st_generations = [0], st_free = [], st_by_id = fmupd i (EntityHandle 0 0) fmempty\<rparr>"

lemma demo_station_spawn:
  "spawn_owned (station_new (demo_config sid)) i demo_position BPoint 3 =
     Some (Ok (EntityHandle 0 0), demo_station sid i)"
  by (simp add: spawn_owned_def station_new_def allocate_handle_def vec_pop_def insert_allocated_def
      demo_station_def)

lemma demo_station_reachable: "station_step\<^sup>*\<^sup>* (station_new (demo_config sid)) (demo_station sid i)"
  by (rule r_into_rtranclp, rule step_spawn, rule demo_station_spawn)

lemma demo_station_wf [simp]: "station_wf (demo_station sid i)"
  by (rule station_steps_wf [OF demo_station_reachable]) simp

lemma demo_station_lookup [simp]:
  "station_get (demo_station sid i) (EntityHandle 0 0) =
     Some (record_owned i (EntityHandle 0 0) demo_position BPoint 3 0)"
  "station_get_by_id (demo_station sid i) i =
     Some (record_owned i (EntityHandle 0 0) demo_position BPoint 3 0)"
  "st_config (demo_station sid i) = demo_config sid"
  by (simp_all add: station_get_by_id_def demo_station_def station_get_def vec_get_def)

text \<open>C17. A handle whose entity was removed never resolves again, whatever the station does
  afterwards, as long as the slot's generation counter had not reached its limit: recycled slots
  cannot be confused with the entity that used to live there.\<close>

theorem stale_handle_never_resolves:
  assumes wf: "station_wf s" and live: "station_get s h = Some r" and gen: "h_generation h < - 1"
    and rem: "station_remove s h = Some (Ok r, s1)" and steps: "station_step\<^sup>*\<^sup>* s1 s2"
  shows "station_get s2 h = None"
proof -
  have wf1: "station_wf s1" using station_effect_wf [OF effect_remove [OF live rem] wf] .
  obtain s1' where "station_remove s h = Some (Ok r, s1')"
    "st_generations s1' = (st_generations s)[unat (h_index h) := sat_add (h_generation h) 1]"
    by (rule station_remove_removed [OF wf live])
  moreover have "h_generation h < sat_add (h_generation h) 1"
    using gen by (rule sat_add_one_less)
  ultimately have "handle_dead s1 h"
    using rem live by (auto simp: handle_dead_def vec_get_def station_get_Some_iff)
  with steps wf1 have "handle_dead s2 h" by (rule station_steps_dead)
  then show ?thesis by (rule handle_dead_get)
qed

text \<open>The bound on the generation is needed: at the last generation the slot is handed out under the same
  handle again.\<close>

definition worn_station :: station where
  "worn_station = (demo_station 1 9)
     \<lparr>st_records := [Some (record_owned 9 (EntityHandle 0 (- 1)) demo_position BPoint 3 0)],
      st_generations := [- 1], st_by_id := fmupd 9 (EntityHandle 0 (- 1)) fmempty\<rparr>"

lemma worn_handle_reused:
  "\<exists>r s1 s2. station_remove worn_station (EntityHandle 0 (- 1)) = Some (Ok r, s1) \<and>
     spawn_owned s1 10 demo_position BPoint 3 = Some (Ok (EntityHandle 0 (- 1)), s2)"
  by (simp add: worn_station_def demo_station_def station_remove_def vec_get_def spawn_owned_def
      allocate_handle_def vec_pop_def insert_allocated_def sat_add_def unat_minus_one)

text \<open>The witness removes the entity of the demonstration station and spawns another one.\<close>

lemma demo_remove:
  "station_remove (demo_station 1 9) (EntityHandle 0 0) =
     Some (Ok (record_owned 9 (EntityHandle 0 0) demo_position BPoint 3 0),
       (demo_station 1 9)\<lparr>st_records := [None], st_by_id := fmempty, st_generations := [1], st_free := [0]\<rparr>)"
  by (simp add: demo_station_def station_remove_def vec_get_def sat_add_def fmdrop_fmupd)

lemma zero_less_max_u32 [simp]: "(0 :: u32) < - 1"
  by (simp add: word_less_nat_alt unat_minus_one)

theorem stale_handle_never_resolves_witness:
  "\<exists>s2 s3. spawn_owned s2 10 demo_position BPoint 3 = Some (Ok (EntityHandle 0 1), s3) \<and>
     station_get s3 (EntityHandle 0 0) = None"
proof -
  let ?s2 = "(demo_station 1 9)\<lparr>st_records := [None], st_by_id := fmempty, st_generations := [1], st_free := [0]\<rparr>"
  have "\<exists>s3. spawn_owned ?s2 10 demo_position BPoint 3 = Some (Ok (EntityHandle 0 1), s3)"
    by (simp add: demo_station_def spawn_owned_def allocate_handle_def vec_pop_def insert_allocated_def vec_get_def)
  then obtain s3 where s3: "spawn_owned ?s2 10 demo_position BPoint 3 = Some (Ok (EntityHandle 0 1), s3)" ..
  have "station_get s3 (EntityHandle 0 0) = None"
    by (rule stale_handle_never_resolves [OF demo_station_wf demo_station_lookup(1) _ demo_remove])
      (auto intro: step_spawn [OF s3])
  with s3 show ?thesis by blast
qed

text \<open>Spawning refines a map update: with a slot to hand out, a spawn under a fresh identifier
  binds exactly that identifier, to an authoritative record at the requested position with the
  station's epoch, under a handle that resolved to nothing before; under a taken identifier it
  reports the duplicate and changes nothing. It never panics.\<close>

theorem spawn_owned_refines_map:
  assumes wf: "station_wf s" and room: "station_has_room s"
  shows "\<exists>h s'. spawn_owned s i p b pol =
      Some (if station_get_by_id s i \<noteq> None then (Err (DuplicateEntity i), s) else (Ok h, s')) \<and>
    (station_get_by_id s i = None \<longrightarrow>
       station_get s h = None \<and>
       station_get_by_id s' =
         (station_get_by_id s)(i \<mapsto> record_owned i h p b pol (st_owner_epoch s)))"
proof (cases "fmlookup (st_by_id s) i")
  case None
  obtain h s' where 1: "insert_new s (\<lambda>h. record_owned i h p b pol (st_owner_epoch s)) = Some (h, s')"
    and 2: "inserted s h (record_owned i h p b pol (st_owner_epoch s)) s'"
    by (rule insert_new_inserted [where f = "\<lambda>h. record_owned i h p b pol (st_owner_epoch s)",
          OF wf room _ None]) auto
  have "station_get s h = None" using 2 by (simp add: inserted_def)
  moreover have "station_get_by_id s' =
      (station_get_by_id s)(i \<mapsto> record_owned i h p b pol (st_owner_epoch s))"
    using inserted_get_by_id [OF wf 2] by (simp add: fun_eq_iff)
  ultimately show ?thesis using None 1
    by (auto simp: spawn_owned_insert station_get_by_id_None_iff [OF wf])
qed (auto simp: spawn_owned_insert station_get_by_id_None_iff [OF wf])

theorem spawn_owned_refines_map_witness:
  "\<exists>h s'. spawn_owned (demo_station 1 9) 10 demo_position BPoint 3 = Some (Ok h, s') \<and>
     station_get_by_id s' 9 = Some (record_owned 9 (EntityHandle 0 0) demo_position BPoint 3 0)"
proof -
  have "station_has_room (demo_station 1 9)" by (simp add: station_has_room_def demo_station_def)
  moreover have "station_get_by_id (demo_station 1 9) 10 = None"
    by (simp add: station_get_by_id_def demo_station_def)
  ultimately show ?thesis
    using spawn_owned_refines_map [OF demo_station_wf, of 1 9 10 demo_position BPoint 3] by auto
qed

text \<open>Removal refines map deletion and never panics: a live handle gives back its record and
  unbinds exactly its identifier; any other handle is reported as missing and nothing changes.\<close>

theorem remove_refines_map:
  assumes wf: "station_wf s"
  shows "case station_get s h of
      None \<Rightarrow> station_remove s h = Some (Err (MissingEntityHandle h), s)
    | Some r \<Rightarrow> \<exists>s'. station_remove s h = Some (Ok r, s') \<and> station_get s' h = None \<and>
        station_get_by_id s' = (station_get_by_id s)(er_id r := None)"
proof (cases "station_get s h")
  case (Some r)
  obtain s' where 1: "station_remove s h = Some (Ok r, s')"
    and get: "\<And>k. station_get s' k = (if h_index k = h_index h then None else station_get s k)"
    and idx: "st_by_id s' = fmdrop (er_id r) (st_by_id s)"
    by (rule station_remove_removed [OF wf Some], rule that; assumption)
  from removed_get_by_id [OF wf Some get idx]
  have "station_get_by_id s' = (station_get_by_id s)(er_id r := None)" by (simp add: fun_eq_iff)
  then show ?thesis using 1 get Some by auto
qed (simp add: station_remove_None [OF wf])

theorem remove_refines_map_witness:
  "\<exists>s'. station_remove (demo_station 1 9) (EntityHandle 0 0) =
      Some (Ok (record_owned 9 (EntityHandle 0 0) demo_position BPoint 3 0), s') \<and>
    station_get_by_id s' 9 = None"
  using remove_refines_map [OF demo_station_wf, of 1 9 "EntityHandle 0 0"] by auto

subsection \<open>Hand-off between two stations\<close>

lemma prepare_Ok_iff:
  "prepare_outgoing_handoff s i target epoch expires = Ok t \<longleftrightarrow>
     target \<noteq> cfg_station_id (st_config s) \<and>
     (\<exists>r. station_get_by_id s i = Some r \<and> record_is_owned r \<and>
        t = \<lparr>ht_entity_id = i, ht_source_station = cfg_station_id (st_config s),
             ht_target_station = target, ht_source_owner_epoch = role_epoch (er_role r),
             ht_target_owner_epoch = epoch, ht_prepared_at = st_tick s,
             ht_source_ghost_expires_at = expires, ht_entity = r\<rparr>)"
  by (auto simp: prepare_outgoing_handoff_def split: option.splits if_splits)

lemma prepare_transfer_ok:
  "station_wf s \<Longrightarrow> prepare_outgoing_handoff s i target epoch expires = Ok t \<Longrightarrow> transfer_ok t"
  by (auto simp: prepare_Ok_iff transfer_ok_def station_get_by_id_def split: option.splits
      elim: station_wf_lookup)

lemma station_wf_by_id:
  assumes "station_wf s" "station_get_by_id s i = Some r"
  shows "handle_by_id s i = Some (er_handle r)" "station_get s (er_handle r) = Some r" "er_id r = i"
  using assms
  by (auto simp: handle_by_id_def station_get_by_id_Some_iff, metis option.inject station_wf_lookup)

lemma commit_incoming_commits:
  assumes wf: "station_wf s" and target: "ht_target_station t = cfg_station_id (st_config s)"
    and ok: "transfer_ok t" and room: "station_has_room s"
    and other: "\<forall>r. station_get_by_id s (ht_entity_id t) = Some r \<longrightarrow> \<not> record_is_owned r"
  obtains h s' where "commit_incoming_handoff s t = Some (Ok h, s')"
    "station_get_by_id s' = (station_get_by_id s)(ht_entity_id t \<mapsto> committed_record t h)"
    "st_owner_epoch s' = ht_target_owner_epoch t" "st_config s' = st_config s"
proof (cases "station_get_by_id s (ht_entity_id t)")
  case None
  then have h: "handle_by_id s (ht_entity_id t) = None" by (simp add: handle_by_id_None_iff [OF wf])
  then have "fmlookup (st_by_id s) (ht_entity_id t) = None" by (simp add: handle_by_id_def)
  then obtain h s1 where 1: "insert_new s (committed_record t) = Some (h, s1)"
    and 2: "inserted s h (committed_record t h) s1"
    by (rule insert_new_inserted [where f = "committed_record t" and i = "ht_entity_id t", OF wf room, rotated 1])
      (use ok in \<open>simp_all add: transfer_ok_def\<close>)
  show thesis
  proof (rule that)
    show "commit_incoming_handoff s t = Some (Ok h, s1\<lparr>st_owner_epoch := ht_target_owner_epoch t\<rparr>)"
      using commit_incoming_insert [OF target h] 1 by simp
    show "station_get_by_id (s1\<lparr>st_owner_epoch := ht_target_owner_epoch t\<rparr>) =
        (station_get_by_id s)(ht_entity_id t \<mapsto> committed_record t h)"
      using inserted_get_by_id [OF wf 2] ok by (simp add: fun_eq_iff transfer_ok_def)
  qed (use 2 in \<open>simp_all add: inserted_def\<close>)
next
  case (Some r)
  note r = station_wf_by_id [OF wf Some]
  let ?s' = "(station_put s (er_handle r) (committed_record t (er_handle r)))
    \<lparr>st_owner_epoch := ht_target_owner_epoch t\<rparr>"
  have not_owned: "\<not> record_is_owned r" using other Some by simp
  show thesis
  proof (rule that)
    show "commit_incoming_handoff s t = Some (Ok (er_handle r), ?s')"
      using target r not_owned by (simp add: commit_incoming_handoff_def)
    show "station_get_by_id ?s' = (station_get_by_id s)(ht_entity_id t \<mapsto> committed_record t (er_handle r))"
      using station_get_by_id_put [OF wf r(2)] r(3) by (simp add: fun_eq_iff)
  qed simp_all
qed

lemma commit_outgoing_commits:
  assumes wf: "station_wf s" and source: "ht_source_station t = cfg_station_id (st_config s)"
    and r: "station_get_by_id s (ht_entity_id t) = Some r" "record_is_owned r"
  defines "g \<equiv> r\<lparr>er_role := Ghost (ht_target_station t) (ht_target_owner_epoch t) (ht_source_ghost_expires_at t),
                 er_dirty := dirty_insert (er_dirty r) DIRTY_TRANSFORM\<rparr>"
  shows "commit_outgoing_handoff s t = (Ok (er_handle r), station_put s (er_handle r) g)"
    "station_get_by_id (station_put s (er_handle r) g) = (station_get_by_id s)(ht_entity_id t \<mapsto> g)"
proof -
  note h = station_wf_by_id [OF wf r(1)]
  show "commit_outgoing_handoff s t = (Ok (er_handle r), station_put s (er_handle r) g)"
    using source h r(2) by (simp add: commit_outgoing_handoff_def g_def)
  show "station_get_by_id (station_put s (er_handle r) g) = (station_get_by_id s)(ht_entity_id t \<mapsto> g)"
    using station_get_by_id_put [OF wf h(2)] h(3) by (simp add: fun_eq_iff)
qed

text \<open>The authority of a station over an entity.\<close>

definition station_owns :: "station \<Rightarrow> entity_id \<Rightarrow> bool" where
  "station_owns s i = (case station_get_by_id s i of None \<Rightarrow> False | Some r \<Rightarrow> record_is_owned r)"

text \<open>C18. A hand-off prepared by the owner and addressed to another station that does not own the
  entity cannot fail: both commits succeed, the target then holds the entity's exact state as its
  owner under the new epoch, the source holds a ghost that points at the target and its epoch, so
  exactly one of the two owns it, and no other entity of either station is touched.\<close>

theorem handoff_transfers_authority:
  assumes wfA: "station_wf A" and wfB: "station_wf B" and room: "station_has_room B"
    and prep: "prepare_outgoing_handoff A i (cfg_station_id (st_config B)) epoch expires = Ok t"
    and fresh: "\<not> station_owns B i"
  shows "\<exists>hB B' hA A' r.
    commit_incoming_handoff B t = Some (Ok hB, B') \<and> commit_outgoing_handoff A t = (Ok hA, A') \<and>
    station_get_by_id A i = Some r \<and>
    station_get_by_id B' = (station_get_by_id B)(i \<mapsto>
      r\<lparr>er_handle := hB, er_role := Owned epoch, er_dirty := dirty_insert (er_dirty r) DIRTY_TRANSFORM\<rparr>) \<and>
    station_get_by_id A' = (station_get_by_id A)(i \<mapsto>
      r\<lparr>er_role := Ghost (cfg_station_id (st_config B)) epoch expires,
        er_dirty := dirty_insert (er_dirty r) DIRTY_TRANSFORM\<rparr>) \<and>
    station_owns B' i \<and> \<not> station_owns A' i \<and> st_owner_epoch B' = epoch"
proof -
  from prep obtain r where r: "station_get_by_id A i = Some r" "record_is_owned r"
    and t: "t = \<lparr>ht_entity_id = i, ht_source_station = cfg_station_id (st_config A),
             ht_target_station = cfg_station_id (st_config B), ht_source_owner_epoch = role_epoch (er_role r),
             ht_target_owner_epoch = epoch, ht_prepared_at = st_tick A,
             ht_source_ghost_expires_at = expires, ht_entity = r\<rparr>"
    by (auto simp: prepare_Ok_iff)
  have ok: "transfer_ok t" by (rule prepare_transfer_ok [OF wfA prep])
  have other: "\<forall>q. station_get_by_id B (ht_entity_id t) = Some q \<longrightarrow> \<not> record_is_owned q"
    using fresh by (simp add: t station_owns_def split: option.splits)
  obtain hB B' where B': "commit_incoming_handoff B t = Some (Ok hB, B')"
    "station_get_by_id B' = (station_get_by_id B)(ht_entity_id t \<mapsto> committed_record t hB)"
    "st_owner_epoch B' = ht_target_owner_epoch t"
    by (rule commit_incoming_commits [OF wfB _ ok room other]) (simp add: t)
  have r': "station_get_by_id A (ht_entity_id t) = Some r" using r by (simp add: t)
  have "commit_outgoing_handoff A t = (Ok (er_handle r), station_put A (er_handle r)
      (r\<lparr>er_role := Ghost (ht_target_station t) (ht_target_owner_epoch t) (ht_source_ghost_expires_at t),
        er_dirty := dirty_insert (er_dirty r) DIRTY_TRANSFORM\<rparr>))"
    and "station_get_by_id (station_put A (er_handle r)
      (r\<lparr>er_role := Ghost (ht_target_station t) (ht_target_owner_epoch t) (ht_source_ghost_expires_at t),
        er_dirty := dirty_insert (er_dirty r) DIRTY_TRANSFORM\<rparr>)) = (station_get_by_id A)(ht_entity_id t \<mapsto>
      r\<lparr>er_role := Ghost (ht_target_station t) (ht_target_owner_epoch t) (ht_source_ghost_expires_at t),
        er_dirty := dirty_insert (er_dirty r) DIRTY_TRANSFORM\<rparr>)"
    by (rule commit_outgoing_commits [OF wfA _ r' r(2)], simp add: t)+
  then show ?thesis using B' r(1)
    by (simp add: t station_owns_def committed_record_def record_is_owned_def)
qed

theorem handoff_transfers_authority_witness:
  "\<exists>t hB B' hA A'. prepare_outgoing_handoff (demo_station 1 9) 9 2 5 100 = Ok t \<and>
     commit_incoming_handoff (demo_station 2 8) t = Some (Ok hB, B') \<and>
     commit_outgoing_handoff (demo_station 1 9) t = (Ok hA, A') \<and>
     station_owns B' 9 \<and> \<not> station_owns A' 9"
proof -
  have "\<exists>t. prepare_outgoing_handoff (demo_station 1 9) 9 (cfg_station_id (st_config (demo_station 2 8))) 5 100 = Ok t"
    by (simp add: prepare_Ok_iff demo_config_def)
  then obtain t where t: "prepare_outgoing_handoff (demo_station 1 9) 9
      (cfg_station_id (st_config (demo_station 2 8))) 5 100 = Ok t" ..
  have "station_has_room (demo_station 2 8)" "\<not> station_owns (demo_station 2 8) 9"
    by (simp_all add: station_has_room_def demo_station_def station_owns_def station_get_by_id_def)
  from handoff_transfers_authority [OF demo_station_wf demo_station_wf this(1) t this(2)] t
  show ?thesis by (fastforce simp: demo_config_def)
qed

text \<open>Replaying a committed hand-off changes nothing on either side: the new owner reports that it
  already owns the entity, the old owner that it no longer does, and a transfer that is delivered
  to the wrong station is refused by name.\<close>

theorem handoff_replay_rejected:
  assumes wfA: "station_wf A" and wfB: "station_wf B" and tok: "transfer_ok t"
    and inc: "commit_incoming_handoff B t = Some (Ok hB, B')"
    and out: "commit_outgoing_handoff A t = (Ok hA, A')"
  shows "commit_incoming_handoff B' t = Some (Err (AlreadyOwner (ht_entity_id t)), B') \<and>
    commit_outgoing_handoff A' t = (Err (NotOwner (ht_entity_id t)), A')"
proof
  have target: "ht_target_station t = cfg_station_id (st_config B)"
    using inc by (auto simp: commit_incoming_handoff_def split: if_splits)
  have wfB': "station_wf B'"
    using station_effect_wf [OF commit_incoming_effect [OF wfB tok inc] wfB] .
  have "station_get_by_id B' (ht_entity_id t) = Some (committed_record t hB) \<and> st_config B' = st_config B"
  proof (cases "handle_by_id B (ht_entity_id t)")
    case None
    then obtain B1 where 1: "insert_new B (committed_record t) = Some (hB, B1)"
      "B' = B1\<lparr>st_owner_epoch := ht_target_owner_epoch t\<rparr>"
      using inc commit_incoming_insert [OF target None] by auto
    have "inserted B hB (committed_record t hB) B1"
      by (rule insert_new_cases [where i = "ht_entity_id t", OF wfB _ _ 1(1)])
        (use None tok in \<open>auto simp: transfer_ok_def handle_by_id_def\<close>)
    with inserted_get_by_id [OF wfB this] show ?thesis using tok 1(2)
      by (simp add: transfer_ok_def inserted_def)
  next
    case (Some k)
    then obtain q where q: "station_get B k = Some q" "er_id q = ht_entity_id t"
      unfolding handle_by_id_def by (rule station_wf_lookup [OF wfB])
    with inc Some target have "hB = k" "B' = (station_put B k (committed_record t k))
        \<lparr>st_owner_epoch := ht_target_owner_epoch t\<rparr>"
      by (auto simp: commit_incoming_handoff_def split: if_splits)
    then show ?thesis using station_get_by_id_put [OF wfB q(1)] q(2) by simp
  qed
  then show "commit_incoming_handoff B' t = Some (Err (AlreadyOwner (ht_entity_id t)), B')"
    using station_wf_by_id(1,2) [OF wfB'] target
    by (fastforce simp: commit_incoming_handoff_def)
next
  have source: "ht_source_station t = cfg_station_id (st_config A)"
    using out by (auto simp: commit_outgoing_handoff_def split: if_splits)
  from out source obtain r where r: "handle_by_id A (ht_entity_id t) = Some hA" "station_get A hA = Some r"
    and A': "A' = station_put A hA
      (r\<lparr>er_role := Ghost (ht_target_station t) (ht_target_owner_epoch t) (ht_source_ghost_expires_at t),
        er_dirty := dirty_insert (er_dirty r) DIRTY_TRANSFORM\<rparr>)"
    by (auto simp: commit_outgoing_handoff_def split: if_splits option.splits)
  then show "commit_outgoing_handoff A' t = (Err (NotOwner (ht_entity_id t)), A')"
    using source
    by (simp add: commit_outgoing_handoff_def handle_by_id_def station_get_put [OF r(2)] record_is_owned_def)
qed

theorem handoff_replay_rejected_witness:
  "\<exists>t B' A'. transfer_ok t \<and>
     commit_incoming_handoff B' t = Some (Err (AlreadyOwner 9), B') \<and>
     commit_outgoing_handoff A' t = (Err (NotOwner 9), A')"
proof -
  let ?A = "demo_station 1 9" and ?B = "demo_station 2 8"
  define t where "t = \<lparr>ht_entity_id = 9, ht_source_station = 1, ht_target_station = 2,
    ht_source_owner_epoch = 0, ht_target_owner_epoch = 5, ht_prepared_at = 0,
    ht_source_ghost_expires_at = 100,
    ht_entity = record_owned 9 (EntityHandle 0 0) demo_position BPoint 3 0\<rparr>"
  have t: "transfer_ok t" by (simp add: transfer_ok_def t_def)
  have "\<exists>hB B'. commit_incoming_handoff ?B t = Some (Ok hB, B')"
    by (simp add: commit_incoming_handoff_def t_def demo_station_def demo_config_def handle_by_id_def
        allocate_handle_def vec_pop_def insert_allocated_def)
  then obtain hB B' where inc: "commit_incoming_handoff ?B t = Some (Ok hB, B')" by blast
  have "\<exists>hA A'. commit_outgoing_handoff ?A t = (Ok hA, A')"
    by (simp add: commit_outgoing_handoff_def t_def demo_station_def demo_config_def handle_by_id_def
        station_get_def vec_get_def)
  then obtain hA A' where out: "commit_outgoing_handoff ?A t = (Ok hA, A')" by blast
  have i: "ht_entity_id t = 9" by (simp add: t_def)
  show ?thesis
    using handoff_replay_rejected [OF demo_station_wf demo_station_wf t inc out] t unfolding i by blast
qed

subsection \<open>Snapshot and restore\<close>

definition renumber :: "nat \<Rightarrow> entity_record list \<Rightarrow> entity_record list" where
  "renumber n rs = map (\<lambda>(k, r). r\<lparr>er_handle := EntityHandle (of_nat k) 0\<rparr>) (enumerate n rs)"

lemma renumber_simps [simp]:
  "renumber n [] = []"
  "renumber n (r # rs) = r\<lparr>er_handle := EntityHandle (of_nat n) 0\<rparr> # renumber (Suc n) rs"
  by (simp_all add: renumber_def)

lemma map_filter_id: "List.map_filter (\<lambda>x. x) (map Some xs) = xs"
  by (induction xs) (simp_all add: List.map_filter_simps)

lemma set_station_iter: "r \<in> set (station_iter s) \<longleftrightarrow> Some r \<in> set (st_records s)"
  by (force simp: station_iter_def List.map_filter_def image_iff)

lemma station_iter_get:
  assumes wf: "station_wf s"
  shows "station_get_by_id s i = Some r \<longleftrightarrow> r \<in> set (station_iter s) \<and> er_id r = i"
proof
  assume "station_get_by_id s i = Some r"
  note r = station_wf_by_id [OF wf this]
  then show "r \<in> set (station_iter s) \<and> er_id r = i"
    by (auto simp: set_station_iter station_get_Some_iff) (metis nth_mem)
next
  assume r: "r \<in> set (station_iter s) \<and> er_id r = i"
  then have "Some r \<in> set (st_records s)" by (simp add: set_station_iter)
  then obtain k where k: "k < length (st_records s)" "st_records s ! k = Some r"
    by (auto simp: in_set_conv_nth)
  then have "unat (of_nat k :: u32) = k"
    using station_wf_shape(2) [OF wf] by (simp add: unat_of_nat)
  then have "station_get s (EntityHandle (of_nat k) (st_generations s ! k)) = Some r"
    using k station_wf_shape(1) [OF wf] by (simp add: station_get_Some_iff)
  then show "station_get_by_id s i = Some r"
    using station_wf_get [OF wf] r by (auto simp: station_get_by_id_def)
qed

lemma map_er_id_filter:
  "map er_id (List.map_filter (\<lambda>slot. slot) slots) =
     concat (map (\<lambda>slot. case slot of None \<Rightarrow> [] | Some r \<Rightarrow> [er_id r]) slots)"
  by (induction slots) (auto simp: List.map_filter_simps split: option.splits)

lemma distinct_station_iter:
  assumes wf: "station_wf s"
  shows "distinct (map er_id (station_iter s))"
proof -
  let ?f = "\<lambda>slot. case slot of None \<Rightarrow> [] | Some r \<Rightarrow> [er_id r]"
  have eq: "map er_id (station_iter s) = concat (map ?f (st_records s))"
    unfolding station_iter_def by (rule map_er_id_filter)
  have uniq: "j = k" if "j < length (st_records s)" "k < length (st_records s)"
      "st_records s ! j = Some r" "st_records s ! k = Some q" "er_id r = er_id q" for j k r q
  proof -
    have "station_get_by_id s (er_id r) = Some r" "station_get_by_id s (er_id r) = Some q"
      using that nth_mem [OF that(1)] nth_mem [OF that(2)]
      by (simp_all add: station_iter_get [OF wf] set_station_iter)
    then have "r = q" by simp
    have at: "er_handle r = EntityHandle (of_nat k) (st_generations s ! k)"
      if "k < length (st_records s)" "st_records s ! k = Some r" for k r
    proof -
      have "unat (of_nat k :: u32) = k"
        using station_wf_shape(2) [OF wf] that by (simp add: unat_of_nat)
      then have "station_get s (EntityHandle (of_nat k) (st_generations s ! k)) = Some r"
        using that station_wf_shape(1) [OF wf] by (simp add: station_get_Some_iff)
      then show ?thesis using station_wf_get [OF wf] by blast
    qed
    have "(of_nat j :: u32) = of_nat k"
      using at [OF that(1,3)] at [OF that(2,4)] \<open>r = q\<close> by simp
    then show "j = k" using that(1,2) station_wf_shape(2) [OF wf] by (simp add: of_nat_eq_iff_lt)
  qed
  have "distinct (concat (map ?f rs))"
    if "\<And>j k r q. j < length rs \<Longrightarrow> k < length rs \<Longrightarrow> rs ! j = Some r \<Longrightarrow> rs ! k = Some q \<Longrightarrow>
          er_id r = er_id q \<Longrightarrow> j = k" for rs
    using that
  proof (induction rs)
    case (Cons x rs)
    have "distinct (concat (map ?f rs))"
      by (rule Cons.IH) (use Cons.prems [of "Suc j" "Suc k" for j k] in auto)
    moreover have "er_id r \<notin> set (concat (map ?f rs))" if "x = Some r" for r
    proof
      assume "er_id r \<in> set (concat (map ?f rs))"
      then obtain k q where "k < length rs" "rs ! k = Some q" "er_id q = er_id r"
        by (auto simp: in_set_conv_nth split: option.splits)
      with Cons.prems [of 0 "Suc k" r q] that show False by simp
    qed
    ultimately show ?case by (auto split: option.splits)
  qed simp
  then show ?thesis unfolding eq using uniq by blast
qed

text \<open>Restoring into a station without recycled slots appends the records in order.\<close>

definition packed :: "station \<Rightarrow> bool" where
  "packed s \<longleftrightarrow> station_wf s \<and> st_free s = [] \<and> None \<notin> set (st_records s)"

lemma packed_insert:
  assumes p: "packed s" and new: "fmlookup (st_by_id s) (er_id r) = None"
    and room: "length (st_records s) < 2 ^ 32"
  defines "h \<equiv> EntityHandle (of_nat (length (st_records s))) 0"
  obtains s1 s2 where "allocate_handle s = Some (h, s1)"
    "insert_allocated s1 h (r\<lparr>er_handle := h\<rparr>) = Some s2" "packed s2"
    "st_records s2 = st_records s @ [Some (r\<lparr>er_handle := h\<rparr>)]"
    "st_by_id s2 = fmupd (er_id r) h (st_by_id s)"
    "st_config s2 = st_config s" "st_tick s2 = st_tick s" "st_owner_epoch s2 = st_owner_epoch s"
proof -
  have wf: "station_wf s" and free: "st_free s = []" and full: "None \<notin> set (st_records s)"
    using p by (auto simp: packed_def)
  let ?s1 = "s\<lparr>st_records := st_records s @ [None], st_generations := st_generations s @ [0]\<rparr>"
  let ?s2 = "?s1\<lparr>st_by_id := fmupd (er_id r) h (st_by_id s),
    st_records := st_records s @ [Some (r\<lparr>er_handle := h\<rparr>)]\<rparr>"
  have 1: "allocate_handle s = Some (h, ?s1)"
    using free room by (simp add: allocate_handle_def vec_pop_def h_def)
  have un: "unat (of_nat (length (st_records s)) :: u32) = length (st_records s)"
    using room by (simp add: unat_of_nat)
  have 2: "insert_allocated ?s1 h (r\<lparr>er_handle := h\<rparr>) = Some ?s2"
    using un by (simp add: insert_allocated_def h_def)
  let ?f = "\<lambda>k. r\<lparr>er_handle := k\<rparr>"
  have "insert_new s ?f = Some (h, ?s2)" using 1 2 by (simp add: insert_new_def)
  from insert_new_cases [where i = "er_id r", OF wf _ new this]
  have "inserted s h (?f h) ?s2" by simp
  then have "packed ?s2" using free full by (simp add: packed_def inserted_def)
  with 1 2 show thesis by (rule that) simp_all
qed

lemma restore_entities_packed:
  assumes "packed s" "distinct (map er_id rs)" "\<And>r. r \<in> set rs \<Longrightarrow> fmlookup (st_by_id s) (er_id r) = None"
    "length (st_records s) + length rs \<le> 2 ^ 32"
  shows "\<exists>s'. restore_entities s rs = Some (Ok s') \<and> packed s' \<and>
     st_records s' = st_records s @ map Some (renumber (length (st_records s)) rs) \<and>
     st_config s' = st_config s \<and> st_tick s' = st_tick s \<and> st_owner_epoch s' = st_owner_epoch s"
  using assms
proof (induction rs arbitrary: s)
  case (Cons r rs)
  have new: "fmlookup (st_by_id s) (er_id r) = None" using Cons.prems(3) by simp
  have room: "length (st_records s) < 2 ^ 32" using Cons.prems(4) by simp
  let ?h = "EntityHandle (of_nat (length (st_records s))) 0"
  obtain s1 s2 where 1: "allocate_handle s = Some (?h, s1)"
    "insert_allocated s1 ?h (r\<lparr>er_handle := ?h\<rparr>) = Some s2" "packed s2"
    "st_records s2 = st_records s @ [Some (r\<lparr>er_handle := ?h\<rparr>)]"
    "st_by_id s2 = fmupd (er_id r) ?h (st_by_id s)"
    "st_config s2 = st_config s" "st_tick s2 = st_tick s" "st_owner_epoch s2 = st_owner_epoch s"
    by (rule packed_insert [OF Cons.prems(1) new room])
  have "fmlookup (st_by_id s2) (er_id q) = None" if "q \<in> set rs" for q
    using Cons.prems(2) Cons.prems(3) [of q] that by (force simp: 1(5))
  moreover have "length (st_records s2) + length rs \<le> 2 ^ 32"
    using Cons.prems(4) by (simp add: 1(4))
  ultimately obtain s' where "restore_entities s2 rs = Some (Ok s')" "packed s'"
    "st_records s' = st_records s2 @ map Some (renumber (length (st_records s2)) rs)"
    "st_config s' = st_config s2" "st_tick s' = st_tick s2" "st_owner_epoch s' = st_owner_epoch s2"
    using Cons.IH [of s2] 1(3) Cons.prems(2) by auto
  then show ?case using new 1 by auto
qed (simp add: renumber_def)

lemma station_iter_packed: "st_records s = map Some rs \<Longrightarrow> station_iter s = rs"
  by (simp add: station_iter_def map_filter_id)

lemma length_station_iter: "length (station_iter s) \<le> length (st_records s)"
proof -
  have "length (List.map_filter (\<lambda>x. x) xs) \<le> length xs" for xs :: "'b option list"
    by (induction xs) (auto simp: List.map_filter_simps split: option.splits)
  then show ?thesis by (simp add: station_iter_def)
qed

text \<open>Restoring a station's own snapshot succeeds, never panics, and gives back the same
  configuration, tick, epoch and entities in the same order; only the handles are renumbered
  densely, and each entity is found under its identifier exactly as before.\<close>

theorem restore_snapshot_roundtrip:
  assumes wf: "station_wf s"
  shows "\<exists>s'. station_restore (st_config s) (station_snapshot_of s v) = Some (Ok s') \<and> station_wf s' \<and>
    st_config s' = st_config s \<and> st_tick s' = st_tick s \<and> st_owner_epoch s' = st_owner_epoch s \<and>
    station_iter s' = renumber 0 (station_iter s) \<and>
    (\<forall>i. map_option (er_handle_update (\<lambda>_. h0)) (station_get_by_id s' i) =
         map_option (er_handle_update (\<lambda>_. h0)) (station_get_by_id s i))"
proof -
  let ?s0 = "(station_new (st_config s))\<lparr>st_tick := st_tick s, st_owner_epoch := st_owner_epoch s\<rparr>"
  have s0: "st_free ?s0 = []" "st_records ?s0 = []" "st_by_id ?s0 = fmempty" "station_wf ?s0"
    "st_config ?s0 = st_config s"
    by simp_all (simp_all add: station_new_def)
  then have p: "packed ?s0" unfolding packed_def by simp
  have len: "length (st_records ?s0) + length (station_iter s) \<le> 2 ^ 32"
    unfolding s0(2) using length_station_iter [of s] station_wf_shape(2) [OF wf] by simp
  have new: "fmlookup (st_by_id ?s0) (er_id r) = None" for r :: entity_record
    unfolding s0(3) by simp
  obtain s' where s': "restore_entities ?s0 (station_iter s) = Some (Ok s')" "packed s'"
    "st_records s' = st_records ?s0 @ map Some (renumber (length (st_records ?s0)) (station_iter s))"
    "st_config s' = st_config ?s0" "st_tick s' = st_tick ?s0" "st_owner_epoch s' = st_owner_epoch ?s0"
    using restore_entities_packed [OF p distinct_station_iter [OF wf] new len] by blast
  have restore: "station_restore (st_config s) (station_snapshot_of s v) = Some (Ok s')"
    using s'(1) by (simp add: station_restore_def station_snapshot_of_def)
  have iter: "station_iter s' = renumber 0 (station_iter s)"
    using s'(3) unfolding s0(2) by (intro station_iter_packed) simp
  have wf': "station_wf s'" using s'(2) by (simp add: packed_def)
  have "map_option (er_handle_update (\<lambda>_. h0)) (station_get_by_id s' i) =
      map_option (er_handle_update (\<lambda>_. h0)) (station_get_by_id s i)" for i
  proof (cases "station_get_by_id s i")
    case None
    then have "i \<notin> set (map er_id (station_iter s))"
      using station_iter_get [OF wf, of i] by auto
    moreover have "map er_id (renumber n rs) = map er_id rs" for n rs
      by (induction rs arbitrary: n) simp_all
    ultimately have "i \<notin> set (map er_id (station_iter s'))" by (simp add: iter)
    then have "station_get_by_id s' i = None"
      by (metis image_eqI list.set_map not_None_eq station_iter_get [OF wf'])
    with None show ?thesis by simp
  next
    case (Some r)
    then have r: "r \<in> set (station_iter s)" "er_id r = i" by (auto simp: station_iter_get [OF wf])
    have "\<exists>h. r\<lparr>er_handle := h\<rparr> \<in> set (renumber n rs)" if "r \<in> set rs" for n rs
      using that by (induction rs arbitrary: n) auto
    with r(1) obtain h where "r\<lparr>er_handle := h\<rparr> \<in> set (station_iter s')" by (auto simp: iter)
    then have "station_get_by_id s' i = Some (r\<lparr>er_handle := h\<rparr>)"
      using r(2) by (simp add: station_iter_get [OF wf'])
    with Some show ?thesis by simp
  qed
  moreover have "st_config s' = st_config s" "st_tick s' = st_tick s" "st_owner_epoch s' = st_owner_epoch s"
    using s'(4-6) unfolding s0(5) by simp_all
  ultimately show ?thesis using restore iter wf' by blast
qed

theorem restore_snapshot_roundtrip_witness:
  "\<forall>v. \<exists>s'. station_restore (demo_config 1) (station_snapshot_of (demo_station 1 9) v) = Some (Ok s') \<and>
     station_iter s' = renumber 0 (station_iter (demo_station 1 9))"
proof
  fix v
  show "\<exists>s'. station_restore (demo_config 1) (station_snapshot_of (demo_station 1 9) v) = Some (Ok s') \<and>
     station_iter s' = renumber 0 (station_iter (demo_station 1 9))"
    using restore_snapshot_roundtrip [OF demo_station_wf, of 1 9 v] by auto
qed

text \<open>A snapshot with two records of one entity is refused.\<close>

lemma restore_entities_Ok_distinct:
  "restore_entities s rs = Some (Ok s') \<Longrightarrow>
     distinct (map er_id rs) \<and> (\<forall>r \<in> set rs. fmlookup (st_by_id s) (er_id r) = None)"
proof (induction s rs rule: restore_entities.induct)
  case (2 s r rs)
  from 2(2) obtain h s1 s2 where 3: "fmlookup (st_by_id s) (er_id r) = None"
    "allocate_handle s = Some (h, s1)" "insert_allocated s1 h (r\<lparr>er_handle := h\<rparr>) = Some s2"
    "restore_entities s2 rs = Some (Ok s')"
    by (auto split: if_splits option.splits)
  have "st_by_id s1 = st_by_id s"
    using 3(2) by (auto simp: allocate_handle_def split: option.splits if_splits)
  then have "st_by_id s2 = fmupd (er_id r) h (st_by_id s)"
    using 3(3) by (auto simp: insert_allocated_def split: if_splits)
  with 2(1) [OF _ 3(2) refl 3(3,4)] 3(1) show ?case by (force split: if_splits)
qed simp

lemma restore_entities_wf: "restore_entities s rs = Some (Ok s') \<Longrightarrow> station_wf s \<Longrightarrow> station_wf s'"
proof (induction s rs rule: restore_entities.induct)
  case (2 s r rs)
  from 2(2) obtain h s1 s2 where 3: "fmlookup (st_by_id s) (er_id r) = None"
    "allocate_handle s = Some (h, s1)" "insert_allocated s1 h (r\<lparr>er_handle := h\<rparr>) = Some s2"
    "restore_entities s2 rs = Some (Ok s')"
    by (auto split: if_splits option.splits)
  have "insert_new s (\<lambda>k. r\<lparr>er_handle := k\<rparr>) = Some (h, s2)" using 3(2,3) by (simp add: insert_new_def)
  from insert_new_cases [where i = "er_id r", OF 2(3) _ 3(1) this] have "station_wf s2"
    by (simp add: inserted_def)
  with 2(1) [OF _ 3(2) refl 3(3,4)] 3(1) show ?case by simp
qed simp

lemma station_restore_wf: "station_restore cfg snap = Some (Ok s) \<Longrightarrow> station_wf s"
proof -
  assume "station_restore cfg snap = Some (Ok s)"
  then have "restore_entities ((station_new cfg)\<lparr>st_tick := sm_tick (ss_meta snap),
      st_owner_epoch := sm_owner_epoch (ss_meta snap)\<rparr>) (ss_entities snap) = Some (Ok s)"
    by (simp add: station_restore_def split: if_splits)
  then show ?thesis by (rule restore_entities_wf) simp
qed

text \<open>C16. A station starts empty or restored from any snapshot that the restore accepts. Whatever sequence
  of spawns, ghost refreshes, edits, removals and hand-off phases it then goes through, its slab and its
  identifier index stay coherent: every live record is reachable under its own identifier and its own
  handle, every index entry names a live record, and the free list holds exactly the empty slots, each
  once. Two obligations of the callers are part of the step relation, because the code does not check
  them: an edit through \<open>get_mut\<close>, which lends the whole record, keeps the record's identifier and
  handle, and the transfer of an incoming hand-off carries the record of the entity it names
  (\<open>transfer_ok\<close>). A transfer prepared by such a station always does; one that does not is committed all
  the same, and breaks the coherence (\<open>mismatched_transfer_breaks\<close>).\<close>

theorem station_reachable_coherent:
  assumes "s0 = station_new cfg \<or> station_restore cfg snap = Some (Ok s0)"
    and "station_step\<^sup>*\<^sup>* s0 s"
  shows "station_wf s \<and>
    (\<forall>i target epoch expires t. prepare_outgoing_handoff s i target epoch expires = Ok t \<longrightarrow> transfer_ok t)"
proof -
  have "station_wf s0" using assms(1) by (auto intro: station_restore_wf)
  then have "station_wf s" by (rule station_steps_wf [OF assms(2)])
  then show ?thesis by (auto intro: prepare_transfer_ok)
qed

theorem station_reachable_coherent_witness:
  "station_wf (demo_station 1 9) \<and>
   (\<exists>t. prepare_outgoing_handoff (demo_station 1 9) 9 2 5 100 = Ok t \<and> transfer_ok t)"
proof -
  note coherent = station_reachable_coherent [OF disjI1 [OF refl] demo_station_reachable]
  obtain t where t: "prepare_outgoing_handoff (demo_station 1 9) 9 2 5 100 = Ok t"
    by (simp add: prepare_outgoing_handoff_def demo_config_def)
  with coherent [of 1 9] show ?thesis by blast
qed

text \<open>The obligation on transfers is needed: a transfer that names entity 5 and carries the record of entity
  9 is committed by a station that owns entity 9, and the station then holds two owned records of entity 9,
  one of which its index does not reach.\<close>

lemma mismatched_transfer_breaks:
  "\<exists>t s. commit_incoming_handoff (demo_station 2 9) t = Some (Ok (EntityHandle 1 0), s) \<and> \<not> transfer_ok t \<and>
     (\<forall>h \<in> {EntityHandle 0 0, EntityHandle 1 0}.
        \<exists>r. station_get s h = Some r \<and> er_id r = 9 \<and> record_is_owned r) \<and> \<not> station_wf s"
proof -
  let ?t = "\<lparr>ht_entity_id = 5, ht_source_station = 1, ht_target_station = 2,
    ht_source_owner_epoch = 0, ht_target_owner_epoch = 5, ht_prepared_at = 0,
    ht_source_ghost_expires_at = 100,
    ht_entity = record_owned 9 (EntityHandle 0 0) demo_position BPoint 3 0\<rparr>"
  obtain s where s: "commit_incoming_handoff (demo_station 2 9) ?t = Some (Ok (EntityHandle 1 0), s)"
    "station_get s (EntityHandle 0 0) = Some (record_owned 9 (EntityHandle 0 0) demo_position BPoint 3 0)"
    "station_get s (EntityHandle 1 0) = Some (committed_record ?t (EntityHandle 1 0))"
    by (simp add: commit_incoming_handoff_def demo_station_def demo_config_def handle_by_id_def
        allocate_handle_def vec_pop_def insert_allocated_def station_get_def vec_get_def)
  have "\<not> station_wf s"
  proof
    assume wf: "station_wf s"
    then have "fmlookup (st_by_id s) 9 = Some (EntityHandle 0 0)" "fmlookup (st_by_id s) 9 = Some (EntityHandle 1 0)"
      using s(2,3) unfolding station_wf_def by force+
    then show False by simp
  qed
  then show ?thesis using s by (intro exI [of _ ?t] exI [of _ s]) (simp add: transfer_ok_def)
qed

end
