(* ===== verification/Selection.thy ===== *)
theory Selection
  imports Sync_Prelude "HOL-Library.Multiset"
begin

text \<open>
  Sorting and partial selection by a comparator, as the replication planner and the hotspot planner
  use them: the standard library's \<open>sort_by\<close> is modelled by insertion, its \<open>select_nth_unstable_by\<close> is a
  parameter with its documented effect. Selecting the first positions and sorting only those gives the
  same keys as sorting everything.
\<close>

text \<open>\<open>sort_by\<close> is stable: an element goes before the later ones it does not exceed.\<close>

definition sort_by_le :: "('a \<Rightarrow> 'a \<Rightarrow> bool) \<Rightarrow> 'a list \<Rightarrow> 'a list" where
  "sort_by_le le xs =
     foldr (\<lambda>x sorted. takeWhile (\<lambda>y. \<not> le x y) sorted @ x # dropWhile (\<lambda>y. \<not> le x y) sorted) xs []"

lemma insert_by_le_key:
  assumes "\<And>x y. le x y \<longleftrightarrow> key x \<le> key y"
  shows "takeWhile (\<lambda>y. \<not> le x y) ys @ x # dropWhile (\<lambda>y. \<not> le x y) ys = insort_key key x ys"
  by (induction ys) (auto simp: assms)

lemma sort_by_le_key:
  assumes "\<And>x y. le x y \<longleftrightarrow> key x \<le> key y"
  shows "sort_by_le le xs = sort_key key xs"
  by (induction xs) (simp_all add: sort_by_le_def sort_key_def insert_by_le_key [where le = le and key = key, OF assms])

lemma map_sort_key: "map key (sort_key key xs) = sort (map key xs)"
  by (rule properties_for_sort [symmetric]) simp_all

lemma sort_key_inj:
  assumes "inj key" "map key ys = sort (map key xs)"
  shows "ys = sort_key key xs"
  using assms by (simp add: map_sort_key [symmetric] inj_map_eq_map)

text \<open>The documented effect of \<open>select_nth_unstable_by\<close>: a rearrangement that puts the element that a
  sort would put at position \<open>n\<close> there, nothing greater before it and nothing smaller after it.\<close>

definition lawful_select :: "('a \<Rightarrow> 'a \<Rightarrow> bool) \<Rightarrow> (nat \<Rightarrow> 'a list \<Rightarrow> 'a list) \<Rightarrow> bool" where
  "lawful_select le sel \<longleftrightarrow>
     (\<forall>n xs. mset (sel n xs) = mset xs \<and>
       (n < length xs \<longrightarrow>
         (\<forall>i < n. le (sel n xs ! i) (sel n xs ! n)) \<and>
         (\<forall>j < length xs. n < j \<longrightarrow> le (sel n xs ! n) (sel n xs ! j))))"

lemma lawful_select_sorting:
  assumes "\<And>x y. le x y \<longleftrightarrow> key x \<le> key y"
  shows "lawful_select le (\<lambda>n. sort_key key)"
proof -
  have "sorted_wrt (\<lambda>a b. key a \<le> key b) (sort_key key xs)" for xs
    using sorted_sort_key [of key xs] by (simp add: sorted_map)
  then show ?thesis by (auto simp: lawful_select_def assms sorted_wrt_iff_nth_less)
qed

lemma select_split:
  assumes le: "\<And>x y. le x y \<longleftrightarrow> key x \<le> key y" and "lawful_select le sel" "n < length xs"
    "a \<in> set (take n (sel n xs))" "b \<in> set (drop n (sel n xs))"
  shows "key a \<le> (key b :: 'k :: linorder)"
proof -
  have law: "mset (sel n xs) = mset xs" "\<forall>i < n. le (sel n xs ! i) (sel n xs ! n)"
    "\<forall>j < length xs. n < j \<longrightarrow> le (sel n xs ! n) (sel n xs ! j)"
    using assms(2,3) by (simp_all add: lawful_select_def)
  have len: "length (sel n xs) = length xs" using law(1) by (rule mset_eq_length)
  obtain i where i: "i < n" "a = sel n xs ! i" using assms(4) len by (auto simp: in_set_conv_nth)
  obtain j where "j < length (drop n (sel n xs))" "b = drop n (sel n xs) ! j"
    using assms(5) by (metis in_set_conv_nth)
  then have j: "n + j < length xs" "b = sel n xs ! (n + j)" using len by simp_all
  have "key a \<le> key (sel n xs ! n)" using law(2) i by (simp add: le)
  also have "\<dots> \<le> key b" using law(3) j by (cases "j = 0") (simp_all add: le)
  finally show ?thesis .
qed

lemma select_sort_top:
  assumes le: "\<And>x y. le x y \<longleftrightarrow> key x \<le> (key y :: 'k :: linorder)" and sel: "lawful_select le sel" "n < length xs"
  shows "map key (take n (sort_by_le le (take n (sel n xs)) @ drop n (sel n xs))) = take n (sort (map key xs))"
    "length (sort_by_le le (take n (sel n xs)) @ drop n (sel n xs)) = length xs"
proof -
  let ?ys = "sel n xs"
  have perm: "mset ?ys = mset xs" using sel(1) by (simp add: lawful_select_def)
  then have len: "length ?ys = length xs" by (rule mset_eq_length)
  let ?both = "sort_key key (take n ?ys) @ sort_key key (drop n ?ys)"
  have "mset ?both = mset xs" by (metis append_take_drop_id mset_append mset_sort perm)
  then have "mset (map key ?both) = mset (map key xs)" by (simp only: mset_map)
  moreover have "sorted (map key ?both)" using select_split [OF le sel] by (auto simp: sorted_append)
  ultimately have "map key ?both = sort (map key xs)"
    by (rule properties_for_sort [symmetric])
  then have "take n (map key ?both) = take n (sort (map key xs))" by (rule arg_cong)
  then show "map key (take n (sort_by_le le (take n ?ys) @ drop n ?ys)) = take n (sort (map key xs))"
    using len sel(2) by (simp add: sort_by_le_key [where le = le and key = key, OF le])
  show "length (sort_by_le le (take n ?ys) @ drop n ?ys) = length xs"
    using len by (simp add: sort_by_le_key [where le = le and key = key, OF le])
qed

end
