(* ===== verification/Replication_Planner.thy ===== *)
theory Replication_Planner
  imports Replication_Cadence Cell_Index Interest Station Selection "HOL-Library.Product_Lexorder"
begin

text \<open>
  The replication planner (\<open>crates/sectorsync-core/src/replication.rs\<close>): which entities a viewer's next
  frame carries. Candidates come from the cell index; a candidate is dropped when its handle is
  stale, its policy unknown, it is out of the policy's radius, hidden, not due or not eligible. The
  first-fit planner takes the rest in order until the budget is full, the prioritized planner takes
  the best ones. The planners overwrite the output plan, so it is a result here. Capacities reserved
  and reported are not modelled; the partial selection of the standard library is a parameter.
\<close>

section \<open>Data\<close>

record replication_budget =
  rb_max_entities :: usize
  rb_max_bytes :: usize
  rb_estimated_entity_bytes :: usize

definition default_budget :: replication_budget where
  "default_budget = \<lparr>rb_max_entities = 300, rb_max_bytes = 16384, rb_estimated_entity_bytes = 32\<rparr>"

record replication_stats =
  ps_candidates :: usize
  ps_considered :: usize
  ps_selected :: usize
  ps_skipped_by_budget :: usize
  ps_unexamined_after_budget :: usize
  ps_skipped_by_cadence :: usize
  ps_estimated_bytes :: usize

record replication_plan =
  rp_entities :: "entity_handle list"
  rp_stats :: replication_stats

record prioritized_candidate =
  pc_handle :: entity_handle
  pc_score :: u64
  pc_distance_squared :: f32

record replication_scratch =
  rs_cell_query :: query_scratch
  rs_prioritized :: "prioritized_candidate list"

datatype selection_mode = Throughput | Prioritized

definition default_stats :: replication_stats where
  "default_stats = \<lparr>ps_candidates = 0, ps_considered = 0, ps_selected = 0, ps_skipped_by_budget = 0,
     ps_unexamined_after_budget = 0, ps_skipped_by_cadence = 0, ps_estimated_bytes = 0\<rparr>"

definition default_plan :: replication_plan where
  "default_plan = \<lparr>rp_entities = [], rp_stats = default_stats\<rparr>"

definition replication_scratch_clear :: "replication_scratch \<Rightarrow> replication_scratch" where
  "replication_scratch_clear sc = sc\<lparr>rs_cell_query := query_clear (rs_cell_query sc), rs_prioritized := []\<rparr>"

definition replication_scratch_default :: replication_scratch where
  "replication_scratch_default = \<lparr>rs_cell_query = query_scratch_new, rs_prioritized = []\<rparr>"

section \<open>One candidate\<close>

text \<open>How the body of the selection loops leaves: each \<open>continue\<close>, and the end.\<close>

datatype verdict =
    Stale
  | Excluded
  | Cadence_Skipped
  | Ineligible
  | Selectable compiled_sync_policy f32

type_synonym cadence_fn = "entity_handle \<Rightarrow> compiled_sync_policy \<Rightarrow> f32 \<Rightarrow> bool"
type_synonym eligible_fn = "viewer_query \<Rightarrow> entity_handle \<Rightarrow> entity_record \<Rightarrow> bool"
type_synonym last_sent_fn = "viewer_query \<Rightarrow> entity_handle \<Rightarrow> tick option"

definition examine ::
  "station \<Rightarrow> policy_table \<Rightarrow> viewer_query \<Rightarrow> visibility_filter \<Rightarrow> cadence_fn \<Rightarrow> eligible_fn \<Rightarrow>
   entity_handle \<Rightarrow> verdict" where
  "examine st policies viewer flt cadence eligible h =
     (case station_get st h of
        None \<Rightarrow> Stale
      | Some entity \<Rightarrow>
          (case policy_get policies (er_policy_id entity) of
             None \<Rightarrow> Excluded
           | Some policy \<Rightarrow>
               let d = distance_squared (er_position entity) (vq_position viewer);
                   radius_sq = f32_mul (pol_interest_radius policy) (pol_interest_radius policy)
               in if f32_lt radius_sq d then Excluded
                  else if \<not> vf_visible_with_distance flt viewer entity d then Excluded
                  else if \<not> cadence h policy d then Cadence_Skipped
                  else if \<not> eligible viewer h entity then Ineligible
                  else Selectable policy d))"

definition hard_limit :: "viewer_query \<Rightarrow> replication_budget \<Rightarrow> usize" where
  "hard_limit viewer budget =
     min (min (vq_max_entities viewer) (rb_max_entities budget))
         (rb_max_bytes budget div max (rb_estimated_entity_bytes budget) 1)"

definition finish_plan :: "replication_budget \<Rightarrow> replication_plan \<Rightarrow> replication_plan" where
  "finish_plan budget plan =
     plan\<lparr>rp_stats := (rp_stats plan)\<lparr>ps_selected := length (rp_entities plan),
       ps_estimated_bytes := length (rp_entities plan) * rb_estimated_entity_bytes budget\<rparr>\<rparr>"

definition count_considered :: "replication_plan \<Rightarrow> replication_plan" where
  "count_considered plan = plan\<lparr>rp_stats := (rp_stats plan)\<lparr>ps_considered := ps_considered (rp_stats plan) + 1\<rparr>\<rparr>"

definition count_cadence :: "replication_plan \<Rightarrow> replication_plan" where
  "count_cadence plan =
     plan\<lparr>rp_stats := (rp_stats plan)\<lparr>ps_skipped_by_cadence := ps_skipped_by_cadence (rp_stats plan) + 1\<rparr>\<rparr>"

definition count_over_budget :: "replication_plan \<Rightarrow> replication_plan" where
  "count_over_budget plan =
     plan\<lparr>rp_stats := (rp_stats plan)\<lparr>ps_skipped_by_budget := ps_skipped_by_budget (rp_stats plan) + 1\<rparr>\<rparr>"

section \<open>First fit\<close>

text \<open>The loop; \<open>cands\<close> is the number of candidates and \<open>i\<close> the index of the next one.\<close>

fun first_fit_loop ::
  "(entity_handle \<Rightarrow> verdict) \<Rightarrow> usize \<Rightarrow> bool \<Rightarrow> usize \<Rightarrow> usize \<Rightarrow> entity_handle list \<Rightarrow>
   replication_plan \<Rightarrow> replication_plan" where
  "first_fit_loop ex limit stop cands i [] plan = plan"
| "first_fit_loop ex limit stop cands i (h # hs) plan =
     (case ex h of
        Stale \<Rightarrow> first_fit_loop ex limit stop cands (i + 1) hs plan
      | Excluded \<Rightarrow> first_fit_loop ex limit stop cands (i + 1) hs (count_considered plan)
      | Cadence_Skipped \<Rightarrow>
          first_fit_loop ex limit stop cands (i + 1) hs (count_cadence (count_considered plan))
      | Ineligible \<Rightarrow> first_fit_loop ex limit stop cands (i + 1) hs (count_considered plan)
      | Selectable _ _ \<Rightarrow>
          let plan = count_considered plan in
          if limit \<le> length (rp_entities plan)
          then first_fit_loop ex limit stop cands (i + 1) hs (count_over_budget plan)
          else
            let plan = plan\<lparr>rp_entities := rp_entities plan @ [h]\<rparr> in
            if stop \<and> length (rp_entities plan) = limit
            then plan\<lparr>rp_stats := (rp_stats plan)\<lparr>ps_unexamined_after_budget := cands - (i + 1)\<rparr>\<rparr>
            else first_fit_loop ex limit stop cands (i + 1) hs plan)"

definition plan_for_candidates_inner ::
  "station \<Rightarrow> entity_handle list \<Rightarrow> policy_table \<Rightarrow> viewer_query \<Rightarrow> visibility_filter \<Rightarrow> replication_budget \<Rightarrow>
   cadence_fn \<Rightarrow> eligible_fn \<Rightarrow> bool \<Rightarrow> replication_plan" where
  "plan_for_candidates_inner st candidates policies viewer flt budget cadence eligible stop =
     (let limit = hard_limit viewer budget;
          plan = \<lparr>rp_entities = [], rp_stats = default_stats\<lparr>ps_candidates := length candidates\<rparr>\<rparr>
      in if stop \<and> limit = 0
         then plan\<lparr>rp_stats := (rp_stats plan)\<lparr>ps_unexamined_after_budget := length candidates\<rparr>\<rparr>
         else finish_plan budget
                (first_fit_loop (examine st policies viewer flt cadence eligible) limit stop
                   (length candidates) 0 candidates plan))"

section \<open>Global priority\<close>

fun collect_prioritized ::
  "(entity_handle \<Rightarrow> verdict) \<Rightarrow> entity_handle list \<Rightarrow> prioritized_candidate list \<Rightarrow> replication_plan \<Rightarrow>
   prioritized_candidate list \<times> replication_plan" where
  "collect_prioritized ex [] elig plan = (elig, plan)"
| "collect_prioritized ex (h # hs) elig plan =
     (case ex h of
        Stale \<Rightarrow> collect_prioritized ex hs elig plan
      | Excluded \<Rightarrow> collect_prioritized ex hs elig (count_considered plan)
      | Cadence_Skipped \<Rightarrow> collect_prioritized ex hs elig (count_cadence (count_considered plan))
      | Ineligible \<Rightarrow> collect_prioritized ex hs elig (count_considered plan)
      | Selectable policy d \<Rightarrow>
          collect_prioritized ex hs
            (elig @ [\<lparr>pc_handle = h, pc_score = priority_score policy d, pc_distance_squared = d\<rparr>])
            (count_considered plan))"

text \<open>The comparator: by descending score, then by the total order of the distances, then by handle.\<close>

definition prioritized_le :: "prioritized_candidate \<Rightarrow> prioritized_candidate \<Rightarrow> bool" where
  "prioritized_le l r =
     (pc_score r < pc_score l \<or> pc_score r = pc_score l \<and>
       (f32_total_key (pc_distance_squared l) < f32_total_key (pc_distance_squared r) \<or>
        f32_total_key (pc_distance_squared l) = f32_total_key (pc_distance_squared r) \<and>
        pc_handle l \<le> pc_handle r))"

text \<open>\<open>sel n xs\<close> stands for \<open>select_nth_unstable_by(n, compare)\<close>.\<close>

type_synonym selector = "nat \<Rightarrow> prioritized_candidate list \<Rightarrow> prioritized_candidate list"

definition prioritize_candidates ::
  "selector \<Rightarrow> prioritized_candidate list \<Rightarrow> usize \<Rightarrow> usize \<times> prioritized_candidate list" where
  "prioritize_candidates sel elig limit =
     (let selected = min (length elig) limit in
      if selected = 0 then (0, elig)
      else if usize_mul selected 2 < length elig
      then (let elig = sel selected elig
            in (selected, sort_by_le prioritized_le (take selected elig) @ drop selected elig))
      else (selected, sort_by_le prioritized_le elig))"

definition plan_for_candidates_prioritized ::
  "selector \<Rightarrow> station \<Rightarrow> entity_handle list \<Rightarrow> policy_table \<Rightarrow> viewer_query \<Rightarrow> visibility_filter \<Rightarrow>
   replication_budget \<Rightarrow> cadence_fn \<Rightarrow> eligible_fn \<Rightarrow> prioritized_candidate list \<times> replication_plan" where
  "plan_for_candidates_prioritized sel st candidates policies viewer flt budget cadence eligible =
     (let limit = hard_limit viewer budget;
          plan = \<lparr>rp_entities = [], rp_stats = default_stats\<lparr>ps_candidates := length candidates\<rparr>\<rparr>
      in case collect_prioritized (examine st policies viewer flt cadence eligible) candidates [] plan of
           (elig, plan) \<Rightarrow>
             (case prioritize_candidates sel elig limit of
                (selected, elig) \<Rightarrow>
                  (elig, finish_plan budget
                     (plan\<lparr>rp_entities := rp_entities plan @ map pc_handle (take selected elig),
                           rp_stats := (rp_stats plan)\<lparr>ps_skipped_by_budget := length elig - selected\<rparr>\<rparr>))))"

section \<open>The configured kernel\<close>

definition station_cadence :: "station \<Rightarrow> last_sent_fn \<Rightarrow> viewer_query \<Rightarrow> cadence_fn" where
  "station_cadence st last_sent viewer h policy d =
     should_send policy (cfg_tick_rate_hz (st_config st)) d (st_tick st) (last_sent viewer h)"

text \<open>Returns the prioritized scratch list and the plan.\<close>

definition plan_for_candidates_configured ::
  "selector \<Rightarrow> station \<Rightarrow> entity_handle list \<Rightarrow> policy_table \<Rightarrow> viewer_query \<Rightarrow> visibility_filter \<Rightarrow>
   replication_budget \<Rightarrow> selection_mode \<Rightarrow> eligible_fn \<Rightarrow> last_sent_fn \<Rightarrow> prioritized_candidate list \<Rightarrow>
   prioritized_candidate list \<times> replication_plan" where
  "plan_for_candidates_configured sel st candidates policies viewer flt budget mode eligible last_sent prioritized =
     (case mode of
        Throughput \<Rightarrow>
          (prioritized, plan_for_candidates_inner st candidates policies viewer flt budget
             (station_cadence st last_sent viewer) eligible True)
      | Prioritized \<Rightarrow>
          plan_for_candidates_prioritized sel st candidates policies viewer flt budget
            (station_cadence st last_sent viewer) eligible)"

definition plan_for_viewer_configured ::
  "selector \<Rightarrow> station \<Rightarrow> cell_index \<Rightarrow> policy_table \<Rightarrow> viewer_query \<Rightarrow> visibility_filter \<Rightarrow> replication_budget \<Rightarrow>
   selection_mode \<Rightarrow> eligible_fn \<Rightarrow> last_sent_fn \<Rightarrow> replication_scratch \<Rightarrow> replication_plan \<times> replication_scratch" where
  "plan_for_viewer_configured sel st ix policies viewer flt budget mode eligible last_sent sc =
     (let cq = query_sphere_into ix (vq_position viewer) (vq_radius viewer) (rs_cell_query sc) in
      case plan_for_candidates_configured sel st (qs_handles cq) policies viewer flt budget mode eligible
             last_sent (rs_prioritized sc) of
        (prioritized, plan) \<Rightarrow> (plan, \<lparr>rs_cell_query = cq, rs_prioritized = prioritized\<rparr>))"

definition plan_for_viewer ::
  "selector \<Rightarrow> station \<Rightarrow> cell_index \<Rightarrow> policy_table \<Rightarrow> viewer_query \<Rightarrow> visibility_filter \<Rightarrow> replication_budget \<Rightarrow>
   replication_scratch \<Rightarrow> replication_plan \<times> replication_scratch" where
  "plan_for_viewer sel st ix policies viewer flt budget sc =
     plan_for_viewer_configured sel st ix policies viewer flt budget Throughput (\<lambda>_ _ _. True) (\<lambda>_ _. None) sc"

section \<open>What first fit selects\<close>

fun selectable :: "verdict \<Rightarrow> bool" where
  "selectable (Selectable _ _) = True"
| "selectable _ = False"

lemma selectable_cases: "selectable v \<longleftrightarrow> (\<exists>p d. v = Selectable p d)"
  by (cases v) auto

lemma plan_counter_simps [simp]:
  "rp_entities (count_considered p) = rp_entities p" "rp_entities (count_cadence p) = rp_entities p"
  "rp_entities (count_over_budget p) = rp_entities p" "rp_entities (finish_plan b p) = rp_entities p"
  "rp_stats (count_considered p) = (rp_stats p)\<lparr>ps_considered := ps_considered (rp_stats p) + 1\<rparr>"
  "rp_stats (count_cadence p) = (rp_stats p)\<lparr>ps_skipped_by_cadence := ps_skipped_by_cadence (rp_stats p) + 1\<rparr>"
  "rp_stats (count_over_budget p) = (rp_stats p)\<lparr>ps_skipped_by_budget := ps_skipped_by_budget (rp_stats p) + 1\<rparr>"
  "rp_stats (finish_plan b p) = (rp_stats p)\<lparr>ps_selected := length (rp_entities p),
     ps_estimated_bytes := length (rp_entities p) * rb_estimated_entity_bytes b\<rparr>"
  by (simp_all add: count_considered_def count_cadence_def count_over_budget_def finish_plan_def)

lemma first_fit_entities:
  "(stop \<Longrightarrow> length (rp_entities plan) < limit) \<Longrightarrow>
   rp_entities (first_fit_loop ex limit stop cands i hs plan) =
     rp_entities plan @ take (limit - length (rp_entities plan)) (filter (\<lambda>h. selectable (ex h)) hs)"
proof (induction hs arbitrary: i plan)
  case (Cons h hs)
  show ?case
  proof (cases "ex h")
    case (Selectable p d)
    show ?thesis
    proof (cases "limit \<le> length (rp_entities plan)")
      case True
      then have "\<not> stop" using Cons.prems by auto
      then show ?thesis using Selectable True Cons.IH [of "count_over_budget (count_considered plan)" "i + 1"] by auto
    next
      case False
      then have step: "limit - length (rp_entities plan) = Suc (limit - Suc (length (rp_entities plan)))" by simp
      show ?thesis
      proof (cases "stop \<and> Suc (length (rp_entities plan)) = limit")
        case True
        then show ?thesis using Selectable False step by auto
      next
        case more: False
        then have "stop \<Longrightarrow> Suc (length (rp_entities plan)) < limit" using False by auto
        then show ?thesis using Selectable more False Cons.IH by (auto simp: Let_def step)
      qed
    qed
  qed (use Cons in auto)
qed simp

text \<open>The counters of the unbounded scan.\<close>

lemma first_fit_full_stats:
  "rp_stats (first_fit_loop ex limit False cands i hs plan) =
     (rp_stats plan)\<lparr>
       ps_considered := ps_considered (rp_stats plan) + length (filter (\<lambda>h. ex h \<noteq> Stale) hs),
       ps_skipped_by_cadence := ps_skipped_by_cadence (rp_stats plan) + length (filter (\<lambda>h. ex h = Cadence_Skipped) hs),
       ps_skipped_by_budget := ps_skipped_by_budget (rp_stats plan) +
         (length (filter (\<lambda>h. selectable (ex h)) hs) - (limit - length (rp_entities plan)))\<rparr>"
proof (induction hs arbitrary: i plan)
  case (Cons h hs)
  show ?case by (cases "ex h") (auto simp: Cons.IH Let_def)
qed simp

text \<open>The counters of the work-bounded scan speak of the prefix it examined.\<close>

definition scanned :: "(entity_handle \<Rightarrow> verdict) \<Rightarrow> usize \<Rightarrow> entity_handle list \<Rightarrow> replication_plan \<Rightarrow> replication_plan \<Rightarrow> bool" where
  "scanned ex limit hs plan r \<longleftrightarrow>
     ps_unexamined_after_budget (rp_stats r) \<le> length hs \<and>
     (let examined = take (length hs - ps_unexamined_after_budget (rp_stats r)) hs in
       ps_considered (rp_stats r) = ps_considered (rp_stats plan) + length (filter (\<lambda>h. ex h \<noteq> Stale) examined) \<and>
       ps_skipped_by_cadence (rp_stats r) =
         ps_skipped_by_cadence (rp_stats plan) + length (filter (\<lambda>h. ex h = Cadence_Skipped) examined)) \<and>
     ps_skipped_by_budget (rp_stats r) = ps_skipped_by_budget (rp_stats plan) \<and>
     ps_candidates (rp_stats r) = ps_candidates (rp_stats plan) \<and>
     (0 < ps_unexamined_after_budget (rp_stats r) \<longrightarrow> length (rp_entities r) = limit)"

lemma scanned_step:
  assumes "scanned ex limit hs plan' r"
    "ps_considered (rp_stats plan') = ps_considered (rp_stats plan) + (if ex h = Stale then 0 else 1)"
    "ps_skipped_by_cadence (rp_stats plan') = ps_skipped_by_cadence (rp_stats plan) + (if ex h = Cadence_Skipped then 1 else 0)"
    "ps_skipped_by_budget (rp_stats plan') = ps_skipped_by_budget (rp_stats plan)"
    "ps_candidates (rp_stats plan') = ps_candidates (rp_stats plan)"
  shows "scanned ex limit (h # hs) plan r"
  using assms by (auto simp: scanned_def Let_def Suc_diff_le)

lemma first_fit_scanned:
  assumes "length (rp_entities plan) < limit" "i + length hs = cands" "ps_unexamined_after_budget (rp_stats plan) = 0"
  shows "scanned ex limit hs plan (first_fit_loop ex limit True cands i hs plan)"
  using assms
proof (induction hs arbitrary: i plan)
  case Nil
  then show ?case by (simp add: scanned_def)
next
  case (Cons h hs)
  show ?case
  proof (cases "ex h")
    case (Selectable p d)
    show ?thesis
    proof (cases "Suc (length (rp_entities plan)) = limit")
      case True
      then show ?thesis using Selectable Cons.prems by (auto simp: scanned_def Let_def)
    next
      case False
      then have "Suc (length (rp_entities plan)) < limit" using Cons.prems by simp
      then have "scanned ex limit hs ((count_considered plan)\<lparr>rp_entities := rp_entities plan @ [h]\<rparr>)
          (first_fit_loop ex limit True cands (i + 1) hs ((count_considered plan)\<lparr>rp_entities := rp_entities plan @ [h]\<rparr>))"
        using Cons.prems by (intro Cons.IH) simp_all
      from scanned_step [OF this, of plan h] show ?thesis using Selectable False Cons.prems by (simp add: Let_def)
    qed
  next
    case Stale
    show ?thesis using scanned_step [OF Cons.IH [of plan "i + 1"], of plan h] Stale Cons.prems by simp
  next
    case Excluded
    show ?thesis using scanned_step [OF Cons.IH [of "count_considered plan" "i + 1"], of plan h] Excluded Cons.prems by simp
  next
    case Cadence_Skipped
    show ?thesis
      using scanned_step [OF Cons.IH [of "count_cadence (count_considered plan)" "i + 1"], of plan h] Cadence_Skipped Cons.prems
      by simp
  next
    case Ineligible
    show ?thesis using scanned_step [OF Cons.IH [of "count_considered plan" "i + 1"], of plan h] Ineligible Cons.prems by simp
  qed
qed

lemma hard_limit_bytes: "n \<le> hard_limit viewer budget \<Longrightarrow> n * rb_estimated_entity_bytes budget \<le> rb_max_bytes budget"
proof -
  assume "n \<le> hard_limit viewer budget"
  then have "n \<le> rb_max_bytes budget div max (rb_estimated_entity_bytes budget) 1" by (simp add: hard_limit_def)
  then have "n * max (rb_estimated_entity_bytes budget) 1 \<le>
      rb_max_bytes budget div max (rb_estimated_entity_bytes budget) 1 * max (rb_estimated_entity_bytes budget) 1"
    by (rule mult_le_mono1)
  also have "\<dots> \<le> rb_max_bytes budget" by simp
  finally have "n * max (rb_estimated_entity_bytes budget) 1 \<le> rb_max_bytes budget" .
  moreover have "n * rb_estimated_entity_bytes budget \<le> n * max (rb_estimated_entity_bytes budget) 1" by simp
  ultimately show ?thesis by linarith
qed

lemma filter_false: "(\<And>x. x \<in> set xs \<Longrightarrow> \<not> P x) \<Longrightarrow> filter P xs = []"
  by (simp add: filter_empty_conv)

text \<open>A first-fit plan holds exactly the first selectable candidates, in candidate order, as many as
  the budget admits; stopping early when the budget is full never changes the selection. Its byte
  estimate stays within the byte budget. The full scan counts every candidate; the work-bounded scan
  counts exactly the examined prefix, skips nothing for budget, and leaves candidates unexamined only
  when the budget is full.\<close>

theorem first_fit_takes_first:
  assumes "ex = examine st policies viewer flt cadence eligible" "limit = hard_limit viewer budget"
    "plan = plan_for_candidates_inner st candidates policies viewer flt budget cadence eligible stop"
  shows "rp_entities plan = take limit (filter (\<lambda>h. selectable (ex h)) candidates) \<and>
    ps_candidates (rp_stats plan) = length candidates \<and>
    ps_selected (rp_stats plan) = length (rp_entities plan) \<and>
    ps_estimated_bytes (rp_stats plan) \<le> rb_max_bytes budget \<and>
    (\<not> stop \<longrightarrow>
       ps_considered (rp_stats plan) = length (filter (\<lambda>h. ex h \<noteq> Stale) candidates) \<and>
       ps_skipped_by_cadence (rp_stats plan) = length (filter (\<lambda>h. ex h = Cadence_Skipped) candidates) \<and>
       ps_skipped_by_budget (rp_stats plan) = length (filter (\<lambda>h. selectable (ex h)) candidates) - limit \<and>
       ps_unexamined_after_budget (rp_stats plan) = 0) \<and>
    (stop \<longrightarrow>
       ps_skipped_by_budget (rp_stats plan) = 0 \<and>
       ps_considered (rp_stats plan) = length (filter (\<lambda>h. ex h \<noteq> Stale)
         (take (length candidates - ps_unexamined_after_budget (rp_stats plan)) candidates)) \<and>
       (0 < ps_unexamined_after_budget (rp_stats plan) \<longrightarrow> length (rp_entities plan) = limit))"
proof (cases "stop \<and> limit = 0")
  case True
  then show ?thesis using assms
    by (simp add: plan_for_candidates_inner_def default_stats_def Let_def)
next
  case False
  let ?start = "\<lparr>rp_entities = [], rp_stats = default_stats\<lparr>ps_candidates := length candidates\<rparr>\<rparr>"
  let ?run = "first_fit_loop ex limit stop (length candidates) 0 candidates ?start"
  have plan: "plan = finish_plan budget ?run"
    using False assms by (auto simp: plan_for_candidates_inner_def Let_def)
  have ents: "rp_entities ?run = take limit (filter (\<lambda>h. selectable (ex h)) candidates)"
    using False by (subst first_fit_entities) auto
  have bytes: "length (rp_entities ?run) * rb_estimated_entity_bytes budget \<le> rb_max_bytes budget"
  proof (rule hard_limit_bytes)
    show "length (rp_entities ?run) \<le> hard_limit viewer budget" using ents assms(2) by simp
  qed
  show ?thesis
  proof (cases stop)
    case True
    then have "scanned ex limit candidates ?start ?run"
      using False first_fit_scanned [of ?start limit 0 candidates "length candidates" ex]
      by (simp add: default_stats_def)
    then show ?thesis using True ents bytes
      by (simp add: plan scanned_def Let_def default_stats_def)
  next
    case no_stop: False
    then have "rp_stats ?run = (rp_stats ?start)\<lparr>
       ps_considered := length (filter (\<lambda>h. ex h \<noteq> Stale) candidates),
       ps_skipped_by_cadence := length (filter (\<lambda>h. ex h = Cadence_Skipped) candidates),
       ps_skipped_by_budget := length (filter (\<lambda>h. selectable (ex h)) candidates) - limit\<rparr>"
      by (simp add: first_fit_full_stats default_stats_def)
    then show ?thesis using no_stop ents bytes by (simp add: plan default_stats_def)
  qed
qed

section \<open>What the prioritized planner selects\<close>

definition candidate_of :: "entity_handle \<Rightarrow> verdict \<Rightarrow> prioritized_candidate option" where
  "candidate_of h v =
     (case v of
        Selectable policy d \<Rightarrow> Some \<lparr>pc_handle = h, pc_score = priority_score policy d, pc_distance_squared = d\<rparr>
      | _ \<Rightarrow> None)"

definition eligible_candidates :: "(entity_handle \<Rightarrow> verdict) \<Rightarrow> entity_handle list \<Rightarrow> prioritized_candidate list" where
  "eligible_candidates ex hs = List.map_filter (\<lambda>h. candidate_of h (ex h)) hs"

lemma collect_prioritized_result:
  "fst (collect_prioritized ex hs elig plan) = elig @ eligible_candidates ex hs"
  "rp_entities (snd (collect_prioritized ex hs elig plan)) = rp_entities plan"
  "rp_stats (snd (collect_prioritized ex hs elig plan)) =
     (rp_stats plan)\<lparr>
       ps_considered := ps_considered (rp_stats plan) + length (filter (\<lambda>h. ex h \<noteq> Stale) hs),
       ps_skipped_by_cadence := ps_skipped_by_cadence (rp_stats plan) + length (filter (\<lambda>h. ex h = Cadence_Skipped) hs)\<rparr>"
  by (induction ex hs elig plan rule: collect_prioritized.induct)
    (auto simp: eligible_candidates_def candidate_of_def List.map_filter_def split: verdict.splits)

definition rank :: "prioritized_candidate \<Rightarrow> int \<times> int \<times> entity_handle" where
  "rank c = (- uint (pc_score c), f32_total_key (pc_distance_squared c), pc_handle c)"

lemma prioritized_le_rank: "prioritized_le l r \<longleftrightarrow> rank l \<le> rank r"
  by (auto simp: prioritized_le_def rank_def less_eq_prod_def less_prod_def word_less_def word_uint_eq_iff)

lemma f32_parts: "unat x = f32_mag x + (if f32_sign x then 2 ^ 31 else 0)"
  using unsigned_less [of x, where 'a = nat] 
  by (cases "unat x < 2 ^ 31") (simp_all add: f32_mag_def f32_sign_def le_mod_geq)

lemma f32_total_key_inj: "f32_total_key x = f32_total_key y \<longleftrightarrow> x = y"
proof
  assume "f32_total_key x = f32_total_key y"
  then have "f32_sign x = f32_sign y" "f32_mag x = f32_mag y"
    by (auto simp: f32_total_key_def split: if_splits)
  then show "x = y" unfolding word_unat_eq_iff f32_parts [of x] f32_parts [of y] by simp
qed simp

lemma rank_inj: "inj rank"
proof (rule injI)
  show "x = y" if "rank x = rank y" for x y
    using that by (cases x; cases y) (simp add: rank_def f32_total_key_inj word_uint_eq_iff)
qed

definition lawful_selector :: "selector \<Rightarrow> bool" where
  "lawful_selector sel \<longleftrightarrow> lawful_select prioritized_le sel"

lemma prioritize_candidates_top:
  assumes "lawful_selector sel" "prioritize_candidates sel elig limit = (n, elig')"
    "length elig \<le> usize_max"
  shows "n = min (length elig) limit \<and> length elig' = length elig \<and>
    take n elig' = take limit (sort_key rank elig)"
proof (cases "min (length elig) limit = 0")
  case True
  then show ?thesis using assms(2) by (auto simp: prioritize_candidates_def min_def split: if_splits)
next
  case False
  define n' where "n' = min (length elig) limit"
  have sort: "sort_by_le prioritized_le ys = sort_key rank ys" for ys
    using sort_by_le_key [of prioritized_le rank] prioritized_le_rank by blast
  have take_n: "take n' (sort_key rank elig) = take limit (sort_key rank elig)"
    by (cases "limit \<le> length elig") (simp_all add: n'_def)
  show ?thesis
  proof (cases "usize_mul n' 2 < length elig")
    case False
    then show ?thesis using assms(2) \<open>min (length elig) limit \<noteq> 0\<close> take_n
      by (auto simp: prioritize_candidates_def Let_def sort n'_def [symmetric])
  next
    case True
    have n: "n' < length elig"
    proof -
      have "min (2 * n') usize_max < length elig" using True by (simp add: usize_mul_def mult.commute)
      moreover have "n' \<le> length elig" by (simp add: n'_def)
      ultimately show ?thesis using False assms(3) by (auto simp: n'_def [symmetric] min_def split: if_splits)
    qed
    let ?out = "sort_by_le prioritized_le (take n' (sel n' elig)) @ drop n' (sel n' elig)"
    have "map rank (take n' ?out) = take n' (sort (map rank elig))" "length ?out = length elig"
      using select_sort_top [of prioritized_le rank sel n' elig] prioritized_le_rank assms(1) n
      by (simp_all add: lawful_selector_def)
    then have top: "take n' ?out = take n' (sort_key rank elig)" "length ?out = length elig"
      by (simp_all only: map_sort_key [symmetric] take_map inj_map_eq_map [OF rank_inj])
    then show ?thesis using assms(2) False True take_n
      by (auto simp: prioritize_candidates_def Let_def n'_def [symmetric] simp del: take_append)
  qed
qed

lemma eligible_candidates_length: "length (eligible_candidates ex hs) \<le> length hs"
  by (simp add: eligible_candidates_def List.map_filter_def)

lemma eligible_candidates_count: "length (eligible_candidates ex hs) = length (filter (\<lambda>h. selectable (ex h)) hs)"
  by (induction hs) (auto simp: eligible_candidates_def List.map_filter_def candidate_of_def split: verdict.splits)

lemma candidate_of_Some:
  "candidate_of h v = Some c \<longleftrightarrow>
     pc_handle c = h \<and> (\<exists>policy d. v = Selectable policy d \<and> pc_score c = priority_score policy d \<and> pc_distance_squared c = d)"
  by (cases v; cases c) (auto simp: candidate_of_def)

lemma eligible_candidates_member:
  "c \<in> set (eligible_candidates ex hs) \<longleftrightarrow>
     pc_handle c \<in> set hs \<and>
     (\<exists>policy d. ex (pc_handle c) = Selectable policy d \<and> pc_score c = priority_score policy d \<and> pc_distance_squared c = d)"
proof -
  have "c \<in> set (eligible_candidates ex hs) \<longleftrightarrow> (\<exists>h \<in> set hs. candidate_of h (ex h) = Some c)"
    by (induction hs) (auto simp: eligible_candidates_def List.map_filter_simps split: option.splits)
  also have "\<dots> \<longleftrightarrow> pc_handle c \<in> set hs \<and> candidate_of (pc_handle c) (ex (pc_handle c)) = Some c"
    by (metis candidate_of_Some)
  finally show ?thesis by (simp add: candidate_of_Some)
qed

text \<open>What is outside the first positions of a sorted list ranks behind all of them.\<close>

lemma take_sort_best:
  assumes "s \<in> set (take n (sort_key rank cs))" "u \<in> set cs" "u \<notin> set (take n (sort_key rank cs))"
  shows "prioritized_le s u"
proof -
  have "u \<in> set (drop n (sort_key rank cs))"
    using assms(2,3) by (metis Un_iff append_take_drop_id set_append set_sort)
  moreover have "sorted (map rank (take n (sort_key rank cs) @ drop n (sort_key rank cs)))" by simp
  ultimately have "rank s \<le> rank u" using assms(1) by (simp only: map_append sorted_append) auto
  then show ?thesis by (simp add: prioritized_le_rank)
qed

lemma closer_ranks_first:
  assumes "f32_is_finite (pc_distance_squared u)" "f32_is_finite (pc_distance_squared s)"
    "f32_lt (pc_distance_squared u) (pc_distance_squared s)"
    "pc_score u = priority_score policy (pc_distance_squared u)"
    "pc_score s = priority_score policy (pc_distance_squared s)"
  shows "\<not> prioritized_le s u"
proof -
  have "pc_score s \<le> pc_score u"
    unfolding assms(4,5) using assms(1-3)
    by (intro priority_score_antimono) (auto simp: f32_lt_def f32_le_def)
  moreover have "f32_total_key (pc_distance_squared u) < f32_total_key (pc_distance_squared s)"
    using assms(3) by (auto simp: f32_lt_def f32_key_def f32_total_key_def split: if_splits)
  ultimately show ?thesis by (auto simp: prioritized_le_def)
qed

text \<open>C10. For every lawful partial selection of the standard library, the prioritized planner returns the
  best eligible candidates in rank order, as many as the budget admits, whether it sorts all of them or
  only the selected part: no eligible candidate left out outranks a selected one, so none left out is
  strictly closer than a selected one with the same policy. The estimate stays within the byte budget
  and the counters are those of the full scan.\<close>

theorem prioritized_takes_best:
  assumes "lawful_selector sel" "length candidates \<le> usize_max"
    "ex = examine st policies viewer flt cadence eligible"
    "plan_for_candidates_prioritized sel st candidates policies viewer flt budget cadence eligible = (buffer, plan)"
  shows "rp_entities plan = map pc_handle
      (take (hard_limit viewer budget) (sort_key rank (eligible_candidates ex candidates))) \<and>
    (\<forall>s u p d p' d'. s \<in> set (rp_entities plan) \<longrightarrow> u \<in> set candidates \<longrightarrow> u \<notin> set (rp_entities plan) \<longrightarrow>
       ex s = Selectable p d \<longrightarrow> ex u = Selectable p' d' \<longrightarrow>
       priority_score p' d' \<le> priority_score p d \<and>
       (p = p' \<longrightarrow> f32_is_finite d \<longrightarrow> f32_is_finite d' \<longrightarrow> \<not> f32_lt d' d)) \<and>
    ps_estimated_bytes (rp_stats plan) \<le> rb_max_bytes budget \<and>
    ps_skipped_by_budget (rp_stats plan) =
      length (filter (\<lambda>h. selectable (ex h)) candidates) - ps_selected (rp_stats plan) \<and>
    ps_considered (rp_stats plan) = length (filter (\<lambda>h. ex h \<noteq> Stale) candidates)"
proof -
  let ?start = "\<lparr>rp_entities = [], rp_stats = default_stats\<lparr>ps_candidates := length candidates\<rparr>\<rparr>"
  let ?elig = "eligible_candidates ex candidates" and ?limit = "hard_limit viewer budget"
  define scan where "scan = snd (collect_prioritized ex candidates [] ?start)"
  obtain n buf where pri: "prioritize_candidates sel ?elig ?limit = (n, buf)" by fastforce
  have small: "length ?elig \<le> usize_max" using eligible_candidates_length [of ex candidates] assms(2) by linarith
  note top = prioritize_candidates_top [OF assms(1) pri small]
  have split: "collect_prioritized ex candidates [] ?start = (?elig, scan)"
    using collect_prioritized_result(1) [of ex candidates "[]" ?start] by (simp add: scan_def prod_eq_iff)
  have plan: "plan = finish_plan budget (scan\<lparr>rp_entities := rp_entities scan @ map pc_handle (take n buf),
      rp_stats := (rp_stats scan)\<lparr>ps_skipped_by_budget := length buf - n\<rparr>\<rparr>)"
    using assms(4) split pri by (auto simp: plan_for_candidates_prioritized_def Let_def assms(3) [symmetric])
  have scan: "rp_entities scan = []"
    "rp_stats scan = (rp_stats ?start)\<lparr>ps_considered := length (filter (\<lambda>h. ex h \<noteq> Stale) candidates),
       ps_skipped_by_cadence := length (filter (\<lambda>h. ex h = Cadence_Skipped) candidates)\<rparr>"
    using collect_prioritized_result(2,3) [of ex candidates "[]" ?start] by (simp_all add: scan_def default_stats_def)
  have ents: "rp_entities plan = map pc_handle (take ?limit (sort_key rank ?elig))"
  proof -
    have "take n buf = take ?limit (sort_key rank ?elig)" using top by (elim conjE)
    then show ?thesis by (simp add: plan scan)
  qed
  have len: "length (rp_entities plan) = n" using top by (simp add: plan scan)
  have best: "priority_score p' d' \<le> priority_score p d \<and>
      (p = p' \<longrightarrow> f32_is_finite d \<longrightarrow> f32_is_finite d' \<longrightarrow> \<not> f32_lt d' d)"
    if "s \<in> set (rp_entities plan)" "u \<in> set candidates" "u \<notin> set (rp_entities plan)"
      "ex s = Selectable p d" "ex u = Selectable p' d'" for s u p d p' d'
  proof -
    have "s \<in> pc_handle ` set (take ?limit (sort_key rank ?elig))" using that(1) ents by simp
    then obtain cs where cs: "cs \<in> set (take ?limit (sort_key rank ?elig))" "pc_handle cs = s" by blast
    have "cs \<in> set ?elig" using cs(1) in_set_takeD by (metis set_sort)
    then have cs': "pc_score cs = priority_score p d" "pc_distance_squared cs = d"
      using that(4) cs(2) by (auto simp: eligible_candidates_member)
    define cu where "cu = \<lparr>pc_handle = u, pc_score = priority_score p' d', pc_distance_squared = d'\<rparr>"
    have "cu \<in> set ?elig" using that(2,5) by (simp add: eligible_candidates_member cu_def)
    moreover have "cu \<notin> set (take ?limit (sort_key rank ?elig))" using that(3) ents by (force simp: cu_def)
    ultimately have le: "prioritized_le cs cu" using take_sort_best [OF cs(1)] by blast
    then have "priority_score p' d' \<le> priority_score p d"
      unfolding prioritized_le_def cs' by (auto simp: cu_def)
    moreover have "\<not> f32_lt d' d" if "p = p'" "f32_is_finite d" "f32_is_finite d'"
      using closer_ranks_first [of cu cs p] le cs' that by (auto simp: cu_def)
    ultimately show ?thesis by blast
  qed
  have "ps_estimated_bytes (rp_stats plan) = n * rb_estimated_entity_bytes budget"
    using len by (simp add: plan)
  also have "\<dots> \<le> rb_max_bytes budget" using top by (intro hard_limit_bytes [where viewer = viewer]) simp
  finally have bytes: "ps_estimated_bytes (rp_stats plan) \<le> rb_max_bytes budget" .
  have "ps_skipped_by_budget (rp_stats plan) = length (filter (\<lambda>h. selectable (ex h)) candidates) - ps_selected (rp_stats plan)"
    using top len by (simp add: plan scan eligible_candidates_count)
  moreover have "ps_considered (rp_stats plan) = length (filter (\<lambda>h. ex h \<noteq> Stale) candidates)"
    by (simp add: plan scan)
  ultimately show ?thesis using ents best bytes by (intro conjI) auto
qed

section \<open>A concrete viewer\<close>

definition demo_policy :: compiled_sync_policy where "demo_policy = policy_new 3 1 20 f32_one"
definition demo_policies :: policy_table where "demo_policies = [None, None, None, Some demo_policy]"

definition demo_viewer :: viewer_query where
  "demo_viewer = \<lparr>vq_client_id = 1, vq_position = demo_position, vq_radius = f32_one, vq_max_entities = 8\<rparr>"

definition demo_filter :: visibility_filter where "demo_filter = plain_filter (\<lambda>_ _. True)"

lemma f32_mk_zero: "f32_is_finite (f32_mk s 0)" "f32_units (f32_mk s 0) = 0" "f32_key (f32_mk s 0) = 0"
  by (simp_all add: f32_is_finite_def f32_units_def f32_key_def inf_mag_def)

lemma f32_sub_self: "f32_is_finite x \<Longrightarrow> \<exists>s. f32_sub x x = f32_mk s 0"
  by (auto simp: f32_sub_def f32_add_finite f32_of_frac_def)

lemma distance_self:
  assumes "position_finite p"
  shows "f32_key (distance_squared p p) = 0"
proof -
  obtain a b c where "f32_sub (px p) (px p) = f32_mk a 0" "f32_sub (py p) (py p) = f32_mk b 0" "f32_sub (pz p) (pz p) = f32_mk c 0"
    using assms f32_sub_self unfolding position_finite_def by metis
  moreover have "f32_mul (f32_mk s 0) (f32_mk s 0) = f32_mk False 0" for s
    by (simp add: f32_mul_finite f32_mk_zero f32_of_frac_def)
  moreover have "\<exists>u. f32_mul_add (f32_mk s 0) (f32_mk s 0) (f32_mk t 0) = f32_mk u 0" for s t
    by (auto simp: f32_mul_add_def f32_mk_zero f32_finite_simps f32_of_frac_def Let_def)
  ultimately show ?thesis by (metis distance_squared_def f32_mk_zero(3))
qed

lemma demo_selectable:
  "examine (demo_station 1 9) demo_policies demo_viewer demo_filter (\<lambda>_ _ _. True) (\<lambda>_ _ _. True) (EntityHandle 0 0) =
     Selectable demo_policy (distance_squared demo_position demo_position)"
proof -
  have zero: "f32_key (distance_squared demo_position demo_position) = 0"
    by (rule distance_self) (simp add: position_finite_def demo_position_def)
  have "f32_mul f32_one f32_one = f32_of_frac False (2 ^ 149 * 2 ^ 149) (2 ^ 149)"
    by (simp add: f32_mul_finite)
  then have "0 \<le> f32_key (f32_mul f32_one f32_one)" by (simp add: f32_key_of_frac)
  then have "\<not> f32_lt (f32_mul f32_one f32_one) (distance_squared demo_position demo_position)"
    by (simp add: f32_lt_def zero)
  then show ?thesis
    by (simp add: examine_def demo_station_lookup policy_get_def demo_policies_def vec_get_def record_owned_def
        demo_viewer_def demo_filter_def plain_filter_def demo_policy_def policy_new_def)
qed

lemma demo_limit: "hard_limit demo_viewer default_budget = 8"
  by (simp add: hard_limit_def demo_viewer_def default_budget_def)

theorem first_fit_takes_first_witness:
  "rp_entities (plan_for_candidates_inner (demo_station 1 9) [EntityHandle 5 0, EntityHandle 0 0] demo_policies
     demo_viewer demo_filter default_budget (\<lambda>_ _ _. True) (\<lambda>_ _ _. True) True) = [EntityHandle 0 0]"
proof -
  have "examine (demo_station 1 9) demo_policies demo_viewer demo_filter (\<lambda>_ _ _. True) (\<lambda>_ _ _. True) (EntityHandle 5 0) = Stale"
    by (simp add: examine_def station_get_def demo_station_def vec_get_def)
  then show ?thesis
    using first_fit_takes_first [OF refl refl refl, where st = "demo_station 1 9" and viewer = demo_viewer
        and budget = default_budget and candidates = "[EntityHandle 5 0, EntityHandle 0 0]" and policies = demo_policies
        and flt = demo_filter and cadence = "\<lambda>_ _ _. True" and eligible = "\<lambda>_ _ _. True" and stop = True]
    by (simp add: demo_selectable demo_limit)
qed

lemma sorting_selector_lawful: "lawful_selector (\<lambda>n. sort_key rank)"
  unfolding lawful_selector_def by (rule lawful_select_sorting) (rule prioritized_le_rank)

theorem prioritized_takes_best_witness:
  "\<exists>buffer plan. plan_for_candidates_prioritized (\<lambda>n. sort_key rank) (demo_station 1 9) [EntityHandle 0 0] demo_policies
     demo_viewer demo_filter default_budget (\<lambda>_ _ _. True) (\<lambda>_ _ _. True) = (buffer, plan) \<and>
   rp_entities plan = [EntityHandle 0 0]"
proof -
  obtain buffer plan where run: "plan_for_candidates_prioritized (\<lambda>n. sort_key rank) (demo_station 1 9) [EntityHandle 0 0]
      demo_policies demo_viewer demo_filter default_budget (\<lambda>_ _ _. True) (\<lambda>_ _ _. True) = (buffer, plan)"
    by fastforce
  have "length [EntityHandle 0 0] \<le> usize_max" by (simp add: usize_max_def)
  from prioritized_takes_best [OF sorting_selector_lawful this refl run] run show ?thesis
    by (simp add: demo_limit eligible_candidates_def List.map_filter_simps candidate_of_def demo_selectable)
qed

end
