(* ===== verification/Replication_Batch.thy ===== *)
theory Replication_Batch
  imports Replication_Planner
begin

text \<open>
  Planning for a batch of viewers, and the range-only planner
  (\<open>crates/sectorsync-core/src/replication.rs\<close>). A batch keeps, per call, the candidate lists of viewer
  ranges that occur more than once, so that viewers whose spheres touch the same cells share one query.
  Buffers retained between calls are part of the state; the figures that report buffer capacities are
  not. The vector unit of the accelerated range planner is a parameter.
\<close>

section \<open>State\<close>

record batch_stats =
  bs_viewers :: usize
  bs_candidates :: usize
  bs_considered :: usize
  bs_selected :: usize
  bs_unexamined :: usize
  bs_estimated_bytes :: usize
  bs_grid_queries :: usize
  bs_occupied_queries :: usize
  bs_grid_cells_probed :: usize
  bs_occupied_cells_scanned :: usize
  bs_matched_cells :: usize
  bs_unique_query_ranges :: usize
  bs_reused_query_ranges :: usize
  bs_cached_candidate_handles :: usize
  bs_query_cache_capacity_max :: usize

definition batch_stats_default :: batch_stats where
  "batch_stats_default = \<lparr>bs_viewers = 0, bs_candidates = 0, bs_considered = 0, bs_selected = 0, bs_unexamined = 0,
     bs_estimated_bytes = 0, bs_grid_queries = 0, bs_occupied_queries = 0, bs_grid_cells_probed = 0,
     bs_occupied_cells_scanned = 0, bs_matched_cells = 0, bs_unique_query_ranges = 0,
     bs_reused_query_ranges = 0, bs_cached_candidate_handles = 0, bs_query_cache_capacity_max = 0\<rparr>"

definition record_plan :: "batch_stats \<Rightarrow> replication_plan \<Rightarrow> batch_stats" where
  "record_plan s plan = s\<lparr>
     bs_candidates := usize_add (bs_candidates s) (ps_candidates (rp_stats plan)),
     bs_considered := usize_add (bs_considered s) (ps_considered (rp_stats plan)),
     bs_selected := usize_add (bs_selected s) (ps_selected (rp_stats plan)),
     bs_unexamined := usize_add (bs_unexamined s) (ps_unexamined_after_budget (rp_stats plan)),
     bs_estimated_bytes := usize_add (bs_estimated_bytes s) (ps_estimated_bytes (rp_stats plan))\<rparr>"

definition record_query :: "batch_stats \<Rightarrow> replication_plan \<Rightarrow> replication_scratch \<Rightarrow> batch_stats" where
  "record_query s plan sc =
     (let s = record_plan s plan;
          s = s\<lparr>bs_viewers := usize_add (bs_viewers s) 1\<rparr>;
          q = qs_stats (rs_cell_query sc);
          s = (case qt_strategy q of
                 GridStrategy \<Rightarrow> s\<lparr>bs_grid_queries := usize_add (bs_grid_queries s) 1\<rparr>
               | OccupiedCells \<Rightarrow> s\<lparr>bs_occupied_queries := usize_add (bs_occupied_queries s) 1\<rparr>)
      in s\<lparr>bs_grid_cells_probed := usize_add (bs_grid_cells_probed s) (qt_grid_probed q),
           bs_occupied_cells_scanned := usize_add (bs_occupied_cells_scanned s) (qt_occupied_scanned q),
           bs_matched_cells := usize_add (bs_matched_cells s) (qt_matched q)\<rparr>)"

definition record_reused_query :: "batch_stats \<Rightarrow> replication_plan \<Rightarrow> batch_stats" where
  "record_reused_query s plan =
     (let s = record_plan s plan;
          s = s\<lparr>bs_viewers := usize_add (bs_viewers s) 1\<rparr>
      in s\<lparr>bs_reused_query_ranges := usize_add (bs_reused_query_ranges s) 1\<rparr>)"

text \<open>Merging the reports of two partitions, as the code does it: the candidates left unexamined are
  not added.\<close>

definition merge_batch_stats :: "batch_stats \<Rightarrow> batch_stats \<Rightarrow> batch_stats" where
  "merge_batch_stats s other = s\<lparr>
     bs_viewers := usize_add (bs_viewers s) (bs_viewers other),
     bs_candidates := usize_add (bs_candidates s) (bs_candidates other),
     bs_considered := usize_add (bs_considered s) (bs_considered other),
     bs_selected := usize_add (bs_selected s) (bs_selected other),
     bs_estimated_bytes := usize_add (bs_estimated_bytes s) (bs_estimated_bytes other),
     bs_grid_queries := usize_add (bs_grid_queries s) (bs_grid_queries other),
     bs_occupied_queries := usize_add (bs_occupied_queries s) (bs_occupied_queries other),
     bs_grid_cells_probed := usize_add (bs_grid_cells_probed s) (bs_grid_cells_probed other),
     bs_occupied_cells_scanned := usize_add (bs_occupied_cells_scanned s) (bs_occupied_cells_scanned other),
     bs_matched_cells := usize_add (bs_matched_cells s) (bs_matched_cells other),
     bs_unique_query_ranges := usize_add (bs_unique_query_ranges s) (bs_unique_query_ranges other),
     bs_reused_query_ranges := usize_add (bs_reused_query_ranges s) (bs_reused_query_ranges other),
     bs_cached_candidate_handles := usize_add (bs_cached_candidate_handles s) (bs_cached_candidate_handles other),
     bs_query_cache_capacity_max := max (bs_query_cache_capacity_max s) (bs_query_cache_capacity_max other)\<rparr>"

type_synonym batch_query_key = "cell_coord3 \<times> cell_coord3"

record batch_scratch =
  bb_plans :: "replication_plan list"
  bb_active_plans :: usize
  bb_stats :: batch_stats
  bb_query_counts :: "(batch_query_key, usize) fmap"
  bb_query_cache_index :: "(batch_query_key, usize) fmap"
  bb_query_cache :: "entity_handle list list"
  bb_active_query_cache :: usize

definition batch_scratch_new :: batch_scratch where
  "batch_scratch_new = \<lparr>bb_plans = [], bb_active_plans = 0, bb_stats = batch_stats_default,
     bb_query_counts = fmempty, bb_query_cache_index = fmempty, bb_query_cache = [], bb_active_query_cache = 0\<rparr>"

definition batch_view :: "batch_scratch \<Rightarrow> replication_plan list \<times> batch_stats" where
  "batch_view b = (take (bb_active_plans b) (bb_plans b), bb_stats b)"

definition batch_query_key :: "cell_index \<Rightarrow> viewer_query \<Rightarrow> batch_query_key" where
  "batch_query_key ix v =
     (let aabb = bounds_to_aabb (BSphere (vq_radius v)) (vq_position v)
      in (cell_at (ci_grid ix) (aabb_min aabb), cell_at (ci_grid ix) (aabb_max aabb)))"

definition batch_prepare :: "usize \<Rightarrow> batch_scratch \<Rightarrow> batch_scratch" where
  "batch_prepare n b =
     (let b = (if length (bb_plans b) < n then b\<lparr>bb_plans := vec_resize (bb_plans b) n default_plan\<rparr> else b)
      in b\<lparr>bb_active_plans := n, bb_stats := batch_stats_default, bb_query_counts := fmempty,
           bb_query_cache_index := fmempty, bb_active_query_cache := 0\<rparr>)"

fun count_ranges :: "cell_index \<Rightarrow> viewer_query list \<Rightarrow> (batch_query_key, usize) fmap \<Rightarrow> (batch_query_key, usize) fmap" where
  "count_ranges ix [] counts = counts"
| "count_ranges ix (v # vs) counts =
     (let key = batch_query_key ix v;
          n = (case fmlookup counts key of Some n \<Rightarrow> n | None \<Rightarrow> 0)
      in count_ranges ix vs (fmupd key (usize_add n 1) counts))"

definition prepare_query_ranges :: "cell_index \<Rightarrow> viewer_query list \<Rightarrow> batch_scratch \<Rightarrow> batch_scratch" where
  "prepare_query_ranges ix vs b =
     (let b = b\<lparr>bb_query_counts := count_ranges ix vs (bb_query_counts b)\<rparr>
      in b\<lparr>bb_stats := (bb_stats b)\<lparr>bs_unique_query_ranges := map_len (bb_query_counts b)\<rparr>\<rparr>)"

definition query_repeats :: "batch_scratch \<Rightarrow> batch_query_key \<Rightarrow> bool" where
  "query_repeats b key = (case fmlookup (bb_query_counts b) key of Some n \<Rightarrow> 1 < n | None \<Rightarrow> False)"

definition cache_query :: "batch_query_key \<Rightarrow> entity_handle list \<Rightarrow> usize \<Rightarrow> batch_scratch \<Rightarrow> batch_scratch" where
  "cache_query key handles max_ranges b =
     (if max_ranges \<le> bb_active_query_cache b then b
      else
        let i = bb_active_query_cache b;
            b = (if i = length (bb_query_cache b) then b\<lparr>bb_query_cache := bb_query_cache b @ [[]]\<rparr> else b)
        in b\<lparr>bb_query_cache := (bb_query_cache b)[i := handles],
             bb_query_cache_index := fmupd key i (bb_query_cache_index b),
             bb_active_query_cache := usize_add (bb_active_query_cache b) 1,
             bb_stats := (bb_stats b)\<lparr>bs_cached_candidate_handles :=
               usize_add (bs_cached_candidate_handles (bb_stats b)) (length handles)\<rparr>\<rparr>)"

definition record_query_cache_capacity :: "batch_scratch \<Rightarrow> batch_scratch" where
  "record_query_cache_capacity b =
     b\<lparr>bb_stats := (bb_stats b)\<lparr>bs_query_cache_capacity_max := length (bb_query_cache b)\<rparr>\<rparr>"

section \<open>Planning a batch\<close>

text \<open>One viewer of the batch, \<open>i\<close> its slot; \<open>plan_with\<close> is the configured kernel on a candidate list.\<close>

definition plan_batch_viewer ::
  "(entity_handle list \<Rightarrow> viewer_query \<Rightarrow> prioritized_candidate list \<Rightarrow> prioritized_candidate list \<times> replication_plan) \<Rightarrow>
   cell_index \<Rightarrow> usize \<Rightarrow> usize \<Rightarrow> viewer_query \<Rightarrow> replication_scratch \<Rightarrow> batch_scratch \<Rightarrow>
   replication_scratch \<times> batch_scratch" where
  "plan_batch_viewer plan_with ix max_ranges i v sc b =
     (let key = batch_query_key ix v in
      case fmlookup (bb_query_cache_index b) key of
        Some cache_index \<Rightarrow>
          (case plan_with (bb_query_cache b ! cache_index) v (rs_prioritized sc) of
             (prioritized, plan) \<Rightarrow>
               (sc\<lparr>rs_prioritized := prioritized\<rparr>,
                b\<lparr>bb_plans := (bb_plans b)[i := plan], bb_stats := record_reused_query (bb_stats b) plan\<rparr>))
      | None \<Rightarrow>
          let sc = sc\<lparr>rs_cell_query := query_sphere_into ix (vq_position v) (vq_radius v) (rs_cell_query sc)\<rparr>;
              b = (if query_repeats b key then cache_query key (qs_handles (rs_cell_query sc)) max_ranges b else b)
          in (case plan_with (qs_handles (rs_cell_query sc)) v (rs_prioritized sc) of
                (prioritized, plan) \<Rightarrow>
                  let sc = sc\<lparr>rs_prioritized := prioritized\<rparr>
                  in (sc, b\<lparr>bb_plans := (bb_plans b)[i := plan], bb_stats := record_query (bb_stats b) plan sc\<rparr>)))"

fun plan_batch_loop ::
  "(entity_handle list \<Rightarrow> viewer_query \<Rightarrow> prioritized_candidate list \<Rightarrow> prioritized_candidate list \<times> replication_plan) \<Rightarrow>
   cell_index \<Rightarrow> usize \<Rightarrow> usize \<Rightarrow> viewer_query list \<Rightarrow> replication_scratch \<Rightarrow> batch_scratch \<Rightarrow>
   replication_scratch \<times> batch_scratch" where
  "plan_batch_loop plan_with ix max_ranges i [] sc b = (sc, b)"
| "plan_batch_loop plan_with ix max_ranges i (v # vs) sc b =
     (case plan_batch_viewer plan_with ix max_ranges i v sc b of
        (sc, b) \<Rightarrow> plan_batch_loop plan_with ix max_ranges (i + 1) vs sc b)"

definition plan_for_viewers_configured ::
  "selector \<Rightarrow> station \<Rightarrow> cell_index \<Rightarrow> policy_table \<Rightarrow> viewer_query list \<Rightarrow> visibility_filter \<Rightarrow> replication_budget \<Rightarrow>
   selection_mode \<Rightarrow> usize \<Rightarrow> eligible_fn \<Rightarrow> last_sent_fn \<Rightarrow> replication_scratch \<Rightarrow> batch_scratch \<Rightarrow>
   (replication_plan list \<times> batch_stats) \<times> replication_scratch \<times> batch_scratch" where
  "plan_for_viewers_configured sel st ix policies viewers flt budget mode max_ranges eligible last_sent sc b =
     (let b = prepare_query_ranges ix viewers (batch_prepare (length viewers) b) in
      case plan_batch_loop
             (\<lambda>candidates v. plan_for_candidates_configured sel st candidates policies v flt budget mode eligible last_sent)
             ix max_ranges 0 viewers sc b of
        (sc, b) \<Rightarrow>
          let b = record_query_cache_capacity b in (batch_view b, sc, b))"

definition plan_for_viewers ::
  "selector \<Rightarrow> station \<Rightarrow> cell_index \<Rightarrow> policy_table \<Rightarrow> viewer_query list \<Rightarrow> visibility_filter \<Rightarrow> replication_budget \<Rightarrow>
   replication_scratch \<Rightarrow> batch_scratch \<Rightarrow> (replication_plan list \<times> batch_stats) \<times> replication_scratch \<times> batch_scratch" where
  "plan_for_viewers sel st ix policies viewers flt budget sc b =
     plan_for_viewers_configured sel st ix policies viewers flt budget Throughput 0 (\<lambda>_ _ _. True) (\<lambda>_ _. None) sc b"

section \<open>Range-only planning\<close>

definition plan_for_range_candidates ::
  "station \<Rightarrow> entity_handle list \<Rightarrow> policy_table \<Rightarrow> viewer_query \<Rightarrow> replication_budget \<Rightarrow> replication_plan" where
  "plan_for_range_candidates st candidates policies viewer budget =
     plan_for_candidates_inner st candidates policies viewer range_only_visibility budget
       (\<lambda>_ _ _. True) (\<lambda>_ _ _. True) False"

text \<open>The accelerated variant works on chunks of eight candidates. \<open>lanes_le xs ys\<close> stands for the
  comparison of two eight-lane vectors and its move mask.\<close>

type_synonym lane_compare = "f32 list \<Rightarrow> f32 list \<Rightarrow> bool list"

fun chunks8 :: "'a list \<Rightarrow> 'a list list" where
  "chunks8 [] = []"
| "chunks8 (x # xs) = take 8 (x # xs) # chunks8 (drop 7 xs)"

record lane =
  ln_valid :: bool
  ln_distance :: f32
  ln_policy_radius :: f32

definition load_lane :: "station \<Rightarrow> policy_table \<Rightarrow> viewer_query \<Rightarrow> entity_handle \<Rightarrow> lane" where
  "load_lane st policies viewer h =
     (case station_get st h of
        None \<Rightarrow> \<lparr>ln_valid = False, ln_distance = f32_nan, ln_policy_radius = f32_nan\<rparr>
      | Some entity \<Rightarrow>
          (case policy_get policies (er_policy_id entity) of
             None \<Rightarrow> \<lparr>ln_valid = False, ln_distance = f32_nan, ln_policy_radius = f32_nan\<rparr>
           | Some policy \<Rightarrow>
               \<lparr>ln_valid = True, ln_distance = distance_squared (er_position entity) (vq_position viewer),
                ln_policy_radius = f32_mul (pol_interest_radius policy) (pol_interest_radius policy)\<rparr>))"

definition pad8 :: "f32 list \<Rightarrow> f32 list" where
  "pad8 xs = xs @ replicate (8 - length xs) f32_nan"

definition visible_lanes :: "lane_compare \<Rightarrow> f32 \<Rightarrow> lane list \<Rightarrow> bool list" where
  "visible_lanes lanes_le viewer_radius_sq ls =
     (let d = pad8 (map ln_distance ls); r = pad8 (map ln_policy_radius ls) in
      map2 (\<and>) (map2 (\<and>) (lanes_le d r) (lanes_le d (replicate 8 viewer_radius_sq)))
        (map ln_valid ls @ replicate (8 - length ls) False))"

fun take_lanes :: "usize \<Rightarrow> entity_handle list \<Rightarrow> bool list \<Rightarrow> replication_plan \<Rightarrow> replication_plan" where
  "take_lanes limit (h # hs) (m # ms) plan =
     take_lanes limit hs ms
       (if \<not> m then plan
        else if limit \<le> length (rp_entities plan)
        then plan\<lparr>rp_stats := (rp_stats plan)\<lparr>ps_skipped_by_budget := usize_add (ps_skipped_by_budget (rp_stats plan)) 1\<rparr>\<rparr>
        else plan\<lparr>rp_entities := rp_entities plan @ [h]\<rparr>)"
| "take_lanes limit _ _ plan = plan"

fun range_chunks ::
  "lane_compare \<Rightarrow> station \<Rightarrow> policy_table \<Rightarrow> viewer_query \<Rightarrow> usize \<Rightarrow> entity_handle list list \<Rightarrow> replication_plan \<Rightarrow>
   replication_plan" where
  "range_chunks lanes_le st policies viewer limit [] plan = plan"
| "range_chunks lanes_le st policies viewer limit (hs # hss) plan =
     (let plan = plan\<lparr>rp_stats := (rp_stats plan)\<lparr>ps_considered :=
            usize_add (ps_considered (rp_stats plan)) (length (filter (\<lambda>h. station_get st h \<noteq> None) hs))\<rparr>\<rparr>;
          mask = visible_lanes lanes_le (viewer_radius_squared viewer) (map (load_lane st policies viewer) hs)
      in range_chunks lanes_le st policies viewer limit hss (take_lanes limit hs mask plan))"

definition plan_for_range_candidates_simd ::
  "lane_compare \<Rightarrow> station \<Rightarrow> entity_handle list \<Rightarrow> policy_table \<Rightarrow> viewer_query \<Rightarrow> replication_budget \<Rightarrow> replication_plan" where
  "plan_for_range_candidates_simd lanes_le st candidates policies viewer budget =
     finish_plan budget
       (range_chunks lanes_le st policies viewer (hard_limit viewer budget) (chunks8 candidates)
          \<lparr>rp_entities = [], rp_stats = default_stats\<lparr>ps_candidates := length candidates\<rparr>\<rparr>)"

definition plan_for_viewer_range ::
  "station \<Rightarrow> cell_index \<Rightarrow> policy_table \<Rightarrow> viewer_query \<Rightarrow> replication_budget \<Rightarrow> replication_scratch \<Rightarrow>
   replication_plan \<times> replication_scratch" where
  "plan_for_viewer_range st ix policies viewer budget sc =
     (let sc = sc\<lparr>rs_cell_query := query_sphere_into ix (vq_position viewer) (vq_radius viewer) (rs_cell_query sc)\<rparr>
      in (plan_for_range_candidates st (qs_handles (rs_cell_query sc)) policies viewer budget, sc))"

fun plan_range_loop ::
  "station \<Rightarrow> cell_index \<Rightarrow> policy_table \<Rightarrow> replication_budget \<Rightarrow> usize \<Rightarrow> viewer_query list \<Rightarrow> replication_scratch \<Rightarrow>
   batch_scratch \<Rightarrow> replication_scratch \<times> batch_scratch" where
  "plan_range_loop st ix policies budget i [] sc b = (sc, b)"
| "plan_range_loop st ix policies budget i (v # vs) sc b =
     (case plan_for_viewer_range st ix policies v budget sc of
        (plan, sc) \<Rightarrow>
          plan_range_loop st ix policies budget (i + 1) vs sc
            (b\<lparr>bb_plans := (bb_plans b)[i := plan], bb_stats := record_query (bb_stats b) plan sc\<rparr>))"

definition plan_for_viewers_range ::
  "station \<Rightarrow> cell_index \<Rightarrow> policy_table \<Rightarrow> viewer_query list \<Rightarrow> replication_budget \<Rightarrow> replication_scratch \<Rightarrow>
   batch_scratch \<Rightarrow> (replication_plan list \<times> batch_stats) \<times> replication_scratch \<times> batch_scratch" where
  "plan_for_viewers_range st ix policies viewers budget sc b =
     (let b = batch_prepare (length viewers) b in
      case plan_range_loop st ix policies budget 0 viewers sc b of (sc, b) \<Rightarrow> (batch_view b, sc, b))"

section \<open>A batch plans every viewer as if alone\<close>

definition key_handles :: "cell_index \<Rightarrow> batch_query_key \<Rightarrow> entity_handle list" where
  "key_handles ix key = fresh_handles {} (concat (map (handles_in_cell ix) (cell_range (fst key) (snd key))))"

lemma sphere_query_reference:
  assumes "scratch_wf cq"
  shows "qs_handles (query_sphere_into ix (vq_position v) (vq_radius v) cq) = key_handles ix (batch_query_key ix v)"
    "scratch_wf (query_sphere_into ix (vq_position v) (vq_radius v) cq)"
  using query_reference [OF assms, of ix]
  by (simp_all add: query_sphere_into_def key_handles_def batch_query_key_def Let_def cells_for_aabb_def)

text \<open>Every cached list in use is the answer to its range.\<close>

definition cache_ok :: "cell_index \<Rightarrow> batch_scratch \<Rightarrow> bool" where
  "cache_ok ix b \<longleftrightarrow>
     bb_active_query_cache b \<le> length (bb_query_cache b) \<and> length (bb_query_cache b) \<le> usize_max \<and>
     (\<forall>key i. fmlookup (bb_query_cache_index b) key = Some i \<longrightarrow>
        i < bb_active_query_cache b \<and> bb_query_cache b ! i = key_handles ix key)"

lemma cache_query_frame [simp]:
  "bb_plans (cache_query key hs n b) = bb_plans b" "bb_active_plans (cache_query key hs n b) = bb_active_plans b"
  "bb_query_counts (cache_query key hs n b) = bb_query_counts b"
  "bs_viewers (bb_stats (cache_query key hs n b)) = bs_viewers (bb_stats b)"
  "bs_grid_queries (bb_stats (cache_query key hs n b)) = bs_grid_queries (bb_stats b)"
  "bs_occupied_queries (bb_stats (cache_query key hs n b)) = bs_occupied_queries (bb_stats b)"
  "bs_reused_query_ranges (bb_stats (cache_query key hs n b)) = bs_reused_query_ranges (bb_stats b)"
  by (simp_all add: cache_query_def Let_def)

lemma cache_query_ok:
  assumes "cache_ok ix b" "hs = key_handles ix key" "bb_active_query_cache b < usize_max"
  shows "cache_ok ix (cache_query key hs n b)"
proof (cases "n \<le> bb_active_query_cache b")
  case False
  let ?i = "bb_active_query_cache b"
  define slots where "slots = (if ?i = length (bb_query_cache b) then bb_query_cache b @ [[]] else bb_query_cache b)"
  have slot: "?i < length slots" "length slots \<le> usize_max"
    using assms(1,3) by (auto simp: slots_def cache_ok_def)
  have old: "j < ?i \<and> slots ! j = key_handles ix k" if "fmlookup (bb_query_cache_index b) k = Some j" for k j
  proof -
    have "j < ?i \<and> bb_query_cache b ! j = key_handles ix k \<and> ?i \<le> length (bb_query_cache b)"
      using assms(1) that unfolding cache_ok_def by blast
    then show ?thesis by (auto simp: slots_def nth_append)
  qed
  have "usize_add ?i 1 = Suc ?i" using assms(3) by (simp add: usize_add_def)
  then have eqs: "bb_query_cache (cache_query key hs n b) = slots[?i := hs]"
    "bb_query_cache_index (cache_query key hs n b) = fmupd key ?i (bb_query_cache_index b)"
    "bb_active_query_cache (cache_query key hs n b) = Suc ?i"
    using False by (auto simp: cache_query_def Let_def slots_def)
  have "j < Suc ?i \<and> slots[?i := hs] ! j = key_handles ix k"
    if "fmlookup (fmupd key ?i (bb_query_cache_index b)) k = Some j" for k j
  proof (cases "k = key")
    case True
    then show ?thesis using that slot assms(2) by simp
  next
    case other: False
    then show ?thesis using that old [of k j] by simp
  qed
  then show ?thesis using slot unfolding cache_ok_def eqs by simp
qed (use assms(1) in \<open>simp add: cache_query_def\<close>)

lemma active_cache_le: "bb_active_query_cache (cache_query key hs n b) \<le> Suc (bb_active_query_cache b)"
  by (auto simp: cache_query_def Let_def usize_add_def)

definition viewer_counts_ok :: "usize \<Rightarrow> batch_scratch \<Rightarrow> bool" where
  "viewer_counts_ok n b \<longleftrightarrow>
     bs_viewers (bb_stats b) = n \<and> bb_active_query_cache b \<le> n \<and>
     bs_grid_queries (bb_stats b) + bs_occupied_queries (bb_stats b) + bs_reused_query_ranges (bb_stats b) = n"

lemma record_counts:
  assumes "n < usize_max" "viewer_counts_ok n b"
  shows "viewer_counts_ok (Suc n) (b\<lparr>bb_plans := ps, bb_stats := record_query (bb_stats b) plan sc\<rparr>)"
    "viewer_counts_ok (Suc n) (b\<lparr>bb_plans := ps, bb_stats := record_reused_query (bb_stats b) plan\<rparr>)"
  using assms
  by (auto simp: viewer_counts_ok_def record_query_def record_reused_query_def record_plan_def Let_def
      usize_add_def split: query_strategy.splits)

lemma plan_batch_viewer_result:
  assumes wf: "scratch_wf (rs_cell_query sc)" and cache: "cache_ok ix b" and counts: "viewer_counts_ok i b" "i < usize_max"
    and kernel: "\<And>c v p. snd (pw c v p) = plan_of c v"
    and run: "plan_batch_viewer pw ix n i v sc b = (sc', b')"
  shows "scratch_wf (rs_cell_query sc') \<and> cache_ok ix b' \<and> viewer_counts_ok (Suc i) b' \<and>
    bb_plans b' = (bb_plans b)[i := plan_of (key_handles ix (batch_query_key ix v)) v] \<and>
    bb_active_plans b' = bb_active_plans b"
proof (cases "fmlookup (bb_query_cache_index b) (batch_query_key ix v)")
  case (Some k)
  then have hs: "bb_query_cache b ! k = key_handles ix (batch_query_key ix v)"
    using cache unfolding cache_ok_def by blast
  obtain pri plan where pw: "pw (key_handles ix (batch_query_key ix v)) v (rs_prioritized sc) = (pri, plan)" by fastforce
  then have plan: "plan = plan_of (key_handles ix (batch_query_key ix v)) v" using kernel by (metis snd_conv)
  have "sc' = sc\<lparr>rs_prioritized := pri\<rparr>" "b' = b\<lparr>bb_plans := (bb_plans b)[i := plan], bb_stats := record_reused_query (bb_stats b) plan\<rparr>"
    using run Some by (simp_all add: plan_batch_viewer_def hs pw)
  then show ?thesis using wf cache record_counts(2) [OF counts(2,1)] plan by (simp add: cache_ok_def)
next
  case None
  define cq where "cq = query_sphere_into ix (vq_position v) (vq_radius v) (rs_cell_query sc)"
  have hs: "qs_handles cq = key_handles ix (batch_query_key ix v)" and wf': "scratch_wf cq"
    using sphere_query_reference [OF wf] by (simp_all add: cq_def)
  define b1 where "b1 = (if query_repeats b (batch_query_key ix v) then cache_query (batch_query_key ix v) (qs_handles cq) n b else b)"
  obtain pri plan where pw: "pw (key_handles ix (batch_query_key ix v)) v (rs_prioritized sc) = (pri, plan)" by fastforce
  then have plan: "plan = plan_of (key_handles ix (batch_query_key ix v)) v" using kernel by (metis snd_conv)
  define sc1 where "sc1 = sc\<lparr>rs_cell_query := cq, rs_prioritized := pri\<rparr>"
  have res: "sc' = sc1" "b' = b1\<lparr>bb_plans := (bb_plans b1)[i := plan], bb_stats := record_query (bb_stats b1) plan sc1\<rparr>"
    using run None pw hs by (auto simp: plan_batch_viewer_def Let_def cq_def [symmetric] b1_def sc1_def cong: if_cong)
  have "bb_active_query_cache b < usize_max" using counts by (simp add: viewer_counts_ok_def)
  then have "cache_ok ix b1" using cache_query_ok [OF cache hs] cache by (simp add: b1_def)
  moreover have frame: "bb_plans b1 = bb_plans b" "bb_active_plans b1 = bb_active_plans b" by (simp_all add: b1_def)
  moreover have "viewer_counts_ok (Suc i) b'"
  proof -
    have "bs_viewers (record_query (bb_stats b1) plan sc1) = Suc i"
      "bs_grid_queries (record_query (bb_stats b1) plan sc1) + bs_occupied_queries (record_query (bb_stats b1) plan sc1) +
       bs_reused_query_ranges (record_query (bb_stats b1) plan sc1) = Suc i"
      using counts by (auto simp: b1_def viewer_counts_ok_def record_query_def record_plan_def Let_def usize_add_def
          split: query_strategy.splits)
    moreover have "bb_active_query_cache b1 \<le> Suc i"
      using counts(1) active_cache_le [of "batch_query_key ix v" "qs_handles cq" n b] by (simp add: b1_def viewer_counts_ok_def)
    ultimately show ?thesis by (simp add: viewer_counts_ok_def res)
  qed
  ultimately show ?thesis using wf' plan by (simp add: res sc1_def cache_ok_def)
qed

lemma plan_batch_loop_result:
  assumes kernel: "\<And>c v p. snd (pw c v p) = plan_of c v"
  shows "scratch_wf (rs_cell_query sc) \<Longrightarrow> cache_ok ix b \<Longrightarrow> viewer_counts_ok i b \<Longrightarrow> i + length vs \<le> usize_max \<Longrightarrow>
    i + length vs \<le> length (bb_plans b) \<Longrightarrow> plan_batch_loop pw ix n i vs sc b = (sc', b') \<Longrightarrow>
    scratch_wf (rs_cell_query sc') \<and> cache_ok ix b' \<and> viewer_counts_ok (i + length vs) b' \<and>
    bb_active_plans b' = bb_active_plans b \<and>
    bb_plans b' = take i (bb_plans b) @ map (\<lambda>v. plan_of (key_handles ix (batch_query_key ix v)) v) vs @
      drop (i + length vs) (bb_plans b)"
proof (induction vs arbitrary: i sc b)
  case Nil
  then show ?case by simp
next
  case (Cons v vs)
  obtain sc1 b1 where step: "plan_batch_viewer pw ix n i v sc b = (sc1, b1)" by fastforce
  have i: "i < usize_max" "i < length (bb_plans b)" using Cons.prems by simp_all
  note one = plan_batch_viewer_result [OF Cons.prems(1-3) i(1) kernel step]
  then have rest: "plan_batch_loop pw ix n (Suc i) vs sc1 b1 = (sc', b')" using Cons.prems(6) step by simp
  have len: "Suc i + length vs \<le> usize_max" "Suc i + length vs \<le> length (bb_plans b1)" using Cons.prems(4,5) one by simp_all
  have "take (Suc i) ((bb_plans b)[i := p]) = take i (bb_plans b) @ [p]" for p
    using i(2) by (simp add: take_Suc_conv_app_nth)
  then show ?case using Cons.IH [OF _ _ _ len rest] one by simp
qed

lemma plan_independent_of_buffer:
  "snd (plan_for_candidates_configured sel st c pol v flt budget mode eligible last_sent p) =
   snd (plan_for_candidates_configured sel st c pol v flt budget mode eligible last_sent p')"
  by (simp add: plan_for_candidates_configured_def split: selection_mode.splits)

text \<open>C29. Planning a batch of viewers gives, in input order, exactly the plan each viewer would get alone
  from a fresh scratch, whatever the limit on cached query ranges, the previous contents of the scratch
  and batch buffers, and the selection mode. Every viewer is counted once, as a grid query, a scan of
  the occupied cells, or a reused query.\<close>

theorem batch_equals_single:
  assumes "scratch_reachable (rs_cell_query sc)" "length viewers \<le> usize_max" "length (bb_query_cache b) \<le> usize_max"
    "plan_for_viewers_configured sel st ix policies viewers flt budget mode max_ranges eligible last_sent sc b =
       ((plans, stats), sc', b')"
  shows "plans = map (\<lambda>v. fst (plan_for_viewer_configured sel st ix policies v flt budget mode eligible last_sent
      replication_scratch_default)) viewers \<and>
    bs_viewers stats = length viewers \<and>
    bs_grid_queries stats + bs_occupied_queries stats + bs_reused_query_ranges stats = length viewers"
proof -
  let ?pw = "\<lambda>candidates v. plan_for_candidates_configured sel st candidates policies v flt budget mode eligible last_sent"
  define plan_of where "plan_of c v = snd (?pw c v [])" for c v
  define start where "start = prepare_query_ranges ix viewers (batch_prepare (length viewers) b)"
  obtain sc1 b1 where loop: "plan_batch_loop ?pw ix max_ranges 0 viewers sc start = (sc1, b1)" by fastforce
  have init: "cache_ok ix start" "viewer_counts_ok 0 start" "0 + length viewers \<le> length (bb_plans start)"
    "bb_active_plans start = length viewers"
    using assms(3) by (auto simp: start_def prepare_query_ranges_def batch_prepare_def cache_ok_def viewer_counts_ok_def
        batch_stats_default_def Let_def)
  have bound: "0 + length viewers \<le> usize_max" using assms(2) by simp
  have kernel: "snd (?pw c v p) = plan_of c v" for c v p
    unfolding plan_of_def by (rule plan_independent_of_buffer)
  note res = plan_batch_loop_result [of ?pw plan_of, OF kernel scratch_reachable_wf [OF assms(1)] init(1,2) bound init(3) loop]
  have out: "plans = take (bb_active_plans b1) (bb_plans b1)" "stats = (bb_stats b1)\<lparr>bs_query_cache_capacity_max := length (bb_query_cache b1)\<rparr>"
    using assms(4) loop by (simp_all add: plan_for_viewers_configured_def start_def Let_def batch_view_def record_query_cache_capacity_def)
  have single: "fst (plan_for_viewer_configured sel st ix policies v flt budget mode eligible last_sent replication_scratch_default) =
      plan_of (key_handles ix (batch_query_key ix v)) v" for v
    using sphere_query_reference(1) [OF scratch_reachable_wf [OF scratch_start], of ix v]
    by (simp add: plan_for_viewer_configured_def Let_def replication_scratch_default_def plan_of_def split: prod.splits)
  show ?thesis
    using res init(4) by (simp add: out single viewer_counts_ok_def)
qed

theorem batch_equals_single_witness:
  "bs_viewers (snd (fst (plan_for_viewers_configured (\<lambda>n. sort_key rank) (demo_station 1 9) demo_index demo_policies
     [demo_viewer, demo_viewer] demo_filter default_budget Prioritized 4 (\<lambda>_ _ _. True) (\<lambda>_ _. None)
     replication_scratch_default batch_scratch_new))) = 2"
proof -
  obtain plans stats sc' b' where run: "plan_for_viewers_configured (\<lambda>n. sort_key rank) (demo_station 1 9) demo_index demo_policies
     [demo_viewer, demo_viewer] demo_filter default_budget Prioritized 4 (\<lambda>_ _ _. True) (\<lambda>_ _. None)
     replication_scratch_default batch_scratch_new = ((plans, stats), sc', b')" by (metis prod_cases3 surj_pair)
  have "scratch_reachable (rs_cell_query replication_scratch_default)"
    by (simp add: replication_scratch_default_def scratch_start)
  from batch_equals_single [OF this _ _ run] run show ?thesis
    by (simp add: usize_max_def batch_scratch_new_def)
qed

section \<open>The accelerated range planner\<close>

definition lawful_lanes :: "lane_compare \<Rightarrow> bool" where
  "lawful_lanes lanes_le \<longleftrightarrow>
     (\<forall>xs ys. length xs = 8 \<longrightarrow> length ys = 8 \<longrightarrow> lanes_le xs ys = map2 f32_le xs ys)"

definition lane_visible :: "f32 \<Rightarrow> lane \<Rightarrow> bool" where
  "lane_visible viewer_radius_sq l \<longleftrightarrow>
     ln_valid l \<and> f32_le (ln_distance l) (ln_policy_radius l) \<and> f32_le (ln_distance l) viewer_radius_sq"

lemma map2_append_lanes:
  "length xs = length ys \<Longrightarrow> map2 f (xs @ a) (ys @ b) = map2 f xs ys @ map2 f a b"
  by simp

lemma visible_lanes_prefix:
  assumes "lawful_lanes lanes_le" "length ls \<le> 8"
  shows "\<exists>rest. visible_lanes lanes_le vr ls = map (lane_visible vr) ls @ rest"
proof -
  have len: "length (pad8 (map f ls)) = 8" for f using assms(2) by (simp add: pad8_def)
  let ?n = "8 - length ls"
  have rep: "replicate 8 vr = map (\<lambda>_. vr) ls @ replicate ?n vr"
    using assms(2) by (simp add: map_replicate_const flip: replicate_add)
  have "visible_lanes lanes_le vr ls =
      map2 (\<and>) (map2 (\<and>) (map2 f32_le (pad8 (map ln_distance ls)) (pad8 (map ln_policy_radius ls)))
        (map2 f32_le (pad8 (map ln_distance ls)) (replicate 8 vr)))
        (map ln_valid ls @ replicate ?n False)"
    using assms(1) len by (simp add: visible_lanes_def Let_def lawful_lanes_def)
  also have "\<dots> = map (lane_visible vr) ls @
      map2 (\<and>) (map2 (\<and>) (map2 f32_le (replicate ?n f32_nan) (replicate ?n f32_nan))
        (map2 f32_le (replicate ?n f32_nan) (replicate ?n vr))) (replicate ?n False)"
    unfolding pad8_def rep by (simp add: zip_map1 zip_map2 zip_same_conv_map comp_def lane_visible_def)
      (auto simp: zip_same_conv_map lane_visible_def)
  finally show ?thesis by blast
qed

lemma take_lanes_result:
  "ps_skipped_by_budget (rp_stats plan) + length hs \<le> usize_max \<Longrightarrow>
   take_lanes limit hs (map V hs @ rest) plan =
     plan\<lparr>rp_entities := rp_entities plan @ take (limit - length (rp_entities plan)) (filter V hs),
          rp_stats := (rp_stats plan)\<lparr>ps_skipped_by_budget := ps_skipped_by_budget (rp_stats plan) +
            (length (filter V hs) - (limit - length (rp_entities plan)))\<rparr>\<rparr>"
proof (induction hs arbitrary: plan)
  case Nil
  then show ?case by (cases rest) simp_all
next
  case (Cons h hs)
  show ?case
  proof (cases "V h")
    case False
    then show ?thesis using Cons by simp
  next
    case True
    show ?thesis
    proof (cases "limit \<le> length (rp_entities plan)")
      case full: True
      then show ?thesis using True Cons.prems
        by (simp add: Cons.IH usize_add_small)
    next
      case room: False
      then have step: "limit - length (rp_entities plan) = Suc (limit - Suc (length (rp_entities plan)))" by simp
      show ?thesis using True room Cons.prems by (simp add: Cons.IH step)
    qed
  qed
qed

lemma range_chunks_result:
  assumes lanes: "lawful_lanes lanes_le"
    and vis: "V = (\<lambda>h. lane_visible (viewer_radius_squared viewer) (load_lane st policies viewer h))"
  shows "\<forall>hs \<in> set hss. length hs \<le> 8 \<Longrightarrow>
    ps_considered (rp_stats plan) + length (concat hss) \<le> usize_max \<Longrightarrow>
    ps_skipped_by_budget (rp_stats plan) + length (concat hss) \<le> usize_max \<Longrightarrow>
    range_chunks lanes_le st policies viewer limit hss plan =
      plan\<lparr>rp_entities := rp_entities plan @ take (limit - length (rp_entities plan)) (filter V (concat hss)),
           rp_stats := (rp_stats plan)\<lparr>
             ps_considered := ps_considered (rp_stats plan) + length (filter (\<lambda>h. station_get st h \<noteq> None) (concat hss)),
             ps_skipped_by_budget := ps_skipped_by_budget (rp_stats plan) +
               (length (filter V (concat hss)) - (limit - length (rp_entities plan)))\<rparr>\<rparr>"
proof (induction hss arbitrary: plan)
  case Nil
  then show ?case by simp
next
  case (Cons hs hss)
  let ?R = "\<lambda>h. station_get st h \<noteq> None"
  obtain rest where mask: "visible_lanes lanes_le (viewer_radius_squared viewer) (map (load_lane st policies viewer) hs) = map V hs @ rest"
    using visible_lanes_prefix [OF lanes, of "map (load_lane st policies viewer) hs" "viewer_radius_squared viewer"] Cons.prems(1)
    by (auto simp: vis comp_def)
  define p1 where "p1 = plan\<lparr>rp_stats := (rp_stats plan)\<lparr>ps_considered := ps_considered (rp_stats plan) + length (filter ?R hs)\<rparr>\<rparr>"
  have len: "length (filter ?R hs) \<le> length hs" "length (filter V hs) \<le> length hs" by (rule length_filter_le)+
  have add: "usize_add (ps_considered (rp_stats plan)) (length (filter ?R hs)) = ps_considered (rp_stats plan) + length (filter ?R hs)"
    by (rule usize_add_small) (use Cons.prems(2) len in \<open>simp del: length_filter_le\<close>)
  define p2 where "p2 = take_lanes limit hs (map V hs @ rest) p1"
  have p2: "p2 = p1\<lparr>rp_entities := rp_entities p1 @ take (limit - length (rp_entities p1)) (filter V hs),
      rp_stats := (rp_stats p1)\<lparr>ps_skipped_by_budget := ps_skipped_by_budget (rp_stats p1) +
        (length (filter V hs) - (limit - length (rp_entities p1)))\<rparr>\<rparr>"
    unfolding p2_def using Cons.prems(3) by (intro take_lanes_result) (simp add: p1_def)
  have "range_chunks lanes_le st policies viewer limit (hs # hss) plan = range_chunks lanes_le st policies viewer limit hss p2"
    by (simp only: range_chunks.simps Let_def mask p2_def p1_def add)
  also have "\<dots> = p2\<lparr>rp_entities := rp_entities p2 @ take (limit - length (rp_entities p2)) (filter V (concat hss)),
           rp_stats := (rp_stats p2)\<lparr>
             ps_considered := ps_considered (rp_stats p2) + length (filter ?R (concat hss)),
             ps_skipped_by_budget := ps_skipped_by_budget (rp_stats p2) +
               (length (filter V (concat hss)) - (limit - length (rp_entities p2)))\<rparr>\<rparr>"
  proof (rule Cons.IH)
    show "\<forall>hs \<in> set hss. length hs \<le> 8" using Cons.prems(1) by simp
    show "ps_considered (rp_stats p2) + length (concat hss) \<le> usize_max"
      using Cons.prems(2) len(1) by (simp add: p2 p1_def del: length_filter_le)
    show "ps_skipped_by_budget (rp_stats p2) + length (concat hss) \<le> usize_max"
      using Cons.prems(3) len(2) by (simp add: p2 p1_def del: length_filter_le)
  qed
  finally show ?case by (simp add: p2 p1_def min_def)
qed

lemma chunks8_concat: "concat (chunks8 xs) = xs" "\<forall>hs \<in> set (chunks8 xs). length hs \<le> 8"
proof (induction xs rule: chunks8.induct)
  case (2 x xs)
  have "take 8 (x # xs) = x # take 7 xs" by (simp add: numeral_eq_Suc)
  then show "concat (chunks8 (x # xs)) = x # xs" "\<forall>hs \<in> set (chunks8 (x # xs)). length hs \<le> 8"
    using 2 by simp_all
qed simp_all

lemma f32_square_not_nan:
  assumes "\<not> f32_is_nan x"
  shows "\<not> f32_is_nan (f32_mul x x)"
proof -
  have "inf_mag \<noteq> 0" by (simp add: inf_mag_def)
  then show ?thesis using assms by (auto simp: f32_mul_def Let_def f32_is_inf_def f32_is_zero_def)
qed

definition radii_proper :: "policy_table \<Rightarrow> bool" where
  "radii_proper policies \<longleftrightarrow> (\<forall>i p. policy_get policies i = Some p \<longrightarrow> \<not> f32_is_nan (pol_interest_radius p))"

lemma lane_visible_selectable:
  assumes "radii_proper policies"
  shows "lane_visible (viewer_radius_squared viewer) (load_lane st policies viewer h) \<longleftrightarrow>
    selectable (examine st policies viewer range_only_visibility (\<lambda>_ _ _. True) (\<lambda>_ _ _. True) h)"
proof -
  have "\<not> f32_is_nan r \<Longrightarrow> f32_le d v \<Longrightarrow> f32_le d r \<longleftrightarrow> \<not> f32_lt r d" for d r v
    by (auto simp: f32_le_def f32_lt_def)
  moreover have "\<not> f32_is_nan (f32_mul (pol_interest_radius p) (pol_interest_radius p))" if "policy_get policies i = Some p" for i p
    using assms that f32_square_not_nan unfolding radii_proper_def by blast
  ultimately show ?thesis
    by (auto simp: lane_visible_def load_lane_def examine_def range_only_visibility_def Let_def split: option.splits)
qed

text \<open>The accelerated range planner, which compares eight candidates at a time, produces the same
  plan as the scalar one, statistics included, for every vector unit that compares lane by lane and
  every policy table without NaN radii.\<close>

theorem simd_equals_scalar:
  assumes "lawful_lanes lanes_le" "radii_proper policies" "length candidates \<le> usize_max"
  shows "plan_for_range_candidates_simd lanes_le st candidates policies viewer budget =
    plan_for_range_candidates st candidates policies viewer budget"
proof -
  let ?ex = "examine st policies viewer range_only_visibility (\<lambda>_ _ _. True) (\<lambda>_ _ _. True)"
  let ?start = "\<lparr>rp_entities = [], rp_stats = default_stats\<lparr>ps_candidates := length candidates\<rparr>\<rparr>"
  let ?limit = "hard_limit viewer budget"
  have V: "(\<lambda>h. selectable (?ex h)) = (\<lambda>h. lane_visible (viewer_radius_squared viewer) (load_lane st policies viewer h))"
    using lane_visible_selectable [OF assms(2)] by simp
  have cad: "?ex h \<noteq> Cadence_Skipped" and stale: "?ex h \<noteq> Stale \<longleftrightarrow> station_get st h \<noteq> None" for h
    by (auto simp: examine_def Let_def split: option.splits)
  have simd: "range_chunks lanes_le st policies viewer ?limit (chunks8 candidates) ?start =
      ?start\<lparr>rp_entities := take ?limit (filter (\<lambda>h. selectable (?ex h)) candidates),
           rp_stats := (rp_stats ?start)\<lparr>
             ps_considered := length (filter (\<lambda>h. station_get st h \<noteq> None) candidates),
             ps_skipped_by_budget := length (filter (\<lambda>h. selectable (?ex h)) candidates) - ?limit\<rparr>\<rparr>"
    using range_chunks_result [OF assms(1) V chunks8_concat(2) [of candidates], of ?start ?limit] assms(3)
    by (simp add: chunks8_concat(1) default_stats_def)
  have scalar: "rp_entities (first_fit_loop ?ex ?limit False (length candidates) 0 candidates ?start) =
      take ?limit (filter (\<lambda>h. selectable (?ex h)) candidates)"
    "rp_stats (first_fit_loop ?ex ?limit False (length candidates) 0 candidates ?start) =
      (rp_stats ?start)\<lparr>
         ps_considered := length (filter (\<lambda>h. station_get st h \<noteq> None) candidates),
         ps_skipped_by_budget := length (filter (\<lambda>h. selectable (?ex h)) candidates) - ?limit\<rparr>"
    using stale by (simp_all add: first_fit_entities first_fit_full_stats default_stats_def cad)
  show ?thesis
    unfolding plan_for_range_candidates_simd_def plan_for_range_candidates_def plan_for_candidates_inner_def Let_def simd
    using scalar by (simp add: finish_plan_def)
qed

theorem simd_equals_scalar_witness:
  "plan_for_range_candidates_simd (map2 f32_le) (demo_station 1 9) [EntityHandle 0 0] demo_policies demo_viewer default_budget =
   plan_for_range_candidates (demo_station 1 9) [EntityHandle 0 0] demo_policies demo_viewer default_budget"
proof (rule simd_equals_scalar)
  show "lawful_lanes (map2 f32_le)" by (simp add: lawful_lanes_def)
  have "policy_get demo_policies i = Some p \<Longrightarrow> p = demo_policy" for i p
    by (auto simp: policy_get_def demo_policies_def vec_get_def nth_Cons split: if_splits option.splits nat.splits)
  moreover have "\<not> f32_is_nan (pol_interest_radius demo_policy)"
    by (simp add: demo_policy_def policy_new_def f32_finite_simps)
  ultimately show "radii_proper demo_policies" unfolding radii_proper_def by metis
qed (simp add: usize_max_def)

text \<open>A NaN radius separates the two: the scalar planner does not exclude the candidate.\<close>

lemma simd_nan_divergence:
  assumes "f32_is_nan r"
  shows "\<not> f32_lt (f32_mul r r) d \<and> \<not> f32_le d (f32_mul r r)"
  using assms by (simp add: f32_mul_def Let_def f32_lt_def f32_le_def)

end
