(* ===== verification/Hotspot.thy ===== *)
theory Hotspot
  imports Selection Spatial Entities "HOL-Library.Product_Lexorder"
begin

text \<open>
  Hotspot metrics and split planning (\<open>crates/sectorsync-core/src/hotspot.rs\<close>): a station's load sample
  is classified against thresholds, and the cells with the highest pressure are proposed for another
  station. The planner overwrites its outputs, so they are results here; the scratch list is returned.
  Sums of two \<open>usize\<close> counters wrap, as in a release build.
\<close>

record cell_load_sample =
  cl_cell :: cell_coord3
  cl_owned_entities :: usize
  cl_ghost_entities :: usize
  cl_subscribers :: usize
  cl_estimated_updates :: usize
  cl_estimated_bytes :: usize
  cl_tick_cost_units :: u64
  cl_event_pressure :: usize

definition pressure_score :: "cell_load_sample \<Rightarrow> u64" where
  "pressure_score c =
     (let entities = word_of_nat (cl_owned_entities c + cl_ghost_entities c);
          subscribers = word_of_nat (cl_subscribers c);
          updates = word_of_nat (cl_estimated_updates c);
          bytes = word_of_nat (cl_estimated_bytes c div 256);
          events = word_of_nat (cl_event_pressure c)
      in sat_add (sat_add (sat_add (sat_add (sat_add (sat_mul entities 8) (sat_mul subscribers 4))
           (sat_mul updates 2)) bytes) (sat_mul events 16)) (cl_tick_cost_units c))"

record station_load_sample =
  sl_station_id :: station_id
  sl_owned_entities :: usize
  sl_ghost_entities :: usize
  sl_subscribers :: usize
  sl_queued_events :: usize
  sl_estimated_bytes :: usize
  sl_tick_cost_units :: u64
  sl_cells :: "cell_load_sample list"

definition total_entities :: "station_load_sample \<Rightarrow> usize" where
  "total_entities s = (sl_owned_entities s + sl_ghost_entities s) mod 2 ^ 64"

definition max_cell_pressure :: "station_load_sample \<Rightarrow> u64" where
  "max_cell_pressure s = fold max (map pressure_score (sl_cells s)) 0"

record hotspot_thresholds =
  th_max_station_entities :: usize
  th_max_station_subscribers :: usize
  th_max_queued_events :: usize
  th_max_estimated_bytes :: usize
  th_max_tick_cost_units :: u64
  th_max_cell_pressure :: u64

definition default_thresholds :: hotspot_thresholds where
  "default_thresholds = \<lparr>th_max_station_entities = 50000, th_max_station_subscribers = 2000,
     th_max_queued_events = 10000, th_max_estimated_bytes = 67108864, th_max_tick_cost_units = 16000,
     th_max_cell_pressure = 10000\<rparr>"

datatype hotspot_severity = Normal | Warm | Hot

record hotspot_decision =
  hd_station_id :: station_id
  hd_severity :: hotspot_severity
  hd_score :: u64
  hd_reasons :: "string list"

definition raise_reason :: "bool \<Rightarrow> string \<Rightarrow> u64 \<times> string list \<Rightarrow> u64 \<times> string list" where
  "raise_reason over reason acc =
     (case acc of (score, reasons) \<Rightarrow> if over then (sat_add score 1, reasons @ [reason]) else (score, reasons))"

definition hotspot_evaluate :: "station_load_sample \<Rightarrow> hotspot_thresholds \<Rightarrow> hotspot_decision" where
  "hotspot_evaluate s th =
     (let acc = (0, []);
          acc = raise_reason (th_max_station_entities th < total_entities s) ''station_entities'' acc;
          acc = raise_reason (th_max_station_subscribers th < sl_subscribers s) ''station_subscribers'' acc;
          acc = raise_reason (th_max_queued_events th < sl_queued_events s) ''queued_events'' acc;
          acc = raise_reason (th_max_estimated_bytes th < sl_estimated_bytes s) ''estimated_bytes'' acc;
          acc = raise_reason (th_max_tick_cost_units th < sl_tick_cost_units s) ''tick_cost'' acc;
          acc = raise_reason (th_max_cell_pressure th < max_cell_pressure s) ''cell_pressure'' acc
      in \<lparr>hd_station_id = sl_station_id s,
          hd_severity = (if fst acc = 0 then Normal else if fst acc = 1 then Warm else Hot),
          hd_score = fst acc, hd_reasons = snd acc\<rparr>)"

record split_proposal =
  sp_source_station :: station_id
  sp_cells_to_move :: "cell_coord3 list"
  sp_moved_pressure_score :: u64

definition cell_sample_le :: "cell_load_sample \<Rightarrow> cell_load_sample \<Rightarrow> bool" where
  "cell_sample_le l r =
     (pressure_score r < pressure_score l \<or> pressure_score r = pressure_score l \<and> cl_cell l \<le> cl_cell r)"

text \<open>\<open>sel n xs\<close> stands for \<open>select_nth_unstable_by(n, compare)\<close>.\<close>

definition prioritize_cell_samples ::
  "(nat \<Rightarrow> cell_load_sample list \<Rightarrow> cell_load_sample list) \<Rightarrow> cell_load_sample list \<Rightarrow> usize \<Rightarrow> cell_load_sample list" where
  "prioritize_cell_samples sel cells selected =
     (if selected = 0 then cells
      else if usize_mul selected 2 < length cells
      then (let cells = sel selected cells in sort_by_le cell_sample_le (take selected cells) @ drop selected cells)
      else sort_by_le cell_sample_le cells)"

definition propose_cell_split ::
  "(nat \<Rightarrow> cell_load_sample list \<Rightarrow> cell_load_sample list) \<Rightarrow> station_load_sample \<Rightarrow> usize \<Rightarrow>
   cell_load_sample list \<times> split_proposal" where
  "propose_cell_split sel s max_cells_to_move =
     (let selected = min max_cells_to_move (length (sl_cells s));
          cells = prioritize_cell_samples sel (sl_cells s) selected
      in (cells, \<lparr>sp_source_station = sl_station_id s,
            sp_cells_to_move = map cl_cell (take selected cells),
            sp_moved_pressure_score = fold (\<lambda>c acc. sat_add acc (pressure_score c)) (take selected cells) 0\<rparr>))"

section \<open>The hottest cells\<close>

definition cell_rank :: "cell_load_sample \<Rightarrow> int \<times> cell_coord3" where
  "cell_rank c = (- uint (pressure_score c), cl_cell c)"

lemma cell_sample_le_rank: "cell_sample_le l r \<longleftrightarrow> cell_rank l \<le> cell_rank r"
  by (auto simp: cell_sample_le_def cell_rank_def less_eq_prod_def less_prod_def word_less_def word_uint_eq_iff)

lemma prioritize_cells_top:
  assumes "lawful_select cell_sample_le sel" "length cells \<le> usize_max" "selected \<le> length cells"
  shows "map cell_rank (take selected (prioritize_cell_samples sel cells selected)) =
      take selected (sort (map cell_rank cells)) \<and>
    length (prioritize_cell_samples sel cells selected) = length cells"
proof (cases "selected = 0")
  case True
  then show ?thesis by (simp add: prioritize_cell_samples_def)
next
  case False
  have sort: "sort_by_le cell_sample_le ys = sort_key cell_rank ys" for ys
    using sort_by_le_key [of cell_sample_le cell_rank] cell_sample_le_rank by blast
  show ?thesis
  proof (cases "usize_mul selected 2 < length cells")
    case True
    then have "min (2 * selected) usize_max < length cells" by (simp add: usize_mul_def mult.commute)
    then have "selected < length cells" using assms(2,3) False by (auto simp: min_def split: if_splits)
    from select_sort_top [of cell_sample_le cell_rank, OF cell_sample_le_rank assms(1) this] True False
    show ?thesis by (simp add: prioritize_cell_samples_def Let_def)
  next
    case full: False
    then show ?thesis using False
      by (simp add: prioritize_cell_samples_def sort take_map [symmetric] map_sort_key)
  qed
qed

lemma hotter_than_rest:
  assumes "k \<in> set (take n (sort (map cell_rank cells)))" "c \<in> set cells"
    "cell_rank c \<notin> set (take n (sort (map cell_rank cells)))"
  shows "fst k \<le> - uint (pressure_score c)"
proof -
  let ?ks = "sort (map cell_rank cells)"
  have "cell_rank c \<in> set ?ks" using assms(2) by simp
  then have "cell_rank c \<in> set (drop n ?ks)"
    using assms(3) by (metis Un_iff append_take_drop_id set_append)
  moreover have "sorted (take n ?ks @ drop n ?ks)" unfolding append_take_drop_id by (rule sorted_sort)
  ultimately have "k \<le> cell_rank c" using assms(1) unfolding sorted_append by blast
  then show ?thesis by (cases k) (auto simp: cell_rank_def)
qed

lemma fold_pressure:
  "fold (\<lambda>c acc. sat_add acc (pressure_score c)) cs a =
     fold (\<lambda>k acc. sat_add acc (word_of_int (- fst k))) (map cell_rank cs) a"
  by (induction cs arbitrary: a) (simp_all add: cell_rank_def)

section \<open>The classification\<close>

definition exceeded :: "station_load_sample \<Rightarrow> hotspot_thresholds \<Rightarrow> string list" where
  "exceeded s th = map fst (filter snd
     [(''station_entities'', th_max_station_entities th < total_entities s),
      (''station_subscribers'', th_max_station_subscribers th < sl_subscribers s),
      (''queued_events'', th_max_queued_events th < sl_queued_events s),
      (''estimated_bytes'', th_max_estimated_bytes th < sl_estimated_bytes s),
      (''tick_cost'', th_max_tick_cost_units th < sl_tick_cost_units s),
      (''cell_pressure'', \<exists>c \<in> set (sl_cells s). th_max_cell_pressure th < pressure_score c)])"

lemma less_fold_max: "x < fold max ys a \<longleftrightarrow> x < a \<or> (\<exists>y \<in> set ys. x < y)"
  for x :: "'a::linorder"
  by (induction ys arbitrary: a) (auto simp: less_max_iff_disj)

lemma max_cell_pressure_less: "t < max_cell_pressure s \<longleftrightarrow> (\<exists>c \<in> set (sl_cells s). t < pressure_score c)"
  by (simp add: max_cell_pressure_def less_fold_max)

lemma raise_reason_snd: "snd (raise_reason over r acc) = snd acc @ (if over then [r] else [])"
  by (simp add: raise_reason_def split: prod.splits)

lemma raise_reason_score:
  "fst acc = word_of_nat (length (snd acc)) \<Longrightarrow> length (snd acc) < 100 \<Longrightarrow>
   fst (raise_reason over r acc) = word_of_nat (length (snd (raise_reason over r acc)))"
proof -
  assume score: "fst acc = word_of_nat (length (snd acc))" "length (snd acc) < 100"
  have "unat (word_of_nat (length (snd acc)) :: u64) = length (snd acc)"
    using score(2) by (simp add: unat_of_nat)
  then have "sat_add (fst acc) 1 = word_of_nat (length (snd acc)) + 1"
    using score by (simp add: sat_add_def)
  then show ?thesis using score(1) by (auto simp: raise_reason_def add.commute split: prod.splits)
qed

lemma evaluate_reasons: "hd_reasons (hotspot_evaluate s th) = exceeded s th"
  unfolding hotspot_evaluate_def Let_def exceeded_def max_cell_pressure_less [symmetric]
  by (simp add: raise_reason_snd)

lemma evaluate_score:
  "hd_score (hotspot_evaluate s th) = word_of_nat (length (exceeded s th))"
  unfolding evaluate_reasons [symmetric] hotspot_evaluate_def Let_def
  by (simp, (rule raise_reason_score | simp add: raise_reason_snd)+)

lemma exceeded_length: "length (exceeded s th) \<le> 6"
  unfolding exceeded_def length_map by (rule order_trans [OF length_filter_le]) simp

text \<open>A station is normal, warm or hot exactly when none, one or several of its loads exceed their
  thresholds, and the reasons name precisely those. A split proposal moves the requested number of
  cells, the ones with the highest pressure (ties by coordinate): no cell left behind has more pressure
  than a moved one, for every lawful partial selection; the reported score is the saturating sum of the
  moved pressures.\<close>

theorem split_moves_hottest:
  assumes "lawful_select cell_sample_le sel" "length (sl_cells s) \<le> usize_max"
    "propose_cell_split sel s n = (scratch, proposal)"
    "moved = take (min n (length (sl_cells s))) (sort (map cell_rank (sl_cells s)))"
  shows "sp_cells_to_move proposal = map snd moved \<and>
    sp_moved_pressure_score proposal = fold (\<lambda>k acc. sat_add acc (word_of_int (- fst k))) moved 0 \<and>
    (\<forall>k \<in> set moved. \<forall>c \<in> set (sl_cells s). cell_rank c \<notin> set moved \<longrightarrow> unat (pressure_score c) \<le> nat (- fst k)) \<and>
    hd_reasons (hotspot_evaluate s th) = exceeded s th \<and>
    (hd_severity (hotspot_evaluate s th) = Normal \<longleftrightarrow> exceeded s th = []) \<and>
    (hd_severity (hotspot_evaluate s th) = Warm \<longleftrightarrow> length (exceeded s th) = 1)"
proof -
  let ?n = "min n (length (sl_cells s))"
  let ?cells = "prioritize_cell_samples sel (sl_cells s) ?n"
  have moved: "map cell_rank (take ?n ?cells) = moved"
    using prioritize_cells_top [OF assms(1,2), of ?n] assms(4) by simp
  have res: "sp_cells_to_move proposal = map cl_cell (take ?n ?cells)"
    "sp_moved_pressure_score proposal = fold (\<lambda>c acc. sat_add acc (pressure_score c)) (take ?n ?cells) 0"
    using assms(3) by (auto simp: propose_cell_split_def Let_def)
  have "map cl_cell (take ?n ?cells) = map snd (map cell_rank (take ?n ?cells))" by (simp add: cell_rank_def)
  then have cells: "sp_cells_to_move proposal = map snd moved" unfolding res(1) moved .
  have score: "sp_moved_pressure_score proposal = fold (\<lambda>k acc. sat_add acc (word_of_int (- fst k))) moved 0"
    unfolding res(2) fold_pressure moved by (rule refl)
  have hot: "unat (pressure_score c) \<le> nat (- fst k)"
    if "k \<in> set moved" "c \<in> set (sl_cells s)" "cell_rank c \<notin> set moved" for k c
  proof -
    have "fst k \<le> - uint (pressure_score c)"
      using that(1,3) unfolding assms(4) by (intro hotter_than_rest [OF _ that(2)])
    then have "uint (pressure_score c) \<le> - fst k" by linarith
    then show ?thesis unfolding unat_eq_nat_uint by (rule nat_mono)
  qed
  have sev: "hd_severity (hotspot_evaluate s th) =
      (if hd_score (hotspot_evaluate s th) = 0 then Normal else if hd_score (hotspot_evaluate s th) = 1 then Warm else Hot)"
    by (simp add: hotspot_evaluate_def Let_def)
  have "unat (word_of_nat (length (exceeded s th)) :: u64) = length (exceeded s th)"
    using exceeded_length [of s th] by (simp add: unat_of_nat)
  then have "hd_score (hotspot_evaluate s th) = 0 \<longleftrightarrow> exceeded s th = []"
    "hd_score (hotspot_evaluate s th) = 1 \<longleftrightarrow> length (exceeded s th) = 1"
    unfolding evaluate_score by (simp_all add: word_unat_eq_iff)
  then have "hd_severity (hotspot_evaluate s th) = Normal \<longleftrightarrow> exceeded s th = []"
    "hd_severity (hotspot_evaluate s th) = Warm \<longleftrightarrow> length (exceeded s th) = 1"
    unfolding sev by (simp_all add: evaluate_score)
  with cells score hot evaluate_reasons show ?thesis by blast
qed

theorem split_moves_hottest_witness:
  "\<exists>scratch proposal. propose_cell_split (\<lambda>n. sort_key cell_rank)
     \<lparr>sl_station_id = 1, sl_owned_entities = 3, sl_ghost_entities = 0, sl_subscribers = 0, sl_queued_events = 0,
      sl_estimated_bytes = 0, sl_tick_cost_units = 0,
      sl_cells = [\<lparr>cl_cell = CellCoord3 4 0 0, cl_owned_entities = 3, cl_ghost_entities = 0, cl_subscribers = 0,
        cl_estimated_updates = 0, cl_estimated_bytes = 0, cl_tick_cost_units = 0, cl_event_pressure = 0\<rparr>]\<rparr> 1 = (scratch, proposal) \<and>
     sp_cells_to_move proposal = [CellCoord3 4 0 0]"
  (is "\<exists>scratch proposal. propose_cell_split ?sel ?s 1 = (scratch, proposal) \<and> _")
proof -
  obtain scratch proposal where run: "propose_cell_split ?sel ?s 1 = (scratch, proposal)" by fastforce
  have law: "lawful_select cell_sample_le ?sel" by (rule lawful_select_sorting) (rule cell_sample_le_rank)
  have "length (sl_cells ?s) \<le> usize_max" by (simp add: usize_max_def)
  from split_moves_hottest [OF law this run refl] run show ?thesis by (simp add: cell_rank_def)
qed

end
