(* ===== verification/Component_Schema.thy ===== *)
theory Component_Schema
  imports Codec Spatial Entities
begin

text \<open>
  Component descriptors, codecs, generated schemas and the registry
  (\<open>crates/sectorsync-core/src/component.rs\<close>, first half). A codec trait object is a record of its
  three methods; the locale \<open>value_codec\<close> states what the component store relies on and is
  interpreted on the three built-in codecs. A \<open>&'static str\<close> is the sequence of its UTF-8 bytes,
  written as a string with one character per byte.
\<close>

section \<open>Codecs\<close>

datatype codec_error = ExpectedBytes usize usize

record 'a component_codec =
  cc_encode :: "'a \<Rightarrow> bytes \<Rightarrow> (codec_error + unit) \<times> bytes"
  cc_decode :: "bytes \<Rightarrow> codec_error + 'a"
  cc_fixed_size :: "usize option"

definition exact_array :: "usize \<Rightarrow> bytes \<Rightarrow> codec_error + bytes" where
  "exact_array n input =
     (if length input \<noteq> n then Err (ExpectedBytes n (length input)) else Ok input)"

definition u32_le_codec :: "u32 component_codec" where
  "u32_le_codec =
     \<lparr>cc_encode = (\<lambda>v out. (Ok (), out @ to_le 4 v)),
      cc_decode = (\<lambda>input. and_then (exact_array 4 input) (\<lambda>bs. Ok (from_le bs))),
      cc_fixed_size = Some 4\<rparr>"

definition f32_le_codec :: "f32 component_codec" where
  "f32_le_codec =
     \<lparr>cc_encode = (\<lambda>v out. (Ok (), out @ to_le 4 v)),
      cc_decode = (\<lambda>input. and_then (exact_array 4 input) (\<lambda>bs. Ok (from_le bs))),
      cc_fixed_size = Some 4\<rparr>"

definition vec3_le_codec :: "vec3 component_codec" where
  "vec3_le_codec =
     \<lparr>cc_encode = (\<lambda>v out. (Ok (), ((out @ to_le 4 (vx v)) @ to_le 4 (vy v)) @ to_le 4 (vz v))),
      cc_decode = (\<lambda>input.
        if length input \<noteq> 12 then Err (ExpectedBytes 12 (length input))
        else Ok \<lparr>vx = from_le (take 4 input), vy = from_le (take 4 (drop 4 input)),
                 vz = from_le (take 4 (drop 8 input))\<rparr>),
      cc_fixed_size = Some 12\<rparr>"

text \<open>The bytes a codec appends for a value.\<close>

definition encoding :: "'a component_codec \<Rightarrow> 'a \<Rightarrow> bytes" where
  "encoding c v = snd (cc_encode c v [])"

locale value_codec =
  fixes cdc :: "'a component_codec"
  assumes encode_appends: "cc_encode cdc v out = (Ok (), out @ encoding cdc v)"
    and decode_encoding: "cc_decode cdc (encoding cdc v) = Ok v"
    and decode_only_encoding: "cc_decode cdc bs = Ok v \<Longrightarrow> bs = encoding cdc v"
    and encoding_size: "cc_fixed_size cdc = Some n \<Longrightarrow> length (encoding cdc v) = n"
begin

lemma encoding_inj: "encoding cdc v = encoding cdc w \<longleftrightarrow> v = w"
  using decode_encoding by (metis sum.inject(2))

lemma decode_iff: "cc_decode cdc bs = Ok v \<longleftrightarrow> bs = encoding cdc v"
  using decode_encoding decode_only_encoding by auto

lemma encode_fresh: "cc_encode cdc v [] = (Ok (), encoding cdc v)"
  by (simp add: encode_appends)

end

lemma encodings:
  "encoding u32_le_codec v = to_le 4 v" "encoding f32_le_codec f = to_le 4 f"
  "encoding vec3_le_codec p = to_le 4 (vx p) @ to_le 4 (vy p) @ to_le 4 (vz p)"
  by (simp_all add: encoding_def u32_le_codec_def f32_le_codec_def vec3_le_codec_def)

lemma from_le_4: "from_le (to_le 4 w) = (w :: u32)"
  by (rule from_le_to_le) simp

lemma to_le_4: "length bs = 4 \<Longrightarrow> to_le 4 (from_le bs :: u32) = bs"
  using to_le_from_le [of bs, where 'a = 32] by simp

interpretation u32_value: value_codec u32_le_codec
  by unfold_locales
    (auto simp: u32_le_codec_def encodings exact_array_def from_le_4 to_le_4 encoding_def
        split: if_splits)

interpretation f32_value: value_codec f32_le_codec
  by unfold_locales
    (auto simp: f32_le_codec_def encodings exact_array_def from_le_4 to_le_4 encoding_def
        split: if_splits)

interpretation vec3_value: value_codec vec3_le_codec
proof unfold_locales
  fix v :: vec3 and out bs n
  show "cc_encode vec3_le_codec v out = (Ok (), out @ encoding vec3_le_codec v)"
    by (simp add: encodings) (simp add: vec3_le_codec_def)
  show "cc_decode vec3_le_codec (encoding vec3_le_codec v) = Ok v"
    by (simp add: encodings) (simp add: vec3_le_codec_def from_le_4)
  show "cc_fixed_size vec3_le_codec = Some n \<Longrightarrow> length (encoding vec3_le_codec v) = n"
    by (simp add: encodings) (simp add: vec3_le_codec_def)
  assume "cc_decode vec3_le_codec bs = Ok v"
  then have len: "length bs = 12" and v: "v = \<lparr>vx = from_le (take 4 bs), vy = from_le (take 4 (drop 4 bs)),
      vz = from_le (take 4 (drop 8 bs))\<rparr>"
    by (auto simp: vec3_le_codec_def split: if_splits)
  have "bs = take 4 bs @ take 4 (drop 4 bs) @ drop 8 bs"
    by (metis add_numeral_left append_take_drop_id drop_drop numeral_Bit0 numeral_code(2))
  then show "bs = encoding vec3_le_codec v"
    using len by (simp add: encodings v to_le_4)
qed

section \<open>Descriptors and generated schemas\<close>

datatype storage_kind = SparseBlob | ExternalStorage
datatype sync_mode = NotReplicated | SyncDelta | SyncSnapshot | EventOnly
datatype migration_mode = MigrateCopy | MigrateDrop | MigrateExternal

record component_descriptor =
  cd_id :: component_id
  cd_name :: string
  cd_storage :: storage_kind
  cd_sync :: sync_mode
  cd_migration :: migration_mode
  cd_max_bytes :: usize
  cd_schema_hash :: u64

definition sparse_blob ::
  "component_id \<Rightarrow> string \<Rightarrow> sync_mode \<Rightarrow> migration_mode \<Rightarrow> usize \<Rightarrow> component_descriptor" where
  "sparse_blob i name sync migration max_bytes =
     \<lparr>cd_id = i, cd_name = name, cd_storage = SparseBlob, cd_sync = sync, cd_migration = migration,
      cd_max_bytes = max_bytes, cd_schema_hash = 0\<rparr>"

definition with_schema_hash :: "component_descriptor \<Rightarrow> u64 \<Rightarrow> component_descriptor" where
  "with_schema_hash d h = d\<lparr>cd_schema_hash := h\<rparr>"

record component_schema =
  cs_descriptor :: component_descriptor
  cs_fixed_size :: "usize option"

definition component_schema_new :: "component_descriptor \<Rightarrow> 'a component_codec \<Rightarrow> component_schema" where
  "component_schema_new d c = \<lparr>cs_descriptor = d, cs_fixed_size = cc_fixed_size c\<rparr>"

datatype field_type = FU8 | FU16 | FU32 | FU64 | FI32 | FF32 | FVec3 | FBytes usize

fun field_max_size :: "field_type \<Rightarrow> usize" where
  "field_max_size FU8 = 1"
| "field_max_size FU16 = 2"
| "field_max_size FU32 = 4"
| "field_max_size FI32 = 4"
| "field_max_size FF32 = 4"
| "field_max_size FU64 = 8"
| "field_max_size FVec3 = 12"
| "field_max_size (FBytes max_len) = max_len"

fun field_tag :: "field_type \<Rightarrow> u8" where
  "field_tag FU8 = 1"
| "field_tag FU16 = 2"
| "field_tag FU32 = 3"
| "field_tag FU64 = 4"
| "field_tag FI32 = 5"
| "field_tag FF32 = 6"
| "field_tag FVec3 = 7"
| "field_tag (FBytes _) = 8"

record field_descriptor =
  fd_name :: string
  fd_ty :: field_type
  fd_offset :: usize

definition end_offset :: "field_descriptor \<Rightarrow> usize" where
  "end_offset f = usize_add (fd_offset f) (field_max_size (fd_ty f))"

record generated_schema =
  gs_id :: component_id
  gs_name :: string
  gs_storage :: storage_kind
  gs_sync :: sync_mode
  gs_migration :: migration_mode
  gs_max_bytes :: usize
  gs_fields :: "field_descriptor list"

datatype schema_error =
    DuplicateFieldName string
  | FieldOutOfBounds string usize usize usize
  | FieldOverlap string string

definition ranges_overlap :: "usize \<Rightarrow> usize \<Rightarrow> usize \<Rightarrow> usize \<Rightarrow> bool" where
  "ranges_overlap left_start left_end right_start right_end \<longleftrightarrow>
     left_start < right_end \<and> right_start < left_end"

text \<open>The inner loop of \<open>validate\<close>: one field against the earlier ones, in order.\<close>

fun check_earlier :: "field_descriptor \<Rightarrow> field_descriptor list \<Rightarrow> schema_error + unit" where
  "check_earlier f [] = Ok ()"
| "check_earlier f (e # es) =
     (if fd_name e = fd_name f then Err (DuplicateFieldName (fd_name f))
      else if ranges_overlap (fd_offset e) (end_offset e) (fd_offset f) (end_offset f)
      then Err (FieldOverlap (fd_name e) (fd_name f))
      else check_earlier f es)"

text \<open>The outer loop: \<open>earlier\<close> is the slice before the current field.\<close>

fun validate_fields :: "usize \<Rightarrow> field_descriptor list \<Rightarrow> field_descriptor list \<Rightarrow> schema_error + unit" where
  "validate_fields max_bytes earlier [] = Ok ()"
| "validate_fields max_bytes earlier (f # fs) =
     (if end_offset f > max_bytes
      then Err (FieldOutOfBounds (fd_name f) (fd_offset f) (field_max_size (fd_ty f)) max_bytes)
      else and_then (check_earlier f earlier) (\<lambda>_. validate_fields max_bytes (earlier @ [f]) fs))"

definition schema_validate :: "generated_schema \<Rightarrow> schema_error + unit" where
  "schema_validate s = validate_fields (gs_max_bytes s) [] (gs_fields s)"

definition schema_fixed_size :: "generated_schema \<Rightarrow> usize option" where
  "schema_fixed_size s =
     (case map end_offset (gs_fields s) of [] \<Rightarrow> Some 0 | e # es \<Rightarrow> Some (fold max es e))"

section \<open>The schema hash\<close>

definition FNV_OFFSET :: u64 where "FNV_OFFSET = 0xcbf29ce484222325"
definition FNV_PRIME :: u64 where "FNV_PRIME = 0x00000100000001b3"

definition hash_u8 :: "u64 \<Rightarrow> u8 \<Rightarrow> u64" where
  "hash_u8 hash v = (hash XOR ucast v) * FNV_PRIME"

definition hash_u64 :: "u64 \<Rightarrow> u64 \<Rightarrow> u64" where
  "hash_u64 hash v = foldl hash_u8 hash (to_le 8 v)"

definition str_bytes :: "string \<Rightarrow> bytes" where
  "str_bytes s = map of_char s"

definition hash_str :: "u64 \<Rightarrow> string \<Rightarrow> u64" where
  "hash_str hash s = hash_u8 (foldl hash_u8 hash (str_bytes s)) 0"

fun storage_tag :: "storage_kind \<Rightarrow> u8" where
  "storage_tag SparseBlob = 1"
| "storage_tag ExternalStorage = 2"

fun sync_tag :: "sync_mode \<Rightarrow> u8" where
  "sync_tag NotReplicated = 0"
| "sync_tag SyncDelta = 1"
| "sync_tag SyncSnapshot = 2"
| "sync_tag EventOnly = 3"

fun migration_tag :: "migration_mode \<Rightarrow> u8" where
  "migration_tag MigrateCopy = 1"
| "migration_tag MigrateDrop = 2"
| "migration_tag MigrateExternal = 3"

definition hash_field :: "u64 \<Rightarrow> field_descriptor \<Rightarrow> u64" where
  "hash_field hash f =
     (let hash = hash_str hash (fd_name f);
          hash = hash_u8 hash (field_tag (fd_ty f));
          hash = hash_u64 hash (of_nat (field_max_size (fd_ty f)))
      in hash_u64 hash (of_nat (fd_offset f)))"

definition schema_hash :: "generated_schema \<Rightarrow> u64" where
  "schema_hash s =
     (let hash = FNV_OFFSET;
          hash = hash_u64 hash (ucast (gs_id s));
          hash = hash_str hash (gs_name s);
          hash = hash_u8 hash (storage_tag (gs_storage s));
          hash = hash_u8 hash (sync_tag (gs_sync s));
          hash = hash_u8 hash (migration_tag (gs_migration s));
          hash = hash_u64 hash (of_nat (gs_max_bytes s))
      in foldl hash_field hash (gs_fields s))"

definition schema_descriptor :: "generated_schema \<Rightarrow> component_descriptor" where
  "schema_descriptor s =
     \<lparr>cd_id = gs_id s, cd_name = gs_name s, cd_storage = gs_storage s, cd_sync = gs_sync s,
      cd_migration = gs_migration s, cd_max_bytes = gs_max_bytes s, cd_schema_hash = schema_hash s\<rparr>"

definition schema_component :: "generated_schema \<Rightarrow> component_schema" where
  "schema_component s = \<lparr>cs_descriptor = schema_descriptor s, cs_fixed_size = schema_fixed_size s\<rparr>"

section \<open>The registry\<close>

datatype registry_error = DuplicateId component_id | DuplicateName string
datatype registration_error = SchemaError schema_error | RegistryError registry_error

record component_registry =
  cr_descriptors :: "component_descriptor option list"

definition registry_new :: component_registry where
  "registry_new = \<lparr>cr_descriptors = []\<rparr>"

definition registry_get :: "component_registry \<Rightarrow> component_id \<Rightarrow> component_descriptor option" where
  "registry_get r i = Option.bind (vec_get (cr_descriptors r) (unat i)) (\<lambda>d. d)"

definition registry_iter :: "component_registry \<Rightarrow> component_descriptor list" where
  "registry_iter r = List.map_filter (\<lambda>d. d) (cr_descriptors r)"

definition registry_len :: "component_registry \<Rightarrow> usize" where
  "registry_len r = length (registry_iter r)"

definition registry_register ::
  "component_registry \<Rightarrow> component_descriptor \<Rightarrow> (registry_error + unit) \<times> component_registry" where
  "registry_register r d =
     (if registry_get r (cd_id d) \<noteq> None then (Err (DuplicateId (cd_id d)), r)
      else if list_ex (\<lambda>e. cd_name e = cd_name d) (registry_iter r)
      then (Err (DuplicateName (cd_name d)), r)
      else let index = unat (cd_id d);
               ds = (if length (cr_descriptors r) \<le> index
                     then vec_resize (cr_descriptors r) (index + 1) None else cr_descriptors r)
           in (Ok (), r\<lparr>cr_descriptors := ds[index := Some d]\<rparr>))"

definition register_generated_schema ::
  "component_registry \<Rightarrow> generated_schema \<Rightarrow> (registration_error + component_schema) \<times> component_registry" where
  "register_generated_schema r s =
     (case map_err SchemaError (schema_validate s) of
        Inl e \<Rightarrow> (Err e, r)
      | Inr _ \<Rightarrow>
          let cs = schema_component s in
          (case registry_register r (cs_descriptor cs) of
             (res, r') \<Rightarrow> (and_then (map_err RegistryError res) (\<lambda>_. Ok cs), r')))"

section \<open>What validation decides\<close>

definition field_range :: "field_descriptor \<Rightarrow> nat set" where
  "field_range f = {fd_offset f ..< fd_offset f + field_max_size (fd_ty f)}"

definition compatible :: "field_descriptor \<Rightarrow> field_descriptor \<Rightarrow> bool" where
  "compatible e f \<longleftrightarrow> fd_name e \<noteq> fd_name f \<and>
     \<not> ranges_overlap (fd_offset e) (end_offset e) (fd_offset f) (end_offset f)"

lemma check_earlier_Ok: "check_earlier f es = Ok () \<longleftrightarrow> (\<forall>e \<in> set es. compatible e f)"
  by (induction es) (auto simp: compatible_def)

lemma validate_fields_Ok:
  "validate_fields m es fs = Ok () \<longleftrightarrow>
     (\<forall>f \<in> set fs. end_offset f \<le> m) \<and> (\<forall>e \<in> set es. \<forall>f \<in> set fs. compatible e f) \<and>
     sorted_wrt compatible fs"
  by (induction m es fs rule: validate_fields.induct) (auto simp: and_then_Ok_iff check_earlier_Ok)

lemma schema_validate_Ok:
  "schema_validate s = Ok () \<longleftrightarrow>
     (\<forall>f \<in> set (gs_fields s). end_offset f \<le> gs_max_bytes s) \<and> sorted_wrt compatible (gs_fields s)"
  by (simp add: schema_validate_def validate_fields_Ok)

lemma end_offset_exact:
  "m < usize_max \<Longrightarrow> end_offset f \<le> m \<longleftrightarrow> fd_offset f + field_max_size (fd_ty f) \<le> m"
  "end_offset f < usize_max \<Longrightarrow> end_offset f = fd_offset f + field_max_size (fd_ty f)"
  by (auto simp: end_offset_def usize_add_def)

lemma overlap_ranges:
  assumes "end_offset e < usize_max" "end_offset f < usize_max"
    and "0 < field_max_size (fd_ty e)" "0 < field_max_size (fd_ty f)"
  shows "ranges_overlap (fd_offset e) (end_offset e) (fd_offset f) (end_offset f) \<longleftrightarrow>
    field_range e \<inter> field_range f \<noteq> {}"
  using assms(3,4) end_offset_exact(2) [OF assms(1)] end_offset_exact(2) [OF assms(2)]
  by (auto simp: ranges_overlap_def field_range_def disjoint_iff not_less)

lemma sorted_wrt_conj: "sorted_wrt (\<lambda>x y. P x y \<and> Q x y) xs \<longleftrightarrow> sorted_wrt P xs \<and> sorted_wrt Q xs"
  by (induction xs) auto

lemma sorted_wrt_distinct_map: "sorted_wrt (\<lambda>x y. f x \<noteq> f y) xs \<longleftrightarrow> distinct (map f xs)"
  by (induction xs) auto

lemma sorted_wrt_cong_set:
  "(\<And>x y. x \<in> set xs \<Longrightarrow> y \<in> set xs \<Longrightarrow> P x y \<longleftrightarrow> Q x y) \<Longrightarrow> sorted_wrt P xs \<longleftrightarrow> sorted_wrt Q xs"
  by (induction xs) auto

lemma disjoint_sizes:
  assumes "sorted_wrt (\<lambda>e f. field_range e \<inter> field_range f = {}) fs"
  shows "sum_list (map (\<lambda>f. field_max_size (fd_ty f)) fs) = card (\<Union> (field_range ` set fs))"
  using assms
proof (induction fs)
  case (Cons f fs)
  have "card (field_range f \<union> \<Union> (field_range ` set fs)) =
      card (field_range f) + card (\<Union> (field_range ` set fs))"
    by (rule card_Un_disjoint) (use Cons.prems in \<open>auto simp: field_range_def\<close>)
  then show ?case using Cons by (simp add: field_range_def)
qed simp

lemma schema_fixed_size_bound:
  "\<exists>n. schema_fixed_size s = Some n \<and> (\<forall>f \<in> set (gs_fields s). end_offset f \<le> n) \<and>
     (n = 0 \<or> (\<exists>f \<in> set (gs_fields s). end_offset f = n))"
proof (cases "gs_fields s")
  case (Cons f fs)
  have "fold max es e = Max (set (e # es))" for es and e :: nat
    by (metis Max.set_eq_fold)
  then have "schema_fixed_size s = Some (Max (end_offset ` set (gs_fields s)))"
    by (simp add: schema_fixed_size_def Cons)
  moreover have "Max (end_offset ` set (gs_fields s)) \<in> end_offset ` set (gs_fields s)"
    by (rule Max_in) (simp_all add: Cons)
  moreover have "end_offset g \<le> Max (end_offset ` set (gs_fields s))" if "g \<in> set (gs_fields s)" for g
    using that by (intro Max_ge) simp_all
  ultimately show ?thesis by auto
qed (simp add: schema_fixed_size_def)

definition layout_ok :: "generated_schema \<Rightarrow> bool" where
  "layout_ok s \<longleftrightarrow>
     (\<forall>f \<in> set (gs_fields s). field_range f \<subseteq> {..<gs_max_bytes s}) \<and>
     distinct (map fd_name (gs_fields s)) \<and>
     sorted_wrt (\<lambda>e f. field_range e \<inter> field_range f = {}) (gs_fields s)"

lemma layout_ok_sizes:
  assumes "layout_ok s" "\<forall>f \<in> set (gs_fields s). fd_offset f + field_max_size (fd_ty f) \<le> n"
  shows "sum_list (map (\<lambda>f. field_max_size (fd_ty f)) (gs_fields s)) \<le> n"
proof -
  have "\<Union> (field_range ` set (gs_fields s)) \<subseteq> {..<n}"
  proof
    fix k assume "k \<in> \<Union> (field_range ` set (gs_fields s))"
    then obtain f where f: "f \<in> set (gs_fields s)" "k < fd_offset f + field_max_size (fd_ty f)"
      by (auto simp: field_range_def)
    then show "k \<in> {..<n}" using assms(2) f by fastforce
  qed
  then have "card (\<Union> (field_range ` set (gs_fields s))) \<le> n"
    using card_mono [of "{..<n}"] by fastforce
  then show ?thesis using assms(1) by (simp add: disjoint_sizes layout_ok_def)
qed

lemma field_range_bounded:
  "0 < field_max_size (fd_ty f) \<Longrightarrow>
     field_range f \<subseteq> {..<m} \<longleftrightarrow> fd_offset f + field_max_size (fd_ty f) \<le> m"
  by (simp add: field_range_def lessThan_atLeast0 del: atLeast0LessThan)

lemma validate_iff_layout:
  assumes m: "gs_max_bytes s < usize_max" and pos: "\<forall>f \<in> set (gs_fields s). 0 < field_max_size (fd_ty f)"
  shows "schema_validate s = Ok () \<longleftrightarrow> layout_ok s"
proof -
  let ?fs = "gs_fields s"
  have bounds: "(\<forall>f \<in> set ?fs. end_offset f \<le> gs_max_bytes s) \<longleftrightarrow>
      (\<forall>f \<in> set ?fs. field_range f \<subseteq> {..<gs_max_bytes s})"
    using m pos by (simp add: end_offset_exact field_range_bounded)
  have "sorted_wrt compatible ?fs \<longleftrightarrow> distinct (map fd_name ?fs) \<and>
      sorted_wrt (\<lambda>e f. field_range e \<inter> field_range f = {}) ?fs"
    if ends: "\<forall>f \<in> set ?fs. end_offset f \<le> gs_max_bytes s"
  proof -
    have "end_offset f < usize_max" if "f \<in> set ?fs" for f
      using that ends m by fastforce
    then have "sorted_wrt compatible ?fs \<longleftrightarrow>
        sorted_wrt (\<lambda>e f. fd_name e \<noteq> fd_name f \<and> field_range e \<inter> field_range f = {}) ?fs"
      using pos by (intro sorted_wrt_cong_set) (simp add: compatible_def overlap_ranges)
    then show ?thesis by (simp add: sorted_wrt_conj sorted_wrt_distinct_map)
  qed
  then show ?thesis using bounds by (auto simp: schema_validate_Ok layout_ok_def)
qed

text \<open>A generated schema validates exactly when its layout is sound: every field lies inside the
  declared maximum, no two fields share a name, and no byte belongs to two fields. The declared
  fixed size is then large enough for all the fields together and within the maximum. (For a
  maximum below the largest machine integer and fields that are not empty.)\<close>

theorem validate_decides_layout:
  assumes "gs_max_bytes s < usize_max" "\<forall>f \<in> set (gs_fields s). 0 < field_max_size (fd_ty f)"
  shows "(schema_validate s = Ok () \<longleftrightarrow> layout_ok s) \<and>
    (schema_validate s = Ok () \<longrightarrow>
      (\<exists>n. schema_fixed_size s = Some n \<and> n \<le> gs_max_bytes s \<and>
        sum_list (map (\<lambda>f. field_max_size (fd_ty f)) (gs_fields s)) \<le> n))"
proof (intro conjI impI)
  show "schema_validate s = Ok () \<longleftrightarrow> layout_ok s" by (rule validate_iff_layout [OF assms])
  assume ok: "schema_validate s = Ok ()"
  then have ends: "\<forall>f \<in> set (gs_fields s). end_offset f \<le> gs_max_bytes s"
    by (simp add: schema_validate_Ok)
  obtain n where n: "schema_fixed_size s = Some n" "n = 0 \<or> (\<exists>f \<in> set (gs_fields s). end_offset f = n)"
    using schema_fixed_size_bound [of s] by blast
  have "layout_ok s" using ok validate_iff_layout [OF assms] by simp
  moreover have "\<forall>f \<in> set (gs_fields s). fd_offset f + field_max_size (fd_ty f) \<le> n"
  proof
    fix f assume f: "f \<in> set (gs_fields s)"
    then have "end_offset f \<le> n" "end_offset f < usize_max"
      using schema_fixed_size_bound [of s] n(1) ends assms(1) by auto
    then show "fd_offset f + field_max_size (fd_ty f) \<le> n" using end_offset_exact(2) by simp
  qed
  ultimately have "sum_list (map (\<lambda>f. field_max_size (fd_ty f)) (gs_fields s)) \<le> n"
    by (rule layout_ok_sizes)
  then show "\<exists>n. schema_fixed_size s = Some n \<and> n \<le> gs_max_bytes s \<and>
      sum_list (map (\<lambda>f. field_max_size (fd_ty f)) (gs_fields s)) \<le> n"
    using n ends by auto
qed

definition demo_schema :: generated_schema where
  "demo_schema =
     \<lparr>gs_id = 7, gs_name = ''pose'', gs_storage = SparseBlob, gs_sync = SyncDelta,
      gs_migration = MigrateCopy, gs_max_bytes = 20,
      gs_fields = [\<lparr>fd_name = ''pos'', fd_ty = FVec3, fd_offset = 4\<rparr>,
                   \<lparr>fd_name = ''hp'', fd_ty = FU16, fd_offset = 0\<rparr>]\<rparr>"

theorem validate_decides_layout_witness:
  "schema_validate demo_schema = Ok () \<and> layout_ok demo_schema \<and>
   (\<exists>n. schema_fixed_size demo_schema = Some n \<and> n \<le> 20 \<and> 14 \<le> n)"
proof -
  have prem: "gs_max_bytes demo_schema < usize_max"
    "\<forall>f \<in> set (gs_fields demo_schema). 0 < field_max_size (fd_ty f)"
    by (simp_all add: demo_schema_def usize_max_def)
  have ok: "schema_validate demo_schema = Ok ()"
    by (simp add: schema_validate_def demo_schema_def end_offset_def usize_add_def usize_max_def
        ranges_overlap_def)
  show ?thesis using validate_decides_layout [OF prem] ok by (simp add: demo_schema_def)
qed

section \<open>What the hash distinguishes\<close>

text \<open>The byte string whose FNV-1a hash is the schema hash.\<close>

definition name_bytes :: "string \<Rightarrow> bytes" where
  "name_bytes s = str_bytes s @ [0]"

definition usize_bytes :: "usize \<Rightarrow> bytes" where
  "usize_bytes n = to_le 8 (of_nat n :: u64)"

definition field_bytes :: "field_descriptor \<Rightarrow> bytes" where
  "field_bytes f =
     name_bytes (fd_name f) @ [field_tag (fd_ty f)] @ usize_bytes (field_max_size (fd_ty f)) @
     usize_bytes (fd_offset f)"

definition schema_bytes :: "generated_schema \<Rightarrow> bytes" where
  "schema_bytes s =
     to_le 8 (ucast (gs_id s) :: u64) @ name_bytes (gs_name s) @
     [storage_tag (gs_storage s), sync_tag (gs_sync s), migration_tag (gs_migration s)] @
     usize_bytes (gs_max_bytes s) @ concat (map field_bytes (gs_fields s))"

lemma hash_field_foldl: "hash_field h f = foldl hash_u8 h (field_bytes f)"
  by (simp add: hash_field_def field_bytes_def hash_str_def hash_u64_def name_bytes_def usize_bytes_def
      del: to_le.simps)

lemma hash_fields_foldl: "foldl hash_field h fs = foldl hash_u8 h (concat (map field_bytes fs))"
  by (induction fs arbitrary: h) (simp_all add: hash_field_foldl)

lemma schema_hash_foldl: "schema_hash s = foldl hash_u8 FNV_OFFSET (schema_bytes s)"
  by (simp add: schema_hash_def schema_bytes_def hash_str_def hash_u64_def hash_fields_foldl
      name_bytes_def usize_bytes_def del: to_le.simps)

text \<open>The prime is odd, hence invertible, so a hash step loses nothing.\<close>

lemma FNV_PRIME_inverse: "FNV_PRIME * 14886173955864302971 = 1"
  by (simp add: FNV_PRIME_def)

lemma FNV_PRIME_cancel: "a * FNV_PRIME = b * FNV_PRIME \<longleftrightarrow> a = b"
proof
  assume "a * FNV_PRIME = b * FNV_PRIME"
  then have "a * (FNV_PRIME * 14886173955864302971) = b * (FNV_PRIME * 14886173955864302971)"
    by (simp only: mult.assoc [symmetric])
  then show "a = b" by (simp only: FNV_PRIME_inverse mult_1_right)
qed simp

lemma ucast_widen_inj:
  fixes a b :: "'a::len word"
  assumes "LENGTH('a) \<le> LENGTH('b)"
  shows "(ucast a :: 'b::len word) = ucast b \<longleftrightarrow> a = b"
proof -
  have "ucast (ucast w :: 'b word) = w" for w :: "'a word"
    using assms by (intro bit_word_eqI) (auto simp: bit_ucast_iff)
  then show ?thesis by metis
qed

lemma xor_cancel: "h XOR a = h XOR b \<longleftrightarrow> a = b" "a XOR h = b XOR h \<longleftrightarrow> a = b" for a b h :: u64
proof -
  have "h XOR (h XOR w) = w" for w by (simp add: xor.assoc [symmetric])
  then show "h XOR a = h XOR b \<longleftrightarrow> a = b" by metis
  then show "a XOR h = b XOR h \<longleftrightarrow> a = b" by (simp add: xor.commute)
qed

lemma hash_u8_inj: "hash_u8 h a = hash_u8 h b \<longleftrightarrow> a = b" "hash_u8 g a = hash_u8 h a \<longleftrightarrow> g = h"
  by (simp_all add: hash_u8_def FNV_PRIME_cancel xor_cancel ucast_widen_inj)

lemma hash_bytes_inj: "foldl hash_u8 g bs = foldl hash_u8 h bs \<longleftrightarrow> g = h"
  by (induction bs arbitrary: g h) (simp_all add: hash_u8_inj)

lemma hash_one_byte:
  assumes "i < length bs" "b \<noteq> bs ! i"
  shows "foldl hash_u8 h (bs[i := b]) \<noteq> foldl hash_u8 h bs"
proof -
  have 1: "bs[i := b] = take i bs @ b # drop (Suc i) bs"
    using assms(1) by (rule upd_conv_take_nth_drop)
  have 2: "bs = take i bs @ bs ! i # drop (Suc i) bs" using assms(1) by (rule id_take_nth_drop)
  have "foldl hash_u8 h (take i bs @ b # drop (Suc i) bs) \<noteq>
      foldl hash_u8 h (take i bs @ bs ! i # drop (Suc i) bs)"
    using assms(2) by (simp add: hash_bytes_inj hash_u8_inj)
  then show ?thesis using 1 2 by simp
qed

section \<open>Parsing the hashed bytes back\<close>

definition plain_name :: "string \<Rightarrow> bool" where
  "plain_name s \<longleftrightarrow> list_all (\<lambda>c. c \<noteq> CHR 0x00) s"

definition plain_field :: "field_descriptor \<Rightarrow> bool" where
  "plain_field f \<longleftrightarrow> plain_name (fd_name f) \<and> field_max_size (fd_ty f) \<le> usize_max \<and> fd_offset f \<le> usize_max"

definition plain_schema :: "generated_schema \<Rightarrow> bool" where
  "plain_schema s \<longleftrightarrow> plain_name (gs_name s) \<and> gs_max_bytes s \<le> usize_max \<and> list_all plain_field (gs_fields s)"

lemma unat_of_char: "unat (of_char c :: u8) = of_char c"
proof -
  have "(of_char c :: u8) = of_nat (of_char c)" by (simp only: of_nat_of_char)
  then have "unat (of_char c :: u8) = of_char c mod 2 ^ LENGTH(8)" by (simp only: unat_of_nat)
  then show ?thesis by simp
qed

lemma of_char_u8_inj: "(of_char c :: u8) = of_char d \<longleftrightarrow> c = d"
  by (metis unat_of_char of_char_eq_iff)

lemma of_char_u8_zero: "(of_char c :: u8) = 0 \<longleftrightarrow> c = CHR 0x00"
  using of_char_u8_inj [of c "CHR 0x00"] by simp

lemma name_bytes_prefix:
  "plain_name a \<Longrightarrow> plain_name b \<Longrightarrow> name_bytes a @ r = name_bytes b @ t \<longleftrightarrow> a = b \<and> r = t"
proof (induction a arbitrary: b)
  case Nil
  then show ?case
    by (cases b) (auto simp: name_bytes_def str_bytes_def plain_name_def of_char_u8_zero eq_commute [of 0])
next
  case (Cons c a)
  then show ?case
    by (cases b) (auto simp: name_bytes_def str_bytes_def plain_name_def of_char_u8_inj of_char_u8_zero)
qed

lemma to_le_inj:
  assumes "LENGTH('a) = 8 * n"
  shows "to_le n v = to_le n w \<longleftrightarrow> v = (w :: 'a::len word)"
  using from_le_to_le [OF assms, of v] from_le_to_le [OF assms, of w] by metis

lemma to_le_8_prefix: "to_le 8 v @ r = to_le 8 w @ t \<longleftrightarrow> v = w \<and> r = t" for v w :: u64
  using to_le_inj [of 8 v w] by (simp add: append_eq_append_conv del: to_le.simps)

lemma usize_bytes_prefix:
  assumes "m \<le> usize_max" "n \<le> usize_max"
  shows "usize_bytes m @ r = usize_bytes n @ t \<longleftrightarrow> m = n \<and> r = t"
proof -
  have "(of_nat m :: u64) = of_nat n \<longleftrightarrow> m = n"
    using assms by (intro of_nat_eq_iff_lt) (simp_all add: usize_max_def)
  then show ?thesis by (simp add: usize_bytes_def to_le_8_prefix del: to_le.simps)
qed

lemma field_type_determined:
  "field_tag a = field_tag b \<and> field_max_size a = field_max_size b \<longleftrightarrow> a = b"
  by (cases a; cases b) simp_all

lemma field_bytes_prefix:
  assumes "plain_field f" "plain_field g"
  shows "field_bytes f @ r = field_bytes g @ t \<longleftrightarrow> f = g \<and> r = t"
proof -
  have "f = g \<longleftrightarrow> fd_name f = fd_name g \<and> fd_ty f = fd_ty g \<and> fd_offset f = fd_offset g"
    by (cases f; cases g) simp
  then show ?thesis
    using assms field_type_determined [of "fd_ty f" "fd_ty g"]
    by (auto simp: field_bytes_def plain_field_def name_bytes_prefix usize_bytes_prefix)
qed

lemma field_bytes_nonempty: "field_bytes f \<noteq> []"
  by (simp add: field_bytes_def name_bytes_def)

lemma fields_bytes_inj:
  "list_all plain_field fs \<Longrightarrow> list_all plain_field gs \<Longrightarrow>
   concat (map field_bytes fs) = concat (map field_bytes gs) \<longleftrightarrow> fs = gs"
proof (induction fs arbitrary: gs)
  case Nil
  then show ?case by (cases gs) (simp_all add: field_bytes_nonempty)
next
  case (Cons f fs)
  then show ?case
    by (cases gs) (simp_all add: field_bytes_nonempty field_bytes_prefix)
qed

lemma tags_inj:
  "storage_tag a = storage_tag b \<longleftrightarrow> a = b" "sync_tag c = sync_tag d \<longleftrightarrow> c = d"
  "migration_tag e = migration_tag f \<longleftrightarrow> e = f"
proof -
  show "storage_tag a = storage_tag b \<longleftrightarrow> a = b" by (cases a; cases b) simp_all
  show "sync_tag c = sync_tag d \<longleftrightarrow> c = d" by (cases c; cases d) simp_all
  show "migration_tag e = migration_tag f \<longleftrightarrow> e = f" by (cases e; cases f) simp_all
qed

lemma schema_bytes_inj:
  assumes "plain_schema s" "plain_schema t"
  shows "schema_bytes s = schema_bytes t \<longleftrightarrow> s = t"
proof -
  have "s = t \<longleftrightarrow> gs_id s = gs_id t \<and> gs_name s = gs_name t \<and> gs_storage s = gs_storage t \<and>
      gs_sync s = gs_sync t \<and> gs_migration s = gs_migration t \<and> gs_max_bytes s = gs_max_bytes t \<and>
      gs_fields s = gs_fields t"
    by (cases s; cases t) simp
  then show ?thesis
    using assms
    by (simp add: schema_bytes_def plain_schema_def to_le_8_prefix ucast_widen_inj name_bytes_prefix
        tags_inj usize_bytes_prefix fields_bytes_inj del: to_le.simps)
qed

text \<open>The schema hash is the FNV-1a hash of a byte string that determines the schema (for names
  without zero bytes), and no single changed byte of that string goes unnoticed: in particular
  changing only the storage, the synchronisation or the migration mode always changes the hash.\<close>

theorem schema_hash_discriminates:
  assumes "plain_schema s"
  shows "schema_hash s = foldl hash_u8 FNV_OFFSET (schema_bytes s) \<and>
    (\<forall>t. plain_schema t \<longrightarrow> schema_bytes t = schema_bytes s \<longrightarrow> t = s) \<and>
    (\<forall>t i b. schema_bytes t = (schema_bytes s)[i := b] \<longrightarrow> schema_bytes t \<noteq> schema_bytes s \<longrightarrow>
      schema_hash t \<noteq> schema_hash s) \<and>
    (\<forall>k. k \<noteq> gs_storage s \<longrightarrow> schema_hash (s\<lparr>gs_storage := k\<rparr>) \<noteq> schema_hash s) \<and>
    (\<forall>k. k \<noteq> gs_sync s \<longrightarrow> schema_hash (s\<lparr>gs_sync := k\<rparr>) \<noteq> schema_hash s) \<and>
    (\<forall>k. k \<noteq> gs_migration s \<longrightarrow> schema_hash (s\<lparr>gs_migration := k\<rparr>) \<noteq> schema_hash s)"
proof (intro conjI allI impI)
  show "schema_hash s = foldl hash_u8 FNV_OFFSET (schema_bytes s)" by (rule schema_hash_foldl)
  show "t = s" if "plain_schema t" "schema_bytes t = schema_bytes s" for t
    using schema_bytes_inj [OF that(1) assms] that(2) by simp
  show "schema_hash t \<noteq> schema_hash s"
    if "schema_bytes t = (schema_bytes s)[i := b]" "schema_bytes t \<noteq> schema_bytes s" for t i b
  proof -
    have "i < length (schema_bytes s)" using that by (metis list_update_beyond not_less)
    moreover have "b \<noteq> schema_bytes s ! i" using that by (metis list_update_id)
    ultimately show ?thesis unfolding schema_hash_foldl that(1) by (rule hash_one_byte)
  qed
qed (simp_all add: schema_hash_foldl schema_bytes_def hash_bytes_inj hash_u8_inj tags_inj del: to_le.simps)

theorem schema_hash_discriminates_witness:
  "plain_schema demo_schema \<and>
   schema_hash (demo_schema\<lparr>gs_sync := SyncSnapshot\<rparr>) \<noteq> schema_hash demo_schema"
proof -
  have "plain_schema demo_schema"
    by (simp add: demo_schema_def plain_schema_def plain_name_def plain_field_def usize_max_def)
  moreover have "SyncSnapshot \<noteq> gs_sync demo_schema" by (simp add: demo_schema_def)
  ultimately show ?thesis using schema_hash_discriminates [of demo_schema] by blast
qed

section \<open>The registry as a finite map\<close>

definition registry_wf :: "component_registry \<Rightarrow> bool" where
  "registry_wf r \<longleftrightarrow>
     length (cr_descriptors r) \<le> 65536 \<and>
     (\<forall>i d. vec_get (cr_descriptors r) i = Some (Some d) \<longrightarrow> unat (cd_id d) = i) \<and>
     (\<forall>i j d e. registry_get r i = Some d \<longrightarrow> registry_get r j = Some e \<longrightarrow>
        cd_name d = cd_name e \<longrightarrow> i = j)"

lemma registry_get_slot:
  "registry_get r i = Some d \<longleftrightarrow> vec_get (cr_descriptors r) (unat i) = Some (Some d)"
  by (auto simp: registry_get_def Option.bind_eq_Some_conv)

lemma registry_iter_slots: "d \<in> set (registry_iter r) \<longleftrightarrow> Some d \<in> set (cr_descriptors r)"
proof -
  have "d \<in> set (List.map_filter (\<lambda>x. x) xs) \<longleftrightarrow> Some d \<in> set xs" for xs :: "component_descriptor option list"
    by (induction xs) (auto simp: List.map_filter_simps split: option.splits)
  then show ?thesis by (simp add: registry_iter_def)
qed

lemma registry_iter_get:
  assumes "registry_wf r"
  shows "d \<in> set (registry_iter r) \<longleftrightarrow> registry_get r (cd_id d) = Some d"
proof -
  have "Some d \<in> set (cr_descriptors r) \<longleftrightarrow> (\<exists>i. vec_get (cr_descriptors r) i = Some (Some d))"
    by (auto simp: in_set_conv_nth vec_get_Some_iff)
  also have "\<dots> \<longleftrightarrow> vec_get (cr_descriptors r) (unat (cd_id d)) = Some (Some d)"
    using assms unfolding registry_wf_def by blast
  finally show ?thesis by (simp add: registry_iter_slots registry_get_slot)
qed

lemma registry_get_id: "registry_wf r \<Longrightarrow> registry_get r i = Some d \<Longrightarrow> cd_id d = i"
  by (auto simp: registry_wf_def registry_get_slot)

lemma registry_name_free:
  assumes "registry_wf r"
  shows "\<not> list_ex (\<lambda>e. cd_name e = n) (registry_iter r) \<longleftrightarrow>
    (\<forall>i e. registry_get r i = Some e \<longrightarrow> cd_name e \<noteq> n)"
proof -
  have "(\<exists>e. registry_get r (cd_id e) = Some e \<and> cd_name e = n) \<longleftrightarrow>
      (\<exists>i e. registry_get r i = Some e \<and> cd_name e = n)"
    using registry_get_id [OF assms] by metis
  then show ?thesis by (auto simp: list_ex_iff registry_iter_get [OF assms])
qed

lemma registry_insert_slot:
  fixes r :: component_registry and d :: component_descriptor
  defines "ds \<equiv> (if length (cr_descriptors r) \<le> unat (cd_id d)
      then vec_resize (cr_descriptors r) (unat (cd_id d) + 1) None else cr_descriptors r)"
  shows "registry_get (r\<lparr>cr_descriptors := ds[unat (cd_id d) := Some d]\<rparr>) i =
      (if i = cd_id d then Some d else registry_get r i)"
    and "vec_get (ds[unat (cd_id d) := Some d]) k = Some (Some e) \<Longrightarrow>
      k = unat (cd_id d) \<and> e = d \<or> vec_get (cr_descriptors r) k = Some (Some e)"
    and "length (cr_descriptors r) \<le> 65536 \<Longrightarrow> length ds \<le> 65536"
proof -
  have u: "unat (cd_id d) < 65536" using unsigned_less [of "cd_id d"] by simp
  then show "length (cr_descriptors r) \<le> 65536 \<Longrightarrow> length ds \<le> 65536" by (simp add: ds_def)
  have get: "vec_get (ds[unat (cd_id d) := Some d]) k =
      (if k = unat (cd_id d) then Some (Some d)
       else if k < length ds then Some (case vec_get (cr_descriptors r) k of Some x \<Rightarrow> x | None \<Rightarrow> None)
       else None)" for k
    by (auto simp: ds_def vec_get_update vec_get_resize split: option.splits)
      (auto simp: vec_get_def split: if_splits)
  have bound: "vec_get (cr_descriptors r) k = Some x \<Longrightarrow> k < length ds" for k x
    by (auto simp: ds_def vec_get_Some_iff)
  show "registry_get (r\<lparr>cr_descriptors := ds[unat (cd_id d) := Some d]\<rparr>) i =
      (if i = cd_id d then Some d else registry_get r i)"
    using bound [of "unat i"] word_unat_eq_iff [of i "cd_id d"]
    by (auto simp: registry_get_def get split: option.splits)
  show "k = unat (cd_id d) \<and> e = d \<or> vec_get (cr_descriptors r) k = Some (Some e)"
    if "vec_get (ds[unat (cd_id d) := Some d]) k = Some (Some e)"
    using that by (auto simp: get split: if_splits option.splits)
qed

lemma registry_register_Err:
  assumes "registry_wf r" "registry_register r d = (Err e, r')"
  shows "r' = r \<and> (e = DuplicateId (cd_id d) \<and> registry_get r (cd_id d) \<noteq> None \<or>
    e = DuplicateName (cd_name d) \<and> (\<exists>i f. registry_get r i = Some f \<and> cd_name f = cd_name d))"
proof (cases "registry_get r (cd_id d) = None")
  case True
  then have "list_ex (\<lambda>e. cd_name e = cd_name d) (registry_iter r)" "r' = r" "e = DuplicateName (cd_name d)"
    using assms(2) by (auto simp: registry_register_def Let_def split: if_splits)
  then show ?thesis using registry_name_free [OF assms(1), of "cd_name d"] by blast
next
  case False
  then show ?thesis using assms(2) by (auto simp: registry_register_def)
qed

lemma registry_register_Ok:
  assumes wf: "registry_wf r" and ok: "registry_register r d = (Ok (), r')"
  shows "registry_wf r'" "registry_get r' i = (if i = cd_id d then Some d else registry_get r i)"
proof -
  let ?ds = "if length (cr_descriptors r) \<le> unat (cd_id d)
      then vec_resize (cr_descriptors r) (unat (cd_id d) + 1) None else cr_descriptors r"
  have fresh: "registry_get r (cd_id d) = None" "\<not> list_ex (\<lambda>e. cd_name e = cd_name d) (registry_iter r)"
    and r': "r' = r\<lparr>cr_descriptors := ?ds[unat (cd_id d) := Some d]\<rparr>"
    using ok by (auto simp: registry_register_def Let_def split: if_splits)
  have names: "registry_get r j = Some e \<Longrightarrow> cd_name e \<noteq> cd_name d" for j e
    using fresh(2) registry_name_free [OF wf] by blast
  show get: "registry_get r' i = (if i = cd_id d then Some d else registry_get r i)" for i
    unfolding r' by (rule registry_insert_slot(1))
  have "vec_get (cr_descriptors r') k = Some (Some e) \<Longrightarrow> unat (cd_id e) = k" for k e
    using registry_insert_slot(2) [of r d k e] wf unfolding r' registry_wf_def by auto
  moreover have "length (cr_descriptors r') \<le> 65536"
    using registry_insert_slot(3) [of r d] wf unfolding r' registry_wf_def by simp
  moreover have "i = j" if "registry_get r' i = Some a" "registry_get r' j = Some b" "cd_name a = cd_name b"
    for i j a b
    using that names [of i a] names [of j b] wf
    by (auto simp: get registry_wf_def split: if_splits)
  ultimately show "registry_wf r'" unfolding registry_wf_def by blast
qed

inductive registry_reachable :: "component_registry \<Rightarrow> bool" where
  registry_start: "registry_reachable registry_new"
| registry_descriptor: "registry_reachable r \<Longrightarrow> registry_register r d = (res, r') \<Longrightarrow> registry_reachable r'"
| registry_generated: "registry_reachable r \<Longrightarrow> register_generated_schema r s = (gres, r') \<Longrightarrow> registry_reachable r'"

lemma registry_new_wf: "registry_wf registry_new"
  by (simp add: registry_wf_def registry_new_def registry_get_def vec_get_def)

lemma registry_register_wf:
  "registry_wf r \<Longrightarrow> registry_register r d = (res, r') \<Longrightarrow> registry_wf r'"
proof (cases res)
  case (Inr u)
  then show "registry_wf r \<Longrightarrow> registry_register r d = (res, r') \<Longrightarrow> registry_wf r'"
    using registry_register_Ok(1) [of r d r'] by simp
qed (auto simp: registry_register_def Let_def split: if_splits)

lemma register_generated_register:
  "register_generated_schema r s = (gres, r') \<Longrightarrow>
     r' = r \<or> (\<exists>res. registry_register r (schema_descriptor s) = (res, r'))"
  by (auto simp: register_generated_schema_def schema_component_def Let_def split: sum.splits prod.splits)

lemma registry_reachable_wf: "registry_reachable r \<Longrightarrow> registry_wf r"
  by (induction rule: registry_reachable.induct)
    (use registry_new_wf registry_register_wf register_generated_register in blast)+

text \<open>Whatever is registered, directly or from generated schemas, identifiers and names stay
  unique and every descriptor is found under its own identifier. A registration succeeds exactly
  when both are free, then adds that one descriptor; otherwise it reports which of the two is
  taken and changes nothing. A generated schema is registered only if its layout validates.\<close>

theorem registry_identities:
  assumes "registry_reachable r"
  shows "(\<forall>i d. registry_get r i = Some d \<longrightarrow> cd_id d = i) \<and>
    (\<forall>i j d e. registry_get r i = Some d \<longrightarrow> registry_get r j = Some e \<longrightarrow> cd_name d = cd_name e \<longrightarrow> i = j) \<and>
    (\<forall>d res r'. registry_register r d = (res, r') \<longrightarrow>
       (case res of
          Inl e \<Rightarrow> r' = r \<and>
            (e = DuplicateId (cd_id d) \<and> registry_get r (cd_id d) \<noteq> None \<or>
             e = DuplicateName (cd_name d) \<and> (\<exists>i f. registry_get r i = Some f \<and> cd_name f = cd_name d))
        | Inr _ \<Rightarrow> registry_get r (cd_id d) = None \<and>
            registry_get r' = (registry_get r)(cd_id d \<mapsto> d))) \<and>
    (\<forall>s cs r'. register_generated_schema r s = (Ok cs, r') \<longrightarrow>
       schema_validate s = Ok () \<and> cs = schema_component s \<and>
       registry_get r' (gs_id s) = Some (schema_descriptor s))"
proof (intro conjI allI impI)
  have wf: "registry_wf r" using assms by (rule registry_reachable_wf)
  show "cd_id d = i" if "registry_get r i = Some d" for i d using registry_get_id [OF wf that] .
  show "i = j" if "registry_get r i = Some d" "registry_get r j = Some e" "cd_name d = cd_name e" for i j d e
    using wf that unfolding registry_wf_def by blast
  show "case res of
      Inl e \<Rightarrow> r' = r \<and>
        (e = DuplicateId (cd_id d) \<and> registry_get r (cd_id d) \<noteq> None \<or>
         e = DuplicateName (cd_name d) \<and> (\<exists>i f. registry_get r i = Some f \<and> cd_name f = cd_name d))
    | Inr _ \<Rightarrow> registry_get r (cd_id d) = None \<and> registry_get r' = (registry_get r)(cd_id d \<mapsto> d)"
    if reg: "registry_register r d = (res, r')" for d res r'
  proof (cases res)
    case (Inl e)
    then show ?thesis using registry_register_Err [OF wf, of d e r'] reg by simp
  next
    case (Inr u)
    have "registry_get r (cd_id d) = None"
      using reg Inr by (auto simp: registry_register_def split: if_splits)
    moreover have "registry_get r' = (registry_get r)(cd_id d \<mapsto> d)"
      using registry_register_Ok(2) [OF wf, of d r'] reg Inr by auto
    ultimately show ?thesis using Inr by simp
  qed
  fix s cs r'
  assume gen: "register_generated_schema r s = (Ok cs, r')"
  obtain res r2 where reg: "registry_register r (schema_descriptor s) = (res, r2)" by fastforce
  show "schema_validate s = Ok ()" "cs = schema_component s"
    using gen reg by (auto simp: register_generated_schema_def Let_def schema_component_def map_err_def
        and_then_Ok_iff split: sum.splits)
  have "res = Ok ()" "r2 = r'"
    using gen reg by (auto simp: register_generated_schema_def Let_def schema_component_def map_err_def
        and_then_Ok_iff split: sum.splits)
  then show "registry_get r' (gs_id s) = Some (schema_descriptor s)"
    using registry_register_Ok(2) [OF wf, of "schema_descriptor s" r'] reg by (simp add: schema_descriptor_def)
qed

definition demo_registry :: component_registry where
  "demo_registry = snd (registry_register registry_new (sparse_blob 3 ''hp'' SyncDelta MigrateCopy 8))"

theorem registry_identities_witness:
  "registry_reachable demo_registry \<and>
   fst (registry_register demo_registry (sparse_blob 4 ''hp'' SyncDelta MigrateDrop 8)) =
     Err (DuplicateName ''hp'') \<and>
   (\<exists>d. registry_get demo_registry 3 = Some d \<and> cd_name d = ''hp'' \<and> cd_id d = 3)"
proof -
  have reach: "registry_reachable demo_registry" unfolding demo_registry_def
    by (rule registry_descriptor [OF registry_start]) (rule surjective_pairing)
  moreover have "fst (registry_register demo_registry (sparse_blob 4 ''hp'' SyncDelta MigrateDrop 8)) =
      Err (DuplicateName ''hp'')"
    by code_simp
  moreover have "registry_get demo_registry 3 = Some (sparse_blob 3 ''hp'' SyncDelta MigrateCopy 8)"
    by code_simp
  moreover have "cd_name (sparse_blob 3 ''hp'' SyncDelta MigrateCopy 8) = ''hp''"
    by (simp add: sparse_blob_def)
  ultimately show ?thesis using registry_identities [OF reach] by blast
qed

end
