(* ===== verification/Component_Store.thy ===== *)
theory Component_Store
  imports Component_Schema
begin

text \<open>
  The station-local component blob store (\<open>crates/sectorsync-core/src/component.rs\<close>, second half).
  Columns with an identifier below 256 live in a vector of optional columns, the others in an
  ordered map; a column maps entity handles to blobs. The lemmas show that the two-part layout is
  one flat map from (component, entity) to blobs, and what each operation does to that map.
  Reserving, shrinking and the capacity getters are not modelled, except that reserving creates
  the column.
\<close>

section \<open>State and errors\<close>

record component_blob =
  cb_version :: u64
  cb_dirty :: bool
  cb_bytes :: bytes

datatype store_error =
    NotBlobStorage component_id
  | BlobTooLarge component_id usize usize
  | CodecFailed codec_error
  | MissingBlob component_id

type_synonym component_column = "(entity_handle, component_blob) fmap"

record component_store =
  dense_columns :: "component_column option list"
  sparse_columns :: "(component_id, component_column) fmap"

record encode_scratch =
  es_bytes :: bytes

definition component_store_new :: component_store where
  "component_store_new = \<lparr>dense_columns = [], sparse_columns = fmempty\<rparr>"

definition DENSE_COMPONENT_COLUMN_LIMIT :: usize where
  "DENSE_COMPONENT_COLUMN_LIMIT = 256"

section \<open>Columns\<close>

definition store_column :: "component_store \<Rightarrow> component_id \<Rightarrow> component_column option" where
  "store_column st c =
     (let index = unat c in
      if index < DENSE_COMPONENT_COLUMN_LIMIT
      then Option.bind (vec_get (dense_columns st) index) (\<lambda>col. col)
      else fmlookup (sparse_columns st) c)"

text \<open>A write \<open>f\<close> through the reference that \<open>column_mut\<close> returns, the column being created when it
  is missing.\<close>

definition column_mut ::
  "component_store \<Rightarrow> component_id \<Rightarrow> (component_column \<Rightarrow> component_column) \<Rightarrow> component_store" where
  "column_mut st c f =
     (let index = unat c in
      if index < DENSE_COMPONENT_COLUMN_LIMIT then
        let ds = (if length (dense_columns st) \<le> index
                  then vec_resize (dense_columns st) (index + 1) None else dense_columns st);
            col = (case ds ! index of Some col \<Rightarrow> col | None \<Rightarrow> fmempty)
        in st\<lparr>dense_columns := ds[index := Some (f col)]\<rparr>
      else
        let col = (case fmlookup (sparse_columns st) c of Some col \<Rightarrow> col | None \<Rightarrow> fmempty)
        in st\<lparr>sparse_columns := fmupd c (f col) (sparse_columns st)\<rparr>)"

definition reserve_component :: "component_store \<Rightarrow> component_id \<Rightarrow> component_store" where
  "reserve_component st c = column_mut st c (\<lambda>col. col)"

text \<open>The loops over all columns: first the dense vector with its indices, then the ordered map in
  key order. A body gets the column and an accumulator and returns both.\<close>

fun visit_dense ::
  "(usize \<Rightarrow> component_column \<Rightarrow> 'a \<Rightarrow> component_column \<times> 'a) \<Rightarrow> usize \<Rightarrow> component_column option list \<Rightarrow>
   'a \<Rightarrow> component_column option list \<times> 'a" where
  "visit_dense f i [] a = ([], a)"
| "visit_dense f i (None # cs) a = (case visit_dense f (i + 1) cs a of (cs', a') \<Rightarrow> (None # cs', a'))"
| "visit_dense f i (Some col # cs) a =
     (case f i col a of (col', a1) \<Rightarrow>
      case visit_dense f (i + 1) cs a1 of (cs', a2) \<Rightarrow> (Some col' # cs', a2))"

fun visit_sparse ::
  "(component_id \<Rightarrow> component_column \<Rightarrow> 'a \<Rightarrow> component_column \<times> 'a) \<Rightarrow> component_id list \<Rightarrow>
   (component_id, component_column) fmap \<Rightarrow> 'a \<Rightarrow> (component_id, component_column) fmap \<times> 'a" where
  "visit_sparse f [] m a = (m, a)"
| "visit_sparse f (k # ks) m a =
     (case fmlookup m k of
        None \<Rightarrow> visit_sparse f ks m a
      | Some col \<Rightarrow> (case f k col a of (col', a1) \<Rightarrow> visit_sparse f ks (fmupd k col' m) a1))"

definition visit_columns ::
  "(usize \<Rightarrow> component_column \<Rightarrow> 'a \<Rightarrow> component_column \<times> 'a) \<Rightarrow>
   (component_id \<Rightarrow> component_column \<Rightarrow> 'a \<Rightarrow> component_column \<times> 'a) \<Rightarrow>
   component_store \<Rightarrow> 'a \<Rightarrow> component_store \<times> 'a" where
  "visit_columns f g st a =
     (case visit_dense f 0 (dense_columns st) a of (ds, a1) \<Rightarrow>
      case visit_sparse g (sorted_list_of_fset (fmdom (sparse_columns st))) (sparse_columns st) a1 of
        (sp, a2) \<Rightarrow> (\<lparr>dense_columns = ds, sparse_columns = sp\<rparr>, a2))"

section \<open>Operations\<close>

definition validate_blob_write :: "component_descriptor \<Rightarrow> usize \<Rightarrow> store_error + unit" where
  "validate_blob_write d n =
     (if cd_storage d \<noteq> SparseBlob then Err (NotBlobStorage (cd_id d))
      else if n > cd_max_bytes d then Err (BlobTooLarge (cd_id d) n (cd_max_bytes d))
      else Ok ())"

definition set_blob ::
  "component_store \<Rightarrow> component_descriptor \<Rightarrow> entity_handle \<Rightarrow> u64 \<Rightarrow> bytes \<Rightarrow>
   (store_error + unit) \<times> component_store" where
  "set_blob st d entity version bytes =
     (case validate_blob_write d (length bytes) of
        Inl e \<Rightarrow> (Err e, st)
      | Inr _ \<Rightarrow>
          (Ok (), column_mut st (cd_id d)
             (fmupd entity \<lparr>cb_version = version, cb_dirty = True, cb_bytes = bytes\<rparr>)))"

definition set_blob_from_slice ::
  "component_store \<Rightarrow> component_descriptor \<Rightarrow> entity_handle \<Rightarrow> u64 \<Rightarrow> bytes \<Rightarrow>
   (store_error + unit) \<times> component_store" where
  "set_blob_from_slice st d entity version bytes =
     (case validate_blob_write d (length bytes) of
        Inl e \<Rightarrow> (Err e, st)
      | Inr _ \<Rightarrow>
          (Ok (), column_mut st (cd_id d) (\<lambda>col.
             case fmlookup col entity of
               Some blob \<Rightarrow>
                 fmupd entity (blob\<lparr>cb_bytes := [] @ bytes, cb_version := version, cb_dirty := True\<rparr>) col
             | None \<Rightarrow>
                 fmupd entity \<lparr>cb_version = version, cb_dirty = True, cb_bytes = bytes\<rparr> col)))"

definition set_typed ::
  "component_store \<Rightarrow> component_descriptor \<Rightarrow> entity_handle \<Rightarrow> u64 \<Rightarrow> 'a component_codec \<Rightarrow> 'a \<Rightarrow>
   (store_error + unit) \<times> component_store" where
  "set_typed st d entity version cdc v =
     (case cc_encode cdc v [] of (res, bytes) \<Rightarrow>
        (case map_err CodecFailed res of
           Inl e \<Rightarrow> (Err e, st)
         | Inr _ \<Rightarrow> set_blob st d entity version bytes))"

definition set_typed_with_scratch ::
  "component_store \<Rightarrow> component_descriptor \<Rightarrow> entity_handle \<Rightarrow> u64 \<Rightarrow> 'a component_codec \<Rightarrow> 'a \<Rightarrow>
   encode_scratch \<Rightarrow> (store_error + unit) \<times> component_store \<times> encode_scratch" where
  "set_typed_with_scratch st d entity version cdc v scratch =
     (let scratch = scratch\<lparr>es_bytes := []\<rparr> in
      case cc_encode cdc v (es_bytes scratch) of (res, bytes) \<Rightarrow>
        let scratch = scratch\<lparr>es_bytes := bytes\<rparr> in
        (case map_err CodecFailed res of
           Inl e \<Rightarrow> (Err e, st, scratch)
         | Inr _ \<Rightarrow>
             (case set_blob_from_slice st d entity version (es_bytes scratch) of
                (r, st') \<Rightarrow> (r, st', scratch))))"

definition get_blob :: "component_store \<Rightarrow> component_id \<Rightarrow> entity_handle \<Rightarrow> component_blob option" where
  "get_blob st c entity = Option.bind (store_column st c) (\<lambda>col. fmlookup col entity)"

definition has_dirty_selected :: "component_store \<Rightarrow> entity_handle \<Rightarrow> component_id list \<Rightarrow> bool" where
  "has_dirty_selected st entity ids \<longleftrightarrow>
     list_ex (\<lambda>c. case get_blob st c entity of Some blob \<Rightarrow> cb_dirty blob | None \<Rightarrow> False) ids"

definition get_typed ::
  "component_store \<Rightarrow> component_id \<Rightarrow> entity_handle \<Rightarrow> 'a component_codec \<Rightarrow> store_error + 'a" where
  "get_typed st c entity cdc =
     (case get_blob st c entity of
        None \<Rightarrow> Err (MissingBlob c)
      | Some blob \<Rightarrow> map_err CodecFailed (cc_decode cdc (cb_bytes blob)))"

text \<open>A write \<open>f\<close> through the reference of \<open>get_blob_mut\<close>; the flag says whether there was one.\<close>

definition get_blob_mut ::
  "component_store \<Rightarrow> component_id \<Rightarrow> entity_handle \<Rightarrow> (component_blob \<Rightarrow> component_blob) \<Rightarrow>
   bool \<times> component_store" where
  "get_blob_mut st c entity f =
     (let index = unat c in
      if index < DENSE_COMPONENT_COLUMN_LIMIT then
        (case Option.bind (vec_get (dense_columns st) index) (\<lambda>col. col) of
           None \<Rightarrow> (False, st)
         | Some col \<Rightarrow> (case fmlookup col entity of
             None \<Rightarrow> (False, st)
           | Some blob \<Rightarrow>
               (True, st\<lparr>dense_columns := (dense_columns st)[index := Some (fmupd entity (f blob) col)]\<rparr>)))
      else
        (case fmlookup (sparse_columns st) c of
           None \<Rightarrow> (False, st)
         | Some col \<Rightarrow> (case fmlookup col entity of
             None \<Rightarrow> (False, st)
           | Some blob \<Rightarrow>
               (True, st\<lparr>sparse_columns := fmupd c (fmupd entity (f blob) col) (sparse_columns st)\<rparr>))))"

definition clear_dirty_body ::
  "entity_handle \<Rightarrow> component_column \<Rightarrow> usize \<Rightarrow> component_column \<times> usize" where
  "clear_dirty_body entity col cleared =
     (case fmlookup col entity of
        Some blob \<Rightarrow>
          if cb_dirty blob then (fmupd entity (blob\<lparr>cb_dirty := False\<rparr>) col, cleared + 1) else (col, cleared)
      | None \<Rightarrow> (col, cleared))"

definition clear_dirty_for_entity :: "component_store \<Rightarrow> entity_handle \<Rightarrow> usize \<times> component_store" where
  "clear_dirty_for_entity st entity =
     (case visit_columns (\<lambda>_. clear_dirty_body entity) (\<lambda>_. clear_dirty_body entity) st 0 of
        (st', cleared) \<Rightarrow> (cleared, st'))"

text \<open>The dense loop of \<open>remove_entity_into\<close> converts its index with \<open>u16::try_from(index).expect(..)\<close>;
  the accumulator becomes \<open>None\<close> when that panics.\<close>

definition remove_dense_body ::
  "entity_handle \<Rightarrow> usize \<Rightarrow> component_column \<Rightarrow> (component_id \<times> component_blob) list option \<Rightarrow>
   component_column \<times> (component_id \<times> component_blob) list option" where
  "remove_dense_body entity index col removed =
     (case fmlookup col entity of
        Some blob \<Rightarrow>
          (fmdrop entity col,
           Option.bind removed (\<lambda>rs. if index < 2 ^ 16 then Some (rs @ [(of_nat index, blob)]) else None))
      | None \<Rightarrow> (col, removed))"

definition remove_sparse_body ::
  "entity_handle \<Rightarrow> component_id \<Rightarrow> component_column \<Rightarrow> (component_id \<times> component_blob) list option \<Rightarrow>
   component_column \<times> (component_id \<times> component_blob) list option" where
  "remove_sparse_body entity c col removed =
     (case fmlookup col entity of
        Some blob \<Rightarrow> (fmdrop entity col, map_option (\<lambda>rs. rs @ [(c, blob)]) removed)
      | None \<Rightarrow> (col, removed))"

text \<open>The count, the caller's output vector (its old content is cleared) and the store.\<close>

definition remove_entity_into ::
  "component_store \<Rightarrow> entity_handle \<Rightarrow> (component_id \<times> component_blob) list \<Rightarrow>
   (usize \<times> (component_id \<times> component_blob) list \<times> component_store) option" where
  "remove_entity_into st entity old =
     (case visit_columns (remove_dense_body entity) (remove_sparse_body entity) st (Some []) of
        (st', removed) \<Rightarrow> map_option (\<lambda>rs. (length rs, rs, st')) removed)"

definition remove_entity ::
  "component_store \<Rightarrow> entity_handle \<Rightarrow> ((component_id \<times> component_blob) list \<times> component_store) option" where
  "remove_entity st entity = map_option snd (remove_entity_into st entity [])"

definition clear_entity_body ::
  "entity_handle \<Rightarrow> component_column \<Rightarrow> usize \<Rightarrow> component_column \<times> usize" where
  "clear_entity_body entity col removed =
     (fmdrop entity col, usize_add removed (if fmlookup col entity \<noteq> None then 1 else 0))"

definition clear_entity :: "component_store \<Rightarrow> entity_handle \<Rightarrow> usize \<times> component_store" where
  "clear_entity st entity =
     (case visit_columns (\<lambda>_. clear_entity_body entity) (\<lambda>_. clear_entity_body entity) st 0 of
        (st', removed) \<Rightarrow> (removed, st'))"

fun copy_blobs ::
  "component_descriptor list \<Rightarrow> entity_handle \<Rightarrow> entity_handle \<Rightarrow> component_store \<Rightarrow> usize \<Rightarrow>
   usize \<times> component_store" where
  "copy_blobs [] source target st copied = (copied, st)"
| "copy_blobs (d # ds) source target st copied =
     (if cd_migration d \<noteq> MigrateCopy then copy_blobs ds source target st copied
      else (case get_blob st (cd_id d) source of
              None \<Rightarrow> copy_blobs ds source target st copied
            | Some blob \<Rightarrow>
                copy_blobs ds source target (column_mut st (cd_id d) (fmupd target blob)) (copied + 1)))"

definition copy_for_migration ::
  "component_store \<Rightarrow> component_registry \<Rightarrow> entity_handle \<Rightarrow> entity_handle \<Rightarrow> usize \<times> component_store" where
  "copy_for_migration st r source target = copy_blobs (registry_iter r) source target st 0"

definition blob_count :: "component_store \<Rightarrow> usize" where
  "blob_count st =
     sum_list (map map_len (List.map_filter (\<lambda>col. col) (dense_columns st))) +
     sum_list (map (\<lambda>k. map_len (the (fmlookup (sparse_columns st) k)))
       (sorted_list_of_fset (fmdom (sparse_columns st))))"

definition column_count :: "component_store \<Rightarrow> usize" where
  "column_count st =
     length (filter (\<lambda>col. col \<noteq> None) (dense_columns st)) + map_len (sparse_columns st)"

section \<open>The flat view\<close>

lemma store_column_mut:
  "store_column (column_mut st c f) c' =
     (if c' = c then Some (f (case store_column st c of Some col \<Rightarrow> col | None \<Rightarrow> fmempty))
      else store_column st c')"
proof (cases "unat c < DENSE_COMPONENT_COLUMN_LIMIT")
  case True
  let ?ds = "if length (dense_columns st) \<le> unat c
      then vec_resize (dense_columns st) (unat c + 1) None else dense_columns st"
  have len: "unat c < length ?ds" by simp
  have get: "Option.bind (vec_get ?ds i) (\<lambda>col. col) = Option.bind (vec_get (dense_columns st) i) (\<lambda>col. col)" for i
    by (auto simp: vec_get_resize split: option.splits) (auto simp: vec_get_def)
  have nth: "?ds ! unat c = Option.bind (vec_get (dense_columns st) (unat c)) (\<lambda>col. col)"
    using get [of "unat c"] len by (simp add: vec_get_def [of ?ds])
  have "dense_columns (column_mut st c f) =
      ?ds[unat c := Some (f (case ?ds ! unat c of Some col \<Rightarrow> col | None \<Rightarrow> fmempty))]"
    "sparse_columns (column_mut st c f) = sparse_columns st"
    using True by (simp_all add: column_mut_def Let_def)
  then show ?thesis
    using True get [of "unat c'"] len
    by (auto simp: store_column_def Let_def vec_get_update nth word_unat_eq_iff)
next
  case False
  then show ?thesis by (auto simp: column_mut_def store_column_def Let_def)
qed

lemma get_blob_column_mut:
  "get_blob (column_mut st c f) c' e =
     (if c' = c then fmlookup (f (case store_column st c of Some col \<Rightarrow> col | None \<Rightarrow> fmempty)) e
      else get_blob st c' e)"
  by (simp add: get_blob_def store_column_mut)

lemma get_blob_column: "get_blob st c e = fmlookup (case store_column st c of Some col \<Rightarrow> col | None \<Rightarrow> fmempty) e"
  by (simp add: get_blob_def split: option.splits)

lemma get_blob_put:
  "get_blob (column_mut st c (fmupd entity b)) c' e =
     (if c' = c \<and> e = entity then Some b else get_blob st c' e)"
  by (auto simp: get_blob_column_mut get_blob_column [of st])

lemma get_blob_reserve: "get_blob (reserve_component st c) c' e = get_blob st c' e"
  by (auto simp: reserve_component_def get_blob_column_mut get_blob_column [of st])

lemma get_blob_new [simp]: "get_blob component_store_new c e = None"
  by (simp add: get_blob_def store_column_def component_store_new_def vec_get_def Let_def)

text \<open>Reusing the blob's storage gives the very store that replacing it gives.\<close>

lemma set_blob_from_slice_eq: "set_blob_from_slice st d e v bs = set_blob st d e v bs"
proof -
  have "(\<lambda>col. case fmlookup col e of
        Some blob \<Rightarrow> fmupd e (blob\<lparr>cb_bytes := [] @ bs, cb_version := v, cb_dirty := True\<rparr>) col
      | None \<Rightarrow> fmupd e \<lparr>cb_version = v, cb_dirty = True, cb_bytes = bs\<rparr> col) =
      fmupd e \<lparr>cb_version = v, cb_dirty = True, cb_bytes = bs\<rparr>"
  proof
    fix col :: component_column
    have b: "b\<lparr>cb_bytes := bs, cb_version := v, cb_dirty := True\<rparr> =
        \<lparr>cb_version = v, cb_dirty = True, cb_bytes = bs\<rparr>" for b :: component_blob
      by (cases b) simp
    show "(case fmlookup col e of
          Some blob \<Rightarrow> fmupd e (blob\<lparr>cb_bytes := [] @ bs, cb_version := v, cb_dirty := True\<rparr>) col
        | None \<Rightarrow> fmupd e \<lparr>cb_version = v, cb_dirty = True, cb_bytes = bs\<rparr> col) =
        fmupd e \<lparr>cb_version = v, cb_dirty = True, cb_bytes = bs\<rparr> col"
      by (simp add: b split: option.splits)
  qed
  then show ?thesis by (simp only: set_blob_from_slice_def set_blob_def)
qed

lemma set_blob_cases:
  "set_blob st d e v bs =
     (if cd_storage d = SparseBlob \<and> length bs \<le> cd_max_bytes d
      then (Ok (), column_mut st (cd_id d) (fmupd e \<lparr>cb_version = v, cb_dirty = True, cb_bytes = bs\<rparr>))
      else if cd_storage d \<noteq> SparseBlob then (Err (NotBlobStorage (cd_id d)), st)
      else (Err (BlobTooLarge (cd_id d) (length bs) (cd_max_bytes d)), st))"
  by (auto simp: set_blob_def validate_blob_write_def)

text \<open>C40. A blob write is one update of the flat map from component and entity to blobs: it
  succeeds exactly when the descriptor stores blobs and the bytes fit, and then marks exactly that
  blob dirty with the given version and bytes; a failed write reports why and changes nothing.
  Copying from a slice into the retained blob leaves the same store as replacing the blob.\<close>

theorem store_writes_refine_map:
  "(case set_blob st d entity version bs of
      (Inl e, st') \<Rightarrow> st' = st \<and>
        (if cd_storage d = SparseBlob
         then length bs > cd_max_bytes d \<and> e = BlobTooLarge (cd_id d) (length bs) (cd_max_bytes d)
         else e = NotBlobStorage (cd_id d))
    | (Inr _, st') \<Rightarrow> cd_storage d = SparseBlob \<and> length bs \<le> cd_max_bytes d \<and>
        (\<lambda>(c, h). get_blob st' c h) =
          (\<lambda>(c, h). get_blob st c h)((cd_id d, entity) \<mapsto> \<lparr>cb_version = version, cb_dirty = True, cb_bytes = bs\<rparr>)) \<and>
   set_blob_from_slice st d entity version bs = set_blob st d entity version bs"
  by (auto simp: set_blob_from_slice_eq set_blob_cases get_blob_put)

section \<open>Typed access\<close>

context value_codec
begin

lemma set_typed_encoding: "set_typed st d e v cdc x = set_blob st d e v (encoding cdc x)"
  by (simp add: set_typed_def encode_fresh)

lemma set_typed_scratch:
  "set_typed_with_scratch st d e v cdc x sc =
     (fst (set_typed st d e v cdc x), snd (set_typed st d e v cdc x), sc\<lparr>es_bytes := encoding cdc x\<rparr>)"
  by (simp add: set_typed_with_scratch_def set_typed_encoding encode_fresh set_blob_from_slice_eq
      Let_def split: prod.splits)

lemma typed_store_roundtrip:
  "(fst (set_typed st d e v cdc x) = Ok () \<longleftrightarrow>
      cd_storage d = SparseBlob \<and> length (encoding cdc x) \<le> cd_max_bytes d) \<and>
   (fst (set_typed st d e v cdc x) = Ok () \<longrightarrow>
      get_typed (snd (set_typed st d e v cdc x)) (cd_id d) e cdc = Ok x) \<and>
   (fst (set_typed st d e v cdc x) \<noteq> Ok () \<longrightarrow> snd (set_typed st d e v cdc x) = st) \<and>
   (\<exists>sc'. set_typed_with_scratch st d e v cdc x sc =
      (fst (set_typed st d e v cdc x), snd (set_typed st d e v cdc x), sc'))"
  by (auto simp: set_typed_encoding set_typed_scratch set_blob_cases get_typed_def get_blob_put
      decode_encoding)

lemma get_typed_Ok:
  "get_typed st c e cdc = Ok x \<longleftrightarrow> (\<exists>b. get_blob st c e = Some b \<and> cb_bytes b = encoding cdc x)"
proof -
  have "map_err CodecFailed (cc_decode cdc bs) = Ok x \<longleftrightarrow> bs = encoding cdc x" for bs
    by (cases "cc_decode cdc bs") (use decode_iff [of bs x] in auto)
  then show ?thesis by (auto simp: get_typed_def split: option.splits)
qed

end

lemma encoding_lengths:
  "length (encoding u32_le_codec w) = 4" "length (encoding f32_le_codec f) = 4"
  "length (encoding vec3_le_codec p) = 12"
  by (simp_all add: encodings del: to_le.simps)

text \<open>With each built-in codec, a typed write succeeds exactly when the descriptor stores blobs of
  the codec's size, reading it back gives the value that was written, and a failed write changes
  nothing; writing through the caller's scratch buffer gives the same result and the same store.\<close>

theorem typed_values_roundtrip:
  "((fst (set_typed st d e v u32_le_codec w) = Ok () \<longleftrightarrow> cd_storage d = SparseBlob \<and> 4 \<le> cd_max_bytes d) \<and>
    (fst (set_typed st d e v u32_le_codec w) = Ok () \<longrightarrow>
       get_typed (snd (set_typed st d e v u32_le_codec w)) (cd_id d) e u32_le_codec = Ok w) \<and>
    (fst (set_typed st d e v u32_le_codec w) \<noteq> Ok () \<longrightarrow> snd (set_typed st d e v u32_le_codec w) = st) \<and>
    (\<exists>sc'. set_typed_with_scratch st d e v u32_le_codec w sc =
       (fst (set_typed st d e v u32_le_codec w), snd (set_typed st d e v u32_le_codec w), sc'))) \<and>
   ((fst (set_typed st d e v f32_le_codec f) = Ok () \<longleftrightarrow> cd_storage d = SparseBlob \<and> 4 \<le> cd_max_bytes d) \<and>
    (fst (set_typed st d e v f32_le_codec f) = Ok () \<longrightarrow>
       get_typed (snd (set_typed st d e v f32_le_codec f)) (cd_id d) e f32_le_codec = Ok f) \<and>
    (fst (set_typed st d e v f32_le_codec f) \<noteq> Ok () \<longrightarrow> snd (set_typed st d e v f32_le_codec f) = st) \<and>
    (\<exists>sc'. set_typed_with_scratch st d e v f32_le_codec f sc =
       (fst (set_typed st d e v f32_le_codec f), snd (set_typed st d e v f32_le_codec f), sc'))) \<and>
   ((fst (set_typed st d e v vec3_le_codec p) = Ok () \<longleftrightarrow> cd_storage d = SparseBlob \<and> 12 \<le> cd_max_bytes d) \<and>
    (fst (set_typed st d e v vec3_le_codec p) = Ok () \<longrightarrow>
       get_typed (snd (set_typed st d e v vec3_le_codec p)) (cd_id d) e vec3_le_codec = Ok p) \<and>
    (fst (set_typed st d e v vec3_le_codec p) \<noteq> Ok () \<longrightarrow> snd (set_typed st d e v vec3_le_codec p) = st) \<and>
    (\<exists>sc'. set_typed_with_scratch st d e v vec3_le_codec p sc =
       (fst (set_typed st d e v vec3_le_codec p), snd (set_typed st d e v vec3_le_codec p), sc')))"
  using u32_value.typed_store_roundtrip [of st d e v w sc] f32_value.typed_store_roundtrip [of st d e v f sc]
    vec3_value.typed_store_roundtrip [of st d e v p sc]
  unfolding encoding_lengths by blast

theorem typed_values_roundtrip_witness:
  "get_typed (snd (set_typed component_store_new (sparse_blob 300 ''hp'' SyncDelta MigrateCopy 8)
       (EntityHandle 1 0) 5 u32_le_codec 70000)) 300 (EntityHandle 1 0) u32_le_codec = Ok 70000"
  using typed_values_roundtrip [of component_store_new "sparse_blob 300 ''hp'' SyncDelta MigrateCopy 8"
      "EntityHandle 1 0" 5 70000]
  by (simp add: sparse_blob_def)

section \<open>Loops over the columns\<close>

text \<open>The columns in the order of the loops, with their identifiers.\<close>

fun dense_entries :: "usize \<Rightarrow> component_column option list \<Rightarrow> (component_id \<times> component_column) list" where
  "dense_entries i [] = []"
| "dense_entries i (None # cs) = dense_entries (i + 1) cs"
| "dense_entries i (Some col # cs) = (of_nat i, col) # dense_entries (i + 1) cs"

definition store_entries :: "component_store \<Rightarrow> (component_id \<times> component_column) list" where
  "store_entries st =
     dense_entries 0 (dense_columns st) @
     map (\<lambda>k. (k, the (fmlookup (sparse_columns st) k))) (sorted_list_of_fset (fmdom (sparse_columns st)))"

definition store_wf :: "component_store \<Rightarrow> bool" where
  "store_wf st \<longleftrightarrow> length (dense_columns st) \<le> DENSE_COMPONENT_COLUMN_LIMIT \<and>
     (\<forall>c. fmlookup (sparse_columns st) c \<noteq> None \<longrightarrow> DENSE_COMPONENT_COLUMN_LIMIT \<le> unat c)"

definition map_columns :: "(component_column \<Rightarrow> component_column) \<Rightarrow> component_store \<Rightarrow> component_store" where
  "map_columns g st =
     \<lparr>dense_columns = map (map_option g) (dense_columns st), sparse_columns = fmmap g (sparse_columns st)\<rparr>"

lemma visit_dense_fold:
  assumes "\<And>i col a. i < n \<Longrightarrow> f i col a = (g col, h (of_nat i) col a)"
  shows "i + length cs \<le> n \<Longrightarrow>
    visit_dense f i cs a = (map (map_option g) cs, fold (\<lambda>(c, col). h c col) (dense_entries i cs) a)"
proof (induction cs arbitrary: i a)
  case (Cons c cs)
  then show ?case by (cases c) (simp_all add: assms)
qed simp

lemma visit_sparse_fold:
  assumes f: "\<And>k col a. f k col a = (g col, h k col a)"
  shows "distinct ks \<Longrightarrow> (\<And>k. k \<in> set ks \<Longrightarrow> fmlookup m k \<noteq> None) \<Longrightarrow>
    snd (visit_sparse f ks m a) = fold (\<lambda>(c, col). h c col) (map (\<lambda>k. (k, the (fmlookup m k))) ks) a \<and>
    fmlookup (fst (visit_sparse f ks m a)) c =
      (if c \<in> set ks then map_option g (fmlookup m c) else fmlookup m c)"
proof (induction ks arbitrary: m a)
  case (Cons k ks)
  obtain col where col: "fmlookup m k = Some col" using Cons.prems(2) [of k] by auto
  let ?m = "fmupd k (g col) m"
  have same: "map (\<lambda>j. (j, the (fmlookup ?m j))) ks = map (\<lambda>j. (j, the (fmlookup m j))) ks"
    using Cons.prems(1) by (intro map_cong) auto
  have "distinct ks" "\<And>j. j \<in> set ks \<Longrightarrow> fmlookup ?m j \<noteq> None"
    using Cons.prems by auto
  from Cons.IH [OF this, of "h k col a", unfolded same] show ?case
    using Cons.prems(1) by (auto simp: col f)
qed simp

lemma keys_of_fmap: "k \<in> set (sorted_list_of_fset (fmdom m)) \<longleftrightarrow> fmlookup m k \<noteq> None"
  by (simp add: fmlookup_dom_iff)

lemma visit_columns_fold:
  assumes wf: "store_wf st" and f: "\<And>i col a. i < 256 \<Longrightarrow> f i col a = (g col, h (of_nat i) col a)"
    and f': "\<And>k col a. f' k col a = (g col, h k col a)"
  shows "visit_columns f f' st a = (map_columns g st, fold (\<lambda>(c, col). h c col) (store_entries st) a)"
proof -
  let ?ks = "sorted_list_of_fset (fmdom (sparse_columns st))"
  let ?a = "fold (\<lambda>(c, col). h c col) (dense_entries 0 (dense_columns st)) a"
  have dense: "visit_dense f 0 (dense_columns st) a = (map (map_option g) (dense_columns st), ?a)"
    by (rule visit_dense_fold [where n = 256 and g = g and h = h])
      (use wf in \<open>simp_all add: f store_wf_def DENSE_COMPONENT_COLUMN_LIMIT_def\<close>)
  have sparse: "snd (visit_sparse f' ?ks (sparse_columns st) ?a) =
      fold (\<lambda>(c, col). h c col) (map (\<lambda>k. (k, the (fmlookup (sparse_columns st) k))) ?ks) ?a \<and>
      fmlookup (fst (visit_sparse f' ?ks (sparse_columns st) ?a)) c =
      (if c \<in> set ?ks then map_option g (fmlookup (sparse_columns st) c) else fmlookup (sparse_columns st) c)" for c
    by (rule visit_sparse_fold [OF f']) (simp_all add: fmlookup_dom_iff sorted_list_of_fset.rep_eq)
  have "fst (visit_sparse f' ?ks (sparse_columns st) ?a) = fmmap g (sparse_columns st)"
    using sparse by (intro fmap_ext) (auto simp: fmlookup_dom_iff)
  with sparse have "visit_sparse f' ?ks (sparse_columns st) ?a = (fmmap g (sparse_columns st),
      fold (\<lambda>(c, col). h c col) (map (\<lambda>k. (k, the (fmlookup (sparse_columns st) k))) ?ks) ?a)"
    by (metis prod.collapse)
  then show ?thesis by (simp add: visit_columns_def dense map_columns_def store_entries_def)
qed

lemma store_column_map: "store_column (map_columns g st) c = map_option g (store_column st c)"
  by (cases "vec_get (dense_columns st) (unat c)")
    (auto simp: store_column_def map_columns_def vec_get_def Let_def split: if_splits)

lemma map_columns_wf: "store_wf st \<Longrightarrow> store_wf (map_columns g st)"
  by (simp add: store_wf_def map_columns_def)

lemma dense_entries_in:
  "(c, col) \<in> set (dense_entries i cs) \<longleftrightarrow> (\<exists>k < length cs. cs ! k = Some col \<and> c = of_nat (i + k))"
proof (induction i cs rule: dense_entries.induct)
  case (2 i cs)
  then show ?case by (auto simp: less_Suc_eq_0_disj)
next
  case (3 i col' cs)
  then show ?case by (auto simp: less_Suc_eq_0_disj)
qed simp

lemma unat_of_nat_component: "n < 65536 \<Longrightarrow> unat (of_nat n :: u16) = n"
  by (simp add: unat_of_nat)

lemma dense_entries_range:
  "(c, col) \<in> set (dense_entries i cs) \<Longrightarrow> i + length cs \<le> 256 \<Longrightarrow> i \<le> unat c \<and> unat c < i + length cs"
  by (auto simp: dense_entries_in unat_of_nat_component simp del: of_nat_add)

lemma dense_entries_sorted:
  "i + length cs \<le> 256 \<Longrightarrow> sorted_wrt (<) (map fst (dense_entries i cs))"
proof (induction i cs rule: dense_entries.induct)
  case (3 i col cs)
  have "of_nat i < c" if "(c, d) \<in> set (dense_entries (i + 1) cs)" for c d
    using dense_entries_range [OF that] 3(2) by (simp add: word_less_nat_alt unat_of_nat_component)
  then show ?case using 3 by auto
qed simp_all

lemma store_entries_sorted:
  assumes "store_wf st"
  shows "sorted_wrt (<) (map fst (store_entries st))"
proof -
  have len: "0 + length (dense_columns st) \<le> 256"
    using assms by (simp add: store_wf_def DENSE_COMPONENT_COLUMN_LIMIT_def)
  have "c < k" if "(c, col) \<in> set (dense_entries 0 (dense_columns st))" "fmlookup (sparse_columns st) k \<noteq> None"
    for c col k
    using dense_entries_range [OF that(1) len] that(2) assms len
    by (auto simp: store_wf_def DENSE_COMPONENT_COLUMN_LIMIT_def word_less_nat_alt)
  moreover have "sorted_wrt (<) (sorted_list_of_fset (fmdom (sparse_columns st)))"
    by (simp add: strict_sorted_iff sorted_list_of_fset.rep_eq)
  ultimately show ?thesis
    using dense_entries_sorted [OF len]
    by (auto simp: store_entries_def sorted_wrt_append comp_def fmlookup_dom_iff)
qed

lemma store_entries_in:
  assumes "store_wf st"
  shows "(c, col) \<in> set (store_entries st) \<longleftrightarrow> store_column st c = Some col"
proof -
  have len: "length (dense_columns st) \<le> 256"
    using assms by (simp add: store_wf_def DENSE_COMPONENT_COLUMN_LIMIT_def)
  have dense: "(c, col) \<in> set (dense_entries 0 (dense_columns st)) \<longleftrightarrow>
      unat c < 256 \<and> vec_get (dense_columns st) (unat c) = Some (Some col)"
    using len of_nat_unat [of c, where 'a = "16 word"]
    by (force simp: dense_entries_in vec_get_Some_iff unat_of_nat_component)
  have "(c, col) \<in> set (map (\<lambda>k. (k, the (fmlookup (sparse_columns st) k)))
      (sorted_list_of_fset (fmdom (sparse_columns st)))) \<longleftrightarrow> fmlookup (sparse_columns st) c = Some col"
    by (auto simp: fmlookup_dom_iff image_iff)
  with dense assms show ?thesis
    by (auto simp: store_entries_def store_column_def store_wf_def DENSE_COMPONENT_COLUMN_LIMIT_def
        Let_def Option.bind_eq_Some_conv)
qed

lemma store_entries_length: "store_wf st \<Longrightarrow> length (store_entries st) \<le> 65536"
proof -
  assume "store_wf st"
  then have "distinct (map fst (store_entries st))"
    using store_entries_sorted strict_sorted_iff by blast
  then have "length (map fst (store_entries st)) = card (set (map fst (store_entries st)))"
    by (simp only: distinct_card)
  also have "\<dots> \<le> card (UNIV :: component_id set)" by (rule card_mono) simp_all
  finally show ?thesis by (simp add: card_word)
qed

section \<open>Removing an entity\<close>

definition entity_blobs :: "component_store \<Rightarrow> entity_handle \<Rightarrow> (component_id \<times> component_blob) list" where
  "entity_blobs st e = List.map_filter (\<lambda>(c, col). map_option (Pair c) (fmlookup col e)) (store_entries st)"

lemma map_filter_in:
  "(c, b) \<in> set (List.map_filter (\<lambda>(c, x). map_option (Pair c) (f x)) xs) \<longleftrightarrow> (\<exists>x. (c, x) \<in> set xs \<and> f x = Some b)"
  by (induction xs) (auto simp: List.map_filter_simps split: option.splits)

lemma map_filter_sorted_keys:
  "sorted_wrt (<) (map fst xs) \<Longrightarrow>
   sorted_wrt (<) (map fst (List.map_filter (\<lambda>(c, x). map_option (Pair c) (f x)) xs))"
proof (induction xs)
  case (Cons p xs)
  have "fst p < c" if "(c, b) \<in> set (List.map_filter (\<lambda>(c, x). map_option (Pair c) (f x)) xs)" for c b
    using that Cons.prems by (fastforce simp: map_filter_in)
  with Cons show ?case
    by (cases p) (auto simp: List.map_filter_simps split: option.splits)
qed (simp add: List.map_filter_simps)

lemma map_filter_length: "length (List.map_filter f xs) \<le> length xs"
  by (induction xs) (auto simp: List.map_filter_simps split: option.splits)

lemma entity_blobs_sorted: "store_wf st \<Longrightarrow> sorted_wrt (<) (map fst (entity_blobs st e))"
  by (simp add: entity_blobs_def map_filter_sorted_keys store_entries_sorted)

lemma entity_blobs_in: "store_wf st \<Longrightarrow> (c, b) \<in> set (entity_blobs st e) \<longleftrightarrow> get_blob st c e = Some b"
  by (auto simp: entity_blobs_def map_filter_in store_entries_in get_blob_def Option.bind_eq_Some_conv)

lemma entity_blobs_length: "store_wf st \<Longrightarrow> length (entity_blobs st e) \<le> 65536"
  using store_entries_length [of st] unfolding entity_blobs_def
  by (blast intro: le_trans map_filter_length)

lemma fmdrop_absent: "fmlookup m k = None \<Longrightarrow> fmdrop k m = m"
  by (rule fmap_ext) auto

definition push_removed ::
  "entity_handle \<Rightarrow> component_id \<Rightarrow> component_column \<Rightarrow> (component_id \<times> component_blob) list option \<Rightarrow>
   (component_id \<times> component_blob) list option" where
  "push_removed e c col rs =
     (case fmlookup col e of Some b \<Rightarrow> map_option (\<lambda>xs. xs @ [(c, b)]) rs | None \<Rightarrow> rs)"

lemma fold_push_removed:
  "fold (\<lambda>(c, col). push_removed e c col) xs (Some acc) =
     Some (acc @ List.map_filter (\<lambda>(c, col). map_option (Pair c) (fmlookup col e)) xs)"
  by (induction xs arbitrary: acc) (auto simp: push_removed_def List.map_filter_simps split: option.splits)

lemma fold_count_removed:
  "n + length (List.map_filter (\<lambda>(c, col). map_option (Pair c) (fmlookup col e)) xs) \<le> usize_max \<Longrightarrow>
   fold (\<lambda>(c, col) k. usize_add k (if fmlookup col e \<noteq> None then 1 else 0)) xs n =
     n + length (List.map_filter (\<lambda>(c, col). map_option (Pair c) (fmlookup col e)) xs)"
proof (induction xs arbitrary: n)
  case (Cons p xs)
  then show ?case
    by (cases p) (auto simp: List.map_filter_simps usize_add_small split: option.splits)
qed (simp add: List.map_filter_simps)

lemma remove_entity_into_result:
  assumes "store_wf st"
  shows "remove_entity_into st e old =
    Some (length (entity_blobs st e), entity_blobs st e, map_columns (fmdrop e) st)"
proof -
  have dense: "remove_dense_body e i col rs = (fmdrop e col, push_removed e (of_nat i) col rs)"
    if "i < 256" for i col rs
    using that by (cases rs) (auto simp: remove_dense_body_def push_removed_def fmdrop_absent split: option.splits)
  have sparse: "remove_sparse_body e c col rs = (fmdrop e col, push_removed e c col rs)" for c col rs
    by (auto simp: remove_sparse_body_def push_removed_def fmdrop_absent split: option.splits)
  have "visit_columns (remove_dense_body e) (remove_sparse_body e) st (Some []) =
      (map_columns (fmdrop e) st, fold (\<lambda>(c, col). push_removed e c col) (store_entries st) (Some []))"
    by (rule visit_columns_fold [OF assms, where g = "fmdrop e" and h = "push_removed e"])
      (simp_all add: dense sparse)
  then show ?thesis by (simp add: remove_entity_into_def fold_push_removed entity_blobs_def)
qed

lemma clear_entity_result:
  assumes "store_wf st"
  shows "clear_entity st e = (length (entity_blobs st e), map_columns (fmdrop e) st)"
proof -
  have "visit_columns (\<lambda>_. clear_entity_body e) (\<lambda>_. clear_entity_body e) st 0 =
      (map_columns (fmdrop e) st,
       fold (\<lambda>(c, col) k. usize_add k (if fmlookup col e \<noteq> None then 1 else 0)) (store_entries st) 0)"
    by (rule visit_columns_fold [OF assms]) (simp_all add: clear_entity_body_def)
  moreover have "0 + length (entity_blobs st e) \<le> usize_max"
    using entity_blobs_length [OF assms, of e] by (simp add: usize_max_def)
  ultimately show ?thesis
    using fold_count_removed [of 0 e "store_entries st"] by (simp add: clear_entity_def entity_blobs_def)
qed

definition clean :: "entity_handle \<Rightarrow> component_column \<Rightarrow> component_column" where
  "clean e col =
     (case fmlookup col e of Some b \<Rightarrow> fmupd e (b\<lparr>cb_dirty := False\<rparr>) col | None \<Rightarrow> col)"

lemma clear_dirty_result:
  assumes "store_wf st"
  shows "clear_dirty_for_entity st e =
    (length (filter (\<lambda>(c, b). cb_dirty b) (entity_blobs st e)), map_columns (clean e) st)"
proof -
  let ?h = "\<lambda>(c :: component_id) col (k :: nat). case fmlookup col e of
      Some b \<Rightarrow> if cb_dirty b then k + 1 else k | None \<Rightarrow> k"
  have "b\<lparr>cb_dirty := False\<rparr> = b" if "\<not> cb_dirty b" for b :: component_blob
    using that by (cases b) simp
  moreover have "fmupd e b col = col" if "fmlookup col e = Some b" for b and col :: component_column
    by (rule fmap_ext) (use that in auto)
  ultimately have body: "clear_dirty_body e col k = (clean e col, ?h c col k)" for c col k
    by (auto simp: clear_dirty_body_def clean_def split: option.splits)
  have "visit_columns (\<lambda>_. clear_dirty_body e) (\<lambda>_. clear_dirty_body e) st 0 =
      (map_columns (clean e) st, fold (\<lambda>(c, col). ?h c col) (store_entries st) 0)"
    by (rule visit_columns_fold [OF assms, where g = "clean e" and h = ?h]) (simp_all add: body)
  moreover have count: "fold (\<lambda>(c, col). ?h c col) xs n = n + length (filter (\<lambda>(c, b). cb_dirty b)
      (List.map_filter (\<lambda>(c, col). map_option (Pair c) (fmlookup col e)) xs))" for xs n
    by (induction xs arbitrary: n) (auto simp: List.map_filter_simps split: option.splits)
  ultimately have "visit_columns (\<lambda>_. clear_dirty_body e) (\<lambda>_. clear_dirty_body e) st 0 =
      (map_columns (clean e) st, 0 + length (filter (\<lambda>(c, b). cb_dirty b)
        (List.map_filter (\<lambda>(c, col). map_option (Pair c) (fmlookup col e)) (store_entries st))))"
    by (simp only: count)
  then show ?thesis by (simp add: clear_dirty_for_entity_def entity_blobs_def)
qed

lemma get_blob_map_columns:
  "get_blob (map_columns (fmdrop e) st) c h = (if h = e then None else get_blob st c h)"
  "get_blob (map_columns (clean e) st) c h =
     (if h = e then map_option (\<lambda>b. b\<lparr>cb_dirty := False\<rparr>) (get_blob st c h) else get_blob st c h)"
  by (cases "store_column st c"; auto simp: get_blob_def store_column_map clean_def split: option.splits)+

section \<open>Reachable stores\<close>

lemma column_mut_wf: "store_wf st \<Longrightarrow> store_wf (column_mut st c f)"
  by (auto simp: store_wf_def column_mut_def Let_def DENSE_COMPONENT_COLUMN_LIMIT_def)

lemma set_blob_wf: "store_wf st \<Longrightarrow> set_blob st d e v bs = (res, st') \<Longrightarrow> store_wf st'"
  by (auto simp: set_blob_cases column_mut_wf split: if_splits)

lemma get_blob_mut_wf: "store_wf st \<Longrightarrow> get_blob_mut st c e f = (hit, st') \<Longrightarrow> store_wf st'"
  by (auto simp: get_blob_mut_def store_wf_def Let_def split: if_splits option.splits)

lemma copy_blobs_wf: "store_wf st \<Longrightarrow> store_wf (snd (copy_blobs ds source target st n))"
  by (induction ds source target st n rule: copy_blobs.induct) (auto simp: column_mut_wf split: option.splits)

inductive store_step :: "component_store \<Rightarrow> component_store \<Rightarrow> bool" where
  step_reserve: "store_step st (reserve_component st c)"
| step_set: "set_blob st d e v bs = (res, st') \<Longrightarrow> store_step st st'"
| step_set_slice: "set_blob_from_slice st d e v bs = (res, st') \<Longrightarrow> store_step st st'"
| step_write: "get_blob_mut st c e f = (hit, st') \<Longrightarrow> store_step st st'"
| step_clear_dirty: "clear_dirty_for_entity st e = (n, st') \<Longrightarrow> store_step st st'"
| step_remove: "remove_entity_into st e old = Some (n, removed, st') \<Longrightarrow> store_step st st'"
| step_clear: "clear_entity st e = (n, st') \<Longrightarrow> store_step st st'"
| step_migrate: "copy_for_migration st r source target = (n, st') \<Longrightarrow> store_step st st'"

inductive store_reachable :: "component_store \<Rightarrow> bool" where
  store_start: "store_reachable component_store_new"
| store_next: "store_reachable st \<Longrightarrow> store_step st st' \<Longrightarrow> store_reachable st'"

lemma store_step_wf: "store_step st st' \<Longrightarrow> store_wf st \<Longrightarrow> store_wf st'"
proof (induction rule: store_step.induct)
  case (step_migrate st r source target n st')
  then show ?case using copy_blobs_wf [of st "registry_iter r" source target 0]
    by (simp add: copy_for_migration_def)
qed (auto simp: reserve_component_def column_mut_wf set_blob_from_slice_eq clear_dirty_result
    remove_entity_into_result clear_entity_result map_columns_wf intro: set_blob_wf get_blob_mut_wf)

lemma store_reachable_wf: "store_reachable st \<Longrightarrow> store_wf st"
proof (induction rule: store_reachable.induct)
  case store_start
  show ?case by (simp add: store_wf_def component_store_new_def)
qed (rule store_step_wf)

text \<open>Removing an entity returns exactly its blobs, each once and in component order, never
  panics whatever columns exist, and takes nothing from any other entity; clearing the entity leaves
  the same store and counts the same blobs. Clearing the dirty flags counts exactly the dirty blobs
  of that entity and changes nothing else.\<close>

theorem entity_removal_exact:
  assumes "store_reachable st"
  shows "\<exists>removed st'. remove_entity_into st e old = Some (length removed, removed, st') \<and>
      remove_entity st e = Some (removed, st') \<and> clear_entity st e = (length removed, st') \<and>
      sorted_wrt (<) (map fst removed) \<and>
      (\<forall>c b. (c, b) \<in> set removed \<longleftrightarrow> get_blob st c e = Some b) \<and>
      (\<forall>c h. get_blob st' c h = (if h = e then None else get_blob st c h)) \<and>
      (\<exists>st2. clear_dirty_for_entity st e = (length (filter (\<lambda>(c, b). cb_dirty b) removed), st2) \<and>
        (\<forall>c h. get_blob st2 c h =
          (if h = e then map_option (\<lambda>b. b\<lparr>cb_dirty := False\<rparr>) (get_blob st c h) else get_blob st c h)))"
proof -
  have wf: "store_wf st" using assms by (rule store_reachable_wf)
  show ?thesis
    by (intro exI [of _ "entity_blobs st e"] exI [of _ "map_columns (fmdrop e) st"]
        exI [of _ "map_columns (clean e) st"] conjI)
      (simp_all add: remove_entity_into_result [OF wf] clear_entity_result [OF wf] remove_entity_def
        entity_blobs_sorted [OF wf] entity_blobs_in [OF wf] get_blob_map_columns clear_dirty_result [OF wf])
qed

definition demo_store :: component_store where
  "demo_store =
     snd (set_blob (snd (set_blob component_store_new
       (sparse_blob 300 ''far'' SyncDelta MigrateCopy 8) (EntityHandle 1 0) 5 [1, 2]))
       (sparse_blob 2 ''near'' SyncDelta MigrateDrop 8) (EntityHandle 1 0) 6 [3])"

lemma demo_store_reachable: "store_reachable demo_store"
  unfolding demo_store_def
  by (rule store_next [OF store_next [OF store_start]])
    (rule step_set, rule surjective_pairing)+

theorem entity_removal_exact_witness:
  "\<exists>removed st'. remove_entity demo_store (EntityHandle 1 0) = Some (removed, st') \<and>
     (300, \<lparr>cb_version = 5, cb_dirty = True, cb_bytes = [1, 2]\<rparr>) \<in> set removed \<and>
     get_blob st' 2 (EntityHandle 1 0) = None"
proof -
  have "get_blob demo_store 300 (EntityHandle 1 0) = Some \<lparr>cb_version = 5, cb_dirty = True, cb_bytes = [1, 2]\<rparr>"
    by (simp add: demo_store_def set_blob_cases sparse_blob_def get_blob_put)
  moreover obtain removed st' where "remove_entity demo_store (EntityHandle 1 0) = Some (removed, st')"
    "\<forall>c b. (c, b) \<in> set removed \<longleftrightarrow> get_blob demo_store c (EntityHandle 1 0) = Some b"
    "\<forall>c h. get_blob st' c h = (if h = EntityHandle 1 0 then None else get_blob demo_store c h)"
    using entity_removal_exact [OF demo_store_reachable, of "EntityHandle 1 0"] by blast
  ultimately show ?thesis by (intro exI [of _ removed] exI [of _ st']) auto
qed

section \<open>Migration\<close>

lemma copy_blobs_result:
  "get_blob (snd (copy_blobs ds source target st n)) c h =
     (if h = target \<and> get_blob st c source \<noteq> None \<and> (\<exists>d \<in> set ds. cd_id d = c \<and> cd_migration d = MigrateCopy)
      then get_blob st c source else get_blob st c h)"
  "fst (copy_blobs ds source target st n) =
     n + length (filter (\<lambda>d. cd_migration d = MigrateCopy \<and> get_blob st (cd_id d) source \<noteq> None) ds)"
proof (induction ds source target st n rule: copy_blobs.induct)
  case (2 d ds source target st n)
  have same: "get_blob (column_mut st (cd_id d) (fmupd target b)) c source = get_blob st c source"
    if "get_blob st (cd_id d) source = Some b" for b c
    using that by (auto simp: get_blob_put)
  { case 1
    show ?case using 2
      by (cases "get_blob st (cd_id d) source") (auto simp: same get_blob_put)
  next
    case 2
    show ?case using "2.IH"(2,4,6)
      by (cases "get_blob st (cd_id d) source") (auto simp: same)
  }
qed simp_all

text \<open>Copying for a migration gives the target exactly the source's blobs of the components
  registered for copying, bytes, version and dirty flag included, and counts them; every other blob
  of the target, the source itself and all other entities keep what they had.\<close>

theorem migration_copies_exactly:
  assumes "registry_reachable r"
  shows "\<exists>st'. copy_for_migration st r source target =
      (length (filter (\<lambda>d. cd_migration d = MigrateCopy \<and> get_blob st (cd_id d) source \<noteq> None) (registry_iter r)), st') \<and>
    (\<forall>c h. get_blob st' c h =
      (if h = target \<and> get_blob st c source \<noteq> None \<and>
          (case registry_get r c of Some d \<Rightarrow> cd_migration d = MigrateCopy | None \<Rightarrow> False)
       then get_blob st c source else get_blob st c h))"
proof -
  have wf: "registry_wf r" using assms by (rule registry_reachable_wf)
  have "(\<exists>d \<in> set (registry_iter r). cd_id d = c \<and> cd_migration d = MigrateCopy) \<longleftrightarrow>
      (case registry_get r c of Some d \<Rightarrow> cd_migration d = MigrateCopy | None \<Rightarrow> False)" for c
    using registry_get_id [OF wf, of c]
    by (cases "registry_get r c") (auto simp: registry_iter_get [OF wf])
  then have get: "get_blob (snd (copy_for_migration st r source target)) c h =
      (if h = target \<and> get_blob st c source \<noteq> None \<and>
          (case registry_get r c of Some d \<Rightarrow> cd_migration d = MigrateCopy | None \<Rightarrow> False)
       then get_blob st c source else get_blob st c h)" for c h
    by (simp only: copy_for_migration_def copy_blobs_result(1))
  have count: "fst (copy_for_migration st r source target) =
      length (filter (\<lambda>d. cd_migration d = MigrateCopy \<and> get_blob st (cd_id d) source \<noteq> None) (registry_iter r))"
    unfolding copy_for_migration_def copy_blobs_result(2) by (rule add_0)
  show ?thesis
    by (rule exI [of _ "snd (copy_for_migration st r source target)"])
      (simp only: count [symmetric] prod.collapse get simp_thms)
qed

definition demo_copy_registry :: component_registry where
  "demo_copy_registry = snd (registry_register registry_new (sparse_blob 300 ''far'' SyncDelta MigrateCopy 8))"

theorem migration_copies_exactly_witness:
  "\<exists>st'. copy_for_migration demo_store demo_copy_registry
      (EntityHandle 1 0) (EntityHandle 4 2) = (1, st') \<and>
    get_blob st' 300 (EntityHandle 4 2) = Some \<lparr>cb_version = 5, cb_dirty = True, cb_bytes = [1, 2]\<rparr> \<and>
    get_blob st' 2 (EntityHandle 4 2) = None"
proof -
  let ?d = "sparse_blob 300 ''far'' SyncDelta MigrateCopy 8"
  have reach: "registry_reachable demo_copy_registry" unfolding demo_copy_registry_def
    by (rule registry_descriptor [OF registry_start, of ?d "fst (registry_register registry_new ?d)"]) simp
  have iter: "registry_iter demo_copy_registry = [?d]" by code_simp
  have get: "registry_get demo_copy_registry 300 = Some ?d" "registry_get demo_copy_registry 2 = None"
    by code_simp+
  have d: "cd_migration ?d = MigrateCopy" "cd_id ?d = 300" by (simp_all add: sparse_blob_def)
  have blobs: "get_blob demo_store 300 (EntityHandle 1 0) = Some \<lparr>cb_version = 5, cb_dirty = True, cb_bytes = [1, 2]\<rparr>"
    "get_blob demo_store c (EntityHandle 4 2) = None" for c
    by (auto simp: demo_store_def set_blob_cases sparse_blob_def get_blob_put)
  obtain st' where st': "copy_for_migration demo_store demo_copy_registry (EntityHandle 1 0) (EntityHandle 4 2) =
      (length (filter (\<lambda>d. cd_migration d = MigrateCopy \<and> get_blob demo_store (cd_id d) (EntityHandle 1 0) \<noteq> None)
        (registry_iter demo_copy_registry)), st')"
    "\<forall>c h. get_blob st' c h =
      (if h = EntityHandle 4 2 \<and> get_blob demo_store c (EntityHandle 1 0) \<noteq> None \<and>
          (case registry_get demo_copy_registry c of Some d \<Rightarrow> cd_migration d = MigrateCopy | None \<Rightarrow> False)
       then get_blob demo_store c (EntityHandle 1 0) else get_blob demo_store c h)"
    using migration_copies_exactly [OF reach, of demo_store "EntityHandle 1 0" "EntityHandle 4 2"] by blast
  then show ?thesis by (intro exI [of _ st']) (simp add: iter get d blobs)
qed

end
