(* ===== verification/Frame_Builder.thy ===== *)
theory Frame_Builder
  imports Wire Component_Store Replication_Planner
begin

text \<open>
  Building replication frames from a plan (\<open>ReplicationFrameBuilder\<close> of
  \<open>crates/sectorsync-wire/src/lib.rs\<close>): the builder materializes the dirty components of the planned
  entities as a frame; the direct encoder writes the same frame into the output buffer without the
  intermediate tree, under a byte budget, patching counts afterwards and cutting off the entity that
  would exceed the budget.
\<close>

section \<open>Limits and statistics\<close>

record frame_limits =
  fl_max_entity_deltas :: usize
  fl_max_components_per_entity :: usize
  fl_max_component_bytes :: usize

definition default_frame_limits :: frame_limits where
  "default_frame_limits =
     \<lparr>fl_max_entity_deltas = 256, fl_max_components_per_entity = 16, fl_max_component_bytes = 1024\<rparr>"

type_synonym component_selection = "component_id list"

record build_stats =
  fs_planned_entities :: usize
  fs_encoded_entities :: usize
  fs_encoded_components :: usize
  fs_skipped_entities_by_limit :: usize
  fs_skipped_entities_by_frame_bytes :: usize
  fs_skipped_components_by_limit :: usize
  fs_skipped_components_by_size :: usize

definition build_stats_new :: "usize \<Rightarrow> build_stats" where
  "build_stats_new planned =
     \<lparr>fs_planned_entities = planned, fs_encoded_entities = 0, fs_encoded_components = 0,
      fs_skipped_entities_by_limit = 0, fs_skipped_entities_by_frame_bytes = 0,
      fs_skipped_components_by_limit = 0, fs_skipped_components_by_size = 0\<rparr>"

definition BINARY_HEADER_BYTES :: usize where "BINARY_HEADER_BYTES = 29"
definition BINARY_ENTITY_METADATA_BYTES :: usize where "BINARY_ENTITY_METADATA_BYTES = 18"
definition BINARY_COMPONENT_METADATA_BYTES :: usize where "BINARY_COMPONENT_METADATA_BYTES = 15"

definition u32_try_or_max :: "usize \<Rightarrow> u32" where
  "u32_try_or_max n = (if n < 2 ^ 32 then of_nat n else - 1)"

section \<open>Capacity hints\<close>

definition binary_capacity_hint :: "frame_limits \<Rightarrow> replication_plan \<Rightarrow> component_selection \<Rightarrow> usize" where
  "binary_capacity_hint limits plan selection =
     (let entities = min (length (rp_entities plan)) (fl_max_entity_deltas limits);
          components = min (length selection) (fl_max_components_per_entity limits);
          fixed_bytes = usize_add BINARY_HEADER_BYTES (usize_mul entities
            (usize_add BINARY_ENTITY_METADATA_BYTES (usize_mul components BINARY_COMPONENT_METADATA_BYTES)));
          maximum_payload_bytes = usize_mul (usize_mul entities components) (fl_max_component_bytes limits)
      in usize_add fixed_bytes (min (ps_estimated_bytes (rp_stats plan)) maximum_payload_bytes))"

fun entity_bytes_loop ::
  "frame_limits \<Rightarrow> component_store \<Rightarrow> entity_handle \<Rightarrow> component_id list \<Rightarrow> usize \<Rightarrow> usize \<Rightarrow> usize \<times> usize" where
  "entity_bytes_loop limits cs h [] bytes n = (bytes, n)"
| "entity_bytes_loop limits cs h (c # ids) bytes n =
     (if fl_max_components_per_entity limits \<le> n then (bytes, n)
      else case get_blob cs c h of
             None \<Rightarrow> entity_bytes_loop limits cs h ids bytes n
           | Some blob \<Rightarrow>
               if \<not> cb_dirty blob \<or> fl_max_component_bytes limits < length (cb_bytes blob)
               then entity_bytes_loop limits cs h ids bytes n
               else entity_bytes_loop limits cs h ids
                      (usize_add (usize_add bytes BINARY_COMPONENT_METADATA_BYTES) (length (cb_bytes blob))) (n + 1))"

definition binary_entity_bytes ::
  "frame_limits \<Rightarrow> station \<Rightarrow> entity_handle \<Rightarrow> component_store \<Rightarrow> component_selection \<Rightarrow> usize" where
  "binary_entity_bytes limits st h cs selection =
     (if station_get st h = None then 0
      else case entity_bytes_loop limits cs h selection BINARY_ENTITY_METADATA_BYTES 0 of
             (bytes, n) \<Rightarrow> if n = 0 then 0 else bytes)"

fun sample_bytes_loop ::
  "frame_limits \<Rightarrow> station \<Rightarrow> entity_handle list \<Rightarrow> component_store \<Rightarrow> component_selection \<Rightarrow> usize \<Rightarrow> nat list \<Rightarrow>
   usize \<Rightarrow> usize option" where
  "sample_bytes_loop limits st entities cs selection samples [] total_bytes = Some total_bytes"
| "sample_bytes_loop limits st entities cs selection samples (k # ks) total_bytes =
     (let numerator = usize_add (usize_mul k 2) 1;
          index = usize_mul numerator (length entities) div usize_mul samples 2;
          bytes = binary_entity_bytes limits st (entities ! min index (length entities - 1)) cs selection
      in if bytes = 0 then None
         else sample_bytes_loop limits st entities cs selection samples ks (usize_add total_bytes bytes))"

definition sampled_binary_capacity_hint ::
  "frame_limits \<Rightarrow> station \<Rightarrow> replication_plan \<Rightarrow> component_store \<Rightarrow> component_selection \<Rightarrow> usize" where
  "sampled_binary_capacity_hint limits st plan cs selection =
     (let candidates = length (rp_entities plan); samples = min candidates 4 in
      if samples = 0 then 0
      else case sample_bytes_loop limits st (rp_entities plan) cs selection samples [0..<samples] 0 of
             None \<Rightarrow> 0
           | Some sampled_bytes \<Rightarrow>
               let scaled = usize_mul sampled_bytes candidates;
                   estimated_entity_bytes = scaled div samples + (if scaled mod samples = 0 then 0 else 1);
                   maximum_entities = min candidates (fl_max_entity_deltas limits);
                   maximum_components = min (length selection) (fl_max_components_per_entity limits);
                   maximum_entity_bytes = usize_add BINARY_ENTITY_METADATA_BYTES
                     (usize_mul maximum_components
                       (usize_add BINARY_COMPONENT_METADATA_BYTES (fl_max_component_bytes limits)))
               in usize_add BINARY_HEADER_BYTES
                    (min estimated_entity_bytes (usize_mul maximum_entities maximum_entity_bytes)))"

section \<open>Building a frame\<close>

record built_frame =
  fb_frame :: replication_frame
  fb_stats :: build_stats

text \<open>The inner loop over the selected components of one entity.\<close>

fun build_components ::
  "frame_limits \<Rightarrow> component_store \<Rightarrow> entity_handle \<Rightarrow> component_id list \<Rightarrow> build_stats \<Rightarrow> usize \<Rightarrow>
   component_delta list \<Rightarrow> build_stats \<times> usize \<times> component_delta list" where
  "build_components limits cs h [] stats est deltas = (stats, est, deltas)"
| "build_components limits cs h (c # ids) stats est deltas =
     (if fl_max_components_per_entity limits \<le> length deltas
      then build_components limits cs h ids
             (stats\<lparr>fs_skipped_components_by_limit := fs_skipped_components_by_limit stats + 1\<rparr>) est deltas
      else case get_blob cs c h of
             None \<Rightarrow> build_components limits cs h ids stats est deltas
           | Some blob \<Rightarrow>
               if \<not> cb_dirty blob then build_components limits cs h ids stats est deltas
               else if fl_max_component_bytes limits < length (cb_bytes blob)
               then build_components limits cs h ids
                      (stats\<lparr>fs_skipped_components_by_size := fs_skipped_components_by_size stats + 1\<rparr>) est deltas
               else build_components limits cs h ids stats
                      (usize_add (usize_add est 15) (length (cb_bytes blob)))
                      (deltas @ [\<lparr>cd_component_id = c, cd_version = cb_version blob, cd_flags = 0,
                                  cd_bytes = cb_bytes blob\<rparr>]))"

fun build_entities ::
  "frame_limits \<Rightarrow> station \<Rightarrow> component_store \<Rightarrow> component_selection \<Rightarrow> entity_handle list \<Rightarrow> build_stats \<Rightarrow> usize \<Rightarrow>
   entity_delta list \<Rightarrow> build_stats \<times> usize \<times> entity_delta list" where
  "build_entities limits st cs selection [] stats est deltas = (stats, est, deltas)"
| "build_entities limits st cs selection (h # hs) stats est deltas =
     (if fl_max_entity_deltas limits \<le> length deltas
      then build_entities limits st cs selection hs
             (stats\<lparr>fs_skipped_entities_by_limit := fs_skipped_entities_by_limit stats + 1\<rparr>) est deltas
      else case station_get st h of
             None \<Rightarrow> build_entities limits st cs selection hs stats est deltas
           | Some entity \<Rightarrow>
               (case build_components limits cs h selection stats est [] of
                  (stats, est, comps) \<Rightarrow>
                    if comps = [] then build_entities limits st cs selection hs stats est deltas
                    else build_entities limits st cs selection hs
                           (stats\<lparr>fs_encoded_components := fs_encoded_components stats + length comps\<rparr>)
                           (usize_add est 18)
                           (deltas @ [\<lparr>ed_entity_id = er_id entity, ed_owner_epoch = role_epoch (er_role entity),
                                       ed_components = comps\<rparr>])))"

definition frame_build ::
  "frame_limits \<Rightarrow> client_id \<Rightarrow> tick \<Rightarrow> station \<Rightarrow> replication_plan \<Rightarrow> component_store \<Rightarrow> component_selection \<Rightarrow>
   built_frame" where
  "frame_build limits client_id server_tick st plan cs selection =
     (case build_entities limits st cs selection (rp_entities plan) (build_stats_new (length (rp_entities plan))) 0 [] of
        (stats, est, deltas) \<Rightarrow>
          \<lparr>fb_frame = \<lparr>rf_client_id = client_id, rf_server_tick = server_tick,
             rf_entity_count = u32_try_or_max (length (rp_entities plan)),
             rf_estimated_payload_bytes = u32_try_or_max est, rf_entities = deltas\<rparr>,
           fb_stats = stats\<lparr>fs_encoded_entities := length deltas\<rparr>\<rparr>)"

section \<open>Encoding directly\<close>

text \<open>\<open>out[off..off + n].copy_from_slice\<close>.\<close>

definition patch :: "bytes \<Rightarrow> nat \<Rightarrow> bytes \<Rightarrow> bytes" where
  "patch out off bs = take off out @ bs @ drop (off + length bs) out"

fun encode_components ::
  "frame_limits \<Rightarrow> component_store \<Rightarrow> entity_handle \<Rightarrow> component_id list \<Rightarrow> build_stats \<Rightarrow> usize \<Rightarrow> usize \<Rightarrow> bytes \<Rightarrow>
   (binary_encode_error + build_stats \<times> usize \<times> usize) \<times> bytes" where
  "encode_components limits cs h [] stats est n out = (Ok (stats, est, n), out)"
| "encode_components limits cs h (c # ids) stats est n out =
     (if fl_max_components_per_entity limits \<le> n
      then encode_components limits cs h ids
             (stats\<lparr>fs_skipped_components_by_limit := fs_skipped_components_by_limit stats + 1\<rparr>) est n out
      else case get_blob cs c h of
             None \<Rightarrow> encode_components limits cs h ids stats est n out
           | Some blob \<Rightarrow>
               if \<not> cb_dirty blob then encode_components limits cs h ids stats est n out
               else if fl_max_component_bytes limits < length (cb_bytes blob)
               then encode_components limits cs h ids
                      (stats\<lparr>fs_skipped_components_by_size := fs_skipped_components_by_size stats + 1\<rparr>) est n out
               else
                 (case write_bytes ''replication.component.bytes'' (cb_bytes blob)
                         (out @ to_le 2 c @ to_le 8 (cb_version blob) @ [0]) of
                    (Inl e, out) \<Rightarrow> (Err e, out)
                  | (Inr _, out) \<Rightarrow>
                      encode_components limits cs h ids stats
                        (usize_add (usize_add est 15) (length (cb_bytes blob))) (n + 1) out))"

fun encode_entities ::
  "frame_limits \<Rightarrow> station \<Rightarrow> component_store \<Rightarrow> component_selection \<Rightarrow> usize \<Rightarrow> nat \<Rightarrow> entity_handle list \<Rightarrow>
   build_stats \<Rightarrow> usize \<Rightarrow> bytes \<Rightarrow> (binary_encode_error + build_stats \<times> usize) \<times> bytes" where
  "encode_entities limits st cs selection max_frame_bytes frame_start [] stats est out = (Ok (stats, est), out)"
| "encode_entities limits st cs selection max_frame_bytes frame_start (h # hs) stats est out =
     (if fl_max_entity_deltas limits \<le> fs_encoded_entities stats
      then encode_entities limits st cs selection max_frame_bytes frame_start hs
             (stats\<lparr>fs_skipped_entities_by_limit := fs_skipped_entities_by_limit stats + 1\<rparr>) est out
      else case station_get st h of
             None \<Rightarrow> encode_entities limits st cs selection max_frame_bytes frame_start hs stats est out
           | Some entity \<Rightarrow>
               let entity_start = length out;
                   head = out @ to_le 8 (er_id entity) @ to_le 8 (role_epoch (er_role entity));
                   component_count_offset = length head
               in (case encode_components limits cs h selection stats est 0 (head @ to_le 2 (0 :: u16)) of
                     (Inl e, out) \<Rightarrow> (Err e, out)
                   | (Inr (stats, est', n), out) \<Rightarrow>
                       if n = 0 then
                         encode_entities limits st cs selection max_frame_bytes frame_start hs stats est'
                           (take entity_start out)
                       else if max_frame_bytes < length out - frame_start then
                         (Ok (stats\<lparr>fs_skipped_entities_by_frame_bytes :=
                                usize_add (fs_skipped_entities_by_frame_bytes stats) 1\<rparr>, est),
                          take entity_start out)
                       else if 2 ^ 16 \<le> n then (Err (TooManyItems ''replication.entity.components'' n), out)
                       else
                         encode_entities limits st cs selection max_frame_bytes frame_start hs
                           (stats\<lparr>fs_encoded_components := fs_encoded_components stats + n,
                                  fs_encoded_entities := fs_encoded_entities stats + 1\<rparr>)
                           (usize_add est' 18)
                           (patch out component_count_offset (to_le 2 (of_nat n :: u16)))))"

definition encode_binary_bounded_into ::
  "frame_limits \<Rightarrow> client_id \<Rightarrow> tick \<Rightarrow> station \<Rightarrow> replication_plan \<Rightarrow> component_store \<Rightarrow> component_selection \<Rightarrow> usize \<Rightarrow>
   bytes \<Rightarrow> (binary_encode_error + build_stats) \<times> bytes" where
  "encode_binary_bounded_into limits client_id server_tick st plan cs selection max_frame_bytes out =
     (if max_frame_bytes < BINARY_HEADER_BYTES
      then (Err (FrameBudgetTooSmall max_frame_bytes BINARY_HEADER_BYTES), out)
      else
        let frame_start = length out;
            head = out @ [frame_kind_byte FkReplication] @ to_le 8 client_id @ to_le 8 server_tick @
                     to_le 4 (u32_try_or_max (length (rp_entities plan)));
            estimated_payload_offset = length head;
            entity_count_offset = estimated_payload_offset + 4
        in (case encode_entities limits st cs selection max_frame_bytes frame_start (rp_entities plan)
                   (build_stats_new (length (rp_entities plan))) 0
                   (head @ to_le 4 (0 :: u32) @ to_le 4 (0 :: u32)) of
              (Inl e, out) \<Rightarrow> (Err e, out)
            | (Inr (stats, est), out) \<Rightarrow>
                if 2 ^ 32 \<le> fs_encoded_entities stats
                then (Err (TooManyItems ''replication.entities'' (fs_encoded_entities stats)), out)
                else
                  let out = patch out estimated_payload_offset (to_le 4 (u32_try_or_max est));
                      out = patch out entity_count_offset (to_le 4 (of_nat (fs_encoded_entities stats) :: u32))
                  in (Ok stats, out)))"

definition encode_binary_into ::
  "frame_limits \<Rightarrow> client_id \<Rightarrow> tick \<Rightarrow> station \<Rightarrow> replication_plan \<Rightarrow> component_store \<Rightarrow> component_selection \<Rightarrow>
   bytes \<Rightarrow> (binary_encode_error + build_stats) \<times> bytes" where
  "encode_binary_into limits client_id server_tick st plan cs selection out =
     encode_binary_bounded_into limits client_id server_tick st plan cs selection usize_max out"

section \<open>The builder's loops\<close>

definition limits_ok :: "frame_limits \<Rightarrow> bool" where
  "limits_ok limits \<longleftrightarrow>
     fl_max_component_bytes limits < 2 ^ 32 \<and> fl_max_components_per_entity limits < 2 ^ 16 \<and>
     fl_max_entity_deltas limits < 2 ^ 32"

abbreviation components_size :: "component_delta list \<Rightarrow> nat" where
  "components_size ds \<equiv> length (concat (map enc_component ds))"

abbreviation entities_size :: "entity_delta list \<Rightarrow> nat" where
  "entities_size es \<equiv> length (concat (map enc_entity es))"

lemma length_enc_component: "length (enc_component c) = 15 + length (cd_bytes c)"
  by (simp add: enc_component_def enc_bytes_def)

lemma length_enc_entity: "length (enc_entity e) = 18 + components_size (ed_components e)"
  by (simp add: enc_entity_def)

lemma usize_add_min: "usize_add (min a usize_max) b = min (a + b) usize_max"
  by (simp add: usize_add_def min_def)

lemma build_components_encodes:
  assumes small: "fl_max_component_bytes limits < 2 ^ 32"
  shows "build_components limits cs h ids stats est deltas = (stats', est', deltas') \<Longrightarrow>
    encode_components limits cs h ids stats est (length deltas) (out @ concat (map enc_component deltas)) =
      (Ok (stats', est', length deltas'), out @ concat (map enc_component deltas'))"
proof (induction ids arbitrary: stats est deltas)
  case (Cons c ids)
  show ?case
  proof (cases "fl_max_components_per_entity limits \<le> length deltas")
    case True
    then show ?thesis using Cons by simp
  next
    case room: False
    show ?thesis
    proof (cases "get_blob cs c h")
      case None
      then show ?thesis using Cons room by simp
    next
      case (Some blob)
      show ?thesis
      proof (cases "\<not> cb_dirty blob \<or> fl_max_component_bytes limits < length (cb_bytes blob)")
        case True
        then show ?thesis using Cons room Some by (auto split: if_splits)
      next
        case False
        let ?d = "\<lparr>cd_component_id = c, cd_version = cb_version blob, cd_flags = 0, cd_bytes = cb_bytes blob\<rparr>"
        have fits: "length (cb_bytes blob) < 2 ^ 32" using False small by linarith
        have "build_components limits cs h ids stats (usize_add (usize_add est 15) (length (cb_bytes blob))) (deltas @ [?d]) =
            (stats', est', deltas')" using Cons.prems room Some False by simp
        from Cons.IH [OF this] show ?thesis using room Some False fits
          by (simp add: write_bytes_def enc_component_def enc_bytes_def)
      qed
    qed
  qed
qed simp

lemma build_components_result:
  "build_components limits cs h ids stats est deltas = (stats', est', deltas') \<Longrightarrow>
   est = min (b + components_size deltas) usize_max \<Longrightarrow>
   length deltas \<le> fl_max_components_per_entity limits \<Longrightarrow>
   list_all (\<lambda>d. length (cd_bytes d) \<le> fl_max_component_bytes limits) deltas \<Longrightarrow>
   est' = min (b + components_size deltas') usize_max \<and>
   length deltas' \<le> fl_max_components_per_entity limits \<and>
   list_all (\<lambda>d. length (cd_bytes d) \<le> fl_max_component_bytes limits) deltas' \<and>
   fs_encoded_entities stats' = fs_encoded_entities stats \<and>
   fs_skipped_entities_by_frame_bytes stats' = fs_skipped_entities_by_frame_bytes stats"
proof (induction ids arbitrary: stats est deltas)
  case (Cons c ids)
  show ?case
  proof (cases "fl_max_components_per_entity limits \<le> length deltas")
    case True
    show ?thesis using Cons.IH [OF _ Cons.prems(2-4)] Cons.prems(1) True by auto
  next
    case room: False
    show ?thesis
    proof (cases "get_blob cs c h")
      case None
      then show ?thesis using Cons.IH [OF _ Cons.prems(2-4)] Cons.prems(1) room by simp
    next
      case (Some blob)
      show ?thesis
      proof (cases "\<not> cb_dirty blob \<or> fl_max_component_bytes limits < length (cb_bytes blob)")
        case True
        then show ?thesis using Cons.IH [OF _ Cons.prems(2-4)] Cons.prems(1) room Some by (auto split: if_splits)
      next
        case False
        let ?d = "\<lparr>cd_component_id = c, cd_version = cb_version blob, cd_flags = 0, cd_bytes = cb_bytes blob\<rparr>"
        have run: "build_components limits cs h ids stats (usize_add (usize_add est 15) (length (cb_bytes blob))) (deltas @ [?d]) =
            (stats', est', deltas')" using Cons.prems room Some False by simp
        have "usize_add (usize_add est 15) (length (cb_bytes blob)) = min (b + components_size (deltas @ [?d])) usize_max"
          using Cons.prems(2) by (simp add: usize_add_min length_enc_component add.assoc)
        from Cons.IH [OF run this] show ?thesis using Cons.prems(3,4) room False by simp
      qed
    qed
  qed
qed simp

lemma build_components_stats:
  "build_components limits cs h ids (stats\<lparr>fs_encoded_entities := k\<rparr>) est deltas =
     (case build_components limits cs h ids stats est deltas of
        (stats', est', deltas') \<Rightarrow> (stats'\<lparr>fs_encoded_entities := k\<rparr>, est', deltas'))"
proof (induction ids arbitrary: stats est deltas)
  case (Cons c ids)
  have comm: "fs_skipped_components_by_limit_update f (fs_encoded_entities_update g s) =
      fs_encoded_entities_update g (fs_skipped_components_by_limit_update f s)"
    "fs_skipped_components_by_size_update f (fs_encoded_entities_update g s) =
      fs_encoded_entities_update g (fs_skipped_components_by_size_update f s)" for f g and s :: build_stats
    by simp_all
  show ?case by (auto simp: comm Cons.IH split: option.split)
qed simp

lemma patch_middle: "length x = length y \<Longrightarrow> patch (a @ x @ b) (length a) y = a @ y @ b"
  by (simp add: patch_def)

text \<open>One live entity: what the direct encoder does, in terms of the deltas the builder collects.\<close>

lemma encode_entity_step:
  assumes ok: "limits_ok limits"
    and comps: "build_components limits cs h selection stats est [] = (stats1, est1, comps)"
  shows "encode_components limits cs h selection stats est 0 (out @ to_le 8 i @ to_le 8 e @ to_le 2 (0 :: u16)) =
      (Ok (stats1, est1, length comps), out @ to_le 8 i @ to_le 8 e @ to_le 2 (0 :: u16) @ concat (map enc_component comps))"
    "patch (out @ to_le 8 i @ to_le 8 e @ to_le 2 (0 :: u16) @ concat (map enc_component comps))
       (length (out @ to_le 8 i @ to_le 8 e)) (to_le 2 (of_nat (length comps) :: u16)) =
     out @ enc_entity \<lparr>ed_entity_id = i, ed_owner_epoch = e, ed_components = comps\<rparr>"
  using build_components_encodes [OF _ comps, of "out @ to_le 8 i @ to_le 8 e @ to_le 2 (0 :: u16)"] ok
    patch_middle [of "to_le 2 (0 :: u16)" "to_le 2 (of_nat (length comps) :: u16)" "out @ to_le 8 i @ to_le 8 e"]
  by (simp_all add: limits_ok_def enc_entity_def)

definition frame_entity_ok :: "frame_limits \<Rightarrow> entity_delta \<Rightarrow> bool" where
  "frame_entity_ok limits e \<longleftrightarrow>
     length (ed_components e) \<le> fl_max_components_per_entity limits \<and>
     list_all (\<lambda>d. length (cd_bytes d) \<le> fl_max_component_bytes limits) (ed_components e)"

lemma build_entity_step:
  assumes "build_components limits cs h selection stats est [] = (stats1, est1, comps)"
    "est = min n usize_max"
  shows "est1 = min (n + components_size comps) usize_max"
    "frame_entity_ok limits \<lparr>ed_entity_id = i, ed_owner_epoch = e, ed_components = comps\<rparr>"
    "fs_encoded_entities stats1 = fs_encoded_entities stats"
    "fs_skipped_entities_by_frame_bytes stats1 = fs_skipped_entities_by_frame_bytes stats"
    "usize_add est1 18 = min (n + length (enc_entity \<lparr>ed_entity_id = i, ed_owner_epoch = e, ed_components = comps\<rparr>)) usize_max"
  using build_components_result [OF assms(1), of n] assms(2)
  by (simp_all add: frame_entity_ok_def usize_add_min length_enc_entity add.assoc add.commute add.left_commute)

lemma build_entities_result:
  "build_entities limits st cs selection hs stats est deltas = (stats', est', deltas') \<Longrightarrow>
   est = min (entities_size deltas) usize_max \<Longrightarrow> length deltas \<le> fl_max_entity_deltas limits \<Longrightarrow>
   list_all (frame_entity_ok limits) deltas \<Longrightarrow>
   est' = min (entities_size deltas') usize_max \<and> length deltas' \<le> fl_max_entity_deltas limits \<and>
   list_all (frame_entity_ok limits) deltas' \<and> (\<exists>es. deltas' = deltas @ es) \<and>
   fs_skipped_entities_by_frame_bytes stats' = fs_skipped_entities_by_frame_bytes stats"
proof (induction hs arbitrary: stats est deltas)
  case (Cons h hs)
  show ?case
  proof (cases "fl_max_entity_deltas limits \<le> length deltas")
    case True
    then show ?thesis using Cons.IH [OF _ Cons.prems(2-4)] Cons.prems(1) by auto
  next
    case room: False
    show ?thesis
    proof (cases "station_get st h")
      case None
      then show ?thesis using Cons.IH [OF _ Cons.prems(2-4)] Cons.prems(1) room by simp
    next
      case (Some entity)
      obtain stats1 est1 comps where comps: "build_components limits cs h selection stats est [] = (stats1, est1, comps)"
        by (metis prod_cases3)
      let ?e = "\<lparr>ed_entity_id = er_id entity, ed_owner_epoch = role_epoch (er_role entity), ed_components = comps\<rparr>"
      note step = build_entity_step(1,3,4) [OF comps Cons.prems(2)]
        build_entity_step(2,5) [OF comps Cons.prems(2), of "er_id entity" "role_epoch (er_role entity)"]
      show ?thesis
      proof (cases "comps = []")
        case True
        then show ?thesis using Cons.IH [of stats1 est1 deltas] Cons.prems step room Some comps by simp
      next
        case False
        have "build_entities limits st cs selection hs
            (stats1\<lparr>fs_encoded_components := fs_encoded_components stats1 + length comps\<rparr>) (usize_add est1 18) (deltas @ [?e]) =
            (stats', est', deltas')"
          using Cons.prems(1) room Some comps False by simp
        from Cons.IH [OF this] show ?thesis using step Cons.prems room by auto
      qed
    qed
  qed
qed simp

text \<open>The direct encoder writes a prefix of what the builder collects: all of it, or up to the first
  entity that does not fit.\<close>

definition encodes_prefix ::
  "bytes \<Rightarrow> nat \<Rightarrow> usize \<Rightarrow> entity_delta list \<Rightarrow> build_stats \<Rightarrow>
   (binary_encode_error + build_stats \<times> usize) \<times> bytes \<Rightarrow> bool" where
  "encodes_prefix pre start max_bytes deltas' stats' r \<longleftrightarrow>
     (\<exists>stats2 k. r = (Ok (stats2, min (entities_size (take k deltas')) usize_max),
                     pre @ concat (map enc_entity (take k deltas'))) \<and>
        k \<le> length deltas' \<and> fs_encoded_entities stats2 = k \<and>
        length pre - start + entities_size (take k deltas') \<le> max_bytes \<and>
        (if fs_skipped_entities_by_frame_bytes stats2 = 0
         then k = length deltas' \<and> stats2 = stats'\<lparr>fs_encoded_entities := length deltas'\<rparr>
         else k < length deltas' \<and> max_bytes < length pre - start + entities_size (take (Suc k) deltas')))"

lemma encode_entities_prefix:
  assumes ok: "limits_ok limits" and hdr: "start \<le> length pre"
  shows "build_entities limits st cs selection hs stats est deltas = (stats', est', deltas') \<Longrightarrow>
    est = min (entities_size deltas) usize_max \<Longrightarrow> length deltas \<le> fl_max_entity_deltas limits \<Longrightarrow>
    list_all (frame_entity_ok limits) deltas \<Longrightarrow> fs_skipped_entities_by_frame_bytes stats = 0 \<Longrightarrow>
    length pre - start + entities_size deltas \<le> max_bytes \<Longrightarrow>
    encodes_prefix pre start max_bytes deltas' stats'
      (encode_entities limits st cs selection max_bytes start hs (stats\<lparr>fs_encoded_entities := length deltas\<rparr>) est
        (pre @ concat (map enc_entity deltas)))"
proof (induction hs arbitrary: stats est deltas)
  case Nil
  then show ?case unfolding encodes_prefix_def
    by (intro exI [of _ "stats\<lparr>fs_encoded_entities := length deltas\<rparr>"] exI [of _ "length deltas"]) auto
next
  case (Cons h hs)
  let ?enc = "\<lambda>s. s\<lparr>fs_encoded_entities := length deltas\<rparr>"
  let ?go = "\<lambda>hs s est out. encode_entities limits st cs selection max_bytes start hs s est out"
  let ?out = "pre @ concat (map enc_entity deltas)"
  show ?case
  proof (cases "fl_max_entity_deltas limits \<le> length deltas")
    case True
    let ?s = "stats\<lparr>fs_skipped_entities_by_limit := fs_skipped_entities_by_limit stats + 1\<rparr>"
    have run: "build_entities limits st cs selection hs ?s est deltas = (stats', est', deltas')"
      using Cons.prems(1) True by simp
    have "?go (h # hs) (?enc stats) est ?out =
        ?go hs ((?enc stats)\<lparr>fs_skipped_entities_by_limit := fs_skipped_entities_by_limit (?enc stats) + 1\<rparr>) est ?out"
      using True by simp
    also have "(?enc stats)\<lparr>fs_skipped_entities_by_limit := fs_skipped_entities_by_limit (?enc stats) + 1\<rparr> = ?enc ?s" by simp
    finally show ?thesis using Cons.IH [OF run Cons.prems(2-4) _ Cons.prems(6)] Cons.prems(5) by simp
  next
    case room: False
    show ?thesis
    proof (cases "station_get st h")
      case None
      then show ?thesis using Cons.IH [OF _ Cons.prems(2-6)] Cons.prems(1) room by simp
    next
      case (Some entity)
      obtain stats1 est1 comps where comps: "build_components limits cs h selection stats est [] = (stats1, est1, comps)"
        by (metis prod_cases3)
      then have comps_enc: "build_components limits cs h selection (?enc stats) est [] = (?enc stats1, est1, comps)"
        by (simp add: build_components_stats)
      let ?i = "er_id entity" and ?ep = "role_epoch (er_role entity)"
      let ?e = "\<lparr>ed_entity_id = ?i, ed_owner_epoch = ?ep, ed_components = comps\<rparr>"
      note step = build_entity_step(1,3,4) [OF comps Cons.prems(2)] build_entity_step(2,5) [OF comps Cons.prems(2), of ?i ?ep]
      note enc = encode_entity_step [OF ok comps_enc, of ?out ?i ?ep]
      show ?thesis
      proof (cases "comps = []")
        case True
        then have run: "build_entities limits st cs selection hs stats1 est1 deltas = (stats', est', deltas')"
          using Cons.prems(1) room Some comps by simp
        have est1: "est1 = min (entities_size deltas) usize_max" using step(1) True by simp
        have "?go (h # hs) (?enc stats) est ?out = ?go hs (?enc stats1) est1 ?out"
          using room Some enc(1) True by (simp add: Let_def)
        then show ?thesis using Cons.IH [OF run est1 Cons.prems(3,4) _ Cons.prems(6)] step(3) Cons.prems(5) by simp
      next
        case False
        let ?s = "stats1\<lparr>fs_encoded_components := fs_encoded_components stats1 + length comps\<rparr>"
        have run: "build_entities limits st cs selection hs ?s (usize_add est1 18) (deltas @ [?e]) = (stats', est', deltas')"
          using Cons.prems(1) room Some comps False by simp
        have ext: "usize_add est1 18 = min (entities_size (deltas @ [?e])) usize_max"
          "length (deltas @ [?e]) \<le> fl_max_entity_deltas limits" "list_all (frame_entity_ok limits) (deltas @ [?e])"
          using step(4,5) room Cons.prems(4) by simp_all
        obtain es where es: "deltas' = (deltas @ [?e]) @ es"
          using build_entities_result [OF run ext] by blast
        have n16: "\<not> 2 ^ 16 \<le> length comps" using step(4) ok by (simp add: frame_entity_ok_def limits_ok_def)
        have written: "length (?out @ to_le 8 ?i @ to_le 8 ?ep @ to_le 2 (0 :: u16) @ concat (map enc_component comps)) - start =
            length pre - start + entities_size (deltas @ [?e])"
          using hdr by (simp add: length_enc_entity)
        let ?raw = "?out @ to_le 8 ?i @ to_le 8 ?ep @ to_le 2 (0 :: u16) @ concat (map enc_component comps)"
        have unfold_go: "?go (h # hs) (?enc stats) est ?out =
            (if max_bytes < length ?raw - start
             then (Ok ((?enc stats1)\<lparr>fs_skipped_entities_by_frame_bytes :=
                      usize_add (fs_skipped_entities_by_frame_bytes (?enc stats1)) 1\<rparr>, est), take (length ?out) ?raw)
             else ?go hs ((?enc stats1)\<lparr>fs_encoded_components := fs_encoded_components (?enc stats1) + length comps,
                      fs_encoded_entities := fs_encoded_entities (?enc stats1) + 1\<rparr>) (usize_add est1 18)
                    (patch ?raw (length (?out @ to_le 8 ?i @ to_le 8 ?ep)) (to_le 2 (of_nat (length comps) :: u16))))"
          using room Some enc(1) False n16 by (simp add: Let_def)
        show ?thesis
        proof (cases "max_bytes < length pre - start + entities_size (deltas @ [?e])")
          case True
          then have "?go (h # hs) (?enc stats) est ?out =
              (Ok ((?enc stats1)\<lparr>fs_skipped_entities_by_frame_bytes := 1\<rparr>, est), ?out)"
            unfolding unfold_go written using step(3) Cons.prems(5) by (simp add: usize_add_def usize_max_def)
          then show ?thesis using True step Cons.prems(2,6) unfolding encodes_prefix_def
            by (intro exI [of _ "(?enc stats1)\<lparr>fs_skipped_entities_by_frame_bytes := 1\<rparr>"] exI [of _ "length deltas"])
              (simp add: es)
        next
          case fits: False
          have "(?enc stats1)\<lparr>fs_encoded_components := fs_encoded_components (?enc stats1) + length comps,
              fs_encoded_entities := fs_encoded_entities (?enc stats1) + 1\<rparr> = ?s\<lparr>fs_encoded_entities := length (deltas @ [?e])\<rparr>"
            by simp
          then have "?go (h # hs) (?enc stats) est ?out =
              ?go hs (?s\<lparr>fs_encoded_entities := length (deltas @ [?e])\<rparr>) (usize_add est1 18) (pre @ concat (map enc_entity (deltas @ [?e])))"
            unfolding unfold_go written enc(2) using fits by simp
          moreover have "fs_skipped_entities_by_frame_bytes ?s = 0" using step(3) Cons.prems(5) by simp
          moreover have "length pre - start + entities_size (deltas @ [?e]) \<le> max_bytes" using fits by simp
          ultimately show ?thesis using Cons.IH [OF run ext] by simp
        qed
      qed
    qed
  qed
qed

lemma length_enc_frame_replication: "length (enc_frame (RfReplication f)) = 29 + entities_size (rf_entities f)"
  by (simp add: enc_frame_def enc_body_def enc_replication_def)

lemma frame_entity_ok_imp: "limits_ok limits \<Longrightarrow> frame_entity_ok limits e \<Longrightarrow> entity_ok e"
  by (auto simp: limits_ok_def frame_entity_ok_def entity_ok_def list_all_iff bytes_ok_def)

lemma patch_header:
  assumes "head = out @ [frame_kind_byte FkReplication] @ to_le 8 c @ to_le 8 t @ to_le 4 n"
  shows "patch (patch (head @ to_le 4 (0 :: u32) @ to_le 4 (0 :: u32) @ body) (length head) (to_le 4 (x :: u32)))
      (length head + 4) (to_le 4 (y :: u32)) = head @ to_le 4 x @ to_le 4 y @ body"
  using patch_middle [of "to_le 4 (0 :: u32)" "to_le 4 x" head "to_le 4 (0 :: u32) @ body"]
    patch_middle [of "to_le 4 (0 :: u32)" "to_le 4 y" "head @ to_le 4 x" body]
  by simp

lemma take_Suc_size: "k < length es \<Longrightarrow> entities_size (take (Suc k) es) = entities_size (take k es) + length (enc_entity (es ! k))"
  by (simp add: take_Suc_conv_app_nth)

lemma frame_build_entities:
  assumes "build_entities limits st cs selection (rp_entities plan) (build_stats_new (length (rp_entities plan))) 0 [] = (stats, est, deltas)"
  shows "fb_frame (frame_build limits client_id server_tick st plan cs selection) =
      \<lparr>rf_client_id = client_id, rf_server_tick = server_tick, rf_entity_count = u32_try_or_max (length (rp_entities plan)),
       rf_estimated_payload_bytes = u32_try_or_max (min (entities_size deltas) usize_max), rf_entities = deltas\<rparr>"
    "fb_stats (frame_build limits client_id server_tick st plan cs selection) = stats\<lparr>fs_encoded_entities := length deltas\<rparr>"
    "length deltas \<le> fl_max_entity_deltas limits" "list_all (frame_entity_ok limits) deltas"
  using build_entities_result [OF assms] assms by (simp_all add: frame_build_def)

lemma direct_encoding_prefix:
  assumes "limits_ok limits" "built = frame_build limits client_id server_tick st plan cs selection"
    "es = rf_entities (fb_frame built)" and budget: "29 \<le> max_bytes"
  shows "\<exists>stats k f bs. encode_binary_bounded_into limits client_id server_tick st plan cs selection max_bytes out = (Ok stats, out @ bs) \<and>
         encode_replication f out = (Ok (), out @ bs) \<and> length bs \<le> max_bytes \<and>
         rf_client_id f = client_id \<and> rf_server_tick f = server_tick \<and> rf_entities f = take k es \<and>
         fs_encoded_entities stats = length (rf_entities f) \<and>
         (f = fb_frame built \<and> stats = fb_stats built \<or>
          k < length es \<and> max_bytes < length bs + length (enc_entity (es ! k)))"
proof -
  obtain stats1 est1 deltas where run: "build_entities limits st cs selection (rp_entities plan)
      (build_stats_new (length (rp_entities plan))) 0 [] = (stats1, est1, deltas)" by (metis prod_cases3)
  note built = frame_build_entities(1,2) [OF run, of client_id server_tick] frame_build_entities(3,4) [OF run]
  have es: "es = deltas" unfolding assms(2,3) built(1) by simp
  define head where "head = out @ [frame_kind_byte FkReplication] @ to_le 8 client_id @ to_le 8 server_tick @
      to_le 4 (u32_try_or_max (length (rp_entities plan)))"
  let ?pre = "head @ to_le 4 (0 :: u32) @ to_le 4 (0 :: u32)"
  have pre: "length out \<le> length ?pre" "length ?pre - length out = 29" by (simp_all add: head_def)
  have "(build_stats_new n)\<lparr>fs_encoded_entities := length []\<rparr> = build_stats_new n"
    "fs_skipped_entities_by_frame_bytes (build_stats_new n) = 0" for n by (simp_all add: build_stats_new_def)
  then have "encodes_prefix ?pre (length out) max_bytes deltas stats1
      (encode_entities limits st cs selection max_bytes (length out) (rp_entities plan)
        (build_stats_new (length (rp_entities plan))) 0 ?pre)"
    using encode_entities_prefix [OF assms(1) pre(1) run, of max_bytes] budget pre(2) by simp
  then obtain stats k where enc: "encode_entities limits st cs selection max_bytes (length out) (rp_entities plan)
        (build_stats_new (length (rp_entities plan))) 0 ?pre =
        (Ok (stats, min (entities_size (take k deltas)) usize_max), ?pre @ concat (map enc_entity (take k deltas)))"
    and k: "k \<le> length deltas" "fs_encoded_entities stats = k" "29 + entities_size (take k deltas) \<le> max_bytes"
    and full: "if fs_skipped_entities_by_frame_bytes stats = 0
       then k = length deltas \<and> stats = stats1\<lparr>fs_encoded_entities := length deltas\<rparr>
       else k < length deltas \<and> max_bytes < 29 + entities_size (take (Suc k) deltas)"
    unfolding encodes_prefix_def pre(2) by blast
  define f where "f = \<lparr>rf_client_id = client_id, rf_server_tick = server_tick,
      rf_entity_count = u32_try_or_max (length (rp_entities plan)),
      rf_estimated_payload_bytes = u32_try_or_max (min (entities_size (take k deltas)) usize_max), rf_entities = take k deltas\<rparr>"
  let ?bs = "enc_frame (RfReplication f)"
  have k32: "k < 2 ^ 32" using k(1) built(3) assms(1) by (simp add: limits_ok_def)
  have "replication_ok f"
    using k32 k(1) built(4) frame_entity_ok_imp [OF assms(1)]
    by (auto simp: replication_ok_def f_def list_all_iff dest!: in_set_takeD)
  then have "encode_replication f out = (Ok (), out @ ?bs)" using encode_replication_cases(1) by (simp add: writes_def)
  moreover have "encode_binary_bounded_into limits client_id server_tick st plan cs selection max_bytes out = (Ok stats, out @ ?bs)"
  proof -
    have "out @ ?bs = head @ to_le 4 (u32_try_or_max (min (entities_size (take k deltas)) usize_max)) @ to_le 4 (of_nat k :: u32) @
        concat (map enc_entity (take k deltas))"
      using k(1) by (simp add: enc_frame_def enc_body_def enc_replication_def kind_of_def head_def f_def)
    then show ?thesis
      using budget k32 k(2) enc patch_header [OF head_def, of "concat (map enc_entity (take k deltas))"]
      by (simp add: encode_binary_bounded_into_def BINARY_HEADER_BYTES_def Let_def head_def [symmetric] del: append_assoc)
         (simp add: head_def)
  qed
  moreover have "length ?bs \<le> max_bytes" using k(3) by (simp add: length_enc_frame_replication f_def)
  moreover have "f = fb_frame built \<and> stats = fb_stats built \<or> k < length es \<and> max_bytes < length ?bs + length (enc_entity (es ! k))"
    using full built(1,2) unfolding assms(2)
    by (auto simp: f_def es length_enc_frame_replication take_Suc_size split: if_splits)
  ultimately show ?thesis
    using k(1,2) es by (intro exI [of _ stats] exI [of _ k] exI [of _ f] exI [of _ ?bs]) (simp add: f_def)
qed

text \<open>C20. Encoding a plan directly under a byte budget never fails when the budget holds the header, and
  appends exactly the bytes the frame encoder writes for the built frame cut to its first entities: all
  of them, with the builder's statistics, or as many as fit, the next one then being too large. The
  appended bytes stay within the budget; a budget below the header is refused and nothing is written.\<close>

theorem direct_encoding_is_build:
  assumes "limits_ok limits" "built = frame_build limits client_id server_tick st plan cs selection"
    "es = rf_entities (fb_frame built)"
  shows "(max_bytes < 29 \<longrightarrow>
      encode_binary_bounded_into limits client_id server_tick st plan cs selection max_bytes out =
        (Err (FrameBudgetTooSmall max_bytes 29), out)) \<and>
    (29 \<le> max_bytes \<longrightarrow>
      (\<exists>stats k f bs. encode_binary_bounded_into limits client_id server_tick st plan cs selection max_bytes out = (Ok stats, out @ bs) \<and>
         encode_replication f out = (Ok (), out @ bs) \<and> length bs \<le> max_bytes \<and>
         rf_client_id f = client_id \<and> rf_server_tick f = server_tick \<and> rf_entities f = take k es \<and>
         fs_encoded_entities stats = length (rf_entities f) \<and>
         (f = fb_frame built \<and> stats = fb_stats built \<or>
          k < length es \<and> max_bytes < length bs + length (enc_entity (es ! k)))))"
proof (intro conjI impI)
  show "encode_binary_bounded_into limits client_id server_tick st plan cs selection max_bytes out =
      (Err (FrameBudgetTooSmall max_bytes 29), out)" if "max_bytes < 29"
    using that by (simp add: encode_binary_bounded_into_def BINARY_HEADER_BYTES_def)
qed (rule direct_encoding_prefix [OF assms])

lemma default_limits_ok: "limits_ok default_frame_limits"
  by (simp add: limits_ok_def default_frame_limits_def)

theorem direct_encoding_is_build_witness:
  "encode_binary_bounded_into default_frame_limits 1 2 (demo_station 1 9) default_plan component_store_new [5] 12 [7] =
     (Err (FrameBudgetTooSmall 12 29), [7]) \<and>
   (\<exists>stats bs. encode_binary_bounded_into default_frame_limits 1 2 (demo_station 1 9) default_plan component_store_new [5] 64 [7] =
     (Ok stats, [7] @ bs) \<and> length bs \<le> 64)"
  using direct_encoding_is_build [OF default_limits_ok refl refl, of 12 1 2 "demo_station 1 9" default_plan component_store_new "[5]" "[7]"]
    direct_encoding_is_build [OF default_limits_ok refl refl, of 64 1 2 "demo_station 1 9" default_plan component_store_new "[5]" "[7]"]
  by auto

end
