(* ===== verification/Byte_Cursor.thy ===== *)
theory Byte_Cursor
  imports Codec
begin

text \<open>
  The bounds-checked cursors of the transport crate. \<open>SecurityCursor\<close> and \<open>ReliableCursor\<close> are
  the wire cursor again with other error types, so the operations here take the constructors of
  the truncation and trailing-bytes errors as arguments. Reading an encoding back and recognising
  one are proved once for both.
\<close>

definition tc_require :: "(usize \<Rightarrow> usize \<Rightarrow> 'e) \<Rightarrow> cursor \<Rightarrow> usize \<Rightarrow> 'e + unit" where
  "tc_require trunc c count =
     (let needed = usize_add (cur_offset c) count in
      if needed > length (cur_input c) then Err (trunc needed (length (cur_input c))) else Ok ())"

definition tc_slice :: "(usize \<Rightarrow> usize \<Rightarrow> 'e) \<Rightarrow> usize \<Rightarrow> cursor \<Rightarrow> 'e + (bytes \<times> cursor)" where
  "tc_slice trunc n c =
     and_then (tc_require trunc c n) (\<lambda>_.
       Ok (take n (drop (cur_offset c) (cur_input c)), c\<lparr>cur_offset := cur_offset c + n\<rparr>))"

definition tc_u8 :: "(usize \<Rightarrow> usize \<Rightarrow> 'e) \<Rightarrow> cursor \<Rightarrow> 'e + (u8 \<times> cursor)" where
  "tc_u8 trunc c =
     and_then (tc_require trunc c 1) (\<lambda>_.
       Ok (cur_input c ! cur_offset c, c\<lparr>cur_offset := cur_offset c + 1\<rparr>))"

text \<open>\<open>read_array\<close> followed by \<open>from_le_bytes\<close>.\<close>

definition tc_word :: "(usize \<Rightarrow> usize \<Rightarrow> 'e) \<Rightarrow> usize \<Rightarrow> cursor \<Rightarrow> 'e + ('a::len word \<times> cursor)" where
  "tc_word trunc n c = and_then (tc_slice trunc n c) (\<lambda>(bs, c'). Ok (from_le bs, c'))"

definition tc_finish :: "(usize \<Rightarrow> 'e) \<Rightarrow> cursor \<Rightarrow> 'e + unit" where
  "tc_finish trail c =
     (if cur_offset c = length (cur_input c) then Ok ()
      else Err (trail (length (cur_input c) - cur_offset c)))"

text \<open>\<open>at pre bs\<close>: the cursor after \<open>pre\<close>, before \<open>bs\<close>.\<close>

definition cursor_at :: "bytes \<Rightarrow> bytes \<Rightarrow> cursor" where
  "cursor_at pre bs = \<lparr>cur_input = pre @ bs, cur_offset = length pre\<rparr>"

lemma cursor_new_at: "cursor_new bs = cursor_at [] bs"
  by (simp add: cursor_new_def cursor_at_def)

lemma tc_slice_at:
  "length (pre @ bs) < usize_max \<Longrightarrow>
   tc_slice trunc n (cursor_at pre bs) =
     (if n \<le> length bs then Ok (take n bs, cursor_at (pre @ take n bs) (drop n bs))
      else Err (trunc (usize_add (length pre) n) (length (pre @ bs))))"
  by (auto simp: tc_slice_def tc_require_def cursor_at_def usize_add_def Let_def)

lemma tc_word_at:
  "length (pre @ bs) < usize_max \<Longrightarrow>
   tc_word trunc n (cursor_at pre bs) =
     (if n \<le> length bs then Ok (from_le (take n bs), cursor_at (pre @ take n bs) (drop n bs))
      else Err (trunc (usize_add (length pre) n) (length (pre @ bs))))"
  by (simp add: tc_word_def tc_slice_at)

lemma tc_u8_at:
  "length (pre @ bs) < usize_max \<Longrightarrow>
   tc_u8 trunc (cursor_at pre bs) =
     (case bs of b # r \<Rightarrow> Ok (b, cursor_at (pre @ [b]) r)
      | [] \<Rightarrow> Err (trunc (usize_add (length pre) 1) (length pre)))"
  by (cases bs) (auto simp: tc_u8_def tc_require_def cursor_at_def usize_add_def Let_def nth_append)

lemma tc_finish_at:
  "tc_finish trail (cursor_at pre bs) = (if bs = [] then Ok () else Err (trail (length bs)))"
  by (simp add: tc_finish_def cursor_at_def)

lemmas tc_at = tc_slice_at tc_word_at tc_u8_at tc_finish_at

text \<open>What a successful read says about the input.\<close>

lemma tc_slice_Ok:
  assumes "tc_slice trunc n (cursor_at pre bs) = Ok (x, c)" "length (pre @ bs) < usize_max"
  obtains r where "bs = x @ r" "length x = n" "c = cursor_at (pre @ x) r"
  using that [of "drop n bs"] assms by (auto simp: tc_slice_at split: if_splits)

lemma tc_word_Ok:
  assumes "tc_word trunc n (cursor_at pre bs) = Ok (w :: 'a::len word, c)" "length (pre @ bs) < usize_max"
    "LENGTH('a) = 8 * n"
  obtains r where "bs = to_le n w @ r" "c = cursor_at (pre @ to_le n w) r"
proof -
  have n: "n \<le> length bs" and w: "w = from_le (take n bs)" and c: "c = cursor_at (pre @ take n bs) (drop n bs)"
    using assms by (auto simp: tc_word_at split: if_splits)
  have "to_le n w = take n bs" using to_le_from_le [of "take n bs", where 'a = 'a] n w assms(3) by simp
  then show thesis using that [of "drop n bs"] c by simp
qed

lemma tc_u8_Ok:
  assumes "tc_u8 trunc (cursor_at pre bs) = Ok (b, c)" "length (pre @ bs) < usize_max"
  obtains r where "bs = b # r" "c = cursor_at (pre @ [b]) r"
  using that assms by (cases bs) (auto simp: tc_u8_at)

end
