(* ===== verification/Recent_History.thy ===== *)
theory Recent_History
  imports Sync_Prelude
begin

text \<open>
  Bounded duplicate suppression of the transport crate: the lookup set whose representation is
  chosen once from its capacity (\<open>BoundedLookupSet\<close>), and the discipline that the packet replay
  window and the receivers of both reliable links follow: a set of keys beside the queue of their
  arrival order, trimmed from the front. The locale \<open>recent_history\<close> states the contract (the
  history holds the last \<open>limit\<close> accepted keys) and derives that a key repeats only after more
  than \<open>limit\<close> other acceptances.
\<close>

section \<open>The lookup set\<close>

datatype 'k lookup_set = OrderedSet "'k fset" | HashedSet "'k fset"

definition HASHED_BOUNDED_SET_MIN_CAPACITY :: usize where
  "HASHED_BOUNDED_SET_MIN_CAPACITY = 256"

definition lset_new :: "usize \<Rightarrow> 'k lookup_set" where
  "lset_new max_entries =
     (if max_entries \<ge> HASHED_BOUNDED_SET_MIN_CAPACITY then HashedSet {||} else OrderedSet {||})"

definition lset_len :: "'k lookup_set \<Rightarrow> usize" where
  "lset_len s = (case s of OrderedSet e \<Rightarrow> fcard e | HashedSet e \<Rightarrow> fcard e)"

definition lset_is_empty :: "'k lookup_set \<Rightarrow> bool" where
  "lset_is_empty s = (case s of OrderedSet e \<Rightarrow> e = {||} | HashedSet e \<Rightarrow> e = {||})"

definition lset_contains :: "'k lookup_set \<Rightarrow> 'k \<Rightarrow> bool" where
  "lset_contains s k = (case s of OrderedSet e \<Rightarrow> k |\<in>| e | HashedSet e \<Rightarrow> k |\<in>| e)"

definition lset_insert :: "'k lookup_set \<Rightarrow> 'k \<Rightarrow> 'k lookup_set" where
  "lset_insert s k =
     (case s of OrderedSet e \<Rightarrow> OrderedSet (finsert k e) | HashedSet e \<Rightarrow> HashedSet (finsert k e))"

definition lset_remove :: "'k lookup_set \<Rightarrow> 'k \<Rightarrow> 'k lookup_set" where
  "lset_remove s k =
     (case s of OrderedSet e \<Rightarrow> OrderedSet (e |-| {|k|}) | HashedSet e \<Rightarrow> HashedSet (e |-| {|k|}))"

definition lset_keys :: "'k lookup_set \<Rightarrow> 'k set" where
  "lset_keys s = (case s of OrderedSet e \<Rightarrow> fset e | HashedSet e \<Rightarrow> fset e)"

lemma lset_contains_keys: "lset_contains s k \<longleftrightarrow> k \<in> lset_keys s"
  by (simp add: lset_contains_def lset_keys_def split: lookup_set.splits)

lemma lset_len_keys: "lset_len s = card (lset_keys s)"
  by (simp add: lset_len_def lset_keys_def fcard.rep_eq split: lookup_set.splits)

lemma lset_is_empty_len: "lset_is_empty s \<longleftrightarrow> lset_len s = 0"
  by (auto simp: lset_is_empty_def lset_len_def split: lookup_set.splits)

lemma lset_keys_simps [simp]:
  "lset_keys (lset_new n) = {}"
  "lset_keys (lset_insert s k) = insert k (lset_keys s)"
  "lset_keys (lset_remove s k) = lset_keys s - {k}"
  by (auto simp: lset_keys_def lset_new_def lset_insert_def lset_remove_def split: lookup_set.splits)

section \<open>Trimming\<close>

text \<open>The loop that pops the oldest keys while the queue is over its limit; on an empty queue its
  condition is false.\<close>

fun trim_history :: "usize \<Rightarrow> 'k lookup_set \<Rightarrow> 'k list \<Rightarrow> 'k lookup_set \<times> 'k list" where
  "trim_history limit seen [] = (seen, [])"
| "trim_history limit seen (old # order) =
     (if length (old # order) > limit then trim_history limit (lset_remove seen old) order
      else (seen, old # order))"

text \<open>The last \<open>n\<close> elements of a list.\<close>

definition last_n :: "nat \<Rightarrow> 'a list \<Rightarrow> 'a list" where
  "last_n n xs = drop (length xs - n) xs"

lemma length_last_n [simp]: "length (last_n n xs) = min n (length xs)"
  by (auto simp: last_n_def)

lemma last_n_all: "length xs \<le> n \<Longrightarrow> last_n n xs = xs"
  by (simp add: last_n_def)

lemma last_n_Cons: "length xs < n \<Longrightarrow> last_n n (x # xs) = x # xs"
  "n \<le> length xs \<Longrightarrow> last_n n (x # xs) = last_n n xs"
  by (simp_all add: last_n_def Suc_diff_le)

lemma last_n_push: "last_n n (last_n n xs @ [x]) = last_n n (xs @ [x])"
  by (cases "length xs \<le> n") (simp_all add: last_n_def Suc_diff_le)

lemma set_last_n: "set (last_n n xs) \<subseteq> set xs"
  by (simp add: last_n_def set_drop_subset)

lemma distinct_last_n: "distinct xs \<Longrightarrow> distinct (last_n n xs)"
  by (simp add: last_n_def)

lemma trim_history_spec:
  "lset_keys seen = set order \<Longrightarrow> distinct order \<Longrightarrow>
   snd (trim_history n seen order) = last_n n order \<and>
   lset_keys (fst (trim_history n seen order)) = set (last_n n order)"
proof (induction n seen order rule: trim_history.induct)
  case (2 n seen old order)
  show ?case
  proof (cases "length (old # order) > n")
    case True
    moreover have "lset_keys (lset_remove seen old) = set order" using "2.prems" by auto
    ultimately show ?thesis using 2 by (simp add: last_n_Cons)
  next
    case False
    then show ?thesis using "2.prems" by (simp add: last_n_all)
  qed
qed (simp add: last_n_def)

text \<open>Recording a new key and trimming, as every user of the discipline does.\<close>

lemma trim_push:
  assumes trim: "trim_history n (lset_insert seen k) (order @ [k]) = (seen', order')"
    and wf: "distinct order" "lset_keys seen = set order" and new: "k \<notin> set order"
  shows "order' = last_n n (order @ [k])" "lset_keys seen' = set order'" "distinct order'" "length order' \<le> n"
proof -
  have d: "distinct (order @ [k])" using wf new by simp
  show o: "order' = last_n n (order @ [k])" and "lset_keys seen' = set order'"
    using trim_history_spec [OF _ d, of "lset_insert seen k" n] wf trim by simp_all
  show "distinct order'" "length order' \<le> n" unfolding o by (rule distinct_last_n [OF d], simp)
qed

section \<open>Spaced logs\<close>

definition spaced :: "nat \<Rightarrow> 'k list \<Rightarrow> bool" where
  "spaced n ks \<longleftrightarrow> (\<forall>i j. i < j \<longrightarrow> j < length ks \<longrightarrow> ks ! i = ks ! j \<longrightarrow> i + n < j)"

lemma spaced_Nil [simp]: "spaced n []"
  by (simp add: spaced_def)

lemma distinct_spaced: "distinct ks \<Longrightarrow> spaced n ks"
  by (auto simp: spaced_def nth_eq_iff_index_eq)

lemma spaced_snoc:
  assumes "spaced n ks" "k \<notin> set (last_n n ks)"
  shows "spaced n (ks @ [k])"
  unfolding spaced_def
proof (intro allI impI)
  fix i j assume ij: "i < j" "j < length (ks @ [k])" "(ks @ [k]) ! i = (ks @ [k]) ! j"
  show "i + n < j"
  proof (cases "j < length ks")
    case True
    then show ?thesis using assms(1) ij unfolding spaced_def by (auto simp: nth_append)
  next
    case False
    then have j: "j = length ks" and k: "ks ! i = k" using ij by (auto simp: nth_append)
    show ?thesis
    proof (rule ccontr)
      assume "\<not> i + n < j"
      then have "ks ! i = last_n n ks ! (i - (length ks - n))" "i - (length ks - n) < length (last_n n ks)"
        using ij j by (simp_all add: last_n_def)
      then show False using assms(2) k by (metis nth_mem)
    qed
  qed
qed

lemma spaced_append1: "spaced n (ks @ ls) \<Longrightarrow> spaced n ks"
  unfolding spaced_def
proof (intro allI impI)
  fix i j assume sp: "\<forall>i j. i < j \<longrightarrow> j < length (ks @ ls) \<longrightarrow> (ks @ ls) ! i = (ks @ ls) ! j \<longrightarrow> i + n < j"
    and ij: "i < j" "j < length ks" "ks ! i = ks ! j"
  then show "i + n < j" using sp [rule_format, of i j] by (simp add: nth_append)
qed

text \<open>A spaced log with few keys has no repetition at all.\<close>

lemma spaced_distinct: "spaced n ks \<Longrightarrow> card (set ks) \<le> n \<Longrightarrow> distinct ks"
proof (induction ks rule: rev_induct)
  case (snoc k ks)
  have "card (set ks) \<le> n" using snoc.prems(2) by (auto simp: card_insert_if split: if_splits)
  with snoc have d: "distinct ks" using spaced_append1 by blast
  then have len: "length ks \<le> n" using \<open>card (set ks) \<le> n\<close> by (simp add: distinct_card)
  have "k \<notin> set ks"
  proof
    assume "k \<in> set ks"
    then obtain i where "i < length ks" "ks ! i = k" by (auto simp: in_set_conv_nth)
    then have "i + n < length ks"
      using snoc.prems(1) unfolding spaced_def
      by (metis length_append_singleton lessI nth_append nth_append_length)
    then show False using len by simp
  qed
  with d show ?case by simp
qed simp

section \<open>The contract\<close>

text \<open>A run offers keys one after another; the result lists the accepted ones in order.\<close>

fun run_accepts :: "('s \<Rightarrow> 'k \<Rightarrow> bool \<times> 's) \<Rightarrow> 's \<Rightarrow> 'k list \<Rightarrow> 'k list \<times> 's" where
  "run_accepts accept s [] = ([], s)"
| "run_accepts accept s (k # ks) =
     (case accept s k of (ok, s1) \<Rightarrow>
        case run_accepts accept s1 ks of (acc, s2) \<Rightarrow> (if ok then k # acc else acc, s2))"

locale recent_history =
  fixes accept :: "'s \<Rightarrow> 'k \<Rightarrow> bool \<times> 's" and recent :: "'s \<Rightarrow> 'k list"
    and limit :: "'s \<Rightarrow> nat" and wf :: "'s \<Rightarrow> bool"
  assumes accepts_fresh: "wf s \<Longrightarrow> fst (accept s k) \<longleftrightarrow> limit s = 0 \<or> k \<notin> set (recent s)"
    and recent_accept: "wf s \<Longrightarrow> recent (snd (accept s k)) =
        (if limit s = 0 \<or> k \<in> set (recent s) then recent s else last_n (limit s) (recent s @ [k]))"
    and wf_accept: "wf s \<Longrightarrow> wf (snd (accept s k))"
    and limit_accept: "limit (snd (accept s k)) = limit s"
    and wf_recent: "wf s \<Longrightarrow> distinct (recent s) \<and> length (recent s) \<le> limit s"
begin

lemma replay_rejected: "wf s \<Longrightarrow> limit s \<noteq> 0 \<Longrightarrow> \<not> fst (accept (snd (accept s k)) k)"
proof -
  assume s: "wf s" "limit s \<noteq> 0"
  have "k \<in> set (recent (snd (accept s k)))"
  proof (cases "k \<in> set (recent s)")
    case False
    have "last_n (limit s) (recent s @ [k]) \<noteq> [] \<and> last (last_n (limit s) (recent s @ [k])) = k"
      using s by (simp add: last_n_def Suc_diff_le)
    then have "k \<in> set (last_n (limit s) (recent s @ [k]))" by (metis last_in_set)
    then show ?thesis using s False by (simp add: recent_accept)
  qed (simp add: recent_accept s)
  then show ?thesis using s by (simp add: accepts_fresh wf_accept limit_accept)
qed

lemma run_spec:
  assumes "wf s" "limit s \<noteq> 0" "spaced (limit s) (log)" "recent s = last_n (limit s) (log)"
  shows "wf (snd (run_accepts accept s ks)) \<and> limit (snd (run_accepts accept s ks)) = limit s \<and>
    recent (snd (run_accepts accept s ks)) = last_n (limit s) (log @ fst (run_accepts accept s ks)) \<and>
    spaced (limit s) (log @ fst (run_accepts accept s ks)) \<and>
    set (fst (run_accepts accept s ks)) \<subseteq> set ks"
  using assms
proof (induction ks arbitrary: s log)
  case (Cons k ks)
  obtain ok s1 where a: "accept s k = (ok, s1)" by fastforce
  have ok: "ok \<longleftrightarrow> k \<notin> set (recent s)" using accepts_fresh [of s k] Cons.prems a by simp
  have s1: "wf s1" "limit s1 = limit s" using wf_accept [of s k] limit_accept [of s k] Cons.prems a by simp_all
  define log1 where "log1 = (if ok then log @ [k] else log)"
  have r: "recent s1 = last_n (limit s) log1"
    using recent_accept [of s k] Cons.prems a ok by (auto simp: log1_def last_n_push)
  have sp: "spaced (limit s) log1"
    using Cons.prems ok by (auto simp: log1_def intro: spaced_snoc)
  obtain acc s2 where run: "run_accepts accept s1 ks = (acc, s2)" by fastforce
  have "wf s2 \<and> limit s2 = limit s \<and> recent s2 = last_n (limit s) (log1 @ acc) \<and>
      spaced (limit s) (log1 @ acc) \<and> set acc \<subseteq> set ks"
    using Cons.IH [of s1 log1] s1 r sp Cons.prems(2) run by simp
  then show ?case using a run by (auto simp: log1_def split: if_splits)
qed simp

text \<open>Offered at most \<open>limit\<close> different keys, a fresh history accepts each of them exactly once.\<close>

lemma run_once:
  assumes "wf s" "limit s \<noteq> 0" "recent s = []" "card (set ks) \<le> limit s"
  shows "distinct (fst (run_accepts accept s ks))"
proof -
  have "spaced (limit s) (fst (run_accepts accept s ks))" "set (fst (run_accepts accept s ks)) \<subseteq> set ks"
    using run_spec [of s "[]" ks] assms by (simp_all add: last_n_def)
  then show ?thesis using assms(4) spaced_distinct
    by (meson List.finite_set card_mono dual_order.trans)
qed

end

end
