(* ===== verification/Packet_Keys.thy ===== *)
theory Packet_Keys
  imports Entities "HOL-Library.Product_Lexorder"
begin

text \<open>
  Packet key lifecycle metadata (\<open>PacketKeyRing\<close> of the transport crate): descriptors with a
  lifecycle state and an activation and expiry tick, the bounded ring that holds them, the
  selection of the key to send with and the check of a received key. The lemmas show that every
  sequence of ring operations keeps the ring bounded and keyed by its own identifiers, that the
  selected key is the best eligible one, and that acceptance is exactly eligibility.
\<close>

section \<open>Data\<close>

datatype packet_key_state = KeyActive | KeyRetiring | KeyRevoked

definition key_can_send :: "packet_key_state \<Rightarrow> bool" where
  "key_can_send s \<longleftrightarrow> s = KeyActive"

definition key_can_accept :: "packet_key_state \<Rightarrow> bool" where
  "key_can_accept s = (case s of KeyActive \<Rightarrow> True | KeyRetiring \<Rightarrow> True | KeyRevoked \<Rightarrow> False)"

record key_descriptor =
  kd_key_id :: u32
  kd_state :: packet_key_state
  kd_created_at :: tick
  kd_activated_at :: tick
  kd_retires_at :: "tick option"
  kd_expires_at :: "tick option"
  kd_send_priority :: u32

definition descriptor_active :: "u32 \<Rightarrow> tick \<Rightarrow> u32 \<Rightarrow> key_descriptor" where
  "descriptor_active k now prio =
     \<lparr>kd_key_id = k, kd_state = KeyActive, kd_created_at = now, kd_activated_at = now,
      kd_retires_at = None, kd_expires_at = None, kd_send_priority = prio\<rparr>"

definition with_expiry :: "key_descriptor \<Rightarrow> tick \<Rightarrow> key_descriptor" where
  "with_expiry d t = d\<lparr>kd_expires_at := Some t\<rparr>"

definition is_activated_at :: "key_descriptor \<Rightarrow> tick \<Rightarrow> bool" where
  "is_activated_at d now \<longleftrightarrow> now \<ge> kd_activated_at d"

definition is_expired_at :: "key_descriptor \<Rightarrow> tick \<Rightarrow> bool" where
  "is_expired_at d now = (case kd_expires_at d of None \<Rightarrow> False | Some t \<Rightarrow> now \<ge> t)"

definition is_send_eligible :: "key_descriptor \<Rightarrow> tick \<Rightarrow> bool" where
  "is_send_eligible d now \<longleftrightarrow> key_can_send (kd_state d) \<and> is_activated_at d now \<and> \<not> is_expired_at d now"

definition is_accept_eligible :: "key_descriptor \<Rightarrow> tick \<Rightarrow> bool" where
  "is_accept_eligible d now \<longleftrightarrow>
     key_can_accept (kd_state d) \<and> is_activated_at d now \<and> \<not> is_expired_at d now"

record key_ring_config =
  kc_max_keys :: usize

definition DEFAULT_PACKET_KEY_RING_MAX_KEYS :: usize where
  "DEFAULT_PACKET_KEY_RING_MAX_KEYS = 32"

definition default_key_ring_config :: key_ring_config where
  "default_key_ring_config = \<lparr>kc_max_keys = DEFAULT_PACKET_KEY_RING_MAX_KEYS\<rparr>"

record key_ring_stats =
  ks_keys_inserted :: usize
  ks_keys_activated :: usize
  ks_keys_retired :: usize
  ks_keys_revoked :: usize
  ks_keys_expired_removed :: usize

datatype key_ring_error =
    KeyCapacityFull usize
  | DuplicateKey u32
  | MissingKey u32
  | NoSendKey
  | KeyNotSendable u32 packet_key_state
  | KeyNotAccepted u32 packet_key_state

record key_ring =
  kr_config :: key_ring_config
  kr_keys :: "(u32, key_descriptor) fmap"
  kr_stats :: key_ring_stats

section \<open>Operations\<close>

definition key_ring_new :: "key_ring_config \<Rightarrow> key_ring" where
  "key_ring_new cfg =
     \<lparr>kr_config = cfg, kr_keys = fmempty,
      kr_stats = \<lparr>ks_keys_inserted = 0, ks_keys_activated = 0, ks_keys_retired = 0,
                  ks_keys_revoked = 0, ks_keys_expired_removed = 0\<rparr>\<rparr>"

definition key_ring_len :: "key_ring \<Rightarrow> usize" where
  "key_ring_len r = map_len (kr_keys r)"

definition key_ring_get :: "key_ring \<Rightarrow> u32 \<Rightarrow> key_descriptor option" where
  "key_ring_get r k = fmlookup (kr_keys r) k"

text \<open>\<open>keys.values()\<close>: in key order.\<close>

definition key_ring_iter :: "key_ring \<Rightarrow> key_descriptor list" where
  "key_ring_iter r = map (\<lambda>k. the (fmlookup (kr_keys r) k)) (sorted_list_of_fset (fmdom (kr_keys r)))"

definition key_ring_insert :: "key_ring \<Rightarrow> key_descriptor \<Rightarrow> (key_ring_error + unit) \<times> key_ring" where
  "key_ring_insert r d =
     (if fmlookup (kr_keys r) (kd_key_id d) \<noteq> None then (Err (DuplicateKey (kd_key_id d)), r)
      else if map_len (kr_keys r) \<ge> kc_max_keys (kr_config r)
      then (Err (KeyCapacityFull (kc_max_keys (kr_config r))), r)
      else (Ok (), r\<lparr>kr_keys := fmupd (kd_key_id d) d (kr_keys r),
                     kr_stats := (kr_stats r)\<lparr>ks_keys_inserted := usize_add (ks_keys_inserted (kr_stats r)) 1\<rparr>\<rparr>))"

definition key_ring_insert_active ::
  "key_ring \<Rightarrow> u32 \<Rightarrow> tick \<Rightarrow> u32 \<Rightarrow> (key_ring_error + unit) \<times> key_ring" where
  "key_ring_insert_active r k now prio = key_ring_insert r (descriptor_active k now prio)"

text \<open>\<open>get_mut(&key_id).ok_or(MissingKey)?\<close> followed by an update of the descriptor.\<close>

definition update_key ::
  "key_ring \<Rightarrow> u32 \<Rightarrow> (key_descriptor \<Rightarrow> key_descriptor) \<Rightarrow> (key_ring_stats \<Rightarrow> key_ring_stats) \<Rightarrow>
   (key_ring_error + unit) \<times> key_ring" where
  "update_key r k f g =
     (case fmlookup (kr_keys r) k of
        None \<Rightarrow> (Err (MissingKey k), r)
      | Some d \<Rightarrow> (Ok (), r\<lparr>kr_keys := fmupd k (f d) (kr_keys r), kr_stats := g (kr_stats r)\<rparr>))"

definition key_ring_activate :: "key_ring \<Rightarrow> u32 \<Rightarrow> tick \<Rightarrow> (key_ring_error + unit) \<times> key_ring" where
  "key_ring_activate r k at =
     update_key r k (\<lambda>d. d\<lparr>kd_state := KeyActive, kd_activated_at := at, kd_retires_at := None\<rparr>)
       (\<lambda>s. s\<lparr>ks_keys_activated := usize_add (ks_keys_activated s) 1\<rparr>)"

definition key_ring_retire :: "key_ring \<Rightarrow> u32 \<Rightarrow> tick \<Rightarrow> (key_ring_error + unit) \<times> key_ring" where
  "key_ring_retire r k at =
     update_key r k (\<lambda>d. d\<lparr>kd_state := KeyRetiring, kd_retires_at := Some at\<rparr>)
       (\<lambda>s. s\<lparr>ks_keys_retired := usize_add (ks_keys_retired s) 1\<rparr>)"

definition key_ring_revoke :: "key_ring \<Rightarrow> u32 \<Rightarrow> (key_ring_error + unit) \<times> key_ring" where
  "key_ring_revoke r k =
     update_key r k (\<lambda>d. d\<lparr>kd_state := KeyRevoked\<rparr>)
       (\<lambda>s. s\<lparr>ks_keys_revoked := usize_add (ks_keys_revoked s) 1\<rparr>)"

definition key_ring_set_expiry :: "key_ring \<Rightarrow> u32 \<Rightarrow> tick option \<Rightarrow> (key_ring_error + unit) \<times> key_ring" where
  "key_ring_set_expiry r k t = update_key r k (\<lambda>d. d\<lparr>kd_expires_at := t\<rparr>) (\<lambda>s. s)"

definition key_ring_remove_expired :: "key_ring \<Rightarrow> tick \<Rightarrow> usize \<times> key_ring" where
  "key_ring_remove_expired r now =
     (let before = map_len (kr_keys r);
          keys = fmfilter (\<lambda>k. \<not> is_expired_at (the (fmlookup (kr_keys r) k)) now) (kr_keys r);
          removed = before - map_len keys
      in (removed, r\<lparr>kr_keys := keys,
            kr_stats := (kr_stats r)\<lparr>ks_keys_expired_removed :=
              usize_add (ks_keys_expired_removed (kr_stats r)) removed\<rparr>\<rparr>))"

text \<open>\<open>Iterator::max_by_key\<close>: the last of the greatest elements.\<close>

fun max_by_key :: "('a \<Rightarrow> 'b::linorder) \<Rightarrow> 'a list \<Rightarrow> 'a option" where
  "max_by_key f [] = None"
| "max_by_key f (x # xs) =
     (case max_by_key f xs of None \<Rightarrow> Some x | Some y \<Rightarrow> if f x > f y then Some x else Some y)"

definition send_rank :: "key_descriptor \<Rightarrow> u32 \<times> tick \<times> u32" where
  "send_rank d = (kd_send_priority d, kd_activated_at d, kd_key_id d)"

definition select_send_key :: "key_ring \<Rightarrow> tick \<Rightarrow> key_ring_error + key_descriptor" where
  "select_send_key r now =
     (case max_by_key send_rank (filter (\<lambda>d. is_send_eligible d now) (key_ring_iter r)) of
        None \<Rightarrow> Err NoSendKey
      | Some d \<Rightarrow> Ok d)"

definition accept_key :: "key_ring \<Rightarrow> u32 \<Rightarrow> tick \<Rightarrow> key_ring_error + key_descriptor" where
  "accept_key r k now =
     (case fmlookup (kr_keys r) k of
        None \<Rightarrow> Err (MissingKey k)
      | Some d \<Rightarrow> if is_accept_eligible d now then Ok d else Err (KeyNotAccepted k (kd_state d)))"

section \<open>Reachable rings\<close>

inductive ring_step :: "key_ring \<Rightarrow> key_ring \<Rightarrow> bool" where
  rs_insert: "ring_step r (snd (key_ring_insert r d))"
| rs_activate: "ring_step r (snd (key_ring_activate r k at))"
| rs_retire: "ring_step r (snd (key_ring_retire r k at))"
| rs_revoke: "ring_step r (snd (key_ring_revoke r k))"
| rs_set_expiry: "ring_step r (snd (key_ring_set_expiry r k e))"
| rs_remove_expired: "ring_step r (snd (key_ring_remove_expired r now))"

inductive ring_reachable :: "key_ring_config \<Rightarrow> key_ring \<Rightarrow> bool" for cfg where
  rr_new: "ring_reachable cfg (key_ring_new cfg)"
| rr_step: "ring_reachable cfg r \<Longrightarrow> ring_step r r' \<Longrightarrow> ring_reachable cfg r'"

inductive_cases ring_stepE: "ring_step r r'"

definition ring_wf :: "key_ring \<Rightarrow> bool" where
  "ring_wf r \<longleftrightarrow> map_len (kr_keys r) \<le> kc_max_keys (kr_config r) \<and>
     (\<forall>k d. fmlookup (kr_keys r) k = Some d \<longrightarrow> kd_key_id d = k)"

lemma update_key_wf:
  "ring_wf r \<Longrightarrow> (\<And>d. kd_key_id (f d) = kd_key_id d) \<Longrightarrow>
   ring_wf (snd (update_key r k f g)) \<and> kr_config (snd (update_key r k f g)) = kr_config r"
  by (auto simp: update_key_def ring_wf_def map_len_insert split: option.splits)

lemma ring_step_wf: "ring_step r r' \<Longrightarrow> ring_wf r \<Longrightarrow> ring_wf r' \<and> kr_config r' = kr_config r"
proof (induction rule: ring_step.induct)
  case (rs_insert r d)
  then show ?case by (auto simp: key_ring_insert_def ring_wf_def map_len_insert)
next
  case (rs_remove_expired r now)
  then show ?case
    using map_len_filter_le [of "\<lambda>k. \<not> is_expired_at (the (fmlookup (kr_keys r) k)) now" "kr_keys r"]
    by (auto simp: key_ring_remove_expired_def ring_wf_def Let_def simp del: fmdom_filter)
qed (simp_all add: key_ring_activate_def key_ring_retire_def key_ring_revoke_def key_ring_set_expiry_def update_key_wf)

lemma ring_reachable_wf: "ring_reachable cfg r \<Longrightarrow> ring_wf r \<and> kr_config r = cfg"
proof (induction rule: ring_reachable.induct)
  case rr_new
  show ?case by (simp add: ring_wf_def key_ring_new_def fcard.rep_eq)
next
  case (rr_step r r')
  then show ?case using ring_step_wf by auto
qed

lemma max_by_key_None [simp]: "max_by_key f xs = None \<longleftrightarrow> xs = []"
  by (cases xs) (auto split: option.splits)

lemma max_by_key_Some:
  "max_by_key f xs = Some x \<Longrightarrow> x \<in> set xs \<and> (\<forall>y \<in> set xs. f y \<le> f x)"
  by (induction xs arbitrary: x) (fastforce split: option.splits if_splits)+

lemma key_ring_iter_set: "d \<in> set (key_ring_iter r) \<longleftrightarrow> (\<exists>k. fmlookup (kr_keys r) k = Some d)"
  by (force simp: key_ring_iter_def sorted_list_of_fset.rep_eq fmlookup_dom_iff image_iff)

lemma select_send_key_Ok:
  "select_send_key r now = Ok d \<Longrightarrow>
   (\<exists>k. fmlookup (kr_keys r) k = Some d) \<and> is_send_eligible d now \<and>
   (\<forall>k e. fmlookup (kr_keys r) k = Some e \<longrightarrow> is_send_eligible e now \<longrightarrow> send_rank e \<le> send_rank d)"
  unfolding select_send_key_def
  by (auto split: option.splits dest!: max_by_key_Some simp: key_ring_iter_set)

lemma select_send_key_Err:
  "select_send_key r now = Err e \<longleftrightarrow>
   e = NoSendKey \<and> (\<forall>k d. fmlookup (kr_keys r) k = Some d \<longrightarrow> \<not> is_send_eligible d now)"
proof -
  have "filter (\<lambda>d. is_send_eligible d now) (key_ring_iter r) = [] \<longleftrightarrow>
      (\<forall>k d. fmlookup (kr_keys r) k = Some d \<longrightarrow> \<not> is_send_eligible d now)"
    by (auto simp: filter_empty_conv key_ring_iter_set)
  moreover have "select_send_key r now = Err e \<longleftrightarrow>
      e = NoSendKey \<and> filter (\<lambda>d. is_send_eligible d now) (key_ring_iter r) = []"
    by (cases "max_by_key send_rank (filter (\<lambda>d. is_send_eligible d now) (key_ring_iter r))")
      (auto simp: select_send_key_def simp del: filter_empty_conv dest: max_by_key_Some)
  ultimately show ?thesis by simp
qed

text \<open>A key that can be sent with can be accepted.\<close>

lemma send_eligible_accept: "is_send_eligible d now \<Longrightarrow> is_accept_eligible d now"
  by (simp add: is_send_eligible_def is_accept_eligible_def key_can_send_def key_can_accept_def)

lemma selected_key_accepted:
  "ring_wf r \<Longrightarrow> select_send_key r now = Ok d \<Longrightarrow> accept_key r (kd_key_id d) now = Ok d"
  by (auto simp: accept_key_def ring_wf_def send_eligible_accept dest!: select_send_key_Ok)

end
