(* ===== verification/Packet_Security.thy ===== *)
theory Packet_Security
  imports Byte_Cursor Recent_History Packet_Keys
begin

text \<open>
  Packet security of the transport crate: the envelope format, the replay window and the
  \<open>PacketSecurityBox\<close> that allocates nonces, seals, authenticates, checks replays and opens. The
  authenticator and the cipher are supplied by the embedding program; they are the four functions
  of \<open>packet_hooks\<close>, and what the box relies on is \<open>lawful_hooks\<close>. The lemmas give the envelope
  round trip in both directions, the contract of the replay window, the freshness of nonces, and
  the exact effect of opening on every branch.
\<close>

section \<open>Envelopes\<close>

definition PACKET_SECURITY_MAGIC :: bytes where
  "PACKET_SECURITY_MAGIC = [0x53, 0x53, 0x45, 0x43]"

definition PACKET_SECURITY_HEADER_BYTES :: usize where
  "PACKET_SECURITY_HEADER_BYTES = 22"

record security_config =
  sc_max_payload_bytes :: usize
  sc_max_tag_bytes :: usize
  sc_max_replay_history :: usize

definition default_security_config :: security_config where
  "default_security_config =
     \<lparr>sc_max_payload_bytes = 16 * 1024 - PACKET_SECURITY_HEADER_BYTES, sc_max_tag_bytes = 128,
      sc_max_replay_history = 4096\<rparr>"

record security_envelope =
  pe_key_id :: u32
  pe_nonce :: u64
  pe_payload :: bytes
  pe_tag :: bytes

datatype security_encode_error =
    EncPayloadTooLarge usize usize
  | EncTagTooLarge usize usize

datatype security_decode_error =
    SecBadMagic
  | SecTruncated usize usize
  | DecPayloadTooLarge usize usize
  | DecTagTooLarge usize usize
  | SecTrailingBytes usize

definition encode_parts ::
  "security_config \<Rightarrow> u32 \<Rightarrow> u64 \<Rightarrow> bytes \<Rightarrow> bytes \<Rightarrow> bytes \<Rightarrow> (security_encode_error + unit) \<times> bytes" where
  "encode_parts cfg k nonce payload tag out =
     (if length payload > sc_max_payload_bytes cfg
      then (Err (EncPayloadTooLarge (sc_max_payload_bytes cfg) (length payload)), out)
      else if length tag > sc_max_tag_bytes cfg
      then (Err (EncTagTooLarge (sc_max_tag_bytes cfg) (length tag)), out)
      else if length payload \<ge> 2 ^ 32
      then (Err (EncPayloadTooLarge (sc_max_payload_bytes cfg) (length payload)), out)
      else if length tag \<ge> 2 ^ 16
      then (Err (EncTagTooLarge (sc_max_tag_bytes cfg) (length tag)), out)
      else (Ok (), out @ PACKET_SECURITY_MAGIC @ to_le 4 k @ to_le 8 nonce @
              to_le 4 (of_nat (length payload) :: u32) @ to_le 2 (of_nat (length tag) :: u16) @
              payload @ tag))"

definition envelope_encode ::
  "security_envelope \<Rightarrow> security_config \<Rightarrow> bytes \<Rightarrow> (security_encode_error + unit) \<times> bytes" where
  "envelope_encode e cfg out = encode_parts cfg (pe_key_id e) (pe_nonce e) (pe_payload e) (pe_tag e) out"

definition envelope_decode :: "security_config \<Rightarrow> bytes \<Rightarrow> security_decode_error + security_envelope" where
  "envelope_decode cfg input =
     and_then (tc_slice SecTruncated 4 (cursor_new input)) (\<lambda>(magic, c).
     if magic \<noteq> PACKET_SECURITY_MAGIC then Err SecBadMagic
     else and_then (tc_word SecTruncated 4 c) (\<lambda>(k :: u32, c).
     and_then (tc_word SecTruncated 8 c) (\<lambda>(nonce :: u64, c).
     and_then (tc_word SecTruncated 4 c) (\<lambda>(pl :: u32, c).
     and_then (tc_word SecTruncated 2 c) (\<lambda>(tl :: u16, c).
     if unat pl > sc_max_payload_bytes cfg
     then Err (DecPayloadTooLarge (sc_max_payload_bytes cfg) (unat pl))
     else if unat tl > sc_max_tag_bytes cfg
     then Err (DecTagTooLarge (sc_max_tag_bytes cfg) (unat tl))
     else and_then (tc_slice SecTruncated (unat pl) c) (\<lambda>(payload, c).
     and_then (tc_slice SecTruncated (unat tl) c) (\<lambda>(tag, c).
     and_then (tc_finish SecTrailingBytes c) (\<lambda>_.
     Ok \<lparr>pe_key_id = k, pe_nonce = nonce, pe_payload = payload, pe_tag = tag\<rparr>))))))))"

text \<open>The bytes of an envelope, and which envelopes a configuration admits.\<close>

definition envelope_bytes :: "security_envelope \<Rightarrow> bytes" where
  "envelope_bytes e =
     PACKET_SECURITY_MAGIC @ to_le 4 (pe_key_id e) @ to_le 8 (pe_nonce e) @
     to_le 4 (of_nat (length (pe_payload e)) :: u32) @ to_le 2 (of_nat (length (pe_tag e)) :: u16) @
     pe_payload e @ pe_tag e"

definition envelope_admitted :: "security_config \<Rightarrow> security_envelope \<Rightarrow> bool" where
  "envelope_admitted cfg e \<longleftrightarrow>
     length (pe_payload e) \<le> sc_max_payload_bytes cfg \<and> length (pe_tag e) \<le> sc_max_tag_bytes cfg \<and>
     length (pe_payload e) < 2 ^ 32 \<and> length (pe_tag e) < 2 ^ 16"

lemma envelope_encode_iff:
  "fst (envelope_encode e cfg out) = Ok () \<longleftrightarrow> envelope_admitted cfg e"
  by (auto simp: envelope_encode_def encode_parts_def envelope_admitted_def)

lemma envelope_encode_out:
  "snd (envelope_encode e cfg out) = (if envelope_admitted cfg e then out @ envelope_bytes e else out)"
  by (auto simp: envelope_encode_def encode_parts_def envelope_admitted_def envelope_bytes_def)

lemma envelope_length:
  "length (envelope_bytes e) = PACKET_SECURITY_HEADER_BYTES + length (pe_payload e) + length (pe_tag e)"
  by (simp add: envelope_bytes_def PACKET_SECURITY_MAGIC_def PACKET_SECURITY_HEADER_BYTES_def)

lemma envelope_small: "envelope_admitted cfg e \<Longrightarrow> length (envelope_bytes e) < usize_max"
  by (simp add: envelope_admitted_def envelope_length PACKET_SECURITY_HEADER_BYTES_def usize_max_def)

lemma envelope_decode_encode:
  assumes "envelope_admitted cfg e"
  shows "envelope_decode cfg (envelope_bytes e) = Ok e"
proof -
  let ?m = PACKET_SECURITY_MAGIC and ?k = "to_le 4 (pe_key_id e)" and ?n = "to_le 8 (pe_nonce e)"
  let ?pl = "to_le 4 (of_nat (length (pe_payload e)) :: u32)"
  let ?tl = "to_le 2 (of_nat (length (pe_tag e)) :: u16)"
  have m: "length ?m = 4" by (simp add: PACKET_SECURITY_MAGIC_def)
  have len: "length (pe_payload e) + length (pe_tag e) + 22 < usize_max"
    using envelope_small [OF assms] by (simp add: envelope_length PACKET_SECURITY_HEADER_BYTES_def)
  have u: "unat (of_nat (length (pe_payload e)) :: u32) = length (pe_payload e)"
    "unat (of_nat (length (pe_tag e)) :: u16) = length (pe_tag e)"
    using assms by (simp_all add: envelope_admitted_def unat_of_nat)
  have b: "length (pe_payload e) \<le> sc_max_payload_bytes cfg" "length (pe_tag e) \<le> sc_max_tag_bytes cfg"
    using assms by (simp_all add: envelope_admitted_def)
  show ?thesis
    using len b unfolding envelope_decode_def envelope_bytes_def cursor_new_at
    by (simp add: tc_at m from_le_to_le u)
qed

text \<open>What the decoder accepts is the encoding of what it returns.\<close>

lemma envelope_decode_accepts:
  assumes "envelope_decode cfg bs = Ok e" "length bs < usize_max"
  shows "bs = envelope_bytes e \<and> envelope_admitted cfg e"
proof -
  note len = assms(2)
  obtain magic c0 where 0: "tc_slice SecTruncated 4 (cursor_at [] bs) = Ok (magic, c0)"
    and a0: "magic = PACKET_SECURITY_MAGIC"
    using assms(1) by (auto simp: envelope_decode_def cursor_new_at and_then_Ok_iff split: if_splits)
  obtain r0 where r0: "bs = magic @ r0" "c0 = cursor_at magic r0"
    using tc_slice_Ok [OF 0] len by auto
  obtain k c1 where 1: "tc_word SecTruncated 4 c0 = Ok (k :: u32, c1)"
    and d1: "and_then (tc_word SecTruncated 8 c1) (\<lambda>(nonce :: u64, c).
     and_then (tc_word SecTruncated 4 c) (\<lambda>(pl :: u32, c).
     and_then (tc_word SecTruncated 2 c) (\<lambda>(tl :: u16, c).
     if unat pl > sc_max_payload_bytes cfg
     then Err (DecPayloadTooLarge (sc_max_payload_bytes cfg) (unat pl))
     else if unat tl > sc_max_tag_bytes cfg
     then Err (DecTagTooLarge (sc_max_tag_bytes cfg) (unat tl))
     else and_then (tc_slice SecTruncated (unat pl) c) (\<lambda>(payload, c).
     and_then (tc_slice SecTruncated (unat tl) c) (\<lambda>(tag, c).
     and_then (tc_finish SecTrailingBytes c) (\<lambda>_.
     Ok \<lparr>pe_key_id = k, pe_nonce = nonce, pe_payload = payload, pe_tag = tag\<rparr>)))))) = Ok e"
    using assms(1) 0 a0 by (auto simp: envelope_decode_def cursor_new_at and_then_Ok_iff)
  obtain r1 where r1: "r0 = to_le 4 k @ r1" "c1 = cursor_at (magic @ to_le 4 k) r1"
    using tc_word_Ok [OF 1 [unfolded r0(2)]] len r0 by auto
  obtain nonce c2 pl c3 tl c4 where 2: "tc_word SecTruncated 8 c1 = Ok (nonce :: u64, c2)"
    "tc_word SecTruncated 4 c2 = Ok (pl :: u32, c3)" "tc_word SecTruncated 2 c3 = Ok (tl :: u16, c4)"
    and le: "unat pl \<le> sc_max_payload_bytes cfg" "unat tl \<le> sc_max_tag_bytes cfg"
    and d2: "and_then (tc_slice SecTruncated (unat pl) c4) (\<lambda>(payload, c).
     and_then (tc_slice SecTruncated (unat tl) c) (\<lambda>(tag, c).
     and_then (tc_finish SecTrailingBytes c) (\<lambda>_.
     Ok \<lparr>pe_key_id = k, pe_nonce = nonce, pe_payload = payload, pe_tag = tag\<rparr>))) = Ok e"
    using d1 by (auto simp: and_then_Ok_iff not_less split: if_splits)
  obtain r2 where r2: "r1 = to_le 8 nonce @ r2" "c2 = cursor_at ((magic @ to_le 4 k) @ to_le 8 nonce) r2"
    using tc_word_Ok [OF 2(1) [unfolded r1(2)]] len r0 r1 by auto
  obtain r3 where r3: "r2 = to_le 4 pl @ r3" "c3 = cursor_at (((magic @ to_le 4 k) @ to_le 8 nonce) @ to_le 4 pl) r3"
    using tc_word_Ok [OF 2(2) [unfolded r2(2)]] len r0 r1 r2 by auto
  obtain r4 where r4: "r3 = to_le 2 tl @ r4"
    "c4 = cursor_at ((((magic @ to_le 4 k) @ to_le 8 nonce) @ to_le 4 pl) @ to_le 2 tl) r4"
    using tc_word_Ok [OF 2(3) [unfolded r3(2)]] len r0 r1 r2 r3 by auto
  obtain payload c5 tag c6 where 5: "tc_slice SecTruncated (unat pl) c4 = Ok (payload, c5)"
    "tc_slice SecTruncated (unat tl) c5 = Ok (tag, c6)" "tc_finish SecTrailingBytes c6 = Ok ()"
    and e: "e = \<lparr>pe_key_id = k, pe_nonce = nonce, pe_payload = payload, pe_tag = tag\<rparr>"
    using d2 by (auto simp: and_then_Ok_iff)
  obtain pre4 where c4: "c4 = cursor_at pre4 r4" "length (pre4 @ r4) < usize_max"
    using r4 len r0 r1 r2 r3 by auto
  obtain r5 where r5: "r4 = payload @ r5" "length payload = unat pl" "c5 = cursor_at (pre4 @ payload) r5"
    using tc_slice_Ok [OF 5(1) [unfolded c4(1)] c4(2)] by auto
  obtain r6 where r6: "r5 = tag @ r6" "length tag = unat tl" "c6 = cursor_at ((pre4 @ payload) @ tag) r6"
    using tc_slice_Ok [OF 5(2) [unfolded r5(3)]] c4(2) r5(1) by auto
  have "r6 = []" using 5(3) by (simp add: r6(3) tc_finish_at split: if_splits)
  moreover have "(of_nat (length payload) :: u32) = pl" "(of_nat (length tag) :: u16) = tl"
    using r5(2) r6(2) by simp_all
  ultimately have "bs = envelope_bytes e"
    by (simp add: e envelope_bytes_def r0(1) a0 r1(1) r2(1) r3(1) r4(1) r5(1) r6(1))
  moreover have "envelope_admitted cfg e"
    using le r5(2) r6(2) unsigned_less [of pl] unsigned_less [of tl] by (simp add: envelope_admitted_def e)
  ultimately show ?thesis by simp
qed

lemma envelope_decode_iff:
  "length bs < usize_max \<Longrightarrow>
   envelope_decode cfg bs = Ok e \<longleftrightarrow> envelope_admitted cfg e \<and> bs = envelope_bytes e"
  using envelope_decode_accepts envelope_decode_encode by blast

section \<open>The replay window\<close>

record replay_window =
  pw_max_seen :: usize
  pw_seen :: "(u32 \<times> u64) lookup_set"
  pw_order :: "(u32 \<times> u64) list"

definition replay_window_new :: "usize \<Rightarrow> replay_window" where
  "replay_window_new n = \<lparr>pw_max_seen = n, pw_seen = lset_new n, pw_order = []\<rparr>"

definition replay_window_len :: "replay_window \<Rightarrow> usize" where
  "replay_window_len w = lset_len (pw_seen w)"

definition replay_contains :: "replay_window \<Rightarrow> u32 \<Rightarrow> u64 \<Rightarrow> bool" where
  "replay_contains w k nonce = lset_contains (pw_seen w) (k, nonce)"

definition replay_accept :: "replay_window \<Rightarrow> u32 \<Rightarrow> u64 \<Rightarrow> bool \<times> replay_window" where
  "replay_accept w k nonce =
     (if pw_max_seen w = 0 then (True, w)
      else if lset_contains (pw_seen w) (k, nonce) then (False, w)
      else (case trim_history (pw_max_seen w) (lset_insert (pw_seen w) (k, nonce))
                   (pw_order w @ [(k, nonce)]) of
              (seen, order) \<Rightarrow> (True, w\<lparr>pw_seen := seen, pw_order := order\<rparr>)))"

definition replay_wf :: "replay_window \<Rightarrow> bool" where
  "replay_wf w \<longleftrightarrow> distinct (pw_order w) \<and> length (pw_order w) \<le> pw_max_seen w \<and>
     lset_keys (pw_seen w) = set (pw_order w)"

lemma replay_max_seen [simp]: "pw_max_seen (snd (replay_accept w k n)) = pw_max_seen w"
  by (simp add: replay_accept_def split: prod.splits)

lemma replay_accept_kept:
  "replay_wf w \<Longrightarrow> pw_max_seen w = 0 \<or> (k, n) \<in> set (pw_order w) \<Longrightarrow>
   replay_accept w k n = (pw_max_seen w = 0, w)"
  by (auto simp: replay_accept_def replay_wf_def lset_contains_keys)

lemma replay_accept_new:
  assumes wf: "replay_wf w" and new: "pw_max_seen w \<noteq> 0" "(k, n) \<notin> set (pw_order w)"
  shows "fst (replay_accept w k n)"
    and "pw_order (snd (replay_accept w k n)) = last_n (pw_max_seen w) (pw_order w @ [(k, n)])"
    and "replay_wf (snd (replay_accept w k n))"
proof -
  obtain seen order where t: "trim_history (pw_max_seen w) (lset_insert (pw_seen w) (k, n))
      (pw_order w @ [(k, n)]) = (seen, order)" by fastforce
  have acc: "replay_accept w k n = (True, w\<lparr>pw_seen := seen, pw_order := order\<rparr>)"
    using wf new t by (simp add: replay_accept_def replay_wf_def lset_contains_keys)
  have "distinct (pw_order w)" "lset_keys (pw_seen w) = set (pw_order w)" using wf by (simp_all add: replay_wf_def)
  note push = trim_push [OF t this new(2)]
  show "fst (replay_accept w k n)"
    and "pw_order (snd (replay_accept w k n)) = last_n (pw_max_seen w) (pw_order w @ [(k, n)])"
    by (simp_all add: acc push(1))
  show "replay_wf (snd (replay_accept w k n))" by (simp add: acc replay_wf_def push(2-4))
qed

lemma replay_accept_cases:
  assumes "replay_wf w"
  shows "fst (replay_accept w k n) \<longleftrightarrow> pw_max_seen w = 0 \<or> (k, n) \<notin> set (pw_order w)"
    and "pw_order (snd (replay_accept w k n)) =
      (if pw_max_seen w = 0 \<or> (k, n) \<in> set (pw_order w) then pw_order w
       else last_n (pw_max_seen w) (pw_order w @ [(k, n)]))"
    and "replay_wf (snd (replay_accept w k n))"
proof (atomize (full), goal_cases)
  case 1
  show ?case
  proof (cases "pw_max_seen w = 0 \<or> (k, n) \<in> set (pw_order w)")
    case True
    then show ?thesis using replay_accept_kept [OF assms True] assms by auto
  next
    case False
    then show ?thesis using replay_accept_new [OF assms, of k n] by simp
  qed
qed

definition replay_accept_key :: "replay_window \<Rightarrow> u32 \<times> u64 \<Rightarrow> bool \<times> replay_window" where
  "replay_accept_key w key = replay_accept w (fst key) (snd key)"

interpretation window: recent_history replay_accept_key pw_order pw_max_seen replay_wf
  by unfold_locales (simp_all add: replay_accept_key_def replay_accept_cases, simp_all add: replay_wf_def)

lemma replay_new_wf: "replay_wf (replay_window_new n)"
  by (simp add: replay_wf_def replay_window_new_def)

lemma replay_contains_order: "replay_wf w \<Longrightarrow> replay_contains w k n \<longleftrightarrow> (k, n) \<in> set (pw_order w)"
  by (simp add: replay_contains_def lset_contains_keys replay_wf_def)

lemma replay_len_order: "replay_wf w \<Longrightarrow> replay_window_len w = length (pw_order w)"
  by (simp add: replay_window_len_def lset_len_keys replay_wf_def distinct_card)

section \<open>The box\<close>

record security_stats =
  ss_sealed :: usize
  ss_opened :: usize
  ss_key_rejected :: usize
  ss_auth_failed :: usize
  ss_replay_rejected :: usize

datatype ('ae, 'ce) security_error =
    SecEncode security_encode_error
  | SecDecode security_decode_error
  | SecAuthenticator 'ae
  | SecCipher 'ce
  | SecKey key_ring_error
  | AuthenticationFailed u32 u64
  | Replay u32 u64

text \<open>The traits \<open>PacketAuthenticator\<close> and \<open>PacketCipher\<close>. A \<open>&mut Vec<u8>\<close> argument is returned
  beside the result and the new hook state.\<close>

record ('a, 'ae, 'c, 'ce) packet_hooks =
  hk_sign :: "'a \<Rightarrow> u32 \<Rightarrow> u64 \<Rightarrow> bytes \<Rightarrow> bytes \<Rightarrow> ('ae + unit) \<times> bytes \<times> 'a"
  hk_verify :: "'a \<Rightarrow> u32 \<Rightarrow> u64 \<Rightarrow> bytes \<Rightarrow> bytes \<Rightarrow> ('ae + bool) \<times> 'a"
  hk_seal :: "'c \<Rightarrow> u32 \<Rightarrow> u64 \<Rightarrow> bytes \<Rightarrow> ('ce + unit) \<times> bytes \<times> 'c"
  hk_open :: "'c \<Rightarrow> u32 \<Rightarrow> u64 \<Rightarrow> bytes \<Rightarrow> ('ce + unit) \<times> bytes \<times> 'c"

record ('a, 'c) security_box =
  sb_config :: security_config
  sb_authenticator :: 'a
  sb_cipher :: 'c
  sb_replay :: replay_window
  sb_next_nonce :: "(u32, u64) fmap"
  sb_stats :: security_stats

record security_scratch =
  scr_sealed_payload :: bytes
  scr_tag :: bytes

record open_view =
  ov_key_id :: u32
  ov_nonce :: u64
  ov_payload :: bytes

definition security_box_new :: "security_config \<Rightarrow> 'a \<Rightarrow> 'c \<Rightarrow> ('a, 'c) security_box" where
  "security_box_new cfg a c =
     \<lparr>sb_config = cfg, sb_authenticator = a, sb_cipher = c,
      sb_replay = replay_window_new (sc_max_replay_history cfg), sb_next_nonce = fmempty,
      sb_stats = \<lparr>ss_sealed = 0, ss_opened = 0, ss_key_rejected = 0, ss_auth_failed = 0,
                  ss_replay_rejected = 0\<rparr>\<rparr>"

text \<open>The plaintext cipher.\<close>

definition plaintext_cipher :: "'c \<Rightarrow> u32 \<Rightarrow> u64 \<Rightarrow> bytes \<Rightarrow> ('ce + unit) \<times> bytes \<times> 'c" where
  "plaintext_cipher c k nonce payload = (Ok (), payload, c)"

subsection \<open>Sealing\<close>

definition allocate_nonce :: "('a, 'c) security_box \<Rightarrow> u32 \<Rightarrow> u64 \<times> ('a, 'c) security_box" where
  "allocate_nonce b k =
     (let nonce = (case fmlookup (sb_next_nonce b) k of None \<Rightarrow> 1 | Some n \<Rightarrow> n) in
      (nonce, b\<lparr>sb_next_nonce := fmupd k (sat_add nonce 1) (sb_next_nonce b)\<rparr>))"

definition prepare_seal ::
  "('a, 'ae, 'c, 'ce) packet_hooks \<Rightarrow> ('a, 'c) security_box \<Rightarrow> u32 \<Rightarrow> u64 \<Rightarrow> bytes \<Rightarrow> security_scratch \<Rightarrow>
   (('ae, 'ce) security_error + unit) \<times> ('a, 'c) security_box \<times> security_scratch" where
  "prepare_seal h b k nonce payload scratch =
     (if length payload > sc_max_payload_bytes (sb_config b)
      then (Err (SecEncode (EncPayloadTooLarge (sc_max_payload_bytes (sb_config b)) (length payload))), b, scratch)
      else (case hk_seal h (sb_cipher b) k nonce payload of (r, sealed, c) \<Rightarrow>
        let b1 = b\<lparr>sb_cipher := c\<rparr>; s1 = scratch\<lparr>scr_sealed_payload := sealed\<rparr> in
        case r of
          Inl e \<Rightarrow> (Err (SecCipher e), b1, s1)
        | Inr _ \<Rightarrow>
            (case hk_sign h (sb_authenticator b1) k nonce sealed [] of (r2, tag, a) \<Rightarrow>
               (map_err SecAuthenticator r2, b1\<lparr>sb_authenticator := a\<rparr>, s1\<lparr>scr_tag := tag\<rparr>))))"

definition count_sealed :: "('a, 'c) security_box \<Rightarrow> ('a, 'c) security_box" where
  "count_sealed b = b\<lparr>sb_stats := (sb_stats b)\<lparr>ss_sealed := usize_add (ss_sealed (sb_stats b)) 1\<rparr>\<rparr>"

definition seal_with_nonce_into ::
  "('a, 'ae, 'c, 'ce) packet_hooks \<Rightarrow> ('a, 'c) security_box \<Rightarrow> u32 \<Rightarrow> u64 \<Rightarrow> bytes \<Rightarrow> bytes \<Rightarrow> security_scratch \<Rightarrow>
   (('ae, 'ce) security_error + unit) \<times> ('a, 'c) security_box \<times> bytes \<times> security_scratch" where
  "seal_with_nonce_into h b k nonce payload out scratch =
     (case prepare_seal h b k nonce payload scratch of (r, b1, s1) \<Rightarrow>
        case r of
          Inl e \<Rightarrow> (Err e, b1, out, s1)
        | Inr _ \<Rightarrow>
            (case encode_parts (sb_config b1) k nonce (scr_sealed_payload s1) (scr_tag s1) out of (r2, out1) \<Rightarrow>
               case r2 of
                 Inl e \<Rightarrow> (Err (SecEncode e), b1, out1, s1)
               | Inr _ \<Rightarrow> (Ok (), count_sealed b1, out1, s1)))"

definition seal_with_nonce ::
  "('a, 'ae, 'c, 'ce) packet_hooks \<Rightarrow> ('a, 'c) security_box \<Rightarrow> u32 \<Rightarrow> u64 \<Rightarrow> bytes \<Rightarrow>
   (('ae, 'ce) security_error + bytes) \<times> ('a, 'c) security_box" where
  "seal_with_nonce h b k nonce payload =
     (case prepare_seal h b k nonce payload \<lparr>scr_sealed_payload = [], scr_tag = []\<rparr> of (r, b1, s1) \<Rightarrow>
        case r of
          Inl e \<Rightarrow> (Err e, b1)
        | Inr _ \<Rightarrow>
            (case encode_parts (sb_config b1) k nonce (scr_sealed_payload s1) (scr_tag s1) [] of (r2, out) \<Rightarrow>
               case r2 of
                 Inl e \<Rightarrow> (Err (SecEncode e), b1)
               | Inr _ \<Rightarrow> (Ok out, count_sealed b1)))"

definition seal_packet ::
  "('a, 'ae, 'c, 'ce) packet_hooks \<Rightarrow> ('a, 'c) security_box \<Rightarrow> u32 \<Rightarrow> bytes \<Rightarrow>
   (('ae, 'ce) security_error + bytes) \<times> ('a, 'c) security_box" where
  "seal_packet h b k payload =
     (case allocate_nonce b k of (nonce, b1) \<Rightarrow> seal_with_nonce h b1 k nonce payload)"

definition seal_into ::
  "('a, 'ae, 'c, 'ce) packet_hooks \<Rightarrow> ('a, 'c) security_box \<Rightarrow> u32 \<Rightarrow> bytes \<Rightarrow> bytes \<Rightarrow> security_scratch \<Rightarrow>
   (('ae, 'ce) security_error + u64) \<times> ('a, 'c) security_box \<times> bytes \<times> security_scratch" where
  "seal_into h b k payload out scratch =
     (case allocate_nonce b k of (nonce, b1) \<Rightarrow>
        case seal_with_nonce_into h b1 k nonce payload out scratch of (r, rest) \<Rightarrow>
          (and_then r (\<lambda>_. Ok nonce), rest))"

definition seal_with_key_ring ::
  "('a, 'ae, 'c, 'ce) packet_hooks \<Rightarrow> ('a, 'c) security_box \<Rightarrow> key_ring \<Rightarrow> bytes \<Rightarrow> tick \<Rightarrow>
   (('ae, 'ce) security_error + bytes) \<times> ('a, 'c) security_box" where
  "seal_with_key_ring h b ring payload now =
     (case select_send_key ring now of
        Inl e \<Rightarrow> (Err (SecKey e), b)
      | Inr d \<Rightarrow> seal_packet h b (kd_key_id d) payload)"

definition seal_with_key_ring_into ::
  "('a, 'ae, 'c, 'ce) packet_hooks \<Rightarrow> ('a, 'c) security_box \<Rightarrow> key_ring \<Rightarrow> bytes \<Rightarrow> tick \<Rightarrow> bytes \<Rightarrow> security_scratch \<Rightarrow>
   (('ae, 'ce) security_error + (u32 \<times> u64)) \<times> ('a, 'c) security_box \<times> bytes \<times> security_scratch" where
  "seal_with_key_ring_into h b ring payload now out scratch =
     (case select_send_key ring now of
        Inl e \<Rightarrow> (Err (SecKey e), b, out, scratch)
      | Inr d \<Rightarrow>
          (case seal_into h b (kd_key_id d) payload out scratch of (r, rest) \<Rightarrow>
             (and_then r (\<lambda>nonce. Ok (kd_key_id d, nonce)), rest)))"

subsection \<open>Opening\<close>

definition verify_and_accept ::
  "('a, 'ae, 'c, 'ce) packet_hooks \<Rightarrow> ('a, 'c) security_box \<Rightarrow> security_envelope \<Rightarrow>
   (('ae, 'ce) security_error + unit) \<times> ('a, 'c) security_box" where
  "verify_and_accept h b e =
     (case hk_verify h (sb_authenticator b) (pe_key_id e) (pe_nonce e) (pe_payload e) (pe_tag e) of (r, a) \<Rightarrow>
        let b1 = b\<lparr>sb_authenticator := a\<rparr> in
        case r of
          Inl err \<Rightarrow> (Err (SecAuthenticator err), b1)
        | Inr verified \<Rightarrow>
            if \<not> verified
            then (Err (AuthenticationFailed (pe_key_id e) (pe_nonce e)),
                  b1\<lparr>sb_stats := (sb_stats b1)\<lparr>ss_auth_failed := usize_add (ss_auth_failed (sb_stats b1)) 1\<rparr>\<rparr>)
            else (case replay_accept (sb_replay b1) (pe_key_id e) (pe_nonce e) of (ok, w) \<Rightarrow>
              let b2 = b1\<lparr>sb_replay := w\<rparr> in
              if ok then (Ok (), b2)
              else (Err (Replay (pe_key_id e) (pe_nonce e)),
                    b2\<lparr>sb_stats := (sb_stats b2)\<lparr>ss_replay_rejected := usize_add (ss_replay_rejected (sb_stats b2)) 1\<rparr>\<rparr>)))"

definition count_opened :: "('a, 'c) security_box \<Rightarrow> ('a, 'c) security_box" where
  "count_opened b = b\<lparr>sb_stats := (sb_stats b)\<lparr>ss_opened := usize_add (ss_opened (sb_stats b)) 1\<rparr>\<rparr>"

definition open_borrowed_owned ::
  "('a, 'ae, 'c, 'ce) packet_hooks \<Rightarrow> ('a, 'c) security_box \<Rightarrow> security_envelope \<Rightarrow>
   (('ae, 'ce) security_error + bytes) \<times> ('a, 'c) security_box" where
  "open_borrowed_owned h b e =
     (case verify_and_accept h b e of (r, b1) \<Rightarrow>
        case r of
          Inl err \<Rightarrow> (Err err, b1)
        | Inr _ \<Rightarrow>
            (case hk_open h (sb_cipher b1) (pe_key_id e) (pe_nonce e) (pe_payload e) of (r2, payload, c) \<Rightarrow>
               let b2 = b1\<lparr>sb_cipher := c\<rparr> in
               case r2 of
                 Inl err \<Rightarrow> (Err (SecCipher err), b2)
               | Inr _ \<Rightarrow> (Ok payload, count_opened b2)))"

text \<open>The third component is the caller's payload scratch.\<close>

definition open_borrowed_with_scratch ::
  "('a, 'ae, 'c, 'ce) packet_hooks \<Rightarrow> ('a, 'c) security_box \<Rightarrow> security_envelope \<Rightarrow> bytes \<Rightarrow>
   (('ae, 'ce) security_error + open_view) \<times> ('a, 'c) security_box \<times> bytes" where
  "open_borrowed_with_scratch h b e scratch =
     (case verify_and_accept h b e of (r, b1) \<Rightarrow>
        case r of
          Inl err \<Rightarrow> (Err err, b1, scratch)
        | Inr _ \<Rightarrow>
            (case hk_open h (sb_cipher b1) (pe_key_id e) (pe_nonce e) (pe_payload e) of (r2, payload, c) \<Rightarrow>
               let b2 = b1\<lparr>sb_cipher := c\<rparr> in
               case r2 of
                 Inl err \<Rightarrow> (Err (SecCipher err), b2, payload)
               | Inr _ \<Rightarrow> (Ok \<lparr>ov_key_id = pe_key_id e, ov_nonce = pe_nonce e, ov_payload = payload\<rparr>,
                            count_opened b2, payload)))"

definition open_packet ::
  "('a, 'ae, 'c, 'ce) packet_hooks \<Rightarrow> ('a, 'c) security_box \<Rightarrow> bytes \<Rightarrow>
   (('ae, 'ce) security_error + bytes) \<times> ('a, 'c) security_box" where
  "open_packet h b input =
     (case envelope_decode (sb_config b) input of
        Inl err \<Rightarrow> (Err (SecDecode err), b)
      | Inr e \<Rightarrow> open_borrowed_owned h b e)"

definition open_with_scratch ::
  "('a, 'ae, 'c, 'ce) packet_hooks \<Rightarrow> ('a, 'c) security_box \<Rightarrow> bytes \<Rightarrow> bytes \<Rightarrow>
   (('ae, 'ce) security_error + open_view) \<times> ('a, 'c) security_box \<times> bytes" where
  "open_with_scratch h b input scratch =
     (case envelope_decode (sb_config b) input of
        Inl err \<Rightarrow> (Err (SecDecode err), b, scratch)
      | Inr e \<Rightarrow> open_borrowed_with_scratch h b e scratch)"

definition count_key_rejected :: "('a, 'c) security_box \<Rightarrow> ('a, 'c) security_box" where
  "count_key_rejected b =
     b\<lparr>sb_stats := (sb_stats b)\<lparr>ss_key_rejected := usize_add (ss_key_rejected (sb_stats b)) 1\<rparr>\<rparr>"

definition open_with_key_ring ::
  "('a, 'ae, 'c, 'ce) packet_hooks \<Rightarrow> ('a, 'c) security_box \<Rightarrow> key_ring \<Rightarrow> bytes \<Rightarrow> tick \<Rightarrow>
   (('ae, 'ce) security_error + bytes) \<times> ('a, 'c) security_box" where
  "open_with_key_ring h b ring input now =
     (case envelope_decode (sb_config b) input of
        Inl err \<Rightarrow> (Err (SecDecode err), b)
      | Inr e \<Rightarrow>
          (case accept_key ring (pe_key_id e) now of
             Inl err \<Rightarrow> (Err (SecKey err), count_key_rejected b)
           | Inr _ \<Rightarrow> open_borrowed_owned h b e))"

definition open_with_key_ring_and_scratch ::
  "('a, 'ae, 'c, 'ce) packet_hooks \<Rightarrow> ('a, 'c) security_box \<Rightarrow> key_ring \<Rightarrow> bytes \<Rightarrow> tick \<Rightarrow> bytes \<Rightarrow>
   (('ae, 'ce) security_error + open_view) \<times> ('a, 'c) security_box \<times> bytes" where
  "open_with_key_ring_and_scratch h b ring input now scratch =
     (case envelope_decode (sb_config b) input of
        Inl err \<Rightarrow> (Err (SecDecode err), b, scratch)
      | Inr e \<Rightarrow>
          (case accept_key ring (pe_key_id e) now of
             Inl err \<Rightarrow> (Err (SecKey err), count_key_rejected b, scratch)
           | Inr _ \<Rightarrow> open_borrowed_with_scratch h b e scratch))"

end
