(* ===== verification/Packet_Session.thy ===== *)
theory Packet_Session
  imports Packet_Security
begin

text \<open>
  What the packet security box achieves. The caller-owned scratch variants do what the allocating
  ones do; a payload is delivered only from a well-formed, accepted, authenticated and fresh
  packet, and a rejected packet does not use up its nonce; and a whole session, in which sealed
  packets arrive in any order and any number of times, delivers every packet exactly once.
\<close>

section \<open>The scratch variants\<close>

text \<open>Preparing does not depend on what the scratch held before.\<close>

lemma prepare_seal_scratch:
  "fst (prepare_seal h b k n p sc) = fst (prepare_seal h b k n p sc') \<and>
   fst (snd (prepare_seal h b k n p sc)) = fst (snd (prepare_seal h b k n p sc')) \<and>
   (fst (prepare_seal h b k n p sc) = Ok u \<longrightarrow>
    scr_sealed_payload (snd (snd (prepare_seal h b k n p sc))) = scr_sealed_payload (snd (snd (prepare_seal h b k n p sc'))) \<and>
    scr_tag (snd (snd (prepare_seal h b k n p sc))) = scr_tag (snd (snd (prepare_seal h b k n p sc'))))"
  by (simp add: prepare_seal_def Let_def split: prod.splits sum.splits)

lemma encode_parts_append:
  "fst (encode_parts cfg k n p t out) = fst (encode_parts cfg k n p t []) \<and>
   snd (encode_parts cfg k n p t out) =
     (case fst (encode_parts cfg k n p t []) of Inl _ \<Rightarrow> out | Inr _ \<Rightarrow> out @ snd (encode_parts cfg k n p t []))"
  by (simp add: encode_parts_def)

lemma seal_with_nonce_scratch:
  "fst (seal_with_nonce_into h b k n p out sc) = and_then (fst (seal_with_nonce h b k n p)) (\<lambda>_. Ok ()) \<and>
   fst (snd (seal_with_nonce_into h b k n p out sc)) = snd (seal_with_nonce h b k n p) \<and>
   fst (snd (snd (seal_with_nonce_into h b k n p out sc))) =
     (case fst (seal_with_nonce h b k n p) of Inl _ \<Rightarrow> out | Inr bs \<Rightarrow> out @ bs)"
proof -
  let ?z = "\<lparr>scr_sealed_payload = [], scr_tag = []\<rparr>"
  obtain r b1 s1 where 1: "prepare_seal h b k n p sc = (r, b1, s1)" by (metis prod_cases3)
  obtain r' b1' s1' where 2: "prepare_seal h b k n p ?z = (r', b1', s1')" by (metis prod_cases3)
  have eq: "r' = r" "b1' = b1" "r = Ok () \<Longrightarrow> scr_sealed_payload s1' = scr_sealed_payload s1 \<and> scr_tag s1' = scr_tag s1"
    using prepare_seal_scratch [of h b k n p sc ?z "()"] 1 2 by simp_all
  show ?thesis
  proof (cases r)
    case (Inl e)
    then show ?thesis using 1 2 eq by (simp add: seal_with_nonce_into_def seal_with_nonce_def)
  next
    case (Inr u)
    let ?e = "encode_parts (sb_config b1) k n (scr_sealed_payload s1) (scr_tag s1)"
    have e: "fst (?e out) = fst (?e [])"
      "snd (?e out) = (case fst (?e []) of Inl _ \<Rightarrow> out | Inr _ \<Rightarrow> out @ snd (?e []))"
      by (metis encode_parts_append)+
    have "scr_sealed_payload s1' = scr_sealed_payload s1" "scr_tag s1' = scr_tag s1" using eq(3) Inr by simp_all
    with e Inr 1 2 eq(1,2) show ?thesis
      by (cases "fst (?e [])")
        (simp_all add: seal_with_nonce_into_def seal_with_nonce_def split_beta)
  qed
qed

lemma open_borrowed_scratch:
  "fst (open_borrowed_with_scratch h b e sc) =
     and_then (fst (open_borrowed_owned h b e))
       (\<lambda>p. Ok \<lparr>ov_key_id = pe_key_id e, ov_nonce = pe_nonce e, ov_payload = p\<rparr>) \<and>
   fst (snd (open_borrowed_with_scratch h b e sc)) = snd (open_borrowed_owned h b e)"
  by (simp add: open_borrowed_with_scratch_def open_borrowed_owned_def Let_def split: prod.splits sum.splits)

lemma open_key_ring_scratch:
  "fst (snd (open_with_key_ring_and_scratch h b ring bs now sc)) = snd (open_with_key_ring h b ring bs now) \<and>
   map_err (\<lambda>e. e) (and_then (fst (open_with_key_ring_and_scratch h b ring bs now sc)) (\<lambda>v. Ok (ov_payload v))) =
     fst (open_with_key_ring h b ring bs now)"
  using open_borrowed_scratch [of h b _ sc]
  by (auto simp: open_with_key_ring_and_scratch_def open_with_key_ring_def and_then_def map_err_def
      split: sum.splits)

section \<open>Opening, branch by branch\<close>

definition envelope_key :: "security_envelope \<Rightarrow> u32 \<times> u64" where
  "envelope_key e = (pe_key_id e, pe_nonce e)"

text \<open>A packet gets past authentication and the replay check.\<close>

definition passes ::
  "('a, 'ae, 'c, 'ce) packet_hooks \<Rightarrow> ('a, 'c) security_box \<Rightarrow> security_envelope \<Rightarrow> bool" where
  "passes h b e \<longleftrightarrow>
     fst (hk_verify h (sb_authenticator b) (pe_key_id e) (pe_nonce e) (pe_payload e) (pe_tag e)) = Ok True \<and>
     (pw_max_seen (sb_replay b) = 0 \<or> envelope_key e \<notin> set (pw_order (sb_replay b)))"

lemma verify_and_accept_Ok:
  assumes "replay_wf (sb_replay b)"
  shows "fst (verify_and_accept h b e) = Ok () \<longleftrightarrow> passes h b e"
  using replay_accept_cases(1) [OF assms, of "pe_key_id e" "pe_nonce e"]
  by (auto simp: verify_and_accept_def passes_def envelope_key_def Let_def split: prod.splits sum.splits)

lemma verify_and_accept_state:
  assumes "replay_wf (sb_replay b)"
  shows "sb_replay (snd (verify_and_accept h b e)) =
      (if passes h b e then snd (replay_accept (sb_replay b) (pe_key_id e) (pe_nonce e)) else sb_replay b) \<and>
    sb_config (snd (verify_and_accept h b e)) = sb_config b \<and>
    sb_cipher (snd (verify_and_accept h b e)) = sb_cipher b \<and>
    sb_authenticator (snd (verify_and_accept h b e)) =
      snd (hk_verify h (sb_authenticator b) (pe_key_id e) (pe_nonce e) (pe_payload e) (pe_tag e)) \<and>
    sb_next_nonce (snd (verify_and_accept h b e)) = sb_next_nonce b \<and>
    ss_opened (sb_stats (snd (verify_and_accept h b e))) = ss_opened (sb_stats b)"
proof -
  obtain r a where v: "hk_verify h (sb_authenticator b) (pe_key_id e) (pe_nonce e) (pe_payload e) (pe_tag e) = (r, a)"
    by fastforce
  note c = replay_accept_cases(1) [OF assms, of "pe_key_id e" "pe_nonce e"]
  show ?thesis
  proof (cases "r = Ok True")
    case True
    then show ?thesis using c v replay_accept_kept [OF assms, of "pe_key_id e" "pe_nonce e"]
      by (cases "fst (replay_accept (sb_replay b) (pe_key_id e) (pe_nonce e))")
        (auto simp: verify_and_accept_def passes_def envelope_key_def Let_def split: prod.splits)
  next
    case False
    then show ?thesis using v
      by (cases r) (auto simp: verify_and_accept_def passes_def Let_def)
  qed
qed

lemma open_owned_Ok:
  assumes "replay_wf (sb_replay b)" "fst (open_borrowed_owned h b e) = Ok p"
  shows "passes h b e" "replay_wf (sb_replay (snd (open_borrowed_owned h b e)))"
    "sb_replay (snd (open_borrowed_owned h b e)) = snd (replay_accept (sb_replay b) (pe_key_id e) (pe_nonce e))"
proof -
  have "fst (verify_and_accept h b e) = Ok ()"
    using assms(2) by (auto simp: open_borrowed_owned_def split: prod.splits sum.splits)
  then show p: "passes h b e" by (rule verify_and_accept_Ok [OF assms(1), THEN iffD1])
  show r: "sb_replay (snd (open_borrowed_owned h b e)) = snd (replay_accept (sb_replay b) (pe_key_id e) (pe_nonce e))"
    using verify_and_accept_state [OF assms(1), of h e] p assms(2)
    by (auto simp: open_borrowed_owned_def count_opened_def Let_def split: prod.splits sum.splits)
  show "replay_wf (sb_replay (snd (open_borrowed_owned h b e)))"
    unfolding r by (rule replay_accept_cases(3) [OF assms(1)])
qed

lemma open_owned_Err:
  assumes "replay_wf (sb_replay b)" "fst (open_borrowed_owned h b e) = Err err" "\<And>c. err \<noteq> SecCipher c"
  shows "sb_replay (snd (open_borrowed_owned h b e)) = sb_replay b \<and>
    sb_cipher (snd (open_borrowed_owned h b e)) = sb_cipher b \<and> \<not> passes h b e \<and>
    ss_opened (sb_stats (snd (open_borrowed_owned h b e))) = ss_opened (sb_stats b)"
proof -
  have "fst (verify_and_accept h b e) = Err err" and s: "snd (open_borrowed_owned h b e) = snd (verify_and_accept h b e)"
    using assms(2,3) by (auto simp: open_borrowed_owned_def Let_def split: prod.splits sum.splits)
  then have "\<not> passes h b e" using verify_and_accept_Ok [OF assms(1), of h e] by auto
  then show ?thesis using verify_and_accept_state [OF assms(1), of h e] s by simp
qed

lemma passes_envelope: "passes h (b\<lparr>sb_stats := s\<rparr>) e = passes h b e"
  by (simp add: passes_def)

lemma key_in_window:
  assumes "replay_wf w" "pw_max_seen w \<noteq> 0" "(k, n) \<notin> set (pw_order w)"
  shows "(k, n) \<in> set (pw_order (snd (replay_accept w k n)))"
proof -
  have "last_n (pw_max_seen w) (pw_order w @ [(k, n)]) \<noteq> []"
    "last (last_n (pw_max_seen w) (pw_order w @ [(k, n)])) = (k, n)"
    using assms(2) by (simp_all add: last_n_def Suc_diff_le)
  then show ?thesis using replay_accept_new(2) [OF assms] by (metis last_in_set)
qed

text \<open>A packet that passed authentication and the replay check, and then failed in the cipher: the packet's
  own pair, and nothing else, has been recorded.\<close>

lemma open_owned_cipher_failure:
  assumes "replay_wf (sb_replay b)" "fst (open_borrowed_owned h b e) = Err (SecCipher c)"
  shows "passes h b e \<and>
    sb_replay (snd (open_borrowed_owned h b e)) = snd (replay_accept (sb_replay b) (pe_key_id e) (pe_nonce e)) \<and>
    ss_opened (sb_stats (snd (open_borrowed_owned h b e))) = ss_opened (sb_stats b)"
proof -
  have "fst (verify_and_accept h b e) \<noteq> Err (SecCipher c)"
    by (auto simp: verify_and_accept_def replay_accept_def Let_def split: prod.splits sum.splits)
  then have "fst (verify_and_accept h b e) = Ok ()"
    using assms(2) by (auto simp: open_borrowed_owned_def split: prod.splits sum.splits)
  then have p: "passes h b e" by (rule verify_and_accept_Ok [OF assms(1), THEN iffD1])
  then show ?thesis
    using verify_and_accept_state [OF assms(1), of h e] assms(2)
    by (auto simp: open_borrowed_owned_def count_opened_def Let_def split: prod.splits sum.splits)
qed

text \<open>C23. A payload is delivered only from bytes that are exactly an envelope within the budgets, whose
  key is active or retiring, activated and not expired, whose tag the authenticator verified and
  whose (key, nonce) pair is not in the replay window; the pair is then in the window. A packet that is
  rejected before its cipher runs leaves the replay window, the cipher and the count of opened packets
  as they were, so rejecting a forged packet does not block the genuine one. A packet whose
  cipher fails has passed all those checks: its own pair has been recorded, so a
  second copy is a replay, and it is not counted as opened.\<close>

theorem opened_packets_are_valid:
  assumes "replay_wf (sb_replay b)" "length input < usize_max"
    and "open_with_key_ring h b ring input now = (r, b')"
  shows "(case r of
      Inr p \<Rightarrow> \<exists>e d. input = envelope_bytes e \<and> envelope_admitted (sb_config b) e \<and>
        accept_key ring (pe_key_id e) now = Ok d \<and> is_accept_eligible d now \<and>
        fst (hk_verify h (sb_authenticator b) (pe_key_id e) (pe_nonce e) (pe_payload e) (pe_tag e)) = Ok True \<and>
        (pw_max_seen (sb_replay b) = 0 \<or> replay_contains (sb_replay b') (pe_key_id e) (pe_nonce e) \<and>
           replay_contains (sb_replay b) (pe_key_id e) (pe_nonce e) = False)
    | Inl err \<Rightarrow> (\<exists>c. err = SecCipher c) \<or>
        (sb_replay b' = sb_replay b \<and> sb_cipher b' = sb_cipher b \<and>
         ss_opened (sb_stats b') = ss_opened (sb_stats b))) \<and>
    (\<forall>c. r = Inl (SecCipher c) \<longrightarrow>
      (\<exists>e d. input = envelope_bytes e \<and> envelope_admitted (sb_config b) e \<and>
        accept_key ring (pe_key_id e) now = Ok d \<and>
        fst (hk_verify h (sb_authenticator b) (pe_key_id e) (pe_nonce e) (pe_payload e) (pe_tag e)) = Ok True \<and>
        (pw_max_seen (sb_replay b) = 0 \<or> replay_contains (sb_replay b') (pe_key_id e) (pe_nonce e) \<and>
           replay_contains (sb_replay b) (pe_key_id e) (pe_nonce e) = False) \<and>
        sb_replay b' = snd (replay_accept (sb_replay b) (pe_key_id e) (pe_nonce e)) \<and>
        ss_opened (sb_stats b') = ss_opened (sb_stats b)))"
proof (cases "\<exists>e d. envelope_decode (sb_config b) input = Ok e \<and> accept_key ring (pe_key_id e) now = Ok d")
  case True
  then obtain e d where dec: "envelope_decode (sb_config b) input = Ok e"
    and acc: "accept_key ring (pe_key_id e) now = Ok d"
    by blast
  then have op: "open_borrowed_owned h b e = (r, b')" using assms(3) by (simp add: open_with_key_ring_def)
  note bytes = envelope_decode_accepts [OF dec assms(2)]
  have window: "pw_max_seen (sb_replay b) = 0 \<or> replay_contains (sb_replay b') (pe_key_id e) (pe_nonce e) \<and>
      replay_contains (sb_replay b) (pe_key_id e) (pe_nonce e) = False"
    if p: "passes h b e" and w: "sb_replay b' = snd (replay_accept (sb_replay b) (pe_key_id e) (pe_nonce e))"
  proof -
    have "replay_wf (sb_replay b')" unfolding w by (rule replay_accept_cases(3) [OF assms(1)])
    then show ?thesis
      using p w key_in_window [OF assms(1), of "pe_key_id e" "pe_nonce e"]
      by (auto simp: replay_contains_order assms(1) passes_def envelope_key_def)
  qed
  show ?thesis
  proof (cases r)
    case (Inr p)
    note ok = open_owned_Ok [OF assms(1), of h e p, unfolded op, simplified, OF Inr]
    have "is_accept_eligible d now"
      using acc by (auto simp: accept_key_def split: option.splits if_splits)
    then show ?thesis using bytes acc ok(1) window [OF ok(1,3)] Inr by (auto simp: passes_def)
  next
    case (Inl err)
    show ?thesis
    proof (cases "\<exists>c. err = SecCipher c")
      case True
      then obtain c where c: "err = SecCipher c" ..
      note fail = open_owned_cipher_failure [OF assms(1), of h e c, unfolded op, simplified, unfolded Inl c, simplified]
      show ?thesis
        using Inl c bytes acc fail window by (auto simp: passes_def)
    next
      case False
      then show ?thesis
        using open_owned_Err [OF assms(1), of h e err, unfolded op] Inl by auto
    qed
  qed
next
  case False
  then have "(b' = b \<or> b' = count_key_rejected b) \<and> (\<forall>p. r \<noteq> Inr p) \<and> (\<forall>c. r \<noteq> Inl (SecCipher c))"
    using assms(3) by (auto simp: open_with_key_ring_def split: sum.splits)
  then show ?thesis by (cases r) (auto simp: count_key_rejected_def)
qed

section \<open>Sessions\<close>

fun seal_all ::
  "('a, 'ae, 'c, 'ce) packet_hooks \<Rightarrow> ('a, 'c) security_box \<Rightarrow> (u32 \<times> bytes) list \<Rightarrow>
   (('ae, 'ce) security_error + bytes) list \<times> ('a, 'c) security_box" where
  "seal_all h b [] = ([], b)"
| "seal_all h b ((k, p) # xs) =
     (case seal_packet h b k p of (r, b1) \<Rightarrow>
        case seal_all h b1 xs of (rs, b2) \<Rightarrow> (r # rs, b2))"

fun open_all ::
  "('a, 'ae, 'c, 'ce) packet_hooks \<Rightarrow> ('a, 'c) security_box \<Rightarrow> bytes list \<Rightarrow>
   (('ae, 'ce) security_error + bytes) list \<times> ('a, 'c) security_box" where
  "open_all h b [] = ([], b)"
| "open_all h b (bs # xs) =
     (case open_packet h b bs of (r, b1) \<Rightarrow>
        case open_all h b1 xs of (rs, b2) \<Rightarrow> (r # rs, b2))"

text \<open>What the box relies on: between hook states that share their secrets (the sets \<open>A\<close> and \<open>C\<close>),
  a produced tag verifies and a sealed payload opens to the original.\<close>

definition tag_verifies ::
  "('a, 'ae, 'c, 'ce) packet_hooks \<Rightarrow> 'a set \<Rightarrow> u32 \<Rightarrow> u64 \<Rightarrow> bytes \<Rightarrow> bytes \<Rightarrow> bool" where
  "tag_verifies h A k n ct tag \<longleftrightarrow> (\<forall>a \<in> A. \<exists>a' \<in> A. hk_verify h a k n ct tag = (Ok True, a'))"

definition payload_opens ::
  "('a, 'ae, 'c, 'ce) packet_hooks \<Rightarrow> 'c set \<Rightarrow> u32 \<Rightarrow> u64 \<Rightarrow> bytes \<Rightarrow> bytes \<Rightarrow> bool" where
  "payload_opens h C k n ct p \<longleftrightarrow> (\<forall>c \<in> C. \<exists>c' \<in> C. hk_open h c k n ct = (Ok (), p, c'))"

definition lawful_hooks :: "('a, 'ae, 'c, 'ce) packet_hooks \<Rightarrow> 'a set \<Rightarrow> 'c set \<Rightarrow> bool" where
  "lawful_hooks h A C \<longleftrightarrow>
     (\<forall>a \<in> A. \<forall>k n ct r tag a'. hk_sign h a k n ct [] = (r, tag, a') \<longrightarrow>
        a' \<in> A \<and> (r = Ok () \<longrightarrow> tag_verifies h A k n ct tag)) \<and>
     (\<forall>c \<in> C. \<forall>k n p r ct c'. hk_seal h c k n p = (r, ct, c') \<longrightarrow>
        c' \<in> C \<and> (r = Ok () \<longrightarrow> payload_opens h C k n ct p))"

definition next_nonce_of :: "('a, 'c) security_box \<Rightarrow> u32 \<Rightarrow> u64" where
  "next_nonce_of b k = (case fmlookup (sb_next_nonce b) k of None \<Rightarrow> 1 | Some n \<Rightarrow> n)"

text \<open>The envelope of one sealed payload.\<close>

definition seals_to ::
  "('a, 'ae, 'c, 'ce) packet_hooks \<Rightarrow> 'a set \<Rightarrow> 'c set \<Rightarrow> security_config \<Rightarrow> u32 \<times> bytes \<Rightarrow> security_envelope \<Rightarrow> bool" where
  "seals_to h A C cfg kp e \<longleftrightarrow> envelope_admitted cfg e \<and> pe_key_id e = fst kp \<and>
     tag_verifies h A (pe_key_id e) (pe_nonce e) (pe_payload e) (pe_tag e) \<and>
     payload_opens h C (pe_key_id e) (pe_nonce e) (pe_payload e) (snd kp)"

lemma seal_packet_Ok:
  assumes h: "lawful_hooks h A C" and b: "sb_authenticator b \<in> A" "sb_cipher b \<in> C"
    and s: "seal_packet h b k p = (Ok bs, b')"
  obtains e where "bs = envelope_bytes e" "seals_to h A C (sb_config b) (k, p) e"
    "pe_nonce e = next_nonce_of b k" "sb_config b' = sb_config b"
    "sb_authenticator b' \<in> A" "sb_cipher b' \<in> C"
    "sb_next_nonce b' = fmupd k (sat_add (next_nonce_of b k) 1) (sb_next_nonce b)"
proof -
  let ?n = "next_nonce_of b k"
  let ?b1 = "b\<lparr>sb_next_nonce := fmupd k (sat_add ?n 1) (sb_next_nonce b)\<rparr>"
  have sw: "seal_with_nonce h ?b1 k ?n p = (Ok bs, b')"
    using s by (simp add: seal_packet_def allocate_nonce_def next_nonce_of_def Let_def)
  obtain r sealed c where hs: "hk_seal h (sb_cipher b) k ?n p = (r, sealed, c)" by (metis prod_cases3)
  have r: "r = Ok ()"
    using sw hs by (cases r) (auto simp: seal_with_nonce_def prepare_seal_def Let_def split: if_splits)
  obtain r2 tag a where hg: "hk_sign h (sb_authenticator b) k ?n sealed [] = (r2, tag, a)" by (metis prod_cases3)
  have r2: "r2 = Ok ()"
    using sw hs hg r by (cases r2) (auto simp: seal_with_nonce_def prepare_seal_def Let_def split: if_splits)
  let ?b2 = "?b1\<lparr>sb_cipher := c, sb_authenticator := a\<rparr>"
  define e where "e = \<lparr>pe_key_id = k, pe_nonce = ?n, pe_payload = sealed, pe_tag = tag\<rparr>"
  have enc: "envelope_encode e (sb_config b) [] = (Ok (), bs) \<and> b' = count_sealed ?b2"
    using sw hs hg r r2
    by (auto simp: seal_with_nonce_def prepare_seal_def envelope_encode_def e_def Let_def
        split: if_splits prod.splits sum.splits)
  then have adm: "envelope_admitted (sb_config b) e" using envelope_encode_iff [of e "sb_config b" "[]"] by simp
  moreover have "bs = envelope_bytes e"
    using envelope_encode_out [of e "sb_config b" "[]"] enc adm by simp
  moreover have "c \<in> C" "payload_opens h C k ?n sealed p"
    using h b hs r unfolding lawful_hooks_def by blast+
  moreover have "a \<in> A" "tag_verifies h A k ?n sealed tag"
    using h b hg r2 unfolding lawful_hooks_def by blast+
  ultimately show thesis
    using that [of e] enc by (simp add: seals_to_def e_def count_sealed_def)
qed

lemma next_nonce_upd:
  "sb_next_nonce b' = fmupd k n (sb_next_nonce b) \<Longrightarrow>
   next_nonce_of b' j = (if j = k then n else next_nonce_of b j)"
  by (simp add: next_nonce_of_def)

lemma seal_all_Ok:
  assumes "lawful_hooks h A C" "sb_authenticator b \<in> A" "sb_cipher b \<in> C"
    and "seal_all h b xs = (map Ok frames, b')" "\<And>k. unat (next_nonce_of b k) + length xs < 2 ^ 64"
  shows "\<exists>es. frames = map envelope_bytes es \<and> list_all2 (seals_to h A C (sb_config b)) xs es \<and>
    distinct (map envelope_key es) \<and> (\<forall>e \<in> set es. next_nonce_of b (pe_key_id e) \<le> pe_nonce e)"
  using assms(2-)
proof (induction xs arbitrary: b frames)
  case (Cons x xs)
  obtain k p where x: "x = (k, p)" by fastforce
  obtain bs b1 rest where s: "seal_packet h b k p = (Ok bs, b1)" "seal_all h b1 xs = (map Ok rest, b')"
    and f: "frames = bs # rest"
    using Cons.prems(3) x by (cases frames) (auto split: prod.splits)
  obtain e where e: "bs = envelope_bytes e" "seals_to h A C (sb_config b) (k, p) e"
    "pe_nonce e = next_nonce_of b k" "sb_config b1 = sb_config b" "sb_authenticator b1 \<in> A" "sb_cipher b1 \<in> C"
    "sb_next_nonce b1 = fmupd k (sat_add (next_nonce_of b k) 1) (sb_next_nonce b)"
    using seal_packet_Ok [OF assms(1) Cons.prems(1,2) s(1)] by blast
  have ke: "pe_key_id e = k" using e(2) by (simp add: seals_to_def)
  have un: "unat (sat_add (next_nonce_of b k) 1) = Suc (unat (next_nonce_of b k))"
    using Cons.prems(4) [of k] by (simp add: unat_sat_add)
  have "unat (next_nonce_of b1 j) + length xs < 2 ^ 64" for j
    using Cons.prems(4) [of j] Cons.prems(4) [of k] un by (cases "j = k") (simp_all add: next_nonce_upd [OF e(7)])
  then obtain es where es: "rest = map envelope_bytes es" "list_all2 (seals_to h A C (sb_config b)) xs es"
    "distinct (map envelope_key es)" "\<forall>e \<in> set es. next_nonce_of b1 (pe_key_id e) \<le> pe_nonce e"
    using Cons.IH [OF e(5,6) s(2)] e(4) by auto
  have less: "next_nonce_of b k < sat_add (next_nonce_of b k) 1"
    using un by (simp add: word_less_nat_alt)
  have ge: "next_nonce_of b (pe_key_id e') \<le> pe_nonce e' \<and> envelope_key e' \<noteq> envelope_key e"
    if e': "e' \<in> set es" for e'
  proof (cases "pe_key_id e' = k")
    case True
    then have "sat_add (next_nonce_of b k) 1 \<le> pe_nonce e'"
      using es(4) e' by (auto simp: next_nonce_upd [OF e(7)])
    then have "next_nonce_of b k < pe_nonce e'" using less by (rule less_le_trans [rotated])
    then show ?thesis using True e(3) by (auto simp: envelope_key_def)
  next
    case False
    then show ?thesis using es(4) e' ke by (auto simp: next_nonce_upd [OF e(7)] envelope_key_def)
  qed
  have "distinct (map envelope_key (e # es))" using es(3) ge by fastforce
  moreover have "\<forall>e' \<in> set (e # es). next_nonce_of b (pe_key_id e') \<le> pe_nonce e'"
    using ge e(3) ke by simp
  moreover have "frames = map envelope_bytes (e # es)" by (simp add: f es(1) e(1))
  moreover have "list_all2 (seals_to h A C (sb_config b)) (x # xs) (e # es)" using e(2) es(2) x by simp
  ultimately show ?case by blast
qed simp

lemma open_sealed:
  assumes e: "seals_to h A C (sb_config b) (k, p) e"
    and b: "sb_authenticator b \<in> A" "sb_cipher b \<in> C" "replay_wf (sb_replay b)" "pw_max_seen (sb_replay b) \<noteq> 0"
  shows "\<exists>b'. open_packet h b (envelope_bytes e) =
      (if envelope_key e \<in> set (pw_order (sb_replay b)) then Err (Replay k (pe_nonce e)) else Ok p, b') \<and>
    sb_authenticator b' \<in> A \<and> sb_cipher b' \<in> C \<and> sb_config b' = sb_config b \<and>
    sb_replay b' = snd (replay_accept (sb_replay b) k (pe_nonce e))"
proof -
  have adm: "envelope_decode (sb_config b) (envelope_bytes e) = Ok e" and k: "pe_key_id e = k"
    using e by (simp_all add: seals_to_def envelope_decode_encode)
  obtain a' where v: "a' \<in> A" "hk_verify h (sb_authenticator b) (pe_key_id e) (pe_nonce e) (pe_payload e) (pe_tag e) = (Ok True, a')"
    using e b(1) unfolding seals_to_def tag_verifies_def by blast
  obtain c' where o: "c' \<in> C" "hk_open h (sb_cipher b) (pe_key_id e) (pe_nonce e) (pe_payload e) = (Ok (), p, c')"
    using e b(2) unfolding seals_to_def payload_opens_def by (metis snd_conv)
  obtain ok w where r: "replay_accept (sb_replay b) k (pe_nonce e) = (ok, w)" by fastforce
  have ok: "ok \<longleftrightarrow> envelope_key e \<notin> set (pw_order (sb_replay b))"
    using replay_accept_cases(1) [OF b(3), of k "pe_nonce e"] b(4) r by (simp add: envelope_key_def k)
  show ?thesis
    using adm v o r ok k b
    by (simp add: open_packet_def open_borrowed_owned_def verify_and_accept_def count_opened_def Let_def)
qed

text \<open>The receiver, which has opened the packets \<open>seen\<close> so far.\<close>

lemma open_all_spec:
  assumes es: "list_all2 (seals_to h A C cfg) xs es" "distinct (map envelope_key es)" "length es \<le> N" "N \<noteq> 0"
    and r: "sb_config r = cfg" "sb_authenticator r \<in> A" "sb_cipher r \<in> C"
      "replay_wf (sb_replay r)" "pw_max_seen (sb_replay r) = N"
      "pw_order (sb_replay r) = map (\<lambda>i. envelope_key (es ! i)) seen"
    and seen: "distinct seen" "set seen \<subseteq> {..<length es}" and js: "set js \<subseteq> {..<length es}"
  shows "fst (open_all h r (map (\<lambda>i. envelope_bytes (es ! i)) js)) =
    map (\<lambda>j. if js ! j \<in> set seen \<union> set (take j js)
             then Err (Replay (fst (xs ! (js ! j))) (pe_nonce (es ! (js ! j))))
             else Ok (snd (xs ! (js ! j)))) [0..<length js]"
  using r seen js
proof (induction js arbitrary: r seen)
  case (Cons i js)
  have i: "i < length es" and len: "length xs = length es" using Cons.prems(9) es(1) by (auto dest: list_all2_lengthD)
  have sl: "seals_to h A C (sb_config r) (fst (xs ! i), snd (xs ! i)) (es ! i)"
    using es(1) i len Cons.prems(1) by (simp add: list_all2_conv_all_nth)
  have key: "envelope_key (es ! i) \<in> set (pw_order (sb_replay r)) \<longleftrightarrow> i \<in> set seen"
  proof -
    have "envelope_key (es ! i) = envelope_key (es ! j) \<longleftrightarrow> i = j" if "j < length es" for j
      using nth_eq_iff_index_eq [OF es(2), of i j] i that by simp
    then show ?thesis using Cons.prems(6,8) by (auto simp: subset_eq)
  qed
  obtain r1 where op: "open_packet h r (envelope_bytes (es ! i)) =
      (if i \<in> set seen then Err (Replay (fst (xs ! i)) (pe_nonce (es ! i))) else Ok (snd (xs ! i)), r1)"
    and r1: "sb_authenticator r1 \<in> A" "sb_cipher r1 \<in> C" "sb_config r1 = sb_config r"
      "sb_replay r1 = snd (replay_accept (sb_replay r) (fst (xs ! i)) (pe_nonce (es ! i)))"
    using open_sealed [OF sl Cons.prems(2,3,4)] Cons.prems(5) es(4) key by auto
  define seen1 where "seen1 = (if i \<in> set seen then seen else seen @ [i])"
  have k: "envelope_key (es ! i) = (fst (xs ! i), pe_nonce (es ! i))"
    using sl by (simp add: envelope_key_def seals_to_def)
  have d1: "distinct seen1" "set seen1 \<subseteq> {..<length es}" "set seen1 = insert i (set seen)"
    using Cons.prems(7,8) i by (auto simp: seen1_def)
  have "length seen1 \<le> length es"
    using card_mono [OF _ d1(2)] d1(1) by (simp add: distinct_card)
  then have o1: "pw_order (sb_replay r1) = map (\<lambda>i. envelope_key (es ! i)) seen1"
    using replay_accept_cases(2) [OF Cons.prems(4), of "fst (xs ! i)" "pe_nonce (es ! i)"] key k r1(4)
      Cons.prems(5,6) es(3,4) by (auto simp: seen1_def last_n_all)
  have wf1: "replay_wf (sb_replay r1)" "pw_max_seen (sb_replay r1) = N"
    unfolding r1(4) by (simp_all add: replay_accept_cases(3) Cons.prems(4,5))
  have c1: "sb_config r1 = cfg" using r1(3) Cons.prems(1) by simp
  have IH: "fst (open_all h r1 (map (\<lambda>i. envelope_bytes (es ! i)) js)) =
      map (\<lambda>j. if js ! j \<in> set seen1 \<union> set (take j js)
             then Err (Replay (fst (xs ! (js ! j))) (pe_nonce (es ! (js ! j))))
             else Ok (snd (xs ! (js ! j)))) [0..<length js]"
    by (rule Cons.IH [OF c1 r1(1,2) wf1 o1 d1(1,2)]) (use Cons.prems(9) in simp)
  have up: "[0..<length (i # js)] = 0 # map Suc [0..<length js]" by (simp add: map_Suc_upt upt_conv_Cons del: upt_Suc)
  show ?case
    unfolding up using op IH d1(3) by (simp add: split_beta insert_commute)
qed simp

text \<open>C22. A session. Under hooks that are lawful (a tag signed by the sender verifies at the receiver, and
  opening inverts sealing), payloads sealed one after another, with any keys whose nonces do not run out,
  are sent as envelopes whose (key, nonce) pairs are pairwise different; whatever the order in which the
  envelopes arrive and however often each arrives, a receiver with the same budgets and a fresh replay
  window that is enabled and at least as long as the session delivers every payload unchanged at its first
  arrival and reports every later arrival as a replay. The window is bounded: in a session longer than
  the window a pair can leave it, and its packet is then accepted again.\<close>

theorem session_opens_once:
  assumes "lawful_hooks h A C" "sb_authenticator s \<in> A" "sb_cipher s \<in> C"
    and "seal_all h s xs = (map Ok frames, s')" "\<And>k. unat (next_nonce_of s k) + length xs < 2 ^ 64"
    and "sb_config r = sb_config s" "sb_authenticator r \<in> A" "sb_cipher r \<in> C"
    and "sb_replay r = replay_window_new window" "length xs \<le> window" "window \<noteq> 0"
    and "set js \<subseteq> {..<length xs}"
  shows "\<exists>nonces. length nonces = length xs \<and> distinct (zip (map fst xs) nonces) \<and>
    fst (open_all h r (map (\<lambda>i. frames ! i) js)) =
      map (\<lambda>j. if js ! j \<in> set (take j js) then Err (Replay (fst (xs ! (js ! j))) (nonces ! (js ! j)))
                else Ok (snd (xs ! (js ! j)))) [0..<length js]"
proof -
  obtain es where es: "frames = map envelope_bytes es" "list_all2 (seals_to h A C (sb_config r)) xs es"
    "distinct (map envelope_key es)"
    using seal_all_Ok [OF assms(1-5)] assms(6) by auto
  have len: "length es = length xs" using es(2) by (auto dest: list_all2_lengthD)
  have keys: "map envelope_key es = zip (map fst xs) (map pe_nonce es)"
    by (rule nth_equalityI) (use es(2) len in \<open>auto simp: envelope_key_def list_all2_conv_all_nth seals_to_def\<close>)
  have js: "js ! j < length es" if "j < length js" for j
    using assms(12) nth_mem [OF that] len by auto
  have frames: "map (\<lambda>i. frames ! i) js = map (\<lambda>i. envelope_bytes (es ! i)) js"
    using assms(12) len by (auto simp: es(1))
  have w: "replay_wf (sb_replay r)" "pw_max_seen (sb_replay r) = window" "pw_order (sb_replay r) = []"
    unfolding assms(9) by (rule replay_new_wf, simp_all add: replay_window_new_def)
  have len': "length es \<le> window" "set js \<subseteq> {..<length es}" using assms(10,12) len by simp_all
  have "fst (open_all h r (map (\<lambda>i. envelope_bytes (es ! i)) js)) =
      map (\<lambda>j. if js ! j \<in> set [] \<union> set (take j js)
             then Err (Replay (fst (xs ! (js ! j))) (pe_nonce (es ! (js ! j))))
             else Ok (snd (xs ! (js ! j)))) [0..<length js]"
    by (rule open_all_spec [OF es(2,3) len'(1) assms(11) refl assms(7,8) w(1,2) _ _ _ len'(2)])
      (simp_all add: w(3))
  then have "fst (open_all h r (map (\<lambda>i. frames ! i) js)) =
      map (\<lambda>j. if js ! j \<in> set (take j js)
             then Err (Replay (fst (xs ! (js ! j))) (map pe_nonce es ! (js ! j)))
             else Ok (snd (xs ! (js ! j)))) [0..<length js]"
    using js by (simp add: frames)
  moreover have "distinct (zip (map fst xs) (map pe_nonce es))" using es(3) by (simp only: keys)
  ultimately show ?thesis using len by (intro exI [of _ "map pe_nonce es"]) simp
qed

text \<open>A toy authenticator (a keyed checksum) and cipher (a shift of every byte), whose states are the
  shared secrets.\<close>

definition toy_hooks :: "(u8, unit, u8, unit) packet_hooks" where
  "toy_hooks =
     \<lparr>hk_sign = (\<lambda>a k n ct out. (Ok (), out @ [foldr (\<lambda>x y. x + y) ct a], a)),
      hk_verify = (\<lambda>a k n ct tag. (Ok (tag = [foldr (\<lambda>x y. x + y) ct a]), a)),
      hk_seal = (\<lambda>c k n p. (Ok (), map (\<lambda>x. x + c) p, c)),
      hk_open = (\<lambda>c k n ct. (Ok (), map (\<lambda>x. x - c) ct, c))\<rparr>"

lemma toy_hooks_lawful: "lawful_hooks toy_hooks {0x5A} {0x3C}"
  by (auto simp: lawful_hooks_def tag_verifies_def payload_opens_def toy_hooks_def comp_def)

definition sample_box :: "(u8, u8) security_box" where
  "sample_box = security_box_new \<lparr>sc_max_payload_bytes = 8, sc_max_tag_bytes = 4, sc_max_replay_history = 4\<rparr> 0x5A 0x3C"

definition sample_payloads :: "(u32 \<times> bytes) list" where
  "sample_payloads = [(7, [1, 2]), (9, [3])]"

definition sample_frames :: "bytes list" where
  "sample_frames =
     map envelope_bytes
       [\<lparr>pe_key_id = 7, pe_nonce = 1, pe_payload = [0x3D, 0x3E], pe_tag = [0xD5]\<rparr>,
        \<lparr>pe_key_id = 9, pe_nonce = 1, pe_payload = [0x3F], pe_tag = [0x99]\<rparr>]"

lemma sample_seal: "fst (seal_all toy_hooks sample_box sample_payloads) = map Ok sample_frames"
  by (simp add: sample_payloads_def sample_frames_def sample_box_def security_box_new_def seal_packet_def
      allocate_nonce_def seal_with_nonce_def prepare_seal_def encode_parts_def toy_hooks_def count_sealed_def
      envelope_bytes_def Let_def)

lemma sample_box_simps:
  "sb_authenticator sample_box \<in> {0x5A}" "sb_cipher sample_box \<in> {0x3C}"
  "sb_replay sample_box = replay_window_new 4" "next_nonce_of sample_box k = 1"
  by (simp_all add: sample_box_def security_box_new_def next_nonce_of_def)

lemma session_opens_once_witness:
  "\<exists>nonces. length nonces = 2 \<and> distinct (zip [7, 9 :: u32] nonces) \<and>
    fst (open_all toy_hooks sample_box (map (\<lambda>i. sample_frames ! i) [1, 0, 1])) =
      [Ok [3], Ok [1, 2], Err (Replay 9 (nonces ! 1))]"
proof -
  have s: "seal_all toy_hooks sample_box sample_payloads =
      (map Ok sample_frames, snd (seal_all toy_hooks sample_box sample_payloads))"
    by (simp add: prod_eq_iff sample_seal)
  define js where "js = [1, 0, 1 :: nat]"
  have len: "length sample_payloads = 2" "set js \<subseteq> {..<length sample_payloads}"
    by (simp_all add: sample_payloads_def js_def)
  have "\<exists>nonces. length nonces = length sample_payloads \<and> distinct (zip (map fst sample_payloads) nonces) \<and>
    fst (open_all toy_hooks sample_box (map (\<lambda>i. sample_frames ! i) js)) =
      map (\<lambda>j. if js ! j \<in> set (take j js)
                then Err (Replay (fst (sample_payloads ! (js ! j))) (nonces ! (js ! j)))
                else Ok (snd (sample_payloads ! (js ! j)))) [0..<length js]"
    by (rule session_opens_once [OF toy_hooks_lawful sample_box_simps(1,2) s _ refl sample_box_simps(1,2,3) _ _ len(2)])
      (simp_all add: sample_box_simps(4) len(1))
  then show ?thesis by (simp add: js_def sample_payloads_def numeral_2_eq_2 del: open_all.simps)
qed

definition sample_ring :: key_ring where
  "sample_ring = snd (key_ring_insert_active (key_ring_new \<lparr>kc_max_keys = 1\<rparr>) 7 0 0)"

lemma sample_open:
  "fst (open_with_key_ring toy_hooks sample_box sample_ring (sample_frames ! 0) 5) = Ok [1, 2]"
proof -
  let ?e = "\<lparr>pe_key_id = 7, pe_nonce = 1, pe_payload = [0x3D, 0x3E], pe_tag = [0xD5]\<rparr>"
  have "envelope_decode (sb_config sample_box) (envelope_bytes ?e) = Ok ?e"
    by (rule envelope_decode_encode) (simp add: envelope_admitted_def sample_box_def security_box_new_def)
  moreover have "accept_key sample_ring 7 5 = Ok (descriptor_active 7 0 0)"
    by (simp add: accept_key_def sample_ring_def key_ring_insert_active_def key_ring_insert_def key_ring_new_def
        descriptor_active_def is_accept_eligible_def key_can_accept_def is_activated_at_def is_expired_at_def fcard.rep_eq)
  ultimately show ?thesis
    by (simp add: sample_frames_def open_with_key_ring_def open_borrowed_owned_def verify_and_accept_def toy_hooks_def
        sample_box_def security_box_new_def replay_accept_def replay_window_new_def lset_contains_keys Let_def
        split: prod.splits)
qed

lemma opened_packets_are_valid_witness:
  "\<exists>e d. sample_frames ! 0 = envelope_bytes e \<and> accept_key sample_ring (pe_key_id e) 5 = Ok d \<and>
     fst (hk_verify toy_hooks 0x5A (pe_key_id e) (pe_nonce e) (pe_payload e) (pe_tag e)) = Ok True"
proof -
  obtain b' where o: "open_with_key_ring toy_hooks sample_box sample_ring (sample_frames ! 0) 5 = (Ok [1, 2], b')"
    using sample_open by (metis prod.collapse)
  have "replay_wf (sb_replay sample_box)" unfolding sample_box_simps(3) by (rule replay_new_wf)
  moreover have "length (sample_frames ! 0) < usize_max"
    by (simp add: sample_frames_def envelope_length PACKET_SECURITY_HEADER_BYTES_def usize_max_def)
  ultimately show ?thesis
    using opened_packets_are_valid [OF _ _ o] sample_box_simps(1) by auto
qed

end
