(* ===== verification/Reliable_Link.thy ===== *)
theory Reliable_Link
  imports Byte_Cursor Recent_History Entities "HOL-Library.Product_Lexorder"
begin

text \<open>
  The reliable packet links of the transport crate: the frame format, the sender with its bounded
  window, retry deadlines and timeouts, the receiver with its acknowledgements and duplicate
  suppression, and the endpoint that joins them. The code has the same link twice, between
  clients (\<open>ReliableClient...\<close>) and between stations (\<open>ReliableStation...\<close>): they differ in the
  frame magic, in the type of a peer and in a station packet naming its source. The operations
  here take a peer type \<open>'p\<close>, a type \<open>'m\<close> for what else a packet carries (nothing, or the source
  station) and a \<open>link\<close> with the magic and the transport's \<open>send\<close>; the client and the station
  operations at the end are their two instances. The transport is a parameter: its \<open>send\<close> returns
  a result and a new transport state. The retry heap is the sorted list of its entries.
\<close>

section \<open>Frames\<close>

definition RELIABLE_CLIENT_MAGIC :: bytes where
  "RELIABLE_CLIENT_MAGIC = [0x53, 0x53, 0x43, 0x52]"

definition RELIABLE_STATION_MAGIC :: bytes where
  "RELIABLE_STATION_MAGIC = [0x53, 0x53, 0x52, 0x50]"

definition RELIABLE_KIND_DATA :: u8 where "RELIABLE_KIND_DATA = 0"
definition RELIABLE_KIND_ACK :: u8 where "RELIABLE_KIND_ACK = 1"

definition RELIABLE_DATA_HEADER_BYTES :: usize where "RELIABLE_DATA_HEADER_BYTES = 17"
definition RELIABLE_ACK_BYTES :: usize where "RELIABLE_ACK_BYTES = 13"

datatype reliable_frame = RData u64 bytes | RAck u64

datatype reliable_encode_error = RelPayloadTooLarge usize

datatype reliable_decode_error =
    RelBadMagic
  | RelUnknownKind u8
  | RelTruncated usize usize
  | RelTrailingBytes usize

definition reliable_encode_data ::
  "bytes \<Rightarrow> u64 \<Rightarrow> bytes \<Rightarrow> bytes \<Rightarrow> (reliable_encode_error + unit) \<times> bytes" where
  "reliable_encode_data magic seq payload out =
     (let out1 = out @ magic @ [RELIABLE_KIND_DATA] @ to_le 8 seq in
      if length payload \<ge> 2 ^ 32 then (Err (RelPayloadTooLarge (length payload)), out1)
      else (Ok (), out1 @ to_le 4 (of_nat (length payload) :: u32) @ payload))"

definition reliable_encode ::
  "bytes \<Rightarrow> reliable_frame \<Rightarrow> bytes \<Rightarrow> (reliable_encode_error + unit) \<times> bytes" where
  "reliable_encode magic f out =
     (case f of
        RData seq payload \<Rightarrow> reliable_encode_data magic seq payload out
      | RAck seq \<Rightarrow> (Ok (), out @ magic @ [RELIABLE_KIND_ACK] @ to_le 8 seq))"

definition reliable_decode :: "bytes \<Rightarrow> bytes \<Rightarrow> reliable_decode_error + reliable_frame" where
  "reliable_decode expected input =
     and_then (tc_slice RelTruncated 4 (cursor_new input)) (\<lambda>(magic, c).
     if magic \<noteq> expected then Err RelBadMagic
     else and_then (tc_u8 RelTruncated c) (\<lambda>(kind, c).
     and_then (tc_word RelTruncated 8 c) (\<lambda>(seq :: u64, c).
     and_then
       (if kind = RELIABLE_KIND_DATA
        then and_then (tc_word RelTruncated 4 c) (\<lambda>(len :: u32, c).
             and_then (tc_slice RelTruncated (unat len) c) (\<lambda>(payload, c). Ok (RData seq payload, c)))
        else if kind = RELIABLE_KIND_ACK then Ok (RAck seq, c)
        else Err (RelUnknownKind kind))
       (\<lambda>(f, c). and_then (tc_finish RelTrailingBytes c) (\<lambda>_. Ok f)))))"

text \<open>\<open>copy_within\<close> to the front, then \<open>truncate\<close>.\<close>

definition reuse_reliable_payload :: "bytes \<Rightarrow> usize \<Rightarrow> usize \<Rightarrow> bytes" where
  "reuse_reliable_payload wire offset len =
     take len (take len (drop offset wire) @ drop len wire)"

section \<open>Configuration and errors\<close>

record link_config =
  lc_max_in_flight_per_peer :: usize
  lc_retry_after_ticks :: u64
  lc_max_attempts :: u8
  lc_max_payload_bytes :: usize
  lc_max_delivered_history :: usize

definition default_link_config :: link_config where
  "default_link_config =
     \<lparr>lc_max_in_flight_per_peer = 1024, lc_retry_after_ticks = 2, lc_max_attempts = 4,
      lc_max_payload_bytes = 16 * 1024 - RELIABLE_DATA_HEADER_BYTES, lc_max_delivered_history = 4096\<rparr>"

record link_stats =
  lt_data_sent :: usize
  lt_retries_sent :: usize
  lt_acks_sent :: usize
  lt_acks_received :: usize
  lt_data_delivered :: usize
  lt_duplicates_suppressed :: usize
  lt_timed_out :: usize

definition link_stats_zero :: link_stats where
  "link_stats_zero =
     \<lparr>lt_data_sent = 0, lt_retries_sent = 0, lt_acks_sent = 0, lt_acks_received = 0,
      lt_data_delivered = 0, lt_duplicates_suppressed = 0, lt_timed_out = 0\<rparr>"

text \<open>The station error type has no \<open>MissingSourceClient\<close>, and no station operation yields it.\<close>

datatype ('p, 'e) link_error =
    LinkTransport 'e
  | MissingSourceClient
  | LinkPayloadTooLarge usize usize
  | WindowFull 'p usize
  | LinkEncode reliable_encode_error
  | LinkDecode reliable_decode_error

record ('t, 'm, 'p, 'e) link =
  lk_magic :: bytes
  lk_send :: "'t \<Rightarrow> 'm \<Rightarrow> 'p \<Rightarrow> bytes \<Rightarrow> ('e + unit) \<times> 't"

section \<open>The sender\<close>

record ('p, 'm) in_flight =
  if_meta :: 'm
  if_peer :: 'p
  if_sequence :: u64
  if_payload :: bytes
  if_first_sent_tick :: u64
  if_last_sent_tick :: u64
  if_attempts :: u8

type_synonym 'p retry_entry = "u64 \<times> 'p \<times> u64"

record ('p, 'm) link_sender =
  ls_config :: link_config
  ls_next_sequence :: "('p, u64) fmap"
  ls_in_flight :: "('p \<times> u64, ('p, 'm) in_flight) fmap"
  ls_by_peer :: "('p, usize) fmap"
  ls_deadlines :: "'p retry_entry list"
  ls_stats :: link_stats

record retry_report =
  rp_examined :: usize
  rp_retried :: usize
  rp_timed_out :: usize

definition sender_new :: "link_config \<Rightarrow> ('p, 'm) link_sender" where
  "sender_new cfg =
     \<lparr>ls_config = cfg, ls_next_sequence = fmempty, ls_in_flight = fmempty, ls_by_peer = fmempty,
      ls_deadlines = [], ls_stats = link_stats_zero\<rparr>"

definition in_flight_len :: "('p, 'm) link_sender \<Rightarrow> usize" where
  "in_flight_len s = map_len (ls_in_flight s)"

definition in_flight_for :: "('p, 'm) link_sender \<Rightarrow> 'p \<Rightarrow> usize" where
  "in_flight_for s p = (case fmlookup (ls_by_peer s) p of None \<Rightarrow> 0 | Some c \<Rightarrow> c)"

definition validate_payload :: "('p, 'm) link_sender \<Rightarrow> usize \<Rightarrow> ('p, 'e) link_error + unit" where
  "validate_payload s n =
     (if n > lc_max_payload_bytes (ls_config s)
      then Err (LinkPayloadTooLarge (lc_max_payload_bytes (ls_config s)) n) else Ok ())"

definition next_sequence_for :: "('p, 'm) link_sender \<Rightarrow> 'p \<Rightarrow> u64" where
  "next_sequence_for s p = (case fmlookup (ls_next_sequence s) p of None \<Rightarrow> 1 | Some n \<Rightarrow> n)"

definition allocate_sequence :: "('p, 'm) link_sender \<Rightarrow> 'p \<Rightarrow> u64 \<times> ('p, 'm) link_sender" where
  "allocate_sequence s p =
     (let seq = next_sequence_for s p in
      (seq, s\<lparr>ls_next_sequence := fmupd p (sat_add seq 1) (ls_next_sequence s)\<rparr>))"

definition send_data_frame ::
  "('t, 'm, 'p, 'e) link \<Rightarrow> 't \<Rightarrow> 'm \<Rightarrow> 'p \<Rightarrow> u64 \<Rightarrow> bytes \<Rightarrow> (('p, 'e) link_error + unit) \<times> 't" where
  "send_data_frame l t m p seq payload =
     (case reliable_encode_data (lk_magic l) seq payload [] of (r, frame) \<Rightarrow>
        case r of
          Inl e \<Rightarrow> (Err (LinkEncode e), t)
        | Inr _ \<Rightarrow> (case lk_send l t m p frame of (r2, t1) \<Rightarrow> (map_err LinkTransport r2, t1)))"

definition insert_in_flight ::
  "('p, 'm) link_sender \<Rightarrow> 'p \<times> u64 \<Rightarrow> ('p, 'm) in_flight \<Rightarrow> ('p, 'm) link_sender" where
  "insert_in_flight s key pkt =
     (let s1 = s\<lparr>ls_in_flight := fmupd key pkt (ls_in_flight s)\<rparr> in
      if fmlookup (ls_in_flight s) key = None
      then s1\<lparr>ls_by_peer := fmupd (fst key) (usize_add (in_flight_for s (fst key)) 1) (ls_by_peer s1)\<rparr>
      else s1)"

definition remove_in_flight ::
  "('p, 'm) link_sender \<Rightarrow> 'p \<times> u64 \<Rightarrow> ('p, 'm) in_flight option \<times> ('p, 'm) link_sender" where
  "remove_in_flight s key =
     (case fmlookup (ls_in_flight s) key of
        None \<Rightarrow> (None, s)
      | Some removed \<Rightarrow>
          (let s1 = s\<lparr>ls_in_flight := fmdrop key (ls_in_flight s)\<rparr> in
           case fmlookup (ls_by_peer s1) (if_peer removed) of
             None \<Rightarrow> (Some removed, s1)
           | Some count \<Rightarrow>
               (Some removed,
                if count - 1 = 0 then s1\<lparr>ls_by_peer := fmdrop (if_peer removed) (ls_by_peer s1)\<rparr>
                else s1\<lparr>ls_by_peer := fmupd (if_peer removed) (count - 1) (ls_by_peer s1)\<rparr>)))"

definition deadline_of :: "link_config \<Rightarrow> ('p, 'm) in_flight \<Rightarrow> u64" where
  "deadline_of cfg pkt = sat_add (if_last_sent_tick pkt) (lc_retry_after_ticks cfg)"

definition schedule_retry ::
  "('p::linorder, 'm) link_sender \<Rightarrow> 'p \<Rightarrow> u64 \<Rightarrow> u64 \<Rightarrow> ('p, 'm) link_sender" where
  "schedule_retry s p seq sent =
     s\<lparr>ls_deadlines := insort (sat_add sent (lc_retry_after_ticks (ls_config s)), p, seq) (ls_deadlines s)\<rparr>"

definition link_send ::
  "('t, 'm, 'p::linorder, 'e) link \<Rightarrow> ('p, 'm) link_sender \<Rightarrow> 't \<Rightarrow> 'm \<Rightarrow> 'p \<Rightarrow> bytes \<Rightarrow> u64 \<Rightarrow>
   (('p, 'e) link_error + u64) \<times> ('p, 'm) link_sender \<times> 't" where
  "link_send l s t m p payload now =
     (case validate_payload s (length payload) of
        Inl e \<Rightarrow> (Err e, s, t)
      | Inr _ \<Rightarrow>
          if in_flight_for s p \<ge> lc_max_in_flight_per_peer (ls_config s)
          then (Err (WindowFull p (lc_max_in_flight_per_peer (ls_config s))), s, t)
          else (case allocate_sequence s p of (seq, s1) \<Rightarrow>
            case send_data_frame l t m p seq payload of (r, t1) \<Rightarrow>
            case r of
              Inl e \<Rightarrow> (Err e, s1, t1)
            | Inr _ \<Rightarrow>
                (let s2 = insert_in_flight s1 (p, seq)
                       \<lparr>if_meta = m, if_peer = p, if_sequence = seq, if_payload = payload,
                        if_first_sent_tick = now, if_last_sent_tick = now, if_attempts = 1\<rparr>;
                     s3 = schedule_retry s2 p seq now
                 in (Ok seq, s3\<lparr>ls_stats := (ls_stats s3)\<lparr>lt_data_sent := usize_add (lt_data_sent (ls_stats s3)) 1\<rparr>\<rparr>, t1))))"

definition RETRY_DEADLINE_COMPACTION_MULTIPLE :: usize where
  "RETRY_DEADLINE_COMPACTION_MULTIPLE = 4"

definition in_flight_values :: "('p::linorder, 'm) link_sender \<Rightarrow> ('p, 'm) in_flight list" where
  "in_flight_values s =
     map (\<lambda>key. the (fmlookup (ls_in_flight s) key)) (sorted_list_of_fset (fmdom (ls_in_flight s)))"

definition compact_retry_deadlines_if_stale :: "('p::linorder, 'm) link_sender \<Rightarrow> ('p, 'm) link_sender" where
  "compact_retry_deadlines_if_stale s =
     (if length (ls_deadlines s) > usize_mul (map_len (ls_in_flight s)) RETRY_DEADLINE_COMPACTION_MULTIPLE
      then s\<lparr>ls_deadlines :=
             sort (map (\<lambda>pkt. (deadline_of (ls_config s) pkt, if_peer pkt, if_sequence pkt)) (in_flight_values s))\<rparr>
      else s)"

definition link_acknowledge ::
  "('p::linorder, 'm) link_sender \<Rightarrow> 'p \<Rightarrow> u64 \<Rightarrow> bool \<times> ('p, 'm) link_sender" where
  "link_acknowledge s p seq =
     (case remove_in_flight s (p, seq) of (removed, s1) \<Rightarrow>
        if removed \<noteq> None
        then (True, compact_retry_deadlines_if_stale
                (s1\<lparr>ls_stats := (ls_stats s1)\<lparr>lt_acks_received := usize_add (lt_acks_received (ls_stats s1)) 1\<rparr>\<rparr>))
        else (False, s1))"

text \<open>Popping the due entries off the heap.\<close>

fun pop_due :: "u64 \<Rightarrow> 'p retry_entry list \<Rightarrow> 'p retry_entry list \<times> 'p retry_entry list" where
  "pop_due now [] = ([], [])"
| "pop_due now (d # ds) =
     (if fst d > now then ([], d # ds) else (case pop_due now ds of (due, rest) \<Rightarrow> (d # due, rest)))"

definition heap_extend :: "'a::linorder list \<Rightarrow> 'a list \<Rightarrow> 'a list" where
  "heap_extend heap xs = fold insort xs heap"

text \<open>One due entry: \<open>Inl\<close> ends the pass with an error.\<close>

definition retry_one ::
  "('t, 'm, 'p::linorder, 'e) link \<Rightarrow> u64 \<Rightarrow> ('p, 'm) link_sender \<Rightarrow> 't \<Rightarrow> retry_report \<Rightarrow> 'p retry_entry \<Rightarrow>
   (('p, 'e) link_error + retry_report) \<times> ('p, 'm) link_sender \<times> 't" where
  "retry_one l now s t report entry =
     (case entry of (deadline, p, seq) \<Rightarrow>
      case fmlookup (ls_in_flight s) (p, seq) of
        None \<Rightarrow> (Ok report, s, t)
      | Some pkt \<Rightarrow>
          if deadline_of (ls_config s) pkt \<noteq> deadline then (Ok report, s, t)
          else
            (let report = report\<lparr>rp_examined := usize_add (rp_examined report) 1\<rparr> in
             if if_attempts pkt \<ge> lc_max_attempts (ls_config s)
             then (let s1 = snd (remove_in_flight s (p, seq)) in
                   (Ok (report\<lparr>rp_timed_out := usize_add (rp_timed_out report) 1\<rparr>),
                    s1\<lparr>ls_stats := (ls_stats s1)\<lparr>lt_timed_out := usize_add (lt_timed_out (ls_stats s1)) 1\<rparr>\<rparr>, t))
             else (case send_data_frame l t (if_meta pkt) (if_peer pkt) (if_sequence pkt) (if_payload pkt) of (r, t1) \<Rightarrow>
               case r of
                 Inl e \<Rightarrow> (Err e, s, t1)
               | Inr _ \<Rightarrow>
                   (let s1 = s\<lparr>ls_in_flight := fmupd (p, seq)
                               (pkt\<lparr>if_last_sent_tick := now, if_attempts := sat_add (if_attempts pkt) 1\<rparr>) (ls_in_flight s)\<rparr>;
                        s2 = schedule_retry s1 p seq now
                    in (Ok (report\<lparr>rp_retried := usize_add (rp_retried report) 1\<rparr>),
                        s2\<lparr>ls_stats := (ls_stats s2)\<lparr>lt_retries_sent := usize_add (lt_retries_sent (ls_stats s2)) 1\<rparr>\<rparr>, t1)))))"

fun retry_loop ::
  "('t, 'm, 'p::linorder, 'e) link \<Rightarrow> u64 \<Rightarrow> ('p, 'm) link_sender \<Rightarrow> 't \<Rightarrow> retry_report \<Rightarrow> 'p retry_entry list \<Rightarrow>
   (('p, 'e) link_error + retry_report) \<times> ('p, 'm) link_sender \<times> 't" where
  "retry_loop l now s t report [] = (Ok report, s, t)"
| "retry_loop l now s t report (d # ds) =
     (case retry_one l now s t report d of (r, s1, t1) \<Rightarrow>
        case r of
          Inl e \<Rightarrow> (Err e, s1\<lparr>ls_deadlines := heap_extend (ls_deadlines s1) (d # ds)\<rparr>, t1)
        | Inr report1 \<Rightarrow> retry_loop l now s1 t1 report1 ds)"

text \<open>The last component is the caller's scratch, the entries that were due.\<close>

definition link_retry_due_into ::
  "('t, 'm, 'p::linorder, 'e) link \<Rightarrow> ('p, 'm) link_sender \<Rightarrow> 't \<Rightarrow> u64 \<Rightarrow>
   (('p, 'e) link_error + retry_report) \<times> ('p, 'm) link_sender \<times> 't \<times> 'p retry_entry list" where
  "link_retry_due_into l s t now =
     (case pop_due now (ls_deadlines s) of (due, rest) \<Rightarrow>
      case retry_loop l now (s\<lparr>ls_deadlines := rest\<rparr>) t
             \<lparr>rp_examined = 0, rp_retried = 0, rp_timed_out = 0\<rparr> due of (r, s1, t1) \<Rightarrow>
        (r, s1, t1, due))"

section \<open>The receiver\<close>

record 'p link_receiver =
  lr_config :: link_config
  lr_delivered :: "('p \<times> u64) lookup_set"
  lr_order :: "('p \<times> u64) list"
  lr_stats :: link_stats

definition receiver_new :: "link_config \<Rightarrow> 'p link_receiver" where
  "receiver_new cfg =
     \<lparr>lr_config = cfg, lr_delivered = lset_new (lc_max_delivered_history cfg), lr_order = [],
      lr_stats = link_stats_zero\<rparr>"

definition record_unique :: "'p link_receiver \<Rightarrow> 'p \<times> u64 \<Rightarrow> bool \<times> 'p link_receiver" where
  "record_unique r key =
     (if lc_max_delivered_history (lr_config r) = 0 then (True, r)
      else if lset_contains (lr_delivered r) key then (False, r)
      else (case trim_history (lc_max_delivered_history (lr_config r)) (lset_insert (lr_delivered r) key)
                   (lr_order r @ [key]) of
              (seen, order) \<Rightarrow> (True, r\<lparr>lr_delivered := seen, lr_order := order\<rparr>)))"

definition send_ack ::
  "('t, 'm, 'p, 'e) link \<Rightarrow> 'p link_receiver \<Rightarrow> 't \<Rightarrow> 'm \<Rightarrow> 'p \<Rightarrow> u64 \<Rightarrow>
   (('p, 'e) link_error + unit) \<times> 'p link_receiver \<times> 't" where
  "send_ack l r t m p seq =
     (case reliable_encode (lk_magic l) (RAck seq) [] of (e, frame) \<Rightarrow>
        case e of
          Inl err \<Rightarrow> (Err (LinkEncode err), r, t)
        | Inr _ \<Rightarrow>
            (case lk_send l t m p frame of (res, t1) \<Rightarrow>
               case res of
                 Inl err \<Rightarrow> (Err (LinkTransport err), r, t1)
               | Inr _ \<Rightarrow> (Ok (), r\<lparr>lr_stats := (lr_stats r)\<lparr>lt_acks_sent := usize_add (lt_acks_sent (lr_stats r)) 1\<rparr>\<rparr>, t1)))"

definition link_handle_data ::
  "('t, 'm, 'p, 'e) link \<Rightarrow> 'p link_receiver \<Rightarrow> 't \<Rightarrow> 'm \<Rightarrow> 'p \<Rightarrow> u64 \<Rightarrow> bytes \<Rightarrow>
   (('p, 'e) link_error + bytes option) \<times> 'p link_receiver \<times> 't" where
  "link_handle_data l r t m p seq payload =
     (case send_ack l r t m p seq of (res, r1, t1) \<Rightarrow>
        case res of
          Inl e \<Rightarrow> (Err e, r1, t1)
        | Inr _ \<Rightarrow>
            (case record_unique r1 (p, seq) of (fresh, r2) \<Rightarrow>
               if \<not> fresh
               then (Ok None, r2\<lparr>lr_stats := (lr_stats r2)\<lparr>lt_duplicates_suppressed :=
                       usize_add (lt_duplicates_suppressed (lr_stats r2)) 1\<rparr>\<rparr>, t1)
               else (Ok (Some payload), r2\<lparr>lr_stats := (lr_stats r2)\<lparr>lt_data_delivered :=
                       usize_add (lt_data_delivered (lr_stats r2)) 1\<rparr>\<rparr>, t1)))"

section \<open>The endpoint\<close>

record ('p, 'm) link_endpoint =
  le_sender :: "('p, 'm) link_sender"
  le_receiver :: "'p link_receiver"
  le_retry_scratch :: "'p retry_entry list"

definition endpoint_new :: "link_config \<Rightarrow> ('p, 'm) link_endpoint" where
  "endpoint_new cfg = \<lparr>le_sender = sender_new cfg, le_receiver = receiver_new cfg, le_retry_scratch = []\<rparr>"

definition endpoint_send ::
  "('t, 'm, 'p::linorder, 'e) link \<Rightarrow> ('p, 'm) link_endpoint \<Rightarrow> 't \<Rightarrow> 'm \<Rightarrow> 'p \<Rightarrow> bytes \<Rightarrow> u64 \<Rightarrow>
   (('p, 'e) link_error + u64) \<times> ('p, 'm) link_endpoint \<times> 't" where
  "endpoint_send l ep t m p payload now =
     (case link_send l (le_sender ep) t m p payload now of (r, s, t1) \<Rightarrow> (r, ep\<lparr>le_sender := s\<rparr>, t1))"

definition endpoint_retry_due ::
  "('t, 'm, 'p::linorder, 'e) link \<Rightarrow> ('p, 'm) link_endpoint \<Rightarrow> 't \<Rightarrow> u64 \<Rightarrow>
   (('p, 'e) link_error + retry_report) \<times> ('p, 'm) link_endpoint \<times> 't" where
  "endpoint_retry_due l ep t now =
     (case link_retry_due_into l (le_sender ep) t now of (r, s, t1, due) \<Rightarrow>
        (r, ep\<lparr>le_sender := s, le_retry_scratch := due\<rparr>, t1))"

text \<open>One inbound frame from \<open>p\<close>; \<open>m\<close> goes into the acknowledgement.\<close>

definition endpoint_inbound ::
  "('t, 'm, 'p::linorder, 'e) link \<Rightarrow> ('p, 'm) link_endpoint \<Rightarrow> 't \<Rightarrow> 'm \<Rightarrow> 'p \<Rightarrow> bytes \<Rightarrow>
   (('p, 'e) link_error + bytes option) \<times> ('p, 'm) link_endpoint \<times> 't" where
  "endpoint_inbound l ep t m p wire =
     (case reliable_decode (lk_magic l) wire of
        Inl e \<Rightarrow> (Err (LinkDecode e), ep, t)
      | Inr (RData seq payload) \<Rightarrow>
          (let payload_len = length payload;
               payload_offset = length wire - payload_len;
               owned = reuse_reliable_payload wire payload_offset payload_len
           in case link_handle_data l (le_receiver ep) t m p seq owned of (r, rc, t1) \<Rightarrow>
                (r, ep\<lparr>le_receiver := rc\<rparr>, t1))
      | Inr (RAck seq) \<Rightarrow>
          (Ok None, ep\<lparr>le_sender := snd (link_acknowledge (le_sender ep) p seq)\<rparr>, t))"

end
