(* ===== verification/Reliable_Sender.thy ===== *)
theory Reliable_Sender
  imports Reliable_Link
begin

text \<open>
  The reliable sender: every sequence of sends, acknowledgements and retry passes, over any
  transport, keeps the per-peer counts exact and within the window, and keeps a live deadline for
  every packet in flight, so that no packet is forgotten; and a packet that is never acknowledged
  leaves the window after boundedly many retry passes.
\<close>

section \<open>Well-formed senders\<close>

definition peer_keys :: "('p, 'm) link_sender \<Rightarrow> 'p \<Rightarrow> ('p \<times> u64) set" where
  "peer_keys s p = {key. fmlookup (ls_in_flight s) key \<noteq> None \<and> fst key = p}"

definition live_entries :: "('p, 'm) link_sender \<Rightarrow> 'p retry_entry set" where
  "live_entries s =
     {(d, key). \<exists>pkt. fmlookup (ls_in_flight s) key = Some pkt \<and> d = deadline_of (ls_config s) pkt}"

definition counts_exact :: "('p, 'm) link_sender \<Rightarrow> bool" where
  "counts_exact s \<longleftrightarrow>
     (\<forall>p. fmlookup (ls_by_peer s) p = (if peer_keys s p = {} then None else Some (card (peer_keys s p))) \<and>
        card (peer_keys s p) \<le> lc_max_in_flight_per_peer (ls_config s))"

definition packets_ok :: "('p, 'm) link_sender \<Rightarrow> bool" where
  "packets_ok s \<longleftrightarrow>
     (\<forall>p seq pkt. fmlookup (ls_in_flight s) (p, seq) = Some pkt \<longrightarrow>
        if_peer pkt = p \<and> if_sequence pkt = seq \<and>
        length (if_payload pkt) \<le> lc_max_payload_bytes (ls_config s) \<and>
        1 \<le> if_attempts pkt \<and> if_attempts pkt \<le> max 1 (lc_max_attempts (ls_config s)))"

definition sender_core :: "('p::linorder, 'm) link_sender \<Rightarrow> bool" where
  "sender_core s \<longleftrightarrow> counts_exact s \<and> packets_ok s \<and> sorted (ls_deadlines s) \<and>
     lc_max_in_flight_per_peer (ls_config s) \<le> usize_max"

definition sender_wf :: "('p::linorder, 'm) link_sender \<Rightarrow> bool" where
  "sender_wf s \<longleftrightarrow> sender_core s \<and> live_entries s \<subseteq> set (ls_deadlines s)"

lemma finite_peer_keys [simp]: "finite (peer_keys s p)"
proof (rule finite_subset)
  show "peer_keys s p \<subseteq> fset (fmdom (ls_in_flight s))" by (auto simp: peer_keys_def fmlookup_dom_iff)
qed simp

lemma in_flight_for_card: "counts_exact s \<Longrightarrow> in_flight_for s p = card (peer_keys s p)"
  by (auto simp: counts_exact_def in_flight_for_def)

lemma peer_keys_upd:
  "ls_in_flight s' = fmupd key pkt (ls_in_flight s) \<Longrightarrow>
   peer_keys s' p = (if fst key = p then insert key (peer_keys s p) else peer_keys s p)"
  by (auto simp: peer_keys_def split: if_splits)

lemma peer_keys_drop:
  "ls_in_flight s' = fmdrop key (ls_in_flight s) \<Longrightarrow> peer_keys s' p = peer_keys s p - {key}"
  by (auto simp: peer_keys_def split: if_splits)

lemma peer_keys_cong: "ls_in_flight s' = ls_in_flight s \<Longrightarrow> peer_keys s' p = peer_keys s p"
  by (simp add: peer_keys_def)

lemma live_entries_upd:
  "ls_in_flight s' = fmupd key pkt (ls_in_flight s) \<Longrightarrow> ls_config s' = ls_config s \<Longrightarrow>
   live_entries s' = insert (deadline_of (ls_config s) pkt, key) {e \<in> live_entries s. snd e \<noteq> key}"
  by (auto simp: live_entries_def split: if_splits)

lemma live_entries_drop:
  "ls_in_flight s' = fmdrop key (ls_in_flight s) \<Longrightarrow> ls_config s' = ls_config s \<Longrightarrow>
   live_entries s' = {e \<in> live_entries s. snd e \<noteq> key}"
  by (auto simp: live_entries_def split: if_splits)

lemma live_entries_cong:
  "ls_in_flight s' = ls_in_flight s \<Longrightarrow> ls_config s' = ls_config s \<Longrightarrow> live_entries s' = live_entries s"
  by (simp add: live_entries_def)

section \<open>Effects of the parts\<close>

lemma insert_in_flight_simps [simp]:
  "ls_in_flight (insert_in_flight s key pkt) = fmupd key pkt (ls_in_flight s)"
  "ls_config (insert_in_flight s key pkt) = ls_config s"
  "ls_deadlines (insert_in_flight s key pkt) = ls_deadlines s"
  "ls_next_sequence (insert_in_flight s key pkt) = ls_next_sequence s"
  "ls_stats (insert_in_flight s key pkt) = ls_stats s"
  by (simp_all add: insert_in_flight_def Let_def)

lemma schedule_retry_simps [simp]:
  "ls_in_flight (schedule_retry s p seq now) = ls_in_flight s"
  "ls_config (schedule_retry s p seq now) = ls_config s"
  "ls_by_peer (schedule_retry s p seq now) = ls_by_peer s"
  "ls_next_sequence (schedule_retry s p seq now) = ls_next_sequence s"
  "ls_stats (schedule_retry s p seq now) = ls_stats s"
  "ls_deadlines (schedule_retry s p seq now) =
     insort (sat_add now (lc_retry_after_ticks (ls_config s)), p, seq) (ls_deadlines s)"
  by (simp_all add: schedule_retry_def)

lemma remove_in_flight_simps [simp]:
  "fst (remove_in_flight s key) = fmlookup (ls_in_flight s) key"
  "ls_in_flight (snd (remove_in_flight s key)) = fmdrop key (ls_in_flight s)"
  "ls_config (snd (remove_in_flight s key)) = ls_config s"
  "ls_deadlines (snd (remove_in_flight s key)) = ls_deadlines s"
  "ls_next_sequence (snd (remove_in_flight s key)) = ls_next_sequence s"
  "ls_stats (snd (remove_in_flight s key)) = ls_stats s"
  by (auto simp: remove_in_flight_def Let_def fmdrop_idle fmdom_notI split: option.splits)

lemma counts_insert:
  assumes "counts_exact s" "in_flight_for s (fst key) < lc_max_in_flight_per_peer (ls_config s)"
    and "lc_max_in_flight_per_peer (ls_config s) \<le> usize_max"
  shows "counts_exact (insert_in_flight s key pkt)"
  unfolding counts_exact_def
proof
  fix p
  let ?s = "insert_in_flight s key pkt"
  have pk: "peer_keys ?s p = (if fst key = p then insert key (peer_keys s p) else peer_keys s p)"
    by (rule peer_keys_upd) simp
  have old: "fmlookup (ls_by_peer s) p = (if peer_keys s p = {} then None else Some (card (peer_keys s p)))"
    "card (peer_keys s p) \<le> lc_max_in_flight_per_peer (ls_config s)"
    using assms(1) unfolding counts_exact_def by blast+
  have lt: "card (peer_keys s (fst key)) < lc_max_in_flight_per_peer (ls_config s)"
    using assms(2) in_flight_for_card [OF assms(1)] by simp
  have mem: "key \<in> peer_keys s (fst key) \<longleftrightarrow> fmlookup (ls_in_flight s) key \<noteq> None" by (simp add: peer_keys_def)
  show "fmlookup (ls_by_peer ?s) p = (if peer_keys ?s p = {} then None else Some (card (peer_keys ?s p))) \<and>
      card (peer_keys ?s p) \<le> lc_max_in_flight_per_peer (ls_config ?s)"
  proof (cases "fst key = p")
    case False
    then show ?thesis using pk old by (simp add: insert_in_flight_def Let_def)
  next
    case True
    show ?thesis
    proof (cases "fmlookup (ls_in_flight s) key = None")
      case new: True
      then have "card (peer_keys ?s p) = Suc (card (peer_keys s p))" using pk True mem by auto
      moreover have "usize_add (in_flight_for s p) 1 = Suc (card (peer_keys s p))"
        using in_flight_for_card [OF assms(1)] lt assms(3) True by (simp add: usize_add_def)
      ultimately show ?thesis using new True lt pk by (simp add: insert_in_flight_def Let_def)
    next
      case False
      then have "peer_keys ?s p = peer_keys s p" using pk True mem by auto
      moreover have "ls_by_peer ?s = ls_by_peer s" using False by (auto simp: insert_in_flight_def Let_def)
      ultimately show ?thesis using old by simp
    qed
  qed
qed

lemma counts_remove:
  assumes "counts_exact s" "packets_ok s"
  shows "counts_exact (snd (remove_in_flight s key))"
proof (cases "fmlookup (ls_in_flight s) key")
  case None
  then show ?thesis using assms(1) by (simp add: remove_in_flight_def)
next
  case (Some pkt)
  let ?s = "snd (remove_in_flight s key)"
  have peer: "if_peer pkt = fst key" using assms(2) Some unfolding packets_ok_def by (metis prod.collapse)
  have mem: "key \<in> peer_keys s (fst key)" using Some by (simp add: peer_keys_def)
  have old: "fmlookup (ls_by_peer s) p = (if peer_keys s p = {} then None else Some (card (peer_keys s p)))"
    "card (peer_keys s p) \<le> lc_max_in_flight_per_peer (ls_config s)" for p
    using assms(1) unfolding counts_exact_def by blast+
  have pk: "peer_keys ?s p = peer_keys s p - {key}" for p by (rule peer_keys_drop) simp
  have same: "peer_keys ?s p = peer_keys s p" if "p \<noteq> fst key" for p
    using pk [of p] that by (auto simp: peer_keys_def)
  have c: "card (peer_keys ?s (fst key)) = card (peer_keys s (fst key)) - 1"
    using mem by (simp add: pk)
  have e: "peer_keys ?s (fst key) = {} \<longleftrightarrow> card (peer_keys s (fst key)) - 1 = 0"
    using c by (metis card_eq_0_iff finite_peer_keys)
  have by_peer: "fmlookup (ls_by_peer ?s) p =
      (if p = fst key then (if card (peer_keys s p) - 1 = 0 then None else Some (card (peer_keys s p) - 1))
       else fmlookup (ls_by_peer s) p)" for p
    using Some peer old(1) [of "fst key"] mem by (auto simp: remove_in_flight_def Let_def)
  show ?thesis
    unfolding counts_exact_def
  proof
    fix p
    show "fmlookup (ls_by_peer ?s) p = (if peer_keys ?s p = {} then None else Some (card (peer_keys ?s p))) \<and>
        card (peer_keys ?s p) \<le> lc_max_in_flight_per_peer (ls_config ?s)"
      using by_peer [of p] same [of p] c e old [of p] by (cases "p = fst key") auto
  qed
qed

lemma packets_remove: "packets_ok s \<Longrightarrow> packets_ok (snd (remove_in_flight s key))"
  by (auto simp: packets_ok_def split: if_splits)

lemma core_cong:
  "sender_core s \<Longrightarrow> ls_in_flight s' = ls_in_flight s \<Longrightarrow> ls_by_peer s' = ls_by_peer s \<Longrightarrow>
   ls_config s' = ls_config s \<Longrightarrow> sorted (ls_deadlines s') \<Longrightarrow> sender_core s'"
  by (auto simp: sender_core_def counts_exact_def packets_ok_def peer_keys_def)

lemma core_remove: "sender_core s \<Longrightarrow> sender_core (snd (remove_in_flight s key))"
  by (simp add: sender_core_def counts_remove packets_remove)

lemma heap_extend_set [simp]: "set (heap_extend h xs) = set h \<union> set xs"
  by (induction xs arbitrary: h) (auto simp: heap_extend_def set_insort_key)

lemma heap_extend_sorted: "sorted h \<Longrightarrow> sorted (heap_extend h xs)"
  by (induction xs arbitrary: h) (simp_all add: heap_extend_def sorted_insort)

section \<open>Sending and acknowledging\<close>

lemma link_send_cases:
  assumes "link_send l s t m p payload now = (r, s', t')"
  obtains (rejected) e where "r = Err e" "s' = s" "t' = t"
  | (failed) e where "r = Err e" "s' = snd (allocate_sequence s p)"
  | (sent) seq where "r = Ok seq" "seq = next_sequence_for s p"
      "length payload \<le> lc_max_payload_bytes (ls_config s)"
      "in_flight_for s p < lc_max_in_flight_per_peer (ls_config s)"
      "send_data_frame l t m p seq payload = (Ok (), t')"
      "s' = (schedule_retry (insert_in_flight (snd (allocate_sequence s p)) (p, seq)
          \<lparr>if_meta = m, if_peer = p, if_sequence = seq, if_payload = payload, if_first_sent_tick = now,
           if_last_sent_tick = now, if_attempts = 1\<rparr>) p seq now)
          \<lparr>ls_stats := (ls_stats s)\<lparr>lt_data_sent := usize_add (lt_data_sent (ls_stats s)) 1\<rparr>\<rparr>"
proof (cases "length payload > lc_max_payload_bytes (ls_config s) \<or>
    in_flight_for s p \<ge> lc_max_in_flight_per_peer (ls_config s)")
  case True
  then show thesis using assms rejected by (auto simp: link_send_def validate_payload_def split: if_splits)
next
  case False
  obtain r1 t1 where sd: "send_data_frame l t m p (next_sequence_for s p) payload = (r1, t1)" by fastforce
  show thesis
  proof (cases r1)
    case (Inl e)
    then show thesis using assms False sd
      by (intro failed) (auto simp: link_send_def validate_payload_def allocate_sequence_def Let_def)
  next
    case (Inr u)
    then show thesis using assms False sd
      by (intro sent) (auto simp: link_send_def validate_payload_def allocate_sequence_def Let_def)
  qed
qed

lemma allocate_sequence_simps [simp]:
  "fst (allocate_sequence s p) = next_sequence_for s p"
  "ls_config (snd (allocate_sequence s p)) = ls_config s"
  "ls_in_flight (snd (allocate_sequence s p)) = ls_in_flight s"
  "ls_by_peer (snd (allocate_sequence s p)) = ls_by_peer s"
  "ls_deadlines (snd (allocate_sequence s p)) = ls_deadlines s"
  "ls_stats (snd (allocate_sequence s p)) = ls_stats s"
  "ls_next_sequence (snd (allocate_sequence s p)) =
     fmupd p (sat_add (next_sequence_for s p) 1) (ls_next_sequence s)"
  by (simp_all add: allocate_sequence_def Let_def)

lemma wf_cong:
  "sender_wf s \<Longrightarrow> ls_in_flight s' = ls_in_flight s \<Longrightarrow> ls_by_peer s' = ls_by_peer s \<Longrightarrow>
   ls_config s' = ls_config s \<Longrightarrow> ls_deadlines s' = ls_deadlines s \<Longrightarrow> sender_wf s'"
  using live_entries_cong [of s' s] core_cong [of s s'] by (simp add: sender_wf_def sender_core_def)

lemma core_insert:
  assumes "sender_core s" "in_flight_for s p < lc_max_in_flight_per_peer (ls_config s)"
    and "if_peer pkt = p" "if_sequence pkt = seq" "length (if_payload pkt) \<le> lc_max_payload_bytes (ls_config s)"
    and "if_attempts pkt = 1"
  shows "sender_core (insert_in_flight s (p, seq) pkt)"
  using assms counts_insert [of s "(p, seq)" pkt]
  by (auto simp: sender_core_def packets_ok_def split: if_splits)

lemma link_send_wf:
  assumes wf: "sender_wf s" and send: "link_send l s t m p payload now = (r, s', t')"
  shows "sender_wf s' \<and> ls_config s' = ls_config s"
  using send
proof (cases rule: link_send_cases)
  case (rejected e)
  then show ?thesis using wf by simp
next
  case (failed e)
  then show ?thesis using wf_cong [OF wf, of s'] by simp
next
  case (sent seq)
  let ?a = "snd (allocate_sequence s p)"
  let ?pkt = "\<lparr>if_meta = m, if_peer = p, if_sequence = seq, if_payload = payload, if_first_sent_tick = now,
      if_last_sent_tick = now, if_attempts = 1\<rparr>"
  let ?i = "insert_in_flight ?a (p, seq) ?pkt"
  have "sender_core ?a" using wf core_cong [of s ?a] by (simp add: sender_wf_def sender_core_def)
  then have core: "sender_core ?i"
    by (rule core_insert) (use sent in \<open>simp_all add: in_flight_for_def\<close>)
  have "sender_core s'"
    by (rule core_cong [OF core]) (use core sent in \<open>simp_all add: sorted_insort sender_core_def\<close>)
  moreover have "live_entries s' = insert (deadline_of (ls_config s) ?pkt, p, seq) {e \<in> live_entries s. snd e \<noteq> (p, seq)}"
    by (rule live_entries_upd) (simp_all add: sent)
  ultimately show ?thesis
    using wf sent by (auto simp: sender_wf_def set_insort_key deadline_of_def)
qed

lemma in_flight_values_set:
  "pkt \<in> set (in_flight_values s) \<longleftrightarrow> (\<exists>key. fmlookup (ls_in_flight s) key = Some pkt)"
  by (force simp: in_flight_values_def sorted_list_of_fset.rep_eq fmlookup_dom_iff image_iff)

lemma compact_simps [simp]:
  "ls_config (compact_retry_deadlines_if_stale s) = ls_config s"
  "ls_in_flight (compact_retry_deadlines_if_stale s) = ls_in_flight s"
  "ls_by_peer (compact_retry_deadlines_if_stale s) = ls_by_peer s"
  "ls_next_sequence (compact_retry_deadlines_if_stale s) = ls_next_sequence s"
  "ls_stats (compact_retry_deadlines_if_stale s) = ls_stats s"
  by (simp_all add: compact_retry_deadlines_if_stale_def)

lemma compact_wf:
  assumes "sender_wf s"
  shows "sender_wf (compact_retry_deadlines_if_stale s)"
proof (cases "length (ls_deadlines s) > usize_mul (map_len (ls_in_flight s)) RETRY_DEADLINE_COMPACTION_MULTIPLE")
  case True
  let ?s = "compact_retry_deadlines_if_stale s"
  have ds: "ls_deadlines ?s = sort (map (\<lambda>pkt. (deadline_of (ls_config s) pkt, if_peer pkt, if_sequence pkt)) (in_flight_values s))"
    using True by (simp add: compact_retry_deadlines_if_stale_def)
  have core: "sender_core ?s"
    by (rule core_cong [of s]) (use assms ds in \<open>simp_all add: sender_wf_def\<close>)
  have "(d, key) \<in> set (ls_deadlines ?s)" if live: "(d, key) \<in> live_entries s" for d key
  proof -
    obtain pkt where pkt: "fmlookup (ls_in_flight s) key = Some pkt" "d = deadline_of (ls_config s) pkt"
      using live by (auto simp: live_entries_def)
    then have "if_peer pkt = fst key" "if_sequence pkt = snd key"
      using assms unfolding sender_wf_def sender_core_def packets_ok_def by (metis prod.collapse)+
    moreover have "pkt \<in> set (in_flight_values s)" using pkt unfolding in_flight_values_set by blast
    ultimately show ?thesis unfolding ds using pkt by force
  qed
  then have "live_entries ?s \<subseteq> set (ls_deadlines ?s)"
    using live_entries_cong [of ?s s] by (simp add: subset_iff)
  with core show ?thesis by (simp add: sender_wf_def)
qed (simp add: compact_retry_deadlines_if_stale_def assms)

lemma remove_wf: "sender_wf s \<Longrightarrow> sender_wf (snd (remove_in_flight s key))"
  using live_entries_drop [of "snd (remove_in_flight s key)" key s]
  by (auto simp: sender_wf_def core_remove)

lemma acknowledge_simps [simp]:
  "ls_config (snd (link_acknowledge s p seq)) = ls_config s"
  "ls_in_flight (snd (link_acknowledge s p seq)) = fmdrop (p, seq) (ls_in_flight s)"
  "ls_next_sequence (snd (link_acknowledge s p seq)) = ls_next_sequence s"
  by (simp_all add: link_acknowledge_def Let_def split_beta)

lemma acknowledge_wf: "sender_wf s \<Longrightarrow> sender_wf (snd (link_acknowledge s p seq))"
proof -
  assume wf: "sender_wf s"
  let ?s1 = "snd (remove_in_flight s (p, seq))"
  have "sender_wf (?s1\<lparr>ls_stats := x\<rparr>)" for x
    by (rule wf_cong [OF remove_wf [OF wf]]) simp_all
  then show ?thesis using remove_wf [OF wf] by (simp add: link_acknowledge_def split_beta compact_wf)
qed

section \<open>Retry passes\<close>

lemma pop_due_append: "pop_due now ds = (due, rest) \<Longrightarrow> ds = due @ rest"
  by (induction ds arbitrary: due) (auto split: if_splits prod.splits)

lemma pop_due_due: "pop_due now ds = (due, rest) \<Longrightarrow> d \<in> set due \<Longrightarrow> fst d \<le> now"
  by (induction ds arbitrary: due) (auto split: if_splits prod.splits)

lemma pop_due_rest:
  "pop_due now ds = (due, rest) \<Longrightarrow> sorted ds \<Longrightarrow> d \<in> set rest \<Longrightarrow> fst d > now"
proof (induction ds arbitrary: due)
  case (Cons x xs)
  show ?case
  proof (cases "fst x > now")
    case True
    then have "rest = x # xs" using Cons.prems(1) by simp
    then have "x \<le> d" using Cons.prems(2,3) by auto
    then have "fst x \<le> fst d" by (auto simp: less_eq_prod_def)
    then show ?thesis using True by simp
  next
    case False
    then show ?thesis using Cons by (auto split: prod.splits)
  qed
qed simp

text \<open>The four things that can happen to a due entry.\<close>

lemma retry_one_cases:
  assumes "retry_one l now s t rep (d, key) = (r, s', t')"
  obtains (stale) "r = Ok rep" "s' = s" "t' = t" "(d, key) \<notin> live_entries s"
  | (timed_out) pkt where "fmlookup (ls_in_flight s) key = Some pkt" "d = deadline_of (ls_config s) pkt"
      "if_attempts pkt \<ge> lc_max_attempts (ls_config s)" "\<exists>rep'. r = Ok rep'" "t' = t"
      "s' = (snd (remove_in_flight s key))\<lparr>ls_stats := (ls_stats s)\<lparr>lt_timed_out := usize_add (lt_timed_out (ls_stats s)) 1\<rparr>\<rparr>"
  | (failed) pkt e where "fmlookup (ls_in_flight s) key = Some pkt" "d = deadline_of (ls_config s) pkt"
      "r = Err e" "s' = s" "send_data_frame l t (if_meta pkt) (if_peer pkt) (if_sequence pkt) (if_payload pkt) = (Err e, t')"
  | (resent) pkt where "fmlookup (ls_in_flight s) key = Some pkt" "d = deadline_of (ls_config s) pkt"
      "if_attempts pkt < lc_max_attempts (ls_config s)" "\<exists>rep'. r = Ok rep'"
      "send_data_frame l t (if_meta pkt) (if_peer pkt) (if_sequence pkt) (if_payload pkt) = (Ok (), t')"
      "s' = (schedule_retry (s\<lparr>ls_in_flight := fmupd key
          (pkt\<lparr>if_last_sent_tick := now, if_attempts := sat_add (if_attempts pkt) 1\<rparr>) (ls_in_flight s)\<rparr>)
          (fst key) (snd key) now)\<lparr>ls_stats := (ls_stats s)\<lparr>lt_retries_sent := usize_add (lt_retries_sent (ls_stats s)) 1\<rparr>\<rparr>"
proof -
  obtain p seq where key: "key = (p, seq)" by fastforce
  show thesis
  proof (cases "\<exists>pkt. fmlookup (ls_in_flight s) key = Some pkt \<and> d = deadline_of (ls_config s) pkt")
    case False
    then show thesis using assms key
      by (intro stale) (auto simp: retry_one_def live_entries_def split: option.splits if_splits)
  next
    case True
    then obtain pkt where pkt: "fmlookup (ls_in_flight s) key = Some pkt" "d = deadline_of (ls_config s) pkt" by blast
    obtain r1 t1 where sd:
      "send_data_frame l t (if_meta pkt) (if_peer pkt) (if_sequence pkt) (if_payload pkt) = (r1, t1)" by fastforce
    consider "if_attempts pkt \<ge> lc_max_attempts (ls_config s)"
      | e where "if_attempts pkt < lc_max_attempts (ls_config s)" "r1 = Err e"
      | "if_attempts pkt < lc_max_attempts (ls_config s)" "r1 = Ok ()"
      by (cases "if_attempts pkt < lc_max_attempts (ls_config s)"; cases r1) (auto simp: not_less)
    then show thesis
    proof cases
      case 1
      then show thesis using assms pkt key by (intro timed_out [OF pkt]) (auto simp: retry_one_def Let_def)
    next
      case (2 e)
      then show thesis using not_le [THEN iffD2, OF 2(1)] assms pkt key sd by (intro failed [OF pkt]) (auto simp: retry_one_def Let_def)
    next
      case 3
      then show thesis using not_le [THEN iffD2, OF 3(1)] assms pkt key sd by (intro resent [OF pkt]) (auto simp: retry_one_def Let_def)
    qed
  qed
qed

lemma retry_one_wf:
  assumes core: "sender_core s" and live: "live_entries s \<subseteq> set (ls_deadlines s) \<union> insert (d, key) X"
    and one: "retry_one l now s t rep (d, key) = (r, s', t')"
  shows "sender_core s' \<and> ls_config s' = ls_config s \<and>
    (case r of Inl _ \<Rightarrow> s' = s | Inr _ \<Rightarrow> live_entries s' \<subseteq> set (ls_deadlines s') \<union> X)"
proof -
  have keep: "{e \<in> live_entries s. snd e \<noteq> key} \<subseteq> set (ls_deadlines s) \<union> X"
  proof
    fix e assume e: "e \<in> {e \<in> live_entries s. snd e \<noteq> key}"
    then have "e \<in> set (ls_deadlines s) \<or> e = (d, key) \<or> e \<in> X" using live by blast
    then show "e \<in> set (ls_deadlines s) \<union> X" using e by auto
  qed
  show ?thesis
    using one
  proof (cases rule: retry_one_cases)
    case stale
    then show ?thesis using core live by auto
  next
    case (timed_out pkt)
    have L: "live_entries s' = {e \<in> live_entries s. snd e \<noteq> key}" by (rule live_entries_drop) (simp_all add: timed_out)
    have D: "ls_deadlines s' = ls_deadlines s" "ls_config s' = ls_config s" by (simp_all add: timed_out)
    have "live_entries s' \<subseteq> set (ls_deadlines s') \<union> X" using keep by (simp only: L D)
    moreover have "sender_core s'"
      by (rule core_cong [OF core_remove [OF core, of key]]) (use core timed_out in \<open>simp_all add: sender_core_def\<close>)
    ultimately show ?thesis using timed_out(4) D by auto
  next
    case (failed pkt e)
    then show ?thesis using core by simp
  next
    case (resent pkt)
    let ?pkt = "pkt\<lparr>if_last_sent_tick := now, if_attempts := sat_add (if_attempts pkt) 1\<rparr>"
    have fl: "ls_in_flight s' = fmupd key ?pkt (ls_in_flight s)" "ls_config s' = ls_config s"
      "ls_by_peer s' = ls_by_peer s"
      using resent by simp_all
    have "live_entries s' = insert (deadline_of (ls_config s) ?pkt, key) {e \<in> live_entries s. snd e \<noteq> key}"
      by (rule live_entries_upd) (simp_all add: fl)
    moreover have "set (ls_deadlines s') = insert (deadline_of (ls_config s) ?pkt, key) (set (ls_deadlines s))"
      using resent by (simp add: set_insort_key deadline_of_def)
    moreover have "peer_keys s' p = peer_keys s p" for p
      using resent(1) peer_keys_upd [OF fl(1), of p] by (auto simp: peer_keys_def)
    then have "counts_exact s'" using core fl by (simp add: sender_core_def counts_exact_def)
    moreover have "1 \<le> sat_add (if_attempts pkt) 1" "sat_add (if_attempts pkt) 1 \<le> max 1 (lc_max_attempts (ls_config s))"
      using resent(3) by (auto simp: word_le_nat_alt word_less_nat_alt unat_sat_add le_max_iff_disj)
    then have "packets_ok s'"
      using core resent(1) by (auto simp: sender_core_def packets_ok_def fl split: if_splits)
    moreover have "sorted (ls_deadlines s')" using core resent by (simp add: sender_core_def sorted_insort)
    ultimately have "live_entries s' \<subseteq> set (ls_deadlines s') \<union> X" "sender_core s'"
      using core keep fl by (blast, simp add: sender_core_def)
    then show ?thesis using resent(4) fl by auto
  qed
qed

lemma retry_loop_wf:
  assumes "sender_core s" "live_entries s \<subseteq> set (ls_deadlines s) \<union> set ds"
    and "retry_loop l now s t rep ds = (r, s', t')"
  shows "sender_wf s' \<and> ls_config s' = ls_config s"
  using assms
proof (induction ds arbitrary: s t rep)
  case (Cons d ds)
  obtain dl key where d: "d = (dl, key)" using prod.collapse [of d] by metis
  obtain r1 s1 t1 where one: "retry_one l now s t rep (dl, key) = (r1, s1, t1)" by (metis prod_cases3)
  have live: "live_entries s \<subseteq> set (ls_deadlines s) \<union> insert (dl, key) (set ds)"
    using Cons.prems(2) d by auto
  note wf1 = retry_one_wf [OF Cons.prems(1) live one]
  show ?case
  proof (cases r1)
    case (Inl e)
    let ?s = "s1\<lparr>ls_deadlines := heap_extend (ls_deadlines s1) (d # ds)\<rparr>"
    have s': "s' = ?s" using Cons.prems(3) one d Inl by simp
    have "sender_core ?s"
      by (rule core_cong [of s1]) (use wf1 in \<open>simp_all add: heap_extend_sorted\<close>, simp_all add: sender_core_def heap_extend_sorted)
    moreover have "live_entries ?s = live_entries s" using live_entries_cong [of ?s s] wf1 Inl by simp
    ultimately show ?thesis using Cons.prems(2) wf1 Inl s' by (auto simp: sender_wf_def)
  next
    case (Inr rep1)
    then have "retry_loop l now s1 t1 rep1 ds = (r, s', t')" using Cons.prems(3) one d by simp
    then show ?thesis using Cons.IH [of s1 t1 rep1] wf1 Inr by simp
  qed
qed (simp add: sender_wf_def)

lemma retry_due_wf:
  assumes wf: "sender_wf s" and retry: "link_retry_due_into l s t now = (r, s', t', due)"
  shows "sender_wf s' \<and> ls_config s' = ls_config s"
proof -
  obtain rest where p: "pop_due now (ls_deadlines s) = (due, rest)"
    and loop: "retry_loop l now (s\<lparr>ls_deadlines := rest\<rparr>) t
        \<lparr>rp_examined = 0, rp_retried = 0, rp_timed_out = 0\<rparr> due = (r, s', t')"
    using retry by (auto simp: link_retry_due_into_def split: prod.splits)
  have ds: "ls_deadlines s = due @ rest" by (rule pop_due_append [OF p])
  let ?s = "s\<lparr>ls_deadlines := rest\<rparr>"
  have "sender_core ?s"
    by (rule core_cong [of s]) (use wf ds in \<open>simp_all add: sender_wf_def sender_core_def sorted_append\<close>)
  moreover have "live_entries ?s \<subseteq> set (ls_deadlines ?s) \<union> set due"
    using wf ds live_entries_cong [of ?s s] by (auto simp: sender_wf_def)
  ultimately show ?thesis using retry_loop_wf [OF _ _ loop] by simp
qed

section \<open>Reachable senders\<close>

text \<open>Any sequence of sends, acknowledgements and retry passes, the transport being in any state at
  each of them.\<close>

inductive sender_reachable ::
  "('t, 'm, 'p::linorder, 'e) link \<Rightarrow> link_config \<Rightarrow> ('p, 'm) link_sender \<Rightarrow> bool" for l cfg where
  sr_new: "sender_reachable l cfg (sender_new cfg)"
| sr_send: "sender_reachable l cfg s \<Longrightarrow> link_send l s t m p payload now = (r, s', t') \<Longrightarrow> sender_reachable l cfg s'"
| sr_ack: "sender_reachable l cfg s \<Longrightarrow> sender_reachable l cfg (snd (link_acknowledge s p seq))"
| sr_retry: "sender_reachable l cfg s \<Longrightarrow> link_retry_due_into l s t now = (r, s', t', due) \<Longrightarrow> sender_reachable l cfg s'"

lemma sender_new_wf: "lc_max_in_flight_per_peer cfg \<le> usize_max \<Longrightarrow> sender_wf (sender_new cfg)"
  by (simp add: sender_wf_def sender_core_def sender_new_def counts_exact_def packets_ok_def peer_keys_def live_entries_def)

lemma sender_reachable_wf:
  "sender_reachable l cfg s \<Longrightarrow> lc_max_in_flight_per_peer cfg \<le> usize_max \<Longrightarrow> sender_wf s \<and> ls_config s = cfg"
proof (induction rule: sender_reachable.induct)
  case sr_new
  then show ?case by (simp add: sender_new_wf) (simp add: sender_new_def)
next
  case (sr_send s t m p payload now r s' t')
  then show ?case using link_send_wf [of s l t m p payload now r s' t'] by simp
next
  case (sr_ack s p seq)
  then show ?case by (simp add: acknowledge_wf)
next
  case (sr_retry s t now r s' t' due)
  then show ?case using retry_due_wf [of s l t now r s' t' due] by simp
qed

lemma card_sequences: "card {seq. fmlookup (ls_in_flight s) (p, seq) \<noteq> None} = card (peer_keys s p)"
proof -
  have "peer_keys s p = Pair p ` {seq. fmlookup (ls_in_flight s) (p, seq) \<noteq> None}"
    by (auto simp: peer_keys_def)
  then show ?thesis by (simp add: card_image inj_on_def)
qed

text \<open>C24. Whatever sequence of sends, acknowledgements and retry passes has run over whatever
  transport, the count the sender keeps for a peer is the number of its packets in flight to that
  peer and is within the window; every packet in flight has been sent at least once and at most
  the maximum number of times, and its current retry deadline is in the deadline heap, so it is
  due at some later pass and never forgotten.\<close>

theorem sender_window_exact:
  assumes "sender_reachable l cfg s" "lc_max_in_flight_per_peer cfg \<le> usize_max"
  shows "in_flight_for s p = card {seq. fmlookup (ls_in_flight s) (p, seq) \<noteq> None} \<and>
    in_flight_for s p \<le> lc_max_in_flight_per_peer cfg \<and> sorted (ls_deadlines s) \<and>
    (\<forall>seq pkt. fmlookup (ls_in_flight s) (p, seq) = Some pkt \<longrightarrow>
       if_peer pkt = p \<and> if_sequence pkt = seq \<and>
       1 \<le> if_attempts pkt \<and> if_attempts pkt \<le> max 1 (lc_max_attempts cfg) \<and>
       (deadline_of cfg pkt, p, seq) \<in> set (ls_deadlines s))"
proof -
  have wf: "sender_wf s" "ls_config s = cfg" using sender_reachable_wf [OF assms] by simp_all
  then have "(deadline_of cfg pkt, p, seq) \<in> set (ls_deadlines s)"
    if "fmlookup (ls_in_flight s) (p, seq) = Some pkt" for seq pkt
    using that unfolding sender_wf_def live_entries_def by blast
  moreover have "in_flight_for s p = card {seq. fmlookup (ls_in_flight s) (p, seq) \<noteq> None}"
    unfolding card_sequences using wf by (intro in_flight_for_card) (simp add: sender_wf_def sender_core_def)
  moreover have "card {seq. fmlookup (ls_in_flight s) (p, seq) \<noteq> None} \<le> lc_max_in_flight_per_peer cfg"
    unfolding card_sequences using wf by (simp add: sender_wf_def sender_core_def counts_exact_def)
  ultimately show ?thesis using wf by (simp add: sender_wf_def sender_core_def packets_ok_def)
qed

section \<open>Unacknowledged packets leave the window\<close>

definition never_fails :: "('t, 'm, 'p, 'e) link \<Rightarrow> bool" where
  "never_fails l \<longleftrightarrow> (\<forall>t m p bs. fst (lk_send l t m p bs) = Ok ())"

lemma send_never_fails:
  "never_fails l \<Longrightarrow> length payload < 2 ^ 32 \<Longrightarrow> \<exists>t'. send_data_frame l t m p seq payload = (Ok (), t')"
  by (cases "lk_send l t m p (snd (reliable_encode_data (lk_magic l) seq payload []))")
    (auto simp: send_data_frame_def reliable_encode_data_def never_fails_def Let_def split: prod.splits,
      metis fst_conv map_err_simps(2))

text \<open>How a pass at \<open>now\<close> changes one packet: it is gone, or it had attempts left and has been resent.\<close>

definition advanced :: "link_config \<Rightarrow> u64 \<Rightarrow> ('p, 'm) in_flight option \<Rightarrow> ('p, 'm) in_flight option \<Rightarrow> bool" where
  "advanced cfg now old new \<longleftrightarrow>
     (case new of None \<Rightarrow> True
      | Some pkt' \<Rightarrow> (case old of None \<Rightarrow> False
          | Some pkt \<Rightarrow> if_attempts pkt < lc_max_attempts cfg \<and>
              sat_add (if_attempts pkt) 1 \<le> if_attempts pkt' \<and> if_last_sent_tick pkt' = now))"

lemma advanced_None [simp]: "advanced cfg now old None"
  by (simp add: advanced_def)

lemma advanced_again:
  "advanced cfg now old (Some pkt) \<Longrightarrow> advanced cfg now old (Some (pkt\<lparr>if_last_sent_tick := now, if_attempts := sat_add (if_attempts pkt) 1\<rparr>))"
  using sat_add_mono [of "if_attempts pkt" 1] by (auto simp: advanced_def split: option.splits)

lemma retry_one_progress:
  assumes nf: "never_fails l" "lc_max_payload_bytes (ls_config s) < 2 ^ 32" "packets_ok s"
    and step: "\<And>key. advanced (ls_config s) now (old key) (fmlookup (ls_in_flight s) key) \<or>
      (\<exists>pkt. fmlookup (ls_in_flight s) key = Some pkt \<and> old key = Some pkt \<and>
         (deadline_of (ls_config s) pkt, key) \<in> insert (d, k) X)"
    and one: "retry_one l now s t rep (d, k) = (r, s', t')"
  shows "(\<exists>rep'. r = Ok rep') \<and> (advanced (ls_config s) now (old key) (fmlookup (ls_in_flight s') key) \<or>
      (\<exists>pkt. fmlookup (ls_in_flight s') key = Some pkt \<and> old key = Some pkt \<and>
         (deadline_of (ls_config s) pkt, key) \<in> X))"
  using one
proof (cases rule: retry_one_cases)
  case stale
  have "(deadline_of (ls_config s) pkt, key) \<noteq> (d, k)" if "fmlookup (ls_in_flight s) key = Some pkt" for pkt
    using stale(4) that by (auto simp: live_entries_def)
  then show ?thesis using step [of key] stale by auto
next
  case (timed_out pkt)
  have "fmlookup (ls_in_flight s') key = (if key = k then None else fmlookup (ls_in_flight s) key)"
    by (simp add: timed_out)
  then show ?thesis using step [of key] timed_out(4) by auto
next
  case (failed pkt e)
  have "length (if_payload pkt) \<le> lc_max_payload_bytes (ls_config s)"
    using nf(3) failed(1) prod.collapse [of k] unfolding packets_ok_def by metis
  then have "length (if_payload pkt) < 2 ^ 32" using nf(2) by (rule le_less_trans)
  then obtain t2 where "send_data_frame l t (if_meta pkt) (if_peer pkt) (if_sequence pkt) (if_payload pkt) = (Ok (), t2)"
    using send_never_fails [OF nf(1)] by blast
  then show ?thesis using failed(5) by simp
next
  case (resent pkt)
  let ?pkt = "pkt\<lparr>if_last_sent_tick := now, if_attempts := sat_add (if_attempts pkt) 1\<rparr>"
  have new: "fmlookup (ls_in_flight s') key = (if key = k then Some ?pkt else fmlookup (ls_in_flight s) key)"
    by (simp add: resent)
  show ?thesis
  proof (cases "key = k")
    case True
    have "advanced (ls_config s) now (old k) (Some ?pkt)"
      using step [of k] resent(1,3) advanced_again [of "ls_config s" now "old k" pkt] by (auto simp: advanced_def)
    then show ?thesis using new True resent(4) by simp
  next
    case False
    then show ?thesis using new step [of key] resent(4) by auto
  qed
qed

lemma retry_loop_progress:
  assumes "never_fails l" "lc_max_payload_bytes (ls_config s) < 2 ^ 32"
    and "sender_core s" "live_entries s \<subseteq> set (ls_deadlines s) \<union> set ds"
    and "\<And>key. advanced (ls_config s) now (old key) (fmlookup (ls_in_flight s) key) \<or>
      (\<exists>pkt. fmlookup (ls_in_flight s) key = Some pkt \<and> old key = Some pkt \<and>
         (deadline_of (ls_config s) pkt, key) \<in> set ds)"
    and "retry_loop l now s t rep ds = (r, s', t')"
  shows "(\<exists>rep'. r = Ok rep') \<and> advanced (ls_config s) now (old key) (fmlookup (ls_in_flight s') key)"
  using assms
proof (induction ds arbitrary: s t rep)
  case Nil
  then show ?case by auto
next
  case (Cons d ds)
  obtain dl k where d: "d = (dl, k)" using prod.collapse [of d] by metis
  obtain r1 s1 t1 where one: "retry_one l now s t rep (dl, k) = (r1, s1, t1)" by (metis prod_cases3)
  have pk: "packets_ok s" using Cons.prems(3) by (simp add: sender_core_def)
  have live: "live_entries s \<subseteq> set (ls_deadlines s) \<union> insert (dl, k) (set ds)"
    using Cons.prems(4) d by auto
  have step: "advanced (ls_config s) now (old key) (fmlookup (ls_in_flight s) key) \<or>
      (\<exists>pkt. fmlookup (ls_in_flight s) key = Some pkt \<and> old key = Some pkt \<and>
         (deadline_of (ls_config s) pkt, key) \<in> insert (dl, k) (set ds))" for key
    using Cons.prems(5) [of key] d by simp
  note one' = retry_one_progress [OF Cons.prems(1,2) pk step one]
  obtain rep1 where r1: "r1 = Ok rep1" using one' by blast
  note wf1 = retry_one_wf [OF Cons.prems(3) live one, unfolded r1, simplified]
  have loop: "retry_loop l now s1 t1 rep1 ds = (r, s', t')" using Cons.prems(6) one d r1 by simp
  have "(\<exists>rep'. r = Ok rep') \<and> advanced (ls_config s1) now (old key) (fmlookup (ls_in_flight s') key)"
    by (rule Cons.IH [OF Cons.prems(1) _ _ _ _ loop]) (use wf1 Cons.prems(2) one' in auto)
  then show ?case using wf1 by simp
qed

text \<open>One pass, late enough for every packet to be due.\<close>

lemma retry_pass_progress:
  assumes nf: "never_fails l" "lc_max_payload_bytes (ls_config s) < 2 ^ 32" and wf: "sender_wf s"
    and due: "\<And>key pkt. fmlookup (ls_in_flight s) key = Some pkt \<Longrightarrow> deadline_of (ls_config s) pkt \<le> now"
    and retry: "link_retry_due_into l s t now = (r, s', t', due)"
  shows "(\<exists>rep. r = Ok rep) \<and> advanced (ls_config s) now (fmlookup (ls_in_flight s) key) (fmlookup (ls_in_flight s') key)"
proof -
  obtain rest where p: "pop_due now (ls_deadlines s) = (due, rest)"
    and loop: "retry_loop l now (s\<lparr>ls_deadlines := rest\<rparr>) t
        \<lparr>rp_examined = 0, rp_retried = 0, rp_timed_out = 0\<rparr> due = (r, s', t')"
    using retry by (auto simp: link_retry_due_into_def split: prod.splits)
  have ds: "ls_deadlines s = due @ rest" by (rule pop_due_append [OF p])
  let ?s = "s\<lparr>ls_deadlines := rest\<rparr>"
  have sorted: "sorted (ls_deadlines s)" using wf by (simp add: sender_wf_def sender_core_def)
  have core: "sender_core ?s"
    by (rule core_cong [of s]) (use wf ds in \<open>simp_all add: sender_wf_def sender_core_def sorted_append\<close>)
  have live: "live_entries ?s \<subseteq> set (ls_deadlines ?s) \<union> set due"
    using wf ds live_entries_cong [of ?s s] by (auto simp: sender_wf_def)
  have step: "advanced (ls_config ?s) now (fmlookup (ls_in_flight s) key) (fmlookup (ls_in_flight ?s) key) \<or>
      (\<exists>pkt. fmlookup (ls_in_flight ?s) key = Some pkt \<and> fmlookup (ls_in_flight s) key = Some pkt \<and>
         (deadline_of (ls_config ?s) pkt, key) \<in> set due)" for key
  proof (cases "fmlookup (ls_in_flight s) key")
    case (Some pkt)
    then have "(deadline_of (ls_config s) pkt, key) \<in> set (ls_deadlines s)"
      using wf unfolding sender_wf_def live_entries_def by blast
    moreover have "(deadline_of (ls_config s) pkt, key) \<notin> set rest"
      using pop_due_rest [OF p sorted] due [OF Some] by (metis fst_conv not_less)
    ultimately show ?thesis using Some ds by auto
  qed simp
  show ?thesis using retry_loop_progress [OF nf(1) _ core live step loop] nf(2) by simp
qed

fun retry_passes ::
  "('t, 'm, 'p::linorder, 'e) link \<Rightarrow> ('p, 'm) link_sender \<Rightarrow> 't \<Rightarrow> u64 list \<Rightarrow> ('p, 'm) link_sender \<times> 't" where
  "retry_passes l s t [] = (s, t)"
| "retry_passes l s t (now # ts) =
     (case link_retry_due_into l s t now of (r, s1, t1, due) \<Rightarrow> retry_passes l s1 t1 ts)"

text \<open>Ticks at least one retry interval apart, the first one an interval after \<open>start\<close>.\<close>

fun retry_schedule :: "u64 \<Rightarrow> u64 \<Rightarrow> u64 list \<Rightarrow> bool" where
  "retry_schedule interval start [] = True"
| "retry_schedule interval start (now # ts) \<longleftrightarrow> sat_add start interval \<le> now \<and> retry_schedule interval now ts"

lemma sat_add_mono1: "a \<le> b \<Longrightarrow> sat_add a c \<le> sat_add b c" for a b c :: "'a::len word"
  by (simp add: word_le_nat_alt unat_sat_add)

lemma retry_passes_drain:
  assumes "never_fails l" "lc_max_payload_bytes (ls_config s) < 2 ^ 32" "sender_wf s"
    and "\<And>key pkt. fmlookup (ls_in_flight s) key = Some pkt \<Longrightarrow>
      if_last_sent_tick pkt \<le> start \<and> n \<le> unat (if_attempts pkt)"
    and "retry_schedule (lc_retry_after_ticks (ls_config s)) start ts"
    and "ts \<noteq> []" "unat (lc_max_attempts (ls_config s)) < n + length ts"
  shows "sender_wf (fst (retry_passes l s t ts)) \<and> fmlookup (ls_in_flight (fst (retry_passes l s t ts))) key = None"
  using assms
proof (induction ts arbitrary: s t start n)
  case (Cons now ts)
  obtain r s1 t1 due where one: "link_retry_due_into l s t now = (r, s1, t1, due)" by (metis prod_cases4)
  have late: "sat_add start (lc_retry_after_ticks (ls_config s)) \<le> now" using Cons.prems(5) by simp
  have all_due: "deadline_of (ls_config s) pkt \<le> now" if "fmlookup (ls_in_flight s) key = Some pkt" for key pkt
    using late sat_add_mono1 [of "if_last_sent_tick pkt" start] Cons.prems(4) [OF that]
    unfolding deadline_of_def by (meson order_trans)
  have prog: "advanced (ls_config s) now (fmlookup (ls_in_flight s) key) (fmlookup (ls_in_flight s1) key)" for key
    by (rule retry_pass_progress [OF Cons.prems(1,2,3) all_due one, THEN conjunct2])
  note wf1 = retry_due_wf [OF Cons.prems(3) one]
  have survivor: "if_last_sent_tick pkt' = now \<and> Suc n \<le> unat (if_attempts pkt') \<and> n < unat (lc_max_attempts (ls_config s))"
    if s1: "fmlookup (ls_in_flight s1) key = Some pkt'" for key pkt'
  proof -
    obtain pkt where pkt: "fmlookup (ls_in_flight s) key = Some pkt" "if_attempts pkt < lc_max_attempts (ls_config s)"
      "sat_add (if_attempts pkt) 1 \<le> if_attempts pkt'" "if_last_sent_tick pkt' = now"
      using prog [of key] s1 by (auto simp: advanced_def split: option.splits)
    have "unat (lc_max_attempts (ls_config s)) < 256" using unsigned_less [of "lc_max_attempts (ls_config s)"] by simp
    then show ?thesis using pkt Cons.prems(4) [OF pkt(1)]
      by (auto simp: word_le_nat_alt word_less_nat_alt unat_sat_add)
  qed
  show ?case
  proof (cases ts)
    case Nil
    then have "fmlookup (ls_in_flight s1) key = None" for key
      using survivor [of key] Cons.prems(7) by (cases "fmlookup (ls_in_flight s1) key") auto
    then show ?thesis using one Nil wf1 by simp
  next
    case (Cons now2 rest)
    have "sender_wf (fst (retry_passes l s1 t1 ts)) \<and> fmlookup (ls_in_flight (fst (retry_passes l s1 t1 ts))) key = None"
      by (rule Cons.IH [of s1 now "Suc n" t1])
        (use wf1 survivor Cons.prems Cons in auto)
    then show ?thesis using one by simp
  qed
qed simp

text \<open>C25. Packets that are never acknowledged do not stay in flight: over a transport that does not
  fail, retry passes of which the first comes at least one retry interval after the last send and each
  further one at least one interval after the pass before it, empty the window after as many passes as
  the maximum number of attempts (one pass if that is zero), and every peer count is then zero. The spacing
  is needed: a pass leaves every packet whose next retry tick has not come as it is.\<close>

theorem retries_terminate:
  assumes "sender_reachable l cfg s" "lc_max_in_flight_per_peer cfg \<le> usize_max"
    and "never_fails l" "lc_max_payload_bytes cfg < 2 ^ 32"
    and "\<And>key pkt. fmlookup (ls_in_flight s) key = Some pkt \<Longrightarrow> if_last_sent_tick pkt \<le> start"
    and "retry_schedule (lc_retry_after_ticks cfg) start ts"
    and "max 1 (unat (lc_max_attempts cfg)) \<le> length ts"
  shows "ls_in_flight (fst (retry_passes l s t ts)) = fmempty \<and> in_flight_for (fst (retry_passes l s t ts)) p = 0"
proof -
  have wf: "sender_wf s" "ls_config s = cfg" using sender_reachable_wf [OF assms(1,2)] by simp_all
  have att: "1 \<le> unat (if_attempts pkt)" if "fmlookup (ls_in_flight s) key = Some pkt" for key pkt
  proof -
    have "1 \<le> if_attempts pkt"
      using wf that prod.collapse [of key] unfolding sender_wf_def sender_core_def packets_ok_def by metis
    then show ?thesis by (simp add: word_le_nat_alt)
  qed
  have drain: "sender_wf (fst (retry_passes l s t ts)) \<and> fmlookup (ls_in_flight (fst (retry_passes l s t ts))) key = None" for key
    by (rule retry_passes_drain [of l s start 1]) (use assms wf att in auto)
  then have empty: "ls_in_flight (fst (retry_passes l s t ts)) = fmempty" by (intro fmap_ext) simp
  have "in_flight_for (fst (retry_passes l s t ts)) p = card (peer_keys (fst (retry_passes l s t ts)) p)"
    using drain by (intro in_flight_for_card) (simp add: sender_wf_def sender_core_def)
  then show ?thesis using empty by (simp add: peer_keys_def)
qed

section \<open>Examples\<close>

definition sample_link_config :: link_config where
  "sample_link_config =
     \<lparr>lc_max_in_flight_per_peer = 2, lc_retry_after_ticks = 3, lc_max_attempts = 2,
      lc_max_payload_bytes = 8, lc_max_delivered_history = 4\<rparr>"

text \<open>A transport that keeps what it is given.\<close>

definition queue_link :: "((u64 \<times> bytes) list, unit, u64, unit) link" where
  "queue_link = \<lparr>lk_magic = RELIABLE_CLIENT_MAGIC, lk_send = (\<lambda>t m p bs. (Ok (), t @ [(p, bs)]))\<rparr>"

definition sample_sender :: "(u64, unit) link_sender" where
  "sample_sender = fst (snd (link_send queue_link (sender_new sample_link_config) [] () 7 [1, 2] 10))"

lemma sample_sender_reachable: "sender_reachable queue_link sample_link_config sample_sender"
proof (rule sr_send [OF sr_new])
  show "link_send queue_link (sender_new sample_link_config) [] () 7 [1, 2] 10 =
      (fst (link_send queue_link (sender_new sample_link_config) [] () 7 [1, 2] 10), sample_sender,
       snd (snd (link_send queue_link (sender_new sample_link_config) [] () 7 [1, 2] 10)))"
    by (simp add: sample_sender_def)
qed

lemma sample_sender_in_flight:
  "ls_in_flight sample_sender = fmupd (7, 1)
     \<lparr>if_meta = (), if_peer = 7, if_sequence = 1, if_payload = [1, 2], if_first_sent_tick = 10,
      if_last_sent_tick = 10, if_attempts = 1\<rparr> fmempty"
  by (simp add: sample_sender_def link_send_def validate_payload_def sender_new_def sample_link_config_def
      in_flight_for_def allocate_sequence_def next_sequence_for_def send_data_frame_def reliable_encode_data_def
      queue_link_def Let_def)

lemma sender_window_exact_witness:
  "in_flight_for sample_sender 7 = card {seq. fmlookup (ls_in_flight sample_sender) (7, seq) \<noteq> None} \<and>
   in_flight_for sample_sender 7 \<le> 2"
  using sender_window_exact [OF sample_sender_reachable, of 7]
  by (simp add: sample_link_config_def usize_max_def)

lemma retries_terminate_witness:
  "ls_in_flight sample_sender \<noteq> fmempty \<and>
   ls_in_flight (fst (retry_passes queue_link sample_sender [] [13, 16])) = fmempty"
proof -
  have "ls_in_flight sample_sender \<noteq> fmempty"
    unfolding sample_sender_in_flight by (metis fmdom_fmupd fmdom_empty finsert_not_fempty)
  moreover have "ls_in_flight (fst (retry_passes queue_link sample_sender [] [13, 16])) = fmempty \<and>
      in_flight_for (fst (retry_passes queue_link sample_sender [] [13, 16])) 7 = 0"
  proof (rule retries_terminate [OF sample_sender_reachable, of 10])
    show "never_fails queue_link" by (simp add: never_fails_def queue_link_def)
  qed (auto simp: sample_link_config_def usize_max_def sample_sender_in_flight sat_add_def split: if_splits)
  ultimately show ?thesis by simp
qed

end
