(* ===== verification/Reliable_Delivery.thy ===== *)
theory Reliable_Delivery
  imports Reliable_Sender
begin

text \<open>
  Two reliable endpoints over an unreliable network. The frame format round-trips; the receiver's
  duplicate suppression is an instance of the \<open>recent_history\<close> contract; and in the transition
  system of a sending and a receiving endpoint, whose network may refuse, lose, reorder and repeat
  frames, every payload is delivered at most once and unchanged, and one that was accepted for
  sending is in flight, delivered, or was given up by a timeout.
\<close>

section \<open>Frames\<close>

definition frame_bytes :: "bytes \<Rightarrow> reliable_frame \<Rightarrow> bytes" where
  "frame_bytes magic f = magic @
     (case f of
        RData seq payload \<Rightarrow> [RELIABLE_KIND_DATA] @ to_le 8 seq @ to_le 4 (of_nat (length payload) :: u32) @ payload
      | RAck seq \<Rightarrow> [RELIABLE_KIND_ACK] @ to_le 8 seq)"

definition frame_ok :: "reliable_frame \<Rightarrow> bool" where
  "frame_ok f = (case f of RData seq payload \<Rightarrow> length payload < 2 ^ 32 | RAck seq \<Rightarrow> True)"

lemma reliable_encode_bytes:
  "fst (reliable_encode magic f out) = Ok () \<longleftrightarrow> frame_ok f"
  "frame_ok f \<Longrightarrow> snd (reliable_encode magic f out) = out @ frame_bytes magic f"
  by (auto simp: reliable_encode_def reliable_encode_data_def frame_ok_def frame_bytes_def Let_def
      split: reliable_frame.splits)

lemma frame_small: "frame_ok f \<Longrightarrow> length magic = 4 \<Longrightarrow> length (frame_bytes magic f) < usize_max"
  by (auto simp: frame_ok_def frame_bytes_def usize_max_def split: reliable_frame.splits)

lemma reliable_decode_bytes:
  assumes "frame_ok f" "length magic = 4"
  shows "reliable_decode magic (frame_bytes magic f) = Ok f"
proof (cases f)
  case (RData seq payload)
  have u: "unat (of_nat (length payload) :: u32) = length payload"
    using assms(1) RData by (simp add: frame_ok_def unat_of_nat)
  have "length payload + 17 < usize_max" using frame_small [OF assms] assms(2) RData by (simp add: frame_bytes_def)
  then show ?thesis using RData u
    by (simp add: reliable_decode_def frame_bytes_def cursor_new_at tc_at assms(2) from_le_to_le)
next
  case (RAck seq)
  have "13 < usize_max" by (simp add: usize_max_def)
  then show ?thesis using RAck
    by (simp add: reliable_decode_def frame_bytes_def cursor_new_at tc_at assms(2) from_le_to_le
        RELIABLE_KIND_DATA_def RELIABLE_KIND_ACK_def)
qed

lemma reliable_decode_accepts:
  assumes dec: "reliable_decode magic bs = Ok f" and len: "length bs < usize_max"
  shows "bs = frame_bytes magic f \<and> frame_ok f"
proof -
  obtain c0 where 0: "tc_slice RelTruncated 4 (cursor_at [] bs) = Ok (magic, c0)"
    using dec by (auto simp: reliable_decode_def cursor_new_at and_then_Ok_iff split: if_splits)
  obtain r0 where r0: "bs = magic @ r0" "c0 = cursor_at magic r0"
    using tc_slice_Ok [OF 0] len by auto
  obtain kind c1 where 1: "tc_u8 RelTruncated c0 = Ok (kind, c1)"
    using dec 0 by (auto simp: reliable_decode_def cursor_new_at and_then_Ok_iff)
  obtain r1 where r1: "r0 = kind # r1" "c1 = cursor_at (magic @ [kind]) r1"
    using tc_u8_Ok [OF 1 [unfolded r0(2)]] len r0 by auto
  obtain seq c2 where 2: "tc_word RelTruncated 8 c1 = Ok (seq :: u64, c2)"
    using dec 0 1 by (auto simp: reliable_decode_def cursor_new_at and_then_Ok_iff)
  obtain r2 where r2: "r1 = to_le 8 seq @ r2" "c2 = cursor_at ((magic @ [kind]) @ to_le 8 seq) r2"
    using tc_word_Ok [OF 2 [unfolded r1(2)]] len r0 r1 by auto
  obtain pre2 where c2: "c2 = cursor_at pre2 r2" "length (pre2 @ r2) < usize_max"
    using r2 r1 r0 len by auto
  note dec2 = dec [unfolded reliable_decode_def cursor_new_at, simplified 0, simplified,
      unfolded 1, simplified, unfolded 2, simplified]
  consider "kind = RELIABLE_KIND_DATA" | "kind \<noteq> RELIABLE_KIND_DATA" "kind = RELIABLE_KIND_ACK"
    using dec2 by (auto split: if_splits)
  then show ?thesis
  proof cases
    case 1
    then obtain len32 c3 payload c4 where 3: "tc_word RelTruncated 4 c2 = Ok (len32 :: u32, c3)"
      "tc_slice RelTruncated (unat len32) c3 = Ok (payload, c4)" "tc_finish RelTrailingBytes c4 = Ok ()"
      and f: "f = RData seq payload"
      using dec2 by (auto simp: and_then_Ok_iff)
    obtain r3 where r3: "r2 = to_le 4 len32 @ r3" "c3 = cursor_at (pre2 @ to_le 4 len32) r3"
      using tc_word_Ok [OF 3(1) [unfolded c2(1)] c2(2)] by auto
    obtain r4 where r4: "r3 = payload @ r4" "length payload = unat len32" "c4 = cursor_at ((pre2 @ to_le 4 len32) @ payload) r4"
      using tc_slice_Ok [OF 3(2) [unfolded r3(2)]] c2(2) r3(1) by auto
    have "r4 = []" using 3(3) by (simp add: r4(3) tc_finish_at split: if_splits)
    moreover have "(of_nat (length payload) :: u32) = len32" using r4(2) by simp
    ultimately show ?thesis using 1 f r0(1) r1(1) r2(1) r3(1) r4(1,2) unsigned_less [of len32]
      by (simp add: frame_bytes_def frame_ok_def)
  next
    case 2
    then have "tc_finish RelTrailingBytes c2 = Ok ()" "f = RAck seq"
      using dec2 by (auto simp: and_then_Ok_iff)
    moreover from this have "r2 = []" by (simp add: c2(1) tc_finish_at split: if_splits)
    ultimately show ?thesis using 2 r0(1) r1(1) r2(1) by (simp add: frame_bytes_def frame_ok_def)
  qed
qed

text \<open>Moving the payload to the front of the receive buffer gives the payload.\<close>

lemma reuse_payload:
  "reuse_reliable_payload (header @ payload) (length (header @ payload) - length payload) (length payload) = payload"
  by (simp add: reuse_reliable_payload_def)

section \<open>The receiver\<close>

definition receiver_wf :: "'p link_receiver \<Rightarrow> bool" where
  "receiver_wf r \<longleftrightarrow> distinct (lr_order r) \<and> length (lr_order r) \<le> lc_max_delivered_history (lr_config r) \<and>
     lset_keys (lr_delivered r) = set (lr_order r)"

definition history_limit :: "'p link_receiver \<Rightarrow> nat" where
  "history_limit r = lc_max_delivered_history (lr_config r)"

lemma record_unique_kept:
  "receiver_wf r \<Longrightarrow> history_limit r = 0 \<or> k \<in> set (lr_order r) \<Longrightarrow> record_unique r k = (history_limit r = 0, r)"
  by (auto simp: record_unique_def receiver_wf_def lset_contains_keys history_limit_def)

lemma record_unique_new:
  assumes wf: "receiver_wf r" and new: "history_limit r \<noteq> 0" "k \<notin> set (lr_order r)"
  shows "fst (record_unique r k)"
    and "lr_order (snd (record_unique r k)) = last_n (history_limit r) (lr_order r @ [k])"
    and "receiver_wf (snd (record_unique r k))"
proof -
  obtain seen order where t: "trim_history (history_limit r) (lset_insert (lr_delivered r) k)
      (lr_order r @ [k]) = (seen, order)" by fastforce
  have rec: "record_unique r k = (True, r\<lparr>lr_delivered := seen, lr_order := order\<rparr>)"
    using wf new t by (simp add: record_unique_def receiver_wf_def lset_contains_keys history_limit_def)
  have "distinct (lr_order r)" "lset_keys (lr_delivered r) = set (lr_order r)" using wf by (simp_all add: receiver_wf_def)
  note push = trim_push [OF t this new(2)]
  show "fst (record_unique r k)"
    and "lr_order (snd (record_unique r k)) = last_n (history_limit r) (lr_order r @ [k])"
    by (simp_all add: rec push(1))
  show "receiver_wf (snd (record_unique r k))" using push(2-4) by (simp add: rec receiver_wf_def history_limit_def)
qed

lemma record_unique_config [simp]: "lr_config (snd (record_unique r k)) = lr_config r"
  by (simp add: record_unique_def split: prod.splits)

lemma record_unique_cases:
  assumes "receiver_wf r"
  shows "fst (record_unique r k) \<longleftrightarrow> history_limit r = 0 \<or> k \<notin> set (lr_order r)"
    and "lr_order (snd (record_unique r k)) =
      (if history_limit r = 0 \<or> k \<in> set (lr_order r) then lr_order r
       else last_n (history_limit r) (lr_order r @ [k]))"
    and "receiver_wf (snd (record_unique r k))"
proof (atomize (full), goal_cases)
  case 1
  show ?case
  proof (cases "history_limit r = 0 \<or> k \<in> set (lr_order r)")
    case True
    then show ?thesis using record_unique_kept [OF assms True] assms by auto
  next
    case False
    then show ?thesis using record_unique_new [OF assms, of k] by simp
  qed
qed

interpretation delivered: recent_history record_unique lr_order history_limit receiver_wf
  by unfold_locales (simp_all add: record_unique_cases history_limit_def, simp_all add: receiver_wf_def history_limit_def)

lemma receiver_new_wf: "receiver_wf (receiver_new cfg)"
  by (simp add: receiver_wf_def receiver_new_def)

section \<open>The network\<close>

text \<open>A transport between the two endpoints decides the fate of every frame it is given: carried,
  lost although the send succeeded, or refused with an error. Carried frames are logged with their
  target.\<close>

datatype net_fate = Carried | Lost | Refused

definition net_link :: "bytes \<Rightarrow> (net_fate list \<times> ('p \<times> bytes) list, 'm, 'p, unit) link" where
  "net_link magic =
     \<lparr>lk_magic = magic,
      lk_send = (\<lambda>(fates, log) m p bs.
        case fates of
          [] \<Rightarrow> (Ok (), [], log @ [(p, bs)])
        | Carried # fs \<Rightarrow> (Ok (), fs, log @ [(p, bs)])
        | Lost # fs \<Rightarrow> (Ok (), fs, log)
        | Refused # fs \<Rightarrow> (Err (), fs, log))\<rparr>"

lemma net_link_magic [simp]: "lk_magic (net_link magic) = magic"
  by (simp add: net_link_def)

lemma net_link_send:
  "lk_send (net_link magic) t m p bs = (r, t') \<Longrightarrow>
   set (snd t') \<subseteq> insert (p, bs) (set (snd t)) \<and> (r = Err e \<longrightarrow> snd t' = snd t)"
  by (cases t) (auto simp: net_link_def split: list.splits net_fate.splits)

lemma net_data_frame:
  assumes "send_data_frame (net_link magic) t m p seq payload = (r, t')" "length payload < 2 ^ 32"
  shows "set (snd t') \<subseteq> insert (p, frame_bytes magic (RData seq payload)) (set (snd t))"
proof -
  have "reliable_encode_data magic seq payload [] = (Ok (), frame_bytes magic (RData seq payload))"
    using assms(2) by (simp add: reliable_encode_data_def frame_bytes_def Let_def)
  then obtain r1 where "lk_send (net_link magic) t m p (frame_bytes magic (RData seq payload)) = (r1, t')"
    using assms(1) by (auto simp: send_data_frame_def split: prod.splits)
  then show ?thesis by (rule net_link_send [THEN conjunct1])
qed

text \<open>\<open>tracks G s\<close>: every packet in flight is filed under its own key and satisfies \<open>G\<close>.\<close>

definition tracks :: "('p \<times> u64 \<Rightarrow> bytes \<Rightarrow> bool) \<Rightarrow> ('p, 'm) link_sender \<Rightarrow> bool" where
  "tracks G s \<longleftrightarrow> (\<forall>p seq pkt. fmlookup (ls_in_flight s) (p, seq) = Some pkt \<longrightarrow>
     if_peer pkt = p \<and> if_sequence pkt = seq \<and> G (p, seq) (if_payload pkt))"

definition data_frames :: "bytes \<Rightarrow> ('p \<times> u64 \<Rightarrow> bytes \<Rightarrow> bool) \<Rightarrow> ('p \<times> bytes) set" where
  "data_frames magic G = {(p, frame_bytes magic (RData seq payload)) | p seq payload. G (p, seq) payload}"

lemma tracks_upd:
  "tracks G s \<Longrightarrow> if_peer pkt = p \<Longrightarrow> if_sequence pkt = seq \<Longrightarrow> G (p, seq) (if_payload pkt) \<Longrightarrow>
   ls_in_flight s' = fmupd (p, seq) pkt (ls_in_flight s) \<Longrightarrow> tracks G s'"
  by (auto simp: tracks_def split: if_splits)

lemma tracks_drop: "tracks G s \<Longrightarrow> ls_in_flight s' = fmdrop key (ls_in_flight s) \<Longrightarrow> tracks G s'"
  by (auto simp: tracks_def split: if_splits)

lemma tracks_mono: "tracks G s \<Longrightarrow> (\<And>key p. G key p \<Longrightarrow> H key p) \<Longrightarrow> tracks H s"
  by (auto simp: tracks_def)

text \<open>What a retry leaves alone: the sequence counters, and without a timeout the set of packets.\<close>

definition retry_keeps :: "('p, 'm) link_sender \<Rightarrow> ('p, 'm) link_sender \<Rightarrow> bool" where
  "retry_keeps s s' \<longleftrightarrow> ls_next_sequence s' = ls_next_sequence s \<and> ls_config s' = ls_config s \<and>
     (lt_timed_out (ls_stats s') = 0 \<longrightarrow> lt_timed_out (ls_stats s) = 0 \<and> fmdom (ls_in_flight s') = fmdom (ls_in_flight s))"

lemma retry_keeps_trans: "retry_keeps s s1 \<Longrightarrow> retry_keeps s1 s2 \<Longrightarrow> retry_keeps s s2"
  by (auto simp: retry_keeps_def)

lemma usize_add_one_neq_0: "usize_add n (Suc 0) \<noteq> 0"
  by (simp add: usize_add_def usize_max_def)

lemma retry_one_net:
  assumes small: "\<forall>key p. G key p \<longrightarrow> length p < 2 ^ 32" and tr: "tracks G s"
    and one: "retry_one (net_link magic) now s t rep (d, key) = (r, s', t')"
  shows "tracks G s' \<and> retry_keeps s s' \<and> set (snd t') \<subseteq> set (snd t) \<union> data_frames magic G"
  using one
proof (cases rule: retry_one_cases)
  case stale
  then show ?thesis using tr by (simp add: retry_keeps_def)
next
  case (timed_out pkt)
  have "tracks G s'" by (rule tracks_drop [OF tr]) (simp add: timed_out)
  moreover have "lt_timed_out (ls_stats s') \<noteq> 0" by (simp add: timed_out usize_add_one_neq_0)
  ultimately show ?thesis using timed_out(5,6) by (simp add: retry_keeps_def)
next
  case (failed pkt e)
  obtain p seq where key: "key = (p, seq)" by fastforce
  have pkt: "if_peer pkt = p" "if_sequence pkt = seq" "G (p, seq) (if_payload pkt)"
    using tr failed(1) key by (auto simp: tracks_def)
  then show ?thesis using net_data_frame [OF failed(5) small [rule_format, OF pkt(3)]] failed tr
    by (auto simp: retry_keeps_def data_frames_def)
next
  case (resent pkt)
  obtain p seq where key: "key = (p, seq)" by fastforce
  have pkt: "if_peer pkt = p" "if_sequence pkt = seq" "G (p, seq) (if_payload pkt)"
    using tr resent(1) key by (auto simp: tracks_def)
  have "tracks G s'"
    by (rule tracks_upd [OF tr, of "pkt\<lparr>if_last_sent_tick := now, if_attempts := sat_add (if_attempts pkt) 1\<rparr>" p seq])
      (use pkt resent key in simp_all)
  moreover have "retry_keeps s s'" using resent by (auto simp: retry_keeps_def fmlookup_dom_iff)
  ultimately show ?thesis using net_data_frame [OF resent(5) small [rule_format, OF pkt(3)]] pkt
    by (auto simp: data_frames_def)
qed

lemma retry_loop_net:
  assumes small: "\<forall>key p. G key p \<longrightarrow> length p < 2 ^ 32"
  shows "tracks G s \<Longrightarrow> retry_loop (net_link magic) now s t rep ds = (r, s', t') \<Longrightarrow>
    tracks G s' \<and> retry_keeps s s' \<and> set (snd t') \<subseteq> set (snd t) \<union> data_frames magic G"
proof (induction ds arbitrary: s t rep)
  case (Cons d ds)
  obtain dl key where d: "d = (dl, key)" using prod.collapse [of d] by metis
  obtain r1 s1 t1 where one: "retry_one (net_link magic) now s t rep (dl, key) = (r1, s1, t1)" by (metis prod_cases3)
  note net1 = retry_one_net [OF small Cons.prems(1) one]
  show ?case
  proof (cases r1)
    case (Inl e)
    then have "s' = s1\<lparr>ls_deadlines := heap_extend (ls_deadlines s1) (d # ds)\<rparr>" "t' = t1"
      using Cons.prems(2) one d by simp_all
    then show ?thesis using net1 by (simp add: tracks_def retry_keeps_def)
  next
    case (Inr rep1)
    then have "retry_loop (net_link magic) now s1 t1 rep1 ds = (r, s', t')" using Cons.prems(2) one d by simp
    then show ?thesis using Cons.IH [of s1 t1 rep1] net1 retry_keeps_trans [of s s1 s'] by auto
  qed
qed (auto simp: retry_keeps_def)

lemma retry_due_net:
  assumes "\<forall>key p. G key p \<longrightarrow> length p < 2 ^ 32" "tracks G s"
    and "link_retry_due_into (net_link magic) s t now = (r, s', t', due)"
  shows "tracks G s' \<and> retry_keeps s s' \<and> set (snd t') \<subseteq> set (snd t) \<union> data_frames magic G"
proof -
  obtain rest where loop: "retry_loop (net_link magic) now (s\<lparr>ls_deadlines := rest\<rparr>) t
        \<lparr>rp_examined = 0, rp_retried = 0, rp_timed_out = 0\<rparr> due = (r, s', t')"
    using assms(3) by (auto simp: link_retry_due_into_def split: prod.splits)
  have "tracks G (s\<lparr>ls_deadlines := rest\<rparr>)" using assms(2) by (simp add: tracks_def)
  then show ?thesis using retry_loop_net [OF assms(1) _ loop] by (simp add: retry_keeps_def)
qed

section \<open>The transition system\<close>

text \<open>Endpoint \<open>nw_a\<close> sends to peer \<open>b\<close>, endpoint \<open>nw_b\<close> receives from peer \<open>a\<close>. A frame that was ever
  carried can arrive at any time and any number of times, or never. The remaining fields are
  histories: the payloads for which a sequence number was allocated, the sequences for which the
  send succeeded, and the payloads handed to the receiving application.\<close>

record ('p, 'm) network =
  nw_a :: "('p, 'm) link_endpoint"
  nw_b :: "('p, 'm) link_endpoint"
  nw_to_b :: "bytes list"
  nw_to_a :: "bytes list"
  nw_offered :: "(u64 \<times> bytes) list"
  nw_accepted :: "u64 list"
  nw_delivered :: "(u64 \<times> bytes) list"

definition network_init :: "link_config \<Rightarrow> ('p, 'm) network" where
  "network_init cfg =
     \<lparr>nw_a = endpoint_new cfg, nw_b = endpoint_new cfg, nw_to_b = [], nw_to_a = [],
      nw_offered = [], nw_accepted = [], nw_delivered = []\<rparr>"

definition to_peer :: "'p \<Rightarrow> ('p \<times> bytes) list \<Rightarrow> bytes list" where
  "to_peer p log = map snd (filter (\<lambda>e. fst e = p) log)"

definition frame_sequence :: "bytes \<Rightarrow> bytes \<Rightarrow> u64" where
  "frame_sequence magic bs = (case reliable_decode magic bs of Inr (RData seq _) \<Rightarrow> seq | _ \<Rightarrow> 0)"

inductive network_step :: "bytes \<Rightarrow> 'p::linorder \<Rightarrow> 'p \<Rightarrow> ('p, 'm) network \<Rightarrow> ('p, 'm) network \<Rightarrow> bool"
  for magic a b where
  ns_send: "endpoint_send (net_link magic) (nw_a n) (fates, []) m b payload now = (r, ep, fates', log) \<Longrightarrow>
     length payload \<le> lc_max_payload_bytes (ls_config (le_sender (nw_a n))) \<Longrightarrow>
     in_flight_for (le_sender (nw_a n)) b < lc_max_in_flight_per_peer (ls_config (le_sender (nw_a n))) \<Longrightarrow>
     network_step magic a b n
       (n\<lparr>nw_a := ep, nw_to_b := nw_to_b n @ to_peer b log,
          nw_offered := nw_offered n @ [(next_sequence_for (le_sender (nw_a n)) b, payload)],
          nw_accepted := nw_accepted n @ (case r of Inl _ \<Rightarrow> [] | Inr seq \<Rightarrow> [seq])\<rparr>)"
| ns_retry: "endpoint_retry_due (net_link magic) (nw_a n) (fates, []) now = (r, ep, fates', log) \<Longrightarrow>
     network_step magic a b n (n\<lparr>nw_a := ep, nw_to_b := nw_to_b n @ to_peer b log\<rparr>)"
| ns_to_b: "bs \<in> set (nw_to_b n) \<Longrightarrow>
     endpoint_inbound (net_link magic) (nw_b n) (fates, []) m a bs = (r, ep, fates', log) \<Longrightarrow>
     network_step magic a b n
       (n\<lparr>nw_b := ep, nw_to_a := nw_to_a n @ to_peer a log,
          nw_delivered := nw_delivered n @
            (case r of Inr (Some payload) \<Rightarrow> [(frame_sequence magic bs, payload)] | _ \<Rightarrow> [])\<rparr>)"
| ns_to_a: "bs \<in> set (nw_to_a n) \<Longrightarrow>
     endpoint_inbound (net_link magic) (nw_a n) (fates, []) m b bs = (r, ep, fates', log) \<Longrightarrow>
     network_step magic a b n (n\<lparr>nw_a := ep, nw_to_b := nw_to_b n @ to_peer b log\<rparr>)"

inductive network_reachable :: "bytes \<Rightarrow> link_config \<Rightarrow> 'p::linorder \<Rightarrow> 'p \<Rightarrow> ('p, 'm) network \<Rightarrow> bool"
  for magic cfg a b where
  nr_init: "network_reachable magic cfg a b (network_init cfg)"
| nr_step: "network_reachable magic cfg a b n \<Longrightarrow> network_step magic a b n n' \<Longrightarrow> network_reachable magic cfg a b n'"

inductive_cases network_stepE: "network_step magic a b n n'"

lemma to_peer_iff: "bs \<in> set (to_peer p log) \<longleftrightarrow> (p, bs) \<in> set log"
  by (force simp: to_peer_def)

text \<open>The invariant, in parts: the sending endpoint, the sequence numbers, the two directions of the
  network, and the receiving endpoint.\<close>

definition offers :: "'p \<Rightarrow> ('p, 'm) network \<Rightarrow> 'p \<times> u64 \<Rightarrow> bytes \<Rightarrow> bool" where
  "offers b n key p \<longleftrightarrow> fst key = b \<and> (snd key, p) \<in> set (nw_offered n)"

definition sequences_inv :: "'p \<Rightarrow> ('p, 'm) network \<Rightarrow> bool" where
  "sequences_inv b n \<longleftrightarrow>
     (length (nw_offered n) + 1 < 2 ^ 64 \<longrightarrow>
        map fst (nw_offered n) = map (\<lambda>i. of_nat (Suc i)) [0..<length (nw_offered n)] \<and>
        next_sequence_for (le_sender (nw_a n)) b = of_nat (Suc (length (nw_offered n))))"

definition sender_inv :: "link_config \<Rightarrow> 'p \<Rightarrow> ('p, 'm) network \<Rightarrow> bool" where
  "sender_inv cfg b n \<longleftrightarrow> ls_config (le_sender (nw_a n)) = cfg \<and> tracks (offers b n) (le_sender (nw_a n)) \<and>
     (\<forall>d \<in> set (nw_offered n). length (snd d) \<le> lc_max_payload_bytes cfg) \<and>
     (lt_timed_out (ls_stats (le_sender (nw_a n))) = 0 \<longrightarrow>
        (\<forall>seq \<in> set (nw_accepted n). (b, seq) |\<in>| fmdom (ls_in_flight (le_sender (nw_a n))) \<or>
           seq \<in> fst ` set (nw_delivered n)))"

definition wires_inv :: "bytes \<Rightarrow> ('p, 'm) network \<Rightarrow> bool" where
  "wires_inv magic n \<longleftrightarrow>
     (\<forall>bs \<in> set (nw_to_b n). \<exists>seq p. bs = frame_bytes magic (RData seq p) \<and> (seq, p) \<in> set (nw_offered n)) \<and>
     (\<forall>bs \<in> set (nw_to_a n). \<exists>seq. bs = frame_bytes magic (RAck seq) \<and> seq \<in> fst ` set (nw_delivered n))"

definition receiver_inv :: "link_config \<Rightarrow> 'p \<Rightarrow> ('p, 'm) network \<Rightarrow> bool" where
  "receiver_inv cfg a n \<longleftrightarrow> lr_config (le_receiver (nw_b n)) = cfg \<and> receiver_wf (le_receiver (nw_b n)) \<and>
     set (nw_delivered n) \<subseteq> set (nw_offered n) \<and>
     (lc_max_delivered_history cfg \<noteq> 0 \<longrightarrow>
        lr_order (le_receiver (nw_b n)) = last_n (lc_max_delivered_history cfg) (map (\<lambda>d. (a, fst d)) (nw_delivered n)) \<and>
        spaced (lc_max_delivered_history cfg) (map (\<lambda>d. (a, fst d)) (nw_delivered n)))"

definition network_inv :: "bytes \<Rightarrow> link_config \<Rightarrow> 'p \<Rightarrow> 'p \<Rightarrow> ('p, 'm) network \<Rightarrow> bool" where
  "network_inv magic cfg a b n \<longleftrightarrow> sequences_inv b n \<and> sender_inv cfg b n \<and> wires_inv magic n \<and> receiver_inv cfg a n"

lemmas network_inv_defs = network_inv_def sequences_inv_def sender_inv_def wires_inv_def receiver_inv_def

lemma network_init_inv: "network_inv magic cfg a b (network_init cfg)"
  by (simp add: network_inv_defs network_init_def endpoint_new_def sender_new_def tracks_def next_sequence_for_def
      receiver_new_wf last_n_def) (simp add: receiver_new_def)

lemma offers_small:
  "sender_inv cfg b n \<Longrightarrow> lc_max_payload_bytes cfg < 2 ^ 32 \<Longrightarrow> \<forall>key p. offers b n key p \<longrightarrow> length p < 2 ^ 32"
  unfolding sender_inv_def offers_def by fastforce

lemma retry_step_inv:
  assumes inv: "network_inv magic cfg a b n" and cfg: "lc_max_payload_bytes cfg < 2 ^ 32"
    and retry: "endpoint_retry_due (net_link magic) (nw_a n) (fates, []) now = (r, ep, fates', log)"
  shows "network_inv magic cfg a b (n\<lparr>nw_a := ep, nw_to_b := nw_to_b n @ to_peer b log\<rparr>)"
proof -
  let ?s = "le_sender (nw_a n)"
  have si: "sender_inv cfg b n" using inv by (simp add: network_inv_def)
  then have tr: "tracks (offers b n) ?s" by (simp add: sender_inv_def)
  note small = offers_small [OF si cfg]
  obtain s1 due where "link_retry_due_into (net_link magic) ?s (fates, []) now = (r, s1, (fates', log), due)"
    and ep: "ep = (nw_a n)\<lparr>le_sender := s1, le_retry_scratch := due\<rparr>"
    using retry by (auto simp: endpoint_retry_due_def split: prod.splits)
  from retry_due_net [OF small tr this(1)]
  have s1: "tracks (offers b n) s1" "retry_keeps ?s s1" and log: "set log \<subseteq> data_frames magic (offers b n)" by auto
  have "tracks (offers b (n\<lparr>nw_a := ep, nw_to_b := nw_to_b n @ to_peer b log\<rparr>)) s1"
    by (rule tracks_mono [OF s1(1)]) (simp add: offers_def)
  moreover have "\<exists>seq p. bs = frame_bytes magic (RData seq p) \<and> (seq, p) \<in> set (nw_offered n)"
    if "bs \<in> set (to_peer b log)" for bs
    using that log by (fastforce simp: to_peer_iff data_frames_def offers_def)
  ultimately show ?thesis
    using inv s1(2) ep by (auto simp: network_inv_defs retry_keeps_def next_sequence_for_def)
qed

lemma next_sequence_step:
  assumes "sequences_inv b n" "next_sequence_for s b = sat_add (next_sequence_for (le_sender (nw_a n)) b) 1"
    and "nw_offered n' = nw_offered n @ [(next_sequence_for (le_sender (nw_a n)) b, payload)]" "le_sender (nw_a n') = s"
  shows "sequences_inv b n'"
  unfolding sequences_inv_def
proof
  assume len: "length (nw_offered n') + 1 < 2 ^ 64"
  let ?k = "length (nw_offered n)"
  have old: "map fst (nw_offered n) = map (\<lambda>i. of_nat (Suc i)) [0..<?k]"
    "next_sequence_for (le_sender (nw_a n)) b = of_nat (Suc ?k)"
    using assms(1,3) len by (auto simp: sequences_inv_def)
  have "unat (of_nat (Suc ?k) :: u64) = Suc ?k" using len assms(3) by (simp add: unat_of_nat del: of_nat_Suc)
  then have "sat_add (of_nat (Suc ?k) :: u64) 1 = of_nat (Suc (Suc ?k))"
    using len assms(3) by (simp add: sat_add_def del: of_nat_Suc) simp
  then show "map fst (nw_offered n') = map (\<lambda>i. of_nat (Suc i)) [0..<length (nw_offered n')] \<and>
      next_sequence_for (le_sender (nw_a n')) b = of_nat (Suc (length (nw_offered n')))"
    using old assms(2-4) by (simp del: of_nat_Suc)
qed

lemma send_step_inv:
  assumes inv: "network_inv magic cfg a b n" and cfg: "lc_max_payload_bytes cfg < 2 ^ 32"
    and send: "endpoint_send (net_link magic) (nw_a n) (fates, []) m b payload now = (r, ep, fates', log)"
    and room: "length payload \<le> lc_max_payload_bytes (ls_config (le_sender (nw_a n)))"
      "in_flight_for (le_sender (nw_a n)) b < lc_max_in_flight_per_peer (ls_config (le_sender (nw_a n)))"
  shows "network_inv magic cfg a b
       (n\<lparr>nw_a := ep, nw_to_b := nw_to_b n @ to_peer b log,
          nw_offered := nw_offered n @ [(next_sequence_for (le_sender (nw_a n)) b, payload)],
          nw_accepted := nw_accepted n @ (case r of Inl _ \<Rightarrow> [] | Inr seq \<Rightarrow> [seq])\<rparr>)"
    (is "network_inv _ _ _ _ ?n")
proof -
  let ?s = "le_sender (nw_a n)" and ?seq = "next_sequence_for (le_sender (nw_a n)) b"
  let ?pkt = "\<lparr>if_meta = m, if_peer = b, if_sequence = ?seq, if_payload = payload, if_first_sent_tick = now,
      if_last_sent_tick = now, if_attempts = 1\<rparr>"
  have si: "sender_inv cfg b n" and qi: "sequences_inv b n" and wi: "wires_inv magic n" and ri: "receiver_inv cfg a n"
    using inv by (simp_all add: network_inv_def)
  have c: "ls_config ?s = cfg" using si by (simp add: sender_inv_def)
  obtain s1 where ls: "link_send (net_link magic) ?s (fates, []) m b payload now = (r, s1, fates', log)"
    and ep: "ep = (nw_a n)\<lparr>le_sender := s1\<rparr>"
    using send by (auto simp: endpoint_send_def split: prod.splits)
  obtain r1 where sd: "send_data_frame (net_link magic) (fates, []) m b ?seq payload = (r1, fates', log)"
    using ls room by (auto simp: link_send_def validate_payload_def allocate_sequence_def Let_def
        split: prod.splits sum.splits)
  have log: "set log \<subseteq> {(b, frame_bytes magic (RData ?seq payload))}"
    using net_data_frame [OF sd] room(1) c cfg by simp
  have new: "ls_config s1 = cfg" "ls_next_sequence s1 = fmupd b (sat_add ?seq 1) (ls_next_sequence ?s)"
    "lt_timed_out (ls_stats s1) = lt_timed_out (ls_stats ?s)"
    and fl: "case r of Inl _ \<Rightarrow> ls_in_flight s1 = ls_in_flight ?s
      | Inr seq \<Rightarrow> seq = ?seq \<and> ls_in_flight s1 = fmupd (b, ?seq) ?pkt (ls_in_flight ?s)"
    using ls room c sd
    by (cases r1; auto simp: link_send_def validate_payload_def Let_def allocate_sequence_def)+
  have tr: "tracks (offers b ?n) ?s"
    using si by (auto simp: sender_inv_def offers_def intro: tracks_mono)
  have "tracks (offers b ?n) s1"
  proof (cases r)
    case (Inl e)
    then show ?thesis using tr fl by (simp add: tracks_def)
  next
    case (Inr seq)
    then show ?thesis using fl by (intro tracks_upd [OF tr, of ?pkt b ?seq]) (simp_all add: offers_def)
  qed
  then have "sender_inv cfg b ?n"
    using si new fl room(1) c by (auto simp: sender_inv_def ep split: sum.splits)
  moreover have "sequences_inv b ?n"
    by (rule next_sequence_step [OF qi, of s1]) (simp_all add: ep next_sequence_for_def new)
  moreover have "wires_inv magic ?n"
    using wi log by (fastforce simp: wires_inv_def to_peer_iff)
  moreover have "receiver_inv cfg a ?n" using ri by (auto simp: receiver_inv_def)
  ultimately show ?thesis by (simp add: network_inv_def)
qed

lemma record_unique_stats:
  "record_unique (r\<lparr>lr_stats := x\<rparr>) k = (fst (record_unique r k), (snd (record_unique r k))\<lparr>lr_stats := x\<rparr>)"
  by (simp add: record_unique_def split: prod.splits)

lemma handle_data_net:
  assumes wf: "receiver_wf rc"
    and h: "link_handle_data (net_link magic) rc (fates, []) m p seq payload = (r, rc', fates', log)"
  shows "(\<exists>e. r = Err e \<and> rc' = rc \<and> log = []) \<or>
    (r = Ok (if fst (record_unique rc (p, seq)) then Some payload else None) \<and>
     lr_config rc' = lr_config rc \<and> lr_order rc' = lr_order (snd (record_unique rc (p, seq))) \<and>
     receiver_wf rc' \<and> set log \<subseteq> {(p, frame_bytes magic (RAck seq))})"
proof -
  obtain r1 t1 where sd: "lk_send (net_link magic) (fates, []) m p (frame_bytes magic (RAck seq)) = (r1, t1)"
    by (metis surj_pair)
  have enc: "reliable_encode magic (RAck seq) [] = (Ok (), frame_bytes magic (RAck seq))"
    by (simp add: reliable_encode_def frame_bytes_def)
  show ?thesis
  proof (cases r1)
    case (Inl e)
    then show ?thesis using h sd enc net_link_send [OF sd]
      by (auto simp: link_handle_data_def send_ack_def)
  next
    case (Inr u)
    have "receiver_wf ((snd (record_unique rc (p, seq)))\<lparr>lr_stats := x\<rparr>)" for x
      using record_unique_cases(3) [OF wf, of "(p, seq)"] by (simp add: receiver_wf_def)
    then show ?thesis using h sd enc Inr net_link_send [OF sd]
      by (auto simp: link_handle_data_def send_ack_def record_unique_stats split: if_splits)
  qed
qed

lemma decode_data:
  assumes "length magic = 4" "length p < 2 ^ 32"
  shows "reliable_decode magic (frame_bytes magic (RData seq p)) = Ok (RData seq p)"
    "reuse_reliable_payload (frame_bytes magic (RData seq p))
       (length (frame_bytes magic (RData seq p)) - length p) (length p) = p"
proof -
  show "reliable_decode magic (frame_bytes magic (RData seq p)) = Ok (RData seq p)"
    by (rule reliable_decode_bytes) (use assms in \<open>simp_all add: frame_ok_def\<close>)
  have "frame_bytes magic (RData seq p) =
      (magic @ [RELIABLE_KIND_DATA] @ to_le 8 seq @ to_le 4 (of_nat (length p) :: u32)) @ p"
    by (simp add: frame_bytes_def)
  then show "reuse_reliable_payload (frame_bytes magic (RData seq p))
       (length (frame_bytes magic (RData seq p)) - length p) (length p) = p"
    using reuse_payload by metis
qed

lemma deliver_step_inv:
  assumes inv: "network_inv magic cfg a b n" and cfg: "lc_max_payload_bytes cfg < 2 ^ 32" "length magic = 4"
    and bs: "bs \<in> set (nw_to_b n)"
    and h: "endpoint_inbound (net_link magic) (nw_b n) (fates, []) m a bs = (r, ep, fates', log)"
  shows "network_inv magic cfg a b
       (n\<lparr>nw_b := ep, nw_to_a := nw_to_a n @ to_peer a log,
          nw_delivered := nw_delivered n @
            (case r of Inr (Some payload) \<Rightarrow> [(frame_sequence magic bs, payload)] | _ \<Rightarrow> [])\<rparr>)"
    (is "network_inv _ _ _ _ ?n")
proof -
  have si: "sender_inv cfg b n" and qi: "sequences_inv b n" and wi: "wires_inv magic n" and ri: "receiver_inv cfg a n"
    using inv by (simp_all add: network_inv_def)
  let ?rc = "le_receiver (nw_b n)"
  obtain seq p where f: "bs = frame_bytes magic (RData seq p)" "(seq, p) \<in> set (nw_offered n)"
    using wi bs by (auto simp: wires_inv_def)
  have "length p < 2 ^ 32" using si f(2) cfg(1) by (fastforce simp: sender_inv_def)
  note dec = decode_data [OF cfg(2) this, of seq, folded f(1)]
  obtain rc' where hd: "link_handle_data (net_link magic) ?rc (fates, []) m a seq p = (r, rc', fates', log)"
    and ep: "ep = (nw_b n)\<lparr>le_receiver := rc'\<rparr>"
    using h dec by (auto simp: endpoint_inbound_def Let_def split: prod.splits)
  have wf: "receiver_wf ?rc" and c: "lr_config ?rc = cfg" using ri by (simp_all add: receiver_inv_def)
  have fs: "frame_sequence magic bs = seq" by (simp add: frame_sequence_def dec)
  from handle_data_net [OF wf hd] show ?thesis
  proof (elim disjE exE conjE)
    fix e assume "r = Err e" "rc' = ?rc" "log = []"
    then show ?thesis using inv by (simp add: network_inv_defs ep to_peer_def tracks_def offers_def)
  next
    assume r: "r = Ok (if fst (record_unique ?rc (a, seq)) then Some p else None)"
      and rc': "lr_config rc' = lr_config ?rc" "lr_order rc' = lr_order (snd (record_unique ?rc (a, seq)))" "receiver_wf rc'"
      and log: "set log \<subseteq> {(a, frame_bytes magic (RAck seq))}"
    let ?fresh = "fst (record_unique ?rc (a, seq))"
    have del: "nw_delivered ?n = nw_delivered n @ (if ?fresh then [(seq, p)] else [])" using r fs by simp
    have order: "lr_order ?rc = last_n (lc_max_delivered_history cfg) (map (\<lambda>d. (a, fst d)) (nw_delivered n))"
      "spaced (lc_max_delivered_history cfg) (map (\<lambda>d. (a, fst d)) (nw_delivered n))"
      if "lc_max_delivered_history cfg \<noteq> 0"
      using ri that by (simp_all add: receiver_inv_def)
    note ru = record_unique_cases [OF wf, of "(a, seq)", unfolded history_limit_def c]
    have seen: "seq \<in> fst ` set (nw_delivered ?n)"
    proof (cases ?fresh)
      case False
      then have "lc_max_delivered_history cfg \<noteq> 0" "(a, seq) \<in> set (lr_order ?rc)" using ru(1) by auto
      then have "(a, seq) \<in> set (map (\<lambda>d. (a, fst d)) (nw_delivered n))" using order(1) set_last_n by fastforce
      then show ?thesis by (auto simp: del)
    qed (simp add: del)
    have hist: "lr_order rc' = last_n (lc_max_delivered_history cfg) (map (\<lambda>d. (a, fst d)) (nw_delivered ?n)) \<and>
        spaced (lc_max_delivered_history cfg) (map (\<lambda>d. (a, fst d)) (nw_delivered ?n))"
      if hl: "lc_max_delivered_history cfg \<noteq> 0"
    proof (cases ?fresh)
      case True
      then have new: "(a, seq) \<notin> set (lr_order ?rc)" using ru(1) hl by simp
      then have "lr_order rc' = last_n (lc_max_delivered_history cfg) (map (\<lambda>d. (a, fst d)) (nw_delivered n) @ [(a, seq)])"
        using ru(2) hl by (simp add: rc'(2) order(1) [OF hl] last_n_push)
      moreover have "spaced (lc_max_delivered_history cfg) (map (\<lambda>d. (a, fst d)) (nw_delivered n) @ [(a, seq)])"
        by (rule spaced_snoc [OF order(2) [OF hl]]) (use new order(1) [OF hl] in simp)
      ultimately show ?thesis using True by (simp add: del)
    next
      case False
      then show ?thesis using ru(1,2) hl order [OF hl] by (simp add: del rc'(2))
    qed
    have "set (nw_delivered ?n) \<subseteq> set (nw_offered n)" using ri f(2) unfolding del by (auto simp: receiver_inv_def)
    moreover have b: "le_receiver (nw_b ?n) = rc'" "nw_offered ?n = nw_offered n" by (simp_all add: ep)
    moreover have "lr_config rc' = cfg" using rc'(1) c by simp
    ultimately have rcv: "receiver_inv cfg a ?n"
      unfolding receiver_inv_def b using rc'(3) hist by blast
    have "\<exists>seq. w = frame_bytes magic (RAck seq) \<and> seq \<in> fst ` set (nw_delivered ?n)"
      if w: "w \<in> set (nw_to_a n @ to_peer a log)" for w
    proof (cases "w \<in> set (nw_to_a n)")
      case True
      then obtain q where "w = frame_bytes magic (RAck q)" "q \<in> fst ` set (nw_delivered n)"
        using wi unfolding wires_inv_def by blast
      then show ?thesis unfolding del by auto
    next
      case False
      then have "w = frame_bytes magic (RAck seq)" using w log by (auto simp: to_peer_iff)
      then show ?thesis using seen by blast
    qed
    then have "wires_inv magic ?n" using wi by (simp add: wires_inv_def)
    moreover have "sender_inv cfg b ?n"
      using si by (auto simp: sender_inv_def tracks_def offers_def)
    moreover have "sequences_inv b ?n" using qi by (simp add: sequences_inv_def)
    moreover note rcv
    ultimately show ?thesis by (simp add: network_inv_def)
  qed
qed

lemma acknowledge_stats: "lt_timed_out (ls_stats (snd (link_acknowledge s p seq))) = lt_timed_out (ls_stats s)"
  by (simp add: link_acknowledge_def split_beta)

lemma ack_step_inv:
  assumes inv: "network_inv magic cfg a b n" and cfg: "length magic = 4"
    and bs: "bs \<in> set (nw_to_a n)"
    and h: "endpoint_inbound (net_link magic) (nw_a n) (fates, []) m b bs = (r, ep, fates', log)"
  shows "network_inv magic cfg a b (n\<lparr>nw_a := ep, nw_to_b := nw_to_b n @ to_peer b log\<rparr>)"
proof -
  obtain seq where f: "bs = frame_bytes magic (RAck seq)" "seq \<in> fst ` set (nw_delivered n)"
    using inv bs unfolding network_inv_def wires_inv_def by blast
  have "reliable_decode magic bs = Ok (RAck seq)"
    unfolding f(1) by (rule reliable_decode_bytes) (simp_all add: frame_ok_def cfg)
  then have ep: "ep = (nw_a n)\<lparr>le_sender := snd (link_acknowledge (le_sender (nw_a n)) b seq)\<rparr>" and log: "log = []"
    using h by (auto simp: endpoint_inbound_def)
  have "tracks (offers b n) (snd (link_acknowledge (le_sender (nw_a n)) b seq))"
    by (rule tracks_drop [of _ "le_sender (nw_a n)"]) (use inv in \<open>simp_all add: network_inv_def sender_inv_def\<close>)
  then have "tracks (offers b (n\<lparr>nw_a := ep, nw_to_b := nw_to_b n @ to_peer b log\<rparr>))
      (snd (link_acknowledge (le_sender (nw_a n)) b seq))"
    by (rule tracks_mono) (simp add: offers_def)
  then show ?thesis
    using inv f(2) by (auto simp: network_inv_defs ep log to_peer_def acknowledge_stats next_sequence_for_def)
qed

lemma network_reachable_inv:
  assumes "network_reachable magic cfg a b n" "lc_max_payload_bytes cfg < 2 ^ 32" "length magic = 4"
  shows "network_inv magic cfg a b n"
  using assms(1)
proof (induction rule: network_reachable.induct)
  case nr_init
  show ?case by (rule network_init_inv)
next
  case (nr_step n n')
  from nr_step.hyps(2) nr_step.IH show ?case
    by cases (auto intro: send_step_inv retry_step_inv deliver_step_inv ack_step_inv assms(2,3))
qed

lemma spaced_pairs: "spaced k (map (\<lambda>d. (a, fst d)) ds) = spaced k (map fst ds)"
  by (auto simp: spaced_def)

text \<open>C6. Over a network that may refuse, lose, reorder and repeat frames, with any number of sends
  (fewer than \<open>2^64\<close>) and retry passes: sequence numbers are never reused; whatever is delivered was
  sent, unaltered, under its sequence number; and as long as no packet has timed out, every packet whose
  send succeeded is still in flight or has been delivered, so an acknowledgement is only ever received
  for a delivered packet. Duplicates are suppressed by a bounded history, and the guarantee is the
  history's: when it is enabled, between two deliveries of one packet at least
  \<open>max_delivered_history\<close> others are delivered, so that no packet is delivered twice in a run that sends
  at most \<open>max_delivered_history\<close> packets. In a longer run a packet that left the history can be
  delivered again, and with a history of 0 nothing is suppressed.\<close>

theorem reliable_delivery_once:
  assumes "network_reachable magic cfg a b n" "length magic = 4" "lc_max_payload_bytes cfg < 2 ^ 32"
    and "length (nw_offered n) + 1 < 2 ^ 64"
  shows "distinct (map fst (nw_offered n)) \<and> set (nw_delivered n) \<subseteq> set (nw_offered n) \<and>
    (lc_max_delivered_history cfg \<noteq> 0 \<longrightarrow>
       spaced (lc_max_delivered_history cfg) (map fst (nw_delivered n)) \<and>
       (length (nw_offered n) \<le> lc_max_delivered_history cfg \<longrightarrow> distinct (map fst (nw_delivered n)))) \<and>
    (lt_timed_out (ls_stats (le_sender (nw_a n))) = 0 \<longrightarrow>
       (\<forall>seq \<in> set (nw_accepted n). fmlookup (ls_in_flight (le_sender (nw_a n))) (b, seq) \<noteq> None \<or>
          seq \<in> fst ` set (nw_delivered n)))"
proof -
  have inv: "network_inv magic cfg a b n" by (rule network_reachable_inv [OF assms(1,3,2)])
  have del: "set (nw_delivered n) \<subseteq> set (nw_offered n)"
    using inv by (simp add: network_inv_def receiver_inv_def)
  have "inj_on (\<lambda>i. of_nat (Suc i) :: u64) {0..<length (nw_offered n)}"
    by (rule inj_onI, subst (asm) of_nat_eq_iff_lt) (use assms(4) in simp_all)
  then have "distinct (map fst (nw_offered n))"
    using inv assms(4) by (simp add: network_inv_def sequences_inv_def distinct_map del: of_nat_Suc)
  moreover have sp: "spaced (lc_max_delivered_history cfg) (map fst (nw_delivered n))"
    if "lc_max_delivered_history cfg \<noteq> 0"
    using inv that by (simp add: network_inv_def receiver_inv_def spaced_pairs)
  moreover have "distinct (map fst (nw_delivered n))"
    if h: "lc_max_delivered_history cfg \<noteq> 0" and n: "length (nw_offered n) \<le> lc_max_delivered_history cfg"
  proof (rule spaced_distinct [OF sp [OF h]])
    have "card (set (map fst (nw_delivered n))) \<le> card (set (nw_offered n))"
      using del by (metis List.finite_set card_image_le card_mono image_mono image_set finite_imageI order_trans)
    then show "card (set (map fst (nw_delivered n))) \<le> lc_max_delivered_history cfg"
      using card_length [of "nw_offered n"] n by linarith
  qed
  moreover have "\<forall>seq \<in> set (nw_accepted n). fmlookup (ls_in_flight (le_sender (nw_a n))) (b, seq) \<noteq> None \<or>
          seq \<in> fst ` set (nw_delivered n)" if "lt_timed_out (ls_stats (le_sender (nw_a n))) = 0"
    using inv that by (auto simp: network_inv_def sender_inv_def fmlookup_dom_iff)
  ultimately show ?thesis using del by blast
qed

definition sample_network :: "(u64, unit) network" where
  "sample_network =
     (let n0 = network_init sample_link_config;
          sent = endpoint_send (net_link RELIABLE_CLIENT_MAGIC) (nw_a n0) ([], []) () 2 [1, 2] 10;
          n1 = n0\<lparr>nw_a := fst (snd sent), nw_to_b := to_peer 2 (snd (snd (snd sent))),
                  nw_offered := [(1, [1, 2])], nw_accepted := [1]\<rparr>;
          received = endpoint_inbound (net_link RELIABLE_CLIENT_MAGIC) (nw_b n1) ([], []) () 1
                       (frame_bytes RELIABLE_CLIENT_MAGIC (RData 1 [1, 2]))
      in n1\<lparr>nw_b := fst (snd received), nw_to_a := to_peer 1 (snd (snd (snd received))),
            nw_delivered := [(1, [1, 2])]\<rparr>)"

lemma sample_network_reachable:
  "network_reachable RELIABLE_CLIENT_MAGIC sample_link_config 1 2 sample_network"
proof -
  let ?M = RELIABLE_CLIENT_MAGIC and ?n0 = "network_init sample_link_config :: (u64, unit) network"
  let ?f = "frame_bytes ?M (RData 1 [1, 2])"
  define ep where "ep = fst (snd (endpoint_send (net_link ?M) (nw_a ?n0) ([], []) () 2 [1, 2] 10))"
  have init: "nw_a (network_init c) = endpoint_new c" "nw_b (network_init c) = endpoint_new c" for c
    by (simp_all add: network_init_def)
  have init3: "nw_to_a ?n0 = []" "nw_delivered ?n0 = []"
    by (simp_all add: network_init_def)
  have sent: "endpoint_send (net_link ?M) (nw_a ?n0) ([], []) () 2 [1, 2] 10 = (Ok 1, ep, [], [(2, ?f)])"
    by (simp add: ep_def init endpoint_send_def link_send_def validate_payload_def endpoint_new_def sender_new_def
        sample_link_config_def in_flight_for_def allocate_sequence_def next_sequence_for_def send_data_frame_def
        reliable_encode_data_def net_link_def frame_bytes_def Let_def)
  let ?n1 = "?n0\<lparr>nw_a := ep, nw_to_b := [?f], nw_offered := [(1, [1, 2])], nw_accepted := [1]\<rparr>"
  have step1: "network_step ?M 1 2 ?n0 ?n1"
    using ns_send [OF sent, of 1] by (simp add: init endpoint_new_def sender_new_def sample_link_config_def
        in_flight_for_def next_sequence_for_def to_peer_def) (simp add: network_init_def)
  have m: "length ?M = 4" by (simp add: RELIABLE_CLIENT_MAGIC_def)
  note dec = decode_data [OF m, of "[1, 2]" 1, simplified]
  define ep2 where "ep2 = fst (snd (endpoint_inbound (net_link ?M) (nw_b ?n0) ([], []) () 1 ?f))"
  have received: "endpoint_inbound (net_link ?M) (nw_b ?n0) ([], []) () 1 ?f =
      (Ok (Some [1, 2]), ep2, [], [(1, frame_bytes ?M (RAck 1))])"
    using dec by (simp add: ep2_def init endpoint_inbound_def endpoint_new_def receiver_new_def link_handle_data_def send_ack_def
        reliable_encode_def frame_bytes_def [of _ "RAck _"] net_link_def record_unique_def sample_link_config_def lset_contains_keys Let_def
        split: prod.splits)
  have "endpoint_inbound (net_link ?M) (nw_b ?n1) ([], []) () 1 ?f =
      (Ok (Some [1, 2]), ep2, [], [(1, frame_bytes ?M (RAck 1))])" using received by simp
  from ns_to_b [OF _ this, of 2] have "network_step ?M 1 2 ?n1 sample_network"
    using received sent dec(1) init3 by (simp add: sample_network_def Let_def to_peer_def frame_sequence_def)
  then show ?thesis using nr_step [OF nr_step [OF nr_init step1]] by simp
qed

lemma reliable_delivery_once_witness:
  "nw_delivered sample_network = [(1, [1, 2])] \<and> distinct (map fst (nw_delivered sample_network))"
proof -
  have "nw_delivered sample_network = [(1, [1, 2])]" "nw_offered sample_network = [(1, [1, 2])]"
    by (simp_all add: sample_network_def Let_def)
  then show ?thesis
    using reliable_delivery_once [OF sample_network_reachable]
    by (simp add: RELIABLE_CLIENT_MAGIC_def sample_link_config_def)
qed

end
