(* ===== verification/Packets.thy ===== *)
theory Packets
  imports Entities
begin

text \<open>
  Packets and packet batches of the transport crate, the default batch send of the sink traits,
  and the two wrappers around a sink: the byte-budget guard and the counting fake. A sink is a
  parameter, its \<open>send\<close> returning a result and a new sink state; a socket address is a type
  parameter.
\<close>

record outbound_packet =
  op_client_id :: client_id
  op_bytes :: bytes

record 'addr inbound_packet =
  ip_client_id :: "client_id option"
  ip_remote_addr :: 'addr
  ip_bytes :: bytes

record station_outbound_packet =
  so_source_station :: station_id
  so_target_station :: station_id
  so_bytes :: bytes

record station_inbound_packet =
  si_source_station :: station_id
  si_target_station :: station_id
  si_bytes :: bytes

record packet_batch =
  pb_packets :: "outbound_packet list"

record station_packet_batch =
  sb_packets :: "station_outbound_packet list"

definition batch_push :: "packet_batch \<Rightarrow> outbound_packet \<Rightarrow> packet_batch" where
  "batch_push b p = b\<lparr>pb_packets := pb_packets b @ [p]\<rparr>"

definition batch_len :: "packet_batch \<Rightarrow> usize" where
  "batch_len b = length (pb_packets b)"

definition batch_bytes_len :: "packet_batch \<Rightarrow> usize" where
  "batch_bytes_len b = sum_list (map (\<lambda>p. length (op_bytes p)) (pb_packets b))"

definition station_batch_push :: "station_packet_batch \<Rightarrow> station_outbound_packet \<Rightarrow> station_packet_batch" where
  "station_batch_push b p = b\<lparr>sb_packets := sb_packets b @ [p]\<rparr>"

definition station_batch_len :: "station_packet_batch \<Rightarrow> usize" where
  "station_batch_len b = length (sb_packets b)"

definition station_batch_bytes_len :: "station_packet_batch \<Rightarrow> usize" where
  "station_batch_bytes_len b = sum_list (map (\<lambda>p. length (so_bytes p)) (sb_packets b))"

section \<open>Sinks\<close>

type_synonym ('t, 'e, 'pkt) sink = "'t \<Rightarrow> 'pkt \<Rightarrow> ('e + unit) \<times> 't"

text \<open>The loop of the default \<open>send_batch\<close> and \<open>send_station_batch\<close>: the first error ends it.\<close>

fun send_each :: "('t, 'e, 'pkt) sink \<Rightarrow> 't \<Rightarrow> 'pkt list \<Rightarrow> ('e + unit) \<times> 't" where
  "send_each send t [] = (Ok (), t)"
| "send_each send t (p # ps) =
     (case send t p of (r, t1) \<Rightarrow> case r of Inl e \<Rightarrow> (Err e, t1) | Inr _ \<Rightarrow> send_each send t1 ps)"

definition default_send_batch :: "('t, 'e, outbound_packet) sink \<Rightarrow> 't \<Rightarrow> packet_batch \<Rightarrow> ('e + unit) \<times> 't" where
  "default_send_batch send t b = send_each send t (pb_packets b)"

definition default_send_station_batch ::
  "('t, 'e, station_outbound_packet) sink \<Rightarrow> 't \<Rightarrow> station_packet_batch \<Rightarrow> ('e + unit) \<times> 't" where
  "default_send_station_batch send t b = send_each send t (sb_packets b)"

lemma send_each_append:
  "send_each send t (ps @ qs) =
     (case send_each send t ps of (r, t1) \<Rightarrow> case r of Inl e \<Rightarrow> (Err e, t1) | Inr _ \<Rightarrow> send_each send t1 qs)"
proof (induction ps arbitrary: t)
  case (Cons p ps)
  then show ?case by (cases "send t p") (auto split: sum.splits)
qed (simp split: sum.splits)

section \<open>The byte-budget guard\<close>

datatype 'e transport_error =
    TransportInner 'e
  | ByteBudgetExceeded usize usize

record 't budgeted_transport =
  bt_inner :: 't
  bt_max_packet_bytes :: usize
  bt_max_batch_bytes :: usize

definition budgeted_send ::
  "('t, 'e, outbound_packet) sink \<Rightarrow> 't budgeted_transport \<Rightarrow> outbound_packet \<Rightarrow>
   ('e transport_error + unit) \<times> 't budgeted_transport" where
  "budgeted_send send t p =
     (if length (op_bytes p) > bt_max_packet_bytes t
      then (Err (ByteBudgetExceeded (bt_max_packet_bytes t) (length (op_bytes p))), t)
      else (case send (bt_inner t) p of (r, inner) \<Rightarrow> (map_err TransportInner r, t\<lparr>bt_inner := inner\<rparr>)))"

text \<open>The scan of a batch: the total and the first oversized packet.\<close>

fun batch_scan :: "usize \<Rightarrow> usize \<times> usize option \<Rightarrow> outbound_packet list \<Rightarrow> usize \<times> usize option" where
  "batch_scan limit acc [] = acc"
| "batch_scan limit (amount, first) (p # ps) =
     (let n = length (op_bytes p) in
      batch_scan limit
        (usize_add amount n, if first = None \<and> n > limit then Some n else first) ps)"

definition budgeted_send_batch ::
  "('t \<Rightarrow> packet_batch \<Rightarrow> ('e + unit) \<times> 't) \<Rightarrow> 't budgeted_transport \<Rightarrow> packet_batch \<Rightarrow>
   ('e transport_error + unit) \<times> 't budgeted_transport" where
  "budgeted_send_batch send_batch t b =
     (case batch_scan (bt_max_packet_bytes t) (0, None) (pb_packets b) of (amount, first) \<Rightarrow>
        if amount > bt_max_batch_bytes t then (Err (ByteBudgetExceeded (bt_max_batch_bytes t) amount), t)
        else (case first of
            Some actual \<Rightarrow> (Err (ByteBudgetExceeded (bt_max_packet_bytes t) actual), t)
          | None \<Rightarrow>
              (case send_batch (bt_inner t) b of (r, inner) \<Rightarrow>
                 (map_err TransportInner r, t\<lparr>bt_inner := inner\<rparr>))))"

text \<open>A batch passes exactly when its total and each of its packets are within budget; otherwise the
  sink behind the guard sees nothing of it.\<close>

definition batch_within :: "'t budgeted_transport \<Rightarrow> packet_batch \<Rightarrow> bool" where
  "batch_within t b \<longleftrightarrow> batch_bytes_len b \<le> bt_max_batch_bytes t \<and>
     (\<forall>p \<in> set (pb_packets b). length (op_bytes p) \<le> bt_max_packet_bytes t)"

lemma usize_add_assoc: "usize_add (usize_add a b) c = usize_add a (b + c)"
  by (simp add: usize_add_def)

lemma batch_scan_spec:
  "amount \<le> usize_max \<Longrightarrow> batch_scan limit (amount, first) ps =
     (usize_add amount (sum_list (map (\<lambda>p. length (op_bytes p)) ps)),
      case first of Some n \<Rightarrow> Some n
      | None \<Rightarrow> map_option (\<lambda>p. length (op_bytes p)) (find (\<lambda>p. length (op_bytes p) > limit) ps))"
proof (induction ps arbitrary: amount first)
  case Nil
  then show ?case by (auto simp: usize_add_def split: option.splits)
next
  case (Cons p ps)
  then show ?case by (auto simp: Let_def usize_add_assoc split: option.splits)
qed

lemma budgeted_batch_all_or_nothing:
  assumes "bt_max_batch_bytes t < usize_max"
  shows "budgeted_send_batch send_batch t b =
     (if batch_within t b
      then (case send_batch (bt_inner t) b of (r, inner) \<Rightarrow> (map_err TransportInner r, t\<lparr>bt_inner := inner\<rparr>))
      else (fst (budgeted_send_batch send_batch t b), t))"
    and "is_ok (fst (budgeted_send_batch send_batch t b)) \<Longrightarrow> batch_within t b"
proof -
  let ?sum = "sum_list (map (\<lambda>p. length (op_bytes p)) (pb_packets b))"
  have scan: "batch_scan (bt_max_packet_bytes t) (0, None) (pb_packets b) =
      (usize_add 0 ?sum, map_option (\<lambda>p. length (op_bytes p))
         (find (\<lambda>p. length (op_bytes p) > bt_max_packet_bytes t) (pb_packets b)))"
    by (subst batch_scan_spec) simp_all
  have total: "usize_add 0 ?sum > bt_max_batch_bytes t \<longleftrightarrow> ?sum > bt_max_batch_bytes t"
    using assms by (auto simp: usize_add_def)
  have find: "find (\<lambda>p. length (op_bytes p) > bt_max_packet_bytes t) (pb_packets b) = None \<longleftrightarrow>
      (\<forall>p \<in> set (pb_packets b). length (op_bytes p) \<le> bt_max_packet_bytes t)"
    by (auto simp: find_None_iff not_less)
  show 1: "budgeted_send_batch send_batch t b =
     (if batch_within t b
      then (case send_batch (bt_inner t) b of (r, inner) \<Rightarrow> (map_err TransportInner r, t\<lparr>bt_inner := inner\<rparr>))
      else (fst (budgeted_send_batch send_batch t b), t))"
    using total find
    by (cases "find (\<lambda>p. length (op_bytes p) > bt_max_packet_bytes t) (pb_packets b)")
      (auto simp: budgeted_send_batch_def scan batch_within_def batch_bytes_len_def split: prod.splits)
  show "batch_within t b" if "is_ok (fst (budgeted_send_batch send_batch t b))"
    using that total find
    by (cases "find (\<lambda>p. length (op_bytes p) > bt_max_packet_bytes t) (pb_packets b)")
      (auto simp: budgeted_send_batch_def scan batch_within_def batch_bytes_len_def split: if_splits)
qed

section \<open>The counting fake\<close>

record fake_transport =
  ft_packets :: usize
  ft_bytes :: usize
  ft_batches :: usize

text \<open>The counters are plain sums; a sum past \<open>usize_max\<close> would overflow.\<close>

definition fake_send :: "fake_transport \<Rightarrow> outbound_packet \<Rightarrow> fake_transport" where
  "fake_send t p = t\<lparr>ft_packets := ft_packets t + 1, ft_bytes := ft_bytes t + length (op_bytes p)\<rparr>"

definition fake_send_batch :: "fake_transport \<Rightarrow> packet_batch \<Rightarrow> fake_transport" where
  "fake_send_batch t b =
     t\<lparr>ft_batches := ft_batches t + 1, ft_packets := ft_packets t + length (pb_packets b),
       ft_bytes := ft_bytes t + batch_bytes_len b\<rparr>"

end
