(* ===== verification/Reliable_Adapters.thy ===== *)
theory Reliable_Adapters
  imports Reliable_Delivery Packets
begin

text \<open>
  The two reliable links of the transport crate as instances of the generic one:
  \<open>ReliableClientEndpoint\<close>, whose peers are clients and whose packets carry nothing else, and
  \<open>ReliableStationEndpoint\<close>, whose peers are stations and whose packets name their source. The
  sink is the embedding transport's \<open>send\<close> or \<open>send_station\<close>.
\<close>

section \<open>Clients\<close>

type_synonym client_sender = "(client_id, unit) link_sender"
type_synonym client_receiver = "client_id link_receiver"
type_synonym client_endpoint = "(client_id, unit) link_endpoint"

definition client_link :: "('t, 'e, outbound_packet) sink \<Rightarrow> ('t, unit, client_id, 'e) link" where
  "client_link send =
     \<lparr>lk_magic = RELIABLE_CLIENT_MAGIC,
      lk_send = (\<lambda>t _ c bs. send t \<lparr>op_client_id = c, op_bytes = bs\<rparr>)\<rparr>"

definition client_frame_encode :: "reliable_frame \<Rightarrow> bytes \<Rightarrow> (reliable_encode_error + unit) \<times> bytes" where
  "client_frame_encode = reliable_encode RELIABLE_CLIENT_MAGIC"

definition client_frame_decode :: "bytes \<Rightarrow> reliable_decode_error + reliable_frame" where
  "client_frame_decode = reliable_decode RELIABLE_CLIENT_MAGIC"

definition client_send ::
  "('t, 'e, outbound_packet) sink \<Rightarrow> client_endpoint \<Rightarrow> 't \<Rightarrow> outbound_packet \<Rightarrow> u64 \<Rightarrow>
   ((client_id, 'e) link_error + u64) \<times> client_endpoint \<times> 't" where
  "client_send send ep t p now =
     endpoint_send (client_link send) ep t () (op_client_id p) (op_bytes p) now"

definition client_retry_due ::
  "('t, 'e, outbound_packet) sink \<Rightarrow> client_endpoint \<Rightarrow> 't \<Rightarrow> u64 \<Rightarrow>
   ((client_id, 'e) link_error + retry_report) \<times> client_endpoint \<times> 't" where
  "client_retry_due send ep t now = endpoint_retry_due (client_link send) ep t now"

definition client_handle_inbound ::
  "('t, 'e, outbound_packet) sink \<Rightarrow> client_endpoint \<Rightarrow> 't \<Rightarrow> 'addr inbound_packet \<Rightarrow>
   ((client_id, 'e) link_error + 'addr inbound_packet option) \<times> client_endpoint \<times> 't" where
  "client_handle_inbound send ep t p =
     (case ip_client_id p of
        None \<Rightarrow> (Err MissingSourceClient, ep, t)
      | Some c \<Rightarrow>
          (case endpoint_inbound (client_link send) ep t () c (ip_bytes p) of (r, ep1, t1) \<Rightarrow>
             (and_then r (\<lambda>payload. Ok (map_option (\<lambda>bs.
                \<lparr>ip_client_id = Some c, ip_remote_addr = ip_remote_addr p, ip_bytes = bs\<rparr>) payload)), ep1, t1)))"

section \<open>Stations\<close>

type_synonym station_link_config = link_config
type_synonym station_link_stats = link_stats
type_synonym station_frame = reliable_frame
type_synonym station_decode_error = reliable_decode_error
type_synonym 'e station_link_error = "(station_id, 'e) link_error"
type_synonym station_in_flight = "(station_id, station_id) in_flight"
type_synonym station_sender = "(station_id, station_id) link_sender"
type_synonym station_receiver = "station_id link_receiver"
type_synonym station_endpoint = "(station_id, station_id) link_endpoint"

definition station_link :: "('t, 'e, station_outbound_packet) sink \<Rightarrow> ('t, station_id, station_id, 'e) link" where
  "station_link send =
     \<lparr>lk_magic = RELIABLE_STATION_MAGIC,
      lk_send = (\<lambda>t source target bs. send t \<lparr>so_source_station = source, so_target_station = target, so_bytes = bs\<rparr>)\<rparr>"

definition station_frame_encode_data :: "u64 \<Rightarrow> bytes \<Rightarrow> bytes \<Rightarrow> (reliable_encode_error + unit) \<times> bytes" where
  "station_frame_encode_data = reliable_encode_data RELIABLE_STATION_MAGIC"

definition station_frame_encode :: "station_frame \<Rightarrow> bytes \<Rightarrow> (reliable_encode_error + unit) \<times> bytes" where
  "station_frame_encode = reliable_encode RELIABLE_STATION_MAGIC"

definition station_frame_decode :: "bytes \<Rightarrow> station_decode_error + station_frame" where
  "station_frame_decode = reliable_decode RELIABLE_STATION_MAGIC"

definition default_station_link_config :: station_link_config where
  "default_station_link_config = default_link_config"

definition station_sender_new :: "station_link_config \<Rightarrow> station_sender" where
  "station_sender_new = sender_new"

definition station_in_flight_for :: "station_sender \<Rightarrow> station_id \<Rightarrow> usize" where
  "station_in_flight_for = in_flight_for"

definition station_sender_send ::
  "('t, 'e, station_outbound_packet) sink \<Rightarrow> station_sender \<Rightarrow> 't \<Rightarrow> station_outbound_packet \<Rightarrow> u64 \<Rightarrow>
   ('e station_link_error + u64) \<times> station_sender \<times> 't" where
  "station_sender_send send s t p now =
     link_send (station_link send) s t (so_source_station p) (so_target_station p) (so_bytes p) now"

definition station_acknowledge :: "station_sender \<Rightarrow> station_id \<Rightarrow> u64 \<Rightarrow> bool \<times> station_sender" where
  "station_acknowledge = link_acknowledge"

definition station_compact :: "station_sender \<Rightarrow> station_sender" where
  "station_compact = compact_retry_deadlines_if_stale"

definition station_retry_due_into ::
  "('t, 'e, station_outbound_packet) sink \<Rightarrow> station_sender \<Rightarrow> 't \<Rightarrow> u64 \<Rightarrow>
   ('e station_link_error + retry_report) \<times> station_sender \<times> 't \<times> station_id retry_entry list" where
  "station_retry_due_into send = link_retry_due_into (station_link send)"

definition station_allocate_sequence :: "station_sender \<Rightarrow> station_id \<Rightarrow> u64 \<times> station_sender" where
  "station_allocate_sequence = allocate_sequence"

definition station_insert_in_flight ::
  "station_sender \<Rightarrow> station_id \<times> u64 \<Rightarrow> station_in_flight \<Rightarrow> station_sender" where
  "station_insert_in_flight = insert_in_flight"

definition station_remove_in_flight ::
  "station_sender \<Rightarrow> station_id \<times> u64 \<Rightarrow> station_in_flight option \<times> station_sender" where
  "station_remove_in_flight = remove_in_flight"

definition station_send_data_frame ::
  "('t, 'e, station_outbound_packet) sink \<Rightarrow> 't \<Rightarrow> station_id \<Rightarrow> station_id \<Rightarrow> u64 \<Rightarrow> bytes \<Rightarrow>
   ('e station_link_error + unit) \<times> 't" where
  "station_send_data_frame send = send_data_frame (station_link send)"

definition station_receiver_new :: "station_link_config \<Rightarrow> station_receiver" where
  "station_receiver_new = receiver_new"

definition station_record_unique :: "station_receiver \<Rightarrow> station_id \<Rightarrow> u64 \<Rightarrow> bool \<times> station_receiver" where
  "station_record_unique r source seq = record_unique r (source, seq)"

text \<open>The acknowledgement goes back from the packet's target to its source.\<close>

definition station_handle_data ::
  "('t, 'e, station_outbound_packet) sink \<Rightarrow> station_receiver \<Rightarrow> 't \<Rightarrow> station_inbound_packet \<Rightarrow> u64 \<Rightarrow> bytes \<Rightarrow>
   ('e station_link_error + station_inbound_packet option) \<times> station_receiver \<times> 't" where
  "station_handle_data send r t p seq payload =
     (case link_handle_data (station_link send) r t (si_target_station p) (si_source_station p) seq payload of
        (res, r1, t1) \<Rightarrow>
          (and_then res (\<lambda>d. Ok (map_option (\<lambda>bs.
             \<lparr>si_source_station = si_source_station p, si_target_station = si_target_station p, si_bytes = bs\<rparr>) d)), r1, t1))"

definition station_send ::
  "('t, 'e, station_outbound_packet) sink \<Rightarrow> station_endpoint \<Rightarrow> 't \<Rightarrow> station_outbound_packet \<Rightarrow> u64 \<Rightarrow>
   ('e station_link_error + u64) \<times> station_endpoint \<times> 't" where
  "station_send send ep t p now =
     endpoint_send (station_link send) ep t (so_source_station p) (so_target_station p) (so_bytes p) now"

definition station_retry_due ::
  "('t, 'e, station_outbound_packet) sink \<Rightarrow> station_endpoint \<Rightarrow> 't \<Rightarrow> u64 \<Rightarrow>
   ('e station_link_error + retry_report) \<times> station_endpoint \<times> 't" where
  "station_retry_due send ep t now = endpoint_retry_due (station_link send) ep t now"

definition station_handle_inbound ::
  "('t, 'e, station_outbound_packet) sink \<Rightarrow> station_endpoint \<Rightarrow> 't \<Rightarrow> station_inbound_packet \<Rightarrow>
   ('e station_link_error + station_inbound_packet option) \<times> station_endpoint \<times> 't" where
  "station_handle_inbound send ep t p =
     (case endpoint_inbound (station_link send) ep t (si_target_station p) (si_source_station p) (si_bytes p) of
        (r, ep1, t1) \<Rightarrow>
          (and_then r (\<lambda>payload. Ok (map_option (\<lambda>bs.
             \<lparr>si_source_station = si_source_station p, si_target_station = si_target_station p, si_bytes = bs\<rparr>) payload)), ep1, t1))"

text \<open>Both links have frames of their own: neither accepts a frame of the other.\<close>

lemma links_disjoint:
  assumes "frame_ok f"
  shows "client_frame_decode (frame_bytes RELIABLE_CLIENT_MAGIC f) = Ok f"
    and "station_frame_decode (frame_bytes RELIABLE_STATION_MAGIC f) = Ok f"
    and "station_frame_decode (frame_bytes RELIABLE_CLIENT_MAGIC f) = Err RelBadMagic"
proof -
  have m: "length RELIABLE_CLIENT_MAGIC = 4" "length RELIABLE_STATION_MAGIC = 4"
    "RELIABLE_CLIENT_MAGIC \<noteq> RELIABLE_STATION_MAGIC"
    by (simp_all add: RELIABLE_CLIENT_MAGIC_def RELIABLE_STATION_MAGIC_def)
  show "client_frame_decode (frame_bytes RELIABLE_CLIENT_MAGIC f) = Ok f"
    "station_frame_decode (frame_bytes RELIABLE_STATION_MAGIC f) = Ok f"
    using assms m by (simp_all add: client_frame_decode_def station_frame_decode_def reliable_decode_bytes)
  obtain rest where rest: "frame_bytes RELIABLE_CLIENT_MAGIC f = RELIABLE_CLIENT_MAGIC @ rest"
    by (simp add: frame_bytes_def)
  then have "tc_slice RelTruncated 4 (cursor_at [] (frame_bytes RELIABLE_CLIENT_MAGIC f)) =
      Ok (RELIABLE_CLIENT_MAGIC, cursor_at RELIABLE_CLIENT_MAGIC rest)"
    using frame_small [OF assms m(1)] m(1) by (simp add: tc_slice_at)
  then show "station_frame_decode (frame_bytes RELIABLE_CLIENT_MAGIC f) = Err RelBadMagic"
    using m(3) by (simp add: station_frame_decode_def reliable_decode_def cursor_new_at)
qed

end
