(* ===== verification/Address_Book.thy ===== *)
theory Address_Book
  imports Sync_Prelude
begin

text \<open>
  The registries that tie identifiers to socket addresses: two maps, one in each direction, which
  the transports keep in step. A registration overwrites the identifier's address, forgets its old
  address and evicts whoever used the new one. The locale \<open>address_registry\<close> states what the
  transports promise about such a registry; the theories of the transports interpret it.
\<close>

definition book_register ::
  "('i, 'a) fmap \<Rightarrow> ('a, 'i) fmap \<Rightarrow> 'i \<Rightarrow> 'a \<Rightarrow> 'a option \<times> ('i, 'a) fmap \<times> ('a, 'i) fmap" where
  "book_register fwd bwd i a =
     (let old_addr = fmlookup fwd i;
          fwd1 = fmupd i a fwd;
          bwd1 = (case old_addr of Some b \<Rightarrow> fmdrop b bwd | None \<Rightarrow> bwd);
          fwd2 = (case fmlookup bwd1 a of Some j \<Rightarrow> if j \<noteq> i then fmdrop j fwd1 else fwd1 | None \<Rightarrow> fwd1)
      in (old_addr, fwd2, fmupd a i bwd1))"

definition book_unregister ::
  "('i, 'a) fmap \<Rightarrow> ('a, 'i) fmap \<Rightarrow> 'i \<Rightarrow> 'a option \<times> ('i, 'a) fmap \<times> ('a, 'i) fmap" where
  "book_unregister fwd bwd i =
     (case fmlookup fwd i of
        None \<Rightarrow> (None, fwd, bwd)
      | Some a \<Rightarrow> (Some a, fmdrop i fwd, fmdrop a bwd))"

section \<open>The contract\<close>

text \<open>A registration in the flat view: the newcomer gets the address, its previous holder loses it.\<close>

definition rebind :: "('i \<Rightarrow> 'a option) \<Rightarrow> 'i \<Rightarrow> 'a \<Rightarrow> 'i \<Rightarrow> 'a option" where
  "rebind f i a = (\<lambda>j. if j = i then Some a else if f j = Some a then None else f j)"

locale address_registry =
  fixes addr_of :: "'s \<Rightarrow> 'i \<Rightarrow> 'a option" and id_at :: "'s \<Rightarrow> 'a \<Rightarrow> 'i option"
    and reg :: "'s \<Rightarrow> 'i \<Rightarrow> 'a \<Rightarrow> 's" and unreg :: "'s \<Rightarrow> 'i \<Rightarrow> 's" and sound :: "'s \<Rightarrow> bool"
  assumes both_ways: "sound s \<Longrightarrow> addr_of s i = Some a \<longleftrightarrow> id_at s a = Some i"
    and reg_sound: "sound s \<Longrightarrow> sound (reg s i a)"
    and unreg_sound: "sound s \<Longrightarrow> sound (unreg s i)"
    and reg_addr: "sound s \<Longrightarrow> addr_of (reg s i a) = rebind (addr_of s) i a"
    and unreg_addr: "sound s \<Longrightarrow> addr_of (unreg s i) = (addr_of s)(i := None)"
begin

lemma one_holder: "sound s \<Longrightarrow> addr_of s i = Some a \<Longrightarrow> addr_of s j = Some a \<Longrightarrow> i = j"
  by (metis both_ways option.inject)

lemma newest_wins: "sound s \<Longrightarrow> id_at (reg s i a) a = Some i"
  by (metis both_ways reg_addr reg_sound rebind_def)

lemma old_addr_forgotten:
  assumes "sound s" "addr_of s i = Some b" "a \<noteq> b"
  shows "id_at (reg s i a) b = None"
proof (rule ccontr)
  assume "id_at (reg s i a) b \<noteq> None"
  then obtain j where "addr_of (reg s i a) j = Some b" using assms(1) by (metis both_ways not_Some_eq reg_sound)
  then show False using assms one_holder [OF assms(1), of i b j]
    by (auto simp: reg_addr rebind_def split: if_splits)
qed

lemma evicted: "sound s \<Longrightarrow> addr_of s j = Some a \<Longrightarrow> j \<noteq> i \<Longrightarrow> addr_of (reg s i a) j = None"
  by (simp add: reg_addr rebind_def)

lemma unreg_forgets:
  assumes s: "sound s" and a: "addr_of s i = Some a"
  shows "id_at (unreg s i) a = None"
proof (rule ccontr)
  assume "id_at (unreg s i) a \<noteq> None"
  then obtain j where "id_at (unreg s i) a = Some j" by blast
  then have "addr_of (unreg s i) j = Some a" by (rule both_ways [OF unreg_sound [OF s], THEN iffD2])
  then have "j \<noteq> i" "addr_of s j = Some a" by (auto simp: unreg_addr [OF s] split: if_splits)
  then show False using one_holder [OF s a] by blast
qed

lemma history_sound: "sound s \<Longrightarrow> sound (fold (\<lambda>(i, a) s. reg s i a) bindings s)"
  by (induction bindings arbitrary: s) (auto intro: reg_sound)

end

section \<open>The two maps satisfy it\<close>

definition book_sound :: "('i, 'a) fmap \<Rightarrow> ('a, 'i) fmap \<Rightarrow> bool" where
  "book_sound fwd bwd \<longleftrightarrow> (\<forall>i a. fmlookup fwd i = Some a \<longleftrightarrow> fmlookup bwd a = Some i)"

lemma book_register_fwd:
  assumes s: "book_sound fwd bwd"
  shows "fmlookup (fst (snd (book_register fwd bwd i a))) = rebind (fmlookup fwd) i a"
proof
  fix j
  show "fmlookup (fst (snd (book_register fwd bwd i a))) j = rebind (fmlookup fwd) i a j"
  proof (cases "\<exists>h. h \<noteq> i \<and> fmlookup bwd a = Some h")
    case True
    then obtain h where h: "h \<noteq> i" "fmlookup bwd a = Some h" by blast
    then have fwd: "fmlookup fwd h = Some a" using s by (simp add: book_sound_def)
    have "fmlookup fwd i \<noteq> Some a" using h s by (auto simp: book_sound_def)
    then have "fmlookup (case fmlookup fwd i of Some b \<Rightarrow> fmdrop b bwd | None \<Rightarrow> bwd) a = Some h"
      using h(2) by (auto split: option.splits)
    moreover have "fmlookup fwd j = Some a \<longleftrightarrow> j = h" using fwd h(2) s by (auto simp: book_sound_def)
    ultimately show ?thesis using h(1) fwd by (auto simp: book_register_def rebind_def Let_def)
  next
    case False
    then have "fmlookup fwd j = Some a \<Longrightarrow> j = i" using s by (auto simp: book_sound_def)
    moreover have "\<not> (\<exists>h. h \<noteq> i \<and> fmlookup (case fmlookup fwd i of Some b \<Rightarrow> fmdrop b bwd | None \<Rightarrow> bwd) a = Some h)"
      using False by (auto split: option.splits)
    ultimately show ?thesis by (auto simp: book_register_def rebind_def Let_def split: option.splits)
  qed
qed

lemma book_register_bwd:
  "fmlookup (snd (snd (book_register fwd bwd i a))) =
    (\<lambda>b. if b = a then Some i else if fmlookup fwd i = Some b then None else fmlookup bwd b)"
  by (auto simp: book_register_def Let_def fun_eq_iff split: option.splits)

lemma book_soundD:
  assumes "book_sound fwd bwd"
  shows "fmlookup fwd i = Some a \<Longrightarrow> fmlookup bwd a = Some i"
    and "fmlookup bwd a = Some i \<Longrightarrow> fmlookup fwd i = Some a"
  using assms by (simp_all add: book_sound_def)

lemma book_register_sound:
  assumes s: "book_sound fwd bwd"
  shows "book_sound (fst (snd (book_register fwd bwd i a))) (snd (snd (book_register fwd bwd i a)))"
  unfolding book_sound_def book_register_fwd [OF s] book_register_bwd
proof (intro allI)
  fix j b
  show "(rebind (fmlookup fwd) i a j = Some b) =
    ((if b = a then Some i else if fmlookup fwd i = Some b then None else fmlookup bwd b) = Some j)"
  proof (cases "j = i")
    case True
    then show ?thesis using book_soundD(2) [OF s, of b i] by (auto simp: rebind_def)
  next
    case False
    then show ?thesis using book_soundD(1) [OF s, of j b] book_soundD(2) [OF s, of b j] book_soundD(1) [OF s, of i b]
      by (auto simp: rebind_def)
  qed
qed

lemma book_unregister_fwd:
  "fmlookup (fst (snd (book_unregister fwd bwd i))) = (fmlookup fwd)(i := None)"
  by (auto simp: book_unregister_def fun_eq_iff split: option.splits)

lemma book_unregister_sound:
  assumes s: "book_sound fwd bwd"
  shows "book_sound (fst (snd (book_unregister fwd bwd i))) (snd (snd (book_unregister fwd bwd i)))"
proof (cases "fmlookup fwd i")
  case None
  then show ?thesis using s by (simp add: book_unregister_def)
next
  case (Some c)
  have "fmlookup (fmdrop i fwd) j = Some b \<longleftrightarrow> fmlookup (fmdrop c bwd) b = Some j" for j b
  proof -
    have "fmlookup fwd j = Some b \<longleftrightarrow> fmlookup bwd b = Some j" using s by (simp add: book_sound_def)
    moreover have "fmlookup bwd b = Some i \<longleftrightarrow> b = c" using s Some by (metis book_sound_def option.inject)
    ultimately show ?thesis using Some by auto
  qed
  then show ?thesis using Some by (simp add: book_unregister_def book_sound_def)
qed

lemma book_register_old: "fst (book_register fwd bwd i a) = fmlookup fwd i"
  "fst (book_unregister fwd bwd i) = fmlookup fwd i"
  by (simp_all add: book_register_def book_unregister_def Let_def split: option.splits)

end
