(* ===== verification/Mailbox.thy ===== *)
theory Mailbox
  imports Sync_Prelude
begin

text \<open>
  What a bounded in-memory transport promises about the queues of its endpoints: a post appends to
  one queue that has room, a receive takes the front of one queue, a registration empties or drops
  queues, and nothing else touches a queue. The locale \<open>mailbox\<close> draws the consequence for every
  sequence of operations: what an endpoint has taken, followed by what waits in its queue, is what
  was posted to it since it was opened, in that order.
\<close>

datatype ('k, 'p) mail_effect = Quiet | Posted 'k 'p | Taken 'k 'p | Reset "'k list"

text \<open>The history of an endpoint: what was posted to it and what it has taken since the last reset.\<close>

type_synonym ('k, 'p) mail_log = "'k \<Rightarrow> 'p list \<times> 'p list"

fun log_effect :: "('k, 'p) mail_effect \<Rightarrow> ('k, 'p) mail_log \<Rightarrow> ('k, 'p) mail_log" where
  "log_effect Quiet l = l"
| "log_effect (Posted k p) l = l(k := (fst (l k) @ [p], snd (l k)))"
| "log_effect (Taken k p) l = l(k := (fst (l k), snd (l k) @ [p]))"
| "log_effect (Reset ks) l = (\<lambda>k. if k \<in> set ks then ([], []) else l k)"

definition mail_run ::
  "('s \<Rightarrow> 'op \<Rightarrow> 's) \<Rightarrow> ('s \<Rightarrow> 'op \<Rightarrow> ('k, 'p) mail_effect) \<Rightarrow> 's \<Rightarrow> 'op list \<Rightarrow> 's \<times> ('k, 'p) mail_log" where
  "mail_run step effect s ops =
     fold (\<lambda>x (s, l). (step s x, log_effect (effect s x) l)) ops (s, \<lambda>k. ([], []))"

locale mailbox =
  fixes queue :: "'s \<Rightarrow> 'k \<Rightarrow> 'p list option" and cap :: "'s \<Rightarrow> nat" and ok :: "'s \<Rightarrow> 'p \<Rightarrow> bool"
    and step :: "'s \<Rightarrow> 'op \<Rightarrow> 's" and effect :: "'s \<Rightarrow> 'op \<Rightarrow> ('k, 'p) mail_effect" and sound :: "'s \<Rightarrow> bool"
  assumes step_sound: "sound s \<Longrightarrow> sound (step s x)"
    and step_cap: "cap (step s x) = cap s"
    and step_ok: "ok (step s x) = ok s"
    and quiet: "sound s \<Longrightarrow> effect s x = Quiet \<Longrightarrow> queue (step s x) = queue s"
    and posted: "sound s \<Longrightarrow> effect s x = Posted k p \<Longrightarrow>
      \<exists>q. queue s k = Some q \<and> length q < cap s \<and> ok s p \<and> queue (step s x) = (queue s)(k \<mapsto> q @ [p])"
    and taken: "sound s \<Longrightarrow> effect s x = Taken k p \<Longrightarrow>
      \<exists>q. queue s k = Some (p # q) \<and> queue (step s x) = (queue s)(k \<mapsto> q)"
    and reset: "sound s \<Longrightarrow> effect s x = Reset ks \<Longrightarrow>
      (\<forall>k. if k \<in> set ks then queue (step s x) k \<in> {None, Some []} else queue (step s x) k = queue s k)"
begin

definition in_order :: "'s \<Rightarrow> ('k, 'p) mail_log \<Rightarrow> bool" where
  "in_order s l \<longleftrightarrow> sound s \<and>
     (\<forall>k q. queue s k = Some q \<longrightarrow>
        fst (l k) = snd (l k) @ q \<and> length q \<le> cap s \<and> (\<forall>p \<in> set (fst (l k)). ok s p))"

lemma in_order_step:
  assumes "in_order s l"
  shows "in_order (step s x) (log_effect (effect s x) l)"
proof -
  have s: "sound s" using assms by (simp add: in_order_def)
  note keep = step_sound [OF s, of x] step_cap step_ok
  show ?thesis
  proof (cases "effect s x")
    case Quiet
    then show ?thesis using assms quiet [OF s Quiet] keep by (simp add: in_order_def)
  next
    case (Posted k p)
    obtain q where q: "queue s k = Some q" "length q < cap s" "ok s p"
      "queue (step s x) = (queue s)(k \<mapsto> q @ [p])" using posted [OF s Posted] by blast
    then show ?thesis using assms keep Posted by (auto simp: in_order_def)
  next
    case (Taken k p)
    obtain q where q: "queue s k = Some (p # q)" "queue (step s x) = (queue s)(k \<mapsto> q)"
      using taken [OF s Taken] by blast
    have "fst (l k) = snd (l k) @ p # q" "Suc (length q) \<le> cap s"
      using assms q(1) by (fastforce simp: in_order_def)+
    then show ?thesis using assms keep Taken q by (auto simp: in_order_def)
  next
    case (Reset ks)
    have r: "if k \<in> set ks then queue (step s x) k \<in> {None, Some []} else queue (step s x) k = queue s k" for k
      using reset [OF s Reset] by blast
    have "fst (log_effect (effect s x) l k) = snd (log_effect (effect s x) l k) @ q \<and>
        length q \<le> cap s \<and> (\<forall>p \<in> set (fst (log_effect (effect s x) l k)). ok s p)"
      if "queue (step s x) k = Some q" for k q
      using r [of k] that assms Reset by (auto simp: in_order_def split: if_splits)
    then show ?thesis using keep by (simp add: in_order_def)
  qed
qed

lemma in_order_run:
  assumes "sound s" and "\<And>k. queue s k = None \<or> queue s k = Some []"
  shows "in_order (fst (mail_run step effect s ops)) (snd (mail_run step effect s ops))"
proof -
  have "in_order s l \<Longrightarrow>
     in_order (fst (fold (\<lambda>x (s, l). (step s x, log_effect (effect s x) l)) ops (s, l)))
       (snd (fold (\<lambda>x (s, l). (step s x, log_effect (effect s x) l)) ops (s, l)))" for l
    by (induction ops arbitrary: s l) (simp_all add: in_order_step)
  moreover have "in_order s (\<lambda>k. ([], []))"
  proof -
    have "queue s k = Some q \<Longrightarrow> q = []" for k q using assms(2) [of k] by auto
    then show ?thesis using assms(1) unfolding in_order_def by fastforce
  qed
  ultimately show ?thesis by (simp add: mail_run_def)
qed

end

end
