(* ===== verification/Memory_Transport.thy ===== *)
theory Memory_Transport
  imports Address_Book Mailbox Adaptive_Map Packets
begin

text \<open>
  The bounded in-memory transports: the client packet hub with its endpoint handles
  (\<open>InMemoryTransportHub\<close>, \<open>InMemoryTransportEndpoint\<close>) and the station transport
  (\<open>InMemoryStationTransport\<close>). The hub's state is behind a mutex whose critical sections cannot
  panic, so it is never poisoned and every operation here is one critical section; a batch is sent
  in chunks of one critical section each. Socket addresses are a type parameter. Queue capacities
  retained by the allocator are not modelled.
\<close>

definition HASHED_ENDPOINT_MAP_MIN_ENTRIES :: usize where
  "HASHED_ENDPOINT_MAP_MIN_ENTRIES = 2048"

definition IN_MEMORY_BATCH_LOCK_PACKETS :: usize where
  "IN_MEMORY_BATCH_LOCK_PACKETS = 64"

section \<open>The client hub\<close>

record client_limits =
  ct_max_queued_packets :: usize
  ct_max_packet_bytes :: usize

definition default_client_limits :: client_limits where
  "default_client_limits = \<lparr>ct_max_queued_packets = 4096, ct_max_packet_bytes = 16 * 1024\<rparr>"

record memory_stats =
  ms_packets_sent :: usize
  ms_packets_received :: usize
  ms_bytes_sent :: usize
  ms_bytes_received :: usize
  ms_packets_rejected_full :: usize
  ms_packets_rejected_bytes :: usize

definition memory_stats_zero :: memory_stats where
  "memory_stats_zero =
     \<lparr>ms_packets_sent = 0, ms_packets_received = 0, ms_bytes_sent = 0, ms_bytes_received = 0,
      ms_packets_rejected_full = 0, ms_packets_rejected_bytes = 0\<rparr>"

datatype hub_error =
    MissingLocal client_id
  | MissingTarget client_id
  | HubQueueFull client_id usize
  | HubPacketTooLarge usize usize
  | Poisoned

record 'addr hub_client =
  hc_remote_addr :: 'addr
  hc_registration_token :: u64
  hc_queue :: "'addr inbound_packet list"

record 'addr hub =
  hb_limits :: client_limits
  hb_clients :: "(client_id, 'addr hub_client) adaptive_map"
  hb_addr_to_client :: "('addr, client_id) fmap"
  hb_stats :: memory_stats
  hb_next_registration_token :: u64

record endpoint =
  ep_local_client_id :: client_id
  ep_registration_token :: "u64 option"

definition hub_new :: "client_limits \<Rightarrow> 'addr hub" where
  "hub_new lims =
     \<lparr>hb_limits = lims, hb_clients = amap_new, hb_addr_to_client = fmempty,
      hb_stats = memory_stats_zero, hb_next_registration_token = 1\<rparr>"

definition hub_register_client :: "'addr hub \<Rightarrow> client_id \<Rightarrow> 'addr \<Rightarrow> 'addr option \<times> 'addr hub" where
  "hub_register_client h c addr =
     (let token = hb_next_registration_token h;
          next_token = max (token + 1) 1;
          (old, clients1) = amap_insert HASHED_ENDPOINT_MAP_MIN_ENTRIES (hb_clients h) c
            \<lparr>hc_remote_addr = addr, hc_registration_token = token, hc_queue = []\<rparr>;
          previous_addr = map_option hc_remote_addr old;
          book1 = (case previous_addr of Some p \<Rightarrow> fmdrop p (hb_addr_to_client h) | None \<Rightarrow> hb_addr_to_client h);
          clients2 = (case fmlookup book1 addr of
                        Some old_client \<Rightarrow>
                          if old_client \<noteq> c then snd (amap_remove clients1 old_client) else clients1
                      | None \<Rightarrow> clients1)
      in (previous_addr,
          h\<lparr>hb_clients := clients2, hb_addr_to_client := fmupd addr c book1,
            hb_next_registration_token := next_token\<rparr>))"

definition hub_endpoint_for_registered :: "'addr hub \<Rightarrow> client_id \<Rightarrow> endpoint" where
  "hub_endpoint_for_registered h c =
     \<lparr>ep_local_client_id = c,
      ep_registration_token = map_option hc_registration_token (amap_get (hb_clients h) c)\<rparr>"

definition hub_endpoint :: "'addr hub \<Rightarrow> client_id \<Rightarrow> 'addr \<Rightarrow> endpoint \<times> 'addr hub" where
  "hub_endpoint h c addr =
     (case hub_register_client h c addr of (_, h1) \<Rightarrow> (hub_endpoint_for_registered h1 c, h1))"

text \<open>The address of the client and the number of packets discarded with its queue.\<close>

definition hub_unregister_client :: "'addr hub \<Rightarrow> client_id \<Rightarrow> ('addr \<times> usize) option \<times> 'addr hub" where
  "hub_unregister_client h c =
     (case amap_remove (hb_clients h) c of
        (None, _) \<Rightarrow> (None, h)
      | (Some client, clients1) \<Rightarrow>
          (Some (hc_remote_addr client, length (hc_queue client)),
           h\<lparr>hb_clients := clients1,
             hb_addr_to_client := fmdrop (hc_remote_addr client) (hb_addr_to_client h)\<rparr>))"

definition hub_queued_len :: "'addr hub \<Rightarrow> client_id \<Rightarrow> usize option" where
  "hub_queued_len h c = map_option (\<lambda>k. length (hc_queue k)) (amap_get (hb_clients h) c)"

definition endpoint_local_addr :: "'addr hub \<Rightarrow> endpoint \<Rightarrow> hub_error + 'addr option" where
  "endpoint_local_addr h ep =
     (let client = amap_get (hb_clients h) (ep_local_client_id ep) in
      if map_option hc_registration_token client \<noteq> ep_registration_token ep
      then Err (MissingLocal (ep_local_client_id ep))
      else Ok (map_option hc_remote_addr client))"

text \<open>The client behind a handle, when the registration the handle was made for is still current.\<close>

definition local_client :: "'addr hub \<Rightarrow> endpoint \<Rightarrow> 'addr hub_client option" where
  "local_client h ep =
     (case amap_get (hb_clients h) (ep_local_client_id ep) of
        Some client \<Rightarrow>
          if Some (hc_registration_token client) = ep_registration_token ep then Some client else None
      | None \<Rightarrow> None)"

definition send_locked :: "'addr hub \<Rightarrow> endpoint \<Rightarrow> outbound_packet \<Rightarrow> (hub_error + unit) \<times> 'addr hub" where
  "send_locked h ep p =
     (let actual = length (op_bytes p); lims = hb_limits h; st = hb_stats h in
      if actual > ct_max_packet_bytes lims
      then (Err (HubPacketTooLarge (ct_max_packet_bytes lims) actual),
            h\<lparr>hb_stats := st\<lparr>ms_packets_rejected_bytes := usize_add (ms_packets_rejected_bytes st) 1\<rparr>\<rparr>)
      else (case local_client h ep of
          None \<Rightarrow> (Err (MissingLocal (ep_local_client_id ep)), h)
        | Some source \<Rightarrow>
            (case amap_get (hb_clients h) (op_client_id p) of
               None \<Rightarrow> (Err (MissingTarget (op_client_id p)), h)
             | Some target \<Rightarrow>
                 if length (hc_queue target) \<ge> ct_max_queued_packets lims
                 then (Err (HubQueueFull (op_client_id p) (ct_max_queued_packets lims)),
                       h\<lparr>hb_stats := st\<lparr>ms_packets_rejected_full := usize_add (ms_packets_rejected_full st) 1\<rparr>\<rparr>)
                 else (Ok (),
                   h\<lparr>hb_clients := amap_write (hb_clients h) (op_client_id p)
                        (target\<lparr>hc_queue := hc_queue target @
                           [\<lparr>ip_client_id = Some (ep_local_client_id ep), ip_remote_addr = hc_remote_addr source,
                             ip_bytes = op_bytes p\<rparr>]\<rparr>),
                     hb_stats := st\<lparr>ms_packets_sent := usize_add (ms_packets_sent st) 1,
                                    ms_bytes_sent := usize_add (ms_bytes_sent st) actual\<rparr>\<rparr>))))"

definition hub_send :: "'addr hub \<Rightarrow> endpoint \<Rightarrow> outbound_packet \<Rightarrow> (hub_error + unit) \<times> 'addr hub" where
  "hub_send = send_locked"

text \<open>One chunk of a batch, under one lock: the packets that remain are returned.\<close>

fun send_chunk ::
  "endpoint \<Rightarrow> nat \<Rightarrow> 'addr hub \<Rightarrow> outbound_packet list \<Rightarrow> (hub_error + unit) \<times> outbound_packet list \<times> 'addr hub" where
  "send_chunk ep 0 h ps = (Ok (), ps, h)"
| "send_chunk ep (Suc n) h [] = (Ok (), [], h)"
| "send_chunk ep (Suc n) h (p # ps) =
     (case send_locked h ep p of (r, h1) \<Rightarrow>
        case r of Inl e \<Rightarrow> (Err e, ps, h1) | Inr _ \<Rightarrow> send_chunk ep n h1 ps)"

lemma send_chunk_shorter:
  "send_chunk ep n h ps = (r, rest, h1) \<Longrightarrow> ps \<noteq> [] \<Longrightarrow> 0 < n \<Longrightarrow> length rest < length ps"
proof (induction ep n h ps arbitrary: r rest h1 rule: send_chunk.induct)
  case (3 ep n h p ps)
  then show ?case by (cases "ps = []"; cases n) (fastforce split: prod.splits sum.splits)+
qed simp_all

function hub_send_batch ::
  "endpoint \<Rightarrow> 'addr hub \<Rightarrow> outbound_packet list \<Rightarrow> (hub_error + unit) \<times> 'addr hub" where
  "hub_send_batch ep h ps =
     (if ps = [] then (Ok (), h)
      else (case send_chunk ep IN_MEMORY_BATCH_LOCK_PACKETS h ps of (r, rest, h1) \<Rightarrow>
        case r of Inl e \<Rightarrow> (Err e, h1) | Inr _ \<Rightarrow> hub_send_batch ep h1 rest))"
  by pat_completeness auto

termination
  by (relation "measure (\<lambda>(ep, h, ps). length ps)")
    (auto simp: IN_MEMORY_BATCH_LOCK_PACKETS_def dest: send_chunk_shorter [OF sym])

definition hub_try_recv :: "'addr hub \<Rightarrow> endpoint \<Rightarrow> (hub_error + 'addr inbound_packet option) \<times> 'addr hub" where
  "hub_try_recv h ep =
     (case local_client h ep of
        None \<Rightarrow> (Err (MissingLocal (ep_local_client_id ep)), h)
      | Some client \<Rightarrow>
          (case hc_queue client of
             [] \<Rightarrow> (Ok None, h)
           | p # rest \<Rightarrow>
               (let st = hb_stats h in
                (Ok (Some p),
                 h\<lparr>hb_clients := amap_write (hb_clients h) (ep_local_client_id ep) (client\<lparr>hc_queue := rest\<rparr>),
                   hb_stats := st\<lparr>ms_packets_received := usize_add (ms_packets_received st) 1,
                                  ms_bytes_received := usize_add (ms_bytes_received st) (length (ip_bytes p))\<rparr>\<rparr>))))"

section \<open>The hub as an address registry\<close>

definition hub_addr :: "'addr hub \<Rightarrow> client_id \<Rightarrow> 'addr option" where
  "hub_addr h c = map_option hc_remote_addr (amap_get (hb_clients h) c)"

definition hub_addresses :: "'addr hub \<Rightarrow> (client_id, 'addr) fmap" where
  "hub_addresses h = fmmap hc_remote_addr (amap_entries (hb_clients h))"

lemma hub_addresses_lookup [simp]: "fmlookup (hub_addresses h) = hub_addr h"
  by (simp add: hub_addresses_def hub_addr_def amap_get_entries fun_eq_iff)

definition hub_sound :: "'addr hub \<Rightarrow> bool" where
  "hub_sound h \<longleftrightarrow> book_sound (hub_addresses h) (hb_addr_to_client h)"

lemma hub_soundD: "hub_sound h \<Longrightarrow> hub_addr h c = Some a \<longleftrightarrow> fmlookup (hb_addr_to_client h) a = Some c"
  by (simp add: hub_sound_def book_sound_def)

text \<open>The record a registration puts into the table, and the registration in one equation.\<close>

definition fresh_client :: "'addr hub \<Rightarrow> 'addr \<Rightarrow> 'addr hub_client" where
  "fresh_client h a =
     \<lparr>hc_remote_addr = a, hc_registration_token = hb_next_registration_token h, hc_queue = []\<rparr>"

lemma hub_register_eq:
  "hub_register_client h c a =
     (let clients1 = snd (amap_insert HASHED_ENDPOINT_MAP_MIN_ENTRIES (hb_clients h) c (fresh_client h a));
          book1 = (case hub_addr h c of Some p \<Rightarrow> fmdrop p (hb_addr_to_client h) | None \<Rightarrow> hb_addr_to_client h)
      in (hub_addr h c,
          h\<lparr>hb_clients :=
               (case fmlookup book1 a of
                  Some d \<Rightarrow> if d \<noteq> c then snd (amap_remove clients1 d) else clients1
                | None \<Rightarrow> clients1),
            hb_addr_to_client := fmupd a c book1,
            hb_next_registration_token := max (hb_next_registration_token h + 1) 1\<rparr>))"
  unfolding hub_register_client_def Let_def fresh_client_def [symmetric]
  by (subst amap_insert_entries(1)) (simp add: hub_addr_def)

lemma hub_register_fields:
  "fst (hub_register_client h c a) = hub_addr h c"
  "hb_addr_to_client (snd (hub_register_client h c a)) =
     snd (snd (book_register (hub_addresses h) (hb_addr_to_client h) c a))"
  "hb_limits (snd (hub_register_client h c a)) = hb_limits h"
  "hb_stats (snd (hub_register_client h c a)) = hb_stats h"
  "hb_next_registration_token (snd (hub_register_client h c a)) = max (hb_next_registration_token h + 1) 1"
  by (simp_all add: hub_register_eq book_register_def Let_def)

lemma hub_register_get:
  assumes s: "hub_sound h"
  shows "amap_get (hb_clients (snd (hub_register_client h c a))) j =
    (if j = c then Some (fresh_client h a)
     else if hub_addr h j = Some a then None else amap_get (hb_clients h) j)"
proof -
  let ?book = "case hub_addr h c of Some p \<Rightarrow> fmdrop p (hb_addr_to_client h) | None \<Rightarrow> hb_addr_to_client h"
  have held: "hub_addr h j = Some a \<longleftrightarrow> fmlookup ?book a = Some j" if "j \<noteq> c"
    using that hub_soundD [OF s, of j a] hub_soundD [OF s, of c a] by (auto split: option.splits)
  show ?thesis
  proof (cases "fmlookup ?book a")
    case None
    then show ?thesis using held by (auto simp: hub_register_eq Let_def amap.get_put)
  next
    case (Some d)
    then show ?thesis using held by (auto simp: hub_register_eq Let_def amap.get_put amap.get_del)
  qed
qed

lemma hub_register_addr:
  assumes "hub_sound h"
  shows "hub_addr (snd (hub_register_client h c a)) = rebind (hub_addr h) c a"
  by (auto simp: hub_addr_def hub_register_get [OF assms] rebind_def fresh_client_def fun_eq_iff)

lemma hub_register_sound:
  assumes s: "hub_sound h"
  shows "hub_sound (snd (hub_register_client h c a))"
proof -
  let ?b = "book_register (hub_addresses h) (hb_addr_to_client h) c a"
  have "fmlookup (hub_addresses (snd (hub_register_client h c a))) = fmlookup (fst (snd ?b))"
    using s by (simp add: hub_register_addr hub_sound_def book_register_fwd)
  moreover have "book_sound (fst (snd ?b)) (snd (snd ?b))"
    using s by (simp add: hub_sound_def book_register_sound)
  ultimately show ?thesis by (simp add: hub_sound_def book_sound_def hub_register_fields)
qed

lemma hub_unregister_eq:
  "hub_unregister_client h c =
     (case amap_get (hb_clients h) c of
        None \<Rightarrow> (None, h)
      | Some k \<Rightarrow> (Some (hc_remote_addr k, length (hc_queue k)),
           h\<lparr>hb_clients := snd (amap_remove (hb_clients h) c),
             hb_addr_to_client := fmdrop (hc_remote_addr k) (hb_addr_to_client h)\<rparr>))"
  unfolding hub_unregister_client_def
  by (subst amap_remove_entries(1)) (simp split: option.splits)

lemma hub_unregister_get:
  "amap_get (hb_clients (snd (hub_unregister_client h c))) j =
     (if j = c then None else amap_get (hb_clients h) j)"
  by (auto simp: hub_unregister_eq amap.get_del split: option.splits)

lemma hub_unregister_addr:
  "hub_addr (snd (hub_unregister_client h c)) = (hub_addr h)(c := None)"
  by (auto simp: hub_addr_def hub_unregister_get fun_eq_iff)

lemma hub_unregister_sound:
  assumes s: "hub_sound h"
  shows "hub_sound (snd (hub_unregister_client h c))"
proof -
  let ?b = "book_unregister (hub_addresses h) (hb_addr_to_client h) c"
  have "fmlookup (hub_addresses (snd (hub_unregister_client h c))) = fmlookup (fst (snd ?b))"
    by (simp add: hub_unregister_addr book_unregister_fwd)
  moreover have "hb_addr_to_client (snd (hub_unregister_client h c)) = snd (snd ?b)"
    by (simp add: hub_unregister_eq book_unregister_def hub_addr_def split: option.split)
  moreover have "book_sound (fst (snd ?b)) (snd (snd ?b))"
    using s by (simp add: hub_sound_def book_unregister_sound)
  ultimately show ?thesis by (simp add: hub_sound_def book_sound_def)
qed

interpretation hub_book: address_registry hub_addr "\<lambda>h. fmlookup (hb_addr_to_client h)"
  "\<lambda>h c a. snd (hub_register_client h c a)" "\<lambda>h c. snd (hub_unregister_client h c)" hub_sound
  by unfold_locales
    (simp_all add: hub_soundD hub_register_sound hub_unregister_sound hub_register_addr hub_unregister_addr)

section \<open>Sending and receiving\<close>

text \<open>A batch, however it is cut into chunks, is the packets sent one by one up to the first error.\<close>

lemma send_chunk_each:
  "send_chunk ep n h ps = (r, rest, h1) \<Longrightarrow>
     send_each (\<lambda>h. send_locked h ep) h ps =
       (case r of Inl e \<Rightarrow> (Err e, h1) | Inr _ \<Rightarrow> send_each (\<lambda>h. send_locked h ep) h1 rest)"
  by (induction ep n h ps arbitrary: r rest h1 rule: send_chunk.induct)
    (auto split: prod.splits sum.splits)

lemma hub_send_batch_each:
  "hub_send_batch ep h ps = send_each (\<lambda>h. send_locked h ep) h ps"
proof (induction ep h ps rule: hub_send_batch.induct)
  case (1 ep h ps)
  show ?case
  proof (cases "ps = []")
    case False
    obtain r rest h1 where c: "send_chunk ep IN_MEMORY_BATCH_LOCK_PACKETS h ps = (r, rest, h1)"
      by (cases "send_chunk ep IN_MEMORY_BATCH_LOCK_PACKETS h ps")
    have "r = Inr u \<Longrightarrow> hub_send_batch ep h1 rest = send_each (\<lambda>h. send_locked h ep) h1 rest" for u
      using 1 [OF False c [symmetric] refl] by blast
    then show ?thesis using False c send_chunk_each [OF c]
      by (subst hub_send_batch.simps) (simp split: sum.splits)
  qed simp
qed

text \<open>The packet a target finds in its queue.\<close>

definition stamped :: "'addr hub \<Rightarrow> endpoint \<Rightarrow> outbound_packet \<Rightarrow> 'addr inbound_packet" where
  "stamped h ep p =
     \<lparr>ip_client_id = Some (ep_local_client_id ep),
      ip_remote_addr = the (hub_addr h (ep_local_client_id ep)), ip_bytes = op_bytes p\<rparr>"

lemma local_client_get:
  "local_client h ep = Some k \<Longrightarrow> amap_get (hb_clients h) (ep_local_client_id ep) = Some k"
  by (auto simp: local_client_def split: option.splits if_splits)

lemma send_locked_Ok:
  assumes "send_locked h ep p = (Inr u, h1)"
  obtains k t where "local_client h ep = Some k" and "amap_get (hb_clients h) (op_client_id p) = Some t"
    and "length (hc_queue t) < ct_max_queued_packets (hb_limits h)"
    and "length (op_bytes p) \<le> ct_max_packet_bytes (hb_limits h)"
    and "hb_clients h1 = amap_write (hb_clients h) (op_client_id p) (t\<lparr>hc_queue := hc_queue t @ [stamped h ep p]\<rparr>)"
    and "hb_limits h1 = hb_limits h" and "hb_addr_to_client h1 = hb_addr_to_client h"
    and "hb_next_registration_token h1 = hb_next_registration_token h"
proof -
  obtain k where k: "local_client h ep = Some k" using assms
    by (auto simp: send_locked_def Let_def split: if_splits option.splits)
  obtain t where t: "amap_get (hb_clients h) (op_client_id p) = Some t" using assms k
    by (auto simp: send_locked_def Let_def split: if_splits option.splits)
  have "hc_remote_addr k = the (hub_addr h (ep_local_client_id ep))"
    using local_client_get [OF k] by (simp add: hub_addr_def)
  then show thesis using assms k t
    by (intro that [OF k t]) (auto simp: send_locked_def Let_def stamped_def split: if_splits)
qed

lemma send_locked_Err:
  "send_locked h ep p = (Inl e, h1) \<Longrightarrow>
     hb_clients h1 = hb_clients h \<and> hb_limits h1 = hb_limits h \<and> hb_addr_to_client h1 = hb_addr_to_client h \<and>
     hb_next_registration_token h1 = hb_next_registration_token h"
  by (auto simp: send_locked_def Let_def split: if_splits option.splits)

lemma hub_try_recv_cases:
  assumes "hub_try_recv h ep = (r, h1)"
  shows "(\<exists>p k q. r = Ok (Some p) \<and> local_client h ep = Some k \<and> hc_queue k = p # q \<and>
            hb_clients h1 = amap_write (hb_clients h) (ep_local_client_id ep) (k\<lparr>hc_queue := q\<rparr>) \<and>
            hb_limits h1 = hb_limits h \<and> hb_addr_to_client h1 = hb_addr_to_client h \<and>
            hb_next_registration_token h1 = hb_next_registration_token h) \<or>
         (h1 = h \<and> (r = Ok None \<or> (\<exists>e. r = Err e)))"
  using assms by (auto simp: hub_try_recv_def Let_def split: option.splits list.splits)

section \<open>Every run of the hub\<close>

datatype 'addr hub_op =
    HubRegister client_id 'addr
  | HubUnregister client_id
  | HubSend endpoint outbound_packet
  | HubRecv endpoint

fun hub_step :: "'addr hub \<Rightarrow> 'addr hub_op \<Rightarrow> 'addr hub" where
  "hub_step h (HubRegister c a) = snd (hub_register_client h c a)"
| "hub_step h (HubUnregister c) = snd (hub_unregister_client h c)"
| "hub_step h (HubSend ep p) = snd (hub_send h ep p)"
| "hub_step h (HubRecv ep) = snd (hub_try_recv h ep)"

text \<open>What an operation did to the queues, told from its result: a registration resets the client and
  whoever held its address.\<close>

fun hub_effect :: "'addr hub \<Rightarrow> 'addr hub_op \<Rightarrow> (client_id, 'addr inbound_packet) mail_effect" where
  "hub_effect h (HubRegister c a) =
     Reset (c # (case fmlookup (hb_addr_to_client h) a of Some d \<Rightarrow> [d] | None \<Rightarrow> []))"
| "hub_effect h (HubUnregister c) = Reset [c]"
| "hub_effect h (HubSend ep p) =
     (case fst (hub_send h ep p) of Inr _ \<Rightarrow> Posted (op_client_id p) (stamped h ep p) | Inl _ \<Rightarrow> Quiet)"
| "hub_effect h (HubRecv ep) =
     (case fst (hub_try_recv h ep) of Inr (Some p) \<Rightarrow> Taken (ep_local_client_id ep) p | _ \<Rightarrow> Quiet)"

definition hub_queue :: "'addr hub \<Rightarrow> client_id \<Rightarrow> 'addr inbound_packet list option" where
  "hub_queue h c = map_option hc_queue (amap_get (hb_clients h) c)"

definition hub_fits :: "'addr hub \<Rightarrow> 'addr inbound_packet \<Rightarrow> bool" where
  "hub_fits h p \<longleftrightarrow> length (ip_bytes p) \<le> ct_max_packet_bytes (hb_limits h)"

lemma hub_write_sound:
  assumes "hub_sound h" "amap_get (hb_clients h) c = Some k" "hb_clients h1 = amap_write (hb_clients h) c k1"
    and "hc_remote_addr k1 = hc_remote_addr k" "hb_addr_to_client h1 = hb_addr_to_client h"
  shows "hub_sound h1"
proof -
  have "hub_addr h1 = hub_addr h" using assms by (auto simp: hub_addr_def amap_get_write fun_eq_iff)
  then show ?thesis using assms(1,5) by (simp add: hub_sound_def book_sound_def)
qed

lemma hub_write_queue:
  assumes "amap_get (hb_clients h) c = Some k" "hb_clients h1 = amap_write (hb_clients h) c k1"
  shows "hub_queue h1 = (hub_queue h)(c \<mapsto> hc_queue k1)"
  using assms by (auto simp: hub_queue_def amap_get_write fun_eq_iff)

lemma hub_step_limits [simp]: "hb_limits (hub_step h x) = hb_limits h"
proof (cases x)
  case (HubRegister c a)
  then show ?thesis by (simp add: hub_register_fields)
next
  case (HubUnregister c)
  then show ?thesis by (simp add: hub_unregister_eq split: option.split)
next
  case (HubSend ep p)
  then show ?thesis by (auto simp: hub_send_def send_locked_def Let_def split: option.split)
next
  case (HubRecv ep)
  then show ?thesis by (auto simp: hub_try_recv_def Let_def split: option.split list.split)
qed

text \<open>A send in terms of the queues.\<close>

lemma hub_send_effect:
  assumes s: "hub_sound h"
  shows "hub_sound (hub_step h (HubSend ep p))"
    and "hub_effect h (HubSend ep p) = Quiet \<Longrightarrow> hub_queue (hub_step h (HubSend ep p)) = hub_queue h"
    and "hub_effect h (HubSend ep p) = Posted c m \<Longrightarrow>
      \<exists>q. hub_queue h c = Some q \<and> length q < ct_max_queued_packets (hb_limits h) \<and> hub_fits h m \<and>
          hub_queue (hub_step h (HubSend ep p)) = (hub_queue h)(c \<mapsto> q @ [m])"
proof -
  obtain r h1 where x: "send_locked h ep p = (r, h1)" by (cases "send_locked h ep p")
  note simps = hub_send_def x
  show "hub_sound (hub_step h (HubSend ep p))"
  proof (cases r)
    case (Inl e)
    then show ?thesis using s send_locked_Err [of h ep p e h1] x
      by (simp add: simps hub_sound_def hub_addresses_def)
  next
    case (Inr u)
    obtain t where "amap_get (hb_clients h) (op_client_id p) = Some t"
      "hb_clients h1 = amap_write (hb_clients h) (op_client_id p) (t\<lparr>hc_queue := hc_queue t @ [stamped h ep p]\<rparr>)"
      "hb_addr_to_client h1 = hb_addr_to_client h"
      using x Inr by (metis send_locked_Ok)
    then show ?thesis using hub_write_sound [OF s] by (simp add: simps)
  qed
  show "hub_effect h (HubSend ep p) = Quiet \<Longrightarrow> hub_queue (hub_step h (HubSend ep p)) = hub_queue h"
    using send_locked_Err [of h ep p _ h1] x by (auto simp: simps hub_queue_def split: sum.splits)
  assume "hub_effect h (HubSend ep p) = Posted c m"
  then obtain u where u: "r = Inr u" and c: "c = op_client_id p" "m = stamped h ep p"
    by (auto simp: simps split: sum.splits)
  obtain t where t: "amap_get (hb_clients h) c = Some t" "length (hc_queue t) < ct_max_queued_packets (hb_limits h)"
    "length (op_bytes p) \<le> ct_max_packet_bytes (hb_limits h)"
    "hb_clients h1 = amap_write (hb_clients h) c (t\<lparr>hc_queue := hc_queue t @ [m]\<rparr>)"
    using send_locked_Ok [of h ep p u h1] x u c by metis
  have "hub_queue h c = Some (hc_queue t)" using t(1) by (simp add: hub_queue_def)
  then show "\<exists>q. hub_queue h c = Some q \<and> length q < ct_max_queued_packets (hb_limits h) \<and> hub_fits h m \<and>
          hub_queue (hub_step h (HubSend ep p)) = (hub_queue h)(c \<mapsto> q @ [m])"
    using t(2,3) hub_write_queue [OF t(1,4)] c(2) by (simp add: simps hub_fits_def stamped_def)
qed

lemma hub_recv_effect:
  assumes s: "hub_sound h"
  shows "hub_sound (hub_step h (HubRecv ep))"
    and "hub_effect h (HubRecv ep) = Quiet \<Longrightarrow> hub_queue (hub_step h (HubRecv ep)) = hub_queue h"
    and "hub_effect h (HubRecv ep) = Taken c m \<Longrightarrow>
      \<exists>q. hub_queue h c = Some (m # q) \<and> hub_queue (hub_step h (HubRecv ep)) = (hub_queue h)(c \<mapsto> q)"
proof -
  obtain r h1 where x: "hub_try_recv h ep = (r, h1)" by (cases "hub_try_recv h ep")
  consider (some) p k q where "r = Ok (Some p)" "amap_get (hb_clients h) (ep_local_client_id ep) = Some k"
      "hc_queue k = p # q" "hb_addr_to_client h1 = hb_addr_to_client h"
      "hb_clients h1 = amap_write (hb_clients h) (ep_local_client_id ep) (k\<lparr>hc_queue := q\<rparr>)"
    | (none) "h1 = h" "\<forall>p. r \<noteq> Ok (Some p)"
    using hub_try_recv_cases [OF x] local_client_get by fastforce
  note cs = this
  show "hub_sound (hub_step h (HubRecv ep))"
    using cs by cases (use s hub_write_sound [OF s] x in auto)
  show "hub_effect h (HubRecv ep) = Quiet \<Longrightarrow> hub_queue (hub_step h (HubRecv ep)) = hub_queue h"
    using cs by cases (simp_all add: x)
  assume e: "hub_effect h (HubRecv ep) = Taken c m"
  show "\<exists>q. hub_queue h c = Some (m # q) \<and> hub_queue (hub_step h (HubRecv ep)) = (hub_queue h)(c \<mapsto> q)"
    using cs
  proof cases
    case some
    then have "c = ep_local_client_id ep" "m = p" using e x by simp_all
    then show ?thesis using some hub_write_queue [OF some(2,5)] x by (simp add: hub_queue_def)
  next
    case none
    then show ?thesis using e x by (auto split: sum.splits option.splits)
  qed
qed

lemma hub_reset_effect:
  assumes s: "hub_sound h" and e: "hub_effect h x = Reset ks"
  shows "if k \<in> set ks then hub_queue (hub_step h x) k \<in> {None, Some []} else hub_queue (hub_step h x) k = hub_queue h k"
proof (cases x)
  case (HubRegister c a)
  have "hub_addr h k = Some a \<longleftrightarrow> fmlookup (hb_addr_to_client h) a = Some k" by (rule hub_soundD [OF s])
  then show ?thesis using e HubRegister
    by (auto simp: hub_queue_def hub_register_get [OF s] fresh_client_def split: option.splits)
next
  case (HubUnregister c)
  then show ?thesis using e by (auto simp: hub_queue_def hub_unregister_get)
qed (use e in \<open>auto split: sum.splits option.splits\<close>)

interpretation hub_mail: mailbox hub_queue "\<lambda>h. ct_max_queued_packets (hb_limits h)" hub_fits hub_step hub_effect hub_sound
proof unfold_locales
  fix h :: "'addr hub" and x c m ks
  assume s: "hub_sound h"
  show "hub_sound (hub_step h x)"
    by (cases x) (simp_all add: s hub_register_sound hub_unregister_sound
        hub_send_effect [simplified] hub_recv_effect [simplified])
  show "hub_effect h x = Quiet \<Longrightarrow> hub_queue (hub_step h x) = hub_queue h"
    by (cases x) (use hub_send_effect(2) [OF s] hub_recv_effect(2) [OF s] in auto)
  show "hub_effect h x = Posted c m \<Longrightarrow> \<exists>q. hub_queue h c = Some q \<and>
      length q < ct_max_queued_packets (hb_limits h) \<and> hub_fits h m \<and> hub_queue (hub_step h x) = (hub_queue h)(c \<mapsto> q @ [m])"
    by (cases x) (use hub_send_effect(3) [OF s] in \<open>auto split: sum.splits option.splits\<close>)
  show "hub_effect h x = Taken c m \<Longrightarrow> \<exists>q. hub_queue h c = Some (m # q) \<and> hub_queue (hub_step h x) = (hub_queue h)(c \<mapsto> q)"
    by (cases x) (use hub_recv_effect(3) [OF s] in \<open>auto split: sum.splits option.splits\<close>)
  show "hub_effect h x = Reset ks \<Longrightarrow> \<forall>k. if k \<in> set ks then hub_queue (hub_step h x) k \<in> {None, Some []}
      else hub_queue (hub_step h x) k = hub_queue h k"
    using hub_reset_effect [OF s] by blast
qed (simp_all add: hub_fits_def fun_eq_iff)

definition hub_run :: "client_limits \<Rightarrow> 'addr hub_op list \<Rightarrow> 'addr hub \<times> (client_id, 'addr inbound_packet) mail_log" where
  "hub_run lims ops = mail_run hub_step hub_effect (hub_new lims) ops"

lemma hub_run_in_order: "hub_mail.in_order (fst (hub_run lims ops)) (snd (hub_run lims ops))"
  unfolding hub_run_def
  by (rule hub_mail.in_order_run)
    (simp_all add: hub_sound_def book_sound_def hub_addresses_def hub_new_def hub_queue_def amap_new_def
      amap_entries_def amap_get_def)

lemma mail_run_state: "fst (mail_run step effect s ops) = fold (\<lambda>x s. step s x) ops s"
proof -
  have "fst (fold (\<lambda>x (s, l). (step s x, log_effect (effect s x) l)) ops (s, l)) = fold (\<lambda>x s. step s x) ops s" for l
    by (induction ops arbitrary: s l) simp_all
  then show ?thesis by (simp add: mail_run_def)
qed

lemma hub_run_limits [simp]: "hb_limits (fst (hub_run lims ops)) = lims"
proof -
  have "hb_limits (fold (\<lambda>x s. hub_step s x) ops h) = hb_limits h" for h :: "'a hub"
    by (induction ops arbitrary: h) simp_all
  then show ?thesis by (simp add: hub_run_def mail_run_state hub_new_def)
qed

text \<open>C26. The client hub is a set of bounded first-in first-out mailboxes with true senders. Whatever
  sequence of registrations, removals, sends and receives by any endpoint handles has run, for every
  registered client what it has received since its registration, followed by what waits in its
  queue, is what was accepted for it, in that order and stamped with the sender's identifier and
  address; the queue and every packet are within the limits; and its address leads back to it.\<close>

theorem hub_delivers_in_order:
  assumes "amap_get (hb_clients (fst (hub_run lims ops))) c = Some k"
  shows "fst (snd (hub_run lims ops) c) = snd (snd (hub_run lims ops) c) @ hc_queue k \<and>
    length (hc_queue k) \<le> ct_max_queued_packets lims \<and>
    (\<forall>p \<in> set (fst (snd (hub_run lims ops) c)). length (ip_bytes p) \<le> ct_max_packet_bytes lims) \<and>
    fmlookup (hb_addr_to_client (fst (hub_run lims ops))) (hc_remote_addr k) = Some c"
proof -
  let ?h = "fst (hub_run lims ops)"
  have q: "hub_queue ?h c = Some (hc_queue k)" and a: "hub_addr ?h c = Some (hc_remote_addr k)"
    using assms by (simp_all add: hub_queue_def hub_addr_def)
  have s: "hub_sound ?h" using hub_run_in_order [of lims ops] by (simp add: hub_mail.in_order_def)
  show ?thesis using hub_run_in_order [of lims ops] q hub_book.both_ways [OF s, THEN iffD1, OF a]
    by (simp add: hub_mail.in_order_def hub_fits_def)
qed

definition sample_hub_ops :: "nat hub_op list" where
  "sample_hub_ops =
     [HubRegister 1 10, HubRegister 2 20,
      HubSend \<lparr>ep_local_client_id = 1, ep_registration_token = Some 1\<rparr> \<lparr>op_client_id = 2, op_bytes = [7]\<rparr>,
      HubSend \<lparr>ep_local_client_id = 1, ep_registration_token = Some 1\<rparr> \<lparr>op_client_id = 2, op_bytes = [8]\<rparr>,
      HubRecv \<lparr>ep_local_client_id = 2, ep_registration_token = Some 2\<rparr>]"

lemmas hub_eval = hub_run_def mail_run_def hub_new_def hub_register_eq fresh_client_def hub_send_def send_locked_def
  hub_try_recv_def local_client_def stamped_def hub_addr_def amap.get_put amap.get_del amap_get_write Let_def

lemma hub_delivers_in_order_witness:
  "\<exists>k. amap_get (hb_clients (fst (hub_run default_client_limits sample_hub_ops))) 2 = Some k \<and>
     fst (snd (hub_run default_client_limits sample_hub_ops) 2) =
       [\<lparr>ip_client_id = Some 1, ip_remote_addr = 10, ip_bytes = [7]\<rparr>,
        \<lparr>ip_client_id = Some 1, ip_remote_addr = 10, ip_bytes = [8]\<rparr>] \<and>
     hc_queue k = [\<lparr>ip_client_id = Some 1, ip_remote_addr = 10, ip_bytes = [8]\<rparr>]"
proof -
  let ?r = "hub_run default_client_limits sample_hub_ops"
  have log: "snd ?r 2 =
      ([\<lparr>ip_client_id = Some 1, ip_remote_addr = 10, ip_bytes = [7]\<rparr>,
        \<lparr>ip_client_id = Some 1, ip_remote_addr = 10, ip_bytes = [8]\<rparr>],
       [\<lparr>ip_client_id = Some 1, ip_remote_addr = 10, ip_bytes = [7]\<rparr>])"
    by (simp add: sample_hub_ops_def hub_eval default_client_limits_def)
  have "amap_get (hb_clients (fst ?r)) 2 \<noteq> None"
    by (simp add: sample_hub_ops_def hub_eval default_client_limits_def)
  then obtain k where k: "amap_get (hb_clients (fst ?r)) 2 = Some k" by blast
  show ?thesis using hub_delivers_in_order [OF k] log k by simp
qed

section \<open>Handles of earlier registrations\<close>

definition hub_token :: "'addr hub \<Rightarrow> client_id \<Rightarrow> u64 option" where
  "hub_token h c = map_option hc_registration_token (amap_get (hb_clients h) c)"

lemma local_client_token: "local_client h ep = None \<longleftrightarrow>
    hub_token h (ep_local_client_id ep) = None \<or> hub_token h (ep_local_client_id ep) \<noteq> ep_registration_token ep"
  by (auto simp: local_client_def hub_token_def split: option.splits)

definition tokens_below :: "'addr hub \<Rightarrow> bool" where
  "tokens_below h \<longleftrightarrow> hub_sound h \<and> (\<forall>c t. hub_token h c = Some t \<longrightarrow> t < hb_next_registration_token h)"

lemma hub_step_tokens:
  assumes s: "hub_sound h"
  shows "hub_token (hub_step h x) =
    (case x of
       HubRegister c a \<Rightarrow> (\<lambda>j. if j = c then Some (hb_next_registration_token h)
                               else if hub_addr h j = Some a then None else hub_token h j)
     | HubUnregister c \<Rightarrow> (hub_token h)(c := None)
     | _ \<Rightarrow> hub_token h)"
proof (cases x)
  case (HubRegister c a)
  then show ?thesis by (auto simp: hub_token_def hub_register_get [OF s] fresh_client_def fun_eq_iff)
next
  case (HubUnregister c)
  then show ?thesis by (auto simp: hub_token_def hub_unregister_get fun_eq_iff)
next
  case (HubSend ep p)
  obtain r h1 where x: "send_locked h ep p = (r, h1)" by (cases "send_locked h ep p")
  have "hub_token h1 = hub_token h"
  proof (cases r)
    case (Inl e)
    then show ?thesis using send_locked_Err [of h ep p e h1] x by (simp add: hub_token_def fun_eq_iff)
  next
    case (Inr u)
    obtain t where "amap_get (hb_clients h) (op_client_id p) = Some t"
      "hb_clients h1 = amap_write (hb_clients h) (op_client_id p) (t\<lparr>hc_queue := hc_queue t @ [stamped h ep p]\<rparr>)"
      using x Inr by (metis send_locked_Ok)
    then show ?thesis by (auto simp: hub_token_def amap_get_write fun_eq_iff)
  qed
  then show ?thesis using HubSend x by (simp add: hub_send_def)
next
  case (HubRecv ep)
  obtain r h1 where x: "hub_try_recv h ep = (r, h1)" by (cases "hub_try_recv h ep")
  have "hub_token h1 = hub_token h"
    using hub_try_recv_cases [OF x] local_client_get [of h ep]
    by (auto simp: hub_token_def amap_get_write fun_eq_iff)
  then show ?thesis using HubRecv x by simp
qed

lemma hub_step_next:
  "hb_next_registration_token (hub_step h x) =
     (case x of HubRegister c a \<Rightarrow> max (hb_next_registration_token h + 1) 1 | _ \<Rightarrow> hb_next_registration_token h)"
  by (cases x)
    (auto simp: hub_register_fields hub_unregister_eq hub_send_def send_locked_def hub_try_recv_def Let_def
      split: option.split list.split)

lemma tokens_below_step:
  assumes t: "tokens_below h" and room: "unat (hb_next_registration_token h) + 1 < 2 ^ 64"
  shows "tokens_below (hub_step h x)"
    and "hb_next_registration_token h \<le> hb_next_registration_token (hub_step h x)"
    and "unat (hb_next_registration_token (hub_step h x)) \<le> unat (hb_next_registration_token h) + 1"
proof -
  let ?n = "hb_next_registration_token h"
  have s: "hub_sound h" and below: "\<And>c v. hub_token h c = Some v \<Longrightarrow> v < ?n"
    using t by (auto simp: tokens_below_def)
  have up: "?n < ?n + 1" "unat (?n + 1) = unat ?n + 1"
    using room by (simp_all add: word_less_nat_alt unat_word_ariths)
  have "1 \<le> ?n + 1" unfolding word_le_nat_alt using up(2) by simp
  then have m: "max (?n + 1) 1 = ?n + 1" by (rule max_absorb1)
  show "?n \<le> hb_next_registration_token (hub_step h x)"
    unfolding hub_step_next m using up(1) by (cases x) simp_all
  show "unat (hb_next_registration_token (hub_step h x)) \<le> unat ?n + 1"
    unfolding hub_step_next m using up(2) by (cases x) simp_all
  have "hub_sound (hub_step h x)" by (rule hub_mail.step_sound [OF s])
  moreover have "v < hb_next_registration_token (hub_step h x)" if "hub_token (hub_step h x) c = Some v" for c v
  proof (cases x)
    case (HubRegister d a)
    then have "v = ?n \<or> hub_token h c = Some v"
      using that unfolding HubRegister hub_step_tokens [OF s] by (auto split: if_splits)
    then have "v < ?n + 1" using up(1) below [of c v] by (auto intro: less_trans)
    then show ?thesis unfolding hub_step_next m HubRegister by simp
  next
    case (HubUnregister d)
    then show ?thesis using that below unfolding HubUnregister hub_step_tokens [OF s] hub_step_next
      by (auto split: if_splits)
  next
    case (HubSend d p)
    then show ?thesis using that below unfolding HubSend hub_step_tokens [OF s] hub_step_next by simp
  next
    case (HubRecv d)
    then show ?thesis using that below unfolding HubRecv hub_step_tokens [OF s] hub_step_next by simp
  qed
  ultimately show "tokens_below (hub_step h x)" by (simp add: tokens_below_def)
qed

text \<open>A handle is known when its token was given out by this hub, and stale when it no longer stands
  for the current registration; nothing makes a known stale handle current again.\<close>

definition known :: "'addr hub \<Rightarrow> endpoint \<Rightarrow> bool" where
  "known h ep \<longleftrightarrow> (\<exists>t. ep_registration_token ep = Some t \<and> t < hb_next_registration_token h)"

lemma stale_step:
  assumes t: "tokens_below h" and room: "unat (hb_next_registration_token h) + 1 < 2 ^ 64" and k: "known h ep"
  shows "known (hub_step h x) ep"
    and "local_client h ep = None \<or> x = HubUnregister (ep_local_client_id ep) \<or>
         (\<exists>a. x = HubRegister (ep_local_client_id ep) a) \<Longrightarrow> local_client (hub_step h x) ep = None"
proof -
  have s: "hub_sound h" using t by (simp add: tokens_below_def)
  show "known (hub_step h x) ep"
    using k tokens_below_step(2) [OF t room, of x] by (auto simp: known_def intro: less_le_trans)
  show "local_client h ep = None \<or> x = HubUnregister (ep_local_client_id ep) \<or>
      (\<exists>a. x = HubRegister (ep_local_client_id ep) a) \<Longrightarrow> local_client (hub_step h x) ep = None"
    using k unfolding local_client_token hub_step_tokens [OF s] by (cases x) (auto simp: known_def)
qed

lemma stale_fold:
  assumes "tokens_below h" "unat (hb_next_registration_token h) + length ops < 2 ^ 64" "known h ep"
    and "local_client h ep = None \<or> HubUnregister (ep_local_client_id ep) \<in> set ops \<or>
         (\<exists>a. HubRegister (ep_local_client_id ep) a \<in> set ops)"
  shows "local_client (fold (\<lambda>x h. hub_step h x) ops h) ep = None"
  using assms
proof (induction ops arbitrary: h)
  case (Cons x ops)
  have room: "unat (hb_next_registration_token h) + 1 < 2 ^ 64" using Cons.prems(2) by simp
  note st = tokens_below_step [OF Cons.prems(1) room, of x] stale_step [OF Cons.prems(1) room Cons.prems(3), of x]
  have "unat (hb_next_registration_token (hub_step h x)) + length ops < 2 ^ 64"
    using st(3) Cons.prems(2) by simp
  moreover have "local_client (hub_step h x) ep = None \<or> HubUnregister (ep_local_client_id ep) \<in> set ops \<or>
         (\<exists>a. HubRegister (ep_local_client_id ep) a \<in> set ops)"
    using Cons.prems(4) st(5) by auto
  ultimately have "local_client (fold (\<lambda>x h. hub_step h x) ops (hub_step h x)) ep = None"
    by (rule Cons.IH [OF st(1) _ st(4)])
  then show ?case by simp
qed simp

lemma tokens_below_fold:
  assumes "tokens_below h" "unat (hb_next_registration_token h) + length ops < 2 ^ 64"
  shows "tokens_below (fold (\<lambda>x h. hub_step h x) ops h) \<and>
    unat (hb_next_registration_token (fold (\<lambda>x h. hub_step h x) ops h)) \<le> unat (hb_next_registration_token h) + length ops"
  using assms
proof (induction ops arbitrary: h)
  case (Cons x ops)
  have room: "unat (hb_next_registration_token h) + 1 < 2 ^ 64" using Cons.prems(2) by simp
  note st = tokens_below_step [OF Cons.prems(1) room, of x]
  show ?case using Cons.IH [OF st(1)] st(3) Cons.prems(2) by simp
qed simp

text \<open>An endpoint handle stands for one registration. Once its client has been registered again or
  removed, the handle can neither send nor receive, whatever runs afterwards: an operation through
  it is refused and leaves every queue as it is. (The registration counter must not have wrapped
  around, which takes 2^64 - 1 registrations.)\<close>

theorem stale_handle_refused:
  assumes "length before + length after < 2 ^ 64 - 1"
    and "h = fst (hub_run lims before)" and "h1 = fst (hub_run lims (before @ after))"
    and "ep = hub_endpoint_for_registered h c" and "ep_registration_token ep \<noteq> None"
    and "HubUnregister c \<in> set after \<or> (\<exists>a. HubRegister c a \<in> set after)"
  shows "hub_try_recv h1 ep = (Err (MissingLocal c), h1) \<and>
    (length (op_bytes p) \<le> ct_max_packet_bytes lims \<longrightarrow> hub_send h1 ep p = (Err (MissingLocal c), h1)) \<and>
    (length (op_bytes p) > ct_max_packet_bytes lims \<longrightarrow>
       fst (hub_send h1 ep p) = Err (HubPacketTooLarge (ct_max_packet_bytes lims) (length (op_bytes p))) \<and>
       hb_clients (snd (hub_send h1 ep p)) = hb_clients h1)"
proof -
  have t0: "tokens_below (hub_new lims :: 'a hub)" "hb_next_registration_token (hub_new lims :: 'a hub) = 1"
    by (simp_all add: tokens_below_def hub_sound_def book_sound_def hub_addresses_def hub_new_def hub_token_def
        amap_new_def amap_entries_def amap_get_def)
  have h: "h = fold (\<lambda>x h. hub_step h x) before (hub_new lims)"
    by (simp add: assms(2) hub_run_def mail_run_state)
  have h1: "h1 = fold (\<lambda>x h. hub_step h x) after h"
    by (simp add: h assms(3) hub_run_def mail_run_state)
  have room: "unat (hb_next_registration_token (hub_new lims :: 'a hub)) + length before < 2 ^ 64"
    using assms(1) by (simp add: t0(2))
  have b: "tokens_below h" "unat (hb_next_registration_token h) \<le> 1 + length before"
    using tokens_below_fold [OF t0(1) room] by (simp_all add: h t0(2))
  have c: "ep_local_client_id ep = c" "ep_registration_token ep = hub_token h c"
    by (simp_all add: assms(4) hub_endpoint_for_registered_def hub_token_def)
  have "known h ep" using b(1) assms(5) c(2) by (auto simp: known_def tokens_below_def)
  moreover have "unat (hb_next_registration_token h) + length after < 2 ^ 64" using b(2) assms(1) by simp
  ultimately have "local_client h1 ep = None"
    using stale_fold [OF b(1), of after ep] assms(6) by (simp add: c(1) h1)
  moreover have "hb_limits h1 = lims" by (simp add: assms(3))
  ultimately show ?thesis by (auto simp: hub_try_recv_def hub_send_def send_locked_def Let_def c(1))
qed

lemma stale_handle_refused_witness:
  "\<exists>h1 :: nat hub. h1 = fst (hub_run default_client_limits [HubRegister 1 10, HubRegister 1 30]) \<and>
     hub_try_recv h1 \<lparr>ep_local_client_id = 1, ep_registration_token = Some 1\<rparr> = (Err (MissingLocal 1), h1)"
proof -
  have e: "hub_endpoint_for_registered (fst (hub_run default_client_limits [HubRegister 1 (10::nat)])) 1 =
      \<lparr>ep_local_client_id = 1, ep_registration_token = Some 1\<rparr>"
    by (simp add: hub_endpoint_for_registered_def hub_eval)
  show ?thesis
    using stale_handle_refused [where before = "[HubRegister 1 (10::nat)]" and after = "[HubRegister 1 30]"
        and lims = default_client_limits and c = 1, OF _ refl refl e [symmetric]]
    by simp
qed

end
