(* ===== verification/Memory_Station.thy ===== *)
theory Memory_Station
  imports Memory_Transport
begin

text \<open>
  The bounded in-memory transport between stations (\<open>InMemoryStationTransport\<close>), the second
  instance of the mailbox contract: a queue per registered station, bounded in packets and in bytes
  per packet.
\<close>

record station_limits =
  sl_max_queued_packets :: usize
  sl_max_packet_bytes :: usize

definition default_station_limits :: station_limits where
  "default_station_limits = \<lparr>sl_max_queued_packets = 4096, sl_max_packet_bytes = 16 * 1024\<rparr>"

datatype station_transport_error =
    StationMissingTarget station_id
  | StationQueueFull station_id usize
  | StationPacketTooLarge usize usize

record memory_station =
  mt_limits :: station_limits
  mt_queues :: "(station_id, station_inbound_packet list) adaptive_map"
  mt_stats :: memory_stats

definition memory_station_new :: "station_limits \<Rightarrow> memory_station" where
  "memory_station_new lims = \<lparr>mt_limits = lims, mt_queues = amap_new, mt_stats = memory_stats_zero\<rparr>"

definition memory_register_station :: "memory_station \<Rightarrow> station_id \<Rightarrow> memory_station" where
  "memory_register_station t s =
     (if amap_get (mt_queues t) s = None
      then t\<lparr>mt_queues := snd (amap_insert HASHED_ENDPOINT_MAP_MIN_ENTRIES (mt_queues t) s [])\<rparr> else t)"

definition memory_unregister_station :: "memory_station \<Rightarrow> station_id \<Rightarrow> usize option \<times> memory_station" where
  "memory_unregister_station t s =
     (case amap_remove (mt_queues t) s of
        (removed, queues) \<Rightarrow> (map_option length removed, t\<lparr>mt_queues := queues\<rparr>))"

definition memory_queued_len :: "memory_station \<Rightarrow> station_id \<Rightarrow> usize option" where
  "memory_queued_len t s = map_option length (amap_get (mt_queues t) s)"

definition memory_send_station ::
  "memory_station \<Rightarrow> station_outbound_packet \<Rightarrow> (station_transport_error + unit) \<times> memory_station" where
  "memory_send_station t p =
     (let actual = length (so_bytes p); lims = mt_limits t; st = mt_stats t in
      if actual > sl_max_packet_bytes lims
      then (Err (StationPacketTooLarge (sl_max_packet_bytes lims) actual),
            t\<lparr>mt_stats := st\<lparr>ms_packets_rejected_bytes := usize_add (ms_packets_rejected_bytes st) 1\<rparr>\<rparr>)
      else (case amap_get (mt_queues t) (so_target_station p) of
          None \<Rightarrow> (Err (StationMissingTarget (so_target_station p)), t)
        | Some q \<Rightarrow>
            if length q \<ge> sl_max_queued_packets lims
            then (Err (StationQueueFull (so_target_station p) (sl_max_queued_packets lims)),
                  t\<lparr>mt_stats := st\<lparr>ms_packets_rejected_full := usize_add (ms_packets_rejected_full st) 1\<rparr>\<rparr>)
            else (Ok (),
              t\<lparr>mt_stats := st\<lparr>ms_packets_sent := usize_add (ms_packets_sent st) 1,
                               ms_bytes_sent := usize_add (ms_bytes_sent st) actual\<rparr>,
                mt_queues := amap_write (mt_queues t) (so_target_station p)
                  (q @ [\<lparr>si_source_station = so_source_station p, si_target_station = so_target_station p,
                         si_bytes = so_bytes p\<rparr>])\<rparr>)))"

definition memory_send_station_batch ::
  "memory_station \<Rightarrow> station_packet_batch \<Rightarrow> (station_transport_error + unit) \<times> memory_station" where
  "memory_send_station_batch = default_send_station_batch memory_send_station"

definition memory_try_recv_station ::
  "memory_station \<Rightarrow> station_id \<Rightarrow> (station_transport_error + station_inbound_packet option) \<times> memory_station" where
  "memory_try_recv_station t s =
     (case amap_get (mt_queues t) s of
        None \<Rightarrow> (Err (StationMissingTarget s), t)
      | Some [] \<Rightarrow> (Ok None, t)
      | Some (p # q) \<Rightarrow>
          (let st = mt_stats t in
           (Ok (Some p),
            t\<lparr>mt_queues := amap_write (mt_queues t) s q,
              mt_stats := st\<lparr>ms_packets_received := usize_add (ms_packets_received st) 1,
                             ms_bytes_received := usize_add (ms_bytes_received st) (length (si_bytes p))\<rparr>\<rparr>)))"

section \<open>The mailbox contract\<close>

datatype memory_op =
    MemRegister station_id
  | MemUnregister station_id
  | MemSend station_outbound_packet
  | MemRecv station_id

fun memory_step :: "memory_station \<Rightarrow> memory_op \<Rightarrow> memory_station" where
  "memory_step t (MemRegister s) = memory_register_station t s"
| "memory_step t (MemUnregister s) = snd (memory_unregister_station t s)"
| "memory_step t (MemSend p) = snd (memory_send_station t p)"
| "memory_step t (MemRecv s) = snd (memory_try_recv_station t s)"

text \<open>A second registration keeps the queue, unlike a client's.\<close>

fun memory_effect :: "memory_station \<Rightarrow> memory_op \<Rightarrow> (station_id, station_inbound_packet) mail_effect" where
  "memory_effect t (MemRegister s) = (if memory_queued_len t s = None then Reset [s] else Quiet)"
| "memory_effect t (MemUnregister s) = Reset [s]"
| "memory_effect t (MemSend p) =
     (case fst (memory_send_station t p) of
        Inr _ \<Rightarrow> Posted (so_target_station p)
          \<lparr>si_source_station = so_source_station p, si_target_station = so_target_station p, si_bytes = so_bytes p\<rparr>
      | Inl _ \<Rightarrow> Quiet)"
| "memory_effect t (MemRecv s) =
     (case fst (memory_try_recv_station t s) of Inr (Some p) \<Rightarrow> Taken s p | _ \<Rightarrow> Quiet)"

lemma memory_unregister_queues:
  "mt_queues (snd (memory_unregister_station t s)) = snd (amap_remove (mt_queues t) s)"
  "mt_limits (snd (memory_unregister_station t s)) = mt_limits t"
  by (simp_all add: memory_unregister_station_def split: prod.split)

interpretation memory_mail: mailbox "\<lambda>t. amap_get (mt_queues t)" "\<lambda>t. sl_max_queued_packets (mt_limits t)"
  "\<lambda>t p. length (si_bytes p) \<le> sl_max_packet_bytes (mt_limits t)" memory_step memory_effect "\<lambda>t. True"
proof unfold_locales
  fix t x s p ks
  have lims: "mt_limits (memory_step t x) = mt_limits t"
    by (cases x) (auto simp: memory_register_station_def memory_unregister_queues memory_send_station_def
        memory_try_recv_station_def Let_def split: option.split list.split)
  then show "sl_max_queued_packets (mt_limits (memory_step t x)) = sl_max_queued_packets (mt_limits t)"
    and "(\<lambda>p. length (si_bytes p) \<le> sl_max_packet_bytes (mt_limits (memory_step t x))) =
         (\<lambda>p. length (si_bytes p) \<le> sl_max_packet_bytes (mt_limits t))" by simp_all
  show "memory_effect t x = Quiet \<Longrightarrow> amap_get (mt_queues (memory_step t x)) = amap_get (mt_queues t)"
    by (cases x) (auto simp: memory_register_station_def memory_queued_len_def memory_send_station_def
        memory_try_recv_station_def Let_def split: option.splits list.splits if_splits)
  show "memory_effect t x = Posted s p \<Longrightarrow> \<exists>q. amap_get (mt_queues t) s = Some q \<and>
      length q < sl_max_queued_packets (mt_limits t) \<and> length (si_bytes p) \<le> sl_max_packet_bytes (mt_limits t) \<and>
      amap_get (mt_queues (memory_step t x)) = (amap_get (mt_queues t))(s \<mapsto> q @ [p])"
    by (cases x) (auto simp: memory_send_station_def Let_def amap_get_write fun_eq_iff
        split: option.splits if_splits sum.splits)
  show "memory_effect t x = Taken s p \<Longrightarrow> \<exists>q. amap_get (mt_queues t) s = Some (p # q) \<and>
      amap_get (mt_queues (memory_step t x)) = (amap_get (mt_queues t))(s \<mapsto> q)"
    by (cases x) (auto simp: memory_try_recv_station_def Let_def amap_get_write fun_eq_iff
        split: option.splits if_splits sum.splits list.splits)
  show "memory_effect t x = Reset ks \<Longrightarrow>
      \<forall>k. if k \<in> set ks then amap_get (mt_queues (memory_step t x)) k \<in> {None, Some []}
        else amap_get (mt_queues (memory_step t x)) k = amap_get (mt_queues t) k"
    by (cases x) (auto simp: memory_register_station_def memory_queued_len_def memory_unregister_queues amap.get_put amap.get_del
        split: option.splits if_splits sum.splits)
qed simp_all

definition memory_run ::
  "station_limits \<Rightarrow> memory_op list \<Rightarrow> memory_station \<times> (station_id, station_inbound_packet) mail_log" where
  "memory_run lims ops = mail_run memory_step memory_effect (memory_station_new lims) ops"

lemma memory_delivers_in_order:
  assumes "amap_get (mt_queues (fst (memory_run lims ops))) s = Some q"
  shows "fst (snd (memory_run lims ops) s) = snd (snd (memory_run lims ops) s) @ q"
proof -
  have "memory_mail.in_order (fst (memory_run lims ops)) (snd (memory_run lims ops))"
    unfolding memory_run_def by (rule memory_mail.in_order_run) (simp_all add: memory_station_new_def)
  then show ?thesis using assms by (simp add: memory_mail.in_order_def)
qed

end
