(* ===== verification/Udp_Transport.thy ===== *)
theory Udp_Transport
  imports Address_Book Packets
begin

text \<open>
  The UDP adapters: the registries of peers, the checks around the socket and the statistics. The
  socket is a parameter. \<open>socket_ops\<close> holds what the code calls on it: \<open>send_to\<close> reports the number
  of bytes sent, and \<open>recv_from\<close> writes a datagram into the buffer it is given and reports its
  length and origin. Slicing the buffer at a length beyond its end would panic, which is \<open>None\<close>.
\<close>

definition DEFAULT_UDP_RECV_BUFFER_SIZE :: usize where
  "DEFAULT_UDP_RECV_BUFFER_SIZE = 16 * 1024"

record ('sock, 'addr, 'io) socket_ops =
  sk_send_to :: "'sock \<Rightarrow> bytes \<Rightarrow> 'addr \<Rightarrow> ('io + usize) \<times> 'sock"
  sk_recv_from :: "'sock \<Rightarrow> bytes \<Rightarrow> ('io + usize \<times> 'addr) \<times> bytes \<times> 'sock"
  sk_would_block :: "'io \<Rightarrow> bool"
  sk_write_zero :: 'io

text \<open>Resizing the receive buffer, which never becomes empty.\<close>

definition resize_buffer :: "bytes \<Rightarrow> usize \<Rightarrow> bytes" where
  "resize_buffer b n = (let m = max n 1 in take m b @ replicate (m - length b) 0)"

section \<open>The station adapter\<close>

record udp_station_stats =
  us_packets_sent :: usize
  us_packets_received :: usize
  us_bytes_sent :: usize
  us_bytes_received :: usize

datatype ('addr, 'io) udp_station_error =
    UnknownStation station_id
  | UnknownRemote 'addr
  | LocalStationMismatch station_id station_id
  | TargetStationMismatch station_id station_id
  | UdpStationIo 'io

record ('sock, 'addr) udp_station =
  us_local_station :: station_id
  us_socket :: 'sock
  us_stations :: "(station_id, 'addr) fmap"
  us_addr_to_station :: "('addr, station_id) fmap"
  us_recv_buffer :: bytes
  us_stats :: udp_station_stats

definition udp_station_new :: "station_id \<Rightarrow> 'sock \<Rightarrow> ('sock, 'addr) udp_station" where
  "udp_station_new s sock =
     \<lparr>us_local_station = s, us_socket = sock, us_stations = fmempty, us_addr_to_station = fmempty,
      us_recv_buffer = replicate DEFAULT_UDP_RECV_BUFFER_SIZE 0,
      us_stats = \<lparr>us_packets_sent = 0, us_packets_received = 0, us_bytes_sent = 0, us_bytes_received = 0\<rparr>\<rparr>"

definition udp_register_station ::
  "('sock, 'addr) udp_station \<Rightarrow> station_id \<Rightarrow> 'addr \<Rightarrow> 'addr option \<times> ('sock, 'addr) udp_station" where
  "udp_register_station u s a =
     (case book_register (us_stations u) (us_addr_to_station u) s a of
        (old_addr, stations, addrs) \<Rightarrow> (old_addr, u\<lparr>us_stations := stations, us_addr_to_station := addrs\<rparr>))"

definition udp_unregister_station ::
  "('sock, 'addr) udp_station \<Rightarrow> station_id \<Rightarrow> 'addr option \<times> ('sock, 'addr) udp_station" where
  "udp_unregister_station u s =
     (case book_unregister (us_stations u) (us_addr_to_station u) s of
        (old_addr, stations, addrs) \<Rightarrow> (old_addr, u\<lparr>us_stations := stations, us_addr_to_station := addrs\<rparr>))"

definition udp_station_addr :: "('sock, 'addr) udp_station \<Rightarrow> station_id \<Rightarrow> 'addr option" where
  "udp_station_addr u s = fmlookup (us_stations u) s"

definition udp_station_for_addr :: "('sock, 'addr) udp_station \<Rightarrow> 'addr \<Rightarrow> station_id option" where
  "udp_station_for_addr u a = fmlookup (us_addr_to_station u) a"

definition udp_station_set_buffer :: "('sock, 'addr) udp_station \<Rightarrow> usize \<Rightarrow> ('sock, 'addr) udp_station" where
  "udp_station_set_buffer u n = u\<lparr>us_recv_buffer := resize_buffer (us_recv_buffer u) n\<rparr>"

definition udp_try_recv_station ::
  "('sock, 'addr, 'io) socket_ops \<Rightarrow> ('sock, 'addr) udp_station \<Rightarrow> station_id \<Rightarrow>
   ((('addr, 'io) udp_station_error + station_inbound_packet option) \<times> ('sock, 'addr) udp_station) option" where
  "udp_try_recv_station ops u target =
     (if target \<noteq> us_local_station u then Some (Err (TargetStationMismatch (us_local_station u) target), u)
      else (case sk_recv_from ops (us_socket u) (us_recv_buffer u) of (r, buffer, sock) \<Rightarrow>
        let u1 = u\<lparr>us_socket := sock, us_recv_buffer := buffer\<rparr> in
        case r of
          Inr (len, remote) \<Rightarrow>
            (case fmlookup (us_addr_to_station u1) remote of
               None \<Rightarrow> Some (Err (UnknownRemote remote), u1)
             | Some source \<Rightarrow>
                 if len > length buffer then None
                 else (let st = us_stats u1 in
                   Some (Ok (Some \<lparr>si_source_station = source, si_target_station = us_local_station u,
                                   si_bytes = take len buffer\<rparr>),
                         u1\<lparr>us_stats := st\<lparr>us_packets_received := usize_add (us_packets_received st) 1,
                                           us_bytes_received := usize_add (us_bytes_received st) len\<rparr>\<rparr>)))
        | Inl e \<Rightarrow> if sk_would_block ops e then Some (Ok None, u1) else Some (Err (UdpStationIo e), u1)))"

definition udp_send_station ::
  "('sock, 'addr, 'io) socket_ops \<Rightarrow> ('sock, 'addr) udp_station \<Rightarrow> station_outbound_packet \<Rightarrow>
   (('addr, 'io) udp_station_error + unit) \<times> ('sock, 'addr) udp_station" where
  "udp_send_station ops u p =
     (if so_source_station p \<noteq> us_local_station u
      then (Err (LocalStationMismatch (us_local_station u) (so_source_station p)), u)
      else (case fmlookup (us_stations u) (so_target_station p) of
          None \<Rightarrow> (Err (UnknownStation (so_target_station p)), u)
        | Some addr \<Rightarrow>
            (case sk_send_to ops (us_socket u) (so_bytes p) addr of (r, sock) \<Rightarrow>
               let u1 = u\<lparr>us_socket := sock\<rparr>; st = us_stats u in
               case r of
                 Inl e \<Rightarrow> (Err (UdpStationIo e), u1)
               | Inr sent \<Rightarrow>
                   if sent \<noteq> length (so_bytes p) then (Err (UdpStationIo (sk_write_zero ops)), u1)
                   else (Ok (), u1\<lparr>us_stats := st\<lparr>us_packets_sent := usize_add (us_packets_sent st) 1,
                                                  us_bytes_sent := usize_add (us_bytes_sent st) (length (so_bytes p))\<rparr>\<rparr>))))"

section \<open>The client adapter\<close>

datatype 'io udp_error = UnknownClient client_id | UdpIo 'io

record ('sock, 'addr) udp_transport =
  ut_socket :: 'sock
  ut_clients :: "(client_id, 'addr) fmap"
  ut_addr_to_client :: "('addr, client_id) fmap"
  ut_recv_buffer :: bytes

definition udp_transport_new :: "'sock \<Rightarrow> ('sock, 'addr) udp_transport" where
  "udp_transport_new sock =
     \<lparr>ut_socket = sock, ut_clients = fmempty, ut_addr_to_client = fmempty,
      ut_recv_buffer = replicate DEFAULT_UDP_RECV_BUFFER_SIZE 0\<rparr>"

definition udp_register_client ::
  "('sock, 'addr) udp_transport \<Rightarrow> client_id \<Rightarrow> 'addr \<Rightarrow> 'addr option \<times> ('sock, 'addr) udp_transport" where
  "udp_register_client u c a =
     (case book_register (ut_clients u) (ut_addr_to_client u) c a of
        (old_addr, clients, addrs) \<Rightarrow> (old_addr, u\<lparr>ut_clients := clients, ut_addr_to_client := addrs\<rparr>))"

definition udp_unregister_client ::
  "('sock, 'addr) udp_transport \<Rightarrow> client_id \<Rightarrow> 'addr option \<times> ('sock, 'addr) udp_transport" where
  "udp_unregister_client u c =
     (case book_unregister (ut_clients u) (ut_addr_to_client u) c of
        (old_addr, clients, addrs) \<Rightarrow> (old_addr, u\<lparr>ut_clients := clients, ut_addr_to_client := addrs\<rparr>))"

definition udp_client_addr :: "('sock, 'addr) udp_transport \<Rightarrow> client_id \<Rightarrow> 'addr option" where
  "udp_client_addr u c = fmlookup (ut_clients u) c"

definition udp_client_for_addr :: "('sock, 'addr) udp_transport \<Rightarrow> 'addr \<Rightarrow> client_id option" where
  "udp_client_for_addr u a = fmlookup (ut_addr_to_client u) a"

definition udp_set_buffer :: "('sock, 'addr) udp_transport \<Rightarrow> usize \<Rightarrow> ('sock, 'addr) udp_transport" where
  "udp_set_buffer u n = u\<lparr>ut_recv_buffer := resize_buffer (ut_recv_buffer u) n\<rparr>"

text \<open>A datagram from an unregistered address is delivered without a client.\<close>

definition udp_try_recv ::
  "('sock, 'addr, 'io) socket_ops \<Rightarrow> ('sock, 'addr) udp_transport \<Rightarrow>
   (('io udp_error + 'addr inbound_packet option) \<times> ('sock, 'addr) udp_transport) option" where
  "udp_try_recv ops u =
     (case sk_recv_from ops (ut_socket u) (ut_recv_buffer u) of (r, buffer, sock) \<Rightarrow>
        let u1 = u\<lparr>ut_socket := sock, ut_recv_buffer := buffer\<rparr> in
        case r of
          Inr (len, remote) \<Rightarrow>
            if len > length buffer then None
            else Some (Ok (Some \<lparr>ip_client_id = fmlookup (ut_addr_to_client u1) remote, ip_remote_addr = remote,
                                 ip_bytes = take len buffer\<rparr>), u1)
        | Inl e \<Rightarrow> if sk_would_block ops e then Some (Ok None, u1) else Some (Err (UdpIo e), u1))"

definition udp_send ::
  "('sock, 'addr, 'io) socket_ops \<Rightarrow> ('sock, 'addr) udp_transport \<Rightarrow> outbound_packet \<Rightarrow>
   ('io udp_error + unit) \<times> ('sock, 'addr) udp_transport" where
  "udp_send ops u p =
     (case fmlookup (ut_clients u) (op_client_id p) of
        None \<Rightarrow> (Err (UnknownClient (op_client_id p)), u)
      | Some addr \<Rightarrow>
          (case sk_send_to ops (ut_socket u) (op_bytes p) addr of (r, sock) \<Rightarrow>
             let u1 = u\<lparr>ut_socket := sock\<rparr> in
             case r of
               Inl e \<Rightarrow> (Err (UdpIo e), u1)
             | Inr sent \<Rightarrow>
                 if sent = length (op_bytes p) then (Ok (), u1) else (Err (UdpIo (sk_write_zero ops)), u1)))"

section \<open>Both registries\<close>

lemma udp_station_books:
  "us_stations (snd (udp_register_station u s a)) = fst (snd (book_register (us_stations u) (us_addr_to_station u) s a))"
  "us_addr_to_station (snd (udp_register_station u s a)) = snd (snd (book_register (us_stations u) (us_addr_to_station u) s a))"
  "us_stations (snd (udp_unregister_station u s)) = fst (snd (book_unregister (us_stations u) (us_addr_to_station u) s))"
  "us_addr_to_station (snd (udp_unregister_station u s)) = snd (snd (book_unregister (us_stations u) (us_addr_to_station u) s))"
  by (simp_all add: udp_register_station_def udp_unregister_station_def split: prod.split)

lemma udp_client_books:
  "ut_clients (snd (udp_register_client u c a)) = fst (snd (book_register (ut_clients u) (ut_addr_to_client u) c a))"
  "ut_addr_to_client (snd (udp_register_client u c a)) = snd (snd (book_register (ut_clients u) (ut_addr_to_client u) c a))"
  "ut_clients (snd (udp_unregister_client u c)) = fst (snd (book_unregister (ut_clients u) (ut_addr_to_client u) c))"
  "ut_addr_to_client (snd (udp_unregister_client u c)) = snd (snd (book_unregister (ut_clients u) (ut_addr_to_client u) c))"
  by (simp_all add: udp_register_client_def udp_unregister_client_def split: prod.split)

interpretation udp_stations: address_registry udp_station_addr udp_station_for_addr
  "\<lambda>u s a. snd (udp_register_station u s a)" "\<lambda>u s. snd (udp_unregister_station u s)"
  "\<lambda>u. book_sound (us_stations u) (us_addr_to_station u)"
proof unfold_locales
  fix u :: "('sock, 'addr) udp_station" and s a
  assume u: "book_sound (us_stations u) (us_addr_to_station u)"
  show "udp_station_addr u s = Some a \<longleftrightarrow> udp_station_for_addr u a = Some s"
    using u by (simp add: udp_station_addr_def udp_station_for_addr_def book_sound_def)
  show "udp_station_addr (snd (udp_register_station u s a)) = rebind (udp_station_addr u) s a"
    "udp_station_addr (snd (udp_unregister_station u s)) = (udp_station_addr u)(s := None)"
    by (simp_all add: udp_station_addr_def [abs_def] udp_station_books book_register_fwd [OF u] book_unregister_fwd)
qed (simp_all add: udp_station_books book_register_sound book_unregister_sound)

interpretation udp_clients: address_registry udp_client_addr udp_client_for_addr
  "\<lambda>u c a. snd (udp_register_client u c a)" "\<lambda>u c. snd (udp_unregister_client u c)"
  "\<lambda>u. book_sound (ut_clients u) (ut_addr_to_client u)"
proof unfold_locales
  fix u :: "('sock, 'addr) udp_transport" and c a
  assume u: "book_sound (ut_clients u) (ut_addr_to_client u)"
  show "udp_client_addr u c = Some a \<longleftrightarrow> udp_client_for_addr u a = Some c"
    using u by (simp add: udp_client_addr_def udp_client_for_addr_def book_sound_def)
  show "udp_client_addr (snd (udp_register_client u c a)) = rebind (udp_client_addr u) c a"
    "udp_client_addr (snd (udp_unregister_client u c)) = (udp_client_addr u)(c := None)"
    by (simp_all add: udp_client_addr_def [abs_def] udp_client_books book_register_fwd [OF u] book_unregister_fwd)
qed (simp_all add: udp_client_books book_register_sound book_unregister_sound)

text \<open>A station never accepts a datagram as coming from a peer unless it came from the peer's address,
  and never panics on a socket that keeps its buffer's size and reports at most that many bytes.\<close>

definition socket_respects_buffer :: "('sock, 'addr, 'io) socket_ops \<Rightarrow> bool" where
  "socket_respects_buffer ops \<longleftrightarrow>
     (\<forall>sock buffer r buffer1 sock1 len addr.
        sk_recv_from ops sock buffer = (r, buffer1, sock1) \<longrightarrow>
          length buffer1 = length buffer \<and> (r = Inr (len, addr) \<longrightarrow> len \<le> length buffer))"

lemma udp_attribution:
  assumes "book_sound (us_stations u) (us_addr_to_station u)" "socket_respects_buffer ops"
  shows "\<exists>r u1. udp_try_recv_station ops u target = Some (r, u1) \<and>
    (\<forall>p. r = Ok (Some p) \<longrightarrow> si_target_station p = us_local_station u \<and>
       (\<exists>len addr buffer sock. sk_recv_from ops (us_socket u) (us_recv_buffer u) = (Inr (len, addr), buffer, sock) \<and>
          udp_station_addr u (si_source_station p) = Some addr \<and> si_bytes p = take len buffer))"
proof -
  obtain r buffer sock where x: "sk_recv_from ops (us_socket u) (us_recv_buffer u) = (r, buffer, sock)"
    by (cases "sk_recv_from ops (us_socket u) (us_recv_buffer u)")
  have "length buffer = length (us_recv_buffer u)" "r = Inr (len, addr) \<Longrightarrow> len \<le> length buffer" for len addr
    using assms(2) x unfolding socket_respects_buffer_def by metis+
  then show ?thesis using assms(1) x
    by (auto simp: udp_try_recv_station_def Let_def udp_station_addr_def dest: book_soundD
        split: sum.splits option.splits prod.splits)
qed

end
