(* ===== verification/Keyed_Vec.thy ===== *)
theory Keyed_Vec
  imports Sync_Prelude
begin

text \<open>
  An insertion-ordered vector with a lookup by key that is linear while the vector is short and goes
  through a position index once it has reached a threshold. The runtime crate has this structure
  twice, for stations (\<open>StationSet\<close>) and for station-local cell indexes (\<open>StationIndexSet\<close>); the key of
  an element is a parameter here. Positions are bounds-checked the way the code is: an index out of
  range panics, which is \<open>None\<close>, and the lemmas show that it never happens.
\<close>

record ('a, 'k) keyed_vec =
  kv_items :: "'a list"
  kv_positions :: "('k, usize) fmap"

definition STATION_LOOKUP_INDEX_THRESHOLD :: usize where
  "STATION_LOOKUP_INDEX_THRESHOLD = 64"

definition kv_empty :: "('a, 'k) keyed_vec" where
  "kv_empty = \<lparr>kv_items = [], kv_positions = fmempty\<rparr>"

fun first_position :: "('a \<Rightarrow> 'k) \<Rightarrow> 'a list \<Rightarrow> 'k \<Rightarrow> usize option" where
  "first_position key [] k = None"
| "first_position key (x # xs) k = (if key x = k then Some 0 else map_option Suc (first_position key xs k))"

definition or_insert :: "'k \<Rightarrow> 'v \<Rightarrow> ('k, 'v) fmap \<Rightarrow> ('k, 'v) fmap" where
  "or_insert k v m = (case fmlookup m k of None \<Rightarrow> fmupd k v m | Some _ \<Rightarrow> m)"

fun fill_positions :: "('a \<Rightarrow> 'k) \<Rightarrow> usize \<Rightarrow> 'a list \<Rightarrow> ('k, usize) fmap \<Rightarrow> ('k, usize) fmap" where
  "fill_positions key n [] m = m"
| "fill_positions key n (x # xs) m = fill_positions key (Suc n) xs (or_insert (key x) n m)"

definition kv_position :: "('a \<Rightarrow> 'k) \<Rightarrow> ('a, 'k) keyed_vec \<Rightarrow> 'k \<Rightarrow> usize option" where
  "kv_position key v k =
     (if map_len (kv_positions v) = 0 then first_position key (kv_items v) k else fmlookup (kv_positions v) k)"

definition kv_activate :: "('a \<Rightarrow> 'k) \<Rightarrow> ('a, 'k) keyed_vec \<Rightarrow> usize \<Rightarrow> ('a, 'k) keyed_vec" where
  "kv_activate key v new_len =
     (if new_len < STATION_LOOKUP_INDEX_THRESHOLD \<or> map_len (kv_positions v) \<noteq> 0 then v
      else v\<lparr>kv_positions := fill_positions key 0 (kv_items v) (kv_positions v)\<rparr>)"

definition kv_rebuild :: "('a \<Rightarrow> 'k) \<Rightarrow> ('a, 'k) keyed_vec \<Rightarrow> ('a, 'k) keyed_vec" where
  "kv_rebuild key v =
     (if map_len (kv_positions v) = 0 then v
      else v\<lparr>kv_positions := fill_positions key 0 (kv_items v) fmempty\<rparr>)"

definition kv_push :: "('a \<Rightarrow> 'k) \<Rightarrow> ('a, 'k) keyed_vec \<Rightarrow> 'a \<Rightarrow> ('a, 'k) keyed_vec" where
  "kv_push key v x =
     (let v1 = kv_activate key v (usize_add (length (kv_items v)) 1);
          positions = (if map_len (kv_positions v1) \<noteq> 0
                       then or_insert (key x) (length (kv_items v1)) (kv_positions v1)
                       else kv_positions v1)
      in \<lparr>kv_items = kv_items v1 @ [x], kv_positions = positions\<rparr>)"

text \<open>Writing over the element of a key, or appending a new one.\<close>

definition kv_insert :: "('a \<Rightarrow> 'k) \<Rightarrow> ('a, 'k) keyed_vec \<Rightarrow> 'a \<Rightarrow> ('a, 'k) keyed_vec option" where
  "kv_insert key v x =
     (case kv_position key v (key x) of
        Some i \<Rightarrow> if i < length (kv_items v) then Some (v\<lparr>kv_items := (kv_items v)[i := x]\<rparr>) else None
      | None \<Rightarrow>
          (let v1 = kv_activate key v (usize_add (length (kv_items v)) 1);
               positions = (if map_len (kv_positions v1) \<noteq> 0
                            then fmupd (key x) (length (kv_items v1)) (kv_positions v1)
                            else kv_positions v1)
           in Some \<lparr>kv_items = kv_items v1 @ [x], kv_positions = positions\<rparr>))"

definition kv_remove :: "('a \<Rightarrow> 'k) \<Rightarrow> ('a, 'k) keyed_vec \<Rightarrow> 'k \<Rightarrow> ('a option \<times> ('a, 'k) keyed_vec) option" where
  "kv_remove key v k =
     (case kv_position key v k of
        None \<Rightarrow> Some (None, v)
      | Some i \<Rightarrow>
          if i < length (kv_items v)
          then Some (Some (kv_items v ! i),
                     kv_rebuild key (v\<lparr>kv_items := take i (kv_items v) @ drop (Suc i) (kv_items v)\<rparr>))
          else None)"

definition kv_get :: "('a \<Rightarrow> 'k) \<Rightarrow> ('a, 'k) keyed_vec \<Rightarrow> 'k \<Rightarrow> 'a option" where
  "kv_get key v k = (case kv_position key v k of None \<Rightarrow> None | Some i \<Rightarrow> vec_get (kv_items v) i)"

text \<open>An assignment through \<open>get_mut\<close>.\<close>

definition kv_write :: "('a \<Rightarrow> 'k) \<Rightarrow> ('a, 'k) keyed_vec \<Rightarrow> 'k \<Rightarrow> 'a \<Rightarrow> ('a, 'k) keyed_vec" where
  "kv_write key v k x =
     (case kv_position key v k of
        Some i \<Rightarrow> v\<lparr>kv_items := (kv_items v)[i := x]\<rparr>
      | None \<Rightarrow> v)"

text \<open>Splitting the vector at the larger position; equal positions would panic.\<close>

definition split_pair :: "'a list \<Rightarrow> usize \<Rightarrow> usize \<Rightarrow> ('a \<times> 'a) option" where
  "split_pair xs i j =
     (if i < j then (if j < length xs then Some (xs ! i, xs ! j) else None)
      else (if i < length xs \<and> j < i then Some (xs ! i, xs ! j) else None))"

definition kv_get_pair :: "('a \<Rightarrow> 'k) \<Rightarrow> ('a, 'k) keyed_vec \<Rightarrow> 'k \<Rightarrow> 'k \<Rightarrow> ('a \<times> 'a) option option" where
  "kv_get_pair key v l r =
     (if l = r then Some None
      else (case kv_position key v l of
          None \<Rightarrow> Some None
        | Some i \<Rightarrow>
            (case kv_position key v r of
               None \<Rightarrow> Some None
             | Some j \<Rightarrow> map_option Some (split_pair (kv_items v) i j))))"

section \<open>The index agrees with the scan\<close>

definition kv_sound :: "('a \<Rightarrow> 'k) \<Rightarrow> ('a, 'k) keyed_vec \<Rightarrow> bool" where
  "kv_sound key v \<longleftrightarrow>
     kv_positions v = fmempty \<or> fmlookup (kv_positions v) = first_position key (kv_items v)"

lemma first_position_Some:
  "first_position key xs k = Some i \<Longrightarrow> i < length xs \<and> key (xs ! i) = k \<and> find (\<lambda>x. key x = k) xs = Some (xs ! i)"
  by (induction xs arbitrary: i) (auto split: if_splits)

lemma first_position_None: "first_position key xs k = None \<longleftrightarrow> k \<notin> key ` set xs"
  by (induction xs) auto

lemma first_position_append:
  "first_position key (xs @ [x]) k =
     (case first_position key xs k of Some i \<Rightarrow> Some i | None \<Rightarrow> if key x = k then Some (length xs) else None)"
  by (induction xs) (auto split: option.splits)

lemma first_position_update:
  "first_position key xs (key x) = Some i \<Longrightarrow> first_position key (xs[i := x]) = first_position key xs"
  by (induction xs arbitrary: i) (auto split: if_splits nat.splits simp: fun_eq_iff)

lemma or_insert_lookup:
  "fmlookup (or_insert k v m) j = (if j = k \<and> fmlookup m k = None then Some v else fmlookup m j)"
  by (auto simp: or_insert_def split: option.splits)

lemma fill_positions_lookup:
  "fmlookup (fill_positions key n xs m) k =
     (case fmlookup m k of Some i \<Rightarrow> Some i | None \<Rightarrow> map_option ((+) n) (first_position key xs k))"
proof (induction xs arbitrary: n m)
  case (Cons x xs)
  show ?case
    by (cases "first_position key xs k") (auto simp: Cons.IH or_insert_lookup split: option.splits)
qed (simp split: option.splits)

lemma fill_positions_new: "fmlookup (fill_positions key 0 xs fmempty) = first_position key xs"
proof
  fix k
  show "fmlookup (fill_positions key 0 xs fmempty) k = first_position key xs k"
    by (cases "first_position key xs k") (simp_all add: fill_positions_lookup)
qed

lemma fmdom_empty_iff: "fmdom m = {||} \<longleftrightarrow> m = fmempty"
proof
  assume "fmdom m = {||}"
  then show "m = fmempty" by (intro fmap_ext) (metis fempty_iff fmdom_notD fmlookup_dom_iff fmempty_lookup)
qed simp

lemma kv_position_first: "kv_sound key v \<Longrightarrow> kv_position key v k = first_position key (kv_items v) k"
  by (auto simp: kv_sound_def kv_position_def fmdom_empty_iff)

lemma kv_empty_sound [simp]: "kv_sound key kv_empty" "kv_items kv_empty = []"
  by (simp_all add: kv_sound_def kv_empty_def)

lemma kv_activate_sound:
  assumes "kv_sound key v"
  shows "kv_sound key (kv_activate key v n)" "kv_items (kv_activate key v n) = kv_items v"
  using assms by (auto simp: kv_activate_def kv_sound_def fmdom_empty_iff fill_positions_new)

lemma kv_push_sound:
  assumes "kv_sound key v"
  shows "kv_sound key (kv_push key v x)" "kv_items (kv_push key v x) = kv_items v @ [x]"
  using kv_activate_sound [OF assms, of "usize_add (length (kv_items v)) 1"]
  by (auto simp: kv_push_def Let_def kv_sound_def fmdom_empty_iff or_insert_lookup first_position_append
      fun_eq_iff split: option.splits)

lemma kv_insert_sound:
  assumes s: "kv_sound key v"
  shows "\<exists>v'. kv_insert key v x = Some v' \<and> kv_sound key v' \<and>
    kv_items v' = (case first_position key (kv_items v) (key x) of
        Some i \<Rightarrow> (kv_items v)[i := x] | None \<Rightarrow> kv_items v @ [x])"
proof (cases "first_position key (kv_items v) (key x)")
  case (Some i)
  then show ?thesis using s first_position_Some [OF Some] first_position_update [OF Some]
    by (auto simp: kv_insert_def kv_position_first [OF s] kv_sound_def)
next
  case None
  show ?thesis
    using kv_activate_sound [OF s, of "usize_add (length (kv_items v)) 1"] None
    by (auto simp: kv_insert_def kv_position_first [OF s] Let_def kv_sound_def fmdom_empty_iff
        first_position_append fun_eq_iff split: option.splits)
qed

fun remove_first :: "('a \<Rightarrow> 'k) \<Rightarrow> 'a list \<Rightarrow> 'k \<Rightarrow> 'a list" where
  "remove_first key [] k = []"
| "remove_first key (x # xs) k = (if key x = k then xs else x # remove_first key xs k)"

lemma remove_first_position:
  "first_position key xs k = Some i \<Longrightarrow> take i xs @ drop (Suc i) xs = remove_first key xs k"
  by (induction xs arbitrary: i) (auto split: if_splits)

lemma remove_first_absent: "k \<notin> key ` set xs \<Longrightarrow> remove_first key xs k = xs"
  by (induction xs) auto

lemma kv_remove_sound:
  assumes s: "kv_sound key v"
  shows "\<exists>v'. kv_remove key v k = Some (kv_get key v k, v') \<and> kv_sound key v' \<and>
    kv_items v' = remove_first key (kv_items v) k"
proof (cases "first_position key (kv_items v) k")
  case (Some i)
  then show ?thesis using s first_position_Some [OF Some] remove_first_position [OF Some]
    by (auto simp: kv_remove_def kv_get_def vec_get_def kv_position_first [OF s] kv_rebuild_def kv_sound_def
        fmdom_empty_iff fill_positions_new)
next
  case None
  then have "remove_first key (kv_items v) k = kv_items v"
    by (simp add: remove_first_absent first_position_None)
  then show ?thesis using s None by (simp add: kv_remove_def kv_get_def kv_position_first)
qed

lemma kv_write_sound:
  assumes s: "kv_sound key v"
  shows "kv_sound key (kv_write key v (key x) x)"
    "length (kv_items (kv_write key v (key x) x)) = length (kv_items v)"
    "map key (kv_items (kv_write key v (key x) x)) = map key (kv_items v)"
proof -
  show "kv_sound key (kv_write key v (key x) x)"
    using s first_position_update [of key "kv_items v" x]
    by (auto simp: kv_write_def kv_position_first kv_sound_def split: option.splits)
  show "length (kv_items (kv_write key v (key x) x)) = length (kv_items v)"
    by (simp add: kv_write_def split: option.splits)
  show "map key (kv_items (kv_write key v (key x) x)) = map key (kv_items v)"
    using first_position_Some [of key "kv_items v" "key x"]
    by (auto simp: kv_write_def kv_position_first [OF s] map_update list_update_id [symmetric] split: option.splits)
      (metis list_update_id map_update)
qed

lemma first_position_find: "find (\<lambda>x. key x = k) xs = map_option (\<lambda>i. xs ! i) (first_position key xs k)"
  by (induction xs) (auto simp: option.map_comp comp_def)

lemma kv_get_find: "kv_sound key v \<Longrightarrow> kv_get key v k = find (\<lambda>x. key x = k) (kv_items v)"
  using first_position_Some [of key "kv_items v" k]
  by (cases "first_position key (kv_items v) k")
    (auto simp: kv_get_def kv_position_first vec_get_def first_position_find)

lemma find_write:
  "find (\<lambda>y. key y = k) xs = Some y \<Longrightarrow> first_position key xs (key x) = Some i \<Longrightarrow>
   find (\<lambda>y. key y = k) (xs[i := x]) = (if k = key x then Some x else Some y)"
  by (induction xs arbitrary: i) (auto split: if_splits)

section \<open>The contract\<close>

text \<open>What a lookup by key promises to its clients, whichever way it searches. Several elements may
  have the same key; the first one answers.\<close>

locale keyed_lookup =
  fixes sound :: "'s \<Rightarrow> bool" and items :: "'s \<Rightarrow> 'a list" and key :: "'a \<Rightarrow> 'k"
    and get :: "'s \<Rightarrow> 'k \<Rightarrow> 'a option" and store :: "'s \<Rightarrow> 'k \<Rightarrow> 'a \<Rightarrow> 's"
    and pair :: "'s \<Rightarrow> 'k \<Rightarrow> 'k \<Rightarrow> ('a \<times> 'a) option option"
  assumes get_first: "sound v \<Longrightarrow> get v k = find (\<lambda>x. key x = k) (items v)"
    and write_sound: "sound v \<Longrightarrow> sound (store v (key x) x)"
    and write_get: "sound v \<Longrightarrow> get v (key x) \<noteq> None \<Longrightarrow> get (store v (key x) x) = (get v)(key x \<mapsto> x)"
    and write_keys: "sound v \<Longrightarrow> map key (items (store v (key x) x)) = map key (items v)"
    and pair_get: "sound v \<Longrightarrow> pair v l r =
      Some (if l = r then None else case (get v l, get v r) of (Some a, Some b) \<Rightarrow> Some (a, b) | _ \<Rightarrow> None)"
begin

lemma get_key: "sound v \<Longrightarrow> get v k = Some x \<Longrightarrow> key x = k \<and> x \<in> set (items v)"
  by (auto simp: get_first find_Some_iff)

lemma get_present: "sound v \<Longrightarrow> get v k \<noteq> None \<longleftrightarrow> k \<in> key ` set (items v)"
  by (force simp: get_first find_None_iff)

text \<open>Replacing the elements of two keys, one after the other, is a double update.\<close>

lemma write_two:
  assumes "sound v" "get v a = Some x" "get v b = Some y" "a \<noteq> b" "key x' = a" "key y' = b"
  shows "sound (store (store v a x') b y')"
    "get (store (store v a x') b y') = (get v)(a \<mapsto> x', b \<mapsto> y')"
    "map key (items (store (store v a x') b y')) = map key (items v)"
proof -
  have 1: "sound (store v a x')" "get (store v a x') = (get v)(a \<mapsto> x')"
    "map key (items (store v a x')) = map key (items v)"
    using write_sound [of v x'] write_get [of v x'] write_keys [of v x'] assms by simp_all
  then show "sound (store (store v a x') b y')"
    "get (store (store v a x') b y') = (get v)(a \<mapsto> x', b \<mapsto> y')"
    "map key (items (store (store v a x') b y')) = map key (items v)"
    using write_sound [OF 1(1), of y'] write_get [OF 1(1), of y'] write_keys [OF 1(1), of y'] assms by simp_all
qed

end

lemma split_pair_distinct:
  "i < length xs \<Longrightarrow> j < length xs \<Longrightarrow> i \<noteq> j \<Longrightarrow> split_pair xs i j = Some (xs ! i, xs ! j)"
  by (auto simp: split_pair_def)

interpretation kv: keyed_lookup "kv_sound key" kv_items key "kv_get key" "kv_write key" "kv_get_pair key"
  for key :: "'a \<Rightarrow> 'k"
proof unfold_locales
  fix v :: "('a, 'k) keyed_vec" and k x l r
  assume s: "kv_sound key v"
  show "kv_get key v k = find (\<lambda>x. key x = k) (kv_items v)" by (rule kv_get_find [OF s])
  show "kv_sound key (kv_write key v (key x) x)" by (rule kv_write_sound(1) [OF s])
  show "map key (kv_items (kv_write key v (key x) x)) = map key (kv_items v)" by (rule kv_write_sound(3) [OF s])
  show "kv_get key (kv_write key v (key x) x) = (kv_get key v)(key x \<mapsto> x)" if present: "kv_get key v (key x) \<noteq> None"
  proof
    fix k
    obtain i where i: "first_position key (kv_items v) (key x) = Some i"
      using present by (cases "first_position key (kv_items v) (key x)") (simp_all add: kv_get_def kv_position_first [OF s])
    note p = first_position_Some [OF i]
    have w: "kv_write key v (key x) x = v\<lparr>kv_items := (kv_items v)[i := x]\<rparr>"
      by (simp add: kv_write_def kv_position_first [OF s] i)
    have sw: "kv_sound key (v\<lparr>kv_items := (kv_items v)[i := x]\<rparr>)" using kv_write_sound(1) [OF s, of x] w by simp
    have "find (\<lambda>y. key y = k) ((kv_items v)[i := x]) =
        (if k = key x then Some x else find (\<lambda>y. key y = k) (kv_items v))"
    proof (cases "first_position key (kv_items v) k")
      case None
      then show ?thesis using p i first_position_update [OF i]
        by (cases "k = key x") (simp_all add: first_position_find)
    next
      case (Some j)
      then show ?thesis using i find_write [of key k "kv_items v" "kv_items v ! j" x i]
        by (simp add: first_position_find)
    qed
    then show "kv_get key (kv_write key v (key x) x) k = ((kv_get key v)(key x \<mapsto> x)) k"
      unfolding w by (simp add: kv_get_find [OF s] kv_get_find [OF sw])
  qed
  show "kv_get_pair key v l r =
    Some (if l = r then None else case (kv_get key v l, kv_get key v r) of (Some a, Some b) \<Rightarrow> Some (a, b) | _ \<Rightarrow> None)"
    using first_position_Some [of key "kv_items v" l] first_position_Some [of key "kv_items v" r]
    by (cases "first_position key (kv_items v) l"; cases "first_position key (kv_items v) r")
      (auto simp: kv_get_pair_def kv_get_def kv_position_first [OF s] vec_get_def intro!: split_pair_distinct)
qed

lemma kv_push_get:
  "kv_sound key v \<Longrightarrow>
   kv_get key (kv_push key v x) k = (if kv_get key v k = None \<and> key x = k then Some x else kv_get key v k)"
  using kv_push_sound [of key v x] first_position_Some [of key "kv_items v" k]
  by (cases "first_position key (kv_items v) k")
    (auto simp: kv_get_find first_position_find first_position_append nth_append dest: first_position_Some)

end
