(* ===== verification/Station_Set.thy ===== *)
theory Station_Set
  imports Keyed_Vec Station Cell_Index
begin

text \<open>
  The two ordered collections of the runtime crate (\<open>sectorsync-runtime/src/lib.rs\<close>): the stations of
  a process and their spatial indexes, both vectors with a keyed lookup.
\<close>

definition station_key :: "station \<Rightarrow> station_id" where
  "station_key s = cfg_station_id (st_config s)"

type_synonym station_set = "(station, station_id) keyed_vec"

definition station_set_new :: station_set where
  "station_set_new = kv_empty"

definition station_set_push :: "station_set \<Rightarrow> station \<Rightarrow> station_set" where
  "station_set_push = kv_push station_key"

definition station_set_remove :: "station_set \<Rightarrow> station_id \<Rightarrow> (station option \<times> station_set) option" where
  "station_set_remove = kv_remove station_key"

definition station_set_get :: "station_set \<Rightarrow> station_id \<Rightarrow> station option" where
  "station_set_get = kv_get station_key"

text \<open>An assignment through \<open>get_mut\<close>, which keeps the station's configuration.\<close>

definition station_set_write :: "station_set \<Rightarrow> station_id \<Rightarrow> station \<Rightarrow> station_set" where
  "station_set_write = kv_write station_key"

definition station_set_get_pair :: "station_set \<Rightarrow> station_id \<Rightarrow> station_id \<Rightarrow> (station \<times> station) option option" where
  "station_set_get_pair = kv_get_pair station_key"

definition station_set_iter :: "station_set \<Rightarrow> station list" where
  "station_set_iter = kv_items"

definition station_set_len :: "station_set \<Rightarrow> usize" where
  "station_set_len ss = length (kv_items ss)"

definition lookup_index_active :: "station_set \<Rightarrow> bool" where
  "lookup_index_active ss \<longleftrightarrow> map_len (kv_positions ss) \<noteq> 0"

fun in_scope :: "barrier_scope \<Rightarrow> station \<Rightarrow> bool" where
  "in_scope (ScopeInstance i) s \<longleftrightarrow> cfg_instance_id (st_config s) = i"
| "in_scope (ScopeStation k) s \<longleftrightarrow> cfg_station_id (st_config s) = k"

definition station_ids_in_scope :: "station_set \<Rightarrow> barrier_scope \<Rightarrow> station_id list" where
  "station_ids_in_scope ss scope = map station_key (filter (in_scope scope) (kv_items ss))"

type_synonym station_index_set = "(station_id \<times> cell_index, station_id) keyed_vec"

definition index_set_new :: station_index_set where
  "index_set_new = kv_empty"

definition index_set_insert :: "station_index_set \<Rightarrow> station_id \<Rightarrow> cell_index \<Rightarrow> station_index_set option" where
  "index_set_insert xs k ix = kv_insert fst xs (k, ix)"

definition index_set_remove :: "station_index_set \<Rightarrow> station_id \<Rightarrow> (cell_index option \<times> station_index_set) option" where
  "index_set_remove xs k = map_option (\<lambda>(removed, ys). (map_option snd removed, ys)) (kv_remove fst xs k)"

definition index_set_get :: "station_index_set \<Rightarrow> station_id \<Rightarrow> cell_index option" where
  "index_set_get xs k = map_option snd (kv_get fst xs k)"

definition index_set_write :: "station_index_set \<Rightarrow> station_id \<Rightarrow> cell_index \<Rightarrow> station_index_set" where
  "index_set_write xs k ix = kv_write fst xs k (k, ix)"

definition index_set_get_pair ::
  "station_index_set \<Rightarrow> station_id \<Rightarrow> station_id \<Rightarrow> (cell_index \<times> cell_index) option option" where
  "index_set_get_pair xs l r = map_option (map_option (map_prod snd snd)) (kv_get_pair fst xs l r)"

definition index_set_iter :: "station_index_set \<Rightarrow> (station_id \<times> cell_index) list" where
  "index_set_iter = kv_items"

section \<open>Sets of coherent stations\<close>

definition set_sound :: "station_set \<Rightarrow> bool" where
  "set_sound ss \<longleftrightarrow> kv_sound station_key ss \<and> (\<forall>s \<in> set (kv_items ss). station_wf s)"

interpretation stations: keyed_lookup "kv_sound station_key" kv_items station_key station_set_get station_set_write
  station_set_get_pair
  unfolding station_set_get_def station_set_write_def station_set_get_pair_def by unfold_locales

interpretation indexes: keyed_lookup "kv_sound fst" kv_items fst "kv_get fst :: station_index_set \<Rightarrow> _"
  "kv_write fst" "kv_get_pair fst"
  by unfold_locales

lemma set_sound_get: "set_sound ss \<Longrightarrow> station_set_get ss k = Some s \<Longrightarrow> station_wf s \<and> station_key s = k"
  using stations.get_key by (auto simp: set_sound_def)

lemma set_sound_new: "set_sound station_set_new"
  by (simp add: set_sound_def station_set_new_def)

lemma set_sound_push: "set_sound ss \<Longrightarrow> station_wf s \<Longrightarrow> set_sound (station_set_push ss s)"
  by (simp add: set_sound_def station_set_push_def kv_push_sound)

lemma set_remove_first: "set (remove_first key xs k) \<subseteq> set xs"
  by (induction xs) auto

lemma set_sound_remove:
  assumes ss: "set_sound ss"
  shows "\<exists>ss'. station_set_remove ss k = Some (station_set_get ss k, ss') \<and> set_sound ss'"
proof -
  obtain ss' where "kv_remove station_key ss k = Some (kv_get station_key ss k, ss')" "kv_sound station_key ss'"
    "kv_items ss' = remove_first station_key (kv_items ss) k"
    using kv_remove_sound [of station_key ss k] ss by (auto simp: set_sound_def)
  moreover have "set (remove_first station_key (kv_items ss) k) \<subseteq> set (kv_items ss)" by (rule set_remove_first)
  ultimately show ?thesis using ss
    by (auto simp: set_sound_def station_set_remove_def station_set_get_def)
qed

lemma set_kv_write: "set (kv_items (kv_write key v k x)) \<subseteq> insert x (set (kv_items v))"
  by (auto simp: kv_write_def dest: set_update_subset_insert [THEN subsetD] split: option.splits)

lemma set_sound_write:
  "set_sound ss \<Longrightarrow> station_wf s \<Longrightarrow> set_sound (station_set_write ss (station_key s) s)"
  using set_kv_write [of station_key ss "station_key s" s] stations.write_sound [of ss s]
  by (auto simp: set_sound_def station_set_write_def)

end
