(* ===== verification/Migration.thy ===== *)
theory Migration
  imports Station_Set
begin

text \<open>
  Moving entities between the stations of a process: the migration of one entity, the ownership table
  of cells and the migration of whole cells. A migration drives the hand-off protocol of
  \<open>Station\<close> on both sides.
\<close>

record migration_report =
  mr_transfer :: handoff_transfer
  mr_source_ghost :: entity_handle
  mr_target_owner :: entity_handle

datatype migration_error =
    SameSourceAndTarget station_id
  | MissingSource station_id
  | MissingTargetStation station_id
  | MigrationStation station_error

definition put_pair :: "station_set \<Rightarrow> station_id \<Rightarrow> station \<Rightarrow> station_id \<Rightarrow> station \<Rightarrow> station_set" where
  "put_pair ss a source b target = station_set_write (station_set_write ss a source) b target"

definition migrate_entity ::
  "station_set \<Rightarrow> entity_id \<Rightarrow> station_id \<Rightarrow> station_id \<Rightarrow> u64 \<Rightarrow>
   ((migration_error + migration_report) \<times> station_set) option" where
  "migrate_entity ss i a b ttl =
     (if a = b then Some (Err (SameSourceAndTarget a), ss)
      else if station_set_get ss a = None then Some (Err (MissingSource a), ss)
      else if station_set_get ss b = None then Some (Err (MissingTargetStation b), ss)
      else (case station_set_get_pair ss a b of
          Some (Some (source, target)) \<Rightarrow>
            (case next_owner_epoch target of (target_epoch, target1) \<Rightarrow>
             case prepare_outgoing_handoff source i b target_epoch (sat_add (st_tick source) ttl) of
               Inl e \<Rightarrow> Some (Err (MigrationStation e), put_pair ss a source b target1)
             | Inr transfer \<Rightarrow>
                 (case prewarm_handoff_ghost target1 transfer of
                    None \<Rightarrow> None
                  | Some (Inl e, target2) \<Rightarrow> Some (Err (MigrationStation e), put_pair ss a source b target2)
                  | Some (Inr _, target2) \<Rightarrow>
                      (case commit_incoming_handoff target2 transfer of
                         None \<Rightarrow> None
                       | Some (Inl e, target3) \<Rightarrow> Some (Err (MigrationStation e), put_pair ss a source b target3)
                       | Some (Inr target_owner, target3) \<Rightarrow>
                           (case commit_outgoing_handoff source transfer of
                              (Inl e, source1) \<Rightarrow> Some (Err (MigrationStation e), put_pair ss a source1 b target3)
                            | (Inr source_ghost, source1) \<Rightarrow>
                                Some (Ok \<lparr>mr_transfer = transfer, mr_source_ghost = source_ghost,
                                          mr_target_owner = target_owner\<rparr>,
                                      put_pair ss a source1 b target3)))))
        | _ \<Rightarrow> None))"

section \<open>What a migration does\<close>

text \<open>The records of all stations, by station and entity identifier.\<close>

definition entity_view :: "station_set \<Rightarrow> station_id \<Rightarrow> entity_id \<Rightarrow> entity_record option" where
  "entity_view ss k = (case station_set_get ss k of None \<Rightarrow> (\<lambda>i. None) | Some s \<Rightarrow> station_get_by_id s)"

definition owned_by :: "entity_record \<Rightarrow> entity_handle \<Rightarrow> owner_epoch \<Rightarrow> entity_record" where
  "owned_by r h e = r\<lparr>er_handle := h, er_role := Owned e, er_dirty := dirty_insert (er_dirty r) DIRTY_TRANSFORM\<rparr>"

definition ghost_of :: "entity_record \<Rightarrow> station_id \<Rightarrow> owner_epoch \<Rightarrow> tick \<Rightarrow> entity_record" where
  "ghost_of r k e x = r\<lparr>er_role := Ghost k e x, er_dirty := dirty_insert (er_dirty r) DIRTY_TRANSFORM\<rparr>"

lemma owned_by_sel [simp]:
  "record_is_owned (owned_by r h e)" "er_id (owned_by r h e) = er_id r" "er_handle (owned_by r h e) = h"
  by (simp_all add: owned_by_def record_is_owned_def)

lemma ghost_of_sel [simp]:
  "\<not> record_is_owned (ghost_of r k e x)" "er_id (ghost_of r k e x) = er_id r" "er_handle (ghost_of r k e x) = er_handle r"
  by (simp_all add: ghost_of_def record_is_owned_def)

lemma upsert_ghost_view:
  assumes wf: "station_wf s" and up: "upsert_ghost s i p b pol w e x = Some (h, s')"
  shows "station_wf s'" "st_config s' = st_config s"
    "\<exists>g. station_get_by_id s' = (station_get_by_id s)(i \<mapsto> g) \<and> \<not> record_is_owned g"
proof -
  show "station_wf s'" by (rule station_effect_wf [OF upsert_ghost_effect [OF wf up] wf])
  have "st_config s' = st_config s \<and> (\<exists>g. station_get_by_id s' = (station_get_by_id s)(i \<mapsto> g) \<and> \<not> record_is_owned g)"
  proof (cases "fmlookup (st_by_id s) i")
    case None
    then have new: "insert_new s (\<lambda>h. record_ghost i h p b pol w e x) = Some (h, s')"
      using up by (simp add: upsert_ghost_insert)
    have ins: "inserted s h (record_ghost i h p b pol w e x) s'"
      by (rule insert_new_cases [OF wf _ None new]) simp
    have "station_get_by_id s' = (station_get_by_id s)(i \<mapsto> record_ghost i h p b pol w e x)"
      using inserted_get_by_id [OF wf ins] by (simp add: fun_eq_iff)
    then show ?thesis using ins by (auto simp: inserted_def)
  next
    case (Some k)
    then obtain r where r: "station_get s k = Some r" "er_id r = i" "er_handle r = k" by (rule station_wf_lookup [OF wf])
    let ?g = "r\<lparr>er_position := p, er_bounds := b, er_policy_id := pol, er_role := Ghost w e x,
        er_dirty := dirty_insert (er_dirty r) DIRTY_TRANSFORM\<rparr>"
    have s': "s' = station_put s k ?g" using up Some r by (auto simp: upsert_ghost_def)
    have "station_get_by_id s' = (station_get_by_id s)(i \<mapsto> ?g)"
      using station_get_by_id_put [OF wf r(1), of ?g] r s' by (simp add: fun_eq_iff)
    then show ?thesis using s' by (auto simp: record_is_owned_def)
  qed
  then show "st_config s' = st_config s"
    "\<exists>g. station_get_by_id s' = (station_get_by_id s)(i \<mapsto> g) \<and> \<not> record_is_owned g" by blast+
qed

lemma commit_over_ghost:
  assumes wf: "station_wf s" and target: "ht_target_station t = cfg_station_id (st_config s)"
    and ok: "transfer_ok t" and g: "station_get_by_id s (ht_entity_id t) = Some g" "\<not> record_is_owned g"
  obtains s' where "commit_incoming_handoff s t = Some (Ok (er_handle g), s')" "station_wf s'"
    "st_config s' = st_config s"
    "station_get_by_id s' = (station_get_by_id s)(ht_entity_id t \<mapsto>
       owned_by (ht_entity t) (er_handle g) (ht_target_owner_epoch t))"
proof -
  note r = station_wf_by_id [OF wf g(1)]
  let ?s' = "(station_put s (er_handle g) (committed_record t (er_handle g)))\<lparr>st_owner_epoch := ht_target_owner_epoch t\<rparr>"
  have c: "commit_incoming_handoff s t = Some (Ok (er_handle g), ?s')"
    using target r g(2) by (simp add: commit_incoming_handoff_def)
  show thesis
  proof (rule that [OF c])
    show "station_wf ?s'" by (rule station_effect_wf [OF commit_incoming_effect [OF wf ok c] wf])
    show "station_get_by_id ?s' = (station_get_by_id s)(ht_entity_id t \<mapsto>
        owned_by (ht_entity t) (er_handle g) (ht_target_owner_epoch t))"
      using station_get_by_id_put [OF wf r(2), of "committed_record t (er_handle g)"] r(3) ok
      by (simp add: fun_eq_iff transfer_ok_def owned_by_def committed_record_def)
  qed simp
qed

lemma put_pair_view:
  assumes ss: "set_sound ss" and a: "station_set_get ss a = Some sa" and b: "station_set_get ss b = Some sb"
    and ab: "a \<noteq> b" and wf: "station_wf sa'" "station_wf sb'" and cfg: "st_config sa' = st_config sa" "st_config sb' = st_config sb"
  shows "set_sound (put_pair ss a sa' b sb')"
    "station_set_get (put_pair ss a sa' b sb') = (station_set_get ss)(a \<mapsto> sa', b \<mapsto> sb')"
    "entity_view (put_pair ss a sa' b sb') =
       (entity_view ss)(a := station_get_by_id sa', b := station_get_by_id sb')"
    "map station_key (kv_items (put_pair ss a sa' b sb')) = map station_key (kv_items ss)"
proof -
  have s: "kv_sound station_key ss" using ss by (simp add: set_sound_def)
  have k: "station_key sa' = a" "station_key sb' = b"
    using set_sound_get [OF ss a] set_sound_get [OF ss b] cfg by (simp_all add: station_key_def)
  note w = stations.write_two [OF s a b ab k]
  show "station_set_get (put_pair ss a sa' b sb') = (station_set_get ss)(a \<mapsto> sa', b \<mapsto> sb')"
    "map station_key (kv_items (put_pair ss a sa' b sb')) = map station_key (kv_items ss)"
    by (simp_all add: put_pair_def w)
  then show "entity_view (put_pair ss a sa' b sb') =
       (entity_view ss)(a := station_get_by_id sa', b := station_get_by_id sb')"
    by (auto simp: entity_view_def fun_eq_iff)
  have "set_sound (station_set_write ss a sa')" using set_sound_write [OF ss wf(1)] k(1) by simp
  from set_sound_write [OF this wf(2)] show "set_sound (put_pair ss a sa' b sb')"
    by (simp add: put_pair_def k(2))
qed

text \<open>Once the transfer is prepared and the ghost is in place, nothing can fail.\<close>

lemma migrate_entity_commit:
  assumes ss: "set_sound ss" and ab: "a \<noteq> b" and a: "station_set_get ss a = Some sa" and b: "station_set_get ss b = Some sb"
    and ne: "next_owner_epoch sb = (ep, sb1)"
    and prep: "prepare_outgoing_handoff sa i b ep (sat_add (st_tick sa) ttl) = Inr t"
    and pre: "prewarm_handoff_ghost sb1 t = Some (y, sb2)"
  shows "\<exists>rep ss' r e x. migrate_entity ss i a b ttl = Some (Ok rep, ss') \<and> set_sound ss' \<and>
      map station_key (kv_items ss') = map station_key (kv_items ss) \<and>
      entity_view ss a i = Some r \<and> record_is_owned r \<and>
      ht_entity_id (mr_transfer rep) = i \<and> mr_source_ghost rep = er_handle r \<and>
      station_set_get ss' a \<noteq> None \<and> station_set_get ss' b \<noteq> None \<and>
      entity_view ss' = (entity_view ss)
        (a := (entity_view ss a)(i \<mapsto> ghost_of r b e x),
         b := (entity_view ss b)(i \<mapsto> owned_by r (mr_target_owner rep) e))"
proof -
  have s: "kv_sound station_key ss" using ss by (simp add: set_sound_def)
  have wfa: "station_wf sa" "station_key sa = a" and wfb: "station_wf sb" "station_key sb = b"
    using set_sound_get [OF ss] a b by auto
  have pair: "station_set_get_pair ss a b = Some (Some (sa, sb))"
    using stations.pair_get [OF s, of a b] ab a b by simp
  have sb1: "station_wf sb1" "st_config sb1 = st_config sb" "station_get_by_id sb1 = station_get_by_id sb"
    using ne wfb(1) by (auto simp: next_owner_epoch_def Let_def)
  have va: "entity_view ss a = station_get_by_id sa" "entity_view ss b = station_get_by_id sb"
    by (simp_all add: entity_view_def a b)
  obtain r where r: "station_get_by_id sa i = Some r" "record_is_owned r"
    and t: "ht_entity_id t = i" "ht_entity t = r" "ht_target_station t = b" "ht_source_station t = a"
      "ht_target_owner_epoch t = ep"
    using prep wfa(2) by (auto simp: prepare_Ok_iff station_key_def)
  have tok: "transfer_ok t" by (rule prepare_transfer_ok [OF wfa(1) prep])
  have tgt: "ht_target_station t = cfg_station_id (st_config sb1)"
    using t(3) wfb(2) sb1(2) by (simp add: station_key_def)
  obtain hg where up: "upsert_ghost sb1 (ht_entity_id t) (er_position (ht_entity t)) (er_bounds (ht_entity t))
      (er_policy_id (ht_entity t)) (ht_source_station t) (ht_source_owner_epoch t) (ht_source_ghost_expires_at t) = Some (hg, sb2)"
    and pw: "prewarm_handoff_ghost sb1 t = Some (Ok hg, sb2)"
    using pre tgt by (auto simp: prewarm_handoff_ghost_def split: option.splits prod.splits)
  obtain g where sb2: "station_wf sb2" "st_config sb2 = st_config sb"
    "station_get_by_id sb2 = (station_get_by_id sb)(i \<mapsto> g)" "\<not> record_is_owned g"
    using upsert_ghost_view [OF sb1(1) up] sb1(2,3) t(1) by auto
  obtain sb3 where sb3: "commit_incoming_handoff sb2 t = Some (Ok (er_handle g), sb3)" "station_wf sb3"
    "st_config sb3 = st_config sb"
    "station_get_by_id sb3 = (station_get_by_id sb)(i \<mapsto> owned_by r (er_handle g) ep)"
  proof (rule commit_over_ghost [OF sb2(1) _ tok])
    show "ht_target_station t = cfg_station_id (st_config sb2)" using tgt sb1(2) sb2(2) by simp
    show "station_get_by_id sb2 (ht_entity_id t) = Some g" using sb2(3) t(1) by simp
  qed (use sb2 t in auto)
  have src: "ht_source_station t = cfg_station_id (st_config sa)" using t(4) wfa(2) by (simp add: station_key_def)
  have ra: "station_get_by_id sa (ht_entity_id t) = Some r" using r(1) t(1) by simp
  let ?g = "ghost_of r b ep (ht_source_ghost_expires_at t)"
  let ?rep = "\<lparr>mr_transfer = t, mr_source_ghost = er_handle r, mr_target_owner = er_handle g\<rparr>"
  let ?ss = "put_pair ss a (station_put sa (er_handle r) ?g) b sb3"
  have out: "commit_outgoing_handoff sa t = (Ok (er_handle r), station_put sa (er_handle r) ?g)"
    and put: "station_get_by_id (station_put sa (er_handle r) ?g) = (station_get_by_id sa)(i \<mapsto> ?g)"
    using commit_outgoing_commits [OF wfa(1) src ra r(2)] t by (simp_all add: ghost_of_def)
  have wfa': "station_wf (station_put sa (er_handle r) ?g)"
    using station_put_wf [OF wfa(1) station_wf_by_id(2) [OF wfa(1) r(1)], of ?g] by simp
  have res: "migrate_entity ss i a b ttl = Some (Ok ?rep, ?ss)"
    using ab a b pair ne prep pw sb3(1) out by (simp add: migrate_entity_def)
  have cfg: "st_config (station_put sa (er_handle r) ?g) = st_config sa" by simp
  note v = put_pair_view [OF ss a b ab wfa' sb3(2) cfg sb3(3)]
  have view: "entity_view ?ss = (entity_view ss)(a := (entity_view ss a)(i \<mapsto> ?g),
      b := (entity_view ss b)(i \<mapsto> owned_by r (er_handle g) ep))"
    by (simp only: v(3) va put sb3(4))
  have both: "station_set_get ?ss a \<noteq> None" "station_set_get ?ss b \<noteq> None" by (simp_all add: v(2))
  show ?thesis
    using v(1,4) res view both r t(1) va(1)
    by (intro exI [of _ ?rep] exI [of _ ?ss] exI [of _ r] exI [of _ ep] exI [of _ "ht_source_ghost_expires_at t"]) simp
qed

text \<open>Every outcome of a migration: a refusal changes no record of any station, and a success moves the
  record to the target as its owner and leaves a ghost; it never fails half way.\<close>

lemma migrate_entity_result:
  assumes ss: "set_sound ss" and m: "migrate_entity ss i a b ttl = Some (res, ss')"
  shows "set_sound ss' \<and> map station_key (kv_items ss') = map station_key (kv_items ss) \<and>
    (case res of Inl e \<Rightarrow> entity_view ss' = entity_view ss
     | Inr rep \<Rightarrow> a \<noteq> b \<and> (\<exists>r e x. entity_view ss a i = Some r \<and> record_is_owned r \<and>
      ht_entity_id (mr_transfer rep) = i \<and> mr_source_ghost rep = er_handle r \<and>
      station_set_get ss' a \<noteq> None \<and> station_set_get ss' b \<noteq> None \<and>
      entity_view ss' = (entity_view ss)
        (a := (entity_view ss a)(i \<mapsto> ghost_of r b e x),
         b := (entity_view ss b)(i \<mapsto> owned_by r (mr_target_owner rep) e))))"
proof (cases "a = b \<or> station_set_get ss a = None \<or> station_set_get ss b = None")
  case True
  then show ?thesis using m ss by (auto simp: migrate_entity_def split: if_splits)
next
  case False
  then obtain sa sb where ab: "a \<noteq> b" and a: "station_set_get ss a = Some sa" and b: "station_set_get ss b = Some sb"
    by auto
  have s: "kv_sound station_key ss" using ss by (simp add: set_sound_def)
  have pair: "station_set_get_pair ss a b = Some (Some (sa, sb))"
    using stations.pair_get [OF s, of a b] ab a b by simp
  obtain ep sb1 where ne: "next_owner_epoch sb = (ep, sb1)" by (cases "next_owner_epoch sb")
  show ?thesis
  proof (cases "prepare_outgoing_handoff sa i b ep (sat_add (st_tick sa) ttl)")
    case (Inl err)
    have sb1: "station_wf sb1" "st_config sb1 = st_config sb" "station_get_by_id sb1 = station_get_by_id sb"
      using ne set_sound_get [OF ss b] by (auto simp: next_owner_epoch_def Let_def)
    have "res = Err (MigrationStation err)" "ss' = put_pair ss a sa b sb1"
      using m ab a b pair ne Inl by (simp_all add: migrate_entity_def)
    moreover have "entity_view ss a = station_get_by_id sa" "entity_view ss b = station_get_by_id sb"
      by (simp_all add: entity_view_def a b)
    ultimately show ?thesis
      using put_pair_view [OF ss a b ab _ sb1(1) refl sb1(2)] set_sound_get [OF ss a] sb1(3) by (simp add: fun_upd_idem)
  next
    case (Inr t)
    have "prewarm_handoff_ghost sb1 t \<noteq> None"
      using m ab a b pair ne Inr by (cases "prewarm_handoff_ghost sb1 t") (simp_all add: migrate_entity_def)
    then obtain y sb2 where "prewarm_handoff_ghost sb1 t = Some (y, sb2)" by auto
    from migrate_entity_commit [OF ss ab a b ne Inr this] ab m show ?thesis
      by (auto simp del: fun_upd_apply) (rule exI, rule exI, rule refl)
  qed
qed

text \<open>With a free slot at the target, the migration of an owned entity succeeds.\<close>

lemma upsert_ghost_room:
  assumes wf: "station_wf s" and room: "station_has_room s"
  shows "upsert_ghost s i p b pol w e x \<noteq> None"
proof (cases "fmlookup (st_by_id s) i")
  case None
  obtain h s' where "insert_new s (\<lambda>h. record_ghost i h p b pol w e x) = Some (h, s')"
    by (rule insert_new_inserted [OF wf room _ None, of "\<lambda>h. record_ghost i h p b pol w e x"]) simp
  then show ?thesis using None by (simp add: upsert_ghost_insert)
next
  case (Some k)
  then show ?thesis by (simp add: upsert_ghost_def split: option.split)
qed

lemma migrate_entity_succeeds:
  assumes ss: "set_sound ss" and ab: "a \<noteq> b" and a: "station_set_get ss a = Some sa"
    and b: "station_set_get ss b = Some sb" and room: "station_has_room sb"
    and r: "entity_view ss a i = Some r" "record_is_owned r"
  shows "\<exists>rep ss'. migrate_entity ss i a b ttl = Some (Ok rep, ss')"
proof -
  have wfa: "station_wf sa" "station_key sa = a" and wfb: "station_wf sb" "station_key sb = b"
    using set_sound_get [OF ss] a b by auto
  obtain ep sb1 where ne: "next_owner_epoch sb = (ep, sb1)" by (cases "next_owner_epoch sb")
  have sb1: "station_wf sb1" "station_has_room sb1" "st_config sb1 = st_config sb"
    using ne wfb(1) room by (auto simp: next_owner_epoch_def Let_def station_has_room_def)
  have "\<exists>t. prepare_outgoing_handoff sa i b ep (sat_add (st_tick sa) ttl) = Ok t"
    using r ab a wfa(2) by (simp add: prepare_Ok_iff entity_view_def station_key_def)
  then obtain t where t: "prepare_outgoing_handoff sa i b ep (sat_add (st_tick sa) ttl) = Ok t" by blast
  have "ht_target_station t = cfg_station_id (st_config sb1)"
    using t wfb(2) sb1(3) by (auto simp: prepare_Ok_iff station_key_def)
  then have "prewarm_handoff_ghost sb1 t \<noteq> None"
    using upsert_ghost_room [OF sb1(1,2)] by (simp add: prewarm_handoff_ghost_def split: option.splits prod.splits)
  then obtain y sb2 where "prewarm_handoff_ghost sb1 t = Some (y, sb2)" by auto
  from migrate_entity_commit [OF ss ab a b ne t this] show ?thesis by blast
qed


text \<open>An owned entity is never refused: a migration between present stations either succeeds or panics
  for want of a slot.\<close>

lemma migrate_owned_not_refused:
  assumes ss: "set_sound ss" and ab: "a \<noteq> b" and a: "station_set_get ss a = Some sa" and b: "station_set_get ss b = Some sb"
    and r: "entity_view ss a i = Some r" "record_is_owned r"
    and m: "migrate_entity ss i a b ttl = Some (res, ss')"
  shows "\<exists>rep. res = Inr rep"
proof -
  have s: "kv_sound station_key ss" using ss by (simp add: set_sound_def)
  have pair: "station_set_get_pair ss a b = Some (Some (sa, sb))"
    using stations.pair_get [OF s, of a b] ab a b by simp
  have key: "station_key sa = a" using set_sound_get [OF ss a] by blast
  obtain ep sb1 where ne: "next_owner_epoch sb = (ep, sb1)" by (cases "next_owner_epoch sb")
  have "\<exists>t. prepare_outgoing_handoff sa i b ep (sat_add (st_tick sa) ttl) = Ok t"
    using r ab a key by (simp add: prepare_Ok_iff entity_view_def station_key_def)
  then obtain t where t: "prepare_outgoing_handoff sa i b ep (sat_add (st_tick sa) ttl) = Ok t" by blast
  have "prewarm_handoff_ghost sb1 t \<noteq> None"
    using m ab a b pair ne t by (cases "prewarm_handoff_ghost sb1 t") (simp_all add: migrate_entity_def)
  then obtain y sb2 where "prewarm_handoff_ghost sb1 t = Some (y, sb2)" by auto
  from migrate_entity_commit [OF ss ab a b ne t this] m show ?thesis by auto
qed

section \<open>Authority is conserved\<close>

text \<open>Every entity is owned by at most one station. What an owner holds of it, apart from the handle, the
  role and the dirty mask, is its payload.\<close>

definition sole_owners :: "station_set \<Rightarrow> bool" where
  "sole_owners ss \<longleftrightarrow> (\<forall>i k k' r r'. entity_view ss k i = Some r \<and> record_is_owned r \<and>
     entity_view ss k' i = Some r' \<and> record_is_owned r' \<longrightarrow> k = k')"

definition payload :: "entity_record \<Rightarrow> entity_id \<times> position3 \<times> bounds \<times> policy_id \<times> entity_tags" where
  "payload r = (er_id r, er_position r, er_bounds r, er_policy_id r, er_tags r)"

definition owned_payloads :: "station_set \<Rightarrow> entity_id \<Rightarrow> (entity_id \<times> position3 \<times> bounds \<times> policy_id \<times> entity_tags) set" where
  "owned_payloads ss i = {payload r |r k. entity_view ss k i = Some r \<and> record_is_owned r}"

lemma payload_roles [simp]: "payload (owned_by r h e) = payload r" "payload (ghost_of r k e x) = payload r"
  by (simp_all add: payload_def owned_by_def ghost_of_def)

lemma migrated_owners:
  assumes sole: "sole_owners ss" and ab: "a \<noteq> b" and r: "entity_view ss a i = Some r" "record_is_owned r"
    and v: "entity_view ss' = (entity_view ss)
      (a := (entity_view ss a)(i \<mapsto> ghost_of r b e x), b := (entity_view ss b)(i \<mapsto> owned_by r h e))"
  shows "entity_view ss' k j = Some q \<and> record_is_owned q \<longleftrightarrow>
    (if j = i then k = b \<and> q = owned_by r h e else entity_view ss k j = Some q \<and> record_is_owned q)"
proof -
  have "entity_view ss k i = Some q \<Longrightarrow> record_is_owned q \<Longrightarrow> k = a"
    using sole r unfolding sole_owners_def by blast
  then show ?thesis using ab r by (auto simp: v split: if_splits)
qed

lemma migrate_entity_conserves:
  assumes ss: "set_sound ss" and sole: "sole_owners ss" and m: "migrate_entity ss i a b ttl = Some (res, ss')"
  shows "set_sound ss' \<and> sole_owners ss' \<and> owned_payloads ss' = owned_payloads ss"
proof (cases res)
  case (Inl e)
  then have "entity_view ss' = entity_view ss" using migrate_entity_result [OF ss m] by simp
  then show ?thesis using migrate_entity_result [OF ss m] sole by (simp add: sole_owners_def owned_payloads_def [abs_def])
next
  case (Inr rep)
  then obtain r e x where ab: "a \<noteq> b" and r: "entity_view ss a i = Some r" "record_is_owned r"
    and v: "entity_view ss' = (entity_view ss)(a := (entity_view ss a)(i \<mapsto> ghost_of r b e x),
         b := (entity_view ss b)(i \<mapsto> owned_by r (mr_target_owner rep) e))"
    using migrate_entity_result [OF ss m] by (auto simp del: fun_upd_apply)
  note own = migrated_owners [OF sole ab r v]
  have "sole_owners ss'" unfolding sole_owners_def
  proof (intro allI impI)
    fix j k k' q q'
    assume "entity_view ss' k j = Some q \<and> record_is_owned q \<and> entity_view ss' k' j = Some q' \<and> record_is_owned q'"
    then show "k = k'" using own [of k j q] own [of k' j q'] sole unfolding sole_owners_def
      by (cases "j = i") (simp_all, blast)
  qed
  moreover have "owned_payloads ss' j = owned_payloads ss j" for j
  proof (cases "j = i")
    case True
    have "owned_payloads ss' i = {payload r}" using own [of _ i] by (auto simp: owned_payloads_def)
    moreover have "owned_payloads ss i = {payload r}"
      using r sole by (auto simp: owned_payloads_def sole_owners_def) (metis option.inject)
    ultimately show ?thesis by (simp add: True)
  next
    case False
    then show ?thesis using own [of _ j] by (auto simp: owned_payloads_def)
  qed
  ultimately show ?thesis using migrate_entity_result [OF ss m] by blast
qed

text \<open>A sequence of migration requests, each with its entity, source, target and ghost lifetime.\<close>

fun migrate_all :: "station_set \<Rightarrow> (entity_id \<times> station_id \<times> station_id \<times> u64) list \<Rightarrow> station_set option" where
  "migrate_all ss [] = Some ss"
| "migrate_all ss ((i, a, b, ttl) # reqs) =
     (case migrate_entity ss i a b ttl of None \<Rightarrow> None | Some (res, ss1) \<Rightarrow> migrate_all ss1 reqs)"

text \<open>Authority over entities is conserved. Whatever migrations are requested among the stations of
  a process, refused ones included, every entity that was owned is owned afterwards by exactly one
  station and with the same identifier, position, bounds, policy and tags, and no entity becomes
  owned that was not.\<close>

theorem authority_conserved:
  assumes "set_sound ss" and "sole_owners ss" and "migrate_all ss reqs = Some ss'"
  shows "set_sound ss' \<and> sole_owners ss' \<and> (\<forall>i. owned_payloads ss' i = owned_payloads ss i)"
  using assms
proof (induction reqs arbitrary: ss)
  case (Cons req reqs)
  obtain i a b ttl where req: "req = (i, a, b, ttl)" by (cases req)
  then obtain res ss1 where m: "migrate_entity ss i a b ttl = Some (res, ss1)" and rest: "migrate_all ss1 reqs = Some ss'"
    using Cons.prems(3) by (auto split: option.splits)
  show ?case
    using Cons.IH [OF _ _ rest] migrate_entity_conserves [OF Cons.prems(1,2) m] by simp
qed simp

definition demo_stations :: station_set where
  "demo_stations = station_set_push (station_set_push station_set_new (demo_station 1 9)) (demo_station 2 8)"

lemma demo_stations_sound: "set_sound demo_stations"
  by (simp add: demo_stations_def set_sound_push set_sound_new)

lemma demo_stations_get:
  "station_set_get demo_stations k =
     (if k = 1 then Some (demo_station 1 9) else if k = 2 then Some (demo_station 2 8) else None)"
  using stations.get_first [of demo_stations k] demo_stations_sound
  by (simp add: set_sound_def demo_stations_def station_set_push_def station_set_new_def kv_push_sound
      station_key_def demo_config_def)

lemma demo_stations_view:
  "entity_view demo_stations k i =
     (if k = 1 \<and> i = 9 then Some (record_owned 9 (EntityHandle 0 0) demo_position BPoint 3 0)
      else if k = 2 \<and> i = 8 then Some (record_owned 8 (EntityHandle 0 0) demo_position BPoint 3 0) else None)"
  by (simp add: entity_view_def demo_stations_get)
    (auto simp: demo_station_def station_get_by_id_def station_get_def vec_get_def)

lemma demo_stations_sole: "sole_owners demo_stations"
  by (auto simp: sole_owners_def demo_stations_view split: if_splits)

lemma authority_conserved_witness:
  "\<exists>ss'. migrate_all demo_stations [(9, 1, 2, 5)] = Some ss' \<and> sole_owners ss' \<and>
     owned_payloads ss' 9 = owned_payloads demo_stations 9"
proof -
  have "station_has_room (demo_station 2 8)" by (simp add: station_has_room_def demo_station_def)
  then obtain rep ss1 where m: "migrate_entity demo_stations 9 1 2 5 = Some (Ok rep, ss1)"
    using migrate_entity_succeeds [OF demo_stations_sound, of 1 2 "demo_station 1 9" "demo_station 2 8" 9 _ 5]
    by (auto simp: demo_stations_get demo_stations_view)
  have "migrate_all demo_stations [(9, 1, 2, 5)] = Some ss1" by (simp add: m)
  from authority_conserved [OF demo_stations_sound demo_stations_sole this] this show ?thesis by blast
qed

end
