(* ===== verification/Cell_Migration.thy ===== *)
theory Cell_Migration
  imports Migration Hotspot
begin

text \<open>
  The ownership table of cells and the migration of whole cells between two stations: the handles that
  the source's spatial index lists in the cells are resolved, the owned ones migrate one by one, and
  both indexes are updated. Outputs written through references (the report, the update) are results.
\<close>

section \<open>The ownership table\<close>

type_synonym cell_ownership = "(cell_coord3, station_id) fmap"

record ownership_update =
  ou_source_station :: station_id
  ou_target_station :: station_id
  ou_moved_cells :: "cell_coord3 list"

definition assign_cell :: "cell_ownership \<Rightarrow> cell_coord3 \<Rightarrow> station_id \<Rightarrow> station_id option \<times> cell_ownership" where
  "assign_cell t c s = (fmlookup t c, fmupd c s t)"

definition owner_of_cell :: "cell_ownership \<Rightarrow> cell_coord3 \<Rightarrow> station_id option" where
  "owner_of_cell t c = fmlookup t c"

fun assign_cells :: "station_id \<Rightarrow> cell_coord3 list \<Rightarrow> cell_coord3 list \<Rightarrow> cell_ownership \<Rightarrow> cell_coord3 list \<times> cell_ownership" where
  "assign_cells target [] moved t = (moved, t)"
| "assign_cells target (c # cs) moved t =
     (case assign_cell t c target of (previous, t1) \<Rightarrow>
        assign_cells target cs (if previous \<noteq> Some target then moved @ [c] else moved) t1)"

definition apply_split :: "cell_ownership \<Rightarrow> split_proposal \<Rightarrow> station_id \<Rightarrow> ownership_update \<times> cell_ownership" where
  "apply_split t prop_cells target =
     (case assign_cells target (sp_cells_to_move prop_cells) [] t of (moved, t1) \<Rightarrow>
        (\<lparr>ou_source_station = sp_source_station prop_cells, ou_target_station = target, ou_moved_cells = moved\<rparr>, t1))"

lemma assign_cells_lookup:
  "fmlookup (snd (assign_cells target cs moved t)) c = (if c \<in> set cs then Some target else fmlookup t c)"
  by (induction cs arbitrary: moved t) (auto simp: assign_cell_def)


section \<open>The migration of cells\<close>

record cell_migration_report =
  cr_source_station :: station_id
  cr_target_station :: station_id
  cr_scanned_cells :: "cell_coord3 list"
  cr_entity_migrations :: "migration_report list"
  cr_skipped_missing_handles :: usize
  cr_skipped_non_owned :: usize
  cr_skipped_duplicate_entities :: usize

datatype cell_migration_error =
    CellEntity migration_error
  | MissingTargetRecord entity_id
  | MissingSourceRecord entity_id

text \<open>The scan: the handles seen so far, the entities to migrate and the counters of the report.\<close>

record cell_scan =
  cs_seen_handles :: "entity_handle list"
  cs_entity_ids :: "entity_id list"
  cs_report :: cell_migration_report

fun scan_handles :: "station \<Rightarrow> entity_handle list \<Rightarrow> cell_scan \<Rightarrow> cell_scan" where
  "scan_handles source [] sc = sc"
| "scan_handles source (h # hs) sc =
     (let rep = cs_report sc in
      if h \<in> set (cs_seen_handles sc)
      then scan_handles source hs
        (sc\<lparr>cs_report := rep\<lparr>cr_skipped_duplicate_entities := cr_skipped_duplicate_entities rep + 1\<rparr>\<rparr>)
      else
        (let sc = sc\<lparr>cs_seen_handles := h # cs_seen_handles sc\<rparr> in
         case station_get source h of
           None \<Rightarrow> scan_handles source hs
             (sc\<lparr>cs_report := rep\<lparr>cr_skipped_missing_handles := cr_skipped_missing_handles rep + 1\<rparr>\<rparr>)
         | Some r \<Rightarrow>
             if record_is_owned r then scan_handles source hs (sc\<lparr>cs_entity_ids := cs_entity_ids sc @ [er_id r]\<rparr>)
             else scan_handles source hs
               (sc\<lparr>cs_report := rep\<lparr>cr_skipped_non_owned := cr_skipped_non_owned rep + 1\<rparr>\<rparr>)))"

fun scan_cells :: "station \<Rightarrow> cell_index \<Rightarrow> cell_coord3 list \<Rightarrow> cell_scan \<Rightarrow> cell_scan" where
  "scan_cells source ix [] sc = sc"
| "scan_cells source ix (c # cs) sc = scan_cells source ix cs (scan_handles source (handles_in_cell ix c) sc)"

definition index_upsert :: "cell_index \<Rightarrow> entity_handle \<Rightarrow> position3 \<Rightarrow> bounds \<Rightarrow> cell_index" where
  "index_upsert ix h p b = snd (upsert_tracked ix h p b)"

text \<open>What the migration changes: the stations, the indexes of source and target, and the report.\<close>

record cell_world =
  cw_stations :: station_set
  cw_source_index :: cell_index
  cw_target_index :: cell_index
  cw_report :: cell_migration_report

definition migrate_one ::
  "station_id \<Rightarrow> station_id \<Rightarrow> u64 \<Rightarrow> entity_id \<Rightarrow> cell_world \<Rightarrow> ((cell_migration_error + unit) \<times> cell_world) option" where
  "migrate_one a b ttl i w =
     (case migrate_entity (cw_stations w) i a b ttl of
        None \<Rightarrow> None
      | Some (Inl e, ss) \<Rightarrow> Some (Err (CellEntity e), w\<lparr>cw_stations := ss\<rparr>)
      | Some (Inr m, ss) \<Rightarrow>
          (let w = w\<lparr>cw_stations := ss\<rparr> in
           case station_set_get ss b of
             None \<Rightarrow> Some (Err (CellEntity (MissingTargetStation b)), w)
           | Some target \<Rightarrow>
               (case station_get target (mr_target_owner m) of
                  None \<Rightarrow> Some (Err (MissingTargetRecord i), w)
                | Some tr \<Rightarrow>
                    (let w = w\<lparr>cw_target_index := index_upsert (cw_target_index w) (mr_target_owner m)
                                  (er_position tr) (er_bounds tr)\<rparr> in
                     case station_set_get ss a of
                       None \<Rightarrow> Some (Err (CellEntity (MissingSource a)), w)
                     | Some source \<Rightarrow>
                         (case station_get source (mr_source_ghost m) of
                            None \<Rightarrow> Some (Err (MissingSourceRecord i), w)
                          | Some sr \<Rightarrow>
                              (let rep = cw_report w in
                               Some (Ok (), w\<lparr>cw_source_index := index_upsert (cw_source_index w) (mr_source_ghost m)
                                    (er_position sr) (er_bounds sr),
                                  cw_report := rep\<lparr>cr_entity_migrations := cr_entity_migrations rep @ [m]\<rparr>\<rparr>)))))))"

fun migrate_ids ::
  "station_id \<Rightarrow> station_id \<Rightarrow> u64 \<Rightarrow> entity_id list \<Rightarrow> entity_id list \<Rightarrow> cell_world \<Rightarrow>
   ((cell_migration_error + unit) \<times> cell_world) option" where
  "migrate_ids a b ttl seen [] w = Some (Ok (), w)"
| "migrate_ids a b ttl seen (i # is) w =
     (if i \<in> set seen
      then (let rep = cw_report w in migrate_ids a b ttl seen is
        (w\<lparr>cw_report := rep\<lparr>cr_skipped_duplicate_entities := cr_skipped_duplicate_entities rep + 1\<rparr>\<rparr>))
      else (case migrate_one a b ttl i w of
          None \<Rightarrow> None
        | Some (Inl e, w1) \<Rightarrow> Some (Err e, w1)
        | Some (Inr _, w1) \<Rightarrow> migrate_ids a b ttl (i # seen) is w1))"

definition empty_report :: "station_id \<Rightarrow> station_id \<Rightarrow> cell_coord3 list \<Rightarrow> cell_migration_report" where
  "empty_report a b cells =
     \<lparr>cr_source_station = a, cr_target_station = b, cr_scanned_cells = cells, cr_entity_migrations = [],
      cr_skipped_missing_handles = 0, cr_skipped_non_owned = 0, cr_skipped_duplicate_entities = 0\<rparr>"

definition migrate_cells_into ::
  "station_set \<Rightarrow> cell_index \<Rightarrow> cell_index \<Rightarrow> station_id \<Rightarrow> station_id \<Rightarrow> cell_coord3 list \<Rightarrow> u64 \<Rightarrow>
   ((cell_migration_error + unit) \<times> cell_world) option" where
  "migrate_cells_into ss source_index target_index a b cells ttl =
     (let rep = empty_report a b cells;
          w = \<lparr>cw_stations = ss, cw_source_index = source_index, cw_target_index = target_index, cw_report = rep\<rparr> in
      case station_set_get ss a of
        None \<Rightarrow> Some (Err (CellEntity (MissingSource a)), w)
      | Some source \<Rightarrow>
          (let sc = scan_cells source source_index cells \<lparr>cs_seen_handles = [], cs_entity_ids = [], cs_report = rep\<rparr> in
           migrate_ids a b ttl [] (cs_entity_ids sc) (w\<lparr>cw_report := cs_report sc\<rparr>)))"

definition migrate_cells ::
  "station_set \<Rightarrow> cell_index \<Rightarrow> cell_index \<Rightarrow> station_id \<Rightarrow> station_id \<Rightarrow> cell_coord3 list \<Rightarrow> u64 \<Rightarrow>
   ((cell_migration_error + cell_migration_report) \<times> cell_world) option" where
  "migrate_cells ss source_index target_index a b cells ttl =
     map_option (\<lambda>(r, w). (case r of Inl e \<Rightarrow> Err e | Inr _ \<Rightarrow> Ok (cw_report w), w))
       (migrate_cells_into ss source_index target_index a b cells ttl)"

section \<open>What the scan finds\<close>

fun owned_ids :: "station \<Rightarrow> entity_handle list \<Rightarrow> entity_id list" where
  "owned_ids s [] = []"
| "owned_ids s (h # hs) =
     (case station_get s h of
        None \<Rightarrow> owned_ids s hs
      | Some r \<Rightarrow> if record_is_owned r then er_id r # owned_ids s hs else owned_ids s hs)"

lemma owned_ids_iff:
  "i \<in> set (owned_ids s hs) \<longleftrightarrow> (\<exists>h r. h \<in> set hs \<and> station_get s h = Some r \<and> record_is_owned r \<and> er_id r = i)"
  by (induction hs) (auto split: option.splits)

definition indexed_handles :: "cell_index \<Rightarrow> cell_coord3 list \<Rightarrow> entity_handle list" where
  "indexed_handles ix cells = concat (map (handles_in_cell ix) cells)"

definition skipped_total :: "cell_migration_report \<Rightarrow> nat" where
  "skipped_total rep = cr_skipped_missing_handles rep + cr_skipped_non_owned rep + cr_skipped_duplicate_entities rep"

lemma scan_handles_append: "scan_handles s (xs @ ys) sc = scan_handles s ys (scan_handles s xs sc)"
  by (induction s xs sc rule: scan_handles.induct) (auto simp: Let_def split: option.split)

lemma scan_cells_handles: "scan_cells s ix cells sc = scan_handles s (indexed_handles ix cells) sc"
  by (induction cells arbitrary: sc) (simp_all add: indexed_handles_def scan_handles_append)

lemma skipped_total_steps [simp]:
  "skipped_total (rep\<lparr>cr_skipped_missing_handles := Suc (cr_skipped_missing_handles rep)\<rparr>) = Suc (skipped_total rep)"
  "skipped_total (rep\<lparr>cr_skipped_non_owned := Suc (cr_skipped_non_owned rep)\<rparr>) = Suc (skipped_total rep)"
  "skipped_total (rep\<lparr>cr_skipped_duplicate_entities := Suc (cr_skipped_duplicate_entities rep)\<rparr>) = Suc (skipped_total rep)"
  "skipped_total (rep\<lparr>cr_entity_migrations := ms\<rparr>) = skipped_total rep"
  by (simp_all add: skipped_total_def)

lemma scan_handles_result:
  "cs_entity_ids (scan_handles s hs sc) =
     cs_entity_ids sc @ owned_ids s (fresh_handles (set (cs_seen_handles sc)) hs) \<and>
   cr_entity_migrations (cs_report (scan_handles s hs sc)) = cr_entity_migrations (cs_report sc) \<and>
   skipped_total (cs_report (scan_handles s hs sc)) + length (owned_ids s (fresh_handles (set (cs_seen_handles sc)) hs)) =
     skipped_total (cs_report sc) + length hs"
proof (induction hs arbitrary: sc)
  case (Cons h hs)
  let ?rep = "cs_report sc" and ?sc = "sc\<lparr>cs_seen_handles := h # cs_seen_handles sc\<rparr>"
  note IH = Cons.IH [of "sc\<lparr>cs_report := ?rep\<lparr>cr_skipped_duplicate_entities := Suc (cr_skipped_duplicate_entities ?rep)\<rparr>\<rparr>"]
    Cons.IH [of "?sc\<lparr>cs_report := ?rep\<lparr>cr_skipped_missing_handles := Suc (cr_skipped_missing_handles ?rep)\<rparr>\<rparr>"]
    Cons.IH [of "?sc\<lparr>cs_report := ?rep\<lparr>cr_skipped_non_owned := Suc (cr_skipped_non_owned ?rep)\<rparr>\<rparr>"]
    Cons.IH [of "?sc\<lparr>cs_entity_ids := cs_entity_ids sc @ [i]\<rparr>" for i]
  show ?case
  proof (cases "h \<in> set (cs_seen_handles sc)")
    case True
    then show ?thesis using IH(1) by (simp add: Let_def)
  next
    case False
    show ?thesis
    proof (cases "station_get s h")
      case None
      then show ?thesis using False IH(2) by (simp add: Let_def)
    next
      case (Some r)
      then show ?thesis using False IH(3) IH(4) [of "er_id r"] by (simp add: Let_def)
    qed
  qed
qed simp

lemma owned_ids_distinct:
  assumes wf: "station_wf s" and "distinct hs"
  shows "distinct (owned_ids s hs)"
  using assms(2)
proof (induction hs)
  case (Cons h hs)
  have "er_id r \<notin> set (owned_ids s hs)" if r: "station_get s h = Some r" for r
  proof
    assume "er_id r \<in> set (owned_ids s hs)"
    then obtain k q where "k \<in> set hs" "station_get s k = Some q" "er_id q = er_id r"
      unfolding owned_ids_iff by blast
    then have "k = h" using station_wf_get [OF wf r] station_wf_get [OF wf, of k q] by simp
    then show False using Cons.prems \<open>k \<in> set hs\<close> by simp
  qed
  then show ?case using Cons by (auto split: option.splits)
qed simp

lemma owned_ids_mem:
  assumes wf: "station_wf s"
  shows "i \<in> set (owned_ids s hs) \<longleftrightarrow>
    (\<exists>r. station_get_by_id s i = Some r \<and> record_is_owned r \<and> er_handle r \<in> set hs)"
proof
  assume "i \<in> set (owned_ids s hs)"
  then obtain h r where "h \<in> set hs" "station_get s h = Some r" "record_is_owned r" "er_id r = i"
    unfolding owned_ids_iff by blast
  then show "\<exists>r. station_get_by_id s i = Some r \<and> record_is_owned r \<and> er_handle r \<in> set hs"
    using station_wf_get [OF wf, of h r] by (auto simp: station_get_by_id_def)
next
  assume "\<exists>r. station_get_by_id s i = Some r \<and> record_is_owned r \<and> er_handle r \<in> set hs"
  then show "i \<in> set (owned_ids s hs)"
    unfolding owned_ids_iff using station_wf_by_id [OF wf] by blast
qed

section \<open>Indexes that agree with their station\<close>

definition index_faithful :: "station_set \<Rightarrow> station_id \<Rightarrow> cell_index \<Rightarrow> bool" where
  "index_faithful ss k ix \<longleftrightarrow> index_wf ix \<and>
     (\<forall>i r. entity_view ss k i = Some r \<longrightarrow>
        index_members ix (er_handle r) = set (cells_for_bounds (ci_grid ix) (er_position r) (er_bounds r)))"

lemma index_upsert_members:
  assumes "index_wf ix"
  shows "index_wf (index_upsert ix h p b)" "ci_grid (index_upsert ix h p b) = ci_grid ix"
    "index_members (index_upsert ix h p b) k =
       (if k = h then set (cells_for_bounds (ci_grid ix) p b) else index_members ix k)"
proof -
  obtain rep ix' sc' where up: "upsert_with_scratch ix h p b \<lparr>us_cells = []\<rparr> = (rep, ix', sc')"
    by (metis prod_cases3)
  then have "index_upsert ix h p b = ix'" by (simp add: index_upsert_def upsert_tracked_def)
  then show "index_wf (index_upsert ix h p b)" "ci_grid (index_upsert ix h p b) = ci_grid ix"
    "index_members (index_upsert ix h p b) k =
       (if k = h then set (cells_for_bounds (ci_grid ix) p b) else index_members ix k)"
    using upsert_effect [OF assms up] by (auto simp: target_cells_bounds)
qed

lemma view_handles:
  assumes ss: "set_sound ss" and v: "entity_view ss k i = Some r" "entity_view ss k j = Some q"
    and "er_handle r = er_handle q"
  shows "i = j"
proof -
  obtain s where s: "station_set_get ss k = Some s" using v(1) by (auto simp: entity_view_def split: option.splits)
  then have wf: "station_wf s" using set_sound_get [OF ss] by blast
  have by_id: "station_get_by_id s i = Some r" "station_get_by_id s j = Some q"
    using v s by (simp_all add: entity_view_def)
  note ri = station_wf_by_id(2,3) [OF wf by_id(1)] and qj = station_wf_by_id(2,3) [OF wf by_id(2)]
  have "r = q" using ri(1) qj(1) unfolding assms(4) by simp
  then show ?thesis using ri(2) qj(2) by simp
qed

lemma index_faithful_upsert:
  assumes ix: "index_faithful ss k ix" and ss': "set_sound ss'"
    and v: "entity_view ss' k = (entity_view ss k)(i \<mapsto> r)"
  shows "index_faithful ss' k (index_upsert ix (er_handle r) (er_position r) (er_bounds r))"
  unfolding index_faithful_def
proof (intro conjI allI impI)
  have wf: "index_wf ix" using ix by (simp add: index_faithful_def)
  note up = index_upsert_members [OF wf]
  show "index_wf (index_upsert ix (er_handle r) (er_position r) (er_bounds r))" by (rule up(1))
  fix j q
  assume q: "entity_view ss' k j = Some q"
  show "index_members (index_upsert ix (er_handle r) (er_position r) (er_bounds r)) (er_handle q) =
      set (cells_for_bounds (ci_grid (index_upsert ix (er_handle r) (er_position r) (er_bounds r))) (er_position q) (er_bounds q))"
  proof (cases "j = i")
    case True
    then have "q = r" using q v by simp
    then show ?thesis by (simp add: up(2,3))
  next
    case False
    have "entity_view ss' k i = Some r" by (simp add: v)
    then have "er_handle q \<noteq> er_handle r" using view_handles [OF ss' q] False by blast
    moreover have "entity_view ss k j = Some q" using q v False by simp
    then have "index_members ix (er_handle q) = set (cells_for_bounds (ci_grid ix) (er_position q) (er_bounds q))"
      using ix unfolding index_faithful_def by blast
    ultimately show ?thesis by (simp add: up(2,3))
  qed
qed

lemma index_faithful_same:
  "index_faithful ss k ix \<Longrightarrow> entity_view ss' k = entity_view ss k \<Longrightarrow> index_faithful ss' k ix"
  by (simp add: index_faithful_def)

text \<open>Migrating one owned entity cannot fail, and both indexes stay faithful.\<close>

lemma migrate_one_effect:
  assumes ss: "set_sound (cw_stations w)" and sole: "sole_owners (cw_stations w)"
    and ia: "index_faithful (cw_stations w) a (cw_source_index w)"
    and ib: "index_faithful (cw_stations w) b (cw_target_index w)"
    and r: "entity_view (cw_stations w) a i = Some r" "record_is_owned r"
    and ab: "a \<noteq> b" "station_set_get (cw_stations w) b \<noteq> None"
    and m: "migrate_one a b ttl i w = Some (res, w1)"
  shows "res = Ok () \<and> set_sound (cw_stations w1) \<and> sole_owners (cw_stations w1) \<and>
    index_faithful (cw_stations w1) a (cw_source_index w1) \<and> ci_grid (cw_source_index w1) = ci_grid (cw_source_index w) \<and>
    index_faithful (cw_stations w1) b (cw_target_index w1) \<and>
    station_set_get (cw_stations w1) b \<noteq> None \<and>
    (\<exists>rep e x. entity_view (cw_stations w1) = (entity_view (cw_stations w))
        (a := (entity_view (cw_stations w) a)(i \<mapsto> ghost_of r b e x),
         b := (entity_view (cw_stations w) b)(i \<mapsto> owned_by r (mr_target_owner rep) e)) \<and>
       ht_entity_id (mr_transfer rep) = i \<and>
       cw_report w1 = (cw_report w)\<lparr>cr_entity_migrations := cr_entity_migrations (cw_report w) @ [rep]\<rparr>)"
proof -
  obtain sa sb where sa: "station_set_get (cw_stations w) a = Some sa" and sb: "station_set_get (cw_stations w) b = Some sb"
    using r(1) ab(2) by (auto simp: entity_view_def split: option.splits)
  obtain res0 ss1 where e: "migrate_entity (cw_stations w) i a b ttl = Some (res0, ss1)"
    using m by (auto simp: migrate_one_def split: option.splits)
  then obtain rep where e: "migrate_entity (cw_stations w) i a b ttl = Some (Inr rep, ss1)"
    using migrate_owned_not_refused [OF ss ab(1) sa sb r] by blast
  have res: "set_sound ss1" "ht_entity_id (mr_transfer rep) = i" "mr_source_ghost rep = er_handle r"
    using migrate_entity_result [OF ss e] r(1) by auto
  obtain ep x where view: "entity_view ss1 = (entity_view (cw_stations w))
        (a := (entity_view (cw_stations w) a)(i \<mapsto> ghost_of r b ep x),
         b := (entity_view (cw_stations w) b)(i \<mapsto> owned_by r (mr_target_owner rep) ep))"
    using migrate_entity_result [OF ss e] r(1) by (auto simp del: fun_upd_apply)
  obtain sa1 sb1 where s1: "station_set_get ss1 a = Some sa1" "station_set_get ss1 b = Some sb1"
    using migrate_entity_result [OF ss e] by auto
  have wf: "station_wf sa1" "station_wf sb1" using set_sound_get [OF res(1)] s1 by blast+
  let ?g = "ghost_of r b ep x" and ?o = "owned_by r (mr_target_owner rep) ep"
  have va: "entity_view ss1 a = (entity_view (cw_stations w) a)(i \<mapsto> ?g)"
    and vb: "entity_view ss1 b = (entity_view (cw_stations w) b)(i \<mapsto> ?o)"
    using ab(1) by (simp_all add: view)
  have "station_get_by_id sa1 i = Some ?g" using va s1(1) by (simp add: entity_view_def)
  from station_wf_by_id(2) [OF wf(1) this] have sg: "station_get sa1 (er_handle r) = Some ?g" by simp
  have "station_get_by_id sb1 i = Some ?o" using vb s1(2) by (simp add: entity_view_def)
  from station_wf_by_id(2) [OF wf(2) this] have so: "station_get sb1 (mr_target_owner rep) = Some ?o" by simp
  have w1: "res = Ok ()" "cw_stations w1 = ss1"
    "cw_source_index w1 = index_upsert (cw_source_index w) (er_handle ?g) (er_position ?g) (er_bounds ?g)"
    "cw_target_index w1 = index_upsert (cw_target_index w) (er_handle ?o) (er_position ?o) (er_bounds ?o)"
    "cw_report w1 = (cw_report w)\<lparr>cr_entity_migrations := cr_entity_migrations (cw_report w) @ [rep]\<rparr>"
    using m by (auto simp: migrate_one_def e s1 so sg res(3) Let_def)
  have wfi: "index_wf (cw_source_index w)" using ia by (simp add: index_faithful_def)
  show ?thesis
    using index_faithful_upsert [OF ia res(1) va] index_faithful_upsert [OF ib res(1) vb]
      migrate_entity_conserves [OF ss sole e] view res(1,2) s1(2) index_upsert_members(2) [OF wfi]
    unfolding w1 by (auto simp del: fun_upd_apply)
qed

definition migrated_ids :: "cell_migration_report \<Rightarrow> entity_id list" where
  "migrated_ids rep = map (\<lambda>m. ht_entity_id (mr_transfer m)) (cr_entity_migrations rep)"

text \<open>The state a migration of cells starts from and keeps.\<close>

definition cells_ready :: "station_id \<Rightarrow> station_id \<Rightarrow> cell_world \<Rightarrow> bool" where
  "cells_ready a b w \<longleftrightarrow> set_sound (cw_stations w) \<and> sole_owners (cw_stations w) \<and> a \<noteq> b \<and>
     station_set_get (cw_stations w) b \<noteq> None \<and>
     index_faithful (cw_stations w) a (cw_source_index w) \<and> index_faithful (cw_stations w) b (cw_target_index w)"

lemma migrate_ids_effect:
  assumes "cells_ready a b w" and "distinct is" and "set is \<inter> set seen = {}"
    and "\<forall>i \<in> set is. \<exists>r. entity_view (cw_stations w) a i = Some r \<and> record_is_owned r"
    and "migrate_ids a b ttl seen is w = Some (res, w1)"
  shows "res = Ok () \<and> cells_ready a b w1 \<and> ci_grid (cw_source_index w1) = ci_grid (cw_source_index w) \<and>
    migrated_ids (cw_report w1) = migrated_ids (cw_report w) @ is \<and>
    skipped_total (cw_report w1) = skipped_total (cw_report w) \<and>
    (\<forall>k j. j \<notin> set is \<longrightarrow> entity_view (cw_stations w1) k j = entity_view (cw_stations w) k j) \<and>
    (\<forall>i r. i \<in> set is \<longrightarrow> entity_view (cw_stations w) a i = Some r \<longrightarrow>
       (\<exists>h e x. entity_view (cw_stations w1) a i = Some (ghost_of r b e x) \<and>
                entity_view (cw_stations w1) b i = Some (owned_by r h e)))"
  using assms
proof (induction "is" arbitrary: seen w)
  case (Cons i "is")
  have i: "i \<notin> set seen" "i \<notin> set is" using Cons.prems(2,3) by auto
  obtain r where r: "entity_view (cw_stations w) a i = Some r" "record_is_owned r" using Cons.prems(4) by auto
  have ready: "set_sound (cw_stations w)" "sole_owners (cw_stations w)"
    "index_faithful (cw_stations w) a (cw_source_index w)" "index_faithful (cw_stations w) b (cw_target_index w)"
    "a \<noteq> b" "station_set_get (cw_stations w) b \<noteq> None"
    using Cons.prems(1) by (simp_all add: cells_ready_def)
  obtain res0 w0 where m: "migrate_one a b ttl i w = Some (res0, w0)"
    using Cons.prems(5) i(1) by (auto split: option.splits)
  note eff = migrate_one_effect [OF ready(1-4) r ready(5,6) m]
  then obtain rep e x where view: "entity_view (cw_stations w0) = (entity_view (cw_stations w))
        (a := (entity_view (cw_stations w) a)(i \<mapsto> ghost_of r b e x),
         b := (entity_view (cw_stations w) b)(i \<mapsto> owned_by r (mr_target_owner rep) e))"
    and rep: "ht_entity_id (mr_transfer rep) = i"
      "cw_report w0 = (cw_report w)\<lparr>cr_entity_migrations := cr_entity_migrations (cw_report w) @ [rep]\<rparr>" by blast
  have rest: "migrate_ids a b ttl (i # seen) is w0 = Some (res, w1)"
    using Cons.prems(5) i(1) m eff by simp
  have same: "j \<noteq> i \<Longrightarrow> entity_view (cw_stations w0) k j = entity_view (cw_stations w) k j" for j k
    by (simp add: view)
  have "cells_ready a b w0" using eff ready(5) by (simp add: cells_ready_def)
  moreover have "\<forall>j \<in> set is. \<exists>r. entity_view (cw_stations w0) a j = Some r \<and> record_is_owned r"
    using Cons.prems(4) i(2) same by (metis list.set_intros(2))
  moreover have "distinct is" "set is \<inter> set (i # seen) = {}" using Cons.prems(2,3) i by auto
  ultimately have IH: "res = Ok () \<and> cells_ready a b w1 \<and> ci_grid (cw_source_index w1) = ci_grid (cw_source_index w0) \<and>
    migrated_ids (cw_report w1) = migrated_ids (cw_report w0) @ is \<and>
    skipped_total (cw_report w1) = skipped_total (cw_report w0) \<and>
    (\<forall>k j. j \<notin> set is \<longrightarrow> entity_view (cw_stations w1) k j = entity_view (cw_stations w0) k j) \<and>
    (\<forall>i r. i \<in> set is \<longrightarrow> entity_view (cw_stations w0) a i = Some r \<longrightarrow>
       (\<exists>h e x. entity_view (cw_stations w1) a i = Some (ghost_of r b e x) \<and>
                entity_view (cw_stations w1) b i = Some (owned_by r h e)))"
    using Cons.IH [OF _ _ _ _ rest] by blast
  have mine: "entity_view (cw_stations w1) a i = Some (ghost_of r b e x)"
    "entity_view (cw_stations w1) b i = Some (owned_by r (mr_target_owner rep) e)"
    using IH i(2) view ready(5) by simp_all
  have "\<forall>j q. j \<in> set (i # is) \<longrightarrow> entity_view (cw_stations w) a j = Some q \<longrightarrow>
       (\<exists>h e x. entity_view (cw_stations w1) a j = Some (ghost_of q b e x) \<and>
                entity_view (cw_stations w1) b j = Some (owned_by q h e))"
  proof (intro allI impI)
    fix j q
    assume j: "j \<in> set (i # is)" "entity_view (cw_stations w) a j = Some q"
    show "\<exists>h e x. entity_view (cw_stations w1) a j = Some (ghost_of q b e x) \<and>
                entity_view (cw_stations w1) b j = Some (owned_by q h e)"
    proof (cases "j = i")
      case True
      then show ?thesis using mine r(1) j(2) by auto
    next
      case False
      then show ?thesis using IH j same by auto
    qed
  qed
  moreover have "\<forall>k j. j \<notin> set (i # is) \<longrightarrow> entity_view (cw_stations w1) k j = entity_view (cw_stations w) k j"
    using IH same by simp
  moreover have "migrated_ids (cw_report w1) = migrated_ids (cw_report w) @ i # is"
    using IH rep by (simp add: migrated_ids_def)
  moreover have "skipped_total (cw_report w1) = skipped_total (cw_report w)" using IH rep by simp
  ultimately show ?case using IH eff by simp
qed (auto simp: cells_ready_def)

text \<open>C32. Migrating cells empties them. Between two stations whose spatial indexes agree with their
  records, the migration of a list of cells either runs out of slots or succeeds completely: every
  entity the source owned whose bounds touch one of the cells is afterwards owned by the target with
  its payload and a ghost of it stays behind, so the source owns nothing in those cells any more; no
  other record of any station changes, authority stays unique, both indexes still agree with their
  stations, and every index entry that was scanned is accounted for.\<close>

theorem cell_migration_empties_cells:
  assumes "cells_ready a b \<lparr>cw_stations = ss, cw_source_index = six, cw_target_index = tix, cw_report = empty_report a b cells\<rparr>"
    and "station_set_get ss a \<noteq> None"
    and "migrate_cells_into ss six tix a b cells ttl = Some (res, w)"
  shows "res = Ok () \<and> cells_ready a b w \<and>
    (\<forall>i r. entity_view ss a i = Some r \<and> record_is_owned r \<and>
       set cells \<inter> set (cells_for_bounds (ci_grid six) (er_position r) (er_bounds r)) \<noteq> {} \<longrightarrow>
       (\<exists>r'. entity_view (cw_stations w) b i = Some r' \<and> record_is_owned r' \<and> payload r' = payload r)) \<and>
    (\<forall>i r. entity_view (cw_stations w) a i = Some r \<and> record_is_owned r \<longrightarrow>
       set cells \<inter> set (cells_for_bounds (ci_grid six) (er_position r) (er_bounds r)) = {}) \<and>
    (\<forall>k j. j \<notin> set (migrated_ids (cw_report w)) \<longrightarrow> entity_view (cw_stations w) k j = entity_view ss k j) \<and>
    length (cr_entity_migrations (cw_report w)) + skipped_total (cw_report w) = length (indexed_handles six cells)"
proof -
  let ?w = "\<lparr>cw_stations = ss, cw_source_index = six, cw_target_index = tix, cw_report = empty_report a b cells\<rparr>"
  let ?init = "\<lparr>cs_seen_handles = [], cs_entity_ids = [], cs_report = empty_report a b cells\<rparr>"
  obtain sa where sa: "station_set_get ss a = Some sa" using assms(2) by blast
  let ?sc = "scan_cells sa six cells ?init" and ?hs = "indexed_handles six cells"
  let ?ids = "owned_ids sa (fresh_handles {} ?hs)"
  have ss: "set_sound ss" and ix: "index_faithful ss a six" using assms(1) by (simp_all add: cells_ready_def)
  have wf: "station_wf sa" using set_sound_get [OF ss sa] by blast
  have va: "entity_view ss a = station_get_by_id sa" by (simp add: entity_view_def sa)
  have scan: "cs_entity_ids ?sc = ?ids" "cr_entity_migrations (cs_report ?sc) = []"
    "skipped_total (cs_report ?sc) + length ?ids = length ?hs"
    using scan_handles_result [of sa ?hs ?init]
    by (simp_all add: scan_cells_handles empty_report_def skipped_total_def)
  have run: "migrate_ids a b ttl [] ?ids (?w\<lparr>cw_report := cs_report ?sc\<rparr>) = Some (res, w)"
    using assms(3) scan(1) by (simp add: migrate_cells_into_def sa Let_def)
  have touch: "i \<in> set ?ids \<longleftrightarrow> (\<exists>r. entity_view ss a i = Some r \<and> record_is_owned r \<and>
      set cells \<inter> set (cells_for_bounds (ci_grid six) (er_position r) (er_bounds r)) \<noteq> {})" for i
  proof -
    have "er_handle r \<in> set ?hs \<longleftrightarrow>
        set cells \<inter> set (cells_for_bounds (ci_grid six) (er_position r) (er_bounds r)) \<noteq> {}"
      if "entity_view ss a i = Some r" for r
    proof -
      have "index_wf six" and mem: "index_members six (er_handle r) =
          set (cells_for_bounds (ci_grid six) (er_position r) (er_bounds r))"
        using ix that unfolding index_faithful_def by blast+
      then have "er_handle r \<in> set ?hs \<longleftrightarrow> (\<exists>c \<in> set cells. c \<in> index_members six (er_handle r))"
        using index_wfD(4) by (simp add: indexed_handles_def)
      then show ?thesis unfolding mem by blast
    qed
    then show ?thesis unfolding owned_ids_mem [OF wf] va by (auto simp: set_fresh_handles)
  qed
  have ready: "cells_ready a b (?w\<lparr>cw_report := cs_report ?sc\<rparr>)" using assms(1) by (simp add: cells_ready_def)
  have dist: "distinct ?ids" by (rule owned_ids_distinct [OF wf distinct_fresh_handles])
  have owned: "\<forall>i \<in> set ?ids. \<exists>r. entity_view (cw_stations (?w\<lparr>cw_report := cs_report ?sc\<rparr>)) a i = Some r \<and> record_is_owned r"
    using touch by auto
  note eff = migrate_ids_effect [OF ready dist _ owned run]
  have ids: "migrated_ids (cw_report w) = ?ids" using eff scan(2) by (simp add: migrated_ids_def)
  have moved: "\<exists>h e x. entity_view (cw_stations w) a i = Some (ghost_of r b e x) \<and>
      entity_view (cw_stations w) b i = Some (owned_by r h e)" if "i \<in> set ?ids" "entity_view ss a i = Some r" for i r
    using eff that by simp
  show ?thesis
  proof (intro conjI allI impI)
    show "res = Ok ()" "cells_ready a b w" using eff by simp_all
    fix k j assume "j \<notin> set (migrated_ids (cw_report w))"
    then show "entity_view (cw_stations w) k j = entity_view ss k j" using eff ids by simp
  next
    fix i r
    assume "entity_view ss a i = Some r \<and> record_is_owned r \<and>
       set cells \<inter> set (cells_for_bounds (ci_grid six) (er_position r) (er_bounds r)) \<noteq> {}"
    then show "\<exists>r'. entity_view (cw_stations w) b i = Some r' \<and> record_is_owned r' \<and> payload r' = payload r"
      using moved [of i r] touch [of i] by (metis owned_by_sel(1) payload_roles(1))
  next
    fix i r
    assume r: "entity_view (cw_stations w) a i = Some r \<and> record_is_owned r"
    have "i \<notin> set ?ids"
    proof
      assume "i \<in> set ?ids"
      then show False using moved touch [of i] r by (metis ghost_of_sel(1) option.inject)
    qed
    then show "set cells \<inter> set (cells_for_bounds (ci_grid six) (er_position r) (er_bounds r)) = {}"
      using r touch [of i] eff by simp
  next
    have "length (cr_entity_migrations (cw_report w)) = length ?ids"
      using arg_cong [OF ids, of length] by (simp add: migrated_ids_def)
    then show "length (cr_entity_migrations (cw_report w)) + skipped_total (cw_report w) = length ?hs"
      using eff scan(3) by simp
  qed
qed

definition demo_filed :: cell_index where
  "demo_filed = index_upsert (cell_index_new demo_grid) (EntityHandle 0 0) demo_position BPoint"

lemma demo_point_cells: "cells_for_bounds g p BPoint = [cell_at g p]"
  using target_cells_bounds [of "cell_index_new g" p BPoint] by (simp add: target_cells_def cell_index_new_def)

lemma demo_filed_members:
  "index_wf demo_filed" "ci_grid demo_filed = demo_grid"
  "index_members demo_filed k = (if k = EntityHandle 0 0 then {cell_at demo_grid demo_position} else {})"
  using index_upsert_members [OF index_new_wf [of demo_grid], of "EntityHandle 0 0" demo_position BPoint]
  by (simp_all add: demo_filed_def cell_index_new_def demo_point_cells index_members_def)

lemma demo_record_sel [simp]:
  "er_position (record_owned i h p b pol e) = p" "er_bounds (record_owned i h p b pol e) = b"
  by (simp_all add: record_owned_def)

lemma demo_faithful: "index_faithful demo_stations k demo_filed"
  by (auto simp: index_faithful_def demo_filed_members demo_stations_view demo_point_cells split: if_splits)

lemma demo_cells_ready:
  "cells_ready 1 2 \<lparr>cw_stations = demo_stations, cw_source_index = demo_filed, cw_target_index = demo_filed,
     cw_report = empty_report 1 2 cells\<rparr>"
  by (simp add: cells_ready_def demo_stations_sound demo_stations_sole demo_faithful demo_stations_get)

lemma demo_cell_handles:
  "handles_in_cell demo_filed (cell_at demo_grid demo_position) = [EntityHandle 0 0]"
proof -
  let ?hs = "handles_in_cell demo_filed (cell_at demo_grid demo_position)"
  have "set ?hs = {EntityHandle 0 0}" "distinct ?hs"
    using index_wfD(2,4) [OF demo_filed_members(1)] by (auto simp: demo_filed_members(3) split: if_splits)
  then show ?thesis by (cases ?hs) (auto simp: subset_singleton_iff dest: equalityD1)
qed

lemma demo_cells_run:
  obtains res w where "migrate_cells_into demo_stations demo_filed demo_filed 1 2 [cell_at demo_grid demo_position] ttl =
    Some (res, w)"
proof -
  have room: "station_has_room (demo_station 2 8)" by (simp add: station_has_room_def demo_station_def)
  obtain rep ss1 where m: "migrate_entity demo_stations 9 1 2 ttl = Some (Ok rep, ss1)"
    using migrate_entity_succeeds [OF demo_stations_sound, of 1 2 "demo_station 1 9" "demo_station 2 8" 9 _ ttl] room
    by (auto simp: demo_stations_get demo_stations_view)
  have "migrate_one 1 2 ttl 9 w \<noteq> None" if "cw_stations w = demo_stations" for w
    using m that by (auto simp: migrate_one_def Let_def split: option.split)
  then have "migrate_cells_into demo_stations demo_filed demo_filed 1 2 [cell_at demo_grid demo_position] ttl \<noteq> None"
    by (auto simp: migrate_cells_into_def demo_stations_get Let_def demo_cell_handles split: option.split sum.split)
  then show thesis using that by auto
qed

lemma cell_migration_empties_cells_witness:
  "\<exists>w r. migrate_cells_into demo_stations demo_filed demo_filed 1 2 [cell_at demo_grid demo_position] 5 = Some (Ok (), w) \<and>
     entity_view (cw_stations w) 2 9 = Some r \<and> record_is_owned r \<and> sole_owners (cw_stations w)"
proof -
  let ?c = "cell_at demo_grid demo_position"
  let ?run = "migrate_cells_into demo_stations demo_filed demo_filed 1 2 [?c] 5"
  let ?r = "record_owned 9 (EntityHandle 0 0) demo_position BPoint 3 0"
  obtain res w where run: "?run = Some (res, w)" by (rule demo_cells_run)
  have "set [?c] \<inter> set (cells_for_bounds (ci_grid demo_filed) demo_position BPoint) \<noteq> {}"
    by (simp add: demo_point_cells demo_filed_members(2))
  then have touch: "entity_view demo_stations 1 9 = Some ?r \<and> record_is_owned ?r \<and>
      set [?c] \<inter> set (cells_for_bounds (ci_grid demo_filed) (er_position ?r) (er_bounds ?r)) \<noteq> {}"
    by (simp add: demo_stations_view)
  have "station_set_get demo_stations 1 \<noteq> None" by (simp add: demo_stations_get)
  note moved = cell_migration_empties_cells [OF demo_cells_ready this run]
  obtain r where "entity_view (cw_stations w) 2 9 = Some r" "record_is_owned r" using moved touch by blast
  then show ?thesis using moved run unfolding cells_ready_def by blast
qed

end
