(* ===== verification/Split_Scheduler.thy ===== *)
theory Split_Scheduler
  imports Cell_Migration
begin

text \<open>
  The automatic split scheduler: from load samples it picks hot stations and a cooler target for each,
  and its execution reassigns the cells and migrates the entities in them. Reusable output storage is
  a result here. The standard library's partial selection is the parameter \<open>sel\<close>.
\<close>

section \<open>Configuration and results\<close>

record split_config =
  sp_thresholds :: hotspot_thresholds
  sp_max_actions_per_pass :: usize
  sp_max_cells_per_action :: usize
  sp_ghost_ttl_ticks :: u64
  sp_min_score_improvement :: u64
  sp_max_target_score_after_move :: u64
  sp_split_cooldown_ticks :: u64
  sp_allow_warm_targets :: bool

definition default_split_config :: split_config where
  "default_split_config =
     \<lparr>sp_thresholds = default_thresholds, sp_max_actions_per_pass = 4, sp_max_cells_per_action = 4,
      sp_ghost_ttl_ticks = 4, sp_min_score_improvement = 1, sp_max_target_score_after_move = - 1,
      sp_split_cooldown_ticks = 0, sp_allow_warm_targets = True\<rparr>"

record split_action =
  sa_source_station :: station_id
  sa_target_station :: station_id
  sa_proposal :: split_proposal
  sa_source_score :: u64
  sa_target_score :: u64
  sa_estimated_target_score_after_move :: u64

record split_schedule =
  ss_decisions :: "hotspot_decision list"
  ss_actions :: "split_action list"
  ss_skipped_no_target :: usize
  ss_skipped_no_cells :: usize
  ss_skipped_cooldown :: usize
  ss_skipped_target_severity :: usize
  ss_skipped_target_capacity :: usize
  ss_skipped_insufficient_improvement :: usize

section \<open>Cooldown\<close>

type_synonym split_state = "(station_id, tick) fmap"

definition last_split_at :: "split_state \<Rightarrow> station_id \<Rightarrow> tick option" where
  "last_split_at st s = fmlookup st s"

definition record_action :: "split_state \<Rightarrow> split_action \<Rightarrow> tick \<Rightarrow> split_state" where
  "record_action st a now = fmupd (sa_source_station a) now st"

definition record_schedule :: "split_state \<Rightarrow> split_schedule \<Rightarrow> tick \<Rightarrow> split_state" where
  "record_schedule st sched now = fold (\<lambda>a st. record_action st a now) (ss_actions sched) st"

definition is_in_cooldown :: "split_state \<Rightarrow> station_id \<Rightarrow> tick \<Rightarrow> u64 \<Rightarrow> bool" where
  "is_in_cooldown st s now cooldown =
     (if cooldown = 0 then False
      else (case last_split_at st s of
          None \<Rightarrow> False
        | Some last_split \<Rightarrow> sat_sub now last_split < cooldown))"

section \<open>Choosing a target\<close>

fun severity_rank :: "hotspot_severity \<Rightarrow> u8" where
  "severity_rank Normal = 0"
| "severity_rank Warm = 1"
| "severity_rank Hot = 2"

definition station_load_score :: "station_load_sample \<Rightarrow> u64" where
  "station_load_score s =
     sat_add (sat_add (sat_add (sat_add (sat_mul (word_of_nat (total_entities s)) 8)
       (sat_mul (word_of_nat (sl_subscribers s)) 4)) (word_of_nat (sl_queued_events s)))
       (word_of_nat (sl_estimated_bytes s div 256))) (sl_tick_cost_units s)"

record target_selection =
  tg_target :: "station_load_sample option"
  tg_target_key :: "(u8 \<times> u64 \<times> u32) option"
  tg_considered :: usize
  tg_rejected_severity :: usize
  tg_rejected_capacity :: usize
  tg_rejected_improvement :: usize

definition no_selection :: target_selection where
  "no_selection =
     \<lparr>tg_target = None, tg_target_key = None, tg_considered = 0, tg_rejected_severity = 0,
      tg_rejected_capacity = 0, tg_rejected_improvement = 0\<rparr>"

definition target_key :: "station_load_sample \<Rightarrow> hotspot_decision \<Rightarrow> u8 \<times> u64 \<times> u32" where
  "target_key t d = (severity_rank (hd_severity d), station_load_score t, sl_station_id t)"

definition consider_target ::
  "station_load_sample \<Rightarrow> split_proposal \<Rightarrow> split_config \<Rightarrow> station_load_sample \<times> hotspot_decision \<Rightarrow>
   target_selection \<Rightarrow> target_selection" where
  "consider_target source p cfg td sel =
     (case td of (t, d) \<Rightarrow>
      if sl_station_id t = sl_station_id source then sel
      else
        (let sel = sel\<lparr>tg_considered := tg_considered sel + 1\<rparr> in
         if hd_severity d = Hot \<or> (hd_severity d = Warm \<and> \<not> sp_allow_warm_targets cfg)
         then sel\<lparr>tg_rejected_severity := tg_rejected_severity sel + 1\<rparr>
         else if sat_sub (station_load_score source) (station_load_score t) < sp_min_score_improvement cfg
         then sel\<lparr>tg_rejected_improvement := tg_rejected_improvement sel + 1\<rparr>
         else if sat_add (station_load_score t) (sp_moved_pressure_score p) > sp_max_target_score_after_move cfg
         then sel\<lparr>tg_rejected_capacity := tg_rejected_capacity sel + 1\<rparr>
         else if (case tg_target_key sel of None \<Rightarrow> True | Some current \<Rightarrow> target_key t d < current)
         then sel\<lparr>tg_target := Some t, tg_target_key := Some (target_key t d)\<rparr>
         else sel))"

definition select_split_target ::
  "station_load_sample \<Rightarrow> split_proposal \<Rightarrow> station_load_sample list \<Rightarrow> hotspot_decision list \<Rightarrow> split_config \<Rightarrow>
   target_selection" where
  "select_split_target source p samples decisions cfg =
     fold (consider_target source p cfg) (zip samples decisions) no_selection"

section \<open>Planning\<close>

definition flag :: "bool \<Rightarrow> usize" where
  "flag b = (if b then 1 else 0)"

definition skip_target :: "target_selection \<Rightarrow> split_schedule \<Rightarrow> split_schedule" where
  "skip_target t s =
     (if tg_considered t = 0 then s\<lparr>ss_skipped_no_target := usize_add (ss_skipped_no_target s) 1\<rparr>
      else s\<lparr>ss_skipped_target_severity := usize_add (ss_skipped_target_severity s) (flag (tg_rejected_severity t > 0)),
             ss_skipped_target_capacity := usize_add (ss_skipped_target_capacity s) (flag (tg_rejected_capacity t > 0)),
             ss_skipped_insufficient_improvement :=
               usize_add (ss_skipped_insufficient_improvement s) (flag (tg_rejected_improvement t > 0))\<rparr>)"

definition plan_source ::
  "(nat \<Rightarrow> cell_load_sample list \<Rightarrow> cell_load_sample list) \<Rightarrow> split_config \<Rightarrow> station_load_sample list \<Rightarrow>
   split_state option \<Rightarrow> tick \<Rightarrow> station_load_sample \<times> hotspot_decision \<Rightarrow> split_schedule \<Rightarrow> split_schedule" where
  "plan_source sel cfg samples state now sd s =
     (case sd of (source, d) \<Rightarrow>
      if hd_severity d \<noteq> Hot then s
      else if (case state of None \<Rightarrow> False
               | Some st \<Rightarrow> is_in_cooldown st (sl_station_id source) now (sp_split_cooldown_ticks cfg))
      then s\<lparr>ss_skipped_cooldown := usize_add (ss_skipped_cooldown s) 1\<rparr>
      else
        (let p = snd (propose_cell_split sel source (sp_max_cells_per_action cfg)) in
         if sp_cells_to_move p = [] then s\<lparr>ss_skipped_no_cells := usize_add (ss_skipped_no_cells s) 1\<rparr>
         else
           (let t = select_split_target source p samples (ss_decisions s) cfg in
            case tg_target t of
              None \<Rightarrow> skip_target t s
            | Some target \<Rightarrow>
                s\<lparr>ss_actions := ss_actions s @
                    [\<lparr>sa_source_station = sl_station_id source, sa_target_station = sl_station_id target,
                      sa_proposal = p, sa_source_score = station_load_score source,
                      sa_target_score = station_load_score target,
                      sa_estimated_target_score_after_move =
                        sat_add (station_load_score target) (sp_moved_pressure_score p)\<rparr>]\<rparr>)))"

fun plan_loop ::
  "(nat \<Rightarrow> cell_load_sample list \<Rightarrow> cell_load_sample list) \<Rightarrow> split_config \<Rightarrow> station_load_sample list \<Rightarrow>
   split_state option \<Rightarrow> tick \<Rightarrow> (station_load_sample \<times> hotspot_decision) list \<Rightarrow> split_schedule \<Rightarrow> split_schedule" where
  "plan_loop sel cfg samples state now [] s = s"
| "plan_loop sel cfg samples state now (sd # sds) s =
     (if length (ss_actions s) \<ge> sp_max_actions_per_pass cfg then s
      else plan_loop sel cfg samples state now sds (plan_source sel cfg samples state now sd s))"

definition plan_splits ::
  "(nat \<Rightarrow> cell_load_sample list \<Rightarrow> cell_load_sample list) \<Rightarrow> split_config \<Rightarrow> station_load_sample list \<Rightarrow>
   split_state option \<Rightarrow> tick \<Rightarrow> split_schedule" where
  "plan_splits sel cfg samples state now =
     (let decisions = map (\<lambda>s. hotspot_evaluate s (sp_thresholds cfg)) samples in
      plan_loop sel cfg samples state now (zip samples decisions)
        \<lparr>ss_decisions = decisions, ss_actions = [], ss_skipped_no_target = 0, ss_skipped_no_cells = 0,
         ss_skipped_cooldown = 0, ss_skipped_target_severity = 0, ss_skipped_target_capacity = 0,
         ss_skipped_insufficient_improvement = 0\<rparr>)"

section \<open>Execution\<close>

datatype split_execution_error =
    MissingSourceIndex station_id
  | MissingTargetIndex station_id
  | SplitCellMigration cell_migration_error

record split_world =
  sw_stations :: station_set
  sw_indexes :: station_index_set
  sw_ownership :: cell_ownership
  sw_updates :: "ownership_update list"
  sw_migrations :: "cell_migration_report list"

definition execute_action ::
  "split_config \<Rightarrow> split_action \<Rightarrow> split_world \<Rightarrow> ((split_execution_error + unit) \<times> split_world) option" where
  "execute_action cfg a w =
     (if index_set_get (sw_indexes w) (sa_source_station a) = None
      then Some (Err (MissingSourceIndex (sa_source_station a)), w)
      else if index_set_get (sw_indexes w) (sa_target_station a) = None
      then Some (Err (MissingTargetIndex (sa_target_station a)), w)
      else (case apply_split (sw_ownership w) (sa_proposal a) (sa_target_station a) of (update, ownership) \<Rightarrow>
        let w = w\<lparr>sw_ownership := ownership\<rparr> in
        case index_set_get_pair (sw_indexes w) (sa_source_station a) (sa_target_station a) of
          Some (Some (source_index, target_index)) \<Rightarrow>
            (case migrate_cells_into (sw_stations w) source_index target_index (sa_source_station a)
                    (sa_target_station a) (ou_moved_cells update) (sp_ghost_ttl_ticks cfg) of
               None \<Rightarrow> None
             | Some (r, cw) \<Rightarrow>
                 (let w = w\<lparr>sw_stations := cw_stations cw,
                            sw_indexes := index_set_write (index_set_write (sw_indexes w) (sa_source_station a)
                              (cw_source_index cw)) (sa_target_station a) (cw_target_index cw)\<rparr> in
                  case r of
                    Inl e \<Rightarrow> Some (Err (SplitCellMigration e), w)
                  | Inr _ \<Rightarrow> Some (Ok (), w\<lparr>sw_updates := sw_updates w @ [update],
                                            sw_migrations := sw_migrations w @ [cw_report cw]\<rparr>)))
        | _ \<Rightarrow> None))"

fun execute_actions ::
  "split_config \<Rightarrow> split_action list \<Rightarrow> split_world \<Rightarrow> ((split_execution_error + unit) \<times> split_world) option" where
  "execute_actions cfg [] w = Some (Ok (), w)"
| "execute_actions cfg (a # as) w =
     (case execute_action cfg a w of
        None \<Rightarrow> None
      | Some (Inl e, w1) \<Rightarrow> Some (Err e, w1)
      | Some (Inr _, w1) \<Rightarrow> execute_actions cfg as w1)"

definition execute_splits ::
  "split_config \<Rightarrow> split_schedule \<Rightarrow> station_set \<Rightarrow> station_index_set \<Rightarrow> cell_ownership \<Rightarrow>
   ((split_execution_error + unit) \<times> split_world) option" where
  "execute_splits cfg sched ss xs own =
     execute_actions cfg (ss_actions sched)
       \<lparr>sw_stations = ss, sw_indexes = xs, sw_ownership = own, sw_updates = [], sw_migrations = []\<rparr>"

section \<open>The chosen target is the coolest eligible one\<close>

definition eligible_target ::
  "station_load_sample \<Rightarrow> split_proposal \<Rightarrow> split_config \<Rightarrow> station_load_sample \<Rightarrow> bool" where
  "eligible_target source p cfg t \<longleftrightarrow>
     (let severity = hd_severity (hotspot_evaluate t (sp_thresholds cfg)) in
      sl_station_id t \<noteq> sl_station_id source \<and> severity \<noteq> Hot \<and>
      (severity = Warm \<longrightarrow> sp_allow_warm_targets cfg) \<and>
      sp_min_score_improvement cfg \<le> sat_sub (station_load_score source) (station_load_score t) \<and>
      sat_add (station_load_score t) (sp_moved_pressure_score p) \<le> sp_max_target_score_after_move cfg)"

definition sample_key :: "split_config \<Rightarrow> station_load_sample \<Rightarrow> u8 \<times> u64 \<times> u32" where
  "sample_key cfg t = target_key t (hotspot_evaluate t (sp_thresholds cfg))"

text \<open>The best eligible sample of those seen so far.\<close>

definition best_target ::
  "station_load_sample \<Rightarrow> split_proposal \<Rightarrow> split_config \<Rightarrow> station_load_sample list \<Rightarrow> target_selection \<Rightarrow> bool" where
  "best_target source p cfg ts sel \<longleftrightarrow>
     (case tg_target sel of
        None \<Rightarrow> tg_target_key sel = None \<and> (\<forall>t \<in> set ts. \<not> eligible_target source p cfg t)
      | Some b \<Rightarrow> b \<in> set ts \<and> eligible_target source p cfg b \<and> tg_target_key sel = Some (sample_key cfg b) \<and>
          (\<forall>t \<in> set ts. eligible_target source p cfg t \<longrightarrow> sample_key cfg b \<le> sample_key cfg t))"

lemma consider_target_best:
  assumes b: "best_target source p cfg ts sel"
  shows "best_target source p cfg (ts @ [t])
    (consider_target source p cfg (t, hotspot_evaluate t (sp_thresholds cfg)) sel)"
proof -
  let ?sel = "consider_target source p cfg (t, hotspot_evaluate t (sp_thresholds cfg)) sel"
  have steps: "\<not> eligible_target source p cfg t \<Longrightarrow> tg_target ?sel = tg_target sel \<and> tg_target_key ?sel = tg_target_key sel"
    "eligible_target source p cfg t \<Longrightarrow> (case tg_target_key sel of None \<Rightarrow> True | Some c \<Rightarrow> sample_key cfg t < c) \<Longrightarrow>
       tg_target ?sel = Some t \<and> tg_target_key ?sel = Some (sample_key cfg t)"
    "eligible_target source p cfg t \<Longrightarrow> \<not> (case tg_target_key sel of None \<Rightarrow> True | Some c \<Rightarrow> sample_key cfg t < c) \<Longrightarrow>
       tg_target ?sel = tg_target sel \<and> tg_target_key ?sel = tg_target_key sel"
    unfolding sample_key_def
    by (auto simp: consider_target_def eligible_target_def Let_def not_less not_le split: option.splits)
  show ?thesis
  proof (cases "eligible_target source p cfg t")
    case False
    then show ?thesis using b steps(1) by (auto simp: best_target_def split: option.splits)
  next
    case True
    show ?thesis
    proof (cases "tg_target sel")
      case None
      then have "tg_target_key sel = None" "\<forall>t \<in> set ts. \<not> eligible_target source p cfg t"
        using b by (simp_all add: best_target_def)
      then show ?thesis using True steps(2) by (auto simp: best_target_def)
    next
      case (Some c)
      then have c: "tg_target_key sel = Some (sample_key cfg c)" "c \<in> set ts" "eligible_target source p cfg c"
        "\<forall>t \<in> set ts. eligible_target source p cfg t \<longrightarrow> sample_key cfg c \<le> sample_key cfg t"
        using b by (simp_all add: best_target_def)
      show ?thesis
      proof (cases "sample_key cfg t < sample_key cfg c")
        case True2: True
        then show ?thesis using True c steps(2) by (fastforce simp: best_target_def)
      next
        case False
        then show ?thesis using True c Some steps(3) by (auto simp: best_target_def)
      qed
    qed
  qed
qed

lemma select_split_target_best:
  "best_target source p cfg samples
     (select_split_target source p samples (map (\<lambda>s. hotspot_evaluate s (sp_thresholds cfg)) samples) cfg)"
proof (induction samples rule: rev_induct)
  case Nil
  then show ?case by (simp add: select_split_target_def best_target_def no_selection_def)
next
  case (snoc t ts)
  show ?case using consider_target_best [OF snoc] by (simp add: select_split_target_def)
qed

section \<open>The plan\<close>

text \<open>The action planned for one source, if any.\<close>

definition wants_split ::
  "(nat \<Rightarrow> cell_load_sample list \<Rightarrow> cell_load_sample list) \<Rightarrow> split_config \<Rightarrow> split_state option \<Rightarrow> tick \<Rightarrow>
   station_load_sample \<Rightarrow> bool" where
  "wants_split sel cfg state now source \<longleftrightarrow>
     hd_severity (hotspot_evaluate source (sp_thresholds cfg)) = Hot \<and>
     (case state of None \<Rightarrow> True
      | Some st \<Rightarrow> \<not> is_in_cooldown st (sl_station_id source) now (sp_split_cooldown_ticks cfg)) \<and>
     sp_cells_to_move (snd (propose_cell_split sel source (sp_max_cells_per_action cfg))) \<noteq> []"

definition planned_action ::
  "(nat \<Rightarrow> cell_load_sample list \<Rightarrow> cell_load_sample list) \<Rightarrow> split_config \<Rightarrow> station_load_sample list \<Rightarrow>
   split_state option \<Rightarrow> tick \<Rightarrow> station_load_sample \<Rightarrow> split_action option" where
  "planned_action sel cfg samples state now source =
     (if wants_split sel cfg state now source
      then (let p = snd (propose_cell_split sel source (sp_max_cells_per_action cfg)) in
        map_option (\<lambda>target.
            \<lparr>sa_source_station = sl_station_id source, sa_target_station = sl_station_id target,
             sa_proposal = p, sa_source_score = station_load_score source,
             sa_target_score = station_load_score target,
             sa_estimated_target_score_after_move =
               sat_add (station_load_score target) (sp_moved_pressure_score p)\<rparr>)
          (tg_target (select_split_target source p samples
             (map (\<lambda>s. hotspot_evaluate s (sp_thresholds cfg)) samples) cfg)))
      else None)"

lemma skip_target_frame [simp]:
  "ss_actions (skip_target t s) = ss_actions s" "ss_decisions (skip_target t s) = ss_decisions s"
  by (simp_all add: skip_target_def)

lemma plan_source_actions:
  assumes "ss_decisions s = map (\<lambda>s. hotspot_evaluate s (sp_thresholds cfg)) samples"
  shows "ss_decisions (plan_source sel cfg samples state now (source, hotspot_evaluate source (sp_thresholds cfg)) s) = ss_decisions s \<and>
    ss_actions (plan_source sel cfg samples state now (source, hotspot_evaluate source (sp_thresholds cfg)) s) =
      ss_actions s @ (case planned_action sel cfg samples state now source of None \<Rightarrow> [] | Some a \<Rightarrow> [a])"
  using assms
  by (auto simp: plan_source_def planned_action_def wants_split_def Let_def split: option.splits)

lemma plan_loop_actions:
  assumes "ss_decisions s = map (\<lambda>s. hotspot_evaluate s (sp_thresholds cfg)) samples"
    and "length (ss_actions s) \<le> sp_max_actions_per_pass cfg"
  shows "ss_actions (plan_loop sel cfg samples state now
      (map (\<lambda>x. (x, hotspot_evaluate x (sp_thresholds cfg))) sources) s) =
    take (sp_max_actions_per_pass cfg)
      (ss_actions s @ List.map_filter (planned_action sel cfg samples state now) sources)"
  using assms
proof (induction sources arbitrary: s)
  case Nil
  then show ?case by (simp add: List.map_filter_def)
next
  case (Cons x xs)
  let ?s = "plan_source sel cfg samples state now (x, hotspot_evaluate x (sp_thresholds cfg)) s"
  note step = plan_source_actions [OF Cons.prems(1), of sel state now x]
  show ?case
  proof (cases "length (ss_actions s) \<ge> sp_max_actions_per_pass cfg")
    case True
    then show ?thesis using Cons.prems(2) by simp
  next
    case False
    have "length (ss_actions ?s) \<le> sp_max_actions_per_pass cfg"
      using step False by (auto split: option.splits)
    moreover have "ss_decisions ?s = map (\<lambda>s. hotspot_evaluate s (sp_thresholds cfg)) samples"
      using step Cons.prems(1) by simp
    moreover have "take (sp_max_actions_per_pass cfg - length (ss_actions s)) (y # ys) =
        y # take (sp_max_actions_per_pass cfg - Suc (length (ss_actions s))) ys" for y :: split_action and ys
      using False by (simp add: take_Cons')
    ultimately show ?thesis using Cons.IH [of ?s] False step
      by (auto simp: List.map_filter_def split: option.splits)
  qed
qed

lemma plan_splits_actions:
  "ss_actions (plan_splits sel cfg samples state now) =
     take (sp_max_actions_per_pass cfg) (List.map_filter (planned_action sel cfg samples state now) samples)"
proof -
  have "zip samples (map (\<lambda>s. hotspot_evaluate s (sp_thresholds cfg)) samples) =
      map (\<lambda>x. (x, hotspot_evaluate x (sp_thresholds cfg))) samples"
    by (induction samples) simp_all
  then show ?thesis by (simp add: plan_splits_def plan_loop_actions)
qed

text \<open>C33. The plan is conservative and complete up to its limit. Its actions are those of the first
  \<open>max_actions_per_pass\<close> samples for which an action exists, in sample order. An action exists exactly
  for a hot station outside its cooldown that has a cell to move and an eligible target, and its
  target is an eligible one of least severity, then load, then identifier: another station that is
  not hot (nor warm, unless warm targets are allowed), is cooler by the required improvement and
  stays within the score limit after the move.\<close>

theorem plan_is_conservative:
  "ss_actions (plan_splits sel cfg samples state now) =
     take (sp_max_actions_per_pass cfg) (List.map_filter (planned_action sel cfg samples state now) samples) \<and>
   (\<forall>source p. p = snd (propose_cell_split sel source (sp_max_cells_per_action cfg)) \<longrightarrow>
      (planned_action sel cfg samples state now source \<noteq> None \<longleftrightarrow>
         wants_split sel cfg state now source \<and> (\<exists>t \<in> set samples. eligible_target source p cfg t)) \<and>
      (\<forall>a. planned_action sel cfg samples state now source = Some a \<longrightarrow>
         sa_source_station a = sl_station_id source \<and> sa_proposal a = p \<and>
         (\<exists>target \<in> set samples. eligible_target source p cfg target \<and>
            sa_target_station a = sl_station_id target \<and>
            sa_estimated_target_score_after_move a \<le> sp_max_target_score_after_move cfg \<and>
            (\<forall>t \<in> set samples. eligible_target source p cfg t \<longrightarrow> sample_key cfg target \<le> sample_key cfg t))))"
proof (intro conjI allI impI)
  show "ss_actions (plan_splits sel cfg samples state now) =
     take (sp_max_actions_per_pass cfg) (List.map_filter (planned_action sel cfg samples state now) samples)"
    by (rule plan_splits_actions)
  fix source p
  assume p: "p = snd (propose_cell_split sel source (sp_max_cells_per_action cfg))"
  note best = select_split_target_best [of source p cfg samples]
  show "planned_action sel cfg samples state now source \<noteq> None \<longleftrightarrow>
      wants_split sel cfg state now source \<and> (\<exists>t \<in> set samples. eligible_target source p cfg t)"
    using best by (auto simp: planned_action_def best_target_def Let_def p split: option.splits)
  fix a
  assume a: "planned_action sel cfg samples state now source = Some a"
  then show "sa_source_station a = sl_station_id source" "sa_proposal a = p"
    by (auto simp: planned_action_def Let_def p split: if_splits)
  show "\<exists>target \<in> set samples. eligible_target source p cfg target \<and>
      sa_target_station a = sl_station_id target \<and>
      sa_estimated_target_score_after_move a \<le> sp_max_target_score_after_move cfg \<and>
      (\<forall>t \<in> set samples. eligible_target source p cfg t \<longrightarrow> sample_key cfg target \<le> sample_key cfg t)"
    using a best
    by (auto simp: planned_action_def best_target_def Let_def p eligible_target_def split: if_splits option.splits)
qed

section \<open>Execution keeps authority\<close>

definition conserves :: "station_set \<Rightarrow> station_set \<Rightarrow> bool" where
  "conserves ss ss' \<longleftrightarrow> (set_sound ss \<and> sole_owners ss \<longrightarrow>
     set_sound ss' \<and> sole_owners ss' \<and> owned_payloads ss' = owned_payloads ss)"

lemma conserves_refl [simp]: "conserves ss ss"
  by (simp add: conserves_def)

lemma conserves_trans: "conserves a b \<Longrightarrow> conserves b c \<Longrightarrow> conserves a c"
  by (simp add: conserves_def)

lemma migrate_entity_conserving: "migrate_entity ss i a b ttl = Some (res, ss') \<Longrightarrow> conserves ss ss'"
  unfolding conserves_def using migrate_entity_conserves by blast

lemma migrate_one_conserving:
  assumes "migrate_one a b ttl i w = Some (res, w')"
  shows "conserves (cw_stations w) (cw_stations w')"
proof -
  obtain r ss where m: "migrate_entity (cw_stations w) i a b ttl = Some (r, ss)"
    using assms by (auto simp: migrate_one_def split: option.splits)
  have "cw_stations w' = ss"
    using assms m by (auto simp: migrate_one_def Let_def split: sum.splits option.splits)
  then show ?thesis using migrate_entity_conserving [OF m] by simp
qed

lemma migrate_ids_conserving:
  "migrate_ids a b ttl seen is w = Some (res, w') \<Longrightarrow> conserves (cw_stations w) (cw_stations w')"
proof (induction "is" arbitrary: seen w)
  case (Cons i ids)
  show ?case
  proof (cases "i \<in> set seen")
    case True
    then show ?thesis using Cons by (fastforce simp: Let_def)
  next
    case False
    then obtain r w1 where one: "migrate_one a b ttl i w = Some (r, w1)"
      using Cons.prems by (auto split: option.splits)
    note c = migrate_one_conserving [OF one]
    show ?thesis
    proof (cases r)
      case (Inl e)
      then show ?thesis using Cons.prems False one c by simp
    next
      case (Inr u)
      then have "migrate_ids a b ttl (i # seen) ids w1 = Some (res, w')" using Cons.prems False one by simp
      from conserves_trans [OF c Cons.IH [OF this]] show ?thesis .
    qed
  qed
qed simp

lemma migrate_cells_conserving:
  "migrate_cells_into ss sx tx a b cells ttl = Some (res, w) \<Longrightarrow> conserves ss (cw_stations w)"
  by (auto simp: migrate_cells_into_def Let_def split: option.splits dest: migrate_ids_conserving)

lemma execute_action_conserving:
  assumes "execute_action cfg a w = Some (res, w')"
  shows "conserves (sw_stations w) (sw_stations w')"
  using assms migrate_cells_conserving
  by (auto simp: execute_action_def Let_def split: if_splits option.splits prod.splits sum.splits)

lemma execute_actions_conserving:
  "execute_actions cfg as w = Some (res, w') \<Longrightarrow> conserves (sw_stations w) (sw_stations w')"
proof (induction "as" arbitrary: w)
  case (Cons a as)
  then obtain r w1 where one: "execute_action cfg a w = Some (r, w1)" by (auto split: option.splits)
  note c = execute_action_conserving [OF one]
  show ?case
  proof (cases r)
    case (Inl e)
    then show ?thesis using Cons.prems one c by simp
  next
    case (Inr u)
    then have "execute_actions cfg as w1 = Some (res, w')" using Cons.prems one by simp
    from conserves_trans [OF c Cons.IH [OF this]] show ?thesis .
  qed
qed simp

text \<open>C2. Automatic splits conserve authority over entities. Whatever schedule is executed on a sound set of
  stations in which no entity has two owners, and however its execution ends (completed, or stopped
  by a missing index or a migration error half way), every entity that was owned is owned afterwards
  by exactly one station and with the same identifier, position, bounds, policy and tags, and no
  entity became owned that was not.\<close>

theorem splits_conserve_authority:
  assumes "set_sound ss" and "sole_owners ss" and "execute_splits cfg sched ss xs own = Some (res, w)"
  shows "set_sound (sw_stations w) \<and> sole_owners (sw_stations w) \<and>
    (\<forall>i. owned_payloads (sw_stations w) i = owned_payloads ss i)"
  using execute_actions_conserving [of cfg "ss_actions sched" _ res w] assms
  by (fastforce simp: execute_splits_def conserves_def)


definition demo_indexes :: station_index_set where
  "demo_indexes = kv_push fst (kv_push fst kv_empty (1, demo_filed)) (2, demo_filed)"

definition demo_schedule :: split_schedule where
  "demo_schedule =
     \<lparr>ss_decisions = [],
      ss_actions = [\<lparr>sa_source_station = 1, sa_target_station = 2,
        sa_proposal = \<lparr>sp_source_station = 1, sp_cells_to_move = [cell_at demo_grid demo_position],
          sp_moved_pressure_score = 0\<rparr>,
        sa_source_score = 0, sa_target_score = 0, sa_estimated_target_score_after_move = 0\<rparr>],
      ss_skipped_no_target = 0, ss_skipped_no_cells = 0, ss_skipped_cooldown = 0, ss_skipped_target_severity = 0,
      ss_skipped_target_capacity = 0, ss_skipped_insufficient_improvement = 0\<rparr>"

lemma demo_indexes_get: "index_set_get demo_indexes k = (if k = 1 \<or> k = 2 then Some demo_filed else None)"
  "index_set_get_pair demo_indexes 1 2 = Some (Some (demo_filed, demo_filed))"
proof -
  have s: "kv_sound fst demo_indexes" by (simp add: demo_indexes_def kv_push_sound)
  have g: "kv_get fst demo_indexes k = (if k = 1 \<or> k = 2 then Some (k, demo_filed) else None)" for k
    using kv_get_find [OF s] by (simp add: demo_indexes_def kv_push_sound)
  then show "index_set_get demo_indexes k = (if k = 1 \<or> k = 2 then Some demo_filed else None)"
    by (simp add: index_set_get_def)
  show "index_set_get_pair demo_indexes 1 2 = Some (Some (demo_filed, demo_filed))"
    using kv.pair_get [OF s, of 1 2] g by (simp add: index_set_get_pair_def)
qed

lemma splits_conserve_authority_witness:
  "\<exists>res w. execute_splits default_split_config demo_schedule demo_stations demo_indexes fmempty = Some (res, w) \<and>
     sole_owners (sw_stations w) \<and> owned_payloads (sw_stations w) 9 = owned_payloads demo_stations 9"
proof -
  obtain r cw where "migrate_cells_into demo_stations demo_filed demo_filed 1 2 [cell_at demo_grid demo_position]
      (sp_ghost_ttl_ticks default_split_config) = Some (r, cw)"
    by (rule demo_cells_run)
  then have "execute_splits default_split_config demo_schedule demo_stations demo_indexes fmempty \<noteq> None"
    by (auto simp: execute_splits_def demo_schedule_def execute_action_def demo_indexes_get apply_split_def
      assign_cell_def Let_def split: sum.split option.split)
  then obtain res w where run: "execute_splits default_split_config demo_schedule demo_stations demo_indexes fmempty =
      Some (res, w)" by auto
  from splits_conserve_authority [OF demo_stations_sound demo_stations_sole this] this show ?thesis by blast
qed


definition demo_sample :: "station_id \<Rightarrow> usize \<Rightarrow> cell_load_sample list \<Rightarrow> station_load_sample" where
  "demo_sample k n cells =
     \<lparr>sl_station_id = k, sl_owned_entities = n, sl_ghost_entities = 0, sl_subscribers = n, sl_queued_events = 0,
      sl_estimated_bytes = 0, sl_tick_cost_units = 0, sl_cells = cells\<rparr>"

definition demo_cell :: cell_load_sample where
  "demo_cell =
     \<lparr>cl_cell = CellCoord3 0 0 0, cl_owned_entities = 10, cl_ghost_entities = 0, cl_subscribers = 0,
      cl_estimated_updates = 0, cl_estimated_bytes = 0, cl_tick_cost_units = 0, cl_event_pressure = 0\<rparr>"

lemma demo_severity:
  "hd_severity (hotspot_evaluate (demo_sample 1 60000 [demo_cell]) (sp_thresholds default_split_config)) = Hot"
  "hd_severity (hotspot_evaluate (demo_sample 2 70000 [demo_cell]) (sp_thresholds default_split_config)) = Hot"
  "hd_severity (hotspot_evaluate (demo_sample 3 10 []) (sp_thresholds default_split_config)) = Normal"
  by (simp_all add: hotspot_evaluate_def demo_sample_def demo_cell_def default_split_config_def default_thresholds_def
    raise_reason_def total_entities_def max_cell_pressure_def pressure_score_def sat_add_def sat_mul_def)

lemma demo_proposal:
  "snd (propose_cell_split (\<lambda>n cells. cells) (demo_sample k n [demo_cell]) (sp_max_cells_per_action default_split_config)) =
     \<lparr>sp_source_station = k, sp_cells_to_move = [CellCoord3 0 0 0], sp_moved_pressure_score = 80\<rparr>"
  by (simp add: propose_cell_split_def demo_sample_def demo_cell_def default_split_config_def prioritize_cell_samples_def
    sort_by_le_def pressure_score_def sat_add_def sat_mul_def)

lemma demo_scores:
  "station_load_score (demo_sample 1 60000 [demo_cell]) = 720000"
  "station_load_score (demo_sample 2 70000 [demo_cell]) = 840000"
  "station_load_score (demo_sample 3 10 []) = 120"
  by (simp_all add: station_load_score_def demo_sample_def total_entities_def sat_add_def sat_mul_def)

text \<open>Two hot stations of one pass pick the same target, since a pass does not charge the target with what it
  has already been assigned.\<close>

lemma plan_is_conservative_witness:
  "map (\<lambda>a. (sa_source_station a, sa_target_station a))
     (ss_actions (plan_splits (\<lambda>n cells. cells) default_split_config
        [demo_sample 1 60000 [demo_cell], demo_sample 2 70000 [demo_cell], demo_sample 3 10 []] None 0)) = [(1, 3), (2, 3)]"
proof -
  let ?sel = "\<lambda>n cells. cells" and ?cfg = default_split_config
  let ?samples = "[demo_sample 1 60000 [demo_cell], demo_sample 2 70000 [demo_cell], demo_sample 3 10 []]"
  have ids: "sl_station_id (demo_sample k n cells) = k" for k n cells by (simp add: demo_sample_def)
  have limits: "sp_min_score_improvement ?cfg = 1" "sp_max_target_score_after_move ?cfg = - 1" "sp_max_actions_per_pass ?cfg = 4"
    by (simp_all add: default_split_config_def)
  let ?p = "\<lambda>k. \<lparr>sp_source_station = k, sp_cells_to_move = [CellCoord3 0 0 0], sp_moved_pressure_score = 80\<rparr>"
  have own: "consider_target (demo_sample k n [demo_cell]) p ?cfg (demo_sample k n [demo_cell], d) s = s" for k n p d s
    by (simp add: consider_target_def ids)
  have hot: "tg_target (consider_target source p ?cfg (t, d) s) = tg_target s"
      "tg_target_key (consider_target source p ?cfg (t, d) s) = tg_target_key s" if "hd_severity d = Hot" for source p t d s
    using that by (simp_all add: consider_target_def Let_def)
  have cool1: "tg_target (consider_target (demo_sample 1 60000 [demo_cell]) (?p k) ?cfg
        (demo_sample 3 10 [], hotspot_evaluate (demo_sample 3 10 []) (sp_thresholds ?cfg)) s) = Some (demo_sample 3 10 [])"
      if "tg_target_key s = None" for s k
    using that by (simp add: consider_target_def Let_def ids demo_severity demo_scores limits sat_sub_def sat_add_def)
  have cool2: "tg_target (consider_target (demo_sample 2 70000 [demo_cell]) (?p k) ?cfg
        (demo_sample 3 10 [], hotspot_evaluate (demo_sample 3 10 []) (sp_thresholds ?cfg)) s) = Some (demo_sample 3 10 [])"
      if "tg_target_key s = None" for s k
    using that by (simp add: consider_target_def Let_def ids demo_severity demo_scores limits sat_sub_def sat_add_def)
  have key: "tg_target_key no_selection = None" by (simp add: no_selection_def)
  let ?target = "\<lambda>s k. tg_target (select_split_target s (?p k) ?samples
      (map (\<lambda>s. hotspot_evaluate s (sp_thresholds ?cfg)) ?samples) ?cfg)"
  have t: "?target (demo_sample 1 60000 [demo_cell]) 1 = Some (demo_sample 3 10 [])"
    "?target (demo_sample 2 70000 [demo_cell]) 2 = Some (demo_sample 3 10 [])"
    by (simp_all add: select_split_target_def own hot demo_severity key cool1 cool2)
  have a: "\<exists>a. planned_action ?sel ?cfg ?samples None 0 (demo_sample 1 60000 [demo_cell]) = Some a \<and>
      sa_source_station a = 1 \<and> sa_target_station a = 3"
    "\<exists>a. planned_action ?sel ?cfg ?samples None 0 (demo_sample 2 70000 [demo_cell]) = Some a \<and>
      sa_source_station a = 2 \<and> sa_target_station a = 3"
    "planned_action ?sel ?cfg ?samples None 0 (demo_sample 3 10 []) = None"
    by (simp_all only: planned_action_def wants_split_def demo_severity demo_proposal t Let_def) (simp_all add: ids)
  have "map (\<lambda>a. (sa_source_station a, sa_target_station a))
      (take 4 (List.map_filter (planned_action ?sel ?cfg ?samples None 0) ?samples)) = [(1, 3), (2, 3)]"
    using a by (auto simp: List.map_filter_def)
  then show ?thesis using plan_is_conservative [of ?sel ?cfg ?samples None 0] by (simp only: limits)
qed

end
