(* ===== verification/Packet_Pump.thy ===== *)
theory Packet_Pump
  imports Memory_Station
begin

text \<open>
  The receive loop that the runtime's bridges between typed messages and station packets share: it
  takes at most a given number of packets for one station from the transport and hands each to a
  consumer. The code has the loop twice, for station events and for command dispatches, with the
  consumer written in place; here the consumer is the parameter \<open>accept\<close>.
\<close>

record pump_report =
  pr_target_station :: station_id
  pr_packets_received :: usize
  pr_bytes_received :: usize
  pr_accepted :: usize

definition pump_report_new :: "station_id \<Rightarrow> pump_report" where
  "pump_report_new k =
     \<lparr>pr_target_station = k, pr_packets_received = 0, pr_bytes_received = 0, pr_accepted = 0\<rparr>"

type_synonym ('t, 'e) station_receiver = "'t \<Rightarrow> station_id \<Rightarrow> ('e + station_inbound_packet option) \<times> 't"

type_synonym ('s, 'f) consumer = "'s \<Rightarrow> station_inbound_packet \<Rightarrow> ('f + unit) \<times> 's"

fun pump_loop ::
  "('t, 'e) station_receiver \<Rightarrow> ('e \<Rightarrow> 'f) \<Rightarrow> ('s, 'f) consumer \<Rightarrow> station_id \<Rightarrow> nat \<Rightarrow> 't \<Rightarrow> 's \<Rightarrow> pump_report \<Rightarrow>
   ('f + pump_report) \<times> 't \<times> 's" where
  "pump_loop recv wrap accept k 0 t s rep = (Ok rep, t, s)"
| "pump_loop recv wrap accept k (Suc n) t s rep =
     (case recv t k of
        (Inl e, t1) \<Rightarrow> (Err (wrap e), t1, s)
      | (Inr None, t1) \<Rightarrow> (Ok rep, t1, s)
      | (Inr (Some p), t1) \<Rightarrow>
          (let rep = rep\<lparr>pr_packets_received := usize_add (pr_packets_received rep) 1,
                         pr_bytes_received := usize_add (pr_bytes_received rep) (length (si_bytes p))\<rparr> in
           case accept s p of
             (Inl f, s1) \<Rightarrow> (Err f, t1, s1)
           | (Inr _, s1) \<Rightarrow>
               pump_loop recv wrap accept k n t1 s1 (rep\<lparr>pr_accepted := usize_add (pr_accepted rep) 1\<rparr>)))"

text \<open>Feeding packets to a consumer until one is refused.\<close>

fun feed :: "('s, 'f) consumer \<Rightarrow> 's \<Rightarrow> station_inbound_packet list \<Rightarrow> ('f + unit) \<times> 's" where
  "feed accept s [] = (Ok (), s)"
| "feed accept s (p # ps) =
     (case accept s p of (Inl f, s1) \<Rightarrow> (Err f, s1) | (Inr _, s1) \<Rightarrow> feed accept s1 ps)"

lemma feed_append:
  "feed accept s (ps @ qs) =
     (case feed accept s ps of (Inl f, s1) \<Rightarrow> (Err f, s1) | (Inr _, s1) \<Rightarrow> feed accept s1 qs)"
  by (induction ps arbitrary: s) (auto split: prod.split sum.split)

section \<open>Pumping the in-memory transport\<close>

abbreviation inbox :: "memory_station \<Rightarrow> station_id \<Rightarrow> station_inbound_packet list option" where
  "inbox t k \<equiv> amap_get (mt_queues t) k"

lemma memory_recv_inbox:
  "inbox t k = Some (p # q) \<Longrightarrow> \<exists>t1. memory_try_recv_station t k = (Ok (Some p), t1) \<and>
     inbox t1 k = Some q \<and> (\<forall>j. j \<noteq> k \<longrightarrow> inbox t1 j = inbox t j)"
  by (auto simp: memory_try_recv_station_def Let_def amap_get_write)

lemma memory_send_inbox:
  assumes "memory_send_station t p = (Ok (), t1)"
  shows "\<exists>q. inbox t (so_target_station p) = Some q \<and>
    inbox t1 = (inbox t)(so_target_station p \<mapsto>
      q @ [\<lparr>si_source_station = so_source_station p, si_target_station = so_target_station p, si_bytes = so_bytes p\<rparr>])"
  using assms
  by (auto simp: memory_send_station_def Let_def amap_get_write fun_eq_iff split: if_splits option.splits)

text \<open>The loop feeds the consumer a prefix of the queue, as long as the budget allows, and leaves the rest.\<close>

lemma pump_memory:
  assumes "inbox t k = Some ps" and "pr_accepted rep \<le> usize_max"
  shows "\<exists>m \<le> min n (length ps). \<exists>r t1 s1. pump_loop memory_try_recv_station wrap accept k n t s rep = (r, t1, s1) \<and>
      inbox t1 k = Some (drop m ps) \<and> (\<forall>j. j \<noteq> k \<longrightarrow> inbox t1 j = inbox t j) \<and> snd (feed accept s (take m ps)) = s1 \<and>
      (case r of Inl f \<Rightarrow> fst (feed accept s (take m ps)) = Err f
       | Inr rep1 \<Rightarrow> m = min n (length ps) \<and> fst (feed accept s (take m ps)) = Ok () \<and>
           pr_target_station rep1 = pr_target_station rep \<and>
           pr_accepted rep1 = min (pr_accepted rep + m) usize_max)"
  using assms
proof (induction n arbitrary: t ps s rep)
  case 0
  then show ?case by auto
next
  case (Suc n)
  show ?case
  proof (cases ps)
    case Nil
    then have "memory_try_recv_station t k = (Ok None, t)"
      using Suc.prems by (simp add: memory_try_recv_station_def)
    then show ?thesis using Suc.prems Nil by (auto intro!: exI [of _ 0])
  next
    case (Cons p q)
    obtain t1 where t1: "memory_try_recv_station t k = (Ok (Some p), t1)" "inbox t1 k = Some q"
      "\<forall>j. j \<noteq> k \<longrightarrow> inbox t1 j = inbox t j"
      using memory_recv_inbox Suc.prems Cons by blast
    obtain res s1 where acc: "accept s p = (res, s1)" by fastforce
    show ?thesis
    proof (cases res)
      case (Inl f)
      then show ?thesis using t1 acc Cons by (auto intro!: exI [of _ 1])
    next
      case (Inr u)
      define rep1 where "rep1 = rep\<lparr>pr_packets_received := usize_add (pr_packets_received rep) 1,
                         pr_bytes_received := usize_add (pr_bytes_received rep) (length (si_bytes p)),
                         pr_accepted := usize_add (pr_accepted rep) 1\<rparr>"
      obtain m r t2 s2 where m: "m \<le> min n (length q)"
        and run: "pump_loop memory_try_recv_station wrap accept k n t1 s1 rep1 = (r, t2, s2)"
        and rest: "inbox t2 k = Some (drop m q)" "\<forall>j. j \<noteq> k \<longrightarrow> inbox t2 j = inbox t1 j"
          "snd (feed accept s1 (take m q)) = s2"
          "case r of Inl f \<Rightarrow> fst (feed accept s1 (take m q)) = Err f
           | Inr rep2 \<Rightarrow> m = min n (length q) \<and> fst (feed accept s1 (take m q)) = Ok () \<and>
               pr_target_station rep2 = pr_target_station rep1 \<and>
               pr_accepted rep2 = min (pr_accepted rep1 + m) usize_max"
      proof -
        have "pr_accepted rep1 \<le> usize_max" by (simp add: rep1_def)
        then show thesis using Suc.IH [OF t1(2), of rep1 s1] that by blast
      qed
      have "pump_loop memory_try_recv_station wrap accept k (Suc n) t s rep = (r, t2, s2)"
        using t1(1) acc Inr run by (simp add: rep1_def Let_def)
      moreover have "feed accept s (take (Suc m) ps) = feed accept s1 (take m q)"
        using acc Inr Cons by simp
      moreover have "pr_accepted rep1 = min (pr_accepted rep + 1) usize_max" by (simp add: rep1_def usize_add_def)
      moreover have "min (min (Suc a) usize_max + j) usize_max = min (Suc (a + j)) usize_max" for a j :: nat by arith
      ultimately show ?thesis
        using m rest t1(3) Cons by (intro exI [of _ "Suc m"]) (auto simp: rep1_def split: sum.splits)
    qed
  qed
qed

lemma pump_memory_cases:
  assumes "inbox t k = Some ps" "pr_accepted rep \<le> usize_max"
    "pump_loop memory_try_recv_station wrap accept k n t s rep = (r, t1, s1)"
  obtains m where "m \<le> length ps" "inbox t1 k = Some (drop m ps)" "snd (feed accept s (take m ps)) = s1"
    "\<And>f. r = Err f \<Longrightarrow> fst (feed accept s (take m ps)) = Err f"
    "\<And>rep1. r = Ok rep1 \<Longrightarrow> m = min n (length ps) \<and> fst (feed accept s (take m ps)) = Ok () \<and>
       pr_accepted rep1 = min (pr_accepted rep + m) usize_max"
proof -
  obtain m where "m \<le> min n (length ps)" "inbox t1 k = Some (drop m ps)" "snd (feed accept s (take m ps)) = s1"
    "case r of Inl f \<Rightarrow> fst (feed accept s (take m ps)) = Err f
       | Inr rep1 \<Rightarrow> m = min n (length ps) \<and> fst (feed accept s (take m ps)) = Ok () \<and>
           pr_target_station rep1 = pr_target_station rep \<and>
           pr_accepted rep1 = min (pr_accepted rep + m) usize_max"
    using pump_memory [OF assms(1,2), of n wrap accept s] unfolding assms(3) by (elim exE conjE) simp
  then show thesis by (intro that [of m]) auto
qed

section \<open>Bridges\<close>

text \<open>What both bridges promise: receiving the packet of a valid message is applying the message locally.
  Hence pumping a queue of such packets is applying the messages one after the other.\<close>

fun apply_all :: "('s \<Rightarrow> 'x \<Rightarrow> ('f + unit) \<times> 's) \<Rightarrow> 's \<Rightarrow> 'x list \<Rightarrow> ('f + unit) \<times> 's" where
  "apply_all f s [] = (Ok (), s)"
| "apply_all f s (x # xs) = (case f s x of (Inl e, s1) \<Rightarrow> (Err e, s1) | (Inr _, s1) \<Rightarrow> apply_all f s1 xs)"

lemma apply_all_append:
  "apply_all f s (xs @ ys) =
     (case apply_all f s xs of (Inl e, s1) \<Rightarrow> (Err e, s1) | (Inr _, s1) \<Rightarrow> apply_all f s1 ys)"
  by (induction xs arbitrary: s) (auto split: prod.split sum.split)

locale packet_bridge =
  fixes packet :: "'x \<Rightarrow> station_inbound_packet"
    and accept :: "('s, 'f) consumer"
    and receive :: "'s \<Rightarrow> 'x \<Rightarrow> ('f + unit) \<times> 's"
    and valid :: "'x \<Rightarrow> bool"
  assumes accept_packet: "valid x \<Longrightarrow> accept s (packet x) = receive s x"
begin

lemma feed_packets: "\<forall>x \<in> set xs. valid x \<Longrightarrow> feed accept s (map packet xs) = apply_all receive s xs"
  by (induction xs arbitrary: s) (auto simp: accept_packet split: prod.split sum.split)

lemma pump_is_local:
  assumes box: "inbox t k = Some (map packet xs)" and valid: "\<forall>x \<in> set xs. valid x"
    and small: "length xs \<le> n" "length xs \<le> usize_max"
    and run: "pump_loop memory_try_recv_station wrap accept k n t s (pump_report_new k) = (res, t1, s1)"
    and local: "apply_all receive s xs = (local, s_local)"
  shows "s1 = s_local \<and>
    ((\<exists>rep. res = Ok rep \<and> local = Ok () \<and> pr_accepted rep = length xs \<and> inbox t1 k = Some []) \<or>
     (\<exists>f m. res = Err f \<and> local = Err f \<and> inbox t1 k = Some (map packet (drop m xs)) \<and>
       apply_all receive s (take m xs) = (Err f, s1)))"
proof -
  have zero: "pr_accepted (pump_report_new k) \<le> usize_max" by (simp add: pump_report_new_def)
  show ?thesis
  proof (rule pump_memory_cases [OF box zero run])
    fix m
    assume left: "inbox t1 k = Some (drop m (map packet xs))"
      and fed: "snd (feed accept s (take m (map packet xs))) = s1"
      and bad: "\<And>f. res = Err f \<Longrightarrow> fst (feed accept s (take m (map packet xs))) = Err f"
      and good: "\<And>rep1. res = Ok rep1 \<Longrightarrow> m = min n (length (map packet xs)) \<and>
         fst (feed accept s (take m (map packet xs))) = Ok () \<and>
         pr_accepted rep1 = min (pr_accepted (pump_report_new k) + m) usize_max"
    have "\<forall>x \<in> set (take m xs). valid x" using valid by (auto dest: in_set_takeD)
    then have feed: "feed accept s (take m (map packet xs)) = apply_all receive s (take m xs)"
      by (simp add: take_map feed_packets)
    show ?thesis
    proof (cases res)
      case (Inl f)
      then have "apply_all receive s (take m xs) = (Err f, s1)" using bad fed feed by (metis prod.collapse)
      moreover from this have "apply_all receive s xs = (Err f, s1)"
        using apply_all_append [of receive s "take m xs" "drop m xs"] by simp
      ultimately show ?thesis using Inl left local by (auto simp: drop_map)
    next
      case (Inr rep)
      then have m: "m = length xs" and "fst (feed accept s (take m (map packet xs))) = Ok ()"
        "pr_accepted rep = length xs"
        using good small by (auto simp: pump_report_new_def)
      then have "apply_all receive s xs = (Ok (), s1)" using fed feed by (metis order_refl prod.collapse take_all)
      then show ?thesis using Inr left local m \<open>pr_accepted rep = length xs\<close> by simp
    qed
  qed
qed

end

end
