(* ===== verification/Event_Router.thy ===== *)
theory Event_Router
  imports Packet_Pump Station_Set Event_Queues Wire "HOL-Library.Sublist"
begin

text \<open>
  The event router of the runtime crate, with a bounded event queue per registered station, and the
  bridge that carries events between processes as station packets.
\<close>

section \<open>The router\<close>

record router_stats =
  rs_routed_events :: usize
  rs_drained_events :: usize
  rs_dropped_best_effort_events :: usize

datatype router_error =
    RouterMissingTarget station_id
  | RouterQueue event_queue_error

record event_router =
  ro_limits :: event_queue_limits
  ro_queues :: "(station_id, event_queues) fmap"
  ro_stats :: router_stats

definition router_new :: "event_queue_limits \<Rightarrow> event_router" where
  "router_new l =
     \<lparr>ro_limits = l, ro_queues = fmempty,
      ro_stats = \<lparr>rs_routed_events = 0, rs_drained_events = 0, rs_dropped_best_effort_events = 0\<rparr>\<rparr>"

definition router_register :: "event_router \<Rightarrow> station_id \<Rightarrow> event_router" where
  "router_register r k =
     (case fmlookup (ro_queues r) k of
        Some _ \<Rightarrow> r
      | None \<Rightarrow> r\<lparr>ro_queues := fmupd k (event_queues_new (ro_limits r)) (ro_queues r)\<rparr>)"

definition router_register_stations :: "event_router \<Rightarrow> station_set \<Rightarrow> event_router" where
  "router_register_stations r ss = fold (\<lambda>s r. router_register r (station_key s)) (station_set_iter ss) r"

definition router_unregister :: "event_router \<Rightarrow> station_id \<Rightarrow> usize option \<times> event_router" where
  "router_unregister r k =
     (map_option event_len (fmlookup (ro_queues r) k), r\<lparr>ro_queues := fmdrop k (ro_queues r)\<rparr>)"

text \<open>The two counters of \<open>route\<close> are advanced by \<open>+= 1\<close>, which is exact below \<open>usize_max\<close>; the properties
  that read them say so.\<close>

definition route :: "event_router \<Rightarrow> station_event \<Rightarrow> (router_error + push_outcome) \<times> event_router" where
  "route r e =
     (case fmlookup (ro_queues r) (ev_target e) of
        None \<Rightarrow> (Err (RouterMissingTarget (ev_target e)), r)
      | Some q \<Rightarrow>
          (case event_push q e of
             (Inl x, q1) \<Rightarrow> (Err (RouterQueue x), r\<lparr>ro_queues := fmupd (ev_target e) q1 (ro_queues r)\<rparr>)
           | (Inr outcome, q1) \<Rightarrow>
               (let st = ro_stats r;
                    st = st\<lparr>rs_routed_events := rs_routed_events st + 1\<rparr>;
                    st = (if outcome = DroppedOldestBestEffort
                          then st\<lparr>rs_dropped_best_effort_events := rs_dropped_best_effort_events st + 1\<rparr> else st)
                in (Ok outcome, r\<lparr>ro_queues := fmupd (ev_target e) q1 (ro_queues r), ro_stats := st\<rparr>))))"

definition append_ready ::
  "event_router \<Rightarrow> station_id \<Rightarrow> tick \<Rightarrow> station_event list \<Rightarrow>
   ((router_error + unit) \<times> event_router \<times> station_event list) option" where
  "append_ready r k now out =
     (case fmlookup (ro_queues r) k of
        None \<Rightarrow> Some (Err (RouterMissingTarget k), r, out)
      | Some q \<Rightarrow>
          (case drain_ready_into q now out of
             None \<Rightarrow> None
           | Some (drained, q1, out1) \<Rightarrow>
               (let st = ro_stats r in
                Some (Ok (), r\<lparr>ro_queues := fmupd k q1 (ro_queues r),
                  ro_stats := st\<lparr>rs_drained_events := usize_add (rs_drained_events st) drained\<rparr>\<rparr>, out1))))"

definition router_drain_into ::
  "event_router \<Rightarrow> station_id \<Rightarrow> tick \<Rightarrow> ((router_error + unit) \<times> event_router \<times> station_event list) option" where
  "router_drain_into r k now = append_ready r k now []"

definition router_drain ::
  "event_router \<Rightarrow> station_id \<Rightarrow> tick \<Rightarrow> ((router_error + station_event list) \<times> event_router) option" where
  "router_drain r k now =
     (case router_drain_into r k now of
        None \<Rightarrow> None
      | Some (Inl e, r1, out) \<Rightarrow> Some (Err e, r1)
      | Some (Inr _, r1, out) \<Rightarrow> Some (Ok out, r1))"

definition router_queued_len :: "event_router \<Rightarrow> station_id \<Rightarrow> usize option" where
  "router_queued_len r k = map_option event_len (fmlookup (ro_queues r) k)"

section \<open>The transport bridge\<close>

record event_transport_stats =
  es_events_sent :: usize
  es_bytes_sent :: usize
  es_packets_received :: usize
  es_bytes_received :: usize
  es_events_routed :: usize

datatype 'e event_transport_error =
    EventTransport 'e
  | EventEncode binary_encode_error
  | EventDecode binary_decode_error
  | EventUnexpectedFrame
  | EventEndpointMismatch station_id station_id station_id station_id
  | EventRouterRefused router_error

definition event_stats_zero :: event_transport_stats where
  "event_stats_zero =
     \<lparr>es_events_sent = 0, es_bytes_sent = 0, es_packets_received = 0, es_bytes_received = 0, es_events_routed = 0\<rparr>"

definition send_event ::
  "('t, 'e, station_outbound_packet) sink \<Rightarrow> event_transport_stats \<Rightarrow> 't \<Rightarrow> station_event \<Rightarrow>
   ('e event_transport_error + unit) \<times> event_transport_stats \<times> 't" where
  "send_event send st t e =
     (case encode_station_event (event_frame_from_event e) [] of
        (Inl x, out) \<Rightarrow> (Err (EventEncode x), st, t)
      | (Inr _, out) \<Rightarrow>
          (case send t \<lparr>so_source_station = ev_source e, so_target_station = ev_target e, so_bytes = out\<rparr> of
             (Inl x, t1) \<Rightarrow> (Err (EventTransport x), st, t1)
           | (Inr _, t1) \<Rightarrow>
               (Ok (), st\<lparr>es_events_sent := usize_add (es_events_sent st) 1,
                          es_bytes_sent := usize_add (es_bytes_sent st) (length out)\<rparr>, t1)))"

definition accept_event :: "(event_router, 'e event_transport_error) consumer" where
  "accept_event r p =
     (case binary_decode (si_bytes p) of
        Inl x \<Rightarrow> (Err (EventDecode x), r)
      | Inr (RfStationEvent f) \<Rightarrow>
          if sf_source_station f \<noteq> si_source_station p \<or> sf_target_station f \<noteq> si_target_station p
          then (Err (EventEndpointMismatch (si_source_station p) (si_target_station p)
                 (sf_source_station f) (sf_target_station f)), r)
          else (case route r (event_frame_into_event f) of
              (Inl x, r1) \<Rightarrow> (Err (EventRouterRefused x), r1)
            | (Inr _, r1) \<Rightarrow> (Ok (), r1))
      | Inr _ \<Rightarrow> (Err EventUnexpectedFrame, r))"

definition pump_events ::
  "('t, 'e) station_receiver \<Rightarrow> event_transport_stats \<Rightarrow> 't \<Rightarrow> event_router \<Rightarrow> station_id \<Rightarrow> usize \<Rightarrow>
   ('e event_transport_error + pump_report) \<times> event_transport_stats \<times> 't \<times> event_router" where
  "pump_events recv st t r k max_packets =
     (case pump_loop recv EventTransport accept_event k max_packets t r (pump_report_new k) of
        (Inl x, t1, r1) \<Rightarrow> (Err x, st, t1, r1)
      | (Inr rep, t1, r1) \<Rightarrow>
          (Ok rep, st\<lparr>es_packets_received := usize_add (es_packets_received st) (pr_packets_received rep),
                      es_bytes_received := usize_add (es_bytes_received st) (pr_bytes_received rep),
                      es_events_routed := usize_add (es_events_routed st) (pr_accepted rep)\<rparr>, t1, r1))"


section \<open>Where events are\<close>

text \<open>What happened to the events so far: the accepted ones, the delivered ones with the station and the tick
  of the drain, and the ones given up, by a full best-effort lane or by an unregistered station.\<close>

record event_ledger =
  lg_accepted :: "station_event list"
  lg_delivered :: "(station_id \<times> tick \<times> station_event) list"
  lg_lost :: "station_event list"

datatype router_op =
    OpRegister station_id
  | OpUnregister station_id
  | OpRoute station_event
  | OpDrain station_id tick

definition queued_at :: "event_router \<Rightarrow> station_id \<Rightarrow> station_event list" where
  "queued_at r k = (case fmlookup (ro_queues r) k of None \<Rightarrow> [] | Some q \<Rightarrow> concat (event_lanes q))"

fun router_step :: "router_op \<Rightarrow> event_router \<times> event_ledger \<Rightarrow> event_router \<times> event_ledger" where
  "router_step (OpRegister k) (r, lg) = (router_register r k, lg)"
| "router_step (OpUnregister k) (r, lg) = (snd (router_unregister r k), lg\<lparr>lg_lost := lg_lost lg @ queued_at r k\<rparr>)"
| "router_step (OpRoute e) (r, lg) =
     (case route r e of
        (Inl x, r1) \<Rightarrow> (r1, lg)
      | (Inr outcome, r1) \<Rightarrow>
          (r1, lg\<lparr>lg_accepted := lg_accepted lg @ [e],
                  lg_lost := lg_lost lg @ (if outcome = DroppedOldestBestEffort
                    then take 1 (eq_best_effort (the (fmlookup (ro_queues r) (ev_target e)))) else [])\<rparr>))"
| "router_step (OpDrain k now) (r, lg) =
     (case router_drain r k now of
        None \<Rightarrow> (r, lg)
      | Some (Inl x, r1) \<Rightarrow> (r1, lg)
      | Some (Inr es, r1) \<Rightarrow> (r1, lg\<lparr>lg_delivered := lg_delivered lg @ map (\<lambda>e. (k, now, e)) es\<rparr>))"

definition router_run :: "event_queue_limits \<Rightarrow> router_op list \<Rightarrow> event_router \<times> event_ledger" where
  "router_run l ops = fold router_step ops (router_new l, \<lparr>lg_accepted = [], lg_delivered = [], lg_lost = []\<rparr>)"

definition delivered_at :: "event_ledger \<Rightarrow> station_id \<Rightarrow> station_event list" where
  "delivered_at lg k = map (\<lambda>(k, now, e). e) (filter (\<lambda>(j, now, e). j = k) (lg_delivered lg))"

definition bound_for :: "station_id \<Rightarrow> station_event list \<Rightarrow> station_event list" where
  "bound_for k = filter (\<lambda>e. ev_target e = k)"

definition ledger_ok :: "station_id set \<Rightarrow> event_router \<Rightarrow> event_ledger \<Rightarrow> bool" where
  "ledger_ok gone r lg \<longleftrightarrow>
     (\<forall>k. mset (bound_for k (lg_accepted lg)) =
        mset (delivered_at lg k) + mset (queued_at r k) + mset (bound_for k (lg_lost lg))) \<and>
     (\<forall>k. \<forall>e \<in> set (queued_at r k). ev_target e = k) \<and>
     (\<forall>k q. fmlookup (ro_queues r) k = Some q \<longrightarrow> event_queues_wf q) \<and>
     (\<forall>(k, now, e) \<in> set (lg_delivered lg). ev_target e = k \<and> ev_target_tick e \<le> now) \<and>
     (\<forall>e \<in> set (lg_lost lg). ev_priority e = BestEffort \<or> ev_target e \<in> gone) \<and>
     rs_routed_events (ro_stats r) = length (lg_accepted lg) \<and>
     rs_drained_events (ro_stats r) = min (length (lg_delivered lg)) usize_max"

lemma event_push_lanes:
  assumes "event_push q e = (Ok outcome, q')"
  shows "mset (concat (event_lanes q')) + mset (if outcome = DroppedOldestBestEffort then take 1 (eq_best_effort q) else []) =
    add_mset e (mset (concat (event_lanes q)))"
  using assms
  by (cases "ev_priority e"; cases "eq_best_effort q")
    (auto simp: event_push_def event_lanes_def split: if_splits)

lemma queued_at_upd [simp]:
  "queued_at (r\<lparr>ro_queues := fmupd k q m\<rparr>) j = (if j = k then concat (event_lanes q) else queued_at (r\<lparr>ro_queues := m\<rparr>) j)"
  "queued_at (r\<lparr>ro_queues := fmdrop k m\<rparr>) j = (if j = k then [] else queued_at (r\<lparr>ro_queues := m\<rparr>) j)"
  "queued_at (r\<lparr>ro_queues := m, ro_stats := st\<rparr>) j = queued_at (r\<lparr>ro_queues := m\<rparr>) j"
  by (simp_all add: queued_at_def)

lemma queued_at_same [simp]: "queued_at (r\<lparr>ro_queues := ro_queues r\<rparr>) = queued_at r"
  by (simp add: queued_at_def fun_eq_iff)

lemma route_cases:
  assumes "route r e = (res, r')"
  obtains x where "res = Err x" "queued_at r' = queued_at r" "ro_stats r' = ro_stats r"
      "\<And>k. fmlookup (ro_queues r') k = fmlookup (ro_queues r) k"
  | outcome q q' where "res = Ok outcome" "fmlookup (ro_queues r) (ev_target e) = Some q" "event_push q e = (Ok outcome, q')"
      "ro_queues r' = fmupd (ev_target e) q' (ro_queues r)"
      "rs_routed_events (ro_stats r') = rs_routed_events (ro_stats r) + 1"
      "rs_drained_events (ro_stats r') = rs_drained_events (ro_stats r)"
proof (cases "fmlookup (ro_queues r) (ev_target e)")
  case None
  then have "res = Err (RouterMissingTarget (ev_target e))" "r' = r" using assms by (simp_all add: route_def)
  then show ?thesis using that(1) by simp
next
  case (Some q)
  obtain x q' where p: "event_push q e = (x, q')" by fastforce
  show ?thesis
  proof (cases x)
    case (Inl y)
    then have "q' = q" using p by (auto simp: event_push_def split: event_priority.splits if_splits)
    then have "res = Err (RouterQueue y)" "r' = r\<lparr>ro_queues := fmupd (ev_target e) q (ro_queues r)\<rparr>"
      using assms Some p Inl by (simp_all add: route_def)
    then have "res = Err (RouterQueue y)" "queued_at r' = queued_at r" "ro_stats r' = ro_stats r"
      "fmlookup (ro_queues r') k = fmlookup (ro_queues r) k" for k
      using Some by (auto simp: queued_at_def fun_eq_iff)
    then show ?thesis by (rule that(1))
  next
    case (Inr outcome)
    then show ?thesis using assms Some p that(2) by (auto simp: route_def Let_def split: if_splits)
  qed
qed

lemma router_drain_cases:
  obtains x where "router_drain r k now = Some (Err x, r)"
  | q where "fmlookup (ro_queues r) k = Some q"
      "router_drain r k now = Some (Ok (filter (ready now) (concat (event_lanes q))),
         r\<lparr>ro_queues := fmupd k (q\<lparr>eq_critical := filter (\<lambda>e. \<not> ready now e) (eq_critical q),
             eq_important := filter (\<lambda>e. \<not> ready now e) (eq_important q),
             eq_best_effort := filter (\<lambda>e. \<not> ready now e) (eq_best_effort q)\<rparr>) (ro_queues r),
           ro_stats := (ro_stats r)\<lparr>rs_drained_events :=
             usize_add (rs_drained_events (ro_stats r)) (length (filter (ready now) (concat (event_lanes q))))\<rparr>\<rparr>)"
  by (cases "fmlookup (ro_queues r) k")
    (simp_all add: router_drain_def router_drain_into_def append_ready_def drain_ready_into_spec Let_def)

lemma mset_partition: "mset (filter P xs) + mset (filter (\<lambda>x. \<not> P x) xs) = mset xs"
  by (induction xs) auto

lemma router_step_ok:
  assumes ok: "ledger_ok gone r lg" and step: "router_step x (r, lg) = (r', lg')"
  shows "ledger_ok (gone \<union> (case x of OpUnregister k \<Rightarrow> {k} | _ \<Rightarrow> {})) r' lg'"
proof (cases x)
  case (OpRegister k)
  then have r': "r' = router_register r k" "lg' = lg" using step by simp_all
  have q: "queued_at r' = queued_at r"
    by (auto simp: r' router_register_def queued_at_def event_lanes_def event_queues_new_def fun_eq_iff split: option.splits)
  have s: "ro_stats r' = ro_stats r" by (simp add: r' router_register_def split: option.split)
  have new: "event_queues_wf (event_queues_new l)" for l by (simp add: event_queues_wf_def event_queues_new_def)
  have wf: "event_queues_wf q" if "fmlookup (ro_queues r') j = Some q" for j q
    using that ok new by (auto simp: r' router_register_def ledger_ok_def split: option.splits if_splits)
  show ?thesis using ok wf OpRegister by (simp add: ledger_ok_def q s r'(2))
next
  case (OpUnregister k)
  then have r': "r' = r\<lparr>ro_queues := fmdrop k (ro_queues r)\<rparr>" "lg' = lg\<lparr>lg_lost := lg_lost lg @ queued_at r k\<rparr>"
    using step by (auto simp: router_unregister_def)
  have "bound_for j (queued_at r k) = (if j = k then queued_at r k else [])" for j
    using ok by (auto simp: ledger_ok_def bound_for_def filter_empty_conv filter_id_conv)
  then show ?thesis using ok OpUnregister
    by (auto simp: ledger_ok_def r' bound_for_def delivered_at_def split: if_splits)
next
  case (OpRoute e)
  obtain res r1 where rt: "route r e = (res, r1)" by fastforce
  show ?thesis using rt
  proof (cases rule: route_cases)
    case 1
    then show ?thesis using ok step OpRoute rt by (auto simp: ledger_ok_def)
  next
    case (2 outcome q q')
    let ?lost = "if outcome = DroppedOldestBestEffort then take 1 (eq_best_effort q) else []"
    have r': "r' = r1" "lg' = lg\<lparr>lg_accepted := lg_accepted lg @ [e], lg_lost := lg_lost lg @ ?lost\<rparr>"
      using step OpRoute rt 2 by (auto split: if_splits)
    have wf: "event_queues_wf q" using ok 2(2) by (simp add: ledger_ok_def)
    have q: "queued_at r (ev_target e) = concat (event_lanes q)" using 2(2) by (simp add: queued_at_def)
    have q1: "queued_at r1 j = (if j = ev_target e then concat (event_lanes q') else queued_at r j)" for j
      using 2(4) by (simp add: queued_at_def)
    have sub: "set ?lost \<subseteq> set (eq_best_effort q)" by (auto dest: in_set_takeD)
    have lost: "ev_target l = ev_target e \<and> ev_priority l = BestEffort" if "l \<in> set ?lost" for l
    proof -
      have "l \<in> set (eq_best_effort q)" using that sub by blast
      then show ?thesis using wf ok q by (auto simp: ledger_ok_def event_queues_wf_def list_all_iff event_lanes_def)
    qed
    have lost_for: "bound_for j ?lost = (if j = ev_target e then ?lost else [])" for j
    proof -
      have "\<forall>l \<in> set ?lost. ev_target l = ev_target e" using lost by blast
      then show ?thesis by (auto simp: bound_for_def filter_empty_conv filter_id_conv simp del: set_take_subset split: if_splits)
    qed
    have lanes: "mset (concat (event_lanes q')) + mset ?lost = add_mset e (mset (concat (event_lanes q)))"
      by (rule event_push_lanes [OF 2(3)])
    have members: "set (concat (event_lanes q')) \<subseteq> insert e (set (concat (event_lanes q)))"
      using arg_cong [OF lanes, of set_mset] by auto
    show ?thesis unfolding ledger_ok_def
    proof (intro conjI allI)
      fix k
      have "mset (bound_for k (lg_accepted lg)) =
          mset (delivered_at lg k) + mset (queued_at r k) + mset (bound_for k (lg_lost lg))"
        using ok by (simp add: ledger_ok_def)
      moreover have "mset (queued_at r1 k) + mset (bound_for k ?lost) =
          mset (queued_at r k) + (if k = ev_target e then {#e#} else {#})"
        using lanes q q1 lost_for by simp
      ultimately show "mset (bound_for k (lg_accepted lg')) =
          mset (delivered_at lg' k) + mset (queued_at r' k) + mset (bound_for k (lg_lost lg'))"
        unfolding r' by (simp add: bound_for_def delivered_at_def)
    next
      fix k
      show "\<forall>e \<in> set (queued_at r' k). ev_target e = k"
      proof
        fix l assume l: "l \<in> set (queued_at r' k)"
        have "\<forall>j. \<forall>l \<in> set (queued_at r j). ev_target l = j" using ok by (simp add: ledger_ok_def)
        then show "ev_target l = k"
          using l members [folded q] unfolding r' q1 by (cases "k = ev_target e") auto
      qed
      show "fmlookup (ro_queues r') k = Some p \<longrightarrow> event_queues_wf p" for p
        using ok 2(4) event_push_wf [OF 2(3) wf] unfolding r' ledger_ok_def by auto
      show "\<forall>e \<in> set (lg_lost lg'). ev_priority e = BestEffort \<or> ev_target e \<in> gone \<union> (case x of OpUnregister k \<Rightarrow> {k} | _ \<Rightarrow> {})"
        using ok lost OpRoute unfolding r' ledger_ok_def by auto
      show "\<forall>(k, now, e) \<in> set (lg_delivered lg'). ev_target e = k \<and> ev_target_tick e \<le> now"
        "rs_routed_events (ro_stats r') = length (lg_accepted lg')"
        "rs_drained_events (ro_stats r') = min (length (lg_delivered lg')) usize_max"
        using ok 2(5,6) unfolding r' ledger_ok_def by simp_all
    qed
  qed
next
  case (OpDrain k now)
  show ?thesis
  proof (cases rule: router_drain_cases [of r k now])
    case 1
    then show ?thesis using ok step OpDrain by (auto simp: ledger_ok_def)
  next
    case (2 q)
    let ?all = "concat (event_lanes q)"
    have r': "queued_at r' j = (if j = k then filter (\<lambda>e. \<not> ready now e) ?all else queued_at r j)"
      "lg' = lg\<lparr>lg_delivered := lg_delivered lg @ map (\<lambda>e. (k, now, e)) (filter (ready now) ?all)\<rparr>" for j
      using step OpDrain 2(2) by (auto simp: event_lanes_def)
    have q: "queued_at r k = ?all" using 2(1) by (simp add: queued_at_def)
    have at: "delivered_at lg' j = delivered_at lg j @ (if j = k then filter (ready now) ?all else [])" for j
      by (simp add: r' delivered_at_def filter_map comp_def)
    show ?thesis unfolding ledger_ok_def
    proof (intro conjI allI)
      fix j
      have "mset (bound_for j (lg_accepted lg)) =
          mset (delivered_at lg j) + mset (queued_at r j) + mset (bound_for j (lg_lost lg))"
        using ok by (simp add: ledger_ok_def)
      then show "mset (bound_for j (lg_accepted lg')) =
          mset (delivered_at lg' j) + mset (queued_at r' j) + mset (bound_for j (lg_lost lg'))"
        using mset_partition [of "ready now" ?all] q unfolding at r'(1) by (simp add: r'(2) add.assoc)
    next
      fix j
      show "\<forall>e \<in> set (queued_at r' j). ev_target e = j"
        using ok q unfolding r'(1) ledger_ok_def by auto
      show "fmlookup (ro_queues r') j = Some p \<longrightarrow> event_queues_wf p" for p
      proof -
        have "event_queues_wf q" using ok 2(1) by (simp add: ledger_ok_def)
        note event_drain_wf [OF drain_ready_into_spec [of q now "[]"] this]
        then show ?thesis using ok step OpDrain 2(2) unfolding ledger_ok_def by (auto split: if_splits)
      qed
      have "\<forall>e \<in> set (filter (ready now) ?all). ev_target e = k \<and> ev_target_tick e \<le> now"
        using ok q by (auto simp: ledger_ok_def ready_def)
      then show "\<forall>(k, now, e) \<in> set (lg_delivered lg'). ev_target e = k \<and> ev_target_tick e \<le> now"
        using ok unfolding r'(2) ledger_ok_def by auto
      show "\<forall>e \<in> set (lg_lost lg'). ev_priority e = BestEffort \<or> ev_target e \<in> gone \<union> (case x of OpUnregister k \<Rightarrow> {k} | _ \<Rightarrow> {})"
        "rs_routed_events (ro_stats r') = length (lg_accepted lg')"
        "rs_drained_events (ro_stats r') = min (length (lg_delivered lg')) usize_max"
        using ok step OpDrain 2 unfolding r'(2) ledger_ok_def by (auto simp: usize_add_def)
    qed
  qed
qed


lemma router_fold_ok:
  "ledger_ok gone r lg \<Longrightarrow> fold router_step ops (r, lg) = (r', lg') \<Longrightarrow>
   ledger_ok (gone \<union> {k. OpUnregister k \<in> set ops}) r' lg'"
proof (induction ops arbitrary: gone r lg)
  case (Cons x ops)
  obtain r1 lg1 where step: "router_step x (r, lg) = (r1, lg1)" by fastforce
  have "ledger_ok (gone \<union> (case x of OpUnregister k \<Rightarrow> {k} | _ \<Rightarrow> {}) \<union> {k. OpUnregister k \<in> set ops}) r' lg'"
    by (rule Cons.IH [OF router_step_ok [OF Cons.prems(1) step]]) (use Cons.prems(2) step in simp)
  moreover have "gone \<union> (case x of OpUnregister k \<Rightarrow> {k} | _ \<Rightarrow> {}) \<union> {k. OpUnregister k \<in> set ops} =
      gone \<union> {k. OpUnregister k \<in> set (x # ops)}"
    by (cases x) auto
  ultimately show ?case by simp
qed simp

lemma router_run_ok:
  assumes "router_run l ops = (r, lg)"
  shows "ledger_ok {k. OpUnregister k \<in> set ops} r lg"
proof -
  have "ledger_ok {} (router_new l) \<lparr>lg_accepted = [], lg_delivered = [], lg_lost = []\<rparr>"
    by (simp add: ledger_ok_def router_new_def queued_at_def bound_for_def delivered_at_def)
  from router_fold_ok [OF this] assms show ?thesis by (simp add: router_run_def)
qed

section \<open>In which order events are delivered\<close>

text \<open>The events of one priority that are due at one tick.\<close>

definition due_class :: "event_priority \<Rightarrow> tick \<Rightarrow> station_event list \<Rightarrow> station_event list" where
  "due_class p due = filter (\<lambda>e. ev_priority e = p \<and> ev_target_tick e = due)"

definition order_ok :: "event_router \<Rightarrow> event_ledger \<Rightarrow> bool" where
  "order_ok r lg \<longleftrightarrow>
     (\<forall>k p due. subseq (due_class p due (delivered_at lg k @ queued_at r k)) (due_class p due (bound_for k (lg_accepted lg))))"

lemma due_class_Nil: "due_class p due [] = []"
  by (simp add: due_class_def)

lemma due_class_append [simp]: "due_class p due (xs @ ys) = due_class p due xs @ due_class p due ys"
  by (simp add: due_class_def)

text \<open>A push keeps the order of its class and puts the new event behind it.\<close>

lemma event_push_order:
  assumes "event_push q e = (Ok outcome, q')" and "event_queues_wf q"
  shows "subseq (due_class p due (concat (event_lanes q'))) (due_class p due (concat (event_lanes q)) @ due_class p due [e])"
proof -
  have lane: "due_class p due xs = []" if "list_all (\<lambda>e. ev_priority e = p') xs" "p \<noteq> p'" for p' xs
    using that by (auto simp: due_class_def filter_empty_conv list_all_iff)
  have tl: "subseq (due_class p due (tl xs)) (due_class p due xs)" for xs
    unfolding due_class_def by (rule subseq_filter) (cases xs; auto intro: list_emb_Cons)
  show ?thesis
  proof (cases "ev_priority e")
    case Critical
    then show ?thesis using assms lane [of Important] lane [of BestEffort]
      by (cases "p = Critical") (auto simp: event_push_def event_lanes_def event_queues_wf_def due_class_def split: if_splits)
  next
    case Important
    then show ?thesis using assms lane [of BestEffort]
      by (cases "p = Important") (auto simp: event_push_def event_lanes_def event_queues_wf_def due_class_def split: if_splits)
  next
    case BestEffort
    then show ?thesis using assms tl
      by (auto simp: event_push_def event_lanes_def snd_pop_front list_emb_append_mono split: if_splits)
  qed
qed

lemma due_class_ready:
  "due_class p due (filter (ready now) xs) @ due_class p due (filter (\<lambda>e. \<not> ready now e) xs) = due_class p due xs"
proof (cases "due \<le> now")
  case True
  then have "due_class p due (filter (ready now) xs) = due_class p due xs"
    "due_class p due (filter (\<lambda>e. \<not> ready now e) xs) = []"
    by (induction xs) (auto simp: due_class_def ready_def)
  then show ?thesis by simp
next
  case False
  then have "due_class p due (filter (ready now) xs) = []"
    "due_class p due (filter (\<lambda>e. \<not> ready now e) xs) = due_class p due xs"
    by (induction xs) (auto simp: due_class_def ready_def)
  then show ?thesis by simp
qed

lemma router_step_order:
  assumes ok: "ledger_ok gone r lg" and ord: "order_ok r lg" and step: "router_step x (r, lg) = (r', lg')"
  shows "order_ok r' lg'"
proof (cases x)
  case (OpRegister k)
  then have r': "r' = router_register r k" "lg' = lg" using step by simp_all
  have "queued_at r' = queued_at r"
    by (auto simp: r' router_register_def queued_at_def event_lanes_def event_queues_new_def fun_eq_iff split: option.splits)
  then show ?thesis using ord r'(2) by (simp add: order_ok_def)
next
  case (OpUnregister k)
  then have r': "queued_at r' j = (if j = k then [] else queued_at r j)" "delivered_at lg' = delivered_at lg"
    "lg_accepted lg' = lg_accepted lg" for j
    using step by (auto simp: router_unregister_def delivered_at_def fun_eq_iff)
  have "subseq (due_class p due (delivered_at lg j @ queued_at r' j)) (due_class p due (delivered_at lg j @ queued_at r j))" for j p due
    by (cases "j = k") (auto simp: r' due_class_Nil intro: subseq_rev_drop_many)
  then show ?thesis using ord subseq_order.trans unfolding order_ok_def r'(2,3) by blast
next
  case (OpRoute e)
  obtain res r1 where rt: "route r e = (res, r1)" by fastforce
  show ?thesis using rt
  proof (cases rule: route_cases)
    case 1
    then show ?thesis using ord step OpRoute rt by (auto simp: order_ok_def)
  next
    case (2 outcome q q')
    have r': "r' = r1" "delivered_at lg' = delivered_at lg" "lg_accepted lg' = lg_accepted lg @ [e]"
      using step OpRoute rt 2 by (auto simp: delivered_at_def fun_eq_iff split: if_splits)
    have wf: "event_queues_wf q" using ok 2(2) by (simp add: ledger_ok_def)
    have queued: "queued_at r1 j = (if j = ev_target e then concat (event_lanes q') else queued_at r j)"
      "queued_at r (ev_target e) = concat (event_lanes q)" for j using 2(2,4) by (simp_all add: queued_at_def)
    have "subseq (due_class p due (queued_at r1 k)) (due_class p due (queued_at r k) @ due_class p due (bound_for k [e]))" for k p due
      using event_push_order [OF 2(3) wf] by (simp add: queued bound_for_def due_class_Nil)
    then have "subseq (due_class p due (delivered_at lg k) @ due_class p due (queued_at r1 k))
        ((due_class p due (delivered_at lg k) @ due_class p due (queued_at r k)) @ due_class p due (bound_for k [e]))" for k p due
      by (simp add: list_emb_append_mono)
    then have "subseq (due_class p due (delivered_at lg k) @ due_class p due (queued_at r1 k))
        (due_class p due (bound_for k (lg_accepted lg)) @ due_class p due (bound_for k [e]))" for k p due
      using ord unfolding order_ok_def due_class_append by (blast intro: subseq_order.trans list_emb_append_mono subseq_order.refl)
    then show ?thesis unfolding order_ok_def r' by (simp add: bound_for_def)
  qed
next
  case (OpDrain k now)
  show ?thesis
  proof (cases rule: router_drain_cases [of r k now])
    case 1
    then show ?thesis using ord step OpDrain by (auto simp: order_ok_def)
  next
    case (2 q)
    let ?all = "concat (event_lanes q)"
    have r': "queued_at r' j = (if j = k then filter (\<lambda>e. \<not> ready now e) ?all else queued_at r j)"
      "lg' = lg\<lparr>lg_delivered := lg_delivered lg @ map (\<lambda>e. (k, now, e)) (filter (ready now) ?all)\<rparr>" for j
      using step OpDrain 2(2) by (auto simp: event_lanes_def)
    have "queued_at r k = ?all" using 2(1) by (simp add: queued_at_def)
    moreover have "delivered_at lg' j = delivered_at lg j @ (if j = k then filter (ready now) ?all else [])" for j
      by (simp add: r' delivered_at_def filter_map comp_def)
    ultimately have "due_class p due (delivered_at lg' j @ queued_at r' j) = due_class p due (delivered_at lg j @ queued_at r j)" for j p due
      using due_class_ready [of p due now ?all] by (simp add: r'(1) due_class_Nil)
    moreover have "lg_accepted lg' = lg_accepted lg" by (simp add: r'(2))
    ultimately show ?thesis using ord by (simp add: order_ok_def)
  qed
qed

lemma router_fold_order:
  "ledger_ok gone r lg \<Longrightarrow> order_ok r lg \<Longrightarrow> fold router_step ops (r, lg) = (r', lg') \<Longrightarrow> order_ok r' lg'"
proof (induction ops arbitrary: gone r lg)
  case (Cons x ops)
  obtain r1 lg1 where step: "router_step x (r, lg) = (r1, lg1)" by fastforce
  show ?case
    by (rule Cons.IH [OF router_step_ok [OF Cons.prems(1) step] router_step_order [OF Cons.prems(1,2) step]])
      (use Cons.prems(3) step in simp)
qed simp

lemma router_run_order:
  assumes "router_run l ops = (r, lg)"
  shows "order_ok r lg"
proof -
  let ?lg = "\<lparr>lg_accepted = [], lg_delivered = [], lg_lost = []\<rparr>"
  have "ledger_ok {} (router_new l) ?lg" "order_ok (router_new l) ?lg"
    by (simp_all add: ledger_ok_def order_ok_def router_new_def queued_at_def bound_for_def delivered_at_def due_class_def)
  from router_fold_order [OF this] assms show ?thesis by (simp add: router_run_def)
qed

text \<open>C12. The router accounts for every event exactly once, and keeps order. After any sequence of
  registrations, removals, routings and drains, the events accepted for a station are those drained at
  it, those still queued for it and those given up; among the events of a station with one priority and
  one target tick, the delivered ones followed by the queued ones are in the order of their routing; a
  drained event was addressed to the draining station and was due; only best-effort events, or events of
  a station that was unregistered, are ever given up; and the counters of routed events, until they
  reach the largest \<open>usize\<close>, and of drained events, which saturate there, are exact.\<close>

theorem router_accounts_for_events:
  assumes "router_run l ops = (r, lg)"
  shows "(\<forall>k. mset (bound_for k (lg_accepted lg)) =
      mset (delivered_at lg k) + mset (queued_at r k) + mset (bound_for k (lg_lost lg))) \<and>
    (\<forall>k p due. subseq (due_class p due (delivered_at lg k @ queued_at r k)) (due_class p due (bound_for k (lg_accepted lg)))) \<and>
    (\<forall>(k, now, e) \<in> set (lg_delivered lg). ev_target e = k \<and> ev_target_tick e \<le> now) \<and>
    (\<forall>e \<in> set (lg_lost lg). ev_priority e = BestEffort \<or> OpUnregister (ev_target e) \<in> set ops) \<and>
    (length (lg_accepted lg) \<le> usize_max \<longrightarrow> rs_routed_events (ro_stats r) = length (lg_accepted lg)) \<and>
    rs_drained_events (ro_stats r) = min (length (lg_delivered lg)) usize_max"
  using router_run_ok [OF assms] router_run_order [OF assms] by (simp add: ledger_ok_def order_ok_def)

lemma router_accounts_for_events_witness:
  "\<exists>r lg. router_run default_event_limits [OpRegister 2, OpRoute (demo_event 7 3 Critical), OpDrain 2 5] = (r, lg) \<and>
     delivered_at lg 2 = [demo_event 7 3 Critical] \<and> queued_at r 2 = [] \<and> rs_drained_events (ro_stats r) = 1"
proof -
  let ?ops = "[OpRegister 2, OpRoute (demo_event 7 3 Critical), OpDrain 2 5]"
  obtain r lg where run: "router_run default_event_limits ?ops = (r, lg)" by fastforce
  then have lg: "lg_delivered lg = [(2, 5, demo_event 7 3 Critical)]" "lg_accepted lg = [demo_event 7 3 Critical]"
    by (auto simp: router_run_def router_new_def router_register_def route_def event_push_def event_queues_new_def
      default_event_limits_def demo_event_def router_drain_def router_drain_into_def append_ready_def
      drain_ready_into_spec event_lanes_def ready_def Let_def)
  have "ev_target (demo_event 7 3 Critical) = 2" by (simp add: demo_event_def)
  then have "mset (queued_at r 2) = {#}"
    using router_accounts_for_events [OF run] lg by (auto simp: delivered_at_def bound_for_def dest: spec [of _ 2])
  then show ?thesis
    using router_accounts_for_events [OF run] lg run by (simp add: delivered_at_def usize_max_def)
qed

section \<open>Routing through the transport is routing\<close>

definition event_packet :: "station_event \<Rightarrow> station_inbound_packet" where
  "event_packet e =
     \<lparr>si_source_station = ev_source e, si_target_station = ev_target e,
      si_bytes = snd (encode_station_event (event_frame_from_event e) [])\<rparr>"

lemma event_encodes:
  "encode_station_event (event_frame_from_event e) [] = (Ok (), si_bytes (event_packet e))"
  by (simp add: event_packet_def encode_station_event_def w_put_def)

lemma event_packet_decodes: "binary_decode (si_bytes (event_packet e)) = Ok (RfStationEvent (event_frame_from_event e))"
proof -
  let ?f = "RfStationEvent (event_frame_from_event e)"
  have ok: "frame_ok ?f" by (simp add: frame_ok_def)
  have "encode_frame ?f [] = (Ok (), enc_frame ?f)" using encode_frame_cases(1) [OF ok] by (simp add: writes_def)
  then have bytes: "si_bytes (event_packet e) = enc_frame ?f" by (simp add: encode_frame_def event_packet_def)
  have "length (enc_frame ?f) < usize_max"
    by (cases "ev_kind e") (simp_all add: enc_frame_def enc_body_def enc_event_def encode_event_kind_def usize_max_def
        event_frame_from_event_def)
  then show ?thesis unfolding bytes using binary_decode_reads(1) [OF frame_reads [OF ok]] by simp
qed

lemma accept_event_packet:
  "accept_event r (event_packet e) =
     (case route r e of (Inl x, r1) \<Rightarrow> (Err (EventRouterRefused x), r1) | (Inr _, r1) \<Rightarrow> (Ok (), r1))"
  by (simp add: accept_event_def event_packet_decodes event_frame_roundtrip)
    (simp add: event_packet_def event_frame_from_event_def)

definition receive_event :: "event_router \<Rightarrow> station_event \<Rightarrow> ('e event_transport_error + unit) \<times> event_router" where
  "receive_event r e =
     (case route r e of (Inl x, r1) \<Rightarrow> (Err (EventRouterRefused x), r1) | (Inr _, r1) \<Rightarrow> (Ok (), r1))"

interpretation event_bridge: packet_bridge event_packet accept_event receive_event "\<lambda>e. True"
  by unfold_locales (simp add: accept_event_packet receive_event_def)

text \<open>Sending a list of events, and routing it locally, until one is refused.\<close>

fun send_events ::
  "('t, 'e, station_outbound_packet) sink \<Rightarrow> event_transport_stats \<Rightarrow> 't \<Rightarrow> station_event list \<Rightarrow>
   ('e event_transport_error + unit) \<times> event_transport_stats \<times> 't" where
  "send_events send st t [] = (Ok (), st, t)"
| "send_events send st t (e # es) =
     (case send_event send st t e of
        (Inl x, st1, t1) \<Rightarrow> (Err x, st1, t1)
      | (Inr _, st1, t1) \<Rightarrow> send_events send st1 t1 es)"

fun route_all :: "event_router \<Rightarrow> station_event list \<Rightarrow> (router_error + unit) \<times> event_router" where
  "route_all r [] = (Ok (), r)"
| "route_all r (e # es) =
     (case route r e of (Inl x, r1) \<Rightarrow> (Err x, r1) | (Inr _, r1) \<Rightarrow> route_all r1 es)"

lemma receive_events:
  "apply_all receive_event r es =
     (case route_all r es of (Inl x, r1) \<Rightarrow> (Err (EventRouterRefused x), r1) | (Inr _, r1) \<Rightarrow> (Ok (), r1))"
  by (induction es arbitrary: r) (auto simp: receive_event_def split: prod.split sum.split)

lemma receive_events_Err:
  "apply_all receive_event r es = (Err f, r1) \<longleftrightarrow> (\<exists>x. f = EventRouterRefused x \<and> route_all r es = (Err x, r1))"
  by (auto simp: receive_events split: prod.splits sum.splits)

lemma send_event_inbox:
  assumes "send_event memory_send_station st t e = (Ok (), st1, t1)"
  shows "\<exists>q. inbox t (ev_target e) = Some q \<and> inbox t1 = (inbox t)(ev_target e \<mapsto> q @ [event_packet e])"
proof -
  let ?p = "\<lparr>so_source_station = ev_source e, so_target_station = ev_target e, so_bytes = si_bytes (event_packet e)\<rparr>"
  have "memory_send_station t ?p = (Ok (), t1)"
    using assms by (auto simp: send_event_def event_encodes split: prod.splits sum.splits)
  from memory_send_inbox [OF this] show ?thesis by (simp add: event_packet_def)
qed

lemma send_events_inbox:
  assumes "send_events memory_send_station st t es = (Ok (), st1, t1)" "inbox t k = Some q"
  shows "inbox t1 k = Some (q @ map event_packet (bound_for k es))"
  using assms
proof (induction es arbitrary: st t q)
  case (Cons e es)
  obtain st2 t2 where one: "send_event memory_send_station st t e = (Ok (), st2, t2)"
    and rest: "send_events memory_send_station st2 t2 es = (Ok (), st1, t1)"
    using Cons.prems(1) by (auto split: prod.splits sum.splits)
  show ?case
  proof (cases "ev_target e = k")
    case True
    then have "inbox t2 k = Some (q @ [event_packet e])" using send_event_inbox [OF one] Cons.prems(2) by auto
    from Cons.IH [OF rest this] True show ?thesis by (simp add: bound_for_def)
  next
    case False
    then have "inbox t2 k = Some q" using send_event_inbox [OF one] Cons.prems(2) by auto
    from Cons.IH [OF rest this] False show ?thesis by (simp add: bound_for_def)
  qed
qed (simp add: bound_for_def)

text \<open>C13. Carrying events between processes is routing them. When a list of events was sent through the
  in-memory station transport, pumping one of its stations consumes exactly that station's packets
  and leaves the router as if the station's events had been routed to it directly, in the order of
  sending; the pump fails exactly when the direct routing does, with the router's error, and then
  leaves the packets after the refused one queued.\<close>

theorem remote_routing_is_local:
  assumes "send_events memory_send_station st t es = (Ok (), st1, t1)" and "inbox t k = Some []"
    and "length (bound_for k es) \<le> max_packets" and "length es \<le> usize_max"
    and "pump_events memory_try_recv_station stats t1 r k max_packets = (res, stats2, t2, r2)"
    and "route_all r (bound_for k es) = (local, r_local)"
  shows "(\<exists>rep. res = Ok rep \<and> pr_accepted rep = length (bound_for k es) \<and> local = Ok () \<and> r2 = r_local \<and>
      inbox t2 k = Some []) \<or>
    (\<exists>x m. res = Err (EventRouterRefused x) \<and> local = Err x \<and> r2 = r_local \<and>
      inbox t2 k = Some (map event_packet (drop m (bound_for k es))) \<and>
      route_all r (take m (bound_for k es)) = (Err x, r2))"
proof -
  let ?es = "bound_for k es"
  have box: "inbox t1 k = Some (map event_packet ?es)" using send_events_inbox [OF assms(1,2)] by simp
  obtain x t3 s3 where run: "pump_loop memory_try_recv_station EventTransport accept_event k max_packets t1 r
      (pump_report_new k) = (x, t3, s3)"
    by (metis prod_cases3)
  obtain y :: "station_transport_error event_transport_error + unit" and r3
    where rcv: "apply_all receive_event r ?es = (y, r3)" by fastforce
  have "length ?es \<le> usize_max" unfolding bound_for_def by (rule le_trans [OF length_filter_le assms(4)])
  note pumped = event_bridge.pump_is_local [OF box _ assms(3) this run rcv]
  have out: "t2 = t3" "r2 = s3" "res = x" using assms(5) run by (auto simp: pump_events_def split: sum.splits)
  have "y = (case local of Inl x \<Rightarrow> Err (EventRouterRefused x) | Inr _ \<Rightarrow> Ok ())" "r3 = r_local"
    using rcv assms(6) by (auto simp: receive_events split: sum.splits)
  then show ?thesis using pumped unfolding out receive_events_Err by (auto split: sum.splits)
qed

lemma remote_routing_is_local_witness:
  "\<exists>stats t rep r. pump_events memory_try_recv_station event_stats_zero
      (snd (snd (send_events memory_send_station event_stats_zero
        (memory_register_station (memory_station_new default_station_limits) 2) [demo_event 7 3 Critical])))
      (router_register (router_new default_event_limits) 2) 2 4 = (Ok rep, stats, t, r) \<and>
    pr_accepted rep = 1 \<and> queued_at r 2 = [demo_event 7 3 Critical]"
proof -
  let ?t = "memory_register_station (memory_station_new default_station_limits) 2"
    and ?r = "router_register (router_new default_event_limits) 2" and ?e = "demo_event 7 3 Critical"
  have box: "inbox ?t 2 = Some []"
    by (simp add: memory_register_station_def memory_station_new_def amap.get_put)
  have small: "length (si_bytes (event_packet ?e)) \<le> 16 * 1024"
    by (simp add: event_packet_def encode_station_event_def w_put_def encode_event_kind_def demo_event_def event_frame_from_event_def)
  have lims: "mt_limits ?t = default_station_limits"
    by (simp add: memory_register_station_def memory_station_new_def)
  have to: "ev_target ?e = 2" by (simp add: demo_event_def)
  obtain st1 t1 where sent: "send_events memory_send_station event_stats_zero ?t [?e] = (Ok (), st1, t1)"
    using small box lims to
    by (simp add: send_event_def event_encodes memory_send_station_def default_station_limits_def Let_def)
  obtain res stats t2 r2 where pump: "pump_events memory_try_recv_station event_stats_zero t1 ?r 2 4 = (res, stats, t2, r2)"
    by (metis prod_cases4)
  have bound: "bound_for 2 [?e] = [?e]" using to by (simp add: bound_for_def)
  obtain r_local where local: "route_all ?r (bound_for 2 [?e]) = (Ok (), r_local)" "queued_at r_local 2 = [?e]"
    unfolding bound using to
    by (simp add: router_register_def router_new_def route_def event_push_def event_queues_new_def
      default_event_limits_def demo_event_def queued_at_def event_lanes_def Let_def)
  have "length (bound_for 2 [?e]) \<le> 4" "length [?e] \<le> usize_max" by (simp_all add: bound usize_max_def)
  from remote_routing_is_local [OF sent box this pump local(1)] local(2) pump sent show ?thesis
    by (auto simp: bound)
qed

end
