(* ===== verification/Station_Scheduler.thy ===== *)
theory Station_Scheduler
  imports Split_Scheduler Event_Router Selection
begin

text \<open>
  The station scheduler of the runtime crate: which stations advance in a step of limited size, and
  the collection of the events that are ready for them. Reusable storage is a result here; the standard
  library's partial selection is the parameter \<open>sel\<close>.
\<close>

record schedule_candidate =
  sc_station_id :: station_id
  sc_load_score :: u64
  sc_tick_lag :: u64

record schedule_plan =
  sv_candidates_considered :: usize
  sv_stations_selected :: usize
  sv_total_advances :: usize
  sv_selected :: "schedule_candidate list"

record station_scheduler =
  sd_advanced_ticks :: u64

definition station_schedule_score :: "station_load_sample \<Rightarrow> u64" where
  "station_schedule_score s = sat_add (station_load_score s) (max_cell_pressure s)"

text \<open>\<open>compare_station_schedule_candidates l r\<close> is not \<open>Greater\<close>.\<close>

definition candidate_le :: "schedule_candidate \<Rightarrow> schedule_candidate \<Rightarrow> bool" where
  "candidate_le l r \<longleftrightarrow>
     sc_load_score r < sc_load_score l \<or> sc_load_score r = sc_load_score l \<and>
       (sc_tick_lag r < sc_tick_lag l \<or> sc_tick_lag r = sc_tick_lag l \<and> sc_station_id l \<le> sc_station_id r)"

definition prioritize_station_candidates ::
  "(nat \<Rightarrow> schedule_candidate list \<Rightarrow> schedule_candidate list) \<Rightarrow> schedule_candidate list \<Rightarrow> usize \<Rightarrow>
   schedule_candidate list" where
  "prioritize_station_candidates sel cs limit =
     (if limit = 0 then cs
      else if usize_mul limit 2 < length cs
      then (let cs = sel limit cs in sort_by_le candidate_le (take limit cs) @ drop limit cs)
      else sort_by_le candidate_le cs)"

definition sample_scores :: "station_load_sample list \<Rightarrow> (station_id, u64) fmap" where
  "sample_scores samples = fold (\<lambda>s m. fmupd (sl_station_id s) (station_schedule_score s) m) samples fmempty"

definition max_station_tick :: "station_set \<Rightarrow> tick" where
  "max_station_tick ss = fold max (map st_tick (station_set_iter ss)) 0"

definition schedule_candidates :: "station_set \<Rightarrow> station_load_sample list \<Rightarrow> schedule_candidate list" where
  "schedule_candidates ss samples =
     map (\<lambda>s. \<lparr>sc_station_id = station_key s,
               sc_load_score = (case fmlookup (sample_scores samples) (station_key s) of None \<Rightarrow> 0 | Some x \<Rightarrow> x),
               sc_tick_lag = sat_sub (max_station_tick ss) (st_tick s)\<rparr>) (station_set_iter ss)"

definition plan_loaded ::
  "(nat \<Rightarrow> schedule_candidate list \<Rightarrow> schedule_candidate list) \<Rightarrow> station_set \<Rightarrow> station_load_sample list \<Rightarrow>
   usize \<Rightarrow> schedule_plan" where
  "plan_loaded sel ss samples max_advances =
     (let considered = station_set_len ss;
          limit = min max_advances considered;
          selected = take limit (prioritize_station_candidates sel (schedule_candidates ss samples) limit)
      in \<lparr>sv_candidates_considered = considered, sv_stations_selected = length selected,
          sv_total_advances = length selected, sv_selected = selected\<rparr>)"

definition count_advance :: "station_scheduler \<Rightarrow> station_scheduler" where
  "count_advance sd = sd\<lparr>sd_advanced_ticks := sat_add (sd_advanced_ticks sd) 1\<rparr>"

definition advance_all :: "station_scheduler \<Rightarrow> station_set \<Rightarrow> station_scheduler \<times> station_set" where
  "advance_all sd ss =
     (fold (\<lambda>s. count_advance) (kv_items ss) sd, ss\<lparr>kv_items := map advance_tick (kv_items ss)\<rparr>)"

fun advance_selected :: "station_id list \<Rightarrow> station_scheduler \<Rightarrow> station_set \<Rightarrow> station_scheduler \<times> station_set" where
  "advance_selected [] sd ss = (sd, ss)"
| "advance_selected (k # ks) sd ss =
     (case station_set_get ss k of
        None \<Rightarrow> advance_selected ks sd ss
      | Some s \<Rightarrow> advance_selected ks (count_advance sd) (station_set_write ss k (advance_tick s)))"

definition advance_loaded ::
  "(nat \<Rightarrow> schedule_candidate list \<Rightarrow> schedule_candidate list) \<Rightarrow> station_scheduler \<Rightarrow> station_set \<Rightarrow>
   station_load_sample list \<Rightarrow> usize \<Rightarrow> schedule_plan \<times> station_scheduler \<times> station_set" where
  "advance_loaded sel sd ss samples max_advances =
     (let plan = plan_loaded sel ss samples max_advances in
      (plan, advance_selected (map sc_station_id (sv_selected plan)) sd ss))"

fun drain_stations ::
  "station list \<Rightarrow> event_router \<Rightarrow> station_event list \<Rightarrow>
   ((router_error + unit) \<times> event_router \<times> station_event list) option" where
  "drain_stations [] r out = Some (Ok (), r, out)"
| "drain_stations (s # ss) r out =
     (case append_ready r (station_key s) (st_tick s) out of
        None \<Rightarrow> None
      | Some (Inl e, r1, out1) \<Rightarrow> Some (Err e, r1, out1)
      | Some (Inr _, r1, out1) \<Rightarrow> drain_stations ss r1 out1)"

definition drain_ready_events ::
  "station_set \<Rightarrow> event_router \<Rightarrow> ((router_error + unit) \<times> event_router \<times> station_event list) option" where
  "drain_ready_events ss r = drain_stations (station_set_iter ss) r []"

section \<open>The plan\<close>

definition candidate_rank :: "schedule_candidate \<Rightarrow> int \<times> int \<times> station_id" where
  "candidate_rank c = (- uint (sc_load_score c), - uint (sc_tick_lag c), sc_station_id c)"

lemma candidate_le_rank: "candidate_le l r \<longleftrightarrow> candidate_rank l \<le> candidate_rank r"
  by (auto simp: candidate_le_def candidate_rank_def less_eq_prod_def less_prod_def word_less_def word_uint_eq_iff)

lemma prioritize_stations_top:
  assumes law: "lawful_select candidate_le sel" and "length cs \<le> usize_max" and n: "n \<le> length cs"
  shows "map candidate_rank (take n (prioritize_station_candidates sel cs n)) = take n (sort (map candidate_rank cs))"
proof (cases "n = 0")
  case False
  have sort: "sort_by_le candidate_le ys = sort_key candidate_rank ys" for ys
    using sort_by_le_key [of candidate_le candidate_rank] candidate_le_rank by blast
  show ?thesis
  proof (cases "usize_mul n 2 < length cs")
    case True
    then have "min (2 * n) usize_max < length cs" by (simp add: usize_mul_def mult.commute)
    then have "n < length cs" using assms(2) n False by (auto simp: min_def split: if_splits)
    from select_sort_top(1) [of candidate_le candidate_rank, OF candidate_le_rank law this] True False show ?thesis
      by (simp add: prioritize_station_candidates_def Let_def)
  next
    case full: False
    then show ?thesis using False
      by (simp add: prioritize_station_candidates_def sort take_map [symmetric] map_sort_key)
  qed
qed simp

lemma prioritize_stations_perm:
  assumes "lawful_select candidate_le sel"
  shows "mset (prioritize_station_candidates sel cs n) = mset cs"
proof -
  have sort: "sort_by_le candidate_le ys = sort_key candidate_rank ys" for ys
    using sort_by_le_key [of candidate_le candidate_rank] candidate_le_rank by blast
  have "mset (sel n cs) = mset cs" using assms by (simp add: lawful_select_def)
  moreover have "mset (take n ys) + mset (drop n ys) = mset ys" for ys :: "schedule_candidate list"
    by (metis append_take_drop_id mset_append)
  ultimately show ?thesis by (simp add: prioritize_station_candidates_def sort Let_def)
qed

section \<open>Advancing\<close>

lemma advance_tick_key [simp]: "station_key (advance_tick s) = station_key s"
  by (simp add: advance_tick_def station_key_def)

lemma advance_selected_view:
  assumes "set_sound ss" "distinct ks" "advance_selected ks sd ss = (sd', ss')"
  shows "set_sound ss' \<and> map station_key (kv_items ss') = map station_key (kv_items ss) \<and>
    (\<forall>k. station_set_get ss' k =
       map_option (\<lambda>s. if k \<in> set ks then advance_tick s else s) (station_set_get ss k))"
  using assms
proof (induction ks arbitrary: sd ss)
  case Nil
  then show ?case by (auto simp: option.map_ident)
next
  case (Cons k ks)
  show ?case
  proof (cases "station_set_get ss k")
    case None
    then have "advance_selected ks sd ss = (sd', ss')" using Cons.prems(3) by simp
    from Cons.IH [OF Cons.prems(1) _ this] Cons.prems(2) None show ?thesis
      by (auto intro!: option.map_cong)
  next
    case (Some s)
    let ?ss = "station_set_write ss k (advance_tick s)"
    have snd: "kv_sound station_key ss" using Cons.prems(1) by (simp add: set_sound_def)
    have key: "station_key (advance_tick s) = k" and wf: "station_wf (advance_tick s)"
      using set_sound_get [OF Cons.prems(1) Some] by (simp, simp add: advance_tick_def)
    have w: "set_sound ?ss" "station_set_get ?ss = (station_set_get ss)(k \<mapsto> advance_tick s)"
      "map station_key (kv_items ?ss) = map station_key (kv_items ss)"
      using set_sound_write [OF Cons.prems(1) wf] stations.write_get [OF snd, of "advance_tick s"]
        stations.write_keys [OF snd, of "advance_tick s"] Some key by simp_all
    have run: "advance_selected ks (count_advance sd) ?ss = (sd', ss')" using Cons.prems(3) Some by simp
    have "k \<notin> set ks" "distinct ks" using Cons.prems(2) by simp_all
    then show ?thesis using Cons.IH [OF w(1) _ run] w Some by (auto intro!: option.map_cong)
  qed
qed

text \<open>C34. A load-aware scheduling step advances exactly the selected stations. The selected ones are the
  stations of greatest load score, then greatest lag behind the furthest station, then least
  identifier, as many as the step allows; each of them advances by one tick, and nothing else of any
  station changes.\<close>

theorem loaded_step_advances_selected:
  assumes "set_sound ss" "distinct (map station_key (kv_items ss))" "length (kv_items ss) \<le> usize_max"
    and "lawful_select candidate_le sel"
    and "advance_loaded sel sd ss samples max_advances = (plan, sd', ss')"
  shows "map candidate_rank (sv_selected plan) =
      take (min max_advances (length (kv_items ss))) (sort (map candidate_rank (schedule_candidates ss samples))) \<and>
    map station_key (kv_items ss') = map station_key (kv_items ss) \<and>
    (\<forall>k. station_set_get ss' k =
       map_option (\<lambda>s. if k \<in> sc_station_id ` set (sv_selected plan) then advance_tick s else s) (station_set_get ss k))"
proof -
  let ?cs = "schedule_candidates ss samples" and ?n = "min max_advances (length (kv_items ss))"
  let ?sorted = "prioritize_station_candidates sel ?cs ?n"
  have len: "length ?cs = length (kv_items ss)" by (simp add: schedule_candidates_def station_set_iter_def)
  have plan: "sv_selected plan = take ?n ?sorted"
    and run: "advance_selected (map sc_station_id (sv_selected plan)) sd ss = (sd', ss')"
    using assms(5) by (auto simp: advance_loaded_def plan_loaded_def Let_def station_set_len_def)
  have "map sc_station_id ?cs = map station_key (kv_items ss)"
    by (simp add: schedule_candidates_def station_set_iter_def)
  then have "distinct (map sc_station_id ?cs)" using assms(2) by simp
  then have "distinct (map sc_station_id ?sorted)"
    using prioritize_stations_perm [OF assms(4), of ?cs ?n] by (metis mset_eq_imp_distinct_iff mset_map)
  then have "distinct (map sc_station_id (sv_selected plan))"
    unfolding plan by (simp add: take_map [symmetric] del: distinct_map)
  from advance_selected_view [OF assms(1) this run]
  show ?thesis using prioritize_stations_top [OF assms(4), of ?cs ?n] assms(3) len by (simp add: plan)
qed

lemma loaded_step_advances_selected_witness:
  "\<exists>plan sd ss. advance_loaded (\<lambda>n. sort_key candidate_rank) \<lparr>sd_advanced_ticks = 0\<rparr> demo_stations
       [demo_sample 2 5 []] 1 = (plan, sd, ss) \<and>
     station_set_get ss 1 = Some (demo_station 1 9) \<and> station_set_get ss 2 = Some (advance_tick (demo_station 2 8))"
proof -
  let ?sel = "\<lambda>n. sort_key candidate_rank" and ?samples = "[demo_sample 2 5 []]"
  obtain plan sd ss where run: "advance_loaded ?sel \<lparr>sd_advanced_ticks = 0\<rparr> demo_stations ?samples 1 = (plan, sd, ss)"
    by (metis prod_cases3)
  have items: "kv_items demo_stations = [demo_station 1 9, demo_station 2 8]"
    by (simp add: demo_stations_def station_set_push_def station_set_new_def kv_push_sound)
  have keys: "station_key (demo_station 1 9) = 1" "station_key (demo_station 2 8) = 2"
    by (simp_all add: station_key_def demo_config_def)
  have "lawful_select candidate_le ?sel" by (rule lawful_select_sorting) (rule candidate_le_rank)
  note step = loaded_step_advances_selected [OF demo_stations_sound _ _ this run]
  have ticks: "st_tick (demo_station k i) = 0" for k i by (simp add: demo_station_def)
  have cs: "schedule_candidates demo_stations ?samples =
      [\<lparr>sc_station_id = 1, sc_load_score = 0, sc_tick_lag = 0\<rparr>, \<lparr>sc_station_id = 2, sc_load_score = 60, sc_tick_lag = 0\<rparr>]"
    by (simp add: schedule_candidates_def station_set_iter_def items keys sample_scores_def max_station_tick_def
      station_schedule_score_def station_load_score_def demo_sample_def total_entities_def sat_add_def sat_mul_def
      max_cell_pressure_def sat_sub_def ticks)
  have "map candidate_rank (sv_selected plan) = [candidate_rank \<lparr>sc_station_id = 2, sc_load_score = 60, sc_tick_lag = 0\<rparr>]"
    using step by (simp add: items keys cs usize_max_def candidate_rank_def)
  then have "sc_station_id ` set (sv_selected plan) = {2}"
    by (auto simp: candidate_rank_def)
  then show ?thesis using step run by (simp add: items keys usize_max_def demo_stations_get)
qed

end
