(* ===== verification/Command_Bridge.thy ===== *)
theory Command_Bridge
  imports Packet_Pump Command_Queues Wire
begin

text \<open>
  The bridge that carries stamped commands from a gateway process to the command queues of the
  station that owns the commanded entity.
\<close>

record dispatch_stats =
  ds_commands_sent :: usize
  ds_bytes_sent :: usize
  ds_packets_received :: usize
  ds_bytes_received :: usize
  ds_commands_enqueued :: usize
  ds_commands_rejected_queue :: usize

datatype 'e dispatch_error =
    DispatchTransport 'e
  | DispatchEncode binary_encode_error
  | DispatchDecode binary_decode_error
  | DispatchUnexpectedFrame
  | DispatchEndpointMismatch station_id station_id station_id
  | DispatchMissingQueue station_id
  | DispatchQueue command_queue_error

definition dispatch_stats_zero :: dispatch_stats where
  "dispatch_stats_zero =
     \<lparr>ds_commands_sent = 0, ds_bytes_sent = 0, ds_packets_received = 0, ds_bytes_received = 0,
      ds_commands_enqueued = 0, ds_commands_rejected_queue = 0\<rparr>"

definition send_encoded ::
  "('t, 'e, station_outbound_packet) sink \<Rightarrow> dispatch_stats \<Rightarrow> 't \<Rightarrow> station_id \<Rightarrow> station_id \<Rightarrow> bytes \<Rightarrow>
   ('e dispatch_error + unit) \<times> dispatch_stats \<times> 't" where
  "send_encoded send st t source target bs =
     (case send t \<lparr>so_source_station = source, so_target_station = target, so_bytes = bs\<rparr> of
        (Inl x, t1) \<Rightarrow> (Err (DispatchTransport x), st, t1)
      | (Inr _, t1) \<Rightarrow>
          (Ok (), st\<lparr>ds_commands_sent := usize_add (ds_commands_sent st) 1,
                     ds_bytes_sent := usize_add (ds_bytes_sent st) (length bs)\<rparr>, t1))"

definition send_envelope ::
  "('t, 'e, station_outbound_packet) sink \<Rightarrow> dispatch_stats \<Rightarrow> 't \<Rightarrow> station_id \<Rightarrow> station_id \<Rightarrow> command_envelope \<Rightarrow>
   ('e dispatch_error + unit) \<times> dispatch_stats \<times> 't" where
  "send_envelope send st t source target c =
     (case encode_command_dispatch_envelope target c [] of
        (Inl x, out) \<Rightarrow> (Err (DispatchEncode x), st, t)
      | (Inr _, out) \<Rightarrow> send_encoded send st t source target out)"

definition send_dispatch_frame ::
  "('t, 'e, station_outbound_packet) sink \<Rightarrow> dispatch_stats \<Rightarrow> 't \<Rightarrow> station_id \<Rightarrow> command_dispatch_frame \<Rightarrow>
   ('e dispatch_error + unit) \<times> dispatch_stats \<times> 't" where
  "send_dispatch_frame send st t source f =
     (case encode_command_dispatch f [] of
        (Inl x, out) \<Rightarrow> (Err (DispatchEncode x), st, t)
      | (Inr _, out) \<Rightarrow> send_encoded send st t source (df_station_id f) out)"

type_synonym queue_map = "(station_id, command_queues) fmap"

definition accept_command :: "command_ingress \<Rightarrow> (queue_map, 'e dispatch_error) consumer" where
  "accept_command ingress qs p =
     (case binary_decode (si_bytes p) of
        Inl x \<Rightarrow> (Err (DispatchDecode x), qs)
      | Inr (RfCommandDispatch f) \<Rightarrow>
          if df_station_id f \<noteq> si_target_station p
          then (Err (DispatchEndpointMismatch (si_source_station p) (si_target_station p) (df_station_id f)), qs)
          else (case fmlookup qs (df_station_id f) of
              None \<Rightarrow> (Err (DispatchMissingQueue (df_station_id f)), qs)
            | Some q \<Rightarrow>
                (case command_push q (dispatch_into_envelope f) ingress of
                   (Inl x, q1) \<Rightarrow> (Err (DispatchQueue x), fmupd (df_station_id f) q1 qs)
                 | (Inr _, q1) \<Rightarrow> (Ok (), fmupd (df_station_id f) q1 qs)))
      | Inr _ \<Rightarrow> (Err DispatchUnexpectedFrame, qs))"

text \<open>A queue's refusal is counted before it ends the loop; other errors leave the statistics alone.\<close>

definition pump_commands ::
  "('t, 'e) station_receiver \<Rightarrow> dispatch_stats \<Rightarrow> 't \<Rightarrow> queue_map \<Rightarrow> station_id \<Rightarrow> usize \<Rightarrow> command_ingress \<Rightarrow>
   ('e dispatch_error + pump_report) \<times> dispatch_stats \<times> 't \<times> queue_map" where
  "pump_commands recv st t qs k max_packets ingress =
     (case pump_loop recv DispatchTransport (accept_command ingress) k max_packets t qs (pump_report_new k) of
        (Inl x, t1, qs1) \<Rightarrow>
          (Err x, (case x of
                     DispatchQueue _ \<Rightarrow> st\<lparr>ds_commands_rejected_queue := usize_add (ds_commands_rejected_queue st) 1\<rparr>
                   | _ \<Rightarrow> st), t1, qs1)
      | (Inr rep, t1, qs1) \<Rightarrow>
          (Ok rep, st\<lparr>ds_packets_received := usize_add (ds_packets_received st) (pr_packets_received rep),
                      ds_bytes_received := usize_add (ds_bytes_received st) (pr_bytes_received rep),
                      ds_commands_enqueued := usize_add (ds_commands_enqueued st) (pr_accepted rep)\<rparr>, t1, qs1))"

section \<open>Dispatched commands arrive unchanged\<close>

lemma dispatch_sends_same:
  "send_envelope send st t source target c =
     send_dispatch_frame send st t source (dispatch_from_envelope target c)"
proof -
  have "df_station_id (dispatch_from_envelope target c) = target" by (simp add: dispatch_from_envelope_def)
  then show ?thesis by (simp only: send_envelope_def send_dispatch_frame_def dispatch_envelope_same)
qed

lemma dispatch_decodes:
  assumes "encode_command_dispatch_envelope target c [] = (Ok (), bs)" "length bs < usize_max"
  shows "binary_decode bs = Ok (RfCommandDispatch (dispatch_from_envelope target c))"
proof -
  let ?f = "RfCommandDispatch (dispatch_from_envelope target c)"
  have enc: "encode_frame ?f [] = (Ok (), bs)"
    using assms(1) by (simp add: encode_frame_def dispatch_envelope_same)
  have "frame_ok ?f"
  proof (rule ccontr)
    assume "\<not> frame_ok ?f"
    from encode_frame_cases(2) [OF this] obtain e out where "encode_frame ?f [] = (Err e, out)"
      unfolding fails_def by blast
    with enc show False by simp
  qed
  moreover have "bs = enc_frame ?f" using encode_frame_cases(1) [OF \<open>frame_ok ?f\<close>] enc by (simp add: writes_def)
  ultimately show ?thesis using binary_decode_reads(1) [OF frame_reads] assms(2) by simp
qed

text \<open>Commands addressed from one station to another, as packets and as pushes.\<close>

definition command_packet :: "station_id \<Rightarrow> station_id \<Rightarrow> command_envelope \<Rightarrow> station_inbound_packet" where
  "command_packet source target c =
     \<lparr>si_source_station = source, si_target_station = target,
      si_bytes = snd (encode_command_dispatch_envelope target c [])\<rparr>"

definition sendable :: "station_id \<Rightarrow> command_envelope \<Rightarrow> bool" where
  "sendable target c \<longleftrightarrow>
     (\<exists>bs. encode_command_dispatch_envelope target c [] = (Ok (), bs) \<and> length bs < usize_max)"

definition receive_command ::
  "command_ingress \<Rightarrow> station_id \<Rightarrow> queue_map \<Rightarrow> command_envelope \<Rightarrow> ('e dispatch_error + unit) \<times> queue_map" where
  "receive_command ingress target qs c =
     (case fmlookup qs target of
        None \<Rightarrow> (Err (DispatchMissingQueue target), qs)
      | Some q \<Rightarrow>
          (case command_push q c ingress of
             (Inl x, q1) \<Rightarrow> (Err (DispatchQueue x), fmupd target q1 qs)
           | (Inr _, q1) \<Rightarrow> (Ok (), fmupd target q1 qs)))"

lemma accept_command_packet:
  assumes "sendable target c"
  shows "accept_command ingress qs (command_packet source target c) = receive_command ingress target qs c"
proof -
  obtain bs where enc: "encode_command_dispatch_envelope target c [] = (Ok (), bs)" "length bs < usize_max"
    using assms by (auto simp: sendable_def)
  have "df_station_id (dispatch_from_envelope target c) = target" by (simp add: dispatch_from_envelope_def)
  then show ?thesis
    by (simp add: accept_command_def receive_command_def command_packet_def enc dispatch_decodes [OF enc]
        dispatch_envelope_roundtrip split: option.split prod.split sum.split)
qed

interpretation command_bridge: packet_bridge "command_packet source target" "accept_command ingress"
  "receive_command ingress target" "sendable target" for source target ingress
  by unfold_locales (rule accept_command_packet)

text \<open>A list of commands sent to one station.\<close>

fun send_envelopes ::
  "('t, 'e, station_outbound_packet) sink \<Rightarrow> dispatch_stats \<Rightarrow> 't \<Rightarrow> station_id \<Rightarrow> station_id \<Rightarrow> command_envelope list \<Rightarrow>
   ('e dispatch_error + unit) \<times> dispatch_stats \<times> 't" where
  "send_envelopes send st t source target [] = (Ok (), st, t)"
| "send_envelopes send st t source target (c # cs) =
     (case send_envelope send st t source target c of
        (Inl x, st1, t1) \<Rightarrow> (Err x, st1, t1)
      | (Inr _, st1, t1) \<Rightarrow> send_envelopes send st1 t1 source target cs)"

lemma send_envelope_inbox:
  assumes "send_envelope memory_send_station st t source target c = (Ok (), st1, t1)"
    and "sl_max_packet_bytes (mt_limits t) < usize_max"
  shows "sendable target c \<and> mt_limits t1 = mt_limits t \<and>
    (\<exists>q. inbox t target = Some q \<and> inbox t1 = (inbox t)(target \<mapsto> q @ [command_packet source target c]))"
proof -
  obtain bs where enc: "encode_command_dispatch_envelope target c [] = (Ok (), bs)"
    and sent: "memory_send_station t \<lparr>so_source_station = source, so_target_station = target, so_bytes = bs\<rparr> = (Ok (), t1)"
    using assms(1) by (auto simp: send_envelope_def send_encoded_def split: prod.splits sum.splits)
  have "length bs \<le> sl_max_packet_bytes (mt_limits t)" "mt_limits t1 = mt_limits t"
    using sent by (auto simp: memory_send_station_def Let_def split: if_splits option.splits)
  then show ?thesis using memory_send_inbox [OF sent] enc assms(2)
    by (auto simp: sendable_def command_packet_def)
qed

lemma send_envelopes_inbox:
  assumes "send_envelopes memory_send_station st t source target cs = (Ok (), st1, t1)" "inbox t target = Some q"
    and "sl_max_packet_bytes (mt_limits t) < usize_max"
  shows "inbox t1 target = Some (q @ map (command_packet source target) cs) \<and> (\<forall>c \<in> set cs. sendable target c)"
  using assms
proof (induction cs arbitrary: st t q)
  case (Cons c cs)
  obtain st2 t2 where one: "send_envelope memory_send_station st t source target c = (Ok (), st2, t2)"
    and rest: "send_envelopes memory_send_station st2 t2 source target cs = (Ok (), st1, t1)"
    using Cons.prems(1) by (auto split: prod.splits sum.splits)
  note s = send_envelope_inbox [OF one Cons.prems(3)]
  then have "inbox t2 target = Some (q @ [command_packet source target c])" using Cons.prems(2) by auto
  from Cons.IH [OF rest this] s Cons.prems(3) show ?case by simp
qed simp

text \<open>Commands dispatched through the in-memory station transport reach the target's queues as if they had been
  pushed there directly, in the order of sending; the pump fails exactly when a direct push does.\<close>

lemma remote_dispatch_is_local:
  assumes sent: "send_envelopes memory_send_station st t source target cs = (Ok (), st1, t1)"
    and box: "inbox t target = Some []" and lim: "sl_max_packet_bytes (mt_limits t) < usize_max"
    and small: "length cs \<le> max_packets" "length cs \<le> usize_max"
    and pump: "pump_commands memory_try_recv_station stats t1 qs target max_packets ingress = (res, stats2, t2, qs2)"
    and local: "apply_all (receive_command ingress target) qs cs = (local, qs_local)"
  shows "qs2 = qs_local \<and> (case res of Inl f \<Rightarrow> local = Err f | Inr rep \<Rightarrow> local = Ok () \<and> pr_accepted rep = length cs)"
proof -
  obtain x t3 s3 where run: "pump_loop memory_try_recv_station DispatchTransport (accept_command ingress) target max_packets
      t1 qs (pump_report_new target) = (x, t3, s3)"
    by (metis prod_cases3)
  have box1: "inbox t1 target = Some (map (command_packet source target) cs)" "\<forall>c \<in> set cs. sendable target c"
    using send_envelopes_inbox [OF sent box lim] by simp_all
  have out: "res = x" "qs2 = s3" using pump run by (auto simp: pump_commands_def split: sum.splits)
  show ?thesis using command_bridge.pump_is_local [OF box1 small run local] unfolding out by (auto split: sum.splits)
qed

end
