(* ===== verification/Barrier_Controller.thy ===== *)
theory Barrier_Controller
  imports Migration
begin

text \<open>
  The runtime barrier: a controller brings all stations of a scope to a common target tick, freezes
  them, lets snapshots be exported and upgraded, and resumes. The embedder's upgrade hook is a
  parameter, a state with its three methods.
\<close>

datatype barrier_phase = WaitingTick | Frozen | Resumed

record barrier_progress =
  bp_state :: barrier_state
  bp_station_count :: usize
  bp_frozen_count :: usize
  bp_target_tick :: tick

record barrier_metrics =
  bm_station_count :: usize
  bm_snapshots_exported :: usize
  bm_waiting_polls :: u64
  bm_frozen_polls :: u64

datatype barrier_runtime_error =
    AlreadyActive barrier_id
  | NoActiveBarrier
  | EmptyScope barrier_scope
  | NotFrozen barrier_state
  | MissingBarrierStation station_id

record barrier_controller =
  bc_active :: "runtime_barrier option"
  bc_phases :: "(station_id, barrier_phase) fmap"
  bc_metrics :: barrier_metrics

definition barrier_metrics_zero :: barrier_metrics where
  "barrier_metrics_zero =
     \<lparr>bm_station_count = 0, bm_snapshots_exported = 0, bm_waiting_polls = 0, bm_frozen_polls = 0\<rparr>"

definition controller_new :: barrier_controller where
  "controller_new = \<lparr>bc_active = None, bc_phases = fmempty, bc_metrics = barrier_metrics_zero\<rparr>"

definition controller_progress :: "barrier_controller \<Rightarrow> barrier_progress" where
  "controller_progress c =
     \<lparr>bp_state = (case bc_active c of None \<Rightarrow> BRunning | Some b \<Rightarrow> rb_state b),
      bp_station_count = map_len (bc_phases c),
      bp_frozen_count = map_len (fmfilter (\<lambda>k. fmlookup (bc_phases c) k = Some Frozen) (bc_phases c)),
      bp_target_tick = (case bc_active c of None \<Rightarrow> 0 | Some b \<Rightarrow> rb_target_tick b)\<rparr>"

definition barrier_request ::
  "barrier_controller \<Rightarrow> station_set \<Rightarrow> barrier_id \<Rightarrow> barrier_scope \<Rightarrow> tick \<Rightarrow> command_queue_mode \<Rightarrow>
   (barrier_runtime_error + barrier_progress) \<times> barrier_controller" where
  "barrier_request c ss i scope target mode =
     (case bc_active c of
        Some b \<Rightarrow> (Err (AlreadyActive (rb_id b)), c)
      | None \<Rightarrow>
          (let ids = station_ids_in_scope ss scope in
           if ids = [] then (Err (EmptyScope scope), c)
           else
             (let ticks = List.map_filter (\<lambda>k. map_option st_tick (station_set_get ss k)) ids;
                  at = fold max ticks 0;
                  c1 = \<lparr>bc_active = Some (wait_for_tick_boundary (barrier_requested i scope at target mode)),
                        bc_phases = fold (\<lambda>k m. fmupd k WaitingTick m) ids fmempty,
                        bc_metrics = barrier_metrics_zero\<lparr>bm_station_count := length ids\<rparr>\<rparr>
              in (Ok (controller_progress c1), c1))))"

text \<open>The loop over the phases, in identifier order; a missing station ends it.\<close>

fun poll_phases ::
  "station_set \<Rightarrow> tick \<Rightarrow> station_id list \<Rightarrow> bool \<Rightarrow> (station_id, barrier_phase) fmap \<Rightarrow>
   (barrier_runtime_error + bool) \<times> (station_id, barrier_phase) fmap" where
  "poll_phases ss target [] ready phases = (Ok ready, phases)"
| "poll_phases ss target (k # ks) ready phases =
     (case station_set_get ss k of
        None \<Rightarrow> (Err (MissingBarrierStation k), phases)
      | Some s \<Rightarrow>
          if st_tick s \<ge> target then poll_phases ss target ks ready (fmupd k Frozen phases)
          else poll_phases ss target ks False phases)"

definition barrier_poll ::
  "barrier_controller \<Rightarrow> station_set \<Rightarrow> (barrier_runtime_error + barrier_progress) \<times> barrier_controller" where
  "barrier_poll c ss =
     (case bc_active c of
        None \<Rightarrow> (Err NoActiveBarrier, c)
      | Some b \<Rightarrow>
          (let m = bc_metrics c in
           if rb_state b = BFrozen
           then (let c = c\<lparr>bc_metrics := m\<lparr>bm_frozen_polls := sat_add (bm_frozen_polls m) 1\<rparr>\<rparr> in
                 (Ok (controller_progress c), c))
           else
             (case poll_phases ss (rb_target_tick b) (sorted_list_of_fset (fmdom (bc_phases c))) True (bc_phases c) of
                (Inl e, phases) \<Rightarrow> (Err e, c\<lparr>bc_phases := phases\<rparr>)
              | (Inr all_ready, phases) \<Rightarrow>
                  (let c = c\<lparr>bc_phases := phases\<rparr>;
                       c = (if all_ready
                            then c\<lparr>bc_active := Some (barrier_freeze b),
                                   bc_metrics := m\<lparr>bm_frozen_polls := sat_add (bm_frozen_polls m) 1\<rparr>\<rparr>
                            else c\<lparr>bc_metrics := m\<lparr>bm_waiting_polls := sat_add (bm_waiting_polls m) 1\<rparr>\<rparr>)
                   in (Ok (controller_progress c), c)))))"

fun collect_snapshots ::
  "station_set \<Rightarrow> snapshot_version \<Rightarrow> station_id list \<Rightarrow> barrier_runtime_error + station_snapshot list" where
  "collect_snapshots ss v [] = Ok []"
| "collect_snapshots ss v (k # ks) =
     (case station_set_get ss k of
        None \<Rightarrow> Err (MissingBarrierStation k)
      | Some s \<Rightarrow> and_then (collect_snapshots ss v ks) (\<lambda>snaps. Ok (station_snapshot_of s v # snaps)))"

definition export_snapshots ::
  "barrier_controller \<Rightarrow> station_set \<Rightarrow> snapshot_version \<Rightarrow>
   (barrier_runtime_error + station_snapshot list) \<times> barrier_controller" where
  "export_snapshots c ss v =
     (case bc_active c of
        None \<Rightarrow> (Err NoActiveBarrier, c)
      | Some b \<Rightarrow>
          if rb_state b \<noteq> BFrozen then (Err (NotFrozen (rb_state b)), c)
          else (case collect_snapshots ss v (sorted_list_of_fset (fmdom (bc_phases c))) of
              Inl e \<Rightarrow> (Err e, c)
            | Inr snaps \<Rightarrow>
                (let m = bc_metrics c in
                 (Ok snaps, c\<lparr>bc_metrics := m\<lparr>bm_snapshots_exported :=
                    usize_add (bm_snapshots_exported m) (length snaps)\<rparr>\<rparr>))))"

definition barrier_resume_all ::
  "barrier_controller \<Rightarrow> (barrier_runtime_error + barrier_metrics) \<times> barrier_controller" where
  "barrier_resume_all c =
     (case bc_active c of
        None \<Rightarrow> (Err NoActiveBarrier, c)
      | Some b \<Rightarrow>
          if rb_state b \<noteq> BFrozen then (Err (NotFrozen (rb_state b)), c)
          else (Ok (bc_metrics c), controller_new))"

section \<open>Upgrading frozen stations\<close>

record upgrade_report =
  ur_version :: snapshot_version
  ur_snapshots_migrated :: usize
  ur_stations_restored :: usize
  ur_entities_restored :: usize

datatype upgrade_error =
    UpgradeBarrier barrier_runtime_error
  | UpgradeMissingStation station_id
  | UpgradeRestore station_id station_error

record 'h upgrade_hook =
  uh_pre_upgrade :: "'h \<Rightarrow> snapshot_meta \<Rightarrow> 'h"
  uh_migrate_state :: "'h \<Rightarrow> station_snapshot \<Rightarrow> station_snapshot \<times> 'h"
  uh_post_upgrade :: "'h \<Rightarrow> snapshot_meta \<Rightarrow> 'h"

text \<open>The first loop migrates and restores every snapshot aside; \<open>None\<close> is a panic of the restore.\<close>

fun restore_all ::
  "'h upgrade_hook \<Rightarrow> station_set \<Rightarrow> station_snapshot list \<Rightarrow> 'h \<Rightarrow> (station_id \<times> station) list \<Rightarrow> usize \<Rightarrow>
   ((upgrade_error + (station_id \<times> station) list \<times> usize) \<times> 'h) option" where
  "restore_all H ss [] h restored n = Some (Ok (restored, n), h)"
| "restore_all H ss (snap # snaps) h restored n =
     (let k = sm_station_id (ss_meta snap) in
      case station_set_get ss k of
        None \<Rightarrow> Some (Err (UpgradeMissingStation k), h)
      | Some old \<Rightarrow>
          (let h1 = uh_pre_upgrade H h (ss_meta snap) in
           case uh_migrate_state H h1 snap of (migrated, h2) \<Rightarrow>
           case station_restore (st_config old) migrated of
             None \<Rightarrow> None
           | Some (Inl e) \<Rightarrow> Some (Err (UpgradeRestore k e), h2)
           | Some (Inr s) \<Rightarrow>
               restore_all H ss snaps (uh_post_upgrade H h2 (ss_meta migrated)) (restored @ [(k, s)])
                 (usize_add n (station_len s))))"

fun install_all :: "(station_id \<times> station) list \<Rightarrow> station_set \<Rightarrow> (upgrade_error + unit) \<times> station_set" where
  "install_all [] ss = (Ok (), ss)"
| "install_all ((k, s) # rest) ss =
     (case station_set_get ss k of
        None \<Rightarrow> (Err (UpgradeMissingStation k), ss)
      | Some _ \<Rightarrow> install_all rest (station_set_write ss k s))"

definition migrate_frozen ::
  "'h upgrade_hook \<Rightarrow> barrier_controller \<Rightarrow> station_set \<Rightarrow> snapshot_version \<Rightarrow> 'h \<Rightarrow>
   ((upgrade_error + upgrade_report) \<times> barrier_controller \<times> station_set \<times> 'h) option" where
  "migrate_frozen H c ss v h =
     (case export_snapshots c ss v of
        (Inl e, c1) \<Rightarrow> Some (Err (UpgradeBarrier e), c1, ss, h)
      | (Inr snaps, c1) \<Rightarrow>
          (case restore_all H ss snaps h [] 0 of
             None \<Rightarrow> None
           | Some (Inl e, h1) \<Rightarrow> Some (Err e, c1, ss, h1)
           | Some (Inr (restored, n), h1) \<Rightarrow>
               (case install_all restored ss of
                  (Inl e, ss1) \<Rightarrow> Some (Err e, c1, ss1, h1)
                | (Inr _, ss1) \<Rightarrow>
                    Some (Ok \<lparr>ur_version = v, ur_snapshots_migrated = length restored,
                              ur_stations_restored = length restored, ur_entities_restored = n\<rparr>,
                          c1, ss1, h1))))"


section \<open>The barrier as a state machine\<close>

text \<open>Between the calls the stations advance: they stay in the set and their ticks do not go back.\<close>

definition stations_advance :: "station_set \<Rightarrow> station_set \<Rightarrow> bool" where
  "stations_advance ss ss' \<longleftrightarrow> (\<forall>k s. station_set_get ss k = Some s \<longrightarrow>
     (\<exists>s'. station_set_get ss' k = Some s' \<and> st_tick s \<le> st_tick s'))"

inductive barrier_step :: "barrier_controller \<times> station_set \<Rightarrow> barrier_controller \<times> station_set \<Rightarrow> bool" where
  step_request: "barrier_request c ss i scope target mode = (r, c') \<Longrightarrow> barrier_step (c, ss) (c', ss)"
| step_poll: "barrier_poll c ss = (r, c') \<Longrightarrow> barrier_step (c, ss) (c', ss)"
| step_export: "export_snapshots c ss v = (x, c') \<Longrightarrow> barrier_step (c, ss) (c', ss)"
| step_resume: "barrier_resume_all c = (y, c') \<Longrightarrow> barrier_step (c, ss) (c', ss)"
| step_stations: "stations_advance ss ss' \<Longrightarrow> barrier_step (c, ss) (c, ss')"

definition reached :: "station_set \<Rightarrow> tick \<Rightarrow> station_id \<Rightarrow> bool" where
  "reached ss target k \<longleftrightarrow> (\<exists>s. station_set_get ss k = Some s \<and> target \<le> st_tick s)"

definition barrier_ok :: "barrier_controller \<Rightarrow> station_set \<Rightarrow> bool" where
  "barrier_ok c ss \<longleftrightarrow>
     (case bc_active c of
        None \<Rightarrow> bc_phases c = fmempty
      | Some b \<Rightarrow>
          (rb_state b = BWaitingTickBoundary \<or> rb_state b = BFrozen) \<and>
          bm_station_count (bc_metrics c) \<noteq> 0 \<and> bc_phases c \<noteq> fmempty \<and>
          (\<forall>k p. fmlookup (bc_phases c) k = Some p \<longrightarrow>
             p = WaitingTick \<and> rb_state b = BWaitingTickBoundary \<or>
             p = Frozen \<and> reached ss (rb_target_tick b) k))"

lemma reached_advance: "stations_advance ss ss' \<Longrightarrow> reached ss target k \<Longrightarrow> reached ss' target k"
  unfolding stations_advance_def reached_def by (meson order_trans)

lemma poll_phases_Ok:
  assumes "poll_phases ss target ks ready phases = (r, phases')" "set ks \<subseteq> fset (fmdom phases)"
  shows "(\<forall>k. fmlookup phases' k = fmlookup phases k \<or>
       fmlookup phases' k = Some Frozen \<and> k \<in> set ks \<and> reached ss target k) \<and> fmdom phases' = fmdom phases \<and>
    (\<forall>b. r = Ok b \<longrightarrow> (b \<longleftrightarrow> ready \<and> (\<forall>k \<in> set ks. reached ss target k)) \<and>
       (\<forall>k \<in> set ks. reached ss target k \<longrightarrow> fmlookup phases' k = Some Frozen)) \<and>
    (\<forall>e. r = Err e \<longrightarrow> (\<exists>k \<in> set ks. station_set_get ss k = None \<and> e = MissingBarrierStation k))"
  using assms
proof (induction ks arbitrary: ready phases)
  case (Cons k ks)
  show ?case
  proof (cases "station_set_get ss k")
    case None
    then show ?thesis using Cons.prems by auto
  next
    case (Some s)
    have dom: "fmdom (fmupd k Frozen phases) = fmdom phases" using Cons.prems(2) by auto
    show ?thesis
    proof (cases "target \<le> st_tick s")
      case True
      then have run: "poll_phases ss target ks ready (fmupd k Frozen phases) = (r, phases')"
        using Cons.prems(1) Some by simp
      have reach: "reached ss target k" using Some True by (auto simp: reached_def)
      have sub: "set ks \<subseteq> fset (fmdom (fmupd k Frozen phases))" using Cons.prems(2) unfolding dom by simp
      note IH = Cons.IH [OF run sub]
      show ?thesis using IH reach dom by (auto split: if_splits)
    next
      case False
      then have run: "poll_phases ss target ks False phases = (r, phases')" using Cons.prems(1) Some by simp
      have "\<not> reached ss target k" using Some False by (auto simp: reached_def)
      then show ?thesis using Cons.IH [OF run] Cons.prems(2) by auto
    qed
  qed
qed auto

lemma fold_waiting:
  "fmlookup (fold (\<lambda>k m. fmupd k WaitingTick m) ks m) k = (if k \<in> set ks then Some WaitingTick else fmlookup m k)"
  by (induction ks arbitrary: m) auto

lemma barrier_step_ok:
  assumes "barrier_step x y" "barrier_ok (fst x) (snd x)"
  shows "barrier_ok (fst y) (snd y)"
  using assms
proof (induction rule: barrier_step.induct)
  case (step_request c ss i scope target mode r c')
  show ?case
  proof (cases "bc_active c = None \<and> station_ids_in_scope ss scope \<noteq> []")
    case False
    then have "c' = c" using step_request.hyps by (auto simp: barrier_request_def split: option.splits)
    then show ?thesis using step_request.prems by simp
  next
    case True
    then obtain k ks where ids: "station_ids_in_scope ss scope = k # ks" by (cases "station_ids_in_scope ss scope") auto
    have "fmlookup (bc_phases c') k = Some WaitingTick"
      using step_request.hyps True ids by (auto simp: barrier_request_def Let_def fold_waiting)
    then have "bc_phases c' \<noteq> fmempty" by auto
    then show ?thesis using step_request.hyps True
      by (auto simp: barrier_request_def Let_def barrier_ok_def fold_waiting wait_for_tick_boundary_def split: if_splits)
  qed
next
  case (step_poll c ss r c')
  show ?case
  proof (cases "bc_active c")
    case None
    then show ?thesis using step_poll by (simp add: barrier_poll_def)
  next
    case (Some b)
    show ?thesis
    proof (cases "rb_state b = BFrozen")
      case True
      then show ?thesis using step_poll Some by (auto simp: barrier_poll_def barrier_ok_def Let_def)
    next
      case False
      obtain z phases where run: "poll_phases ss (rb_target_tick b) (sorted_list_of_fset (fmdom (bc_phases c))) True
          (bc_phases c) = (z, phases)" by fastforce
      note poll = poll_phases_Ok [OF run]
      have ok: "rb_state b = BWaitingTickBoundary" "bc_phases c \<noteq> fmempty" "bm_station_count (bc_metrics c) \<noteq> 0"
        "\<forall>k p. fmlookup (bc_phases c) k = Some p \<longrightarrow> p = WaitingTick \<or> p = Frozen \<and> reached ss (rb_target_tick b) k"
        using step_poll.prems Some False by (auto simp: barrier_ok_def)
      have p: "\<forall>k p. fmlookup phases k = Some p \<longrightarrow> p = WaitingTick \<or> p = Frozen \<and> reached ss (rb_target_tick b) k"
        using poll ok(4) by (metis option.inject order_refl sorted_list_of_fset_simps(1))
      have ne: "phases \<noteq> fmempty" using poll ok(2) by (metis fmdom_empty_iff order_refl sorted_list_of_fset_simps(1))
      show ?thesis
      proof (cases z)
        case (Inl e)
        then show ?thesis using step_poll.hyps Some False run ok p ne by (auto simp: barrier_poll_def Let_def barrier_ok_def)
      next
        case (Inr all_ready)
        have frozen: "fmlookup phases k = Some q \<Longrightarrow> q = Frozen \<and> reached ss (rb_target_tick b) k" if all_ready for k q
        proof -
          assume q: "fmlookup phases k = Some q"
          then have "k \<in> set (sorted_list_of_fset (fmdom (bc_phases c)))"
            using poll by (metis fmdomI order_refl sorted_list_of_fset_simps(1))
          then show "q = Frozen \<and> reached ss (rb_target_tick b) k" using poll Inr that q by auto
        qed
        show ?thesis using step_poll.hyps Some False run Inr ok p ne frozen
          by (auto simp: barrier_poll_def Let_def barrier_ok_def barrier_freeze_def split: if_splits)
      qed
    qed
  qed
next
  case (step_export c ss v x c')
  then show ?case
    by (auto simp: export_snapshots_def barrier_ok_def Let_def split: option.splits sum.splits if_splits)
next
  case (step_resume c y c' ss)
  then show ?case
    by (auto simp: barrier_resume_all_def barrier_ok_def controller_new_def split: option.splits if_splits)
next
  case (step_stations ss ss' c)
  then show ?case using reached_advance [OF step_stations(1)] unfolding barrier_ok_def
    by (auto split: option.splits)
qed


definition barrier_reachable :: "barrier_controller \<Rightarrow> station_set \<Rightarrow> bool" where
  "barrier_reachable c ss \<longleftrightarrow> (\<exists>ss0. barrier_step\<^sup>*\<^sup>* (controller_new, ss0) (c, ss))"

lemma barrier_reachable_ok:
  assumes "barrier_reachable c ss"
  shows "barrier_ok c ss"
proof -
  obtain ss0 where "barrier_step\<^sup>*\<^sup>* (controller_new, ss0) (c, ss)" using assms by (auto simp: barrier_reachable_def)
  moreover have "barrier_ok controller_new ss0" by (simp add: barrier_ok_def controller_new_def)
  ultimately have "barrier_ok (fst (c, ss)) (snd (c, ss))"
    by (induction rule: rtranclp_induct) (simp, rule barrier_step_ok)
  then show ?thesis by simp
qed

lemma fmfilter_all: "(\<And>k v. fmlookup m k = Some v \<Longrightarrow> P k) \<Longrightarrow> fmfilter P m = m"
  by (rule fmap_ext) (auto simp: option.case_eq_if)

text \<open>C7. A barrier is frozen exactly when everyone has arrived. However requests, polls, exports, resumes and
  advancing stations interleave: an active frozen barrier covers at least one station, all of its
  stations are reported frozen, exist and have reached the target tick; and polling an active barrier
  gives a frozen one if and only if every covered station exists and has reached the target.\<close>

theorem barrier_frozen_iff_arrived:
  assumes "barrier_reachable c ss" and "bc_active c = Some b"
  shows "(rb_state b = BFrozen \<longrightarrow>
      bp_frozen_count (controller_progress c) = bp_station_count (controller_progress c) \<and>
      0 < bp_station_count (controller_progress c) \<and> (\<forall>k. k |\<in>| fmdom (bc_phases c) \<longrightarrow> reached ss (rb_target_tick b) k)) \<and>
    ((\<exists>p c'. barrier_poll c ss = (Ok p, c') \<and> bp_state p = BFrozen) \<longleftrightarrow>
      (\<forall>k. k |\<in>| fmdom (bc_phases c) \<longrightarrow> reached ss (rb_target_tick b) k))"
proof -
  have ok: "rb_state b = BWaitingTickBoundary \<or> rb_state b = BFrozen" "bc_phases c \<noteq> fmempty"
    "\<And>k p. fmlookup (bc_phases c) k = Some p \<Longrightarrow>
       p = WaitingTick \<and> rb_state b = BWaitingTickBoundary \<or> p = Frozen \<and> reached ss (rb_target_tick b) k"
    using barrier_reachable_ok [OF assms(1)] assms(2) by (auto simp: barrier_ok_def)
  have dom: "k |\<in>| fmdom (bc_phases c) \<longleftrightarrow> (\<exists>p. fmlookup (bc_phases c) k = Some p)" for k
    by (auto simp: fmlookup_dom_iff)
  have pos: "0 < map_len (bc_phases c)" using ok(2) by (metis fcard_0_eq fmdom_empty_iff gr0I)
  show ?thesis
  proof (cases "rb_state b = BFrozen")
    case True
    have all: "fmlookup (bc_phases c) k = Some p \<Longrightarrow> p = Frozen \<and> reached ss (rb_target_tick b) k" for k p
      using ok(3) True by fastforce
    have "fmfilter (\<lambda>k. fmlookup (bc_phases c) k = Some Frozen) (bc_phases c) = bc_phases c"
      using all by (intro fmfilter_all) auto
    moreover have "barrier_poll c ss = (r, c') \<Longrightarrow> \<exists>p. r = Ok p \<and> bp_state p = BFrozen" for r c'
      using assms(2) True by (auto simp: barrier_poll_def Let_def controller_progress_def)
    ultimately show ?thesis using all pos dom
      by (auto simp: controller_progress_def) (metis surj_pair)+
  next
    case False
    obtain z phases where run: "poll_phases ss (rb_target_tick b) (sorted_list_of_fset (fmdom (bc_phases c))) True
        (bc_phases c) = (z, phases)" by fastforce
    note poll = poll_phases_Ok [OF run]
    have sorted: "set (sorted_list_of_fset (fmdom (bc_phases c))) = fset (fmdom (bc_phases c))" by simp
    show ?thesis
    proof (cases z)
      case (Inl e)
      then obtain k where "k |\<in>| fmdom (bc_phases c)" "station_set_get ss k = None"
        using poll unfolding sorted by auto
      then have "\<not> (\<forall>k. k |\<in>| fmdom (bc_phases c) \<longrightarrow> reached ss (rb_target_tick b) k)" by (auto simp: reached_def)
      then show ?thesis using assms(2) False run Inl by (simp add: barrier_poll_def Let_def)
    next
      case (Inr all_ready)
      then have "all_ready \<longleftrightarrow> (\<forall>k. k |\<in>| fmdom (bc_phases c) \<longrightarrow> reached ss (rb_target_tick b) k)"
        using poll unfolding sorted by auto
      then show ?thesis using assms(2) False run Inr
        by (simp add: barrier_poll_def Let_def controller_progress_def barrier_freeze_def)
    qed
  qed
qed

lemma barrier_frozen_iff_arrived_witness:
  "\<exists>c p c'. barrier_reachable c demo_stations \<and> barrier_poll c demo_stations = (Ok p, c') \<and> bp_state p = BFrozen"
proof -
  obtain r c where req: "barrier_request controller_new demo_stations 5 (ScopeStation 1) 0 ModeBuffer = (r, c)" by fastforce
  have "station_ids_in_scope demo_stations (ScopeStation 1) = [1]"
    by (simp add: station_ids_in_scope_def demo_stations_def station_set_push_def station_set_new_def kv_push_sound
      demo_config_def station_key_def)
  then have c: "\<exists>b. bc_active c = Some b \<and> rb_target_tick b = 0" "bc_phases c = fmupd 1 WaitingTick fmempty"
    using req by (auto simp: barrier_request_def controller_new_def Let_def wait_for_tick_boundary_def barrier_requested_def)
  then obtain b where b: "bc_active c = Some b" "rb_target_tick b = 0" by blast
  have "barrier_step\<^sup>*\<^sup>* (controller_new, demo_stations) (c, demo_stations)"
    by (rule r_into_rtranclp) (rule step_request [OF req])
  then have reach: "barrier_reachable c demo_stations" by (auto simp: barrier_reachable_def)
  have "\<forall>k. k |\<in>| fmdom (bc_phases c) \<longrightarrow> reached demo_stations (rb_target_tick b) k"
    by (simp add: c(2) b(2) reached_def demo_stations_get)
  then show ?thesis using barrier_frozen_iff_arrived [OF reach b(1)] reach by blast
qed

section \<open>Upgrades are all or nothing\<close>

lemma restore_entities_config:
  "restore_entities s rs = Some (Ok s') \<Longrightarrow> st_config s' = st_config s"
proof (induction s rs rule: restore_entities.induct)
  case (2 s r rs)
  obtain h s1 s2 where "allocate_handle s = Some (h, s1)" "insert_allocated s1 h (r\<lparr>er_handle := h\<rparr>) = Some s2"
    "restore_entities s2 rs = Some (Ok s')"
    using 2(2) by (auto split: if_splits option.splits)
  moreover from this have "st_config s2 = st_config s"
    by (auto simp: allocate_handle_def insert_allocated_def split: option.splits if_splits prod.splits)
  ultimately show ?case using 2 by (auto split: if_splits)
qed simp

lemma station_restore_config: "station_restore cfg snap = Some (Ok s) \<Longrightarrow> st_config s = cfg"
  by (auto simp: station_restore_def station_new_def dest: restore_entities_config split: if_splits)

text \<open>What the upgrade makes of station \<open>k\<close> when the hook is in state \<open>h\<close>, and the hook's next state.\<close>

definition upgrade_of ::
  "'h upgrade_hook \<Rightarrow> station_set \<Rightarrow> snapshot_version \<Rightarrow> 'h \<Rightarrow> station_id \<Rightarrow> (station_error + station) option \<times> 'h" where
  "upgrade_of H ss v h k =
     (let old = the (station_set_get ss k); snap = station_snapshot_of old v;
          (migrated, h1) = uh_migrate_state H (uh_pre_upgrade H h (ss_meta snap)) snap
      in (station_restore (st_config old) migrated, uh_post_upgrade H h1 (ss_meta migrated)))"

text \<open>A list of stations, each the upgrade of the one before it under the hook's state at that time, and the
  hook's state in the end.\<close>

fun upgrades :: "'h upgrade_hook \<Rightarrow> station_set \<Rightarrow> snapshot_version \<Rightarrow> 'h \<Rightarrow> (station_id \<times> station) list \<Rightarrow> bool" where
  "upgrades H ss v h [] \<longleftrightarrow> True"
| "upgrades H ss v h ((k, s) # rs) \<longleftrightarrow>
     station_set_get ss k \<noteq> None \<and> fst (upgrade_of H ss v h k) = Some (Ok s) \<and>
     upgrades H ss v (snd (upgrade_of H ss v h k)) rs"

fun hook_after :: "'h upgrade_hook \<Rightarrow> station_set \<Rightarrow> snapshot_version \<Rightarrow> 'h \<Rightarrow> (station_id \<times> station) list \<Rightarrow> 'h" where
  "hook_after H ss v h [] = h"
| "hook_after H ss v h ((k, s) # rs) = hook_after H ss v (snd (upgrade_of H ss v h k)) rs"

text \<open>The first thing that goes wrong: no barrier, a barrier that is not frozen, the first covered station that
  is missing, or the first snapshot that cannot be restored after all earlier ones were.\<close>

definition first_failure ::
  "'h upgrade_hook \<Rightarrow> barrier_controller \<Rightarrow> station_set \<Rightarrow> snapshot_version \<Rightarrow> 'h \<Rightarrow> upgrade_error \<Rightarrow> bool" where
  "first_failure H c ss v h e \<longleftrightarrow>
     (case bc_active c of
        None \<Rightarrow> e = UpgradeBarrier NoActiveBarrier
      | Some b \<Rightarrow>
          if rb_state b \<noteq> BFrozen then e = UpgradeBarrier (NotFrozen (rb_state b))
          else let ks = sorted_list_of_fset (fmdom (bc_phases c)) in
            case List.find (\<lambda>k. station_set_get ss k = None) ks of
              Some k \<Rightarrow> e = UpgradeBarrier (MissingBarrierStation k)
            | None \<Rightarrow> \<exists>rs k rest x. ks = map fst rs @ k # rest \<and> upgrades H ss v h rs \<and>
                fst (upgrade_of H ss v (hook_after H ss v h rs) k) = Some (Err x) \<and> e = UpgradeRestore k x)"

lemma first_failure_restore:
  assumes "bc_active c = Some b" "rb_state b = BFrozen"
    and "List.find (\<lambda>k. station_set_get ss k = None) (sorted_list_of_fset (fmdom (bc_phases c))) = None"
  shows "first_failure H c ss v h e \<longleftrightarrow>
    (\<exists>rs k rest x. sorted_list_of_fset (fmdom (bc_phases c)) = map fst rs @ k # rest \<and> upgrades H ss v h rs \<and>
       fst (upgrade_of H ss v (hook_after H ss v h rs) k) = Some (Err x) \<and> e = UpgradeRestore k x)"
  unfolding first_failure_def Let_def using assms by simp

lemma upgrades_keys:
  "set_sound ss \<Longrightarrow> upgrades H ss v h rs \<Longrightarrow> \<forall>(k, s) \<in> set rs. station_key s = k \<and> station_set_get ss k \<noteq> None"
proof (induction rs arbitrary: h)
  case (Cons p rs)
  obtain k s where p: "p = (k, s)" by (cases p)
  obtain old where old: "station_set_get ss k = Some old" using Cons.prems(2) p by auto
  have "station_key s = station_key old"
    using Cons.prems(2) p old
    by (auto simp: upgrade_of_def Let_def station_key_def split: prod.splits dest: station_restore_config)
  moreover have "upgrades H ss v (snd (upgrade_of H ss v h k)) rs" using Cons.prems(2) p by simp
  from Cons.IH [OF Cons.prems(1) this] have "\<forall>(k, s) \<in> set rs. station_key s = k \<and> station_set_get ss k \<noteq> None" .
  ultimately show ?case using set_sound_get [OF Cons.prems(1) old] old p by simp
qed simp

lemma collect_snapshots_cases:
  "collect_snapshots ss v ks =
     (case List.find (\<lambda>k. station_set_get ss k = None) ks of
        Some k \<Rightarrow> Err (MissingBarrierStation k)
      | None \<Rightarrow> Ok (map (\<lambda>k. station_snapshot_of (the (station_set_get ss k)) v) ks))"
proof (induction ks)
  case (Cons k ks)
  then show ?case
    by (cases "station_set_get ss k"; cases "List.find (\<lambda>k. station_set_get ss k = None) ks") simp_all
qed simp

lemma restore_all_cases:
  assumes "restore_all H ss (map (\<lambda>k. station_snapshot_of (the (station_set_get ss k)) v) ks) h restored n = Some (res, h')"
    and "set_sound ss" and "\<forall>k \<in> set ks. station_set_get ss k \<noteq> None"
  shows "case res of
      Inl e \<Rightarrow> (\<exists>rs k rest x. ks = map fst rs @ k # rest \<and> upgrades H ss v h rs \<and>
        fst (upgrade_of H ss v (hook_after H ss v h rs) k) = Some (Err x) \<and> e = UpgradeRestore k x)
    | Inr (restored', n') \<Rightarrow> (\<exists>rs. restored' = restored @ rs \<and> map fst rs = ks \<and> upgrades H ss v h rs)"
  using assms(1,3)
proof (induction ks arbitrary: h restored n)
  case (Cons k ks)
  obtain old where old: "station_set_get ss k = Some old" using Cons.prems(2) by auto
  let ?snap = "station_snapshot_of old v"
  have key: "sm_station_id (ss_meta ?snap) = k"
    using set_sound_get [OF assms(2) old] by (simp add: station_snapshot_of_def station_key_def)
  obtain m h2 where mig: "uh_migrate_state H (uh_pre_upgrade H h (ss_meta ?snap)) ?snap = (m, h2)" by fastforce
  have up: "upgrade_of H ss v h k = (station_restore (st_config old) m, uh_post_upgrade H h2 (ss_meta m))"
    by (simp add: upgrade_of_def old mig)
  obtain y where y: "station_restore (st_config old) m = Some y"
    using Cons.prems(1) old key mig by (auto simp: Let_def split: option.splits)
  show ?case
  proof (cases y)
    case (Inl x)
    then have "res = Err (UpgradeRestore k x)" using Cons.prems(1) old key mig y by (simp add: Let_def)
    moreover have "k # ks = map fst ([] :: (station_id \<times> station) list) @ k # ks" "upgrades H ss v h []"
      "fst (upgrade_of H ss v (hook_after H ss v h []) k) = Some (Err x)" using up y Inl by simp_all
    ultimately show ?thesis by (simp only: sum.case) blast
  next
    case (Inr s)
    let ?h = "snd (upgrade_of H ss v h k)"
    have rest: "restore_all H ss (map (\<lambda>k. station_snapshot_of (the (station_set_get ss k)) v) ks) ?h (restored @ [(k, s)])
        (usize_add n (station_len s)) = Some (res, h')"
      using Cons.prems(1) old key mig y Inr up by (simp add: Let_def)
    have ks: "\<forall>k \<in> set ks. station_set_get ss k \<noteq> None" using Cons.prems(2) by simp
    have ext: "upgrades H ss v h ((k, s) # rs) = upgrades H ss v ?h rs"
      "hook_after H ss v h ((k, s) # rs) = hook_after H ss v ?h rs" for rs
      using old up y Inr by simp_all
    show ?thesis
    proof (cases res)
      case (Inl e)
      then obtain rs k' rest' x where "ks = map fst rs @ k' # rest'" "upgrades H ss v ?h rs"
        "fst (upgrade_of H ss v (hook_after H ss v ?h rs) k') = Some (Err x)" "e = UpgradeRestore k' x"
        using Cons.IH [OF rest ks] by auto
      then have "k # ks = map fst ((k, s) # rs) @ k' # rest' \<and> upgrades H ss v h ((k, s) # rs) \<and>
          fst (upgrade_of H ss v (hook_after H ss v h ((k, s) # rs)) k') = Some (Err x) \<and> e = UpgradeRestore k' x"
        by (simp only: ext list.map fst_conv append_Cons simp_thms)
      then show ?thesis unfolding Inl sum.case by blast
    next
      case (Inr z)
      obtain restored' n' where z: "z = (restored', n')" by (cases z)
      have "\<exists>rs. restored' = (restored @ [(k, s)]) @ rs \<and> map fst rs = ks \<and> upgrades H ss v ?h rs"
        using Cons.IH [OF rest ks] unfolding Inr z sum.case prod.case .
      then obtain rs where "restored' = (restored @ [(k, s)]) @ rs" "map fst rs = ks" "upgrades H ss v ?h rs" by blast
      then have "restored' = restored @ ((k, s) # rs)" "map fst ((k, s) # rs) = k # ks" "upgrades H ss v h ((k, s) # rs)"
        by (simp_all only: ext append.assoc append_Cons append_Nil list.map fst_conv)
      then show ?thesis unfolding Inr z sum.case prod.case by (intro exI [of _ "(k, s) # rs"] conjI)
    qed
  qed
qed (auto split: sum.split)

lemma install_all_view:
  assumes "kv_sound station_key ss" "distinct (map fst rs)"
    and "\<forall>(k, s) \<in> set rs. station_key s = k \<and> station_set_get ss k \<noteq> None"
  shows "\<exists>ss'. install_all rs ss = (Ok (), ss') \<and> kv_sound station_key ss' \<and>
    map station_key (kv_items ss') = map station_key (kv_items ss) \<and>
    station_set_get ss' = station_set_get ss ++ map_of rs"
  using assms
proof (induction rs arbitrary: ss)
  case (Cons p rs)
  obtain k s where p: "p = (k, s)" by (cases p)
  have key: "station_key s = k" and get: "station_set_get ss k \<noteq> None" using Cons.prems(3) p by auto
  let ?ss = "station_set_write ss k s"
  have w: "kv_sound station_key ?ss" "station_set_get ?ss = (station_set_get ss)(k \<mapsto> s)"
    "map station_key (kv_items ?ss) = map station_key (kv_items ss)"
    using stations.write_sound [OF Cons.prems(1), of s] stations.write_get [OF Cons.prems(1), of s]
      stations.write_keys [OF Cons.prems(1), of s] key get by simp_all
  have "\<forall>(k, s) \<in> set rs. station_key s = k \<and> station_set_get ?ss k \<noteq> None"
    using Cons.prems(3) by (auto simp: w(2))
  from Cons.IH [OF w(1) _ this] Cons.prems(2) obtain ss' where
    ss': "install_all rs ?ss = (Ok (), ss')" "kv_sound station_key ss'"
      "map station_key (kv_items ss') = map station_key (kv_items ?ss)"
      "station_set_get ss' = station_set_get ?ss ++ map_of rs" by auto
  have "map_of rs k = None" using Cons.prems(2) p by (simp add: map_of_eq_None_iff)
  then have "(station_set_get ss)(k \<mapsto> s) ++ map_of rs = station_set_get ss ++ map_of (p # rs)"
    by (auto simp: p map_add_def fun_eq_iff split: option.splits)
  then show ?case using ss' get w p by (auto simp del: fun_upd_apply split: option.split)
qed simp

text \<open>C8. Upgrading frozen stations is all or nothing, whatever the hook does. When the upgrade fails, no
  station has changed, and the error names the first thing that went wrong, in the order of the station
  identifiers: no barrier, a barrier that is not frozen, a missing station, or a snapshot that could
  not be restored after all earlier ones were. When it succeeds, every covered station has been
  replaced by the restoration, under its own configuration, of what the hook, called on the stations
  in that order, made of its own frozen snapshot, and no other station has changed.\<close>

theorem upgrade_all_or_nothing:
  assumes ss: "set_sound ss" and run: "migrate_frozen H c ss v h = Some (res, c', ss', h')"
  shows "case res of
      Inl e \<Rightarrow> ss' = ss \<and> first_failure H c ss v h e
    | Inr rep \<Rightarrow> (\<exists>b. bc_active c = Some b \<and> rb_state b = BFrozen) \<and>
        ur_stations_restored rep = map_len (bc_phases c) \<and> map station_key (kv_items ss') = map station_key (kv_items ss) \<and>
        (\<exists>rs. map fst rs = sorted_list_of_fset (fmdom (bc_phases c)) \<and> upgrades H ss v h rs \<and>
           (\<forall>k. station_set_get ss' k = (case map_of rs k of None \<Rightarrow> station_set_get ss k | Some s \<Rightarrow> Some s)))"
proof (cases "\<exists>e. fst (export_snapshots c ss v) = Err e")
  case True
  then show ?thesis using run
    by (auto simp: migrate_frozen_def export_snapshots_def first_failure_def collect_snapshots_cases Let_def
        split: option.splits if_splits sum.splits)
next
  case False
  let ?ks = "sorted_list_of_fset (fmdom (bc_phases c))" and ?snap = "\<lambda>k. station_snapshot_of (the (station_set_get ss k)) v"
  have none: "List.find (\<lambda>k. station_set_get ss k = None) ?ks = None"
    and active: "\<exists>b. bc_active c = Some b \<and> rb_state b = BFrozen"
    and snaps: "\<exists>c1. export_snapshots c ss v = (Ok (map ?snap ?ks), c1)"
    using False by (auto simp: export_snapshots_def collect_snapshots_cases Let_def split: option.splits if_splits sum.splits)
  then have here: "\<forall>k \<in> set ?ks. station_set_get ss k \<noteq> None" by (auto simp: find_None_iff)
  obtain c1 y h1 where ex: "export_snapshots c ss v = (Ok (map ?snap ?ks), c1)"
    and rest: "restore_all H ss (map ?snap ?ks) h [] 0 = Some (y, h1)"
    using run snaps by (auto simp: migrate_frozen_def split: option.splits)
  note R = restore_all_cases [OF rest ss here]
  show ?thesis
  proof (cases y)
    case (Inl e)
    then have "res = Err e" "ss' = ss" using run ex rest by (auto simp: migrate_frozen_def)
    moreover have "first_failure H c ss v h e" using R active first_failure_restore [OF _ _ none] Inl by fastforce
    ultimately show ?thesis by simp
  next
    case (Inr z)
    then obtain rs n where z: "z = (rs, n)" and rs: "map fst rs = ?ks" "upgrades H ss v h rs" using R by (cases z) auto
    have dist: "distinct (map fst rs)" unfolding rs(1) by (simp add: sorted_list_of_fset.rep_eq)
    have snd: "kv_sound station_key ss" using ss by (simp add: set_sound_def)
    obtain ss2 where inst: "install_all rs ss = (Ok (), ss2)" "map station_key (kv_items ss2) = map station_key (kv_items ss)"
      "station_set_get ss2 = station_set_get ss ++ map_of rs"
      using install_all_view [OF snd dist upgrades_keys [OF ss rs(2)]] by blast
    have out: "ss' = ss2" "res = Ok \<lparr>ur_version = v, ur_snapshots_migrated = length rs,
        ur_stations_restored = length rs, ur_entities_restored = n\<rparr>"
      using run ex rest Inr z inst(1) by (auto simp: migrate_frozen_def)
    have "length rs = map_len (bc_phases c)"
      using arg_cong [OF rs(1), of length] by (simp add: sorted_list_of_fset.rep_eq fcard.rep_eq)
    then show ?thesis using active out inst(2,3) rs by (auto simp: map_add_def split: option.splits intro!: exI [of _ rs])
  qed
qed

definition keep_hook :: "unit upgrade_hook" where
  "keep_hook = \<lparr>uh_pre_upgrade = (\<lambda>h m. h), uh_migrate_state = (\<lambda>h s. (s, h)), uh_post_upgrade = (\<lambda>h m. h)\<rparr>"

definition demo_frozen :: barrier_controller where
  "demo_frozen = \<lparr>bc_active = Some (barrier_freeze (barrier_requested 5 (ScopeStation 1) 0 0 ModeBuffer)),
     bc_phases = fmupd 1 Frozen fmempty, bc_metrics = barrier_metrics_zero\<rparr>"

lemma demo_restore: "station_restore (demo_config k) (station_snapshot_of (demo_station k i) v) = Some (Ok (demo_station k i))"
  by (simp add: station_restore_def station_snapshot_of_def demo_station_def station_iter_def List.map_filter_def station_new_def
    allocate_handle_def insert_allocated_def vec_pop_def vec_get_def demo_config_def record_owned_def)

lemma upgrade_all_or_nothing_witness:
  "\<exists>rep c ss. migrate_frozen keep_hook demo_frozen demo_stations \<lparr>sv_runtime = 2, sv_schema = 1, sv_ruleset = 1, sv_module = 1\<rparr> () =
       Some (Ok rep, c, ss, ()) \<and>
     ur_stations_restored rep = 1 \<and> station_set_get ss 2 = Some (demo_station 2 8)"
proof -
  let ?v = "\<lparr>sv_runtime = 2, sv_schema = 1, sv_ruleset = 1, sv_module = 1\<rparr>"
  have "sorted_list_of_fset (fmdom (bc_phases demo_frozen)) = [1]"
    by (simp add: demo_frozen_def sorted_list_of_fset.rep_eq)
  then obtain c where ex: "export_snapshots demo_frozen demo_stations ?v = (Ok [station_snapshot_of (demo_station 1 9) ?v], c)"
    by (simp add: export_snapshots_def demo_frozen_def barrier_freeze_def demo_stations_get Let_def)
  have "sm_station_id (ss_meta (station_snapshot_of (demo_station 1 9) ?v)) = 1" "st_config (demo_station 1 9) = demo_config 1"
    by (simp_all add: station_snapshot_of_def demo_station_def demo_config_def)
  then have "\<exists>rep ss. migrate_frozen keep_hook demo_frozen demo_stations ?v () = Some (Ok rep, c, ss, ())"
    by (simp add: migrate_frozen_def ex keep_hook_def demo_stations_get demo_restore)
  then obtain rep ss where run: "migrate_frozen keep_hook demo_frozen demo_stations ?v () = Some (Ok rep, c, ss, ())" by blast
  have "2 |\<notin>| fmdom (bc_phases demo_frozen)" "map_len (bc_phases demo_frozen) = 1" by (simp_all add: demo_frozen_def fcard.rep_eq)
  then show ?thesis using upgrade_all_or_nothing [OF demo_stations_sound run] run
    by (auto simp: demo_stations_get demo_frozen_def sorted_list_of_fset.rep_eq dest: spec [of _ 2])
qed

end
