(* ===== verification/Load_Sampler.thy ===== *)
theory Load_Sampler
  imports Station_Scheduler
begin

text \<open>
  The load sampler (\<open>StationLoadSampler\<close> of \<open>sectorsync-runtime/src/lib.rs\<close>), which turns stations, cell
  indexes and event queues into the samples that hotspot detection and the schedulers work on. The
  scratch buffers are overwritten by every call and are not part of the model. The lemmas show that a
  sample is a census: every record counted once, every occupied cell listed once in order, every
  indexed entity counted in each of its cells.
\<close>

record sampler_config =
  sm_bytes_per_entity :: usize
  sm_bytes_per_subscriber :: usize
  sm_bytes_per_event :: usize
  sm_cost_per_owned_entity :: u64
  sm_cost_per_ghost_entity :: u64
  sm_cost_per_occupied_cell :: u64
  sm_cost_per_queued_event :: u64

definition default_sampler_config :: sampler_config where
  "default_sampler_config =
     \<lparr>sm_bytes_per_entity = 48, sm_bytes_per_subscriber = 16, sm_bytes_per_event = 32, sm_cost_per_owned_entity = 2,
      sm_cost_per_ghost_entity = 1, sm_cost_per_occupied_cell = 1, sm_cost_per_queued_event = 1\<rparr>"

definition estimate_station_bytes :: "sampler_config \<Rightarrow> usize \<Rightarrow> usize \<Rightarrow> usize \<Rightarrow> usize \<Rightarrow> usize" where
  "estimate_station_bytes cfg owned ghost subscribers queued =
     usize_add
       (usize_add (usize_mul (usize_add owned ghost) (sm_bytes_per_entity cfg))
          (usize_mul subscribers (sm_bytes_per_subscriber cfg)))
       (usize_mul queued (sm_bytes_per_event cfg))"

definition estimate_tick_cost :: "sampler_config \<Rightarrow> usize \<Rightarrow> usize \<Rightarrow> usize \<Rightarrow> usize \<Rightarrow> u64" where
  "estimate_tick_cost cfg owned ghost cells queued =
     sat_add
       (sat_add
          (sat_add (sat_mul (word_of_nat owned) (sm_cost_per_owned_entity cfg))
             (sat_mul (word_of_nat ghost) (sm_cost_per_ghost_entity cfg)))
          (sat_mul (word_of_nat cells) (sm_cost_per_occupied_cell cfg)))
       (sat_mul (word_of_nat queued) (sm_cost_per_queued_event cfg))"

definition count_role :: "entity_record \<Rightarrow> usize \<times> usize \<Rightarrow> usize \<times> usize" where
  "count_role r n = (if record_is_owned r then (usize_add (fst n) 1, snd n) else (fst n, usize_add (snd n) 1))"

definition count_station_roles :: "station \<Rightarrow> usize \<times> usize" where
  "count_station_roles s = fold count_role (station_iter s) (0, 0)"

text \<open>The handles of one cell: the live ones are counted by role.\<close>

definition count_cell_roles :: "station \<Rightarrow> entity_handle list \<Rightarrow> usize \<times> usize" where
  "count_cell_roles s hs =
     fold (\<lambda>h n. case station_get s h of None \<Rightarrow> n | Some r \<Rightarrow> count_role r n) hs (0, 0)"

definition sample_cell :: "sampler_config \<Rightarrow> station \<Rightarrow> cell_index \<Rightarrow> cell_occupancy \<Rightarrow> cell_load_sample" where
  "sample_cell cfg s ix occ =
     (case count_cell_roles s (handles_in_cell ix (co_cell occ)) of
        (owned, ghost) \<Rightarrow>
          (let entities = usize_add owned ghost in
           \<lparr>cl_cell = co_cell occ, cl_owned_entities = owned, cl_ghost_entities = ghost, cl_subscribers = 0,
            cl_estimated_updates = entities, cl_estimated_bytes = usize_mul entities (sm_bytes_per_entity cfg),
            cl_tick_cost_units = estimate_tick_cost cfg owned ghost 1 0, cl_event_pressure = 0\<rparr>))"

definition sample_station ::
  "sampler_config \<Rightarrow> station \<Rightarrow> cell_index option \<Rightarrow> usize \<Rightarrow> usize \<Rightarrow> station_load_sample" where
  "sample_station cfg s index queued subscribers =
     (case count_station_roles s of
        (owned, ghost) \<Rightarrow>
          (let cells = (case index of None \<Rightarrow> [] | Some ix \<Rightarrow> map (sample_cell cfg s ix) (cell_occupancy_into ix)) in
           \<lparr>sl_station_id = station_key s, sl_owned_entities = owned, sl_ghost_entities = ghost,
            sl_subscribers = subscribers, sl_queued_events = queued,
            sl_estimated_bytes = estimate_station_bytes cfg owned ghost subscribers queued,
            sl_tick_cost_units = estimate_tick_cost cfg owned ghost (length cells) queued, sl_cells = cells\<rparr>))"

definition count_subscribers :: "(station_id \<times> usize) list \<Rightarrow> (station_id, usize) fmap" where
  "count_subscribers counts =
     fold (\<lambda>(k, n) m. fmupd k (usize_add (case fmlookup m k of None \<Rightarrow> 0 | Some c \<Rightarrow> c) n) m) counts fmempty"

definition sample_all ::
  "sampler_config \<Rightarrow> station_set \<Rightarrow> station_index_set \<Rightarrow> event_router \<Rightarrow> (station_id \<times> usize) list \<Rightarrow>
   station_load_sample list" where
  "sample_all cfg ss ixs router counts =
     (let subscribers = count_subscribers counts in
      map (\<lambda>s. sample_station cfg s (index_set_get ixs (station_key s))
                 (case router_queued_len router (station_key s) of None \<Rightarrow> 0 | Some n \<Rightarrow> n)
                 (case fmlookup subscribers (station_key s) of None \<Rightarrow> 0 | Some n \<Rightarrow> n))
        (station_set_iter ss))"

section \<open>Counting\<close>

lemma fold_count_role:
  "fst n \<le> usize_max \<Longrightarrow> snd n \<le> usize_max \<Longrightarrow>
   fold count_role rs n =
     (min (fst n + length (filter record_is_owned rs)) usize_max,
      min (snd n + length (filter (\<lambda>r. \<not> record_is_owned r) rs)) usize_max)"
proof (induction rs arbitrary: n)
  case (Cons r rs)
  have "fst (count_role r n) \<le> usize_max" "snd (count_role r n) \<le> usize_max"
    using Cons.prems by (simp_all add: count_role_def)
  from Cons.IH [OF this] show ?case by (simp add: count_role_def usize_add_def min_def)
qed (simp add: prod_eq_iff)

lemma count_cell_roles_live:
  "count_cell_roles s hs = fold count_role (List.map_filter (station_get s) hs) (0, 0)"
proof -
  have "fold (\<lambda>h n. case station_get s h of None \<Rightarrow> n | Some r \<Rightarrow> count_role r n) hs n =
      fold count_role (List.map_filter (station_get s) hs) n" for n
    by (induction hs arbitrary: n) (auto simp: List.map_filter_simps split: option.split)
  then show ?thesis by (simp add: count_cell_roles_def)
qed

lemma count_subscribers_sum:
  "(case fmlookup (count_subscribers counts) k of None \<Rightarrow> 0 | Some n \<Rightarrow> n) =
     min (sum_list (map snd (filter (\<lambda>c. fst c = k) counts))) usize_max"
proof -
  let ?f = "\<lambda>(j, n) m. fmupd j (usize_add (case fmlookup m j of None \<Rightarrow> 0 | Some c \<Rightarrow> c) n) m"
  let ?v = "\<lambda>m. (case fmlookup m k of None \<Rightarrow> (0 :: usize) | Some n \<Rightarrow> n)"
  have "?v m \<le> usize_max \<Longrightarrow> ?v (fold ?f counts m) =
      min (?v m + sum_list (map snd (filter (\<lambda>c. fst c = k) counts))) usize_max" for m :: "(station_id, usize) fmap"
  proof (induction counts arbitrary: m)
    case (Cons c counts)
    obtain j n where c: "c = (j, n)" by fastforce
    have "?v (?f c m) = (if j = k then usize_add (?v m) n else ?v m)" by (simp add: c)
    with Cons.IH [of "?f c m"] Cons.prems show ?case by (simp add: c usize_add_def min_def)
  qed simp
  from this [of fmempty] show ?thesis by (simp add: count_subscribers_def)
qed

lemma filter_map_filter:
  "length (filter P (List.map_filter f xs)) = length (filter (\<lambda>x. \<exists>y. f x = Some y \<and> P y) xs)"
  by (induction xs) (auto simp: List.map_filter_simps split: option.split)

text \<open>The entities of a cell with a given role.\<close>

definition cell_census :: "station \<Rightarrow> cell_index \<Rightarrow> (entity_record \<Rightarrow> bool) \<Rightarrow> cell_coord3 \<Rightarrow> entity_handle set" where
  "cell_census s ix P c = {h. c \<in> index_members ix h \<and> (\<exists>r. station_get s h = Some r \<and> P r)}"

lemma sample_cell_counts:
  assumes wf: "index_wf ix" and small: "length (handles_in_cell ix (co_cell occ)) \<le> usize_max"
  shows "cl_owned_entities (sample_cell cfg s ix occ) = card (cell_census s ix record_is_owned (co_cell occ))"
    and "cl_ghost_entities (sample_cell cfg s ix occ) = card (cell_census s ix (\<lambda>r. \<not> record_is_owned r) (co_cell occ))"
proof -
  let ?hs = "handles_in_cell ix (co_cell occ)"
  have count: "min (length (filter P (List.map_filter (station_get s) ?hs))) usize_max = card (cell_census s ix P (co_cell occ))" for P
  proof -
    have "length (filter P (List.map_filter (station_get s) ?hs)) = length (filter (\<lambda>h. \<exists>r. station_get s h = Some r \<and> P r) ?hs)"
      by (rule filter_map_filter)
    also have "\<dots> = card (set (filter (\<lambda>h. \<exists>r. station_get s h = Some r \<and> P r) ?hs))"
      using index_wfD(2) [OF wf] by (intro distinct_card [symmetric] distinct_filter)
    also have "set (filter (\<lambda>h. \<exists>r. station_get s h = Some r \<and> P r) ?hs) = cell_census s ix P (co_cell occ)"
      using index_wfD(4) [OF wf] by (auto simp: cell_census_def)
    finally show ?thesis
      using small length_filter_le [of "\<lambda>h. \<exists>r. station_get s h = Some r \<and> P r" ?hs]
        filter_map_filter [of P "station_get s" ?hs] by simp
  qed
  show "cl_owned_entities (sample_cell cfg s ix occ) = card (cell_census s ix record_is_owned (co_cell occ))"
    "cl_ghost_entities (sample_cell cfg s ix occ) = card (cell_census s ix (\<lambda>r. \<not> record_is_owned r) (co_cell occ))"
    using count by (simp_all add: sample_cell_def count_cell_roles_live fold_count_role Let_def)
qed

lemma occupancy_cells:
  assumes "index_wf ix"
  shows "sorted (map co_cell (cell_occupancy_into ix))" "distinct (map co_cell (cell_occupancy_into ix))"
    "set (map co_cell (cell_occupancy_into ix)) = {c. \<exists>h. c \<in> index_members ix h}"
proof -
  let ?xs = "map (\<lambda>c. \<lparr>co_cell = c, co_entities = length (handles_in_cell ix c)\<rparr>) (sorted_list_of_fset (fmdom (ci_cells ix)))"
  show "sorted (map co_cell (cell_occupancy_into ix))" by (simp add: cell_occupancy_into_def)
  have cells: "map co_cell ?xs = sorted_list_of_fset (fmdom (ci_cells ix))" by (simp add: comp_def)
  have "mset (map co_cell (cell_occupancy_into ix)) = mset (map co_cell ?xs)"
    by (simp only: cell_occupancy_into_def mset_map [of co_cell] mset_sort)
  then have same: "distinct (map co_cell (cell_occupancy_into ix)) = distinct (map co_cell ?xs)"
    "set (map co_cell (cell_occupancy_into ix)) = set (map co_cell ?xs)"
    by (metis mset_eq_imp_distinct_iff, metis mset_eq_setD)
  show "distinct (map co_cell (cell_occupancy_into ix))"
    unfolding same cells by (simp add: sorted_list_of_fset.rep_eq)
  have "c |\<in>| fmdom (ci_cells ix) \<longleftrightarrow> (\<exists>h. h \<in> set (handles_in_cell ix c))" for c
  proof
    assume "c |\<in>| fmdom (ci_cells ix)"
    then obtain hs where "fmlookup (ci_cells ix) c = Some hs" by (auto simp: fmlookup_dom_iff)
    moreover from this have "hs \<noteq> []" using index_wfD(1) [OF assms] by (auto simp: no_empty_buckets_def)
    ultimately show "\<exists>h. h \<in> set (handles_in_cell ix c)" by (cases hs) (auto simp: handles_in_cell_def)
  next
    assume "\<exists>h. h \<in> set (handles_in_cell ix c)"
    then show "c |\<in>| fmdom (ci_cells ix)"
      by (cases "fmlookup (ci_cells ix) c") (auto simp: handles_in_cell_def fmdomI)
  qed
  then show "set (map co_cell (cell_occupancy_into ix)) = {c. \<exists>h. c \<in> index_members ix h}"
    unfolding same cells using index_wfD(4) [OF assms] by auto
qed

section \<open>Properties\<close>

text \<open>C35. A load sample is a census. There is one sample per station, in order; it counts every record of the
  station once by role, the events queued for it, and all its reported subscribers; its cells are the
  occupied cells of the station's index, each once and in order, and each counts the live entities filed
  there by role.\<close>

theorem load_sample_is_census:
  assumes i: "i < length (station_set_iter ss)" and s: "s = station_set_iter ss ! i"
    and ix: "index_set_get ixs (station_key s) = Some ix" "index_wf ix"
    and small: "length (station_iter s) \<le> usize_max" "\<And>c. length (handles_in_cell ix c) \<le> usize_max"
    and x: "x = sample_all cfg ss ixs router counts ! i"
  shows "length (sample_all cfg ss ixs router counts) = length (station_set_iter ss) \<and> sl_station_id x = station_key s \<and>
    sl_owned_entities x = length (filter record_is_owned (station_iter s)) \<and>
    sl_ghost_entities x = length (filter (\<lambda>r. \<not> record_is_owned r) (station_iter s)) \<and>
    sl_queued_events x = (case router_queued_len router (station_key s) of None \<Rightarrow> 0 | Some n \<Rightarrow> n) \<and>
    sl_subscribers x = min (sum_list (map snd (filter (\<lambda>c. fst c = station_key s) counts))) usize_max \<and>
    sorted (map cl_cell (sl_cells x)) \<and> distinct (map cl_cell (sl_cells x)) \<and>
    set (map cl_cell (sl_cells x)) = {c. \<exists>h. c \<in> index_members ix h} \<and>
    (\<forall>y \<in> set (sl_cells x). cl_owned_entities y = card (cell_census s ix record_is_owned (cl_cell y)) \<and>
       cl_ghost_entities y = card (cell_census s ix (\<lambda>r. \<not> record_is_owned r) (cl_cell y)))"
proof -
  have cell: "cl_cell (sample_cell cfg s ix occ) = co_cell occ" for occ
    by (simp add: sample_cell_def Let_def split: prod.split)
  have len: "length (sample_all cfg ss ixs router counts) = length (station_set_iter ss)" by (simp add: sample_all_def Let_def)
  have xs: "x = sample_station cfg s (Some ix) (case router_queued_len router (station_key s) of None \<Rightarrow> 0 | Some n \<Rightarrow> n)
      (case fmlookup (count_subscribers counts) (station_key s) of None \<Rightarrow> 0 | Some n \<Rightarrow> n)"
    using i ix(1) unfolding x s by (simp add: sample_all_def Let_def)
  have cells: "sl_cells x = map (sample_cell cfg s ix) (cell_occupancy_into ix)"
    and head: "sl_station_id x = station_key s" "(sl_owned_entities x, sl_ghost_entities x) = count_station_roles s"
      "sl_queued_events x = (case router_queued_len router (station_key s) of None \<Rightarrow> 0 | Some n \<Rightarrow> n)"
      "sl_subscribers x = min (sum_list (map snd (filter (\<lambda>c. fst c = station_key s) counts))) usize_max"
    unfolding xs count_subscribers_sum by (simp_all add: sample_station_def Let_def split: prod.split)
  have names: "map cl_cell (sl_cells x) = map co_cell (cell_occupancy_into ix)" by (simp add: cells cell comp_def)
  have roles: "sl_owned_entities x = length (filter record_is_owned (station_iter s))"
    "sl_ghost_entities x = length (filter (\<lambda>r. \<not> record_is_owned r) (station_iter s))"
    using head(2) le_trans [OF length_filter_le small(1)] by (simp_all add: count_station_roles_def fold_count_role)
  have "\<forall>y \<in> set (sl_cells x). cl_owned_entities y = card (cell_census s ix record_is_owned (cl_cell y)) \<and>
       cl_ghost_entities y = card (cell_census s ix (\<lambda>r. \<not> record_is_owned r) (cl_cell y))"
    using sample_cell_counts [OF ix(2) small(2)] by (auto simp: cells cell)
  then show ?thesis unfolding names using len head(1,3,4) roles occupancy_cells [OF ix(2)] by blast
qed

lemma demo_stations_iter: "station_set_iter demo_stations = [demo_station 1 9, demo_station 2 8]"
  using kv_push_sound [of station_key station_set_new "demo_station 1 9"]
    kv_push_sound [of station_key "kv_push station_key station_set_new (demo_station 1 9)" "demo_station 2 8"]
  by (simp add: demo_stations_def station_set_iter_def station_set_push_def station_set_new_def)

lemma load_sample_is_census_witness:
  "\<exists>x y. sample_all default_sampler_config demo_stations demo_indexes (router_new default_event_limits) [(1, 3), (2, 5), (1, 4)] ! 0 = x \<and>
     sl_owned_entities x = 1 \<and> sl_ghost_entities x = 0 \<and> sl_subscribers x = 7 \<and> y \<in> set (sl_cells x) \<and>
     cl_cell y = cell_at demo_grid demo_position \<and> cl_owned_entities y = 1"
proof -
  let ?all = "sample_all default_sampler_config demo_stations demo_indexes (router_new default_event_limits) [(1, 3), (2, 5), (1, 4)]"
    and ?s = "demo_station 1 9" and ?c = "cell_at demo_grid demo_position"
    and ?r = "record_owned 9 (EntityHandle 0 0) demo_position BPoint 3 0"
  define x where "x = ?all ! 0"
  have it: "0 < length (station_set_iter demo_stations)" "?s = station_set_iter demo_stations ! 0"
    by (simp_all add: demo_stations_iter)
  have key: "station_key ?s = 1" by (simp add: demo_station_def station_key_def demo_config_def)
  have index: "index_set_get demo_indexes (station_key ?s) = Some demo_filed" by (simp add: demo_indexes_get key)
  have recs: "station_iter ?s = [?r]" by (simp add: station_iter_def demo_station_def List.map_filter_def)
  have own: "record_is_owned ?r" by (simp add: record_is_owned_def record_owned_def)
  have get: "station_get ?s (EntityHandle 0 0) = Some ?r" by (simp add: demo_station_def station_get_def vec_get_def)
  have here: "set (handles_in_cell demo_filed c) \<subseteq> {EntityHandle 0 0}" for c
    using index_wfD(4) [OF demo_filed_members(1)] by (auto simp: demo_filed_members(3) split: if_splits)
  have "length (handles_in_cell demo_filed c) \<le> 1" for c
    using card_mono [OF _ here [of c]] distinct_card [OF index_wfD(2) [OF demo_filed_members(1)]] by simp
  then have small: "length (station_iter ?s) \<le> usize_max" "length (handles_in_cell demo_filed c) \<le> usize_max" for c
    using le_trans [of "length (handles_in_cell demo_filed c)" 1 usize_max] by (simp_all add: recs usize_max_def)
  note fact = load_sample_is_census [OF it index demo_filed_members(1) small x_def]
  have "?c \<in> set (map cl_cell (sl_cells x))" using fact by (auto simp: demo_filed_members(3))
  then obtain y where y: "y \<in> set (sl_cells x)" "cl_cell y = ?c" by auto
  have "cell_census ?s demo_filed record_is_owned ?c = {EntityHandle 0 0}"
    by (auto simp: cell_census_def demo_filed_members(3) get own split: if_splits)
  then have "cl_owned_entities y = 1" using fact y by auto
  moreover have "sl_owned_entities x = 1" "sl_ghost_entities x = 0" "sl_subscribers x = 7"
    using fact by (simp_all add: recs own key usize_max_def)
  ultimately show ?thesis using y x_def by blast
qed

end
