(* ===== verification/Deployment.thy ===== *)
theory Deployment
  imports Gateway
begin

text \<open>
  Deployment routes (\<open>sectorsync-runtime/src/deployment.rs\<close>): which node hosts which station, and the
  resolution of a gateway route to a node. The table keeps both directions of the placement; the
  lemmas show that they agree and that the bounds hold in every reachable table.
\<close>

record deployment_config =
  dc_max_nodes :: usize
  dc_max_stations_per_node :: usize
  dc_stale_after_ticks :: u64

definition default_deployment_config :: deployment_config where
  "default_deployment_config =
     \<lparr>dc_max_nodes = 1024, dc_max_stations_per_node = 1024, dc_stale_after_ticks = 20 * 10\<rparr>"

datatype node_state = NodeOnline | NodeDraining | NodeOffline

record node_route =
  nr_node_id :: node_id
  nr_state :: node_state
  nr_last_heartbeat :: tick
  nr_station_capacity :: usize
  nr_assigned_stations :: usize
  nr_route_epoch :: u64

record station_route =
  sr_station_id :: station_id
  sr_node_id :: node_id
  sr_route_epoch :: u64
  sr_assigned_at :: tick

record station_move =
  mv_previous :: station_route
  mv_current :: station_route

record delivery_route =
  dl_client_id :: client_id
  dl_station_id :: station_id
  dl_node_id :: node_id
  dl_gateway_generation :: u64
  dl_gateway_route_epoch :: u64
  dl_station_route_epoch :: u64
  dl_node_route_epoch :: u64
  dl_node_state :: node_state
  dl_assigned_at :: tick

record deployment_stats =
  dst_nodes_registered :: usize
  dst_nodes_draining :: usize
  dst_nodes_offline :: usize
  dst_stations_assigned :: usize
  dst_stations_moved :: usize
  dst_stations_unassigned :: usize
  dst_placements_rejected_capacity :: usize
  dst_stale_nodes_detected :: usize

datatype deployment_error =
    NodeCapacityFull usize
  | MissingNode node_id
  | MissingDeployedStation station_id
  | NodeUnavailable node_id node_state
  | NodeStationCapacity node_id usize usize

datatype delivery_error =
    DeliveryGateway gateway_error
  | DeliveryDeployment deployment_error

record node_record =
  nd_route :: node_route
  nd_stations :: "station_id fset"

definition node_record_new :: "node_id \<Rightarrow> usize \<Rightarrow> tick \<Rightarrow> node_record" where
  "node_record_new n capacity now =
     \<lparr>nd_route = \<lparr>nr_node_id = n, nr_state = NodeOnline, nr_last_heartbeat = now, nr_station_capacity = capacity,
                  nr_assigned_stations = 0, nr_route_epoch = 1\<rparr>,
      nd_stations = {||}\<rparr>"

definition refresh_assigned_count :: "node_record \<Rightarrow> node_record" where
  "refresh_assigned_count nd = nd\<lparr>nd_route := (nd_route nd)\<lparr>nr_assigned_stations := fcard (nd_stations nd)\<rparr>\<rparr>"

record deployment_table =
  dt_config :: deployment_config
  dt_nodes :: "(node_id, node_record) fmap"
  dt_stations :: "(station_id, station_route) fmap"
  dt_stats :: deployment_stats

definition deployment_new :: "deployment_config \<Rightarrow> deployment_table" where
  "deployment_new cfg =
     \<lparr>dt_config = cfg, dt_nodes = fmempty, dt_stations = fmempty,
      dt_stats = \<lparr>dst_nodes_registered = 0, dst_nodes_draining = 0, dst_nodes_offline = 0, dst_stations_assigned = 0,
        dst_stations_moved = 0, dst_stations_unassigned = 0, dst_placements_rejected_capacity = 0,
        dst_stale_nodes_detected = 0\<rparr>\<rparr>"

section \<open>Nodes\<close>

definition register_node ::
  "deployment_table \<Rightarrow> node_id \<Rightarrow> usize \<Rightarrow> tick \<Rightarrow> (deployment_error + node_route) \<times> deployment_table" where
  "register_node t n station_capacity now =
     (let capacity = min station_capacity (dc_max_stations_per_node (dt_config t)) in
      case fmlookup (dt_nodes t) n of
        Some nd \<Rightarrow>
          (let r = (nd_route nd)\<lparr>nr_last_heartbeat := now, nr_state := NodeOnline\<rparr>;
               r = (if nr_station_capacity r \<noteq> capacity
                    then r\<lparr>nr_station_capacity := capacity, nr_route_epoch := sat_add (nr_route_epoch r) 1\<rparr> else r);
               nd = refresh_assigned_count (nd\<lparr>nd_route := r\<rparr>)
           in (Ok (nd_route nd), t\<lparr>dt_nodes := fmupd n nd (dt_nodes t)\<rparr>))
      | None \<Rightarrow>
          if map_len (dt_nodes t) \<ge> dc_max_nodes (dt_config t)
          then (Err (NodeCapacityFull (dc_max_nodes (dt_config t))), t)
          else (let nd = node_record_new n capacity now; st = dt_stats t in
            (Ok (nd_route nd), t\<lparr>dt_nodes := fmupd n nd (dt_nodes t),
               dt_stats := st\<lparr>dst_nodes_registered := usize_add (dst_nodes_registered st) 1\<rparr>\<rparr>)))"

definition heartbeat ::
  "deployment_table \<Rightarrow> node_id \<Rightarrow> tick \<Rightarrow> (deployment_error + node_route) \<times> deployment_table" where
  "heartbeat t n now =
     (case fmlookup (dt_nodes t) n of
        None \<Rightarrow> (Err (MissingNode n), t)
      | Some nd \<Rightarrow>
          (let nd = nd\<lparr>nd_route := (nd_route nd)\<lparr>nr_last_heartbeat := now\<rparr>\<rparr> in
           (Ok (nd_route nd), t\<lparr>dt_nodes := fmupd n nd (dt_nodes t)\<rparr>)))"

definition set_node_state :: "node_state \<Rightarrow> node_record \<Rightarrow> node_record" where
  "set_node_state s nd =
     nd\<lparr>nd_route := (nd_route nd)\<lparr>nr_state := s, nr_route_epoch := sat_add (nr_route_epoch (nd_route nd)) 1\<rparr>\<rparr>"

definition mark_draining :: "deployment_table \<Rightarrow> node_id \<Rightarrow> (deployment_error + node_route) \<times> deployment_table" where
  "mark_draining t n =
     (case fmlookup (dt_nodes t) n of
        None \<Rightarrow> (Err (MissingNode n), t)
      | Some nd \<Rightarrow>
          if nr_state (nd_route nd) \<noteq> NodeDraining
          then (let nd = set_node_state NodeDraining nd; st = dt_stats t in
            (Ok (nd_route nd), t\<lparr>dt_nodes := fmupd n nd (dt_nodes t),
               dt_stats := st\<lparr>dst_nodes_draining := usize_add (dst_nodes_draining st) 1\<rparr>\<rparr>))
          else (Ok (nd_route nd), t))"

definition mark_offline :: "deployment_table \<Rightarrow> node_id \<Rightarrow> (deployment_error + node_route) \<times> deployment_table" where
  "mark_offline t n =
     (case fmlookup (dt_nodes t) n of
        None \<Rightarrow> (Err (MissingNode n), t)
      | Some nd \<Rightarrow>
          if nr_state (nd_route nd) \<noteq> NodeOffline
          then (let nd = set_node_state NodeOffline nd; st = dt_stats t in
            (Ok (nd_route nd), t\<lparr>dt_nodes := fmupd n nd (dt_nodes t),
               dt_stats := st\<lparr>dst_nodes_offline := usize_add (dst_nodes_offline st) 1\<rparr>\<rparr>))
          else (Ok (nd_route nd), t))"

definition is_stale :: "u64 \<Rightarrow> tick \<Rightarrow> node_record \<Rightarrow> bool" where
  "is_stale stale_after now nd \<longleftrightarrow>
     nr_state (nd_route nd) \<noteq> NodeOffline \<and> sat_sub now (nr_last_heartbeat (nd_route nd)) > stale_after"

definition stale_nodes :: "deployment_table \<Rightarrow> tick \<Rightarrow> node_id list" where
  "stale_nodes t now =
     filter (\<lambda>n. case fmlookup (dt_nodes t) n of
                   None \<Rightarrow> False | Some nd \<Rightarrow> is_stale (dc_stale_after_ticks (dt_config t)) now nd)
       (sorted_list_of_fset (fmdom (dt_nodes t)))"

definition mark_stale_offline :: "deployment_table \<Rightarrow> tick \<Rightarrow> usize \<times> deployment_table" where
  "mark_stale_offline t now =
     (let stale_after = dc_stale_after_ticks (dt_config t); stale = length (stale_nodes t now); st = dt_stats t in
      (stale, t\<lparr>dt_nodes := fmmap (\<lambda>nd. if is_stale stale_after now nd then set_node_state NodeOffline nd else nd) (dt_nodes t),
                dt_stats := st\<lparr>dst_stale_nodes_detected := usize_add (dst_stale_nodes_detected st) stale,
                               dst_nodes_offline := usize_add (dst_nodes_offline st) stale\<rparr>\<rparr>))"

definition ensure_node_can_accept :: "deployment_table \<Rightarrow> node_id \<Rightarrow> deployment_error + unit" where
  "ensure_node_can_accept t n =
     (case fmlookup (dt_nodes t) n of
        None \<Rightarrow> Err (MissingNode n)
      | Some nd \<Rightarrow>
          (case nr_state (nd_route nd) of NodeOnline \<Rightarrow> Ok () | s \<Rightarrow> Err (NodeUnavailable n s)))"

section \<open>Placements\<close>

definition count_rejected :: "deployment_table \<Rightarrow> deployment_table" where
  "count_rejected t = t\<lparr>dt_stats := (dt_stats t)\<lparr>dst_placements_rejected_capacity :=
     usize_add (dst_placements_rejected_capacity (dt_stats t)) 1\<rparr>\<rparr>"

definition add_placement :: "station_id \<Rightarrow> node_record \<Rightarrow> node_record" where
  "add_placement s nd = refresh_assigned_count (nd\<lparr>nd_stations := finsert s (nd_stations nd)\<rparr>)"

definition drop_placement :: "station_id \<Rightarrow> node_record \<Rightarrow> node_record" where
  "drop_placement s nd = refresh_assigned_count (nd\<lparr>nd_stations := nd_stations nd |-| {|s|}\<rparr>)"

definition drop_from_node :: "(node_id, node_record) fmap \<Rightarrow> node_id \<Rightarrow> station_id \<Rightarrow> (node_id, node_record) fmap" where
  "drop_from_node nodes n s =
     (case fmlookup nodes n of None \<Rightarrow> nodes | Some nd \<Rightarrow> fmupd n (drop_placement s nd) nodes)"

definition move_station ::
  "deployment_table \<Rightarrow> station_id \<Rightarrow> node_id \<Rightarrow> tick \<Rightarrow> (deployment_error + station_move) \<times> deployment_table" where
  "move_station t s target now =
     (case ensure_node_can_accept t target of
        Inl e \<Rightarrow> (Err e, t)
      | Inr _ \<Rightarrow>
          (case fmlookup (dt_stations t) s of
             None \<Rightarrow> (Err (MissingDeployedStation s), t)
           | Some previous \<Rightarrow>
               if sr_node_id previous = target then (Ok \<lparr>mv_previous = previous, mv_current = previous\<rparr>, t)
               else
                 (case fmlookup (dt_nodes t) target of
                    None \<Rightarrow> (Err (MissingNode target), t)
                  | Some nd \<Rightarrow>
                      (let attempted = usize_add (fcard (nd_stations nd)) 1; capacity = nr_station_capacity (nd_route nd) in
                       if attempted > capacity then (Err (NodeStationCapacity target capacity attempted), count_rejected t)
                       else
                         (let nodes = drop_from_node (dt_nodes t) (sr_node_id previous) s in
                          case fmlookup nodes target of
                            None \<Rightarrow> (Err (MissingNode target), t\<lparr>dt_nodes := nodes\<rparr>)
                          | Some tn \<Rightarrow>
                              (let current = \<lparr>sr_station_id = s, sr_node_id = target,
                                     sr_route_epoch = sat_add (sr_route_epoch previous) 1, sr_assigned_at = now\<rparr>;
                                   st = dt_stats t
                               in (Ok \<lparr>mv_previous = previous, mv_current = current\<rparr>,
                                   t\<lparr>dt_nodes := fmupd target (add_placement s tn) nodes,
                                     dt_stations := fmupd s current (dt_stations t),
                                     dt_stats := st\<lparr>dst_stations_moved := usize_add (dst_stations_moved st) 1\<rparr>\<rparr>)))))))"

definition assign_station ::
  "deployment_table \<Rightarrow> station_id \<Rightarrow> node_id \<Rightarrow> tick \<Rightarrow> (deployment_error + station_route) \<times> deployment_table" where
  "assign_station t s n now =
     (case ensure_node_can_accept t n of
        Inl e \<Rightarrow> (Err e, t)
      | Inr _ \<Rightarrow>
          (case fmlookup (dt_stations t) s of
             Some existing \<Rightarrow>
               if sr_node_id existing = n then (Ok existing, t)
               else (case move_station t s n now of
                   (Inl e, t1) \<Rightarrow> (Err e, t1)
                 | (Inr m, t1) \<Rightarrow> (Ok (mv_current m), t1))
           | None \<Rightarrow>
               (case fmlookup (dt_nodes t) n of
                  None \<Rightarrow> (Err (MissingNode n), t)
                | Some nd \<Rightarrow>
                    (let attempted = usize_add (fcard (nd_stations nd)) 1; capacity = nr_station_capacity (nd_route nd) in
                     if attempted > capacity then (Err (NodeStationCapacity n capacity attempted), count_rejected t)
                     else
                       (let r = \<lparr>sr_station_id = s, sr_node_id = n, sr_route_epoch = 1, sr_assigned_at = now\<rparr>;
                            st = dt_stats t
                        in (Ok r, t\<lparr>dt_nodes := fmupd n (add_placement s nd) (dt_nodes t),
                              dt_stations := fmupd s r (dt_stations t),
                              dt_stats := st\<lparr>dst_stations_assigned := usize_add (dst_stations_assigned st) 1\<rparr>\<rparr>))))))"

definition unassign_station ::
  "deployment_table \<Rightarrow> station_id \<Rightarrow> (deployment_error + station_route) \<times> deployment_table" where
  "unassign_station t s =
     (case fmlookup (dt_stations t) s of
        None \<Rightarrow> (Err (MissingDeployedStation s), t)
      | Some r \<Rightarrow>
          (let st = dt_stats t in
           (Ok r, t\<lparr>dt_stations := fmdrop s (dt_stations t), dt_nodes := drop_from_node (dt_nodes t) (sr_node_id r) s,
                    dt_stats := st\<lparr>dst_stations_unassigned := usize_add (dst_stations_unassigned st) 1\<rparr>\<rparr>)))"

section \<open>Resolution\<close>

definition deployed_node :: "deployment_table \<Rightarrow> node_id \<Rightarrow> deployment_error + node_route" where
  "deployed_node t n = (case fmlookup (dt_nodes t) n of None \<Rightarrow> Err (MissingNode n) | Some nd \<Rightarrow> Ok (nd_route nd))"

definition deployed_station :: "deployment_table \<Rightarrow> station_id \<Rightarrow> deployment_error + station_route" where
  "deployed_station t s =
     (case fmlookup (dt_stations t) s of None \<Rightarrow> Err (MissingDeployedStation s) | Some r \<Rightarrow> Ok r)"

definition stations_on_node :: "deployment_table \<Rightarrow> node_id \<Rightarrow> deployment_error + station_id list" where
  "stations_on_node t n =
     (case fmlookup (dt_nodes t) n of
        None \<Rightarrow> Err (MissingNode n) | Some nd \<Rightarrow> Ok (sorted_list_of_fset (nd_stations nd)))"

definition resolve_gateway_route :: "deployment_table \<Rightarrow> gateway_route \<Rightarrow> deployment_error + delivery_route" where
  "resolve_gateway_route t g =
     and_then (deployed_station t (gr_station_id g)) (\<lambda>s.
     and_then (deployed_node t (sr_node_id s)) (\<lambda>n.
       if nr_state n = NodeOffline then Err (NodeUnavailable (nr_node_id n) (nr_state n))
       else Ok \<lparr>dl_client_id = gr_client_id g, dl_station_id = gr_station_id g, dl_node_id = nr_node_id n,
                dl_gateway_generation = gr_generation g, dl_gateway_route_epoch = gr_route_epoch g,
                dl_station_route_epoch = sr_route_epoch s, dl_node_route_epoch = nr_route_epoch n,
                dl_node_state = nr_state n, dl_assigned_at = sr_assigned_at s\<rparr>))"

definition resolve_gateway_client ::
  "deployment_table \<Rightarrow> session_table \<Rightarrow> client_id \<Rightarrow> delivery_error + delivery_route" where
  "resolve_gateway_client t gw c =
     and_then (map_err DeliveryGateway (table_route gw c)) (\<lambda>g.
       map_err DeliveryDeployment (resolve_gateway_route t g))"

section \<open>The two directions of the placement agree\<close>

definition node_ok :: "deployment_config \<Rightarrow> node_id \<Rightarrow> node_record \<Rightarrow> bool" where
  "node_ok cfg n nd \<longleftrightarrow>
     nr_node_id (nd_route nd) = n \<and> nr_assigned_stations (nd_route nd) = fcard (nd_stations nd) \<and>
     nr_station_capacity (nd_route nd) \<le> dc_max_stations_per_node cfg \<and>
     fcard (nd_stations nd) \<le> dc_max_stations_per_node cfg"

text \<open>Node \<open>n\<close> lists station \<open>s\<close>; station \<open>s\<close> is routed to node \<open>n\<close>.\<close>

definition listed :: "(node_id, node_record) fmap \<Rightarrow> station_id \<Rightarrow> node_id \<Rightarrow> bool" where
  "listed nodes s n \<longleftrightarrow> (\<exists>nd. fmlookup nodes n = Some nd \<and> s |\<in>| nd_stations nd)"

definition routed :: "(station_id, station_route) fmap \<Rightarrow> station_id \<Rightarrow> node_id \<Rightarrow> bool" where
  "routed stations s n \<longleftrightarrow> (\<exists>r. fmlookup stations s = Some r \<and> sr_node_id r = n)"

definition deployment_wf :: "deployment_table \<Rightarrow> bool" where
  "deployment_wf t \<longleftrightarrow>
     map_len (dt_nodes t) \<le> dc_max_nodes (dt_config t) \<and>
     (\<forall>n nd. fmlookup (dt_nodes t) n = Some nd \<longrightarrow> node_ok (dt_config t) n nd) \<and>
     (\<forall>s r. fmlookup (dt_stations t) s = Some r \<longrightarrow> sr_station_id r = s) \<and>
     (\<forall>s n. listed (dt_nodes t) s n \<longleftrightarrow> routed (dt_stations t) s n)"

inductive deployment_step :: "deployment_table \<Rightarrow> deployment_table \<Rightarrow> bool" where
  step_register: "register_node t n cap now = (r, t') \<Longrightarrow> deployment_step t t'"
| step_heartbeat: "heartbeat t n now = (r, t') \<Longrightarrow> deployment_step t t'"
| step_draining: "mark_draining t n = (r, t') \<Longrightarrow> deployment_step t t'"
| step_offline: "mark_offline t n = (r, t') \<Longrightarrow> deployment_step t t'"
| step_stale: "mark_stale_offline t now = (k, t') \<Longrightarrow> deployment_step t t'"
| step_assign: "assign_station t s n now = (a, t') \<Longrightarrow> deployment_step t t'"
| step_move: "move_station t s n now = (mv, t') \<Longrightarrow> deployment_step t t'"
| step_unassign: "unassign_station t s = (a, t') \<Longrightarrow> deployment_step t t'"

inductive deployment_reachable :: "deployment_table \<Rightarrow> bool" where
  reach_new: "deployment_reachable (deployment_new cfg)"
| reach_step: "deployment_reachable t \<Longrightarrow> deployment_step t t' \<Longrightarrow> deployment_reachable t'"

lemmas deployment_records = node_record_new_def refresh_assigned_count_def set_node_state_def
  add_placement_def drop_placement_def count_rejected_def

lemma fcard_stations_small: "fcard (A :: station_id fset) < usize_max"
proof -
  have "fcard A \<le> card (UNIV :: u32 set)" by (simp add: fcard.rep_eq card_mono)
  also have "\<dots> < usize_max" by (simp add: card_word usize_max_def)
  finally show ?thesis .
qed

lemma usize_add_stations [simp]: "usize_add (fcard (A :: station_id fset)) (Suc 0) = Suc (fcard A)"
  using fcard_stations_small [of A] by (simp add: usize_add_small)

lemma node_ok_cong:
  "node_ok cfg n nd \<Longrightarrow> nr_node_id (nd_route nd') = nr_node_id (nd_route nd) \<Longrightarrow>
   nr_assigned_stations (nd_route nd') = nr_assigned_stations (nd_route nd) \<Longrightarrow>
   nr_station_capacity (nd_route nd') \<le> dc_max_stations_per_node cfg \<Longrightarrow> nd_stations nd' = nd_stations nd \<Longrightarrow>
   node_ok cfg n nd'"
  by (simp add: node_ok_def)

lemma node_ok_drop: "node_ok cfg n nd \<Longrightarrow> node_ok cfg n (drop_placement s nd)"
proof -
  assume ok: "node_ok cfg n nd"
  have "nd_stations nd |-| {|s|} |\<subseteq>| nd_stations nd" by blast
  from fcard_mono [OF this] ok show ?thesis by (auto simp: node_ok_def deployment_records)
qed

lemma node_ok_add:
  "node_ok cfg n nd \<Longrightarrow> Suc (fcard (nd_stations nd)) \<le> nr_station_capacity (nd_route nd) \<Longrightarrow>
   node_ok cfg n (add_placement s nd)"
  by (auto simp: node_ok_def deployment_records fcard_finsert_if)

lemma add_placement_stations [simp]: "nd_stations (add_placement s nd) = finsert s (nd_stations nd)"
  by (simp add: deployment_records)

lemma drop_placement_stations [simp]: "nd_stations (drop_placement s nd) = nd_stations nd |-| {|s|}"
  by (simp add: deployment_records)

lemma placement_capacity [simp]:
  "nr_station_capacity (nd_route (add_placement s nd)) = nr_station_capacity (nd_route nd)"
  "nr_station_capacity (nd_route (drop_placement s nd)) = nr_station_capacity (nd_route nd)"
  by (simp_all add: deployment_records)

lemma listed_upd:
  "listed (fmupd m nd nodes) s n \<longleftrightarrow> (if n = m then s |\<in>| nd_stations nd else listed nodes s n)"
  by (simp add: listed_def)

lemma listed_same:
  assumes "fmlookup nodes m = Some nd" and "nd_stations nd' = nd_stations nd"
  shows "listed (fmupd m nd' nodes) s n = listed nodes s n"
  by (cases "n = m") (simp_all add: listed_def assms)

lemma routed_upd: "routed (fmupd k r stations) s n \<longleftrightarrow> (if s = k then sr_node_id r = n else routed stations s n)"
  by (simp add: routed_def)

lemma listed_drop: "listed (drop_from_node nodes m k) s n \<longleftrightarrow> listed nodes s n \<and> \<not> (n = m \<and> s = k)"
  by (auto simp: listed_def drop_from_node_def split: option.splits)

lemma lookup_drop_from_node:
  "fmlookup (drop_from_node nodes m k) n =
     (if n = m then map_option (drop_placement k) (fmlookup nodes n) else fmlookup nodes n)"
  by (auto simp: drop_from_node_def split: option.splits)

lemma dom_drop_from_node [simp]: "fmdom (drop_from_node nodes m k) = fmdom nodes"
  by (auto simp: drop_from_node_def finsert_absorb fmdomI split: option.splits)

section \<open>Every operation keeps it\<close>

lemma deployment_wfI:
  assumes "map_len (dt_nodes t) \<le> dc_max_nodes (dt_config t)"
    and "\<And>n nd. fmlookup (dt_nodes t) n = Some nd \<Longrightarrow> node_ok (dt_config t) n nd"
    and "\<And>s r. fmlookup (dt_stations t) s = Some r \<Longrightarrow> sr_station_id r = s"
    and "\<And>s n. listed (dt_nodes t) s n \<longleftrightarrow> routed (dt_stations t) s n"
  shows "deployment_wf t"
  using assms by (auto simp: deployment_wf_def)

lemma deployment_wfD:
  assumes "deployment_wf t"
  shows "map_len (dt_nodes t) \<le> dc_max_nodes (dt_config t)"
    and "fmlookup (dt_nodes t) n = Some nd \<Longrightarrow> node_ok (dt_config t) n nd"
    and "fmlookup (dt_stations t) s = Some r \<Longrightarrow> sr_station_id r = s"
    and "listed (dt_nodes t) s n \<longleftrightarrow> routed (dt_stations t) s n"
  using assms by (auto simp: deployment_wf_def)

text \<open>Replacing a node's route keeps the table well formed when its station list is kept.\<close>

lemma wf_update_node:
  assumes "deployment_wf t" and "fmlookup (dt_nodes t) n = Some nd" and "node_ok (dt_config t) n nd'"
    and "nd_stations nd' = nd_stations nd" and "dt_config t' = dt_config t" and "dt_stations t' = dt_stations t"
    and "dt_nodes t' = fmupd n nd' (dt_nodes t)"
  shows "deployment_wf t'"
proof (rule deployment_wfI)
  show "map_len (dt_nodes t') \<le> dc_max_nodes (dt_config t')"
    using deployment_wfD(1) [OF assms(1)] assms(2,5,7) map_len_insert [of n "dt_nodes t"] by simp
next
  fix m md assume "fmlookup (dt_nodes t') m = Some md"
  then show "node_ok (dt_config t') m md"
    using deployment_wfD(2) [OF assms(1)] assms(3,5,7) by (auto split: if_splits)
next
  fix s r assume "fmlookup (dt_stations t') s = Some r"
  then show "sr_station_id r = s" using deployment_wfD(3) [OF assms(1)] assms(6) by simp
next
  fix s m show "listed (dt_nodes t') s m = routed (dt_stations t') s m"
    using deployment_wfD(4) [OF assms(1)] assms(6,7) listed_same [OF assms(2,4)] by simp
qed

lemma wf_register: "deployment_wf t \<Longrightarrow> register_node t n cap now = (r, t') \<Longrightarrow> deployment_wf t'"
proof (cases "fmlookup (dt_nodes t) n")
  case None
  assume wf: "deployment_wf t" and run: "register_node t n cap now = (r, t')"
  have fresh: "\<not> listed (dt_nodes t) s n" for s using None by (simp add: listed_def)
  show ?thesis
  proof (cases "map_len (dt_nodes t) \<ge> dc_max_nodes (dt_config t)")
    case True
    then show ?thesis using wf run None by (simp add: register_node_def Let_def)
  next
    case False
    note D = deployment_wfD [OF wf]
    show ?thesis using run None False fresh D map_len_insert [of n "dt_nodes t"]
      by (intro deployment_wfI)
        (auto simp: register_node_def Let_def listed_upd deployment_records node_ok_def fcard.rep_eq split: if_splits)
  qed
next
  case (Some nd)
  assume wf: "deployment_wf t" and run: "register_node t n cap now = (r, t')"
  note ok = deployment_wfD(2) [OF wf Some]
  show ?thesis using run Some ok
    by (intro wf_update_node [OF wf Some, where nd' = "the (fmlookup (dt_nodes t') n)"])
      (auto simp: register_node_def Let_def deployment_records node_ok_def split: if_splits)
qed

lemma wf_node_states:
  assumes "deployment_wf t"
  shows "heartbeat t n now = (r, t') \<Longrightarrow> deployment_wf t'"
    and "mark_draining t n = (r, t') \<Longrightarrow> deployment_wf t'"
    and "mark_offline t n = (r, t') \<Longrightarrow> deployment_wf t'"
proof -
  show "deployment_wf t'" if "heartbeat t n now = (r, t')"
  proof (cases "fmlookup (dt_nodes t) n")
    case (Some nd)
    show ?thesis using that Some deployment_wfD(2) [OF assms Some]
      by (intro wf_update_node [OF assms Some, where nd' = "the (fmlookup (dt_nodes t') n)"]) (auto simp: heartbeat_def Let_def node_ok_def)
  qed (use that assms in \<open>simp add: heartbeat_def\<close>)
  show "deployment_wf t'" if run: "mark_draining t n = (r, t')"
  proof (cases "\<exists>nd. fmlookup (dt_nodes t) n = Some nd \<and> nr_state (nd_route nd) \<noteq> NodeDraining")
    case True
    then obtain nd where nd: "fmlookup (dt_nodes t) n = Some nd" "nr_state (nd_route nd) \<noteq> NodeDraining" by blast
    show ?thesis using run nd deployment_wfD(2) [OF assms nd(1)]
      by (intro wf_update_node [OF assms nd(1), where nd' = "the (fmlookup (dt_nodes t') n)"]) (auto simp: mark_draining_def Let_def node_ok_def deployment_records)
  qed (use run assms in \<open>auto simp: mark_draining_def Let_def split: option.splits if_splits\<close>)
  show "deployment_wf t'" if run: "mark_offline t n = (r, t')"
  proof (cases "\<exists>nd. fmlookup (dt_nodes t) n = Some nd \<and> nr_state (nd_route nd) \<noteq> NodeOffline")
    case True
    then obtain nd where nd: "fmlookup (dt_nodes t) n = Some nd" "nr_state (nd_route nd) \<noteq> NodeOffline" by blast
    show ?thesis using run nd deployment_wfD(2) [OF assms nd(1)]
      by (intro wf_update_node [OF assms nd(1), where nd' = "the (fmlookup (dt_nodes t') n)"]) (auto simp: mark_offline_def Let_def node_ok_def deployment_records)
  qed (use run assms in \<open>auto simp: mark_offline_def Let_def split: option.splits if_splits\<close>)
qed

lemma wf_stale: "deployment_wf t \<Longrightarrow> mark_stale_offline t now = (k, t') \<Longrightarrow> deployment_wf t'"
proof -
  assume wf: "deployment_wf t" and run: "mark_stale_offline t now = (k, t')"
  let ?f = "\<lambda>nd. if is_stale (dc_stale_after_ticks (dt_config t)) now nd then set_node_state NodeOffline nd else nd"
  have t': "dt_nodes t' = fmmap ?f (dt_nodes t)" "dt_stations t' = dt_stations t" "dt_config t' = dt_config t"
    using run by (auto simp: mark_stale_offline_def Let_def)
  have keeps: "nd_stations (?f nd) = nd_stations nd" "node_ok cfg n nd \<Longrightarrow> node_ok cfg n (?f nd)" for nd cfg n
    by (auto simp: deployment_records node_ok_def)
  have "listed (fmmap ?f (dt_nodes t)) s n = listed (dt_nodes t) s n" for s n
    by (cases "fmlookup (dt_nodes t) n") (simp_all add: listed_def keeps(1))
  then show ?thesis using deployment_wfD [OF wf] keeps(2)
    by (intro deployment_wfI) (auto simp: t')
qed

text \<open>A placement: the node gains the station, the route of the station points at it, and any node that
  had the station loses it.\<close>

lemma wf_place:
  assumes wf: "deployment_wf t" and nd: "fmlookup (dt_nodes t) n = Some nd"
    and room: "Suc (fcard (nd_stations nd)) \<le> nr_station_capacity (nd_route nd)"
    and r: "sr_station_id r = s" "sr_node_id r = n"
    and other: "\<And>m. routed (dt_stations t) s m \<Longrightarrow> m = old" and "old \<noteq> n"
    and t': "dt_config t' = dt_config t" "dt_stations t' = fmupd s r (dt_stations t)"
      "dt_nodes t' = fmupd n (add_placement s nd) (drop_from_node (dt_nodes t) old s)"
  shows "deployment_wf t'"
proof (rule deployment_wfI)
  show "map_len (dt_nodes t') \<le> dc_max_nodes (dt_config t')"
    using deployment_wfD(1) [OF wf] nd map_len_insert [of n "dt_nodes t"] by (simp add: t')
next
  fix m md assume "fmlookup (dt_nodes t') m = Some md"
  then show "node_ok (dt_config t') m md"
    using node_ok_add [OF deployment_wfD(2) [OF wf nd] room] deployment_wfD(2) [OF wf] node_ok_drop
    by (auto simp: t' lookup_drop_from_node split: if_splits)
next
  fix k q assume "fmlookup (dt_stations t') k = Some q"
  then show "sr_station_id q = k" using deployment_wfD(3) [OF wf] r by (auto simp: t' split: if_splits)
next
  fix k m
  have "routed (dt_stations t) k m \<longleftrightarrow> listed (dt_nodes t) k m" using deployment_wfD(4) [OF wf] by blast
  moreover have "listed (dt_nodes t) k n \<longleftrightarrow> k |\<in>| nd_stations nd" by (simp add: listed_def nd)
  ultimately show "listed (dt_nodes t') k m \<longleftrightarrow> routed (dt_stations t') k m"
    using other \<open>old \<noteq> n\<close> r by (auto simp: t' listed_upd listed_drop routed_upd)
qed

lemma drop_from_node_other: "\<not> listed nodes s m \<Longrightarrow> (\<And>nd. fmlookup nodes m = Some nd \<Longrightarrow> node_ok cfg m nd) \<Longrightarrow> drop_from_node nodes m s = nodes"
proof (cases "fmlookup nodes m")
  case (Some nd)
  assume "\<not> listed nodes s m" and "\<And>nd. fmlookup nodes m = Some nd \<Longrightarrow> node_ok cfg m nd"
  then have "drop_placement s nd = nd" using Some
    by (auto simp: listed_def node_ok_def deployment_records intro: node_record.equality)
  then show ?thesis using Some by (auto simp: drop_from_node_def intro!: fmap_ext)
qed (simp add: drop_from_node_def)

lemma accepting_node:
  "ensure_node_can_accept t n = Ok u \<longleftrightarrow> (\<exists>nd. fmlookup (dt_nodes t) n = Some nd \<and> nr_state (nd_route nd) = NodeOnline)"
  by (auto simp: ensure_node_can_accept_def split: option.splits node_state.splits)

text \<open>What a successful placement does. The late error of a move, after the source node has been changed, does
  not happen: the target is another node, so it is still there.\<close>

lemma move_station_cases:
  assumes "move_station t s n now = (res, t')"
  obtains (refused) e where "res = Err e" "dt_nodes t' = dt_nodes t" "dt_stations t' = dt_stations t" "dt_config t' = dt_config t"
  | (same) q where "res = Ok \<lparr>mv_previous = q, mv_current = q\<rparr>" "fmlookup (dt_stations t) s = Some q" "sr_node_id q = n" "t' = t"
      "ensure_node_can_accept t n = Ok ()"
  | (moved) q nd where "fmlookup (dt_stations t) s = Some q" "sr_node_id q \<noteq> n" "fmlookup (dt_nodes t) n = Some nd"
      "ensure_node_can_accept t n = Ok ()" "Suc (fcard (nd_stations nd)) \<le> nr_station_capacity (nd_route nd)"
      "res = Ok \<lparr>mv_previous = q, mv_current = \<lparr>sr_station_id = s, sr_node_id = n,
         sr_route_epoch = sat_add (sr_route_epoch q) 1, sr_assigned_at = now\<rparr>\<rparr>"
      "dt_config t' = dt_config t"
      "dt_nodes t' = fmupd n (add_placement s nd) (drop_from_node (dt_nodes t) (sr_node_id q) s)"
      "dt_stations t' = fmupd s \<lparr>sr_station_id = s, sr_node_id = n, sr_route_epoch = sat_add (sr_route_epoch q) 1,
         sr_assigned_at = now\<rparr> (dt_stations t)"
proof (cases "ensure_node_can_accept t n")
  case (Inl e)
  then show thesis using assms by (intro refused) (auto simp: move_station_def)
next
  case (Inr u)
  then obtain nd where nd: "fmlookup (dt_nodes t) n = Some nd" by (auto simp: accepting_node)
  have u: "ensure_node_can_accept t n = Ok ()" using Inr by simp
  show thesis
  proof (cases "fmlookup (dt_stations t) s")
    case None
    then show thesis using assms u by (intro refused) (auto simp: move_station_def)
  next
    case (Some q)
    consider "sr_node_id q = n" | "sr_node_id q \<noteq> n" "Suc (fcard (nd_stations nd)) > nr_station_capacity (nd_route nd)"
      | "sr_node_id q \<noteq> n" "Suc (fcard (nd_stations nd)) \<le> nr_station_capacity (nd_route nd)" by linarith
    then show thesis
    proof cases
      case 1
      then show thesis using assms u Some by (intro same) (auto simp: move_station_def)
    next
      case 2
      then show thesis using assms u Some nd by (intro refused) (auto simp: move_station_def Let_def count_rejected_def)
    next
      case 3
      then show thesis using assms u Some nd
        by (intro moved) (auto simp: move_station_def Let_def lookup_drop_from_node)
    qed
  qed
qed

lemma assign_station_cases:
  assumes "assign_station t s n now = (res, t')"
  obtains (refused) e where "res = Err e" "dt_nodes t' = dt_nodes t" "dt_stations t' = dt_stations t" "dt_config t' = dt_config t"
  | (same) q where "res = Ok q" "fmlookup (dt_stations t) s = Some q" "sr_node_id q = n" "t' = t" "ensure_node_can_accept t n = Ok ()"
  | (moved) m where "move_station t s n now = (Ok m, t')" "res = Ok (mv_current m)" "\<exists>q. fmlookup (dt_stations t) s = Some q \<and> sr_node_id q \<noteq> n"
  | (fresh) nd where "fmlookup (dt_stations t) s = None" "fmlookup (dt_nodes t) n = Some nd" "ensure_node_can_accept t n = Ok ()"
      "Suc (fcard (nd_stations nd)) \<le> nr_station_capacity (nd_route nd)"
      "res = Ok \<lparr>sr_station_id = s, sr_node_id = n, sr_route_epoch = 1, sr_assigned_at = now\<rparr>"
      "dt_config t' = dt_config t" "dt_nodes t' = fmupd n (add_placement s nd) (dt_nodes t)"
      "dt_stations t' = fmupd s \<lparr>sr_station_id = s, sr_node_id = n, sr_route_epoch = 1, sr_assigned_at = now\<rparr> (dt_stations t)"
proof (cases "ensure_node_can_accept t n")
  case (Inl e)
  then show thesis using assms by (intro refused) (auto simp: assign_station_def)
next
  case (Inr u)
  then obtain nd where nd: "fmlookup (dt_nodes t) n = Some nd" by (auto simp: accepting_node)
  have u: "ensure_node_can_accept t n = Ok ()" using Inr by simp
  show thesis
  proof (cases "fmlookup (dt_stations t) s")
    case None
    show thesis
    proof (cases "Suc (fcard (nd_stations nd)) \<le> nr_station_capacity (nd_route nd)")
      case True
      then show thesis using assms u None nd by (intro fresh) (auto simp: assign_station_def Let_def)
    next
      case False
      then show thesis using assms u None nd by (intro refused) (auto simp: assign_station_def Let_def count_rejected_def)
    qed
  next
    case (Some q)
    obtain mv t1 where run: "move_station t s n now = (mv, t1)" by fastforce
    show thesis
    proof (cases "sr_node_id q = n")
      case True
      then show thesis using assms u Some by (intro same) (auto simp: assign_station_def)
    next
      case other: False
      show thesis
      proof (cases mv)
        case (Inl e)
        then have "res = Err e" "t' = t1" using assms u Some other run by (auto simp: assign_station_def)
        with run Inl show thesis by (elim move_station_cases) (auto intro: refused)
      next
        case (Inr m)
        then have "res = Ok (mv_current m)" "t' = t1" using assms u Some other run by (auto simp: assign_station_def)
        with run Inr Some other show thesis by (intro moved) auto
      qed
    qed
  qed
qed

lemma deployment_wf_same:
  "deployment_wf t \<Longrightarrow> dt_nodes t' = dt_nodes t \<Longrightarrow> dt_stations t' = dt_stations t \<Longrightarrow> dt_config t' = dt_config t \<Longrightarrow> deployment_wf t'"
  by (simp add: deployment_wf_def)

lemma wf_move:
  assumes wf: "deployment_wf t" and run: "move_station t s n now = (res, t')"
  shows "deployment_wf t'"
  using run
proof (cases rule: move_station_cases)
  case (moved q nd)
  have "m = sr_node_id q" if "routed (dt_stations t) s m" for m using that moved(1) by (auto simp: routed_def)
  then show ?thesis using moved by (intro wf_place [OF wf moved(3,5), where old = "sr_node_id q"]) auto
qed (auto intro: deployment_wf_same [OF wf] wf)

lemma wf_assign:
  assumes wf: "deployment_wf t" and run: "assign_station t s n now = (res, t')"
  shows "deployment_wf t'"
  using run
proof (cases rule: assign_station_cases)
  case (fresh nd)
  have none: "\<not> routed (dt_stations t) s m" for m using fresh(1) by (simp add: routed_def)
  then have "\<not> listed (dt_nodes t) s (n + 1)" using deployment_wfD(4) [OF wf] by simp
  then have "drop_from_node (dt_nodes t) (n + 1) s = dt_nodes t"
    using deployment_wfD(2) [OF wf] by (rule drop_from_node_other)
  then show ?thesis using fresh none by (intro wf_place [OF wf fresh(2,4), where old = "n + 1"]) auto
qed (auto intro: deployment_wf_same [OF wf] wf_move [OF wf] wf)

lemma wf_unassign: "deployment_wf t \<Longrightarrow> unassign_station t s = (res, t') \<Longrightarrow> deployment_wf t'"
proof (cases "fmlookup (dt_stations t) s")
  case (Some q)
  assume wf: "deployment_wf t" and run: "unassign_station t s = (res, t')"
  have t': "dt_nodes t' = drop_from_node (dt_nodes t) (sr_node_id q) s" "dt_stations t' = fmdrop s (dt_stations t)"
    "dt_config t' = dt_config t" using run Some by (auto simp: unassign_station_def Let_def)
  have "routed (dt_stations t) s m \<longleftrightarrow> m = sr_node_id q" for m using Some by (auto simp: routed_def)
  then have "listed (dt_nodes t') k m \<longleftrightarrow> routed (dt_stations t') k m" for k m
    using deployment_wfD(4) [OF wf, of k m] by (auto simp: t' listed_drop routed_def)
  then show ?thesis using deployment_wfD(1-3) [OF wf] node_ok_drop
    by (intro deployment_wfI) (auto simp: t' lookup_drop_from_node split: if_splits)
qed (auto simp: unassign_station_def)

lemma deployment_reachable_wf: "deployment_reachable t \<Longrightarrow> deployment_wf t"
proof (induction rule: deployment_reachable.induct)
  case (reach_new cfg)
  then show ?case by (simp add: deployment_wf_def deployment_new_def listed_def routed_def fcard.rep_eq)
next
  case (reach_step t t')
  from reach_step(2,3) show ?case
    by (cases rule: deployment_step.cases)
      (auto intro: wf_register wf_node_states wf_stale wf_assign wf_move wf_unassign)
qed

section \<open>Which placements are accepted\<close>

text \<open>Node \<open>n\<close> takes station \<open>s\<close>: it is online, and has the station already or has room for it.\<close>

definition takes :: "deployment_table \<Rightarrow> node_id \<Rightarrow> station_id \<Rightarrow> bool" where
  "takes t n s \<longleftrightarrow>
     (\<exists>r. deployed_node t n = Ok r \<and> nr_state r = NodeOnline \<and>
        ((\<exists>q. deployed_station t s = Ok q \<and> sr_node_id q = n) \<or> nr_assigned_stations r < nr_station_capacity r))"

lemma takes_iff:
  assumes "deployment_wf t"
  shows "takes t n s \<longleftrightarrow>
    (\<exists>nd. fmlookup (dt_nodes t) n = Some nd \<and> ensure_node_can_accept t n = Ok () \<and>
       ((\<exists>q. fmlookup (dt_stations t) s = Some q \<and> sr_node_id q = n) \<or>
        Suc (fcard (nd_stations nd)) \<le> nr_station_capacity (nd_route nd)))"
proof -
  have "nr_assigned_stations (nd_route nd) = fcard (nd_stations nd)" if "fmlookup (dt_nodes t) n = Some nd" for nd
    using deployment_wfD(2) [OF assms that] by (simp add: node_ok_def)
  then show ?thesis
    by (auto simp: takes_def deployed_node_def deployed_station_def accepting_node Suc_le_eq split: option.splits)
qed

lemma move_station_accepts:
  assumes "deployment_wf t"
  shows "(\<exists>m. fst (move_station t s n now) = Ok m) \<longleftrightarrow> takes t n s \<and> (\<exists>q. deployed_station t s = Ok q)"
proof (cases "ensure_node_can_accept t n")
  case (Inl e)
  then show ?thesis by (simp add: takes_iff [OF assms] move_station_def)
next
  case (Inr u)
  then obtain nd where "fmlookup (dt_nodes t) n = Some nd" by (auto simp: accepting_node)
  then show ?thesis using Inr
    by (cases "fmlookup (dt_stations t) s")
      (auto simp: takes_iff [OF assms] move_station_def deployed_station_def lookup_drop_from_node Let_def not_less)
qed

lemma assign_station_accepts:
  assumes "deployment_wf t"
  shows "(\<exists>q. fst (assign_station t s n now) = Ok q) \<longleftrightarrow> takes t n s"
proof (cases "ensure_node_can_accept t n")
  case (Inl e)
  then show ?thesis by (simp add: takes_iff [OF assms] assign_station_def)
next
  case (Inr u)
  then obtain nd where nd: "fmlookup (dt_nodes t) n = Some nd" by (auto simp: accepting_node)
  show ?thesis
  proof (cases "fmlookup (dt_stations t) s")
    case None
    then show ?thesis using Inr nd by (auto simp: takes_iff [OF assms] assign_station_def Let_def not_less)
  next
    case (Some q)
    have "(\<exists>q. fst (assign_station t s n now) = Ok q) \<longleftrightarrow>
        sr_node_id q = n \<or> (\<exists>m. fst (move_station t s n now) = Ok m)"
      using Inr Some by (auto simp: assign_station_def split: prod.splits sum.splits)
    then show ?thesis using Inr nd Some by (auto simp: move_station_accepts [OF assms] takes_iff [OF assms] deployed_station_def)
  qed
qed

section \<open>A run\<close>

definition demo_nodes :: deployment_table where
  "demo_nodes = snd (register_node (snd (register_node (deployment_new default_deployment_config) 1 1 5)) 2 1 5)"

definition demo_deployment :: deployment_table where
  "demo_deployment = snd (assign_station demo_nodes 11 1 5)"

lemma demo_deployment_reachable: "deployment_reachable demo_deployment"
  unfolding demo_deployment_def demo_nodes_def
  by (rule reach_step [OF reach_step [OF reach_step [OF reach_new step_register [OF prod.collapse [symmetric]]]
        step_register [OF prod.collapse [symmetric]]] step_assign [OF prod.collapse [symmetric]]])

lemma demo_nodes_are:
  "dt_nodes demo_nodes = fmupd 2 (node_record_new 2 1 5) (fmupd 1 (node_record_new 1 1 5) fmempty)"
  "dt_stations demo_nodes = fmempty"
  by (simp_all add: demo_nodes_def register_node_def deployment_new_def default_deployment_config_def fcard.rep_eq Let_def)

lemma demo_deployment_is:
  "fmlookup (dt_nodes demo_deployment) 1 = Some (add_placement 11 (node_record_new 1 1 5))"
  "fmlookup (dt_nodes demo_deployment) 2 = Some (node_record_new 2 1 5)"
  "fmlookup (dt_stations demo_deployment) 11 =
     Some \<lparr>sr_station_id = 11, sr_node_id = 1, sr_route_epoch = 1, sr_assigned_at = 5\<rparr>"
  by (simp_all add: demo_deployment_def assign_station_def ensure_node_can_accept_def demo_nodes_are node_record_new_def
      fcard.rep_eq usize_add_def usize_max_def Let_def)

lemma demo_deployment_routes:
  "deployed_station demo_deployment 11 = Ok \<lparr>sr_station_id = 11, sr_node_id = 1, sr_route_epoch = 1, sr_assigned_at = 5\<rparr>"
  "\<exists>r. deployed_node demo_deployment 1 = Ok r \<and> nr_state r = NodeOnline \<and> nr_assigned_stations r = 1"
  "fst (assign_station demo_deployment 11 2 6) =
     Ok \<lparr>sr_station_id = 11, sr_node_id = 2, sr_route_epoch = 2, sr_assigned_at = 6\<rparr>"
  by (simp_all add: deployed_station_def deployed_node_def assign_station_def move_station_def ensure_node_can_accept_def
      demo_deployment_is node_record_new_def add_placement_def refresh_assigned_count_def lookup_drop_from_node
      fcard.rep_eq usize_add_def usize_max_def sat_add_def Let_def)

section \<open>The contract\<close>

text \<open>C4. The deployment table is a bounded, exact placement. However nodes register, beat, drain, go offline or
  stale and stations are assigned, moved and removed: the number of nodes stays within its bound, a
  node's list is exactly the stations routed to it, in order, without repetition, as many as it reports
  and within the configured bound; no station is routed to a missing node; a gateway route resolves
  exactly when its station is placed on a node that is not offline; assigning a station is accepted
  exactly by an online node that has it already or has fewer stations than its capacity; and moving
  one exactly by such a node when the station is placed.\<close>

theorem placements_exact:
  assumes "deployment_reachable t"
  shows "map_len (dt_nodes t) \<le> dc_max_nodes (dt_config t) \<and>
    (\<forall>n r. deployed_node t n = Ok r \<longrightarrow> nr_node_id r = n \<and>
       (\<exists>ss. stations_on_node t n = Ok ss \<and> sorted ss \<and> distinct ss \<and> length ss = nr_assigned_stations r \<and>
          length ss \<le> dc_max_stations_per_node (dt_config t) \<and>
          set ss = {s. \<exists>q. deployed_station t s = Ok q \<and> sr_node_id q = n})) \<and>
    (\<forall>s q. deployed_station t s = Ok q \<longrightarrow> sr_station_id q = s \<and> (\<exists>r. deployed_node t (sr_node_id q) = Ok r)) \<and>
    (\<forall>g. (\<exists>d. resolve_gateway_route t g = Ok d) \<longleftrightarrow>
       (\<exists>q r. deployed_station t (gr_station_id g) = Ok q \<and> deployed_node t (sr_node_id q) = Ok r \<and>
          nr_state r \<noteq> NodeOffline)) \<and>
    (\<forall>s n now. (\<exists>q. fst (assign_station t s n now) = Ok q) \<longleftrightarrow> takes t n s) \<and>
    (\<forall>s n now. (\<exists>m. fst (move_station t s n now) = Ok m) \<longleftrightarrow> takes t n s \<and> (\<exists>q. deployed_station t s = Ok q))"
proof -
  note wf = deployment_reachable_wf [OF assms]
  note D = deployment_wfD [OF wf]
  have node: "deployed_node t n = Ok r \<longleftrightarrow> (\<exists>nd. fmlookup (dt_nodes t) n = Some nd \<and> r = nd_route nd)" for n r
    by (auto simp: deployed_node_def split: option.splits)
  have station: "deployed_station t s = Ok q \<longleftrightarrow> fmlookup (dt_stations t) s = Some q" for s q
    by (auto simp: deployed_station_def split: option.splits)
  have lists: "s |\<in>| nd_stations nd \<longleftrightarrow> (\<exists>q. fmlookup (dt_stations t) s = Some q \<and> sr_node_id q = n)"
    if "fmlookup (dt_nodes t) n = Some nd" for s n nd
    using D(4) [of s n] that by (simp add: listed_def routed_def)
  have "\<exists>ss. stations_on_node t n = Ok ss \<and> sorted ss \<and> distinct ss \<and> length ss = nr_assigned_stations r \<and>
      length ss \<le> dc_max_stations_per_node (dt_config t) \<and> set ss = {s. \<exists>q. deployed_station t s = Ok q \<and> sr_node_id q = n}"
    if "deployed_node t n = Ok r" for n r
    using that D(2) [of n] lists [of n]
    by (auto simp: node station stations_on_node_def node_ok_def sorted_list_of_fset.rep_eq fcard.rep_eq)
  moreover have "nr_node_id r = n" if "deployed_node t n = Ok r" for n r
    using that D(2) [of n] by (auto simp: node node_ok_def)
  moreover have "sr_station_id q = s \<and> (\<exists>r. deployed_node t (sr_node_id q) = Ok r)" if "deployed_station t s = Ok q" for s q
    using that D(3) [of s q] D(4) [of s "sr_node_id q"] by (auto simp: node station listed_def routed_def)
  moreover have "(\<exists>d. resolve_gateway_route t g = Ok d) \<longleftrightarrow>
      (\<exists>q r. deployed_station t (gr_station_id g) = Ok q \<and> deployed_node t (sr_node_id q) = Ok r \<and> nr_state r \<noteq> NodeOffline)" for g
    by (auto simp: resolve_gateway_route_def and_then_def split: sum.splits if_splits)
  ultimately show ?thesis using D(1) assign_station_accepts [OF wf] move_station_accepts [OF wf] by blast
qed

lemma placements_exact_witness:
  "stations_on_node demo_deployment 1 = Ok [11] \<and>
   (\<exists>d. resolve_gateway_route demo_deployment \<lparr>gr_client_id = 7, gr_station_id = 11, gr_generation = 1, gr_route_epoch = 1\<rparr> = Ok d)"
proof -
  note P = placements_exact [OF demo_deployment_reachable]
  obtain r where r: "deployed_node demo_deployment 1 = Ok r" "nr_state r = NodeOnline" "nr_assigned_stations r = 1"
    using demo_deployment_routes(2) by blast
  then obtain ss where ss: "stations_on_node demo_deployment 1 = Ok ss" "length ss = 1"
      "set ss = {s. \<exists>q. deployed_station demo_deployment s = Ok q \<and> sr_node_id q = 1}"
    using conjunct1 [OF conjunct2 [OF P], rule_format, OF r(1)] r(3) by auto
  then have "11 \<in> set ss" using demo_deployment_routes(1) by auto
  with ss(2) have "ss = [11]" by (cases ss) auto
  then show ?thesis using ss(1) P r demo_deployment_routes(1) by force
qed

text \<open>A placement is atomic. Assigning a station either changes nothing but a counter, or it is accepted
  by an online node with the station's own route: first placed at epoch one, or moved with the next
  epoch, the other stations keeping their routes and the full node never being overfilled.\<close>

theorem assignment_is_atomic:
  assumes "assign_station t s n now = (res, t')"
  shows "case res of
      Inl e \<Rightarrow> dt_nodes t' = dt_nodes t \<and> dt_stations t' = dt_stations t
    | Inr q \<Rightarrow> (\<exists>r. deployed_node t n = Ok r \<and> nr_state r = NodeOnline) \<and> sr_node_id q = n \<and>
        deployed_station t' s = Ok q \<and> (\<forall>k. k \<noteq> s \<longrightarrow> deployed_station t' k = deployed_station t k) \<and>
        sr_route_epoch q = (case deployed_station t s of
            Inl e \<Rightarrow> 1
          | Inr p \<Rightarrow> if sr_node_id p = n then sr_route_epoch p else sat_add (sr_route_epoch p) 1)"
  using assms
proof (cases rule: assign_station_cases)
  case (moved m)
  from moved(1) show ?thesis using moved(2,3)
    by (cases rule: move_station_cases) (auto simp: accepting_node deployed_node_def deployed_station_def)
qed (auto simp: accepting_node deployed_node_def deployed_station_def)

lemma assignment_is_atomic_witness:
  "\<exists>t'. assign_station demo_deployment 11 2 6 =
       (Ok \<lparr>sr_station_id = 11, sr_node_id = 2, sr_route_epoch = 2, sr_assigned_at = 6\<rparr>, t') \<and>
     deployed_station t' 11 = Ok \<lparr>sr_station_id = 11, sr_node_id = 2, sr_route_epoch = 2, sr_assigned_at = 6\<rparr>"
proof -
  obtain t' where "assign_station demo_deployment 11 2 6 =
      (Ok \<lparr>sr_station_id = 11, sr_node_id = 2, sr_route_epoch = 2, sr_assigned_at = 6\<rparr>, t')"
    using demo_deployment_routes(3) by (metis prod.collapse)
  then show ?thesis using assignment_is_atomic [of demo_deployment 11 2 6] by fastforce
qed

end
