(* ===== verification/Gateway_Pipeline.thy ===== *)
theory Gateway_Pipeline
  imports Deployment Command_Bridge
begin

text \<open>
  The gateway command pipeline of \<open>sectorsync-runtime/src/lib.rs\<close>: a client packet is decoded, admitted by
  the session table, pushed into the station's command queues (or routed to a node through the
  deployment table) and answered by an encoded acknowledgement. The encoder and decoder are those of
  \<open>Wire\<close>, the session table that of \<open>Gateway\<close>, the queues those of \<open>Command_Queues\<close>.
\<close>

definition GATEWAY_COMMAND_ACK_ACCEPTED :: u16 where "GATEWAY_COMMAND_ACK_ACCEPTED = 0"
definition GATEWAY_COMMAND_ACK_GATEWAY_REJECTED :: u16 where "GATEWAY_COMMAND_ACK_GATEWAY_REJECTED = 1"
definition GATEWAY_COMMAND_ACK_RATE_LIMITED :: u16 where "GATEWAY_COMMAND_ACK_RATE_LIMITED = 2"
definition GATEWAY_COMMAND_ACK_REPLAY_OR_STALE :: u16 where "GATEWAY_COMMAND_ACK_REPLAY_OR_STALE = 3"
definition GATEWAY_COMMAND_ACK_QUEUE_FULL :: u16 where "GATEWAY_COMMAND_ACK_QUEUE_FULL = 4"
definition GATEWAY_COMMAND_ACK_BARRIER_REJECTED :: u16 where "GATEWAY_COMMAND_ACK_BARRIER_REJECTED = 5"
definition GATEWAY_COMMAND_ACK_MISSING_QUEUE :: u16 where "GATEWAY_COMMAND_ACK_MISSING_QUEUE = 6"
definition GATEWAY_COMMAND_ACK_DEPLOYMENT_REJECTED :: u16 where "GATEWAY_COMMAND_ACK_DEPLOYMENT_REJECTED = 7"

record pipeline_config =
  pc_ack_rejections :: bool

definition default_pipeline_config :: pipeline_config where
  "default_pipeline_config = \<lparr>pc_ack_rejections = True\<rparr>"

record pipeline_stats =
  pls_command_frames_decoded :: usize
  pls_frames_rejected_decode :: usize
  pls_frames_rejected_non_command :: usize
  pls_commands_admitted :: usize
  pls_commands_enqueued :: usize
  pls_commands_rejected_gateway :: usize
  pls_commands_rejected_queue :: usize
  pls_commands_routed_deployment :: usize
  pls_commands_rejected_deployment :: usize
  pls_acks_encoded :: usize

datatype pipeline_error =
    PipeDecode binary_decode_error
  | PipeNonCommandFrame
  | PipeGateway gateway_error
  | PipeMissingQueue station_id
  | PipeQueue command_queue_error
  | PipeDeployment deployment_error
  | PipeEncode binary_encode_error

record pipeline_report =
  pp_client_id :: "client_id option"
  pp_command_id :: "command_id option"
  pp_station_id :: "station_id option"
  pp_node_id :: "node_id option"
  pp_delivery :: "delivery_route option"
  pp_command :: "command_envelope option"
  pp_accepted :: bool
  pp_reason_code :: u16
  pp_ack_bytes :: "bytes option"
  pp_error :: "pipeline_error option"

definition default_report :: pipeline_report where
  "default_report =
     \<lparr>pp_client_id = None, pp_command_id = None, pp_station_id = None, pp_node_id = None, pp_delivery = None,
      pp_command = None, pp_accepted = False, pp_reason_code = 0, pp_ack_bytes = None, pp_error = None\<rparr>"

record pipeline =
  pl_config :: pipeline_config
  pl_stats :: pipeline_stats

definition pipeline_new :: "pipeline_config \<Rightarrow> pipeline" where
  "pipeline_new cfg =
     \<lparr>pl_config = cfg,
      pl_stats = \<lparr>pls_command_frames_decoded = 0, pls_frames_rejected_decode = 0, pls_frames_rejected_non_command = 0,
        pls_commands_admitted = 0, pls_commands_enqueued = 0, pls_commands_rejected_gateway = 0,
        pls_commands_rejected_queue = 0, pls_commands_routed_deployment = 0, pls_commands_rejected_deployment = 0,
        pls_acks_encoded = 0\<rparr>\<rparr>"

definition gateway_reject_reason_code :: "gateway_error \<Rightarrow> u16" where
  "gateway_reject_reason_code e =
     (case e of
        GwReplayOrStale _ _ \<Rightarrow> GATEWAY_COMMAND_ACK_REPLAY_OR_STALE
      | GwRateLimited _ _ \<Rightarrow> GATEWAY_COMMAND_ACK_RATE_LIMITED
      | _ \<Rightarrow> GATEWAY_COMMAND_ACK_GATEWAY_REJECTED)"

definition queue_reject_reason_code :: "command_queue_error \<Rightarrow> u16" where
  "queue_reject_reason_code e =
     (case e of
        CommandQueueFull _ \<Rightarrow> GATEWAY_COMMAND_ACK_QUEUE_FULL
      | RejectedByBarrier _ \<Rightarrow> GATEWAY_COMMAND_ACK_BARRIER_REJECTED)"

section \<open>Acknowledgements\<close>

definition encode_ack :: "pipeline \<Rightarrow> command_ack_frame \<Rightarrow> (binary_encode_error + bytes) \<times> pipeline" where
  "encode_ack pl a =
     (case encode_command_ack a [] of
        (Inl e, _) \<Rightarrow> (Err e, pl)
      | (Inr _, out) \<Rightarrow>
          (let st = pl_stats pl in
           (Ok out, pl\<lparr>pl_stats := st\<lparr>pls_acks_encoded := usize_add (pls_acks_encoded st) 1\<rparr>\<rparr>)))"

definition accepted_report ::
  "pipeline \<Rightarrow> client_id \<Rightarrow> command_id \<Rightarrow> station_id \<Rightarrow> tick \<Rightarrow> pipeline_report \<times> pipeline" where
  "accepted_report pl c cmd s now =
     (let rep = default_report\<lparr>pp_client_id := Some c, pp_command_id := Some cmd, pp_station_id := Some s,
            pp_reason_code := GATEWAY_COMMAND_ACK_ACCEPTED\<rparr>
      in case encode_ack pl \<lparr>ack_client_id = c, ack_command_id = cmd, ack_server_tick = now, ack_accepted = True,
                ack_reason_code = GATEWAY_COMMAND_ACK_ACCEPTED\<rparr> of
           (Inr bs, pl1) \<Rightarrow> (rep\<lparr>pp_accepted := True, pp_ack_bytes := Some bs\<rparr>, pl1)
         | (Inl e, pl1) \<Rightarrow> (rep\<lparr>pp_error := Some (PipeEncode e)\<rparr>, pl1))"

definition dispatch_report ::
  "pipeline \<Rightarrow> command_envelope \<Rightarrow> delivery_route \<Rightarrow> tick \<Rightarrow> pipeline_report \<times> pipeline" where
  "dispatch_report pl cmd d now =
     (let rep = default_report\<lparr>pp_client_id := Some (ce_client_id cmd), pp_command_id := Some (ce_id cmd),
            pp_station_id := Some (dl_station_id d), pp_node_id := Some (dl_node_id d), pp_delivery := Some d,
            pp_reason_code := GATEWAY_COMMAND_ACK_ACCEPTED\<rparr>
      in case encode_ack pl \<lparr>ack_client_id = ce_client_id cmd, ack_command_id = ce_id cmd, ack_server_tick = now,
                ack_accepted = True, ack_reason_code = GATEWAY_COMMAND_ACK_ACCEPTED\<rparr> of
           (Inr bs, pl1) \<Rightarrow> (rep\<lparr>pp_command := Some cmd, pp_accepted := True, pp_ack_bytes := Some bs\<rparr>, pl1)
         | (Inl e, pl1) \<Rightarrow> (rep\<lparr>pp_error := Some (PipeEncode e)\<rparr>, pl1))"

definition rejected_report ::
  "pipeline \<Rightarrow> client_id \<Rightarrow> command_id \<Rightarrow> station_id option \<Rightarrow> tick \<Rightarrow> u16 \<Rightarrow> pipeline_error \<Rightarrow>
   pipeline_report \<times> pipeline" where
  "rejected_report pl c cmd s now reason err =
     (let rep = default_report\<lparr>pp_client_id := Some c, pp_command_id := Some cmd, pp_station_id := s,
            pp_reason_code := reason\<rparr>
      in if pc_ack_rejections (pl_config pl) then
           (case encode_ack pl \<lparr>ack_client_id = c, ack_command_id = cmd, ack_server_tick = now, ack_accepted = False,
                   ack_reason_code = reason\<rparr> of
              (Inr bs, pl1) \<Rightarrow> (rep\<lparr>pp_ack_bytes := Some bs, pp_error := Some err\<rparr>, pl1)
            | (Inl e, pl1) \<Rightarrow> (rep\<lparr>pp_error := Some (PipeEncode e)\<rparr>, pl1))
         else (rep\<lparr>pp_error := Some err\<rparr>, pl))"

section \<open>Processing a command\<close>

definition decode_command_frame :: "pipeline \<Rightarrow> bytes \<Rightarrow> (pipeline_error + command_frame) \<times> pipeline" where
  "decode_command_frame pl input =
     (let st = pl_stats pl in
      case binary_decode input of
        Inl e \<Rightarrow> (Err (PipeDecode e),
          pl\<lparr>pl_stats := st\<lparr>pls_frames_rejected_decode := usize_add (pls_frames_rejected_decode st) 1\<rparr>\<rparr>)
      | Inr (RfCommand f) \<Rightarrow> (Ok f,
          pl\<lparr>pl_stats := st\<lparr>pls_command_frames_decoded := usize_add (pls_command_frames_decoded st) 1\<rparr>\<rparr>)
      | Inr _ \<Rightarrow> (Err PipeNonCommandFrame,
          pl\<lparr>pl_stats := st\<lparr>pls_frames_rejected_non_command := usize_add (pls_frames_rejected_non_command st) 1\<rparr>\<rparr>))"

text \<open>The statistics bumped by the branches.\<close>

definition count_admitted :: "pipeline \<Rightarrow> pipeline" where
  "count_admitted pl = pl\<lparr>pl_stats := (pl_stats pl)\<lparr>pls_commands_admitted := usize_add (pls_commands_admitted (pl_stats pl)) 1\<rparr>\<rparr>"

definition count_rejected_gateway :: "pipeline \<Rightarrow> pipeline" where
  "count_rejected_gateway pl =
     pl\<lparr>pl_stats := (pl_stats pl)\<lparr>pls_commands_rejected_gateway := usize_add (pls_commands_rejected_gateway (pl_stats pl)) 1\<rparr>\<rparr>"

definition count_rejected_queue :: "pipeline \<Rightarrow> pipeline" where
  "count_rejected_queue pl =
     pl\<lparr>pl_stats := (pl_stats pl)\<lparr>pls_commands_rejected_queue := usize_add (pls_commands_rejected_queue (pl_stats pl)) 1\<rparr>\<rparr>"

definition count_enqueued :: "pipeline \<Rightarrow> pipeline" where
  "count_enqueued pl = pl\<lparr>pl_stats := (pl_stats pl)\<lparr>pls_commands_enqueued := usize_add (pls_commands_enqueued (pl_stats pl)) 1\<rparr>\<rparr>"

definition count_routed :: "pipeline \<Rightarrow> pipeline" where
  "count_routed pl =
     pl\<lparr>pl_stats := (pl_stats pl)\<lparr>pls_commands_routed_deployment := usize_add (pls_commands_routed_deployment (pl_stats pl)) 1\<rparr>\<rparr>"

definition count_rejected_deployment :: "pipeline \<Rightarrow> pipeline" where
  "count_rejected_deployment pl =
     pl\<lparr>pl_stats := (pl_stats pl)\<lparr>pls_commands_rejected_deployment :=
       usize_add (pls_commands_rejected_deployment (pl_stats pl)) 1\<rparr>\<rparr>"

definition process_command_frame ::
  "pipeline \<Rightarrow> session_table \<Rightarrow> queue_map \<Rightarrow> command_frame \<Rightarrow> tick \<Rightarrow> command_ingress \<Rightarrow>
   pipeline_report \<times> pipeline \<times> session_table \<times> queue_map" where
  "process_command_frame pl gw qs f now ingress =
     (let c = cf_client_id f; cmd = cf_command_id f; env = command_frame_into_envelope f now in
      case admit_command gw env of
        (Inl e, gw1) \<Rightarrow>
          (case rejected_report (count_rejected_gateway pl) c cmd None now (gateway_reject_reason_code e) (PipeGateway e) of
             (rep, pl1) \<Rightarrow> (rep, pl1, gw1, qs))
      | (Inr a, gw1) \<Rightarrow>
          (let pl = count_admitted pl; s = gr_station_id (ca_route a) in
           case fmlookup qs s of
             None \<Rightarrow>
               (case rejected_report (count_rejected_queue pl) c cmd (Some s) now GATEWAY_COMMAND_ACK_MISSING_QUEUE
                       (PipeMissingQueue s) of
                  (rep, pl1) \<Rightarrow> (rep, pl1, gw1, qs))
           | Some q \<Rightarrow>
               (case command_push q env ingress of
                  (Inl e, q1) \<Rightarrow>
                    (case rejected_report (count_rejected_queue pl) c cmd (Some s) now (queue_reject_reason_code e)
                            (PipeQueue e) of
                       (rep, pl1) \<Rightarrow> (rep, pl1, gw1, fmupd s q1 qs))
                | (Inr _, q1) \<Rightarrow>
                    (case accepted_report (count_enqueued pl) c cmd s now of
                       (rep, pl1) \<Rightarrow> (rep, pl1, gw1, fmupd s q1 qs)))))"

definition process ::
  "pipeline \<Rightarrow> session_table \<Rightarrow> queue_map \<Rightarrow> bytes \<Rightarrow> tick \<Rightarrow> command_ingress \<Rightarrow>
   pipeline_report \<times> pipeline \<times> session_table \<times> queue_map" where
  "process pl gw qs input now ingress =
     (case decode_command_frame pl input of
        (Inl e, pl1) \<Rightarrow> (default_report\<lparr>pp_error := Some e\<rparr>, pl1, gw, qs)
      | (Inr f, pl1) \<Rightarrow> process_command_frame pl1 gw qs f now ingress)"

definition dispatch_command_frame ::
  "pipeline \<Rightarrow> session_table \<Rightarrow> deployment_table \<Rightarrow> command_frame \<Rightarrow> tick \<Rightarrow>
   pipeline_report \<times> pipeline \<times> session_table" where
  "dispatch_command_frame pl gw dep f now =
     (let c = cf_client_id f; cmd = cf_command_id f; env = command_frame_into_envelope f now in
      case admit_command gw env of
        (Inl e, gw1) \<Rightarrow>
          (case rejected_report (count_rejected_gateway pl) c cmd None now (gateway_reject_reason_code e) (PipeGateway e) of
             (rep, pl1) \<Rightarrow> (rep, pl1, gw1))
      | (Inr a, gw1) \<Rightarrow>
          (let pl = count_admitted pl in
           case resolve_gateway_route dep (ca_route a) of
             Inl e \<Rightarrow>
               (case rejected_report (count_rejected_deployment pl) c cmd (Some (gr_station_id (ca_route a))) now
                       GATEWAY_COMMAND_ACK_DEPLOYMENT_REJECTED (PipeDeployment e) of
                  (rep, pl1) \<Rightarrow> (rep, pl1, gw1))
           | Inr d \<Rightarrow> (case dispatch_report (count_routed pl) env d now of (rep, pl1) \<Rightarrow> (rep, pl1, gw1))))"

definition dispatch ::
  "pipeline \<Rightarrow> session_table \<Rightarrow> deployment_table \<Rightarrow> bytes \<Rightarrow> tick \<Rightarrow> pipeline_report \<times> pipeline \<times> session_table" where
  "dispatch pl gw dep input now =
     (case decode_command_frame pl input of
        (Inl e, pl1) \<Rightarrow> (default_report\<lparr>pp_error := Some e\<rparr>, pl1, gw)
      | (Inr f, pl1) \<Rightarrow> dispatch_command_frame pl1 gw dep f now)"

section \<open>What the acknowledgement says\<close>

text \<open>Encoding an acknowledgement never fails, and the bytes decode to it.\<close>

lemma ack_decodes: "binary_decode (enc_frame (RfCommandAck a)) = Ok (RfCommandAck a)"
proof -
  have ok: "frame_ok (RfCommandAck a)" by (simp add: frame_ok_def)
  have "length (enc_frame (RfCommandAck a)) < usize_max"
    by (simp add: enc_frame_def enc_body_def enc_ack_def usize_max_def)
  then show ?thesis using binary_decode_reads(1) [OF frame_reads [OF ok]] by simp
qed

lemma encode_ack_is:
  "encode_ack pl a = (Ok (enc_frame (RfCommandAck a)),
     pl\<lparr>pl_stats := (pl_stats pl)\<lparr>pls_acks_encoded := usize_add (pls_acks_encoded (pl_stats pl)) 1\<rparr>\<rparr>)"
proof -
  have "encode_command_ack a [] = (Ok (), enc_frame (RfCommandAck a))"
    using encode_frame_cases(1) [of "RfCommandAck a"] by (simp add: frame_ok_def encode_frame_def writes_def)
  then show ?thesis by (simp add: encode_ack_def Let_def)
qed

definition acknowledged :: "pipeline_report \<Rightarrow> tick \<Rightarrow> bool" where
  "acknowledged rep now \<longleftrightarrow>
     (\<exists>c cmd bs. pp_client_id rep = Some c \<and> pp_command_id rep = Some cmd \<and> pp_ack_bytes rep = Some bs \<and>
        binary_decode bs = Ok (RfCommandAck \<lparr>ack_client_id = c, ack_command_id = cmd, ack_server_tick = now,
          ack_accepted = pp_accepted rep, ack_reason_code = pp_reason_code rep\<rparr>))"

lemmas report_defs = accepted_report_def dispatch_report_def rejected_report_def default_report_def Let_def encode_ack_is

lemma rejected_report_says:
  "rejected_report pl c cmd s now reason err = (rep, pl1) \<Longrightarrow>
   \<not> pp_accepted rep \<and> pp_client_id rep = Some c \<and> pp_command_id rep = Some cmd \<and> pp_station_id rep = s \<and>
   pp_reason_code rep = reason \<and> pp_error rep = Some err \<and> pp_command rep = None \<and> pp_delivery rep = None \<and>
   (if pc_ack_rejections (pl_config pl) then acknowledged rep now else pp_ack_bytes rep = None)"
  by (auto simp: report_defs acknowledged_def ack_decodes split: if_splits)

lemma accepted_report_says:
  "accepted_report pl c cmd s now = (rep, pl1) \<Longrightarrow>
   pp_accepted rep \<and> pp_client_id rep = Some c \<and> pp_command_id rep = Some cmd \<and> pp_station_id rep = Some s \<and>
   pp_reason_code rep = 0 \<and> pp_error rep = None \<and> acknowledged rep now"
  by (auto simp: report_defs acknowledged_def ack_decodes GATEWAY_COMMAND_ACK_ACCEPTED_def)

lemma dispatch_report_says:
  "dispatch_report pl env d now = (rep, pl1) \<Longrightarrow>
   pp_accepted rep \<and> pp_client_id rep = Some (ce_client_id env) \<and> pp_command_id rep = Some (ce_id env) \<and>
   pp_station_id rep = Some (dl_station_id d) \<and> pp_delivery rep = Some d \<and> pp_command rep = Some env \<and>
   pp_reason_code rep = 0 \<and> pp_error rep = None \<and> acknowledged rep now"
  by (auto simp: report_defs acknowledged_def ack_decodes GATEWAY_COMMAND_ACK_ACCEPTED_def)

lemmas reason_defs = gateway_reject_reason_code_def queue_reject_reason_code_def GATEWAY_COMMAND_ACK_ACCEPTED_def
  GATEWAY_COMMAND_ACK_GATEWAY_REJECTED_def GATEWAY_COMMAND_ACK_RATE_LIMITED_def GATEWAY_COMMAND_ACK_REPLAY_OR_STALE_def
  GATEWAY_COMMAND_ACK_QUEUE_FULL_def GATEWAY_COMMAND_ACK_BARRIER_REJECTED_def GATEWAY_COMMAND_ACK_MISSING_QUEUE_def
  GATEWAY_COMMAND_ACK_DEPLOYMENT_REJECTED_def

lemma reject_reasons:
  "gateway_reject_reason_code e \<in> {1, 2, 3}" "queue_reject_reason_code r \<in> {4, 5}"
  by (cases e; simp add: reason_defs) (cases r; simp add: reason_defs)

text \<open>The code that a command deserves: that of the first check it fails, in the numbers of the protocol, or
  zero.\<close>

definition verdict_code :: "session_table \<Rightarrow> queue_map \<Rightarrow> command_envelope \<Rightarrow> command_ingress \<Rightarrow> u16" where
  "verdict_code gw qs env ingress =
     (case fst (admit_command gw env) of
        Inl (CapacityFull _) \<Rightarrow> 1
      | Inl (MissingSession _) \<Rightarrow> 1
      | Inl (SessionDisconnected _ _) \<Rightarrow> 1
      | Inl (BadGeneration _ _) \<Rightarrow> 1
      | Inl (GwRateLimited _ _) \<Rightarrow> 2
      | Inl (GwReplayOrStale _ _) \<Rightarrow> 3
      | Inr a \<Rightarrow>
          (case fmlookup qs (gr_station_id (ca_route a)) of
             None \<Rightarrow> 6
           | Some q \<Rightarrow>
               (case fst (command_push q env ingress) of
                  Inl (CommandQueueFull _) \<Rightarrow> 4
                | Inl (RejectedByBarrier _) \<Rightarrow> 5
                | Inr _ \<Rightarrow> 0)))"

lemma verdict_reasons:
  "admit_command gw env = (Err e, gw1) \<Longrightarrow> verdict_code gw qs env ingress = gateway_reject_reason_code e"
  "admit_command gw env = (Ok a, gw1) \<Longrightarrow> fmlookup qs (gr_station_id (ca_route a)) = None \<Longrightarrow>
    verdict_code gw qs env ingress = GATEWAY_COMMAND_ACK_MISSING_QUEUE"
  "admit_command gw env = (Ok a, gw1) \<Longrightarrow> fmlookup qs (gr_station_id (ca_route a)) = Some q \<Longrightarrow>
    command_push q env ingress = (Err r, q1) \<Longrightarrow> verdict_code gw qs env ingress = queue_reject_reason_code r"
  "admit_command gw env = (Ok a, gw1) \<Longrightarrow> fmlookup qs (gr_station_id (ca_route a)) = Some q \<Longrightarrow>
    command_push q env ingress = (Ok w, q1) \<Longrightarrow> verdict_code gw qs env ingress = 0"
  by (simp_all add: verdict_code_def reason_defs split: gateway_error.split command_queue_error.split)

lemma count_configs [simp]:
  "pl_config (count_admitted pl) = pl_config pl" "pl_config (count_rejected_gateway pl) = pl_config pl"
  "pl_config (count_rejected_queue pl) = pl_config pl" "pl_config (count_enqueued pl) = pl_config pl"
  "pl_config (count_routed pl) = pl_config pl" "pl_config (count_rejected_deployment pl) = pl_config pl"
  by (simp_all add: count_admitted_def count_rejected_gateway_def count_rejected_queue_def count_enqueued_def
      count_routed_def count_rejected_deployment_def)

lemma command_push_Err: "command_push q env ingress = (Inl e, q1) \<Longrightarrow> q1 = q"
  by (auto simp: command_push_def push_ready_def split: if_splits command_queue_mode.splits sum.splits prod.splits)

text \<open>The three ways a command frame ends: refused by the session table, refused by the queues (or by their
  absence), or queued.\<close>

lemma process_frame_cases:
  assumes run: "process_command_frame pl gw qs f now ingress = (rep, pl', gw', qs')"
  obtains (gateway) e where "admit_command gw (command_frame_into_envelope f now) = (Err e, gw')" "qs' = qs"
      "rejected_report (count_rejected_gateway pl) (cf_client_id f) (cf_command_id f) None now
         (gateway_reject_reason_code e) (PipeGateway e) = (rep, pl')"
  | (queue) a reason err where "admit_command gw (command_frame_into_envelope f now) = (Ok a, gw')" "qs' = qs"
      "reason \<in> {4, 5, 6}"
      "(fmlookup qs (gr_station_id (ca_route a)) = None \<or>
        (\<exists>q e. fmlookup qs (gr_station_id (ca_route a)) = Some q \<and>
           command_push q (command_frame_into_envelope f now) ingress = (Err e, q)))"
      "rejected_report (count_rejected_queue (count_admitted pl)) (cf_client_id f) (cf_command_id f)
         (Some (gr_station_id (ca_route a))) now reason err = (rep, pl')"
      "reason = verdict_code gw qs (command_frame_into_envelope f now) ingress"
  | (queued) a q w q1 where "admit_command gw (command_frame_into_envelope f now) = (Ok a, gw')"
      "fmlookup qs (gr_station_id (ca_route a)) = Some q"
      "command_push q (command_frame_into_envelope f now) ingress = (Ok w, q1)"
      "qs' = fmupd (gr_station_id (ca_route a)) q1 qs"
      "accepted_report (count_enqueued (count_admitted pl)) (cf_client_id f) (cf_command_id f)
         (gr_station_id (ca_route a)) now = (rep, pl')"
proof -
  let ?env = "command_frame_into_envelope f now"
  obtain x gw1 where admit: "admit_command gw ?env = (x, gw1)" by fastforce
  show thesis
  proof (cases x)
    case (Inl e)
    then show thesis using run admit by (intro gateway) (auto simp: process_command_frame_def Let_def split: prod.splits)
  next
    case (Inr a)
    let ?s = "gr_station_id (ca_route a)"
    show thesis
    proof (cases "fmlookup qs ?s")
      case None
      then show thesis using run admit Inr
        by (intro queue [of a GATEWAY_COMMAND_ACK_MISSING_QUEUE "PipeMissingQueue ?s"])
          (auto simp: process_command_frame_def Let_def GATEWAY_COMMAND_ACK_MISSING_QUEUE_def
            verdict_reasons(2) split: prod.splits)
    next
      case (Some q)
      obtain y q1 where push: "command_push q ?env ingress = (y, q1)" by fastforce
      show thesis
      proof (cases y)
        case (Inl e)
        then have "q1 = q" using push command_push_Err by blast
        then have "fmupd ?s q1 qs = qs" using Some by (auto intro!: fmap_ext)
        then show thesis using run admit Inr Some push Inl \<open>q1 = q\<close> reject_reasons(2) [of e]
          by (intro queue [of a "queue_reject_reason_code e" "PipeQueue e"])
            (auto simp: process_command_frame_def Let_def verdict_reasons(3) split: prod.splits)
      next
        case (Inr w)
        then show thesis using run admit \<open>x = Inr a\<close> Some push
          by (intro queued [of a q w q1]) (auto simp: process_command_frame_def Let_def split: prod.splits)
      qed
    qed
  qed
qed

text \<open>The two ways a dispatched command frame ends early, and delivery.\<close>

lemma dispatch_frame_cases:
  assumes run: "dispatch_command_frame pl gw dep f now = (rep, pl', gw')"
  obtains (gateway) e where "admit_command gw (command_frame_into_envelope f now) = (Err e, gw')"
      "rejected_report (count_rejected_gateway pl) (cf_client_id f) (cf_command_id f) None now
         (gateway_reject_reason_code e) (PipeGateway e) = (rep, pl')"
  | (unplaced) a e where "admit_command gw (command_frame_into_envelope f now) = (Ok a, gw')"
      "resolve_gateway_route dep (ca_route a) = Err e"
      "rejected_report (count_rejected_deployment (count_admitted pl)) (cf_client_id f) (cf_command_id f)
         (Some (gr_station_id (ca_route a))) now GATEWAY_COMMAND_ACK_DEPLOYMENT_REJECTED (PipeDeployment e) = (rep, pl')"
  | (routed) a d where "admit_command gw (command_frame_into_envelope f now) = (Ok a, gw')"
      "resolve_gateway_route dep (ca_route a) = Ok d"
      "dispatch_report (count_routed (count_admitted pl)) (command_frame_into_envelope f now) d now = (rep, pl')"
proof -
  let ?env = "command_frame_into_envelope f now"
  obtain x gw1 where admit: "admit_command gw ?env = (x, gw1)" by fastforce
  show thesis
  proof (cases x)
    case (Inl e)
    then show thesis using run admit by (intro gateway) (auto simp: dispatch_command_frame_def Let_def split: prod.splits)
  next
    case (Inr a)
    show thesis
    proof (cases "resolve_gateway_route dep (ca_route a)")
      case (Inl e)
      then show thesis using run admit \<open>x = Inr a\<close>
        by (intro unplaced [of a e]) (auto simp: dispatch_command_frame_def Let_def split: prod.splits)
    next
      case (Inr d)
      then show thesis using run admit \<open>x = Inr a\<close>
        by (intro routed [of a d]) (auto simp: dispatch_command_frame_def Let_def split: prod.splits)
    qed
  qed
qed

lemma decode_command_cases:
  obtains (command) f pl1 where "decode_command_frame pl input = (Ok f, pl1)" "binary_decode input = Ok (RfCommand f)"
      "pl_config pl1 = pl_config pl"
  | (other) e pl1 where "decode_command_frame pl input = (Err e, pl1)" "\<And>f. binary_decode input \<noteq> Ok (RfCommand f)"
      "pl_config pl1 = pl_config pl" "(\<exists>x. e = PipeDecode x) \<or> e = PipeNonCommandFrame"
proof (cases "binary_decode input")
  case (Inl e)
  then show thesis by (intro other [of _ "snd (decode_command_frame pl input)"]) (auto simp: decode_command_frame_def Let_def)
next
  case (Inr r)
  show thesis
  proof (cases r)
    case (RfCommand f)
    then show thesis using Inr by (intro command [of f "snd (decode_command_frame pl input)"]) (auto simp: decode_command_frame_def Let_def)
  qed (use Inr in \<open>auto intro!: other [of _ "snd (decode_command_frame pl input)"] simp: decode_command_frame_def Let_def\<close>)
qed

lemma process_command:
  "binary_decode input = Ok (RfCommand f) \<Longrightarrow>
   \<exists>pl1. pl_config pl1 = pl_config pl \<and> process pl gw qs input now ingress = process_command_frame pl1 gw qs f now ingress \<and>
     dispatch pl gw dep input now = dispatch_command_frame pl1 gw dep f now"
  by (intro exI [of _ "snd (decode_command_frame pl input)"]) (simp add: process_def dispatch_def decode_command_frame_def Let_def)

lemma process_says:
  assumes run: "process pl gw qs input now ingress = (rep, pl', gw', qs')" and f: "binary_decode input = Ok (RfCommand f)"
  shows "pp_client_id rep = Some (cf_client_id f) \<and> pp_command_id rep = Some (cf_command_id f) \<and>
    (pc_ack_rejections (pl_config pl) \<longrightarrow> acknowledged rep now)"
proof -
  obtain pl1 where cfg: "pl_config pl1 = pl_config pl"
    and frame: "process_command_frame pl1 gw qs f now ingress = (rep, pl', gw', qs')"
    using process_command [OF f] run by metis
  from frame show ?thesis
    by (cases rule: process_frame_cases) (use cfg in \<open>auto dest: rejected_report_says accepted_report_says split: if_splits\<close>)
qed

section \<open>A run\<close>

text \<open>Client 7 is connected at station 11, which has a queue and is placed on node 1, and sends one command.\<close>

definition demo_clients :: session_table where
  "demo_clients = snd (gateway_connect (table_new demo_gateway_config) 7 11 10)"

definition demo_queues :: queue_map where
  "demo_queues = fmupd 11 (command_queues_new default_command_limits) fmempty"

definition demo_input :: bytes where
  "demo_input = enc_frame demo_frame"

definition demo_envelope :: command_envelope where
  "demo_envelope =
     \<lparr>ce_id = 1, ce_client_id = 7, ce_entity_id = 9, ce_sequence = 3, ce_received_at = 10, ce_kind = 2,
      ce_priority = PHigh, ce_payload = [1, 2, 3]\<rparr>"

lemma demo_input_decodes:
  "\<exists>f. binary_decode demo_input = Ok (RfCommand f) \<and> command_frame_into_envelope f 10 = demo_envelope \<and>
     cf_client_id f = 7 \<and> cf_command_id f = 1 \<and> cf_sequence f = 3"
proof -
  have "length (enc_frame demo_frame) < usize_max"
    by (simp add: demo_frame_def enc_frame_def enc_body_def enc_command_def enc_bytes_def usize_max_def)
  moreover have "frame_ok demo_frame" by (simp add: frame_ok_def demo_frame_def bytes_ok_def)
  ultimately have "binary_decode demo_input = Ok demo_frame"
    using binary_decode_reads(1) [OF frame_reads] by (simp add: demo_input_def)
  then show ?thesis by (simp add: demo_frame_def command_frame_into_envelope_def demo_envelope_def)
qed

lemma demo_admission:
  "\<exists>a gw. admit_command demo_clients demo_envelope = (Ok a, gw) \<and> gr_station_id (ca_route a) = 11"
  by (simp add: admit_command_def admit_sequence_def demo_clients_def demo_envelope_def gateway_connect_def table_new_def
      demo_gateway_config_def amap.get_put Let_def new_session_def tick_window_def usize_add_def usize_max_def
      amap_get_write session_route_def)

lemma demo_pushes:
  "\<exists>q1. command_push (command_queues_new default_command_limits) demo_envelope ingress_running = (Ok Queued, q1) \<and>
     cq_high q1 = [demo_envelope]"
  by (simp add: command_push_def push_ready_def has_ready_capacity_def push_lane_def command_queues_new_def
      default_command_limits_def demo_envelope_def ingress_running_def)

section \<open>Properties\<close>

text \<open>C3. The acknowledgement tells the truth. A packet that is not a command changes neither sessions nor
  queues and gets no answer. A command is accepted, with reason code zero, exactly when the session
  table admits it and the queue of its client's station takes it, and that push is then the only
  change to the queues; otherwise no queue changes and the code is that of the first refusal: 1 for a
  missing or disconnected session, 2 for the rate limit, 3 for a replay, 6 for a missing queue, 4 for a
  full queue, 5 for a barrier. The answer, sent for every accepted command and, if configured, for
  every refused one, decodes to an acknowledgement with the command's identity, the verdict and the
  code.\<close>

theorem ack_tells_truth:
  assumes run: "process pl gw qs input now ingress = (rep, pl', gw', qs')"
  shows "case binary_decode input of
      Inr (RfCommand f) \<Rightarrow>
        (pp_accepted rep \<longleftrightarrow> pp_reason_code rep = 0) \<and>
        pp_reason_code rep = verdict_code gw qs (command_frame_into_envelope f now) ingress \<and>
        (pp_accepted rep \<longleftrightarrow> (\<exists>a q w q1. admit_command gw (command_frame_into_envelope f now) = (Ok a, gw') \<and>
           fmlookup qs (gr_station_id (ca_route a)) = Some q \<and>
           command_push q (command_frame_into_envelope f now) ingress = (Ok w, q1) \<and>
           qs' = fmupd (gr_station_id (ca_route a)) q1 qs)) \<and>
        (\<not> pp_accepted rep \<longrightarrow> qs' = qs) \<and> gw' = snd (admit_command gw (command_frame_into_envelope f now)) \<and>
        pp_client_id rep = Some (cf_client_id f) \<and> pp_command_id rep = Some (cf_command_id f) \<and>
        (if pp_accepted rep \<or> pc_ack_rejections (pl_config pl) then acknowledged rep now else pp_ack_bytes rep = None)
    | _ \<Rightarrow> \<not> pp_accepted rep \<and> pp_ack_bytes rep = None \<and> pp_error rep \<noteq> None \<and> gw' = gw \<and> qs' = qs"
proof (cases "\<exists>f. binary_decode input = Ok (RfCommand f)")
  case True
  then obtain f where f: "binary_decode input = Ok (RfCommand f)" by blast
  then obtain pl1 where cfg: "pl_config pl1 = pl_config pl"
    and frame: "process_command_frame pl1 gw qs f now ingress = (rep, pl', gw', qs')"
    using process_command run by metis
  from frame show ?thesis
  proof (cases rule: process_frame_cases)
    case (gateway e)
    from rejected_report_says [OF gateway(3)] gateway(1,2) reject_reasons(1) [of e] f cfg
      verdict_reasons(1) [OF gateway(1)] show ?thesis
      by (auto split: if_splits)
  next
    case (queue a reason err)
    from rejected_report_says [OF queue(5)] queue(1-4,6) f cfg show ?thesis by (auto split: if_splits)
  next
    case (queued a q w q1)
    from accepted_report_says [OF queued(5)] queued(1-4) verdict_reasons(4) [OF queued(1-3)] f show ?thesis by auto
  qed
next
  case False
  then show ?thesis using run
    by (cases rule: decode_command_cases [of pl input])
      (auto simp: process_def default_report_def split: sum.splits runtime_frame.splits)
qed

lemma ack_tells_truth_witness:
  "\<exists>rep pl gw qs. process (pipeline_new default_pipeline_config) demo_clients demo_queues demo_input 10 ingress_running =
       (rep, pl, gw, qs) \<and> pp_accepted rep \<and> acknowledged rep 10 \<and>
     (\<exists>q. fmlookup qs 11 = Some q \<and> cq_high q = [demo_envelope])"
proof -
  obtain rep pl gw qs where run: "process (pipeline_new default_pipeline_config) demo_clients demo_queues demo_input 10
      ingress_running = (rep, pl, gw, qs)"
    by (metis prod_cases4)
  obtain f where f: "binary_decode demo_input = Ok (RfCommand f)" "command_frame_into_envelope f 10 = demo_envelope"
    using demo_input_decodes by blast
  obtain a gw1 where a: "admit_command demo_clients demo_envelope = (Ok a, gw1)" "gr_station_id (ca_route a) = 11"
    using demo_admission by blast
  obtain q1 where q: "command_push (command_queues_new default_command_limits) demo_envelope ingress_running = (Ok Queued, q1)"
      "cq_high q1 = [demo_envelope]"
    using demo_pushes by blast
  note T = ack_tells_truth [OF run, unfolded f(1), simplified, unfolded f(2)]
  have queue: "fmlookup demo_queues 11 = Some (command_queues_new default_command_limits)" by (simp add: demo_queues_def)
  obtain p1 where "process_command_frame p1 demo_clients demo_queues f 10 ingress_running = (rep, pl, gw, qs)"
    using process_command [OF f(1)] run by metis
  then have accepted: "pp_accepted rep"
    by (cases rule: process_frame_cases) (use a q queue f(2) accepted_report_says in auto)
  then have "qs = fmupd 11 q1 demo_queues" using T a q queue by auto
  then have "fmlookup qs 11 = Some q1" by simp
  moreover have "acknowledged rep 10" using T accepted by simp
  ultimately show ?thesis using q(2) run accepted by blast
qed

text \<open>C37. A refused retry. Admission uses up the sequence number before the queues are asked. So a command
  refused by a full queue, a barrier or a missing queue cannot be sent again: as long as its session
  stays connected the same packet is refused as a replay, whatever the queues could take by then.\<close>

theorem refused_command_cannot_retry:
  assumes first: "process pl gw qs input now ingress = (rep, pl1, gw1, qs1)"
    and refused: "pp_reason_code rep \<in> {4, 5, 6}"
    and later: "process pl2 gw1 qs2 input now2 ingress2 = (rep2, pl3, gw3, qs3)"
  shows "\<not> pp_accepted rep2 \<and> pp_reason_code rep2 = 3 \<and> qs3 = qs2"
proof -
  obtain f where f: "binary_decode input = Ok (RfCommand f)"
  proof (cases rule: decode_command_cases [of pl input])
    case (other e p)
    then have "pp_reason_code rep = 0" using first by (auto simp: process_def default_report_def)
    with refused show thesis by simp
  qed
  obtain p1 where p1: "process_command_frame p1 gw qs f now ingress = (rep, pl1, gw1, qs1)"
    using process_command [OF f] first by metis
  obtain p2 where p2: "process_command_frame p2 gw1 qs2 f now2 ingress2 = (rep2, pl3, gw3, qs3)"
    using process_command [OF f] later by metis
  from p1 obtain a where "admit_command gw (command_frame_into_envelope f now) = (Ok a, gw1)"
  proof (cases rule: process_frame_cases)
    case (gateway e)
    then show thesis using rejected_report_says [OF gateway(3)] refused reject_reasons(1) [of e] by auto
  qed (auto intro: that)
  then obtain s where s: "amap_get (tb_sessions gw1) (cf_client_id f) = Some s" "gs_state s = Connected"
      "gs_last_sequence s = Some (cf_sequence f)"
    using admit_Ok [of gw "cf_client_id f" "cf_sequence f" now a gw1]
    by (auto simp: admit_command_def command_frame_into_envelope_def amap_get_write admitted_def tick_window_def)
  have stale: "\<exists>x gw'. admit_command gw1 (command_frame_into_envelope f now2) =
      (Err (GwReplayOrStale (Some (cf_sequence f)) (cf_sequence f)), gw')"
    using s by (simp add: admit_command_def admit_sequence_def command_frame_into_envelope_def)
  from p2 show ?thesis
  proof (cases rule: process_frame_cases)
    case (gateway e)
    then have "e = GwReplayOrStale (Some (cf_sequence f)) (cf_sequence f)" using stale by simp
    then show ?thesis using rejected_report_says [OF gateway(3)] gateway(2)
      by (simp add: gateway_reject_reason_code_def GATEWAY_COMMAND_ACK_REPLAY_OR_STALE_def)
  qed (use stale in auto)
qed

lemma refused_command_cannot_retry_witness:
  "\<exists>rep pl1 gw1 rep2 pl2 gw2 qs2.
     process (pipeline_new default_pipeline_config) demo_clients fmempty demo_input 10 ingress_running = (rep, pl1, gw1, fmempty) \<and>
     pp_reason_code rep = 6 \<and> process pl1 gw1 demo_queues demo_input 11 ingress_running = (rep2, pl2, gw2, qs2) \<and>
     pp_reason_code rep2 = 3 \<and> qs2 = demo_queues"
proof -
  obtain rep pl1 gw1 qs1 where run: "process (pipeline_new default_pipeline_config) demo_clients fmempty demo_input 10
      ingress_running = (rep, pl1, gw1, qs1)"
    by (metis prod_cases4)
  obtain rep2 pl2 gw2 qs2 where later: "process pl1 gw1 demo_queues demo_input 11 ingress_running = (rep2, pl2, gw2, qs2)"
    by (metis prod_cases4)
  obtain f where f: "binary_decode demo_input = Ok (RfCommand f)" "command_frame_into_envelope f 10 = demo_envelope"
    using demo_input_decodes by blast
  obtain a gwa where a: "admit_command demo_clients demo_envelope = (Ok a, gwa)"
    using demo_admission by blast
  have code: "pp_reason_code rep = 6 \<and> qs1 = fmempty"
    using run f a unfolding process_def decode_command_frame_def process_command_frame_def
    by (auto simp: Let_def report_defs GATEWAY_COMMAND_ACK_MISSING_QUEUE_def split: if_splits)
  from refused_command_cannot_retry [OF run _ later] code run later show ?thesis by auto
qed

text \<open>C11. Dispatching is processing at a distance. A command dispatched by the gateway, carried as a packet
  and pumped into the queues of the resolved station leaves sessions and queues as if the gateway had
  pushed it there itself, and the pump accepts it exactly when the local push would have.\<close>

theorem dispatch_is_process:
  assumes local: "process pl gw qs input now ingress = (rep, pl1, gw1, qs1)"
    and away: "dispatch pl gw dep input now = (rep2, pl2, gw2)" "pp_command rep2 = Some env" "pp_station_id rep2 = Some target"
    and sent: "send_envelope memory_send_station st t source target env = (Ok (), st1, t1)"
    and box: "inbox t target = Some []" "sl_max_packet_bytes (mt_limits t) < usize_max" and some: "0 < max_packets"
    and pump: "pump_commands memory_try_recv_station stats t1 qs target max_packets ingress = (res, stats2, t2, qs2)"
  shows "gw2 = gw1 \<and> qs2 = qs1 \<and> (pp_accepted rep \<longleftrightarrow> (\<exists>r. res = Ok r)) \<and>
    (\<forall>r. res = Ok r \<longrightarrow> pr_accepted r = 1 \<and> pp_client_id rep2 = pp_client_id rep \<and> pp_command_id rep2 = pp_command_id rep)"
proof -
  obtain f where f: "binary_decode input = Ok (RfCommand f)"
  proof (cases rule: decode_command_cases [of pl input])
    case (other e p)
    then have "pp_command rep2 = None" using away(1) by (auto simp: dispatch_def default_report_def)
    with away(2) show thesis by simp
  qed
  let ?env = "command_frame_into_envelope f now"
  obtain p where p: "process_command_frame p gw qs f now ingress = (rep, pl1, gw1, qs1)"
      "dispatch_command_frame p gw dep f now = (rep2, pl2, gw2)"
    using process_command [OF f] local away(1) by metis
  from p(2) obtain a d where a: "admit_command gw ?env = (Ok a, gw2)" "resolve_gateway_route dep (ca_route a) = Ok d"
    and rep2: "env = ?env" "target = dl_station_id d" "pp_client_id rep2 = Some (cf_client_id f)" "pp_command_id rep2 = Some (cf_command_id f)"
  proof (cases rule: dispatch_frame_cases)
    case (routed a d)
    with dispatch_report_says [OF routed(3)] away(2,3) show thesis
      by (intro that [of a d]) (auto simp: command_frame_into_envelope_def)
  qed (use away(2) in \<open>auto dest: rejected_report_says\<close>)
  have target: "target = gr_station_id (ca_route a)"
    using a(2) rep2(2) by (auto simp: resolve_gateway_route_def and_then_def split: sum.splits if_splits)
  have one: "send_envelopes memory_send_station st t source target [env] = (Ok (), st1, t1)" using sent by simp
  obtain x :: "station_transport_error dispatch_error + unit" and qx where x: "receive_command ingress target qs env = (x, qx)" by fastforce
  then have all: "apply_all (receive_command ingress target) qs [env] = (x, qx)" by (cases x) auto
  have small: "length [env] \<le> max_packets" "length [env] \<le> usize_max" using some by (simp_all add: usize_max_def)
  have R: "qs2 = qx \<and> (case res of Inl e \<Rightarrow> x = Err e | Inr r \<Rightarrow> x = Ok () \<and> pr_accepted r = length [env])"
    by (rule remote_dispatch_is_local [OF one box small pump all])
  from p(1) show ?thesis
  proof (cases rule: process_frame_cases)
    case (gateway e)
    then show ?thesis using a(1) by simp
  next
    case (queue a' reason err)
    then have "a' = a" "gw1 = gw2" using a(1) by auto
    with queue(4) x have "\<exists>e. x = Err e" "qx = qs"
      by (auto simp: receive_command_def rep2(1) target fmap_ext intro!: fmap_ext split: option.splits)
    with R rejected_report_says [OF queue(5)] queue(2) \<open>gw1 = gw2\<close> show ?thesis by (auto split: sum.splits)
  next
    case (queued a' q w q1)
    then have eq: "a' = a" "gw1 = gw2" using a(1) by auto
    with queued x have "x = Ok ()" "qx = qs1" by (auto simp: receive_command_def rep2(1) target)
    with R accepted_report_says [OF queued(5)] rep2 eq show ?thesis by (auto split: sum.splits)
  qed
qed

lemma demo_dispatches:
  "\<exists>rep pl gw. dispatch (pipeline_new default_pipeline_config) demo_clients demo_deployment demo_input 10 = (rep, pl, gw) \<and>
     pp_command rep = Some demo_envelope \<and> pp_station_id rep = Some 11"
proof -
  obtain rep pl gw where run: "dispatch (pipeline_new default_pipeline_config) demo_clients demo_deployment demo_input 10 =
      (rep, pl, gw)" by (metis prod_cases3)
  obtain f where f: "binary_decode demo_input = Ok (RfCommand f)" "command_frame_into_envelope f 10 = demo_envelope"
    using demo_input_decodes by blast
  obtain a gwa where a: "admit_command demo_clients demo_envelope = (Ok a, gwa)" "gr_station_id (ca_route a) = 11"
    using demo_admission by blast
  obtain d where d: "resolve_gateway_route demo_deployment (ca_route a) = Ok d" "dl_station_id d = 11"
    using demo_deployment_routes(1,2) a(2) by (auto simp: resolve_gateway_route_def)
  obtain p where "dispatch_command_frame p demo_clients demo_deployment f 10 = (rep, pl, gw)"
    using process_command [OF f(1)] run by metis
  then have "pp_command rep = Some demo_envelope \<and> pp_station_id rep = Some 11"
    by (cases rule: dispatch_frame_cases) (use a d f(2) dispatch_report_says in auto)
  with run show ?thesis by blast
qed

lemma dispatch_is_process_witness:
  "\<exists>rep2 pl2 gw2 st1 t1 r stats2 t2 qs2 q.
     dispatch (pipeline_new default_pipeline_config) demo_clients demo_deployment demo_input 10 = (rep2, pl2, gw2) \<and>
     send_envelope memory_send_station dispatch_stats_zero
       (memory_register_station (memory_station_new default_station_limits) 11) 3 11 demo_envelope = (Ok (), st1, t1) \<and>
     pump_commands memory_try_recv_station dispatch_stats_zero t1 demo_queues 11 4 ingress_running = (Ok r, stats2, t2, qs2) \<and>
     pr_accepted r = 1 \<and> fmlookup qs2 11 = Some q \<and> cq_high q = [demo_envelope]"
proof -
  let ?t = "memory_register_station (memory_station_new default_station_limits) 11"
  obtain rep2 pl2 gw2 where away: "dispatch (pipeline_new default_pipeline_config) demo_clients demo_deployment demo_input 10 =
      (rep2, pl2, gw2)" "pp_command rep2 = Some demo_envelope" "pp_station_id rep2 = Some 11"
    using demo_dispatches by blast
  obtain rep pl1 gw1 qs1 where here: "process (pipeline_new default_pipeline_config) demo_clients demo_queues demo_input 10
      ingress_running = (rep, pl1, gw1, qs1)" by (metis prod_cases4)
  have box: "inbox ?t 11 = Some []" "sl_max_packet_bytes (mt_limits ?t) < usize_max"
    by (simp_all add: memory_register_station_def memory_station_new_def amap.get_put default_station_limits_def usize_max_def)
  have lims: "mt_limits ?t = default_station_limits" by (simp add: memory_register_station_def memory_station_new_def)
  obtain st1 t1 where sent: "send_envelope memory_send_station dispatch_stats_zero ?t 3 11 demo_envelope = (Ok (), st1, t1)"
    using box lims
    by (simp add: send_envelope_def send_encoded_def encode_command_dispatch_envelope_def w_seq_def w_put_def write_bytes_def
        demo_envelope_def memory_send_station_def default_station_limits_def Let_def)
  obtain res stats2 t2 qs2 where pump: "pump_commands memory_try_recv_station dispatch_stats_zero t1 demo_queues 11 4
      ingress_running = (res, stats2, t2, qs2)" by (metis prod_cases4)
  have some: "0 < (4 :: usize)" by simp
  note R = dispatch_is_process [OF here away sent box some pump]
  obtain f where f: "binary_decode demo_input = Ok (RfCommand f)" "command_frame_into_envelope f 10 = demo_envelope"
    using demo_input_decodes by blast
  obtain a gwa where a: "admit_command demo_clients demo_envelope = (Ok a, gwa)" "gr_station_id (ca_route a) = 11"
    using demo_admission by blast
  obtain q1 where q: "command_push (command_queues_new default_command_limits) demo_envelope ingress_running = (Ok Queued, q1)"
      "cq_high q1 = [demo_envelope]"
    using demo_pushes by blast
  have queue: "fmlookup demo_queues 11 = Some (command_queues_new default_command_limits)" by (simp add: demo_queues_def)
  obtain p where "process_command_frame p demo_clients demo_queues f 10 ingress_running = (rep, pl1, gw1, qs1)"
    using process_command [OF f(1)] here by metis
  then have "pp_accepted rep \<and> fmlookup qs1 11 = Some q1"
    by (cases rule: process_frame_cases) (use a q queue f(2) accepted_report_says in auto)
  with R q away(1) sent pump show ?thesis by blast
qed

end
