(* ===== verification/Client_Ingress.thy ===== *)
theory Client_Ingress
  imports Gateway_Pipeline Memory_Transport
begin

text \<open>
  The gateway's client bridge (\<open>GatewayClientTransportBridge\<close> of \<open>sectorsync-runtime/src/lib.rs\<close>): packets
  received from clients go through the command pipeline and the acknowledgements go back over the same
  transport. The transport is a parameter, a receiver and a sink over the same state. A panic is
  \<open>None\<close>; the lemmas show that there is none, that the compact pump is the reporting pump without its
  reports, and that a packet acts only for the client it came from.
\<close>

record client_transport_stats =
  cs_packets_received :: usize
  cs_bytes_received :: usize
  cs_command_frames_received :: usize
  cs_source_mismatches :: usize
  cs_commands_accepted :: usize
  cs_commands_rejected :: usize
  cs_acks_sent :: usize
  cs_ack_bytes_sent :: usize

definition client_stats_zero :: client_transport_stats where
  "client_stats_zero =
     \<lparr>cs_packets_received = 0, cs_bytes_received = 0, cs_command_frames_received = 0, cs_source_mismatches = 0,
      cs_commands_accepted = 0, cs_commands_rejected = 0, cs_acks_sent = 0, cs_ack_bytes_sent = 0\<rparr>"

record client_pump =
  cp_packets_received :: usize
  cp_bytes_received :: usize
  cp_reports :: "pipeline_report list"
  cp_acks_sent :: usize
  cp_ack_bytes_sent :: usize

definition client_pump_zero :: client_pump where
  "client_pump_zero =
     \<lparr>cp_packets_received = 0, cp_bytes_received = 0, cp_reports = [], cp_acks_sent = 0, cp_ack_bytes_sent = 0\<rparr>"

definition commands_processed :: "client_pump \<Rightarrow> usize" where
  "commands_processed p = length (cp_reports p)"

definition commands_accepted :: "client_pump \<Rightarrow> usize" where
  "commands_accepted p = length (filter pp_accepted (cp_reports p))"

definition commands_rejected :: "client_pump \<Rightarrow> usize" where
  "commands_rejected p = length (filter (\<lambda>r. \<not> pp_accepted r) (cp_reports p))"

record client_summary =
  cm_packets_received :: usize
  cm_bytes_received :: usize
  cm_commands_accepted :: usize
  cm_commands_rejected :: usize
  cm_acks_sent :: usize
  cm_ack_bytes_sent :: usize

definition client_summary_zero :: client_summary where
  "client_summary_zero =
     \<lparr>cm_packets_received = 0, cm_bytes_received = 0, cm_commands_accepted = 0, cm_commands_rejected = 0,
      cm_acks_sent = 0, cm_ack_bytes_sent = 0\<rparr>"

datatype 'e client_error =
    ClientTransport 'e
  | ClientDecode binary_decode_error
  | ClientNonCommandFrame
  | ClientSourceMismatch client_id client_id

text \<open>What a pump changes besides the transport: the bridge's statistics, the pipeline, the session table
  and the queues.\<close>

record ingress_world =
  iw_stats :: client_transport_stats
  iw_pipeline :: pipeline
  iw_gateway :: session_table
  iw_queues :: queue_map

definition process_ingress_packet ::
  "ingress_world \<Rightarrow> 'addr inbound_packet \<Rightarrow> tick \<Rightarrow> command_ingress \<Rightarrow>
   (('e client_error + client_id \<times> usize \<times> pipeline_report) \<times> ingress_world) option" where
  "process_ingress_packet w p now ingress =
     (let n = length (ip_bytes p); st = iw_stats w;
          st = st\<lparr>cs_packets_received := usize_add (cs_packets_received st) 1,
                  cs_bytes_received := usize_add (cs_bytes_received st) n\<rparr>
      in case decode_command_frame (iw_pipeline w) (ip_bytes p) of
           (Inl (PipeDecode e), pl) \<Rightarrow> Some (Err (ClientDecode e), w\<lparr>iw_stats := st, iw_pipeline := pl\<rparr>)
         | (Inl PipeNonCommandFrame, pl) \<Rightarrow> Some (Err ClientNonCommandFrame, w\<lparr>iw_stats := st, iw_pipeline := pl\<rparr>)
         | (Inl _, pl) \<Rightarrow> None
         | (Inr f, pl) \<Rightarrow>
             (let st = st\<lparr>cs_command_frames_received := usize_add (cs_command_frames_received st) 1\<rparr>;
                  run = (case process_command_frame pl (iw_gateway w) (iw_queues w) f now ingress of
                      (rep, pl1, gw1, qs1) \<Rightarrow>
                        (let st = (if pp_accepted rep
                                   then st\<lparr>cs_commands_accepted := usize_add (cs_commands_accepted st) 1\<rparr>
                                   else st\<lparr>cs_commands_rejected := usize_add (cs_commands_rejected st) 1\<rparr>)
                         in Some (Ok (cf_client_id f, n, rep),
                              \<lparr>iw_stats = st, iw_pipeline = pl1, iw_gateway = gw1, iw_queues = qs1\<rparr>)))
              in case ip_client_id p of
                   Some c \<Rightarrow>
                     if c \<noteq> cf_client_id f
                     then Some (Err (ClientSourceMismatch c (cf_client_id f)),
                            w\<lparr>iw_stats := st\<lparr>cs_source_mismatches := usize_add (cs_source_mismatches st) 1\<rparr>,
                              iw_pipeline := pl\<rparr>)
                     else run
                 | None \<Rightarrow> run))"

type_synonym ('t, 'e, 'addr) client_receiver = "'t \<Rightarrow> ('e + 'addr inbound_packet option) \<times> 't"

definition count_ack :: "usize \<Rightarrow> ingress_world \<Rightarrow> ingress_world" where
  "count_ack len w =
     w\<lparr>iw_stats := (iw_stats w)\<lparr>cs_acks_sent := usize_add (cs_acks_sent (iw_stats w)) 1,
                                 cs_ack_bytes_sent := usize_add (cs_ack_bytes_sent (iw_stats w)) len\<rparr>\<rparr>"

fun pump_ingress_loop ::
  "('t, 'e, 'addr) client_receiver \<Rightarrow> ('t, 'e, outbound_packet) sink \<Rightarrow> tick \<Rightarrow> command_ingress \<Rightarrow> nat \<Rightarrow>
   't \<Rightarrow> ingress_world \<Rightarrow> client_pump \<Rightarrow> (('e client_error + client_pump) \<times> 't \<times> ingress_world) option" where
  "pump_ingress_loop recv send now ingress 0 t w pump = Some (Ok pump, t, w)"
| "pump_ingress_loop recv send now ingress (Suc n) t w pump =
     (case recv t of
        (Inl e, t1) \<Rightarrow> Some (Err (ClientTransport e), t1, w)
      | (Inr None, t1) \<Rightarrow> Some (Ok pump, t1, w)
      | (Inr (Some p), t1) \<Rightarrow>
          (case process_ingress_packet w p now ingress of
             None \<Rightarrow> None
           | Some (Inl e, w1) \<Rightarrow> Some (Err e, t1, w1)
           | Some (Inr (c, len, rep), w1) \<Rightarrow>
               (let pump = pump\<lparr>cp_packets_received := usize_add (cp_packets_received pump) 1,
                                cp_bytes_received := usize_add (cp_bytes_received pump) len\<rparr>
                in case pp_ack_bytes rep of
                     None \<Rightarrow> pump_ingress_loop recv send now ingress n t1 w1 (pump\<lparr>cp_reports := cp_reports pump @ [rep]\<rparr>)
                   | Some bs \<Rightarrow>
                       (case send t1 \<lparr>op_client_id = c, op_bytes = bs\<rparr> of
                          (Inl e, t2) \<Rightarrow> Some (Err (ClientTransport e), t2, w1)
                        | (Inr _, t2) \<Rightarrow>
                            pump_ingress_loop recv send now ingress n t2 (count_ack (length bs) w1)
                              (pump\<lparr>cp_acks_sent := usize_add (cp_acks_sent pump) 1,
                                    cp_ack_bytes_sent := usize_add (cp_ack_bytes_sent pump) (length bs),
                                    cp_reports := cp_reports pump @ [rep]\<rparr>)))))"

definition pump_ingress ::
  "('t, 'e, 'addr) client_receiver \<Rightarrow> ('t, 'e, outbound_packet) sink \<Rightarrow> 't \<Rightarrow> ingress_world \<Rightarrow> tick \<Rightarrow> command_ingress \<Rightarrow>
   usize \<Rightarrow> (('e client_error + client_pump) \<times> 't \<times> ingress_world) option" where
  "pump_ingress recv send t w now ingress max_packets =
     pump_ingress_loop recv send now ingress max_packets t w client_pump_zero"

fun pump_compact_loop ::
  "('t, 'e, 'addr) client_receiver \<Rightarrow> ('t, 'e, outbound_packet) sink \<Rightarrow> tick \<Rightarrow> command_ingress \<Rightarrow> nat \<Rightarrow>
   't \<Rightarrow> ingress_world \<Rightarrow> client_summary \<Rightarrow> (('e client_error + client_summary) \<times> 't \<times> ingress_world) option" where
  "pump_compact_loop recv send now ingress 0 t w m = Some (Ok m, t, w)"
| "pump_compact_loop recv send now ingress (Suc n) t w m =
     (case recv t of
        (Inl e, t1) \<Rightarrow> Some (Err (ClientTransport e), t1, w)
      | (Inr None, t1) \<Rightarrow> Some (Ok m, t1, w)
      | (Inr (Some p), t1) \<Rightarrow>
          (case process_ingress_packet w p now ingress of
             None \<Rightarrow> None
           | Some (Inl e, w1) \<Rightarrow> Some (Err e, t1, w1)
           | Some (Inr (c, len, rep), w1) \<Rightarrow>
               (let m = m\<lparr>cm_packets_received := usize_add (cm_packets_received m) 1,
                          cm_bytes_received := usize_add (cm_bytes_received m) len\<rparr>;
                    m = (if pp_accepted rep then m\<lparr>cm_commands_accepted := usize_add (cm_commands_accepted m) 1\<rparr>
                         else m\<lparr>cm_commands_rejected := usize_add (cm_commands_rejected m) 1\<rparr>)
                in case pp_ack_bytes rep of
                     None \<Rightarrow> pump_compact_loop recv send now ingress n t1 w1 m
                   | Some bs \<Rightarrow>
                       (case send t1 \<lparr>op_client_id = c, op_bytes = bs\<rparr> of
                          (Inl e, t2) \<Rightarrow> Some (Err (ClientTransport e), t2, w1)
                        | (Inr _, t2) \<Rightarrow>
                            pump_compact_loop recv send now ingress n t2 (count_ack (length bs) w1)
                              (m\<lparr>cm_acks_sent := usize_add (cm_acks_sent m) 1,
                                 cm_ack_bytes_sent := usize_add (cm_ack_bytes_sent m) (length bs)\<rparr>)))))"

definition pump_ingress_compact ::
  "('t, 'e, 'addr) client_receiver \<Rightarrow> ('t, 'e, outbound_packet) sink \<Rightarrow> 't \<Rightarrow> ingress_world \<Rightarrow> tick \<Rightarrow> command_ingress \<Rightarrow>
   usize \<Rightarrow> (('e client_error + client_summary) \<times> 't \<times> ingress_world) option" where
  "pump_ingress_compact recv send t w now ingress max_packets =
     pump_compact_loop recv send now ingress max_packets t w client_summary_zero"

section \<open>No panic\<close>

lemma ingress_packet_cases:
  fixes r :: "'e client_error + client_id \<times> usize \<times> pipeline_report"
  obtains (bad) e :: "'e client_error" and w' where "process_ingress_packet w p now ingress = Some (Err e, w')"
      "iw_gateway w' = iw_gateway w" "iw_queues w' = iw_queues w"
  | (good) f rep w' pl where
      "(process_ingress_packet w p now ingress :: (('e client_error + client_id \<times> usize \<times> pipeline_report) \<times> ingress_world) option)
         = Some (Ok (cf_client_id f, length (ip_bytes p), rep), w')"
      "binary_decode (ip_bytes p) = Ok (RfCommand f)" "ip_client_id p = None \<or> ip_client_id p = Some (cf_client_id f)"
      "process_command_frame pl (iw_gateway w) (iw_queues w) f now ingress =
         (rep, iw_pipeline w', iw_gateway w', iw_queues w')"
proof (cases rule: decode_command_cases [of "iw_pipeline w" "ip_bytes p"])
  case (other e pl)
  then show thesis by (auto simp: process_ingress_packet_def Let_def intro!: bad)
next
  case (command f pl)
  obtain rep pl1 gw1 qs1 where run: "process_command_frame pl (iw_gateway w) (iw_queues w) f now ingress = (rep, pl1, gw1, qs1)"
    by (metis prod_cases4)
  show thesis
  proof (cases "ip_client_id p = None \<or> ip_client_id p = Some (cf_client_id f)")
    case True
    then show thesis using command run
      by (intro good [of f rep "snd (the (process_ingress_packet w p now ingress))" pl])
        (auto simp: process_ingress_packet_def Let_def)
  next
    case False
    then show thesis using command
      by (auto simp: process_ingress_packet_def Let_def intro!: bad split: option.splits)
  qed
qed

section \<open>The compact pump\<close>

definition summarize :: "client_pump \<Rightarrow> client_summary" where
  "summarize p =
     \<lparr>cm_packets_received = cp_packets_received p, cm_bytes_received = cp_bytes_received p,
      cm_commands_accepted = commands_accepted p, cm_commands_rejected = commands_rejected p,
      cm_acks_sent = cp_acks_sent p, cm_ack_bytes_sent = cp_ack_bytes_sent p\<rparr>"

definition map_ok :: "('a \<Rightarrow> 'b) \<Rightarrow> 'e + 'a \<Rightarrow> 'e + 'b" where
  "map_ok f r = (case r of Inl e \<Rightarrow> Err e | Inr x \<Rightarrow> Ok (f x))"

lemma map_ok_simps [simp]: "map_ok f (Err e) = Err e" "map_ok f (Ok x) = Ok (f x)"
  by (simp_all add: map_ok_def)

lemma summarize_report:
  assumes "length (cp_reports p) < usize_max"
  shows "summarize (p\<lparr>cp_reports := cp_reports p @ [rep]\<rparr>) =
    (if pp_accepted rep then (summarize p)\<lparr>cm_commands_accepted := usize_add (commands_accepted p) 1\<rparr>
     else (summarize p)\<lparr>cm_commands_rejected := usize_add (commands_rejected p) 1\<rparr>)"
  using le_less_trans [OF length_filter_le [of pp_accepted] assms]
    le_less_trans [OF length_filter_le [of "\<lambda>r. \<not> pp_accepted r"] assms]
  by (simp add: summarize_def commands_accepted_def commands_rejected_def usize_add_small)

lemma summarize_counts [simp]:
  "summarize (p\<lparr>cp_packets_received := a, cp_bytes_received := b\<rparr>) =
     (summarize p)\<lparr>cm_packets_received := a, cm_bytes_received := b\<rparr>"
  "summarize (p\<lparr>cp_acks_sent := a, cp_ack_bytes_sent := b, cp_reports := rs\<rparr>) =
     (summarize (p\<lparr>cp_reports := rs\<rparr>))\<lparr>cm_acks_sent := a, cm_ack_bytes_sent := b\<rparr>"
  "commands_accepted (p\<lparr>cp_packets_received := a, cp_bytes_received := b\<rparr>) = commands_accepted p"
  "commands_rejected (p\<lparr>cp_packets_received := a, cp_bytes_received := b\<rparr>) = commands_rejected p"
  "cm_packets_received (summarize p) = cp_packets_received p" "cm_bytes_received (summarize p) = cp_bytes_received p"
  "cm_commands_accepted (summarize p) = commands_accepted p" "cm_commands_rejected (summarize p) = commands_rejected p"
  "cm_acks_sent (summarize p) = cp_acks_sent p" "cm_ack_bytes_sent (summarize p) = cp_ack_bytes_sent p"
  by (simp_all add: summarize_def commands_accepted_def commands_rejected_def)

lemma pump_loops_agree:
  fixes recv :: "('t, 'e, 'addr) client_receiver"
  assumes "length (cp_reports pump) + n \<le> usize_max"
  shows "\<exists>r t' w'. pump_ingress_loop recv send now ingress n t w pump = Some (r, t', w') \<and>
    pump_compact_loop recv send now ingress n t w (summarize pump) = Some (map_ok summarize r, t', w')"
  using assms
proof (induction n arbitrary: t w pump)
  case (Suc n)
  obtain got t1 where recv: "recv t = (got, t1)" by fastforce
  show ?case
  proof (cases got)
    case (Inr m)
    show ?thesis
    proof (cases m)
      case (Some p)
      show ?thesis
      proof (cases rule: ingress_packet_cases [where 'e = 'e, of w p now ingress])
        case (good f rep w1 pl)
        define pump1 where "pump1 = pump\<lparr>cp_packets_received := usize_add (cp_packets_received pump) 1,
          cp_bytes_received := usize_add (cp_bytes_received pump) (length (ip_bytes p))\<rparr>"
        have len: "length (cp_reports pump1) < usize_max" using Suc.prems by (simp add: pump1_def)
        note rep1 = summarize_report [OF len, of rep]
        show ?thesis
        proof (cases "pp_ack_bytes rep")
          case None
          have "length (cp_reports (pump1\<lparr>cp_reports := cp_reports pump1 @ [rep]\<rparr>)) + n \<le> usize_max"
            using Suc.prems by (simp add: pump1_def)
          from Suc.IH [OF this, of t1 w1] show ?thesis
            using recv Inr Some good(1) None by (cases "pp_accepted rep") (simp_all add: rep1, simp_all add: pump1_def)
        next
          case (Some bs)
          obtain x t2 where send: "send t1 \<lparr>op_client_id = cf_client_id f, op_bytes = bs\<rparr> = (x, t2)" by fastforce
          define pump2 where "pump2 = pump1\<lparr>cp_acks_sent := usize_add (cp_acks_sent pump1) 1,
            cp_ack_bytes_sent := usize_add (cp_ack_bytes_sent pump1) (length bs), cp_reports := cp_reports pump1 @ [rep]\<rparr>"
          have "length (cp_reports pump2) + n \<le> usize_max" using Suc.prems by (simp add: pump2_def pump1_def)
          from Suc.IH [OF this, of t2 "count_ack (length bs) w1"] show ?thesis
            using recv Inr \<open>m = Some p\<close> good(1) Some send
            by (cases x; cases "pp_accepted rep") (simp_all add: pump2_def rep1, simp_all add: pump1_def)
        qed
      qed (use recv Inr Some in simp)
    qed (use recv Inr in simp)
  qed (use recv in simp)
qed simp

section \<open>Properties\<close>

text \<open>The compact pump is the reporting pump without the reports. Over any client transport, both pumps end
  without a panic, in the same states of the transport, the bridge, the pipeline, the sessions and the
  queues, with the same error or with the summary that counts the other's reports.\<close>

theorem compact_pump_agrees:
  assumes "max_packets \<le> usize_max"
  shows "\<exists>r t' w'. pump_ingress recv send t w now ingress max_packets = Some (r, t', w') \<and>
    pump_ingress_compact recv send t w now ingress max_packets = Some (map_ok summarize r, t', w')"
proof -
  have "summarize client_pump_zero = client_summary_zero"
    by (simp add: summarize_def client_pump_zero_def client_summary_zero_def commands_accepted_def commands_rejected_def)
  then show ?thesis
    using pump_loops_agree [of client_pump_zero max_packets recv send now ingress t w] assms
    by (simp add: pump_ingress_def pump_ingress_compact_def client_pump_zero_def)
qed

lemma admit_other_session:
  "admit_command gw env = (x, gw') \<Longrightarrow> k \<noteq> ce_client_id env \<Longrightarrow> amap_get (tb_sessions gw') k = amap_get (tb_sessions gw) k"
proof (cases x)
  case (Inl e)
  assume "admit_command gw env = (x, gw')" and k: "k \<noteq> ce_client_id env"
  from admit_Err [OF this(1) [unfolded Inl admit_command_def]] k show ?thesis by (auto simp: amap_get_write)
next
  case (Inr a)
  assume "admit_command gw env = (x, gw')" and k: "k \<noteq> ce_client_id env"
  from admit_Ok [OF this(1) [unfolded Inr admit_command_def]] k show ?thesis by (auto simp: amap_get_write)
qed

lemma process_frame_own:
  assumes "process_command_frame pl gw qs f now ingress = (rep, pl', gw', qs')"
  shows "pp_client_id rep = Some (cf_client_id f) \<and>
    (\<forall>k. k \<noteq> cf_client_id f \<longrightarrow> amap_get (tb_sessions gw') k = amap_get (tb_sessions gw) k) \<and>
    (qs' = qs \<or> (\<exists>s q q1 w. fmlookup qs s = Some q \<and> qs' = fmupd s q1 qs \<and>
       command_push q (command_frame_into_envelope f now) ingress = (Ok w, q1)))"
proof -
  have env: "ce_client_id (command_frame_into_envelope f now) = cf_client_id f"
    by (simp add: command_frame_into_envelope_def)
  note own = admit_other_session [of gw "command_frame_into_envelope f now", unfolded env]
  from assms show ?thesis
  proof (cases rule: process_frame_cases)
    case (gateway e)
    from rejected_report_says [OF gateway(3)] gateway(2) own [OF gateway(1)] show ?thesis by simp
  next
    case (queue a reason err)
    from rejected_report_says [OF queue(5)] queue(2) own [OF queue(1)] show ?thesis by simp
  next
    case (queued a q w q1)
    from accepted_report_says [OF queued(5)] queued(2,3,4) own [OF queued(1)] show ?thesis by blast
  qed
qed

text \<open>C15. A packet acts only for the client it came from. When the transport knows the sender, processing a
  packet never panics and either changes no session and no queue, or the packet decodes to a command
  of the sender: then the answer goes to the sender, no other client's session changes, and at most
  one queue changes, by taking the very command of the packet.\<close>

theorem packet_acts_for_its_sender:
  assumes sender: "ip_client_id p = Some c"
  shows "\<exists>(r :: 'e client_error + client_id \<times> usize \<times> pipeline_report) w'.
    process_ingress_packet w p now ingress = Some (r, w') \<and>
    (case r of
      Inl e \<Rightarrow> iw_gateway w' = iw_gateway w \<and> iw_queues w' = iw_queues w
    | Inr (a, n, rep) \<Rightarrow> a = c \<and> n = length (ip_bytes p) \<and> pp_client_id rep = Some c \<and>
        (\<forall>k. k \<noteq> c \<longrightarrow> amap_get (tb_sessions (iw_gateway w')) k = amap_get (tb_sessions (iw_gateway w)) k) \<and>
        (\<exists>f. binary_decode (ip_bytes p) = Ok (RfCommand f) \<and> cf_client_id f = c \<and>
          (iw_queues w' = iw_queues w \<or>
            (\<exists>s q q1 x. fmlookup (iw_queues w) s = Some q \<and>
               command_push q (command_frame_into_envelope f now) ingress = (Ok x, q1) \<and>
               iw_queues w' = fmupd s q1 (iw_queues w)))))"
proof (cases rule: ingress_packet_cases [where 'e = 'e, of w p now ingress])
  case (bad e w1)
  then show ?thesis by (intro exI [of _ "Err e"] exI [of _ w1]) simp
next
  case (good f rep w1 pl)
  have c: "cf_client_id f = c" using good(3) sender by simp
  note own = process_frame_own [OF good(4), unfolded c]
  show ?thesis
    by (rule exI [of _ "Ok (c, length (ip_bytes p), rep)"], rule exI [of _ w1])
      (use own good(1,2) c in \<open>simp; blast\<close>)
qed

definition demo_world :: ingress_world where
  "demo_world = \<lparr>iw_stats = client_stats_zero, iw_pipeline = pipeline_new default_pipeline_config,
     iw_gateway = demo_clients, iw_queues = demo_queues\<rparr>"

lemma packet_acts_for_its_sender_witness:
  "\<exists>w'. process_ingress_packet demo_world \<lparr>ip_client_id = Some 8, ip_remote_addr = (0 :: nat), ip_bytes = demo_input\<rparr> 10
      ingress_running = Some (Err (ClientSourceMismatch 8 7) :: unit client_error + _, w') \<and>
     iw_gateway w' = demo_clients \<and> iw_queues w' = demo_queues"
proof -
  let ?p = "\<lparr>ip_client_id = Some 8, ip_remote_addr = (0 :: nat), ip_bytes = demo_input\<rparr>"
  obtain f where f: "binary_decode demo_input = Ok (RfCommand f)" "cf_client_id f = 7" using demo_input_decodes by blast
  then obtain w' where run: "process_ingress_packet demo_world ?p 10 ingress_running =
      Some (Err (ClientSourceMismatch 8 7) :: unit client_error + _, w')"
    by (simp add: process_ingress_packet_def decode_command_frame_def Let_def)
  have "ip_client_id ?p = Some 8" by simp
  from packet_acts_for_its_sender [where 'e = unit, OF this, of demo_world 10 ingress_running] run
  show ?thesis by (auto simp: demo_world_def)
qed

lemma compact_pump_agrees_witness:
  "\<exists>r h w. pump_ingress (\<lambda>h. hub_try_recv h \<lparr>ep_local_client_id = 1, ep_registration_token = Some 1\<rparr>)
        (\<lambda>h. hub_send h \<lparr>ep_local_client_id = 1, ep_registration_token = Some 1\<rparr>)
        (hub_new default_client_limits :: nat hub) demo_world 10 ingress_running 4 = Some (r, h, w) \<and>
     pump_ingress_compact (\<lambda>h. hub_try_recv h \<lparr>ep_local_client_id = 1, ep_registration_token = Some 1\<rparr>)
        (\<lambda>h. hub_send h \<lparr>ep_local_client_id = 1, ep_registration_token = Some 1\<rparr>)
        (hub_new default_client_limits) demo_world 10 ingress_running 4 = Some (map_ok summarize r, h, w)"
  by (rule compact_pump_agrees) (simp add: usize_max_def)

end
