(* ===== verification/Client_Receive.thy ===== *)
theory Client_Receive
  imports Wire_Borrowed Memory_Transport
begin

text \<open>
  The client's side of the transport (\<open>ClientTransportBridge\<close> and \<open>ReplicationReceiveBridge\<close> of
  \<open>sectorsync-runtime/src/lib.rs\<close>): sending commands, and receiving acknowledgements, replication and
  barrier frames, either decoded into lists or handed to a visitor in borrowed form. The receiver, the
  sink and the visitor are parameters; \<open>None\<close> is the panic of a borrowed frame's iterator.
\<close>

type_synonym ('t, 'e, 'addr) packet_receiver = "'t \<Rightarrow> ('e + 'addr inbound_packet option) \<times> 't"

text \<open>A receiver configured with an expected source refuses packets from anyone else.\<close>

definition wrong_source :: "client_id option \<Rightarrow> 'addr inbound_packet \<Rightarrow> client_id option" where
  "wrong_source expected p =
     (case expected of None \<Rightarrow> None | Some c \<Rightarrow> if ip_client_id p \<noteq> Some c then Some c else None)"

text \<open>The number of components of a frame, owned and borrowed.\<close>

definition frame_components :: "replication_frame \<Rightarrow> usize" where
  "frame_components f = sum_list (map (\<lambda>e. length (ed_components e)) (rf_entities f))"

definition ref_components :: "replication_frame_ref \<Rightarrow> usize option" where
  "ref_components f = map_option (\<lambda>es. sum_list (map edr_encoded_component_count es)) (frame_ref_entities f)"

section \<open>Replication only\<close>

record receive_config =
  rc_client_id :: client_id
  rc_expected_source :: "client_id option"

definition receive_config_new :: "client_id \<Rightarrow> receive_config" where
  "receive_config_new c = \<lparr>rc_client_id = c, rc_expected_source = None\<rparr>"

definition receive_with_source :: "client_id \<Rightarrow> receive_config \<Rightarrow> receive_config" where
  "receive_with_source s cfg = cfg\<lparr>rc_expected_source := Some s\<rparr>"

record receive_stats =
  rcs_packets_received :: usize
  rcs_bytes_received :: usize
  rcs_frames_received :: usize
  rcs_frames_rejected_decode :: usize
  rcs_frames_rejected_unexpected :: usize
  rcs_frames_rejected_source :: usize
  rcs_frames_rejected_target :: usize
  rcs_entities_received :: usize
  rcs_components_received :: usize

record receive_pump =
  rp_packets_received :: usize
  rp_bytes_received :: usize
  rp_frames :: "replication_frame list"

definition pump_entities_received :: "receive_pump \<Rightarrow> usize" where
  "pump_entities_received p = sum_list (map (\<lambda>f. length (rf_entities f)) (rp_frames p))"

definition pump_components_received :: "receive_pump \<Rightarrow> usize" where
  "pump_components_received p = sum_list (map (\<lambda>e. length (ed_components e)) (concat (map rf_entities (rp_frames p))))"

record visit_report =
  vr_packets_received :: usize
  vr_bytes_received :: usize
  vr_frames_received :: usize
  vr_entities_received :: usize
  vr_components_received :: usize

datatype 'e receive_error =
    ReceiveTransport 'e
  | ReceiveDecode binary_decode_error
  | ReceiveUnexpectedFrame
  | ReceiveSourceMismatch client_id "client_id option"
  | ReceiveTargetMismatch client_id client_id

datatype ('e, 'x) visit_error = VisitReceive "'e receive_error" | VisitVisitor 'x

definition count_packet :: "'addr inbound_packet \<Rightarrow> receive_stats \<Rightarrow> receive_stats" where
  "count_packet p st = st\<lparr>rcs_packets_received := usize_add (rcs_packets_received st) 1,
                          rcs_bytes_received := usize_add (rcs_bytes_received st) (length (ip_bytes p))\<rparr>"

definition count_frame :: "usize \<Rightarrow> usize \<Rightarrow> receive_stats \<Rightarrow> receive_stats" where
  "count_frame entities components st =
     st\<lparr>rcs_frames_received := usize_add (rcs_frames_received st) 1,
        rcs_entities_received := usize_add (rcs_entities_received st) entities,
        rcs_components_received := usize_add (rcs_components_received st) components\<rparr>"

fun receive_owned_loop ::
  "('t, 'e, 'addr) packet_receiver \<Rightarrow> receive_config \<Rightarrow> nat \<Rightarrow> 't \<Rightarrow> receive_stats \<Rightarrow> receive_pump \<Rightarrow>
   ('e receive_error + receive_pump) \<times> 't \<times> receive_stats" where
  "receive_owned_loop recv cfg 0 t st pump = (Ok pump, t, st)"
| "receive_owned_loop recv cfg (Suc n) t st pump =
     (case recv t of
        (Inl e, t1) \<Rightarrow> (Err (ReceiveTransport e), t1, st)
      | (Inr None, t1) \<Rightarrow> (Ok pump, t1, st)
      | (Inr (Some p), t1) \<Rightarrow>
          (let st = count_packet p st;
               pump = pump\<lparr>rp_packets_received := usize_add (rp_packets_received pump) 1,
                           rp_bytes_received := usize_add (rp_bytes_received pump) (length (ip_bytes p))\<rparr>
           in case wrong_source (rc_expected_source cfg) p of
                Some c \<Rightarrow> (Err (ReceiveSourceMismatch c (ip_client_id p)), t1,
                  st\<lparr>rcs_frames_rejected_source := usize_add (rcs_frames_rejected_source st) 1\<rparr>)
              | None \<Rightarrow>
                  (case binary_decode (ip_bytes p) of
                     Inl e \<Rightarrow> (Err (ReceiveDecode e), t1,
                       st\<lparr>rcs_frames_rejected_decode := usize_add (rcs_frames_rejected_decode st) 1\<rparr>)
                   | Inr (RfReplication f) \<Rightarrow>
                       if rf_client_id f \<noteq> rc_client_id cfg
                       then (Err (ReceiveTargetMismatch (rc_client_id cfg) (rf_client_id f)), t1,
                         st\<lparr>rcs_frames_rejected_target := usize_add (rcs_frames_rejected_target st) 1\<rparr>)
                       else receive_owned_loop recv cfg n t1 (count_frame (length (rf_entities f)) (frame_components f) st)
                              (pump\<lparr>rp_frames := rp_frames pump @ [f]\<rparr>)
                   | Inr _ \<Rightarrow> (Err ReceiveUnexpectedFrame, t1,
                       st\<lparr>rcs_frames_rejected_unexpected := usize_add (rcs_frames_rejected_unexpected st) 1\<rparr>))))"

fun receive_visit_loop ::
  "('t, 'e, 'addr) packet_receiver \<Rightarrow> receive_config \<Rightarrow> ('v \<Rightarrow> replication_frame_ref \<Rightarrow> ('x + unit) \<times> 'v) \<Rightarrow> nat \<Rightarrow>
   't \<Rightarrow> receive_stats \<Rightarrow> visit_report \<Rightarrow> 'v \<Rightarrow> ((('e, 'x) visit_error + visit_report) \<times> 't \<times> receive_stats \<times> 'v) option" where
  "receive_visit_loop recv cfg visit 0 t st rep v = Some (Ok rep, t, st, v)"
| "receive_visit_loop recv cfg visit (Suc n) t st rep v =
     (case recv t of
        (Inl e, t1) \<Rightarrow> Some (Err (VisitReceive (ReceiveTransport e)), t1, st, v)
      | (Inr None, t1) \<Rightarrow> Some (Ok rep, t1, st, v)
      | (Inr (Some p), t1) \<Rightarrow>
          (let st = count_packet p st;
               rep = rep\<lparr>vr_packets_received := usize_add (vr_packets_received rep) 1,
                         vr_bytes_received := usize_add (vr_bytes_received rep) (length (ip_bytes p))\<rparr>
           in case wrong_source (rc_expected_source cfg) p of
                Some c \<Rightarrow> Some (Err (VisitReceive (ReceiveSourceMismatch c (ip_client_id p))), t1,
                  st\<lparr>rcs_frames_rejected_source := usize_add (rcs_frames_rejected_source st) 1\<rparr>, v)
              | None \<Rightarrow>
                  (case binary_decode_replication (ip_bytes p) of
                     Inl (RefBinary e) \<Rightarrow> Some (Err (VisitReceive (ReceiveDecode e)), t1,
                       st\<lparr>rcs_frames_rejected_decode := usize_add (rcs_frames_rejected_decode st) 1\<rparr>, v)
                   | Inl (UnexpectedFrameKind _) \<Rightarrow> Some (Err (VisitReceive ReceiveUnexpectedFrame), t1,
                       st\<lparr>rcs_frames_rejected_unexpected := usize_add (rcs_frames_rejected_unexpected st) 1\<rparr>, v)
                   | Inr f \<Rightarrow>
                       if rfr_client_id f \<noteq> rc_client_id cfg
                       then Some (Err (VisitReceive (ReceiveTargetMismatch (rc_client_id cfg) (rfr_client_id f))), t1,
                         st\<lparr>rcs_frames_rejected_target := usize_add (rcs_frames_rejected_target st) 1\<rparr>, v)
                       else (case ref_components f of
                           None \<Rightarrow> None
                         | Some components \<Rightarrow>
                             (let entities = rfr_encoded_entity_count f;
                                  st = count_frame entities components st;
                                  rep = rep\<lparr>vr_frames_received := usize_add (vr_frames_received rep) 1,
                                            vr_entities_received := usize_add (vr_entities_received rep) entities,
                                            vr_components_received := usize_add (vr_components_received rep) components\<rparr>
                              in case visit v f of
                                   (Inl x, v1) \<Rightarrow> Some (Err (VisitVisitor x), t1, st, v1)
                                 | (Inr _, v1) \<Rightarrow> receive_visit_loop recv cfg visit n t1 st rep v1)))))"

definition receive_pump_owned ::
  "('t, 'e, 'addr) packet_receiver \<Rightarrow> receive_config \<Rightarrow> receive_stats \<Rightarrow> 't \<Rightarrow> usize \<Rightarrow>
   ('e receive_error + receive_pump) \<times> 't \<times> receive_stats" where
  "receive_pump_owned recv cfg st t max_packets =
     receive_owned_loop recv cfg max_packets t st \<lparr>rp_packets_received = 0, rp_bytes_received = 0, rp_frames = []\<rparr>"

definition receive_pump_visit ::
  "('t, 'e, 'addr) packet_receiver \<Rightarrow> receive_config \<Rightarrow> ('v \<Rightarrow> replication_frame_ref \<Rightarrow> ('x + unit) \<times> 'v) \<Rightarrow>
   receive_stats \<Rightarrow> 't \<Rightarrow> usize \<Rightarrow> 'v \<Rightarrow> ((('e, 'x) visit_error + visit_report) \<times> 't \<times> receive_stats \<times> 'v) option" where
  "receive_pump_visit recv cfg visit st t max_packets v =
     receive_visit_loop recv cfg visit max_packets t st
       \<lparr>vr_packets_received = 0, vr_bytes_received = 0, vr_frames_received = 0, vr_entities_received = 0,
        vr_components_received = 0\<rparr> v"

end
