(* ===== verification/Client_Transport.thy ===== *)
theory Client_Transport
  imports Client_Receive Gateway_Pipeline
begin

text \<open>
  The bridge of a game client (\<open>ClientTransportBridge\<close>): commands go out to the server, and
  acknowledgements, replication frames and barrier notices come in. The visiting pump hands out
  replication frames in borrowed form. The theorems show that it does the same work as the owning
  pump, errors and statistics included.
\<close>

record client_config =
  cc_client_id :: client_id
  cc_server_id :: client_id
  cc_expected_source :: "client_id option"

definition client_config_new :: "client_id \<Rightarrow> client_id \<Rightarrow> client_config" where
  "client_config_new c s = \<lparr>cc_client_id = c, cc_server_id = s, cc_expected_source = None\<rparr>"

definition client_with_source :: "client_id \<Rightarrow> client_config \<Rightarrow> client_config" where
  "client_with_source s cfg = cfg\<lparr>cc_expected_source := Some s\<rparr>"

record client_stats =
  cls_commands_sent :: usize
  cls_command_bytes_sent :: usize
  cls_packets_received :: usize
  cls_bytes_received :: usize
  cls_command_acks_received :: usize
  cls_replication_frames_received :: usize
  cls_barrier_frames_received :: usize
  cls_frames_rejected_decode :: usize
  cls_frames_rejected_unexpected :: usize
  cls_frames_rejected_source :: usize
  cls_frames_rejected_target :: usize
  cls_entities_received :: usize
  cls_components_received :: usize

definition client_transport_stats_zero :: client_stats where
  "client_transport_stats_zero =
     \<lparr>cls_commands_sent = 0, cls_command_bytes_sent = 0, cls_packets_received = 0, cls_bytes_received = 0,
      cls_command_acks_received = 0, cls_replication_frames_received = 0, cls_barrier_frames_received = 0,
      cls_frames_rejected_decode = 0, cls_frames_rejected_unexpected = 0, cls_frames_rejected_source = 0,
      cls_frames_rejected_target = 0, cls_entities_received = 0, cls_components_received = 0\<rparr>"

record client_send_report =
  csr_command_id :: command_id
  csr_bytes_sent :: usize

datatype client_frame_kind = InboundCommandAck | InboundReplication | InboundBarrier

record client_inbox =
  in_packets_received :: usize
  in_bytes_received :: usize
  in_command_acks :: "command_ack_frame list"
  in_replication_frames :: "replication_frame list"
  in_barriers :: "barrier_frame list"

definition inbox_empty :: client_inbox where
  "inbox_empty =
     \<lparr>in_packets_received = 0, in_bytes_received = 0, in_command_acks = [], in_replication_frames = [], in_barriers = []\<rparr>"

definition command_acks_received :: "client_inbox \<Rightarrow> usize" where
  "command_acks_received p = length (in_command_acks p)"

definition replication_frames_received :: "client_inbox \<Rightarrow> usize" where
  "replication_frames_received p = length (in_replication_frames p)"

definition barrier_frames_received :: "client_inbox \<Rightarrow> usize" where
  "barrier_frames_received p = length (in_barriers p)"

definition entities_received :: "client_inbox \<Rightarrow> usize" where
  "entities_received p = sum_list (map (\<lambda>f. length (rf_entities f)) (in_replication_frames p))"

definition components_received :: "client_inbox \<Rightarrow> usize" where
  "components_received p =
     sum_list (map (\<lambda>e. length (ed_components e)) (concat (map rf_entities (in_replication_frames p))))"

datatype client_frame_ref =
    RefCommandAck command_ack_frame
  | RefReplication replication_frame_ref
  | RefBarrier barrier_frame

record client_visit_report =
  cv_packets_received :: usize
  cv_bytes_received :: usize
  cv_command_acks_received :: usize
  cv_replication_frames_received :: usize
  cv_barrier_frames_received :: usize
  cv_entities_received :: usize
  cv_components_received :: usize

definition visit_report_empty :: client_visit_report where
  "visit_report_empty =
     \<lparr>cv_packets_received = 0, cv_bytes_received = 0, cv_command_acks_received = 0, cv_replication_frames_received = 0,
      cv_barrier_frames_received = 0, cv_entities_received = 0, cv_components_received = 0\<rparr>"

datatype 'e client_bridge_error =
    BridgeCommandClientMismatch client_id client_id
  | BridgeEncode binary_encode_error
  | BridgeTransport 'e
  | BridgeDecode binary_decode_error
  | BridgeUnexpectedFrame
  | BridgeSourceMismatch client_id "client_id option"
  | BridgeTargetMismatch client_frame_kind client_id client_id

datatype ('e, 'x) client_visit_error = ClientVisitReceive "'e client_bridge_error" | ClientVisitVisitor 'x

section \<open>Sending commands\<close>

definition send_command_frame ::
  "('t, 'e, outbound_packet) sink \<Rightarrow> client_config \<Rightarrow> client_stats \<Rightarrow> 't \<Rightarrow> command_frame \<Rightarrow>
   ('e client_bridge_error + client_send_report) \<times> client_stats \<times> 't" where
  "send_command_frame send cfg st t f =
     (if cf_client_id f \<noteq> cc_client_id cfg
      then (Err (BridgeCommandClientMismatch (cc_client_id cfg) (cf_client_id f)), st, t)
      else case encode_command f [] of
          (Inl e, _) \<Rightarrow> (Err (BridgeEncode e), st, t)
        | (Inr _, bs) \<Rightarrow>
            (case send t \<lparr>op_client_id = cc_server_id cfg, op_bytes = bs\<rparr> of
               (Inl e, t1) \<Rightarrow> (Err (BridgeTransport e), st, t1)
             | (Inr _, t1) \<Rightarrow>
                 (Ok \<lparr>csr_command_id = cf_command_id f, csr_bytes_sent = length bs\<rparr>,
                  st\<lparr>cls_commands_sent := usize_add (cls_commands_sent st) 1,
                     cls_command_bytes_sent := usize_add (cls_command_bytes_sent st) (length bs)\<rparr>, t1)))"

section \<open>Receiving\<close>

definition validate_client_target ::
  "client_config \<Rightarrow> client_frame_kind \<Rightarrow> client_id \<Rightarrow> client_stats \<Rightarrow> ('e client_bridge_error + unit) \<times> client_stats" where
  "validate_client_target cfg k actual st =
     (if actual = cc_client_id cfg then (Ok (), st)
      else (Err (BridgeTargetMismatch k (cc_client_id cfg) actual),
            st\<lparr>cls_frames_rejected_target := usize_add (cls_frames_rejected_target st) 1\<rparr>))"

definition client_count_packet :: "'addr inbound_packet \<Rightarrow> client_stats \<Rightarrow> client_stats" where
  "client_count_packet p st =
     st\<lparr>cls_packets_received := usize_add (cls_packets_received st) 1,
        cls_bytes_received := usize_add (cls_bytes_received st) (length (ip_bytes p))\<rparr>"

definition client_count_ack :: "client_stats \<Rightarrow> client_stats" where
  "client_count_ack st = st\<lparr>cls_command_acks_received := usize_add (cls_command_acks_received st) 1\<rparr>"

definition client_count_barrier :: "client_stats \<Rightarrow> client_stats" where
  "client_count_barrier st = st\<lparr>cls_barrier_frames_received := usize_add (cls_barrier_frames_received st) 1\<rparr>"

definition client_count_replication :: "usize \<Rightarrow> usize \<Rightarrow> client_stats \<Rightarrow> client_stats" where
  "client_count_replication entities components st =
     st\<lparr>cls_replication_frames_received := usize_add (cls_replication_frames_received st) 1,
        cls_entities_received := usize_add (cls_entities_received st) entities,
        cls_components_received := usize_add (cls_components_received st) components\<rparr>"

definition count_rejected_decode :: "client_stats \<Rightarrow> client_stats" where
  "count_rejected_decode st = st\<lparr>cls_frames_rejected_decode := usize_add (cls_frames_rejected_decode st) 1\<rparr>"

definition count_rejected_unexpected :: "client_stats \<Rightarrow> client_stats" where
  "count_rejected_unexpected st = st\<lparr>cls_frames_rejected_unexpected := usize_add (cls_frames_rejected_unexpected st) 1\<rparr>"

definition count_rejected_source :: "client_stats \<Rightarrow> client_stats" where
  "count_rejected_source st = st\<lparr>cls_frames_rejected_source := usize_add (cls_frames_rejected_source st) 1\<rparr>"

text \<open>One decoded frame of the owning pump.\<close>

definition accept_owned ::
  "client_config \<Rightarrow> runtime_frame \<Rightarrow> client_stats \<Rightarrow> client_inbox \<Rightarrow> ('e client_bridge_error + client_inbox) \<times> client_stats" where
  "accept_owned cfg fr st pump =
     (case fr of
        RfCommandAck f \<Rightarrow>
          (case validate_client_target cfg InboundCommandAck (ack_client_id f) st of
             (Inl e, st) \<Rightarrow> (Err e, st)
           | (Inr _, st) \<Rightarrow> (Ok (pump\<lparr>in_command_acks := in_command_acks pump @ [f]\<rparr>), client_count_ack st))
      | RfReplication f \<Rightarrow>
          (case validate_client_target cfg InboundReplication (rf_client_id f) st of
             (Inl e, st) \<Rightarrow> (Err e, st)
           | (Inr _, st) \<Rightarrow>
               (Ok (pump\<lparr>in_replication_frames := in_replication_frames pump @ [f]\<rparr>),
                client_count_replication (length (rf_entities f)) (frame_components f) st))
      | RfBarrier f \<Rightarrow>
          (case validate_client_target cfg InboundBarrier (bf_client_id f) st of
             (Inl e, st) \<Rightarrow> (Err e, st)
           | (Inr _, st) \<Rightarrow> (Ok (pump\<lparr>in_barriers := in_barriers pump @ [f]\<rparr>), client_count_barrier st))
      | _ \<Rightarrow> (Err BridgeUnexpectedFrame, count_rejected_unexpected st))"

fun client_owned_loop ::
  "('t, 'e, 'addr) packet_receiver \<Rightarrow> client_config \<Rightarrow> nat \<Rightarrow> 't \<Rightarrow> client_stats \<Rightarrow> client_inbox \<Rightarrow>
   ('e client_bridge_error + client_inbox) \<times> 't \<times> client_stats" where
  "client_owned_loop recv cfg 0 t st pump = (Ok pump, t, st)"
| "client_owned_loop recv cfg (Suc n) t st pump =
     (case recv t of
        (Inl e, t1) \<Rightarrow> (Err (BridgeTransport e), t1, st)
      | (Inr None, t1) \<Rightarrow> (Ok pump, t1, st)
      | (Inr (Some p), t1) \<Rightarrow>
          (let st = client_count_packet p st;
               pump = pump\<lparr>in_packets_received := usize_add (in_packets_received pump) 1,
                           in_bytes_received := usize_add (in_bytes_received pump) (length (ip_bytes p))\<rparr>
           in case wrong_source (cc_expected_source cfg) p of
                Some c \<Rightarrow> (Err (BridgeSourceMismatch c (ip_client_id p)), t1, count_rejected_source st)
              | None \<Rightarrow>
                  (case binary_decode (ip_bytes p) of
                     Inl e \<Rightarrow> (Err (BridgeDecode e), t1, count_rejected_decode st)
                   | Inr fr \<Rightarrow>
                       (case accept_owned cfg fr st pump of
                          (Inl e, st) \<Rightarrow> (Err e, t1, st)
                        | (Inr pump, st) \<Rightarrow> client_owned_loop recv cfg n t1 st pump))))"

definition client_pump_owned ::
  "('t, 'e, 'addr) packet_receiver \<Rightarrow> client_config \<Rightarrow> client_stats \<Rightarrow> 't \<Rightarrow> usize \<Rightarrow>
   ('e client_bridge_error + client_inbox) \<times> 't \<times> client_stats" where
  "client_pump_owned recv cfg st t max_packets = client_owned_loop recv cfg max_packets t st inbox_empty"

type_synonym ('v, 'x) frame_visitor = "'v \<Rightarrow> client_frame_ref \<Rightarrow> ('x + unit) \<times> 'v"

text \<open>One packet of the visiting pump: a replication frame is decoded in place, another kind by the owned
  decoder; \<open>None\<close> is a panic.\<close>

definition accept_visit ::
  "client_config \<Rightarrow> ('v, 'x) frame_visitor \<Rightarrow> bytes \<Rightarrow> client_stats \<Rightarrow> client_visit_report \<Rightarrow> 'v \<Rightarrow>
   ((('e, 'x) client_visit_error + client_visit_report) \<times> client_stats \<times> 'v) option" where
  "accept_visit cfg visit bs st rep v =
     (let visited = (\<lambda>fr st rep. Some (case visit v fr of
            (Inl x, v1) \<Rightarrow> (Err (ClientVisitVisitor x), st, v1)
          | (Inr _, v1) \<Rightarrow> (Ok rep, st, v1)))
      in case binary_decode_replication bs of
        Inr f \<Rightarrow>
          (case validate_client_target cfg InboundReplication (rfr_client_id f) st of
             (Inl e, st) \<Rightarrow> Some (Err (ClientVisitReceive e), st, v)
           | (Inr _, st) \<Rightarrow>
               (case ref_components f of
                  None \<Rightarrow> None
                | Some components \<Rightarrow>
                    visited (RefReplication f) (client_count_replication (rfr_encoded_entity_count f) components st)
                      (rep\<lparr>cv_replication_frames_received := usize_add (cv_replication_frames_received rep) 1,
                           cv_entities_received := usize_add (cv_entities_received rep) (rfr_encoded_entity_count f),
                           cv_components_received := usize_add (cv_components_received rep) components\<rparr>)))
      | Inl (RefBinary e) \<Rightarrow> Some (Err (ClientVisitReceive (BridgeDecode e)), count_rejected_decode st, v)
      | Inl (UnexpectedFrameKind _) \<Rightarrow>
          (case binary_decode bs of
             Inl e \<Rightarrow> Some (Err (ClientVisitReceive (BridgeDecode e)), count_rejected_decode st, v)
           | Inr (RfCommandAck f) \<Rightarrow>
               (case validate_client_target cfg InboundCommandAck (ack_client_id f) st of
                  (Inl e, st) \<Rightarrow> Some (Err (ClientVisitReceive e), st, v)
                | (Inr _, st) \<Rightarrow>
                    visited (RefCommandAck f) (client_count_ack st)
                      (rep\<lparr>cv_command_acks_received := usize_add (cv_command_acks_received rep) 1\<rparr>))
           | Inr (RfBarrier f) \<Rightarrow>
               (case validate_client_target cfg InboundBarrier (bf_client_id f) st of
                  (Inl e, st) \<Rightarrow> Some (Err (ClientVisitReceive e), st, v)
                | (Inr _, st) \<Rightarrow>
                    visited (RefBarrier f) (client_count_barrier st)
                      (rep\<lparr>cv_barrier_frames_received := usize_add (cv_barrier_frames_received rep) 1\<rparr>))
           | Inr _ \<Rightarrow> Some (Err (ClientVisitReceive BridgeUnexpectedFrame), count_rejected_unexpected st, v)))"

fun client_visit_loop ::
  "('t, 'e, 'addr) packet_receiver \<Rightarrow> client_config \<Rightarrow> ('v, 'x) frame_visitor \<Rightarrow> nat \<Rightarrow> 't \<Rightarrow> client_stats \<Rightarrow>
   client_visit_report \<Rightarrow> 'v \<Rightarrow> ((('e, 'x) client_visit_error + client_visit_report) \<times> 't \<times> client_stats \<times> 'v) option" where
  "client_visit_loop recv cfg visit 0 t st rep v = Some (Ok rep, t, st, v)"
| "client_visit_loop recv cfg visit (Suc n) t st rep v =
     (case recv t of
        (Inl e, t1) \<Rightarrow> Some (Err (ClientVisitReceive (BridgeTransport e)), t1, st, v)
      | (Inr None, t1) \<Rightarrow> Some (Ok rep, t1, st, v)
      | (Inr (Some p), t1) \<Rightarrow>
          (let st = client_count_packet p st;
               rep = rep\<lparr>cv_packets_received := usize_add (cv_packets_received rep) 1,
                         cv_bytes_received := usize_add (cv_bytes_received rep) (length (ip_bytes p))\<rparr>
           in case wrong_source (cc_expected_source cfg) p of
                Some c \<Rightarrow>
                  Some (Err (ClientVisitReceive (BridgeSourceMismatch c (ip_client_id p))), t1, count_rejected_source st, v)
              | None \<Rightarrow>
                  (case accept_visit cfg visit (ip_bytes p) st rep v of
                     None \<Rightarrow> None
                   | Some (Inl e, st, v) \<Rightarrow> Some (Err e, t1, st, v)
                   | Some (Inr rep, st, v) \<Rightarrow> client_visit_loop recv cfg visit n t1 st rep v)))"

definition client_pump_visit ::
  "('t, 'e, 'addr) packet_receiver \<Rightarrow> client_config \<Rightarrow> ('v, 'x) frame_visitor \<Rightarrow> client_stats \<Rightarrow> 't \<Rightarrow> usize \<Rightarrow> 'v \<Rightarrow>
   ((('e, 'x) client_visit_error + client_visit_report) \<times> 't \<times> client_stats \<times> 'v) option" where
  "client_pump_visit recv cfg visit st t max_packets v =
     client_visit_loop recv cfg visit max_packets t st visit_report_empty v"

section \<open>Borrowed and owned frames count alike\<close>

lemma iter_collect_length: "iter_collect n rd c = Some xs \<Longrightarrow> length xs = n"
  by (induction n rd c arbitrary: xs rule: iter_collect.induct) (auto split: sum.splits)

lemma those_length: "those xs = Some ys \<Longrightarrow> length ys = length xs"
  by (induction xs arbitrary: ys) (auto split: option.splits)

lemma entity_ref_count: "entity_ref_to_owned e = Some d \<Longrightarrow> edr_encoded_component_count e = length (ed_components d)"
  by (auto simp: entity_ref_to_owned_def entity_ref_components_def dest: iter_collect_length)

lemma entity_refs_count:
  "those (map entity_ref_to_owned es) = Some ds \<Longrightarrow>
   map edr_encoded_component_count es = map (\<lambda>d. length (ed_components d)) ds"
  by (induction es arbitrary: ds) (auto simp: entity_ref_count split: option.splits)

lemma frame_ref_counts:
  assumes "frame_ref_to_owned b = Some f"
  shows "rfr_client_id b = rf_client_id f" "rfr_encoded_entity_count b = length (rf_entities f)"
    "ref_components b = Some (frame_components f)"
proof -
  obtain es ds where es: "frame_ref_entities b = Some es" "those (map entity_ref_to_owned es) = Some ds"
    and f: "rf_client_id f = rfr_client_id b" "rf_entities f = ds"
    using assms by (auto simp: frame_ref_to_owned_def split: option.splits)
  show "rfr_client_id b = rf_client_id f" using f by simp
  show "rfr_encoded_entity_count b = length (rf_entities f)"
    using es f those_length iter_collect_length by (fastforce simp: frame_ref_entities_def)
  show "ref_components b = Some (frame_components f)"
    using es f entity_refs_count by (simp add: ref_components_def frame_components_def)
qed

section \<open>Visiting is owning\<close>

text \<open>A visitor that collects the frames it is handed, and the report of a filled inbox.\<close>

type_synonym collected = "command_ack_frame list \<times> replication_frame list \<times> barrier_frame list"

fun collect_frame :: "(collected, unit) frame_visitor" where
  "collect_frame (as, rs, bs) (RefCommandAck f) = (Ok (), (as @ [f], rs, bs))"
| "collect_frame (as, rs, bs) (RefReplication b) =
     (Ok (), (as, (case frame_ref_to_owned b of None \<Rightarrow> rs | Some f \<Rightarrow> rs @ [f]), bs))"
| "collect_frame (as, rs, bs) (RefBarrier f) = (Ok (), (as, rs, bs @ [f]))"

definition collected_of :: "client_inbox \<Rightarrow> collected" where
  "collected_of p = (in_command_acks p, in_replication_frames p, in_barriers p)"

definition report_of :: "client_inbox \<Rightarrow> client_visit_report" where
  "report_of p =
     \<lparr>cv_packets_received = in_packets_received p, cv_bytes_received = in_bytes_received p,
      cv_command_acks_received = min (command_acks_received p) usize_max,
      cv_replication_frames_received = min (replication_frames_received p) usize_max,
      cv_barrier_frames_received = min (barrier_frames_received p) usize_max,
      cv_entities_received = min (entities_received p) usize_max,
      cv_components_received = min (components_received p) usize_max\<rparr>"

lemma usize_add_capped: "usize_add (min a usize_max) b = min (a + b) usize_max"
  by (simp add: usize_add_def min_def)

lemma inbox_counts:
  "components_received (p\<lparr>in_replication_frames := in_replication_frames p @ [f]\<rparr>) = components_received p + frame_components f"
  "entities_received (p\<lparr>in_replication_frames := in_replication_frames p @ [f]\<rparr>) = entities_received p + length (rf_entities f)"
  by (simp_all add: components_received_def frame_components_def entities_received_def)

lemmas inbox_defs = report_of_def collected_of_def command_acks_received_def replication_frames_received_def
  barrier_frames_received_def

lemma accept_visit_owned:
  assumes len: "length bs < usize_max"
  shows "accept_visit cfg collect_frame bs st (report_of pump) (collected_of pump) =
    Some (case binary_decode bs of
        Inl e \<Rightarrow> (Err (ClientVisitReceive (BridgeDecode e :: 'e client_bridge_error)), count_rejected_decode st, collected_of pump)
      | Inr fr \<Rightarrow>
          (case accept_owned cfg fr st pump of
             (Inl e, st1) \<Rightarrow> (Err (ClientVisitReceive e), st1, collected_of pump)
           | (Inr pump1, st1) \<Rightarrow> (Ok (report_of pump1), st1, collected_of pump1)))"
proof (cases "binary_decode bs")
  case (Inl e)
  then show ?thesis using ref_decoder_agrees [OF len] by (auto simp: accept_visit_def Let_def)
next
  case (Inr fr)
  show ?thesis
  proof (cases fr)
    case (RfReplication f)
    then obtain b where b: "binary_decode_replication bs = Ok b" "frame_ref_to_owned b = Some f"
      using ref_decoder_agrees [OF len] Inr by auto
    show ?thesis using Inr RfReplication b frame_ref_counts [OF b(2)]
      by (simp add: accept_visit_def accept_owned_def validate_client_target_def Let_def)
        (simp add: inbox_defs usize_add_capped inbox_counts)
  next
    case (RfCommandAck f)
    then show ?thesis using ref_decoder_agrees [OF len] Inr
      by (simp add: accept_visit_def accept_owned_def validate_client_target_def Let_def)
        (simp add: inbox_defs usize_add_capped entities_received_def components_received_def)
  next
    case (RfBarrier f)
    then show ?thesis using ref_decoder_agrees [OF len] Inr
      by (simp add: accept_visit_def accept_owned_def validate_client_target_def Let_def)
        (simp add: inbox_defs usize_add_capped entities_received_def components_received_def)
  qed (use ref_decoder_agrees [OF len] Inr in \<open>simp_all add: accept_visit_def accept_owned_def Let_def\<close>)
qed

lemma client_loops_agree:
  fixes recv :: "('t, 'e, 'addr) packet_receiver"
  assumes small: "\<And>t p t'. recv t = (Ok (Some p), t') \<Longrightarrow> length (ip_bytes p) < usize_max"
    and owned: "client_owned_loop recv cfg n t st pump = (r, t', st')"
  shows "\<exists>v. client_visit_loop recv cfg collect_frame n t st (report_of pump) (collected_of pump) =
      Some ((case r of Inl e \<Rightarrow> Err (ClientVisitReceive e) | Inr p \<Rightarrow> Ok (report_of p)), t', st', v) \<and>
    (\<forall>p. r = Ok p \<longrightarrow> v = collected_of p)"
  using owned
proof (induction n arbitrary: t st pump)
  case (Suc n)
  obtain got t1 where recv: "recv t = (got, t1)" by fastforce
  show ?case
  proof (cases got)
    case (Inr m)
    show ?thesis
    proof (cases m)
      case (Some p)
      define pump1 where "pump1 = pump\<lparr>in_packets_received := usize_add (in_packets_received pump) 1,
        in_bytes_received := usize_add (in_bytes_received pump) (length (ip_bytes p))\<rparr>"
      have start: "(report_of pump)\<lparr>cv_packets_received := usize_add (cv_packets_received (report_of pump)) 1,
          cv_bytes_received := usize_add (cv_bytes_received (report_of pump)) (length (ip_bytes p))\<rparr> = report_of pump1"
        "collected_of pump = collected_of pump1"
        by (simp_all add: pump1_def inbox_defs entities_received_def components_received_def)
      have len: "length (ip_bytes p) < usize_max" using small recv Inr Some by blast
      note step = accept_visit_owned [where 'e = 'e, OF len, of cfg "client_count_packet p st" pump1]
      show ?thesis
      proof (cases "wrong_source (cc_expected_source cfg) p")
        case None
        show ?thesis
        proof (cases "binary_decode (ip_bytes p)")
          case (Inl e)
          then show ?thesis using Suc.prems recv Inr Some None step start by (auto simp: Let_def)
        next
          case (Inr fr)
          obtain y st1 where acc: "accept_owned cfg fr (client_count_packet p st) pump1 =
              (y :: 'e client_bridge_error + client_inbox, st1)" by fastforce
          show ?thesis
          proof (cases y)
            case (Inl e)
            then show ?thesis using Suc.prems recv \<open>got = Inr m\<close> Some None Inr step start acc acc [unfolded pump1_def]
              by (auto simp: Let_def)
          next
            case (Inr pump2)
            have "client_owned_loop recv cfg n t1 st1 pump2 = (r, t', st')"
              using Suc.prems recv \<open>got = Inr m\<close> Some None \<open>binary_decode (ip_bytes p) = Inr fr\<close> acc [unfolded pump1_def] Inr
              by (simp add: Let_def)
            from Suc.IH [OF this] show ?thesis
              using recv \<open>got = Inr m\<close> Some None \<open>binary_decode (ip_bytes p) = Inr fr\<close> acc Inr step start
              by (simp add: Let_def)
          qed
        qed
      qed (use Suc.prems recv Inr Some in \<open>auto simp: Let_def\<close>)
    qed (use Suc.prems recv Inr in auto)
  qed (use Suc.prems recv in auto)
qed auto

section \<open>Properties\<close>

text \<open>C14. Visiting is owning. Whatever packets arrive, the pump that hands out borrowed frames never panics in
  an iterator and ends with the same outcome as the pump that decodes into lists: the same error, or a
  report that counts its lists; the same transport, the same statistics; and a visitor that copies each
  frame it is handed ends up with exactly those lists.\<close>

theorem visiting_is_owning:
  assumes small: "\<And>t p t'. recv t = (Ok (Some p), t') \<Longrightarrow> length (ip_bytes p) < usize_max"
    and owned: "client_pump_owned recv cfg st t max_packets = (r, t', st')"
  shows "\<exists>v. client_pump_visit recv cfg collect_frame st t max_packets ([], [], []) =
      Some ((case r of Inl e \<Rightarrow> Err (ClientVisitReceive e) | Inr p \<Rightarrow> Ok (report_of p)), t', st', v) \<and>
    (\<forall>p. r = Ok p \<longrightarrow> v = (in_command_acks p, in_replication_frames p, in_barriers p))"
proof -
  have "report_of inbox_empty = visit_report_empty" "collected_of inbox_empty = ([], [], [])"
    by (simp_all add: inbox_defs inbox_empty_def visit_report_empty_def entities_received_def components_received_def)
  with client_loops_agree [OF small owned [unfolded client_pump_owned_def]] show ?thesis
    by (simp add: client_pump_visit_def collected_of_def)
qed

text \<open>A transport with one packet, an acknowledgement from client 1.\<close>

definition demo_ack :: command_ack_frame where
  "demo_ack = \<lparr>ack_client_id = 7, ack_command_id = 1, ack_server_tick = 10, ack_accepted = True, ack_reason_code = 0\<rparr>"

definition ack_packet :: "nat inbound_packet" where
  "ack_packet = \<lparr>ip_client_id = Some 1, ip_remote_addr = 0, ip_bytes = enc_frame (RfCommandAck demo_ack)\<rparr>"

definition one_ack :: "bool \<Rightarrow> (unit + nat inbound_packet option) \<times> bool" where
  "one_ack b = (Ok (if b then Some ack_packet else None), False)"

lemma visiting_is_owning_witness:
  "\<exists>rep st. client_pump_visit one_ack (client_config_new 7 1) collect_frame client_transport_stats_zero True 2 ([], [], []) =
     Some (Ok rep, False, st, [demo_ack], [], []) \<and> cv_command_acks_received rep = 1"
proof -
  have small: "length (ip_bytes p) < usize_max" if "one_ack t = (Ok (Some p), t')" for t p t'
    using that by (auto simp: one_ack_def ack_packet_def enc_frame_def enc_body_def enc_ack_def usize_max_def split: if_splits)
  have recv: "one_ack True = (Ok (Some ack_packet), False)" "one_ack False = (Ok None, False)"
    by (simp_all add: one_ack_def)
  have bytes: "binary_decode (ip_bytes ack_packet) = Ok (RfCommandAck demo_ack)"
    by (simp add: ack_packet_def ack_decodes)
  have packet: "ip_client_id ack_packet = Some 1" "ack_client_id demo_ack = 7" "length (ip_bytes ack_packet) = 28"
    by (simp_all add: ack_packet_def demo_ack_def enc_frame_def enc_body_def enc_ack_def)
  have counts: "min (Suc 0) usize_max = Suc 0" "min 28 usize_max = 28" by (simp_all add: usize_max_def)
  obtain r t st where run: "client_pump_owned one_ack (client_config_new 7 1) client_transport_stats_zero True 2 = (r, t, st)"
    by (metis prod_cases3)
  then have "t = False \<and> r = Ok (inbox_empty\<lparr>in_packets_received := 1, in_bytes_received := 28, in_command_acks := [demo_ack]\<rparr>)"
    by (auto simp: client_pump_owned_def numeral_2_eq_2 recv packet bytes wrong_source_def client_config_new_def Let_def
        accept_owned_def validate_client_target_def inbox_empty_def counts)
  with run have owned: "client_pump_owned one_ack (client_config_new 7 1) client_transport_stats_zero True 2 =
      (Ok (inbox_empty\<lparr>in_packets_received := 1, in_bytes_received := 28, in_command_acks := [demo_ack]\<rparr>), False, st)"
    by simp
  from visiting_is_owning [OF small owned] show ?thesis
    by (auto simp: report_of_def command_acks_received_def inbox_empty_def usize_max_def)
qed

end
