(* ===== verification/Client_Roundtrip.thy ===== *)
theory Client_Roundtrip
  imports Client_Ingress Client_Transport
begin

text \<open>
  A command's way from a client to the gateway and back, over the in-memory hub: the client bridge sends
  it, the gateway's client bridge processes it and answers, the client bridge receives the answer.
\<close>

section \<open>One packet through the hub\<close>

lemma hub_sent:
  assumes "hub_send h ep p = (Ok u, h1)"
  shows "\<exists>q. hub_queue h (op_client_id p) = Some q \<and> hub_queue h1 = (hub_queue h)(op_client_id p \<mapsto> q @ [stamped h ep p]) \<and>
    length (op_bytes p) \<le> ct_max_packet_bytes (hb_limits h) \<and> hb_limits h1 = hb_limits h \<and>
    local_client h ep \<noteq> None \<and> (\<forall>e. local_client h e \<noteq> None \<longrightarrow> local_client h1 e \<noteq> None)"
proof -
  obtain k t where "local_client h ep = Some k" "amap_get (hb_clients h) (op_client_id p) = Some t"
    "length (op_bytes p) \<le> ct_max_packet_bytes (hb_limits h)" "hb_limits h1 = hb_limits h"
    "hb_clients h1 = amap_write (hb_clients h) (op_client_id p) (t\<lparr>hc_queue := hc_queue t @ [stamped h ep p]\<rparr>)"
    using assms by (auto simp: hub_send_def elim: send_locked_Ok)
  then show ?thesis
    by (auto simp: hub_queue_def local_client_def amap_get_write fun_eq_iff split: option.splits if_splits)
qed

lemma hub_sends:
  assumes "local_client h ep \<noteq> None" and "hub_queue h (op_client_id p) = Some q"
    and "length q < ct_max_queued_packets (hb_limits h)" and "length (op_bytes p) \<le> ct_max_packet_bytes (hb_limits h)"
  shows "\<exists>h1. hub_send h ep p = (Ok (), h1)"
  using assms by (auto simp: hub_send_def send_locked_def hub_queue_def Let_def)

lemma hub_received:
  assumes "local_client h ep \<noteq> None" and "hub_queue h (ep_local_client_id ep) = Some (p # q)"
  shows "\<exists>h1. hub_try_recv h ep = (Ok (Some p), h1) \<and> hub_queue h1 = (hub_queue h)(ep_local_client_id ep \<mapsto> q) \<and>
    hb_limits h1 = hb_limits h \<and> (\<forall>e. local_client h e \<noteq> None \<longrightarrow> local_client h1 e \<noteq> None)"
  using assms
  by (auto simp: hub_try_recv_def hub_queue_def local_client_def amap_get_write fun_eq_iff Let_def
      split: option.splits if_splits)

lemma hub_idle:
  assumes "local_client h ep \<noteq> None" and "hub_queue h (ep_local_client_id ep) = Some []"
  shows "hub_try_recv h ep = (Ok None, h)"
  using assms by (auto simp: hub_try_recv_def hub_queue_def local_client_def split: option.splits if_splits)

lemma pump_idle: "recv t = (Ok None, t) \<Longrightarrow> pump_ingress_loop recv send now ingress n t w pump = Some (Ok pump, t, w)"
  by (cases n) simp_all

lemma client_idle: "recv t = (Ok None, t) \<Longrightarrow> client_owned_loop recv cfg n t st pump = (Ok pump, t, st)"
  by (cases n) simp_all

text \<open>What the command bridge puts on the wire decodes to the command.\<close>

lemma sent_command_decodes:
  assumes "encode_command f [] = (Ok (), bs)" and "length bs < usize_max"
  shows "binary_decode bs = Ok (RfCommand f)"
proof -
  have ok: "frame_ok (RfCommand f)"
  proof (rule ccontr)
    assume "\<not> frame_ok (RfCommand f)"
    from encode_frame_cases(2) [OF this] assms(1) show False by (auto simp: fails_def encode_frame_def) (metis Inl_Inr_False prod.inject)
  qed
  then have "bs = enc_frame (RfCommand f)"
    using encode_frame_cases(1) [OF ok] assms(1) by (simp add: writes_def encode_frame_def)
  then show ?thesis using binary_decode_reads(1) [OF frame_reads [OF ok]] assms(2) by simp
qed

text \<open>The gateway's packet step is the pipeline's own processing.\<close>

lemma ingress_packet_processes:
  assumes "binary_decode (ip_bytes p) = Ok (RfCommand f)" and "ip_client_id p = Some (cf_client_id f)"
  shows "\<exists>rep w'. process_ingress_packet w p now ingress = Some (Ok (cf_client_id f, length (ip_bytes p), rep), w') \<and>
    process (iw_pipeline w) (iw_gateway w) (iw_queues w) (ip_bytes p) now ingress =
      (rep, iw_pipeline w', iw_gateway w', iw_queues w')"
proof -
  obtain pl where pl: "decode_command_frame (iw_pipeline w) (ip_bytes p) = (Ok f, pl)"
    using assms(1) by (auto simp: decode_command_frame_def Let_def)
  obtain rep pl1 gw1 qs1 where run: "process_command_frame pl (iw_gateway w) (iw_queues w) f now ingress = (rep, pl1, gw1, qs1)"
    by (metis prod_cases4)
  show ?thesis using pl run assms(2) by (simp add: process_ingress_packet_def process_def Let_def)
qed

text \<open>Every acknowledgement is 28 bytes long.\<close>

lemma report_ack_length:
  "rejected_report pl c cmd s now reason err = (rep, pl1) \<Longrightarrow> pp_ack_bytes rep = Some bs \<Longrightarrow> length bs = 28"
  "accepted_report pl c cmd s' now = (rep, pl1) \<Longrightarrow> pp_ack_bytes rep = Some bs \<Longrightarrow> length bs = 28"
  by (auto simp: report_defs enc_frame_def enc_body_def enc_ack_def split: if_splits)

lemma process_ack_length:
  assumes run: "process pl gw qs input now ingress = (rep, pl', gw', qs')" and ack: "pp_ack_bytes rep = Some bs"
  shows "length bs = 28"
proof (cases rule: decode_command_cases [of pl input])
  case (command f pl1)
  then have "process_command_frame pl1 gw qs f now ingress = (rep, pl', gw', qs')" using run by (simp add: process_def)
  then show ?thesis by (cases rule: process_frame_cases) (use ack report_ack_length in auto)
qed (use run ack in \<open>auto simp: process_def default_report_def\<close>)

section \<open>There and back\<close>

text \<open>C5. The client learns the verdict on its command. On a hub where client and server are registered, have
  empty queues and room for one packet, a command that fits is sent, pumped by the gateway and answered,
  whatever the verdict; the client's pump then yields exactly one acknowledgement: it names the client
  and the command, and its verdict and reason are those of processing the command in the gateway's
  sessions and queues.\<close>

theorem client_learns_the_verdict:
  fixes h :: "'addr hub"
  assumes ends: "ep_local_client_id server \<noteq> ep_local_client_id client"
      "cc_client_id cfg = ep_local_client_id client" "cc_server_id cfg = ep_local_client_id server"
      "cc_expected_source cfg = None \<or> cc_expected_source cfg = Some (cc_server_id cfg)"
    and quiet: "hub_queue h (cc_client_id cfg) = Some []" "hub_queue h (cc_server_id cfg) = Some []"
    and registered: "local_client h client \<noteq> None" "local_client h server \<noteq> None"
    and room: "0 < ct_max_queued_packets (hb_limits h)" "28 \<le> ct_max_packet_bytes (hb_limits h)"
      "ct_max_packet_bytes (hb_limits h) < usize_max"
    and command: "cf_client_id f = cc_client_id cfg" "encode_command f [] = (Ok (), bs)"
      "length bs \<le> ct_max_packet_bytes (hb_limits h)"
    and pumps: "0 < n" "0 < m" "pc_ack_rejections (pl_config (iw_pipeline w))"
  shows "\<exists>sr st1 h1 pump h2 w' v inbox h3 st3.
    send_command_frame (\<lambda>h. hub_send h client) cfg st h f = (Ok sr, st1, h1) \<and>
    pump_ingress (\<lambda>h. hub_try_recv h server) (\<lambda>h. hub_send h server) h1 w now ingress n = Some (Ok pump, h2, w') \<and>
    client_pump_owned (\<lambda>h. hub_try_recv h client) cfg st1 h2 m = (Ok inbox, h3, st3) \<and>
    process (iw_pipeline w) (iw_gateway w) (iw_queues w) bs now ingress = (v, iw_pipeline w', iw_gateway w', iw_queues w') \<and>
    cp_reports pump = [v] \<and> in_replication_frames inbox = [] \<and> in_barriers inbox = [] \<and>
    in_command_acks inbox = [\<lparr>ack_client_id = cc_client_id cfg, ack_command_id = cf_command_id f, ack_server_tick = now,
      ack_accepted = pp_accepted v, ack_reason_code = pp_reason_code v\<rparr>]"
proof -
  note own = command(1)
  obtain h1 where out: "hub_send h client \<lparr>op_client_id = cc_server_id cfg, op_bytes = bs\<rparr> = (Ok (), h1)"
    using hub_sends [of h client "\<lparr>op_client_id = cc_server_id cfg, op_bytes = bs\<rparr>"] registered(1) quiet(2) room(1) command(3)
    by auto
  obtain sr st1 where sent: "send_command_frame (\<lambda>h. hub_send h client) cfg st h f = (Ok sr, st1, h1)"
    using command out by (simp add: send_command_frame_def)
  let ?p = "stamped h client \<lparr>op_client_id = cc_server_id cfg, op_bytes = bs\<rparr>"
  have p: "ip_client_id ?p = Some (cf_client_id f)" "ip_bytes ?p = bs" using own ends(2) by (simp_all add: stamped_def)
  from hub_sent [OF out] quiet have h1: "hub_queue h1 = (hub_queue h)(cc_server_id cfg \<mapsto> [?p])"
    "hb_limits h1 = hb_limits h" "\<And>e. local_client h e \<noteq> None \<Longrightarrow> local_client h1 e \<noteq> None"
    by auto
  have dec: "binary_decode bs = Ok (RfCommand f)" by (rule sent_command_decodes [OF command(2)]) (use room command in simp)
  have "hub_queue h1 (ep_local_client_id server) = Some [?p]" using h1(1) ends(3) by simp
  from hub_received [OF h1(3) [OF registered(2)] this] obtain hr where hr: "hub_try_recv h1 server = (Ok (Some ?p), hr)"
    "hub_queue hr = (hub_queue h1)(ep_local_client_id server \<mapsto> [])" "hb_limits hr = hb_limits h1"
    "\<And>e. local_client h1 e \<noteq> None \<Longrightarrow> local_client hr e \<noteq> None" by blast
  obtain v w1 where step: "process_ingress_packet w ?p now ingress =
      Some (Ok (cf_client_id f, length bs, v) :: hub_error client_error + _, w1)"
    and proc: "process (iw_pipeline w) (iw_gateway w) (iw_queues w) bs now ingress =
      (v, iw_pipeline w1, iw_gateway w1, iw_queues w1)"
    using ingress_packet_processes [of ?p f w now ingress] dec p by auto
  obtain ack where ack: "pp_ack_bytes v = Some ack" "binary_decode ack = Ok (RfCommandAck \<lparr>ack_client_id = cf_client_id f,
      ack_command_id = cf_command_id f, ack_server_tick = now, ack_accepted = pp_accepted v, ack_reason_code = pp_reason_code v\<rparr>)"
    using process_says [OF proc dec] pumps(3) by (auto simp: acknowledged_def)
  have queues: "hub_queue hr (cf_client_id f) = Some []" using hr(2) h1(1) quiet(1) own ends by simp
  obtain hs where reply: "hub_send hr server \<lparr>op_client_id = cf_client_id f, op_bytes = ack\<rparr> = (Ok (), hs)"
    using hub_sends [of hr server "\<lparr>op_client_id = cf_client_id f, op_bytes = ack\<rparr>"] hr(3,4) h1(2,3) registered(2) queues
      room process_ack_length [OF proc ack(1)] by auto
  let ?a = "stamped hr server \<lparr>op_client_id = cf_client_id f, op_bytes = ack\<rparr>"
  from hub_sent [OF reply] queues have hs: "hub_queue hs = (hub_queue hr)(cf_client_id f \<mapsto> [?a])"
    "\<And>e. local_client hr e \<noteq> None \<Longrightarrow> local_client hs e \<noteq> None" by auto
  have "hub_try_recv hs server = (Ok None, hs)"
    using hs hr(2,4) h1(3) registered(2) own ends by (intro hub_idle) auto
  then obtain pump where pumped: "pump_ingress (\<lambda>h. hub_try_recv h server) (\<lambda>h. hub_send h server) h1 w now ingress n =
      Some (Ok pump, hs, count_ack (length ack) w1)" "cp_reports pump = [v]"
    using pump_idle [of "\<lambda>h. hub_try_recv h server" hs] gr0_implies_Suc [OF pumps(1)]
    by (auto simp: pump_ingress_def hr(1) step ack(1) reply Let_def client_pump_zero_def)
  have there: "local_client hs client \<noteq> None" "hub_queue hs (ep_local_client_id client) = Some [?a]"
    using hs hr(4) h1(3) registered(1) own ends(2) by auto
  from hub_received [OF there] obtain hc where hc: "hub_try_recv hs client = (Ok (Some ?a), hc)"
    "hub_queue hc = (hub_queue hs)(ep_local_client_id client \<mapsto> [])"
    "\<And>e. local_client hs e \<noteq> None \<Longrightarrow> local_client hc e \<noteq> None" by blast
  have idle: "hub_try_recv hc client = (Ok None, hc)" using hc(2,3) there(1) by (intro hub_idle) auto
  have a: "ip_client_id ?a = Some (cc_server_id cfg)" "ip_bytes ?a = ack" using ends(3) by (simp_all add: stamped_def)
  have source: "wrong_source (cc_expected_source cfg) ?a = None" using ends(4) a(1) by (auto simp: wrong_source_def)
  have "\<exists>inbox st3. client_pump_owned (\<lambda>h. hub_try_recv h client) cfg st1 hs m = (Ok inbox, hc, st3) \<and>
    in_replication_frames inbox = [] \<and> in_barriers inbox = [] \<and>
    in_command_acks inbox = [\<lparr>ack_client_id = cf_client_id f, ack_command_id = cf_command_id f, ack_server_tick = now,
      ack_accepted = pp_accepted v, ack_reason_code = pp_reason_code v\<rparr>]"
    using client_idle [of "\<lambda>h. hub_try_recv h client" hc] idle gr0_implies_Suc [OF pumps(2)]
    by (auto simp: client_pump_owned_def hc(1) Let_def source [unfolded own] a(2) [unfolded own] ack(2) [unfolded own]
        accept_owned_def validate_client_target_def own inbox_empty_def)
  moreover have "process (iw_pipeline w) (iw_gateway w) (iw_queues w) bs now ingress =
      (v, iw_pipeline (count_ack (length ack) w1), iw_gateway (count_ack (length ack) w1), iw_queues (count_ack (length ack) w1))"
    using proc by (simp add: count_ack_def)
  ultimately show ?thesis unfolding own using sent pumped by blast
qed

definition demo_hub :: "nat hub" where
  "demo_hub = snd (hub_register_client (snd (hub_register_client (hub_new default_client_limits) 1 100)) 7 107)"

definition demo_server :: endpoint where
  "demo_server = \<lparr>ep_local_client_id = 1, ep_registration_token = Some 1\<rparr>"

definition demo_client :: endpoint where
  "demo_client = \<lparr>ep_local_client_id = 7, ep_registration_token = Some 2\<rparr>"

lemma demo_hub_facts:
  "hub_queue demo_hub 7 = Some []" "hub_queue demo_hub 1 = Some []" "local_client demo_hub demo_client \<noteq> None"
  "local_client demo_hub demo_server \<noteq> None" "hb_limits demo_hub = default_client_limits"
  by (simp_all add: demo_hub_def demo_server_def demo_client_def hub_queue_def hub_eval)

lemma client_learns_the_verdict_witness:
  "\<exists>f sr st1 h1 pump h2 w' inbox h3 st3 bs v.
    send_command_frame (\<lambda>h. hub_send h demo_client) (client_config_new 7 1) client_transport_stats_zero demo_hub f = (Ok sr, st1, h1) \<and>
    pump_ingress (\<lambda>h. hub_try_recv h demo_server) (\<lambda>h. hub_send h demo_server) h1 demo_world 10 ingress_running 4 = Some (Ok pump, h2, w') \<and>
    client_pump_owned (\<lambda>h. hub_try_recv h demo_client) (client_config_new 7 1) st1 h2 4 = (Ok inbox, h3, st3) \<and>
    in_command_acks inbox = [\<lparr>ack_client_id = 7, ack_command_id = 1, ack_server_tick = 10,
      ack_accepted = pp_accepted v, ack_reason_code = pp_reason_code v\<rparr>] \<and>
    process (pipeline_new default_pipeline_config) demo_clients demo_queues bs 10 ingress_running =
      (v, iw_pipeline w', iw_gateway w', iw_queues w') \<and> encode_command f [] = (Ok (), bs)"
proof -
  obtain f where f: "demo_frame = RfCommand f" "cf_client_id f = 7" "cf_command_id f = 1" "cf_payload f = [1, 2, 3]"
    by (simp add: demo_frame_def)
  have enc: "encode_command f [] = (Ok (), enc_frame demo_frame)"
    unfolding f(1) using encode_frame_cases(1) [of "RfCommand f"] f(4)
    by (simp add: frame_ok_def bytes_ok_def writes_def encode_frame_def)
  have size: "length (enc_frame demo_frame) \<le> ct_max_packet_bytes (hb_limits demo_hub)"
    by (simp add: demo_hub_facts demo_frame_def enc_frame_def enc_body_def enc_command_def enc_bytes_def default_client_limits_def)
  have ends: "ep_local_client_id demo_server \<noteq> ep_local_client_id demo_client"
    "cc_client_id (client_config_new 7 1) = ep_local_client_id demo_client"
    "cc_server_id (client_config_new 7 1) = ep_local_client_id demo_server"
    "cc_expected_source (client_config_new 7 1) = None \<or> cc_expected_source (client_config_new 7 1) = Some (cc_server_id (client_config_new 7 1))"
    by (simp_all add: demo_server_def demo_client_def client_config_new_def)
  have quiet: "hub_queue demo_hub (cc_client_id (client_config_new 7 1)) = Some []"
    "hub_queue demo_hub (cc_server_id (client_config_new 7 1)) = Some []"
    "cf_client_id f = cc_client_id (client_config_new 7 1)"
    using f by (simp_all add: client_config_new_def demo_hub_facts)
  have room: "0 < ct_max_queued_packets (hb_limits demo_hub)" "28 \<le> ct_max_packet_bytes (hb_limits demo_hub)"
    "ct_max_packet_bytes (hb_limits demo_hub) < usize_max" "0 < (4 :: usize)"
    "pc_ack_rejections (pl_config (iw_pipeline demo_world))"
    by (simp_all add: demo_hub_facts default_client_limits_def usize_max_def demo_world_def pipeline_new_def default_pipeline_config_def)
  have world: "iw_pipeline demo_world = pipeline_new default_pipeline_config" "iw_gateway demo_world = demo_clients"
    "iw_queues demo_world = demo_queues" "cc_client_id (client_config_new 7 1) = 7"
    by (simp_all add: demo_world_def client_config_new_def)
  show ?thesis
    using client_learns_the_verdict [OF ends quiet(1,2) demo_hub_facts(3,4) room(1-3) quiet(3) enc size room(4,4,5),
        of client_transport_stats_zero 10 ingress_running]
    unfolding world f(3)
    by (elim exE conjE) (intro exI conjI, assumption, assumption, assumption, assumption, assumption, rule enc)
qed

end
