(* ===== verification/Outbound_Bridges.thy ===== *)
theory Outbound_Bridges
  imports Frame_Builder Packets
begin






datatype 'e outbound_error = OutboundEncode binary_encode_error | OutboundTransport 'e





section \<open>Barrier notices\<close>

record barrier_transport_stats =
  bts_notifications_sent :: usize
  bts_clients_notified :: usize
  bts_bytes_sent :: usize

definition barrier_transport_stats_zero :: barrier_transport_stats where
  "barrier_transport_stats_zero = \<lparr>bts_notifications_sent = 0, bts_clients_notified = 0, bts_bytes_sent = 0\<rparr>"

record barrier_transport_report =
  btr_barrier_id :: barrier_id
  btr_state :: barrier_state
  btr_server_tick :: tick
  btr_clients_requested :: usize
  btr_clients_sent :: usize
  btr_bytes_sent :: usize

definition send_state ::
  "('t, 'e, outbound_packet) sink \<Rightarrow> barrier_transport_stats \<Rightarrow> 't \<Rightarrow> client_id \<Rightarrow> barrier_id \<Rightarrow> tick \<Rightarrow> barrier_state \<Rightarrow>
   ('e outbound_error + usize) \<times> barrier_transport_stats \<times> 't" where
  "send_state send st t c b now s =
     (case encode_barrier \<lparr>bf_client_id = c, bf_barrier_id = b, bf_server_tick = now, bf_state = s\<rparr> [] of
        (Inl e, _) \<Rightarrow> (Err (OutboundEncode e), st, t)
      | (Inr _, bs) \<Rightarrow>
          (case send t \<lparr>op_client_id = c, op_bytes = bs\<rparr> of
             (Inl e, t1) \<Rightarrow> (Err (OutboundTransport e), st, t1)
           | (Inr _, t1) \<Rightarrow>
               (Ok (length bs),
                st\<lparr>bts_notifications_sent := usize_add (bts_notifications_sent st) 1,
                   bts_clients_notified := usize_add (bts_clients_notified st) 1,
                   bts_bytes_sent := usize_add (bts_bytes_sent st) (length bs)\<rparr>, t1)))"

definition send_barrier ::
  "('t, 'e, outbound_packet) sink \<Rightarrow> barrier_transport_stats \<Rightarrow> 't \<Rightarrow> client_id \<Rightarrow> runtime_barrier \<Rightarrow>
   ('e outbound_error + usize) \<times> barrier_transport_stats \<times> 't" where
  "send_barrier send st t c b = send_state send st t c (rb_id b) (rb_target_tick b) (rb_state b)"

fun broadcast_loop ::
  "('t, 'e, outbound_packet) sink \<Rightarrow> client_id list \<Rightarrow> barrier_transport_stats \<Rightarrow> 't \<Rightarrow> barrier_transport_report \<Rightarrow>
   ('e outbound_error + barrier_transport_report) \<times> barrier_transport_stats \<times> 't" where
  "broadcast_loop send [] st t rep = (Ok rep, st, t)"
| "broadcast_loop send (c # cs) st t rep =
     (let rep = rep\<lparr>btr_clients_requested := usize_add (btr_clients_requested rep) 1\<rparr> in
      case send_state send st t c (btr_barrier_id rep) (btr_server_tick rep) (btr_state rep) of
        (Inl e, st1, t1) \<Rightarrow> (Err e, st1, t1)
      | (Inr n, st1, t1) \<Rightarrow>
          broadcast_loop send cs st1 t1
            (rep\<lparr>btr_clients_sent := usize_add (btr_clients_sent rep) 1,
                 btr_bytes_sent := usize_add (btr_bytes_sent rep) n\<rparr>))"

definition broadcast_state ::
  "('t, 'e, outbound_packet) sink \<Rightarrow> barrier_transport_stats \<Rightarrow> 't \<Rightarrow> client_id list \<Rightarrow> barrier_id \<Rightarrow> tick \<Rightarrow> barrier_state \<Rightarrow>
   ('e outbound_error + barrier_transport_report) \<times> barrier_transport_stats \<times> 't" where
  "broadcast_state send st t clients b now s =
     broadcast_loop send clients st t
       \<lparr>btr_barrier_id = b, btr_state = s, btr_server_tick = now, btr_clients_requested = 0, btr_clients_sent = 0,
        btr_bytes_sent = 0\<rparr>"

definition broadcast_barrier ::
  "('t, 'e, outbound_packet) sink \<Rightarrow> barrier_transport_stats \<Rightarrow> 't \<Rightarrow> client_id list \<Rightarrow> runtime_barrier \<Rightarrow>
   ('e outbound_error + barrier_transport_report) \<times> barrier_transport_stats \<times> 't" where
  "broadcast_barrier send st t clients b = broadcast_state send st t clients (rb_id b) (rb_target_tick b) (rb_state b)"

section \<open>What is sent\<close>

text \<open>A broadcast is the default batch send of the notices: the first refusal ends it.\<close>

definition notice :: "barrier_id \<Rightarrow> tick \<Rightarrow> barrier_state \<Rightarrow> client_id \<Rightarrow> outbound_packet" where
  "notice b now s c =
     \<lparr>op_client_id = c,
      op_bytes = enc_frame (RfBarrier \<lparr>bf_client_id = c, bf_barrier_id = b, bf_server_tick = now, bf_state = s\<rparr>)\<rparr>"

lemma barrier_encodes: "encode_barrier f [] = (Ok (), enc_frame (RfBarrier f))"
  using encode_frame_cases(1) [of "RfBarrier f"] by (simp add: frame_ok_def encode_frame_def writes_def)

lemma broadcast_loop_sends:
  "broadcast_loop send clients st t rep = (r, st', t') \<Longrightarrow> btr_clients_sent rep \<le> usize_max \<Longrightarrow>
   (case send_each send t (map (notice (btr_barrier_id rep) (btr_server_tick rep) (btr_state rep)) clients) of
      (Inl e, t1) \<Rightarrow> r = Err (OutboundTransport e) \<and> t' = t1
    | (Inr _, t1) \<Rightarrow> t' = t1 \<and> (\<exists>rep'. r = Ok rep' \<and> btr_clients_sent rep' = min (btr_clients_sent rep + length clients) usize_max))"
proof (induction clients arbitrary: st t rep)
  case (Cons c cs)
  obtain x t1 where sent: "send t (notice (btr_barrier_id rep) (btr_server_tick rep) (btr_state rep) c) = (x, t1)" by fastforce
  show ?case
  proof (cases x)
    case (Inl e)
    then show ?thesis using Cons.prems sent
      by (auto simp: send_state_def barrier_encodes Let_def notice_def)
  next
    case (Inr u)
    define rep1 where "rep1 = rep\<lparr>btr_clients_requested := usize_add (btr_clients_requested rep) 1,
      btr_clients_sent := usize_add (btr_clients_sent rep) 1,
      btr_bytes_sent := usize_add (btr_bytes_sent rep) (length (op_bytes (notice (btr_barrier_id rep) (btr_server_tick rep) (btr_state rep) c)))\<rparr>"
    obtain st1 where "broadcast_loop send cs st1 t1 rep1 = (r, st', t')"
      using Cons.prems(1) sent Inr by (simp add: send_state_def barrier_encodes Let_def notice_def rep1_def)
    from Cons.IH [OF this] show ?thesis using sent Inr
      by (auto simp: rep1_def usize_add_def split: prod.splits sum.splits)
  qed
qed auto

section \<open>Properties\<close>



end
