(* ===== verification/Spec2Isabelle.thy ===== *)
theory Spec2Isabelle
  imports Command_Queues Event_Queues Wire_Borrowed Gateway Replication_Tracker Replication_Batch Hotspot
    Frame_Builder Packet_Session Reliable_Adapters Memory_Station Udp_Transport Station_Scheduler
    Command_Bridge Barrier_Controller Load_Sampler Client_Roundtrip Outbound_Bridges
begin

text \<open>
  A verification development for SectorSync, Rust middleware that replicates spatial entities
  across simulation stations (\<open>src/crates/\<close>).

  The program. A station (\<open>sectorsync-core/src/station.rs\<close>) owns the entities of one region: a slab
  of records reached through generation-checked handles, and an index from global identifiers to
  handles. Entities carry a role, either owned with an authority epoch or a read-only ghost of
  another station, and move between stations by a prepare and commit hand-off. Commands and events
  reach a station through bounded priority queues; a runtime barrier can hold commands back and
  release them later. Clients are attached by the gateway session table, which routes, rate-limits
  and de-duplicates their commands. Embedder-defined components are described by schemas in a
  registry and kept as blobs in the component store, which a hand-off copies. For each viewer the
  cell index proposes candidates, the planner selects what the next frame carries within cadence and
  budget, the tracker remembers what was sent and acknowledged, and the frame builder turns the plan
  into a frame. The wire crate turns frames into bytes and back; the transport crate seals them into
  authenticated envelopes and carries them over links that retry, acknowledge and suppress duplicates.

  The theories, in dependency order.

  \<^item> \<open>Sync_Prelude\<close>: machine words and their saturating operations, \<open>Result\<close> as a sum with the error
    on the left, vectors, finite maps. A panic is \<open>None\<close>; operations on \<open>&mut self\<close> return their
    result with the new state.
  \<^item> \<open>Float32\<close>, \<open>Spatial\<close>: IEEE binary32 on bit patterns, boxes, planes, frusta and grid cells
    (\<open>spatial.rs\<close>).
  \<^item> \<open>Entities\<close>: identifiers, handles, tags, dirty masks, roles, records, hand-off transfers, the
    policy table, barriers and snapshots (\<open>ids.rs\<close>, \<open>entity.rs\<close>, \<open>handoff.rs\<close>, \<open>policy.rs\<close>,
    \<open>barrier.rs\<close>, \<open>snapshot.rs\<close>).
  \<^item> \<open>Station\<close>: the slab store with every operation. The invariant ties slots, generations, free
    list and index together along every reachable state; spawning and removing refine a map from
    identifiers to records; stale handles never resolve; a hand-off transfers the exact state and
    authority once; snapshots restore. Edits through \<open>get_mut\<close> must keep identifier and handle, and
    a committed transfer must carry the record of the entity it names, which the code does not check.
  \<^item> \<open>Lane_Bank\<close>, \<open>Command_Queues\<close>, \<open>Event_Queues\<close>: the locale \<open>lane_bank\<close> states what a bank of
    priority lanes promises and is interpreted on the command queues (\<open>command.rs\<close>) and the event
    queues (\<open>event.rs\<close>). Bounds, conservation of commands, the exact effect of releasing a barrier
    buffer, and draining as a partition.
  \<^item> \<open>Codec\<close>, \<open>Wire\<close>, \<open>Wire_Borrowed\<close>: the byte cursor, the binary encoder and decoder and the
    borrowed replication decoder (\<open>sectorsync-wire/src/lib.rs\<close>). The locales \<open>codec\<close> and
    \<open>canonical_codec\<close> state that a reader inverts an encoder and accepts nothing else; they are
    interpreted on every field and frame. Round trip, exact acceptance, truncation, agreement of
    the two decoders.
  \<^item> \<open>Adaptive_Map\<close>, \<open>Gateway\<close>: the map that changes from a tree to a hash table as it grows, with
    the locale \<open>keyed_map\<close> that hides the change, and the session table (\<open>gateway.rs\<close>). Its lazily
    compacted expiry heap is a sorted list of deadline entries. Bounds, equivalence of the heap
    pass with a full scan, strictly increasing accepted sequence numbers.
  \<^item> \<open>Component_Schema\<close>, \<open>Component_Store\<close>: codecs (locale \<open>value_codec\<close>), generated schemas with
    their layout check and FNV-1a hash, the registry, and the blob store with dense and sparse
    columns (\<open>component.rs\<close>). Validation decides layouts, the hash determines the schema's bytes,
    the store refines a flat map, removal and migration are exact.
  \<^item> \<open>Cell_Index\<close>, \<open>Interest\<close>: the occupied-cell index (\<open>spatial_index.rs\<close>) refines the map from entities
    to their latest bounds, and its two query strategies with the epoch-marked duplicate filter return
    every handle of the box once; visibility filters (\<open>interest.rs\<close>), whose distance shortcut is the
    contract \<open>distance_filter\<close>.
  \<^item> \<open>Float32_Order\<close>, \<open>Selection\<close>: order lemmas for the float operations; sorting and partial selection
    by a comparator, where the standard library's selection is a parameter with its documented effect.
  \<^item> \<open>Replication_Tracker\<close>, \<open>Replication_Cadence\<close>, \<open>Replication_Planner\<close>, \<open>Replication_Batch\<close>: the parts of
    \<open>replication.rs\<close>. The tracker is bounded and all or nothing; update rates stay between the policy's
    limits; first fit takes the first candidates and the prioritized planner the best ones; a batch with
    cached ranges and the eight-lane range planner compute what the simple planners compute.
  \<^item> \<open>Hotspot\<close>: pressure scores, thresholds and split proposals (\<open>hotspot.rs\<close>).
  \<^item> \<open>Frame_Builder\<close>: the frame builder of the wire crate and the direct encoder, which writes the same
    bytes under a byte budget.
  \<^item> \<open>Recent_History\<close>: the bounded set with its insertion order (\<open>BoundedLookupSet\<close> of
    \<open>sectorsync-transport/src/lib.rs\<close>) that replay windows and duplicate histories share; the locale
    \<open>recent_history\<close> states what such a history remembers and is interpreted on both.
  \<^item> \<open>Packet_Keys\<close>, \<open>Byte_Cursor\<close>, \<open>Packet_Security\<close>, \<open>Packet_Session\<close>: the key ring, the checked
    cursor, envelopes, the replay window and the security box of the transport crate. The
    authenticator and the cipher are parameters. What is opened was verified and is new; a session
    no longer than the replay window is delivered exactly once in any arrival order.
  \<^item> \<open>Reliable_Link\<close>, \<open>Reliable_Sender\<close>, \<open>Reliable_Delivery\<close>, \<open>Reliable_Adapters\<close>: the reliable links.
    The code has the same link twice, for clients and for stations; the model has it once and names
    both instances. The window and the retry deadlines are exact, retries spaced by the interval end,
    and over an arbitrary network (a transition system) nothing is altered, and nothing is delivered
    again before it has left the bounded duplicate history.
  \<^item> \<open>Packets\<close>, \<open>Address_Book\<close>, \<open>Mailbox\<close>, \<open>Memory_Transport\<close>, \<open>Memory_Station\<close>, \<open>Udp_Transport\<close>: packets,
    batches, the byte-budget guard, the counting sink, and the transports over them. The locale
    \<open>mailbox\<close> states what a bounded first-in first-out post office promises; the client hub and the
    station transport interpret it. The UDP adapters keep a one-to-one book of addresses; the socket is
    a parameter.
  \<^item> \<open>Keyed_Vec\<close>, \<open>Station_Set\<close>, \<open>Migration\<close>, \<open>Cell_Migration\<close>, \<open>Split_Scheduler\<close>: the stations of a process
    (\<open>sectorsync-runtime/src/lib.rs\<close>). A vector with a keyed lookup (locale \<open>keyed_lookup\<close>) holds the
    stations and their indexes; migrations of entities and of whole cells conserve authority; the
    split scheduler plans only what its limits allow and its execution keeps authority unique.

  \<^item> \<open>Packet_Pump\<close>, \<open>Event_Router\<close>, \<open>Command_Bridge\<close>: events and commands between stations. The locale
    \<open>packet_bridge\<close> states what a pump of encoded packets owes to the operation it feeds, and is
    interpreted on the event bridge and the command bridge: carrying something between processes is
    doing it locally. The router accounts for every event (a ledger beside the run) and
    delivers the events of one station, priority and tick in the order they were routed.
  \<^item> \<open>Station_Scheduler\<close>, \<open>Load_Sampler\<close>: one tick for the most loaded stations, and the census of load
    that the schedulers and the hotspot detection read.
  \<^item> \<open>Barrier_Controller\<close>: requests, polls, exports, resumes and advancing stations as a step relation; a
    barrier is frozen exactly when every covered station has arrived; upgrades are all or nothing and
    report the first failure in the order of the code.
  \<^item> \<open>Deployment\<close>: the table of nodes and station placements (\<open>deployment.rs\<close>), exact in every reachable
    state; a placement is accepted exactly by an online node that has the station or has room.
  \<^item> \<open>Gateway_Pipeline\<close>, \<open>Client_Ingress\<close>: decoding, admitting and queueing a client's command, the
    acknowledgement that tells what happened, dispatch to another node, and the pump over a client
    transport.
  \<^item> \<open>Client_Receive\<close>, \<open>Client_Transport\<close>, \<open>Client_Roundtrip\<close>: the client's side, with the owning and the
    visiting pump that agree, and a whole round trip of a command over the in-memory hub.
  \<^item> \<open>Outbound_Bridges\<close>: a replication plan or a barrier notice as the packet that is sent.

  Modelling decisions. Identifiers are words of their width; a \<open>usize\<close> is a natural number that
  saturates at \<open>usize_max\<close> where the code saturates; the statistics that the code counts with \<open>+= 1\<close>
  are unbounded, being bounded by the work done in one call or, for the router, by a condition of the
  property. Ordered and hashed maps are finite maps, their
  iteration order being the key order where the code iterates an ordered map. Binary heaps are
  sorted lists, double-ended queues are lists. Loops are structural or have a measure, so nothing
  here runs on fuel. Inputs to the decoders are shorter than the address space. Operations that
  only reserve or release memory, capacity getters and the formatting of messages are not modelled.

  Not modelled: the thread pools of \<open>sectorsync-runtime/src/parallel.rs\<close>, which hand the same planning
  calls to operating-system threads; the product facade (\<open>src/crates/sectorsync\<close>), which composes the
  components above and forwards to them; the benchmark crate, which is outside the product; and
  re-exports, error messages and capacity getters everywhere.
\<close>

end
